(* ===== verification/Go_Prelude.thy ===== *)
theory Go_Prelude
  imports Main "HOL-Library.Word"
begin

text \<open>
  Prelude of the development: the names of the Go types the program uses, the sum-typed results
  its error returns become, wall-clock time with the saturating and wrapping arithmetic of package
  \<open>time\<close>, and the generic list and map lemmas the components share.

  Go strings and byte slices are \<open>string\<close> (a list of 8-bit characters), so \<open>length\<close> counts bytes
  as \<open>len\<close> does. \<open>uint64\<close> is \<open>64 word\<close>; \<open>int\<close> and \<open>int64\<close> values are \<open>int\<close>, with the wrap-around
  written out (\<open>wrap64\<close>) where the program can reach it. A \<open>time.Time\<close> is its instant, in
  nanoseconds since the Unix epoch; the location and the monotonic reading are not kept, which
  agrees with the program's use of comparisons, \<open>Sub\<close>, \<open>Add\<close> and \<open>UTC().Format\<close> only.
\<close>

type_synonym bytes = string
type_synonym u64 = "64 word"
type_synonym go_time = int
type_synonym go_duration = int

named_theorems go_time_simps \<open>unfolding the arithmetic of package time\<close>
named_theorems bolt_rules \<open>what the store's operations do to a bbolt transaction\<close>
named_theorems json_rt \<open>round trips of the JSON encodings\<close>

section \<open>Results\<close>

text \<open>A Go function returning \<open>(a, error)\<close> is a sum: \<open>Inl\<close> the error, \<open>Inr\<close> the value.\<close>

definition bindE :: "'e + 'a \<Rightarrow> ('a \<Rightarrow> 'e + 'b) \<Rightarrow> 'e + 'b" where
  "bindE r f = (case r of Inl e \<Rightarrow> Inl e | Inr a \<Rightarrow> f a)"

lemma bindE_simps [simp]:
  "bindE (Inl e) f = Inl e"
  "bindE (Inr a) f = f a"
  by (simp_all add: bindE_def)

lemma bindE_Inr_iff [simp]: "bindE r f = Inr b \<longleftrightarrow> (\<exists>a. r = Inr a \<and> f a = Inr b)"
  by (cases r) auto

lemma bindE_Inl_iff: "bindE r f = Inl e \<longleftrightarrow> (r = Inl e \<or> (\<exists>a. r = Inr a \<and> f a = Inl e))"
  by (cases r) auto

lemma bindE_cong [fundef_cong]:
  "r = s \<Longrightarrow> (\<And>a. s = Inr a \<Longrightarrow> f a = g a) \<Longrightarrow> bindE r f = bindE s g"
  by (cases s) auto

text \<open>An \<open>if cond { return err }\<close> guard.\<close>

definition guardE :: "bool \<Rightarrow> 'e \<Rightarrow> 'e + unit" where
  "guardE ok e = (if ok then Inr () else Inl e)"

lemma guardE_Inr [simp]: "guardE ok e = Inr u \<longleftrightarrow> ok"
  by (simp add: guardE_def)

lemma guardE_Inl [simp]: "guardE ok e = Inl e' \<longleftrightarrow> \<not> ok \<and> e' = e"
  by (auto simp add: guardE_def)

text \<open>A map over a list that stops at the first error.\<close>

fun mapE :: "('a \<Rightarrow> 'e + 'b) \<Rightarrow> 'a list \<Rightarrow> 'e + 'b list" where
  "mapE f [] = Inr []"
| "mapE f (x # xs) = bindE (f x) (\<lambda>y. bindE (mapE f xs) (\<lambda>ys. Inr (y # ys)))"

lemma mapE_Inr_iff: "mapE f xs = Inr ys \<longleftrightarrow> map f xs = map Inr ys"
proof (induction xs arbitrary: ys)
  case Nil
  then show ?case by auto
next
  case (Cons x xs)
  then show ?case by (cases ys) (auto simp: Cons)
qed

lemma mapE_map_Inr: "(\<And>x. x \<in> set xs \<Longrightarrow> f x = Inr (g x)) \<Longrightarrow> mapE f xs = Inr (map g xs)"
  by (induction xs) auto

lemma mapE_cong [fundef_cong]:
  "xs = ys \<Longrightarrow> (\<And>x. x \<in> set ys \<Longrightarrow> f x = g x) \<Longrightarrow> mapE f xs = mapE g ys"
  by (induction ys arbitrary: xs) auto

text \<open>A loop over a list whose body may return an error.\<close>

fun forE :: "('a \<Rightarrow> 'e + unit) \<Rightarrow> 'a list \<Rightarrow> 'e + unit" where
  "forE f [] = Inr ()"
| "forE f (x # xs) = bindE (f x) (\<lambda>_. forE f xs)"

lemma forE_Inr_iff [simp]: "forE f xs = Inr u \<longleftrightarrow> (\<forall>x \<in> set xs. f x = Inr ())"
  by (induction xs) auto

lemma forE_cong [fundef_cong]:
  "xs = ys \<Longrightarrow> (\<And>x. x \<in> set ys \<Longrightarrow> f x = g x) \<Longrightarrow> forE f xs = forE g ys"
  by (induction ys arbitrary: xs) auto

section \<open>Integers\<close>

definition max_int64 :: int where "max_int64 = 9223372036854775807"
definition min_int64 :: int where "min_int64 = - 9223372036854775808"

text \<open>Two's complement wrap-around of a 64-bit signed result.\<close>

definition wrap64 :: "int \<Rightarrow> int" where
  "wrap64 n = (n + 9223372036854775808) mod 18446744073709551616 - 9223372036854775808"

lemma wrap64_id [simp]: "min_int64 \<le> n \<Longrightarrow> n \<le> max_int64 \<Longrightarrow> wrap64 n = n"
  by (simp add: wrap64_def min_int64_def max_int64_def)

definition is_int64 :: "int \<Rightarrow> bool" where
  "is_int64 n \<longleftrightarrow> min_int64 \<le> n \<and> n \<le> max_int64"

lemma wrap64_range: "min_int64 \<le> wrap64 n \<and> wrap64 n \<le> max_int64"
proof -
  have "0 \<le> (n + 9223372036854775808) mod 18446744073709551616"
    and "(n + 9223372036854775808) mod 18446744073709551616 < 18446744073709551616"
    by simp_all
  then show ?thesis
    unfolding wrap64_def min_int64_def max_int64_def by linarith
qed

section \<open>Time\<close>

text \<open>\<open>time.Time{}\<close> is 1 January of year 1, UTC.\<close>

definition zero_time :: go_time where "zero_time = - 62135596800000000000"

definition is_zero :: "go_time \<Rightarrow> bool" where
  [go_time_simps]: "is_zero t \<longleftrightarrow> t = zero_time"

text \<open>\<open>t.Sub(u)\<close> saturates at the ends of \<open>time.Duration\<close>.\<close>

definition time_sub :: "go_time \<Rightarrow> go_time \<Rightarrow> go_duration" where
  "time_sub t u = max min_int64 (min max_int64 (t - u))"

text \<open>\<open>t.UnixNano()\<close> wraps outside the years 1678 to 2262; \<open>time.Unix(0, n)\<close> does not.\<close>

definition unix_nano :: "go_time \<Rightarrow> int" where
  "unix_nano t = wrap64 t"

definition time_unix0 :: "int \<Rightarrow> go_time" where
  "time_unix0 n = n"

lemma time_sub_mono: "t \<le> t' \<Longrightarrow> time_sub t u \<le> time_sub t' u"
  by (auto simp: time_sub_def)

lemma time_sub_antimono: "u \<le> u' \<Longrightarrow> time_sub t u' \<le> time_sub t u"
  by (auto simp: time_sub_def)

lemma time_sub_self [simp]: "time_sub t t = 0"
  by (simp add: time_sub_def min_int64_def max_int64_def)

lemma time_sub_le_iff:
  "min_int64 \<le> d \<Longrightarrow> d < max_int64 \<Longrightarrow> time_sub t u \<le> d \<longleftrightarrow> t - u \<le> d"
  by (auto simp: time_sub_def min_int64_def max_int64_def)

lemma time_sub_ge_iff:
  "min_int64 < d \<Longrightarrow> d \<le> max_int64 \<Longrightarrow> d \<le> time_sub t u \<longleftrightarrow> d \<le> t - u"
  by (auto simp: time_sub_def min_int64_def max_int64_def)

section \<open>Lists and maps\<close>

lemma map_of_Some_eq_in_set:
  "distinct (map fst xs) \<Longrightarrow> map_of xs k = Some v \<longleftrightarrow> (k, v) \<in> set xs"
  by (rule map_of_eq_Some_iff)

lemma last_filter_append:
  "last (filter P (xs @ [x])) = (if P x then x else last (filter P xs))"
  by simp

lemma sum_list_map_remove:
  fixes f :: "'a \<Rightarrow> 'b::comm_monoid_add"
  shows "sum_list (map f (xs @ x # ys)) = f x + sum_list (map f (xs @ ys))"
  by (simp add: add.left_commute)

lemma filter_id_iff [simp]: "(\<forall>x \<in> set xs. P x) \<Longrightarrow> filter P xs = xs"
  by (induction xs) auto

end
