(* ===== verification/Go_Strings.thy ===== *)
theory Go_Strings
  imports Go_Prelude
begin

text \<open>
  The parts of packages \<open>strings\<close>, \<open>strconv\<close>, \<open>unicode/utf8\<close>, \<open>encoding/hex\<close> and
  \<open>encoding/binary\<close> the program uses, on byte strings: UTF-8 validity and rune boundaries,
  trimming and case mapping, decimal and hexadecimal text, big-endian \<open>uint64\<close> keys and the
  byte-wise order of keys.
\<close>

section \<open>Bytes\<close>

definition byte :: "char \<Rightarrow> nat" where "byte c = of_char c"

definition chr :: "nat \<Rightarrow> char" where "chr n = char_of n"

lemma byte_less [simp]: "byte c < 256"
  by (simp add: byte_def)

lemma chr_byte [simp]: "chr (byte c) = c"
  by (simp add: byte_def chr_def)

lemma byte_chr: "byte (chr n) = n mod 256"
  by (simp add: byte_def chr_def)

lemma byte_chr_id [simp]: "n < 256 \<Longrightarrow> byte (chr n) = n"
  by (simp add: byte_chr)

lemma byte_eq_iff [simp]: "byte a = byte b \<longleftrightarrow> a = b"
  by (metis chr_byte)

definition is_digit :: "char \<Rightarrow> bool" where
  "is_digit c \<longleftrightarrow> 48 \<le> byte c \<and> byte c \<le> 57"

definition is_lower :: "char \<Rightarrow> bool" where
  "is_lower c \<longleftrightarrow> 97 \<le> byte c \<and> byte c \<le> 122"

definition is_upper :: "char \<Rightarrow> bool" where
  "is_upper c \<longleftrightarrow> 65 \<le> byte c \<and> byte c \<le> 90"

text \<open>\<open>bytes.Compare\<close>: lexicographic order of the byte values, the order of a bucket's keys.\<close>

fun bytes_less :: "bytes \<Rightarrow> bytes \<Rightarrow> bool" where
  "bytes_less _ [] = False"
| "bytes_less [] (_ # _) = True"
| "bytes_less (a # s) (b # t) = (byte a < byte b \<or> (a = b \<and> bytes_less s t))"

lemma bytes_less_irrefl [simp]: "\<not> bytes_less s s"
  by (induction s) auto

lemma bytes_less_trans: "bytes_less s t \<Longrightarrow> bytes_less t u \<Longrightarrow> bytes_less s u"
proof (induction s u arbitrary: t rule: bytes_less.induct)
  case (1 s)
  then show ?case by (cases t) auto
next
  case (2 b u)
  then show ?case by simp
next
  case (3 a s b u)
  then show ?case by (cases t) auto
qed

lemma bytes_less_linear: "bytes_less s t \<or> s = t \<or> bytes_less t s"
proof (induction s t rule: bytes_less.induct)
  case (1 s)
  then show ?case by (cases s) auto
next
  case (3 a s b t)
  then show ?case using byte_eq_iff [of a b] by (cases "byte a" "byte b" rule: linorder_cases) auto
qed auto

lemma bytes_less_asym: "bytes_less s t \<Longrightarrow> \<not> bytes_less t s"
  using bytes_less_trans bytes_less_irrefl by blast

section \<open>UTF-8\<close>

definition utf8_cont :: "char \<Rightarrow> bool" where
  "utf8_cont c \<longleftrightarrow> 128 \<le> byte c \<and> byte c \<le> 191"

text \<open>
  Width in bytes of the rune at the head of a string, 0 when the string is empty or does not start
  with a valid encoding (package \<open>utf8\<close>'s acceptance table: no overlong forms, no surrogates,
  nothing beyond U+10FFFF).
\<close>

definition utf8_lo :: "nat \<Rightarrow> nat" where
  "utf8_lo x = (if x = 224 then 160 else if x = 240 then 144 else 128)"

definition utf8_hi :: "nat \<Rightarrow> nat" where
  "utf8_hi x = (if x = 237 then 159 else if x = 244 then 143 else 191)"

fun utf8_len :: "bytes \<Rightarrow> nat" where
  "utf8_len [] = 0"
| "utf8_len (a # s) =
     (let x = byte a in
      if x < 128 then 1
      else if 194 \<le> x \<and> x \<le> 223 then
        (case s of b # _ \<Rightarrow> if utf8_cont b then 2 else 0 | [] \<Rightarrow> 0)
      else if 224 \<le> x \<and> x \<le> 239 then
        (case s of b # c # _ \<Rightarrow>
           if utf8_lo x \<le> byte b \<and> byte b \<le> utf8_hi x \<and> utf8_cont c then 3 else 0 | _ \<Rightarrow> 0)
      else if 240 \<le> x \<and> x \<le> 244 then
        (case s of b # c # d # _ \<Rightarrow>
           if utf8_lo x \<le> byte b \<and> byte b \<le> utf8_hi x \<and> utf8_cont c \<and> utf8_cont d
           then 4 else 0 | _ \<Rightarrow> 0)
      else 0)"

lemma utf8_len_le_length: "utf8_len s \<le> length s"
  by (cases s rule: utf8_len.cases) (auto simp: Let_def split: list.splits)

lemma utf8_len_le_4: "utf8_len s \<le> 4"
  by (cases s rule: utf8_len.cases) (auto simp: Let_def split: list.splits)

lemma utf8_len_ascii: "byte a < 128 \<Longrightarrow> utf8_len (a # s) = 1"
  by (simp add: Let_def)

lemma utf8_len_take_append:
  "0 < utf8_len s \<Longrightarrow> utf8_len (take (utf8_len s) s @ r) = utf8_len s"
  by (cases s rule: utf8_len.cases)
     (auto simp: Let_def split: list.splits if_splits)

lemma utf8_len_append: "0 < utf8_len s \<Longrightarrow> utf8_len (s @ r) = utf8_len s"
  using utf8_len_take_append [of s "drop (utf8_len s) s @ r"]
  by (metis append.assoc append_take_drop_id)

function utf8_valid :: "bytes \<Rightarrow> bool" where
  "utf8_valid s = (if s = [] then True
                   else if utf8_len s = 0 then False else utf8_valid (drop (utf8_len s) s))"
  by pat_completeness auto
termination
  by (relation "measure length") auto

declare utf8_valid.simps [simp del]

lemma utf8_valid_Nil [simp]: "utf8_valid []"
  by (simp add: utf8_valid.simps)

lemma utf8_valid_step: "s \<noteq> [] \<Longrightarrow>
    utf8_valid s \<longleftrightarrow> 0 < utf8_len s \<and> utf8_valid (drop (utf8_len s) s)"
  by (subst utf8_valid.simps) simp

lemma utf8_valid_ascii_Cons [simp]: "byte a < 128 \<Longrightarrow> utf8_valid (a # s) = utf8_valid s"
  by (subst utf8_valid_step) (simp_all add: utf8_len_ascii del: utf8_len.simps)

lemma utf8_valid_append: "utf8_valid s \<Longrightarrow> utf8_valid (s @ t) = utf8_valid t"
proof (induction s rule: utf8_valid.induct)
  case (1 s)
  show ?case
  proof (cases "s = []")
    case False
    with 1 have p: "0 < utf8_len s" and v: "utf8_valid (drop (utf8_len s) s)"
      by (simp_all add: utf8_valid_step)
    have "utf8_valid (s @ t) \<longleftrightarrow> utf8_valid (drop (utf8_len s) s @ t)"
      using False p utf8_len_le_length [of s]
      by (subst utf8_valid_step) (auto simp: utf8_len_append)
    then show ?thesis using "1.IH" False p v by simp
  qed simp
qed

lemma utf8_valid_ascii: "(\<And>c. c \<in> set s \<Longrightarrow> byte c < 128) \<Longrightarrow> utf8_valid s"
  by (induction s) auto

text \<open>
  \<open>for _, ch := range s\<close>: the runes of a string, each as the bytes it occupies; a byte that
  starts no valid encoding is a rune of its own (U+FFFD).
\<close>

function utf8_runes :: "bytes \<Rightarrow> bytes list" where
  "utf8_runes s = (if s = [] then []
                   else take (max 1 (utf8_len s)) s # utf8_runes (drop (max 1 (utf8_len s)) s))"
  by pat_completeness auto
termination
  by (relation "measure length") auto

declare utf8_runes.simps [simp del]

lemma utf8_runes_Nil [simp]: "utf8_runes [] = []"
  by (simp add: utf8_runes.simps)

lemma concat_utf8_runes: "concat (utf8_runes s) = s"
proof (induction s rule: utf8_runes.induct)
  case (1 s)
  then show ?case
    by (cases "s = []") (simp_all add: utf8_runes.simps [of s])
qed

lemma utf8_runes_ascii_Cons [simp]: "byte a < 128 \<Longrightarrow> utf8_runes (a # s) = [a] # utf8_runes s"
  by (subst utf8_runes.simps) (simp add: utf8_len_ascii del: utf8_len.simps)

lemma utf8_runes_ascii: "(\<And>c. c \<in> set s \<Longrightarrow> byte c < 128) \<Longrightarrow> utf8_runes s = map (\<lambda>c. [c]) s"
  by (induction s) auto

text \<open>
  A predicate that holds only of one-byte ASCII runes can be checked byte by byte: the reason why
  validators written over runes and over bytes agree.
\<close>

lemma utf8_runes_all_ascii:
  assumes asc: "\<And>r. P r \<Longrightarrow> \<exists>c. r = [c] \<and> byte c < 128"
  shows "(\<forall>r \<in> set (utf8_runes s). P r) \<longleftrightarrow> (\<forall>c \<in> set s. P [c])"
proof
  assume all: "\<forall>r \<in> set (utf8_runes s). P r"
  have "\<exists>r \<in> set (utf8_runes s). c \<in> set r" if "c \<in> set s" for c
    using that concat_utf8_runes [of s] by (metis in_set_conv_decomp set_concat UN_E)
  with all asc show "\<forall>c \<in> set s. P [c]"
    by (metis set_ConsD empty_iff list.set(1))
next
  assume all: "\<forall>c \<in> set s. P [c]"
  with asc have "byte c < 128" if "c \<in> set s" for c
    using that by blast
  then have "utf8_runes s = map (\<lambda>c. [c]) s" by (rule utf8_runes_ascii)
  with all show "\<forall>r \<in> set (utf8_runes s). P r" by simp
qed

section \<open>Trimming and case\<close>

text \<open>The runes \<open>unicode.IsSpace\<close> accepts.\<close>

definition space_runes :: "bytes list" where
  "space_runes =
     map (\<lambda>n. [chr n]) [9, 10, 11, 12, 13, 32] @
     map (map chr)
       ([[194, 133], [194, 160], [225, 154, 128], [226, 128, 168], [226, 128, 169],
         [226, 128, 175], [226, 129, 159], [227, 128, 128]] @
        map (\<lambda>n. [226, 128, n]) [128..<139])"

definition trim_space :: "bytes \<Rightarrow> bytes" where
  "trim_space s =
     (let sp = (\<lambda>r. r \<in> set space_runes)
      in concat (rev (dropWhile sp (rev (dropWhile sp (utf8_runes s))))))"

text \<open>
  \<open>strings.ToLower\<close> and \<open>strings.ToUpper\<close>, up to runes whose image is not ASCII, which are left
  alone: the program compares the results with ASCII constants only, and those runes equal none of
  them before or after. U+0130 and U+212A are the two non-ASCII runes with an ASCII lower case,
  U+0131 and U+017F the two with an ASCII upper case.
\<close>

definition lower_rune :: "bytes \<Rightarrow> bytes" where
  "lower_rune r =
     (if r = map chr [196, 176] then ''i''
      else if r = map chr [226, 132, 170] then ''k''
      else map (\<lambda>c. if is_upper c then chr (byte c + 32) else c) r)"

definition upper_rune :: "bytes \<Rightarrow> bytes" where
  "upper_rune r =
     (if r = map chr [196, 177] then ''I''
      else if r = map chr [197, 191] then ''S''
      else map (\<lambda>c. if is_lower c then chr (byte c - 32) else c) r)"

definition to_lower :: "bytes \<Rightarrow> bytes" where
  "to_lower s = concat (map lower_rune (utf8_runes s))"

definition to_upper :: "bytes \<Rightarrow> bytes" where
  "to_upper s = concat (map upper_rune (utf8_runes s))"

text \<open>
  Simple case folding, as \<open>strings.EqualFold\<close> and the field lookup of \<open>encoding/json\<close> compare with
  an ASCII name: U+017F folds to s and U+212A to k.
\<close>

definition fold_rune :: "bytes \<Rightarrow> bytes" where
  "fold_rune r =
     (if r = map chr [197, 191] then ''S''
      else if r = map chr [226, 132, 170] then ''K''
      else map (\<lambda>c. if is_lower c then chr (byte c - 32) else c) r)"

definition fold_name :: "bytes \<Rightarrow> bytes" where
  "fold_name s = concat (map fold_rune (utf8_runes s))"

definition equal_fold :: "bytes \<Rightarrow> bytes \<Rightarrow> bool" where
  "equal_fold s t \<longleftrightarrow> fold_name s = fold_name t"

text \<open>\<open>strings.Contains\<close>, \<open>strings.HasPrefix\<close> and \<open>strings.ContainsAny\<close> for ASCII sets.\<close>

fun has_prefix :: "bytes \<Rightarrow> bytes \<Rightarrow> bool" where
  "has_prefix s [] = True"
| "has_prefix [] (_ # _) = False"
| "has_prefix (a # s) (b # t) = (a = b \<and> has_prefix s t)"

fun contains :: "bytes \<Rightarrow> bytes \<Rightarrow> bool" where
  "contains [] t = (t = [])"
| "contains (a # s) t = (has_prefix (a # s) t \<or> contains s t)"

definition contains_any :: "bytes \<Rightarrow> char list \<Rightarrow> bool" where
  "contains_any s cs \<longleftrightarrow> (\<exists>c \<in> set s. c \<in> set cs)"

lemma contains_any_code [code]: "contains_any s cs = list_ex (\<lambda>c. List.member cs c) s"
  by (simp add: contains_any_def list_ex_iff)

section \<open>Decimal text\<close>

definition digit :: "nat \<Rightarrow> char" where "digit n = chr (48 + n)"

definition digit_val :: "char \<Rightarrow> nat" where "digit_val c = byte c - 48"

fun show_nat :: "nat \<Rightarrow> bytes" where
  "show_nat n = (if n < 10 then [digit n] else show_nat (n div 10) @ [digit (n mod 10)])"

declare show_nat.simps [simp del]

definition read_nat :: "bytes \<Rightarrow> nat" where
  "read_nat s = foldl (\<lambda>a c. a * 10 + digit_val c) 0 s"

definition show_int :: "int \<Rightarrow> bytes" where
  "show_int i = (if i < 0 then CHR ''-'' # show_nat (nat (- i)) else show_nat (nat i))"

lemma is_digit_digit [simp]: "n < 10 \<Longrightarrow> is_digit (digit n)"
  by (simp add: is_digit_def digit_def)

lemma digit_val_digit [simp]: "n < 10 \<Longrightarrow> digit_val (digit n) = n"
  by (simp add: digit_val_def digit_def)

lemma read_nat_append [simp]: "read_nat (s @ [c]) = read_nat s * 10 + digit_val c"
  by (simp add: read_nat_def)

lemma show_nat_digits: "c \<in> set (show_nat n) \<Longrightarrow> is_digit c"
proof (induction n rule: show_nat.induct)
  case (1 n)
  then show ?case by (cases "n < 10") (auto simp: show_nat.simps [of n])
qed

lemma show_nat_not_Nil [simp]: "show_nat n \<noteq> []"
  by (subst show_nat.simps) simp

lemma read_show_nat [simp]: "read_nat (show_nat n) = n"
proof (induction n rule: show_nat.induct)
  case (1 n)
  show ?case
  proof (cases "n < 10")
    case True
    then show ?thesis by (simp add: show_nat.simps [of n] read_nat_def)
  next
    case False
    with 1 show ?thesis by (simp add: show_nat.simps [of n])
  qed
qed

lemma show_nat_0_hd: "hd (show_nat n) = CHR ''0'' \<Longrightarrow> n = 0"
proof (induction n rule: show_nat.induct)
  case (1 n)
  show ?case
  proof (cases "n < 10")
    case True
    then have "byte (digit n) = byte (CHR ''0'')"
      using 1(2) by (simp add: show_nat.simps [of n])
    with True show ?thesis by (simp add: digit_def byte_def chr_def)
  next
    case False
    with 1 have "n div 10 = 0" by (simp add: show_nat.simps [of n])
    with False show ?thesis by simp
  qed
qed

text \<open>\<open>strconv.ParseInt(s, 10, 64)\<close> and \<open>ParseUint(s, 10, 64)\<close>.\<close>

definition parse_digits :: "bytes \<Rightarrow> nat option" where
  "parse_digits s = (if s \<noteq> [] \<and> list_all is_digit s then Some (read_nat s) else None)"

definition parse_int64 :: "bytes \<Rightarrow> int option" where
  "parse_int64 s =
     (let (neg, ds) = (case s of c # t \<Rightarrow> if c = CHR ''-'' then (True, t)
                                     else if c = CHR ''+'' then (False, t) else (False, s)
                       | [] \<Rightarrow> (False, s))
      in case parse_digits ds of None \<Rightarrow> None
         | Some n \<Rightarrow> (let i = (if neg then - int n else int n)
                    in if min_int64 \<le> i \<and> i \<le> max_int64 then Some i else None))"

definition parse_uint64 :: "bytes \<Rightarrow> u64 option" where
  "parse_uint64 s =
     (case parse_digits s of None \<Rightarrow> None
      | Some n \<Rightarrow> if n < 18446744073709551616 then Some (of_nat n) else None)"

lemma parse_digits_show_nat [simp]: "parse_digits (show_nat n) = Some n"
  by (simp add: parse_digits_def list_all_iff show_nat_digits)

lemma not_digit_sign: "\<not> is_digit (CHR ''-'')" "\<not> is_digit (CHR ''+'')"
  by (simp_all add: is_digit_def byte_def)

lemma parse_int64_show_int:
  assumes "min_int64 \<le> i" and "i \<le> max_int64"
  shows "parse_int64 (show_int i) = Some i"
proof (cases "i < 0")
  case True
  then show ?thesis using assms by (simp add: parse_int64_def show_int_def)
next
  case False
  obtain c t where s: "show_nat (nat i) = c # t"
    using show_nat_not_Nil [of "nat i"] by (cases "show_nat (nat i)") auto
  then have "is_digit c" using show_nat_digits [of c "nat i"] by simp
  then have "c \<noteq> CHR ''-''" and "c \<noteq> CHR ''+''" using not_digit_sign by auto
  then show ?thesis
    using False assms parse_digits_show_nat [of "nat i"]
    by (simp add: parse_int64_def show_int_def s)
qed

lemma parse_uint64_show: "parse_uint64 (show_nat (unat w)) = Some (w :: u64)"
  using unsigned_less [of w] by (simp add: parse_uint64_def)

section \<open>Hexadecimal text and big-endian keys\<close>

definition hex_digit :: "nat \<Rightarrow> char" where
  "hex_digit n = (if n < 10 then chr (48 + n) else chr (87 + n))"

definition hex_encode :: "bytes \<Rightarrow> bytes" where
  "hex_encode s = concat (map (\<lambda>c. [hex_digit (byte c div 16), hex_digit (byte c mod 16)]) s)"

definition is_lower_hex :: "char \<Rightarrow> bool" where
  "is_lower_hex c \<longleftrightarrow> is_digit c \<or> (97 \<le> byte c \<and> byte c \<le> 102)"

lemma length_hex_encode [simp]: "length (hex_encode s) = 2 * length s"
  by (induction s) (auto simp: hex_encode_def)

lemma is_lower_hex_hex_digit: "n < 16 \<Longrightarrow> is_lower_hex (hex_digit n)"
  by (auto simp: is_lower_hex_def hex_digit_def is_digit_def)

lemma hex_encode_lower_hex: "c \<in> set (hex_encode s) \<Longrightarrow> is_lower_hex c"
proof (induction s)
  case Nil
  then show ?case by (simp add: hex_encode_def)
next
  case (Cons a s)
  have "byte a div 16 < 16" using byte_less [of a] by linarith
  with Cons show ?case by (auto simp: hex_encode_def is_lower_hex_hex_digit)
qed

text \<open>\<open>binary.BigEndian.PutUint64\<close> and \<open>Uint64\<close>.\<close>

definition be64 :: "u64 \<Rightarrow> bytes" where
  "be64 w = map (\<lambda>i. chr (unat w div 256 ^ i mod 256)) [7, 6, 5, 4, 3, 2, 1, 0]"

definition of_be64 :: "bytes \<Rightarrow> u64" where
  "of_be64 s = of_nat (foldl (\<lambda>a c. a * 256 + byte c) 0 s)"

lemma length_be64 [simp]: "length (be64 w) = 8"
  by (simp add: be64_def)

lemma be64_not_Nil [simp]: "be64 w \<noteq> []"
  by (simp add: be64_def)

lemma be_digit_step:
  "k' = k * 256 \<Longrightarrow> (n div k') * 256 + n div k mod 256 = n div (k::nat)"
  by (simp add: div_mult2_eq)

lemma of_be64_be64 [simp]: "of_be64 (be64 w) = w"
proof -
  have "unat w < 18446744073709551616" using unsigned_less [of w] by simp
  then have "unat w div 72057594037927936 mod 256 = unat w div 72057594037927936"
    by (simp add: less_mult_imp_div_less)
  then have "foldl (\<lambda>a c. a * 256 + byte c) 0 (be64 w) = unat w"
    using be_digit_step [of 256 1 "unat w"]
    by (simp add: be64_def be_digit_step)
  then show ?thesis by (simp add: of_be64_def)
qed

lemma be64_inject [simp]: "be64 a = be64 b \<longleftrightarrow> a = b"
  by (metis of_be64_be64)

end
