(* ===== verification/Observability.thy ===== *)
theory Observability
  imports Go_Prelude
begin

text \<open>
  Package \<open>internal/observability\<close>: the fixed set of failure classes and \<open>Classify\<close>, which reads
  the class of an error that may be wrapped or joined. A Go \<open>error\<close> is a tree: a classified error
  (a value with a \<open>FailureClass\<close> method), a plain error (\<open>errors.New\<close>, also the package-level
  sentinels, which are told apart by their text), a wrapped one (\<open>fmt.Errorf\<close> with \<open>%w\<close>) or a
  join (\<open>errors.Join\<close>). The empty class \<open>""\<close> is \<open>None\<close>.
\<close>

datatype fclass =
  ClassAuth | ClassTLS | ClassTimeout | ClassTransport | ClassHTTP | ClassDecode
| ClassValidation | ClassKafkaAuth | ClassKafkaTimeout | ClassKafkaRejected
| ClassBufferFull | ClassInternal

datatype go_error =
  Classified fclass string
| Plain string
| Wrapped string go_error
| Joined "go_error list"

text \<open>\<open>errors.As(err, &classified)\<close>: the first classified error in depth-first order.\<close>

fun errors_as_class :: "go_error \<Rightarrow> fclass option"
  and errors_as_class_list :: "go_error list \<Rightarrow> fclass option" where
  "errors_as_class (Classified c _) = Some c"
| "errors_as_class (Plain _) = None"
| "errors_as_class (Wrapped _ e) = errors_as_class e"
| "errors_as_class (Joined es) = errors_as_class_list es"
| "errors_as_class_list [] = None"
| "errors_as_class_list (e # es) =
     (case errors_as_class e of Some c \<Rightarrow> Some c | None \<Rightarrow> errors_as_class_list es)"

text \<open>\<open>errors.Is(err, target)\<close> for a sentinel \<open>target\<close>.\<close>

fun errors_is :: "go_error \<Rightarrow> go_error \<Rightarrow> bool"
  and errors_is_list :: "go_error list \<Rightarrow> go_error \<Rightarrow> bool" where
  "errors_is (Classified c m) t = (Classified c m = t)"
| "errors_is (Plain m) t = (Plain m = t)"
| "errors_is (Wrapped m e) t = (Wrapped m e = t \<or> errors_is e t)"
| "errors_is (Joined es) t = (Joined es = t \<or> errors_is_list es t)"
| "errors_is_list [] t = False"
| "errors_is_list (e # es) t = (errors_is e t \<or> errors_is_list es t)"

definition classify :: "go_error option \<Rightarrow> fclass option" where
  "classify err =
     (case err of
        None \<Rightarrow> None
      | Some e \<Rightarrow> (case errors_as_class e of Some c \<Rightarrow> Some c | None \<Rightarrow> Some ClassInternal))"

text \<open>
  \<open>FailureFields\<close>: the only attributes derived from an error that reach a log record.
\<close>

definition failure_fields :: "string \<Rightarrow> go_error option \<Rightarrow> (string \<times> (string + fclass option)) list" where
  "failure_fields component err =
     [(''component'', Inl component), (''failure_class'', Inr (classify err))]"

lemma classify_Some: "\<exists>c. classify (Some e) = Some c"
  by (simp add: classify_def split: option.split)

lemma classify_None [simp]: "classify None = None"
  by (simp add: classify_def)

lemma classify_eq_None [simp]: "classify err = None \<longleftrightarrow> err = None"
  by (auto simp: classify_def split: option.splits)

text \<open>Wrapping an error never changes the class it is reported under.\<close>

lemma classify_Wrapped: "classify (Some (Wrapped m e)) = classify (Some e)"
  by (simp add: classify_def)

lemma classify_Joined:
  "classify (Some (Joined (e # es))) =
     (if errors_as_class e = None then classify (Some (Joined es)) else classify (Some e))"
  by (auto simp: classify_def split: option.splits)

end
