(* ===== verification/Bolt.thy ===== *)
theory Bolt
  imports Go_Strings Observability "HOL-Library.AList"
begin

text \<open>
  The embedded key/value store \<open>go.etcd.io/bbolt\<close>, which the program uses for every durable state
  and which is not part of its sources: a record of operations over an abstract database type, with
  its documented behaviour as the predicate \<open>bolt_ok\<close>. A value of the database type is the content
  a transaction sees; buckets are addressed by name. Keys of a bucket are unique and iterate in byte
  order; \<open>Put\<close> accepts keys of 1 to 32768 bytes and values below 2 GiB; \<open>NextSequence\<close> is a
  counter per bucket; a read-write transaction is committed as a whole or not at all, and a commit
  may fail. \<open>Bucket.Stats().KeyN\<close> counts the committed pages: it equals the number of keys when a
  transaction starts and is unspecified after a write in the same transaction.

  \<open>ref_bolt\<close> is a reference instance in memory; it shows that the laws can hold together and
  carries the concrete examples.
\<close>

section \<open>Interface\<close>

record 'd bolt =
  has_bucket :: "'d \<Rightarrow> bytes \<Rightarrow> bool"
  create_bucket :: "bytes \<Rightarrow> 'd \<Rightarrow> 'd option"
  bget :: "'d \<Rightarrow> bytes \<Rightarrow> bytes \<Rightarrow> bytes option"
  bput :: "bytes \<Rightarrow> bytes \<Rightarrow> bytes \<Rightarrow> 'd \<Rightarrow> 'd option"
  bdelete :: "bytes \<Rightarrow> bytes \<Rightarrow> 'd \<Rightarrow> 'd option"
  bentries :: "'d \<Rightarrow> bytes \<Rightarrow> (bytes \<times> bytes) list"
  bseq :: "'d \<Rightarrow> bytes \<Rightarrow> u64"
  next_seq :: "bytes \<Rightarrow> 'd \<Rightarrow> ('d \<times> u64) option"
  key_n :: "'d \<Rightarrow> bytes \<Rightarrow> nat"
  commit :: "'d \<Rightarrow> 'd option"

definition kv_valid :: "bytes \<Rightarrow> bytes \<Rightarrow> bool" where
  "kv_valid k v \<longleftrightarrow> k \<noteq> [] \<and> length k \<le> 32768 \<and> length v \<le> 2147483646"

text \<open>Everything but the entries of bucket \<open>b\<close> is the same.\<close>

definition same_but :: "'d bolt \<Rightarrow> bytes \<Rightarrow> 'd \<Rightarrow> 'd \<Rightarrow> bool" where
  "same_but B b d d' \<longleftrightarrow>
     (\<forall>b'. has_bucket B d' b' = has_bucket B d b' \<and> bseq B d' b' = bseq B d b' \<and>
           (b' \<noteq> b \<longrightarrow> bentries B d' b' = bentries B d b'))"

definition put_law :: "'d bolt \<Rightarrow> bool" where
  "put_law B \<longleftrightarrow>
     (\<forall>d b k v. has_bucket B d b \<longrightarrow> kv_valid k v \<longrightarrow>
        (\<exists>d'. bput B b k v d = Some d' \<and> same_but B b d d' \<and>
              map_of (bentries B d' b) = (map_of (bentries B d b))(k \<mapsto> v)))"

definition delete_law :: "'d bolt \<Rightarrow> bool" where
  "delete_law B \<longleftrightarrow>
     (\<forall>d b k. has_bucket B d b \<longrightarrow>
        (\<exists>d'. bdelete B b k d = Some d' \<and> same_but B b d d' \<and>
              map_of (bentries B d' b) = (map_of (bentries B d b))(k := None)))"

definition seq_law :: "'d bolt \<Rightarrow> bool" where
  "seq_law B \<longleftrightarrow>
     (\<forall>d b. has_bucket B d b \<longrightarrow>
        (\<exists>d'. next_seq B b d = Some (d', bseq B d b + 1) \<and>
              (\<forall>b'. has_bucket B d' b' = has_bucket B d b' \<and> bentries B d' b' = bentries B d b' \<and>
                    bseq B d' b' = (if b' = b then bseq B d b + 1 else bseq B d b'))))"

definition create_law :: "'d bolt \<Rightarrow> bool" where
  "create_law B \<longleftrightarrow>
     (\<forall>d b. \<not> has_bucket B d b \<longrightarrow> b \<noteq> [] \<longrightarrow>
        (\<exists>d'. create_bucket B b d = Some d' \<and> bentries B d' b = [] \<and> bseq B d' b = 0 \<and>
              (\<forall>b'. has_bucket B d' b' = (b' = b \<or> has_bucket B d b') \<and>
                    (b' \<noteq> b \<longrightarrow> bentries B d' b' = bentries B d b' \<and> bseq B d' b' = bseq B d b'))))"

text \<open>What a transaction finds when it starts.\<close>

definition settled :: "'d bolt \<Rightarrow> 'd \<Rightarrow> bool" where
  "settled B d \<longleftrightarrow> (\<forall>b. has_bucket B d b \<longrightarrow> key_n B d b = length (bentries B d b))"

definition commit_law :: "'d bolt \<Rightarrow> bool" where
  "commit_law B \<longleftrightarrow>
     (\<forall>d d'. commit B d = Some d' \<longrightarrow>
        settled B d' \<and>
        (\<forall>b. has_bucket B d' b = has_bucket B d b \<and> bentries B d' b = bentries B d b \<and>
             bseq B d' b = bseq B d b))"

definition bolt_ok :: "'d bolt \<Rightarrow> bool" where
  "bolt_ok B \<longleftrightarrow>
     (\<forall>d b. sorted_wrt bytes_less (map fst (bentries B d b))) \<and>
     (\<forall>d b k. bget B d b k = map_of (bentries B d b) k) \<and>
     put_law B \<and> delete_law B \<and> seq_law B \<and> create_law B \<and> commit_law B"

text \<open>
  \<open>db.Update\<close>: the body's error rolls everything back and is returned; otherwise the changes are
  committed. The second component is a variable the body assigns outside the transaction, with its
  value before the body runs as the first argument: it keeps the body's value when the commit fails.
\<close>

definition commit_error :: go_error where "commit_error = Plain ''commit''"

definition update_tx ::
  "'d bolt \<Rightarrow> 'a \<Rightarrow> ('d \<Rightarrow> go_error + 'd \<times> 'a) \<Rightarrow> 'd \<Rightarrow> 'd \<times> 'a \<times> go_error option" where
  "update_tx B z f d =
     (case f d of
        Inl e \<Rightarrow> (d, z, Some e)
      | Inr (d', a) \<Rightarrow>
          (case commit B d' of
             None \<Rightarrow> (d, a, Some commit_error)
           | Some d'' \<Rightarrow> (d'', a, None)))"

text \<open>Results of the transaction's own calls as sums.\<close>

definition put_error :: go_error where "put_error = Plain ''put''"

definition putE :: "'d bolt \<Rightarrow> bytes \<Rightarrow> bytes \<Rightarrow> bytes \<Rightarrow> 'd \<Rightarrow> go_error + 'd" where
  "putE B b k v d = (case bput B b k v d of None \<Rightarrow> Inl put_error | Some d' \<Rightarrow> Inr d')"

definition deleteE :: "'d bolt \<Rightarrow> bytes \<Rightarrow> bytes \<Rightarrow> 'd \<Rightarrow> go_error + 'd" where
  "deleteE B b k d = (case bdelete B b k d of None \<Rightarrow> Inl put_error | Some d' \<Rightarrow> Inr d')"

definition createE :: "'d bolt \<Rightarrow> bytes \<Rightarrow> 'd \<Rightarrow> go_error + 'd" where
  "createE B b d = (case create_bucket B b d of None \<Rightarrow> Inl put_error | Some d' \<Rightarrow> Inr d')"

definition next_seqE :: "'d bolt \<Rightarrow> bytes \<Rightarrow> 'd \<Rightarrow> go_error + 'd \<times> u64" where
  "next_seqE B b d = (case next_seq B b d of None \<Rightarrow> Inl put_error | Some r \<Rightarrow> Inr r)"

section \<open>Sorted entry lists\<close>

fun kv_put :: "bytes \<Rightarrow> bytes \<Rightarrow> (bytes \<times> bytes) list \<Rightarrow> (bytes \<times> bytes) list" where
  "kv_put k v [] = [(k, v)]"
| "kv_put k v ((a, w) # es) =
     (if k = a then (k, v) # es
      else if bytes_less k a then (k, v) # (a, w) # es
      else (a, w) # kv_put k v es)"

definition kv_delete :: "bytes \<Rightarrow> (bytes \<times> bytes) list \<Rightarrow> (bytes \<times> bytes) list" where
  "kv_delete k es = filter (\<lambda>e. fst e \<noteq> k) es"

abbreviation kv_sorted :: "(bytes \<times> bytes) list \<Rightarrow> bool" where
  "kv_sorted es \<equiv> sorted_wrt bytes_less (map fst es)"

lemma kv_sorted_distinct: "kv_sorted es \<Longrightarrow> distinct (map fst es)"
  by (induction es) auto

lemma set_kv_put_keys: "fst ` set (kv_put k v es) = insert k (fst ` set es)"
  by (induction k v es rule: kv_put.induct) auto

lemma kv_put_sorted: "kv_sorted es \<Longrightarrow> kv_sorted (kv_put k v es)"
proof (induction k v es rule: kv_put.induct)
  case (2 k v a w es)
  have "bytes_less a x" if "x \<in> fst ` set (kv_put k v es)" "\<not> bytes_less k a" "k \<noteq> a" for x
    using that 2(2) bytes_less_linear [of k a] by (auto simp: set_kv_put_keys)
  then show ?case using 2 bytes_less_trans [of k a] by (auto simp: image_iff)
qed simp

lemma map_of_kv_put: "kv_sorted es \<Longrightarrow> map_of (kv_put k v es) = (map_of es)(k \<mapsto> v)"
  by (induction k v es rule: kv_put.induct) (auto simp: fun_eq_iff)

lemma kv_delete_sorted: "kv_sorted es \<Longrightarrow> kv_sorted (kv_delete k es)"
  by (induction es) (auto simp: kv_delete_def)

lemma map_of_kv_delete: "map_of (kv_delete k es) = (map_of es)(k := None)"
  by (induction es) (auto simp: kv_delete_def fun_eq_iff)

text \<open>Entries in key order are determined by the map they represent.\<close>

lemma kv_sorted_unique:
  assumes "kv_sorted xs" "kv_sorted ys" "map_of xs = map_of ys"
  shows "xs = ys"
  using assms
proof (induction xs arbitrary: ys)
  case Nil
  then show ?case by (cases ys) (auto simp: fun_eq_iff split: if_splits)
next
  case (Cons x xs)
  from Cons.prems(3) have eq: "map_of ys = map_of (x # xs)" by (rule sym)
  have keys: "fst ` set ys = fst ` set (x # xs)"
    using eq by (metis dom_map_of_conv_image_fst)
  then obtain y zs where ys: "ys = y # zs" by (cases ys) auto
  have "fst x = fst y"
  proof (rule ccontr)
    assume n: "fst x \<noteq> fst y"
    have "fst x \<in> insert (fst y) (fst ` set zs)" "fst y \<in> insert (fst x) (fst ` set xs)"
      using keys ys by (metis insertI1 list.simps(15) image_insert)+
    with n have "fst x \<in> fst ` set zs" "fst y \<in> fst ` set xs" by (metis insertE)+
    then have "bytes_less (fst y) (fst x)" "bytes_less (fst x) (fst y)"
      using Cons.prems(1,2) ys by auto
    then show False using bytes_less_asym by blast
  qed
  moreover from this eq ys have "snd x = snd y"
    by (metis map_of.simps(2) fun_upd_same option.inject)
  ultimately have xy: "x = y" by (simp add: prod_eq_iff)
  have "map_of xs = map_of zs"
  proof
    fix k
    have "fst x \<notin> fst ` set xs" "fst x \<notin> fst ` set zs"
      using Cons.prems(1,2) ys xy by fastforce+
    then have "map_of xs (fst x) = None" "map_of zs (fst x) = None"
      by (simp_all add: map_of_eq_None_iff)
    then show "map_of xs k = map_of zs k"
      using fun_cong [OF eq, of k] ys xy by (auto split: if_splits)
  qed
  then show ?case using Cons ys xy by simp
qed

lemma kv_put_last:
  "(\<And>e. e \<in> set es \<Longrightarrow> bytes_less (fst e) k) \<Longrightarrow> kv_put k v es = es @ [(k, v)]"
proof (induction k v es rule: kv_put.induct)
  case (2 k v a w es)
  have "bytes_less a k" using 2(2) [of "(a, w)"] by simp
  then have "k \<noteq> a" "\<not> bytes_less k a" using bytes_less_asym by auto
  with 2 show ?case by simp
qed simp

lemma kv_put_same: "kv_sorted es \<Longrightarrow> map_of es k = Some v \<Longrightarrow> kv_put k v es = es"
  by (rule kv_sorted_unique) (auto simp: kv_put_sorted map_of_kv_put)

lemma kv_sorted_head_less:
  assumes "kv_sorted ((a, w) # es)" and "bytes_less k a"
  shows "map_of es k = None"
proof -
  have "bytes_less a x" if "x \<in> fst ` set es" for x using assms(1) that by auto
  then have "k \<notin> fst ` set es" using assms(2) bytes_less_asym by blast
  then show ?thesis by (simp add: map_of_eq_None_iff)
qed

lemma length_kv_put:
  "kv_sorted es \<Longrightarrow> length (kv_put k v es) = (if map_of es k = None then Suc (length es) else length es)"
proof (induction k v es rule: kv_put.induct)
  case (2 k v a w es)
  have "map_of es k = None" if "bytes_less k a"
    by (rule kv_sorted_head_less [OF 2(2) that])
  with 2 show ?case by auto
qed simp

lemma set_kv_put:
  "kv_sorted es \<Longrightarrow> set (kv_put k v es) = insert (k, v) {e \<in> set es. fst e \<noteq> k}"
proof (induction k v es rule: kv_put.induct)
  case (2 k v a w es)
  have "\<forall>e \<in> set es. fst e \<noteq> k" if "bytes_less k a \<or> k = a"
  proof
    fix e assume "e \<in> set es"
    then have "bytes_less a (fst e)" using 2(2) by simp
    then show "fst e \<noteq> k" using that bytes_less_asym [of a k] by auto
  qed
  with 2 show ?case by auto
qed auto

lemma set_kv_delete: "set (kv_delete k es) = {e \<in> set es. fst e \<noteq> k}"
  by (auto simp: kv_delete_def)

lemma length_kv_delete:
  "kv_sorted es \<Longrightarrow> length (kv_delete k es) = (if map_of es k = None then length es else length es - 1)"
proof (induction es)
  case (Cons e es)
  have "kv_delete (fst e) es = es"
    using Cons.prems unfolding kv_delete_def by (intro filter_id_iff) fastforce
  then show ?case
    using Cons by (cases es) (auto simp: kv_delete_def)
qed (simp add: kv_delete_def)

section \<open>The laws as rules\<close>

lemma bolt_sorted: "bolt_ok B \<Longrightarrow> kv_sorted (bentries B d b)"
  by (simp add: bolt_ok_def)

lemma bolt_distinct: "bolt_ok B \<Longrightarrow> distinct (map fst (bentries B d b))"
  by (rule kv_sorted_distinct) (rule bolt_sorted)

lemma bolt_get: "bolt_ok B \<Longrightarrow> bget B d b k = map_of (bentries B d b) k"
  by (simp add: bolt_ok_def)

lemma bolt_put [bolt_rules]:
  assumes "bolt_ok B" "has_bucket B d b" "kv_valid k v"
  shows "\<exists>d'. putE B b k v d = Inr d' \<and> same_but B b d d' \<and> bentries B d' b = kv_put k v (bentries B d b)"
proof -
  have "put_law B" using assms(1) by (simp add: bolt_ok_def)
  then obtain d' where d: "bput B b k v d = Some d'" "same_but B b d d'"
    "map_of (bentries B d' b) = (map_of (bentries B d b))(k \<mapsto> v)"
    using assms(2,3) unfolding put_law_def by blast
  have "bentries B d' b = kv_put k v (bentries B d b)"
    by (rule kv_sorted_unique) (simp_all add: assms(1) bolt_sorted kv_put_sorted map_of_kv_put d(3))
  with d show ?thesis by (simp add: putE_def)
qed

lemma bolt_delete [bolt_rules]:
  assumes "bolt_ok B" "has_bucket B d b"
  shows "\<exists>d'. deleteE B b k d = Inr d' \<and> same_but B b d d' \<and> bentries B d' b = kv_delete k (bentries B d b)"
proof -
  have "delete_law B" using assms(1) by (simp add: bolt_ok_def)
  then obtain d' where d: "bdelete B b k d = Some d'" "same_but B b d d'"
    "map_of (bentries B d' b) = (map_of (bentries B d b))(k := None)"
    using assms(2) unfolding delete_law_def by blast
  have "bentries B d' b = kv_delete k (bentries B d b)"
    by (rule kv_sorted_unique) (simp_all add: assms(1) bolt_sorted kv_delete_sorted map_of_kv_delete d(3))
  with d show ?thesis by (simp add: deleteE_def)
qed

lemma bolt_seq:
  assumes "bolt_ok B" "has_bucket B d b"
  obtains d' where "next_seqE B b d = Inr (d', bseq B d b + 1)"
    "\<And>b'. has_bucket B d' b' = has_bucket B d b'" "\<And>b'. bentries B d' b' = bentries B d b'"
    "\<And>b'. bseq B d' b' = (if b' = b then bseq B d b + 1 else bseq B d b')"
proof -
  have "seq_law B" using assms(1) by (simp add: bolt_ok_def)
  with assms(2) obtain d' where "next_seq B b d = Some (d', bseq B d b + 1)"
    "\<forall>b'. has_bucket B d' b' = has_bucket B d b' \<and> bentries B d' b' = bentries B d b' \<and>
          bseq B d' b' = (if b' = b then bseq B d b + 1 else bseq B d b')"
    unfolding seq_law_def by blast
  then show ?thesis by (intro that [of d']) (simp_all add: next_seqE_def)
qed

lemma bolt_create:
  assumes "bolt_ok B" "\<not> has_bucket B d b" "b \<noteq> []"
  obtains d' where "createE B b d = Inr d'" "bentries B d' b = []" "bseq B d' b = 0"
    "\<And>b'. has_bucket B d' b' = (b' = b \<or> has_bucket B d b')"
    "\<And>b'. b' \<noteq> b \<Longrightarrow> bentries B d' b' = bentries B d b'"
    "\<And>b'. b' \<noteq> b \<Longrightarrow> bseq B d' b' = bseq B d b'"
proof -
  have "create_law B" using assms(1) by (simp add: bolt_ok_def)
  with assms(2,3) obtain d' where "create_bucket B b d = Some d'" "bentries B d' b = []" "bseq B d' b = 0"
    "\<forall>b'. has_bucket B d' b' = (b' = b \<or> has_bucket B d b') \<and>
          (b' \<noteq> b \<longrightarrow> bentries B d' b' = bentries B d b' \<and> bseq B d' b' = bseq B d b')"
    unfolding create_law_def by blast
  then show ?thesis by (intro that [of d']) (simp_all add: createE_def)
qed

lemma bolt_commit:
  assumes "bolt_ok B" "commit B d = Some d'"
  shows "settled B d'" "has_bucket B d' b = has_bucket B d b" "bentries B d' b = bentries B d b"
    "bseq B d' b = bseq B d b"
  using assms unfolding bolt_ok_def commit_law_def by blast+

lemma same_butD:
  assumes "same_but B b d d'"
  shows "has_bucket B d' b' = has_bucket B d b'" "bseq B d' b' = bseq B d b'"
    "b' \<noteq> b \<Longrightarrow> bentries B d' b' = bentries B d b'"
  using assms unfolding same_but_def by auto

text \<open>
  A transaction ends in one of three ways: rolled back with the body's error, rolled back because
  the commit failed, or committed.
\<close>

lemma update_tx_cases:
  assumes "update_tx B z f d = (d', a, err)"
  obtains (body) e where "f d = Inl e" "d' = d" "a = z" "err = Some e"
  | (nocommit) d1 where "f d = Inr (d1, a)" "commit B d1 = None" "d' = d" "err = Some commit_error"
  | (committed) d1 where "f d = Inr (d1, a)" "commit B d1 = Some d'" "err = None"
  using assms by (auto simp: update_tx_def split: sum.splits prod.splits option.splits)

lemma update_tx_error_unchanged:
  "update_tx B z f d = (d', a, Some e) \<Longrightarrow> d' = d"
  by (erule update_tx_cases) auto

section \<open>Reference instance\<close>

type_synonym ref_db = "(bytes \<times> (bytes \<times> bytes) list \<times> u64) list"

definition ref_bucket :: "ref_db \<Rightarrow> bytes \<Rightarrow> (bytes \<times> bytes) list \<times> u64" where
  "ref_bucket d b = (case map_of d b of None \<Rightarrow> ([], 0) | Some e \<Rightarrow> e)"

definition ref_entries :: "ref_db \<Rightarrow> bytes \<Rightarrow> (bytes \<times> bytes) list" where
  "ref_entries d b = (let es = fst (ref_bucket d b) in if kv_sorted es then es else [])"

definition ref_set :: "bytes \<Rightarrow> (bytes \<times> bytes) list \<times> u64 \<Rightarrow> ref_db \<Rightarrow> ref_db" where
  "ref_set b e d = AList.update b e d"

definition ref_bolt :: "ref_db bolt" where
  "ref_bolt =
     \<lparr>has_bucket = (\<lambda>d b. map_of d b \<noteq> None),
      create_bucket = (\<lambda>b d. Some (ref_set b ([], 0) d)),
      bget = (\<lambda>d b k. map_of (ref_entries d b) k),
      bput = (\<lambda>b k v d. if kv_valid k v
                        then Some (ref_set b (kv_put k v (ref_entries d b), snd (ref_bucket d b)) d) else None),
      bdelete = (\<lambda>b k d. Some (ref_set b (kv_delete k (ref_entries d b), snd (ref_bucket d b)) d)),
      bentries = ref_entries,
      bseq = (\<lambda>d b. snd (ref_bucket d b)),
      next_seq = (\<lambda>b d. let n = snd (ref_bucket d b) + 1 in Some (ref_set b (ref_entries d b, n) d, n)),
      key_n = (\<lambda>d b. length (ref_entries d b)),
      commit = Some\<rparr>"

lemma map_of_ref_set [simp]: "map_of (ref_set b e d) = (map_of d)(b \<mapsto> e)"
  by (simp add: ref_set_def AList.update_conv')

lemma ref_entries_set [simp]:
  "ref_entries (ref_set b (es, n) d) b' =
     (if b' = b then (if kv_sorted es then es else []) else ref_entries d b')"
  by (simp add: ref_entries_def ref_bucket_def Let_def)

lemma ref_seq_set [simp]:
  "snd (ref_bucket (ref_set b (es, n) d) b') = (if b' = b then n else snd (ref_bucket d b'))"
  by (simp add: ref_bucket_def)

lemma ref_entries_sorted [simp]: "kv_sorted (ref_entries d b)"
  by (simp add: ref_entries_def Let_def)

theorem ref_bolt_ok: "bolt_ok ref_bolt"
  unfolding bolt_ok_def
proof (intro conjI)
  show "put_law ref_bolt"
    by (simp add: put_law_def ref_bolt_def same_but_def kv_put_sorted map_of_kv_put)
  show "delete_law ref_bolt"
    by (simp add: delete_law_def ref_bolt_def same_but_def kv_delete_sorted map_of_kv_delete)
  show "seq_law ref_bolt" by (simp add: seq_law_def ref_bolt_def Let_def)
  show "create_law ref_bolt" by (simp add: create_law_def ref_bolt_def)
  show "commit_law ref_bolt" by (simp add: commit_law_def ref_bolt_def settled_def)
qed (simp_all add: ref_bolt_def)

lemma ref_settled: "settled ref_bolt d"
  by (simp add: settled_def ref_bolt_def)

end
