(* ===== verification/Go_Json.thy ===== *)
theory Go_Json
  imports Go_Strings
begin

text \<open>
  Package \<open>encoding/json\<close> as the program uses it. \<open>json_print\<close> is what \<open>json.Marshal\<close> writes for a
  value already laid out as fields (no white space, HTML characters escaped, invalid UTF-8 replaced
  by U+FFFD); \<open>json_parse\<close> is the scanner and the literal decoding of \<open>json.Unmarshal\<close> (white space,
  escapes with surrogate pairs, the number grammar, at most 10000 nested containers), with a fuel
  parameter for the recursion that the length of the input bounds. The \<open>un_*\<close> functions are the
  decoder's rules for storing a JSON value in a Go variable: \<open>null\<close> leaves it, a value of another
  kind is an error.
\<close>

datatype json =
  JNull
| JBool bool
| JNum bytes
| JStr bytes
| JArr "json list"
| JObj "(bytes \<times> json) list"

section \<open>Printing\<close>

definition hex2 :: "nat \<Rightarrow> bytes" where
  "hex2 n = [hex_digit (n div 16), hex_digit (n mod 16)]"

definition esc_ascii :: "char \<Rightarrow> bytes" where
  "esc_ascii c =
     (let x = byte c in
      if x = 34 \<or> x = 92 then [CHR 0x5C, c]
      else if x = 8 then [CHR 0x5C, CHR ''b'']
      else if x = 12 then [CHR 0x5C, CHR ''f'']
      else if x = 10 then [CHR 0x5C, CHR ''n'']
      else if x = 13 then [CHR 0x5C, CHR ''r'']
      else if x = 9 then [CHR 0x5C, CHR ''t'']
      else if x < 32 \<or> x = 60 \<or> x = 62 \<or> x = 38 then [CHR 0x5C, CHR ''u'', CHR ''0'', CHR ''0''] @ hex2 x
      else [c])"

definition replacement :: bytes where "replacement = map chr [239, 191, 189]"

definition esc_rune :: "bytes \<Rightarrow> bytes" where
  "esc_rune r =
     (case r of
        [c] \<Rightarrow> if byte c < 128 then esc_ascii c else CHR 0x5C # ''ufffd''
      | _ \<Rightarrow> if r = map chr [226, 128, 168] then CHR 0x5C # ''u2028''
             else if r = map chr [226, 128, 169] then CHR 0x5C # ''u2029''
             else r)"

definition json_escape :: "bytes \<Rightarrow> bytes" where
  "json_escape s = concat (map esc_rune (utf8_runes s))"

definition print_str :: "bytes \<Rightarrow> bytes" where
  "print_str s = CHR 0x22 # json_escape s @ [CHR 0x22]"

fun join_comma :: "bytes list \<Rightarrow> bytes" where
  "join_comma [] = []"
| "join_comma [s] = s"
| "join_comma (s # t # ss) = s @ CHR '','' # join_comma (t # ss)"

fun json_print :: "json \<Rightarrow> bytes" where
  "json_print JNull = ''null''"
| "json_print (JBool b) = (if b then ''true'' else ''false'')"
| "json_print (JNum n) = n"
| "json_print (JStr s) = print_str s"
| "json_print (JArr xs) = CHR ''['' # join_comma (map json_print xs) @ [CHR '']'']"
| "json_print (JObj ms) =
     CHR ''{'' # join_comma (map (\<lambda>(k, v). print_str k @ CHR '':'' # json_print v) ms) @ [CHR ''}'']"

section \<open>Parsing\<close>

definition is_ws :: "char \<Rightarrow> bool" where
  "is_ws c \<longleftrightarrow> byte c = 32 \<or> byte c = 9 \<or> byte c = 10 \<or> byte c = 13"

definition skip_ws :: "bytes \<Rightarrow> bytes" where "skip_ws s = dropWhile is_ws s"

definition hex_val :: "char \<Rightarrow> nat option" where
  "hex_val c =
     (let x = byte c in
      if 48 \<le> x \<and> x \<le> 57 then Some (x - 48)
      else if 97 \<le> x \<and> x \<le> 102 then Some (x - 87)
      else if 65 \<le> x \<and> x \<le> 70 then Some (x - 55)
      else None)"

fun hex4 :: "bytes \<Rightarrow> (nat \<times> bytes) option" where
  "hex4 (a # b # c # d # t) =
     (case (hex_val a, hex_val b, hex_val c, hex_val d) of
        (Some w, Some x, Some y, Some z) \<Rightarrow> Some (w * 4096 + x * 256 + y * 16 + z, t)
      | _ \<Rightarrow> None)"
| "hex4 _ = None"

definition utf8_encode :: "nat \<Rightarrow> bytes" where
  "utf8_encode n =
     (if n < 128 then [chr n]
      else if n < 2048 then [chr (192 + n div 64), chr (128 + n mod 64)]
      else if n < 65536 then
        [chr (224 + n div 4096), chr (128 + n div 64 mod 64), chr (128 + n mod 64)]
      else
        [chr (240 + n div 262144), chr (128 + n div 4096 mod 64), chr (128 + n div 64 mod 64),
         chr (128 + n mod 64)])"

text \<open>\<open>\uXXXX\<close> with the surrogate rule: a high half followed by an escaped low half is one rune.\<close>

definition unescape_u :: "bytes \<Rightarrow> (bytes \<times> bytes) option" where
  "unescape_u s =
     (case hex4 s of
        None \<Rightarrow> None
      | Some (v, t) \<Rightarrow>
          if v < 55296 \<or> 57344 \<le> v then Some (utf8_encode v, t)
          else
            (case t of
               a # b # u \<Rightarrow>
                 if a = CHR 0x5C \<and> b = CHR ''u'' then
                   (case hex4 u of
                      Some (w, r) \<Rightarrow>
                        if v < 56320 \<and> 56320 \<le> w \<and> w < 57344
                        then Some (utf8_encode (65536 + (v - 55296) * 1024 + (w - 56320)), r)
                        else Some (replacement, t)
                    | None \<Rightarrow> Some (replacement, t))
                 else Some (replacement, t)
             | _ \<Rightarrow> Some (replacement, t)))"

fun unescape :: "bytes \<Rightarrow> (bytes \<times> bytes) option" where
  "unescape [] = None"
| "unescape (e # t) =
     (if e = CHR 0x22 \<or> e = CHR 0x5C \<or> e = CHR ''/'' then Some ([e], t)
      else if e = CHR ''b'' then Some ([chr 8], t)
      else if e = CHR ''f'' then Some ([chr 12], t)
      else if e = CHR ''n'' then Some ([chr 10], t)
      else if e = CHR ''r'' then Some ([chr 13], t)
      else if e = CHR ''t'' then Some ([chr 9], t)
      else if e = CHR ''u'' then unescape_u t
      else None)"

lemma hex4_shorter: "hex4 s = Some (v, t) \<Longrightarrow> length t < length s"
  by (cases s rule: hex4.cases) (auto split: option.splits)

lemma unescape_u_shorter: "unescape_u s = Some (out, t) \<Longrightarrow> length t < length s"
  by (auto simp: unescape_u_def dest!: hex4_shorter split: option.splits if_splits list.splits)

lemma unescape_shorter: "unescape s = Some (out, t) \<Longrightarrow> length t < length s"
  by (cases s) (auto dest!: unescape_u_shorter split: if_splits)

definition prepend :: "bytes \<Rightarrow> (bytes \<times> bytes) option \<Rightarrow> (bytes \<times> bytes) option" where
  "prepend out r = map_option (\<lambda>(u, t). (out @ u, t)) r"

lemma prepend_simps [simp]:
  "prepend out None = None"
  "prepend out (Some (u, t)) = Some (out @ u, t)"
  by (simp_all add: prepend_def)

text \<open>The rest of a string literal, after its opening quote: the decoded bytes and what follows.\<close>

function parse_str :: "bytes \<Rightarrow> (bytes \<times> bytes) option" where
  "parse_str s =
     (case s of
        [] \<Rightarrow> None
      | c # t \<Rightarrow>
          if c = CHR 0x22 then Some ([], t)
          else if c = CHR 0x5C then
            (case unescape t of None \<Rightarrow> None | Some (out, t') \<Rightarrow> prepend out (parse_str t'))
          else if byte c < 32 then None
          else if utf8_len s = 0 then prepend replacement (parse_str t)
          else prepend (take (utf8_len s) s) (parse_str (drop (utf8_len s) s)))"
  by pat_completeness auto
termination
proof (relation "measure length")
  fix s :: bytes and c t x out t'
  assume "s = c # t" and "unescape t = Some x" and "(out, t') = x"
  then show "(t', s) \<in> measure length" using unescape_shorter [of t out t'] by auto
qed auto

declare parse_str.simps [simp del]

definition span_digits :: "bytes \<Rightarrow> bytes \<times> bytes" where
  "span_digits s = (takeWhile is_digit s, dropWhile is_digit s)"

definition scan_exp :: "bytes \<Rightarrow> (bytes \<times> bytes) option" where
  "scan_exp s =
     (case s of
        e # t \<Rightarrow>
          if e = CHR ''e'' \<or> e = CHR ''E'' then
            (let (sg, u) = (case t of g # u' \<Rightarrow> if g = CHR ''+'' \<or> g = CHR ''-'' then ([g], u') else ([], t)
                            | [] \<Rightarrow> ([], t));
                 (ds, r) = span_digits u
             in if ds = [] then None else Some (e # sg @ ds, r))
          else Some ([], s)
      | [] \<Rightarrow> Some ([], s))"

definition scan_frac :: "bytes \<Rightarrow> (bytes \<times> bytes) option" where
  "scan_frac s =
     (case s of
        p # t \<Rightarrow>
          if p = CHR ''.'' then
            (let (ds, r) = span_digits t in if ds = [] then None else Some (p # ds, r))
          else Some ([], s)
      | [] \<Rightarrow> Some ([], s))"

definition scan_int :: "bytes \<Rightarrow> (bytes \<times> bytes) option" where
  "scan_int s =
     (case s of
        c # t \<Rightarrow>
          if c = CHR ''0'' then Some ([c], t)
          else if is_digit c then Some (span_digits s)
          else None
      | [] \<Rightarrow> None)"

definition scan_num :: "bytes \<Rightarrow> (bytes \<times> bytes) option" where
  "scan_num s =
     (let (sg, u) = (case s of c # t \<Rightarrow> if c = CHR ''-'' then ([c], t) else ([], s) | [] \<Rightarrow> ([], s))
      in case scan_int u of
           None \<Rightarrow> None
         | Some (i, u1) \<Rightarrow>
             (case scan_frac u1 of
                None \<Rightarrow> None
              | Some (f, u2) \<Rightarrow>
                  (case scan_exp u2 of
                     None \<Rightarrow> None
                   | Some (e, u3) \<Rightarrow> Some (sg @ i @ f @ e, u3))))"

definition scan_lit :: "bytes \<Rightarrow> json \<Rightarrow> bytes \<Rightarrow> (json \<times> bytes) option" where
  "scan_lit word j s = (if has_prefix s word then Some (j, drop (length word) s) else None)"

text \<open>The first parameter is fuel, the second the number of containers that may still be opened.\<close>

fun parse_val :: "nat \<Rightarrow> nat \<Rightarrow> bytes \<Rightarrow> (json \<times> bytes) option"
  and parse_elems :: "nat \<Rightarrow> nat \<Rightarrow> bytes \<Rightarrow> (json list \<times> bytes) option"
  and parse_members :: "nat \<Rightarrow> nat \<Rightarrow> bytes \<Rightarrow> ((bytes \<times> json) list \<times> bytes) option" where
  "parse_val 0 d s = None"
| "parse_val (Suc n) d s =
     (case skip_ws s of
        [] \<Rightarrow> None
      | c # t \<Rightarrow>
          if c = CHR 0x22 then map_option (\<lambda>(u, r). (JStr u, r)) (parse_str t)
          else if c = CHR ''n'' then scan_lit ''null'' JNull (c # t)
          else if c = CHR ''t'' then scan_lit ''true'' (JBool True) (c # t)
          else if c = CHR ''f'' then scan_lit ''false'' (JBool False) (c # t)
          else if c = CHR ''['' then
            (if d = 0 then None
             else if skip_ws t \<noteq> [] \<and> hd (skip_ws t) = CHR '']'' then Some (JArr [], tl (skip_ws t))
             else map_option (\<lambda>(xs, r). (JArr xs, r)) (parse_elems n (d - 1) t))
          else if c = CHR ''{'' then
            (if d = 0 then None
             else if skip_ws t \<noteq> [] \<and> hd (skip_ws t) = CHR ''}'' then Some (JObj [], tl (skip_ws t))
             else map_option (\<lambda>(ms, r). (JObj ms, r)) (parse_members n (d - 1) t))
          else map_option (\<lambda>(u, r). (JNum u, r)) (scan_num (c # t)))"
| "parse_elems 0 d s = None"
| "parse_elems (Suc n) d s =
     (case parse_val n d s of
        None \<Rightarrow> None
      | Some (x, r) \<Rightarrow>
          (case skip_ws r of
             [] \<Rightarrow> None
           | c # t \<Rightarrow>
               if c = CHR '','' then map_option (\<lambda>(xs, u). (x # xs, u)) (parse_elems n d t)
               else if c = CHR '']'' then Some ([x], t)
               else None))"
| "parse_members 0 d s = None"
| "parse_members (Suc n) d s =
     (case skip_ws s of
        [] \<Rightarrow> None
      | q # s1 \<Rightarrow>
          if q \<noteq> CHR 0x22 then None
          else
            (case parse_str s1 of
               None \<Rightarrow> None
             | Some (k, r) \<Rightarrow>
                 (case skip_ws r of
                    [] \<Rightarrow> None
                  | c # t \<Rightarrow>
                      if c \<noteq> CHR '':'' then None
                      else
                        (case parse_val n d t of
                           None \<Rightarrow> None
                         | Some (x, u) \<Rightarrow>
                             (case skip_ws u of
                                [] \<Rightarrow> None
                              | e # w \<Rightarrow>
                                  if e = CHR '','' then
                                    map_option (\<lambda>(ms, y). ((k, x) # ms, y)) (parse_members n d w)
                                  else if e = CHR ''}'' then Some ([(k, x)], w)
                                  else None)))))"

definition max_nesting :: nat where "max_nesting = 10000"

definition json_parse :: "bytes \<Rightarrow> json option" where
  "json_parse s =
     (case parse_val (Suc (length s)) max_nesting s of
        None \<Rightarrow> None
      | Some (j, r) \<Rightarrow> if skip_ws r = [] then Some j else None)"

section \<open>Storing values\<close>

text \<open>
  An object is decoded member by member, in order, into the struct's current value; a name selects
  the field it equals up to case folding; unknown names are skipped. Any error is the result.
\<close>

fun un_fields :: "(bytes \<Rightarrow> json \<Rightarrow> 'r \<Rightarrow> 'r option) \<Rightarrow> (bytes \<times> json) list \<Rightarrow> 'r \<Rightarrow> 'r option" where
  "un_fields f [] r = Some r"
| "un_fields f ((k, v) # ms) r = (case f k v r of None \<Rightarrow> None | Some r' \<Rightarrow> un_fields f ms r')"

definition un_object :: "(bytes \<Rightarrow> json \<Rightarrow> 'r \<Rightarrow> 'r option) \<Rightarrow> json \<Rightarrow> 'r \<Rightarrow> 'r option" where
  "un_object f j r =
     (case j of JObj ms \<Rightarrow> un_fields f ms r | JNull \<Rightarrow> Some r | _ \<Rightarrow> None)"

text \<open>
  The members that reach one field of a struct. As the fields of a struct have names that differ up
  to case folding, decoding a struct is decoding each field from the members that reach it.
\<close>

fun un_field :: "bytes \<Rightarrow> (json \<Rightarrow> 'a \<Rightarrow> 'a option) \<Rightarrow> (bytes \<times> json) list \<Rightarrow> 'a \<Rightarrow> 'a option" where
  "un_field name f [] z = Some z"
| "un_field name f ((k, v) # ms) z =
     (if equal_fold k name then (case f v z of None \<Rightarrow> None | Some y \<Rightarrow> un_field name f ms y)
      else un_field name f ms z)"

lemma un_field_cong [fundef_cong]:
  "\<lbrakk>name = name'; ms = ms'; z = z'; \<And>k v c. (k, v) \<in> set ms' \<Longrightarrow> f v c = g v c\<rbrakk>
   \<Longrightarrow> un_field name f ms z = un_field name' g ms' z'"
proof (induction ms' arbitrary: ms z z')
  case (Cons m ms')
  obtain k v where m: "m = (k, v)" by (cases m)
  have fg: "f v c = g v c" for c using Cons.prems(4) [of k v] m by auto
  have ih: "un_field name f ms' y = un_field name' g ms' y" for y
    using Cons.prems by (intro Cons.IH) auto
  show ?case using Cons.prems(1-3) fg ih by (simp add: m split: option.split)
qed simp

lemma un_field_append:
  "un_field name f (xs @ ys) z =
     (case un_field name f xs z of None \<Rightarrow> None | Some y \<Rightarrow> un_field name f ys y)"
proof (induction xs arbitrary: z)
  case (Cons m xs)
  obtain k v where "m = (k, v)" by (cases m)
  then show ?case using Cons by (cases "f v z") simp_all
qed simp

text \<open>Names of lower-case letters, digits and underscores are equal up to folding only when equal.\<close>

definition plain_name :: "bytes \<Rightarrow> bool" where
  "plain_name s = list_all (\<lambda>c. is_lower c \<or> is_digit c \<or> c = CHR ''_'') s"

lemma fold_name_plain:
  "plain_name s \<Longrightarrow> fold_name s = map (\<lambda>c. if is_lower c then chr (byte c - 32) else c) s"
proof -
  assume p: "plain_name s"
  then have "c \<in> set s \<Longrightarrow> byte c < 128" for c
    by (auto simp: plain_name_def list_all_iff is_lower_def is_digit_def byte_def)
  then have "utf8_runes s = map (\<lambda>c. [c]) s" by (rule utf8_runes_ascii)
  moreover have "concat (map fold_rune (map (\<lambda>c. [c]) s)) = map (\<lambda>c. if is_lower c then chr (byte c - 32) else c) s"
    by (induction s) (auto simp: fold_rune_def)
  ultimately show ?thesis by (simp add: fold_name_def)
qed

lemma upper_nat_inject:
  fixes x y :: nat
  assumes "97 \<le> x \<and> x \<le> 122 \<or> x \<le> 57 \<or> x = 95" "97 \<le> y \<and> y \<le> 122 \<or> y \<le> 57 \<or> y = 95"
    and "(if 97 \<le> x \<and> x \<le> 122 then x - 32 else x) = (if 97 \<le> y \<and> y \<le> 122 then y - 32 else y)"
  shows "x = y"
  using assms by (cases "97 \<le> x \<and> x \<le> 122"; cases "97 \<le> y \<and> y \<le> 122") auto

lemma equal_fold_plain:
  assumes "plain_name s" "plain_name t"
  shows "equal_fold s t \<longleftrightarrow> s = t"
proof -
  let ?up = "\<lambda>c. if is_lower c then chr (byte c - 32) else c"
  let ?A = "{c. is_lower c \<or> is_digit c \<or> c = CHR ''_''}"
  have u: "byte (CHR ''_'') = 95" by (simp add: byte_def)
  have up: "byte (?up c) = (if 97 \<le> byte c \<and> byte c \<le> 122 then byte c - 32 else byte c)" for c
    using byte_less [of c] by (auto simp: is_lower_def intro: byte_chr_id)
  have rng: "97 \<le> byte c \<and> byte c \<le> 122 \<or> byte c \<le> 57 \<or> byte c = 95" if "c \<in> ?A" for c
    using that u by (auto simp: is_lower_def is_digit_def)
  have inj: "inj_on ?up ?A"
  proof (rule inj_onI)
    fix a b assume a: "a \<in> ?A" "b \<in> ?A" "?up a = ?up b"
    from a(3) have "byte (?up a) = byte (?up b)" by (rule arg_cong)
    then have "byte a = byte b"
      unfolding up by (rule upper_nat_inject [OF rng [OF a(1)] rng [OF a(2)]])
    then show "a = b" by (simp only: byte_eq_iff)
  qed
  have "set s \<union> set t \<subseteq> ?A" using assms by (auto simp: plain_name_def list_all_iff)
  then have "map ?up s = map ?up t \<longleftrightarrow> s = t"
    using inj inj_on_map_eq_map inj_on_subset by blast
  then show ?thesis using assms by (simp add: equal_fold_def fold_name_plain)
qed

lemma json_size_elem:
  assumes "(k, JArr xs) \<in> set ms" "x \<in> set xs"
  shows "size x < Suc (size_list (size_prod (\<lambda>x. 0) size) ms)"
proof -
  have "size x \<le> size_list size xs" using assms(2) by (rule size_list_estimation') simp
  moreover have "size_prod (\<lambda>x. 0) size (k, JArr xs) \<le> size_list (size_prod (\<lambda>x. 0) size) ms"
    using assms(1) by (rule size_list_estimation') simp
  ultimately show ?thesis by simp
qed

definition un_string :: "json \<Rightarrow> bytes \<Rightarrow> bytes option" where
  "un_string j cur = (case j of JStr s \<Rightarrow> Some s | JNull \<Rightarrow> Some cur | _ \<Rightarrow> None)"

definition un_bool :: "json \<Rightarrow> bool \<Rightarrow> bool option" where
  "un_bool j cur = (case j of JBool b \<Rightarrow> Some b | JNull \<Rightarrow> Some cur | _ \<Rightarrow> None)"

definition un_int64 :: "json \<Rightarrow> int \<Rightarrow> int option" where
  "un_int64 j cur = (case j of JNum n \<Rightarrow> parse_int64 n | JNull \<Rightarrow> Some cur | _ \<Rightarrow> None)"

definition un_uint64 :: "json \<Rightarrow> u64 \<Rightarrow> u64 option" where
  "un_uint64 j cur = (case j of JNum n \<Rightarrow> parse_uint64 n | JNull \<Rightarrow> Some cur | _ \<Rightarrow> None)"

text \<open>A pointer field: \<open>null\<close> stores nil, any other value a fresh target.\<close>

definition un_ptr :: "(json \<Rightarrow> 'a \<Rightarrow> 'a option) \<Rightarrow> 'a \<Rightarrow> json \<Rightarrow> 'a option option" where
  "un_ptr f z j = (case j of JNull \<Rightarrow> Some None | _ \<Rightarrow> map_option Some (f j z))"

text \<open>A slice field: \<open>null\<close> stores nil, which reads like the empty slice.\<close>

fun un_list :: "(json \<Rightarrow> 'a option) \<Rightarrow> json list \<Rightarrow> 'a list option" where
  "un_list f [] = Some []"
| "un_list f (x # xs) =
     (case f x of None \<Rightarrow> None
      | Some y \<Rightarrow> (case un_list f xs of None \<Rightarrow> None | Some ys \<Rightarrow> Some (y # ys)))"

definition un_slice :: "(json \<Rightarrow> 'a option) \<Rightarrow> json \<Rightarrow> 'a list option" where
  "un_slice f j = (case j of JArr xs \<Rightarrow> un_list f xs | JNull \<Rightarrow> Some [] | _ \<Rightarrow> None)"

lemma un_list_cong [fundef_cong]:
  "xs = ys \<Longrightarrow> (\<And>x. x \<in> set ys \<Longrightarrow> f x = g x) \<Longrightarrow> un_list f xs = un_list g ys"
  by (induction ys arbitrary: xs) (auto split: option.split)

lemma un_slice_cong [fundef_cong]:
  "j = j' \<Longrightarrow> (\<And>x xs. j' = JArr xs \<Longrightarrow> x \<in> set xs \<Longrightarrow> f x = g x) \<Longrightarrow> un_slice f j = un_slice g j'"
  by (auto simp: un_slice_def intro!: un_list_cong split: json.split)

text \<open>Members of an encoded struct: \<open>omitempty\<close> on pointers, strings, integers and slices.\<close>

definition opt_member :: "bytes \<Rightarrow> ('a \<Rightarrow> json) \<Rightarrow> 'a option \<Rightarrow> (bytes \<times> json) list" where
  "opt_member name enc x = (case x of None \<Rightarrow> [] | Some y \<Rightarrow> [(name, enc y)])"

definition str_member :: "bytes \<Rightarrow> bytes \<Rightarrow> (bytes \<times> json) list" where
  "str_member name s = (if s = [] then [] else [(name, JStr s)])"

definition int_member :: "bytes \<Rightarrow> (int \<Rightarrow> json) \<Rightarrow> int \<Rightarrow> (bytes \<times> json) list" where
  "int_member name enc i = (if i = 0 then [] else [(name, enc i)])"

definition list_member :: "bytes \<Rightarrow> ('a \<Rightarrow> json) \<Rightarrow> 'a list \<Rightarrow> (bytes \<times> json) list" where
  "list_member name enc xs = (if xs = [] then [] else [(name, JArr (map enc xs))])"

lemma list_member_cong [fundef_cong]:
  "\<lbrakk>name = name'; xs = ys; \<And>x. x \<in> set ys \<Longrightarrow> f x = g x\<rbrakk>
   \<Longrightarrow> list_member name f xs = list_member name' g ys"
  by (auto simp: list_member_def)

definition jint :: "int \<Rightarrow> json" where "jint i = JNum (show_int i)"

definition juint :: "u64 \<Rightarrow> json" where "juint w = JNum (show_nat (unat w))"

lemma un_string_simps [simp]: "un_string (JStr s) cur = Some s" "un_string JNull cur = Some cur"
  by (simp_all add: un_string_def)

lemma un_bool_simps [simp]: "un_bool (JBool b) cur = Some b" "un_bool JNull cur = Some cur"
  by (simp_all add: un_bool_def)

lemma un_int64_jint [simp]:
  "min_int64 \<le> i \<Longrightarrow> i \<le> max_int64 \<Longrightarrow> un_int64 (jint i) cur = Some i"
  by (simp add: un_int64_def jint_def parse_int64_show_int)

lemma un_uint64_juint [simp]: "un_uint64 (juint w) cur = Some w"
  by (simp add: un_uint64_def juint_def parse_uint64_show)

lemma jint_not_null [simp]: "jint i \<noteq> JNull" "juint w \<noteq> JNull"
  by (simp_all add: jint_def juint_def)

lemma un_ptr_not_null: "j \<noteq> JNull \<Longrightarrow> un_ptr f z j = map_option Some (f j z)"
  by (simp add: un_ptr_def split: json.split)

lemma un_field_skip [json_rt]:
  assumes "plain_name name" "plain_name name'" "name \<noteq> name'"
  shows "un_field name f (opt_member name' enc x) z = Some z"
    "un_field name f (str_member name' s) z = Some z"
    "un_field name f (int_member name' enc' i) z = Some z"
    "un_field name f (list_member name' enc'' xs) z = Some z"
  using assms
  by (simp_all add: opt_member_def str_member_def int_member_def list_member_def equal_fold_plain
      split: option.split)

lemma un_field_Cons_skip [json_rt]:
  assumes "plain_name name" "plain_name name'" "name \<noteq> name'"
  shows "un_field name f ((name', v) # ms) z = un_field name f ms z"
  using assms by (simp add: equal_fold_plain)

lemma equal_fold_refl [simp]: "equal_fold s s"
  by (simp add: equal_fold_def)

lemma un_field_hit [json_rt]:
  "f v z = Some y \<Longrightarrow> un_field name f ((name, v) # ms) z = un_field name f ms y"
  by simp

lemma un_field_Nil [json_rt]: "un_field name f [] z = Some z"
  by simp

lemma un_field_opt [json_rt]:
  assumes "\<And>y. x = Some y \<Longrightarrow> f (enc y) None = Some x"
  shows "un_field name f (opt_member name enc x) None = Some x"
  using assms by (cases x) (simp_all add: opt_member_def)

lemma un_field_str [json_rt]:
  "un_field name un_string (str_member name s) [] = Some s"
  by (simp add: str_member_def)

lemma un_field_int [json_rt]:
  "is_int64 i \<Longrightarrow> un_field name un_int64 (int_member name jint i) 0 = Some i"
  by (simp add: int_member_def is_int64_def)

lemma un_list_map: "(\<And>x. x \<in> set xs \<Longrightarrow> f (g x) = Some x) \<Longrightarrow> un_list f (map g xs) = Some xs"
  by (induction xs) auto

lemma un_field_list [json_rt]:
  assumes "\<And>x. x \<in> set xs \<Longrightarrow> f (enc x) = Some x"
  shows "un_field name (\<lambda>j cur. un_slice f j) (list_member name enc xs) [] = Some xs"
  using un_list_map [of xs f enc] assms by (simp add: list_member_def un_slice_def)

lemma un_field_keeps:
  assumes "un_field name f ms z = Some y" and "P z" and "\<And>v c x. f v c = Some x \<Longrightarrow> P c \<Longrightarrow> P x"
  shows "P y"
  using assms(1,2)
proof (induction ms arbitrary: z)
  case (Cons m ms)
  then show ?case using assms(3) by (cases m) (auto split: if_splits option.splits)
qed simp

lemma un_object_JObj [simp]: "un_object f (JObj ms) r = un_fields f ms r"
  by (simp add: un_object_def)

lemma un_fields_append:
  "un_fields f (xs @ ys) r =
     (case un_fields f xs r of None \<Rightarrow> None | Some r' \<Rightarrow> un_fields f ys r')"
  by (induction xs arbitrary: r) (auto split: option.split)

end
