(* ===== verification/Go_Base64.thy ===== *)
theory Go_Base64
  imports Go_Json
begin

text \<open>
  \<open>encoding/base64.StdEncoding\<close> and the JSON encoding of a \<open>[]byte\<close>: nil is \<open>null\<close>, anything else
  a base64 string. Decoding ignores carriage returns and line feeds and, not being strict, the unused
  low bits of the last character; a JSON array of small numbers is accepted as well. A byte slice
  that may be nil is \<open>bytes option\<close>; \<open>slice_bytes\<close> is what its elements are.
\<close>

type_synonym go_bytes = "bytes option"

definition slice_bytes :: "go_bytes \<Rightarrow> bytes" where
  "slice_bytes s = (case s of None \<Rightarrow> [] | Some b \<Rightarrow> b)"

text \<open>\<open>append([]byte(nil), b...)\<close>: a copy, nil when there is nothing to copy.\<close>

definition append_nil :: "bytes \<Rightarrow> go_bytes" where
  "append_nil b = (if b = [] then None else Some b)"

lemma slice_bytes_simps [simp]: "slice_bytes None = []" "slice_bytes (Some b) = b"
  by (simp_all add: slice_bytes_def)

lemma slice_append_nil [simp]: "slice_bytes (append_nil b) = b"
  by (simp add: append_nil_def)

section \<open>Encoding\<close>

definition b64_char :: "nat \<Rightarrow> char" where
  "b64_char n =
     (if n < 26 then chr (65 + n)
      else if n < 52 then chr (71 + n)
      else if n < 62 then chr (n - 4)
      else if n = 62 then CHR ''+'' else CHR ''/'')"

definition b64_val :: "char \<Rightarrow> nat option" where
  "b64_val c =
     (let x = byte c in
      if 65 \<le> x \<and> x \<le> 90 then Some (x - 65)
      else if 97 \<le> x \<and> x \<le> 122 then Some (x - 71)
      else if 48 \<le> x \<and> x \<le> 57 then Some (x + 4)
      else if x = 43 then Some 62
      else if x = 47 then Some 63
      else None)"

fun b64_encode :: "bytes \<Rightarrow> bytes" where
  "b64_encode (a # b # c # s) =
     (let n = byte a * 65536 + byte b * 256 + byte c
      in b64_char (n div 262144) # b64_char (n div 4096 mod 64) # b64_char (n div 64 mod 64)
         # b64_char (n mod 64) # b64_encode s)"
| "b64_encode [a, b] =
     (let n = byte a * 65536 + byte b * 256
      in [b64_char (n div 262144), b64_char (n div 4096 mod 64), b64_char (n div 64 mod 64), CHR ''=''])"
| "b64_encode [a] =
     (let n = byte a * 65536
      in [b64_char (n div 262144), b64_char (n div 4096 mod 64), CHR ''='', CHR ''=''])"
| "b64_encode [] = []"

fun b64_quads :: "bytes \<Rightarrow> bytes option" where
  "b64_quads [] = Some []"
| "b64_quads (a # b # c # d # s) =
     (case (b64_val a, b64_val b) of
        (Some w, Some x) \<Rightarrow>
          (if c = CHR ''='' \<and> d = CHR ''='' then
             (if s = [] then Some [chr ((w * 64 + x) div 16)] else None)
           else
             (case b64_val c of
                None \<Rightarrow> None
              | Some y \<Rightarrow>
                  (if d = CHR ''='' then
                     (if s = [] then
                        (let n = (w * 4096 + x * 64 + y) div 4 in Some [chr (n div 256), chr (n mod 256)])
                      else None)
                   else
                     (case b64_val d of
                        None \<Rightarrow> None
                      | Some z \<Rightarrow>
                          (let n = w * 262144 + x * 4096 + y * 64 + z
                           in map_option (\<lambda>r. chr (n div 65536) # chr (n div 256 mod 256) # chr (n mod 256) # r)
                                (b64_quads s))))))
      | _ \<Rightarrow> None)"
| "b64_quads _ = None"

definition b64_decode :: "bytes \<Rightarrow> bytes option" where
  "b64_decode s = b64_quads (filter (\<lambda>c. byte c \<noteq> 10 \<and> byte c \<noteq> 13) s)"

lemma byte_sep: "byte (CHR ''='') = 61" "byte (CHR ''+'') = 43" "byte (CHR ''/'') = 47"
  by (simp_all add: byte_def)

lemma b64_char_byte:
  "n < 64 \<Longrightarrow> byte (b64_char n) =
     (if n < 26 then 65 + n else if n < 52 then 71 + n else if n < 62 then n - 4
      else if n = 62 then 43 else 47)"
  by (auto simp: b64_char_def byte_sep)

lemma b64_char_facts:
  assumes "n < 64"
  shows "b64_val (b64_char n) = Some n" "b64_char n \<noteq> CHR ''=''"
proof -
  show "b64_val (b64_char n) = Some n"
    using assms by (auto simp: b64_val_def Let_def b64_char_byte)
  have "byte (b64_char n) \<noteq> byte (CHR ''='')"
    using assms unfolding byte_sep by (auto simp: b64_char_byte)
  then show "b64_char n \<noteq> CHR ''=''" by auto
qed

definition b64_alphabet :: "char set" where
  "b64_alphabet = insert (CHR ''='') (b64_char ` {..<64})"

lemma b64_alphabetI [simp]: "n < 64 \<Longrightarrow> b64_char n \<in> b64_alphabet" "CHR ''='' \<in> b64_alphabet"
  by (simp_all add: b64_alphabet_def)

lemma b64_alphabetD:
  "c \<in> b64_alphabet \<Longrightarrow> 43 \<le> byte c \<and> byte c < 128 \<and> byte c \<noteq> 60 \<and> byte c \<noteq> 62 \<and> byte c \<noteq> 92"
proof (unfold b64_alphabet_def, elim insertE imageE)
  fix n assume "c = b64_char n" "n \<in> {..<64::nat}"
  then show ?thesis by (auto simp: b64_char_byte)
qed (simp add: byte_sep)

lemma b64_encode_chars: "set (b64_encode s) \<subseteq> b64_alphabet"
proof (induction s rule: b64_encode.induct)
  case (1 a b d s)
  have "(byte a * 65536 + byte b * 256 + byte d) div 262144 < 64"
    using byte_less [of a] byte_less [of b] byte_less [of d] by linarith
  with 1 show ?case by (simp add: Let_def)
next
  case (2 a b)
  have "(byte a * 65536 + byte b * 256) div 262144 < 64"
    using byte_less [of a] byte_less [of b] by linarith
  then show ?case by (simp add: Let_def)
next
  case (3 a)
  have "(byte a * 65536) div 262144 < 64" using byte_less [of a] by linarith
  then show ?case by (simp add: Let_def)
qed simp

lemma b64_encode_no_newline: "filter (\<lambda>c. byte c \<noteq> 10 \<and> byte c \<noteq> 13) (b64_encode s) = b64_encode s"
proof (rule filter_id_iff, rule ballI)
  fix c assume "c \<in> set (b64_encode s)"
  then have "43 \<le> byte c" using b64_encode_chars b64_alphabetD by blast
  then show "byte c \<noteq> 10 \<and> byte c \<noteq> 13" by simp
qed

lemma digit_step: "k' = k * c \<Longrightarrow> n div k' * c + n div k mod c = n div (k::nat)"
  by (simp add: div_mult2_eq)

lemma quad_digits:
  fixes n :: nat
  shows "n div 262144 * 64 + n div 4096 mod 64 = n div 4096"
    "n div 262144 * 4096 + n div 4096 mod 64 * 64 + n div 64 mod 64 = n div 64"
    "n div 262144 * 262144 + n div 4096 mod 64 * 4096 + n div 64 mod 64 * 64 + n mod 64 = n"
proof -
  have a: "n div 262144 * 64 + n div 4096 mod 64 = n div 4096"
    and b: "n div 4096 * 64 + n div 64 mod 64 = n div 64"
    and c: "n div 64 * 64 + n mod 64 = n"
    by (simp_all add: digit_step)
  show "n div 262144 * 64 + n div 4096 mod 64 = n div 4096" by (rule a)
  have "n div 262144 * 4096 + n div 4096 mod 64 * 64 + n div 64 mod 64 =
      (n div 262144 * 64 + n div 4096 mod 64) * 64 + n div 64 mod 64"
    by (simp add: distrib_right)
  also have "\<dots> = n div 64" unfolding a by (rule b)
  finally show bb: "n div 262144 * 4096 + n div 4096 mod 64 * 64 + n div 64 mod 64 = n div 64" .
  have "n div 262144 * 262144 + n div 4096 mod 64 * 4096 + n div 64 mod 64 * 64 + n mod 64 =
      (n div 262144 * 4096 + n div 4096 mod 64 * 64 + n div 64 mod 64) * 64 + n mod 64"
    by (simp add: distrib_right)
  also have "\<dots> = n" unfolding bb by (rule c)
  finally show "n div 262144 * 262144 + n div 4096 mod 64 * 4096 + n div 64 mod 64 * 64 + n mod 64 = n" .
qed

lemma triple_bytes:
  fixes n :: nat
  assumes "n = (byte a * 256 + byte b) * 256 + byte c"
  shows "n div 65536 = byte a" "n div 256 mod 256 = byte b" "n mod 256 = byte c" "n div 262144 < 64"
proof -
  have d: "n div 256 = byte a * 256 + byte b"
    unfolding assms using byte_less [of c] by (simp only: div_mult_self3)
  show 1: "n div 65536 = byte a" using d div_mult2_eq [of n 256 256] by simp
  show "n div 256 mod 256 = byte b" using d byte_less [of b] by simp
  show "n mod 256 = byte c"
    unfolding assms using byte_less [of c] by (simp only: mod_mult_self3 mod_less)
  show "n div 262144 < 64" using 1 div_mult2_eq [of n 65536 4] byte_less [of a] by (simp add: less_mult_imp_div_less)
qed

lemma b64_quads_encode: "b64_quads (b64_encode s) = Some s"
proof (induction s rule: b64_encode.induct)
  case (1 a b c s)
  define n where "n = byte a * 65536 + byte b * 256 + byte c"
  have "n = (byte a * 256 + byte b) * 256 + byte c" by (simp add: n_def)
  note t = triple_bytes [OF this]
  show ?case unfolding b64_encode.simps Let_def n_def [symmetric]
    using 1 t by (simp add: Let_def b64_char_facts quad_digits)
next
  case (2 a b)
  define n where "n = byte a * 65536 + byte b * 256"
  have n: "n = (byte a * 256 + byte b) * 256 + byte (chr 0)" by (simp add: n_def)
  note t = triple_bytes [OF n]
  have "n div 64 div 4 = n div 256" by (simp add: div_mult2_eq [symmetric])
  moreover have "n div 256 div 256 = byte a" using t(1) by (simp add: div_mult2_eq [symmetric])
  ultimately show ?case unfolding b64_encode.simps Let_def n_def [symmetric]
    using t by (simp add: Let_def b64_char_facts quad_digits)
next
  case (3 a)
  define n where "n = byte a * 65536"
  have n: "n = (byte a * 256 + byte (chr 0)) * 256 + byte (chr 0)" by (simp add: n_def)
  note t = triple_bytes [OF n]
  have "n div 4096 div 16 = byte a" using t(1) by (simp add: div_mult2_eq [symmetric])
  then show ?case unfolding b64_encode.simps Let_def n_def [symmetric]
    using t by (simp add: Let_def b64_char_facts quad_digits)
qed simp

theorem b64_decode_encode [simp]: "b64_decode (b64_encode s) = Some s"
  by (simp add: b64_decode_def b64_encode_no_newline b64_quads_encode)

section \<open>Byte slices in JSON\<close>

definition jbytes :: "go_bytes \<Rightarrow> json" where
  "jbytes s = (case s of None \<Rightarrow> JNull | Some b \<Rightarrow> JStr (b64_encode b))"

definition un_byte :: "json \<Rightarrow> char option" where
  "un_byte j =
     (case j of
        JNum n \<Rightarrow> (case parse_uint64 n of
                     None \<Rightarrow> None | Some w \<Rightarrow> if unat w < 256 then Some (chr (unat w)) else None)
      | JNull \<Rightarrow> Some (chr 0)
      | _ \<Rightarrow> None)"

definition un_bytes :: "json \<Rightarrow> go_bytes \<Rightarrow> go_bytes option" where
  "un_bytes j cur =
     (case j of
        JNull \<Rightarrow> Some None
      | JStr s \<Rightarrow> map_option Some (b64_decode s)
      | JArr xs \<Rightarrow> map_option Some (un_list un_byte xs)
      | _ \<Rightarrow> None)"

lemma un_bytes_jbytes [simp]: "un_bytes (jbytes s) cur = Some s"
  by (cases s) (simp_all add: jbytes_def un_bytes_def)

lemma b64_encode_ascii: "c \<in> set (b64_encode s) \<Longrightarrow> byte c < 128"
  using b64_encode_chars b64_alphabetD by blast

lemma b64_encode_valid [simp]: "utf8_valid (b64_encode s)"
  by (rule utf8_valid_ascii) (rule b64_encode_ascii)

lemma length_b64_encode: "length (b64_encode s) = (length s + 2) div 3 * 4"
proof (induction s rule: b64_encode.induct)
  case (1 a b c s)
  have "(length (a # b # c # s) + 2) div 3 = (length s + 2 + 3) div 3" by (simp add: ac_simps)
  also have "\<dots> = Suc ((length s + 2) div 3)" by (subst div_add_self2) simp_all
  finally show ?case using 1 by (simp add: Let_def)
qed (simp_all add: Let_def)

end
