(* ===== verification/Ddae_Types.thy ===== *)
theory Ddae_Types
  imports Go_Strings Observability
begin

text \<open>
  Package \<open>internal/ddae\<close>, part one: the identifiers that may reach a request path
  (\<open>ValidateAlertID\<close>, \<open>ValidateServiceabilityLogID\<close> in \<open>client.go\<close>) and the decoded details and
  lists of alerts and serviceability logs (\<open>types.go\<close>). Optional wire fields are \<open>option\<close>s, as the
  pointers of the source.
\<close>

definition ddae_error :: "fclass \<Rightarrow> bytes \<Rightarrow> go_error" where
  "ddae_error c op = Classified c op"

definition id_char :: "char \<Rightarrow> bool" where
  "id_char c \<longleftrightarrow> is_lower c \<or> is_upper c \<or> is_digit c \<or> c \<in> set ''._:-''"

definition validate_alert_id :: "bytes \<Rightarrow> go_error + unit" where
  "validate_alert_id i =
     (if length i < 1 \<or> length i > 256 \<or> i = ''.'' \<or> i = ''..''
      then Inl (ddae_error ClassValidation ''alert_detail_id'')
      else forE (\<lambda>c. guardE (id_char c) (ddae_error ClassValidation ''alert_detail_id'')) i)"

definition validate_log_id :: "bytes \<Rightarrow> go_error + unit" where
  "validate_log_id i =
     (if length i < 1 \<or> length i > 256 \<or> \<not> utf8_valid i \<or> i = ''.'' \<or> i = ''..'' \<or> chr 0 \<in> set i
      then Inl (ddae_error ClassValidation ''serviceability_log_detail_id'')
      else Inr ())"

record related_raw =
  rr_type :: "bytes option"
  rr_acknowledged :: "bytes option"
  rr_count :: "int option"
  rr_created_on :: "bytes option"
  rr_updated_on :: "bytes option"
  rr_clear_type :: "bytes option"
  rr_auto_clear_timeout :: "int option"
  rr_app_name :: "bytes option"
  rr_component :: "bytes option"
  rr_namespace :: "bytes option"
  rr_message :: "bytes option"
  rr_reason :: "bytes option"
  rr_remedies :: "bytes list"
  rr_resource_id :: "bytes option"
  rr_symptom_id :: "bytes option"
  rr_related :: "bytes option"

record alert_detail =
  ad_id :: bytes
  ad_type :: "bytes option"
  ad_acknowledged :: "bytes option"
  ad_count :: "int option"
  ad_created_on :: "bytes option"
  ad_updated_on :: "bytes option"
  ad_clear_type :: "bytes option"
  ad_auto_clear_timeout :: "int option"
  ad_app_name :: "bytes option"
  ad_component :: "bytes option"
  ad_namespace :: "bytes option"
  ad_message :: "bytes option"
  ad_reason :: "bytes option"
  ad_remedies :: "bytes list"
  ad_resource_id :: "bytes option"
  ad_symptom_id :: "bytes option"
  ad_related :: "bytes option"
  ad_events :: "related_raw list"

record alert_list_item =
  li_id :: bytes
  li_updated_on :: "bytes option"

record alert_list =
  al_results :: "alert_list_item list"
  al_threshold :: "int option"
  al_total_records :: "int option"

record log_detail =
  ld_id :: bytes
  ld_type :: "bytes option"
  ld_acknowledged :: "bytes option"
  ld_count :: "int option"
  ld_created_on :: "bytes option"
  ld_updated_on :: "bytes option"
  ld_app_name :: "bytes option"
  ld_component :: "bytes option"
  ld_namespace :: "bytes option"
  ld_message :: "bytes option"
  ld_reason :: "bytes option"
  ld_remedies :: "bytes list"
  ld_resource_id :: "bytes option"
  ld_symptom_id :: "bytes option"
  ld_related :: "bytes option"

record log_list =
  ll_results :: "alert_list_item list"
  ll_threshold :: "int option"
  ll_total_records :: "int option"
  ll_malformed :: bool

lemma validate_alert_id_Inr:
  "validate_alert_id i = Inr () \<longleftrightarrow>
     1 \<le> length i \<and> length i \<le> 256 \<and> i \<noteq> ''.'' \<and> i \<noteq> ''..'' \<and> (\<forall>c \<in> set i. id_char c)"
  by (auto simp: validate_alert_id_def Suc_le_eq)

lemma validate_log_id_Inr:
  "validate_log_id i = Inr () \<longleftrightarrow>
     1 \<le> length i \<and> length i \<le> 256 \<and> utf8_valid i \<and> i \<noteq> ''.'' \<and> i \<noteq> ''..'' \<and> chr 0 \<notin> set i"
  by (auto simp: validate_log_id_def Suc_le_eq)

lemma byte_id_punct: "c \<in> set ''._:-'' \<Longrightarrow> byte c \<in> {45, 46, 58, 95}"
  by (auto simp: byte_def)

lemma id_char_ascii: "id_char c \<Longrightarrow> 45 \<le> byte c \<and> byte c \<le> 122"
  using byte_id_punct [of c] by (auto simp: id_char_def is_lower_def is_upper_def is_digit_def)

lemma valid_alert_id_utf8: "validate_alert_id i = Inr () \<Longrightarrow> utf8_valid i"
  using id_char_ascii by (intro utf8_valid_ascii) (fastforce simp: validate_alert_id_Inr)

lemma valid_alert_id_path_safe:
  assumes "validate_alert_id i = Inr ()"
  shows "CHR ''/'' \<notin> set i" "CHR 0x25 \<notin> set i" "CHR ''?'' \<notin> set i" "CHR ''#'' \<notin> set i"
proof -
  have "\<not> id_char (CHR ''/'')" "\<not> id_char (CHR 0x25)" "\<not> id_char (CHR ''?'')" "\<not> id_char (CHR ''#'')"
    by (simp_all add: id_char_def is_lower_def is_upper_def is_digit_def byte_def)
  with assms show "CHR ''/'' \<notin> set i" "CHR 0x25 \<notin> set i" "CHR ''?'' \<notin> set i" "CHR ''#'' \<notin> set i"
    by (auto simp: validate_alert_id_Inr)
qed

end
