(* ===== verification/Go_Json_Roundtrip.thy ===== *)
theory Go_Json_Roundtrip
  imports Go_Json
begin

text \<open>
  The scanner reads back what the printer writes: for a value whose strings are valid UTF-8, whose
  numbers are printed integers and whose containers nest at most 10000 deep,
  \<open>json_parse (json_print j) = Some j\<close>. The fuel the parser starts with is enough, because a value
  needs no more fuel than it has characters.
\<close>

section \<open>String literals\<close>

lemma hex_val_hex_digit [simp]: "n < 16 \<Longrightarrow> hex_val (hex_digit n) = Some n"
  by (auto simp: hex_val_def hex_digit_def Let_def)

lemma hex_val_0 [simp]: "hex_val (CHR ''0'') = Some 0"
  by (simp add: hex_val_def byte_def)

lemma hex4_hex2: "x < 128 \<Longrightarrow> hex4 (CHR ''0'' # CHR ''0'' # hex2 x @ u) = Some (x, u)"
  by (simp add: hex2_def)

lemma byte_quote: "byte (CHR 0x22) = 34" "byte (CHR 0x5C) = 92"
  by (simp_all add: byte_def)

lemma parse_str_quote [simp]: "parse_str (CHR 0x22 # u) = Some ([], u)"
  by (subst parse_str.simps) simp

lemma parse_str_unescape:
  "parse_str (CHR 0x5C # t) =
     (case unescape t of None \<Rightarrow> None | Some (out, t') \<Rightarrow> prepend out (parse_str t'))"
  by (subst parse_str.simps) simp

lemma parse_str_plain:
  assumes "c \<noteq> CHR 0x22" "c \<noteq> CHR 0x5C" "32 \<le> byte c" "byte c < 128"
  shows "parse_str (c # u) = prepend [c] (parse_str u)"
  using assms by (subst parse_str.simps) (simp add: utf8_len_ascii del: utf8_len.simps)

lemma unescape_ctrl:
  "unescape (CHR ''b'' # u) = Some ([chr 8], u)"
  "unescape (CHR ''f'' # u) = Some ([chr 12], u)"
  "unescape (CHR ''n'' # u) = Some ([chr 10], u)"
  "unescape (CHR ''r'' # u) = Some ([chr 13], u)"
  "unescape (CHR ''t'' # u) = Some ([chr 9], u)"
  by simp_all

lemma chr_of_byte: "byte c = n \<Longrightarrow> chr n = c"
  by auto

lemma parse_str_esc_ascii:
  assumes "byte c < 128"
  shows "parse_str (esc_ascii c @ u) = prepend [c] (parse_str u)"
proof -
  have q: "c = CHR 0x22 \<longleftrightarrow> byte c = 34" "c = CHR 0x5C \<longleftrightarrow> byte c = 92"
    using byte_quote byte_eq_iff by metis+
  have u: "unescape (CHR ''u'' # CHR ''0'' # CHR ''0'' # hex2 (byte c) @ u) = Some ([c], u)"
    using assms hex4_hex2 [of "byte c" u] by (simp add: unescape_u_def utf8_encode_def)
  show ?thesis
    using assms u q
    by (auto simp: esc_ascii_def Let_def parse_str_unescape parse_str_plain
        unescape_ctrl chr_of_byte hex2_def simp del: unescape.simps)
       (auto simp: byte_quote)
qed

lemma utf8_len_1_ascii: "utf8_len [c] = 1 \<longleftrightarrow> byte c < 128"
  by (auto simp: Let_def)

lemma parse_str_wide:
  assumes n: "utf8_len r = length r" and l: "2 \<le> length r"
  shows "parse_str (r @ u) = prepend r (parse_str u)"
proof -
  obtain c t where r: "r = c # t" using l by (cases r) auto
  have big: "128 \<le> byte c"
  proof (rule ccontr)
    assume "\<not> 128 \<le> byte c"
    then have "utf8_len r = 1" by (simp add: r utf8_len_ascii del: utf8_len.simps)
    with n l show False by simp
  qed
  have ne: "c \<noteq> CHR 0x22" "c \<noteq> CHR 0x5C" using big byte_quote by auto
  have len: "utf8_len (c # t @ u) = length r"
    using utf8_len_append [of r u] n l by (simp add: r del: utf8_len.simps)
  have "parse_str (c # t @ u) = prepend (take (length r) (c # t @ u)) (parse_str (drop (length r) (c # t @ u)))"
    using big ne r by (subst parse_str.simps) (simp add: len del: utf8_len.simps)
  then show ?thesis by (simp add: r)
qed

lemma unescape_line_sep:
  "unescape (''u2028'' @ u) = Some (map chr [226, 128, 168], u)"
  "unescape (''u2029'' @ u) = Some (map chr [226, 128, 169], u)"
  by (simp_all add: unescape_u_def hex_val_def byte_def utf8_encode_def Let_def)

lemma parse_str_esc_rune:
  assumes n: "utf8_len r = length r" and ne: "r \<noteq> []"
  shows "parse_str (esc_rune r @ u) = prepend r (parse_str u)"
proof (cases "length r = 1")
  case True
  then obtain c where r: "r = [c]" by (cases r) auto
  with n have "byte c < 128" using utf8_len_1_ascii by simp
  then show ?thesis by (simp add: r esc_rune_def parse_str_esc_ascii)
next
  case False
  with ne have l: "2 \<le> length r" by (cases r) (auto simp: Suc_le_eq)
  then obtain a b t where r: "r = a # b # t"
    by (metis Suc_le_length_iff numeral_2_eq_2)
  show ?thesis
  proof (cases "r = map chr [226, 128, 168] \<or> r = map chr [226, 128, 169]")
    case True
    then show ?thesis
      using unescape_line_sep [of u]
      by (auto simp: esc_rune_def parse_str_unescape simp del: unescape.simps)
  next
    case False
    then have "esc_rune r = r" by (simp add: esc_rune_def r)
    with n l show ?thesis by (simp add: parse_str_wide)
  qed
qed

theorem parse_str_escape:
  "utf8_valid s \<Longrightarrow> parse_str (json_escape s @ CHR 0x22 # u) = Some (s, u)"
proof (induction s rule: utf8_valid.induct)
  case (1 s)
  show ?case
  proof (cases "s = []")
    case True
    then show ?thesis by (simp add: json_escape_def)
  next
    case False
    let ?n = "utf8_len s"
    from False 1 have p: "0 < ?n" and v: "utf8_valid (drop ?n s)"
      by (simp_all add: utf8_valid_step)
    have "utf8_runes s = take ?n s # utf8_runes (drop ?n s)"
      using False p by (subst utf8_runes.simps) (simp add: max_def)
    then have e: "json_escape s = esc_rune (take ?n s) @ json_escape (drop ?n s)"
      by (simp add: json_escape_def)
    have "utf8_len (take ?n s) = length (take ?n s)"
      using utf8_len_take_append [of s "[]"] p utf8_len_le_length [of s] by simp
    then have "parse_str (json_escape s @ CHR 0x22 # u) =
        prepend (take ?n s) (parse_str (json_escape (drop ?n s) @ CHR 0x22 # u))"
      using False p by (simp add: e parse_str_esc_rune)
    also have "parse_str (json_escape (drop ?n s) @ CHR 0x22 # u) = Some (drop ?n s, u)"
      using "1.IH" False p v by simp
    finally show ?thesis by simp
  qed
qed

section \<open>Numbers\<close>

definition num_end :: "bytes \<Rightarrow> bool" where
  "num_end s \<longleftrightarrow> s = [] \<or> hd s \<in> {CHR '','', CHR '']'', CHR ''}''}"

lemma num_endD:
  assumes "num_end s"
  shows "takeWhile is_digit s = []" "dropWhile is_digit s = s" "scan_frac s = Some ([], s)"
    "scan_exp s = Some ([], s)"
  using assms
  by (cases s; auto simp: num_end_def is_digit_def byte_def scan_frac_def scan_exp_def)+

lemma scan_int_show_nat:
  assumes "num_end u"
  shows "scan_int (show_nat n @ u) = Some (show_nat n, u)"
proof (cases "n = 0")
  case True
  have "digit 0 = CHR ''0''" by (rule byte_eq_iff [THEN iffD1]) (simp add: digit_def byte_def chr_def)
  with True show ?thesis by (simp add: show_nat.simps scan_int_def)
next
  case False
  obtain c t where s: "show_nat n = c # t"
    using show_nat_not_Nil by (cases "show_nat n") auto
  have ds: "\<forall>x \<in> set (show_nat n). is_digit x" using show_nat_digits by blast
  have "c \<noteq> CHR ''0''" using show_nat_0_hd [of n] False s by auto
  moreover have "is_digit c" using ds s by simp
  moreover have "span_digits (show_nat n @ u) = (show_nat n, u)"
    using ds num_endD(1,2) [OF assms] by (simp add: span_digits_def takeWhile_append2 dropWhile_append2)
  ultimately show ?thesis by (simp add: scan_int_def s)
qed

lemma scan_num_show_int:
  assumes "num_end u"
  shows "scan_num (show_int i @ u) = Some (show_int i, u)"
proof (cases "i < 0")
  case True
  then show ?thesis
    using scan_int_show_nat [OF assms, of "nat (- i)"] num_endD(3,4) [OF assms]
    by (simp add: scan_num_def show_int_def)
next
  case False
  obtain c t where s: "show_nat (nat i) = c # t"
    using show_nat_not_Nil by (cases "show_nat (nat i)") auto
  then have "is_digit c" using show_nat_digits [of c "nat i"] by simp
  then have "c \<noteq> CHR ''-''" using not_digit_sign by auto
  then show ?thesis
    using False scan_int_show_nat [OF assms, of "nat i"] num_endD(3,4) [OF assms]
    by (simp add: scan_num_def show_int_def s)
qed

text \<open>A text that is read back as the same number wherever it ends.\<close>

definition num_text :: "bytes \<Rightarrow> bool" where
  "num_text n \<longleftrightarrow>
     (\<exists>c t. n = c # t \<and> (c = CHR ''-'' \<or> is_digit c)) \<and> (\<forall>c \<in> set n. byte c < 128) \<and>
     (\<forall>u. num_end u \<longrightarrow> scan_num (n @ u) = Some (n, u))"

lemma show_int_head: "\<exists>c t. show_int i = c # t \<and> (c = CHR ''-'' \<or> is_digit c)"
proof (cases "i < 0")
  case False
  obtain c t where "show_nat (nat i) = c # t"
    using show_nat_not_Nil by (cases "show_nat (nat i)") auto
  with False show ?thesis using show_nat_digits [of c "nat i"] by (auto simp: show_int_def)
qed (simp add: show_int_def)

lemma show_int_ascii: "c \<in> set (show_int i) \<Longrightarrow> byte c < 128"
  using show_nat_digits [of c "nat i"] show_nat_digits [of c "nat (- i)"]
  by (auto simp: show_int_def is_digit_def byte_def split: if_splits)

lemma num_text_show_int [simp]: "num_text (show_int i)"
  using show_int_head show_int_ascii scan_num_show_int by (auto simp: num_text_def)

section \<open>Values\<close>

fun json_ok :: "json \<Rightarrow> bool" where
  "json_ok JNull = True"
| "json_ok (JBool b) = True"
| "json_ok (JNum n) = num_text n"
| "json_ok (JStr s) = utf8_valid s"
| "json_ok (JArr xs) = list_all json_ok xs"
| "json_ok (JObj ms) = list_all (\<lambda>(k, v). utf8_valid k \<and> json_ok v) ms"

fun json_depth :: "json \<Rightarrow> nat" where
  "json_depth (JArr xs) = Suc (foldr max (map json_depth xs) 0)"
| "json_depth (JObj ms) = Suc (foldr max (map (\<lambda>(k, v). json_depth v) ms) 0)"
| "json_depth _ = 0"

fun json_fuel :: "json \<Rightarrow> nat" where
  "json_fuel (JArr xs) = Suc (sum_list (map (\<lambda>x. Suc (json_fuel x)) xs))"
| "json_fuel (JObj ms) = Suc (sum_list (map (\<lambda>(k, v). Suc (json_fuel v)) ms))"
| "json_fuel _ = 1"

lemma foldr_max_le: "x \<in> set xs \<Longrightarrow> x \<le> foldr max xs (b::nat)"
  by (induction xs) auto

lemma foldr_max_le_iff: "foldr max xs (0::nat) \<le> d \<longleftrightarrow> (\<forall>x \<in> set xs. x \<le> d)"
  by (induction xs) auto

lemma skip_ws_simps [simp]: "skip_ws [] = []"
  by (simp add: skip_ws_def)

lemma skip_ws_non_ws [simp]: "\<not> is_ws c \<Longrightarrow> skip_ws (c # s) = c # s"
  by (simp add: skip_ws_def)

lemma non_ws [simp]:
  "\<not> is_ws (CHR '','')" "\<not> is_ws (CHR '']'')" "\<not> is_ws (CHR ''}'')" "\<not> is_ws (CHR '':'')"
  "\<not> is_ws (CHR 0x22)" "\<not> is_ws (CHR ''['')" "\<not> is_ws (CHR ''{'')" "\<not> is_ws (CHR ''n'')"
  "\<not> is_ws (CHR ''t'')" "\<not> is_ws (CHR ''f'')"
  by (simp_all add: is_ws_def byte_def)

definition value_head :: "char \<Rightarrow> bool" where
  "value_head c \<longleftrightarrow> \<not> is_ws c \<and> c \<noteq> CHR '']'' \<and> c \<noteq> CHR ''}''"

lemma number_head:
  assumes "c = CHR ''-'' \<or> is_digit c"
  shows "value_head c \<and> c \<notin> {CHR 0x22, CHR ''n'', CHR ''t'', CHR ''f'', CHR ''['', CHR ''{''}"
  using assms by (auto simp: value_head_def is_ws_def is_digit_def byte_def)

lemma json_print_head:
  assumes "json_ok j"
  shows "\<exists>c t. json_print j = c # t \<and> value_head c"
proof (cases j)
  case (JNum n)
  with assms obtain c t where c: "n = c # t" "c = CHR ''-'' \<or> is_digit c" by (auto simp: num_text_def)
  from number_head [OF c(2)] c(1) show ?thesis by (simp add: JNum)
qed (simp_all add: value_head_def print_str_def)

lemma parse_val_num:
  assumes "num_end u" "num_text s"
  shows "parse_val (Suc n) d (s @ u) = Some (JNum s, u)"
proof -
  obtain c t where c: "s = c # t" "c = CHR ''-'' \<or> is_digit c"
    using assms(2) by (auto simp: num_text_def)
  have h: "value_head c" "c \<notin> {CHR 0x22, CHR ''n'', CHR ''t'', CHR ''f'', CHR ''['', CHR ''{''}"
    using number_head [OF c(2)] by simp_all
  have "skip_ws (s @ u) = c # t @ u" using h(1) by (simp add: c(1) value_head_def)
  moreover have "scan_num (c # t @ u) = Some (c # t, u)"
    using assms by (simp add: c(1) num_text_def)
  ultimately show ?thesis using h(2) by (simp add: c(1))
qed

lemma parse_val_str:
  "utf8_valid s \<Longrightarrow> parse_val (Suc n) d (print_str s @ u) = Some (JStr s, u)"
  by (simp add: print_str_def parse_str_escape)

lemma parse_val_lits:
  "parse_val (Suc n) d (''null'' @ u) = Some (JNull, u)"
  "parse_val (Suc n) d (''true'' @ u) = Some (JBool True, u)"
  "parse_val (Suc n) d (''false'' @ u) = Some (JBool False, u)"
  by (simp_all add: scan_lit_def)

lemma num_end_delims [simp]: "num_end (CHR '','' # s)" "num_end (CHR '']'' # s)" "num_end (CHR ''}'' # s)"
  by (simp_all add: num_end_def)

abbreviation reads_back :: "json \<Rightarrow> bool" where
  "reads_back j \<equiv> (\<forall>u d n. num_end u \<longrightarrow> json_ok j \<longrightarrow> json_depth j \<le> d \<longrightarrow> json_fuel j \<le> n \<longrightarrow>
     parse_val n d (json_print j @ u) = Some (j, u))"

lemma parse_elems_print:
  assumes "\<forall>x \<in> set xs. reads_back x" and "xs \<noteq> []" and "list_all json_ok xs"
    and "\<forall>x \<in> set xs. json_depth x \<le> d"
    and "sum_list (map (\<lambda>x. Suc (json_fuel x)) xs) \<le> n"
  shows "parse_elems n d (join_comma (map json_print xs) @ CHR '']'' # u) = Some (xs, u)"
  using assms
proof (induction xs arbitrary: n)
  case (Cons x xs)
  then obtain m where n: "n = Suc m" by (cases n) auto
  show ?case
  proof (cases xs)
    case Nil
    with Cons.prems n have "parse_val m d (json_print x @ CHR '']'' # u) = Some (x, CHR '']'' # u)"
      by simp
    then show ?thesis using Nil n by simp
  next
    case (Cons y ys)
    let ?rest = "join_comma (map json_print xs) @ CHR '']'' # u"
    have "parse_val m d (json_print x @ CHR '','' # ?rest) = Some (x, CHR '','' # ?rest)"
      using Cons.prems n by simp
    moreover have "parse_elems m d ?rest = Some (xs, u)"
      using Cons.prems n Cons by (intro Cons.IH) auto
    ultimately show ?thesis using n Cons by simp
  qed
qed simp

definition print_member :: "bytes \<times> json \<Rightarrow> bytes" where
  "print_member m = print_str (fst m) @ CHR '':'' # json_print (snd m)"

lemma parse_members_print:
  assumes "\<forall>m \<in> set ms. reads_back (snd m)" and "ms \<noteq> []"
    and "\<forall>m \<in> set ms. utf8_valid (fst m) \<and> json_ok (snd m)"
    and "\<forall>m \<in> set ms. json_depth (snd m) \<le> d"
    and "sum_list (map (\<lambda>m. Suc (json_fuel (snd m))) ms) \<le> n"
  shows "parse_members n d (join_comma (map print_member ms) @ CHR ''}'' # u) = Some (ms, u)"
  using assms
proof (induction ms arbitrary: n)
  case (Cons m ms)
  then obtain k where n: "n = Suc k" by (cases n) auto
  obtain name x where m: "m = (name, x)" by (cases m)
  show ?case
  proof (cases ms)
    case Nil
    with Cons.prems n m have "parse_val k d (json_print x @ CHR ''}'' # u) = Some (x, CHR ''}'' # u)"
      by simp
    then show ?thesis
      using Nil n m Cons.prems parse_str_escape [of name "CHR '':'' # json_print x @ CHR ''}'' # u"]
      by (simp add: print_member_def print_str_def)
  next
    case (Cons y ys)
    let ?rest = "join_comma (map print_member ms) @ CHR ''}'' # u"
    have "parse_val k d (json_print x @ CHR '','' # ?rest) = Some (x, CHR '','' # ?rest)"
      using Cons.prems n m by simp
    moreover have "parse_members k d ?rest = Some (ms, u)"
      using Cons.prems n Cons by (intro Cons.IH) auto
    moreover have "parse_str (json_escape name @ CHR 0x22 # CHR '':'' # json_print x @ CHR '','' # ?rest) =
        Some (name, CHR '':'' # json_print x @ CHR '','' # ?rest)"
      using Cons.prems(3) m by (simp add: parse_str_escape)
    moreover have "join_comma (map print_member (m # ms)) @ CHR ''}'' # u =
        CHR 0x22 # json_escape name @ CHR 0x22 # CHR '':'' # json_print x @ CHR '','' # ?rest"
      using m Cons by (simp add: print_member_def [of "(name, x)"] print_str_def [of name])
    ultimately show ?thesis using n m by simp
  qed
qed simp

lemma join_comma_head: "ss \<noteq> [] \<Longrightarrow> hd ss = c # t \<Longrightarrow> \<exists>w. join_comma ss = c # w"
  by (cases ss rule: join_comma.cases) auto

lemma json_print_JObj: "json_print (JObj ms) = CHR ''{'' # join_comma (map print_member ms) @ [CHR ''}'']"
proof -
  have "map (\<lambda>(k, v). print_str k @ CHR '':'' # json_print v) ms = map print_member ms"
    by (auto simp: print_member_def)
  then show ?thesis by (simp only: json_print.simps)
qed

lemma reads_back_all: "reads_back j"
proof (induction j)
  case JNull
  then show ?case using parse_val_lits by (auto simp: Suc_le_eq gr0_conv_Suc)
next
  case (JBool b)
  then show ?case using parse_val_lits by (auto simp: Suc_le_eq gr0_conv_Suc)
next
  case (JNum n)
  then show ?case using parse_val_num by (auto simp: Suc_le_eq gr0_conv_Suc)
next
  case (JStr s)
  then show ?case using parse_val_str by (auto simp: Suc_le_eq gr0_conv_Suc)
next
  case (JArr xs)
  show ?case
  proof (intro allI impI)
    fix u d n
    assume a: "num_end u" "json_ok (JArr xs)" "json_depth (JArr xs) \<le> d" "json_fuel (JArr xs) \<le> n"
    then obtain m where n: "n = Suc m" by (cases n) auto
    have d0: "0 < d" and dep: "\<forall>x \<in> set xs. json_depth x \<le> d - 1"
      using a(3) foldr_max_le [of _ "map json_depth xs" 0] by (fastforce simp: Suc_le_eq)+
    show "parse_val n d (json_print (JArr xs) @ u) = Some (JArr xs, u)"
    proof (cases "xs = []")
      case True
      then show ?thesis using n d0 by simp
    next
      case False
      let ?body = "join_comma (map json_print xs) @ CHR '']'' # u"
      have "parse_elems m (d - 1) ?body = Some (xs, u)"
        using JArr a n False dep by (intro parse_elems_print) auto
      moreover obtain c w where "?body = c # w" "value_head c"
        using False a(2) json_print_head [of "hd xs"] join_comma_head [of "map json_print xs"]
        by (cases xs) (force simp: hd_map)+
      ultimately show ?thesis using n d0 by (simp add: value_head_def)
    qed
  qed
next
  case (JObj ms)
  show ?case
  proof (intro allI impI)
    fix u d n
    assume a: "num_end u" "json_ok (JObj ms)" "json_depth (JObj ms) \<le> d" "json_fuel (JObj ms) \<le> n"
    then obtain m where n: "n = Suc m" by (cases n) auto
    have d0: "0 < d" and dep: "\<forall>p \<in> set ms. json_depth (snd p) \<le> d - 1"
      using a(3) foldr_max_le [of _ "map (\<lambda>(k, v). json_depth v) ms" 0]
      by (fastforce simp: Suc_le_eq)+
    show "parse_val n d (json_print (JObj ms) @ u) = Some (JObj ms, u)"
    proof (cases "ms = []")
      case True
      then show ?thesis using n d0 by simp
    next
      case False
      let ?body = "join_comma (map print_member ms) @ CHR ''}'' # u"
      have "parse_members m (d - 1) ?body = Some (ms, u)"
      proof (rule parse_members_print)
        show "\<forall>p \<in> set ms. reads_back (snd p)" using JObj by (metis snds.intros surjective_pairing)
        show "sum_list (map (\<lambda>p. Suc (json_fuel (snd p))) ms) \<le> m"
          using a(4) n by (simp add: case_prod_unfold)
      qed (use False a(2) dep in \<open>auto simp: list_all_iff\<close>)
      moreover obtain w where "?body = CHR 0x22 # w"
        using False join_comma_head [of "map print_member ms"]
        by (cases ms) (force simp: print_member_def print_str_def)+
      ultimately show ?thesis using n d0 by (simp add: json_print_JObj del: json_print.simps)
    qed
  qed
qed

section \<open>Enough fuel\<close>

lemma length_join_comma:
  "ss \<noteq> [] \<Longrightarrow> length (join_comma ss) + 1 = sum_list (map (\<lambda>s. Suc (length s)) ss)"
  by (induction ss rule: join_comma.induct) auto

lemma json_fuel_le_length: "json_ok j \<Longrightarrow> json_fuel j \<le> length (json_print j)"
proof (induction j)
  case (JNum n)
  then show ?case by (auto simp: Suc_le_eq num_text_def)
next
  case (JArr xs)
  show ?case
  proof (cases "xs = []")
    case False
    have "sum_list (map (\<lambda>x. Suc (json_fuel x)) xs) \<le> sum_list (map (\<lambda>x. Suc (length (json_print x))) xs)"
      using JArr by (intro sum_list_mono) (auto simp: list_all_iff)
    then show ?thesis
      using False length_join_comma [of "map json_print xs"] by (simp add: comp_def)
  qed simp
next
  case (JObj ms)
  show ?case
  proof (cases "ms = []")
    case False
    have "sum_list (map (\<lambda>(k, v). Suc (json_fuel v)) ms) \<le> sum_list (map (\<lambda>m. Suc (length (print_member m))) ms)"
    proof (rule sum_list_mono)
      fix m assume m: "m \<in> set ms"
      then have "json_fuel (snd m) \<le> length (json_print (snd m))"
        using JObj by (metis (mono_tags, lifting) json_ok.simps(6) list_all_iff snds.intros case_prod_beta surjective_pairing)
      then show "(case m of (k, v) \<Rightarrow> Suc (json_fuel v)) \<le> Suc (length (print_member m))"
        by (simp add: case_prod_beta print_member_def)
    qed
    then show ?thesis
      using False length_join_comma [of "map print_member ms"]
      by (simp add: json_print_JObj comp_def del: json_print.simps)
  qed simp
qed (auto simp: print_str_def)

theorem json_parse_print:
  assumes "json_ok j" and "json_depth j \<le> max_nesting"
  shows "json_parse (json_print j) = Some j"
proof -
  have "parse_val (Suc (length (json_print j))) max_nesting (json_print j @ []) = Some (j, [])"
    using assms json_fuel_le_length [OF assms(1)]
    by (intro reads_back_all [of j, rule_format]) (simp_all add: num_end_def)
  then show ?thesis by (simp add: json_parse_def)
qed

lemma json_ok_jint [simp]: "json_ok (jint i)"
  by (simp add: jint_def)

lemma json_ok_juint [simp]: "json_ok (juint w)"
proof -
  have "show_nat (unat w) = show_int (int (unat w))" by (simp add: show_int_def)
  then show ?thesis by (simp only: juint_def json_ok.simps num_text_show_int)
qed

lemma json_depth_leaf [simp]: "json_depth (jint i) = 0" "json_depth (juint w) = 0"
  by (simp_all add: jint_def juint_def)

end
