(* ===== verification/Go_Time.thy ===== *)
theory Go_Time
  imports Go_Strings "HOL-Library.Monad_Syntax"
begin

text \<open>
  Calendar dates and the layout \<open>time.RFC3339Nano\<close>: \<open>format_rfc3339\<close> is
  \<open>t.UTC().Format(time.RFC3339Nano)\<close>, \<open>parse_rfc3339\<close> is \<open>time.Parse(time.RFC3339Nano, s)\<close>, which
  accepts more than the format writes (a one-digit hour, a comma before the fraction, any number of
  fraction digits, offsets up to 24:60). Main facts: the civil calendar conversion is exact for every
  instant, and parsing what was formatted gives the instant back for the years 0 to 9999.
\<close>

section \<open>Civil dates\<close>

definition leap :: "int \<Rightarrow> bool" where
  "leap y \<longleftrightarrow> y mod 4 = 0 \<and> (y mod 100 \<noteq> 0 \<or> y mod 400 = 0)"

text \<open>Days from 1 January of year 1 to 1 January of year \<open>y\<close>.\<close>

definition days_before_year :: "int \<Rightarrow> int" where
  "days_before_year y = (let n = y - 1 in 365 * n + n div 4 - n div 100 + n div 400)"

definition days_before_month :: "int \<Rightarrow> nat \<Rightarrow> int" where
  "days_before_month y m =
     [0, 31, 59, 90, 120, 151, 181, 212, 243, 273, 304, 334, 365] ! (m - 1) +
     (if leap y \<and> 2 < m then 1 else 0)"

definition days_in_month :: "int \<Rightarrow> nat \<Rightarrow> int" where
  "days_in_month y m =
     (if m = 2 then (if leap y then 29 else 28)
      else if m = 4 \<or> m = 6 \<or> m = 9 \<or> m = 11 then 30 else 31)"

definition day_number :: "int \<Rightarrow> nat \<Rightarrow> int \<Rightarrow> int" where
  "day_number y m d = days_before_year y + days_before_month y m + (d - 1)"

definition year_of_day :: "int \<Rightarrow> int" where
  "year_of_day n =
     (let e = (400 * n) div 146097 + 1 in if days_before_year (e + 1) \<le> n then e + 1 else e)"

definition month_of_yday :: "int \<Rightarrow> int \<Rightarrow> nat" where
  "month_of_yday y k =
     (if k < days_before_month y 2 then 1 else if k < days_before_month y 3 then 2
      else if k < days_before_month y 4 then 3 else if k < days_before_month y 5 then 4
      else if k < days_before_month y 6 then 5 else if k < days_before_month y 7 then 6
      else if k < days_before_month y 8 then 7 else if k < days_before_month y 9 then 8
      else if k < days_before_month y 10 then 9 else if k < days_before_month y 11 then 10
      else if k < days_before_month y 12 then 11 else 12)"

definition civil :: "int \<Rightarrow> int \<times> nat \<times> int" where
  "civil n =
     (let y = year_of_day n; k = n - days_before_year y; m = month_of_yday y k
      in (y, m, k - days_before_month y m + 1))"

definition date_valid :: "int \<Rightarrow> nat \<Rightarrow> int \<Rightarrow> bool" where
  "date_valid y m d \<longleftrightarrow> 1 \<le> m \<and> m \<le> 12 \<and> 1 \<le> d \<and> d \<le> days_in_month y m"

lemma div_pred:
  fixes y k :: int
  assumes "0 < k"
  shows "y div k = (y - 1) div k + (if y mod k = 0 then 1 else 0)"
proof -
  have y: "y = k * (y div k) + y mod k" by simp
  have r: "0 \<le> y mod k" "y mod k < k" using assms by simp_all
  show ?thesis
  proof (cases "y mod k = 0")
    case True
    have "(y - 1) div k = y div k - 1"
      using y True assms by (intro int_div_pos_eq [of _ _ _ "k - 1"]) (simp_all add: algebra_simps)
    with True show ?thesis by simp
  next
    case False
    have "(y - 1) div k = y div k"
      using y r False by (intro int_div_pos_eq [of _ _ _ "y mod k - 1"]) simp_all
    with False show ?thesis by simp
  qed
qed

lemma year_length: "days_before_year (y + 1) = days_before_year y + (if leap y then 366 else 365)"
proof -
  have 1: "4 dvd y" if "100 dvd y" by (rule dvd_trans [OF _ that]) simp
  have 2: "100 dvd y" if "400 dvd y" by (rule dvd_trans [OF _ that]) simp
  define a b c where "a = (y - 1) div 4" and "b = (y - 1) div 100" and "c = (y - 1) div 400"
  have "y div 4 = a + (if 4 dvd y then 1 else 0)" "y div 100 = b + (if 100 dvd y then 1 else 0)"
    "y div 400 = c + (if 400 dvd y then 1 else 0)"
    unfolding a_def b_def c_def by (rule div_pred [OF zero_less_numeral, folded dvd_eq_mod_eq_0])+
  then have "days_before_year (y + 1) = 365 * y + a + (if 4 dvd y then 1 else 0)
      - (b + (if 100 dvd y then 1 else 0)) + (c + (if 400 dvd y then 1 else 0))"
    by (simp add: days_before_year_def)
  moreover have "days_before_year y = 365 * (y - 1) + a - b + c"
    by (simp add: days_before_year_def a_def b_def c_def Let_def)
  moreover have "leap y = (4 dvd y \<and> (\<not> 100 dvd y \<or> 400 dvd y))"
    by (simp add: leap_def dvd_eq_mod_eq_0)
  ultimately show ?thesis using 1 2 by (cases "4 dvd y"; cases "100 dvd y"; cases "400 dvd y") simp_all
qed

lemma days_before_year_mono: "y < z \<Longrightarrow> days_before_year y + 365 * (z - y) \<le> days_before_year z"
proof (induction z rule: int_gr_induct)
  case base
  show ?case by (simp add: year_length)
next
  case (step z)
  then show ?case using year_length [of z] by (simp split: if_splits)
qed

lemma div_bounds: "0 < k \<Longrightarrow> k * (x div k) \<le> x \<and> x < k * (x div k) + (k::int)"
  using mult_div_mod_eq [of k x] pos_mod_sign [of k x] pos_mod_bound [of k x] by linarith

text \<open>A year starts within a day before and two days after its mean position of 365.2425 days.\<close>

lemma days_before_year_bounds:
  "400 * days_before_year (y + 1) \<le> 146097 * y + 399" "146097 * y < 400 * days_before_year (y + 1) + 700"
proof -
  have d: "days_before_year (y + 1) = 365 * y + y div 4 - y div 100 + y div 400"
    by (simp add: days_before_year_def)
  show "400 * days_before_year (y + 1) \<le> 146097 * y + 399" "146097 * y < 400 * days_before_year (y + 1) + 700"
    using div_bounds [of 4 y] div_bounds [of 100 y] div_bounds [of 400 y] unfolding d
    by simp_all
qed

lemma year_of_day_bounds:
  "days_before_year (year_of_day n) \<le> n \<and> n < days_before_year (year_of_day n + 1)"
proof -
  define q where "q = (400 * n) div 146097"
  have q: "146097 * q \<le> 400 * n" "400 * n < 146097 * q + 146097"
    unfolding q_def using div_bounds [of 146097 "400 * n"] by simp_all
  have lo: "days_before_year (q + 1) \<le> n" using q days_before_year_bounds(1) [of q] by linarith
  have "146097 * q + 292194 < 400 * days_before_year (q + 3) + 700"
    using days_before_year_bounds(2) [of "q + 2"] by (simp add: add.commute distrib_left)
  then have hi: "n < days_before_year (q + 3)" using q by linarith
  have "year_of_day n = (if days_before_year (q + 2) \<le> n then q + 2 else q + 1)"
    unfolding year_of_day_def Let_def q_def [symmetric] by (simp add: add.commute)
  then show ?thesis using lo hi by (auto simp: add.commute)
qed

lemma year_of_day_unique:
  assumes "days_before_year y \<le> n" "n < days_before_year (y + 1)"
  shows "year_of_day n = y"
proof (rule ccontr)
  assume "year_of_day n \<noteq> y"
  then consider "year_of_day n + 1 \<le> y" | "y + 1 \<le> year_of_day n" by linarith
  then show False
  proof cases
    case 1
    then have "days_before_year (year_of_day n + 1) \<le> days_before_year y"
      using days_before_year_mono [of "year_of_day n + 1" y] by (cases "year_of_day n + 1 = y") auto
    then show False using year_of_day_bounds [of n] assms by linarith
  next
    case 2
    then have "days_before_year (y + 1) \<le> days_before_year (year_of_day n)"
      using days_before_year_mono [of "y + 1" "year_of_day n"] by (cases "year_of_day n = y + 1") auto
    then show False using year_of_day_bounds [of n] assms by linarith
  qed
qed

lemma months: "1 \<le> m \<Longrightarrow> m \<le> 12 \<Longrightarrow> m \<in> {1, 2, 3, 4, 5, 6, 7, 8, 9, 10, 11, 12 :: nat}"
  unfolding insert_iff empty_iff by presburger

lemma month_table:
  "days_before_month y 1 = 0" "days_before_month y 2 = 31"
  "days_before_month y 3 = (if leap y then 60 else 59)" "days_before_month y 4 = (if leap y then 91 else 90)"
  "days_before_month y 5 = (if leap y then 121 else 120)" "days_before_month y 6 = (if leap y then 152 else 151)"
  "days_before_month y 7 = (if leap y then 182 else 181)" "days_before_month y 8 = (if leap y then 213 else 212)"
  "days_before_month y 9 = (if leap y then 244 else 243)" "days_before_month y 10 = (if leap y then 274 else 273)"
  "days_before_month y 11 = (if leap y then 305 else 304)" "days_before_month y 12 = (if leap y then 335 else 334)"
  by (simp_all add: days_before_month_def)

lemma month_of_yday_unique:
  assumes "1 \<le> m" "m \<le> 12" "1 \<le> d" "d \<le> days_in_month y m"
  shows "month_of_yday y (days_before_month y m + (d - 1)) = m"
    and "0 \<le> days_before_month y m + (d - 1)"
    and "days_before_month y m + (d - 1) < (if leap y then 366 else 365)"
  using months [OF assms(1,2)] assms(3,4) unfolding month_of_yday_def days_in_month_def
  by (elim insertE emptyE; cases "leap y"; simp add: month_table del: One_nat_def)+

theorem civil_day_number:
  assumes "date_valid y m d"
  shows "civil (day_number y m d) = (y, m, d)"
proof -
  from assms have v: "1 \<le> m" "m \<le> 12" "1 \<le> d" "d \<le> days_in_month y m" by (simp_all add: date_valid_def)
  note k = month_of_yday_unique [OF v]
  have "year_of_day (day_number y m d) = y"
    using k(2,3) by (intro year_of_day_unique) (simp_all add: day_number_def year_length)
  then show ?thesis using k(1) by (simp add: civil_def Let_def day_number_def)
qed

lemma month_of_yday_bounds:
  assumes "0 \<le> k" "k < (if leap y then 366 else 365)" "m = month_of_yday y k"
  shows "1 \<le> m \<and> m \<le> 12 \<and> days_before_month y m \<le> k \<and> k < days_before_month y m + days_in_month y m"
  using assms(1,2) unfolding assms(3) month_of_yday_def days_in_month_def
  by (cases "leap y"; simp add: month_table del: One_nat_def)

theorem day_number_civil:
  assumes "civil n = (y, m, d)"
  shows "day_number y m d = n" and "date_valid y m d"
proof -
  from assms have y: "y = year_of_day n" and m: "m = month_of_yday y (n - days_before_year y)"
    and d: "d = n - days_before_year y - days_before_month y m + 1"
    by (auto simp: civil_def Let_def)
  show "day_number y m d = n" by (simp add: day_number_def d)
  have "0 \<le> n - days_before_year y" "n - days_before_year y < (if leap y then 366 else 365)"
    using year_of_day_bounds [of n] by (auto simp: y year_length)
  from month_of_yday_bounds [OF this m] show "date_valid y m d"
    by (auto simp: date_valid_def d)
qed

section \<open>RFC 3339\<close>

fun pad_digits :: "nat \<Rightarrow> nat \<Rightarrow> bytes" where
  "pad_digits 0 n = []"
| "pad_digits (Suc w) n = pad_digits w (n div 10) @ [digit (n mod 10)]"

definition show_year :: "int \<Rightarrow> bytes" where
  "show_year y =
     (let p = (\<lambda>n. if n < 10000 then pad_digits 4 n else show_nat n)
      in if y < 0 then CHR ''-'' # p (nat (- y)) else p (nat y))"

definition strip_zeros :: "bytes \<Rightarrow> bytes" where
  "strip_zeros s = rev (dropWhile (\<lambda>c. c = digit 0) (rev s))"

definition show_frac :: "nat \<Rightarrow> bytes" where
  "show_frac n = (if n = 0 then [] else CHR ''.'' # strip_zeros (pad_digits 9 n))"

definition unix_epoch_day :: int where "unix_epoch_day = 719162"

definition utc_date :: "go_time \<Rightarrow> int \<times> nat \<times> int" where
  "utc_date t = civil (t div 1000000000 div 86400 + unix_epoch_day)"

definition utc_year :: "go_time \<Rightarrow> int" where "utc_year t = fst (utc_date t)"

definition format_rfc3339 :: "go_time \<Rightarrow> bytes" where
  "format_rfc3339 t =
     (let (y, m, d) = utc_date t;
          r = nat (t div 1000000000 mod 86400)
      in show_year y @ CHR ''-'' # pad_digits 2 m @ CHR ''-'' # pad_digits 2 (nat d) @
         CHR ''T'' # pad_digits 2 (r div 3600) @ CHR '':'' # pad_digits 2 (r div 60 mod 60) @
         CHR '':'' # pad_digits 2 (r mod 60) @ show_frac (nat (t mod 1000000000)) @ ''Z'')"

definition take_digits :: "nat \<Rightarrow> bytes \<Rightarrow> (nat \<times> bytes) option" where
  "take_digits w s =
     (if w \<le> length s \<and> list_all is_digit (take w s) then Some (read_nat (take w s), drop w s) else None)"

definition take_char :: "char \<Rightarrow> bytes \<Rightarrow> bytes option" where
  "take_char c s = (case s of a # t \<Rightarrow> if a = c then Some t else None | [] \<Rightarrow> None)"

text \<open>The hour may have one digit.\<close>

definition take_hour :: "bytes \<Rightarrow> (nat \<times> bytes) option" where
  "take_hour s =
     (case take_digits 2 s of Some r \<Rightarrow> Some r | None \<Rightarrow> take_digits 1 s)"

definition take_frac :: "bytes \<Rightarrow> nat \<times> bytes" where
  "take_frac s =
     (case s of
        c # d # t \<Rightarrow>
          if (c = CHR ''.'' \<or> c = CHR '','') \<and> is_digit d then
            (let ds = takeWhile is_digit (d # t); u = take 9 ds
             in (read_nat u * 10 ^ (9 - length u), dropWhile is_digit (d # t)))
          else (0, s)
      | _ \<Rightarrow> (0, s))"

text \<open>The zone, as an offset in seconds; nothing may follow it.\<close>

definition take_zone :: "bytes \<Rightarrow> int option" where
  "take_zone s =
     (if s = ''Z'' then Some 0
      else case s of
        g # t \<Rightarrow>
          do { (h, t1) \<leftarrow> take_digits 2 t;
               t2 \<leftarrow> take_char (CHR '':'') t1;
               (m, t3) \<leftarrow> take_digits 2 t2;
               (if t3 = [] \<and> h \<le> 24 \<and> m \<le> 60 \<and> (g = CHR ''+'' \<or> g = CHR ''-'')
                then Some ((if g = CHR ''-'' then -1 else 1) * (int h * 60 + int m) * 60)
                else None) }
      | [] \<Rightarrow> None)"

definition parse_rfc3339 :: "bytes \<Rightarrow> go_time option" where
  "parse_rfc3339 s =
     do { (y, s1) \<leftarrow> take_digits 4 s;
          s2 \<leftarrow> take_char (CHR ''-'') s1;
          (m, s3) \<leftarrow> take_digits 2 s2;
          s4 \<leftarrow> take_char (CHR ''-'') s3;
          (d, s5) \<leftarrow> take_digits 2 s4;
          s6 \<leftarrow> take_char (CHR ''T'') s5;
          (h, s7) \<leftarrow> take_hour s6;
          s8 \<leftarrow> take_char (CHR '':'') s7;
          (mi, s9) \<leftarrow> take_digits 2 s8;
          s10 \<leftarrow> take_char (CHR '':'') s9;
          (sec, s11) \<leftarrow> take_digits 2 s10;
          (let (ns, s12) = take_frac s11
           in do { off \<leftarrow> take_zone s12;
                   (if date_valid (int y) m (int d) \<and> h < 24 \<and> mi < 60 \<and> sec < 60
                    then Some (((day_number (int y) m (int d) - unix_epoch_day) * 86400
                                + int (h * 3600 + mi * 60 + sec) - off) * 1000000000 + int ns)
                    else None) }) }"

lemma length_pad_digits [simp]: "length (pad_digits w n) = w"
  by (induction w arbitrary: n) auto

lemma pad_digits_digits: "c \<in> set (pad_digits w n) \<Longrightarrow> is_digit c"
  by (induction w arbitrary: n) auto

lemma read_pad_digits: "n < 10 ^ w \<Longrightarrow> read_nat (pad_digits w n) = n"
proof (induction w arbitrary: n)
  case (Suc w)
  then have "n div 10 < 10 ^ w" by (simp add: less_mult_imp_div_less)
  with Suc.IH show ?case by simp
qed (simp add: read_nat_def)

lemma take_digits_pad [simp]:
  "n < 10 ^ w \<Longrightarrow> take_digits w (pad_digits w n @ u) = Some (n, u)"
  by (simp add: take_digits_def list_all_iff pad_digits_digits read_pad_digits)

lemma take_char_same [simp]: "take_char c (c # t) = Some t"
  by (simp add: take_char_def)

lemma take_hour_pad [simp]: "n < 100 \<Longrightarrow> take_hour (pad_digits 2 n @ u) = Some (n, u)"
  by (simp add: take_hour_def)

lemma read_nat_zeros: "read_nat (s @ replicate k (digit 0)) = read_nat s * 10 ^ k"
proof (induction k)
  case (Suc k)
  have "read_nat (s @ replicate (Suc k) (digit 0)) = read_nat ((s @ replicate k (digit 0)) @ [digit 0])"
    by (simp add: replicate_append_same)
  with Suc show ?case unfolding read_nat_append by (simp add: mult.commute)
qed simp

lemma strip_zeros_split: "\<exists>k. s = strip_zeros s @ replicate k (digit 0)"
proof -
  let ?P = "\<lambda>c. c = digit 0"
  have "takeWhile ?P (rev s) = replicate (length (takeWhile ?P (rev s))) (digit 0)"
    by (rule replicate_eqI) (auto dest: set_takeWhileD)
  then have "rev s = replicate (length (takeWhile ?P (rev s))) (digit 0) @ dropWhile ?P (rev s)"
    by (metis takeWhile_dropWhile_id)
  then have "s = strip_zeros s @ replicate (length (takeWhile ?P (rev s))) (digit 0)"
    unfolding strip_zeros_def by (metis rev_append rev_replicate rev_rev_ident)
  then show ?thesis by blast
qed

lemma not_digit_Z: "\<not> is_digit (CHR ''Z'')"
  by (simp add: is_digit_def byte_def)

lemma take_frac_show:
  assumes "n < 1000000000"
  shows "take_frac (show_frac n @ ''Z'') = (n, ''Z'')"
proof (cases "n = 0")
  case True
  then show ?thesis by (simp add: show_frac_def take_frac_def)
next
  case False
  obtain k where k: "pad_digits 9 n = strip_zeros (pad_digits 9 n) @ replicate k (digit 0)"
    using strip_zeros_split by blast
  define z where "z = strip_zeros (pad_digits 9 n)"
  have len: "length z + k = 9" using arg_cong [OF k, of length] by (simp add: z_def)
  have val: "read_nat z * 10 ^ k = n"
    using read_nat_zeros [of z k] k read_pad_digits [of n 9] assms by (simp add: z_def)
  have ds: "\<forall>c \<in> set z. is_digit c"
    using pad_digits_digits [of _ 9 n] k unfolding z_def by (metis UnI1 set_append)
  have "z \<noteq> []" using val False by (auto simp: read_nat_def)
  then obtain d t where z: "z = d # t" by (cases z) auto
  have tw: "takeWhile is_digit (z @ ''Z'') = z" "dropWhile is_digit (z @ ''Z'') = ''Z''"
    using ds not_digit_Z by (simp_all add: takeWhile_append2 dropWhile_append2)
  have "9 - length z = k" "take 9 z = z" using len by simp_all
  moreover have "show_frac n = CHR ''.'' # z" using False by (simp add: show_frac_def z_def)
  ultimately show ?thesis
    using tw ds val unfolding take_frac_def by (simp add: z)
qed

lemma hms_seconds: "r div 3600 * 3600 + r div 60 mod 60 * 60 + r mod 60 = (r::nat)"
proof -
  have "r div 3600 = r div 60 div 60" by (simp add: div_mult2_eq [symmetric])
  then have "r div 3600 * 3600 + r div 60 mod 60 * 60 + r mod 60 =
      (r div 60 div 60 * 60 + r div 60 mod 60) * 60 + r mod 60"
    by (simp only: distrib_right mult.assoc)
  also have "\<dots> = r" by (simp only: div_mult_mod_eq)
  finally show ?thesis .
qed

lemma parse_rfc3339_parts:
  assumes "y < 10000" "date_valid (int y) m (int d)" "h < 24" "mi < 60" "sec < 60" "n < 1000000000"
  shows "parse_rfc3339
     (pad_digits 4 y @ CHR ''-'' # pad_digits 2 m @ CHR ''-'' # pad_digits 2 d @ CHR ''T'' #
      pad_digits 2 h @ CHR '':'' # pad_digits 2 mi @ CHR '':'' # pad_digits 2 sec @ show_frac n @ ''Z'') =
    Some (((day_number (int y) m (int d) - unix_epoch_day) * 86400 + int (h * 3600 + mi * 60 + sec))
          * 1000000000 + int n)"
proof -
  have b: "m < 10 ^ 2" "d < 10 ^ 2" "h < 10 ^ 2" "mi < 10 ^ 2" "sec < 10 ^ 2" "y < 10 ^ 4" "h < 100"
    using assms by (auto simp: date_valid_def days_in_month_def split: if_splits)
  have z: "take_zone ''Z'' = Some 0" by (simp add: take_zone_def)
  show ?thesis
    unfolding parse_rfc3339_def take_digits_pad [OF b(6)] bind.simps case_prod_conv take_char_same
      take_digits_pad [OF b(1)] take_digits_pad [OF b(2)] take_hour_pad [OF b(7)]
      take_digits_pad [OF b(4)] take_digits_pad [OF b(5)] take_frac_show [OF assms(6)] Let_def z
    using assms by simp
qed

theorem parse_format_rfc3339:
  assumes "0 \<le> utc_year t" "utc_year t \<le> 9999"
  shows "parse_rfc3339 (format_rfc3339 t) = Some t"
proof -
  obtain y m d where c: "utc_date t = (y, m, d)" by (cases "utc_date t") auto
  from c have cn: "civil (t div 1000000000 div 86400 + unix_epoch_day) = (y, m, d)"
    by (simp add: utc_date_def)
  note dn = day_number_civil [OF cn]
  have y: "0 \<le> y" "nat y < 10000" using assms c by (auto simp: utc_year_def)
  have d: "1 \<le> d" using dn(2) by (simp add: date_valid_def)
  define r where "r = nat (t div 1000000000 mod 86400)"
  have r: "r < 86400" "int r = t div 1000000000 mod 86400" by (simp_all add: r_def)
  have rng: "r div 3600 < 24" "r div 60 mod 60 < 60" "r mod 60 < 60"
    using r(1) by (simp_all add: less_mult_imp_div_less)
  have n: "nat (t mod 1000000000) < 1000000000" by (simp add: nat_less_iff)
  have v: "date_valid (int (nat y)) m (int (nat d))" using dn(2) y d by simp
  have yr: "show_year y = pad_digits 4 (nat y)" using y by (simp add: show_year_def)
  have f: "format_rfc3339 t = pad_digits 4 (nat y) @ CHR ''-'' # pad_digits 2 m @ CHR ''-'' # pad_digits 2 (nat d) @
         CHR ''T'' # pad_digits 2 (r div 3600) @ CHR '':'' # pad_digits 2 (r div 60 mod 60) @
         CHR '':'' # pad_digits 2 (r mod 60) @ show_frac (nat (t mod 1000000000)) @ ''Z''"
    unfolding format_rfc3339_def c case_prod_conv yr r_def [symmetric] Let_def ..
  have "day_number (int (nat y)) m (int (nat d)) - unix_epoch_day = t div 1000000000 div 86400"
    using dn(1) y d by simp
  then have "parse_rfc3339 (format_rfc3339 t) =
      Some ((t div 1000000000 div 86400 * 86400 + int r) * 1000000000 + int (nat (t mod 1000000000)))"
    unfolding f using parse_rfc3339_parts [OF y(2) v rng n] by (simp only: hms_seconds)
  then show ?thesis unfolding r(2) by simp
qed


text \<open>Outside the years 0 to 9999 the formatted text is not one the layout parses.\<close>

definition year_ok :: "go_time \<Rightarrow> bool" where
  "year_ok t \<longleftrightarrow> 0 \<le> utc_year t \<and> utc_year t \<le> 9999"

lemma read_nat_bound: "list_all is_digit s \<Longrightarrow> read_nat s < 10 ^ length s"
proof (induction s rule: rev_induct)
  case (snoc c s)
  then have "read_nat s + 1 \<le> 10 ^ length s" "digit_val c \<le> 9"
    by (auto simp: digit_val_def is_digit_def)
  then have "read_nat s * 10 + digit_val c < (read_nat s + 1) * 10" by simp
  also have "\<dots> \<le> 10 ^ length (s @ [c])" using \<open>read_nat s + 1 \<le> 10 ^ length s\<close> by simp
  finally show ?case by simp
qed (simp add: read_nat_def)

lemma length_show_nat: "10 ^ k \<le> n \<Longrightarrow> k < length (show_nat n)"
proof (rule ccontr)
  assume a: "10 ^ k \<le> n" "\<not> k < length (show_nat n)"
  have "n < 10 ^ length (show_nat n)"
    using read_nat_bound [of "show_nat n"] by (simp add: list_all_iff show_nat_digits)
  also have "\<dots> \<le> (10::nat) ^ k" using a(2) by (intro power_increasing) simp_all
  finally show False using a(1) by simp
qed

lemma parse_format_far_year:
  assumes "\<not> year_ok t"
  shows "parse_rfc3339 (format_rfc3339 t) = None"
proof -
  obtain y m d where c: "utc_date t = (y, m, d)" by (cases "utc_date t") auto
  then obtain u where f: "format_rfc3339 t = show_year y @ CHR ''-'' # u"
    by (simp add: format_rfc3339_def Let_def)
  show ?thesis
  proof (cases "y < 0")
    case True
    then obtain w where "show_year y = CHR ''-'' # w" by (auto simp: show_year_def Let_def)
    then have "take_digits 4 (format_rfc3339 t) = None"
      by (simp add: f take_digits_def not_digit_sign)
    then show ?thesis by (simp add: parse_rfc3339_def)
  next
    case False
    with assms c have "10000 \<le> nat y" by (auto simp: year_ok_def utc_year_def)
    then have s: "show_year y = show_nat (nat y)" "4 < length (show_nat (nat y))"
      using False length_show_nat [of 4 "nat y"] by (simp_all add: show_year_def)
    define e where "e = show_nat (nat y) ! 4"
    have "is_digit e" unfolding e_def using s(2) by (intro show_nat_digits [of _ "nat y"] nth_mem)
    then have e: "e \<noteq> CHR ''-''" using not_digit_sign by auto
    have "drop 4 (format_rfc3339 t) = e # drop 5 (show_nat (nat y)) @ CHR ''-'' # u"
      using s Cons_nth_drop_Suc [of 4 "show_nat (nat y)"] by (simp add: f e_def)
    then have "take_digits 4 (format_rfc3339 t) = None \<or>
        (\<exists>n. take_digits 4 (format_rfc3339 t) = Some (n, e # drop 5 (show_nat (nat y)) @ CHR ''-'' # u))"
      by (simp add: take_digits_def)
    then show ?thesis using e by (auto simp: parse_rfc3339_def take_char_def)
  qed
qed

definition canonical_time :: "bytes \<Rightarrow> bool" where
  "canonical_time s \<longleftrightarrow>
     (case parse_rfc3339 s of None \<Rightarrow> False | Some t \<Rightarrow> format_rfc3339 t = s)"

theorem canonical_format_iff: "canonical_time (format_rfc3339 t) \<longleftrightarrow> year_ok t"
proof (cases "year_ok t")
  case True
  then show ?thesis by (simp add: canonical_time_def parse_format_rfc3339 year_ok_def)
next
  case False
  then show ?thesis by (simp add: canonical_time_def parse_format_far_year)
qed

lemma format_rfc3339_chars:
  "c \<in> set (format_rfc3339 t) \<Longrightarrow> is_digit c \<or> c \<in> set ''-:TZ.''"
proof -
  have y: "c \<in> set (show_year i) \<Longrightarrow> is_digit c \<or> c = CHR ''-''" for i
    using pad_digits_digits show_nat_digits by (auto simp: show_year_def Let_def split: if_splits)
  have f: "c \<in> set (show_frac n) \<Longrightarrow> is_digit c \<or> c = CHR ''.''" for n
  proof -
    have "set (strip_zeros s) \<subseteq> set s" for s
      using set_dropWhileD by (fastforce simp: strip_zeros_def)
    from subsetD [OF this] have "c \<in> set (strip_zeros (pad_digits 9 n)) \<Longrightarrow> is_digit c"
      using pad_digits_digits by blast
    then show "c \<in> set (show_frac n) \<Longrightarrow> is_digit c \<or> c = CHR ''.''"
      by (auto simp: show_frac_def split: if_splits)
  qed
  assume "c \<in> set (format_rfc3339 t)"
  then show ?thesis
    using y f pad_digits_digits by (auto simp: format_rfc3339_def Let_def split: prod.splits)
qed

lemma length_format_rfc3339:
  assumes "year_ok t"
  shows "length (format_rfc3339 t) \<le> 30"
proof -
  obtain y m d where c: "utc_date t = (y, m, d)" by (cases "utc_date t") auto
  have y: "length (show_year y) = 4"
    using assms c by (auto simp: year_ok_def utc_year_def show_year_def Let_def)
  have "length (strip_zeros s) \<le> length s" for s
    unfolding strip_zeros_def using length_dropWhile_le [of _ "rev s"] by simp
  from this [of "pad_digits 9 n" for n] have "length (show_frac n) \<le> 10" for n
    by (simp add: show_frac_def)
  then show ?thesis using y by (simp add: format_rfc3339_def c Let_def)
qed

lemma example_year: "year_ok 0"
proof -
  have d: "day_number 1970 1 1 = unix_epoch_day"
    by (simp add: day_number_def days_before_year_def days_before_month_def leap_def unix_epoch_day_def)
  have "civil unix_epoch_day = (1970, 1, 1)"
    unfolding d [symmetric] by (rule civil_day_number) (simp add: date_valid_def days_in_month_def)
  then show ?thesis by (simp add: year_ok_def utc_year_def utc_date_def)
qed

end
