(* ===== verification/Go_Sha256.thy ===== *)
theory Go_Sha256
  imports Go_Strings
begin

text \<open>
  \<open>crypto/sha256\<close>: the digest of a byte string as 32 bytes (FIPS 180-4), on 32-bit words. The
  program only compares digests and checks their length, so no property of the function beyond its
  totality and the digest's length is used.
\<close>

unbundle bit_operations_syntax

type_synonym u32 = "32 word"

definition sha_k :: "u32 list" where
  "sha_k =
     [1116352408, 1899447441, 3049323471, 3921009573, 961987163, 1508970993,
      2453635748, 2870763221, 3624381080, 310598401, 607225278, 1426881987,
      1925078388, 2162078206, 2614888103, 3248222580, 3835390401, 4022224774,
      264347078, 604807628, 770255983, 1249150122, 1555081692, 1996064986,
      2554220882, 2821834349, 2952996808, 3210313671, 3336571891, 3584528711,
      113926993, 338241895, 666307205, 773529912, 1294757372, 1396182291,
      1695183700, 1986661051, 2177026350, 2456956037, 2730485921, 2820302411,
      3259730800, 3345764771, 3516065817, 3600352804, 4094571909, 275423344,
      430227734, 506948616, 659060556, 883997877, 958139571, 1322822218,
      1537002063, 1747873779, 1955562222, 2024104815, 2227730452, 2361852424,
      2428436474, 2756734187, 3204031479, 3329325298]"

definition sha_init :: "u32 list" where
  "sha_init =
     [1779033703, 3144134277, 1013904242, 2773480762, 1359893119, 2600822924,
      528734635, 1541459225]"

definition be32_word :: "bytes \<Rightarrow> u32" where
  "be32_word s = of_nat (foldl (\<lambda>a c. a * 256 + byte c) 0 s)"

definition be32_bytes :: "u32 \<Rightarrow> bytes" where
  "be32_bytes w = map (\<lambda>i. chr (unat w div 256 ^ i mod 256)) [3, 2, 1, 0]"

definition sha_pad :: "bytes \<Rightarrow> bytes" where
  "sha_pad s =
     (let n = length s
      in s @ chr 128 # replicate ((119 - n mod 64) mod 64) (chr 0) @ be64 (of_nat (8 * n)))"

fun chunks :: "nat \<Rightarrow> nat \<Rightarrow> 'a list \<Rightarrow> 'a list list" where
  "chunks 0 k s = []"
| "chunks (Suc n) k s = take k s # chunks n k (drop k s)"

definition sha_sig0 :: "u32 \<Rightarrow> u32" where
  "sha_sig0 x = (word_rotr 7 x XOR word_rotr 18 x) XOR drop_bit 3 x"

definition sha_sig1 :: "u32 \<Rightarrow> u32" where
  "sha_sig1 x = (word_rotr 17 x XOR word_rotr 19 x) XOR drop_bit 10 x"

text \<open>The message schedule, newest word first.\<close>

fun sha_extend :: "nat \<Rightarrow> u32 list \<Rightarrow> u32 list" where
  "sha_extend 0 ws = ws"
| "sha_extend (Suc n) ws =
     sha_extend n ((sha_sig1 (ws ! 1) + ws ! 6 + sha_sig0 (ws ! 14) + ws ! 15) # ws)"

definition sha_round :: "u32 list \<Rightarrow> u32 \<times> u32 \<Rightarrow> u32 list" where
  "sha_round st kw =
     (let a = st ! 0; b = st ! 1; c = st ! 2; d = st ! 3; e = st ! 4; f = st ! 5; g = st ! 6; h = st ! 7;
          s1 = (word_rotr 6 e XOR word_rotr 11 e) XOR word_rotr 25 e;
          t1 = h + s1 + ((e AND f) XOR ((NOT e) AND g)) + fst kw + snd kw;
          s0 = (word_rotr 2 a XOR word_rotr 13 a) XOR word_rotr 22 a;
          t2 = s0 + (((a AND b) XOR (a AND c)) XOR (b AND c))
      in [t1 + t2, a, b, c, d + t1, e, f, g])"

definition sha_block :: "u32 list \<Rightarrow> bytes \<Rightarrow> u32 list" where
  "sha_block st blk =
     (let ws = rev (sha_extend 48 (rev (map be32_word (chunks 16 4 blk))))
      in map2 (+) st (foldl sha_round st (zip sha_k ws)))"

definition sha256 :: "bytes \<Rightarrow> bytes" where
  "sha256 s =
     (let p = sha_pad s
      in concat (map be32_bytes (foldl sha_block sha_init (chunks (length p div 64) 64 p))))"

lemma length_sha_round [simp]: "length (sha_round st kw) = 8"
  by (simp add: sha_round_def Let_def)

lemma length_sha_rounds: "length st = 8 \<Longrightarrow> length (foldl sha_round st kws) = 8"
  by (induction kws arbitrary: st) simp_all

lemma length_sha_block: "length st = 8 \<Longrightarrow> length (sha_block st blk) = 8"
  by (simp add: sha_block_def length_sha_rounds Let_def)

lemma length_sha_blocks: "length st = 8 \<Longrightarrow> length (foldl sha_block st blks) = 8"
  by (induction blks arbitrary: st) (simp_all add: length_sha_block)

lemma length_be32_bytes [simp]: "length (be32_bytes w) = 4"
  by (simp add: be32_bytes_def)

lemma length_concat_be32: "length (concat (map be32_bytes ws)) = 4 * length ws"
  by (induction ws) simp_all

lemma length_sha256 [simp]: "length (sha256 s) = 32"
  by (simp add: sha256_def length_concat_be32 length_sha_blocks sha_init_def Let_def)

text \<open>\<open>hex.EncodeToString\<close> of a digest.\<close>

definition sha256_hex :: "bytes \<Rightarrow> bytes" where "sha256_hex s = hex_encode (sha256 s)"

lemma length_sha256_hex [simp]: "length (sha256_hex s) = 64"
  by (simp add: sha256_hex_def)

lemma sha256_hex_lower: "c \<in> set (sha256_hex s) \<Longrightarrow> is_lower_hex c"
  by (simp add: sha256_hex_def hex_encode_lower_hex)

lemma sha256_hex_not_Nil [simp]: "sha256_hex s \<noteq> []"
  using length_sha256_hex [of s] by (metis length_0_conv zero_neq_numeral)

end
