(* ===== verification/Alert_Event.thy ===== *)
theory Alert_Event
  imports Ddae_Types Go_Json_Roundtrip Go_Time Go_Sha256
begin

text \<open>
  \<open>internal/alerts/event.go\<close>: how an alert detail becomes the event that is stored and published
  (\<open>BuildEvent\<close>, \<open>normalizeAlert\<close>), what a stored event must satisfy (\<open>ValidateStoredEvent\<close>), and the
  JSON encoding of both. Main facts: a built event passes the validation of stored events and its
  payload decodes to it, when its timestamps stay in the years 0 to 9999; the content hash and the
  record key do not depend on the time of observation.
\<close>

section \<open>Events\<close>

datatype alert = Alert
  (a_severity: bytes)
  (a_acknowledged: "bool option")
  (a_occurrence_count: "int option")
  (a_created_at: "bytes option")
  (a_updated_at: "bytes option")
  (a_clear_type: "bytes option")
  (a_auto_clear_timeout: "int option")
  (a_app_name: "bytes option")
  (a_component: "bytes option")
  (a_namespace: "bytes option")
  (a_message: "bytes option")
  (a_reason: "bytes option")
  (a_remedies: "bytes list")
  (a_resource_id: "bytes option")
  (a_symptom_id: "bytes option")
  (a_related: "bytes option")
  (a_related_events: "alert list")

record event =
  ev_schema_version :: bytes
  ev_event_type :: bytes
  ev_source_system :: bytes
  ev_source_instance :: bytes
  ev_alert_id :: bytes
  ev_content_hash :: bytes
  ev_observed_at :: bytes
  ev_alert :: alert

record encoded_event =
  ee_event :: event
  ee_payload :: bytes
  ee_record_key :: bytes
  ee_content_hash :: bytes

definition schema_version :: bytes where "schema_version = ''1.0''"
definition event_type :: bytes where "event_type = ''ddae.serviceability_alert.upsert''"
definition source_system :: bytes where "source_system = ''dell_ddae''"
definition max_event_bytes :: nat where "max_event_bytes = 262144"

definition validation_error :: "bytes \<Rightarrow> go_error" where
  "validation_error field = Classified ClassValidation (field @ '' validation failed'')"

section \<open>JSON encoding\<close>

fun alert_json :: "alert \<Rightarrow> json" where
  "alert_json (Alert sev ack cnt cre upd clr act app cmp nsp msg rsn rem rid sid rel evs) =
     JObj ([(''severity'', JStr sev)] @
       opt_member ''acknowledged'' JBool ack @
       opt_member ''occurrence_count'' jint cnt @
       opt_member ''created_at'' JStr cre @
       opt_member ''updated_at'' JStr upd @
       opt_member ''clear_type'' JStr clr @
       opt_member ''auto_clear_timeout_raw'' jint act @
       opt_member ''app_name'' JStr app @
       opt_member ''component'' JStr cmp @
       opt_member ''namespace'' JStr nsp @
       opt_member ''message'' JStr msg @
       opt_member ''reason'' JStr rsn @
       list_member ''remedies'' JStr rem @
       opt_member ''resource_id'' JStr rid @
       opt_member ''symptom_id'' JStr sid @
       opt_member ''related'' JStr rel @
       list_member ''related_events'' alert_json evs)"

definition event_json :: "event \<Rightarrow> json" where
  "event_json e =
     JObj [(''schema_version'', JStr (ev_schema_version e)), (''event_type'', JStr (ev_event_type e)),
       (''source_system'', JStr (ev_source_system e)), (''source_instance'', JStr (ev_source_instance e)),
       (''alert_id'', JStr (ev_alert_id e)), (''content_hash_sha256'', JStr (ev_content_hash e)),
       (''observed_at'', JStr (ev_observed_at e)), (''alert'', alert_json (ev_alert e))]"

definition zero_alert :: alert where
  "zero_alert = Alert [] None None None None None None None None None None None [] None None None []"

definition un_strings :: "json \<Rightarrow> bytes list \<Rightarrow> bytes list option" where
  "un_strings j cur = un_slice (\<lambda>x. un_string x []) j"

abbreviation un_ostr :: "json \<Rightarrow> bytes option \<Rightarrow> bytes option option" where
  "un_ostr j cur \<equiv> un_ptr un_string [] j"

abbreviation un_oint :: "json \<Rightarrow> int option \<Rightarrow> int option option" where
  "un_oint j cur \<equiv> un_ptr un_int64 0 j"

function un_alert :: "json \<Rightarrow> alert \<Rightarrow> alert option" where
  "un_alert j a =
     (case j of
        JNull \<Rightarrow> Some a
      | JObj ms \<Rightarrow>
          do { sev \<leftarrow> un_field ''severity'' un_string ms (a_severity a);
               ack \<leftarrow> un_field ''acknowledged'' (\<lambda>x _. un_ptr un_bool False x) ms (a_acknowledged a);
               cnt \<leftarrow> un_field ''occurrence_count'' un_oint ms (a_occurrence_count a);
               cre \<leftarrow> un_field ''created_at'' un_ostr ms (a_created_at a);
               upd \<leftarrow> un_field ''updated_at'' un_ostr ms (a_updated_at a);
               clr \<leftarrow> un_field ''clear_type'' un_ostr ms (a_clear_type a);
               act \<leftarrow> un_field ''auto_clear_timeout_raw'' un_oint ms (a_auto_clear_timeout a);
               app \<leftarrow> un_field ''app_name'' un_ostr ms (a_app_name a);
               cmp \<leftarrow> un_field ''component'' un_ostr ms (a_component a);
               nsp \<leftarrow> un_field ''namespace'' un_ostr ms (a_namespace a);
               msg \<leftarrow> un_field ''message'' un_ostr ms (a_message a);
               rsn \<leftarrow> un_field ''reason'' un_ostr ms (a_reason a);
               rem \<leftarrow> un_field ''remedies'' un_strings ms (a_remedies a);
               rid \<leftarrow> un_field ''resource_id'' un_ostr ms (a_resource_id a);
               sid \<leftarrow> un_field ''symptom_id'' un_ostr ms (a_symptom_id a);
               rel \<leftarrow> un_field ''related'' un_ostr ms (a_related a);
               evs \<leftarrow> un_field ''related_events'' (\<lambda>x _. un_slice (\<lambda>y. un_alert y zero_alert) x) ms
                       (a_related_events a);
               Some (Alert sev ack cnt cre upd clr act app cmp nsp msg rsn rem rid sid rel evs) }
      | _ \<Rightarrow> None)"
  by pat_completeness auto
termination
  by (relation "measure (\<lambda>(j, a). size j)") (auto intro: json_size_elem)

declare un_alert.simps [simp del]

definition zero_event :: event where
  "zero_event =
     \<lparr>ev_schema_version = [], ev_event_type = [], ev_source_system = [], ev_source_instance = [],
      ev_alert_id = [], ev_content_hash = [], ev_observed_at = [], ev_alert = zero_alert\<rparr>"

definition un_event :: "json \<Rightarrow> event option" where
  "un_event j =
     (case j of
        JNull \<Rightarrow> Some zero_event
      | JObj ms \<Rightarrow>
          do { sv \<leftarrow> un_field ''schema_version'' un_string ms [];
               et \<leftarrow> un_field ''event_type'' un_string ms [];
               ss \<leftarrow> un_field ''source_system'' un_string ms [];
               si \<leftarrow> un_field ''source_instance'' un_string ms [];
               ai \<leftarrow> un_field ''alert_id'' un_string ms [];
               ch \<leftarrow> un_field ''content_hash_sha256'' un_string ms [];
               ob \<leftarrow> un_field ''observed_at'' un_string ms [];
               al \<leftarrow> un_field ''alert'' un_alert ms zero_alert;
               Some \<lparr>ev_schema_version = sv, ev_event_type = et, ev_source_system = ss,
                     ev_source_instance = si, ev_alert_id = ai, ev_content_hash = ch,
                     ev_observed_at = ob, ev_alert = al\<rparr> }
      | _ \<Rightarrow> None)"

definition marshal_alert :: "alert \<Rightarrow> bytes" where "marshal_alert a = json_print (alert_json a)"

definition marshal_event :: "event \<Rightarrow> bytes" where "marshal_event e = json_print (event_json e)"

definition unmarshal_event :: "bytes \<Rightarrow> event option" where
  "unmarshal_event s = Option.bind (json_parse s) un_event"

text \<open>Decoding reads back what encoding wrote, when the counts are 64-bit integers.\<close>

lemma alert_names_plain [simp]:
  "plain_name ''severity''" "plain_name ''acknowledged''" "plain_name ''occurrence_count''"
  "plain_name ''created_at''" "plain_name ''updated_at''" "plain_name ''clear_type''"
  "plain_name ''auto_clear_timeout_raw''" "plain_name ''app_name''" "plain_name ''component''"
  "plain_name ''namespace''" "plain_name ''message''" "plain_name ''reason''" "plain_name ''remedies''"
  "plain_name ''resource_id''" "plain_name ''symptom_id''" "plain_name ''related''"
  "plain_name ''related_events''" "plain_name ''schema_version''" "plain_name ''event_type''"
  "plain_name ''source_system''" "plain_name ''source_instance''" "plain_name ''alert_id''"
  "plain_name ''content_hash_sha256''" "plain_name ''observed_at''" "plain_name ''alert''"
  by (simp_all add: plain_name_def is_lower_def is_digit_def byte_def)

fun alert_ints :: "alert \<Rightarrow> bool" where
  "alert_ints (Alert sev ack cnt cre upd clr act app cmp nsp msg rsn rem rid sid rel evs) \<longleftrightarrow>
     pred_option is_int64 cnt \<and> pred_option is_int64 act \<and> list_all alert_ints evs"

lemma un_field_ostr [json_rt]: "un_field name un_ostr (opt_member name JStr x) None = Some x"
  by (rule un_field_opt) (simp add: un_ptr_not_null)

lemma un_field_obool [json_rt]:
  "un_field name (\<lambda>x _. un_ptr un_bool False x) (opt_member name JBool b) None = Some b"
  by (rule un_field_opt) (simp add: un_ptr_not_null)

lemma un_field_oint [json_rt]:
  "pred_option is_int64 x \<Longrightarrow> un_field name un_oint (opt_member name jint x) None = Some x"
  by (rule un_field_opt) (simp add: un_ptr_not_null is_int64_def)

lemma un_field_strings [json_rt]:
  "un_field name un_strings (list_member name JStr xs) [] = Some xs"
  unfolding un_strings_def by (rule un_field_list) simp

lemma zero_alert_sel [simp]:
  "a_severity zero_alert = []" "a_acknowledged zero_alert = None" "a_occurrence_count zero_alert = None"
  "a_created_at zero_alert = None" "a_updated_at zero_alert = None" "a_clear_type zero_alert = None"
  "a_auto_clear_timeout zero_alert = None" "a_app_name zero_alert = None" "a_component zero_alert = None"
  "a_namespace zero_alert = None" "a_message zero_alert = None" "a_reason zero_alert = None"
  "a_remedies zero_alert = []" "a_resource_id zero_alert = None" "a_symptom_id zero_alert = None"
  "a_related zero_alert = None" "a_related_events zero_alert = []"
  by (simp_all add: zero_alert_def)

theorem un_alert_alert_json: "alert_ints a \<Longrightarrow> un_alert (alert_json a) zero_alert = Some a"
proof (induction a)
  case (Alert sev ack cnt cre upd clr act app cmp nsp msg rsn rem rid sid rel evs)
  have evs: "un_field ''related_events'' (\<lambda>x _. un_slice (\<lambda>y. un_alert y zero_alert) x)
      (list_member ''related_events'' alert_json evs) [] = Some evs"
    using Alert by (intro un_field_list) (auto simp: list_all_iff)
  from Alert.prems have ints: "pred_option is_int64 cnt" "pred_option is_int64 act" by simp_all
  show ?case
    by (subst un_alert.simps)
       (simp add: un_field_append json_rt evs ints
         del: un_field.simps)
qed

section \<open>Validation\<close>

definition valid_string :: "bytes \<Rightarrow> nat \<Rightarrow> bool" where
  "valid_string v limit \<longleftrightarrow> utf8_valid v \<and> length v \<le> limit \<and> chr 0 \<notin> set v"

definition validate_source_instance :: "bytes \<Rightarrow> go_error + unit" where
  "validate_source_instance v =
     (if \<not> valid_string v 128 \<or> v = [] \<or> contains v ''://'' \<or> contains_any v [chr 13, chr 10]
      then Inl (validation_error ''source_instance'') else Inr ())"

definition valid_lower_hex_hash :: "bytes \<Rightarrow> bool" where
  "valid_lower_hex_hash v \<longleftrightarrow>
     length v = 64 \<and> list_all (\<lambda>r. case r of [c] \<Rightarrow> is_lower_hex c | _ \<Rightarrow> False) (utf8_runes v)"

definition check_opt :: "('a \<Rightarrow> bool) \<Rightarrow> bytes \<Rightarrow> 'a option \<Rightarrow> go_error + unit" where
  "check_opt P field x =
     guardE (case x of None \<Rightarrow> True | Some v \<Rightarrow> P v) (validation_error field)"

definition severities :: "bytes list" where
  "severities = [''critical'', ''error'', ''warning'', ''info'', ''normal'', ''unknown'']"

fun validate_stored_alert :: "alert \<Rightarrow> go_error + unit" where
  "validate_stored_alert (Alert sev ack cnt cre upd clr act app cmp nsp msg rsn rem rid sid rel evs) =
     bindE (guardE (sev \<in> set severities) (validation_error ''severity'')) (\<lambda>_.
     bindE (check_opt (\<lambda>n. 0 \<le> n) ''occurrence_count'' cnt) (\<lambda>_.
     bindE (check_opt (\<lambda>n. 0 \<le> n) ''auto_clear_timeout_raw'' act) (\<lambda>_.
     bindE (check_opt canonical_time ''created_at'' cre) (\<lambda>_.
     bindE (check_opt canonical_time ''updated_at'' upd) (\<lambda>_.
     bindE (forE (\<lambda>(v, limit, field). check_opt (\<lambda>s. valid_string s limit) field v)
        [(clr, 64, ''clear_type''), (app, 256, ''app_name''), (cmp, 256, ''component''),
         (nsp, 256, ''namespace''), (msg, 8192, ''message''), (rsn, 4096, ''reason''),
         (rid, 512, ''resource_id''), (sid, 256, ''symptom_id''), (rel, 512, ''related'')]) (\<lambda>_.
     bindE (guardE (length rem \<le> 32) (validation_error ''remedies'')) (\<lambda>_.
     bindE (forE (\<lambda>r. guardE (valid_string r 2048) (validation_error ''remedies'')) rem) (\<lambda>_.
     bindE (guardE (length evs \<le> 100) (validation_error ''related_events'')) (\<lambda>_.
     forE validate_stored_alert evs)))))))))"

definition validate_stored_event :: "event \<Rightarrow> go_error + unit" where
  "validate_stored_event e =
     bindE (guardE (ev_schema_version e = schema_version \<and> ev_event_type e = event_type \<and>
                    ev_source_system e = source_system) (validation_error ''event_identity'')) (\<lambda>_.
     bindE (validate_source_instance (ev_source_instance e)) (\<lambda>_.
     bindE (validate_alert_id (ev_alert_id e)) (\<lambda>_.
     bindE (guardE (valid_lower_hex_hash (ev_content_hash e)) (validation_error ''content_hash_sha256'')) (\<lambda>_.
     bindE (guardE (canonical_time (ev_observed_at e)) (validation_error ''observed_at'')) (\<lambda>_.
     bindE (validate_stored_alert (ev_alert e)) (\<lambda>_.
     guardE (sha256_hex (marshal_alert (ev_alert e)) = ev_content_hash e)
       (validation_error ''content_hash_sha256'')))))))"

section \<open>Building\<close>

definition normalize_severity :: "bytes option \<Rightarrow> bytes" where
  "normalize_severity v =
     (case v of
        None \<Rightarrow> ''unknown''
      | Some s \<Rightarrow>
          (let n = to_lower (trim_space s) in
           if n \<in> set [''critical'', ''error'', ''warning'', ''info'', ''normal''] then n
           else if n = ''informational'' then ''info''
           else ''unknown''))"

definition optional_bool :: "bytes option \<Rightarrow> bytes \<Rightarrow> go_error + bool option" where
  "optional_bool v field =
     (case v of
        None \<Rightarrow> Inr None
      | Some s \<Rightarrow>
          (let n = to_lower (trim_space s) in
           if n = ''true'' then Inr (Some True)
           else if n = ''false'' then Inr (Some False)
           else Inl (validation_error field)))"

definition optional_timestamp :: "bytes option \<Rightarrow> bytes \<Rightarrow> go_error + bytes option" where
  "optional_timestamp v field =
     (case v of
        None \<Rightarrow> Inr None
      | Some s \<Rightarrow>
          (case parse_rfc3339 s of
             None \<Rightarrow> Inl (validation_error field)
           | Some t \<Rightarrow> Inr (Some (format_rfc3339 t))))"

definition optional_string :: "bytes option \<Rightarrow> nat \<Rightarrow> bytes \<Rightarrow> go_error + bytes option" where
  "optional_string v limit field =
     (case v of
        None \<Rightarrow> Inr None
      | Some s \<Rightarrow> if valid_string s limit then Inr (Some s) else Inl (validation_error field))"

definition optional_count :: "int option \<Rightarrow> bytes \<Rightarrow> go_error + int option" where
  "optional_count v field =
     (case v of
        None \<Rightarrow> Inr None
      | Some n \<Rightarrow> if n < 0 then Inl (validation_error field) else Inr (Some n))"

definition related_detail :: "related_raw \<Rightarrow> alert_detail" where
  "related_detail r =
     \<lparr>ad_id = [], ad_type = rr_type r, ad_acknowledged = rr_acknowledged r, ad_count = rr_count r,
      ad_created_on = rr_created_on r, ad_updated_on = rr_updated_on r, ad_clear_type = rr_clear_type r,
      ad_auto_clear_timeout = rr_auto_clear_timeout r, ad_app_name = rr_app_name r,
      ad_component = rr_component r, ad_namespace = rr_namespace r, ad_message = rr_message r,
      ad_reason = rr_reason r, ad_remedies = rr_remedies r, ad_resource_id = rr_resource_id r,
      ad_symptom_id = rr_symptom_id r, ad_related = rr_related r, ad_events = []\<rparr>"

function normalize_alert :: "alert_detail \<Rightarrow> go_error + alert" where
  "normalize_alert d =
     bindE (optional_bool (ad_acknowledged d) ''acknowledged'') (\<lambda>ack.
     bindE (optional_count (ad_count d) ''occurrence_count'') (\<lambda>cnt.
     bindE (optional_timestamp (ad_created_on d) ''created_at'') (\<lambda>cre.
     bindE (optional_timestamp (ad_updated_on d) ''updated_at'') (\<lambda>upd.
     bindE (optional_string (ad_clear_type d) 64 ''clear_type'') (\<lambda>clr.
     bindE (optional_count (ad_auto_clear_timeout d) ''auto_clear_timeout_raw'') (\<lambda>act.
     bindE (optional_string (ad_app_name d) 256 ''app_name'') (\<lambda>app.
     bindE (optional_string (ad_component d) 256 ''component'') (\<lambda>cmp.
     bindE (optional_string (ad_namespace d) 256 ''namespace'') (\<lambda>nsp.
     bindE (optional_string (ad_message d) 8192 ''message'') (\<lambda>msg.
     bindE (optional_string (ad_reason d) 4096 ''reason'') (\<lambda>rsn.
     bindE (optional_string (ad_resource_id d) 512 ''resource_id'') (\<lambda>rid.
     bindE (optional_string (ad_symptom_id d) 256 ''symptom_id'') (\<lambda>sid.
     bindE (optional_string (ad_related d) 512 ''related'') (\<lambda>rel.
     bindE (guardE (length (ad_remedies d) \<le> 32) (validation_error ''remedies'')) (\<lambda>_.
     bindE (forE (\<lambda>r. guardE (valid_string r 2048) (validation_error ''remedies'')) (ad_remedies d)) (\<lambda>_.
     bindE (guardE (length (ad_events d) \<le> 100) (validation_error ''related_events'')) (\<lambda>_.
     bindE (mapE (\<lambda>r. normalize_alert (related_detail r)) (ad_events d)) (\<lambda>evs.
     Inr (Alert (normalize_severity (ad_type d)) ack cnt cre upd clr act app cmp nsp msg rsn
            (ad_remedies d) rid sid rel evs)))))))))))))))))))"
  by pat_completeness auto
termination
  by (relation "measure (\<lambda>d. min 1 (length (ad_events d)))")
     (auto simp: related_detail_def min_def)

declare normalize_alert.simps [simp del]

definition event_record_key :: "bytes \<Rightarrow> bytes \<Rightarrow> bytes" where
  "event_record_key source i = sha256_hex (source @ [chr 0] @ i)"

definition build_event :: "bytes \<Rightarrow> bytes \<Rightarrow> alert_detail \<Rightarrow> go_time \<Rightarrow> go_error + encoded_event" where
  "build_event source requested d observed =
     bindE (validate_source_instance source) (\<lambda>_.
     bindE (validate_alert_id requested) (\<lambda>_.
     bindE (guardE (ad_id d = requested) (validation_error ''alert_id'')) (\<lambda>_.
     bindE (normalize_alert d) (\<lambda>a.
       let h = sha256_hex (marshal_alert a);
           e = \<lparr>ev_schema_version = schema_version, ev_event_type = event_type,
                ev_source_system = source_system, ev_source_instance = source,
                ev_alert_id = requested, ev_content_hash = h,
                ev_observed_at = format_rfc3339 observed, ev_alert = a\<rparr>;
           payload = marshal_event e
       in bindE (guardE (length payload \<le> max_event_bytes) (validation_error ''event_size'')) (\<lambda>_.
          Inr \<lparr>ee_event = e, ee_payload = payload,
               ee_record_key = event_record_key source requested, ee_content_hash = h\<rparr>)))))"


section \<open>Facts\<close>

lemma un_event_event_json: "alert_ints (ev_alert e) \<Longrightarrow> un_event (event_json e) = Some e"
  by (simp add: un_event_def event_json_def un_field_Cons_skip un_field_hit un_field_Nil
      un_alert_alert_json del: un_field.simps(2))

text \<open>Texts the encoder writes are valid UTF-8 for validated events.\<close>

lemma format_rfc3339_plain: "c \<in> set (format_rfc3339 t) \<Longrightarrow> byte c \<in> {45, 46, 58, 84, 90} \<union> {48..57}"
proof -
  have "byte c \<in> {45, 46, 58, 84, 90} \<union> {48..57}" if "is_digit c \<or> c \<in> set ''-:TZ.''" for c
    using that by (auto simp: is_digit_def byte_def)
  then show "c \<in> set (format_rfc3339 t) \<Longrightarrow> ?thesis" using format_rfc3339_chars by blast
qed

lemma canonical_time_utf8: "canonical_time s \<Longrightarrow> utf8_valid s"
proof (rule utf8_valid_ascii)
  fix c assume "canonical_time s" "c \<in> set s"
  then obtain t where "c \<in> set (format_rfc3339 t)" by (auto simp: canonical_time_def split: option.splits)
  then show "byte c < 128" using format_rfc3339_plain [of c t] by auto
qed

lemma severities_utf8: "s \<in> set severities \<Longrightarrow> utf8_valid s"
  by (auto simp: severities_def byte_def)

lemma name_utf8 [simp]: "plain_name s \<Longrightarrow> utf8_valid s"
  by (rule utf8_valid_ascii) (auto simp: plain_name_def list_all_iff is_lower_def is_digit_def byte_def)

lemma check_opt_Inr [simp]: "check_opt P f x = Inr u \<longleftrightarrow> pred_option P x"
  by (auto simp: check_opt_def split: option.split)

lemma valid_string_utf8: "valid_string s n \<Longrightarrow> utf8_valid s"
  by (simp add: valid_string_def)

abbreviation members_ok :: "(bytes \<times> json) list \<Rightarrow> bool" where
  "members_ok ms \<equiv> list_all (\<lambda>(k, v). utf8_valid k \<and> json_ok v) ms"

lemma members_ok_opt [simp]:
  "plain_name name \<Longrightarrow> members_ok (opt_member name enc x) = pred_option (\<lambda>y. json_ok (enc y)) x"
  by (simp add: opt_member_def split: option.split)

lemma members_ok_list [simp]:
  "plain_name name \<Longrightarrow> members_ok (list_member name enc xs) = (\<forall>x \<in> set xs. json_ok (enc x))"
  by (auto simp: list_member_def list_all_iff)

lemma pred_option_trivial [simp]: "pred_option (\<lambda>y. True) x"
  by (cases x) simp_all

lemma pred_option_mono': "pred_option P x \<Longrightarrow> (\<And>y. P y \<Longrightarrow> Q y) \<Longrightarrow> pred_option Q x"
  by (cases x) simp_all

lemma alert_json_ok: "validate_stored_alert a = Inr () \<Longrightarrow> json_ok (alert_json a)"
proof (induction a)
  case (Alert sev ack cnt cre upd clr act app cmp nsp msg rsn rem rid sid rel evs)
  have s: "pred_option utf8_valid x" if "pred_option (\<lambda>s. valid_string s n) x" for x n
    using that valid_string_utf8 by (rule pred_option_mono')
  have t: "pred_option utf8_valid x" if "pred_option canonical_time x" for x
    using that canonical_time_utf8 by (rule pred_option_mono')
  show ?case
    using Alert s t by (auto simp: severities_utf8 valid_string_utf8)
qed

lemma json_depth_members: "json_depth (JObj ms) = Suc (foldr max (map (\<lambda>m. json_depth (snd m)) ms) 0)"
  by (simp add: case_prod_unfold)

lemma json_depth_le:
  "json_depth (JObj ms) \<le> Suc n \<longleftrightarrow> (\<forall>m \<in> set ms. json_depth (snd m) \<le> n)"
  "json_depth (JArr xs) \<le> Suc n \<longleftrightarrow> (\<forall>x \<in> set xs. json_depth x \<le> n)"
  by (simp_all only: json_depth_members json_depth.simps foldr_max_le_iff Suc_le_mono) auto

lemma opt_member_depth:
  "m \<in> set (opt_member name enc x) \<Longrightarrow> (\<And>y. json_depth (enc y) = 0) \<Longrightarrow> json_depth (snd m) = 0"
  by (auto simp: opt_member_def split: option.splits)

lemma list_member_depth:
  "(\<forall>m \<in> set (list_member name enc xs). json_depth (snd m) \<le> Suc n) \<longleftrightarrow>
     (\<forall>x \<in> set xs. json_depth (enc x) \<le> n)"
  by (auto simp: list_member_def json_depth_le simp del: json_depth.simps)

lemma alert_json_depth:
  assumes "\<forall>e \<in> set (a_related_events a). json_depth (alert_json e) \<le> n"
  shows "json_depth (alert_json a) \<le> Suc (Suc n)"
proof (cases a)
  case (Alert sev ack cnt cre upd clr act app cmp nsp msg rsn rem rid sid rel evs)
  have r: "\<forall>m \<in> set (list_member ''remedies'' JStr rem). json_depth (snd m) \<le> Suc n"
    by (simp add: list_member_depth)
  have e: "\<forall>m \<in> set (list_member ''related_events'' alert_json evs). json_depth (snd m) \<le> Suc n"
    using assms by (simp add: list_member_depth Alert)
  show ?thesis
    using r e by (auto simp: Alert json_depth_le dest!: opt_member_depth simp del: json_depth.simps(2))
qed


section \<open>Built events\<close>

text \<open>The decoder of DDAE responses stores 64-bit integers.\<close>

definition detail_typed :: "alert_detail \<Rightarrow> bool" where
  "detail_typed d \<longleftrightarrow>
     pred_option is_int64 (ad_count d) \<and> pred_option is_int64 (ad_auto_clear_timeout d) \<and>
     (\<forall>r \<in> set (ad_events d). pred_option is_int64 (rr_count r) \<and> pred_option is_int64 (rr_auto_clear_timeout r))"

definition time_text_ok :: "bytes option \<Rightarrow> bool" where
  "time_text_ok v = pred_option (\<lambda>s. pred_option year_ok (parse_rfc3339 s)) v"

definition times_in_range :: "alert_detail \<Rightarrow> bool" where
  "times_in_range d \<longleftrightarrow>
     time_text_ok (ad_created_on d) \<and> time_text_ok (ad_updated_on d) \<and>
     (\<forall>r \<in> set (ad_events d). time_text_ok (rr_created_on r) \<and> time_text_ok (rr_updated_on r))"

lemma optional_timestamp_None [simp]: "optional_timestamp None f = Inr None"
  by (simp add: optional_timestamp_def)

lemma optional_timestamp_Inr:
  "optional_timestamp v f = Inr x \<Longrightarrow> time_text_ok v \<Longrightarrow> pred_option canonical_time x"
  by (auto simp: optional_timestamp_def time_text_ok_def canonical_format_iff split: option.splits)

lemma optional_string_Inr: "optional_string v n f = Inr x \<Longrightarrow> x = v \<and> pred_option (\<lambda>s. valid_string s n) x"
  by (auto simp: optional_string_def split: option.splits if_splits)

lemma optional_count_Inr: "optional_count v f = Inr x \<Longrightarrow> x = v \<and> pred_option (\<lambda>n. 0 \<le> n) x"
  by (auto simp: optional_count_def split: option.splits if_splits)

lemma optional_timestamp_utf8: "optional_timestamp v f = Inr x \<Longrightarrow> pred_option utf8_valid x"
  using format_rfc3339_plain by (fastforce simp: optional_timestamp_def intro: utf8_valid_ascii split: option.splits)

lemma optional_string_utf8: "optional_string v n f = Inr x \<Longrightarrow> pred_option utf8_valid x"
  by (auto simp: optional_string_def valid_string_def split: option.splits if_splits)

lemma optional_timestamp_year:
  "optional_timestamp v f = Inr x \<Longrightarrow> pred_option canonical_time x \<Longrightarrow> time_text_ok v"
  by (auto simp: optional_timestamp_def time_text_ok_def canonical_format_iff split: option.splits)

lemma normalize_severity_known: "normalize_severity v \<in> set severities"
  by (auto simp: normalize_severity_def severities_def Let_def split: option.split)

lemmas optional_facts = optional_timestamp_Inr optional_string_Inr optional_count_Inr

lemma normalize_alert_Inr:
  assumes "normalize_alert d = Inr a"
  obtains ack cnt cre upd clr act app cmp nsp msg rsn rid sid rel evs where
    "optional_count (ad_count d) ''occurrence_count'' = Inr cnt"
    "optional_timestamp (ad_created_on d) ''created_at'' = Inr cre"
    "optional_timestamp (ad_updated_on d) ''updated_at'' = Inr upd"
    "optional_string (ad_clear_type d) 64 ''clear_type'' = Inr clr"
    "optional_count (ad_auto_clear_timeout d) ''auto_clear_timeout_raw'' = Inr act"
    "optional_string (ad_app_name d) 256 ''app_name'' = Inr app"
    "optional_string (ad_component d) 256 ''component'' = Inr cmp"
    "optional_string (ad_namespace d) 256 ''namespace'' = Inr nsp"
    "optional_string (ad_message d) 8192 ''message'' = Inr msg"
    "optional_string (ad_reason d) 4096 ''reason'' = Inr rsn"
    "optional_string (ad_resource_id d) 512 ''resource_id'' = Inr rid"
    "optional_string (ad_symptom_id d) 256 ''symptom_id'' = Inr sid"
    "optional_string (ad_related d) 512 ''related'' = Inr rel"
    "length (ad_remedies d) \<le> 32" "\<forall>r \<in> set (ad_remedies d). valid_string r 2048"
    "length (ad_events d) \<le> 100"
    "map (\<lambda>r. normalize_alert (related_detail r)) (ad_events d) = map Inr evs"
    "a = Alert (normalize_severity (ad_type d)) ack cnt cre upd clr act app cmp nsp msg rsn
            (ad_remedies d) rid sid rel evs"
  using assms by (subst (asm) normalize_alert.simps) (auto simp: mapE_Inr_iff)

lemma map_eq_map_Inr:
  assumes "map f xs = map Inr ys"
  shows "length xs = length ys" "\<forall>y \<in> set ys. \<exists>x \<in> set xs. f x = Inr y"
proof -
  show "length xs = length ys" using assms by (rule map_eq_imp_length_eq)
  show "\<forall>y \<in> set ys. \<exists>x \<in> set xs. f x = Inr y"
    using assms by (metis (no_types, lifting) image_eqI image_iff image_set)
qed

lemma related_detail_sel [simp]:
  "ad_events (related_detail r) = []" "ad_count (related_detail r) = rr_count r"
  "ad_auto_clear_timeout (related_detail r) = rr_auto_clear_timeout r"
  "ad_created_on (related_detail r) = rr_created_on r" "ad_updated_on (related_detail r) = rr_updated_on r"
  by (simp_all add: related_detail_def)

lemma normalize_step:
  assumes n: "normalize_alert d = Inr a" and t: "times_in_range d" "detail_typed d"
    and rel: "\<And>r b. r \<in> set (ad_events d) \<Longrightarrow> normalize_alert (related_detail r) = Inr b
                \<Longrightarrow> validate_stored_alert b = Inr () \<and> alert_ints b"
  shows "validate_stored_alert a = Inr () \<and> alert_ints a"
proof -
  from n show ?thesis
  proof (cases rule: normalize_alert_Inr)
    case (1 ack cnt cre upd clr act app cmp nsp msg rsn rid sid rel evs)
    note evs = map_eq_map_Inr [OF 1(17)]
    have "\<forall>b \<in> set evs. validate_stored_alert b = Inr () \<and> alert_ints b"
      using evs(2) rel by blast
    moreover have "pred_option canonical_time cre" "pred_option canonical_time upd"
      using optional_timestamp_Inr 1(2,3) t(1) unfolding times_in_range_def by blast+
    moreover have "pred_option is_int64 cnt" "pred_option is_int64 act"
      using optional_count_Inr 1(1,5) t(2) unfolding detail_typed_def by blast+
    moreover note str = 1(4,6-13) [THEN optional_string_Inr, THEN conjunct2]
      and cnt = 1(1,5) [THEN optional_count_Inr, THEN conjunct2]
    ultimately show ?thesis
      using 1(14-16) evs(1) unfolding 1(18)
      by (simp add: normalize_severity_known list_all_iff)
  qed
qed

lemma normalize_alert_stored:
  assumes n: "normalize_alert d = Inr a" and t: "times_in_range d" "detail_typed d"
  shows "validate_stored_alert a = Inr () \<and> alert_ints a"
proof (rule normalize_step [OF assms])
  fix r b assume r: "r \<in> set (ad_events d)" "normalize_alert (related_detail r) = Inr b"
  show "validate_stored_alert b = Inr () \<and> alert_ints b"
    using t r(1) by (intro normalize_step [OF r(2)])
      (simp_all add: times_in_range_def detail_typed_def)
qed

lemma normalize_alert_depth:
  assumes "normalize_alert d = Inr a"
  shows "json_depth (alert_json a) \<le> 4"
proof -
  have flat: "json_depth (alert_json b) \<le> 2" if "normalize_alert (related_detail r) = Inr b" for r b
  proof -
    from that have "a_related_events b = []" by (cases rule: normalize_alert_Inr) simp
    then show ?thesis using alert_json_depth [of b 0] by (simp add: numeral_2_eq_2)
  qed
  from assms show ?thesis
  proof (cases rule: normalize_alert_Inr)
    case (1 ack cnt cre upd clr act app cmp nsp msg rsn rid sid rel evs)
    then have "\<forall>e \<in> set (a_related_events a). json_depth (alert_json e) \<le> 2"
      using map_eq_map_Inr(2) [OF 1(17)] flat by auto
    then show ?thesis using alert_json_depth [of a 2] by simp
  qed
qed

lemma valid_source_utf8: "validate_source_instance v = Inr () \<Longrightarrow> utf8_valid v"
  by (simp add: validate_source_instance_def valid_string_def split: if_splits)

lemma valid_lower_hex_hash_bytes:
  "valid_lower_hex_hash v \<longleftrightarrow> length v = 64 \<and> (\<forall>c \<in> set v. is_lower_hex c)"
proof -
  let ?P = "\<lambda>r. case r of [c] \<Rightarrow> is_lower_hex c | _ \<Rightarrow> False"
  have "\<exists>c. r = [c] \<and> byte c < 128" if "?P r" for r
    using that by (auto simp: is_lower_hex_def is_digit_def split: list.splits)
  from utf8_runes_all_ascii [of ?P, OF this] show ?thesis
    by (simp add: valid_lower_hex_hash_def list_all_iff)
qed

lemma lower_hex_utf8: "valid_lower_hex_hash v \<Longrightarrow> utf8_valid v"
  by (intro utf8_valid_ascii) (auto simp: valid_lower_hex_hash_bytes is_lower_hex_def is_digit_def)

lemma sha256_hex_valid [simp]: "valid_lower_hex_hash (sha256_hex s)"
  by (simp add: valid_lower_hex_hash_bytes sha256_hex_lower)

text \<open>A validated event whose JSON is not nested too deeply is read back from its own payload.\<close>

lemma unmarshal_marshal_event:
  assumes v: "validate_stored_event e = Inr ()" and i: "alert_ints (ev_alert e)"
    and d: "json_depth (alert_json (ev_alert e)) < max_nesting"
  shows "unmarshal_event (marshal_event e) = Some e"
proof -
  have a: "json_ok (alert_json (ev_alert e))" using v by (simp add: validate_stored_event_def alert_json_ok)
  have s: "utf8_valid (ev_source_instance e)" "utf8_valid (ev_alert_id e)"
    "utf8_valid (ev_content_hash e)" "utf8_valid (ev_observed_at e)"
    using v by (simp_all add: validate_stored_event_def valid_source_utf8 valid_alert_id_utf8
        lower_hex_utf8 canonical_time_utf8)
  have c: "utf8_valid (ev_schema_version e)" "utf8_valid (ev_event_type e)" "utf8_valid (ev_source_system e)"
    using v by (simp_all add: validate_stored_event_def schema_version_def event_type_def source_system_def byte_def)
  have "json_ok (event_json e)" using a s c by (simp add: event_json_def)
  moreover have "json_depth (event_json e) \<le> max_nesting"
    using d by (simp add: event_json_def max_def)
  ultimately show ?thesis
    using i by (simp add: unmarshal_event_def marshal_event_def json_parse_print un_event_event_json)
qed

lemma build_event_Inr:
  assumes "build_event source i d obs = Inr ee"
  obtains a where "validate_source_instance source = Inr ()" "validate_alert_id i = Inr ()" "ad_id d = i"
    "normalize_alert d = Inr a" "ev_alert (ee_event ee) = a"
    "ev_schema_version (ee_event ee) = schema_version" "ev_event_type (ee_event ee) = event_type"
    "ev_source_system (ee_event ee) = source_system"
    "ev_source_instance (ee_event ee) = source" "ev_alert_id (ee_event ee) = i"
    "ev_content_hash (ee_event ee) = sha256_hex (marshal_alert a)"
    "ee_content_hash ee = sha256_hex (marshal_alert a)"
    "ev_observed_at (ee_event ee) = format_rfc3339 obs"
    "ee_payload ee = marshal_event (ee_event ee)" "length (ee_payload ee) \<le> max_event_bytes"
    "ee_record_key ee = event_record_key source i"
  using assms by (auto simp: build_event_def Let_def)

lemma build_event_valid:
  assumes b: "build_event source i d obs = Inr ee"
    and t: "times_in_range d" "detail_typed d" "year_ok obs"
  shows "validate_stored_event (ee_event ee) = Inr ()"
    and "unmarshal_event (ee_payload ee) = Some (ee_event ee)"
    and "ee_payload ee = marshal_event (ee_event ee)"
    and "ee_payload ee \<noteq> []"
proof -
  from b obtain a where a: "normalize_alert d = Inr a" "ev_alert (ee_event ee) = a" by (rule build_event_Inr)
  note st = normalize_alert_stored [OF a(1) t(1,2)]
  from b show v: "validate_stored_event (ee_event ee) = Inr ()"
    by (rule build_event_Inr) (use st t(3) in \<open>simp add: validate_stored_event_def a canonical_format_iff\<close>)
  from b show p: "ee_payload ee = marshal_event (ee_event ee)" by (rule build_event_Inr)
  show "unmarshal_event (ee_payload ee) = Some (ee_event ee)"
    unfolding p using v st normalize_alert_depth [OF a(1)]
    by (intro unmarshal_marshal_event) (simp_all add: a max_nesting_def)
  show "ee_payload ee \<noteq> []" by (simp add: p marshal_event_def event_json_def)
qed


section \<open>An example\<close>

definition example_detail :: alert_detail where
  "example_detail =
     (related_detail
       \<lparr>rr_type = Some ''Critical'', rr_acknowledged = None, rr_count = Some 3, rr_created_on = None,
        rr_updated_on = None, rr_clear_type = None, rr_auto_clear_timeout = None, rr_app_name = None,
        rr_component = None, rr_namespace = None, rr_message = None, rr_reason = None, rr_remedies = [],
        rr_resource_id = None, rr_symptom_id = None, rr_related = None\<rparr>)\<lparr>ad_id := ''a1''\<rparr>"

definition example_alert :: alert where
  "example_alert =
     Alert ''critical'' None (Some 3) None None None None None None None None None [] None None None []"

definition plain_text :: "bytes \<Rightarrow> bool" where
  "plain_text s = list_all (\<lambda>c. 32 \<le> byte c \<and> byte c < 128 \<and> byte c \<notin> {34, 38, 60, 62, 92}) s"

lemma json_escape_plain: "plain_text s \<Longrightarrow> json_escape s = s"
proof -
  assume p: "plain_text s"
  then have "utf8_runes s = map (\<lambda>c. [c]) s"
    by (intro utf8_runes_ascii) (auto simp: plain_text_def list_all_iff)
  moreover have "concat (map esc_rune (map (\<lambda>c. [c]) s)) = s"
    using p by (induction s) (auto simp: plain_text_def esc_rune_def esc_ascii_def Let_def)
  ultimately show ?thesis by (simp add: json_escape_def)
qed

lemma sha256_hex_plain_text [simp]: "plain_text (sha256_hex s)"
proof -
  have "32 \<le> byte c \<and> byte c < 128 \<and> byte c \<notin> {34, 38, 60, 62, 92}" if "is_lower_hex c" for c
    using that by (auto simp: is_lower_hex_def is_digit_def)
  then show ?thesis using sha256_hex_lower by (simp add: plain_text_def list_all_iff)
qed

lemma example_normal: "normalize_alert example_detail = Inr example_alert"
proof -
  have "to_lower (trim_space ''Critical'') = ''critical''" by code_simp
  then show ?thesis
    by (subst normalize_alert.simps)
       (simp add: example_detail_def related_detail_def example_alert_def optional_bool_def optional_count_def
          optional_timestamp_def optional_string_def normalize_severity_def guardE_def)
qed

lemma example_source: "validate_source_instance ''ddae-1'' = Inr ()"
  by code_simp

lemma example_id: "validate_alert_id ''a1'' = Inr ()"
  by code_simp

lemma format_plain_text [simp]: "plain_text (format_rfc3339 t)"
  using format_rfc3339_plain by (fastforce simp: plain_text_def list_all_iff)

lemma example_build: "\<exists>ee. build_event ''ddae-1'' ''a1'' example_detail 0 = Inr ee"
proof -
  let ?h = "sha256_hex (marshal_alert example_alert)"
  let ?e = "\<lparr>ev_schema_version = schema_version, ev_event_type = event_type,
                ev_source_system = source_system, ev_source_instance = ''ddae-1'',
                ev_alert_id = ''a1'', ev_content_hash = ?h,
                ev_observed_at = format_rfc3339 0, ev_alert = example_alert\<rparr>"
  have p: "plain_text ''schema_version''" "plain_text ''event_type''" "plain_text ''source_system''"
    "plain_text ''source_instance''" "plain_text ''alert_id''" "plain_text ''content_hash_sha256''"
    "plain_text ''observed_at''" "plain_text ''alert''" "plain_text ''severity''"
    "plain_text ''occurrence_count''" "plain_text ''critical''" "plain_text ''1.0''"
    "plain_text ''ddae.serviceability_alert.upsert''" "plain_text ''dell_ddae''" "plain_text ''ddae-1''"
    "plain_text ''a1''"
    by (simp_all add: plain_text_def byte_def)
  have n: "show_int 3 = ''3''" by code_simp
  have "length (marshal_event ?e) \<le> max_event_bytes"
    using length_format_rfc3339 [OF example_year]
    by (simp add: marshal_event_def event_json_def example_alert_def print_str_def json_escape_plain p n
        schema_version_def event_type_def source_system_def opt_member_def list_member_def
        jint_def max_event_bytes_def)
  moreover have "ad_id example_detail = ''a1''" by (simp add: example_detail_def)
  ultimately show ?thesis
    by (simp add: build_event_def example_source example_id example_normal Let_def guardE_def)
qed

lemma example_typed: "times_in_range example_detail" "detail_typed example_detail"
  by (simp_all add: times_in_range_def detail_typed_def example_detail_def time_text_ok_def
      is_int64_def min_int64_def max_int64_def)

text \<open>The last second of 9999 one hour west of Greenwich is in the year 10000 UTC.\<close>

definition far_time :: go_time where "far_time = 253402304399000000000"

lemma far_time_year: "\<not> year_ok far_time"
proof -
  have d: "day_number 10000 1 1 = 2932897 + unix_epoch_day"
    by (simp add: day_number_def days_before_year_def days_before_month_def leap_def unix_epoch_day_def)
  have "civil (2932897 + unix_epoch_day) = (10000, 1, 1)"
    unfolding d [symmetric] by (rule civil_day_number) (simp add: date_valid_def days_in_month_def)
  then show ?thesis by (simp add: year_ok_def utc_year_def utc_date_def far_time_def)
qed

lemma parse_far_time: "parse_rfc3339 ''9999-12-31T23:59:59-01:00'' = Some far_time"
proof -
  note take = take_digits_def is_digit_def byte_def read_nat_def digit_val_def
  have "take_digits 4 ''9999-12-31T23:59:59-01:00'' = Some (9999, ''-12-31T23:59:59-01:00'')"
    by (simp add: take)
  moreover have "take_digits 2 ''12-31T23:59:59-01:00'' = Some (12, ''-31T23:59:59-01:00'')"
    by (simp add: take)
  moreover have "take_digits 2 ''31T23:59:59-01:00'' = Some (31, ''T23:59:59-01:00'')"
    by (simp add: take)
  moreover have "take_hour ''23:59:59-01:00'' = Some (23, '':59:59-01:00'')"
    by (simp add: take_hour_def take)
  moreover have "take_digits 2 ''59:59-01:00'' = Some (59, '':59-01:00'')" by (simp add: take)
  moreover have "take_digits 2 ''59-01:00'' = Some (59, ''-01:00'')" by (simp add: take)
  moreover have "take_frac ''-01:00'' = (0, ''-01:00'')" by (simp add: take_frac_def)
  moreover have "take_zone ''-01:00'' = Some (-3600)" by (simp add: take_zone_def take)
  moreover have "date_valid 9999 12 31" by (simp add: date_valid_def days_in_month_def)
  moreover have "day_number 9999 12 31 = 3652058"
    by (simp add: day_number_def days_before_year_def days_before_month_def leap_def)
  ultimately show ?thesis by (simp add: parse_rfc3339_def unix_epoch_day_def far_time_def)
qed

section \<open>Properties\<close>

text \<open>
  The content hash of an event is a function of the alert alone: the same detail observed
  at another time, or through another configured source name, has the same hash, so a change of hash
  means a change of content. The record key depends only on the source name and the identifier.
\<close>

theorem content_hash_ignores_observation:
  assumes "build_event source i d obs = Inr x" and "build_event source' i d obs' = Inr y"
  shows "ee_content_hash x = ee_content_hash y \<and>
         (source = source' \<longrightarrow> ee_record_key x = ee_record_key y) \<and>
         ev_content_hash (ee_event x) = ee_content_hash x"
  using assms by (auto elim!: build_event_Inr)

lemma content_hash_ignores_observation_witness:
  "\<exists>x. build_event ''ddae-1'' ''a1'' example_detail 0 = Inr x \<and>
       ev_content_hash (ee_event x) = ee_content_hash x"
proof -
  obtain x where x: "build_event ''ddae-1'' ''a1'' example_detail 0 = Inr x" using example_build by blast
  with content_hash_ignores_observation [OF x x] show ?thesis by blast
qed

end
