(* ===== verification/Outbox.thy ===== *)
theory Outbox
  imports Bolt Go_Base64 Alert_Event
begin

text \<open>
  \<open>internal/outbox/store.go\<close>: the durable queue of alert events and the checkpoint of every alert
  seen. The store is a bbolt database with three buckets; every method is one transaction. The
  methods take the database as an argument and return it; \<open>enqueue_tx\<close> and the like are the bodies of
  the \<open>db.Update\<close> calls. Opening files and directories is not modelled: \<open>open_store\<close> starts where
  \<open>bolt.Open\<close> has returned a database.

  Two readings of bbolt are made explicit. A cursor that overwrites the value of the key it is at
  goes on to the next key, so a loop over a cursor runs over the entries present when it starts. And
  the buckets exist from \<open>Open\<close> on, so a nil bucket is not dereferenced.
\<close>

section \<open>Data\<close>

definition bucket_meta :: bytes where "bucket_meta = ''meta-v1''"
definition bucket_outbox :: bytes where "bucket_outbox = ''outbox-v1''"
definition bucket_checkpoints :: bytes where "bucket_checkpoints = ''checkpoints-v1''"
definition key_schema_version :: bytes where "key_schema_version = ''schema-version''"
definition key_event_count :: bytes where "key_event_count = ''event-count''"
definition key_event_bytes :: bytes where "key_event_bytes = ''event-bytes''"
definition current_schema :: bytes where "current_schema = ''1''"

definition full_error :: go_error where
  "full_error = Classified ClassBufferFull ''durable outbox is full''"

definition corruption :: "bytes \<Rightarrow> go_error" where
  "corruption reason = Classified ClassInternal (''persistent state is corrupt: '' @ reason)"

definition json_error :: go_error where "json_error = Plain ''json''"

record store_options =
  opt_max_bytes :: int
  opt_max_events :: int
  opt_max_checkpoints :: int
  opt_retention :: go_duration

record outbox_record =
  or_sequence :: u64
  or_alert_id :: bytes
  or_record_key :: go_bytes
  or_payload :: go_bytes
  or_content_hash :: bytes
  or_created_at :: int

record checkpoint =
  cp_alert_id :: bytes
  cp_list_marker :: bytes
  cp_pending_hash :: bytes
  cp_delivered_hash :: bytes
  cp_last_fetched_at :: int
  cp_last_seen_at :: int
  cp_absent_since :: int

record store_stats =
  st_events :: int
  st_bytes :: int
  st_full :: bool

definition zero_checkpoint :: checkpoint where
  "zero_checkpoint =
     \<lparr>cp_alert_id = [], cp_list_marker = [], cp_pending_hash = [], cp_delivered_hash = [],
      cp_last_fetched_at = 0, cp_last_seen_at = 0, cp_absent_since = 0\<rparr>"

definition zero_record :: outbox_record where
  "zero_record =
     \<lparr>or_sequence = 0, or_alert_id = [], or_record_key = None, or_payload = None, or_content_hash = [],
      or_created_at = 0\<rparr>"

definition record_json :: "outbox_record \<Rightarrow> json" where
  "record_json r =
     JObj [(''sequence'', juint (or_sequence r)), (''alert_id'', JStr (or_alert_id r)),
       (''record_key'', jbytes (or_record_key r)), (''payload'', jbytes (or_payload r)),
       (''content_hash'', JStr (or_content_hash r)), (''created_at_unix_nano'', jint (or_created_at r))]"

definition checkpoint_json :: "checkpoint \<Rightarrow> json" where
  "checkpoint_json c =
     JObj ([(''alert_id'', JStr (cp_alert_id c))] @
       str_member ''list_marker'' (cp_list_marker c) @
       str_member ''pending_hash'' (cp_pending_hash c) @
       str_member ''delivered_hash'' (cp_delivered_hash c) @
       int_member ''last_fetched_at_unix_nano'' jint (cp_last_fetched_at c) @
       int_member ''last_seen_at_unix_nano'' jint (cp_last_seen_at c) @
       int_member ''absent_since_unix_nano'' jint (cp_absent_since c))"

definition marshal_record :: "outbox_record \<Rightarrow> bytes" where
  "marshal_record r = json_print (record_json r)"

definition marshal_checkpoint :: "checkpoint \<Rightarrow> bytes" where
  "marshal_checkpoint c = json_print (checkpoint_json c)"

definition un_record :: "json \<Rightarrow> outbox_record option" where
  "un_record j =
     (case j of
        JNull \<Rightarrow> Some zero_record
      | JObj ms \<Rightarrow>
          do { sq \<leftarrow> un_field ''sequence'' un_uint64 ms 0;
               ai \<leftarrow> un_field ''alert_id'' un_string ms [];
               rk \<leftarrow> un_field ''record_key'' un_bytes ms None;
               pl \<leftarrow> un_field ''payload'' un_bytes ms None;
               ch \<leftarrow> un_field ''content_hash'' un_string ms [];
               ca \<leftarrow> un_field ''created_at_unix_nano'' un_int64 ms 0;
               Some \<lparr>or_sequence = sq, or_alert_id = ai, or_record_key = rk, or_payload = pl,
                     or_content_hash = ch, or_created_at = ca\<rparr> }
      | _ \<Rightarrow> None)"

definition un_checkpoint :: "json \<Rightarrow> checkpoint option" where
  "un_checkpoint j =
     (case j of
        JNull \<Rightarrow> Some zero_checkpoint
      | JObj ms \<Rightarrow>
          do { ai \<leftarrow> un_field ''alert_id'' un_string ms [];
               lm \<leftarrow> un_field ''list_marker'' un_string ms [];
               ph \<leftarrow> un_field ''pending_hash'' un_string ms [];
               dh \<leftarrow> un_field ''delivered_hash'' un_string ms [];
               lf \<leftarrow> un_field ''last_fetched_at_unix_nano'' un_int64 ms 0;
               ls \<leftarrow> un_field ''last_seen_at_unix_nano'' un_int64 ms 0;
               ab \<leftarrow> un_field ''absent_since_unix_nano'' un_int64 ms 0;
               Some \<lparr>cp_alert_id = ai, cp_list_marker = lm, cp_pending_hash = ph, cp_delivered_hash = dh,
                     cp_last_fetched_at = lf, cp_last_seen_at = ls, cp_absent_since = ab\<rparr> }
      | _ \<Rightarrow> None)"

definition unmarshal_record :: "bytes \<Rightarrow> outbox_record option" where
  "unmarshal_record s = Option.bind (json_parse s) un_record"

definition unmarshal_checkpoint :: "bytes \<Rightarrow> checkpoint option" where
  "unmarshal_checkpoint s = Option.bind (json_parse s) un_checkpoint"

definition read_checkpoint :: "bytes option \<Rightarrow> go_error + checkpoint" where
  "read_checkpoint v =
     (case v of
        None \<Rightarrow> Inr zero_checkpoint
      | Some s \<Rightarrow>
          (case unmarshal_checkpoint s of
             None \<Rightarrow> Inl (Wrapped ''decode checkpoint'' json_error)
           | Some c \<Rightarrow> Inr c))"

definition put_checkpoint :: "'d bolt \<Rightarrow> checkpoint \<Rightarrow> 'd \<Rightarrow> go_error + 'd" where
  "put_checkpoint B c d = putE B bucket_checkpoints (cp_alert_id c) (marshal_checkpoint c) d"

definition read_u64 :: "bytes option \<Rightarrow> u64" where
  "read_u64 v = (case v of None \<Rightarrow> 0 | Some s \<Rightarrow> if length s \<noteq> 8 then 0 else of_be64 s)"

section \<open>Operations\<close>

definition with_identity :: "'d bolt \<Rightarrow> store_options \<Rightarrow> bytes \<Rightarrow> checkpoint \<Rightarrow> 'd \<Rightarrow> go_error + checkpoint" where
  "with_identity B opts i c d =
     (if cp_alert_id c = [] then
        (if int (key_n B d bucket_checkpoints) \<ge> opt_max_checkpoints opts then Inl full_error
         else Inr (c\<lparr>cp_alert_id := i\<rparr>))
      else Inr c)"

definition enqueue_tx ::
  "'d bolt \<Rightarrow> store_options \<Rightarrow> encoded_event \<Rightarrow> bytes \<Rightarrow> go_time \<Rightarrow> 'd \<Rightarrow> go_error + 'd \<times> bool" where
  "enqueue_tx B opts ee marker observed d =
     (let i = ev_alert_id (ee_event ee) in
      bindE (read_checkpoint (bget B d bucket_checkpoints i)) (\<lambda>c0.
      bindE (with_identity B opts i c0 d) (\<lambda>c1.
        let now = unix_nano observed;
            c = c1\<lparr>cp_last_seen_at := now, cp_last_fetched_at := now, cp_list_marker := marker,
                   cp_absent_since := 0\<rparr>
        in if cp_pending_hash c = ee_content_hash ee \<or>
              (cp_pending_hash c = [] \<and> cp_delivered_hash c = ee_content_hash ee)
           then bindE (put_checkpoint B c d) (\<lambda>d1. Inr (d1, False))
           else
             let count = sint (read_u64 (bget B d bucket_meta key_event_count));
                 used = sint (read_u64 (bget B d bucket_meta key_event_bytes))
             in bindE (next_seqE B bucket_outbox d) (\<lambda>(d1, sequence).
                let encoded = marshal_record
                      \<lparr>or_sequence = sequence, or_alert_id = i, or_record_key = append_nil (ee_record_key ee),
                       or_payload = append_nil (ee_payload ee), or_content_hash = ee_content_hash ee,
                       or_created_at = now\<rparr>;
                    encoded_size = int (length encoded)
                in bindE (guardE (\<not> (count \<ge> opt_max_events opts \<or>
                                      wrap64 (used + encoded_size) > opt_max_bytes opts)) full_error) (\<lambda>_.
                   bindE (putE B bucket_outbox (be64 sequence) encoded d1) (\<lambda>d2.
                   bindE (put_checkpoint B (c\<lparr>cp_pending_hash := ee_content_hash ee\<rparr>) d2) (\<lambda>d3.
                   bindE (putE B bucket_meta key_event_count (be64 (of_int (count + 1))) d3) (\<lambda>d4.
                   bindE (putE B bucket_meta key_event_bytes (be64 (of_int (used + encoded_size))) d4) (\<lambda>d5.
                   Inr (d5, True))))))))))"

definition enqueue ::
  "'d bolt \<Rightarrow> store_options \<Rightarrow> encoded_event \<Rightarrow> bytes \<Rightarrow> go_time \<Rightarrow> 'd \<Rightarrow> 'd \<times> bool \<times> go_error option" where
  "enqueue B opts ee marker observed d = update_tx B False (enqueue_tx B opts ee marker observed) d"

definition mark_seen_tx ::
  "'d bolt \<Rightarrow> store_options \<Rightarrow> bytes \<Rightarrow> bytes \<Rightarrow> go_time \<Rightarrow> 'd \<Rightarrow> go_error + 'd \<times> unit" where
  "mark_seen_tx B opts i marker observed d =
     bindE (read_checkpoint (bget B d bucket_checkpoints i)) (\<lambda>c0.
     bindE (with_identity B opts i c0 d) (\<lambda>c.
     bindE (put_checkpoint B
       (c\<lparr>cp_list_marker := marker, cp_last_seen_at := unix_nano observed, cp_absent_since := 0\<rparr>) d)
       (\<lambda>d1. Inr (d1, ()))))"

definition mark_seen ::
  "'d bolt \<Rightarrow> store_options \<Rightarrow> bytes \<Rightarrow> bytes \<Rightarrow> go_time \<Rightarrow> 'd \<Rightarrow> 'd \<times> go_error option" where
  "mark_seen B opts i marker observed d =
     (case update_tx B () (mark_seen_tx B opts i marker observed) d of (d', _, err) \<Rightarrow> (d', err))"

definition get_checkpoint :: "'d bolt \<Rightarrow> bytes \<Rightarrow> 'd \<Rightarrow> checkpoint \<times> bool \<times> go_error option" where
  "get_checkpoint B i d =
     (case read_checkpoint (bget B d bucket_checkpoints i) of
        Inl e \<Rightarrow> (zero_checkpoint, False, Some e)
      | Inr c \<Rightarrow> (c, cp_alert_id c \<noteq> [], None))"

definition fetch_state :: "'d bolt \<Rightarrow> bytes \<Rightarrow> 'd \<Rightarrow> bool \<times> bytes \<times> go_time \<times> go_error option" where
  "fetch_state B i d =
     (case get_checkpoint B i d of
        (c, exists, err) \<Rightarrow>
          if err \<noteq> None \<or> \<not> exists then (exists, [], zero_time, err)
          else (True, cp_list_marker c,
                (if cp_last_fetched_at c \<noteq> 0 then time_unix0 (cp_last_fetched_at c) else zero_time), None))"

fun read_records :: "nat \<Rightarrow> (bytes \<times> bytes) list \<Rightarrow> outbox_record list \<times> go_error option" where
  "read_records 0 es = ([], None)"
| "read_records (Suc n) [] = ([], None)"
| "read_records (Suc n) ((k, v) # es) =
     (case unmarshal_record v of
        None \<Rightarrow> ([], Some json_error)
      | Some r \<Rightarrow> (case read_records n es of (rs, err) \<Rightarrow> (r # rs, err)))"

definition records :: "'d bolt \<Rightarrow> nat \<Rightarrow> 'd \<Rightarrow> outbox_record list \<times> go_error option" where
  "records B limit d = read_records limit (bentries B d bucket_outbox)"

definition stats :: "'d bolt \<Rightarrow> store_options \<Rightarrow> 'd \<Rightarrow> store_stats" where
  "stats B opts d =
     (let events = sint (read_u64 (bget B d bucket_meta key_event_count));
          used = sint (read_u64 (bget B d bucket_meta key_event_bytes))
      in \<lparr>st_events = events, st_bytes = used,
          st_full = (events \<ge> opt_max_events opts \<or> used \<ge> opt_max_bytes opts \<or>
                     int (key_n B d bucket_checkpoints) \<ge> opt_max_checkpoints opts)\<rparr>)"

definition health :: "'d bolt \<Rightarrow> store_options \<Rightarrow> 'd \<Rightarrow> int \<times> bool \<times> go_error option" where
  "health B opts d = (let s = stats B opts d in (st_events s, st_full s, None))"


text \<open>Validation of stored data: runes, as in the source.\<close>

definition valid_hash :: "bytes \<Rightarrow> bool" where
  "valid_hash v \<longleftrightarrow>
     length v = 64 \<and> list_all (\<lambda>r. case r of [c] \<Rightarrow> is_lower_hex c | _ \<Rightarrow> False) (utf8_runes v)"

definition alert_id_invalid :: "bytes \<Rightarrow> bool" where
  "alert_id_invalid i \<longleftrightarrow>
     length i < 1 \<or> length i > 256 \<or> i = ''.'' \<or> i = ''..'' \<or>
     list_ex (\<lambda>r. case r of
         [c] \<Rightarrow> \<not> (is_lower c \<or> is_upper c \<or> is_digit c \<or> c = CHR ''.'' \<or> c = CHR ''_'' \<or>
                   c = CHR '':'' \<or> c = CHR ''-'')
       | _ \<Rightarrow> True) (utf8_runes i)"

definition valid_stored_record :: "outbox_record \<Rightarrow> bool" where
  "valid_stored_record r \<longleftrightarrow>
     \<not> (or_sequence r = 0 \<or> or_created_at r \<le> 0 \<or> alert_id_invalid (or_alert_id r) \<or>
        \<not> valid_hash (or_content_hash r)) \<and>
     (let payload = slice_bytes (or_payload r); key = slice_bytes (or_record_key r) in
      \<not> (length payload = 0 \<or> length payload > max_event_bytes \<or> length key \<noteq> 64 \<or> \<not> valid_hash key) \<and>
      (case unmarshal_event payload of
         None \<Rightarrow> False
       | Some e \<Rightarrow>
           marshal_event e = payload \<and>
           validate_stored_event e = Inr () \<and>
           ev_schema_version e = schema_version \<and> ev_event_type e = event_type \<and>
           ev_source_system e = source_system \<and> ev_alert_id e = or_alert_id r \<and>
           ev_content_hash e = or_content_hash r \<and>
           sha256_hex (marshal_alert (ev_alert e)) = or_content_hash r \<and>
           key = sha256_hex (ev_source_instance e @ [chr 0] @ ev_alert_id e)))"

text \<open>The newest queued record of an alert: the cursor's last one.\<close>

fun newest_pending :: "bytes \<Rightarrow> (bytes \<times> bytes) list \<Rightarrow> bytes \<times> u64 \<Rightarrow> go_error + bytes \<times> u64" where
  "newest_pending i [] acc = Inr acc"
| "newest_pending i ((k, v) # es) acc =
     (case unmarshal_record v of
        None \<Rightarrow> Inl (corruption ''invalid outbox record'')
      | Some r \<Rightarrow>
          newest_pending i es
            (if or_alert_id r = i then (or_content_hash r, or_sequence r) else acc))"

definition acknowledge_tx :: "'d bolt \<Rightarrow> u64 \<Rightarrow> 'd \<Rightarrow> go_error + 'd \<times> unit" where
  "acknowledge_tx B sequence d =
     (case bget B d bucket_outbox (be64 sequence) of
        None \<Rightarrow> Inr (d, ())
      | Some value \<Rightarrow>
          (case unmarshal_record value of
             None \<Rightarrow> Inl json_error
           | Some r \<Rightarrow>
               bindE (guardE (marshal_record r = value \<and> or_sequence r = sequence)
                        (corruption ''invalid outbox record'')) (\<lambda>_.
               bindE (guardE (valid_stored_record r) (corruption ''invalid outbox record'')) (\<lambda>_.
               bindE (read_checkpoint (bget B d bucket_checkpoints (or_alert_id r))) (\<lambda>c.
               bindE (guardE (\<not> (cp_alert_id c = [] \<or> cp_alert_id c \<noteq> or_alert_id r))
                        (corruption ''outbox record has no matching checkpoint'')) (\<lambda>_.
               bindE (newest_pending (or_alert_id r) (bentries B d bucket_outbox) ([], 0)) (\<lambda>(newest, newest_seq).
               bindE (guardE (cp_pending_hash c = newest)
                        (corruption ''checkpoint pending hash mismatch'')) (\<lambda>_.
                 let c1 = c\<lparr>cp_delivered_hash := or_content_hash r\<rparr>;
                     c2 = (if sequence = newest_seq then c1\<lparr>cp_pending_hash := []\<rparr> else c1)
                 in bindE (put_checkpoint B c2 d) (\<lambda>d1.
                    let count = read_u64 (bget B d1 bucket_meta key_event_count);
                        used = read_u64 (bget B d1 bucket_meta key_event_bytes);
                        encoded_size = of_nat (length value) :: u64
                    in bindE (deleteE B bucket_outbox (be64 sequence) d1) (\<lambda>d2.
                       bindE (putE B bucket_meta key_event_count
                                (be64 (if count > 0 then count - 1 else count)) d2) (\<lambda>d3.
                       bindE (putE B bucket_meta key_event_bytes
                                (be64 (if encoded_size > used then 0 else used - encoded_size)) d3) (\<lambda>d4.
                       Inr (d4, ())))))))))))))"

definition acknowledge :: "'d bolt \<Rightarrow> u64 \<Rightarrow> 'd \<Rightarrow> 'd \<times> go_error option" where
  "acknowledge B sequence d =
     (case update_tx B () (acknowledge_tx B sequence) d of (d', _, err) \<Rightarrow> (d', err))"

fun reconcile_loop ::
  "'d bolt \<Rightarrow> store_options \<Rightarrow> bytes set \<Rightarrow> go_time \<Rightarrow> (bytes \<times> bytes) list \<Rightarrow> 'd \<Rightarrow> bytes list
   \<Rightarrow> go_error + 'd \<times> bytes list" where
  "reconcile_loop B opts listed now [] d del = Inr (d, del)"
| "reconcile_loop B opts listed now ((k, v) # es) d del =
     bindE (read_checkpoint (Some v)) (\<lambda>c.
       if cp_alert_id c \<in> listed then reconcile_loop B opts listed now es d del
       else
         bindE (if cp_absent_since c = 0 then
                  (let c1 = c\<lparr>cp_absent_since := unix_nano now\<rparr>
                   in bindE (put_checkpoint B c1 d) (\<lambda>d1. Inr (c1, d1)))
                else Inr (c, d)) (\<lambda>(c1, d1).
           reconcile_loop B opts listed now es d1
             (if time_sub now (time_unix0 (cp_absent_since c1)) \<ge> opt_retention opts \<and> cp_pending_hash c1 = []
              then del @ [k] else del)))"

fun delete_keys :: "'d bolt \<Rightarrow> bytes \<Rightarrow> bytes list \<Rightarrow> 'd \<Rightarrow> go_error + 'd" where
  "delete_keys B b [] d = Inr d"
| "delete_keys B b (k # ks) d = bindE (deleteE B b k d) (delete_keys B b ks)"

definition reconcile_tx ::
  "'d bolt \<Rightarrow> store_options \<Rightarrow> bytes set \<Rightarrow> go_time \<Rightarrow> 'd \<Rightarrow> go_error + 'd \<times> bool" where
  "reconcile_tx B opts listed now d =
     (let es = bentries B d bucket_checkpoints in
      bindE (reconcile_loop B opts listed now es d []) (\<lambda>(d1, del).
      bindE (delete_keys B bucket_checkpoints del d1) (\<lambda>d2.
      Inr (d2, int (length es) - int (length del) \<ge> opt_max_checkpoints opts))))"

definition reconcile_listed ::
  "'d bolt \<Rightarrow> store_options \<Rightarrow> bytes set \<Rightarrow> go_time \<Rightarrow> bool \<Rightarrow> 'd \<Rightarrow> 'd \<times> go_error option" where
  "reconcile_listed B opts listed now complete d =
     (if \<not> complete then (d, None)
      else case update_tx B False (reconcile_tx B opts listed now) d of
             (d', full, Some e) \<Rightarrow> (d', Some e)
           | (d', full, None) \<Rightarrow> (d', if full then Some full_error else None))"

section \<open>Opening\<close>

fun validate_records ::
  "(bytes \<times> bytes) list \<Rightarrow> u64 \<Rightarrow> u64 \<Rightarrow> (bytes \<rightharpoonup> bytes) \<Rightarrow> bytes set
   \<Rightarrow> go_error + u64 \<times> u64 \<times> (bytes \<rightharpoonup> bytes) \<times> bytes set" where
  "validate_records [] count used newest by_alert = Inr (count, used, newest, by_alert)"
| "validate_records ((k, v) # es) count used newest by_alert =
     (if length k \<noteq> 8 then Inl (corruption ''invalid outbox key'')
      else if of_be64 k = 0 then Inl (corruption ''invalid outbox sequence'')
      else case unmarshal_record v of
        None \<Rightarrow> Inl (corruption ''invalid outbox record'')
      | Some r \<Rightarrow>
          if marshal_record r \<noteq> v then Inl (corruption ''non-canonical outbox record'')
          else if or_sequence r \<noteq> of_be64 k \<or> \<not> valid_stored_record r
          then Inl (corruption ''outbox record invariant failed'')
          else if of_nat (length v) > (- 1 :: u64) - used
          then Inl (corruption ''outbox byte count overflow'')
          else validate_records es (count + 1) (used + of_nat (length v))
                 (newest(or_alert_id r \<mapsto> or_content_hash r)) (insert (or_alert_id r) by_alert))"

definition map_lookup :: "(bytes \<rightharpoonup> bytes) \<Rightarrow> bytes \<Rightarrow> bytes" where
  "map_lookup m k = (case m k of None \<Rightarrow> [] | Some v \<Rightarrow> v)"

fun validate_checkpoints ::
  "(bytes \<times> bytes) list \<Rightarrow> (bytes \<rightharpoonup> bytes) \<Rightarrow> bytes set \<Rightarrow> go_error + unit" where
  "validate_checkpoints [] newest by_alert =
     (if by_alert \<noteq> {} then Inl (corruption ''outbox record has no checkpoint'') else Inr ())"
| "validate_checkpoints ((k, v) # es) newest by_alert =
     (case read_checkpoint (Some v) of
        Inl _ \<Rightarrow> Inl (corruption ''invalid checkpoint'')
      | Inr c \<Rightarrow>
          if cp_alert_id c = [] \<or> k \<noteq> cp_alert_id c \<or> alert_id_invalid (cp_alert_id c)
          then Inl (corruption ''checkpoint identity mismatch'')
          else if marshal_checkpoint c \<noteq> v then Inl (corruption ''non-canonical checkpoint'')
          else if list_ex (\<lambda>h. h \<noteq> [] \<and> \<not> valid_hash h) [cp_pending_hash c, cp_delivered_hash c]
          then Inl (corruption ''invalid checkpoint hash'')
          else if list_ex (\<lambda>t. t < 0) [cp_last_fetched_at c, cp_last_seen_at c, cp_absent_since c]
          then Inl (corruption ''invalid checkpoint timestamp'')
          else if cp_pending_hash c \<noteq> map_lookup newest (cp_alert_id c)
          then Inl (corruption ''checkpoint pending hash mismatch'')
          else validate_checkpoints es newest (by_alert - {cp_alert_id c}))"

definition migrate_checked :: "'d bolt \<Rightarrow> 'd \<Rightarrow> go_error + 'd" where
  "migrate_checked B d =
     bindE (validate_records (bentries B d bucket_outbox) 0 0 Map.empty {}) (\<lambda>(count, used, newest, by_alert).
     bindE (validate_checkpoints (bentries B d bucket_checkpoints) newest by_alert) (\<lambda>_.
     bindE (putE B bucket_meta key_event_count (be64 count) d) (\<lambda>d1.
     bindE (putE B bucket_meta key_event_bytes (be64 used) d1) (\<lambda>d2.
     putE B bucket_meta key_schema_version current_schema d2))))"

definition validate_and_migrate :: "'d bolt \<Rightarrow> 'd \<Rightarrow> go_error + 'd" where
  "validate_and_migrate B d =
     (if \<not> (has_bucket B d bucket_meta \<and> has_bucket B d bucket_outbox \<and> has_bucket B d bucket_checkpoints)
      then Inl (corruption ''required bucket is missing'')
      else case bget B d bucket_meta key_schema_version of
        Some v \<Rightarrow> if v \<noteq> current_schema then Inl (corruption ''unsupported schema version'')
                  else migrate_checked B d
      | None \<Rightarrow> migrate_checked B d)"


definition required_buckets :: "bytes list" where
  "required_buckets = [bucket_meta, bucket_outbox, bucket_checkpoints]"

fun create_buckets :: "'d bolt \<Rightarrow> bytes list \<Rightarrow> 'd \<Rightarrow> go_error + 'd" where
  "create_buckets B [] d = Inr d"
| "create_buckets B (b # bs) d = bindE (createE B b d) (create_buckets B bs)"

definition open_tx :: "'d bolt \<Rightarrow> 'd \<Rightarrow> go_error + 'd \<times> unit" where
  "open_tx B d =
     (let present = length (filter (has_bucket B d) required_buckets) in
      bindE (guardE (\<not> (present \<noteq> 0 \<and> present \<noteq> 3)) (corruption ''required bucket is missing'')) (\<lambda>_.
      bindE (if present = 0 then create_buckets B required_buckets d else Inr d) (\<lambda>d1.
      bindE (validate_and_migrate B d1) (\<lambda>d2. Inr (d2, ())))))"

definition options_ok :: "store_options \<Rightarrow> bool" where
  "options_ok opts \<longleftrightarrow>
     opt_max_bytes opts > 0 \<and> opt_max_events opts > 0 \<and> opt_max_checkpoints opts > 0 \<and> opt_retention opts > 0"

definition open_store :: "'d bolt \<Rightarrow> store_options \<Rightarrow> 'd \<Rightarrow> 'd \<times> go_error option" where
  "open_store B opts d =
     (if \<not> options_ok opts then (d, Some (Plain ''invalid outbox options''))
      else case update_tx B () (open_tx B) d of
             (d', _, None) \<Rightarrow> (d', None)
           | (d', _, Some e) \<Rightarrow>
               (d', Some (if errors_as_class e \<noteq> None then e
                          else Plain ''cannot initialize persistent state'')))"

end
