(* ===== verification/Outbox_Spec.thy ===== *)
theory Outbox_Spec
  imports Outbox
begin

text \<open>
  What the outbox promises, over an abstract state: the queued records in order, the checkpoints as a
  map, and the last sequence number. The operations \<open>spec_*\<close> are written on that state, with no
  encoding and no transaction; \<open>represents\<close> relates it to a database. \<open>abs_wf\<close> is the invariant of the
  abstract state, and the lemmas of this theory show that every operation preserves it.
\<close>

section \<open>Abstract state\<close>

record outbox_abs =
  oa_queue :: "outbox_record list"
  oa_cps :: "bytes \<rightharpoonup> checkpoint"
  oa_seq :: u64

definition record_size :: "outbox_record \<Rightarrow> nat" where
  "record_size r = length (marshal_record r)"

definition total_bytes :: "outbox_record list \<Rightarrow> nat" where
  "total_bytes q = sum_list (map record_size q)"

text \<open>The newest record of an alert, and the hash its checkpoint must show as pending.\<close>

definition newest_of :: "bytes \<Rightarrow> outbox_record list \<Rightarrow> outbox_record option" where
  "newest_of i q =
     (let rs = filter (\<lambda>r. or_alert_id r = i) q in if rs = [] then None else Some (last rs))"

definition newest_hash :: "bytes \<Rightarrow> outbox_record list \<Rightarrow> bytes" where
  "newest_hash i q = (case newest_of i q of None \<Rightarrow> [] | Some r \<Rightarrow> or_content_hash r)"

definition marker_ok :: "bytes \<Rightarrow> bool" where
  "marker_ok m \<longleftrightarrow> utf8_valid m \<and> length m \<le> 67108864"

definition hash_ok :: "bytes \<Rightarrow> bool" where "hash_ok h \<longleftrightarrow> h = [] \<or> valid_hash h"

definition stamp_ok :: "int \<Rightarrow> bool" where "stamp_ok t \<longleftrightarrow> 0 \<le> t \<and> t \<le> max_int64"

definition cp_wf :: "bytes \<Rightarrow> checkpoint \<Rightarrow> bool" where
  "cp_wf i c \<longleftrightarrow>
     cp_alert_id c = i \<and> \<not> alert_id_invalid i \<and> marker_ok (cp_list_marker c) \<and>
     hash_ok (cp_pending_hash c) \<and> hash_ok (cp_delivered_hash c) \<and>
     stamp_ok (cp_last_fetched_at c) \<and> stamp_ok (cp_last_seen_at c) \<and> stamp_ok (cp_absent_since c)"

definition rec_wf :: "outbox_record \<Rightarrow> bool" where
  "rec_wf r \<longleftrightarrow> valid_stored_record r \<and> is_int64 (or_created_at r)"

definition size_limit :: nat where "size_limit = 4611686018427387904"

definition abs_wf :: "outbox_abs \<Rightarrow> bool" where
  "abs_wf a \<longleftrightarrow>
     (\<forall>r \<in> set (oa_queue a). rec_wf r \<and> or_sequence r \<le> oa_seq a \<and> oa_cps a (or_alert_id r) \<noteq> None) \<and>
     sorted_wrt (\<lambda>r s. or_sequence r < or_sequence s) (oa_queue a) \<and>
     (\<forall>i c. oa_cps a i = Some c \<longrightarrow> cp_wf i c \<and> cp_pending_hash c = newest_hash i (oa_queue a)) \<and>
     finite (dom (oa_cps a)) \<and>
     length (oa_queue a) \<le> size_limit \<and> total_bytes (oa_queue a) \<le> size_limit"

definition empty_abs :: outbox_abs where
  "empty_abs = \<lparr>oa_queue = [], oa_cps = Map.empty, oa_seq = 0\<rparr>"

section \<open>Abstract operations\<close>

definition cp_of :: "outbox_abs \<Rightarrow> bytes \<Rightarrow> checkpoint" where
  "cp_of a i = (case oa_cps a i of None \<Rightarrow> zero_checkpoint\<lparr>cp_alert_id := i\<rparr> | Some c \<Rightarrow> c)"

definition room_for :: "store_options \<Rightarrow> bytes \<Rightarrow> outbox_abs \<Rightarrow> bool" where
  "room_for opts i a \<longleftrightarrow> oa_cps a i \<noteq> None \<or> int (card (dom (oa_cps a))) < opt_max_checkpoints opts"

definition seen_cp :: "bytes \<Rightarrow> go_time \<Rightarrow> checkpoint \<Rightarrow> checkpoint" where
  "seen_cp marker now c = c\<lparr>cp_list_marker := marker, cp_last_seen_at := now, cp_absent_since := 0\<rparr>"

definition new_record :: "encoded_event \<Rightarrow> go_time \<Rightarrow> u64 \<Rightarrow> outbox_record" where
  "new_record ee now sequence =
     \<lparr>or_sequence = sequence, or_alert_id = ev_alert_id (ee_event ee), or_record_key = append_nil (ee_record_key ee),
      or_payload = append_nil (ee_payload ee), or_content_hash = ee_content_hash ee, or_created_at = now\<rparr>"

text \<open>The content is already queued, or was delivered and nothing is queued.\<close>

definition known_content :: "checkpoint \<Rightarrow> bytes \<Rightarrow> bool" where
  "known_content c h \<longleftrightarrow> cp_pending_hash c = h \<or> (cp_pending_hash c = [] \<and> cp_delivered_hash c = h)"

definition spec_enqueue ::
  "store_options \<Rightarrow> encoded_event \<Rightarrow> bytes \<Rightarrow> go_time \<Rightarrow> outbox_abs \<Rightarrow> go_error + outbox_abs \<times> bool" where
  "spec_enqueue opts ee marker now a =
     (let i = ev_alert_id (ee_event ee);
          c = (seen_cp marker now (cp_of a i))\<lparr>cp_last_fetched_at := now\<rparr>;
          r = new_record ee now (oa_seq a + 1)
      in if \<not> room_for opts i a then Inl full_error
         else if known_content c (ee_content_hash ee)
         then Inr (a\<lparr>oa_cps := (oa_cps a)(i \<mapsto> c)\<rparr>, False)
         else if int (length (oa_queue a)) \<ge> opt_max_events opts \<or>
                 int (total_bytes (oa_queue a) + record_size r) > opt_max_bytes opts
         then Inl full_error
         else Inr (a\<lparr>oa_queue := oa_queue a @ [r],
                     oa_cps := (oa_cps a)(i \<mapsto> c\<lparr>cp_pending_hash := ee_content_hash ee\<rparr>),
                     oa_seq := oa_seq a + 1\<rparr>, True))"

definition spec_mark_seen ::
  "store_options \<Rightarrow> bytes \<Rightarrow> bytes \<Rightarrow> go_time \<Rightarrow> outbox_abs \<Rightarrow> go_error + outbox_abs" where
  "spec_mark_seen opts i marker now a =
     (if \<not> room_for opts i a then Inl full_error
      else Inr (a\<lparr>oa_cps := (oa_cps a)(i \<mapsto> seen_cp marker now (cp_of a i))\<rparr>))"

definition acked_cp :: "outbox_record \<Rightarrow> outbox_record list \<Rightarrow> checkpoint \<Rightarrow> checkpoint" where
  "acked_cp r q c =
     (let c1 = c\<lparr>cp_delivered_hash := or_content_hash r\<rparr>
      in if newest_of (or_alert_id r) q = Some r then c1\<lparr>cp_pending_hash := []\<rparr> else c1)"

definition remove_seq :: "u64 \<Rightarrow> outbox_record list \<Rightarrow> outbox_record list" where
  "remove_seq s q = filter (\<lambda>r. or_sequence r \<noteq> s) q"

definition spec_acknowledge :: "u64 \<Rightarrow> outbox_abs \<Rightarrow> outbox_abs" where
  "spec_acknowledge s a =
     (case find (\<lambda>r. or_sequence r = s) (oa_queue a) of
        None \<Rightarrow> a
      | Some r \<Rightarrow>
          (let i = or_alert_id r in
           a\<lparr>oa_queue := remove_seq s (oa_queue a),
             oa_cps := (oa_cps a)(i \<mapsto> acked_cp r (oa_queue a) (cp_of a i))\<rparr>))"

definition absent_cp :: "go_time \<Rightarrow> checkpoint \<Rightarrow> checkpoint" where
  "absent_cp now c = (if cp_absent_since c = 0 then c\<lparr>cp_absent_since := now\<rparr> else c)"

definition expired :: "store_options \<Rightarrow> go_time \<Rightarrow> checkpoint \<Rightarrow> bool" where
  "expired opts now c \<longleftrightarrow>
     time_sub now (time_unix0 (cp_absent_since c)) \<ge> opt_retention opts \<and> cp_pending_hash c = []"

definition spec_reconcile :: "store_options \<Rightarrow> bytes set \<Rightarrow> go_time \<Rightarrow> outbox_abs \<Rightarrow> outbox_abs" where
  "spec_reconcile opts listed now a =
     a\<lparr>oa_cps := (\<lambda>i. case oa_cps a i of
          None \<Rightarrow> None
        | Some c \<Rightarrow> if i \<in> listed then Some c
                    else let c1 = absent_cp now c in if expired opts now c1 then None else Some c1)\<rparr>"

section \<open>Representation\<close>

definition out_entry :: "outbox_record \<Rightarrow> bytes \<times> bytes" where
  "out_entry r = (be64 (or_sequence r), marshal_record r)"

definition tx_view ::
  "'d bolt \<Rightarrow> 'd \<Rightarrow> (bytes \<times> bytes) list \<Rightarrow> (bytes \<rightharpoonup> bytes) \<Rightarrow> (bytes \<rightharpoonup> bytes) \<Rightarrow> u64 \<Rightarrow> bool" where
  "tx_view B d es cm mm n \<longleftrightarrow>
     (\<forall>b \<in> set required_buckets. has_bucket B d b) \<and>
     bentries B d bucket_outbox = es \<and> map_of (bentries B d bucket_checkpoints) = cm \<and>
     map_of (bentries B d bucket_meta) = mm \<and> bseq B d bucket_outbox = n"

definition meta_map :: "outbox_record list \<Rightarrow> (bytes \<rightharpoonup> bytes) \<Rightarrow> bool" where
  "meta_map q mm \<longleftrightarrow>
     mm key_schema_version = Some current_schema \<and>
     mm key_event_count = Some (be64 (of_nat (length q))) \<and>
     mm key_event_bytes = Some (be64 (of_nat (total_bytes q)))"

definition content :: "'d bolt \<Rightarrow> 'd \<Rightarrow> outbox_abs \<Rightarrow> bool" where
  "content B d a \<longleftrightarrow>
     (\<exists>mm. tx_view B d (map out_entry (oa_queue a)) (\<lambda>i. map_option marshal_checkpoint (oa_cps a i)) mm
             (oa_seq a) \<and> meta_map (oa_queue a) mm)"

definition represents :: "'d bolt \<Rightarrow> 'd \<Rightarrow> outbox_abs \<Rightarrow> bool" where
  "represents B d a \<longleftrightarrow> settled B d \<and> abs_wf a \<and> content B d a"

end
