(* ===== verification/Go_Json_Text.thy ===== *)
theory Go_Json_Text
  imports Go_Json_Roundtrip
begin

text \<open>
  Facts about the text \<open>encoding/json\<close> writes: it is valid UTF-8, its length is bounded by the sizes of
  the values, and ASCII member names fold letter by letter.
\<close>

section \<open>Encoded JSON is UTF-8\<close>

lemma utf8_valid_concat: "(\<And>s. s \<in> set ss \<Longrightarrow> utf8_valid s) \<Longrightarrow> utf8_valid (concat ss)"
  by (induction ss) (simp_all add: utf8_valid_append)

lemma utf8_valid_rune: "0 < utf8_len s \<Longrightarrow> utf8_valid (take (utf8_len s) s)"
proof -
  assume p: "0 < utf8_len s"
  then have "utf8_len (take (utf8_len s) s) = utf8_len s"
    using utf8_len_take_append [of s "[]"] by simp
  with p show ?thesis
    using utf8_len_le_length [of s] by (subst utf8_valid_step) auto
qed

lemma utf8_runes_valid: "utf8_valid s \<Longrightarrow> r \<in> set (utf8_runes s) \<Longrightarrow> utf8_valid r"
proof (induction s rule: utf8_valid.induct)
  case (1 s)
  show ?case
  proof (cases "s = []")
    case False
    with 1 have p: "0 < utf8_len s" "utf8_valid (drop (utf8_len s) s)" by (simp_all add: utf8_valid_step)
    have "utf8_runes s = take (utf8_len s) s # utf8_runes (drop (utf8_len s) s)"
      using False p by (subst utf8_runes.simps) (simp add: max_def)
    then show ?thesis using 1 False p utf8_valid_rune by auto
  qed (use 1 in simp)
qed

lemma hex2_plain: "d \<in> set (hex2 (byte c)) \<Longrightarrow> byte c < 128 \<Longrightarrow> byte d < 128"
proof -
  assume d: "d \<in> set (hex2 (byte c))" and c: "byte c < 128"
  then have "byte c div 16 < 16" by linarith
  then have "is_lower_hex d" using d by (auto simp: hex2_def is_lower_hex_hex_digit)
  then show ?thesis by (auto simp: is_lower_hex_def is_digit_def)
qed

lemma esc_ascii_plain: "d \<in> set (esc_ascii c) \<Longrightarrow> byte c < 128 \<Longrightarrow> byte d < 128"
proof -
  assume d: "d \<in> set (esc_ascii c)" and c: "byte c < 128"
  have "d \<in> set (hex2 (byte c)) \<or> d = c \<or> d \<in> set [CHR 0x5C, CHR ''b'', CHR ''f'', CHR ''n'', CHR ''r'', CHR ''t'', CHR ''u'', CHR ''0'']"
    using d by (simp add: esc_ascii_def Let_def split: if_splits) argo+
  then show ?thesis using c hex2_plain by (auto simp: byte_def)
qed

lemma esc_rune_valid: "utf8_valid r \<Longrightarrow> utf8_valid (esc_rune r)"
proof (cases "\<exists>c. r = [c] \<and> byte c < 128")
  case True
  then show ?thesis by (auto simp: esc_rune_def intro!: utf8_valid_ascii dest: esc_ascii_plain)
next
  case False
  assume "utf8_valid r"
  with False show ?thesis
    by (auto simp: esc_rune_def byte_def split: list.split)
qed

lemma json_escape_valid: "utf8_valid s \<Longrightarrow> utf8_valid (json_escape s)"
  by (auto simp: json_escape_def esc_rune_valid utf8_runes_valid intro!: utf8_valid_concat)

lemma print_str_valid: "utf8_valid s \<Longrightarrow> utf8_valid (print_str s)"
  by (simp add: print_str_def byte_def utf8_valid_append json_escape_valid)

lemma join_comma_valid: "(\<And>s. s \<in> set ss \<Longrightarrow> utf8_valid s) \<Longrightarrow> utf8_valid (join_comma ss)"
  by (induction ss rule: join_comma.induct) (simp_all add: utf8_valid_append byte_def)

lemma utf8_valid_json_print: "json_ok j \<Longrightarrow> utf8_valid (json_print j)"
proof (induction j)
  case (JNum n)
  then show ?case by (auto simp: num_text_def intro: utf8_valid_ascii)
next
  case (JArr xs)
  then have "utf8_valid (join_comma (map json_print xs))"
    by (auto intro!: join_comma_valid simp: list_all_iff)
  then show ?case by (simp add: utf8_valid_append byte_def)
next
  case (JObj ms)
  have "utf8_valid (print_str k @ CHR '':'' # json_print v)" if "(k, v) \<in> set ms" for k v
    using JObj that by (force simp: list_all_iff utf8_valid_append print_str_valid byte_def)
  then have "utf8_valid (join_comma (map (\<lambda>(k, v). print_str k @ CHR '':'' # json_print v) ms))"
    by (auto intro!: join_comma_valid)
  then show ?case by (simp add: utf8_valid_append byte_def)
qed (simp_all add: byte_def print_str_valid)

section \<open>Sizes\<close>

lemma length_esc_rune: "length (esc_rune r) \<le> 6 * max 1 (length r)"
  by (auto simp: esc_rune_def esc_ascii_def hex2_def Let_def split: list.split)

lemma length_json_escape: "length (json_escape s) \<le> 6 * length s"
proof -
  have "length (concat (map esc_rune rs)) \<le> 6 * length (concat rs)" if "[] \<notin> set rs" for rs
    using that
  proof (induction rs)
    case (Cons r rs)
    then have "r \<noteq> []" by auto
    then have "length (esc_rune r) \<le> 6 * length r" using length_esc_rune [of r] by (cases r) auto
    with Cons show ?case by auto
  qed simp
  moreover have "[] \<notin> set (utf8_runes s)"
  proof (induction s rule: utf8_runes.induct)
    case (1 s)
    then show ?case by (cases "s = []") (auto simp: utf8_runes.simps [of s])
  qed
  ultimately have "length (concat (map esc_rune (utf8_runes s))) \<le> 6 * length (concat (utf8_runes s))" .
  then show ?thesis by (simp add: json_escape_def concat_utf8_runes)
qed

lemma length_print_str: "length (print_str s) \<le> 6 * length s + 2"
  using length_json_escape [of s] by (simp add: print_str_def)

lemma length_show_nat_le: "n < 10 ^ k \<Longrightarrow> 0 < k \<Longrightarrow> length (show_nat n) \<le> k"
proof (induction k arbitrary: n)
  case (Suc k)
  show ?case
  proof (cases "n < 10")
    case True
    then show ?thesis by (simp add: show_nat.simps)
  next
    case False
    then have k: "0 < k" using Suc.prems(1) by (cases k) auto
    have "n div 10 < 10 ^ k" using Suc.prems(1) by (simp add: less_mult_imp_div_less)
    from Suc.IH [OF this k] False show ?thesis by (simp add: show_nat.simps [of n])
  qed
qed simp

lemma length_juint: "length (json_print (juint w)) \<le> 20"
proof -
  have "unat w < 18446744073709551616" using unsigned_less [of w, where 'a = nat] by simp
  then have "unat w < 10 ^ 20" by simp
  then show ?thesis by (simp add: juint_def length_show_nat_le)
qed

lemma length_jint: "is_int64 i \<Longrightarrow> length (json_print (jint i)) \<le> 21"
proof -
  assume "is_int64 i"
  then have "nat i \<le> nat 9223372036854775808" "nat (- i) \<le> nat 9223372036854775808"
    by (intro nat_mono; simp add: is_int64_def min_int64_def max_int64_def)+
  then have "nat i < 10 ^ 20" "nat (- i) < 10 ^ 20" by simp_all
  then have "length (show_nat (nat i)) \<le> 20" "length (show_nat (nat (- i))) \<le> 20"
    by (simp_all add: length_show_nat_le)
  then show ?thesis by (simp add: jint_def show_int_def)
qed


text \<open>An upper bound of the length of a printed document.\<close>

fun print_bound :: "json \<Rightarrow> nat" where
  "print_bound JNull = 4"
| "print_bound (JBool b) = 5"
| "print_bound (JNum n) = length n"
| "print_bound (JStr s) = 6 * length s + 2"
| "print_bound (JArr xs) = 2 + sum_list (map (\<lambda>x. Suc (print_bound x)) xs)"
| "print_bound (JObj ms) = 2 + sum_list (map (\<lambda>(k, v). 6 * length k + 4 + print_bound v) ms)"

lemma length_json_print: "length (json_print j) \<le> print_bound j"
proof (induction j)
  case (JStr s)
  then show ?case using length_print_str by simp
next
  case (JArr xs)
  show ?case
  proof (cases "xs = []")
    case False
    have "sum_list (map (\<lambda>x. Suc (length (json_print x))) xs) \<le> sum_list (map (\<lambda>x. Suc (print_bound x)) xs)"
      using JArr by (intro sum_list_mono) simp
    then show ?thesis using False length_join_comma [of "map json_print xs"] by (simp add: comp_def)
  qed simp
next
  case (JObj ms)
  show ?case
  proof (cases "ms = []")
    case False
    have "sum_list (map (\<lambda>m. Suc (length (print_member m))) ms) \<le>
        sum_list (map (\<lambda>(k, v). 6 * length k + 4 + print_bound v) ms)"
    proof (rule sum_list_mono)
      fix m assume "m \<in> set ms"
      then have "length (json_print (snd m)) \<le> print_bound (snd m)" using JObj by (metis snds.intros surjective_pairing)
      then show "Suc (length (print_member m)) \<le> (case m of (k, v) \<Rightarrow> 6 * length k + 4 + print_bound v)"
        using length_print_str [of "fst m"] by (simp add: print_member_def case_prod_beta)
    qed
    then show ?thesis using False length_join_comma [of "map print_member ms"]
      by (simp add: json_print_JObj comp_def del: json_print.simps)
  qed simp
qed auto

section \<open>Member names\<close>

lemma fold_name_ascii:
  assumes "\<forall>c \<in> set s. byte c < 128"
  shows "fold_name s = map (\<lambda>c. if is_lower c then chr (byte c - 32) else c) s"
proof -
  have "utf8_runes s = map (\<lambda>c. [c]) s" using assms by (intro utf8_runes_ascii) simp
  moreover have "concat (map fold_rune (map (\<lambda>c. [c]) s)) = map (\<lambda>c. if is_lower c then chr (byte c - 32) else c) s"
    using assms by (induction s) (auto simp: fold_rune_def)
  ultimately show ?thesis by (simp add: fold_name_def)
qed

end
