(* ===== verification/Outbox_Codec.thy ===== *)
theory Outbox_Codec
  imports Outbox_Spec Go_Json_Text
begin

text \<open>
  The encodings of the outbox: records and checkpoints are read back from their JSON, sequence
  numbers order the queue's keys, the two identifier validators of the program agree, and every value
  written fits the limits of the database.
\<close>

section \<open>Keys\<close>

definition be_val :: "bytes \<Rightarrow> nat" where "be_val s = foldl (\<lambda>a c. a * 256 + byte c) 0 s"

lemma foldl_be: "foldl (\<lambda>a c. a * 256 + byte c) n s = n * 256 ^ length s + be_val s"
proof (induction s rule: rev_induct)
  case (snoc c s)
  then show ?case by (simp add: be_val_def algebra_simps)
qed (simp add: be_val_def)

lemma be_val_Cons: "be_val (c # s) = byte c * 256 ^ length s + be_val s"
  using foldl_be [of "byte c" s] by (simp add: be_val_def)

lemma be_val_bound: "be_val s < 256 ^ length s"
proof (induction s)
  case (Cons c s)
  have "byte c * 256 ^ length s + be_val s < (byte c + 1) * 256 ^ length s" using Cons by simp
  also have "\<dots> \<le> 256 * 256 ^ length s"
    using byte_less [of c] by (intro mult_le_mono1) linarith
  finally show ?case by (simp add: be_val_Cons)
qed (simp add: be_val_def)

lemma bytes_less_be_val: "length s = length t \<Longrightarrow> bytes_less s t \<longleftrightarrow> be_val s < be_val t"
proof (induction s t rule: list_induct2)
  case (Cons a s b t)
  have s: "be_val s < 256 ^ length t" and t: "be_val t < 256 ^ length t"
    using be_val_bound [of s] be_val_bound [of t] Cons.hyps by simp_all
  have step: "x * 256 ^ length t + be_val u < y * 256 ^ length t + be_val v"
    if "x < y" "be_val u < 256 ^ length t" for x y u v
  proof -
    have "x * 256 ^ length t + be_val u < (x + 1) * 256 ^ length t" using that(2) by simp
    also have "\<dots> \<le> y * 256 ^ length t" using that(1) by (intro mult_le_mono1) simp
    finally show ?thesis by simp
  qed
  show ?case
  proof (cases "byte a" "byte b" rule: linorder_cases)
    case less
    with step [OF less s, of t] Cons.hyps show ?thesis by (simp add: be_val_Cons)
  next
    case equal
    then show ?thesis using Cons by (simp add: be_val_Cons)
  next
    case greater
    then have "a \<noteq> b" by auto
    with greater step [OF greater t, of s] Cons.hyps show ?thesis by (simp add: be_val_Cons)
  qed
qed (simp add: be_val_def)

lemma be_val_be64: "be_val (be64 w) = unat w"
proof -
  have "of_nat (be_val (be64 w)) = w"
    using of_be64_be64 [of w] by (simp add: of_be64_def be_val_def)
  moreover have "be_val (be64 w) < 2 ^ 64" using be_val_bound [of "be64 w"] by simp
  moreover have "unat (of_nat n :: u64) = n" if "n < 2 ^ 64" for n
    using that by (simp add: unat_of_nat)
  ultimately have "unat (of_nat (be_val (be64 w)) :: u64) = be_val (be64 w)" by blast
  with \<open>of_nat (be_val (be64 w)) = w\<close> show ?thesis by simp
qed

lemma be64_less [simp]: "bytes_less (be64 a) (be64 b) \<longleftrightarrow> a < b"
  by (simp add: bytes_less_be_val be_val_be64 word_less_nat_alt)

section \<open>Identifiers and hashes\<close>

lemma valid_hash_eq: "valid_hash v = valid_lower_hex_hash v"
  by (simp add: valid_hash_def valid_lower_hex_hash_def)

lemma alert_id_invalid_bytes: "alert_id_invalid i \<longleftrightarrow> validate_alert_id i \<noteq> Inr ()"
proof -
  let ?P = "\<lambda>r. case r of [c] \<Rightarrow> id_char c | _ \<Rightarrow> False"
  have ic: "id_char c \<longleftrightarrow> is_lower c \<or> is_upper c \<or> is_digit c \<or> c = CHR ''.'' \<or> c = CHR ''_'' \<or>
      c = CHR '':'' \<or> c = CHR ''-''" for c
    by (auto simp: id_char_def)
  have "\<exists>c. r = [c] \<and> byte c < 128" if "?P r" for r
    using that id_char_ascii by (fastforce split: list.splits)
  note runes = utf8_runes_all_ascii [of ?P, OF this]
  have "list_ex (\<lambda>r. case r of
         [c] \<Rightarrow> \<not> (is_lower c \<or> is_upper c \<or> is_digit c \<or> c = CHR ''.'' \<or> c = CHR ''_'' \<or>
                   c = CHR '':'' \<or> c = CHR ''-'')
       | _ \<Rightarrow> True) (utf8_runes i) \<longleftrightarrow> \<not> (\<forall>r \<in> set (utf8_runes i). ?P r)"
    by (auto simp: list_ex_iff ic split: list.splits)
  also have "\<dots> \<longleftrightarrow> \<not> (\<forall>c \<in> set i. id_char c)" by (simp add: runes)
  finally show ?thesis
    by (auto simp: alert_id_invalid_def validate_alert_id_Inr Suc_le_eq)
qed

lemma valid_id_facts:
  assumes "\<not> alert_id_invalid i"
  shows "utf8_valid i" "i \<noteq> []" "length i \<le> 256" "plain_text i"
proof -
  have v: "validate_alert_id i = Inr ()" using assms by (simp add: alert_id_invalid_bytes)
  show "utf8_valid i" "i \<noteq> []" "length i \<le> 256"
    using v valid_alert_id_utf8 by (auto simp: validate_alert_id_Inr)
  have "32 \<le> byte c \<and> byte c < 128 \<and> byte c \<notin> {34, 38, 60, 62, 92}" if "id_char c" for c
    using that byte_id_punct [of c] by (auto simp: id_char_def is_lower_def is_upper_def is_digit_def)
  then show "plain_text i" using v by (simp add: validate_alert_id_Inr plain_text_def list_all_iff)
qed

lemma hash_facts:
  assumes "hash_ok h"
  shows "utf8_valid h" "length h \<le> 64"
  using assms lower_hex_utf8 by (auto simp: hash_ok_def valid_hash_eq valid_lower_hex_hash_bytes)

section \<open>Round trips\<close>

lemma outbox_names_plain [simp]:
  "plain_name ''sequence''" "plain_name ''record_key''" "plain_name ''payload''" "plain_name ''content_hash''"
  "plain_name ''created_at_unix_nano''" "plain_name ''list_marker''" "plain_name ''pending_hash''"
  "plain_name ''delivered_hash''" "plain_name ''last_fetched_at_unix_nano''"
  "plain_name ''last_seen_at_unix_nano''" "plain_name ''absent_since_unix_nano''"
  by (simp_all add: plain_name_def is_lower_def is_digit_def byte_def)

lemma un_record_json: "is_int64 (or_created_at r) \<Longrightarrow> un_record (record_json r) = Some r"
  by (simp add: un_record_def record_json_def un_field_Cons_skip un_field_hit un_field_Nil is_int64_def
      del: un_field.simps(2))

lemma json_ok_jbytes [simp]: "json_ok (jbytes s)"
  by (simp add: jbytes_def split: option.split)

lemma json_depth_jbytes [simp]: "json_depth (jbytes s) = 0"
  by (simp add: jbytes_def split: option.split)

theorem unmarshal_marshal_record:
  assumes "utf8_valid (or_alert_id r)" "utf8_valid (or_content_hash r)" "is_int64 (or_created_at r)"
  shows "unmarshal_record (marshal_record r) = Some r"
proof -
  have "json_ok (record_json r)" using assms by (simp add: record_json_def)
  moreover have "json_depth (record_json r) \<le> max_nesting"
    by (simp add: record_json_def max_nesting_def)
  ultimately show ?thesis
    using assms by (simp add: unmarshal_record_def marshal_record_def json_parse_print un_record_json)
qed

lemma un_checkpoint_json:
  assumes "is_int64 (cp_last_fetched_at c)" "is_int64 (cp_last_seen_at c)" "is_int64 (cp_absent_since c)"
  shows "un_checkpoint (checkpoint_json c) = Some c"
  using assms
  by (simp add: un_checkpoint_def checkpoint_json_def un_field_append un_field_Cons_skip un_field_skip
      un_field_hit un_field_str un_field_int un_field_Nil del: un_field.simps(2))

lemma members_ok_str [simp]: "plain_name name \<Longrightarrow> members_ok (str_member name s) = utf8_valid s"
  by (simp add: str_member_def)

lemma members_ok_int [simp]: "plain_name name \<Longrightarrow> members_ok (int_member name jint i)"
  by (simp add: int_member_def)

lemma simple_member_depth [simp]:
  "\<forall>m \<in> set (str_member name s). json_depth (snd m) = 0"
  "\<forall>m \<in> set (int_member name jint i). json_depth (snd m) = 0"
  by (simp_all add: str_member_def int_member_def)

theorem unmarshal_marshal_checkpoint:
  assumes "utf8_valid (cp_alert_id c)" "utf8_valid (cp_list_marker c)" "utf8_valid (cp_pending_hash c)"
    "utf8_valid (cp_delivered_hash c)" "is_int64 (cp_last_fetched_at c)" "is_int64 (cp_last_seen_at c)"
    "is_int64 (cp_absent_since c)"
  shows "unmarshal_checkpoint (marshal_checkpoint c) = Some c"
proof -
  have "json_ok (checkpoint_json c)" using assms by (simp add: checkpoint_json_def)
  moreover have "json_depth (checkpoint_json c) \<le> Suc 0"
    by (simp add: checkpoint_json_def json_depth_le ball_Un del: json_depth.simps(2))
  then have "json_depth (checkpoint_json c) \<le> max_nesting" by (simp add: max_nesting_def)
  ultimately show ?thesis
    using assms by (simp add: unmarshal_checkpoint_def marshal_checkpoint_def json_parse_print un_checkpoint_json)
qed

section \<open>Sizes\<close>

lemma length_name: "plain_name n \<Longrightarrow> length (print_str n) = length n + 2"
proof -
  assume "plain_name n"
  then have "plain_text n"
    by (auto simp: plain_name_def plain_text_def list_all_iff is_lower_def is_digit_def byte_def)
  then show ?thesis by (simp add: print_str_def json_escape_plain)
qed

lemma length_print_member:
  "plain_name n \<Longrightarrow> length (print_member (n, v)) = length n + 3 + length (json_print v)"
  by (simp add: print_member_def length_name)

text \<open>An object is as long as its members with a separator each, plus one.\<close>

definition members_length :: "(bytes \<times> json) list \<Rightarrow> nat" where
  "members_length ms = sum_list (map (\<lambda>m. Suc (length (print_member m))) ms)"

lemma members_length_simps [simp]:
  "members_length [] = 0"
  "plain_name n \<Longrightarrow> members_length ((n, v) # ms) = length n + 4 + length (json_print v) + members_length ms"
  "members_length (xs @ ys) = members_length xs + members_length ys"
  by (simp_all add: members_length_def length_print_member)

lemma length_print_obj: "length (json_print (JObj ms)) \<le> members_length ms + 2"
proof (cases "ms = []")
  case False
  then show ?thesis
    using length_join_comma [of "map print_member ms"]
    by (simp add: json_print_JObj members_length_def comp_def del: json_print.simps)
qed simp

lemma members_length_str:
  "plain_name n \<Longrightarrow> members_length (str_member n s) \<le> length n + 6 + 6 * length s"
  using length_print_str [of s] by (simp add: str_member_def)

lemma members_length_int:
  "plain_name n \<Longrightarrow> is_int64 i \<Longrightarrow> members_length (int_member n jint i) \<le> length n + 25"
  using length_jint [of i] by (simp add: int_member_def)

lemma stamp_int64: "stamp_ok t \<Longrightarrow> is_int64 t"
  by (simp add: stamp_ok_def is_int64_def min_int64_def)

lemma marshal_checkpoint_size:
  assumes "cp_wf i c"
  shows "length (marshal_checkpoint c) \<le> 500000000"
proof -
  have c: "cp_alert_id c = i" "\<not> alert_id_invalid i" "length (cp_list_marker c) \<le> 67108864"
    "length (cp_pending_hash c) \<le> 64" "length (cp_delivered_hash c) \<le> 64"
    "is_int64 (cp_last_fetched_at c)" "is_int64 (cp_last_seen_at c)" "is_int64 (cp_absent_since c)"
    using assms hash_facts by (auto simp: cp_wf_def marker_ok_def stamp_int64)
  note lens = length_print_str [of i] valid_id_facts(3) [OF c(2)]
    members_length_str [of "''list_marker''" "cp_list_marker c"]
    members_length_str [of "''pending_hash''" "cp_pending_hash c"]
    members_length_str [of "''delivered_hash''" "cp_delivered_hash c"]
    members_length_int [OF _ c(6), of "''last_fetched_at_unix_nano''"]
    members_length_int [OF _ c(7), of "''last_seen_at_unix_nano''"]
    members_length_int [OF _ c(8), of "''absent_since_unix_nano''"]
  show ?thesis
    unfolding marshal_checkpoint_def checkpoint_json_def
    by (rule order_trans [OF length_print_obj]) (use lens c in simp)
qed

lemma length_jbytes: "length (json_print (jbytes s)) \<le> 12 + 8 * length (slice_bytes s)"
proof (cases s)
  case (Some b)
  have "plain_text (b64_encode b)"
    using b64_encode_chars [of b] b64_alphabetD by (fastforce simp: plain_text_def list_all_iff)
  moreover have "(length b + 2) div 3 * 4 \<le> 8 + 4 * length b" by simp
  ultimately show ?thesis
    by (simp add: Some jbytes_def print_str_def json_escape_plain length_b64_encode)
qed (simp add: jbytes_def)

lemma rec_wf_facts:
  assumes "rec_wf r"
  shows "\<not> alert_id_invalid (or_alert_id r)" "valid_hash (or_content_hash r)"
    "length (slice_bytes (or_payload r)) \<le> max_event_bytes" "length (slice_bytes (or_record_key r)) = 64"
    "is_int64 (or_created_at r)" "or_sequence r \<noteq> 0" "unmarshal_record (marshal_record r) = Some r"
    "valid_stored_record r"
proof -
  show id: "\<not> alert_id_invalid (or_alert_id r)" and h: "valid_hash (or_content_hash r)"
    and "length (slice_bytes (or_payload r)) \<le> max_event_bytes" "length (slice_bytes (or_record_key r)) = 64"
    and i: "is_int64 (or_created_at r)" and "or_sequence r \<noteq> 0" "valid_stored_record r"
    using assms by (auto simp: rec_wf_def valid_stored_record_def Let_def)
  show "unmarshal_record (marshal_record r) = Some r"
    using valid_id_facts(1) [OF id] hash_facts(1) [of "or_content_hash r"] h i
    by (intro unmarshal_marshal_record) (simp_all add: hash_ok_def)
qed

lemma record_size_le:
  assumes "length (or_alert_id r) \<le> 256" "length (or_content_hash r) = 64" "is_int64 (or_created_at r)"
    and "length (slice_bytes (or_payload r)) \<le> max_event_bytes" "length (slice_bytes (or_record_key r)) = 64"
  shows "record_size r \<le> 3000000"
proof -
  note lens = length_juint [of "or_sequence r"] length_print_str [of "or_alert_id r"]
    length_jbytes [of "or_record_key r"] length_jbytes [of "or_payload r"]
    length_print_str [of "or_content_hash r"] length_jint [OF assms(3)]
  show ?thesis
    unfolding record_size_def marshal_record_def record_json_def
    by (intro order_trans [OF length_print_obj]) (use lens assms in \<open>simp add: max_event_bytes_def\<close>)
qed

lemma record_size_bound:
  assumes "rec_wf r"
  shows "record_size r \<le> 3000000"
  using rec_wf_facts [OF assms] valid_id_facts(3) by (intro record_size_le) (simp_all add: valid_hash_def)

lemma kv_valid_record: "rec_wf r \<Longrightarrow> kv_valid (be64 w) (marshal_record r)"
  using record_size_bound [of r] by (simp add: kv_valid_def record_size_def)

lemma kv_valid_checkpoint: "cp_wf i c \<Longrightarrow> kv_valid i (marshal_checkpoint c)"
  using marshal_checkpoint_size [of i c] valid_id_facts [of i] by (simp add: kv_valid_def cp_wf_def)

lemma cp_wf_unmarshal: "cp_wf i c \<Longrightarrow> unmarshal_checkpoint (marshal_checkpoint c) = Some c"
  using valid_id_facts(1) [of i] hash_facts(1)
  by (intro unmarshal_marshal_checkpoint) (auto simp: cp_wf_def marker_ok_def stamp_int64)

end
