(* ===== verification/Outbox_Inv.thy ===== *)
theory Outbox_Inv
  imports Outbox_Codec
begin

text \<open>
  The invariant of the abstract outbox, \<open>abs_wf\<close>, is kept by every operation: queued records are valid
  and strictly ordered, every one of them has a checkpoint, a checkpoint's pending hash is the hash
  of the alert's newest queued record, and the sizes stay within the integers' range. The side
  conditions are what the callers provide: valid events, a clock after 1970, acknowledgements of an
  alert in order.
\<close>

section \<open>Inputs\<close>

text \<open>What the caller must provide: a valid stored event and sane times.\<close>

definition event_ok :: "encoded_event \<Rightarrow> bool" where
  "event_ok ee \<longleftrightarrow>
     validate_stored_event (ee_event ee) = Inr () \<and> unmarshal_event (ee_payload ee) = Some (ee_event ee) \<and>
     marshal_event (ee_event ee) = ee_payload ee \<and> length (ee_payload ee) \<le> max_event_bytes \<and>
     ee_payload ee \<noteq> [] \<and> ee_content_hash ee = ev_content_hash (ee_event ee) \<and>
     ee_record_key ee = event_record_key (ev_source_instance (ee_event ee)) (ev_alert_id (ee_event ee))"

definition clock_ok :: "go_time \<Rightarrow> bool" where "clock_ok t \<longleftrightarrow> 0 < t \<and> t \<le> max_int64"

definition options_sane :: "store_options \<Rightarrow> bool" where
  "options_sane opts \<longleftrightarrow> opt_max_bytes opts \<le> int size_limit \<and> opt_max_events opts \<le> int size_limit"

lemma clock_unix [simp]: "clock_ok t \<Longrightarrow> unix_nano t = t"
  by (simp add: clock_ok_def unix_nano_def min_int64_def)

lemma new_record_wf:
  assumes e: "event_ok ee" and c: "clock_ok now" and s: "sequence \<noteq> 0"
  shows "rec_wf (new_record ee now sequence)"
proof -
  have v: "validate_stored_event (ee_event ee) = Inr ()" using e by (simp add: event_ok_def)
  have id: "\<not> alert_id_invalid (ev_alert_id (ee_event ee))"
    using v by (simp add: alert_id_invalid_bytes validate_stored_event_def)
  have vh: "valid_hash (ee_content_hash ee)" "valid_hash (ee_record_key ee)"
    "ev_content_hash (ee_event ee) = sha256_hex (marshal_alert (ev_alert (ee_event ee)))"
    using v e by (simp_all add: event_ok_def validate_stored_event_def valid_hash_eq event_record_key_def)
  have "valid_stored_record (new_record ee now sequence)"
    using e c s id vh v unfolding valid_stored_record_def new_record_def Let_def
    by (simp add: event_ok_def clock_ok_def event_record_key_def validate_stored_event_def valid_hash_def)
  moreover have "is_int64 now" using c by (simp add: clock_ok_def is_int64_def min_int64_def)
  ultimately show ?thesis by (simp add: rec_wf_def new_record_def)
qed

lemma seq_room:
  assumes "unat n < 18446744073709551615"
  shows "n < n + 1" "n + 1 \<noteq> (0 :: u64)"
proof -
  have u: "unat (n + 1) = unat n + 1"
    using assms by (simp add: unat_word_ariths)
  show "n < n + 1" by (simp add: word_less_nat_alt u)
  show "n + 1 \<noteq> 0" using u by (metis add_is_0 one_neq_zero unat_0)
qed

lemma abs_wf_cp: "abs_wf a \<Longrightarrow> oa_cps a i = Some c \<Longrightarrow> cp_wf i c \<and> cp_pending_hash c = newest_hash i (oa_queue a)"
  by (simp add: abs_wf_def)

lemma abs_wf_rec: "abs_wf a \<Longrightarrow> r \<in> set (oa_queue a) \<Longrightarrow>
    rec_wf r \<and> or_sequence r \<le> oa_seq a \<and> oa_cps a (or_alert_id r) \<noteq> None"
  by (simp add: abs_wf_def)

section \<open>The newest record of an alert\<close>

lemma newest_of_append:
  "newest_of i (q @ [r]) = (if or_alert_id r = i then Some r else newest_of i q)"
  by (simp add: newest_of_def Let_def)

lemma newest_hash_append:
  "newest_hash i (q @ [r]) = (if or_alert_id r = i then or_content_hash r else newest_hash i q)"
  by (simp add: newest_hash_def newest_of_append)

lemma newest_of_None: "newest_of i q = None \<longleftrightarrow> (\<forall>r \<in> set q. or_alert_id r \<noteq> i)"
  by (simp add: newest_of_def filter_empty_conv Let_def)

lemma newest_of_in: "newest_of i q = Some r \<Longrightarrow> r \<in> set q \<and> or_alert_id r = i"
proof -
  let ?f = "filter (\<lambda>r. or_alert_id r = i) q"
  assume "newest_of i q = Some r"
  then have "?f \<noteq> []" "r = last ?f" by (simp_all add: newest_of_def Let_def split: if_splits)
  then have "r \<in> set ?f" using last_in_set by blast
  then show ?thesis by (simp only: set_filter mem_Collect_eq)
qed

lemma newest_of_remove:
  assumes "newest_of i q \<noteq> Some r" "r \<in> set q" "distinct (map or_sequence q)"
  shows "newest_of i (remove_seq (or_sequence r) q) = newest_of i q"
  using assms
proof (induction q rule: rev_induct)
  case (snoc x q)
  show ?case
  proof (cases "x = r")
    case True
    then have "or_alert_id r \<noteq> i" using snoc.prems(1) by (auto simp: newest_of_append)
    moreover have "remove_seq (or_sequence r) q = q"
      unfolding remove_seq_def using snoc.prems(3) True by (intro filter_id_iff) (auto simp: image_iff)
    ultimately show ?thesis using True by (simp add: remove_seq_def newest_of_append)
  next
    case False
    then have "r \<in> set q" using snoc.prems(2) by simp
    then have "or_sequence x \<noteq> or_sequence r" using snoc.prems(3) by (auto simp: image_iff)
    then have rem: "remove_seq (or_sequence r) (q @ [x]) = remove_seq (or_sequence r) q @ [x]"
      by (simp add: remove_seq_def)
    show ?thesis
    proof (cases "or_alert_id x = i")
      case False
      then have "newest_of i (remove_seq (or_sequence r) q) = newest_of i q"
        using snoc \<open>r \<in> set q\<close> by (simp add: newest_of_append)
      with False show ?thesis by (simp add: rem newest_of_append)
    qed (simp add: rem newest_of_append)
  qed
qed simp

lemma abs_wf_distinct: "abs_wf a \<Longrightarrow> distinct (map or_sequence (oa_queue a))"
proof -
  assume "abs_wf a"
  then have "sorted_wrt (\<lambda>r s. or_sequence r < or_sequence s) (oa_queue a)" by (simp add: abs_wf_def)
  moreover have "distinct (map or_sequence q)"
    if "sorted_wrt (\<lambda>r s. or_sequence r < or_sequence s) q" for q :: "outbox_record list"
    using that by (induction q) auto
  ultimately show ?thesis by blast
qed

section \<open>Preservation\<close>

lemma cp_of_facts:
  assumes "abs_wf a" "\<not> alert_id_invalid i"
  shows "cp_wf i (cp_of a i)" "cp_pending_hash (cp_of a i) = newest_hash i (oa_queue a)"
proof -
  have "newest_of i (oa_queue a) = None" if "oa_cps a i = None"
    using assms(1) that by (auto simp: newest_of_None abs_wf_def)
  then show "cp_pending_hash (cp_of a i) = newest_hash i (oa_queue a)"
    using assms(1) by (auto simp: cp_of_def abs_wf_def zero_checkpoint_def newest_hash_def split: option.split)
  show "cp_wf i (cp_of a i)"
  proof (cases "oa_cps a i")
    case None
    then show ?thesis
      using assms(2) by (simp add: cp_of_def zero_checkpoint_def cp_wf_def marker_ok_def hash_ok_def
          stamp_ok_def max_int64_def)
  next
    case (Some c)
    then show ?thesis using abs_wf_cp [OF assms(1)] by (simp add: cp_of_def)
  qed
qed

text \<open>Replacing one checkpoint by a well-formed one with the right pending hash.\<close>

lemma abs_wf_update_cp:
  assumes "abs_wf a" "cp_wf i c" "cp_pending_hash c = newest_hash i (oa_queue a)"
  shows "abs_wf (a\<lparr>oa_cps := (oa_cps a)(i \<mapsto> c)\<rparr>)"
  using assms by (auto simp: abs_wf_def)

lemma seen_cp_wf:
  "cp_wf i c \<Longrightarrow> marker_ok m \<Longrightarrow> clock_ok now \<Longrightarrow>
     cp_wf i (seen_cp m now c) \<and> cp_wf i ((seen_cp m now c)\<lparr>cp_last_fetched_at := now\<rparr>)"
  by (simp add: cp_wf_def seen_cp_def clock_ok_def stamp_ok_def max_int64_def)

lemma total_bytes_append [simp]: "total_bytes (q @ [r]) = total_bytes q + record_size r"
  by (simp add: total_bytes_def)

theorem spec_enqueue_wf:
  assumes w: "abs_wf a" and e: "event_ok ee" and m: "marker_ok marker" and c: "clock_ok now"
    and o: "options_sane opts" and s: "unat (oa_seq a) < 18446744073709551615"
    and r: "spec_enqueue opts ee marker now a = Inr (a', ins)"
  shows "abs_wf a'"
proof -
  let ?i = "ev_alert_id (ee_event ee)"
  let ?c = "(seen_cp marker now (cp_of a ?i))\<lparr>cp_last_fetched_at := now\<rparr>"
  let ?r = "new_record ee now (oa_seq a + 1)"
  have id: "\<not> alert_id_invalid ?i"
    using e by (simp add: event_ok_def alert_id_invalid_bytes validate_stored_event_def)
  note cf = cp_of_facts [OF w id]
  have cw: "cp_wf ?i ?c" and cp: "cp_pending_hash ?c = newest_hash ?i (oa_queue a)"
    using seen_cp_wf [OF cf(1) m c] cf(2) by (simp_all add: seen_cp_def)
  show ?thesis
  proof (cases "known_content ?c (ee_content_hash ee)")
    case True
    with r have "a' = a\<lparr>oa_cps := (oa_cps a)(?i \<mapsto> ?c)\<rparr>"
      by (simp add: spec_enqueue_def Let_def split: if_splits)
    then show ?thesis using abs_wf_update_cp [OF w cw cp] by simp
  next
    case False
    with r have a': "a' = a\<lparr>oa_queue := oa_queue a @ [?r],
          oa_cps := (oa_cps a)(?i \<mapsto> ?c\<lparr>cp_pending_hash := ee_content_hash ee\<rparr>), oa_seq := oa_seq a + 1\<rparr>"
      and room: "int (length (oa_queue a)) < opt_max_events opts"
        "int (total_bytes (oa_queue a) + record_size ?r) \<le> opt_max_bytes opts"
      by (simp_all add: spec_enqueue_def Let_def split: if_splits)
    note sq = seq_room [OF s]
    have rw: "rec_wf ?r" using new_record_wf [OF e c sq(2)] .
    have hw: "cp_wf ?i (?c\<lparr>cp_pending_hash := ee_content_hash ee\<rparr>)"
      using cw rec_wf_facts(2) [OF rw] by (simp add: cp_wf_def hash_ok_def new_record_def)
    have le: "or_sequence x \<le> oa_seq a" if "x \<in> set (oa_queue a)" for x using w that by (simp add: abs_wf_def)
    have "or_sequence ?r = oa_seq a + 1" "or_alert_id ?r = ?i" "or_content_hash ?r = ee_content_hash ee"
      by (simp_all add: new_record_def)
    with w room o le sq(1) rw hw show ?thesis
      unfolding abs_wf_def a' options_sane_def
      by (auto simp: sorted_wrt_append newest_hash_append intro: order_trans less_imp_le le_less_trans)
  qed
qed

theorem spec_mark_seen_wf:
  assumes w: "abs_wf a" and i: "\<not> alert_id_invalid i" and m: "marker_ok marker" and c: "clock_ok now"
    and r: "spec_mark_seen opts i marker now a = Inr a'"
  shows "abs_wf a'"
proof -
  note cf = cp_of_facts [OF w i]
  have "abs_wf (a\<lparr>oa_cps := (oa_cps a)(i \<mapsto> seen_cp marker now (cp_of a i))\<rparr>)"
    using seen_cp_wf [OF cf(1) m c] cf(2) by (intro abs_wf_update_cp [OF w]) (simp_all add: seen_cp_def)
  with r show ?thesis by (simp add: spec_mark_seen_def split: if_splits)
qed

text \<open>No older record of the same alert is queued.\<close>

definition oldest_of_alert :: "u64 \<Rightarrow> outbox_record list \<Rightarrow> bool" where
  "oldest_of_alert s q \<longleftrightarrow>
     (\<forall>r \<in> set q. \<forall>x \<in> set q. or_sequence r = s \<longrightarrow> or_alert_id x = or_alert_id r \<longrightarrow> s \<le> or_sequence x)"

lemma newest_of_greatest:
  "sorted_wrt (\<lambda>r s. or_sequence r < or_sequence s) q \<Longrightarrow> newest_of i q = Some r \<Longrightarrow> x \<in> set q \<Longrightarrow>
     or_alert_id x = i \<Longrightarrow> or_sequence x \<le> or_sequence r"
proof (induction q rule: rev_induct)
  case (snoc y q)
  then show ?case
    by (auto simp: newest_of_append sorted_wrt_append dest: newest_of_in split: if_splits)
qed simp

lemma remove_seq_set: "set (remove_seq s q) = {r \<in> set q. or_sequence r \<noteq> s}"
  by (auto simp: remove_seq_def)

lemma total_bytes_remove: "total_bytes (remove_seq s q) \<le> total_bytes q"
  by (induction q) (auto simp: total_bytes_def remove_seq_def)

theorem spec_acknowledge_wf:
  assumes w: "abs_wf a" and old: "oldest_of_alert s (oa_queue a)"
  shows "abs_wf (spec_acknowledge s a)"
proof (cases "find (\<lambda>r. or_sequence r = s) (oa_queue a)")
  case None
  with w show ?thesis by (simp add: spec_acknowledge_def)
next
  case (Some r)
  let ?i = "or_alert_id r" and ?q = "oa_queue a"
  from Some have r: "r \<in> set ?q" "or_sequence r = s" by (auto simp: find_Some_iff)
  have sorted: "sorted_wrt (\<lambda>r s. or_sequence r < or_sequence s) ?q" using w by (simp add: abs_wf_def)
  note dist = abs_wf_distinct [OF w]
  note rw = abs_wf_rec [OF w r(1)]
  have id: "\<not> alert_id_invalid ?i" using rw rec_wf_facts(1) by blast
  note cf = cp_of_facts [OF w id]
  have cw: "cp_wf ?i (acked_cp r ?q (cp_of a ?i))"
    using cf(1) rec_wf_facts(2) [of r] rw by (auto simp: acked_cp_def cp_wf_def hash_ok_def Let_def)
  have pend: "cp_pending_hash (acked_cp r ?q (cp_of a ?i)) = newest_hash ?i (remove_seq s ?q)"
  proof (cases "newest_of ?i ?q = Some r")
    case True
    have "or_alert_id x \<noteq> ?i" if "x \<in> set (remove_seq s ?q)" for x
    proof
      assume x: "or_alert_id x = ?i"
      from that have "x \<in> set ?q" "or_sequence x \<noteq> s" by (auto simp: remove_seq_set)
      moreover have "or_sequence x \<le> s" using newest_of_greatest [OF sorted True \<open>x \<in> set ?q\<close> x] r(2) by simp
      moreover have "s \<le> or_sequence x"
        using old r x \<open>x \<in> set ?q\<close> unfolding oldest_of_alert_def by blast
      ultimately show False by simp
    qed
    then have "newest_of ?i (remove_seq s ?q) = None" by (simp add: newest_of_None)
    then show ?thesis using True by (simp add: acked_cp_def newest_hash_def Let_def)
  next
    case False
    then have "newest_of ?i (remove_seq s ?q) = newest_of ?i ?q"
      using newest_of_remove [OF False r(1) dist] r(2) by simp
    then show ?thesis using False cf(2) by (simp add: acked_cp_def newest_hash_def Let_def)
  qed
  have other: "newest_hash j (remove_seq s ?q) = newest_hash j ?q" if "j \<noteq> ?i" for j
  proof -
    have "newest_of j ?q \<noteq> Some r" using that newest_of_in by blast
    then show ?thesis using newest_of_remove [OF _ r(1) dist] r(2) by (simp add: newest_hash_def)
  qed
  have sz: "length (remove_seq s ?q) \<le> size_limit" "total_bytes (remove_seq s ?q) \<le> size_limit"
    using w total_bytes_remove [of s ?q] length_filter_le [of "\<lambda>r. or_sequence r \<noteq> s" ?q]
    unfolding abs_wf_def remove_seq_def by linarith+
  have "spec_acknowledge s a = a\<lparr>oa_queue := remove_seq s ?q,
      oa_cps := (oa_cps a)(?i \<mapsto> acked_cp r ?q (cp_of a ?i))\<rparr>"
    by (simp add: spec_acknowledge_def Some Let_def)
  then show ?thesis
    using w cw pend other sz sorted unfolding abs_wf_def
    by (auto simp: remove_seq_set sorted_wrt_filter remove_seq_def)
qed

theorem spec_reconcile_wf:
  assumes w: "abs_wf a" and c: "clock_ok now"
  shows "abs_wf (spec_reconcile opts listed now a)"
proof -
  let ?a = "spec_reconcile opts listed now a"
  have keep: "cp_wf i c' \<and> cp_pending_hash c' = newest_hash i (oa_queue a)" if "oa_cps ?a i = Some c'" for i c'
  proof -
    from that obtain c0 where c0: "oa_cps a i = Some c0" "c' = c0 \<or> c' = absent_cp now c0"
      by (auto simp: spec_reconcile_def Let_def split: option.splits if_splits)
    have "cp_wf i c0 \<and> cp_pending_hash c0 = newest_hash i (oa_queue a)" using abs_wf_cp [OF w c0(1)] .
    then show ?thesis using c0(2) c
      by (auto simp: absent_cp_def cp_wf_def clock_ok_def stamp_ok_def)
  qed
  have stay: "oa_cps ?a (or_alert_id r) \<noteq> None" if "r \<in> set (oa_queue a)" for r
  proof -
    from w that obtain c0 where c0: "oa_cps a (or_alert_id r) = Some c0" "rec_wf r"
      by (auto simp: abs_wf_def)
    have "newest_of (or_alert_id r) (oa_queue a) \<noteq> None" using that by (auto simp: newest_of_None)
    then obtain x where x: "newest_of (or_alert_id r) (oa_queue a) = Some x" by auto
    then have "rec_wf x" using w newest_of_in by (auto simp: abs_wf_def)
    then have "length (or_content_hash x) = 64" using rec_wf_facts(2) [of x] by (simp add: valid_hash_def)
    then have "or_content_hash x \<noteq> []" by auto
    then have "cp_pending_hash c0 \<noteq> []" using abs_wf_cp [OF w c0(1)] x by (simp add: newest_hash_def)
    then show ?thesis by (auto simp: spec_reconcile_def c0 expired_def absent_cp_def Let_def)
  qed
  have "dom (oa_cps ?a) \<subseteq> dom (oa_cps a)"
    by (auto simp: spec_reconcile_def dom_def split: option.splits)
  then have "finite (dom (oa_cps ?a))" using w by (auto simp: abs_wf_def intro: finite_subset)
  moreover have "oa_queue ?a = oa_queue a" "oa_seq ?a = oa_seq a" by (simp_all add: spec_reconcile_def)
  ultimately show ?thesis using w keep stay unfolding abs_wf_def by auto
qed

lemma empty_abs_wf [simp]: "abs_wf empty_abs"
  by (simp add: abs_wf_def empty_abs_def total_bytes_def)

end
