(* ===== verification/Outbox_Refine.thy ===== *)
theory Outbox_Refine
  imports Outbox_Inv
begin

text \<open>
  The outbox implements its specification: on a database that represents an abstract state, every
  operation of \<open>Outbox\<close> either fails as the specification says and leaves the database as it is, or
  fails to commit and leaves it as it is, or commits a database that represents the specified state.
\<close>

section \<open>The transaction's view\<close>

lemma buckets_distinct [simp]:
  "bucket_meta \<noteq> bucket_outbox" "bucket_meta \<noteq> bucket_checkpoints" "bucket_outbox \<noteq> bucket_meta"
  "bucket_outbox \<noteq> bucket_checkpoints" "bucket_checkpoints \<noteq> bucket_meta" "bucket_checkpoints \<noteq> bucket_outbox"
  "bucket_meta \<noteq> []" "bucket_outbox \<noteq> []" "bucket_checkpoints \<noteq> []"
  by (simp_all add: bucket_meta_def bucket_outbox_def bucket_checkpoints_def)

lemma meta_keys_distinct [simp]:
  "key_schema_version \<noteq> key_event_count" "key_schema_version \<noteq> key_event_bytes"
  "key_event_count \<noteq> key_schema_version" "key_event_count \<noteq> key_event_bytes"
  "key_event_bytes \<noteq> key_schema_version" "key_event_bytes \<noteq> key_event_count"
  by (simp_all add: key_schema_version_def key_event_count_def key_event_bytes_def)

lemma kv_valid_meta [simp]:
  "kv_valid key_event_count (be64 w)" "kv_valid key_event_bytes (be64 w)"
  "kv_valid key_schema_version current_schema"
  by (simp_all add: kv_valid_def key_schema_version_def key_event_count_def key_event_bytes_def current_schema_def)

lemma tx_viewD:
  assumes "bolt_ok B" "tx_view B d es cm mm n"
  shows "bentries B d bucket_outbox = es" "bget B d bucket_outbox k = map_of es k"
    "bget B d bucket_checkpoints k = cm k" "bget B d bucket_meta k = mm k" "bseq B d bucket_outbox = n"
    "has_bucket B d bucket_meta" "has_bucket B d bucket_outbox" "has_bucket B d bucket_checkpoints"
    "length (bentries B d bucket_checkpoints) = card (dom cm)"
    "kv_sorted es"
proof -
  show "length (bentries B d bucket_checkpoints) = card (dom cm)"
    using assms bolt_distinct [OF assms(1), of d bucket_checkpoints]
    unfolding tx_view_def by (metis distinct_card dom_map_of_conv_image_fst length_map list.set_map)
  show "kv_sorted es" using assms bolt_sorted [OF assms(1), of d bucket_outbox] by (simp add: tx_view_def)
qed (use assms in \<open>simp_all add: tx_view_def bolt_get required_buckets_def\<close>)

lemma tx_put_outbox:
  assumes B: "bolt_ok B" and v: "tx_view B d es cm mm n" and kv: "kv_valid k x"
  obtains d' where "putE B bucket_outbox k x d = Inr d'" "tx_view B d' (kv_put k x es) cm mm n"
proof -
  obtain d' where d: "putE B bucket_outbox k x d = Inr d'" "same_but B bucket_outbox d d'"
    "bentries B d' bucket_outbox = kv_put k x (bentries B d bucket_outbox)"
    using bolt_put [OF B tx_viewD(7) [OF B v] kv] by blast
  have "tx_view B d' (kv_put k x es) cm mm n"
    using v d(3) same_butD [OF d(2)] by (simp add: tx_view_def)
  with d(1) show ?thesis by (rule that)
qed

lemma tx_put_cp:
  assumes B: "bolt_ok B" and v: "tx_view B d es cm mm n" and kv: "kv_valid k x"
  obtains d' where "putE B bucket_checkpoints k x d = Inr d'" "tx_view B d' es (cm(k \<mapsto> x)) mm n"
proof -
  obtain d' where d: "putE B bucket_checkpoints k x d = Inr d'" "same_but B bucket_checkpoints d d'"
    "bentries B d' bucket_checkpoints = kv_put k x (bentries B d bucket_checkpoints)"
    using bolt_put [OF B tx_viewD(8) [OF B v] kv] by blast
  have "tx_view B d' es (cm(k \<mapsto> x)) mm n"
    using v d(3) same_butD [OF d(2)] by (simp add: tx_view_def map_of_kv_put bolt_sorted [OF B])
  with d(1) show ?thesis by (rule that)
qed

lemma tx_put_meta:
  assumes B: "bolt_ok B" and v: "tx_view B d es cm mm n" and kv: "kv_valid k x"
  obtains d' where "putE B bucket_meta k x d = Inr d'" "tx_view B d' es cm (mm(k \<mapsto> x)) n"
proof -
  obtain d' where d: "putE B bucket_meta k x d = Inr d'" "same_but B bucket_meta d d'"
    "bentries B d' bucket_meta = kv_put k x (bentries B d bucket_meta)"
    using bolt_put [OF B tx_viewD(6) [OF B v] kv] by blast
  have "tx_view B d' es cm (mm(k \<mapsto> x)) n"
    using v d(3) same_butD [OF d(2)] by (simp add: tx_view_def map_of_kv_put bolt_sorted [OF B])
  with d(1) show ?thesis by (rule that)
qed

lemma tx_delete_outbox:
  assumes B: "bolt_ok B" and v: "tx_view B d es cm mm n"
  obtains d' where "deleteE B bucket_outbox k d = Inr d'" "tx_view B d' (kv_delete k es) cm mm n"
proof -
  obtain d' where d: "deleteE B bucket_outbox k d = Inr d'" "same_but B bucket_outbox d d'"
    "bentries B d' bucket_outbox = kv_delete k (bentries B d bucket_outbox)"
    using bolt_delete [OF B tx_viewD(7) [OF B v]] by blast
  have "tx_view B d' (kv_delete k es) cm mm n"
    using v d(3) same_butD [OF d(2)] by (simp add: tx_view_def)
  with d(1) show ?thesis by (rule that)
qed

lemma tx_delete_cp:
  assumes B: "bolt_ok B" and v: "tx_view B d es cm mm n"
  obtains d' where "deleteE B bucket_checkpoints k d = Inr d'" "tx_view B d' es (cm(k := None)) mm n"
proof -
  obtain d' where d: "deleteE B bucket_checkpoints k d = Inr d'" "same_but B bucket_checkpoints d d'"
    "bentries B d' bucket_checkpoints = kv_delete k (bentries B d bucket_checkpoints)"
    using bolt_delete [OF B tx_viewD(8) [OF B v]] by blast
  have "tx_view B d' es (cm(k := None)) mm n"
    using v d(3) same_butD [OF d(2)] by (simp add: tx_view_def map_of_kv_delete)
  with d(1) show ?thesis by (rule that)
qed

lemma tx_next_seq:
  assumes B: "bolt_ok B" and v: "tx_view B d es cm mm n"
  obtains d' where "next_seqE B bucket_outbox d = Inr (d', n + 1)" "tx_view B d' es cm mm (n + 1)"
proof -
  obtain d' where "next_seqE B bucket_outbox d = Inr (d', bseq B d bucket_outbox + 1)"
    "\<And>b'. has_bucket B d' b' = has_bucket B d b'" "\<And>b'. bentries B d' b' = bentries B d b'"
    "\<And>b'. bseq B d' b' = (if b' = bucket_outbox then bseq B d bucket_outbox + 1 else bseq B d b')"
    using bolt_seq [OF B tx_viewD(7) [OF B v]] by blast
  then show ?thesis using v by (intro that [of d']) (simp_all add: tx_view_def)
qed

lemma tx_commit:
  assumes "bolt_ok B" "tx_view B d es cm mm n" "commit B d = Some d'"
  shows "tx_view B d' es cm mm n" "settled B d'"
  using assms bolt_commit [OF assms(1,3)] by (simp_all add: tx_view_def)

section \<open>What a transaction reads\<close>

lemma represents_view:
  assumes "represents B d a"
  obtains mm where "settled B d" "abs_wf a" "meta_map (oa_queue a) mm"
    "tx_view B d (map out_entry (oa_queue a)) (\<lambda>i. map_option marshal_checkpoint (oa_cps a i)) mm (oa_seq a)"
  using assms by (auto simp: represents_def content_def)

lemma map_of_out_entries:
  assumes "abs_wf a"
  shows "map_of (map out_entry (oa_queue a)) (be64 s) =
           map_option marshal_record (find (\<lambda>r. or_sequence r = s) (oa_queue a))"
proof -
  have "map_of (map out_entry q) (be64 s) = map_option marshal_record (find (\<lambda>r. or_sequence r = s) q)" for q
    by (induction q) (auto simp: out_entry_def)
  then show ?thesis .
qed

lemma read_checkpoint_view:
  assumes "abs_wf a"
  shows "read_checkpoint (map_option marshal_checkpoint (oa_cps a i)) =
           Inr (case oa_cps a i of None \<Rightarrow> zero_checkpoint | Some c \<Rightarrow> c)"
proof (cases "oa_cps a i")
  case (Some c)
  then have "unmarshal_checkpoint (marshal_checkpoint c) = Some c"
    using abs_wf_cp [OF assms] cp_wf_unmarshal by blast
  then show ?thesis by (simp add: Some read_checkpoint_def)
qed (simp add: read_checkpoint_def)

lemma with_identity_view:
  assumes B: "bolt_ok B" and s: "settled B d" and w: "abs_wf a" and i: "\<not> alert_id_invalid i"
    and v: "tx_view B d es (\<lambda>i. map_option marshal_checkpoint (oa_cps a i)) mm n"
  shows "with_identity B opts i (case oa_cps a i of None \<Rightarrow> zero_checkpoint | Some c \<Rightarrow> c) d =
           (if room_for opts i a then Inr (cp_of a i) else Inl full_error)"
proof -
  have "key_n B d bucket_checkpoints = card (dom (oa_cps a))"
    using s tx_viewD(8,9) [OF B v] by (simp add: settled_def dom_map_option)
  moreover have "cp_alert_id c = i" if "oa_cps a i = Some c" for c
    using abs_wf_cp [OF w that] by (simp add: cp_wf_def)
  ultimately show ?thesis
    using valid_id_facts(2) [OF i]
    by (auto simp: with_identity_def room_for_def cp_of_def zero_checkpoint_def split: option.split)
qed

text \<open>How a transaction's result reaches the caller.\<close>

definition commit_fails :: "'d bolt \<Rightarrow> bool" where
  "commit_fails B \<longleftrightarrow> (\<exists>d. commit B d = None)"

lemma update_tx_refines:
  assumes "bolt_ok B" "f d = Inr (d1, x)"
    and "tx_view B d1 (map out_entry (oa_queue a')) (\<lambda>i. map_option marshal_checkpoint (oa_cps a' i)) mm (oa_seq a')"
    and "meta_map (oa_queue a') mm" "abs_wf a'"
  shows "(\<exists>d'. update_tx B z f d = (d', x, None) \<and> represents B d' a') \<or>
         commit_fails B \<and> update_tx B z f d = (d, x, Some commit_error)"
proof (cases "commit B d1")
  case None
  then show ?thesis by (auto simp: update_tx_def assms(2) commit_fails_def)
next
  case (Some d')
  have "represents B d' a'"
    using tx_commit [OF assms(1,3) Some] assms(4,5) by (auto simp: represents_def content_def)
  with Some show ?thesis by (simp add: update_tx_def assms(2))
qed

lemma meta_reads:
  assumes "abs_wf a" "meta_map (oa_queue a) mm"
  shows "read_u64 (mm key_event_count) = of_nat (length (oa_queue a))"
    "read_u64 (mm key_event_bytes) = of_nat (total_bytes (oa_queue a))"
    "sint (of_nat (length (oa_queue a)) :: u64) = int (length (oa_queue a))"
    "sint (of_nat (total_bytes (oa_queue a)) :: u64) = int (total_bytes (oa_queue a))"
proof -
  show "read_u64 (mm key_event_count) = of_nat (length (oa_queue a))"
    "read_u64 (mm key_event_bytes) = of_nat (total_bytes (oa_queue a))"
    using assms(2) by (simp_all add: meta_map_def read_u64_def)
  have s: "sint (of_nat k :: u64) = int k" if "k \<le> size_limit" for k
  proof -
    have "int k < 9223372036854775808" using that by (simp add: size_limit_def)
    then show ?thesis by (simp add: signed_of_nat signed_take_bit_int_eq_self)
  qed
  then show "sint (of_nat (length (oa_queue a)) :: u64) = int (length (oa_queue a))"
    "sint (of_nat (total_bytes (oa_queue a)) :: u64) = int (total_bytes (oa_queue a))"
    using assms(1) by (simp_all add: abs_wf_def)
qed



section \<open>Enqueue\<close>

lemma out_entries_append:
  assumes w: "abs_wf a" and s: "oa_seq a < or_sequence r"
  shows "kv_put (be64 (or_sequence r)) (marshal_record r) (map out_entry (oa_queue a)) =
           map out_entry (oa_queue a @ [r])"
proof -
  have "kv_put (be64 (or_sequence r)) (marshal_record r) (map out_entry (oa_queue a)) =
      map out_entry (oa_queue a) @ [(be64 (or_sequence r), marshal_record r)]"
  proof (rule kv_put_last)
    fix e assume "e \<in> set (map out_entry (oa_queue a))"
    then obtain x where "x \<in> set (oa_queue a)" "e = out_entry x" by auto
    then show "bytes_less (fst e) (be64 (or_sequence r))"
      using abs_wf_rec [OF w, of x] s by (auto simp: out_entry_def)
  qed
  then show ?thesis by (simp add: out_entry_def)
qed

lemma map_option_upd:
  "(\<lambda>i. map_option f (m i))(k \<mapsto> f v) = (\<lambda>i. map_option f ((m(k \<mapsto> v)) i))"
  by (auto simp: fun_eq_iff)

lemma meta_map_upd:
  assumes "meta_map q mm"
  shows "meta_map q' (mm(key_event_count \<mapsto> be64 (of_nat (length q')), key_event_bytes \<mapsto> be64 (of_nat (total_bytes q'))))"
  using assms by (simp add: meta_map_def)

lemma wrap_small:
  assumes "n \<le> size_limit" "k \<le> 3000000"
  shows "wrap64 (int n + int k) = int n + int k"
  using assms by (intro wrap64_id) (simp_all add: size_limit_def min_int64_def max_int64_def)

definition refined :: "'d bolt \<Rightarrow> 'd \<Rightarrow> go_error + outbox_abs \<times> 'a \<Rightarrow> 'a \<Rightarrow> 'd \<times> 'a \<times> go_error option \<Rightarrow> bool" where
  "refined B d spec z result \<longleftrightarrow>
     (case spec of
        Inl e \<Rightarrow> result = (d, z, Some e)
      | Inr (a', x) \<Rightarrow>
          (\<exists>d'. result = (d', x, None) \<and> represents B d' a') \<or>
          commit_fails B \<and> result = (d, x, Some commit_error))"

lemma refinedI:
  assumes "bolt_ok B" "f d = Inr (d1, x)"
    and "tx_view B d1 (map out_entry (oa_queue a')) (\<lambda>i. map_option marshal_checkpoint (oa_cps a' i)) mm (oa_seq a')"
    and "meta_map (oa_queue a') mm" "abs_wf a'"
  shows "refined B d (Inr (a', x)) z (update_tx B z f d)"
  using update_tx_refines [of B f d d1 x a' mm z] assms by (auto simp: refined_def)

text \<open>
  The steps of the transaction, for any event whose identifier and hash have the form that the
  checkpoints need; whether the store will accept the record later does not matter here.
\<close>

lemma enqueue_tx_view:
  assumes B: "bolt_ok B" and rep: "represents B d a" and id: "\<not> alert_id_invalid (ev_alert_id (ee_event ee))"
    and h: "valid_hash (ee_content_hash ee)" and size: "record_size (new_record ee now (oa_seq a + 1)) \<le> 3000000"
    and m: "marker_ok marker" and c: "clock_ok now" and s: "unat (oa_seq a) < 18446744073709551615"
  shows "case spec_enqueue opts ee marker now a of
           Inl e \<Rightarrow> enqueue_tx B opts ee marker now d = Inl e
         | Inr (a', inserted) \<Rightarrow>
             \<exists>d1 mm. enqueue_tx B opts ee marker now d = Inr (d1, inserted) \<and> meta_map (oa_queue a') mm \<and>
               tx_view B d1 (map out_entry (oa_queue a')) (\<lambda>i. map_option marshal_checkpoint (oa_cps a' i)) mm (oa_seq a')"
proof -
  from rep obtain mm where st: "settled B d" and w: "abs_wf a" and mm: "meta_map (oa_queue a) mm"
    and v: "tx_view B d (map out_entry (oa_queue a)) (\<lambda>i. map_option marshal_checkpoint (oa_cps a i)) mm (oa_seq a)"
    by (rule represents_view)
  define i where "i = ev_alert_id (ee_event ee)"
  note id = id [folded i_def]
  define c1 where "c1 = (seen_cp marker now (cp_of a i))\<lparr>cp_last_fetched_at := now\<rparr>"
  have c1: "(cp_of a i)\<lparr>cp_last_seen_at := now, cp_last_fetched_at := now, cp_list_marker := marker,
              cp_absent_since := 0\<rparr> = c1"
    by (simp add: c1_def seen_cp_def)
  have ch: "cp_pending_hash c1 = cp_pending_hash (cp_of a i)" "cp_delivered_hash c1 = cp_delivered_hash (cp_of a i)"
    by (simp_all add: c1_def seen_cp_def)
  note cf = cp_of_facts [OF w id]
  have cw: "cp_wf i c1" and ci: "cp_alert_id c1 = i"
    using seen_cp_wf [OF cf(1) m c] by (simp_all add: c1_def cp_wf_def)
  note reads = tx_viewD [OF B v] read_checkpoint_view [OF w] with_identity_view [OF B st w id v]
    meta_reads [OF w mm]
  note start = enqueue_tx_def [of B opts ee marker now d, folded i_def]
  show ?thesis
  proof (cases "room_for opts i a")
    case False
    then have "enqueue_tx B opts ee marker now d = Inl full_error"
      by (simp add: start reads Let_def)
    with False show ?thesis by (simp add: spec_enqueue_def i_def [symmetric] Let_def)
  next
    case room: True
    show ?thesis
    proof (cases "known_content c1 (ee_content_hash ee)")
      case True
      let ?a = "a\<lparr>oa_cps := (oa_cps a)(i \<mapsto> c1)\<rparr>"
      have spec: "spec_enqueue opts ee marker now a = Inr (?a, False)"
        using room True by (simp add: spec_enqueue_def i_def [symmetric] c1_def [symmetric] Let_def)
      from tx_put_cp [OF B v kv_valid_checkpoint [OF cw]] obtain d1 where
        d1: "putE B bucket_checkpoints i (marshal_checkpoint c1) d = Inr d1"
          "tx_view B d1 (map out_entry (oa_queue a))
             ((\<lambda>i. map_option marshal_checkpoint (oa_cps a i))(i \<mapsto> marshal_checkpoint c1)) mm (oa_seq a)" .
      have "enqueue_tx B opts ee marker now d = Inr (d1, False)"
        using room True d1(1) c ci
        by (simp add: start reads Let_def c1 ch known_content_def put_checkpoint_def)
      then show ?thesis unfolding spec using d1(2) mm by (auto simp: map_option_upd)
    next
      case fresh: False
      define n where "n = oa_seq a + 1"
      define r where "r = new_record ee now n"
      have r: "\<lparr>or_sequence = n, or_alert_id = i, or_record_key = append_nil (ee_record_key ee),
          or_payload = append_nil (ee_payload ee), or_content_hash = ee_content_hash ee, or_created_at = now\<rparr> = r"
        by (simp add: r_def new_record_def i_def)
      have sq: "oa_seq a < n" "n \<noteq> 0" using seq_room [OF s] by (simp_all add: n_def)
      have sz: "record_size r \<le> 3000000" using size by (simp add: r_def n_def)
      have rs: "or_sequence r = n" by (simp add: r_def new_record_def)
      from tx_next_seq [OF B v] obtain d1 where
        d1: "next_seqE B bucket_outbox d = Inr (d1, n)"
          "tx_view B d1 (map out_entry (oa_queue a)) (\<lambda>i. map_option marshal_checkpoint (oa_cps a i)) mm n"
        unfolding n_def .
      have tot: "wrap64 (int (total_bytes (oa_queue a)) + int (length (marshal_record r))) =
          int (total_bytes (oa_queue a) + record_size r)"
        using wrap_small [of "total_bytes (oa_queue a)" "record_size r"] w sz
        by (simp add: abs_wf_def record_size_def)
      have pre: "enqueue_tx B opts ee marker now d =
          bindE (guardE (\<not> (int (length (oa_queue a)) \<ge> opt_max_events opts \<or>
                   int (total_bytes (oa_queue a) + record_size r) > opt_max_bytes opts)) full_error) (\<lambda>_.
          bindE (putE B bucket_outbox (be64 n) (marshal_record r) d1) (\<lambda>d2.
          bindE (put_checkpoint B (c1\<lparr>cp_pending_hash := ee_content_hash ee\<rparr>) d2) (\<lambda>d3.
          bindE (putE B bucket_meta key_event_count (be64 (of_int (int (length (oa_queue a)) + 1))) d3) (\<lambda>d4.
          bindE (putE B bucket_meta key_event_bytes
                   (be64 (of_int (int (total_bytes (oa_queue a)) + int (record_size r)))) d4) (\<lambda>d5.
          Inr (d5, True))))))"
        using room fresh d1(1) c
        by (simp add: start reads Let_def c1 ch known_content_def r tot) (auto simp: record_size_def)
      show ?thesis
      proof (cases "int (length (oa_queue a)) \<ge> opt_max_events opts \<or>
                   int (total_bytes (oa_queue a) + record_size r) > opt_max_bytes opts")
        case True
        then have "enqueue_tx B opts ee marker now d = Inl full_error"
          unfolding pre by (simp add: guardE_def)
        moreover have "spec_enqueue opts ee marker now a = Inl full_error"
          using room fresh True
          by (simp add: spec_enqueue_def i_def [symmetric] c1_def [symmetric] n_def [symmetric] r_def [symmetric] Let_def)
        ultimately show ?thesis by simp
      next
        case False
        let ?q = "oa_queue a @ [r]"
        let ?c2 = "c1\<lparr>cp_pending_hash := ee_content_hash ee\<rparr>"
        let ?a = "a\<lparr>oa_queue := ?q, oa_cps := (oa_cps a)(i \<mapsto> ?c2), oa_seq := n\<rparr>"
        have spec: "spec_enqueue opts ee marker now a = Inr (?a, True)"
          using room fresh False
          by (simp add: spec_enqueue_def i_def [symmetric] c1_def [symmetric] n_def [symmetric] r_def [symmetric] Let_def)
        have cw2: "cp_wf i ?c2"
          using cw h by (simp add: cp_wf_def hash_ok_def)
        have app: "kv_put (be64 n) (marshal_record r) (map out_entry (oa_queue a)) = map out_entry ?q"
          using out_entries_append [OF w, of r] sq(1) rs by simp
        have kv: "kv_valid (be64 n) (marshal_record r)" using sz by (simp add: kv_valid_def record_size_def)
        from tx_put_outbox [OF B d1(2) kv, unfolded app] obtain d2 where
          d2: "putE B bucket_outbox (be64 n) (marshal_record r) d1 = Inr d2"
            "tx_view B d2 (map out_entry ?q) (\<lambda>i. map_option marshal_checkpoint (oa_cps a i)) mm n"
          .
        from tx_put_cp [OF B d2(2) kv_valid_checkpoint [OF cw2]] obtain d3 where
          d3: "putE B bucket_checkpoints i (marshal_checkpoint ?c2) d2 = Inr d3"
            "tx_view B d3 (map out_entry ?q)
               ((\<lambda>i. map_option marshal_checkpoint (oa_cps a i))(i \<mapsto> marshal_checkpoint ?c2)) mm n" .
        from tx_put_meta [OF B d3(2) kv_valid_meta(1)] obtain d4 where
          d4: "putE B bucket_meta key_event_count (be64 (of_nat (length ?q))) d3 = Inr d4"
            "tx_view B d4 (map out_entry ?q)
               ((\<lambda>i. map_option marshal_checkpoint (oa_cps a i))(i \<mapsto> marshal_checkpoint ?c2))
               (mm(key_event_count \<mapsto> be64 (of_nat (length ?q)))) n" .
        from tx_put_meta [OF B d4(2) kv_valid_meta(2)] obtain d5 where
          d5: "putE B bucket_meta key_event_bytes (be64 (of_nat (total_bytes ?q))) d4 = Inr d5"
            "tx_view B d5 (map out_entry ?q)
               ((\<lambda>i. map_option marshal_checkpoint (oa_cps a i))(i \<mapsto> marshal_checkpoint ?c2))
               (mm(key_event_count \<mapsto> be64 (of_nat (length ?q)),
                   key_event_bytes \<mapsto> be64 (of_nat (total_bytes ?q)))) n" .
        have "of_int (int (length (oa_queue a)) + 1) = (of_nat (length ?q) :: u64)"
          "of_int (int (total_bytes (oa_queue a)) + int (record_size r)) = (of_nat (total_bytes ?q) :: u64)"
          by simp_all
        then have "enqueue_tx B opts ee marker now d = Inr (d5, True)"
          unfolding pre using False d2(1) d3(1) d4(1) d5(1) ci
          by (simp add: put_checkpoint_def guardE_def add.commute [of 1])
        then show ?thesis
          unfolding spec using d5(2) meta_map_upd [OF mm, of ?q] by (auto simp: map_option_upd)
      qed
    qed
  qed
qed

theorem enqueue_refines:
  assumes B: "bolt_ok B" and rep: "represents B d a" and e: "event_ok ee" and m: "marker_ok marker"
    and c: "clock_ok now" and o: "options_sane opts" and s: "unat (oa_seq a) < 18446744073709551615"
  shows "refined B d (spec_enqueue opts ee marker now a) False (enqueue B opts ee marker now d)"
proof -
  have rw: "rec_wf (new_record ee now (oa_seq a + 1))"
    by (rule new_record_wf [OF e c seq_room(2) [OF s]])
  have id: "\<not> alert_id_invalid (ev_alert_id (ee_event ee))" "valid_hash (ee_content_hash ee)"
    using rec_wf_facts(1,2) [OF rw] by (simp_all add: new_record_def)
  note v = enqueue_tx_view [OF B rep id record_size_bound [OF rw] m c s, of opts]
  show ?thesis
  proof (cases "spec_enqueue opts ee marker now a")
    case (Inl e)
    then show ?thesis using v by (simp add: refined_def enqueue_def update_tx_def)
  next
    case (Inr r)
    obtain a' ins where r: "r = (a', ins)" by (cases r)
    have spec: "spec_enqueue opts ee marker now a = Inr (a', ins)" by (simp add: Inr r)
    have w: "abs_wf a" using rep by (simp add: represents_def)
    have "abs_wf a'" by (rule spec_enqueue_wf [OF w e m c o s spec])
    with v show ?thesis
      unfolding spec enqueue_def by (auto intro!: refinedI [OF B])
  qed
qed

section \<open>Mark seen\<close>

theorem mark_seen_refines:
  assumes B: "bolt_ok B" and rep: "represents B d a" and id: "\<not> alert_id_invalid i" and m: "marker_ok marker"
    and c: "clock_ok now"
  shows "case spec_mark_seen opts i marker now a of
           Inl e \<Rightarrow> mark_seen B opts i marker now d = (d, Some e)
         | Inr a' \<Rightarrow> (\<exists>d'. mark_seen B opts i marker now d = (d', None) \<and> represents B d' a') \<or>
                     commit_fails B \<and> mark_seen B opts i marker now d = (d, Some commit_error)"
proof -
  from rep obtain mm where st: "settled B d" and w: "abs_wf a" and mm: "meta_map (oa_queue a) mm"
    and v: "tx_view B d (map out_entry (oa_queue a)) (\<lambda>i. map_option marshal_checkpoint (oa_cps a i)) mm (oa_seq a)"
    by (rule represents_view)
  let ?c1 = "seen_cp marker now (cp_of a i)"
  note cf = cp_of_facts [OF w id]
  have cw: "cp_wf i ?c1" and ci: "cp_alert_id ?c1 = i"
    using seen_cp_wf [OF cf(1) m c] by (simp_all add: cp_wf_def)
  note reads = tx_viewD [OF B v] read_checkpoint_view [OF w] with_identity_view [OF B st w id v]
  show ?thesis
  proof (cases "room_for opts i a")
    case False
    then show ?thesis by (simp add: mark_seen_def mark_seen_tx_def update_tx_def reads spec_mark_seen_def)
  next
    case True
    let ?a = "a\<lparr>oa_cps := (oa_cps a)(i \<mapsto> ?c1)\<rparr>"
    have spec: "spec_mark_seen opts i marker now a = Inr ?a" using True by (simp add: spec_mark_seen_def)
    from tx_put_cp [OF B v kv_valid_checkpoint [OF cw]] obtain d1 where
      d1: "putE B bucket_checkpoints i (marshal_checkpoint ?c1) d = Inr d1"
        "tx_view B d1 (map out_entry (oa_queue a))
           ((\<lambda>i. map_option marshal_checkpoint (oa_cps a i))(i \<mapsto> marshal_checkpoint ?c1)) mm (oa_seq a)" .
    have "mark_seen_tx B opts i marker now d = Inr (d1, ())"
      using True d1(1) c ci by (simp add: mark_seen_tx_def reads put_checkpoint_def seen_cp_def)
    moreover have "abs_wf ?a" by (rule spec_mark_seen_wf [OF w id m c spec])
    ultimately have "refined B d (Inr (?a, ())) () (update_tx B () (mark_seen_tx B opts i marker now) d)"
      using d1(2) mm by (intro refinedI [OF B, where mm = mm]) (simp_all add: map_option_upd)
    then show ?thesis unfolding spec by (auto simp: refined_def mark_seen_def)
  qed
qed

section \<open>Acknowledge\<close>

lemma newest_pending_view:
  assumes "\<forall>r \<in> set q. rec_wf r"
  shows "newest_pending i (map out_entry q) acc =
           Inr (case newest_of i q of None \<Rightarrow> acc | Some r \<Rightarrow> (or_content_hash r, or_sequence r))"
  using assms
proof (induction q arbitrary: acc)
  case (Cons r q)
  have "newest_of i (r # q) = (case newest_of i q of None \<Rightarrow> if or_alert_id r = i then Some r else None
      | Some x \<Rightarrow> Some x)"
    by (simp add: newest_of_def Let_def)
  with Cons show ?case by (simp add: out_entry_def rec_wf_facts(7) split: option.split)
qed (simp add: newest_of_def)

lemma remove_entry:
  assumes "abs_wf a"
  shows "kv_delete (be64 s) (map out_entry (oa_queue a)) = map out_entry (remove_seq s (oa_queue a))"
  by (simp add: kv_delete_def remove_seq_def filter_map comp_def out_entry_def)

lemma total_bytes_remove_eq:
  assumes "r \<in> set q" "distinct (map or_sequence q)"
  shows "total_bytes q = record_size r + total_bytes (remove_seq (or_sequence r) q)"
    "length q = Suc (length (remove_seq (or_sequence r) q))"
proof -
  from assms(1) obtain xs ys where q: "q = xs @ r # ys" by (auto simp: in_set_conv_decomp)
  have "remove_seq (or_sequence r) xs = xs" "remove_seq (or_sequence r) ys = ys"
    unfolding remove_seq_def using assms(2) q by (intro filter_id_iff; auto simp: image_iff)+
  then have "remove_seq (or_sequence r) q = xs @ ys" by (simp add: q remove_seq_def)
  then show "total_bytes q = record_size r + total_bytes (remove_seq (or_sequence r) q)"
    "length q = Suc (length (remove_seq (or_sequence r) q))"
    by (simp_all add: q total_bytes_def)
qed

text \<open>Subtracting in \<open>uint64\<close> what the metadata says.\<close>

lemma u64_minus:
  assumes "k \<le> n" "n \<le> size_limit"
  shows "(if (of_nat k :: u64) > of_nat n then 0 else of_nat n - of_nat k) = (of_nat (n - k) :: u64)"
    "0 < k \<Longrightarrow> (if (of_nat n :: u64) > 0 then of_nat n - 1 else of_nat n) = (of_nat (n - 1) :: u64)"
proof -
  have u: "unat (of_nat j :: u64) = j" if "j \<le> size_limit" for j
    using that by (simp add: unat_of_nat size_limit_def)
  have "\<not> (of_nat k :: u64) > of_nat n" using assms u [of k] u [of n] by (simp add: word_less_nat_alt)
  then show "(if (of_nat k :: u64) > of_nat n then 0 else of_nat n - of_nat k) = (of_nat (n - k) :: u64)"
    using assms(1) by (simp add: of_nat_diff)
  assume "0 < k"
  then have "(of_nat n :: u64) > 0" using assms u [of n] by (simp add: word_less_nat_alt)
  then show "(if (of_nat n :: u64) > 0 then of_nat n - 1 else of_nat n) = (of_nat (n - 1) :: u64)"
    using assms(1) \<open>0 < k\<close> by (simp add: of_nat_diff)
qed

theorem acknowledge_refines:
  assumes B: "bolt_ok B" and rep: "represents B d a" and old: "oldest_of_alert s (oa_queue a)"
  shows "(\<exists>d'. acknowledge B s d = (d', None) \<and> represents B d' (spec_acknowledge s a)) \<or>
         commit_fails B \<and> acknowledge B s d = (d, Some commit_error)"
proof -
  from rep obtain mm where st: "settled B d" and w: "abs_wf a" and mm: "meta_map (oa_queue a) mm"
    and v: "tx_view B d (map out_entry (oa_queue a)) (\<lambda>i. map_option marshal_checkpoint (oa_cps a i)) mm (oa_seq a)"
    by (rule represents_view)
  have get: "bget B d bucket_outbox (be64 s) =
      map_option marshal_record (find (\<lambda>r. or_sequence r = s) (oa_queue a))"
    using tx_viewD(2) [OF B v] map_of_out_entries [OF w] by simp
  have "refined B d (Inr (spec_acknowledge s a, ())) () (update_tx B () (acknowledge_tx B s) d)"
  proof (cases "find (\<lambda>r. or_sequence r = s) (oa_queue a)")
    case None
    then have "acknowledge_tx B s d = Inr (d, ())" by (simp add: acknowledge_tx_def get)
    moreover have "spec_acknowledge s a = a" using None by (simp add: spec_acknowledge_def)
    ultimately show ?thesis using v mm w by (simp add: refinedI [OF B])
  next
    case (Some r)
    let ?i = "or_alert_id r" and ?q = "oa_queue a"
    from Some have r: "r \<in> set ?q" "or_sequence r = s" by (auto simp: find_Some_iff)
    note rw = abs_wf_rec [OF w r(1)]
    note rf = rec_wf_facts [of r]
    have id: "\<not> alert_id_invalid ?i" using rw rf(1) by blast
    note cf = cp_of_facts [OF w id]
    obtain c where c: "oa_cps a ?i = Some c" using rw by auto
    then have cp: "cp_of a ?i = c" by (simp add: cp_of_def)
    have ci: "cp_alert_id c = ?i" "?i \<noteq> []" using cf(1) valid_id_facts(2) [OF id] by (simp_all add: cp cp_wf_def)
    have np: "newest_pending ?i (map out_entry ?q) ([], 0) =
        Inr (newest_hash ?i ?q, case newest_of ?i ?q of None \<Rightarrow> 0 | Some x \<Rightarrow> or_sequence x)"
      using newest_pending_view [of ?q ?i "([], 0)"] abs_wf_rec [OF w]
      by (auto simp: newest_hash_def split: option.split)
    have newest: "s = (case newest_of ?i ?q of None \<Rightarrow> 0 | Some x \<Rightarrow> or_sequence x) \<longleftrightarrow> newest_of ?i ?q = Some r"
    proof (cases "newest_of ?i ?q")
      case None
      then have False using r(1) by (auto simp: newest_of_None)
      then show ?thesis ..
    next
      case (Some x)
      then have "x \<in> set ?q" using newest_of_in by blast
      then show ?thesis
        using Some r abs_wf_distinct [OF w] by (auto simp: distinct_map dest: inj_onD)
    qed
    let ?c2 = "acked_cp r ?q c"
    have c2: "(let c1 = c\<lparr>cp_delivered_hash := or_content_hash r\<rparr>
         in if s = (case newest_of ?i ?q of None \<Rightarrow> 0 | Some x \<Rightarrow> or_sequence x)
            then c1\<lparr>cp_pending_hash := []\<rparr> else c1) = ?c2"
      unfolding newest by (simp add: acked_cp_def Let_def)
    let ?q' = "remove_seq s ?q"
    let ?a = "a\<lparr>oa_queue := ?q', oa_cps := (oa_cps a)(?i \<mapsto> ?c2)\<rparr>"
    have spec: "spec_acknowledge s a = ?a" by (simp add: spec_acknowledge_def Some cp Let_def)
    have wa: "abs_wf ?a" using spec_acknowledge_wf [OF w old] spec by simp
    have cw: "cp_wf ?i ?c2" using abs_wf_cp [OF wa, of ?i ?c2] by simp
    have c2i: "cp_alert_id ?c2 = ?i" using cw by (simp add: cp_wf_def)
    note tot = total_bytes_remove_eq [OF r(1) abs_wf_distinct [OF w], unfolded r(2)]
    from tx_put_cp [OF B v kv_valid_checkpoint [OF cw]] obtain d1 where
      d1: "putE B bucket_checkpoints ?i (marshal_checkpoint ?c2) d = Inr d1"
        "tx_view B d1 (map out_entry ?q)
           ((\<lambda>i. map_option marshal_checkpoint (oa_cps a i))(?i \<mapsto> marshal_checkpoint ?c2)) mm (oa_seq a)" .
    from tx_delete_outbox [OF B d1(2), of "be64 s", unfolded remove_entry [OF w]] obtain d2 where
      d2: "deleteE B bucket_outbox (be64 s) d1 = Inr d2"
        "tx_view B d2 (map out_entry ?q')
           ((\<lambda>i. map_option marshal_checkpoint (oa_cps a i))(?i \<mapsto> marshal_checkpoint ?c2)) mm (oa_seq a)" .
    from tx_put_meta [OF B d2(2) kv_valid_meta(1)] obtain d3 where
      d3: "putE B bucket_meta key_event_count (be64 (of_nat (length ?q'))) d2 = Inr d3"
        "tx_view B d3 (map out_entry ?q')
           ((\<lambda>i. map_option marshal_checkpoint (oa_cps a i))(?i \<mapsto> marshal_checkpoint ?c2))
           (mm(key_event_count \<mapsto> be64 (of_nat (length ?q')))) (oa_seq a)" .
    from tx_put_meta [OF B d3(2) kv_valid_meta(2)] obtain d4 where
      d4: "putE B bucket_meta key_event_bytes (be64 (of_nat (total_bytes ?q'))) d3 = Inr d4"
        "tx_view B d4 (map out_entry ?q')
           ((\<lambda>i. map_option marshal_checkpoint (oa_cps a i))(?i \<mapsto> marshal_checkpoint ?c2))
           (mm(key_event_count \<mapsto> be64 (of_nat (length ?q')),
               key_event_bytes \<mapsto> be64 (of_nat (total_bytes ?q')))) (oa_seq a)" .
    have meta1: "read_u64 (bget B d1 bucket_meta key_event_count) = of_nat (length ?q)"
      "read_u64 (bget B d1 bucket_meta key_event_bytes) = of_nat (total_bytes ?q)"
      using tx_viewD(4) [OF B d1(2)] meta_reads(1,2) [OF w mm] by simp_all
    have lim: "length ?q \<le> size_limit" "total_bytes ?q \<le> size_limit" using w by (simp_all add: abs_wf_def)
    have cnt: "(if read_u64 (bget B d1 bucket_meta key_event_count) > 0
          then read_u64 (bget B d1 bucket_meta key_event_count) - 1
          else read_u64 (bget B d1 bucket_meta key_event_count)) = of_nat (length ?q')"
      unfolding meta1 using u64_minus(2) [of 1 "length ?q"] lim(1) tot(2) by simp
    have byt: "(if of_nat (length (marshal_record r)) > read_u64 (bget B d1 bucket_meta key_event_bytes) then 0
          else read_u64 (bget B d1 bucket_meta key_event_bytes) - of_nat (length (marshal_record r))) =
        of_nat (total_bytes ?q')"
    proof -
      have le: "record_size r \<le> total_bytes ?q" and diff: "total_bytes ?q - record_size r = total_bytes ?q'"
        using tot(1) by simp_all
      show ?thesis unfolding meta1 using u64_minus(1) [OF le lim(2)] unfolding diff by (simp only: record_size_def)
    qed
    have rc: "read_checkpoint (bget B d bucket_checkpoints ?i) = Inr c"
      using tx_viewD(3) [OF B v] read_checkpoint_view [OF w, of ?i] c by simp
    have "acknowledge_tx B s d = Inr (d4, ())"
      unfolding acknowledge_tx_def get Some option.map option.case rf(7) [OF rw [THEN conjunct1]]
      using rf(8) rw r(2) rc ci np cf(2) c2 d1(1) d2(1) d3(1) d4(1) c2i
      by (simp add: guardE_def tx_viewD(1) [OF B v] cp put_checkpoint_def cnt byt Let_def split del: if_split)
    then show ?thesis
      unfolding spec using d4(2) meta_map_upd [OF mm, of ?q'] wa
      by (intro refinedI [OF B]) (simp_all add: map_option_upd)
  qed
  then show ?thesis by (auto simp: refined_def acknowledge_def)
qed


section \<open>Reconcile\<close>

definition cps_view :: "(bytes \<rightharpoonup> checkpoint) \<Rightarrow> bytes \<rightharpoonup> bytes" where
  "cps_view m = (\<lambda>i. map_option marshal_checkpoint (m i))"

lemma cps_view_upd: "(cps_view m)(k \<mapsto> marshal_checkpoint c) = cps_view (m(k \<mapsto> c))"
  by (auto simp: cps_view_def fun_eq_iff)

definition aged :: "bytes set \<Rightarrow> go_time \<Rightarrow> bytes set \<Rightarrow> (bytes \<rightharpoonup> checkpoint) \<Rightarrow> bytes \<rightharpoonup> checkpoint" where
  "aged listed now ks m = (\<lambda>i. if i \<in> ks \<and> i \<notin> listed then map_option (absent_cp now) (m i) else m i)"

definition stale_keys ::
  "store_options \<Rightarrow> bytes set \<Rightarrow> go_time \<Rightarrow> (bytes \<rightharpoonup> checkpoint) \<Rightarrow> (bytes \<times> bytes) list \<Rightarrow> bytes list" where
  "stale_keys opts listed now m es =
     filter (\<lambda>k. k \<notin> listed \<and> expired opts now (absent_cp now (the (m k)))) (map fst es)"

lemma absent_cp_wf: "cp_wf i c \<Longrightarrow> clock_ok now \<Longrightarrow> cp_wf i (absent_cp now c)"
  by (simp add: absent_cp_def cp_wf_def clock_ok_def stamp_ok_def)

lemma reconcile_loop_view:
  assumes B: "bolt_ok B" and c: "clock_ok now"
    and "tx_view B d out (cps_view m) mm n"
    and "\<forall>e \<in> set es. \<exists>c. m (fst e) = Some c \<and> snd e = marshal_checkpoint c \<and> cp_wf (fst e) c"
    and "distinct (map fst es)"
  shows "\<exists>d'. reconcile_loop B opts listed now es d del =
                Inr (d', del @ stale_keys opts listed now m es) \<and>
              tx_view B d' out (cps_view (aged listed now (fst ` set es) m)) mm n"
  using assms(3-)
proof (induction es arbitrary: d m del)
  case Nil
  then show ?case by (simp add: stale_keys_def aged_def)
next
  case (Cons e es)
  obtain k v where e: "e = (k, v)" by (cases e)
  from Cons.prems(2) e obtain c where mk: "m k = Some c" and v: "v = marshal_checkpoint c" and cw: "cp_wf k c"
    by auto
  have ck: "cp_alert_id c = k" using cw by (simp add: cp_wf_def)
  have rd: "read_checkpoint (Some v) = Inr c" by (simp add: read_checkpoint_def v cp_wf_unmarshal [OF cw])
  show ?case
  proof (cases "k \<in> listed")
    case True
    have "aged listed now (fst ` set (e # es)) m = aged listed now (fst ` set es) m"
      using True e by (auto simp: aged_def fun_eq_iff)
    moreover have "stale_keys opts listed now m (e # es) = stale_keys opts listed now m es"
      using True e by (simp add: stale_keys_def)
    ultimately show ?thesis using Cons.IH [of d m del] Cons.prems True e rd ck by simp
  next
    case False
    let ?c = "absent_cp now c" and ?m = "m(k \<mapsto> absent_cp now c)"
    have "cp_alert_id ?c = k" by (simp add: absent_cp_def ck)
    have "\<exists>d1. (if cp_absent_since c = 0
                then (let c1 = c\<lparr>cp_absent_since := unix_nano now\<rparr>
                      in bindE (put_checkpoint B c1 d) (\<lambda>d1. Inr (c1, d1)))
                else Inr (c, d)) = Inr (?c, d1) \<and> tx_view B d1 out (cps_view ?m) mm n"
    proof (cases "cp_absent_since c = 0")
      case True
      from tx_put_cp [OF B Cons.prems(1) kv_valid_checkpoint [OF absent_cp_wf [OF cw c]]] obtain d1 where
        "putE B bucket_checkpoints k (marshal_checkpoint ?c) d = Inr d1"
        "tx_view B d1 out ((cps_view m)(k \<mapsto> marshal_checkpoint ?c)) mm n" .
      then show ?thesis using True c ck by (simp add: absent_cp_def put_checkpoint_def cps_view_upd Let_def)
    next
      case False
      then have "?m = m" by (simp add: absent_cp_def mk fun_upd_idem)
      with False Cons.prems(1) show ?thesis by (simp add: absent_cp_def)
    qed
    then obtain d1 where d1: "(if cp_absent_since c = 0
                then (let c1 = c\<lparr>cp_absent_since := unix_nano now\<rparr>
                      in bindE (put_checkpoint B c1 d) (\<lambda>d1. Inr (c1, d1)))
                else Inr (c, d)) = Inr (?c, d1)" "tx_view B d1 out (cps_view ?m) mm n" by blast
    have other: "\<forall>e \<in> set es. \<exists>c. ?m (fst e) = Some c \<and> snd e = marshal_checkpoint c \<and> cp_wf (fst e) c"
      using Cons.prems(2,3) e by (auto simp: image_iff)
    have notin: "k \<notin> fst ` set es" using Cons.prems(3) e by simp
    have sk: "stale_keys opts listed now ?m es = stale_keys opts listed now m es"
      unfolding stale_keys_def using notin by (intro filter_cong) auto
    have ag: "aged listed now (fst ` set es) ?m = aged listed now (fst ` set (e # es)) m"
      using notin False e mk by (auto simp: aged_def fun_eq_iff)
    define del' where "del' = (if time_sub now (time_unix0 (cp_absent_since ?c)) \<ge> opt_retention opts \<and>
        cp_pending_hash ?c = [] then del @ [k] else del)"
    have "del' @ stale_keys opts listed now m es = del @ stale_keys opts listed now m (e # es)"
      using False e mk by (simp add: stale_keys_def expired_def del'_def)
    moreover have "reconcile_loop B opts listed now (e # es) d del =
        reconcile_loop B opts listed now es d1 del'"
      using False e rd ck d1(1) by (simp add: del'_def)
    moreover have "distinct (map fst es)" using Cons.prems(3) by simp
    note Cons.IH [OF d1(2) other this, of del', unfolded sk ag]
    ultimately show ?thesis by simp
  qed
qed

lemma delete_keys_view:
  assumes "bolt_ok B" "tx_view B d out cm mm n"
  shows "\<exists>d'. delete_keys B bucket_checkpoints ks d = Inr d' \<and>
              tx_view B d' out (\<lambda>i. if i \<in> set ks then None else cm i) mm n"
  using assms(2)
proof (induction ks arbitrary: d cm)
  case (Cons k ks)
  from tx_delete_cp [OF assms(1) Cons.prems] obtain d1 where
    d1: "deleteE B bucket_checkpoints k d = Inr d1" "tx_view B d1 out (cm(k := None)) mm n" .
  have "(\<lambda>i. if i \<in> set ks then None else (cm(k := None)) i) = (\<lambda>i. if i \<in> set (k # ks) then None else cm i)"
    by (auto simp: fun_eq_iff)
  with Cons.IH [OF d1(2)] d1(1) show ?case by simp
qed simp

theorem reconcile_refines:
  assumes B: "bolt_ok B" and rep: "represents B d a" and c: "clock_ok now"
  shows "let a' = spec_reconcile opts listed now a;
             full = (if int (card (dom (oa_cps a'))) \<ge> opt_max_checkpoints opts then Some full_error else None)
         in (\<exists>d'. reconcile_listed B opts listed now True d = (d', full) \<and> represents B d' a') \<or>
            commit_fails B \<and> reconcile_listed B opts listed now True d = (d, Some commit_error)"
proof -
  from rep obtain mm where st: "settled B d" and w: "abs_wf a" and mm: "meta_map (oa_queue a) mm"
    and v0: "tx_view B d (map out_entry (oa_queue a)) (\<lambda>i. map_option marshal_checkpoint (oa_cps a i)) mm (oa_seq a)"
    by (rule represents_view)
  let ?a = "spec_reconcile opts listed now a"
  define es where "es = bentries B d bucket_checkpoints"
  have v: "tx_view B d (map out_entry (oa_queue a)) (cps_view (oa_cps a)) mm (oa_seq a)"
    using v0 by (simp add: cps_view_def)
  have mo: "map_of es = cps_view (oa_cps a)" using v by (simp add: tx_view_def es_def)
  have dist: "distinct (map fst es)" unfolding es_def by (rule bolt_distinct [OF B])
  have ent: "\<forall>e \<in> set es. \<exists>c. oa_cps a (fst e) = Some c \<and> snd e = marshal_checkpoint c \<and> cp_wf (fst e) c"
  proof
    fix e assume "e \<in> set es"
    then have "map_of es (fst e) = Some (snd e)" using dist by simp
    then obtain c where "oa_cps a (fst e) = Some c" "snd e = marshal_checkpoint c"
      by (auto simp: mo cps_view_def)
    then show "\<exists>c. oa_cps a (fst e) = Some c \<and> snd e = marshal_checkpoint c \<and> cp_wf (fst e) c"
      using abs_wf_cp [OF w] by blast
  qed
  have keys: "fst ` set es = dom (oa_cps a)"
    using dom_map_of_conv_image_fst [of es] by (simp add: mo cps_view_def dom_def)
  let ?del = "stale_keys opts listed now (oa_cps a) es"
  from reconcile_loop_view [OF B c v ent dist, of opts listed "[]"] obtain d1 where
    d1: "reconcile_loop B opts listed now es d [] = Inr (d1, ?del)"
      "tx_view B d1 (map out_entry (oa_queue a)) (cps_view (aged listed now (fst ` set es) (oa_cps a))) mm (oa_seq a)"
    by auto
  from delete_keys_view [OF B d1(2), of ?del] obtain d2 where
    d2: "delete_keys B bucket_checkpoints ?del d1 = Inr d2"
      "tx_view B d2 (map out_entry (oa_queue a))
         (\<lambda>i. if i \<in> set ?del then None else cps_view (aged listed now (fst ` set es) (oa_cps a)) i) mm (oa_seq a)"
    by blast
  have del: "set ?del = {i \<in> dom (oa_cps a). i \<notin> listed \<and> expired opts now (absent_cp now (the (oa_cps a i)))}"
    using keys by (auto simp: stale_keys_def)
  have cps: "(\<lambda>i. if i \<in> set ?del then None else cps_view (aged listed now (fst ` set es) (oa_cps a)) i) =
      (\<lambda>i. map_option marshal_checkpoint (oa_cps ?a i))"
    unfolding del keys
    by (auto simp: spec_reconcile_def cps_view_def aged_def fun_eq_iff Let_def dom_def split: option.split)
  have "dom (oa_cps ?a) = fst ` set es - set ?del"
    unfolding del keys by (auto simp: spec_reconcile_def Let_def dom_def split: option.splits if_splits)
  moreover have "set ?del \<subseteq> fst ` set es" by (auto simp: stale_keys_def)
  ultimately have "card (dom (oa_cps ?a)) = card (fst ` set es) - card (set ?del)"
    by (simp add: card_Diff_subset)
  moreover have "card (fst ` set es) = length es" "card (set ?del) = length ?del" "length ?del \<le> length es"
    using dist distinct_card [of "map fst es"] distinct_card [of ?del] length_filter_le [of _ "map fst es"]
    by (simp_all add: stale_keys_def)
  ultimately have card: "int (card (dom (oa_cps ?a))) = int (length es) - int (length ?del)" by simp
  have tx: "reconcile_tx B opts listed now d =
      Inr (d2, int (card (dom (oa_cps ?a))) \<ge> opt_max_checkpoints opts)"
    unfolding reconcile_tx_def es_def [symmetric] Let_def card using d1(1) d2(1) by simp
  have q: "oa_queue ?a = oa_queue a" "oa_seq ?a = oa_seq a" by (simp_all add: spec_reconcile_def)
  have "refined B d (Inr (?a, int (card (dom (oa_cps ?a))) \<ge> opt_max_checkpoints opts)) False
      (update_tx B False (reconcile_tx B opts listed now) d)"
    using d2(2) mm spec_reconcile_wf [OF w c, of opts listed]
    by (intro refinedI [where f = "reconcile_tx B opts listed now", OF B tx]) (simp_all add: q cps)
  then show ?thesis
    unfolding refined_def reconcile_listed_def Let_def by auto
qed

end
