(* ===== verification/Outbox_Open.thy ===== *)
theory Outbox_Open
  imports Outbox_Refine
begin

text \<open>
  Opening the outbox: a new database gets its buckets and represents the empty state; a database
  whose content represents a well-formed state passes the validation at start-up, whatever its
  counters say, and represents that state afterwards. So a process that stops between any two
  operations can start again.
\<close>

lemma validate_records_view:
  assumes "\<forall>r \<in> set q. rec_wf r" "unat used + total_bytes q \<le> size_limit"
  shows "validate_records (map out_entry q) count used newest ids =
           Inr (count + of_nat (length q), used + of_nat (total_bytes q),
                foldl (\<lambda>m r. m(or_alert_id r \<mapsto> or_content_hash r)) newest q, ids \<union> or_alert_id ` set q)"
  using assms
proof (induction q arbitrary: count used newest ids)
  case (Cons r q)
  note rw = rec_wf_facts [of r]
  from Cons.prems(1) have r: "rec_wf r" by simp
  have sz: "unat used + record_size r + total_bytes q \<le> size_limit" using Cons.prems(2) by (simp add: total_bytes_def)
  have lt: "size_limit < 18446744073709551616" by (simp add: size_limit_def)
  have u: "unat (of_nat (record_size r) :: u64) = record_size r"
    using sz lt by (simp add: unat_of_nat)
  have room: "\<not> of_nat (record_size r) > (- 1 :: u64) - used"
  proof -
    have "unat (- 1 - used) = 18446744073709551615 - unat used"
      by (subst unat_sub) (simp_all add: unsigned_minus_1_eq_mask mask_eq_exp_minus_1)
    then show ?thesis using sz lt u by (simp add: word_less_nat_alt)
  qed
  have "unat (used + of_nat (record_size r)) = unat used + record_size r"
    using sz lt u by (simp add: unat_word_ariths)
  then have ih: "unat (used + of_nat (record_size r)) + total_bytes q \<le> size_limit" using sz by simp
  have "of_be64 (be64 (or_sequence r)) \<noteq> 0" using rw(6) [OF r] by simp
  then have "validate_records (map out_entry (r # q)) count used newest ids =
      validate_records (map out_entry q) (count + 1) (used + of_nat (record_size r))
        (newest(or_alert_id r \<mapsto> or_content_hash r)) (insert (or_alert_id r) ids)"
    using rw(7,8) [OF r] room by (simp add: out_entry_def record_size_def)
  also note Cons.IH [OF _ ih]
  finally show ?case using Cons.prems(1) by (simp add: total_bytes_def ac_simps)
qed (simp add: total_bytes_def)

lemma newest_map:
  "map_lookup (foldl (\<lambda>m r. m(or_alert_id r \<mapsto> or_content_hash r)) Map.empty q) i = newest_hash i q"
  by (induction q rule: rev_induct)
     (auto simp: newest_hash_append map_lookup_def newest_hash_def newest_of_def)

lemma validate_checkpoints_view:
  assumes "\<forall>e \<in> set es. \<exists>c. snd e = marshal_checkpoint c \<and> cp_wf (fst e) c \<and>
             cp_pending_hash c = map_lookup newest (fst e)"
    and "ids \<subseteq> fst ` set es"
  shows "validate_checkpoints es newest ids = Inr ()"
  using assms
proof (induction es arbitrary: ids)
  case (Cons e es)
  obtain k v where e: "e = (k, v)" by (cases e)
  with Cons.prems(1) obtain c where c: "v = marshal_checkpoint c" "cp_wf k c"
    "cp_pending_hash c = map_lookup newest k" by auto
  have rd: "read_checkpoint (Some v) = Inr c" by (simp add: read_checkpoint_def c cp_wf_unmarshal [OF c(2)])
  have ok: "cp_alert_id c = k" "\<not> alert_id_invalid k" "k \<noteq> []"
    "hash_ok (cp_pending_hash c)" "hash_ok (cp_delivered_hash c)"
    "\<not> cp_last_fetched_at c < 0" "\<not> cp_last_seen_at c < 0" "\<not> cp_absent_since c < 0"
    using c(2) valid_id_facts(2) [of k] by (auto simp: cp_wf_def stamp_ok_def)
  have "validate_checkpoints es newest (ids - {k}) = Inr ()"
    using Cons.prems e by (intro Cons.IH) auto
  then show ?case using e rd ok c by (auto simp: hash_ok_def)
qed simp

lemma migrate_checked_view:
  assumes B: "bolt_ok B" and w: "abs_wf a"
    and v: "tx_view B d (map out_entry (oa_queue a)) (\<lambda>i. map_option marshal_checkpoint (oa_cps a i)) mm (oa_seq a)"
  obtains d' mm' where "migrate_checked B d = Inr d'" "meta_map (oa_queue a) mm'"
    "tx_view B d' (map out_entry (oa_queue a)) (\<lambda>i. map_option marshal_checkpoint (oa_cps a i)) mm' (oa_seq a)"
proof -
  let ?q = "oa_queue a"
  let ?newest = "foldl (\<lambda>m r. m(or_alert_id r \<mapsto> or_content_hash r)) Map.empty ?q"
  have vr: "validate_records (bentries B d bucket_outbox) 0 0 Map.empty {} =
      Inr (of_nat (length ?q), of_nat (total_bytes ?q), ?newest, or_alert_id ` set ?q)"
    using validate_records_view [of ?q 0 0 Map.empty "{}"] w tx_viewD(1) [OF B v] by (simp add: abs_wf_def)
  let ?es = "bentries B d bucket_checkpoints"
  have mo: "map_of ?es = (\<lambda>i. map_option marshal_checkpoint (oa_cps a i))" using v by (simp add: tx_view_def)
  have "validate_checkpoints ?es ?newest (or_alert_id ` set ?q) = Inr ()"
  proof (rule validate_checkpoints_view)
    show "\<forall>e \<in> set ?es. \<exists>c. snd e = marshal_checkpoint c \<and> cp_wf (fst e) c \<and>
             cp_pending_hash c = map_lookup ?newest (fst e)"
    proof
      fix e assume "e \<in> set ?es"
      then have "map_of ?es (fst e) = Some (snd e)" using bolt_distinct [OF B, of d bucket_checkpoints] by simp
      then obtain c where "oa_cps a (fst e) = Some c" "snd e = marshal_checkpoint c" by (auto simp: mo)
      then show "\<exists>c. snd e = marshal_checkpoint c \<and> cp_wf (fst e) c \<and>
             cp_pending_hash c = map_lookup ?newest (fst e)"
        using abs_wf_cp [OF w] by (auto simp: newest_map)
    qed
    have "fst ` set ?es = dom (oa_cps a)" using dom_map_of_conv_image_fst [of ?es] by (simp add: mo dom_def)
    then show "or_alert_id ` set ?q \<subseteq> fst ` set ?es" using abs_wf_rec [OF w] by auto
  qed
  moreover obtain d1 where d1: "putE B bucket_meta key_event_count (be64 (of_nat (length ?q))) d = Inr d1"
    "tx_view B d1 (map out_entry ?q) (\<lambda>i. map_option marshal_checkpoint (oa_cps a i))
       (mm(key_event_count \<mapsto> be64 (of_nat (length ?q)))) (oa_seq a)"
    by (rule tx_put_meta [OF B v kv_valid_meta(1)])
  moreover obtain d2 where d2: "putE B bucket_meta key_event_bytes (be64 (of_nat (total_bytes ?q))) d1 = Inr d2"
    "tx_view B d2 (map out_entry ?q) (\<lambda>i. map_option marshal_checkpoint (oa_cps a i))
       (mm(key_event_count \<mapsto> be64 (of_nat (length ?q)), key_event_bytes \<mapsto> be64 (of_nat (total_bytes ?q))))
       (oa_seq a)"
    by (rule tx_put_meta [OF B d1(2) kv_valid_meta(2)])
  moreover obtain d3 where d3: "putE B bucket_meta key_schema_version current_schema d2 = Inr d3"
    "tx_view B d3 (map out_entry ?q) (\<lambda>i. map_option marshal_checkpoint (oa_cps a i))
       (mm(key_event_count \<mapsto> be64 (of_nat (length ?q)), key_event_bytes \<mapsto> be64 (of_nat (total_bytes ?q)),
           key_schema_version \<mapsto> current_schema)) (oa_seq a)"
    by (rule tx_put_meta [OF B d2(2) kv_valid_meta(3)])
  ultimately have "migrate_checked B d = Inr d3" by (simp add: migrate_checked_def vr)
  then show ?thesis using d3(2) by (intro that [OF _ _ d3(2)]) (simp_all add: meta_map_def)
qed

lemma errors_commit: "errors_as_class commit_error = None"
  by (simp add: commit_error_def)

lemma open_store_result:
  assumes "bolt_ok B" "options_ok opts" "open_tx B d = Inr (d1, ())" "abs_wf a" "meta_map (oa_queue a) mm"
    and "tx_view B d1 (map out_entry (oa_queue a)) (\<lambda>i. map_option marshal_checkpoint (oa_cps a i)) mm (oa_seq a)"
  shows "(\<exists>d'. open_store B opts d = (d', None) \<and> represents B d' a) \<or>
         commit_fails B \<and> open_store B opts d = (d, Some (Plain ''cannot initialize persistent state''))"
proof -
  have "(\<exists>d'. update_tx B () (open_tx B) d = (d', (), None) \<and> represents B d' a) \<or>
        commit_fails B \<and> update_tx B () (open_tx B) d = (d, (), Some commit_error)"
    by (rule update_tx_refines [where f = "open_tx B", OF assms(1,3,6,5,4)])
  then show ?thesis using assms(2) by (auto simp: open_store_def errors_commit)
qed

theorem reopen_refines:
  assumes B: "bolt_ok B" and o: "options_ok opts" and w: "abs_wf a"
    and v: "tx_view B d (map out_entry (oa_queue a)) (\<lambda>i. map_option marshal_checkpoint (oa_cps a i)) mm (oa_seq a)"
    and version: "mm key_schema_version \<in> {None, Some current_schema}"
  shows "(\<exists>d'. open_store B opts d = (d', None) \<and> represents B d' a) \<or>
         commit_fails B \<and> open_store B opts d = (d, Some (Plain ''cannot initialize persistent state''))"
proof -
  obtain d' mm' where d': "migrate_checked B d = Inr d'" "meta_map (oa_queue a) mm'"
    "tx_view B d' (map out_entry (oa_queue a)) (\<lambda>i. map_option marshal_checkpoint (oa_cps a i)) mm' (oa_seq a)"
    using migrate_checked_view [OF B w v] by blast
  have "validate_and_migrate B d = Inr d'"
    using tx_viewD(4,6-8) [OF B v] version d'(1) by (auto simp: validate_and_migrate_def)
  moreover have "filter (has_bucket B d) required_buckets = required_buckets"
    using v by (intro filter_id_iff) (simp add: tx_view_def)
  ultimately have "open_tx B d = Inr (d', ())"
    by (simp add: open_tx_def required_buckets_def guardE_def)
  from open_store_result [OF B o this w d'(2,3)] show ?thesis .
qed

theorem open_new_refines:
  assumes B: "bolt_ok B" and o: "options_ok opts" and new: "\<forall>b \<in> set required_buckets. \<not> has_bucket B d b"
  shows "(\<exists>d'. open_store B opts d = (d', None) \<and> represents B d' empty_abs) \<or>
         commit_fails B \<and> open_store B opts d = (d, Some (Plain ''cannot initialize persistent state''))"
proof -
  have n: "\<not> has_bucket B d bucket_meta" "\<not> has_bucket B d bucket_outbox" "\<not> has_bucket B d bucket_checkpoints"
    using new by (simp_all add: required_buckets_def)
  obtain d1 where d1: "createE B bucket_meta d = Inr d1" "bentries B d1 bucket_meta = []"
    "\<And>b. has_bucket B d1 b = (b = bucket_meta \<or> has_bucket B d b)"
    using bolt_create [OF B n(1)] by (metis buckets_distinct(7))
  have n2: "\<not> has_bucket B d1 bucket_outbox" using n by (simp add: d1)
  obtain d2 where d2: "createE B bucket_outbox d1 = Inr d2" "bentries B d2 bucket_outbox = []"
    "bseq B d2 bucket_outbox = 0" "bentries B d2 bucket_meta = []"
    "\<And>b. has_bucket B d2 b = (b = bucket_outbox \<or> has_bucket B d1 b)"
    using bolt_create [OF B n2] d1(2) by (metis buckets_distinct(1,8))
  have n3: "\<not> has_bucket B d2 bucket_checkpoints" using n by (simp add: d1 d2)
  obtain d3 where d3: "createE B bucket_checkpoints d2 = Inr d3" "bentries B d3 bucket_checkpoints = []"
    "bentries B d3 bucket_meta = []" "bentries B d3 bucket_outbox = []" "bseq B d3 bucket_outbox = 0"
    "\<And>b. has_bucket B d3 b = (b = bucket_checkpoints \<or> has_bucket B d2 b)"
    using bolt_create [OF B n3] d2(2-4) by (metis buckets_distinct(2,4,9))
  have v: "tx_view B d3 (map out_entry (oa_queue empty_abs))
      (\<lambda>i. map_option marshal_checkpoint (oa_cps empty_abs i)) Map.empty (oa_seq empty_abs)"
    using d3 d2 d1 by (simp add: tx_view_def required_buckets_def empty_abs_def)
  obtain d' mm' where d': "migrate_checked B d3 = Inr d'" "meta_map (oa_queue empty_abs) mm'"
    "tx_view B d' (map out_entry (oa_queue empty_abs)) (\<lambda>i. map_option marshal_checkpoint (oa_cps empty_abs i))
       mm' (oa_seq empty_abs)"
    using migrate_checked_view [OF B empty_abs_wf v] by blast
  have "validate_and_migrate B d3 = Inr d'"
    using tx_viewD(4,6-8) [OF B v] d'(1) by (simp add: validate_and_migrate_def)
  then have "open_tx B d = Inr (d', ())"
    using n d1(1) d2(1) d3(1) by (simp add: open_tx_def required_buckets_def guardE_def)
  from open_store_result [OF B o this empty_abs_wf d'(2,3)] show ?thesis .
qed

section \<open>Reading\<close>

lemma records_view:
  assumes "bolt_ok B" "represents B d a"
  shows "records B limit d = (take limit (oa_queue a), None)"
proof -
  from assms(2) obtain mm where w: "abs_wf a"
    and v: "tx_view B d (map out_entry (oa_queue a)) (\<lambda>i. map_option marshal_checkpoint (oa_cps a i)) mm (oa_seq a)"
    by (rule represents_view)
  have "read_records limit (map out_entry q) = (take limit q, None)" if "\<forall>r \<in> set q. rec_wf r" for q
    using that
  proof (induction q arbitrary: limit)
    case Nil
    then show ?case by (cases limit) simp_all
  next
    case (Cons r q)
    then show ?case by (cases limit) (simp_all add: out_entry_def rec_wf_facts(7))
  qed
  then show ?thesis
    using abs_wf_rec [OF w] tx_viewD(1) [OF assms(1) v] by (simp add: records_def)
qed

lemma stats_view:
  assumes "bolt_ok B" "represents B d a"
  shows "st_events (stats B opts d) = int (length (oa_queue a))"
    "st_bytes (stats B opts d) = int (total_bytes (oa_queue a))"
    "st_full (stats B opts d) \<longleftrightarrow>
       int (length (oa_queue a)) \<ge> opt_max_events opts \<or> int (total_bytes (oa_queue a)) \<ge> opt_max_bytes opts \<or>
       int (card (dom (oa_cps a))) \<ge> opt_max_checkpoints opts"
proof -
  from assms(2) obtain mm where st: "settled B d" and w: "abs_wf a" and mm: "meta_map (oa_queue a) mm"
    and v: "tx_view B d (map out_entry (oa_queue a)) (\<lambda>i. map_option marshal_checkpoint (oa_cps a i)) mm (oa_seq a)"
    by (rule represents_view)
  have "key_n B d bucket_checkpoints = card (dom (oa_cps a))"
    using st tx_viewD(8,9) [OF assms(1) v] by (simp add: settled_def dom_map_option)
  then show "st_events (stats B opts d) = int (length (oa_queue a))"
    "st_bytes (stats B opts d) = int (total_bytes (oa_queue a))"
    "st_full (stats B opts d) \<longleftrightarrow>
       int (length (oa_queue a)) \<ge> opt_max_events opts \<or> int (total_bytes (oa_queue a)) \<ge> opt_max_bytes opts \<or>
       int (card (dom (oa_cps a))) \<ge> opt_max_checkpoints opts"
    using tx_viewD(4) [OF assms(1) v] meta_reads [OF w mm] by (simp_all add: stats_def Let_def)
qed

lemma fetch_state_view:
  assumes "bolt_ok B" "represents B d a" "\<not> alert_id_invalid i"
  shows "fetch_state B i d =
     (case oa_cps a i of
        None \<Rightarrow> (False, [], zero_time, None)
      | Some c \<Rightarrow> (True, cp_list_marker c,
                   if cp_last_fetched_at c \<noteq> 0 then cp_last_fetched_at c else zero_time, None))"
proof -
  from assms(2) obtain mm where w: "abs_wf a"
    and v: "tx_view B d (map out_entry (oa_queue a)) (\<lambda>i. map_option marshal_checkpoint (oa_cps a i)) mm (oa_seq a)"
    by (rule represents_view)
  have "cp_alert_id c \<noteq> []" if "oa_cps a i = Some c" for c
    using abs_wf_cp [OF w that] valid_id_facts(2) [OF assms(3)] by (simp add: cp_wf_def)
  then show ?thesis
    using tx_viewD(3) [OF assms(1) v] read_checkpoint_view [OF w]
    by (auto simp: fetch_state_def get_checkpoint_def zero_checkpoint_def time_unix0_def split: option.split)
qed

end
