(* ===== verification/Outbox_Props.thy ===== *)
theory Outbox_Props
  imports Outbox_Open
begin

text \<open>
  The properties of the durable outbox, stated on its operations: they implement the abstract queue,
  survive a restart, deliver in order, respect the configured capacity, insert a content once, and
  never forget an alert that is listed or has undelivered events. The examples at the start open a
  store on the reference database and enqueue an event; they discharge the hypotheses in the witnesses.
\<close>

section \<open>Examples\<close>

lemma build_event_ok:
  assumes "build_event source i d obs = Inr ee" "times_in_range d" "detail_typed d" "year_ok obs"
  shows "event_ok ee" "ev_alert_id (ee_event ee) = i"
proof -
  note v = build_event_valid [OF assms]
  from assms(1) show "event_ok ee"
    by (rule build_event_Inr) (use v in \<open>simp add: event_ok_def\<close>)
  from assms(1) show "ev_alert_id (ee_event ee) = i" by (rule build_event_Inr)
qed

definition example_options :: store_options where
  "example_options =
     \<lparr>opt_max_bytes = 4000000, opt_max_events = 10, opt_max_checkpoints = 10, opt_retention = 1000\<rparr>"

lemma example_options_ok: "options_ok example_options" "options_sane example_options"
  by (simp_all add: example_options_def options_ok_def options_sane_def size_limit_def)

lemma example_clock: "clock_ok 1" "clock_ok 2"
  by (simp_all add: clock_ok_def max_int64_def)

lemma example_marker: "marker_ok ''m''"
  by (simp add: marker_ok_def byte_def)

lemma ref_commits: "\<not> commit_fails ref_bolt"
  by (simp add: ref_bolt_def commit_fails_def)

lemma example_open: "\<exists>d. open_store ref_bolt example_options [] = (d, None) \<and> represents ref_bolt d empty_abs"
proof -
  have new: "\<forall>b \<in> set required_buckets. \<not> has_bucket ref_bolt [] b" by (simp add: ref_bolt_def)
  from open_new_refines [OF ref_bolt_ok example_options_ok(1) new] ref_commits show ?thesis by blast
qed

lemma example_event: "\<exists>ee. event_ok ee \<and> ev_alert_id (ee_event ee) = ''a1''"
proof -
  obtain ee where "build_event ''ddae-1'' ''a1'' example_detail 0 = Inr ee" using example_build by blast
  from build_event_ok [OF this example_typed example_year] show ?thesis by blast
qed

lemma spec_enqueue_first:
  assumes "event_ok ee"
  shows "\<exists>a. spec_enqueue example_options ee ''m'' 1 empty_abs = Inr (a, True) \<and>
             oa_queue a = [new_record ee 1 1] \<and> oa_seq a = 1"
proof -
  have rw: "rec_wf (new_record ee 1 1)" by (rule new_record_wf [OF assms example_clock(1)]) simp
  have "record_size (new_record ee 1 1) \<le> 3000000" by (rule record_size_bound [OF rw])
  moreover have "length (ee_content_hash ee) = 64"
    using rec_wf_facts(2) [OF rw] by (simp add: new_record_def valid_hash_def)
  then have "ee_content_hash ee \<noteq> []" by auto
  ultimately show ?thesis
    by (simp add: spec_enqueue_def room_for_def empty_abs_def known_content_def seen_cp_def cp_of_def
        zero_checkpoint_def example_options_def total_bytes_def Let_def)
qed

text \<open>A store with one queued event.\<close>

lemma example_queue:
  "\<exists>d a. represents ref_bolt d a \<and> length (oa_queue a) = 1 \<and> (\<forall>r \<in> set (oa_queue a). or_sequence r = 1 \<and>
     or_alert_id r = ''a1'')"
proof -
  obtain d where d: "represents ref_bolt d empty_abs" using example_open by blast
  obtain ee where e: "event_ok ee" "ev_alert_id (ee_event ee) = ''a1''" using example_event by blast
  obtain a where a: "spec_enqueue example_options ee ''m'' 1 empty_abs = Inr (a, True)"
    "oa_queue a = [new_record ee 1 1]" using spec_enqueue_first [OF e(1)] by blast
  have "unat (oa_seq empty_abs) < 18446744073709551615" by (simp add: empty_abs_def)
  from enqueue_refines [OF ref_bolt_ok d e(1) example_marker example_clock(1) example_options_ok(2) this]
  obtain d' where "represents ref_bolt d' a" using a ref_commits by (auto simp: refined_def)
  with a(2) e(2) show ?thesis by (intro exI [of _ d'] exI [of _ a]) (simp add: new_record_def)
qed

section \<open>Properties\<close>

text \<open>
  Claim C9. Enqueue implements its specification: on a database that represents an abstract outbox it
  fails exactly when the specification does, with the same error and without touching the database,
  and otherwise commits the specified state (or leaves the database as it is when the commit fails).
\<close>

theorem enqueue_implements_spec:
  assumes "bolt_ok B" and "represents B d a" and "event_ok ee" and "marker_ok marker" and "clock_ok now"
    and "options_sane opts" and "unat (oa_seq a) < 18446744073709551615"
  shows "case spec_enqueue opts ee marker now a of
           Inl e \<Rightarrow> enqueue B opts ee marker now d = (d, False, Some e)
         | Inr (a', inserted) \<Rightarrow>
             (\<exists>d'. enqueue B opts ee marker now d = (d', inserted, None) \<and> represents B d' a') \<or>
             commit_fails B \<and> enqueue B opts ee marker now d = (d, inserted, Some commit_error)"
  using enqueue_refines [OF assms] by (simp add: refined_def)

lemma enqueue_implements_spec_witness:
  "\<exists>d ee d' a'. represents ref_bolt d empty_abs \<and> event_ok ee \<and>
     enqueue ref_bolt example_options ee ''m'' 1 d = (d', True, None) \<and> represents ref_bolt d' a' \<and>
     oa_queue a' = [new_record ee 1 1]"
proof -
  obtain d where d: "represents ref_bolt d empty_abs" using example_open by blast
  obtain ee where e: "event_ok ee" using example_event by blast
  obtain a where a: "spec_enqueue example_options ee ''m'' 1 empty_abs = Inr (a, True)"
    "oa_queue a = [new_record ee 1 1]" using spec_enqueue_first [OF e] by blast
  have s: "unat (oa_seq empty_abs) < 18446744073709551615" by (simp add: empty_abs_def)
  from enqueue_implements_spec [OF ref_bolt_ok d e example_marker example_clock(1) example_options_ok(2) s]
  show ?thesis using a d e ref_commits by auto
qed

text \<open>
  Claim C10. Acknowledge removes exactly the record with the given sequence number, notes its hash as
  delivered and clears the pending hash when no newer record of the alert is queued; the counters
  follow. It never fails on a well-formed store as long as an alert's records are acknowledged in order.
\<close>

theorem acknowledge_implements_spec:
  assumes "bolt_ok B" and "represents B d a" and "oldest_of_alert s (oa_queue a)"
  shows "((\<exists>d'. acknowledge B s d = (d', None) \<and> represents B d' (spec_acknowledge s a)) \<or>
          commit_fails B \<and> acknowledge B s d = (d, Some commit_error)) \<and>
         oa_queue (spec_acknowledge s a) = filter (\<lambda>r. or_sequence r \<noteq> s) (oa_queue a)"
proof
  show "(\<exists>d'. acknowledge B s d = (d', None) \<and> represents B d' (spec_acknowledge s a)) \<or>
         commit_fails B \<and> acknowledge B s d = (d, Some commit_error)"
    by (rule acknowledge_refines [OF assms])
  show "oa_queue (spec_acknowledge s a) = filter (\<lambda>r. or_sequence r \<noteq> s) (oa_queue a)"
    by (auto simp: spec_acknowledge_def remove_seq_def find_None_iff Let_def split: option.split
        intro!: filter_id_iff [symmetric])
qed

lemma acknowledge_implements_spec_witness:
  "\<exists>d a d'. represents ref_bolt d a \<and> length (oa_queue a) = 1 \<and> acknowledge ref_bolt 1 d = (d', None) \<and>
     represents ref_bolt d' (spec_acknowledge 1 a)"
proof -
  obtain d a where d: "represents ref_bolt d a" "length (oa_queue a) = 1"
    "\<forall>r \<in> set (oa_queue a). or_sequence r = 1 \<and> or_alert_id r = ''a1''" using example_queue by blast
  have "oldest_of_alert 1 (oa_queue a)" using d(3) by (simp add: oldest_of_alert_def)
  from acknowledge_implements_spec [OF ref_bolt_ok d(1) this] show ?thesis
    using d ref_commits by blast
qed

text \<open>
  Claim C11. ReconcileListed after a complete listing: alerts that are listed keep their checkpoint as it
  is; an unlisted alert is stamped as absent once, and forgotten only when it has been absent for the
  retention time and nothing of it is pending. The store reports that it is full when the remaining
  checkpoints reach the limit.
\<close>

theorem reconcile_implements_spec:
  assumes "bolt_ok B" and "represents B d a" and "clock_ok now"
  shows "\<exists>d' err. reconcile_listed B opts listed now True d = (d', err) \<and>
           (err = None \<or> err = Some full_error \<longrightarrow> represents B d' (spec_reconcile opts listed now a)) \<and>
           (err = Some full_error \<longleftrightarrow>
              err \<noteq> Some commit_error \<and>
              int (card (dom (oa_cps (spec_reconcile opts listed now a)))) \<ge> opt_max_checkpoints opts) \<and>
           (err = Some commit_error \<longrightarrow> commit_fails B \<and> d' = d)"
  using reconcile_refines [OF assms, of opts listed]
  by (auto simp: Let_def full_error_def commit_error_def)

lemma reconcile_implements_spec_witness:
  "\<exists>d a d'. represents ref_bolt d a \<and> length (oa_queue a) = 1 \<and>
     represents ref_bolt d' (spec_reconcile example_options {} 2 a)"
proof -
  obtain d a where d: "represents ref_bolt d a" "length (oa_queue a) = 1" using example_queue by blast
  from reconcile_implements_spec [OF ref_bolt_ok d(1) example_clock(2), of example_options "{}"]
  obtain d' err where "err = None \<or> err = Some full_error \<longrightarrow>
      represents ref_bolt d' (spec_reconcile example_options {} 2 a)"
    "err = Some commit_error \<longrightarrow> commit_fails ref_bolt"
    "reconcile_listed ref_bolt example_options {} 2 True d = (d', err)" by blast
  with reconcile_refines [OF ref_bolt_ok d(1) example_clock(2), of example_options "{}"] ref_commits d
  show ?thesis by (auto simp: Let_def)
qed

lemma get_checkpoint_view:
  assumes "bolt_ok B" "represents B d a" "\<not> alert_id_invalid i"
  shows "get_checkpoint B i d =
     (case oa_cps a i of None \<Rightarrow> (zero_checkpoint, False, None) | Some c \<Rightarrow> (c, True, None))"
proof -
  from assms(2) obtain mm where w: "abs_wf a"
    and v: "tx_view B d (map out_entry (oa_queue a)) (\<lambda>i. map_option marshal_checkpoint (oa_cps a i)) mm (oa_seq a)"
    by (rule represents_view)
  have "cp_alert_id c \<noteq> []" if "oa_cps a i = Some c" for c
    using abs_wf_cp [OF w that] valid_id_facts(2) [OF assms(3)] by (simp add: cp_wf_def)
  then show ?thesis
    using tx_viewD(3) [OF assms(1) v] read_checkpoint_view [OF w]
    by (auto simp: get_checkpoint_def zero_checkpoint_def split: option.split)
qed

lemma reconcile_view:
  assumes "bolt_ok B" and "represents B d a" and "clock_ok now"
    and "reconcile_listed B opts listed now True d = (d', err)" and "err \<noteq> Some commit_error"
  shows "represents B d' (spec_reconcile opts listed now a)"
  using reconcile_refines [OF assms(1-3), of opts listed] assms(4,5) by (auto simp: Let_def)

text \<open>
  Claim C12. No alert is forgotten while it matters: after a reconciliation an alert that is listed, or
  has a pending event, still has its checkpoint, with the same hashes and marker; an alert is
  forgotten only if it was stamped absent at least the retention time ago; and the queue is as before.
\<close>

theorem reconcile_keeps_what_matters:
  assumes "bolt_ok B" and "represents B d a" and "clock_ok now" and "\<not> alert_id_invalid i"
    and "get_checkpoint B i d = (c, True, None)"
    and "reconcile_listed B opts listed now True d = (d', err)" and "err \<noteq> Some commit_error"
  shows "(i \<in> listed \<longrightarrow> get_checkpoint B i d' = (c, True, None)) \<and>
         (cp_pending_hash c \<noteq> [] \<longrightarrow> (\<exists>c'. get_checkpoint B i d' = (c', True, None) \<and>
            cp_pending_hash c' = cp_pending_hash c \<and> cp_delivered_hash c' = cp_delivered_hash c \<and>
            cp_list_marker c' = cp_list_marker c)) \<and>
         (get_checkpoint B i d' = (zero_checkpoint, False, None) \<longrightarrow>
            i \<notin> listed \<and> cp_pending_hash c = [] \<and>
            opt_retention opts \<le> time_sub now (if cp_absent_since c = 0 then now else cp_absent_since c)) \<and>
         records B n d' = records B n d"
proof -
  note rep = reconcile_view [OF assms(1-3,6,7)]
  have c: "oa_cps a i = Some c"
    using get_checkpoint_view [OF assms(1,2,4)] assms(5) by (simp split: option.splits)
  have q: "oa_queue (spec_reconcile opts listed now a) = oa_queue a" by (simp add: spec_reconcile_def)
  show ?thesis
    using c records_view [OF assms(1) rep, of n] records_view [OF assms(1,2), of n] q
    by (auto simp: get_checkpoint_view [OF assms(1) rep assms(4)] spec_reconcile_def expired_def
        absent_cp_def time_unix0_def Let_def)
qed

lemma reconcile_keeps_what_matters_witness:
  "\<exists>d d' err c. get_checkpoint ref_bolt ''a1'' d = (c, True, None) \<and>
     reconcile_listed ref_bolt example_options {''a1''} 2 True d = (d', err) \<and>
     get_checkpoint ref_bolt ''a1'' d' = (c, True, None)"
proof -
  obtain d a where d: "represents ref_bolt d a" "length (oa_queue a) = 1"
    "\<forall>r \<in> set (oa_queue a). or_sequence r = 1 \<and> or_alert_id r = ''a1''" using example_queue by blast
  have w: "abs_wf a" using d(1) by (simp add: represents_def)
  obtain r where "r \<in> set (oa_queue a)" using d(2) by (cases "oa_queue a") auto
  then obtain c where "oa_cps a ''a1'' = Some c" using d(3) abs_wf_rec [OF w] by fastforce
  moreover have i: "\<not> alert_id_invalid ''a1''" by code_simp
  ultimately have c: "get_checkpoint ref_bolt ''a1'' d = (c, True, None)"
    using get_checkpoint_view [OF ref_bolt_ok d(1)] by simp
  obtain d' err where r: "reconcile_listed ref_bolt example_options {''a1''} 2 True d = (d', err)"
    by (cases "reconcile_listed ref_bolt example_options {''a1''} 2 True d")
  have e: "err \<noteq> Some commit_error"
    using reconcile_refines [OF ref_bolt_ok d(1) example_clock(2), of example_options "{''a1''}"] r ref_commits
    by (auto simp: Let_def full_error_def commit_error_def split: if_splits)
  from reconcile_keeps_what_matters [OF ref_bolt_ok d(1) example_clock(2) i c r e] c r show ?thesis by blast
qed

text \<open>
  Restart: a database whose content is a well-formed outbox passes the validation of Open,
  whatever its counters say, and represents the same outbox afterwards, with the counters recomputed.
\<close>

theorem open_accepts_own_state:
  assumes "bolt_ok B" and "options_ok opts" and "represents B d a"
  shows "(\<exists>d'. open_store B opts d = (d', None) \<and> represents B d' a) \<or>
         commit_fails B \<and> open_store B opts d = (d, Some (Plain ''cannot initialize persistent state''))"
proof -
  from assms(3) obtain mm where "abs_wf a" "meta_map (oa_queue a) mm"
    "tx_view B d (map out_entry (oa_queue a)) (\<lambda>i. map_option marshal_checkpoint (oa_cps a i)) mm (oa_seq a)"
    by (rule represents_view)
  then show ?thesis using reopen_refines [OF assms(1,2)] by (simp add: meta_map_def)
qed

lemma open_accepts_own_state_witness:
  "\<exists>d a d'. represents ref_bolt d a \<and> length (oa_queue a) = 1 \<and>
     open_store ref_bolt example_options d = (d', None) \<and> represents ref_bolt d' a"
proof -
  obtain d a where d: "represents ref_bolt d a" "length (oa_queue a) = 1" using example_queue by blast
  from open_accepts_own_state [OF ref_bolt_ok example_options_ok(1) d(1)] d ref_commits show ?thesis by blast
qed

text \<open>
  First in, first out: what Records returns is the beginning of the queue, oldest first, with
  strictly increasing sequence numbers, and an event that Enqueue inserts becomes the last record.
\<close>

theorem outbox_is_fifo:
  assumes "bolt_ok B" and "represents B d a" and "event_ok ee" and "marker_ok marker" and "clock_ok now"
    and "options_sane opts" and "unat (oa_seq a) < 18446744073709551615"
    and "enqueue B opts ee marker now d = (d', True, None)"
  shows "records B n d = (take n (oa_queue a), None) \<and>
         records B (Suc (length (oa_queue a))) d' =
           (oa_queue a @ [new_record ee now (oa_seq a + 1)], None) \<and>
         sorted_wrt (\<lambda>r s. or_sequence r < or_sequence s) (oa_queue a @ [new_record ee now (oa_seq a + 1)])"
proof -
  from enqueue_refines [OF assms(1-7)] assms(8) obtain a' where
    a': "spec_enqueue opts ee marker now a = Inr (a', True)" "represents B d' a'"
    by (auto simp: refined_def split: sum.splits)
  then have q: "oa_queue a' = oa_queue a @ [new_record ee now (oa_seq a + 1)]"
    by (auto simp: spec_enqueue_def Let_def split: if_splits)
  have "sorted_wrt (\<lambda>r s. or_sequence r < or_sequence s) (oa_queue a @ [new_record ee now (oa_seq a + 1)])"
    using a'(2) unfolding represents_def abs_wf_def q by blast
  then show ?thesis using records_view [OF assms(1) a'(2)] records_view [OF assms(1,2)] q by simp
qed

lemma outbox_is_fifo_witness:
  "\<exists>d d' ee. records ref_bolt 5 d = ([], None) \<and>
     enqueue ref_bolt example_options ee ''m'' 1 d = (d', True, None) \<and>
     records ref_bolt 1 d' = ([new_record ee 1 1], None)"
proof -
  obtain d where d: "represents ref_bolt d empty_abs" using example_open by blast
  obtain ee where e: "event_ok ee" using example_event by blast
  obtain a where a: "spec_enqueue example_options ee ''m'' 1 empty_abs = Inr (a, True)"
    using spec_enqueue_first [OF e] by blast
  have s: "unat (oa_seq empty_abs) < 18446744073709551615" by (simp add: empty_abs_def)
  from enqueue_refines [OF ref_bolt_ok d e example_marker example_clock(1) example_options_ok(2) s]
  obtain d' where d': "enqueue ref_bolt example_options ee ''m'' 1 d = (d', True, None)"
    using a ref_commits by (auto simp: refined_def)
  from outbox_is_fifo [OF ref_bolt_ok d e example_marker example_clock(1) example_options_ok(2) s d'] d'
  show ?thesis by (simp add: empty_abs_def) blast
qed

definition checkpoint_count :: "'d bolt \<Rightarrow> 'd \<Rightarrow> nat" where
  "checkpoint_count B d = length (bentries B d bucket_checkpoints)"

lemma checkpoint_count_view:
  assumes "bolt_ok B" and "represents B d a"
  shows "checkpoint_count B d = card (dom (oa_cps a))"
proof -
  from assms(2) obtain mm where
    "tx_view B d (map out_entry (oa_queue a)) (\<lambda>i. map_option marshal_checkpoint (oa_cps a i)) mm (oa_seq a)"
    by (rule represents_view)
  from tx_viewD(9) [OF assms(1) this] show ?thesis by (simp add: checkpoint_count_def dom_map_option)
qed

text \<open>When Enqueue is refused: what it needs is over a limit.\<close>

definition over_capacity :: "'d bolt \<Rightarrow> store_options \<Rightarrow> encoded_event \<Rightarrow> outbox_record \<Rightarrow> 'd \<Rightarrow> bool" where
  "over_capacity B opts ee r d \<longleftrightarrow>
     (case get_checkpoint B (ev_alert_id (ee_event ee)) d of
        (c, exists, _) \<Rightarrow>
          \<not> exists \<and> int (checkpoint_count B d) \<ge> opt_max_checkpoints opts \<or>
          \<not> known_content c (ee_content_hash ee) \<and>
            (st_events (stats B opts d) \<ge> opt_max_events opts \<or>
             st_bytes (stats B opts d) + int (record_size r) > opt_max_bytes opts))"

lemma over_capacity_view:
  assumes "bolt_ok B" and "represents B d a" and "\<not> alert_id_invalid (ev_alert_id (ee_event ee))"
  shows "over_capacity B opts ee (new_record ee now (oa_seq a + 1)) d \<longleftrightarrow>
     spec_enqueue opts ee marker now a = Inl full_error"
proof (cases "oa_cps a (ev_alert_id (ee_event ee))")
  case None
  then show ?thesis
    using get_checkpoint_view [OF assms] stats_view(1,2) [OF assms(1,2)] checkpoint_count_view [OF assms(1,2)]
    by (auto simp: over_capacity_def spec_enqueue_def room_for_def known_content_def seen_cp_def cp_of_def Let_def)
next
  case (Some c)
  then show ?thesis
    using get_checkpoint_view [OF assms] stats_view(1,2) [OF assms(1,2)] checkpoint_count_view [OF assms(1,2)]
    by (auto simp: over_capacity_def spec_enqueue_def room_for_def known_content_def seen_cp_def cp_of_def Let_def)
qed

text \<open>
  Claim C13. Capacity. Enqueue is refused with the buffer-full class exactly when it would need a new checkpoint
  while their number has reached MaxCheckpoints, or would insert a record while the number of records
  has reached MaxEvents or the bytes would exceed MaxBytes; every failure, this one or that of the commit,
  leaves the database as it is. After a success the checkpoints are as many as before, or one more for an
  alert that had none, and then at most MaxCheckpoints; after an insertion the records and their bytes
  are within MaxEvents and MaxBytes.
\<close>

theorem enqueue_respects_capacity:
  assumes "bolt_ok B" and "represents B d a" and "event_ok ee" and "marker_ok marker" and "clock_ok now"
    and "options_sane opts" and "unat (oa_seq a) < 18446744073709551615"
    and "enqueue B opts ee marker now d = (d', inserted, err)"
  shows "(err = Some full_error \<longleftrightarrow> over_capacity B opts ee (new_record ee now (oa_seq a + 1)) d) \<and>
         (err \<noteq> None \<longrightarrow> d' = d \<and> (err = Some full_error \<or> err = Some commit_error \<and> commit_fails B)) \<and>
         (err = None \<longrightarrow>
            (if fst (snd (get_checkpoint B (ev_alert_id (ee_event ee)) d))
             then checkpoint_count B d' = checkpoint_count B d
             else checkpoint_count B d' = checkpoint_count B d + 1 \<and>
                  int (checkpoint_count B d') \<le> opt_max_checkpoints opts)) \<and>
         (err = None \<and> inserted \<longrightarrow>
            st_events (stats B opts d') \<le> opt_max_events opts \<and> st_bytes (stats B opts d') \<le> opt_max_bytes opts)"
proof -
  let ?i = "ev_alert_id (ee_event ee)"
  have id: "\<not> alert_id_invalid ?i"
    using assms(3) by (simp add: event_ok_def alert_id_invalid_bytes validate_stored_event_def)
  have r: "refined B d (spec_enqueue opts ee marker now a) False (d', inserted, err)"
    using enqueue_refines [OF assms(1-7)] assms(8) by simp
  note views = get_checkpoint_view [OF assms(1,2) id] checkpoint_count_view [OF assms(1,2)]
  have fin: "finite (dom (oa_cps a))" using assms(2) by (simp add: represents_def abs_wf_def)
  show ?thesis
  proof (cases "spec_enqueue opts ee marker now a")
    case (Inl e)
    then have "e = full_error" by (auto simp: spec_enqueue_def Let_def split: if_splits)
    then show ?thesis
      using Inl r over_capacity_view [OF assms(1,2) id, of opts now marker] by (simp add: refined_def)
  next
    case (Inr s)
    obtain a' ins where s: "s = (a', ins)" by (cases s)
    have spec: "spec_enqueue opts ee marker now a = Inr (a', ins)" by (simp add: Inr s)
    have over: "\<not> over_capacity B opts ee (new_record ee now (oa_seq a + 1)) d"
      using over_capacity_view [OF assms(1,2) id, of opts now marker] spec by simp
    have dom: "dom (oa_cps a') = insert ?i (dom (oa_cps a))"
      and room: "room_for opts ?i a"
      and lim: "ins \<Longrightarrow> int (length (oa_queue a')) \<le> opt_max_events opts \<and>
                  int (total_bytes (oa_queue a')) \<le> opt_max_bytes opts"
      using spec by (auto simp: spec_enqueue_def Let_def split: if_splits)
    show ?thesis
    proof (cases err)
      case None
      then have d': "represents B d' a'" "inserted = ins" using r by (auto simp: refined_def spec)
      have "card (insert ?i (dom (oa_cps a))) = (if oa_cps a ?i = None then Suc (card (dom (oa_cps a)))
          else card (dom (oa_cps a)))"
        using fin by (auto simp: card_insert_if)
      then show ?thesis
        using None over views checkpoint_count_view [OF assms(1) d'(1)] dom room lim d'(2)
          stats_view(1,2) [OF assms(1) d'(1)]
        by (auto simp: room_for_def split: option.splits)
    next
      case (Some e)
      then show ?thesis using r over by (auto simp: refined_def spec full_error_def commit_error_def)
    qed
  qed
qed

lemma enqueue_respects_capacity_witness:
  "\<exists>d d' ee. enqueue ref_bolt example_options ee ''m'' 1 d = (d', True, None) \<and>
     st_events (stats ref_bolt example_options d') \<le> 10 \<and> int (checkpoint_count ref_bolt d') \<le> 10"
proof -
  obtain d where d: "represents ref_bolt d empty_abs" using example_open by blast
  obtain ee where e: "event_ok ee" "ev_alert_id (ee_event ee) = ''a1''" using example_event by blast
  obtain a where a: "spec_enqueue example_options ee ''m'' 1 empty_abs = Inr (a, True)"
    using spec_enqueue_first [OF e(1)] by blast
  have s: "unat (oa_seq empty_abs) < 18446744073709551615" by (simp add: empty_abs_def)
  from enqueue_refines [OF ref_bolt_ok d e(1) example_marker example_clock(1) example_options_ok(2) s]
  obtain d' where d': "enqueue ref_bolt example_options ee ''m'' 1 d = (d', True, None)"
    using a ref_commits by (auto simp: refined_def)
  have i: "\<not> alert_id_invalid ''a1''" by code_simp
  have "get_checkpoint ref_bolt ''a1'' d = (zero_checkpoint, False, None)"
    using get_checkpoint_view [OF ref_bolt_ok d i] by (simp add: empty_abs_def)
  with enqueue_respects_capacity [OF ref_bolt_ok d e(1) example_marker example_clock(1) example_options_ok(2) s d'] d' e(2)
  show ?thesis by (auto simp: example_options_def)
qed

text \<open>
  Content is inserted once: enqueueing an event whose content hash is the newest queued one
  of its alert, or the delivered one when nothing is queued, inserts nothing and leaves the queue as
  it is; so repeating a successful Enqueue, at any later time, does not duplicate the event.
\<close>

theorem enqueue_is_idempotent:
  assumes "bolt_ok B" and "represents B d a" and "event_ok ee" and "marker_ok marker" and "clock_ok now"
    and "options_sane opts" and "unat (oa_seq a) < 18446744073709551615"
    and "enqueue B opts ee marker now d = (d', inserted, None)"
    and "event_ok ee'" and "ev_alert_id (ee_event ee') = ev_alert_id (ee_event ee)"
    and "ee_content_hash ee' = ee_content_hash ee" and "marker_ok marker'" and "clock_ok later"
    and "unat (oa_seq a) < 18446744073709551614"
  shows "\<exists>d'' inserted' err. enqueue B opts ee' marker' later d' = (d'', inserted', err) \<and> \<not> inserted' \<and>
           (err \<noteq> None \<longrightarrow> commit_fails B) \<and> records B n d'' = records B n d'"
proof -
  from enqueue_refines [OF assms(1-7)] assms(8) obtain a' where
    a': "spec_enqueue opts ee marker now a = Inr (a', inserted)" "represents B d' a'"
    by (auto simp: refined_def split: sum.splits)
  let ?i = "ev_alert_id (ee_event ee)"
  have k: "oa_cps a' ?i \<noteq> None" "known_content (cp_of a' ?i) (ee_content_hash ee)"
    "oa_seq a' = oa_seq a \<or> oa_seq a' = oa_seq a + 1"
    using a'(1) by (auto simp: spec_enqueue_def known_content_def seen_cp_def cp_of_def Let_def split: if_splits)
  have s: "unat (oa_seq a') < 18446744073709551615"
  proof -
    have "unat (oa_seq a + 1) = unat (oa_seq a) + 1" using assms(14) by (simp add: unat_word_ariths)
    then show ?thesis using k(3) assms(14) by auto
  qed
  obtain a'' where a'': "spec_enqueue opts ee' marker' later a' = Inr (a'', False)" "oa_queue a'' = oa_queue a'"
    using k(1,2) assms(10,11) by (simp add: spec_enqueue_def room_for_def known_content_def seen_cp_def Let_def)
  have "refined B d' (Inr (a'', False)) False (enqueue B opts ee' marker' later d')"
    using enqueue_refines [OF assms(1) a'(2) assms(9,12,13,6) s] a''(1) by simp
  then show ?thesis
    using records_view [OF assms(1) a'(2), of n] records_view [OF assms(1), of _ a'' n] a''(2)
    by (auto simp: refined_def)
qed

lemma enqueue_is_idempotent_witness:
  "\<exists>d d' ee d'' inserted'. enqueue ref_bolt example_options ee ''m'' 1 d = (d', True, None) \<and>
     enqueue ref_bolt example_options ee ''m'' 2 d' = (d'', inserted', None) \<and> \<not> inserted' \<and>
     records ref_bolt 9 d'' = records ref_bolt 9 d'"
proof -
  obtain d where d: "represents ref_bolt d empty_abs" using example_open by blast
  obtain ee where e: "event_ok ee" using example_event by blast
  obtain a where a: "spec_enqueue example_options ee ''m'' 1 empty_abs = Inr (a, True)"
    using spec_enqueue_first [OF e] by blast
  have s: "unat (oa_seq empty_abs) < 18446744073709551615" "unat (oa_seq empty_abs) < 18446744073709551614"
    by (simp_all add: empty_abs_def)
  from enqueue_refines [OF ref_bolt_ok d e example_marker example_clock(1) example_options_ok(2) s(1)]
  obtain d' where d': "enqueue ref_bolt example_options ee ''m'' 1 d = (d', True, None)"
    using a ref_commits by (auto simp: refined_def)
  from enqueue_is_idempotent [OF ref_bolt_ok d e example_marker example_clock(1) example_options_ok(2) s(1) d'
      e refl refl example_marker example_clock(2) s(2), of 9]
  obtain d'' inserted' err where r: "enqueue ref_bolt example_options ee ''m'' 2 d' = (d'', inserted', err)"
    "\<not> inserted'" "err \<noteq> None \<longrightarrow> commit_fails ref_bolt" "records ref_bolt 9 d'' = records ref_bolt 9 d'" by blast
  have "err = None" using r(3) ref_commits by auto
  then show ?thesis using d' r(1,2,4) by blast
qed

text \<open>
  The identifier check of the store, written over runes, accepts exactly the identifiers that
  ValidateAlertID, written over bytes, lets into a request path; the two hash checks agree as well.
\<close>

theorem identifier_checks_agree:
  "(alert_id_invalid i \<longleftrightarrow> validate_alert_id i \<noteq> Inr ()) \<and> (valid_hash h \<longleftrightarrow> valid_lower_hex_hash h)"
  using alert_id_invalid_bytes valid_hash_eq by blast

end
