(* ===== verification/Outbox_Events.thy ===== *)
theory Outbox_Events
  imports Outbox_Props
begin

text \<open>
  Where BuildEvent meets the outbox: which of the events it builds the outbox can store. Every built event is
  encoded canonically and decoded again; the store's own validation accepts it, and the record made of it,
  exactly when the detail's timestamps stay in the years 0 to 9999 of UTC. The last section follows an event
  for which they do not through Enqueue, Acknowledge and the next Open.
\<close>

section \<open>What BuildEvent encodes\<close>

text \<open>Whatever its timestamps, a normalized alert can be encoded, and a built event is read back.\<close>

lemma normalize_encodable_step:
  assumes n: "normalize_alert d = Inr a" and t: "detail_typed d"
    and rel: "\<And>r b. r \<in> set (ad_events d) \<Longrightarrow> normalize_alert (related_detail r) = Inr b
                \<Longrightarrow> json_ok (alert_json b) \<and> alert_ints b"
  shows "json_ok (alert_json a) \<and> alert_ints a"
  using n
proof (cases rule: normalize_alert_Inr)
  case (1 ack cnt cre upd clr act app cmp nsp msg rsn rid sid rel' evs)
  have "\<forall>b \<in> set evs. json_ok (alert_json b) \<and> alert_ints b"
    using map_eq_map_Inr(2) [OF 1(17)] rel by blast
  moreover have "pred_option is_int64 cnt" "pred_option is_int64 act"
    using optional_count_Inr 1(1,5) t unfolding detail_typed_def by blast+
  moreover note 1(2,3) [THEN optional_timestamp_utf8] 1(4,6-13) [THEN optional_string_utf8]
  moreover have "list_all alert_ints evs" using calculation(1) by (simp add: list_all_iff)
  moreover have "\<forall>r \<in> set (ad_remedies d). utf8_valid r" using 1(15) valid_string_utf8 by blast
  ultimately show ?thesis
    using severities_utf8 [OF normalize_severity_known] unfolding 1(18) by simp
qed

lemma normalize_encodable:
  assumes "normalize_alert d = Inr a" "detail_typed d"
  shows "json_ok (alert_json a)" "alert_ints a"
proof -
  have "json_ok (alert_json b) \<and> alert_ints b"
    if "r \<in> set (ad_events d)" "normalize_alert (related_detail r) = Inr b" for r b
    by (rule normalize_encodable_step [OF that(2)]) (use assms(2) that(1) in \<open>auto simp: detail_typed_def\<close>)
  then have "json_ok (alert_json a) \<and> alert_ints a" by (rule normalize_encodable_step [OF assms])
  then show "json_ok (alert_json a)" "alert_ints a" by simp_all
qed

lemma built_event_decodes:
  assumes "build_event source i d obs = Inr ee" "detail_typed d"
  shows "unmarshal_event (ee_payload ee) = Some (ee_event ee)"
proof -
  from assms(1) obtain a where b: "validate_source_instance source = Inr ()" "validate_alert_id i = Inr ()"
    "normalize_alert d = Inr a" "ev_alert (ee_event ee) = a"
    "ev_schema_version (ee_event ee) = schema_version" "ev_event_type (ee_event ee) = event_type"
    "ev_source_system (ee_event ee) = source_system" "ev_source_instance (ee_event ee) = source"
    "ev_alert_id (ee_event ee) = i" "ev_content_hash (ee_event ee) = sha256_hex (marshal_alert a)"
    "ev_observed_at (ee_event ee) = format_rfc3339 obs" "ee_payload ee = marshal_event (ee_event ee)"
    by (rule build_event_Inr)
  note a = normalize_encodable [OF b(3) assms(2)]
  have "utf8_valid (format_rfc3339 obs)" using format_rfc3339_plain by (fastforce intro: utf8_valid_ascii)
  moreover have "utf8_valid (sha256_hex (marshal_alert a))" by (rule lower_hex_utf8) simp
  moreover have "utf8_valid schema_version" "utf8_valid event_type" "utf8_valid source_system"
    by (simp_all add: schema_version_def event_type_def source_system_def byte_def)
  ultimately have "json_ok (event_json (ee_event ee))"
    using a(1) valid_source_utf8 [OF b(1)] valid_alert_id_utf8 [OF b(2)] by (simp add: event_json_def b)
  moreover have "json_depth (event_json (ee_event ee)) \<le> max_nesting"
    using normalize_alert_depth [OF b(3)] by (simp add: event_json_def b(4) max_nesting_def)
  ultimately show ?thesis
    using a(2) by (simp add: b(4,12) unmarshal_event_def marshal_event_def json_parse_print un_event_event_json)
qed

section \<open>What the validation accepts\<close>

text \<open>Validation finds exactly the timestamps that left the years of the layout.\<close>

lemma normalize_times:
  assumes "normalize_alert d = Inr a" "validate_stored_alert a = Inr ()"
  shows "time_text_ok (ad_created_on d) \<and> time_text_ok (ad_updated_on d)"
  using assms(1)
proof (cases rule: normalize_alert_Inr)
  case (1 ack cnt cre upd clr act app cmp nsp msg rsn rid sid rel evs)
  from assms(2) have "pred_option canonical_time cre" "pred_option canonical_time upd" by (simp_all add: 1(18))
  then show ?thesis using optional_timestamp_year 1(2,3) by blast
qed

lemma validated_in_range:
  assumes n: "normalize_alert d = Inr a" and v: "validate_stored_alert a = Inr ()"
  shows "times_in_range d"
proof -
  from n show ?thesis
  proof (cases rule: normalize_alert_Inr)
    case (1 ack cnt cre upd clr act app cmp nsp msg rsn rid sid rel evs)
    have "time_text_ok (rr_created_on r) \<and> time_text_ok (rr_updated_on r)" if r: "r \<in> set (ad_events d)" for r
    proof -
      obtain b where b: "normalize_alert (related_detail r) = Inr b" "b \<in> set evs"
        using r 1(17) by (metis (no_types, lifting) image_eqI imageE list.set_map)
      moreover have "validate_stored_alert b = Inr ()" using v b(2) by (simp add: 1(18))
      ultimately show ?thesis using normalize_times by fastforce
    qed
    then show ?thesis using normalize_times [OF n v] by (simp add: times_in_range_def)
  qed
qed

lemma built_event_valid_iff:
  assumes b: "build_event source i d obs = Inr ee" and t: "detail_typed d" "year_ok obs"
  shows "validate_stored_event (ee_event ee) = Inr () \<longleftrightarrow> times_in_range d"
proof
  from b obtain a where a: "normalize_alert d = Inr a" "ev_alert (ee_event ee) = a" by (rule build_event_Inr)
  assume "validate_stored_event (ee_event ee) = Inr ()"
  then show "times_in_range d" using validated_in_range [OF a(1)] by (simp add: validate_stored_event_def a(2))
qed (use build_event_valid [OF b _ t] in blast)

section \<open>The record of a built event\<close>

lemma built_record:
  assumes "build_event source i d obs = Inr ee" and "detail_typed d" and "clock_ok now"
  shows "unmarshal_record (marshal_record (new_record ee now n)) = Some (new_record ee now n)"
    and "record_size (new_record ee now n) \<le> 3000000"
    and "\<not> alert_id_invalid (ev_alert_id (ee_event ee))" and "valid_hash (ee_content_hash ee)"
proof -
  from assms(1) obtain a where b: "validate_alert_id i = Inr ()" "ev_alert_id (ee_event ee) = i"
    "ee_content_hash ee = sha256_hex (marshal_alert a)" "length (ee_payload ee) \<le> max_event_bytes"
    "ee_record_key ee = event_record_key source i"
    by (rule build_event_Inr)
  show id: "\<not> alert_id_invalid (ev_alert_id (ee_event ee))" by (simp add: b(1,2) alert_id_invalid_bytes)
  show h: "valid_hash (ee_content_hash ee)" by (simp add: b(3) valid_hash_eq)
  have t: "is_int64 now" using assms(3) by (simp add: clock_ok_def is_int64_def min_int64_def)
  have k: "length (ee_record_key ee) = 64" "length (ee_content_hash ee) = 64"
    using sha256_hex_valid by (simp_all add: b(3,5) event_record_key_def valid_lower_hex_hash_bytes)
  show "unmarshal_record (marshal_record (new_record ee now n)) = Some (new_record ee now n)"
    using valid_id_facts(1) [OF id] hash_facts(1) [of "ee_content_hash ee"] h t
    by (intro unmarshal_marshal_record) (simp_all add: new_record_def hash_ok_def)
  show "record_size (new_record ee now n) \<le> 3000000"
    using valid_id_facts(3) [OF id] t k b(4) by (intro record_size_le) (simp_all add: new_record_def)
qed

lemma built_record_valid_iff:
  assumes "build_event source i d obs = Inr ee" and "detail_typed d" and "year_ok obs"
    and "clock_ok now" and "n \<noteq> 0"
  shows "valid_stored_record (new_record ee now n) \<longleftrightarrow> times_in_range d"
proof
  assume "valid_stored_record (new_record ee now n)"
  then have "validate_stored_event (ee_event ee) = Inr ()"
    using built_event_decodes [OF assms(1,2)] by (simp add: valid_stored_record_def new_record_def Let_def)
  then show "times_in_range d" using built_event_valid_iff [OF assms(1-3)] by blast
next
  assume "times_in_range d"
  then have "event_ok ee" using build_event_ok(1) assms(1-3) by blast
  from rec_wf_facts(8) [OF new_record_wf [OF this assms(4,5)]]
  show "valid_stored_record (new_record ee now n)" .
qed

section \<open>A record that the store refuses to read\<close>

lemma validate_records_append:
  "validate_records (xs @ ys) count used newest ids =
     bindE (validate_records xs count used newest ids) (\<lambda>(c, u, n, s). validate_records ys c u n s)"
proof (induction xs arbitrary: count used newest ids)
  case (Cons e xs)
  obtain k v where e: "e = (k, v)" by (cases e)
  show ?case by (cases "unmarshal_record v") (simp_all add: e Cons fun_upd_def)
qed simp

lemma refused_record_blocks:
  assumes B: "bolt_ok B" and w: "abs_wf a" and n: "n = oa_seq a + 1" "unat (oa_seq a) < 18446744073709551615"
    and r: "or_sequence r = n" "unmarshal_record (marshal_record r) = Some r" "\<not> valid_stored_record r"
    and v: "tx_view B d (map out_entry (oa_queue a @ [r])) cm mm n" and m: "mm key_schema_version = Some current_schema"
  shows "acknowledge_tx B n d = Inl (corruption ''invalid outbox record'')"
    and "open_tx B d = Inl (corruption ''outbox record invariant failed'')"
proof -
  have "n \<noteq> or_sequence x" if "x \<in> set (oa_queue a)" for x
    using w that seq_room(1) [OF n(2)] n(1) by (auto simp: abs_wf_def)
  then have "map_of (map out_entry (oa_queue a)) (be64 n) = None"
    using map_of_out_entries [OF w, of n] by (auto simp: find_None_iff)
  then have "bget B d bucket_outbox (be64 n) = Some (marshal_record r)"
    using tx_viewD(2) [OF B v] r(1) by (simp add: out_entry_def map_add_def)
  then show "acknowledge_tx B n d = Inl (corruption ''invalid outbox record'')"
    using r by (simp add: acknowledge_tx_def guardE_def)
  have q: "\<forall>x \<in> set (oa_queue a). rec_wf x" "unat (0 :: u64) + total_bytes (oa_queue a) \<le> size_limit"
    using w by (simp_all add: abs_wf_def)
  have "n \<noteq> 0" using seq_room(2) [OF n(2)] n(1) by simp
  then have "validate_records (bentries B d bucket_outbox) 0 0 Map.empty {} =
      Inl (corruption ''outbox record invariant failed'')"
    using validate_records_view [OF q, of 0 Map.empty "{}"] tx_viewD(1) [OF B v] r
    by (simp add: validate_records_append out_entry_def)
  then have "validate_and_migrate B d = Inl (corruption ''outbox record invariant failed'')"
    using tx_viewD(4,6-8) [OF B v] m by (simp add: validate_and_migrate_def migrate_checked_def)
  moreover have "filter (has_bucket B d) required_buckets = required_buckets"
    using v by (intro filter_id_iff) (simp add: tx_view_def)
  ultimately show "open_tx B d = Inl (corruption ''outbox record invariant failed'')"
    by (simp add: open_tx_def required_buckets_def guardE_def)
qed

section \<open>Properties\<close>

text \<open>
  Claim C14. What BuildEvent accepts is encoded canonically: its payload decodes to the event and the event encodes to
  the payload, of at most 256 KiB. The outbox accepts the event, and the record that Enqueue makes of it,
  exactly when the timestamps of the detail stay in the years 0 to 9999 of UTC: both \<open>ValidateStoredEvent\<close>
  and the check of stored records succeed for these details and fail for all others.
\<close>

theorem built_event_is_stored_valid:
  assumes "build_event source i d obs = Inr ee" and "detail_typed d" and "year_ok obs"
    and "clock_ok now" and "sequence \<noteq> 0"
  shows "unmarshal_event (ee_payload ee) = Some (ee_event ee) \<and>
         marshal_event (ee_event ee) = ee_payload ee \<and>
         0 < length (ee_payload ee) \<and> length (ee_payload ee) \<le> max_event_bytes \<and>
         (validate_stored_event (ee_event ee) = Inr () \<longleftrightarrow> times_in_range d) \<and>
         (valid_stored_record (new_record ee now sequence) \<longleftrightarrow> times_in_range d)"
proof -
  from assms(1) obtain a where "ee_payload ee = marshal_event (ee_event ee)"
    "length (ee_payload ee) \<le> max_event_bytes"
    by (rule build_event_Inr)
  moreover have "marshal_event e \<noteq> []" for e by (simp add: marshal_event_def event_json_def)
  ultimately show ?thesis
    using built_event_decodes [OF assms(1,2)] built_event_valid_iff [OF assms(1-3)]
      built_record_valid_iff [OF assms]
    by simp
qed

lemma built_event_is_stored_valid_witness:
  "\<exists>ee. build_event ''ddae-1'' ''a1'' example_detail 0 = Inr ee \<and>
        validate_stored_event (ee_event ee) = Inr () \<and> valid_stored_record (new_record ee 1 1)"
proof -
  obtain ee where "build_event ''ddae-1'' ''a1'' example_detail 0 = Inr ee" using example_build by blast
  with built_event_is_stored_valid [OF this example_typed(2) example_year example_clock(1), where sequence = 1]
  show ?thesis using example_typed(1) by auto
qed

text \<open>
  Claim C15. A timestamp outside these years is accepted by BuildEvent and by Enqueue, and blocks the outbox from then
  on: the record is published, but its Acknowledge reports corruption and removes nothing, and the next Open
  of the database reports corruption.
\<close>

theorem far_timestamp_blocks_outbox:
  assumes "bolt_ok B" and "represents B d a" and "unat (oa_seq a) < 18446744073709551615"
    and "build_event source i detail obs = Inr ee" and "detail_typed detail" and "year_ok obs"
    and "\<not> times_in_range detail" and "marker_ok marker" and "clock_ok now"
    and "enqueue B opts ee marker now d = (d', True, None)" and "options_ok opts'"
  shows "validate_stored_event (ee_event ee) \<noteq> Inr () \<and>
         acknowledge B (oa_seq a + 1) d' = (d', Some (corruption ''invalid outbox record'')) \<and>
         open_store B opts' d' = (d', Some (corruption ''outbox record invariant failed''))"
proof -
  let ?n = "oa_seq a + 1" and ?r = "new_record ee now (oa_seq a + 1)"
  note rec = built_record(1) [OF assms(4,5,9), of ?n] built_record(2) [OF assms(4,5,9), of ?n]
    built_record(3,4) [OF assms(4,5,9)]
  have nz: "?n \<noteq> 0" by (rule seq_room(2) [OF assms(3)])
  from assms(10) obtain d1 where d1: "enqueue_tx B opts ee marker now d = Inr (d1, True)" "commit B d1 = Some d'"
    by (auto simp: enqueue_def update_tx_def split: sum.splits option.splits prod.splits)
  note view = enqueue_tx_view [OF assms(1,2) rec(3,4,2) assms(8,9,3), where opts = opts]
  obtain a' mm where s: "spec_enqueue opts ee marker now a = Inr (a', True)" "meta_map (oa_queue a') mm"
    "tx_view B d1 (map out_entry (oa_queue a')) (\<lambda>i. map_option marshal_checkpoint (oa_cps a' i)) mm (oa_seq a')"
    using view d1(1) by (auto split: sum.splits)
  from s(1) have q: "oa_queue a' = oa_queue a @ [?r]" "oa_seq a' = ?n"
    by (auto simp: spec_enqueue_def Let_def split: if_splits)
  note v = tx_commit(1) [OF assms(1) s(3) d1(2), unfolded q]
  have w: "abs_wf a" using assms(2) by (simp add: represents_def)
  have bad: "\<not> valid_stored_record ?r" using built_record_valid_iff [OF assms(4-6,9) nz] assms(7) by blast
  have "or_sequence ?r = ?n" by (simp add: new_record_def)
  note blocked = refused_record_blocks [OF assms(1) w refl assms(3) this rec(1) bad v]
  have "mm key_schema_version = Some current_schema" using s(2) by (simp add: meta_map_def)
  note blocked = blocked [OF this]
  show ?thesis
    using blocked built_event_valid_iff [OF assms(4-6)] assms(7,11)
    by (simp add: acknowledge_def open_store_def update_tx_def corruption_def)
qed

text \<open>The last second of 9999 one hour west of Greenwich, as the creation time of the example.\<close>

definition far_detail :: alert_detail where
  "far_detail = example_detail\<lparr>ad_created_on := Some ''9999-12-31T23:59:59-01:00''\<rparr>"

lemma length_far_time: "length (format_rfc3339 far_time) \<le> 31"
proof -
  have d: "day_number 10000 1 1 = 2932897 + unix_epoch_day"
    by (simp add: day_number_def days_before_year_def days_before_month_def leap_def unix_epoch_day_def)
  have "civil (2932897 + unix_epoch_day) = (10000, 1, 1)"
    unfolding d [symmetric] by (rule civil_day_number) (simp add: date_valid_def days_in_month_def)
  then have u: "utc_date far_time = (10000, 1, 1)" by (simp add: utc_date_def far_time_def)
  have "length (show_nat 10000) = 5" by (simp add: show_nat.simps)
  then have "length (show_year 10000) = 5" by (simp add: show_year_def)
  moreover have "show_frac (nat (far_time mod 1000000000)) = []" by (simp add: far_time_def show_frac_def)
  ultimately show ?thesis by (simp add: format_rfc3339_def u Let_def)
qed

lemma far_detail_facts: "detail_typed far_detail" "\<not> times_in_range far_detail" "ad_id far_detail = ''a1''"
  using example_typed(2) parse_far_time far_time_year
  by (simp_all add: far_detail_def detail_typed_def times_in_range_def time_text_ok_def example_detail_def)

lemma far_build: "\<exists>ee. build_event ''ddae-1'' ''a1'' far_detail 0 = Inr ee"
proof -
  let ?late = "format_rfc3339 far_time"
  let ?a = "Alert ''critical'' None (Some 3) (Some ?late) None None None None None None None None []
              None None None []"
  let ?h = "sha256_hex (marshal_alert ?a)"
  let ?e = "\<lparr>ev_schema_version = schema_version, ev_event_type = event_type,
                ev_source_system = source_system, ev_source_instance = ''ddae-1'',
                ev_alert_id = ''a1'', ev_content_hash = ?h,
                ev_observed_at = format_rfc3339 0, ev_alert = ?a\<rparr>"
  have l: "to_lower (trim_space ''Critical'') = ''critical''" by code_simp
  have "optional_timestamp (Some ''9999-12-31T23:59:59-01:00'') ''created_at'' = Inr (Some ?late)"
    by (simp add: optional_timestamp_def parse_far_time)
  then have n: "normalize_alert far_detail = Inr ?a"
    by (subst normalize_alert.simps)
       (simp add: far_detail_def example_detail_def related_detail_def optional_bool_def optional_count_def
          optional_string_def normalize_severity_def l guardE_def)
  have p: "plain_text ''schema_version''" "plain_text ''event_type''" "plain_text ''source_system''"
    "plain_text ''source_instance''" "plain_text ''alert_id''" "plain_text ''content_hash_sha256''"
    "plain_text ''observed_at''" "plain_text ''alert''" "plain_text ''severity''" "plain_text ''created_at''"
    "plain_text ''occurrence_count''" "plain_text ''critical''" "plain_text ''1.0''"
    "plain_text ''ddae.serviceability_alert.upsert''" "plain_text ''dell_ddae''" "plain_text ''ddae-1''"
    "plain_text ''a1''"
    by (simp_all add: plain_text_def byte_def)
  have "show_int 3 = ''3''" by code_simp
  then have "length (marshal_event ?e) \<le> max_event_bytes"
    using length_format_rfc3339 [OF example_year] length_far_time
    by (simp add: marshal_event_def event_json_def print_str_def json_escape_plain p
        schema_version_def event_type_def source_system_def opt_member_def list_member_def
        jint_def max_event_bytes_def)
  then show ?thesis
    by (simp add: build_event_def example_source example_id far_detail_facts(3) n Let_def guardE_def)
qed

lemma far_timestamp_blocks_outbox_witness:
  "\<exists>d ee d' e e'. open_store ref_bolt example_options [] = (d, None) \<and>
     build_event ''ddae-1'' ''a1'' far_detail 0 = Inr ee \<and>
     enqueue ref_bolt example_options ee ''m'' 1 d = (d', True, None) \<and>
     acknowledge ref_bolt 1 d' = (d', Some e) \<and> open_store ref_bolt example_options d' = (d', Some e')"
proof -
  obtain d where d: "open_store ref_bolt example_options [] = (d, None)" "represents ref_bolt d empty_abs"
    using example_open by blast
  obtain ee where b: "build_event ''ddae-1'' ''a1'' far_detail 0 = Inr ee" using far_build by blast
  have s: "unat (oa_seq empty_abs) < 18446744073709551615" by (simp add: empty_abs_def)
  note rec = built_record(2) [OF b far_detail_facts(1) example_clock(1), of "oa_seq empty_abs + 1"]
    built_record(3,4) [OF b far_detail_facts(1) example_clock(1)]
  have "ee_content_hash ee \<noteq> []" using rec(3) by (auto simp: valid_hash_def)
  then obtain a where "spec_enqueue example_options ee ''m'' 1 empty_abs = Inr (a, True)"
    using rec(1) by (simp add: spec_enqueue_def room_for_def empty_abs_def known_content_def seen_cp_def cp_of_def
        zero_checkpoint_def example_options_def total_bytes_def Let_def)
  then obtain d1 where "enqueue_tx ref_bolt example_options ee ''m'' 1 d = Inr (d1, True)"
    using enqueue_tx_view [OF ref_bolt_ok d(2) rec(2,3,1) example_marker example_clock(1) s,
        where opts = example_options] by auto
  moreover obtain d' where "commit ref_bolt d1 = Some d'"
    using ref_commits unfolding commit_fails_def by (metis not_None_eq)
  ultimately have e: "enqueue ref_bolt example_options ee ''m'' 1 d = (d', True, None)"
    by (simp add: enqueue_def update_tx_def)
  from far_timestamp_blocks_outbox [OF ref_bolt_ok d(2) s b far_detail_facts(1) example_year
      far_detail_facts(2) example_marker example_clock(1) e example_options_ok(1)]
  show ?thesis using d(1) b e by (simp add: empty_abs_def)
qed

end
