(* ===== verification/Kafka_Producer.thy ===== *)
theory Kafka_Producer
  imports Go_Base64 Observability
begin

text \<open>
  The producer of \<open>internal/kafka/producer.go\<close>. The client library (franz-go) is the parameter
  \<open>produce\<close>: a synchronous produce of one record on a client state, which returns the first error
  together with \<open>ctx.Err()\<close> of the publish context, or no error. The sentinel errors
  \<open>context.DeadlineExceeded\<close> and \<open>kerr.SaslAuthenticationFailed\<close> are plain errors.
  TLS material and client options are built from the configuration and handed to the library; of
  \<open>newProducerForTopic\<close> the guards on the configuration are modelled.
\<close>

definition deadline_exceeded :: go_error where "deadline_exceeded = Plain ''context deadline exceeded''"
definition sasl_failed :: go_error where "sasl_failed = Plain ''SASL_AUTHENTICATION_FAILED''"

definition kafka_error :: "fclass \<Rightarrow> go_error" where
  "kafka_error c = Classified c ''Kafka publish failed''"

record kafka_record =
  kr_topic :: bytes
  kr_key :: go_bytes
  kr_value :: go_bytes
  kr_headers :: "(bytes \<times> bytes) list"

type_synonym 'k produce = "kafka_record \<Rightarrow> 'k \<Rightarrow> 'k \<times> (go_error \<times> go_error option) option"

definition record_headers :: "bytes \<Rightarrow> (bytes \<times> bytes) list" where
  "record_headers kind =
     (let headers = [(''content-type'', ''application/json''), (''ddae-schema-version'', ''1.0'')]
      in if kind \<noteq> [] then headers @ [(''ddae-record-kind'', kind)] else headers)"

definition publish_failure_class :: "go_error \<Rightarrow> go_error option \<Rightarrow> fclass" where
  "publish_failure_class err ctx_err =
     (if (case ctx_err of None \<Rightarrow> False | Some c \<Rightarrow> errors_is c deadline_exceeded) \<or>
         errors_is err deadline_exceeded then ClassKafkaTimeout
      else if errors_is err sasl_failed then ClassKafkaAuth
      else ClassKafkaRejected)"

definition publish ::
  "'k produce \<Rightarrow> bytes \<Rightarrow> go_bytes \<Rightarrow> go_bytes \<Rightarrow> bytes \<Rightarrow> 'k \<Rightarrow> 'k \<times> go_error option" where
  "publish produce topic key payload kind k =
     (case produce \<lparr>kr_topic = topic, kr_key = append_nil (slice_bytes key),
                    kr_value = append_nil (slice_bytes payload), kr_headers = record_headers kind\<rparr> k of
        (k', None) \<Rightarrow> (k', None)
      | (k', Some (err, ctx_err)) \<Rightarrow> (k', Some (kafka_error (publish_failure_class err ctx_err))))"

definition publish_log :: "'k produce \<Rightarrow> bytes \<Rightarrow> go_bytes \<Rightarrow> go_bytes \<Rightarrow> 'k \<Rightarrow> 'k \<times> go_error option" where
  "publish_log produce topic key payload = publish produce topic key payload ''serviceability_log''"

definition publish_query :: "'k produce \<Rightarrow> bytes \<Rightarrow> go_bytes \<Rightarrow> go_bytes \<Rightarrow> 'k \<Rightarrow> 'k \<times> go_error option" where
  "publish_query produce topic key payload = publish produce topic key payload ''query''"

text \<open>
  \<open>broker_ok send accepted\<close>: what a synchronous produce with all in-sync replicas acknowledged
  promises. After a success the record is the last one accepted; after an error it may or may not
  have been accepted (a timeout cancels the wait, not the delivery).
\<close>

definition broker_ok :: "('r \<Rightarrow> 'k \<Rightarrow> 'k \<times> go_error option) \<Rightarrow> ('k \<Rightarrow> 'r list) \<Rightarrow> bool" where
  "broker_ok send accepted \<longleftrightarrow>
     (\<forall>r k k'. send r k = (k', None) \<longrightarrow> accepted k' = accepted k @ [r]) \<and>
     (\<forall>r k k' e. send r k = (k', Some e) \<longrightarrow> accepted k' = accepted k \<or> accepted k' = accepted k @ [r])"

lemma broker_okD:
  assumes "broker_ok send accepted"
  shows "send r k = (k', None) \<Longrightarrow> accepted k' = accepted k @ [r]"
    and "send r k = (k', Some e) \<Longrightarrow> accepted k' = accepted k \<or> accepted k' = accepted k @ [r]"
  using assms unfolding broker_ok_def by blast+

text \<open>A reference client: the accepted records, newest last, and a script of outcomes.\<close>

definition ref_send :: "'r \<Rightarrow> 'r list \<times> bool list \<Rightarrow> ('r list \<times> bool list) \<times> go_error option" where
  "ref_send r k =
     (case snd k of
        False # ok \<Rightarrow> ((fst k, ok), Some (kafka_error ClassKafkaRejected))
      | ok \<Rightarrow> ((fst k @ [r], tl ok), None))"

lemma ref_send_ok: "broker_ok ref_send fst"
  by (auto simp: broker_ok_def ref_send_def split: list.splits bool.splits)

text \<open>Every failed publish is reported under one of the three Kafka classes.\<close>

lemma publish_error_class:
  assumes "publish produce topic key payload kind k = (k', Some e)"
  shows "classify (Some e) \<in> {Some ClassKafkaTimeout, Some ClassKafkaAuth, Some ClassKafkaRejected}"
  using assms
  by (auto simp: publish_def kafka_error_def classify_def publish_failure_class_def
      split: prod.splits option.splits if_splits)

end
