(* ===== verification/Snapshot.thy ===== *)
theory Snapshot
  imports Observability
begin

text \<open>
  Package \<open>internal/snapshot\<close>: the in-memory diagnostic state every pipeline writes and the HTTP
  handlers and the metrics collector read. \<open>view\<close> is the Go struct \<open>View\<close>; each exported method of
  \<open>Store\<close> runs under the store's mutex and is one function on views (\<open>Load\<close> is a deep copy, the
  identity on values). \<open>snap_step\<close> lists the methods as the transitions of the store, and
  \<open>snap_reach\<close> the views a store can hold after \<open>NewStore\<close>. Float64 values are of a parameter
  type \<open>'f\<close>: the store only keeps them.
\<close>

section \<open>State\<close>

definition collector_names :: "string list" where
  "collector_names = [''ping'', ''clusters'', ''nodes'', ''lock'', ''power'', ''alert_list'',
     ''alert_detail'', ''serviceability_log_list'', ''serviceability_log_detail'']"

record 'f optional_float =
  of_value :: 'f
  of_valid :: bool

record 'f snap_cluster =
  cl_id :: string
  cl_state :: string
  coordinator_cpu :: "'f optional_float"
  coordinator_memory :: "'f optional_float"
  worker_cpu :: "'f optional_float"
  worker_memory :: "'f optional_float"

record 'f snap_node =
  nd_id :: string
  nd_state :: string
  capacity_cpu :: "'f optional_float"
  capacity_memory :: "'f optional_float"
  capacity_ephemeral_storage :: "'f optional_float"
  allocatable_cpu :: "'f optional_float"
  allocatable_memory :: "'f optional_float"
  allocatable_ephemeral_storage :: "'f optional_float"
  disk_pressure :: "bool option"
  memory_pressure :: "bool option"

record snap_power =
  control_plane_ready :: bool
  nodes_ready :: int
  total_nodes :: int

record 'a family =
  fam_data :: 'a
  collected_at :: go_time
  present :: bool

record collector_status =
  st_success :: bool
  st_duration :: go_duration

record 'f view =
  v_ping :: "bool family"
  v_clusters :: "'f snap_cluster list family"
  v_nodes :: "'f snap_node list family"
  v_lock :: "bool family"
  v_power :: "snap_power family"
  last_complete_at :: go_time
  collectors :: "string \<rightharpoonup> collector_status"
  alert_list_complete :: bool
  alert_pipeline_ready :: bool
  alert_collection_ready :: bool
  alert_pipeline_state_ok :: bool
  alert_publisher_state_ok :: bool
  alert_state_full :: bool
  alert_deferred :: int
  kafka_publish_success :: bool
  kafka_publish_duration :: go_duration
  kafka_published_total :: u64
  kafka_failed_total :: "fclass \<rightharpoonup> u64"
  kafka_buffered :: int
  log_list_complete :: bool
  log_pipeline_ready :: bool
  log_collection_ready :: bool
  log_pipeline_state_ok :: bool
  log_publisher_state_ok :: bool
  log_state_full :: bool
  log_deferred :: int
  log_publish_success :: bool
  log_publish_duration :: go_duration
  log_published_total :: u64
  log_failed_total :: "fclass \<rightharpoonup> u64"
  log_buffered :: int

definition zero_status :: collector_status where
  "zero_status = \<lparr>st_success = False, st_duration = 0\<rparr>"

definition no_family :: "'a \<Rightarrow> 'a family" where
  "no_family z = \<lparr>fam_data = z, collected_at = zero_time, present = False\<rparr>"

definition new_store :: "'f view" where
  "new_store =
     \<lparr>v_ping = no_family False, v_clusters = no_family [], v_nodes = no_family [],
      v_lock = no_family False,
      v_power = no_family \<lparr>control_plane_ready = False, nodes_ready = 0, total_nodes = 0\<rparr>,
      last_complete_at = zero_time,
      collectors = map_of (map (\<lambda>name. (name, zero_status)) collector_names),
      alert_list_complete = False, alert_pipeline_ready = False, alert_collection_ready = False,
      alert_pipeline_state_ok = False, alert_publisher_state_ok = False, alert_state_full = False,
      alert_deferred = 0, kafka_publish_success = False, kafka_publish_duration = 0,
      kafka_published_total = 0, kafka_failed_total = Map.empty, kafka_buffered = 0,
      log_list_complete = False, log_pipeline_ready = False, log_collection_ready = False,
      log_pipeline_state_ok = False, log_publisher_state_ok = False, log_state_full = False,
      log_deferred = 0, log_publish_success = False, log_publish_duration = 0,
      log_published_total = 0, log_failed_total = Map.empty, log_buffered = 0\<rparr>"

text \<open>Reading a Go map: a missing key yields the zero value.\<close>

definition collector_status_of :: "'f view \<Rightarrow> string \<Rightarrow> collector_status" where
  "collector_status_of v name =
     (case collectors v name of None \<Rightarrow> zero_status | Some s \<Rightarrow> s)"

definition failed_count :: "(fclass \<rightharpoonup> u64) \<Rightarrow> fclass \<Rightarrow> u64" where
  "failed_count m c = (case m c of None \<Rightarrow> 0 | Some n \<Rightarrow> n)"

section \<open>Operations\<close>

definition set_status :: "string \<Rightarrow> bool \<Rightarrow> go_duration \<Rightarrow> 'f view \<Rightarrow> 'f view" where
  "set_status name success duration v =
     v\<lparr>collectors := (collectors v)(name \<mapsto> \<lparr>st_success = success, st_duration = duration\<rparr>)\<rparr>"

definition fresh_family :: "'a \<Rightarrow> go_time \<Rightarrow> 'a family" where
  "fresh_family value at = \<lparr>fam_data = value, collected_at = at, present = True\<rparr>"

definition record_ping :: "bool \<Rightarrow> bool \<Rightarrow> bool \<Rightarrow> go_time \<Rightarrow> go_duration \<Rightarrow> 'f view \<Rightarrow> 'f view" where
  "record_ping value usable success at duration v =
     set_status ''ping'' success duration
       (if usable then v\<lparr>v_ping := fresh_family value at\<rparr> else v)"

definition record_clusters ::
  "'f snap_cluster list \<Rightarrow> bool \<Rightarrow> bool \<Rightarrow> go_time \<Rightarrow> go_duration \<Rightarrow> 'f view \<Rightarrow> 'f view" where
  "record_clusters value usable success at duration v =
     set_status ''clusters'' success duration
       (if usable then v\<lparr>v_clusters := fresh_family value at\<rparr> else v)"

definition record_nodes ::
  "'f snap_node list \<Rightarrow> bool \<Rightarrow> bool \<Rightarrow> go_time \<Rightarrow> go_duration \<Rightarrow> 'f view \<Rightarrow> 'f view" where
  "record_nodes value usable success at duration v =
     set_status ''nodes'' success duration
       (if usable then v\<lparr>v_nodes := fresh_family value at\<rparr> else v)"

definition record_lock :: "bool \<Rightarrow> bool \<Rightarrow> bool \<Rightarrow> go_time \<Rightarrow> go_duration \<Rightarrow> 'f view \<Rightarrow> 'f view" where
  "record_lock value usable success at duration v =
     set_status ''lock'' success duration
       (if usable then v\<lparr>v_lock := fresh_family value at\<rparr> else v)"

definition record_power ::
  "snap_power \<Rightarrow> bool \<Rightarrow> bool \<Rightarrow> go_time \<Rightarrow> go_duration \<Rightarrow> 'f view \<Rightarrow> 'f view" where
  "record_power value usable success at duration v =
     set_status ''power'' success duration
       (if usable then v\<lparr>v_power := fresh_family value at\<rparr> else v)"

definition complete_required_cycle :: "go_time \<Rightarrow> bool \<Rightarrow> 'f view \<Rightarrow> 'f view" where
  "complete_required_cycle at success v = (if \<not> success then v else v\<lparr>last_complete_at := at\<rparr>)"

definition record_alert_list :: "bool \<Rightarrow> bool \<Rightarrow> go_duration \<Rightarrow> 'f view \<Rightarrow> 'f view" where
  "record_alert_list success complete duration v =
     (set_status ''alert_list'' success duration v)\<lparr>alert_list_complete := success \<and> complete\<rparr>"

definition record_alert_detail :: "bool \<Rightarrow> go_duration \<Rightarrow> int \<Rightarrow> 'f view \<Rightarrow> 'f view" where
  "record_alert_detail success duration deferred v =
     (set_status ''alert_detail'' success duration v)\<lparr>alert_deferred := deferred\<rparr>"

definition recompute_alert_ready :: "'f view \<Rightarrow> 'f view" where
  "recompute_alert_ready v =
     v\<lparr>alert_pipeline_ready := alert_collection_ready v \<and> alert_pipeline_state_ok v \<and>
         alert_publisher_state_ok v \<and> \<not> alert_state_full v\<rparr>"

definition set_alert_pipeline_ready :: "bool \<Rightarrow> 'f view \<Rightarrow> 'f view" where
  "set_alert_pipeline_ready ready v =
     recompute_alert_ready
       (v\<lparr>alert_collection_ready := ready, alert_pipeline_state_ok := ready,
          alert_publisher_state_ok := ready, alert_state_full := False\<rparr>)"

definition set_alert_collection_ready :: "bool \<Rightarrow> 'f view \<Rightarrow> 'f view" where
  "set_alert_collection_ready ready v =
     recompute_alert_ready (v\<lparr>alert_collection_ready := ready\<rparr>)"

definition set_alert_pipeline_state_healthy :: "bool \<Rightarrow> 'f view \<Rightarrow> 'f view" where
  "set_alert_pipeline_state_healthy healthy v =
     recompute_alert_ready (v\<lparr>alert_pipeline_state_ok := healthy\<rparr>)"

definition set_alert_publisher_state_healthy :: "bool \<Rightarrow> 'f view \<Rightarrow> 'f view" where
  "set_alert_publisher_state_healthy healthy v =
     recompute_alert_ready (v\<lparr>alert_publisher_state_ok := healthy\<rparr>)"

definition set_alert_state_full :: "bool \<Rightarrow> 'f view \<Rightarrow> 'f view" where
  "set_alert_state_full full v = recompute_alert_ready (v\<lparr>alert_state_full := full\<rparr>)"

definition bump_failed :: "fclass option \<Rightarrow> (fclass \<rightharpoonup> u64) \<Rightarrow> (fclass \<rightharpoonup> u64)" where
  "bump_failed failure m =
     (case failure of None \<Rightarrow> m | Some c \<Rightarrow> m(c \<mapsto> failed_count m c + 1))"

definition record_kafka_publish ::
  "bool \<Rightarrow> go_duration \<Rightarrow> int \<Rightarrow> fclass option \<Rightarrow> int \<Rightarrow> 'f view \<Rightarrow> 'f view" where
  "record_kafka_publish success duration acknowledged failure buffered v =
     v\<lparr>kafka_publish_success := success, kafka_publish_duration := duration,
       kafka_published_total :=
         (if acknowledged > 0 then kafka_published_total v + word_of_int acknowledged
          else kafka_published_total v),
       kafka_failed_total := bump_failed failure (kafka_failed_total v),
       kafka_buffered := buffered\<rparr>"

definition set_kafka_buffered :: "int \<Rightarrow> 'f view \<Rightarrow> 'f view" where
  "set_kafka_buffered buffered v = v\<lparr>kafka_buffered := buffered\<rparr>"

definition record_log_list :: "bool \<Rightarrow> bool \<Rightarrow> go_duration \<Rightarrow> 'f view \<Rightarrow> 'f view" where
  "record_log_list success complete duration v =
     (set_status ''serviceability_log_list'' success duration v)
       \<lparr>log_list_complete := success \<and> complete\<rparr>"

definition record_log_detail :: "bool \<Rightarrow> go_duration \<Rightarrow> int \<Rightarrow> 'f view \<Rightarrow> 'f view" where
  "record_log_detail success duration deferred v =
     (set_status ''serviceability_log_detail'' success duration v)\<lparr>log_deferred := deferred\<rparr>"

definition recompute_log_ready :: "'f view \<Rightarrow> 'f view" where
  "recompute_log_ready v =
     v\<lparr>log_pipeline_ready := log_collection_ready v \<and> log_pipeline_state_ok v \<and>
         log_publisher_state_ok v \<and> \<not> log_state_full v\<rparr>"

definition set_log_collection_ready :: "bool \<Rightarrow> 'f view \<Rightarrow> 'f view" where
  "set_log_collection_ready ready v = recompute_log_ready (v\<lparr>log_collection_ready := ready\<rparr>)"

definition set_log_pipeline_state_healthy :: "bool \<Rightarrow> 'f view \<Rightarrow> 'f view" where
  "set_log_pipeline_state_healthy healthy v =
     recompute_log_ready (v\<lparr>log_pipeline_state_ok := healthy\<rparr>)"

definition set_log_publisher_state_healthy :: "bool \<Rightarrow> 'f view \<Rightarrow> 'f view" where
  "set_log_publisher_state_healthy healthy v =
     recompute_log_ready (v\<lparr>log_publisher_state_ok := healthy\<rparr>)"

definition set_log_state_full :: "bool \<Rightarrow> 'f view \<Rightarrow> 'f view" where
  "set_log_state_full full v = recompute_log_ready (v\<lparr>log_state_full := full\<rparr>)"

definition record_log_publish ::
  "bool \<Rightarrow> go_duration \<Rightarrow> int \<Rightarrow> fclass option \<Rightarrow> int \<Rightarrow> 'f view \<Rightarrow> 'f view" where
  "record_log_publish success duration acknowledged failure buffered v =
     v\<lparr>log_publish_success := success, log_publish_duration := duration,
       log_published_total :=
         (if acknowledged > 0 then log_published_total v + word_of_int acknowledged
          else log_published_total v),
       log_failed_total := bump_failed failure (log_failed_total v),
       log_buffered := buffered\<rparr>"

definition set_log_buffered :: "int \<Rightarrow> 'f view \<Rightarrow> 'f view" where
  "set_log_buffered buffered v = v\<lparr>log_buffered := buffered\<rparr>"

section \<open>Readiness\<close>

definition family_current :: "go_time \<Rightarrow> bool \<Rightarrow> go_time \<Rightarrow> go_duration \<Rightarrow> bool" where
  "family_current at pres now stale_after \<longleftrightarrow>
     pres \<and> \<not> is_zero at \<and> time_sub now at \<le> stale_after"

definition required_names :: "string list" where
  "required_names = [''ping'', ''clusters'', ''nodes'', ''lock'', ''power'']"

definition family_stamps :: "'f view \<Rightarrow> (go_time \<times> bool) list" where
  "family_stamps v =
     [(collected_at (v_ping v), present (v_ping v)),
      (collected_at (v_clusters v), present (v_clusters v)),
      (collected_at (v_nodes v), present (v_nodes v)),
      (collected_at (v_lock v), present (v_lock v)),
      (collected_at (v_power v), present (v_power v))]"

definition required_current :: "'f view \<Rightarrow> go_time \<Rightarrow> go_duration \<Rightarrow> bool" where
  "required_current v now stale_after =
     (if is_zero (last_complete_at v) \<or> time_sub now (last_complete_at v) > stale_after then False
      else if \<not> list_all (\<lambda>name. st_success (collector_status_of v name)) required_names then False
      else list_all (\<lambda>(at, pres). family_current at pres now stale_after) (family_stamps v))"

text \<open>The variadic last parameter of \<open>ReadyFor\<close> is a list; only its first element is read.\<close>

definition ready_for :: "'f view \<Rightarrow> go_time \<Rightarrow> go_duration \<Rightarrow> bool \<Rightarrow> bool \<Rightarrow> bool list \<Rightarrow> bool" where
  "ready_for v now stale_after resources_enabled alerts_enabled logs =
     (let logs_enabled = (case logs of [] \<Rightarrow> False | b # _ \<Rightarrow> b)
      in if \<not> resources_enabled \<and> \<not> alerts_enabled \<and> \<not> logs_enabled then False
         else if resources_enabled \<and> \<not> required_current v now stale_after then False
         else if alerts_enabled \<and> \<not> alert_pipeline_ready v then False
         else if logs_enabled \<and> \<not> log_pipeline_ready v then False
         else True)"

definition ready :: "'f view \<Rightarrow> go_time \<Rightarrow> go_duration \<Rightarrow> bool" where
  "ready v now stale_after = ready_for v now stale_after True True []"

section \<open>Transitions and reachable views\<close>

text \<open>One rule per exported method that writes the view.\<close>

inductive snap_step :: "'f view \<Rightarrow> 'f view \<Rightarrow> bool" where
  ping: "snap_step v (record_ping b u s at d v)"
| clusters: "snap_step v (record_clusters cs u s at d v)"
| nodes: "snap_step v (record_nodes ns u s at d v)"
| lock: "snap_step v (record_lock b u s at d v)"
| power: "snap_step v (record_power p u s at d v)"
| cycle: "snap_step v (complete_required_cycle at s v)"
| alert_list: "snap_step v (record_alert_list s c d v)"
| alert_detail: "snap_step v (record_alert_detail s d n v)"
| alert_ready: "snap_step v (set_alert_pipeline_ready b v)"
| alert_collection: "snap_step v (set_alert_collection_ready b v)"
| alert_pipeline_state: "snap_step v (set_alert_pipeline_state_healthy b v)"
| alert_publisher_state: "snap_step v (set_alert_publisher_state_healthy b v)"
| alert_full: "snap_step v (set_alert_state_full b v)"
| kafka_publish: "snap_step v (record_kafka_publish s d a f n v)"
| kafka_buffered: "snap_step v (set_kafka_buffered n v)"
| log_list: "snap_step v (record_log_list s c d v)"
| log_detail: "snap_step v (record_log_detail s d n v)"
| log_collection: "snap_step v (set_log_collection_ready b v)"
| log_pipeline_state: "snap_step v (set_log_pipeline_state_healthy b v)"
| log_publisher_state: "snap_step v (set_log_publisher_state_healthy b v)"
| log_full: "snap_step v (set_log_state_full b v)"
| log_publish: "snap_step v (record_log_publish s d a f n v)"
| log_buffered: "snap_step v (set_log_buffered n v)"

inductive snap_reach :: "'f view \<Rightarrow> bool" where
  start: "snap_reach new_store"
| step: "snap_reach v \<Longrightarrow> snap_step v w \<Longrightarrow> snap_reach w"

lemmas snap_op_defs =
  record_ping_def record_clusters_def record_nodes_def record_lock_def record_power_def
  complete_required_cycle_def record_alert_list_def record_alert_detail_def
  recompute_alert_ready_def set_alert_pipeline_ready_def set_alert_collection_ready_def
  set_alert_pipeline_state_healthy_def set_alert_publisher_state_healthy_def
  set_alert_state_full_def record_kafka_publish_def set_kafka_buffered_def
  record_log_list_def record_log_detail_def recompute_log_ready_def
  set_log_collection_ready_def set_log_pipeline_state_healthy_def
  set_log_publisher_state_healthy_def set_log_state_full_def record_log_publish_def
  set_log_buffered_def set_status_def

section \<open>Invariants\<close>

definition ready_flags_ok :: "'f view \<Rightarrow> bool" where
  "ready_flags_ok v \<longleftrightarrow>
     (alert_pipeline_ready v \<longleftrightarrow> alert_collection_ready v \<and> alert_pipeline_state_ok v \<and>
        alert_publisher_state_ok v \<and> \<not> alert_state_full v) \<and>
     (log_pipeline_ready v \<longleftrightarrow> log_collection_ready v \<and> log_pipeline_state_ok v \<and>
        log_publisher_state_ok v \<and> \<not> log_state_full v)"

text \<open>The collector table never loses a name, and families never become absent again.\<close>

definition table_total :: "'f view \<Rightarrow> bool" where
  "table_total v \<longleftrightarrow> dom (collectors v) = set collector_names"

lemma snap_step_flags: "snap_step v w \<Longrightarrow> ready_flags_ok v \<Longrightarrow> ready_flags_ok w"
  by (induction rule: snap_step.induct) (auto simp: ready_flags_ok_def snap_op_defs)

lemma snap_step_table: "snap_step v w \<Longrightarrow> table_total v \<Longrightarrow> table_total w"
  by (induction rule: snap_step.induct)
     (auto simp: table_total_def snap_op_defs collector_names_def)

lemma new_store_ok: "ready_flags_ok new_store" "table_total new_store"
proof -
  show "ready_flags_ok new_store" by (simp add: ready_flags_ok_def new_store_def)
  show "table_total new_store"
    by (auto simp: table_total_def new_store_def collector_names_def)
qed

lemma snap_reach_flags: "snap_reach v \<Longrightarrow> ready_flags_ok v"
  by (induction rule: snap_reach.induct) (blast intro: new_store_ok snap_step_flags)+

lemma snap_reach_table: "snap_reach v \<Longrightarrow> table_total v"
  by (induction rule: snap_reach.induct) (blast intro: new_store_ok snap_step_table)+

text \<open>
  In every view the store can hold, whatever interleaving of the collector, pipeline and
  publisher goroutines produced it, the aggregated readiness flag of the alert pipeline and that of
  the serviceability-log pipeline equal the conjunction of their component flags (collection ready,
  pipeline state healthy, publisher state healthy, state not full), and the collector table holds
  exactly the nine fixed collector names.
\<close>

theorem readiness_flags_consistent:
  assumes "snap_reach v"
  shows "(alert_pipeline_ready v \<longleftrightarrow> alert_collection_ready v \<and> alert_pipeline_state_ok v \<and>
            alert_publisher_state_ok v \<and> \<not> alert_state_full v) \<and>
         (log_pipeline_ready v \<longleftrightarrow> log_collection_ready v \<and> log_pipeline_state_ok v \<and>
            log_publisher_state_ok v \<and> \<not> log_state_full v) \<and>
         dom (collectors v) = set collector_names"
  using snap_reach_flags [OF assms] snap_reach_table [OF assms]
  by (simp add: ready_flags_ok_def table_total_def)

theorem readiness_flags_consistent_witness:
  "let v = set_alert_state_full True (set_alert_pipeline_ready True (new_store :: nat view))
   in snap_reach v \<and> \<not> alert_pipeline_ready v \<and> alert_collection_ready v"
proof -
  let ?v = "set_alert_state_full True (set_alert_pipeline_ready True (new_store :: nat view))"
  have "snap_reach (set_alert_pipeline_ready True (new_store :: nat view))"
    by (rule snap_reach.step [OF snap_reach.start snap_step.alert_ready])
  then have r: "snap_reach ?v" by (rule snap_reach.step [OF _ snap_step.alert_full])
  have "alert_collection_ready ?v" and "alert_state_full ?v" by (simp_all add: snap_op_defs)
  then show ?thesis using r readiness_flags_consistent [OF r] by (simp add: Let_def)
qed

section \<open>Freshness\<close>

lemma family_current_antimono:
  "now \<le> now' \<Longrightarrow> family_current at p now' s \<Longrightarrow> family_current at p now s"
  using time_sub_mono [of now now' at] by (auto simp: family_current_def)

lemma required_current_antimono:
  assumes "now \<le> now'" and "required_current v now' s"
  shows "required_current v now s"
  using assms time_sub_mono [of now now' "last_complete_at v"]
  by (auto simp: required_current_def family_stamps_def
      intro: family_current_antimono split: if_splits)

lemma required_currentD:
  assumes "required_current v now s" and "name \<in> set required_names"
  shows "st_success (collector_status_of v name)"
  using assms by (auto simp: required_current_def list_all_iff split: if_splits)

lemma ready_for_iff:
  "ready_for v now s r a ls \<longleftrightarrow>
     (r \<or> a \<or> (ls \<noteq> [] \<and> hd ls)) \<and> (r \<longrightarrow> required_current v now s) \<and>
     (a \<longrightarrow> alert_pipeline_ready v) \<and> (ls \<noteq> [] \<and> hd ls \<longrightarrow> log_pipeline_ready v)"
  by (cases ls) (auto simp: ready_for_def Let_def)

end
