(* ===== verification/Publisher.thy ===== *)
theory Publisher
  imports Kafka_Producer Outbox_Props Snapshot
begin

text \<open>
  The publisher loop of \<open>internal/kafka/producer.go\<close> (\<open>Publisher\<close>), which moves records from a durable
  queue to the broker: read a batch, publish each record, acknowledge it, report. The loop of
  \<open>internal/logpublisher\<close> is the same program on another store and other diagnostics, so the
  queue it drains (\<open>queue_ops\<close>, the Go interface \<open>Outbox\<close>) and the diagnostics it writes
  (\<open>diag_ops\<close>) are arguments. \<open>time.Since(started)\<close> of the n-th record is the argument \<open>since\<close>.

  The locale \<open>delivery_queue\<close> states what the loop relies on; the lemmas inside it show that the
  loop delivers in order, never removes a record it has not published, and drains the queue when
  nothing fails. It is interpreted on the durable outbox.
\<close>

section \<open>The loop\<close>

record ('s, 'r) queue_ops =
  q_records :: "nat \<Rightarrow> 's \<Rightarrow> 'r list \<times> go_error option"
  q_ack :: "u64 \<Rightarrow> 's \<Rightarrow> 's \<times> go_error option"
  q_health :: "'s \<Rightarrow> int \<times> bool \<times> go_error option"
  q_seq :: "'r \<Rightarrow> u64"

record 'v diag_ops =
  dg_healthy :: "bool \<Rightarrow> 'v \<Rightarrow> 'v"
  dg_buffered :: "int \<Rightarrow> 'v \<Rightarrow> 'v"
  dg_full :: "bool \<Rightarrow> 'v \<Rightarrow> 'v"
  dg_publish :: "bool \<Rightarrow> go_duration \<Rightarrow> int \<Rightarrow> fclass option \<Rightarrow> int \<Rightarrow> 'v \<Rightarrow> 'v"

record ('s, 'k, 'v) publisher =
  pb_store :: 's
  pb_broker :: 'k
  pb_view :: 'v
  pb_recovery :: bool

definition publish_failed :: "'v diag_ops \<Rightarrow> go_error \<Rightarrow> int \<Rightarrow> 'v \<Rightarrow> 'v" where
  "publish_failed D err buffered v = dg_publish D False 0 0 (classify (Some err)) buffered v"

text \<open>The three statements every failure of the durable state runs.\<close>

definition state_failed ::
  "'v diag_ops \<Rightarrow> go_error \<Rightarrow> int \<Rightarrow> ('s, 'k, 'v) publisher \<Rightarrow> ('s, 'k, 'v) publisher" where
  "state_failed D err buffered p =
     p\<lparr>pb_recovery := True, pb_view := publish_failed D err buffered (dg_healthy D False (pb_view p))\<rparr>"

text \<open>The body of the loop over the batch; the flag tells whether the loop goes on.\<close>

definition publish_one ::
  "('s, 'r) queue_ops \<Rightarrow> 'v diag_ops \<Rightarrow> ('r \<Rightarrow> 'k \<Rightarrow> 'k \<times> go_error option) \<Rightarrow> go_duration \<Rightarrow> int \<Rightarrow> 'r
   \<Rightarrow> ('s, 'k, 'v) publisher \<Rightarrow> ('s, 'k, 'v) publisher \<times> bool" where
  "publish_one Q D send elapsed batch r p =
     (case send r (pb_broker p) of
        (k, Some err) \<Rightarrow>
          (let p1 = p\<lparr>pb_broker := k\<rparr> in
           case q_health Q (pb_store p1) of
             (events, full, Some e) \<Rightarrow> (state_failed D e events p1, False)
           | (events, full, None) \<Rightarrow>
               (let v1 = dg_full D full (pb_view p1);
                    v2 = (if \<not> pb_recovery p1 then dg_healthy D True v1 else v1)
                in (p1\<lparr>pb_view := dg_publish D False elapsed 0 (classify (Some err)) events v2\<rparr>, False)))
      | (k, None) \<Rightarrow>
          (case q_ack Q (q_seq Q r) (pb_store p) of
             (s, Some e) \<Rightarrow> (state_failed D e batch (p\<lparr>pb_broker := k, pb_store := s\<rparr>), False)
           | (s, None) \<Rightarrow>
               (let p1 = p\<lparr>pb_broker := k, pb_store := s\<rparr> in
                case q_health Q s of
                  (events, full, Some e) \<Rightarrow> (state_failed D e events p1, False)
                | (events, full, None) \<Rightarrow>
                    (p1\<lparr>pb_view := dg_publish D True elapsed 1 None events (dg_full D full (pb_view p1))\<rparr>, True))))"

fun publish_loop ::
  "('s, 'r) queue_ops \<Rightarrow> 'v diag_ops \<Rightarrow> ('r \<Rightarrow> 'k \<Rightarrow> 'k \<times> go_error option) \<Rightarrow> (nat \<Rightarrow> go_duration) \<Rightarrow> int
   \<Rightarrow> nat \<Rightarrow> 'r list \<Rightarrow> ('s, 'k, 'v) publisher \<Rightarrow> ('s, 'k, 'v) publisher" where
  "publish_loop Q D send since batch n [] p =
     p\<lparr>pb_view := dg_healthy D True (pb_view p), pb_recovery := False\<rparr>"
| "publish_loop Q D send since batch n (r # rs) p =
     (case publish_one Q D send (since n) batch r p of
        (p1, False) \<Rightarrow> p1
      | (p1, True) \<Rightarrow> publish_loop Q D send since batch (n + 1) rs p1)"

definition flush ::
  "('s, 'r) queue_ops \<Rightarrow> 'v diag_ops \<Rightarrow> ('r \<Rightarrow> 'k \<Rightarrow> 'k \<times> go_error option) \<Rightarrow> (nat \<Rightarrow> go_duration)
   \<Rightarrow> ('s, 'k, 'v) publisher \<Rightarrow> ('s, 'k, 'v) publisher" where
  "flush Q D send since p =
     (case q_records Q 100 (pb_store p) of
        (rs, Some err) \<Rightarrow> state_failed D err 0 p
      | (rs, None) \<Rightarrow>
          if rs = [] then
            (case q_health Q (pb_store p) of
               (events, full, Some e) \<Rightarrow> state_failed D e events p
             | (events, full, None) \<Rightarrow>
                 p\<lparr>pb_view := dg_healthy D True (dg_full D full (dg_buffered D events (pb_view p))),
                   pb_recovery := False\<rparr>)
          else publish_loop Q D send since (int (length rs)) 0 rs p)"

section \<open>The interface\<close>

locale delivery_queue =
  fixes Q :: "('s, 'r) queue_ops"
    and inv :: "'s \<Rightarrow> bool"
    and queue :: "'s \<Rightarrow> 'r list"
    and reliable :: bool
  assumes records_prefix: "inv s \<Longrightarrow> 0 < n \<Longrightarrow> q_records Q n s = (take n (queue s), None)"
    and ack_head: "inv s \<Longrightarrow> queue s = r # rs \<Longrightarrow>
      \<exists>s' err. q_ack Q (q_seq Q r) s = (s', err) \<and> inv s' \<and> (err = None \<longrightarrow> queue s' = rs) \<and>
               (err \<noteq> None \<longrightarrow> queue s' = queue s \<and> \<not> reliable)"
    and health_counts: "inv s \<Longrightarrow> \<exists>full. q_health Q s = (int (length (queue s)), full, None)"
begin

lemma publish_one_cases:
  assumes i: "inv (pb_store p)" and q: "queue (pb_store p) = r # rs" and b: "broker_ok send accepted"
    and one: "publish_one Q D send elapsed batch r p = (p', go)"
  shows "inv (pb_store p') \<and>
     (if go then queue (pb_store p') = rs \<and> accepted (pb_broker p') = accepted (pb_broker p) @ [r]
      else queue (pb_store p') = r # rs \<and>
           accepted (pb_broker p') \<in> {accepted (pb_broker p), accepted (pb_broker p) @ [r]} \<and>
           (reliable \<longrightarrow> snd (send r (pb_broker p)) \<noteq> None))"
proof -
  obtain k err where s: "send r (pb_broker p) = (k, err)" by (cases "send r (pb_broker p)")
  show ?thesis
  proof (cases err)
    case (Some e)
    obtain full where "q_health Q (pb_store p) = (int (length (queue (pb_store p))), full, None)"
      using health_counts [OF i] by blast
    then show ?thesis
      using one s Some i q broker_okD(2) [OF b, of r "pb_broker p" k e]
      by (auto simp: publish_one_def Let_def)
  next
    case None
    obtain s' e where a: "q_ack Q (q_seq Q r) (pb_store p) = (s', e)" "inv s'"
      "e = None \<Longrightarrow> queue s' = rs" "e \<noteq> None \<Longrightarrow> queue s' = r # rs \<and> \<not> reliable"
      using ack_head [OF i q] q by auto
    obtain full where "q_health Q s' = (int (length (queue s')), full, None)"
      using health_counts [OF a(2)] by blast
    then show ?thesis
      using one s None a broker_okD(1) [OF b, of r "pb_broker p" k]
      by (cases e) (auto simp: publish_one_def state_failed_def Let_def)
  qed
qed

lemma loop_delivers:
  assumes "inv (pb_store p)" and "queue (pb_store p) = rs @ rest" and "broker_ok send accepted"
  shows "\<exists>k sent. inv (pb_store (publish_loop Q D send since batch n rs p)) \<and>
     queue (pb_store (publish_loop Q D send since batch n rs p)) = drop k (queue (pb_store p)) \<and>
     accepted (pb_broker (publish_loop Q D send since batch n rs p)) =
       accepted (pb_broker p) @ take sent rs \<and>
     k \<le> sent \<and> sent \<le> k + 1 \<and> sent \<le> length rs \<and>
     (reliable \<and> (\<forall>r b. snd (send r b) = None) \<longrightarrow> k = length rs)"
  using assms(1,2)
proof (induction rs arbitrary: p n)
  case Nil
  then show ?case by (intro exI [of _ 0]) simp
next
  case (Cons r rs)
  obtain p1 go where one: "publish_one Q D send (since n) batch r p = (p1, go)" by fastforce
  note c = publish_one_cases [OF Cons.prems(1) _ assms(3) one, of "rs @ rest"]
  show ?case
  proof (cases go)
    case True
    then have s: "inv (pb_store p1)" "queue (pb_store p1) = rs @ rest"
      "accepted (pb_broker p1) = accepted (pb_broker p) @ [r]"
      using c Cons.prems(2) by simp_all
    from Cons.IH [OF s(1,2), of "n + 1"] obtain k sent where
      "inv (pb_store (publish_loop Q D send since batch (n + 1) rs p1))"
      "queue (pb_store (publish_loop Q D send since batch (n + 1) rs p1)) = drop k (queue (pb_store p1))"
      "accepted (pb_broker (publish_loop Q D send since batch (n + 1) rs p1)) = accepted (pb_broker p1) @ take sent rs"
      "k \<le> sent \<and> sent \<le> k + 1 \<and> sent \<le> length rs"
      "reliable \<and> (\<forall>r b. snd (send r b) = None) \<longrightarrow> k = length rs" by blast
    then show ?thesis
      using True one s Cons.prems(2) by (intro exI [of _ "Suc k"] exI [of _ "Suc sent"]) simp
  next
    case False
    then have s: "inv (pb_store p1)" "queue (pb_store p1) = r # rs @ rest"
      "accepted (pb_broker p1) \<in> {accepted (pb_broker p), accepted (pb_broker p) @ [r]}"
      "reliable \<Longrightarrow> snd (send r (pb_broker p)) \<noteq> None"
      using c Cons.prems(2) by simp_all
    define sent where "sent = (if accepted (pb_broker p1) = accepted (pb_broker p) then 0 else 1 :: nat)"
    show ?thesis
      using False one s Cons.prems(2) by (intro exI [of _ 0] exI [of _ sent]) (auto simp: sent_def)
  qed
qed

lemma flush_delivers:
  assumes "inv (pb_store p)" and "broker_ok send accepted"
  shows "\<exists>k sent. inv (pb_store (flush Q D send since p)) \<and>
     queue (pb_store (flush Q D send since p)) = drop k (queue (pb_store p)) \<and>
     accepted (pb_broker (flush Q D send since p)) = accepted (pb_broker p) @ take sent (queue (pb_store p)) \<and>
     k \<le> sent \<and> sent \<le> k + 1 \<and> sent \<le> 100 \<and>
     (reliable \<and> (\<forall>r b. snd (send r b) = None) \<longrightarrow> k = min 100 (length (queue (pb_store p))))"
proof (cases "queue (pb_store p) = []")
  case True
  obtain full where "q_health Q (pb_store p) = (0, full, None)" using health_counts [OF assms(1)] True by auto
  then have "pb_store (flush Q D send since p) = pb_store p" "pb_broker (flush Q D send since p) = pb_broker p"
    using records_prefix [OF assms(1), of 100] True by (simp_all add: flush_def)
  then show ?thesis using assms(1) True by (intro exI [of _ 0]) simp
next
  case False
  let ?rs = "take 100 (queue (pb_store p))"
  have f: "flush Q D send since p = publish_loop Q D send since (int (length ?rs)) 0 ?rs p"
    using records_prefix [OF assms(1), of 100] False by (simp add: flush_def)
  have split: "queue (pb_store p) = ?rs @ drop 100 (queue (pb_store p))" by simp
  obtain k sent where
    "inv (pb_store (flush Q D send since p))"
    "queue (pb_store (flush Q D send since p)) = drop k (queue (pb_store p))"
    "accepted (pb_broker (flush Q D send since p)) = accepted (pb_broker p) @ take sent ?rs"
    and k: "k \<le> sent \<and> sent \<le> k + 1 \<and> sent \<le> length ?rs"
    "reliable \<and> (\<forall>r b. snd (send r b) = None) \<longrightarrow> k = length ?rs"
    using loop_delivers [OF assms(1) split assms(2), of D since "int (length ?rs)" 0] unfolding f by blast
  moreover have "sent \<le> 100" using k by simp
  then have "take sent ?rs = take sent (queue (pb_store p))" by (simp add: min_def)
  ultimately show ?thesis using k by (intro exI [of _ k] exI [of _ sent]) (auto simp: min.commute)
qed

text \<open>Flushes until the queue is empty: one per hundred records is enough.\<close>

lemma flushes_drain:
  assumes "inv (pb_store p)" and "broker_ok send accepted" and "reliable" and "\<forall>r b. snd (send r b) = None"
    and "length (queue (pb_store p)) \<le> 100 * n"
  shows "queue (pb_store ((flush Q D send since ^^ n) p)) = [] \<and>
         accepted (pb_broker ((flush Q D send since ^^ n) p)) = accepted (pb_broker p) @ queue (pb_store p)"
  using assms(1,5)
proof (induction n arbitrary: p)
  case (Suc n)
  let ?p = "flush Q D send since p"
  from flush_delivers [OF Suc.prems(1) assms(2), of D since] assms(3,4) obtain sent where
    f: "inv (pb_store ?p)" "queue (pb_store ?p) = drop (min 100 (length (queue (pb_store p)))) (queue (pb_store p))"
      "accepted (pb_broker ?p) = accepted (pb_broker p) @ take sent (queue (pb_store p))"
      "min 100 (length (queue (pb_store p))) \<le> sent" "sent \<le> 100" by blast
  have "length (queue (pb_store ?p)) \<le> 100 * n" using f(2) Suc.prems(2) by simp
  from Suc.IH [OF f(1) this]
  have "queue (pb_store ((flush Q D send since ^^ n) ?p)) = []"
    "accepted (pb_broker ((flush Q D send since ^^ n) ?p)) = accepted (pb_broker ?p) @ queue (pb_store ?p)" by simp_all
  moreover have "take sent (queue (pb_store p)) @ queue (pb_store ?p) = queue (pb_store p)"
    using f(2,4,5) by (cases "length (queue (pb_store p)) \<le> 100") (auto simp: min_def)
  ultimately show ?case using f(3) by (simp add: funpow_Suc_right del: funpow.simps)
qed simp

end

section \<open>Runs of the publisher\<close>

lemma remdups_adj_snoc:
  "remdups_adj (xs @ [y]) = (if xs \<noteq> [] \<and> last xs = y then remdups_adj xs else remdups_adj xs @ [y])"
  by (induction xs rule: remdups_adj.induct) auto

lemma remdups_adj_run:
  "distinct (y # ys) \<Longrightarrow> remdups_adj (xs @ y # ys) = remdups_adj (xs @ [y]) @ ys"
proof (induction ys rule: rev_induct)
  case (snoc z ys)
  have "last (xs @ y # ys) \<noteq> z" using snoc.prems by auto
  then have "remdups_adj ((xs @ y # ys) @ [z]) = remdups_adj (xs @ y # ys) @ [z]"
    by (subst remdups_adj_snoc) simp
  with snoc show ?case by simp
qed simp

text \<open>
  What one flush adds to a broker that has seen k records of q, or k + 1 with the last one not yet
  removed: up to repetitions next to each other, the log stays a prefix of q.
\<close>

lemma delivered_prefix_step:
  assumes d: "distinct q" and k: "k \<le> length q"
    and x: "remdups_adj xs = take k q \<or> k < length q \<and> remdups_adj xs = take (k + 1) q"
    and s: "j \<le> sent" "sent \<le> j + 1" "k + j \<le> length q"
  shows "remdups_adj (xs @ take sent (drop k q)) = take (k + j) q \<or>
     k + j < length q \<and> remdups_adj (xs @ take sent (drop k q)) = take (k + j + 1) q"
proof (cases "take sent (drop k q)")
  case Nil
  then have "j = 0 \<or> k = length q" using s by auto
  then show ?thesis using Nil x s by auto
next
  case (Cons y ys)
  then have kq: "k < length q" "0 < sent" by (cases "k < length q"; cases sent; simp)+
  have "drop k q = q ! k # drop (Suc k) q" using kq(1) by (rule Cons_nth_drop_Suc [symmetric])
  then have ky: "k < length q" "y = q ! k" "0 < sent" using Cons kq by (auto simp: take_Cons' split: if_splits)
  have dy: "distinct (y # ys)" using d Cons [symmetric] by simp
  have one: "remdups_adj (xs @ [y]) = take (k + 1) q"
  proof -
    have l: "remdups_adj xs \<noteq> [] \<Longrightarrow> last xs = last (remdups_adj xs)" by simp
    have t: "take (k + 1) q = take k q @ [y]" using ky by (simp add: take_Suc_conv_app_nth)
    from x show ?thesis
    proof
      assume a: "remdups_adj xs = take k q"
      have "\<not> (xs \<noteq> [] \<and> last xs = y)"
      proof
        assume b: "xs \<noteq> [] \<and> last xs = y"
        then have "y \<in> set (take k q)" using a by (metis last_in_set remdups_adj_set)
        then have "y \<in> set (take k q) \<inter> set (drop k q)"
          using Cons by (metis IntI in_set_takeD list.set_intros(1))
        then show False using d by (metis append_take_drop_id distinct_append empty_iff)
      qed
      then show ?thesis using a t by (simp add: remdups_adj_snoc)
    next
      assume a: "k < length q \<and> remdups_adj xs = take (k + 1) q"
      then have "xs \<noteq> []" "last xs = y" using t l by auto
      then show ?thesis using a by (simp add: remdups_adj_snoc)
    qed
  qed
  have "remdups_adj (xs @ take sent (drop k q)) = take (k + 1) q @ ys"
    using remdups_adj_run [OF dy, of xs] one Cons by simp
  also have "take (k + 1) q @ ys = take (k + sent) q"
  proof -
    have "take (k + sent) q = take k q @ take sent (drop k q)" by (rule take_add)
    then show ?thesis using Cons ky by (simp add: take_Suc_conv_app_nth)
  qed
  finally have r: "remdups_adj (xs @ take sent (drop k q)) = take (k + sent) q" .
  have "sent = j \<or> sent = j + 1" using s by auto
  then show ?thesis using r s(3) by (cases "k + j = length q") auto
qed

context delivery_queue begin

lemma run_delivers:
  assumes "inv (pb_store p)" and "broker_ok send accepted" and "distinct (queue (pb_store p))"
  shows "\<exists>k xs. inv (pb_store (foldl (\<lambda>p t. flush Q D send t p) p ts)) \<and> k \<le> length (queue (pb_store p)) \<and>
     queue (pb_store (foldl (\<lambda>p t. flush Q D send t p) p ts)) = drop k (queue (pb_store p)) \<and>
     accepted (pb_broker (foldl (\<lambda>p t. flush Q D send t p) p ts)) = accepted (pb_broker p) @ xs \<and>
     (remdups_adj xs = take k (queue (pb_store p)) \<or>
        k < length (queue (pb_store p)) \<and> remdups_adj xs = take (k + 1) (queue (pb_store p)))"
proof (induction ts rule: rev_induct)
  case Nil
  then show ?case using assms by (intro exI [of _ 0] exI [of _ "[]"]) simp
next
  case (snoc t ts)
  let ?p = "foldl (\<lambda>p t. flush Q D send t p) p ts" and ?q = "queue (pb_store p)"
  from snoc obtain k xs where i: "inv (pb_store ?p)" "k \<le> length ?q" "queue (pb_store ?p) = drop k ?q"
    "accepted (pb_broker ?p) = accepted (pb_broker p) @ xs"
    "remdups_adj xs = take k ?q \<or> k < length ?q \<and> remdups_adj xs = take (k + 1) ?q" by blast
  from flush_delivers [OF i(1) assms(2), of D t] obtain j sent where
    f: "inv (pb_store (flush Q D send t ?p))" "queue (pb_store (flush Q D send t ?p)) = drop j (drop k ?q)"
      "accepted (pb_broker (flush Q D send t ?p)) = accepted (pb_broker p) @ xs @ take sent (drop k ?q)"
      "j \<le> sent" "sent \<le> j + 1" using i by auto
  define j' where "j' = min j (length ?q - k)"
  have d: "drop j (drop k ?q) = drop (k + j') ?q" using i(2) by (auto simp: j'_def min_def add.commute)
  have "j' = j \<or> take sent (drop k ?q) = take j' (drop k ?q)" using f(4) by (auto simp: j'_def min_def)
  then obtain sent' where s: "take sent (drop k ?q) = take sent' (drop k ?q)" "j' \<le> sent'" "sent' \<le> j' + 1"
    using f(4,5) by (metis le_add1 order_refl)
  have "k + j' \<le> length ?q" using i(2) by (simp add: j'_def)
  from delivered_prefix_step [OF assms(3) i(2,5) s(2,3) this] show ?case
    using f d s(1) \<open>k + j' \<le> length ?q\<close>
    by (intro exI [of _ "k + j'"] exI [of _ "xs @ take sent (drop k ?q)"]) simp
qed

end

section \<open>The interface on the durable outbox\<close>

definition outbox_queue :: "'d bolt \<Rightarrow> store_options \<Rightarrow> ('d, outbox_record) queue_ops" where
  "outbox_queue B opts =
     \<lparr>q_records = (\<lambda>n d. records B n d), q_ack = acknowledge B, q_health = health B opts, q_seq = or_sequence\<rparr>"

definition outbox_inv :: "'d bolt \<Rightarrow> 'd \<Rightarrow> bool" where
  "outbox_inv B d \<longleftrightarrow> bolt_ok B \<and> (\<exists>a. represents B d a)"

definition queued :: "'d bolt \<Rightarrow> 'd \<Rightarrow> outbox_record list" where
  "queued B d = fst (records B (length (bentries B d bucket_outbox)) d)"

lemma queued_view:
  assumes "bolt_ok B" and "represents B d a"
  shows "queued B d = oa_queue a"
proof -
  from assms(2) obtain mm where
    v: "tx_view B d (map out_entry (oa_queue a)) (\<lambda>i. map_option marshal_checkpoint (oa_cps a i)) mm (oa_seq a)"
    by (rule represents_view)
  have "length (bentries B d bucket_outbox) = length (oa_queue a)" using tx_viewD(1) [OF assms(1) v] by simp
  then show ?thesis using records_view [OF assms] by (simp add: queued_def)
qed

lemma head_is_oldest:
  assumes "represents B d a" and "oa_queue a = r # rs"
  shows "oldest_of_alert (or_sequence r) (oa_queue a)" "remove_seq (or_sequence r) (oa_queue a) = rs"
proof -
  have s: "sorted_wrt (\<lambda>r s. or_sequence r < or_sequence s) (r # rs)"
    using assms by (simp add: represents_def abs_wf_def)
  then show "oldest_of_alert (or_sequence r) (oa_queue a)"
    unfolding oldest_of_alert_def assms(2) by (auto dest: less_imp_le)
  have "\<forall>x \<in> set rs. or_sequence x \<noteq> or_sequence r" using s by auto
  then show "remove_seq (or_sequence r) (oa_queue a) = rs" by (simp add: remove_seq_def assms(2))
qed

lemma ack_head_view:
  assumes "bolt_ok B" and "represents B d a" and "oa_queue a = r # rs"
  shows "(\<exists>d' a'. acknowledge B (or_sequence r) d = (d', None) \<and> represents B d' a' \<and> oa_queue a' = rs) \<or>
         commit_fails B \<and> acknowledge B (or_sequence r) d = (d, Some commit_error)"
proof -
  have "oa_queue (spec_acknowledge (or_sequence r) a) = rs"
    using head_is_oldest(2) [OF assms(2,3)] assms(3) by (simp add: spec_acknowledge_def Let_def)
  then show ?thesis using acknowledge_refines [OF assms(1,2) head_is_oldest(1) [OF assms(2,3)]] by blast
qed

interpretation alerts: delivery_queue "outbox_queue B opts" "outbox_inv B" "queued B" "\<not> commit_fails B"
proof
  fix s n assume "outbox_inv B s"
  then show "q_records (outbox_queue B opts) n s = (take n (queued B s), None)"
    using queued_view records_view by (fastforce simp: outbox_inv_def outbox_queue_def)
next
  fix s r rs assume "outbox_inv B s" "queued B s = r # rs"
  then obtain a where a: "bolt_ok B" "represents B s a" "oa_queue a = r # rs"
    using queued_view by (fastforce simp: outbox_inv_def)
  from ack_head_view [OF this]
  show "\<exists>s' err. q_ack (outbox_queue B opts) (q_seq (outbox_queue B opts) r) s = (s', err) \<and> outbox_inv B s' \<and>
      (err = None \<longrightarrow> queued B s' = rs) \<and> (err \<noteq> None \<longrightarrow> queued B s' = queued B s \<and> \<not> \<not> commit_fails B)"
  proof (elim disjE exE conjE)
    fix d' a' assume "acknowledge B (or_sequence r) s = (d', None)" "represents B d' a'" "oa_queue a' = rs"
    then show ?thesis using a(1) queued_view [OF a(1)] by (auto simp: outbox_queue_def outbox_inv_def)
  next
    assume "commit_fails B" "acknowledge B (or_sequence r) s = (s, Some commit_error)"
    then show ?thesis using a(1,2) by (auto simp: outbox_queue_def outbox_inv_def)
  qed
next
  fix s assume "outbox_inv B s"
  then obtain a where "bolt_ok B" "represents B s a" by (auto simp: outbox_inv_def)
  then show "\<exists>full. q_health (outbox_queue B opts) s = (int (length (queued B s)), full, None)"
    using queued_view stats_view(1) by (fastforce simp: outbox_queue_def health_def Let_def)
qed

section \<open>The diagnostics\<close>

text \<open>
  What the diagnostics promise to the publisher: one flag is set by the health call and by no other.
  A publisher that has to recover from a state failure then stays unhealthy until a batch, or an
  empty queue, has been processed without a failure.
\<close>

locale publisher_diagnostics =
  fixes D :: "'v diag_ops" and flag :: "'v \<Rightarrow> bool"
  assumes healthy_sets: "flag (dg_healthy D b v) = b"
    and full_keeps: "flag (dg_full D full v) = flag v"
    and buffered_keeps: "flag (dg_buffered D n v) = flag v"
    and publish_keeps: "flag (dg_publish D ok t n c m v) = flag v"
begin

lemma state_failed_flag: "\<not> flag (pb_view (state_failed D e n p))" "pb_recovery (state_failed D e n p)"
  by (simp_all add: state_failed_def publish_failed_def publish_keeps healthy_sets)

lemma publish_one_recovery:
  assumes "pb_recovery p \<longrightarrow> \<not> flag (pb_view p)" and "publish_one Q D send t b r p = (p', go)"
  shows "pb_recovery p' \<longrightarrow> \<not> flag (pb_view p')"
  using assms state_failed_flag
  by (auto simp: publish_one_def Let_def healthy_sets full_keeps publish_keeps split: prod.splits option.splits if_splits)

lemma loop_recovery:
  "pb_recovery p \<longrightarrow> \<not> flag (pb_view p) \<Longrightarrow>
     pb_recovery (publish_loop Q D send since b n rs p) \<longrightarrow> \<not> flag (pb_view (publish_loop Q D send since b n rs p))"
proof (induction rs arbitrary: n p)
  case (Cons r rs)
  obtain p1 go where one: "publish_one Q D send (since n) b r p = (p1, go)" by fastforce
  show ?case using Cons.IH publish_one_recovery [OF Cons.prems one] one by (cases go) auto
qed simp

lemma flush_recovery:
  assumes "pb_recovery p \<longrightarrow> \<not> flag (pb_view p)"
  shows "pb_recovery (flush Q D send since p) \<longrightarrow> \<not> flag (pb_view (flush Q D send since p))"
proof -
  have "pb_recovery (publish_loop Q D send since b n rs p) \<longrightarrow> \<not> flag (pb_view (publish_loop Q D send since b n rs p))"
    for b n rs by (rule loop_recovery [OF assms])
  then show ?thesis
    by (auto simp: flush_def healthy_sets state_failed_flag split: prod.splits option.splits)
qed

end

definition alert_diag :: "'f view diag_ops" where
  "alert_diag =
     \<lparr>dg_healthy = set_alert_publisher_state_healthy, dg_buffered = set_kafka_buffered,
      dg_full = set_alert_state_full, dg_publish = record_kafka_publish\<rparr>"

interpretation alert_diagnostics: publisher_diagnostics alert_diag alert_publisher_state_ok
  by unfold_locales (simp_all add: alert_diag_def snap_op_defs)

text \<open>\<open>Publisher.flush\<close> of package kafka: the loop on the outbox, the producer and the alert diagnostics.\<close>

definition kafka_send :: "'k produce \<Rightarrow> bytes \<Rightarrow> outbox_record \<Rightarrow> 'k \<Rightarrow> 'k \<times> go_error option" where
  "kafka_send produce topic r = publish produce topic (or_record_key r) (or_payload r) []"

definition kafka_flush ::
  "'d bolt \<Rightarrow> store_options \<Rightarrow> (outbox_record \<Rightarrow> 'k \<Rightarrow> 'k \<times> go_error option) \<Rightarrow> (nat \<Rightarrow> go_duration)
   \<Rightarrow> ('d, 'k, 'f view) publisher \<Rightarrow> ('d, 'k, 'f view) publisher" where
  "kafka_flush B opts send since p = flush (outbox_queue B opts) alert_diag send since p"

section \<open>Properties\<close>

text \<open>
  Claim C3. A flush publishes the queue from its head, in order, at most a hundred records, and removes
  exactly records it has published: the removed ones are a prefix of the published ones and at most the
  last published one is still queued. Whatever fails - the broker, the commit - nothing is lost.
\<close>

theorem flush_delivers_in_order:
  assumes "outbox_inv B (pb_store p)" and "broker_ok send accepted"
  shows "\<exists>k sent. outbox_inv B (pb_store (kafka_flush B opts send since p)) \<and>
     queued B (pb_store (kafka_flush B opts send since p)) = drop k (queued B (pb_store p)) \<and>
     accepted (pb_broker (kafka_flush B opts send since p)) =
       accepted (pb_broker p) @ take sent (queued B (pb_store p)) \<and>
     k \<le> sent \<and> sent \<le> k + 1 \<and> sent \<le> 100"
  using alerts.flush_delivers [OF assms] unfolding kafka_flush_def by blast

definition example_publisher :: "'d \<Rightarrow> bool list \<Rightarrow> ('d, outbox_record list \<times> bool list, int view) publisher" where
  "example_publisher d script =
     \<lparr>pb_store = d, pb_broker = ([], script), pb_view = new_store, pb_recovery = False\<rparr>"

lemma example_queued: "\<exists>d. outbox_inv ref_bolt d \<and> length (queued ref_bolt d) = 1"
  using example_queue queued_view [OF ref_bolt_ok] ref_bolt_ok unfolding outbox_inv_def by metis

lemma flush_delivers_in_order_witness:
  "\<exists>d k sent. length (queued ref_bolt d) = 1 \<and>
     queued ref_bolt (pb_store (kafka_flush ref_bolt example_options ref_send (\<lambda>_. 0) (example_publisher d [False])))
       = drop k (queued ref_bolt d) \<and> k \<le> sent \<and> sent \<le> k + 1"
proof -
  obtain d where d: "outbox_inv ref_bolt d" "length (queued ref_bolt d) = 1" using example_queued by blast
  have "outbox_inv ref_bolt (pb_store (example_publisher d [False]))" using d by (simp add: example_publisher_def)
  from flush_delivers_in_order [OF this ref_send_ok, of example_options "\<lambda>_. 0"] d show ?thesis
    by (auto simp: example_publisher_def)
qed


definition always_accept :: "'r \<Rightarrow> 'r list \<Rightarrow> 'r list \<times> go_error option" where
  "always_accept r k = (k @ [r], None)"



text \<open>
  After a failure of the durable state the publisher stays unhealthy: while it still has to
  recover, the publisher part of the alert readiness is false, also after flushes in which only the
  broker failed.
\<close>

theorem recovery_keeps_unready:
  assumes "pb_recovery p \<longrightarrow> \<not> alert_publisher_state_ok (pb_view p)"
  shows "pb_recovery (kafka_flush B opts send since p) \<longrightarrow>
           \<not> alert_publisher_state_ok (pb_view (kafka_flush B opts send since p))"
  using alert_diagnostics.flush_recovery [OF assms] unfolding kafka_flush_def by blast

lemma recovery_keeps_unready_witness:
  "\<exists>p :: (_, outbox_record list, int view) publisher. pb_recovery p \<and>
     (pb_recovery (kafka_flush ref_bolt example_options always_accept (\<lambda>_. 0) p) \<longrightarrow>
        \<not> alert_publisher_state_ok (pb_view (kafka_flush ref_bolt example_options always_accept (\<lambda>_. 0) p)))"
proof -
  define p :: "((bytes \<times> (bytes \<times> bytes) list \<times> u64) list, outbox_record list, int view) publisher" where
    "p = \<lparr>pb_store = [], pb_broker = [], pb_view = new_store, pb_recovery = True\<rparr>"
  have "pb_recovery p \<longrightarrow> \<not> alert_publisher_state_ok (pb_view p)" by (simp add: p_def new_store_def)
  from recovery_keeps_unready [OF this, of ref_bolt example_options always_accept "\<lambda>_. 0"]
  show ?thesis by (intro exI [of _ p]) (simp add: p_def)
qed

end
