(* ===== verification/Delivery.thy ===== *)
theory Delivery
  imports Publisher Outbox_Events
begin

text \<open>
  The composition of the alert pipeline, the durable outbox and the publisher as the program runs
  them: two goroutines that share the outbox, and a process that may stop at any point and start
  again on the same database. Every store operation is one transaction, so the goroutines interleave
  between operations; \<open>delivery_step\<close> lists the operations each of them can perform next, on the
  definitions of \<open>Outbox\<close>. The record of everything that was enqueued and acknowledged
  (\<open>dl_history\<close>, \<open>dl_acked\<close>) is kept for the statements only. The broker is its list of accepted
  records; a publish that returns an error may still have been accepted.
\<close>

section \<open>Steps\<close>

record 'd delivery =
  dl_db :: 'd
  dl_batch :: "outbox_record list"
  dl_sent :: bool
  dl_accepted :: "outbox_record list"
  dl_history :: "outbox_record list"
  dl_acked :: "outbox_record list"

inductive delivery_step :: "'d bolt \<Rightarrow> store_options \<Rightarrow> 'd delivery \<Rightarrow> 'd delivery \<Rightarrow> bool"
  for B opts where
  Enqueued: "enqueue B opts ee marker now (dl_db s) = (db, inserted, err) \<Longrightarrow>
     event_ok ee \<Longrightarrow> marker_ok marker \<Longrightarrow> clock_ok now \<Longrightarrow>
     unat (bseq B (dl_db s) bucket_outbox) < 18446744073709551615 \<Longrightarrow>
     delivery_step B opts s (s\<lparr>dl_db := db, dl_history := dl_history s @
       (if inserted \<and> err = None then [last (queued B db)] else [])\<rparr>)"
| Seen: "mark_seen B opts i marker now (dl_db s) = (db, err) \<Longrightarrow>
     \<not> alert_id_invalid i \<Longrightarrow> marker_ok marker \<Longrightarrow> clock_ok now \<Longrightarrow>
     delivery_step B opts s (s\<lparr>dl_db := db\<rparr>)"
| Reconciled: "reconcile_listed B opts listed now complete (dl_db s) = (db, err) \<Longrightarrow> clock_ok now \<Longrightarrow>
     delivery_step B opts s (s\<lparr>dl_db := db\<rparr>)"
| Fetched: "records B 100 (dl_db s) = (rs, None) \<Longrightarrow> dl_batch s = [] \<Longrightarrow>
     delivery_step B opts s (s\<lparr>dl_batch := rs, dl_sent := False\<rparr>)"
| Published: "dl_batch s = r # rs \<Longrightarrow> \<not> dl_sent s \<Longrightarrow>
     delivery_step B opts s (s\<lparr>dl_accepted := dl_accepted s @ [r], dl_sent := True\<rparr>)"
| Refused: "dl_batch s = r # rs \<Longrightarrow> \<not> dl_sent s \<Longrightarrow>
     delivery_step B opts s (s\<lparr>dl_accepted := dl_accepted s @ (if timed_out then [r] else []), dl_batch := []\<rparr>)"
| Acknowledged: "dl_batch s = r # rs \<Longrightarrow> dl_sent s \<Longrightarrow>
     acknowledge B (or_sequence r) (dl_db s) = (db, None) \<Longrightarrow>
     delivery_step B opts s (s\<lparr>dl_db := db, dl_batch := rs, dl_sent := False, dl_acked := dl_acked s @ [r]\<rparr>)"
| Ack_failed: "dl_batch s = r # rs \<Longrightarrow> dl_sent s \<Longrightarrow>
     acknowledge B (or_sequence r) (dl_db s) = (db, Some err) \<Longrightarrow>
     delivery_step B opts s (s\<lparr>dl_db := db, dl_batch := [], dl_sent := False\<rparr>)"
| Restarted: "open_store B opts (dl_db s) = (db, err) \<Longrightarrow>
     delivery_step B opts s (s\<lparr>dl_db := db, dl_batch := [], dl_sent := False\<rparr>)"

inductive delivery_reach :: "'d bolt \<Rightarrow> store_options \<Rightarrow> 'd delivery \<Rightarrow> bool" for B opts where
  Start: "open_store B opts d0 = (d, None) \<Longrightarrow> \<forall>b \<in> set required_buckets. \<not> has_bucket B d0 b \<Longrightarrow>
     delivery_reach B opts \<lparr>dl_db = d, dl_batch = [], dl_sent = False, dl_accepted = [],
                            dl_history = [], dl_acked = []\<rparr>"
| Step: "delivery_reach B opts s \<Longrightarrow> delivery_step B opts s s' \<Longrightarrow> delivery_reach B opts s'"

section \<open>Invariant\<close>

text \<open>What a consumer that drops repetitions sees.\<close>

definition first_seen :: "'a list \<Rightarrow> 'a list" where
  "first_seen xs = rev (remdups (rev xs))"

lemma first_seen_snoc [simp]:
  "first_seen (xs @ [x]) = (if x \<in> set xs then first_seen xs else first_seen xs @ [x])"
  by (simp add: first_seen_def)

lemma set_first_seen [simp]: "set (first_seen xs) = set xs"
  by (simp add: first_seen_def)

lemma first_seen_Nil [simp]: "first_seen [] = []"
  by (simp add: first_seen_def)

definition seen_prefix :: "outbox_record list \<Rightarrow> outbox_record list \<Rightarrow> outbox_record list \<Rightarrow> bool" where
  "seen_prefix accepted acked q \<longleftrightarrow>
     first_seen accepted = acked \<or> (q \<noteq> [] \<and> first_seen accepted = acked @ [hd q])"

definition delivery_ok :: "'d delivery \<Rightarrow> outbox_abs \<Rightarrow> bool" where
  "delivery_ok s a \<longleftrightarrow>
     dl_history s = dl_acked s @ oa_queue a \<and>
     sorted_wrt (\<lambda>r x. or_sequence r < or_sequence x) (dl_history s) \<and>
     (\<forall>r \<in> set (dl_history s). or_sequence r \<le> oa_seq a) \<and>
     (\<exists>n. dl_batch s = take n (oa_queue a)) \<and>
     (dl_sent s \<longrightarrow> dl_batch s \<noteq> [] \<and> hd (dl_batch s) \<in> set (dl_accepted s)) \<and>
     seen_prefix (dl_accepted s) (dl_acked s) (oa_queue a)"

definition delivery_inv :: "'d bolt \<Rightarrow> 'd delivery \<Rightarrow> bool" where
  "delivery_inv B s \<longleftrightarrow> (\<exists>a. represents B (dl_db s) a \<and> delivery_ok s a)"

lemma sorted_distinct_seq:
  "sorted_wrt (\<lambda>r x. or_sequence r < or_sequence x) q \<Longrightarrow> distinct q"
  by (induction q) auto

lemma seen_prefix_sets:
  assumes "seen_prefix accepted acked (r # q)"
  shows "(first_seen accepted = acked \<and> set accepted = set acked) \<or>
         (first_seen accepted = acked @ [r] \<and> set accepted = insert r (set acked))"
proof -
  have "set accepted = set xs" if "first_seen accepted = xs" for xs
    unfolding that [symmetric] by simp
  from this [of acked] this [of "acked @ [r]"] show ?thesis using assms unfolding seen_prefix_def by auto
qed

lemma delivery_okD:
  assumes "delivery_ok s a"
  shows "dl_history s = dl_acked s @ oa_queue a" and "distinct (dl_history s)"
    and "dl_batch s = r # rs \<Longrightarrow> \<exists>q. oa_queue a = r # q \<and> (\<exists>n. rs = take n q)"
proof -
  show "dl_history s = dl_acked s @ oa_queue a" using assms by (simp add: delivery_ok_def)
  show "distinct (dl_history s)"
    by (rule sorted_distinct_seq) (use assms in \<open>unfold delivery_ok_def, blast\<close>)
  assume "dl_batch s = r # rs"
  moreover obtain n where "dl_batch s = take n (oa_queue a)" using assms by (auto simp: delivery_ok_def)
  ultimately show "\<exists>q. oa_queue a = r # q \<and> (\<exists>n. rs = take n q)"
    by (cases n; cases "oa_queue a") auto
qed

text \<open>A step that changes the database but not the queue.\<close>

lemma same_queue_ok:
  assumes "delivery_ok s a" and "oa_queue a' = oa_queue a" and "oa_seq a' = oa_seq a"
  shows "delivery_ok (s\<lparr>dl_db := db\<rparr>) a'"
  using assms unfolding delivery_ok_def by auto

lemma idle_ok: "delivery_ok s a \<Longrightarrow> delivery_ok (s\<lparr>dl_db := db, dl_batch := [], dl_sent := False\<rparr>) a"
  by (auto simp: delivery_ok_def intro: exI [of _ 0])

lemma seen_prefix_publish:
  assumes "seen_prefix accepted acked (r # q)" and "distinct (acked @ r # q)"
  shows "seen_prefix (accepted @ [r]) acked (r # q)"
  using seen_prefix_sets [OF assms(1)] assms(2) by (auto simp: seen_prefix_def)

lemma enqueued_ok:
  assumes "delivery_ok s a" and "abs_wf a'" and "oa_queue a' = oa_queue a @ [r]" and "oa_seq a' = oa_seq a + 1"
    and "or_sequence r = oa_seq a + 1" and "unat (oa_seq a) < 18446744073709551615"
  shows "delivery_ok (s\<lparr>dl_db := db, dl_history := dl_history s @ [r]\<rparr>) a'"
proof -
  have lt: "oa_seq a < oa_seq a + 1"
  proof -
    have "unat (oa_seq a + 1) = unat (oa_seq a) + 1" using assms(6) by (simp add: unat_word_ariths)
    then show ?thesis by (simp add: word_less_nat_alt)
  qed
  have "\<forall>x \<in> set (dl_history s). or_sequence x < or_sequence r"
    using assms(1,5) lt by (auto simp: delivery_ok_def intro: le_less_trans)
  moreover have "\<exists>n. dl_batch s = take n (oa_queue a @ [r])"
  proof -
    obtain n where "dl_batch s = take n (oa_queue a)" using assms(1) by (auto simp: delivery_ok_def)
    then have "dl_batch s = take (min n (length (oa_queue a))) (oa_queue a @ [r])" by (simp add: min_def)
    then show ?thesis ..
  qed
  moreover have "seen_prefix (dl_accepted s) (dl_acked s) (oa_queue a @ [r])"
    using assms(1) by (auto simp: delivery_ok_def seen_prefix_def)
  ultimately show ?thesis
    using assms(1,3-5) lt by (auto simp: delivery_ok_def sorted_wrt_append intro: order.trans less_imp_le)
qed

lemma acknowledged_ok:
  assumes "delivery_ok s a" and "dl_batch s = r # rs" and "dl_sent s" and "oa_queue a = r # q"
    and "oa_queue a' = q" and "oa_seq a' = oa_seq a"
  shows "delivery_ok (s\<lparr>dl_db := db, dl_batch := rs, dl_sent := False, dl_acked := dl_acked s @ [r]\<rparr>) a'"
proof -
  have d: "distinct (dl_acked s @ r # q)" using delivery_okD(1,2) [OF assms(1)] assms(4) by simp
  have "r \<in> set (dl_accepted s)" using assms(1-3) by (simp add: delivery_ok_def)
  then have "first_seen (dl_accepted s) = dl_acked s @ [r]"
    using seen_prefix_sets [of "dl_accepted s" "dl_acked s" r q] assms(1,4) d by (auto simp: delivery_ok_def)
  moreover have "\<exists>n. rs = take n q" using delivery_okD(3) [OF assms(1,2)] assms(4) by auto
  moreover have "sorted_wrt (\<lambda>r x. or_sequence r < or_sequence x) (dl_acked s @ r # q)"
    using assms(1,4) unfolding delivery_ok_def by metis
  ultimately show ?thesis using assms by (simp add: delivery_ok_def seen_prefix_def)
qed

lemma delivery_step_inv:
  assumes "bolt_ok B" and "options_ok opts" and "options_sane opts"
  shows "delivery_step B opts s s' \<Longrightarrow> delivery_inv B s \<Longrightarrow> delivery_inv B s'"
proof (induction rule: delivery_step.induct)
  case (Enqueued ee marker now s db inserted err)
  then obtain a where a: "represents B (dl_db s) a" "delivery_ok s a" by (auto simp: delivery_inv_def)
  have seq: "bseq B (dl_db s) bucket_outbox = oa_seq a"
    using a(1) by (auto simp: represents_def content_def tx_view_def)
  have bound: "unat (oa_seq a) < 18446744073709551615" using Enqueued(5) seq by simp
  from enqueue_refines [OF assms(1) a(1) Enqueued(2-4) assms(3) bound]
  have r: "refined B (dl_db s) (spec_enqueue opts ee marker now a) False (db, inserted, err)"
    using Enqueued(1) by simp
  show ?case
  proof (cases "inserted \<and> err = None")
    case True
    with r obtain a' where a': "spec_enqueue opts ee marker now a = Inr (a', True)" "represents B db a'"
      by (auto simp: refined_def split: sum.splits)
    then have q: "oa_queue a' = oa_queue a @ [new_record ee now (oa_seq a + 1)]" "oa_seq a' = oa_seq a + 1"
      by (auto simp: spec_enqueue_def Let_def split: if_splits)
    have "last (queued B db) = new_record ee now (oa_seq a + 1)"
      using queued_view [OF assms(1) a'(2)] q by simp
    moreover have "abs_wf a'" using a'(2) by (simp add: represents_def)
    ultimately show ?thesis
      using enqueued_ok [OF a(2) _ q(1) q(2) _ bound, of db] a'(2) True
      by (auto simp: delivery_inv_def new_record_def)
  next
    case False
    with r a(1) obtain a' where "represents B db a'" "oa_queue a' = oa_queue a" "oa_seq a' = oa_seq a"
      by (auto simp: refined_def spec_enqueue_def Let_def split: sum.splits if_splits)
    then show ?thesis using same_queue_ok [OF a(2)] False by (auto simp: delivery_inv_def)
  qed
next
  case (Seen i marker now s db err)
  then obtain a where a: "represents B (dl_db s) a" "delivery_ok s a" by (auto simp: delivery_inv_def)
  from mark_seen_refines [OF assms(1) a(1) Seen(2-4), of opts] Seen(1) a(1)
  obtain a' where "represents B db a'" "oa_queue a' = oa_queue a" "oa_seq a' = oa_seq a"
    by (auto simp: spec_mark_seen_def split: if_splits)
  then show ?case using same_queue_ok [OF a(2)] by (auto simp: delivery_inv_def)
next
  case (Reconciled listed now complete s db err)
  then obtain a where a: "represents B (dl_db s) a" "delivery_ok s a" by (auto simp: delivery_inv_def)
  have "\<exists>a'. represents B db a' \<and> oa_queue a' = oa_queue a \<and> oa_seq a' = oa_seq a"
  proof (cases complete)
    case True
    then show ?thesis
      using reconcile_refines [OF assms(1) a(1) Reconciled(2), of opts listed] Reconciled(1) a(1)
      by (auto simp: Let_def spec_reconcile_def)
  next
    case False
    then show ?thesis using Reconciled(1) a(1) by (auto simp: reconcile_listed_def)
  qed
  then show ?case using same_queue_ok [OF a(2)] by (auto simp: delivery_inv_def)
next
  case (Fetched s rs)
  then obtain a where a: "represents B (dl_db s) a" "delivery_ok s a" by (auto simp: delivery_inv_def)
  then have "rs = take 100 (oa_queue a)" using Fetched(1) records_view [OF assms(1) a(1)] by simp
  then show ?case using a by (auto simp: delivery_inv_def delivery_ok_def)
next
  case (Published s r rs)
  then obtain a where a: "represents B (dl_db s) a" "delivery_ok s a" by (auto simp: delivery_inv_def)
  obtain q where q: "oa_queue a = r # q" using delivery_okD(3) [OF a(2) Published(1)] by blast
  have "seen_prefix (dl_accepted s @ [r]) (dl_acked s) (oa_queue a)"
    using seen_prefix_publish [of "dl_accepted s" "dl_acked s" r q] delivery_okD(1,2) [OF a(2)] a(2) q
    by (simp add: delivery_ok_def)
  then show ?case using a Published by (auto simp: delivery_inv_def delivery_ok_def)
next
  case (Refused s r rs timed_out)
  then obtain a where a: "represents B (dl_db s) a" "delivery_ok s a" by (auto simp: delivery_inv_def)
  obtain q where q: "oa_queue a = r # q" using delivery_okD(3) [OF a(2) Refused(1)] by blast
  have "seen_prefix (dl_accepted s @ [r]) (dl_acked s) (oa_queue a)"
    using seen_prefix_publish [of "dl_accepted s" "dl_acked s" r q] delivery_okD(1,2) [OF a(2)] a(2) q
    by (simp add: delivery_ok_def)
  moreover have "\<exists>n. [] = take n (oa_queue a)" by (rule exI [of _ 0]) simp
  ultimately show ?case using a Refused by (auto simp: delivery_inv_def delivery_ok_def)
next
  case (Acknowledged s r rs db)
  then obtain a where a: "represents B (dl_db s) a" "delivery_ok s a" by (auto simp: delivery_inv_def)
  obtain q where q: "oa_queue a = r # q" using delivery_okD(3) [OF a(2) Acknowledged(1)] by blast
  have "represents B db (spec_acknowledge (or_sequence r) a)"
    using acknowledge_refines [OF assms(1) a(1) head_is_oldest(1) [OF a(1) q]] Acknowledged(3) by auto
  moreover have "oa_queue (spec_acknowledge (or_sequence r) a) = q" "oa_seq (spec_acknowledge (or_sequence r) a) = oa_seq a"
    using head_is_oldest(2) [OF a(1) q] q by (simp_all add: spec_acknowledge_def Let_def)
  ultimately show ?case
    using acknowledged_ok [OF a(2) Acknowledged(1,2) q] by (auto simp: delivery_inv_def)
next
  case (Ack_failed s r rs db err)
  then obtain a where a: "represents B (dl_db s) a" "delivery_ok s a" by (auto simp: delivery_inv_def)
  obtain q where q: "oa_queue a = r # q" using delivery_okD(3) [OF a(2) Ack_failed(1)] by blast
  have "db = dl_db s"
    using acknowledge_refines [OF assms(1) a(1) head_is_oldest(1) [OF a(1) q]] Ack_failed(3) by auto
  then show ?case using idle_ok [OF a(2), of db] a(1) by (auto simp: delivery_inv_def)
next
  case (Restarted s db err)
  then obtain a where a: "represents B (dl_db s) a" "delivery_ok s a" by (auto simp: delivery_inv_def)
  from a(1) obtain mm where v: "abs_wf a" "meta_map (oa_queue a) mm"
    "tx_view B (dl_db s) (map out_entry (oa_queue a)) (\<lambda>i. map_option marshal_checkpoint (oa_cps a i)) mm (oa_seq a)"
    by (rule represents_view)
  have "represents B db a"
    using reopen_refines [OF assms(1,2) v(1,3)] v(2) Restarted(1) a(1) by (auto simp: meta_map_def)
  then show ?case using idle_ok [OF a(2)] by (auto simp: delivery_inv_def)
qed

lemma delivery_reach_inv:
  assumes "bolt_ok B" and "options_ok opts" and "options_sane opts"
  shows "delivery_reach B opts s \<Longrightarrow> delivery_inv B s"
proof (induction rule: delivery_reach.induct)
  case (Start d0 d)
  have "represents B d empty_abs" using open_new_refines [OF assms(1,2) Start(2)] Start(1) by auto
  then show ?case
    by (auto simp: delivery_inv_def delivery_ok_def seen_prefix_def empty_abs_def)
next
  case (Step s s')
  then show ?case using delivery_step_inv [OF assms] by blast
qed

section \<open>Properties\<close>

text \<open>
  Claim C1. Nothing is lost, and the order is kept. In every state the exporter can reach - whatever
  the interleaving of the collector and the publisher, failed publishes, failed commits and restarts -
  every event ever enqueued is still in the queue or has been accepted by the broker, and the broker's
  log without repetitions is a prefix of the events in the order they were enqueued.
\<close>

theorem delivery_at_least_once_in_order:
  assumes "bolt_ok B" and "options_ok opts" and "options_sane opts" and "delivery_reach B opts s"
  shows "set (dl_history s) \<subseteq> set (queued B (dl_db s)) \<union> set (dl_accepted s) \<and>
         (\<exists>m. first_seen (dl_accepted s) = take m (dl_history s)) \<and>
         sorted_wrt (\<lambda>r x. or_sequence r < or_sequence x) (dl_history s)"
proof -
  from delivery_reach_inv [OF assms] obtain a where
    a: "represents B (dl_db s) a" "delivery_ok s a" by (auto simp: delivery_inv_def)
  have q: "queued B (dl_db s) = oa_queue a" by (rule queued_view [OF assms(1) a(1)])
  have h: "dl_history s = dl_acked s @ oa_queue a" by (rule delivery_okD(1) [OF a(2)])
  have seen: "seen_prefix (dl_accepted s) (dl_acked s) (oa_queue a)"
    and sorted: "sorted_wrt (\<lambda>r x. or_sequence r < or_sequence x) (dl_history s)"
    using a(2) unfolding delivery_ok_def by blast+
  have acked: "set (dl_acked s) \<subseteq> set (dl_accepted s)"
  proof -
    have "set (dl_accepted s) = set xs" if "first_seen (dl_accepted s) = xs" for xs
      unfolding that [symmetric] by simp
    from this [of "dl_acked s"] this [of "dl_acked s @ [hd (oa_queue a)]"] show ?thesis
      using seen unfolding seen_prefix_def by auto
  qed
  have "\<exists>m. first_seen (dl_accepted s) = take m (dl_history s)"
    using seen unfolding seen_prefix_def
  proof
    assume "first_seen (dl_accepted s) = dl_acked s"
    then have "first_seen (dl_accepted s) = take (length (dl_acked s)) (dl_history s)" by (simp add: h)
    then show ?thesis ..
  next
    assume "oa_queue a \<noteq> [] \<and> first_seen (dl_accepted s) = dl_acked s @ [hd (oa_queue a)]"
    then have "first_seen (dl_accepted s) = take (length (dl_acked s) + 1) (dl_history s)"
      by (cases "oa_queue a") (simp_all add: h)
    then show ?thesis ..
  qed
  then show ?thesis using acked sorted by (auto simp: h q)
qed

lemma example_delivery:
  "\<exists>s r. delivery_reach ref_bolt example_options s \<and> dl_history s = [r] \<and> dl_accepted s = [r]"
proof -
  obtain d where d: "open_store ref_bolt example_options [] = (d, None)" "represents ref_bolt d empty_abs"
    using example_open by blast
  obtain ee where e: "event_ok ee" using example_event by blast
  obtain a where a: "spec_enqueue example_options ee ''m'' 1 empty_abs = Inr (a, True)"
    "oa_queue a = [new_record ee 1 1]" using spec_enqueue_first [OF e] by blast
  have seq: "bseq ref_bolt d bucket_outbox = 0"
    using d(2) by (auto simp: represents_def content_def tx_view_def empty_abs_def)
  have s: "unat (oa_seq empty_abs) < 18446744073709551615" by (simp add: empty_abs_def)
  from enqueue_refines [OF ref_bolt_ok d(2) e example_marker example_clock(1) example_options_ok(2) s]
  obtain d' where d': "enqueue ref_bolt example_options ee ''m'' 1 d = (d', True, None)" "represents ref_bolt d' a"
    using a ref_commits by (auto simp: refined_def)
  let ?r = "new_record ee 1 1"
  have new: "\<forall>b \<in> set required_buckets. \<not> has_bucket ref_bolt [] b" by (simp add: ref_bolt_def)
  let ?s0 = "\<lparr>dl_db = d, dl_batch = [], dl_sent = False, dl_accepted = [], dl_history = [], dl_acked = []\<rparr>"
  have 0: "delivery_reach ref_bolt example_options ?s0" by (rule Start [OF d(1) new])
  have "delivery_step ref_bolt example_options ?s0 (?s0\<lparr>dl_db := d', dl_history := [?r]\<rparr>)"
    using Enqueued [of ref_bolt example_options ee "''m''" 1 ?s0 d' True None] d' e example_marker
      example_clock(1) seq queued_view [OF ref_bolt_ok d'(2)] a(2) by simp
  then have 1: "delivery_reach ref_bolt example_options (?s0\<lparr>dl_db := d', dl_history := [?r]\<rparr>)"
    by (rule Step [OF 0])
  have "records ref_bolt 100 d' = ([?r], None)" using records_view [OF ref_bolt_ok d'(2)] a(2) by simp
  then have 2: "delivery_reach ref_bolt example_options
      (?s0\<lparr>dl_db := d', dl_history := [?r], dl_batch := [?r], dl_sent := False\<rparr>)"
    using Step [OF 1 Fetched, of "[?r]"] by simp
  have "delivery_reach ref_bolt example_options
      (?s0\<lparr>dl_db := d', dl_history := [?r], dl_batch := [?r], dl_accepted := [?r], dl_sent := True\<rparr>)"
    using Step [OF 2 Published, of ?r "[]"] by simp
  then show ?thesis by (intro exI conjI) auto
qed

lemma delivery_at_least_once_in_order_witness:
  "\<exists>s r. delivery_reach ref_bolt example_options s \<and> dl_accepted s = [r] \<and> dl_history s = [r] \<and>
     (\<exists>m. first_seen (dl_accepted s) = take m (dl_history s))"
proof -
  obtain s r where s: "delivery_reach ref_bolt example_options s" "dl_history s = [r]" "dl_accepted s = [r]"
    using example_delivery by blast
  from delivery_at_least_once_in_order [OF ref_bolt_ok example_options_ok s(1)] s show ?thesis by blast
qed

text \<open>
  The same system with the collector's real input: \<open>exporter_reach B opts ds s\<close> says that the state can be
  reached when \<open>ds\<close> are the alert details whose events, whatever BuildEvent made of them, were enqueued on
  the way. The other steps are those of \<open>delivery_step\<close>.
\<close>

inductive exporter_reach :: "'d bolt \<Rightarrow> store_options \<Rightarrow> alert_detail list \<Rightarrow> 'd delivery \<Rightarrow> bool" for B opts where
  Opened: "open_store B opts d0 = (d, None) \<Longrightarrow> \<forall>b \<in> set required_buckets. \<not> has_bucket B d0 b \<Longrightarrow>
     exporter_reach B opts [] \<lparr>dl_db = d, dl_batch = [], dl_sent = False, dl_accepted = [],
                               dl_history = [], dl_acked = []\<rparr>"
| Built: "exporter_reach B opts ds s \<Longrightarrow> build_event source i detail obs = Inr ee \<Longrightarrow>
     detail_typed detail \<Longrightarrow> year_ok obs \<Longrightarrow> marker_ok marker \<Longrightarrow> clock_ok now \<Longrightarrow>
     unat (bseq B (dl_db s) bucket_outbox) < 18446744073709551615 \<Longrightarrow>
     enqueue B opts ee marker now (dl_db s) = (db, inserted, err) \<Longrightarrow>
     exporter_reach B opts (ds @ [detail]) (s\<lparr>dl_db := db, dl_history := dl_history s @
       (if inserted \<and> err = None then [last (queued B db)] else [])\<rparr>)"
| Other: "exporter_reach B opts ds s \<Longrightarrow> delivery_step B opts s s' \<Longrightarrow> exporter_reach B opts ds s'"

lemma exporter_reach_delivery:
  "exporter_reach B opts ds s \<Longrightarrow> \<forall>d \<in> set ds. times_in_range d \<Longrightarrow> delivery_reach B opts s"
proof (induction rule: exporter_reach.induct)
  case (Built ds s source i detail obs ee marker now db inserted err)
  have "event_ok ee" using build_event_ok(1) [OF Built(2)] Built(3,4,10) by simp
  with Built show ?case by (intro Step [OF _ Enqueued]) simp_all
qed (auto intro: Start Step)

text \<open>
  Claim C2. The store a crash leaves behind is accepted: in every state the exporter can reach while the
  timestamps of the details it enqueued stayed in the years 0 to 9999 of UTC, Open succeeds on the database and
  finds the same queue and the same checkpoints, or its own commit fails, and then it reports this and
  the database is as it was. Without the condition on the timestamps Open can refuse the database for good,
  as \<open>Outbox_Events\<close> shows. Commits may fail in every step, and the process may stop after any.
\<close>

theorem reachable_store_reopens:
  assumes "bolt_ok B" and "options_ok opts" and "options_sane opts" and "exporter_reach B opts ds s"
    and "\<forall>d \<in> set ds. times_in_range d"
  shows "(\<exists>d'. open_store B opts (dl_db s) = (d', None) \<and> queued B d' = queued B (dl_db s) \<and>
               (\<forall>i. \<not> alert_id_invalid i \<longrightarrow> get_checkpoint B i d' = get_checkpoint B i (dl_db s))) \<or>
         commit_fails B \<and>
         open_store B opts (dl_db s) = (dl_db s, Some (Plain ''cannot initialize persistent state''))"
proof -
  from delivery_reach_inv [OF assms(1-3) exporter_reach_delivery [OF assms(4,5)]] obtain a where
    a: "represents B (dl_db s) a" by (auto simp: delivery_inv_def)
  then obtain mm where v: "abs_wf a" "meta_map (oa_queue a) mm"
    "tx_view B (dl_db s) (map out_entry (oa_queue a)) (\<lambda>i. map_option marshal_checkpoint (oa_cps a i)) mm (oa_seq a)"
    by (rule represents_view)
  have "queued B d' = queued B (dl_db s) \<and>
      (\<forall>i. \<not> alert_id_invalid i \<longrightarrow> get_checkpoint B i d' = get_checkpoint B i (dl_db s))"
    if "represents B d' a" for d'
    using queued_view [OF assms(1)] get_checkpoint_view [OF assms(1)] a that by simp
  then show ?thesis using reopen_refines [OF assms(1,2) v(1,3)] v(2) unfolding meta_map_def by blast
qed

lemma reachable_store_reopens_witness:
  "\<exists>s r d'. exporter_reach ref_bolt example_options [example_detail] s \<and> dl_history s = [r] \<and>
     open_store ref_bolt example_options (dl_db s) = (d', None) \<and> queued ref_bolt d' = queued ref_bolt (dl_db s)"
proof -
  obtain d where d: "open_store ref_bolt example_options [] = (d, None)" "represents ref_bolt d empty_abs"
    using example_open by blast
  obtain ee where b: "build_event ''ddae-1'' ''a1'' example_detail 0 = Inr ee" using example_build by blast
  have e: "event_ok ee" by (rule build_event_ok(1) [OF b example_typed example_year])
  have q: "bseq ref_bolt d bucket_outbox = 0" and s: "unat (oa_seq empty_abs) < 18446744073709551615"
    using d(2) by (auto simp: represents_def content_def tx_view_def empty_abs_def)
  from enqueue_refines [OF ref_bolt_ok d(2) e example_marker example_clock(1) example_options_ok(2) s]
  obtain d' where d': "enqueue ref_bolt example_options ee ''m'' 1 d = (d', True, None)"
    using spec_enqueue_first [OF e] ref_commits by (auto simp: refined_def)
  have new: "\<forall>b \<in> set required_buckets. \<not> has_bucket ref_bolt [] b" by (simp add: ref_bolt_def)
  have r: "exporter_reach ref_bolt example_options ([] @ [example_detail])
      (\<lparr>dl_db = d, dl_batch = [], dl_sent = False, dl_accepted = [], dl_history = [], dl_acked = []\<rparr>
       \<lparr>dl_db := d', dl_history := [] @ (if True \<and> (None :: go_error option) = None then [last (queued ref_bolt d')] else [])\<rparr>)"
    using Built [OF Opened [OF d(1) new] b example_typed(2) example_year example_marker example_clock(1), of d' True None]
      d' q by simp
  from reachable_store_reopens [OF ref_bolt_ok example_options_ok r] example_typed(1) ref_commits r
  show ?thesis by auto
qed

end
