(* ===== verification/Fair_Select.thy ===== *)
theory Fair_Select
  imports Go_Strings "HOL-Library.Multiset"
begin

text \<open>
  The selection of the detail requests of one poll (\<open>selectFair\<close> in \<open>internal/alerts/pipeline.go\<close>; the
  function of \<open>internal/serviceability/pipeline.go\<close> is the same text): new or changed identifiers and
  identifiers due for a refresh share a limited number of requests, and identifiers that had to wait
  keep their place in the line. \<open>sort.Slice\<close> is an insertion sort here; \<open>sorted_unique\<close> shows that
  every sorting function gives the same result, since the comparison is a strict total order on
  distinct identifiers. The last section proves that the selection is fair.
\<close>

section \<open>Sorting\<close>

fun insert_by :: "('a \<Rightarrow> 'a \<Rightarrow> bool) \<Rightarrow> 'a \<Rightarrow> 'a list \<Rightarrow> 'a list" where
  "insert_by lt x [] = [x]"
| "insert_by lt x (y # ys) = (if lt y x then y # insert_by lt x ys else x # y # ys)"

fun sort_slice :: "('a \<Rightarrow> 'a \<Rightarrow> bool) \<Rightarrow> 'a list \<Rightarrow> 'a list" where
  "sort_slice lt [] = []"
| "sort_slice lt (x # xs) = insert_by lt x (sort_slice lt xs)"

lemma mset_insert_by [simp]: "mset (insert_by lt x ys) = add_mset x (mset ys)"
  by (induction ys) auto

lemma mset_sort_slice [simp]: "mset (sort_slice lt xs) = mset xs"
  by (induction xs) auto

lemma set_sort_slice [simp]: "set (sort_slice lt xs) = set xs"
  by (metis mset_sort_slice set_mset_mset)

lemma length_sort_slice [simp]: "length (sort_slice lt xs) = length xs"
  by (metis mset_sort_slice size_mset)

lemma distinct_map_sort_slice [simp]: "distinct (map f (sort_slice lt xs)) = distinct (map f xs)"
proof -
  have "mset (map f (sort_slice lt xs)) = mset (map f xs)" by simp
  then show ?thesis by (metis mset_eq_imp_distinct_iff)
qed

lemma set_insert_by [simp]: "set (insert_by lt x ys) = insert x (set ys)"
  by (induction ys) auto

lemma sorted_insert_by:
  assumes "sorted_wrt lt ys" and "transp lt" and "\<forall>y \<in> set ys. lt x y \<or> lt y x"
  shows "sorted_wrt lt (insert_by lt x ys)"
  using assms(1,3)
proof (induction ys)
  case (Cons y ys)
  have "lt x z" if "lt x y" "z \<in> set ys" for z
    using transpD [OF assms(2) that(1)] Cons.prems(1) that(2) by simp
  then show ?case using Cons by auto
qed simp

text \<open>A comparison that orders the elements of a list strictly and totally.\<close>

definition orders :: "('a \<Rightarrow> 'a \<Rightarrow> bool) \<Rightarrow> 'a list \<Rightarrow> bool" where
  "orders lt xs \<longleftrightarrow> transp lt \<and> (\<forall>x. \<not> lt x x) \<and> distinct xs \<and>
     (\<forall>x \<in> set xs. \<forall>y \<in> set xs. x \<noteq> y \<longrightarrow> lt x y \<or> lt y x)"

lemma sorted_sort_slice: "orders lt xs \<Longrightarrow> sorted_wrt lt (sort_slice lt xs)"
proof (induction xs)
  case (Cons x xs)
  then have "\<forall>y \<in> set xs. lt x y \<or> lt y x" by (fastforce simp: orders_def)
  then show ?case using Cons by (auto simp: orders_def intro!: sorted_insert_by)
qed simp

lemma sorted_unique:
  assumes "transp lt" and "\<And>x. \<not> lt x x"
  shows "sorted_wrt lt xs \<Longrightarrow> sorted_wrt lt ys \<Longrightarrow> mset xs = mset ys \<Longrightarrow> xs = ys"
proof (induction xs arbitrary: ys)
  case (Cons x xs)
  then obtain y zs where y: "ys = y # zs" by (cases ys) auto
  have "x = y"
  proof (rule ccontr)
    assume "x \<noteq> y"
    moreover have "x \<in> set ys" "y \<in> set (x # xs)" using mset_eq_setD [OF Cons.prems(3)] y by auto
    ultimately have "lt x y" "lt y x" using Cons.prems(1,2) y by auto
    then show False using transpD [OF assms(1)] assms(2) by blast
  qed
  then show ?case using Cons y by simp
qed simp

lemma orders_filter: "orders lt xs \<Longrightarrow> orders lt (filter P xs)"
  by (auto simp: orders_def)

lemma sort_slice_perm:
  assumes "orders lt xs" and "mset xs = mset ys"
  shows "sort_slice lt ys = sort_slice lt xs"
proof -
  have "orders lt ys"
    using assms mset_eq_setD [OF assms(2)] mset_eq_imp_distinct_iff [OF assms(2)] by (simp add: orders_def)
  then have s: "sorted_wrt lt (sort_slice lt ys)" by (rule sorted_sort_slice)
  have t: "transp lt" "\<And>x. \<not> lt x x" using assms(1) by (simp_all add: orders_def)
  show ?thesis
    by (rule sorted_unique [OF t s sorted_sort_slice [OF assms(1)]]) (simp add: assms(2))
qed

lemma sort_slice_Nil: "sort_slice lt xs = [] \<longleftrightarrow> xs = []"
  by (metis length_0_conv length_sort_slice)

lemma take_front:
  assumes "filter P xs \<noteq> []" and "1 \<le> k"
  shows "\<exists>x \<in> set (take k (sort_slice lt (filter P xs))). P x"
proof -
  obtain y ys where y: "sort_slice lt (filter P xs) = y # ys"
    using assms(1) sort_slice_Nil by (cases "sort_slice lt (filter P xs)") auto
  then have "P y" using set_sort_slice [of lt "filter P xs"] by auto
  then show ?thesis using y assms(2) by (cases k) auto
qed

section \<open>Tasks\<close>

record detail_task =
  dt_id :: bytes
  dt_marker :: bytes
  dt_priority :: int
  dt_last_fetched :: go_time

record fair_state =
  next_refresh_turn :: bool
  waiting_order :: "bytes \<rightharpoonup> nat"

definition new_fair_state :: fair_state where
  "new_fair_state = \<lparr>next_refresh_turn = False, waiting_order = Map.empty\<rparr>"

text \<open>The comparison of the closure \<open>order\<close>.\<close>

definition task_less :: "(bytes \<rightharpoonup> nat) \<Rightarrow> detail_task \<Rightarrow> detail_task \<Rightarrow> bool" where
  "task_less w a b =
     (let left = w (dt_id a); right = w (dt_id b) in
      if (left \<noteq> None) \<noteq> (right \<noteq> None) then left \<noteq> None
      else if left \<noteq> None then the left < the right
      else if dt_last_fetched a \<noteq> dt_last_fetched b then dt_last_fetched a < dt_last_fetched b
      else bytes_less (dt_id a) (dt_id b))"

text \<open>\<open>next[id] = len(next)\<close> over a list of identifiers.\<close>

fun assign_ranks :: "bytes list \<Rightarrow> (bytes \<rightharpoonup> nat) \<Rightarrow> nat \<Rightarrow> (bytes \<rightharpoonup> nat)" where
  "assign_ranks [] m n = m"
| "assign_ranks (i # is) m n = assign_ranks is (m(i \<mapsto> n)) (if m i = None then n + 1 else n)"

definition fair_pick ::
  "int \<Rightarrow> bool \<Rightarrow> detail_task list \<Rightarrow> detail_task list \<Rightarrow> detail_task list \<times> bool" where
  "fair_pick max_per_cycle turn new refresh =
     (let limit = min max_per_cycle (int (length new + length refresh)) in
      if limit \<le> 0 then ([], turn)
      else let limit = nat limit in
      if new = [] then (take (min limit (length refresh)) refresh, turn)
      else if refresh = [] then (take (min limit (length new)) new, turn)
      else if limit = 1 then (if turn then ([hd refresh], False) else ([hd new], True))
      else let refresh_count = min (max 1 (limit div 4)) (length refresh);
               new_count = min (limit - refresh_count) (length new);
               remaining = limit - refresh_count - new_count;
               extra = (if remaining > 0 then min remaining (length refresh - refresh_count) else 0);
               refresh_count = refresh_count + extra;
               remaining = remaining - extra;
               new_count = (if remaining > 0 then new_count + min remaining (length new - new_count)
                            else new_count)
           in (take new_count new @ take refresh_count refresh, turn))"

definition select_fair ::
  "int \<Rightarrow> detail_task list \<Rightarrow> fair_state \<Rightarrow> fair_state \<times> detail_task list" where
  "select_fair max_per_cycle tasks st =
     (let w = waiting_order st;
          new = sort_slice (task_less w) (filter (\<lambda>t. dt_priority t = 0) tasks);
          refresh = sort_slice (task_less w) (filter (\<lambda>t. dt_priority t \<noteq> 0) tasks);
          (selected, turn) = fair_pick max_per_cycle (next_refresh_turn st) new refresh;
          ordered = sort_slice (task_less w) tasks;
          attempted = set (map dt_id selected);
          waiting = filter (\<lambda>i. i \<notin> attempted) (map dt_id ordered)
      in (\<lparr>next_refresh_turn = turn,
           waiting_order = assign_ranks (waiting @ map dt_id selected) Map.empty 0\<rparr>,
          selected))"

section \<open>The comparison\<close>

lemma task_less_irrefl [simp]: "\<not> task_less w t t"
  by (simp add: task_less_def Let_def)

lemma task_less_transp: "transp (task_less w)"
proof (rule transpI)
  fix x y z assume "task_less w x y" "task_less w y z"
  then show "task_less w x z"
    using bytes_less_trans [of "dt_id x" "dt_id y" "dt_id z"]
    by (auto simp: task_less_def Let_def split: if_splits)
qed

definition fair_wf :: "(bytes \<rightharpoonup> nat) \<Rightarrow> bool" where
  "fair_wf w \<longleftrightarrow> inj_on w (dom w)"

lemma task_less_total:
  assumes "fair_wf w" and "dt_id a \<noteq> dt_id b"
  shows "task_less w a b \<or> task_less w b a"
proof -
  have "x \<noteq> y" if "w (dt_id a) = Some x" "w (dt_id b) = Some y" for x y
    using assms that by (auto simp: fair_wf_def inj_on_def dom_def)
  then show ?thesis
    using bytes_less_linear [of "dt_id a" "dt_id b"] assms(2)
    by (auto simp: task_less_def Let_def linorder_neq_iff)
qed

lemma task_orders:
  assumes "fair_wf w" and "distinct (map dt_id tasks)"
  shows "orders (task_less w) tasks"
proof -
  have "dt_id x \<noteq> dt_id y" if "x \<in> set tasks" "y \<in> set tasks" "x \<noteq> y" for x y
    using assms(2) that by (auto simp: distinct_map inj_on_def)
  then show ?thesis
    using task_less_transp task_less_total [OF assms(1)] assms(2)
    by (auto simp: orders_def distinct_map)
qed

section \<open>What is selected\<close>

definition pick_ok ::
  "int \<Rightarrow> bool \<Rightarrow> detail_task list \<Rightarrow> detail_task list \<Rightarrow> nat \<Rightarrow> nat \<Rightarrow> bool \<Rightarrow> bool" where
  "pick_ok m turn new refresh k l turn' \<longleftrightarrow>
     k \<le> length new \<and> l \<le> length refresh \<and>
     int (k + l) = max 0 (min m (int (length new + length refresh))) \<and>
     (m \<ge> 2 \<longrightarrow> (new \<noteq> [] \<longrightarrow> 1 \<le> k) \<and> (refresh \<noteq> [] \<longrightarrow> 1 \<le> l)) \<and>
     (m = 1 \<longrightarrow> (if new \<noteq> [] \<and> refresh \<noteq> []
                then turn' = (\<not> turn) \<and> (if turn then l = 1 else k = 1) else turn' = turn))"

lemma fair_pick_shape:
  "\<exists>k l turn'. fair_pick m turn new refresh = (take k new @ take l refresh, turn') \<and>
              pick_ok m turn new refresh k l turn'"
proof -
  define n where "n = min m (int (length new + length refresh))"
  have len: "new \<noteq> [] \<Longrightarrow> 1 \<le> length new" "refresh \<noteq> [] \<Longrightarrow> 1 \<le> length refresh"
    by (simp_all add: Suc_le_eq)
  consider "n \<le> 0" | "0 < n" "new = []" | "0 < n" "new \<noteq> []" "refresh = []"
    | "n = 1" "new \<noteq> []" "refresh \<noteq> []" | "1 < n" "new \<noteq> []" "refresh \<noteq> []" by linarith
  then show ?thesis
  proof cases
    case 1
    then have "fair_pick m turn new refresh = (take 0 new @ take 0 refresh, turn)"
      by (simp add: fair_pick_def n_def Let_def)
    moreover have "pick_ok m turn new refresh 0 0 turn"
      using 1 len by (auto simp: pick_ok_def n_def min_def split: if_splits)
    ultimately show ?thesis by blast
  next
    case 2
    then have "fair_pick m turn new refresh = (take 0 new @ take (nat n) refresh, turn)"
      by (simp add: fair_pick_def n_def Let_def min_def)
    moreover have "pick_ok m turn new refresh 0 (nat n) turn"
      using 2 len by (auto simp: pick_ok_def n_def min_def split: if_splits)
    ultimately show ?thesis by blast
  next
    case 3
    then have "fair_pick m turn new refresh = (take (nat n) new @ take 0 refresh, turn)"
      by (simp add: fair_pick_def n_def Let_def min_def)
    moreover have "pick_ok m turn new refresh (nat n) 0 turn"
      using 3 len by (auto simp: pick_ok_def n_def min_def split: if_splits)
    ultimately show ?thesis by blast
  next
    case 4
    then have "m = 1" using len by (simp add: n_def min_def split: if_splits)
    have "fair_pick m turn new refresh =
        (take (if turn then 0 else 1) new @ take (if turn then 1 else 0) refresh, \<not> turn)"
      using 4 unfolding fair_pick_def n_def [symmetric] Let_def
      by (cases new; cases refresh) auto
    moreover have "pick_ok m turn new refresh (if turn then 0 else 1) (if turn then 1 else 0) (\<not> turn)"
      using 4 len \<open>m = 1\<close> by (auto simp: pick_ok_def min_def)
    ultimately show ?thesis by blast
  next
    case 5
    define L where "L = nat n"
    define r0 where "r0 = min (max 1 (L div 4)) (length refresh)"
    define k0 where "k0 = min (L - r0) (length new)"
    define e where "e = min (L - r0 - k0) (length refresh - r0)"
    define k where "k = k0 + min (L - r0 - k0 - e) (length new - k0)"
    have L: "2 \<le> L" "L \<le> length new + length refresh" "int L = n" using 5
      unfolding L_def n_def by linarith+
    have q: "L div 4 < L" using L(1) by simp
    have r0: "1 \<le> r0" "r0 \<le> length refresh" "r0 < L" using len(2) [OF 5(3)] L(1) q
      by (auto simp: r0_def)
    have k0: "1 \<le> k0" "k0 \<le> length new" "k0 + r0 \<le> L" using len(1) [OF 5(2)] r0 by (auto simp: k0_def)
    have kl: "k \<le> length new" "r0 + e \<le> length refresh" "k + (r0 + e) = L"
      using r0 k0 L(2) by (auto simp: k_def e_def k0_def)
    have "fair_pick m turn new refresh = (take k new @ take (r0 + e) refresh, turn)"
    proof -
      have c: "\<not> n \<le> 0" "L \<noteq> 1" using 5 L by auto
      have e: "(if 0 < L - r0 - k0 then min (L - r0 - k0) (length refresh - r0) else 0) = e"
        by (simp add: e_def)
      have k: "(if 0 < L - r0 - k0 - e then k0 + min (L - r0 - k0 - e) (length new - k0) else k0) = k"
        by (simp add: k_def)
      show ?thesis
        unfolding fair_pick_def n_def [symmetric] Let_def L_def [symmetric] r0_def [symmetric]
          k0_def [symmetric] e k
        by (simp only: c 5(2,3) if_False)
    qed
    moreover have "pick_ok m turn new refresh k (r0 + e) turn"
      using kl k0 r0 L 5 by (auto simp: pick_ok_def n_def k_def min_def split: if_splits)
    ultimately show ?thesis by blast
  qed
qed


text \<open>The state after a selection, spelled out.\<close>

abbreviation new_tasks :: "(bytes \<rightharpoonup> nat) \<Rightarrow> detail_task list \<Rightarrow> detail_task list" where
  "new_tasks w tasks \<equiv> sort_slice (task_less w) (filter (\<lambda>t. dt_priority t = 0) tasks)"

abbreviation refresh_tasks :: "(bytes \<rightharpoonup> nat) \<Rightarrow> detail_task list \<Rightarrow> detail_task list" where
  "refresh_tasks w tasks \<equiv> sort_slice (task_less w) (filter (\<lambda>t. dt_priority t \<noteq> 0) tasks)"

definition line_after :: "(bytes \<rightharpoonup> nat) \<Rightarrow> detail_task list \<Rightarrow> detail_task list \<Rightarrow> bytes list" where
  "line_after w tasks selected =
     filter (\<lambda>i. i \<notin> dt_id ` set selected) (map dt_id (sort_slice (task_less w) tasks)) @ map dt_id selected"

lemma select_fair_shape:
  assumes "select_fair m tasks st = (st', selected)"
  obtains k l where
    "selected = take k (new_tasks (waiting_order st) tasks) @ take l (refresh_tasks (waiting_order st) tasks)"
    "pick_ok m (next_refresh_turn st) (new_tasks (waiting_order st) tasks)
       (refresh_tasks (waiting_order st) tasks) k l (next_refresh_turn st')"
    "waiting_order st' = assign_ranks (line_after (waiting_order st) tasks selected) Map.empty 0"
proof -
  from fair_pick_shape obtain k l turn' where
    p: "fair_pick m (next_refresh_turn st) (new_tasks (waiting_order st) tasks) (refresh_tasks (waiting_order st) tasks) =
          (take k (new_tasks (waiting_order st) tasks) @ take l (refresh_tasks (waiting_order st) tasks), turn')"
      "pick_ok m (next_refresh_turn st) (new_tasks (waiting_order st) tasks)
         (refresh_tasks (waiting_order st) tasks) k l turn'" by blast
  have sel: "selected = take k (new_tasks (waiting_order st) tasks) @ take l (refresh_tasks (waiting_order st) tasks)"
    using assms by (simp add: select_fair_def Let_def p(1))
  have "st' = \<lparr>next_refresh_turn = turn',
       waiting_order = assign_ranks (line_after (waiting_order st) tasks selected) Map.empty 0\<rparr>"
    using assms unfolding sel by (simp add: select_fair_def Let_def p(1) line_after_def)
  then show ?thesis using that [OF sel] p(2) by simp
qed

lemma select_fair_line:
  assumes "select_fair m tasks st = (st', selected)"
  shows "waiting_order st' = assign_ranks (line_after (waiting_order st) tasks selected) Map.empty 0"
  using assms by (rule select_fair_shape)

lemma filter_lengths: "length (filter P xs) + length (filter (\<lambda>x. \<not> P x) xs) = length xs"
  by (induction xs) auto

lemma selected_length:
  assumes "select_fair m tasks st = (st', selected)"
  shows "int (length selected) = max 0 (min m (int (length tasks)))"
  using assms
proof (rule select_fair_shape)
  fix k l
  assume *: "selected = take k (new_tasks (waiting_order st) tasks) @ take l (refresh_tasks (waiting_order st) tasks)"
    "pick_ok m (next_refresh_turn st) (new_tasks (waiting_order st) tasks)
       (refresh_tasks (waiting_order st) tasks) k l (next_refresh_turn st')"
  then have "length selected = k + l" by (simp add: pick_ok_def)
  then show ?thesis using *(2) filter_lengths [of "\<lambda>t. dt_priority t = 0" tasks] by (simp add: pick_ok_def)
qed

lemma mset_parts: "mset (new_tasks w tasks) + mset (refresh_tasks w tasks) = mset tasks"
  by (simp add: mset_filter multiset_partition [symmetric])

lemma mset_take_subset: "mset (take n xs) \<subseteq># mset xs"
  by (metis append_take_drop_id mset_append mset_subset_eq_add_left)

lemma selected_subset:
  assumes "select_fair m tasks st = (st', selected)"
  shows "mset selected \<subseteq># mset tasks"
proof -
  from assms obtain k l where
    "selected = take k (new_tasks (waiting_order st) tasks) @ take l (refresh_tasks (waiting_order st) tasks)"
    by (rule select_fair_shape)
  then have "mset selected \<subseteq># mset (new_tasks (waiting_order st) tasks) + mset (refresh_tasks (waiting_order st) tasks)"
    by (simp add: subset_mset.add_mono mset_take_subset del: mset_sort_slice)
  then show ?thesis by (simp only: mset_parts)
qed

lemma distinct_sub_mset:
  assumes "mset xs \<subseteq># mset ys" and "distinct ys"
  shows "distinct xs"
proof -
  obtain C where "mset ys = mset xs + C" using assms(1) by (auto simp: subset_mset.le_iff_add)
  moreover obtain zs where "mset zs = C" using ex_mset by blast
  ultimately have "mset (xs @ zs) = mset ys" by simp
  then have "distinct (xs @ zs)" using assms(2) mset_eq_imp_distinct_iff by blast
  then show ?thesis by simp
qed

lemma selected_distinct:
  assumes "select_fair m tasks st = (st', selected)" and "distinct (map dt_id tasks)"
  shows "distinct (map dt_id selected)"
proof -
  have "mset (map dt_id selected) \<subseteq># mset (map dt_id tasks)"
    using image_mset_subseteq_mono [OF selected_subset [OF assms(1)], of dt_id] by simp
  then show ?thesis using assms(2) by (rule distinct_sub_mset)
qed

section \<open>Ranks\<close>

lemma assign_ranks_other: "i \<notin> set is \<Longrightarrow> assign_ranks is m n i = m i"
  by (induction "is" arbitrary: m n) auto

lemma assign_ranks_nth:
  assumes "distinct is" and "\<forall>i \<in> set is. m i = None" and "j < length is"
  shows "assign_ranks is m n (is ! j) = Some (n + j)"
  using assms
proof (induction "is" arbitrary: m n j)
  case (Cons a as)
  show ?case
  proof (cases j)
    case 0
    then show ?thesis using Cons.prems by (simp add: assign_ranks_other)
  next
    case (Suc k)
    have "\<forall>i \<in> set as. (m(a \<mapsto> n)) i = None" using Cons.prems by auto
    moreover have "distinct as" "k < length as" "m a = None" using Cons.prems Suc by auto
    ultimately have "assign_ranks as (m(a \<mapsto> n)) (n + 1) (as ! k) = Some (n + 1 + k)"
      using Cons.IH by blast
    then show ?thesis using \<open>m a = None\<close> Suc by simp
  qed
qed simp

lemma assign_ranks_wf:
  assumes "distinct is"
  shows "fair_wf (assign_ranks is Map.empty 0)"
proof -
  have r: "assign_ranks is Map.empty 0 (is ! j) = Some j" if "j < length is" for j
    using assign_ranks_nth [OF assms _ that, of Map.empty 0] by simp
  have "assign_ranks is Map.empty 0 i \<noteq> None \<Longrightarrow> i \<in> set is" for i
    by (rule ccontr) (simp add: assign_ranks_other)
  then show ?thesis
    by (auto simp: fair_wf_def inj_on_def dom_def) (metis r in_set_conv_nth option.inject option.discI)
qed

lemma line_after_distinct:
  assumes "select_fair m tasks st = (st', selected)" and "distinct (map dt_id tasks)"
  shows "distinct (line_after w tasks selected)"
  using selected_distinct [OF assms] assms(2) by (auto simp: line_after_def distinct_filter)

lemma select_fair_wf:
  assumes "select_fair m tasks st = (st', selected)" and "distinct (map dt_id tasks)"
  shows "fair_wf (waiting_order st')"
  using assign_ranks_wf [OF line_after_distinct [OF assms]] select_fair_line [OF assms(1)] by simp


section \<open>Waiting\<close>

text \<open>The tasks a task has before it.\<close>

definition ahead :: "(bytes \<rightharpoonup> nat) \<Rightarrow> detail_task list \<Rightarrow> detail_task \<Rightarrow> detail_task set" where
  "ahead w tasks t = {u \<in> set tasks. task_less w u t}"

lemma ahead_finite [simp]: "finite (ahead w tasks t)"
  by (simp add: ahead_def)

lemma ahead_less_length: "t \<in> set tasks \<Longrightarrow> card (ahead w tasks t) < length tasks"
proof -
  assume t: "t \<in> set tasks"
  have "t \<notin> ahead w tasks t" by (simp add: ahead_def)
  moreover have "ahead w tasks t \<subseteq> set tasks" by (auto simp: ahead_def)
  ultimately have "ahead w tasks t \<subset> set tasks" using t by blast
  then have "card (ahead w tasks t) < card (set tasks)" by (simp add: psubset_card_mono)
  then show ?thesis using card_length [of tasks] by linarith
qed

lemma sorted_split_card:
  assumes "sorted_wrt lt (xs @ t # ys)" and "transp lt" and "\<And>x. \<not> lt x x" and "distinct (xs @ t # ys)"
  shows "length xs = card {u \<in> set (xs @ t # ys). lt u t}"
proof -
  have "\<not> lt u t" if "u \<in> set ys" for u
    using assms(1) that transpD [OF assms(2), of t u t] assms(3) by (auto simp: sorted_wrt_append)
  then have "{u \<in> set (xs @ t # ys). lt u t} = set xs"
    using assms(1,3) by (auto simp: sorted_wrt_append)
  then show ?thesis using assms(4) by (simp add: distinct_card)
qed

lemma rank_after:
  assumes "select_fair m tasks st = (st', selected)" and "fair_wf (waiting_order st)"
    and "distinct (map dt_id tasks)" and "t \<in> set tasks" and "dt_id t \<notin> dt_id ` set selected"
  shows "waiting_order st' (dt_id t) =
     Some (card {u \<in> ahead (waiting_order st) tasks t. dt_id u \<notin> dt_id ` set selected})"
proof -
  let ?lt = "task_less (waiting_order st)"
  define fl where "fl = filter (\<lambda>u. dt_id u \<notin> dt_id ` set selected) (sort_slice ?lt tasks)"
  have o: "orders ?lt tasks" by (rule task_orders [OF assms(2,3)])
  have sorted: "sorted_wrt ?lt fl" unfolding fl_def by (rule sorted_wrt_filter [OF sorted_sort_slice [OF o]])
  have dist: "distinct (map dt_id fl)"
    unfolding fl_def using assms(3) by (intro distinct_map_filter) simp
  have "t \<in> set fl" using assms(4,5) by (simp add: fl_def)
  then obtain xs ys where fl: "fl = xs @ t # ys" by (meson split_list)
  have line: "line_after (waiting_order st) tasks selected = map dt_id fl @ map dt_id selected"
    by (simp add: line_after_def fl_def filter_map o_def)
  have "waiting_order st' = assign_ranks (map dt_id fl @ map dt_id selected) Map.empty 0"
    using select_fair_line [OF assms(1)] by (simp only: line)
  moreover have "distinct (map dt_id fl @ map dt_id selected)"
    using line_after_distinct [OF assms(1,3)] line by metis
  then have "assign_ranks (map dt_id fl @ map dt_id selected) Map.empty 0
               ((map dt_id fl @ map dt_id selected) ! length xs) = Some (0 + length xs)"
    by (rule assign_ranks_nth) (simp_all add: fl)
  moreover have "(map dt_id fl @ map dt_id selected) ! length xs = dt_id t"
    by (simp add: fl nth_append)
  moreover have "distinct (xs @ t # ys)" using dist unfolding fl by (simp only: distinct_map)
  then have "length xs = card {u \<in> set fl. ?lt u t}"
    using sorted_split_card [OF sorted [unfolded fl] task_less_transp task_less_irrefl] by (simp only: fl)
  moreover have "{u \<in> set fl. ?lt u t} = {u \<in> ahead (waiting_order st) tasks t. dt_id u \<notin> dt_id ` set selected}"
    by (auto simp: fl_def ahead_def)
  ultimately show ?thesis by simp
qed

lemma ahead_le_rank:
  assumes "fair_wf w" and "distinct (map dt_id tasks)" and "w (dt_id t) = Some r"
  shows "card (ahead w tasks t) \<le> r"
proof -
  have w: "\<exists>n. w (dt_id u) = Some n \<and> n < r" if "u \<in> ahead w tasks t" for u
    using that assms(3) by (auto simp: ahead_def task_less_def Let_def split: if_splits)
  have "inj_on (\<lambda>u. the (w (dt_id u))) (ahead w tasks t)"
  proof (rule inj_onI)
    fix u v assume uv: "u \<in> ahead w tasks t" "v \<in> ahead w tasks t" "the (w (dt_id u)) = the (w (dt_id v))"
    then have "dt_id u = dt_id v"
      using w [OF uv(1)] w [OF uv(2)] assms(1) by (auto simp: fair_wf_def inj_on_def dom_def)
    then show "u = v" using uv(1,2) assms(2) by (auto simp: ahead_def distinct_map inj_on_def)
  qed
  moreover have "(\<lambda>u. the (w (dt_id u))) ` ahead w tasks t \<subseteq> {..<r}" using w by fastforce
  ultimately have "card (ahead w tasks t) \<le> card {..<r}" by (rule card_inj_on_le) simp
  then show ?thesis by simp
qed


text \<open>The tasks that compete with a task: those of its class, the only ones the fair share counts.\<close>

lemma class_front:
  assumes "fair_wf w" and "distinct (map dt_id tasks)" and "t \<in> set tasks" and "P t" and "1 \<le> k"
    and "t \<notin> set (take k (sort_slice (task_less w) (filter P tasks)))"
  shows "\<exists>u \<in> set (take k (sort_slice (task_less w) (filter P tasks))). u \<in> ahead w tasks t"
proof -
  let ?c = "sort_slice (task_less w) (filter P tasks)"
  have t: "t \<in> set ?c" using assms(3,4) by simp
  then obtain u us where c: "?c = u # us" by (cases ?c) auto
  have u: "u \<in> set (take k ?c)" using assms(5) c by (cases k) auto
  then have "t \<in> set us" using t c assms(6) by auto
  moreover have "orders (task_less w) (filter P tasks)"
    using task_orders [OF assms(1,2)] by (auto simp: orders_def)
  then have "sorted_wrt (task_less w) ?c" by (rule sorted_sort_slice)
  ultimately have "task_less w u t" using c by simp
  moreover have "u \<in> set tasks" using c set_sort_slice [of "task_less w" "filter P tasks"] by auto
  ultimately show ?thesis using u by (auto simp: ahead_def)
qed

definition favoured :: "fair_state \<Rightarrow> detail_task \<Rightarrow> bool" where
  "favoured st t \<longleftrightarrow> next_refresh_turn st \<noteq> (dt_priority t = 0)"

definition overtaken :: "fair_state \<Rightarrow> detail_task list \<Rightarrow> detail_task list \<Rightarrow> detail_task \<Rightarrow> bool" where
  "overtaken st tasks selected t \<longleftrightarrow> (\<exists>u \<in> set selected. u \<in> ahead (waiting_order st) tasks t)"

lemma not_selected_overtaken:
  assumes sf: "select_fair m tasks st = (st', selected)" and wf: "fair_wf (waiting_order st)"
    and d: "distinct (map dt_id tasks)" and t: "t \<in> set tasks" and ns: "t \<notin> set selected" and m: "1 \<le> m"
  shows "overtaken st tasks selected t \<or> m = 1 \<and> \<not> favoured st t \<and> favoured st' t"
  using sf
proof (rule select_fair_shape)
  let ?w = "waiting_order st"
  fix k l
  assume sel: "selected = take k (new_tasks ?w tasks) @ take l (refresh_tasks ?w tasks)"
    and ok: "pick_ok m (next_refresh_turn st) (new_tasks ?w tasks) (refresh_tasks ?w tasks) k l
               (next_refresh_turn st')"
  define new where "new = new_tasks ?w tasks"
  define refresh where "refresh = refresh_tasks ?w tasks"
  have n: "overtaken st tasks selected t" if "dt_priority t = 0" "1 \<le> k"
    using class_front [OF wf d t, of "\<lambda>t. dt_priority t = 0" k] that ns sel
    by (auto simp: overtaken_def)
  have r: "overtaken st tasks selected t" if "dt_priority t \<noteq> 0" "1 \<le> l"
    using class_front [OF wf d t, of "\<lambda>t. dt_priority t \<noteq> 0" l] that ns sel
    by (auto simp: overtaken_def)
  have "t \<in> set new" if "dt_priority t = 0" using t that by (simp add: new_def)
  then have tn: "new \<noteq> []" if "dt_priority t = 0" using that by auto
  have "t \<in> set refresh" if "dt_priority t \<noteq> 0" using t that by (simp add: refresh_def)
  then have tr: "refresh \<noteq> []" if "dt_priority t \<noteq> 0" using that by auto
  have ok': "pick_ok m (next_refresh_turn st) new refresh k l (next_refresh_turn st')"
    using ok by (simp only: new_def refresh_def)
  have kl: "int (k + l) = min m (int (length new + length refresh))" "k \<le> length new" "l \<le> length refresh"
    using ok' m by (simp_all add: pick_ok_def)
  show ?thesis
  proof (cases "m \<ge> 2 \<or> new = [] \<or> refresh = []")
    case True
    have "dt_priority t = 0 \<longrightarrow> 1 \<le> k" "dt_priority t \<noteq> 0 \<longrightarrow> 1 \<le> l"
    proof -
      have one: "1 \<le> length xs" if "xs \<noteq> []" for xs :: "detail_task list" using that by (simp add: Suc_le_eq)
      have "1 \<le> k" if "refresh = []" "new \<noteq> []" using kl that m one [OF that(2)] by (simp add: min_def split: if_splits)
      moreover have "1 \<le> l" if "new = []" "refresh \<noteq> []" using kl that m one [OF that(2)] by (simp add: min_def split: if_splits)
      moreover have "m \<ge> 2 \<longrightarrow> (new \<noteq> [] \<longrightarrow> 1 \<le> k) \<and> (refresh \<noteq> [] \<longrightarrow> 1 \<le> l)"
        using ok' by (simp add: pick_ok_def)
      ultimately show "dt_priority t = 0 \<longrightarrow> 1 \<le> k" "dt_priority t \<noteq> 0 \<longrightarrow> 1 \<le> l"
        using True tn tr by blast+
    qed
    then show ?thesis using n r by blast
  next
    case False
    then have "m = 1" using m by simp
    with False ok' have "next_refresh_turn st' = (\<not> next_refresh_turn st)"
      "next_refresh_turn st \<Longrightarrow> l = 1" "\<not> next_refresh_turn st \<Longrightarrow> k = 1"
      by (simp_all add: pick_ok_def split: if_splits)
    then show ?thesis using \<open>m = 1\<close> n r by (auto simp: favoured_def)
  qed
qed

definition delay :: "int \<Rightarrow> fair_state \<Rightarrow> detail_task list \<Rightarrow> detail_task \<Rightarrow> nat" where
  "delay m st tasks t =
     (let n = card (ahead (waiting_order st) tasks t)
      in if m = 1 then 2 * n + (if favoured st t then 0 else 1) else n)"

lemma delay_decreases:
  assumes sf: "select_fair m tasks st = (st', selected)" and wf: "fair_wf (waiting_order st)"
    and d: "distinct (map dt_id tasks)" and t: "t \<in> set tasks"
    and ns: "dt_id t \<notin> dt_id ` set selected" and m: "1 \<le> m"
    and d': "distinct (map dt_id tasks')" and t': "dt_id t' = dt_id t"
    and c: "m = 1 \<Longrightarrow> (dt_priority t' = 0) = (dt_priority t = 0)"
  shows "delay m st' tasks' t' < delay m st tasks t"
proof -
  let ?a = "ahead (waiting_order st) tasks t" and ?a' = "ahead (waiting_order st') tasks' t'"
  let ?b = "{u \<in> ?a. dt_id u \<notin> dt_id ` set selected}"
  have le: "card ?a' \<le> card ?b"
    using ahead_le_rank [OF select_fair_wf [OF sf d] d'] rank_after [OF sf wf d t ns] t' by simp
  have le': "card ?b \<le> card ?a" by (intro card_mono) auto
  have lt: "card ?b < card ?a" if "overtaken st tasks selected t"
  proof -
    have "?b \<subset> ?a" using that by (auto simp: overtaken_def)
    then show ?thesis by (intro psubset_card_mono) auto
  qed
  have "t \<notin> set selected" using ns by auto
  then have o: "overtaken st tasks selected t \<or> m = 1 \<and> \<not> favoured st t \<and> favoured st' t"
    by (rule not_selected_overtaken [OF sf wf d t _ m])
  have f: "favoured st' t' = favoured st' t" if "m = 1" using c [OF that] by (simp add: favoured_def)
  show ?thesis using o lt le le' f by (auto simp: delay_def Let_def)
qed


section \<open>Properties\<close>

text \<open>The selections of a sequence of polls.\<close>

fun run_select :: "int \<Rightarrow> detail_task list list \<Rightarrow> fair_state \<Rightarrow> detail_task list list" where
  "run_select m [] st = []"
| "run_select m (tasks # polls) st =
     (case select_fair m tasks st of (st', selected) \<Rightarrow> selected # run_select m polls st')"

definition eligible :: "int \<Rightarrow> bool \<Rightarrow> bytes \<Rightarrow> detail_task list \<Rightarrow> bool" where
  "eligible m c i tasks \<longleftrightarrow> distinct (map dt_id tasks) \<and>
     list_ex (\<lambda>t. dt_id t = i \<and> (m = 1 \<longrightarrow> (dt_priority t = 0) = c)) tasks"

lemma eligibleD:
  assumes "eligible m c i tasks"
  obtains t where "t \<in> set tasks" "dt_id t = i" "m = 1 \<longrightarrow> (dt_priority t = 0) = c" "distinct (map dt_id tasks)"
  using assms by (auto simp: eligible_def list_ex_iff)

lemma served_within:
  assumes "fair_wf (waiting_order st)" and "1 \<le> m" and "\<forall>tasks \<in> set polls. eligible m c i tasks"
    and "polls \<noteq> []" and "t \<in> set (hd polls)" and "dt_id t = i" and "m = 1 \<longrightarrow> (dt_priority t = 0) = c"
    and "delay m st (hd polls) t < length polls"
  shows "\<exists>selected \<in> set (run_select m polls st). i \<in> dt_id ` set selected"
  using assms
proof (induction polls arbitrary: st t)
  case (Cons tasks polls)
  obtain st' selected where sf: "select_fair m tasks st = (st', selected)" by fastforce
  have d: "distinct (map dt_id tasks)" using Cons.prems(3) by (simp add: eligible_def)
  show ?case
  proof (cases "i \<in> dt_id ` set selected")
    case True
    then show ?thesis using sf by simp
  next
    case False
    note dec = delay_decreases [OF sf Cons.prems(1) d _ _ Cons.prems(2)]
    have "delay m st' tasks t < delay m st tasks t"
      using dec [of t tasks t] False Cons.prems(5,6) d by simp
    then have "polls \<noteq> []" using Cons.prems(8) by auto
    then obtain tasks' rest where p: "polls = tasks' # rest" by (cases polls) auto
    then have "eligible m c i tasks'" using Cons.prems(3) by simp
    then obtain t' where t': "t' \<in> set tasks'" "dt_id t' = i" "m = 1 \<longrightarrow> (dt_priority t' = 0) = c"
      "distinct (map dt_id tasks')" by (rule eligibleD)
    have "delay m st' tasks' t' < delay m st tasks t"
      using dec [of t tasks' t'] False t' Cons.prems(5-7) by simp
    then have "\<exists>selected \<in> set (run_select m polls st'). i \<in> dt_id ` set selected"
      using Cons.prems t' p by (intro Cons.IH [of st' t', OF select_fair_wf [OF sf d] Cons.prems(2)]) auto
    then show ?thesis using sf by simp
  qed
qed simp

text \<open>
  Claim C8. No identifier starves: one that is due in every poll (in the same class when a poll has a
  single request) is selected after at most as many polls as there were tasks in the first of them,
  twice as many when a poll has a single request to make. Newcomers cannot overtake it for ever,
  whatever they are and in whatever order the map of listed identifiers is iterated.
\<close>

theorem selection_does_not_starve:
  assumes "fair_wf (waiting_order st)" and "1 \<le> max_per_cycle" and "polls \<noteq> []"
    and "\<forall>tasks \<in> set polls. eligible max_per_cycle c i tasks"
    and "(if max_per_cycle = 1 then 2 else 1) * length (hd polls) \<le> length polls"
  shows "\<exists>selected \<in> set (run_select max_per_cycle polls st). i \<in> dt_id ` set selected"
proof -
  have "eligible max_per_cycle c i (hd polls)" using assms(3,4) by simp
  then obtain t where t: "t \<in> set (hd polls)" "dt_id t = i" "max_per_cycle = 1 \<longrightarrow> (dt_priority t = 0) = c"
    by (rule eligibleD)
  have "card (ahead (waiting_order st) (hd polls) t) < length (hd polls)" using t(1) by (rule ahead_less_length)
  then have "delay max_per_cycle st (hd polls) t < length polls"
    using assms(5) by (auto simp: delay_def Let_def split: if_splits)
  then show ?thesis using served_within [OF assms(1,2,4,3)] t by blast
qed

definition example_task :: "bytes \<Rightarrow> int \<Rightarrow> detail_task" where
  "example_task i p = \<lparr>dt_id = i, dt_marker = [], dt_priority = p, dt_last_fetched = 0\<rparr>"

lemma selection_does_not_starve_witness:
  "let polls = replicate 4 [example_task ''a'' 0, example_task ''b'' 1] in
   \<exists>selected \<in> set (run_select 1 polls new_fair_state). ''b'' \<in> dt_id ` set selected"
proof -
  have "fair_wf (waiting_order new_fair_state)" by (simp add: fair_wf_def new_fair_state_def)
  moreover have "\<forall>tasks \<in> set (replicate 4 [example_task ''a'' 0, example_task ''b'' 1]). eligible 1 False ''b'' tasks"
    by (simp add: eligible_def example_task_def)
  ultimately show ?thesis
    unfolding Let_def by (intro selection_does_not_starve) simp_all
qed

text \<open>
  One poll makes as many requests as its limit and the tasks allow, each for a different
  identifier of the list, and does not depend on the order in which the tasks arrive; when both
  classes have tasks and the limit is at least two, each class gets a request.
\<close>

theorem selection_is_work_conserving:
  assumes "fair_wf (waiting_order st)" and "distinct (map dt_id tasks)" and "mset tasks' = mset tasks"
    and "select_fair max_per_cycle tasks st = (st', selected)"
  shows "int (length selected) = max 0 (min max_per_cycle (int (length tasks))) \<and>
         set selected \<subseteq> set tasks \<and> distinct (map dt_id selected) \<and>
         select_fair max_per_cycle tasks' st = (st', selected) \<and>
         (max_per_cycle \<ge> 2 \<and> (\<exists>t \<in> set tasks. dt_priority t = 0) \<and> (\<exists>t \<in> set tasks. dt_priority t \<noteq> 0) \<longrightarrow>
            (\<exists>t \<in> set selected. dt_priority t = 0) \<and> (\<exists>t \<in> set selected. dt_priority t \<noteq> 0))"
proof -
  let ?w = "waiting_order st"
  have o: "orders (task_less ?w) tasks" by (rule task_orders [OF assms(1,2)])
  have f: "sort_slice (task_less ?w) (filter P tasks') = sort_slice (task_less ?w) (filter P tasks)" for P
    by (rule sort_slice_perm [OF orders_filter [OF o]]) (simp add: mset_filter assms(3))
  have g: "sort_slice (task_less ?w) tasks' = sort_slice (task_less ?w) tasks"
    by (rule sort_slice_perm [OF o]) (simp add: assms(3))
  have p: "select_fair max_per_cycle tasks' st = (st', selected)"
    using assms(4) by (simp only: select_fair_def f g Let_def)
  have both: "(\<exists>t \<in> set selected. dt_priority t = 0) \<and> (\<exists>t \<in> set selected. dt_priority t \<noteq> 0)"
    if "max_per_cycle \<ge> 2" "\<exists>t \<in> set tasks. dt_priority t = 0" "\<exists>t \<in> set tasks. dt_priority t \<noteq> 0"
    using assms(4)
  proof (rule select_fair_shape)
    fix k l
    assume sel: "selected = take k (new_tasks ?w tasks) @ take l (refresh_tasks ?w tasks)"
      and ok: "pick_ok max_per_cycle (next_refresh_turn st) (new_tasks ?w tasks) (refresh_tasks ?w tasks) k l
                 (next_refresh_turn st')"
    have ne: "filter (\<lambda>t. dt_priority t = 0) tasks \<noteq> []" "filter (\<lambda>t. dt_priority t \<noteq> 0) tasks \<noteq> []"
      using that by (simp_all add: filter_empty_conv)
    then have kl: "1 \<le> k" "1 \<le> l"
      using ok that(1) by (simp_all add: pick_ok_def sort_slice_Nil)
    show ?thesis
      using take_front [OF ne(1) kl(1), of "task_less ?w"] take_front [OF ne(2) kl(2), of "task_less ?w"]
      unfolding sel by fastforce
  qed
  show ?thesis
    using selected_length [OF assms(4)] set_mset_mono [OF selected_subset [OF assms(4)]]
      selected_distinct [OF assms(4,2)] p both by simp
qed

lemma selection_is_work_conserving_witness:
  "length (snd (select_fair 2 [example_task ''a'' 0, example_task ''b'' 1, example_task ''c'' 1] new_fair_state)) = 2"
proof -
  let ?ts = "[example_task ''a'' 0, example_task ''b'' 1, example_task ''c'' 1]"
  have "fair_wf (waiting_order new_fair_state)" by (simp add: fair_wf_def new_fair_state_def)
  moreover have "distinct (map dt_id ?ts)" by (simp add: example_task_def)
  moreover obtain st' selected where r: "select_fair 2 ?ts new_fair_state = (st', selected)" by fastforce
  ultimately have "int (length selected) = max 0 (min 2 (int (length ?ts)))"
    using selection_is_work_conserving [of new_fair_state ?ts ?ts 2 st' selected] by blast
  then show ?thesis using r by simp
qed

end
