(* ===== verification/Pipeline_Core.thy ===== *)
theory Pipeline_Core
  imports Fair_Select Ddae_Types Go_Time
begin

text \<open>
  What the two collection pipelines (\<open>internal/alerts/pipeline.go\<close>, \<open>internal/serviceability/pipeline.go\<close>)
  have in common: the durable state they call (the Go interface \<open>State\<close>), the loop over the listed
  identifiers that decides which details to fetch, and the worker pool that fetches them. The source
  has the two loops twice, word for word up to names; they are one function each here.

  The iteration order of a Go map is unspecified: the loop runs over the listed identifiers in an order
  given as an argument. Of the worker pool the order in which the tasks reach the state is an argument
  (\<open>schedule\<close>): the workers only share the state, whose operations are transactions, and a task that
  is not handed out before the cycle's deadline is missing from it.

  The locale \<open>detail_state\<close> is the contract of the state; the lemmas inside it show that a poll keeps
  the state well formed and loses no known identifier.
\<close>

section \<open>The durable state\<close>

record ('s, 'e) state_ops =
  so_fetch :: "bytes \<Rightarrow> 's \<Rightarrow> bool \<times> bytes \<times> go_time \<times> go_error option"
  so_enqueue :: "'e \<Rightarrow> bytes \<Rightarrow> go_time \<Rightarrow> 's \<Rightarrow> 's \<times> bool \<times> go_error option"
  so_mark_seen :: "bytes \<Rightarrow> bytes \<Rightarrow> go_time \<Rightarrow> 's \<Rightarrow> 's \<times> go_error option"
  so_reconcile :: "bytes set \<Rightarrow> go_time \<Rightarrow> bool \<Rightarrow> 's \<Rightarrow> 's \<times> go_error option"
  so_health :: "'s \<Rightarrow> int \<times> bool \<times> go_error option"

section \<open>Markers\<close>

definition usable_marker :: "bytes option \<Rightarrow> bytes" where
  "usable_marker value =
     (case value of
        None \<Rightarrow> []
      | Some v \<Rightarrow>
          if trim_space v = [] then []
          else case parse_rfc3339 v of None \<Rightarrow> [] | Some t \<Rightarrow> format_rfc3339 t)"

section \<open>Scanning the list\<close>

text \<open>The loop over the listed items; \<open>valid\<close> is the identifier check of the package.\<close>

fun scan_items ::
  "(bytes \<Rightarrow> bool) \<Rightarrow> alert_list_item list \<Rightarrow> bytes list \<Rightarrow> (bytes \<rightharpoonup> bytes) \<Rightarrow> bool
   \<Rightarrow> bytes list \<times> (bytes \<rightharpoonup> bytes) \<times> bool" where
  "scan_items valid [] listed markers complete = (listed, markers, complete)"
| "scan_items valid (item # items) listed markers complete =
     (if \<not> valid (li_id item) then scan_items valid items listed markers False
      else if li_id item \<in> set listed then scan_items valid items listed markers False
      else scan_items valid items (listed @ [li_id item])
             (markers(li_id item \<mapsto> usable_marker (li_updated_on item))) complete)"

definition marker_of :: "(bytes \<rightharpoonup> bytes) \<Rightarrow> bytes \<Rightarrow> bytes" where
  "marker_of markers i = (case markers i of None \<Rightarrow> [] | Some m \<Rightarrow> m)"

lemma scan_listed_all:
  assumes "distinct listed0"
  shows "case scan_items valid items listed0 markers0 c0 of (listed, markers, c) \<Rightarrow>
     distinct listed \<and>
     set listed = set listed0 \<union> {i \<in> li_id ` set items. valid i} \<and>
     length listed \<le> length listed0 + length items"
  using assms
proof (induction items arbitrary: listed0 markers0 c0)
  case (Cons item items)
  let ?i = "li_id item" and ?m = "markers0(li_id item \<mapsto> usable_marker (li_updated_on item))"
  note skip = Cons.IH [OF Cons.prems, of markers0 False]
  have add: "valid ?i \<Longrightarrow> ?i \<notin> set listed0 \<Longrightarrow>
      case scan_items valid items (listed0 @ [?i]) ?m c0 of (listed, markers, c) \<Rightarrow>
        distinct listed \<and>
        set listed = set (listed0 @ [?i]) \<union> {i \<in> li_id ` set items. valid i} \<and>
        length listed \<le> length (listed0 @ [?i]) + length items"
    using Cons.prems by (intro Cons.IH) auto
  consider "\<not> valid ?i" | "valid ?i" "?i \<in> set listed0" | "valid ?i" "?i \<notin> set listed0" by blast
  then show ?case
    by cases (use skip add in \<open>auto simp del: fun_upd_apply split: prod.splits\<close>)
qed simp

lemma scan_listed:
  assumes "scan_items valid items [] markers0 c0 = (listed, markers, c)"
  shows "distinct listed" and "\<forall>i \<in> set listed. valid i"
    and "set listed = {i \<in> li_id ` set items. valid i}" and "length listed \<le> length items"
proof -
  have all: "distinct listed" "set listed = {i \<in> li_id ` set items. valid i}" "length listed \<le> length items"
    using scan_listed_all [where valid = valid and ?listed0.0 = "[]" and items = items and ?markers0.0 = markers0 and ?c0.0 = c0] assms by simp_all
  then show "distinct listed" "set listed = {i \<in> li_id ` set items. valid i}" "length listed \<le> length items"
    by blast+
  show "\<forall>i \<in> set listed. valid i" unfolding all(2) by blast
qed

lemma scan_complete:
  "snd (snd (scan_items valid items listed markers c)) \<longleftrightarrow>
     c \<and> (\<forall>i \<in> li_id ` set items. valid i) \<and> distinct (map li_id items) \<and>
     set listed \<inter> li_id ` set items = {}"
proof (induction items arbitrary: listed markers c)
  case (Cons item items)
  show ?case by (auto simp: Cons.IH simp del: fun_upd_apply)
qed simp

lemma usable_marker_cases: "usable_marker v = [] \<or> (\<exists>t. usable_marker v = format_rfc3339 t)"
  by (auto simp: usable_marker_def split: option.split)

section \<open>Which details to fetch\<close>

definition priority_of ::
  "go_duration \<Rightarrow> go_time \<Rightarrow> bytes \<Rightarrow> bool \<Rightarrow> bytes \<Rightarrow> go_time \<Rightarrow> int" where
  "priority_of refresh now marker exists previous last_fetched =
     (if \<not> exists then 0
      else if marker \<noteq> [] \<and> marker \<noteq> previous then 0
      else if is_zero last_fetched \<or> time_sub now last_fetched \<ge> refresh then 1
      else 2)"

record ('s, 'v) planning =
  pl_state :: 's
  pl_view :: 'v
  pl_tasks :: "detail_task list"
  pl_ok :: bool

text \<open>The loop over the listed identifiers; \<open>unhealthy\<close> is the diagnostics call of its error branches.\<close>

fun plan_tasks ::
  "('s, 'e) state_ops \<Rightarrow> ('v \<Rightarrow> 'v) \<Rightarrow> go_duration \<Rightarrow> go_time \<Rightarrow> (bytes \<rightharpoonup> bytes) \<Rightarrow> bytes list
   \<Rightarrow> ('s, 'v) planning \<Rightarrow> ('s, 'v) planning" where
  "plan_tasks S unhealthy refresh now markers [] p = p"
| "plan_tasks S unhealthy refresh now markers (i # is) p =
     plan_tasks S unhealthy refresh now markers is
       (case so_fetch S i (pl_state p) of
          (exists, previous, last_fetched, Some _) \<Rightarrow>
            p\<lparr>pl_ok := False, pl_view := unhealthy (pl_view p)\<rparr>
        | (exists, previous, last_fetched, None) \<Rightarrow>
            (let marker = marker_of markers i;
                 priority = priority_of refresh now marker exists previous last_fetched
             in if priority < 2
                then p\<lparr>pl_tasks := pl_tasks p @
                         [\<lparr>dt_id = i, dt_marker = marker, dt_priority = priority, dt_last_fetched = last_fetched\<rparr>]\<rparr>
                else case so_mark_seen S i marker now (pl_state p) of
                       (s, None) \<Rightarrow> p\<lparr>pl_state := s\<rparr>
                     | (s, Some _) \<Rightarrow>
                         p\<lparr>pl_state := s, pl_ok := False, pl_view := unhealthy (pl_view p)\<rparr>))"

section \<open>Fetching details\<close>

record 's fetching =
  ft_state :: 's
  ft_success :: bool
  ft_state_ok :: bool
  ft_count :: nat

text \<open>
  One task of a worker: the detail request, the event built from its answer, and the enqueue with the
  marker the package chooses. \<open>build\<close> is the package's BuildEvent on the source instance and the time
  of the poll.
\<close>

definition process_task ::
  "('s, 'e) state_ops \<Rightarrow> (bytes \<Rightarrow> go_error + 'd) \<Rightarrow> (bytes \<Rightarrow> 'd \<Rightarrow> go_error + 'e) \<Rightarrow>
   ('d \<Rightarrow> bytes \<Rightarrow> bytes) \<Rightarrow> go_time \<Rightarrow> detail_task \<Rightarrow> 's \<Rightarrow> 's \<times> go_error option \<times> bool" where
  "process_task S api build pick observed t s =
     (case api (dt_id t) of
        Inl err \<Rightarrow> (s, Some err, False)
      | Inr detail \<Rightarrow>
          (case build (dt_id t) detail of
             Inl err \<Rightarrow> (s, Some err, False)
           | Inr event \<Rightarrow>
               (case so_enqueue S event (pick detail (dt_marker t)) observed s of
                  (s', inserted, err) \<Rightarrow> (s', err, err \<noteq> None))))"

fun run_tasks ::
  "('s, 'e) state_ops \<Rightarrow> (bytes \<Rightarrow> go_error + 'd) \<Rightarrow> (bytes \<Rightarrow> 'd \<Rightarrow> go_error + 'e) \<Rightarrow>
   ('d \<Rightarrow> bytes \<Rightarrow> bytes) \<Rightarrow> go_time \<Rightarrow> detail_task list \<Rightarrow> 's fetching \<Rightarrow> 's fetching" where
  "run_tasks S api build pick observed [] f = f"
| "run_tasks S api build pick observed (t # ts) f =
     (case process_task S api build pick observed t (ft_state f) of
        (s, err, state_err) \<Rightarrow>
          run_tasks S api build pick observed ts
            \<lparr>ft_state = s, ft_success = (ft_success f \<and> err = None),
             ft_state_ok = (ft_state_ok f \<and> \<not> state_err), ft_count = ft_count f + 1\<rparr>)"

text \<open>\<open>fetchDetails\<close>: the state, whether every task succeeded, whether the state had no error.\<close>

definition fetch_details ::
  "('s, 'e) state_ops \<Rightarrow> (bytes \<Rightarrow> go_error + 'd) \<Rightarrow> (bytes \<Rightarrow> 'd \<Rightarrow> go_error + 'e) \<Rightarrow>
   ('d \<Rightarrow> bytes \<Rightarrow> bytes) \<Rightarrow> int \<Rightarrow> (detail_task list \<Rightarrow> detail_task list) \<Rightarrow> go_time \<Rightarrow> detail_task list
   \<Rightarrow> 's \<Rightarrow> 's \<times> bool \<times> bool" where
  "fetch_details S api build pick concurrency schedule observed tasks s =
     (if tasks = [] then (s, True, True)
      else let workers = min concurrency (int (length tasks));
               ran = (if workers \<le> 0 then [] else schedule tasks);
               f = run_tasks S api build pick observed ran
                     \<lparr>ft_state = s, ft_success = True, ft_state_ok = True, ft_count = 0\<rparr>
           in (ft_state f, ft_success f \<and> ft_count f = length tasks, ft_state_ok f))"

text \<open>A schedule runs tasks it was given, each at most once.\<close>

definition schedule_ok :: "(detail_task list \<Rightarrow> detail_task list) \<Rightarrow> bool" where
  "schedule_ok schedule \<longleftrightarrow> (\<forall>ts. mset (schedule ts) \<subseteq># mset ts)"

section \<open>The contract of the state\<close>

text \<open>
  \<open>wf n s\<close>: the state is well formed and has room for n more sequence numbers. \<open>known i s\<close>: there is
  a checkpoint for i.
\<close>

locale detail_state =
  fixes S :: "('s, 'e) state_ops"
    and wf :: "nat \<Rightarrow> 's \<Rightarrow> bool"
    and known :: "bytes \<Rightarrow> 's \<Rightarrow> bool"
    and id_ok :: "bytes \<Rightarrow> bool"
    and event_good :: "'e \<Rightarrow> bool"
    and event_id :: "'e \<Rightarrow> bytes"
    and time_ok :: "go_time \<Rightarrow> bool"
    and marker_good :: "bytes \<Rightarrow> bool"
  assumes wf_less: "wf (Suc n) s \<Longrightarrow> wf n s"
    and fetch_known: "wf n s \<Longrightarrow> id_ok i \<Longrightarrow> \<exists>m t. so_fetch S i s = (known i s, m, t, None)"
    and enqueue_keeps: "wf (Suc n) s \<Longrightarrow> event_good ev \<Longrightarrow> marker_good m \<Longrightarrow> time_ok now \<Longrightarrow>
      so_enqueue S ev m now s = (s', inserted, err) \<Longrightarrow>
      wf n s' \<and> (err = None \<longrightarrow> known (event_id ev) s') \<and> (\<forall>j. known j s \<longrightarrow> known j s')"
    and mark_keeps: "wf n s \<Longrightarrow> id_ok i \<Longrightarrow> marker_good m \<Longrightarrow> time_ok now \<Longrightarrow>
      so_mark_seen S i m now s = (s', err) \<Longrightarrow>
      wf n s' \<and> (err = None \<longrightarrow> known i s') \<and> (\<forall>j. known j s \<longrightarrow> known j s')"
    and reconcile_keeps: "wf n s \<Longrightarrow> time_ok now \<Longrightarrow> so_reconcile S listed now complete s = (s', err) \<Longrightarrow>
      wf n s' \<and> (\<forall>j \<in> listed. known j s \<longrightarrow> known j s') \<and> (\<not> complete \<longrightarrow> s' = s)"
begin

lemma wf_drop: "wf (n + k) s \<Longrightarrow> wf n s"
  by (induction k) (auto dest: wf_less)

lemma plan_keeps:
  assumes "\<forall>i \<in> set is. id_ok i \<and> marker_good (marker_of markers i)" and "time_ok now" and "wf n (pl_state p)"
  shows "wf n (pl_state (plan_tasks S u refresh now markers is p))"
    and "\<forall>j. known j (pl_state p) \<longrightarrow> known j (pl_state (plan_tasks S u refresh now markers is p))"
    and "\<exists>ts. pl_tasks (plan_tasks S u refresh now markers is p) = pl_tasks p @ ts \<and>
           (\<forall>t \<in> set ts. dt_id t \<in> set is \<and> dt_marker t = marker_of markers (dt_id t)) \<and>
           (distinct is \<longrightarrow> distinct (map dt_id ts)) \<and>
           (pl_ok (plan_tasks S u refresh now markers is p) \<longrightarrow>
              (\<forall>i \<in> set is. i \<in> dt_id ` set ts \<or> known i (pl_state (plan_tasks S u refresh now markers is p))))"
    and "pl_ok (plan_tasks S u refresh now markers is p) \<Longrightarrow> pl_ok p"
proof -
  have "wf n (pl_state (plan_tasks S u refresh now markers is p)) \<and>
    (\<forall>j. known j (pl_state p) \<longrightarrow> known j (pl_state (plan_tasks S u refresh now markers is p))) \<and>
    (\<exists>ts. pl_tasks (plan_tasks S u refresh now markers is p) = pl_tasks p @ ts \<and>
       (\<forall>t \<in> set ts. dt_id t \<in> set is \<and> dt_marker t = marker_of markers (dt_id t)) \<and>
       (distinct is \<longrightarrow> distinct (map dt_id ts)) \<and>
       (pl_ok (plan_tasks S u refresh now markers is p) \<longrightarrow>
          (\<forall>i \<in> set is. i \<in> dt_id ` set ts \<or> known i (pl_state (plan_tasks S u refresh now markers is p))))) \<and>
    (pl_ok (plan_tasks S u refresh now markers is p) \<longrightarrow> pl_ok p)"
    using assms(1,3)
  proof (induction "is" arbitrary: p)
    case (Cons i "is")
    obtain m t where f: "so_fetch S i (pl_state p) = (known i (pl_state p), m, t, None)"
      using fetch_known [OF Cons.prems(2), of i] Cons.prems(1) by auto
    define pr where "pr = priority_of refresh now (marker_of markers i) (known i (pl_state p)) m t"
    define task where
      "task = \<lparr>dt_id = i, dt_marker = marker_of markers i, dt_priority = pr, dt_last_fetched = t\<rparr>"
    show ?case
    proof (cases "pr < 2")
      case True
      define q where "q = p\<lparr>pl_tasks := pl_tasks p @ [task]\<rparr>"
      have e: "plan_tasks S u refresh now markers (i # is) p = plan_tasks S u refresh now markers is q"
        using f True by (simp add: q_def pr_def [symmetric] task_def Let_def)
      have q: "pl_state q = pl_state p" "pl_tasks q = pl_tasks p @ [task]" "pl_ok q = pl_ok p"
        by (simp_all add: q_def)
      from Cons.IH [of q] Cons.prems q obtain ts where
        "wf n (pl_state (plan_tasks S u refresh now markers is q))"
        "\<forall>j. known j (pl_state p) \<longrightarrow> known j (pl_state (plan_tasks S u refresh now markers is q))"
        "pl_ok (plan_tasks S u refresh now markers is q) \<longrightarrow> pl_ok p"
        "pl_tasks (plan_tasks S u refresh now markers is q) = pl_tasks p @ task # ts"
        "\<forall>t \<in> set ts. dt_id t \<in> set is \<and> dt_marker t = marker_of markers (dt_id t)"
        "distinct is \<longrightarrow> distinct (map dt_id ts)"
        "pl_ok (plan_tasks S u refresh now markers is q) \<longrightarrow> (\<forall>i \<in> set is. i \<in> dt_id ` set ts \<or>
           known i (pl_state (plan_tasks S u refresh now markers is q)))" by auto
      then show ?thesis
        unfolding e by (intro conjI exI [of _ "task # ts"]) (auto simp: task_def)
    next
      case False
      then have k: "known i (pl_state p)" by (auto simp: pr_def priority_of_def split: if_splits)
      obtain s err where m: "so_mark_seen S i (marker_of markers i) now (pl_state p) = (s, err)" by fastforce
      have s: "wf n s" "\<forall>j. known j (pl_state p) \<longrightarrow> known j s"
        using mark_keeps [OF Cons.prems(2) _ _ assms(2) m] Cons.prems(1) by auto
      define q where "q = (if err = None then p\<lparr>pl_state := s\<rparr>
          else p\<lparr>pl_state := s, pl_ok := False, pl_view := u (pl_view p)\<rparr>)"
      have e: "plan_tasks S u refresh now markers (i # is) p = plan_tasks S u refresh now markers is q"
        using f False m by (cases err) (simp_all add: q_def pr_def [symmetric] Let_def)
      have q: "pl_state q = s" "pl_tasks q = pl_tasks p" "pl_ok q \<longrightarrow> pl_ok p" by (simp_all add: q_def)
      from Cons.IH [of q] Cons.prems q s obtain ts where
        i: "wf n (pl_state (plan_tasks S u refresh now markers is q))"
        "\<forall>j. known j s \<longrightarrow> known j (pl_state (plan_tasks S u refresh now markers is q))"
        "pl_ok (plan_tasks S u refresh now markers is q) \<longrightarrow> pl_ok q"
        "pl_tasks (plan_tasks S u refresh now markers is q) = pl_tasks p @ ts"
        "\<forall>t \<in> set ts. dt_id t \<in> set is \<and> dt_marker t = marker_of markers (dt_id t)"
        "distinct is \<longrightarrow> distinct (map dt_id ts)"
        "pl_ok (plan_tasks S u refresh now markers is q) \<longrightarrow> (\<forall>i \<in> set is. i \<in> dt_id ` set ts \<or>
           known i (pl_state (plan_tasks S u refresh now markers is q)))" by auto
      have "known i (pl_state (plan_tasks S u refresh now markers is q))" using k s(2) i(2) by blast
      then show ?thesis
        unfolding e using i q(3) s(2) by (intro conjI exI [of _ ts]) auto
    qed
  qed simp
  then show "wf n (pl_state (plan_tasks S u refresh now markers is p))"
    and "\<forall>j. known j (pl_state p) \<longrightarrow> known j (pl_state (plan_tasks S u refresh now markers is p))"
    and "\<exists>ts. pl_tasks (plan_tasks S u refresh now markers is p) = pl_tasks p @ ts \<and>
           (\<forall>t \<in> set ts. dt_id t \<in> set is \<and> dt_marker t = marker_of markers (dt_id t)) \<and>
           (distinct is \<longrightarrow> distinct (map dt_id ts)) \<and>
           (pl_ok (plan_tasks S u refresh now markers is p) \<longrightarrow>
              (\<forall>i \<in> set is. i \<in> dt_id ` set ts \<or> known i (pl_state (plan_tasks S u refresh now markers is p))))"
    and "pl_ok (plan_tasks S u refresh now markers is p) \<Longrightarrow> pl_ok p"
    by blast+
qed

lemma run_keeps:
  assumes "\<forall>t \<in> set ts. \<forall>d ev. api (dt_id t) = Inr d \<longrightarrow> build (dt_id t) d = Inr ev \<longrightarrow>
             event_good ev \<and> event_id ev = dt_id t \<and> marker_good (pick d (dt_marker t))"
    and "time_ok now" and "wf (n + length ts) (ft_state f)"
  shows "wf n (ft_state (run_tasks S api build pick now ts f)) \<and>
    (\<forall>j. known j (ft_state f) \<longrightarrow> known j (ft_state (run_tasks S api build pick now ts f))) \<and>
    (ft_success (run_tasks S api build pick now ts f) \<longrightarrow> ft_success f \<and>
       (\<forall>t \<in> set ts. known (dt_id t) (ft_state (run_tasks S api build pick now ts f)))) \<and>
    ft_count (run_tasks S api build pick now ts f) = ft_count f + length ts \<and>
    (ft_state_ok (run_tasks S api build pick now ts f) \<longrightarrow> ft_state_ok f)"
  using assms(1,3)
proof (induction ts arbitrary: f)
  case Nil
  then show ?case by simp
next
  case (Cons t ts)
  obtain s err bad where p: "process_task S api build pick now t (ft_state f) = (s, err, bad)"
    by (cases "process_task S api build pick now t (ft_state f)")
  have w: "wf (Suc (n + length ts)) (ft_state f)" using Cons.prems(2) by simp
  have s: "wf (n + length ts) s \<and> (\<forall>j. known j (ft_state f) \<longrightarrow> known j s) \<and> (err = None \<longrightarrow> known (dt_id t) s)"
  proof (cases "\<exists>d ev. api (dt_id t) = Inr d \<and> build (dt_id t) d = Inr ev")
    case True
    then obtain d ev where a: "api (dt_id t) = Inr d" "build (dt_id t) d = Inr ev" by blast
    obtain s' ins e where q: "so_enqueue S ev (pick d (dt_marker t)) now (ft_state f) = (s', ins, e)"
      by (cases "so_enqueue S ev (pick d (dt_marker t)) now (ft_state f)")
    have "event_good ev \<and> event_id ev = dt_id t \<and> marker_good (pick d (dt_marker t))"
      using Cons.prems(1) a by simp
    then show ?thesis
      using enqueue_keeps [OF w _ _ assms(2) q] p a q by (auto simp: process_task_def)
  next
    case False
    then have "s = ft_state f" "err \<noteq> None" using p by (auto simp: process_task_def split: sum.splits prod.splits)
    then show ?thesis using wf_less [OF w] by auto
  qed
  define f' where "f' = \<lparr>ft_state = s, ft_success = (ft_success f \<and> err = None),
    ft_state_ok = (ft_state_ok f \<and> \<not> bad), ft_count = ft_count f + 1\<rparr>"
  have e: "run_tasks S api build pick now (t # ts) f = run_tasks S api build pick now ts f'"
    using p by (simp add: f'_def)
  have f': "ft_state f' = s" "ft_success f' \<longleftrightarrow> ft_success f \<and> err = None" "ft_state_ok f' \<longrightarrow> ft_state_ok f"
    "ft_count f' = ft_count f + 1" by (simp_all add: f'_def)
  have "\<forall>t \<in> set ts. \<forall>d ev. api (dt_id t) = Inr d \<longrightarrow> build (dt_id t) d = Inr ev \<longrightarrow>
      event_good ev \<and> event_id ev = dt_id t \<and> marker_good (pick d (dt_marker t))"
    using Cons.prems(1) by simp
  note ih = Cons.IH [OF this, of f', unfolded f'(1)]
  show ?case unfolding e using ih s f' by auto
qed

text \<open>The details of a poll: well-formedness is kept, known stays known, and success makes every task known.\<close>

lemma fetch_keeps:
  assumes "fetch_details S api build pick concurrency schedule now tasks s = (s', success, state_ok)"
    and "\<forall>t \<in> set tasks. \<forall>d ev. api (dt_id t) = Inr d \<longrightarrow> build (dt_id t) d = Inr ev \<longrightarrow>
           event_good ev \<and> event_id ev = dt_id t \<and> marker_good (pick d (dt_marker t))"
    and "schedule_ok schedule" and "time_ok now" and "wf (n + length tasks) s"
  shows "wf n s' \<and> (\<forall>j. known j s \<longrightarrow> known j s') \<and> (success \<longrightarrow> (\<forall>t \<in> set tasks. known (dt_id t) s'))"
proof (cases "tasks = []")
  case True
  then show ?thesis using assms(1,5) by (simp add: fetch_details_def)
next
  case False
  define ran where "ran = (if min concurrency (int (length tasks)) \<le> 0 then [] else schedule tasks)"
  let ?f = "run_tasks S api build pick now ran \<lparr>ft_state = s, ft_success = True, ft_state_ok = True, ft_count = 0\<rparr>"
  have sub: "mset ran \<subseteq># mset tasks" using assms(3) by (simp add: ran_def schedule_ok_def)
  have len: "length ran \<le> length tasks" using size_mset_mono [OF sub] by simp
  have set: "set ran \<subseteq> set tasks" using set_mset_mono [OF sub] by simp
  have "wf (n + length ran + (length tasks - length ran)) s" using assms(5) len by simp
  then have w: "wf (n + length ran) s" by (rule wf_drop)
  have r: "s' = ft_state ?f" "success \<longleftrightarrow> ft_success ?f \<and> ft_count ?f = length tasks"
    using assms(1) False by (auto simp: fetch_details_def ran_def [symmetric] Let_def)
  have k: "wf n (ft_state ?f) \<and> (\<forall>j. known j s \<longrightarrow> known j (ft_state ?f)) \<and>
      (ft_success ?f \<longrightarrow> (\<forall>t \<in> set ran. known (dt_id t) (ft_state ?f))) \<and> ft_count ?f = length ran"
    using run_keeps [OF _ assms(4), of ran api build pick n "\<lparr>ft_state = s, ft_success = True, ft_state_ok = True, ft_count = 0\<rparr>"]
      assms(2) set w by auto
  have "set ran = set tasks" if "length ran = length tasks"
  proof -
    have "mset ran = mset tasks" using sub that by (metis mset_subset_size nat_neq_iff size_mset subset_mset.le_neq_trans)
    then show ?thesis by (rule mset_eq_setD)
  qed
  then show ?thesis using k r by auto
qed

end

section \<open>The plan and the deadline\<close>

lemma fetch_success_count:
  assumes "fetch_details S api build pick concurrency schedule now tasks s = (s', True, state_ok)" and "tasks \<noteq> []"
  shows "length (schedule tasks) = length tasks"
proof -
  have "ft_count (run_tasks S api build pick now ts f) = ft_count f + length ts" for ts f
    by (induction ts arbitrary: f) (auto split: prod.splits)
  then show ?thesis using assms by (auto simp: fetch_details_def Let_def split: if_splits)
qed

end
