(* ===== verification/Alert_Pipeline.thy ===== *)
theory Alert_Pipeline
  imports Pipeline_Core Outbox_Props Snapshot
begin

text \<open>
  The alert pipeline (\<open>internal/alerts/pipeline.go\<close>): one poll lists the alerts, decides which details
  to fetch, fetches them, enqueues the events, reconciles the checkpoints with the list and reports to
  the diagnostics. \<open>Run\<close> polls once and then on every tick; a run is a sequence of polls. What a
  poll takes from outside (the answers of the API, the clock, the order of a map iteration, the
  schedule of the workers) is the record \<open>poll_input\<close>.

  The contract \<open>detail_state\<close> is interpreted on the durable outbox, and the properties of a poll are
  stated on it.
\<close>

section \<open>State and inputs\<close>

record pipe_options =
  po_source :: bytes
  po_refresh :: go_duration
  po_max :: int
  po_concurrency :: int

record ('s, 'v) pipeline =
  pp_state :: 's
  pp_view :: 'v
  pp_fair :: fair_state

record ('l, 'd) poll_input =
  pi_list :: "go_error + 'l"
  pi_list_duration :: go_duration
  pi_now :: go_time
  pi_order :: "bytes list \<Rightarrow> bytes list"
  pi_detail :: "bytes \<Rightarrow> go_error + 'd"
  pi_schedule :: "detail_task list \<Rightarrow> detail_task list"
  pi_detail_duration :: go_duration

definition new_pipeline :: "'s \<Rightarrow> 'v \<Rightarrow> ('s, 'v) pipeline" where
  "new_pipeline s v = \<lparr>pp_state = s, pp_view = v, pp_fair = new_fair_state\<rparr>"

section \<open>The poll\<close>

definition total_known :: "int option \<Rightarrow> bool" where
  "total_known tot = (case tot of None \<Rightarrow> False | Some n \<Rightarrow> n \<ge> 0)"

definition total_above :: "int option \<Rightarrow> nat \<Rightarrow> bool" where
  "total_above tot n = (case tot of None \<Rightarrow> False | Some t \<Rightarrow> t > int n)"

definition valid_alert_id :: "bytes \<Rightarrow> bool" where
  "valid_alert_id i \<longleftrightarrow> validate_alert_id i = Inr ()"

definition alert_unhealthy :: "'f view \<Rightarrow> 'f view" where
  "alert_unhealthy = set_alert_pipeline_state_healthy False"

definition alert_poll ::
  "('s, encoded_event) state_ops \<Rightarrow> pipe_options \<Rightarrow> (alert_list, alert_detail) poll_input
   \<Rightarrow> ('s, 'f view) pipeline \<Rightarrow> ('s, 'f view) pipeline" where
  "alert_poll S opts e p =
     (case pi_list e of
        Inl err \<Rightarrow>
          p\<lparr>pp_view := set_alert_collection_ready False (record_alert_detail False 0 0
                         (record_alert_list False False (pi_list_duration e) (pp_view p)))\<rparr>
      | Inr l \<Rightarrow>
          (let now = pi_now e;
               (listed, markers, scanned) =
                 scan_items valid_alert_id (al_results l) [] Map.empty (total_known (al_total_records l));
               complete = (scanned \<and> \<not> total_above (al_total_records l) (length listed));
               v1 = record_alert_list True complete (pi_list_duration e) (pp_view p);
               plan = plan_tasks S alert_unhealthy (po_refresh opts) now markers (pi_order e listed)
                        \<lparr>pl_state = pp_state p, pl_view = v1, pl_tasks = [], pl_ok = True\<rparr>;
               (fair, selected) = select_fair (po_max opts) (pl_tasks plan) (pp_fair p);
               deferred = int (length (pl_tasks plan)) - int (length selected);
               (s2, detail_ok, detail_state_ok) =
                 fetch_details S (pi_detail e) (\<lambda>i d. build_event (po_source opts) i d now) (\<lambda>d marker. marker)
                   (po_concurrency opts) (pi_schedule e) now selected (pl_state plan);
               (ok2, v2) = (if \<not> detail_state_ok then (False, alert_unhealthy (pl_view plan))
                            else (pl_ok plan, pl_view plan));
               (s3, reconcile_err) = so_reconcile S (set listed) now complete s2;
               (ok3, v3) = (if reconcile_err \<noteq> None then (False, alert_unhealthy v2) else (ok2, v2));
               (events, full, health_err) = so_health S s3;
               (ok4, v4) = (if health_err \<noteq> None then (False, alert_unhealthy v3) else (ok3, v3));
               v5 = set_alert_state_full full (set_kafka_buffered events v4);
               v6 = record_alert_detail (detail_ok \<and> ok4) (pi_detail_duration e) deferred v5;
               v7 = set_alert_collection_ready (complete \<and> detail_ok) v6;
               v8 = (if ok4 \<and> detail_ok then set_alert_pipeline_state_healthy True v7 else v7)
           in \<lparr>pp_state = s3, pp_view = v8, pp_fair = fair\<rparr>))"

text \<open>\<open>Run\<close>: a poll at once, then one for every tick until the context ends.\<close>

fun alert_run ::
  "('s, encoded_event) state_ops \<Rightarrow> pipe_options \<Rightarrow> (alert_list, alert_detail) poll_input list
   \<Rightarrow> ('s, 'f view) pipeline \<Rightarrow> ('s, 'f view) pipeline" where
  "alert_run S opts [] p = p"
| "alert_run S opts (e # es) p = alert_run S opts es (alert_poll S opts e p)"

section \<open>What a complete list is\<close>

text \<open>
  The declarative reading of the flag the scan computes: the service reported how many records there
  are, all of them are in the list, and the identifiers are valid and pairwise different.
\<close>

definition list_complete :: "(bytes \<Rightarrow> bool) \<Rightarrow> alert_list_item list \<Rightarrow> int option \<Rightarrow> bool" where
  "list_complete valid items tot \<longleftrightarrow>
     (\<exists>n. tot = Some n \<and> 0 \<le> n \<and> n \<le> int (length items)) \<and>
     (\<forall>item \<in> set items. valid (li_id item)) \<and> distinct (map li_id items)"

lemma scan_complete_iff:
  assumes "scan_items valid items [] Map.empty (total_known tot) = (listed, markers, scanned)"
  shows "scanned \<and> \<not> total_above tot (length listed) \<longleftrightarrow> list_complete valid items tot"
proof -
  have s: "scanned \<longleftrightarrow> total_known tot \<and> (\<forall>i \<in> li_id ` set items. valid i) \<and> distinct (map li_id items)"
    using scan_complete [of valid items "[]" Map.empty "total_known tot"] assms by simp
  note l = scan_listed [OF assms]
  have "length listed = length items" if "\<forall>i \<in> li_id ` set items. valid i" "distinct (map li_id items)"
  proof -
    have "set listed = set (map li_id items)" using l(3) that(1) by auto
    then have "card (set listed) = card (set (map li_id items))" by simp
    then show ?thesis using distinct_card [OF l(1)] distinct_card [OF that(2)] by simp
  qed
  then show ?thesis
    using s by (auto simp: list_complete_def total_known_def total_above_def split: option.splits)
qed

section \<open>The outbox as the state of the pipeline\<close>

definition outbox_state :: "'d bolt \<Rightarrow> store_options \<Rightarrow> ('d, encoded_event) state_ops" where
  "outbox_state B opts =
     \<lparr>so_fetch = fetch_state B, so_enqueue = enqueue B opts, so_mark_seen = mark_seen B opts,
      so_reconcile = reconcile_listed B opts, so_health = health B opts\<rparr>"

definition outbox_wf :: "'d bolt \<Rightarrow> store_options \<Rightarrow> nat \<Rightarrow> 'd \<Rightarrow> bool" where
  "outbox_wf B opts n d \<longleftrightarrow> bolt_ok B \<and> options_sane opts \<and>
     (\<exists>a. represents B d a \<and> unat (oa_seq a) + n < 18446744073709551616)"

definition alert_known :: "'d bolt \<Rightarrow> bytes \<Rightarrow> 'd \<Rightarrow> bool" where
  "alert_known B i d \<longleftrightarrow> cp_alert_id (fst (get_checkpoint B i d)) \<noteq> []"

lemma alert_known_view:
  assumes "bolt_ok B" and "represents B d a"
  shows "alert_known B i d \<longleftrightarrow> oa_cps a i \<noteq> None"
proof -
  from assms(2) obtain mm where w: "abs_wf a"
    and v: "tx_view B d (map out_entry (oa_queue a)) (\<lambda>i. map_option marshal_checkpoint (oa_cps a i)) mm (oa_seq a)"
    by (rule represents_view)
  have "cp_alert_id c \<noteq> []" if "oa_cps a i = Some c" for c
    using abs_wf_cp [OF w that] valid_id_facts(2) [of i] by (auto simp: cp_wf_def)
  then show ?thesis
    using tx_viewD(3) [OF assms(1) v] read_checkpoint_view [OF w]
    by (auto simp: alert_known_def get_checkpoint_def zero_checkpoint_def split: option.split)
qed

interpretation outbox: detail_state "outbox_state B opts" "outbox_wf B opts" "alert_known B"
  "\<lambda>i. \<not> alert_id_invalid i" event_ok "\<lambda>ee. ev_alert_id (ee_event ee)" clock_ok marker_ok
proof
  show "outbox_wf B opts (Suc n) s \<Longrightarrow> outbox_wf B opts n s" for n s
    by (auto simp: outbox_wf_def)
next
  fix n s i assume "outbox_wf B opts n s" "\<not> alert_id_invalid i"
  then obtain a where "bolt_ok B" "represents B s a" "\<not> alert_id_invalid i" by (auto simp: outbox_wf_def)
  then show "\<exists>m t. so_fetch (outbox_state B opts) i s = (alert_known B i s, m, t, None)"
    using fetch_state_view [of B s a i] alert_known_view [of B s a i]
    by (auto simp: outbox_state_def split: option.splits)
next
  fix n s ev m now s' inserted err
  assume wf: "outbox_wf B opts (Suc n) s" and e: "event_ok ev" "marker_ok m" "clock_ok now"
    and r: "so_enqueue (outbox_state B opts) ev m now s = (s', inserted, err)"
  from wf obtain a where a: "bolt_ok B" "options_sane opts" "represents B s a"
    "unat (oa_seq a) + Suc n < 18446744073709551616" by (auto simp: outbox_wf_def)
  then have room: "unat (oa_seq a) < 18446744073709551615" by simp
  have succ: "unat (oa_seq a + 1) = unat (oa_seq a) + 1" using room by (simp add: unat_word_ariths)
  have "refined B s (spec_enqueue opts ev m now a) False (s', inserted, err)"
    using enqueue_refines [OF a(1,3) e a(2) room] r by (simp add: outbox_state_def)
  then obtain a' where a': "represents B s' a'" "unat (oa_seq a') \<le> unat (oa_seq a) + 1"
    "\<forall>j. oa_cps a j \<noteq> None \<longrightarrow> oa_cps a' j \<noteq> None"
    "err = None \<longrightarrow> oa_cps a' (ev_alert_id (ee_event ev)) \<noteq> None"
    using a(3) succ by (fastforce simp: refined_def spec_enqueue_def Let_def split: sum.splits if_splits)
  show "outbox_wf B opts n s' \<and> (err = None \<longrightarrow> alert_known B (ev_alert_id (ee_event ev)) s') \<and>
      (\<forall>j. alert_known B j s \<longrightarrow> alert_known B j s')"
    using a a' alert_known_view [OF a(1,3)] alert_known_view [OF a(1) a'(1)] by (auto simp: outbox_wf_def)
next
  fix n s i m now s' err
  assume wf: "outbox_wf B opts n s" and i: "\<not> alert_id_invalid i" "marker_ok m" "clock_ok now"
    and r: "so_mark_seen (outbox_state B opts) i m now s = (s', err)"
  from wf obtain a where a: "bolt_ok B" "options_sane opts" "represents B s a"
    "unat (oa_seq a) + n < 18446744073709551616" by (auto simp: outbox_wf_def)
  from mark_seen_refines [OF a(1,3) i, of opts] r a(3) obtain a' where
    a': "represents B s' a'" "oa_seq a' = oa_seq a" "\<forall>j. oa_cps a j \<noteq> None \<longrightarrow> oa_cps a' j \<noteq> None"
    "err = None \<longrightarrow> oa_cps a' i \<noteq> None"
    by (fastforce simp: outbox_state_def spec_mark_seen_def split: if_splits)
  show "outbox_wf B opts n s' \<and> (err = None \<longrightarrow> alert_known B i s') \<and> (\<forall>j. alert_known B j s \<longrightarrow> alert_known B j s')"
    using a a' alert_known_view [OF a(1,3)] alert_known_view [OF a(1) a'(1)] by (auto simp: outbox_wf_def)
next
  fix n s now listed complete s' err
  assume wf: "outbox_wf B opts n s" and c: "clock_ok now"
    and r: "so_reconcile (outbox_state B opts) listed now complete s = (s', err)"
  from wf obtain a where a: "bolt_ok B" "options_sane opts" "represents B s a"
    "unat (oa_seq a) + n < 18446744073709551616" by (auto simp: outbox_wf_def)
  show "outbox_wf B opts n s' \<and> (\<forall>j \<in> listed. alert_known B j s \<longrightarrow> alert_known B j s') \<and>
      (\<not> complete \<longrightarrow> s' = s)"
  proof (cases complete)
    case False
    then show ?thesis using r wf by (simp add: outbox_state_def reconcile_listed_def)
  next
    case True
    from reconcile_refines [OF a(1,3) c, of opts listed] r a(3) True obtain a' where
      a': "represents B s' a'" "oa_seq a' = oa_seq a" "\<forall>j \<in> listed. oa_cps a' j = oa_cps a j \<or> oa_cps a' j \<noteq> None"
      by (fastforce simp: outbox_state_def spec_reconcile_def Let_def split: option.splits)
    show ?thesis
      using a a' True alert_known_view [OF a(1,3)] alert_known_view [OF a(1) a'(1)] by (auto simp: outbox_wf_def)
  qed
qed

section \<open>What a poll does\<close>

text \<open>The values a poll computes on the way, for the proofs.\<close>

lemma alert_poll_cases:
  assumes "pi_list e = Inr l"
  obtains listed markers scanned complete plan fair selected s2 detail_ok detail_state_ok ok2 v2 s3
    reconcile_err ok3 v3 events full health_err ok4 v4 where
    "scan_items valid_alert_id (al_results l) [] Map.empty (total_known (al_total_records l)) = (listed, markers, scanned)"
    "complete = (scanned \<and> \<not> total_above (al_total_records l) (length listed))"
    "plan = plan_tasks S alert_unhealthy (po_refresh opts) (pi_now e) markers (pi_order e listed)
       \<lparr>pl_state = pp_state p, pl_view = record_alert_list True complete (pi_list_duration e) (pp_view p),
        pl_tasks = [], pl_ok = True\<rparr>"
    "select_fair (po_max opts) (pl_tasks plan) (pp_fair p) = (fair, selected)"
    "fetch_details S (pi_detail e) (\<lambda>i d. build_event (po_source opts) i d (pi_now e)) (\<lambda>d marker. marker)
       (po_concurrency opts) (pi_schedule e) (pi_now e) selected (pl_state plan) = (s2, detail_ok, detail_state_ok)"
    "(ok2, v2) = (if \<not> detail_state_ok then (False, alert_unhealthy (pl_view plan)) else (pl_ok plan, pl_view plan))"
    "so_reconcile S (set listed) (pi_now e) complete s2 = (s3, reconcile_err)"
    "(ok3, v3) = (if reconcile_err \<noteq> None then (False, alert_unhealthy v2) else (ok2, v2))"
    "so_health S s3 = (events, full, health_err)"
    "(ok4, v4) = (if health_err \<noteq> None then (False, alert_unhealthy v3) else (ok3, v3))"
    "alert_poll S opts e p =
       \<lparr>pp_state = s3,
        pp_view = (let v7 = set_alert_collection_ready (complete \<and> detail_ok)
             (record_alert_detail (detail_ok \<and> ok4) (pi_detail_duration e)
                (int (length (pl_tasks plan)) - int (length selected))
                (set_alert_state_full full (set_kafka_buffered events v4)))
           in if ok4 \<and> detail_ok then set_alert_pipeline_state_healthy True v7 else v7),
        pp_fair = fair\<rparr>"
proof -
  obtain listed markers scanned where
    1: "scan_items valid_alert_id (al_results l) [] Map.empty (total_known (al_total_records l)) = (listed, markers, scanned)"
    by (cases "scan_items valid_alert_id (al_results l) [] Map.empty (total_known (al_total_records l))")
  define complete where 2: "complete = (scanned \<and> \<not> total_above (al_total_records l) (length listed))"
  define plan where 3: "plan = plan_tasks S alert_unhealthy (po_refresh opts) (pi_now e) markers (pi_order e listed)
       \<lparr>pl_state = pp_state p, pl_view = record_alert_list True complete (pi_list_duration e) (pp_view p),
        pl_tasks = [], pl_ok = True\<rparr>"
  obtain fair selected where 4: "select_fair (po_max opts) (pl_tasks plan) (pp_fair p) = (fair, selected)"
    by (cases "select_fair (po_max opts) (pl_tasks plan) (pp_fair p)")
  obtain s2 detail_ok detail_state_ok where 5:
    "fetch_details S (pi_detail e) (\<lambda>i d. build_event (po_source opts) i d (pi_now e)) (\<lambda>d marker. marker)
       (po_concurrency opts) (pi_schedule e) (pi_now e) selected (pl_state plan) = (s2, detail_ok, detail_state_ok)"
    by (cases "fetch_details S (pi_detail e) (\<lambda>i d. build_event (po_source opts) i d (pi_now e)) (\<lambda>d marker. marker)
       (po_concurrency opts) (pi_schedule e) (pi_now e) selected (pl_state plan)")
  obtain ok2 v2 where 6:
    "(ok2, v2) = (if \<not> detail_state_ok then (False, alert_unhealthy (pl_view plan)) else (pl_ok plan, pl_view plan))"
    by (metis surj_pair)
  obtain s3 reconcile_err where 7: "so_reconcile S (set listed) (pi_now e) complete s2 = (s3, reconcile_err)"
    by fastforce
  obtain ok3 v3 where 8: "(ok3, v3) = (if reconcile_err \<noteq> None then (False, alert_unhealthy v2) else (ok2, v2))"
    by (metis surj_pair)
  obtain events full health_err where 9: "so_health S s3 = (events, full, health_err)"
    by (cases "so_health S s3")
  obtain ok4 v4 where 10: "(ok4, v4) = (if health_err \<noteq> None then (False, alert_unhealthy v3) else (ok3, v3))"
    by (metis surj_pair)
  have "alert_poll S opts e p =
       \<lparr>pp_state = s3,
        pp_view = (let v7 = set_alert_collection_ready (complete \<and> detail_ok)
             (record_alert_detail (detail_ok \<and> ok4) (pi_detail_duration e)
                (int (length (pl_tasks plan)) - int (length selected))
                (set_alert_state_full full (set_kafka_buffered events v4)))
           in if ok4 \<and> detail_ok then set_alert_pipeline_state_healthy True v7 else v7),
        pp_fair = fair\<rparr>"
    unfolding alert_poll_def
    by (simp only: assms sum.case Let_def 1 prod.case 2 [symmetric] 3 [symmetric] 4 5 6 [symmetric] 7
        8 [symmetric] 9 10 [symmetric])
  with 1 2 3 4 5 6 7 8 9 10 show ?thesis by (rule that)
qed

lemma scan_markers:
  assumes "scan_items valid items listed0 markers0 c0 = (listed, markers, c)"
    and "\<forall>i m. markers0 i = Some m \<longrightarrow> P m" and "\<forall>item \<in> set items. P (usable_marker (li_updated_on item))"
  shows "\<forall>i m. markers i = Some m \<longrightarrow> P m"
  using assms
proof (induction items arbitrary: listed0 markers0 c0)
  case (Cons item items)
  let ?m = "markers0(li_id item \<mapsto> usable_marker (li_updated_on item))"
  have m: "\<forall>i m. ?m i = Some m \<longrightarrow> P m" using Cons.prems(2,3) by auto
  show ?case
    using Cons.IH [of listed0 markers0 False] Cons.IH [of "listed0 @ [li_id item]" ?m c0, OF _ m] Cons.prems
    by (auto simp del: fun_upd_apply split: if_splits)
qed simp

lemma usable_marker_ok: "time_text_ok v \<Longrightarrow> marker_ok (usable_marker v)"
proof -
  assume v: "time_text_ok v"
  have "marker_ok (format_rfc3339 t)" if "year_ok t" for t
  proof -
    have "byte c \<le> 127" if "c \<in> set (format_rfc3339 t)" for c
      using format_rfc3339_chars [OF that] by (auto simp: is_digit_def byte_def)
    then have "utf8_valid (format_rfc3339 t)" by (intro utf8_valid_ascii) fastforce
    then show ?thesis using length_format_rfc3339 [OF that] by (simp add: marker_ok_def)
  qed
  then show ?thesis using v
    by (auto simp: usable_marker_def time_text_ok_def marker_ok_def split: option.splits)
qed

text \<open>What the properties assume of the outside world.\<close>

definition poll_input_ok :: "(alert_list, alert_detail) poll_input \<Rightarrow> bool" where
  "poll_input_ok e \<longleftrightarrow>
     (\<forall>xs. mset (pi_order e xs) = mset xs) \<and> schedule_ok (pi_schedule e) \<and>
     clock_ok (pi_now e) \<and> year_ok (pi_now e) \<and>
     (\<forall>l. pi_list e = Inr l \<longrightarrow> (\<forall>item \<in> set (al_results l). time_text_ok (li_updated_on item))) \<and>
     (\<forall>i d. pi_detail e i = Inr d \<longrightarrow> times_in_range d \<and> detail_typed d)"

text \<open>The state after a poll: well formed, and nothing that matters is forgotten.\<close>

lemma alert_poll_state:
  assumes wf: "outbox_wf B so (n + nat (po_max opts)) (pp_state p)" and e: "poll_input_ok e"
  shows "outbox_wf B so n (pp_state (alert_poll (outbox_state B so) opts e p)) \<and>
    (\<forall>j. alert_known B j (pp_state p) \<and> \<not> alert_known B j (pp_state (alert_poll (outbox_state B so) opts e p)) \<longrightarrow>
       (\<exists>l. pi_list e = Inr l \<and> list_complete valid_alert_id (al_results l) (al_total_records l) \<and>
            j \<notin> li_id ` set (al_results l))) \<and>
    (\<forall>l. pi_list e = Inr l \<longrightarrow>
       st_success (collector_status_of (pp_view (alert_poll (outbox_state B so) opts e p)) ''alert_detail'') \<longrightarrow>
       alert_deferred (pp_view (alert_poll (outbox_state B so) opts e p)) = 0 \<longrightarrow>
       (\<forall>i \<in> li_id ` set (al_results l). valid_alert_id i \<longrightarrow>
          alert_known B i (pp_state (alert_poll (outbox_state B so) opts e p))))"
proof (cases "pi_list e")
  case (Inl err)
  then show ?thesis using outbox.wf_drop [OF wf] by (simp add: alert_poll_def)
next
  case (Inr l)
  then show ?thesis
  proof (rule alert_poll_cases [where S = "outbox_state B so" and opts = opts and p = p])
    fix listed markers scanned complete plan fair selected s2 detail_ok detail_state_ok ok2 v2 s3
      reconcile_err ok3 v3 events full health_err ok4 v4
    let ?S = "outbox_state B so"
    let ?p0 = "\<lparr>pl_state = pp_state p, pl_view = record_alert_list True complete (pi_list_duration e) (pp_view p),
                pl_tasks = [], pl_ok = True\<rparr>"
    assume scan: "scan_items valid_alert_id (al_results l) [] Map.empty (total_known (al_total_records l)) =
        (listed, markers, scanned)"
      and complete: "complete = (scanned \<and> \<not> total_above (al_total_records l) (length listed))"
      and plan: "plan = plan_tasks ?S alert_unhealthy (po_refresh opts) (pi_now e) markers (pi_order e listed) ?p0"
      and sel: "select_fair (po_max opts) (pl_tasks plan) (pp_fair p) = (fair, selected)"
      and fetch: "fetch_details ?S (pi_detail e) (\<lambda>i d. build_event (po_source opts) i d (pi_now e))
        (\<lambda>d marker. marker) (po_concurrency opts) (pi_schedule e) (pi_now e) selected (pl_state plan) =
        (s2, detail_ok, detail_state_ok)"
      and ok2: "(ok2, v2) = (if \<not> detail_state_ok then (False, alert_unhealthy (pl_view plan)) else (pl_ok plan, pl_view plan))"
      and rec: "so_reconcile ?S (set listed) (pi_now e) complete s2 = (s3, reconcile_err)"
      and ok3: "(ok3, v3) = (if reconcile_err \<noteq> None then (False, alert_unhealthy v2) else (ok2, v2))"
      and ok4: "(ok4, v4) = (if health_err \<noteq> None then (False, alert_unhealthy v3) else (ok3, v3))"
      and poll: "alert_poll ?S opts e p = \<lparr>pp_state = s3,
        pp_view = (let v7 = set_alert_collection_ready (complete \<and> detail_ok)
             (record_alert_detail (detail_ok \<and> ok4) (pi_detail_duration e)
                (int (length (pl_tasks plan)) - int (length selected))
                (set_alert_state_full full (set_kafka_buffered events v4)))
           in if ok4 \<and> detail_ok then set_alert_pipeline_state_healthy True v7 else v7),
        pp_fair = fair\<rparr>"
    note l = scan_listed [OF scan]
    have perm: "set (pi_order e listed) = set listed" "distinct (pi_order e listed)"
    proof -
      have m: "mset (pi_order e listed) = mset listed" using e by (simp add: poll_input_ok_def)
      then show "set (pi_order e listed) = set listed" by (rule mset_eq_setD)
      show "distinct (pi_order e listed)" using l(1) m mset_eq_imp_distinct_iff by blast
    qed
    have c: "clock_ok (pi_now e)" "schedule_ok (pi_schedule e)" using e by (simp_all add: poll_input_ok_def)
    have "\<forall>i m. markers i = Some m \<longrightarrow> marker_ok m"
      by (rule scan_markers [OF scan]) (use e Inr usable_marker_ok in \<open>auto simp: poll_input_ok_def\<close>)
    then have m: "marker_ok (marker_of markers i)" for i
      by (auto simp: marker_of_def marker_ok_def split: option.split)
    have ids: "\<forall>i \<in> set (pi_order e listed). \<not> alert_id_invalid i \<and> marker_ok (marker_of markers i)"
      using l(2) m alert_id_invalid_bytes unfolding perm(1) by (simp add: valid_alert_id_def)
    have wf0: "outbox_wf B so (n + nat (po_max opts)) (pl_state ?p0)" using wf by simp
    note pk = outbox.plan_keeps [OF ids c(1) wf0, of alert_unhealthy "po_refresh opts", folded plan]
    obtain ts where ts: "pl_tasks plan = ts" "\<forall>t \<in> set ts. dt_id t \<in> set listed \<and> dt_marker t = marker_of markers (dt_id t)"
      "distinct (map dt_id ts)"
      "pl_ok plan \<longrightarrow> (\<forall>i \<in> set listed. i \<in> dt_id ` set ts \<or> alert_known B i (pl_state plan))"
      using pk(3) perm by auto
    have sub: "mset selected \<subseteq># mset ts" using selected_subset [OF sel] ts(1) by simp
    have len: "length selected \<le> nat (po_max opts)"
      using selected_length [OF sel] by linarith
    have build: "\<forall>t \<in> set selected. \<forall>d ev. pi_detail e (dt_id t) = Inr d \<longrightarrow>
        build_event (po_source opts) (dt_id t) d (pi_now e) = Inr ev \<longrightarrow>
        event_ok ev \<and> ev_alert_id (ee_event ev) = dt_id t \<and> marker_ok (dt_marker t)"
    proof (intro ballI allI impI)
      fix t d ev assume t: "t \<in> set selected" and d: "pi_detail e (dt_id t) = Inr d"
        and b: "build_event (po_source opts) (dt_id t) d (pi_now e) = Inr ev"
      have "t \<in> set ts" using t set_mset_mono [OF sub] by auto
      then have "marker_ok (dt_marker t)" using ts(2) m by simp
      moreover have "times_in_range d" "detail_typed d" "year_ok (pi_now e)"
        using e d by (simp_all add: poll_input_ok_def)
      ultimately show "event_ok ev \<and> ev_alert_id (ee_event ev) = dt_id t \<and> marker_ok (dt_marker t)"
        using build_event_ok [OF b] by simp
    qed
    have "outbox_wf B so (n + length selected + (nat (po_max opts) - length selected)) (pl_state plan)"
      using pk(1) len by simp
    then have wf1: "outbox_wf B so (n + length selected) (pl_state plan)" by (rule outbox.wf_drop)
    note fk = outbox.fetch_keeps [OF fetch build c(2,1) wf1]
    have wf2: "outbox_wf B so n s2" using fk by blast
    note rk = outbox.reconcile_keeps [OF wf2 c(1) rec]
    have known: "alert_known B j s2" if "alert_known B j (pp_state p)" for j
      using that pk(2) fk by simp
    have cc: "complete \<longleftrightarrow> list_complete valid_alert_id (al_results l) (al_total_records l)"
      using scan_complete_iff [OF scan] complete by simp
    have all: "alert_known B i s3" if "detail_ok" "ok4" "length ts = length selected" "i \<in> set listed" for i
    proof -
      have "pl_ok plan" using that(2) ok2 ok3 ok4 by (auto split: if_splits)
      moreover have "set selected = set ts"
      proof -
        have "mset selected = mset ts"
          using sub that(3) by (metis mset_subset_size nat_neq_iff size_mset subset_mset.le_neq_trans)
        then show ?thesis by (rule mset_eq_setD)
      qed
      ultimately have "alert_known B i s2" using ts(4) that(1,4) fk by (metis image_iff)
      then show ?thesis using rk that(4) by blast
    qed
    have lost: "\<exists>l'. pi_list e = Inr l' \<and> list_complete valid_alert_id (al_results l') (al_total_records l') \<and>
        j \<notin> li_id ` set (al_results l')" if "alert_known B j (pp_state p)" "\<not> alert_known B j s3" for j
    proof -
      have complete: "complete" "j \<notin> set listed" using rk known [OF that(1)] that(2) by auto
      then have "list_complete valid_alert_id (al_results l) (al_total_records l)" using cc by simp
      moreover have "j \<notin> li_id ` set (al_results l)"
        using complete(2) calculation l(3) by (auto simp: list_complete_def)
      ultimately show ?thesis using Inr by blast
    qed
    have view: "alert_deferred (pp_view (alert_poll ?S opts e p)) = int (length ts) - int (length selected)"
      "st_success (collector_status_of (pp_view (alert_poll ?S opts e p)) ''alert_detail'') \<longleftrightarrow> detail_ok \<and> ok4"
      using ts(1) by (simp_all add: poll Let_def snap_op_defs collector_status_of_def)
    show ?thesis
      using rk lost all l(3) Inr view by (auto simp: poll)
  qed
qed

section \<open>Examples\<close>

definition example_pipe :: pipe_options where
  "example_pipe = \<lparr>po_source = ''ddae-1'', po_refresh = 1000, po_max = 2, po_concurrency = 1\<rparr>"

text \<open>A poll of a service that reports one alert.\<close>

definition example_poll :: "alert_list_item list \<Rightarrow> (alert_list, alert_detail) poll_input" where
  "example_poll items =
     \<lparr>pi_list = Inr \<lparr>al_results = items, al_threshold = None, al_total_records = Some (int (length items))\<rparr>,
      pi_list_duration = 1, pi_now = 1, pi_order = (\<lambda>xs. xs), pi_detail = (\<lambda>i. Inr example_detail),
      pi_schedule = (\<lambda>ts. ts), pi_detail_duration = 1\<rparr>"

lemma year_ok_1: "year_ok 1"
proof -
  have "utc_date 1 = utc_date 0" by (simp add: utc_date_def)
  then show ?thesis using example_year by (simp add: year_ok_def utc_year_def)
qed

lemma example_poll_ok:
  "\<forall>item \<in> set items. li_updated_on item = None \<Longrightarrow> poll_input_ok (example_poll items)"
  using example_typed year_ok_1 example_clock(1)
  by (simp add: poll_input_ok_def example_poll_def schedule_ok_def time_text_ok_def)

definition example_item :: alert_list_item where
  "example_item = \<lparr>li_id = ''a1'', li_updated_on = None\<rparr>"

lemma example_valid_id: "valid_alert_id ''a1''"
  by (simp add: valid_alert_id_def validate_alert_id_Inr id_char_def is_lower_def is_upper_def is_digit_def byte_def)

lemma example_outbox: "\<exists>d. represents ref_bolt d empty_abs \<and> outbox_wf ref_bolt example_options 100 d"
proof -
  obtain d where d: "represents ref_bolt d empty_abs" using example_open by blast
  have "unat (oa_seq empty_abs) = 0" unfolding empty_abs_def by simp
  then have "unat (oa_seq empty_abs) + 100 < 18446744073709551616" by linarith
  then have "outbox_wf ref_bolt example_options 100 d"
    unfolding outbox_wf_def using ref_bolt_ok example_options_ok(2) d by blast
  then show ?thesis using d by blast
qed

lemma example_known:
  "\<exists>d a c. represents ref_bolt d a \<and> outbox_wf ref_bolt example_options 100 d \<and> dom (oa_cps a) = {''a1''} \<and>
     oa_cps a ''a1'' = Some c \<and> cp_last_fetched_at c = 1 \<and> length (oa_queue a) = 1 \<and> total_bytes (oa_queue a) \<le> 3000000"
proof -
  obtain d where d: "represents ref_bolt d empty_abs" using example_open by blast
  obtain ee where e: "event_ok ee" "ev_alert_id (ee_event ee) = ''a1''" using example_event by blast
  obtain a where a: "spec_enqueue example_options ee ''m'' 1 empty_abs = Inr (a, True)"
    "oa_queue a = [new_record ee 1 1]" "oa_seq a = 1" using spec_enqueue_first [OF e(1)] by blast
  have s: "unat (oa_seq empty_abs) < 18446744073709551615" by (simp add: empty_abs_def)
  from enqueue_refines [OF ref_bolt_ok d e(1) example_marker example_clock(1) example_options_ok(2) s]
  obtain d' where d': "represents ref_bolt d' a" using a(1) ref_commits by (auto simp: refined_def)
  have "oa_cps a = [''a1'' \<mapsto> (seen_cp ''m'' 1 (cp_of empty_abs ''a1''))
      \<lparr>cp_last_fetched_at := 1, cp_pending_hash := ee_content_hash ee\<rparr>]"
    using a(1) e(2) by (auto simp: spec_enqueue_def Let_def empty_abs_def split: if_splits)
  moreover have "outbox_wf ref_bolt example_options 100 d'"
  proof -
    have "unat (oa_seq a) = 1" unfolding a(3) by simp
    then have "unat (oa_seq a) + 100 < 18446744073709551616" by linarith
    then show ?thesis unfolding outbox_wf_def using ref_bolt_ok example_options_ok(2) d' by blast
  qed
  moreover have "rec_wf (new_record ee 1 1)" by (rule new_record_wf [OF e(1) example_clock(1)]) simp
  then have "record_size (new_record ee 1 1) \<le> 3000000" by (rule record_size_bound)
  ultimately show ?thesis
    using d' a(2) by (intro exI [of _ d'] exI [of _ a]) (simp add: seen_cp_def total_bytes_def)
qed

text \<open>A poll that finds the known alert again, its details still fresh.\<close>

lemma example_poll_result:
  "\<exists>d. outbox_wf ref_bolt example_options 100 d \<and> alert_known ref_bolt ''a1'' d \<and>
     (\<forall>v :: int view. let p' = alert_poll (outbox_state ref_bolt example_options) example_pipe
          (example_poll [example_item]) (new_pipeline d v) in
        st_success (collector_status_of (pp_view p') ''alert_detail'') \<and> alert_deferred (pp_view p') = 0 \<and>
        (alert_publisher_state_ok v \<longrightarrow> alert_pipeline_ready (pp_view p')))"
proof -
  obtain d a c where d: "represents ref_bolt d a" "outbox_wf ref_bolt example_options 100 d"
    "dom (oa_cps a) = {''a1''}" "oa_cps a ''a1'' = Some c" "cp_last_fetched_at c = 1" "length (oa_queue a) = 1"
    "total_bytes (oa_queue a) \<le> 3000000" using example_known by (elim exE conjE)
  have valid: "valid_alert_id ''a1''" by (rule example_valid_id)
  then have i: "\<not> alert_id_invalid ''a1''" using alert_id_invalid_bytes by (simp add: valid_alert_id_def)
  let ?S = "outbox_state ref_bolt example_options"
  have f: "so_fetch ?S ''a1'' d = (True, cp_list_marker c, 1, None)"
    using fetch_state_view [OF ref_bolt_ok d(1) i] d(4,5) by (simp add: outbox_state_def)
  have m0: "marker_ok []" by (simp add: marker_ok_def)
  have "spec_mark_seen example_options ''a1'' [] 1 a = Inr (a\<lparr>oa_cps := (oa_cps a)(''a1'' \<mapsto> seen_cp [] 1 c)\<rparr>)"
    using d(4) by (simp add: spec_mark_seen_def room_for_def cp_of_def)
  then obtain d2 a2 where m: "so_mark_seen ?S ''a1'' [] 1 d = (d2, None)" "represents ref_bolt d2 a2"
    "dom (oa_cps a2) = {''a1''}" "oa_queue a2 = oa_queue a"
    using mark_seen_refines [OF ref_bolt_ok d(1) i m0 example_clock(1), of example_options] ref_commits d(3)
    by (auto simp: outbox_state_def)
  have "dom (oa_cps (spec_reconcile example_options {''a1''} 1 a2)) = {''a1''}"
    using m(3) by (auto simp: spec_reconcile_def dom_def split: option.splits)
  then have "card (dom (oa_cps (spec_reconcile example_options {''a1''} 1 a2))) = 1" by simp
  then obtain d3 a3 where r: "so_reconcile ?S {''a1''} 1 True d2 = (d3, None)" "represents ref_bolt d3 a3"
    "card (dom (oa_cps a3)) = 1" "oa_queue a3 = oa_queue a"
    using reconcile_refines [OF ref_bolt_ok m(2) example_clock(1), of example_options "{''a1''}"] ref_commits m(4)
    by (auto simp: outbox_state_def Let_def example_options_def spec_reconcile_def)
  have h: "so_health ?S d3 = (1, False, None)"
    using stats_view [OF ref_bolt_ok r(2), of example_options] r(3,4) d(6,7)
    by (simp add: outbox_state_def health_def Let_def example_options_def)
  have zero: "\<not> is_zero 1" by (simp add: is_zero_def zero_time_def)
  have sf: "select_fair 2 [] new_fair_state = (new_fair_state, [])"
    by (simp add: select_fair_def fair_pick_def new_fair_state_def Let_def)
  have p: "priority_of 1000 1 [] True (cp_list_marker c) 1 = 2"
    using zero by (simp add: priority_of_def)
  have "alert_known ref_bolt ''a1'' d" using alert_known_view [OF ref_bolt_ok d(1)] d(4) by simp
  moreover have "let p' = alert_poll ?S example_pipe (example_poll [example_item]) (new_pipeline d v) in
        st_success (collector_status_of (pp_view p') ''alert_detail'') \<and> alert_deferred (pp_view p') = 0 \<and>
        (alert_publisher_state_ok v \<longrightarrow> alert_pipeline_ready (pp_view p'))" for v :: "int view"
    using valid f m(1) r(1) h p sf
    by (simp add: alert_poll_def example_poll_def example_item_def new_pipeline_def example_pipe_def
        usable_marker_def marker_of_def total_known_def total_above_def fetch_details_def Let_def
        snap_op_defs collector_status_of_def)
  ultimately show ?thesis using d(2) by blast
qed

section \<open>Properties\<close>

lemma alert_run_state:
  assumes "\<forall>e \<in> set es. poll_input_ok e"
  shows "outbox_wf B so (length es * nat (po_max opts)) (pp_state p) \<Longrightarrow>
     outbox_wf B so 0 (pp_state (alert_run (outbox_state B so) opts es p))"
  using assms
proof (induction es arbitrary: p)
  case (Cons e es)
  have "outbox_wf B so (length es * nat (po_max opts) + nat (po_max opts)) (pp_state p)"
    using Cons.prems(1) by (simp add: add.commute)
  then have "outbox_wf B so (length es * nat (po_max opts)) (pp_state (alert_poll (outbox_state B so) opts e p))"
    using alert_poll_state Cons.prems(2) by (metis list.set_intros(1))
  then show ?case using Cons.IH Cons.prems(2) by simp
qed simp

text \<open>
  Any sequence of polls, whatever the service answers and however the workers are scheduled,
  keeps the outbox a well-formed store, as long as its sequence numbers do not run out.
\<close>

theorem polls_keep_the_store:
  assumes "\<forall>e \<in> set es. poll_input_ok e" and "outbox_wf B so (length es * nat (po_max opts)) (pp_state p)"
  shows "outbox_wf B so 0 (pp_state (alert_run (outbox_state B so) opts es p))"
  by (rule alert_run_state [OF assms])

lemma polls_keep_the_store_witness:
  "\<exists>d. outbox_wf ref_bolt example_options 0
     (pp_state (alert_run (outbox_state ref_bolt example_options) example_pipe
        [example_poll [example_item], example_poll []] (new_pipeline d (new_store :: int view))))"
proof -
  obtain d where d: "outbox_wf ref_bolt example_options 100 d" using example_outbox by blast
  have "\<forall>e \<in> set [example_poll [example_item], example_poll []]. poll_input_ok e"
    using example_poll_ok [of "[example_item]"] example_poll_ok [of "[]"] by (simp add: example_item_def)
  moreover have "outbox_wf ref_bolt example_options (length [example_poll [example_item], example_poll []] * nat (po_max example_pipe))
      (pp_state (new_pipeline d (new_store :: int view)))"
    using outbox.wf_drop [of ref_bolt example_options 4 96 d] d by (simp add: example_pipe_def new_pipeline_def)
  ultimately have "outbox_wf ref_bolt example_options 0
     (pp_state (alert_run (outbox_state ref_bolt example_options) example_pipe
        [example_poll [example_item], example_poll []] (new_pipeline d (new_store :: int view))))"
    by (rule polls_keep_the_store)
  then show ?thesis by blast
qed

text \<open>
  Claim C5. A poll forgets an alert only on the strength of a complete list that does not contain it: a
  failed, truncated, duplicated or partly invalid list never removes a checkpoint.
\<close>

theorem poll_forgets_only_unlisted:
  assumes "outbox_wf B so (n + nat (po_max opts)) (pp_state p)" and "poll_input_ok e"
    and "alert_known B i (pp_state p)"
  shows "alert_known B i (pp_state (alert_poll (outbox_state B so) opts e p)) \<or>
         (\<exists>l. pi_list e = Inr l \<and> list_complete valid_alert_id (al_results l) (al_total_records l) \<and>
              i \<notin> li_id ` set (al_results l))"
  using alert_poll_state [OF assms(1,2)] assms(3) by blast

lemma example_poll_wf:
  assumes "outbox_wf ref_bolt example_options 100 d"
  shows "outbox_wf ref_bolt example_options (0 + nat (po_max example_pipe)) (pp_state (new_pipeline d v))"
  using outbox.wf_drop [of ref_bolt example_options 2 98 d] assms
  by (simp add: example_pipe_def new_pipeline_def numeral_2_eq_2)

lemma poll_forgets_only_unlisted_witness:
  "\<exists>d. alert_known ref_bolt ''a1'' d \<and>
     alert_known ref_bolt ''a1'' (pp_state (alert_poll (outbox_state ref_bolt example_options) example_pipe
       (example_poll [example_item]) (new_pipeline d (new_store :: int view))))"
proof -
  obtain d where d: "outbox_wf ref_bolt example_options 100 d" "alert_known ref_bolt ''a1'' d"
    using example_poll_result by blast
  have e: "poll_input_ok (example_poll [example_item])" using example_poll_ok [of "[example_item]"]
    by (simp add: example_item_def)
  have "alert_known ref_bolt ''a1'' (pp_state (new_pipeline d (new_store :: int view)))"
    using d(2) by (simp add: new_pipeline_def)
  from poll_forgets_only_unlisted [OF example_poll_wf [OF d(1)] e this] d(2) show ?thesis
    by (auto simp: example_poll_def example_item_def)
qed

text \<open>
  Claim C6. After a poll that reports success for the details with nothing deferred, every valid
  identifier of the list has a checkpoint: nothing the service listed was skipped.
\<close>

theorem successful_poll_covers_the_list:
  assumes "outbox_wf B so (n + nat (po_max opts)) (pp_state p)" and "poll_input_ok e" and "pi_list e = Inr l"
    and "st_success (collector_status_of (pp_view (alert_poll (outbox_state B so) opts e p)) ''alert_detail'')"
    and "alert_deferred (pp_view (alert_poll (outbox_state B so) opts e p)) = 0"
    and "item \<in> set (al_results l)" and "valid_alert_id (li_id item)"
  shows "alert_known B (li_id item) (pp_state (alert_poll (outbox_state B so) opts e p))"
  using alert_poll_state [OF assms(1,2)] assms(3-7) by blast

lemma successful_poll_covers_the_list_witness:
  "\<exists>d. alert_known ref_bolt ''a1'' (pp_state (alert_poll (outbox_state ref_bolt example_options) example_pipe
       (example_poll [example_item]) (new_pipeline d (new_store :: int view))))"
proof -
  obtain d where d: "outbox_wf ref_bolt example_options 100 d"
    "st_success (collector_status_of (pp_view (alert_poll (outbox_state ref_bolt example_options) example_pipe
       (example_poll [example_item]) (new_pipeline d (new_store :: int view)))) ''alert_detail'')"
    "alert_deferred (pp_view (alert_poll (outbox_state ref_bolt example_options) example_pipe
       (example_poll [example_item]) (new_pipeline d (new_store :: int view)))) = 0"
    using example_poll_result by (auto simp: Let_def)
  have e: "poll_input_ok (example_poll [example_item])" using example_poll_ok [of "[example_item]"]
    by (simp add: example_item_def)
  obtain l where l: "pi_list (example_poll [example_item]) = Inr l" "example_item \<in> set (al_results l)"
    by (simp add: example_poll_def)
  have "valid_alert_id (li_id example_item)" using example_valid_id by (simp add: example_item_def)
  from successful_poll_covers_the_list [OF example_poll_wf [OF d(1)] e l(1) d(2,3) l(2) this] show ?thesis
    by (auto simp: example_item_def)
qed

text \<open>
  Claim C7. What the readiness of the alert pipeline means: right after a poll it can only be ready if
  the list was fetched and complete, in the declarative sense, and the state is healthy and not full.
\<close>

theorem ready_means_complete:
  assumes "alert_pipeline_ready (pp_view (alert_poll S opts e p))"
  shows "(\<exists>l. pi_list e = Inr l \<and> list_complete valid_alert_id (al_results l) (al_total_records l)) \<and>
         (\<exists>events. so_health S (pp_state (alert_poll S opts e p)) = (events, False, None))"
proof (cases "pi_list e")
  case (Inl err)
  then show ?thesis using assms by (simp add: alert_poll_def snap_op_defs)
next
  case (Inr l)
  then show ?thesis
    apply (rule alert_poll_cases [where S = S and opts = opts and p = p])
    using assms scan_complete_iff Inr
    by (auto simp: Let_def snap_op_defs alert_unhealthy_def split: if_splits)
qed

lemma ready_means_complete_witness:
  "\<exists>d (v :: int view) l. pi_list (example_poll [example_item]) = Inr l \<and>
     alert_pipeline_ready (pp_view (alert_poll (outbox_state ref_bolt example_options) example_pipe
       (example_poll [example_item]) (new_pipeline d v))) \<and>
     list_complete valid_alert_id (al_results l) (al_total_records l)"
proof -
  define v :: "int view" where "v = set_alert_publisher_state_healthy True new_store"
  have "alert_publisher_state_ok v" by (simp add: v_def snap_op_defs)
  then obtain d where d: "alert_pipeline_ready (pp_view (alert_poll (outbox_state ref_bolt example_options) example_pipe
       (example_poll [example_item]) (new_pipeline d v)))"
    using example_poll_result by (auto simp: Let_def)
  from ready_means_complete [OF d] d show ?thesis by blast
qed

end
