(* ===== verification/Log_Event.thy ===== *)
theory Log_Event
  imports Alert_Event Go_Json_Text
begin

text \<open>
  Package \<open>internal/serviceability\<close>, file \<open>event.go\<close>: the events of the serviceability logs, from the
  decoded detail to the payload that is stored and published, and the strict decoder of stored payloads.
  The checks on strings, severities, timestamps and the source instance are the ones of package
  \<open>alerts\<close>, whose definitions are reused. A boolean is not trimmed here.
\<close>

section \<open>Data\<close>

record log_value =
  lg_severity :: bytes
  lg_acknowledged :: "bool option"
  lg_occurrence_count :: "int option"
  lg_created_at :: "bytes option"
  lg_updated_at :: "bytes option"
  lg_app_name :: "bytes option"
  lg_component :: "bytes option"
  lg_namespace :: "bytes option"
  lg_message :: "bytes option"
  lg_reason :: "bytes option"
  lg_remedies :: "bytes list"
  lg_resource_id :: "bytes option"
  lg_symptom_id :: "bytes option"
  lg_related :: "bytes option"

record log_event =
  lev_schema_version :: bytes
  lev_event_type :: bytes
  lev_source_system :: bytes
  lev_source_instance :: bytes
  lev_log_id :: bytes
  lev_content_hash :: bytes
  lev_observed_at :: bytes
  lev_log :: log_value

record encoded_log =
  el_event :: log_event
  el_payload :: bytes
  el_record_key :: bytes
  el_content_hash :: bytes

definition log_event_type :: bytes where "log_event_type = ''ddae.serviceability_log.upsert''"
definition record_kind :: bytes where "record_kind = ''serviceability_log''"

section \<open>JSON\<close>

definition log_json :: "log_value \<Rightarrow> json" where
  "log_json g =
     JObj ([(''severity'', JStr (lg_severity g))] @
       opt_member ''acknowledged'' JBool (lg_acknowledged g) @
       opt_member ''occurrence_count'' jint (lg_occurrence_count g) @
       opt_member ''created_at'' JStr (lg_created_at g) @
       opt_member ''updated_at'' JStr (lg_updated_at g) @
       opt_member ''app_name'' JStr (lg_app_name g) @
       opt_member ''component'' JStr (lg_component g) @
       opt_member ''namespace'' JStr (lg_namespace g) @
       opt_member ''message'' JStr (lg_message g) @
       opt_member ''reason'' JStr (lg_reason g) @
       list_member ''remedies'' JStr (lg_remedies g) @
       opt_member ''resource_id'' JStr (lg_resource_id g) @
       opt_member ''symptom_id'' JStr (lg_symptom_id g) @
       opt_member ''related'' JStr (lg_related g))"

definition log_event_json :: "log_event \<Rightarrow> json" where
  "log_event_json e =
     JObj [(''schema_version'', JStr (lev_schema_version e)), (''event_type'', JStr (lev_event_type e)),
       (''source_system'', JStr (lev_source_system e)), (''source_instance'', JStr (lev_source_instance e)),
       (''log_id'', JStr (lev_log_id e)), (''content_hash_sha256'', JStr (lev_content_hash e)),
       (''observed_at'', JStr (lev_observed_at e)), (''log'', log_json (lev_log e))]"

definition zero_log :: log_value where
  "zero_log =
     \<lparr>lg_severity = [], lg_acknowledged = None, lg_occurrence_count = None, lg_created_at = None,
      lg_updated_at = None, lg_app_name = None, lg_component = None, lg_namespace = None,
      lg_message = None, lg_reason = None, lg_remedies = [], lg_resource_id = None,
      lg_symptom_id = None, lg_related = None\<rparr>"

text \<open>\<open>DisallowUnknownFields\<close>: every name of an object selects a field.\<close>

definition known_fields :: "bytes list \<Rightarrow> (bytes \<times> json) list \<Rightarrow> bool" where
  "known_fields names ms \<longleftrightarrow> list_all (\<lambda>(k, v). list_ex (equal_fold k) names) ms"

definition log_fields :: "bytes list" where
  "log_fields = [''severity'', ''acknowledged'', ''occurrence_count'', ''created_at'', ''updated_at'',
     ''app_name'', ''component'', ''namespace'', ''message'', ''reason'', ''remedies'', ''resource_id'',
     ''symptom_id'', ''related'']"

definition log_event_fields :: "bytes list" where
  "log_event_fields = [''schema_version'', ''event_type'', ''source_system'', ''source_instance'',
     ''log_id'', ''content_hash_sha256'', ''observed_at'', ''log'']"

definition un_log :: "json \<Rightarrow> log_value \<Rightarrow> log_value option" where
  "un_log j g =
     (case j of
        JNull \<Rightarrow> Some g
      | JObj ms \<Rightarrow>
          if \<not> known_fields log_fields ms then None
          else
          do { sev \<leftarrow> un_field ''severity'' un_string ms (lg_severity g);
               ack \<leftarrow> un_field ''acknowledged'' (\<lambda>x _. un_ptr un_bool False x) ms (lg_acknowledged g);
               cnt \<leftarrow> un_field ''occurrence_count'' un_oint ms (lg_occurrence_count g);
               cre \<leftarrow> un_field ''created_at'' un_ostr ms (lg_created_at g);
               upd \<leftarrow> un_field ''updated_at'' un_ostr ms (lg_updated_at g);
               app \<leftarrow> un_field ''app_name'' un_ostr ms (lg_app_name g);
               cmp \<leftarrow> un_field ''component'' un_ostr ms (lg_component g);
               nsp \<leftarrow> un_field ''namespace'' un_ostr ms (lg_namespace g);
               msg \<leftarrow> un_field ''message'' un_ostr ms (lg_message g);
               rsn \<leftarrow> un_field ''reason'' un_ostr ms (lg_reason g);
               rem \<leftarrow> un_field ''remedies'' un_strings ms (lg_remedies g);
               rid \<leftarrow> un_field ''resource_id'' un_ostr ms (lg_resource_id g);
               sid \<leftarrow> un_field ''symptom_id'' un_ostr ms (lg_symptom_id g);
               rel \<leftarrow> un_field ''related'' un_ostr ms (lg_related g);
               Some \<lparr>lg_severity = sev, lg_acknowledged = ack, lg_occurrence_count = cnt,
                     lg_created_at = cre, lg_updated_at = upd, lg_app_name = app, lg_component = cmp,
                     lg_namespace = nsp, lg_message = msg, lg_reason = rsn, lg_remedies = rem,
                     lg_resource_id = rid, lg_symptom_id = sid, lg_related = rel\<rparr> }
      | _ \<Rightarrow> None)"

definition zero_log_event :: log_event where
  "zero_log_event =
     \<lparr>lev_schema_version = [], lev_event_type = [], lev_source_system = [], lev_source_instance = [],
      lev_log_id = [], lev_content_hash = [], lev_observed_at = [], lev_log = zero_log\<rparr>"

definition un_log_event :: "json \<Rightarrow> log_event option" where
  "un_log_event j =
     (case j of
        JNull \<Rightarrow> Some zero_log_event
      | JObj ms \<Rightarrow>
          if \<not> known_fields log_event_fields ms then None
          else
          do { sv \<leftarrow> un_field ''schema_version'' un_string ms [];
               et \<leftarrow> un_field ''event_type'' un_string ms [];
               ss \<leftarrow> un_field ''source_system'' un_string ms [];
               si \<leftarrow> un_field ''source_instance'' un_string ms [];
               li \<leftarrow> un_field ''log_id'' un_string ms [];
               ch \<leftarrow> un_field ''content_hash_sha256'' un_string ms [];
               ob \<leftarrow> un_field ''observed_at'' un_string ms [];
               lg \<leftarrow> un_field ''log'' un_log ms zero_log;
               Some \<lparr>lev_schema_version = sv, lev_event_type = et, lev_source_system = ss,
                     lev_source_instance = si, lev_log_id = li, lev_content_hash = ch,
                     lev_observed_at = ob, lev_log = lg\<rparr> }
      | _ \<Rightarrow> None)"

definition marshal_log :: "log_value \<Rightarrow> bytes" where "marshal_log g = json_print (log_json g)"

definition marshal_log_event :: "log_event \<Rightarrow> bytes" where
  "marshal_log_event e = json_print (log_event_json e)"

section \<open>Validation\<close>

definition validate_log :: "log_value \<Rightarrow> go_error + unit" where
  "validate_log g =
     bindE (guardE (lg_severity g \<in> set severities) (validation_error ''severity'')) (\<lambda>_.
     bindE (check_opt (\<lambda>n. 0 \<le> n) ''occurrence_count'' (lg_occurrence_count g)) (\<lambda>_.
     bindE (forE (\<lambda>(v, limit, field). check_opt (\<lambda>s. valid_string s limit) field v)
        [(lg_app_name g, 256, ''app_name''), (lg_component g, 256, ''component''),
         (lg_namespace g, 256, ''namespace''), (lg_message g, 8192, ''message''),
         (lg_reason g, 4096, ''reason''), (lg_resource_id g, 512, ''resource_id''),
         (lg_symptom_id g, 256, ''symptom_id''), (lg_related g, 512, ''related'')]) (\<lambda>_.
     bindE (forE (\<lambda>(v, field). check_opt canonical_time field v)
        [(lg_created_at g, ''created_at''), (lg_updated_at g, ''updated_at'')]) (\<lambda>_.
     bindE (guardE (length (lg_remedies g) \<le> 32) (validation_error ''remedies'')) (\<lambda>_.
     forE (\<lambda>r. guardE (valid_string r 2048) (validation_error ''remedies'')) (lg_remedies g))))))"

definition validate_stored_log :: "log_event \<Rightarrow> go_error + unit" where
  "validate_stored_log e =
     bindE (guardE (lev_schema_version e = schema_version \<and> lev_event_type e = log_event_type \<and>
                    lev_source_system e = source_system) (validation_error ''event_identity'')) (\<lambda>_.
     bindE (validate_source_instance (lev_source_instance e)) (\<lambda>_.
     bindE (validate_log_id (lev_log_id e)) (\<lambda>_.
     bindE (guardE (valid_lower_hex_hash (lev_content_hash e)) (validation_error ''content_hash_sha256'')) (\<lambda>_.
     bindE (guardE (canonical_time (lev_observed_at e)) (validation_error ''observed_at'')) (\<lambda>_.
     bindE (validate_log (lev_log e)) (\<lambda>_.
     guardE (sha256_hex (marshal_log (lev_log e)) = lev_content_hash e)
       (validation_error ''content_hash_sha256'')))))))"

definition decode_stored_log :: "bytes \<Rightarrow> go_error + log_event" where
  "decode_stored_log payload =
     (if payload = [] \<or> length payload > max_event_bytes \<or> \<not> utf8_valid payload
      then Inl (validation_error ''event_size'')
      else case Option.bind (json_parse payload) un_log_event of
        None \<Rightarrow> Inl (validation_error ''event'')
      | Some e \<Rightarrow>
          bindE (validate_stored_log e) (\<lambda>_.
          bindE (guardE (marshal_log_event e = payload) (validation_error ''event_canonical'')) (\<lambda>_.
          Inr e)))"

section \<open>Building\<close>

definition normalize_boolean :: "bytes option \<Rightarrow> go_error + bool option" where
  "normalize_boolean v =
     (case v of
        None \<Rightarrow> Inr None
      | Some s \<Rightarrow>
          (if to_lower s = ''true'' then Inr (Some True)
           else if to_lower s = ''false'' then Inr (Some False)
           else Inl (validation_error ''acknowledged'')))"

definition normalize_log :: "log_detail \<Rightarrow> go_error + log_value" where
  "normalize_log d =
     bindE (normalize_boolean (ld_acknowledged d)) (\<lambda>ack.
     bindE (optional_count (ld_count d) ''occurrence_count'') (\<lambda>cnt.
     bindE (optional_timestamp (ld_created_on d) ''created_at'') (\<lambda>cre.
     bindE (optional_timestamp (ld_updated_on d) ''updated_at'') (\<lambda>upd.
     bindE (optional_string (ld_app_name d) 256 ''app_name'') (\<lambda>app.
     bindE (optional_string (ld_component d) 256 ''component'') (\<lambda>cmp.
     bindE (optional_string (ld_namespace d) 256 ''namespace'') (\<lambda>nsp.
     bindE (optional_string (ld_message d) 8192 ''message'') (\<lambda>msg.
     bindE (optional_string (ld_reason d) 4096 ''reason'') (\<lambda>rsn.
     bindE (optional_string (ld_resource_id d) 512 ''resource_id'') (\<lambda>rid.
     bindE (optional_string (ld_symptom_id d) 256 ''symptom_id'') (\<lambda>sid.
     bindE (optional_string (ld_related d) 512 ''related'') (\<lambda>rel.
     bindE (guardE (length (ld_remedies d) \<le> 32) (validation_error ''remedies'')) (\<lambda>_.
     bindE (forE (\<lambda>r. guardE (valid_string r 2048) (validation_error ''remedies'')) (ld_remedies d)) (\<lambda>_.
     Inr \<lparr>lg_severity = normalize_severity (ld_type d), lg_acknowledged = ack, lg_occurrence_count = cnt,
          lg_created_at = cre, lg_updated_at = upd, lg_app_name = app, lg_component = cmp,
          lg_namespace = nsp, lg_message = msg, lg_reason = rsn, lg_remedies = ld_remedies d,
          lg_resource_id = rid, lg_symptom_id = sid, lg_related = rel\<rparr>))))))))))))))"

definition log_record_key :: "bytes \<Rightarrow> bytes \<Rightarrow> bytes" where
  "log_record_key source i = sha256_hex (source @ [chr 0] @ record_kind @ [chr 0] @ i)"

definition build_log_event :: "bytes \<Rightarrow> bytes \<Rightarrow> log_detail \<Rightarrow> go_time \<Rightarrow> go_error + encoded_log" where
  "build_log_event source requested d observed =
     bindE (validate_source_instance source) (\<lambda>_.
     bindE (validate_log_id requested) (\<lambda>_.
     bindE (guardE (ld_id d = requested) (validation_error ''log_id'')) (\<lambda>_.
     bindE (normalize_log d) (\<lambda>g.
       let h = sha256_hex (marshal_log g);
           e = \<lparr>lev_schema_version = schema_version, lev_event_type = log_event_type,
                lev_source_system = source_system, lev_source_instance = source,
                lev_log_id = requested, lev_content_hash = h,
                lev_observed_at = format_rfc3339 observed, lev_log = g\<rparr>;
           payload = marshal_log_event e
       in bindE (guardE (length payload \<le> max_event_bytes) (validation_error ''event_size'')) (\<lambda>_.
          Inr \<lparr>el_event = e, el_payload = payload,
               el_record_key = log_record_key source requested, el_content_hash = h\<rparr>)))))"

section \<open>Facts\<close>

lemma log_names_plain [simp]: "plain_name ''log_id''" "plain_name ''log''"
  by (simp_all add: plain_name_def is_lower_def is_digit_def byte_def)

lemma known_fields_append [simp]: "known_fields names (xs @ ys) \<longleftrightarrow> known_fields names xs \<and> known_fields names ys"
  by (simp add: known_fields_def)

lemma known_fields_members [simp]:
  "known_fields names []"
  "known_fields names ((k, v) # ms) \<longleftrightarrow> list_ex (equal_fold k) names \<and> known_fields names ms"
  "list_ex (equal_fold k) names \<Longrightarrow> known_fields names (opt_member k f x)"
  "list_ex (equal_fold k) names \<Longrightarrow> known_fields names (list_member k g xs)"
  by (auto simp: known_fields_def opt_member_def list_member_def split: option.split)

lemma in_names: "k \<in> set names \<Longrightarrow> list_ex (equal_fold k) names"
  by (auto simp: list_ex_iff intro: bexI [of _ k])

lemma log_known: "log_json g = JObj ms \<Longrightarrow> known_fields log_fields ms"
  unfolding log_json_def by (auto simp: log_fields_def in_names)

definition log_ints :: "log_value \<Rightarrow> bool" where
  "log_ints g \<longleftrightarrow> pred_option is_int64 (lg_occurrence_count g)"

lemma zero_log_sel [simp]:
  "lg_severity zero_log = []" "lg_acknowledged zero_log = None" "lg_occurrence_count zero_log = None"
  "lg_created_at zero_log = None" "lg_updated_at zero_log = None" "lg_app_name zero_log = None"
  "lg_component zero_log = None" "lg_namespace zero_log = None" "lg_message zero_log = None"
  "lg_reason zero_log = None" "lg_remedies zero_log = []" "lg_resource_id zero_log = None"
  "lg_symptom_id zero_log = None" "lg_related zero_log = None"
  by (simp_all add: zero_log_def)

lemma log_json_obj: "\<exists>ms. log_json g = JObj ms"
  by (simp add: log_json_def)

lemma un_log_log_json: "log_ints g \<Longrightarrow> un_log (log_json g) zero_log = Some g"
  using log_known [of g]
  by (simp add: un_log_def log_json_def log_ints_def un_field_append json_rt del: un_field.simps)

lemma un_log_event_json: "log_ints (lev_log e) \<Longrightarrow> un_log_event (log_event_json e) = Some e"
  by (simp add: un_log_event_def log_event_json_def log_event_fields_def in_names un_field_Cons_skip
      un_field_hit un_field_Nil un_log_log_json del: un_field.simps(2))

lemma log_json_ok: "validate_log g = Inr () \<Longrightarrow> json_ok (log_json g)"
proof -
  assume v: "validate_log g = Inr ()"
  have s: "pred_option utf8_valid x" if "pred_option (\<lambda>s. valid_string s n) x" for x n
    using that valid_string_utf8 by (rule pred_option_mono')
  have t: "pred_option utf8_valid x" if "pred_option canonical_time x" for x
    using that canonical_time_utf8 by (rule pred_option_mono')
  show ?thesis
    using v s t by (auto simp: validate_log_def log_json_def severities_utf8 valid_string_utf8)
qed

lemma log_json_depth: "json_depth (log_json g) \<le> 2"
proof -
  have r: "\<forall>m \<in> set (list_member ''remedies'' JStr (lg_remedies g)). json_depth (snd m) \<le> Suc 0"
    by (simp add: list_member_depth)
  have "json_depth (log_json g) \<le> Suc (Suc 0)"
    using r by (auto simp: log_json_def json_depth_le dest!: opt_member_depth simp del: json_depth.simps(2))
  then show ?thesis by (simp add: numeral_2_eq_2)
qed

lemma decode_marshal_log_event:
  assumes v: "validate_stored_log e = Inr ()" and i: "log_ints (lev_log e)"
    and l: "length (marshal_log_event e) \<le> max_event_bytes"
  shows "decode_stored_log (marshal_log_event e) = Inr e"
proof -
  have a: "json_ok (log_json (lev_log e))" using v by (simp add: validate_stored_log_def log_json_ok)
  have s: "utf8_valid (lev_source_instance e)" "utf8_valid (lev_log_id e)"
    "utf8_valid (lev_content_hash e)" "utf8_valid (lev_observed_at e)"
    using v by (simp_all add: validate_stored_log_def valid_source_utf8 validate_log_id_Inr
        lower_hex_utf8 canonical_time_utf8)
  have c: "utf8_valid (lev_schema_version e)" "utf8_valid (lev_event_type e)" "utf8_valid (lev_source_system e)"
    using v by (simp_all add: validate_stored_log_def schema_version_def log_event_type_def source_system_def byte_def)
  have ok: "json_ok (log_event_json e)" using a s c by (simp add: log_event_json_def)
  moreover have "json_depth (log_event_json e) \<le> max_nesting"
    using log_json_depth [of "lev_log e"] by (simp add: log_event_json_def max_nesting_def)
  ultimately have "json_parse (marshal_log_event e) = Some (log_event_json e)"
    by (simp add: marshal_log_event_def json_parse_print)
  moreover have "marshal_log_event e \<noteq> []" by (simp add: marshal_log_event_def log_event_json_def)
  moreover have "utf8_valid (marshal_log_event e)"
    using ok by (simp add: marshal_log_event_def utf8_valid_json_print)
  ultimately show ?thesis
    using v l by (simp add: decode_stored_log_def un_log_event_json [OF i])
qed

text \<open>A decoded event is canonical, so decoding is injective.\<close>

lemma decode_stored_log_Inr:
  "decode_stored_log payload = Inr e \<Longrightarrow>
     validate_stored_log e = Inr () \<and> marshal_log_event e = payload \<and> payload \<noteq> [] \<and>
     length payload \<le> max_event_bytes"
  by (auto simp: decode_stored_log_def split: if_splits option.splits)

section \<open>Built events\<close>

definition log_detail_typed :: "log_detail \<Rightarrow> bool" where
  "log_detail_typed d \<longleftrightarrow> pred_option is_int64 (ld_count d)"

definition log_times_in_range :: "log_detail \<Rightarrow> bool" where
  "log_times_in_range d \<longleftrightarrow> time_text_ok (ld_created_on d) \<and> time_text_ok (ld_updated_on d)"

lemma normalize_log_Inr:
  assumes "normalize_log d = Inr g"
  obtains
    "optional_count (ld_count d) ''occurrence_count'' = Inr (lg_occurrence_count g)"
    "optional_timestamp (ld_created_on d) ''created_at'' = Inr (lg_created_at g)"
    "optional_timestamp (ld_updated_on d) ''updated_at'' = Inr (lg_updated_at g)"
    "optional_string (ld_app_name d) 256 ''app_name'' = Inr (lg_app_name g)"
    "optional_string (ld_component d) 256 ''component'' = Inr (lg_component g)"
    "optional_string (ld_namespace d) 256 ''namespace'' = Inr (lg_namespace g)"
    "optional_string (ld_message d) 8192 ''message'' = Inr (lg_message g)"
    "optional_string (ld_reason d) 4096 ''reason'' = Inr (lg_reason g)"
    "optional_string (ld_resource_id d) 512 ''resource_id'' = Inr (lg_resource_id g)"
    "optional_string (ld_symptom_id d) 256 ''symptom_id'' = Inr (lg_symptom_id g)"
    "optional_string (ld_related d) 512 ''related'' = Inr (lg_related g)"
    "length (ld_remedies d) \<le> 32" "\<forall>r \<in> set (ld_remedies d). valid_string r 2048"
    "lg_remedies g = ld_remedies d" "lg_severity g = normalize_severity (ld_type d)"
    "normalize_boolean (ld_acknowledged d) = Inr (lg_acknowledged g)"
  using assms unfolding normalize_log_def by auto

lemma normalize_log_stored:
  assumes n: "normalize_log d = Inr g" and t: "log_times_in_range d" "log_detail_typed d"
  shows "validate_log g = Inr () \<and> log_ints g"
  using n
proof (cases rule: normalize_log_Inr)
  case 1
  note str = 1(4-11) [THEN optional_string_Inr, THEN conjunct2]
    and cnt = 1(1) [THEN optional_count_Inr, THEN conjunct2] 1(1) [THEN optional_count_Inr, THEN conjunct1, symmetric]
  have "pred_option canonical_time (lg_created_at g)" "pred_option canonical_time (lg_updated_at g)"
    using optional_timestamp_Inr 1(2,3) t(1) unfolding log_times_in_range_def by blast+
  with 1(12-15) str cnt t(2) show ?thesis
    by (simp add: validate_log_def log_ints_def log_detail_typed_def normalize_severity_known)
qed

lemma build_log_event_Inr:
  assumes "build_log_event source i d obs = Inr x"
  obtains "validate_source_instance source = Inr ()" "validate_log_id i = Inr ()" "ld_id d = i"
    "normalize_log d = Inr (lev_log (el_event x))"
    "lev_schema_version (el_event x) = schema_version" "lev_event_type (el_event x) = log_event_type"
    "lev_source_system (el_event x) = source_system"
    "lev_source_instance (el_event x) = source" "lev_log_id (el_event x) = i"
    "lev_content_hash (el_event x) = sha256_hex (marshal_log (lev_log (el_event x)))"
    "el_content_hash x = sha256_hex (marshal_log (lev_log (el_event x)))"
    "lev_observed_at (el_event x) = format_rfc3339 obs"
    "el_payload x = marshal_log_event (el_event x)" "length (el_payload x) \<le> max_event_bytes"
    "el_record_key x = log_record_key source i"
  using assms by (auto simp: build_log_event_def Let_def)

lemma build_log_event_valid:
  assumes b: "build_log_event source i d obs = Inr x"
    and t: "log_times_in_range d" "log_detail_typed d" "year_ok obs"
  shows "decode_stored_log (el_payload x) = Inr (el_event x)"
    and "validate_stored_log (el_event x) = Inr ()"
proof -
  from b have n: "normalize_log d = Inr (lev_log (el_event x))"
    and p: "el_payload x = marshal_log_event (el_event x)" "length (el_payload x) \<le> max_event_bytes"
    by (auto elim: build_log_event_Inr)
  note st = normalize_log_stored [OF n t(1,2)]
  from b show v: "validate_stored_log (el_event x) = Inr ()"
    by (rule build_log_event_Inr) (use st t(3) in \<open>simp add: validate_stored_log_def canonical_format_iff\<close>)
  show "decode_stored_log (el_payload x) = Inr (el_event x)"
    using v st p by (simp add: decode_marshal_log_event)
qed

lemma validated_log_in_range:
  assumes n: "normalize_log d = Inr g" and v: "validate_log g = Inr ()"
  shows "log_times_in_range d"
  using n
proof (cases rule: normalize_log_Inr)
  case 1
  have "pred_option canonical_time (lg_created_at g)" "pred_option canonical_time (lg_updated_at g)"
    using v by (simp_all add: validate_log_def)
  then show ?thesis using optional_timestamp_year 1(2,3) unfolding log_times_in_range_def by blast
qed

lemma built_log_valid_iff:
  assumes b: "build_log_event source i d obs = Inr x" and t: "log_detail_typed d" "year_ok obs"
  shows "validate_stored_log (el_event x) = Inr () \<longleftrightarrow> log_times_in_range d"
proof
  from b have n: "normalize_log d = Inr (lev_log (el_event x))" by (rule build_log_event_Inr)
  assume "validate_stored_log (el_event x) = Inr ()"
  then show "log_times_in_range d" using validated_log_in_range [OF n] by (simp add: validate_stored_log_def)
qed (use build_log_event_valid(2) [OF b _ t] in blast)

lemma normalize_log_encodable:
  assumes "normalize_log d = Inr g" "log_detail_typed d"
  shows "json_ok (log_json g)" "log_ints g"
  using assms(1)
proof (atomize (full), cases rule: normalize_log_Inr)
  case 1
  note cnt = 1(1) [THEN optional_count_Inr, THEN conjunct1, symmetric]
  have "\<forall>r \<in> set (ld_remedies d). utf8_valid r" using 1(13) valid_string_utf8 by blast
  then show "json_ok (log_json g) \<and> log_ints g"
    using 1(14,15) 1(2,3) [THEN optional_timestamp_utf8] 1(4-11) [THEN optional_string_utf8] cnt assms(2)
      severities_utf8 [OF normalize_severity_known]
    by (simp add: log_json_def log_ints_def log_detail_typed_def)
qed

lemma built_log_parses:
  assumes b: "build_log_event source i d obs = Inr x" and t: "log_detail_typed d"
  shows "Option.bind (json_parse (el_payload x)) un_log_event = Some (el_event x)"
  using b
proof (cases rule: build_log_event_Inr)
  case 1
  note g = normalize_log_encodable [OF 1(4) t]
  have "utf8_valid (format_rfc3339 obs)" using format_rfc3339_plain by (fastforce intro: utf8_valid_ascii)
  moreover have "utf8_valid (sha256_hex (marshal_log (lev_log (el_event x))))" by (rule lower_hex_utf8) simp
  moreover have "utf8_valid schema_version" "utf8_valid log_event_type" "utf8_valid source_system"
    by (simp_all add: schema_version_def log_event_type_def source_system_def byte_def)
  moreover have "utf8_valid source" "utf8_valid i"
    using 1(1,2) by (simp_all add: valid_source_utf8 validate_log_id_Inr)
  ultimately have "json_ok (log_event_json (el_event x))"
    using g(1) by (simp add: log_event_json_def 1(5-10,12))
  moreover have "json_depth (log_event_json (el_event x)) \<le> max_nesting"
    using log_json_depth [of "lev_log (el_event x)"] by (simp add: log_event_json_def max_nesting_def)
  ultimately show ?thesis
    by (simp add: 1(13) marshal_log_event_def json_parse_print un_log_event_json [OF g(2)])
qed

section \<open>An example\<close>

definition example_log_detail :: log_detail where
  "example_log_detail =
     \<lparr>ld_id = ''l/1'', ld_type = Some ''Warning'', ld_acknowledged = Some ''True'', ld_count = None,
      ld_created_on = None, ld_updated_on = None, ld_app_name = None, ld_component = None,
      ld_namespace = None, ld_message = None, ld_reason = None, ld_remedies = [],
      ld_resource_id = None, ld_symptom_id = None, ld_related = None\<rparr>"

definition example_log :: log_value where
  "example_log = zero_log\<lparr>lg_severity := ''warning'', lg_acknowledged := Some True\<rparr>"

lemma example_log_normal: "normalize_log example_log_detail = Inr example_log"
proof -
  have "to_lower (trim_space ''Warning'') = ''warning''" "to_lower ''True'' = ''true''" by code_simp+
  then show ?thesis
    by (simp add: normalize_log_def example_log_detail_def example_log_def zero_log_def normalize_boolean_def
        optional_count_def optional_timestamp_def optional_string_def normalize_severity_def guardE_def)
qed

lemma example_log_id: "validate_log_id ''l/1'' = Inr ()"
proof -
  have "byte (chr 0) = 0" by simp
  moreover have "byte (CHR ''l'') \<noteq> 0" "byte (CHR ''/'') \<noteq> 0" "byte (CHR ''1'') \<noteq> 0"
    by (simp_all add: byte_def)
  ultimately have "chr 0 \<notin> set ''l/1''" by (metis empty_iff empty_set set_ConsD)
  then show ?thesis by (simp add: validate_log_id_Inr byte_def)
qed

lemma example_build_log: "\<exists>x. build_log_event ''ddae-1'' ''l/1'' example_log_detail 0 = Inr x"
proof -
  let ?h = "sha256_hex (marshal_log example_log)"
  let ?e = "\<lparr>lev_schema_version = schema_version, lev_event_type = log_event_type,
                lev_source_system = source_system, lev_source_instance = ''ddae-1'',
                lev_log_id = ''l/1'', lev_content_hash = ?h,
                lev_observed_at = format_rfc3339 0, lev_log = example_log\<rparr>"
  have p: "plain_text ''schema_version''" "plain_text ''event_type''" "plain_text ''source_system''"
    "plain_text ''source_instance''" "plain_text ''log_id''" "plain_text ''content_hash_sha256''"
    "plain_text ''observed_at''" "plain_text ''log''" "plain_text ''severity''" "plain_text ''acknowledged''"
    "plain_text ''warning''" "plain_text ''1.0''"
    "plain_text ''ddae.serviceability_log.upsert''" "plain_text ''dell_ddae''" "plain_text ''ddae-1''"
    "plain_text ''l/1''"
    by (simp_all add: plain_text_def byte_def)
  have "length (marshal_log_event ?e) \<le> max_event_bytes"
    using length_format_rfc3339 [OF example_year]
    by (simp add: marshal_log_event_def log_event_json_def log_json_def example_log_def print_str_def
        json_escape_plain p schema_version_def log_event_type_def source_system_def opt_member_def
        list_member_def max_event_bytes_def)
  moreover have "ld_id example_log_detail = ''l/1''" by (simp add: example_log_detail_def)
  ultimately show ?thesis
    by (simp add: build_log_event_def example_source example_log_id example_log_normal Let_def guardE_def)
qed

lemma example_log_typed: "log_times_in_range example_log_detail" "log_detail_typed example_log_detail"
  by (simp_all add: log_times_in_range_def log_detail_typed_def example_log_detail_def time_text_ok_def)

section \<open>Properties\<close>

text \<open>
  Claim C16. What BuildEvent of the serviceability logs encodes is the canonical form of its event, of at most 256
  KiB, and carries the hash of its log. ValidateStoredEvent accepts the event, and the strict decoder
  DecodeStoredEvent reads the payload back to the same event, exactly when the timestamps of the detail
  stay in the years 0 to 9999 of UTC; for all other details both refuse it.
\<close>

theorem built_log_is_decoded:
  assumes "build_log_event source i d obs = Inr x" and "log_detail_typed d" and "year_ok obs"
  shows "marshal_log_event (el_event x) = el_payload x \<and>
         0 < length (el_payload x) \<and> length (el_payload x) \<le> max_event_bytes \<and>
         lev_content_hash (el_event x) = sha256_hex (marshal_log (lev_log (el_event x))) \<and>
         el_content_hash x = lev_content_hash (el_event x) \<and>
         (validate_stored_log (el_event x) = Inr () \<longleftrightarrow> log_times_in_range d) \<and>
         (if log_times_in_range d then decode_stored_log (el_payload x) = Inr (el_event x)
          else \<exists>e. decode_stored_log (el_payload x) = Inl e)"
proof -
  from assms(1) have f: "marshal_log_event (el_event x) = el_payload x" "length (el_payload x) \<le> max_event_bytes"
    "lev_content_hash (el_event x) = sha256_hex (marshal_log (lev_log (el_event x)))"
    "el_content_hash x = lev_content_hash (el_event x)"
    by (auto elim: build_log_event_Inr)
  moreover have "el_payload x \<noteq> []"
    unfolding f(1) [symmetric] by (simp add: marshal_log_event_def log_event_json_def)
  moreover note built_log_valid_iff [OF assms]
  moreover have "\<exists>e. decode_stored_log (el_payload x) = Inl e" if "validate_stored_log (el_event x) \<noteq> Inr ()"
    using that built_log_parses [OF assms(1,2)]
    by (cases "validate_stored_log (el_event x)") (auto simp: decode_stored_log_def)
  ultimately show ?thesis
    using build_log_event_valid(1) [OF assms(1) _ assms(2,3)] by simp
qed

lemma built_log_is_decoded_witness:
  "\<exists>x. build_log_event ''ddae-1'' ''l/1'' example_log_detail 0 = Inr x \<and>
       decode_stored_log (el_payload x) = Inr (el_event x)"
proof -
  obtain x where "build_log_event ''ddae-1'' ''l/1'' example_log_detail 0 = Inr x" using example_build_log by blast
  with built_log_is_decoded [OF this example_log_typed(2) example_year] example_log_typed(1)
  show ?thesis by auto
qed

end
