(* ===== verification/Log_Store.thy ===== *)
theory Log_Store
  imports Outbox Log_Event
begin

text \<open>
  \<open>internal/logstate/store.go\<close>: the durable queue of serviceability log events and the checkpoint of every
  log seen. The layout of the database is the one of the alert outbox (same buckets, same keys), so the
  transaction primitives and the counters of \<open>Outbox\<close> are reused; the records, the checkpoints and
  the operations are its own. It differs from the outbox in what a stale answer of the API may do: a
  marker that is older than the stored one changes nothing (\<open>older_marker\<close>).
\<close>

section \<open>Data\<close>

definition log_full_error :: go_error where
  "log_full_error = Classified ClassBufferFull ''serviceability log outbox is full''"

definition log_corruption :: "bytes \<Rightarrow> go_error" where
  "log_corruption reason =
     Classified ClassInternal
       (if reason = [] then ''serviceability log state is corrupt''
        else ''serviceability log state is corrupt: '' @ reason)"

record log_store_stats =
  ls_events :: int
  ls_bytes :: int
  ls_checkpoints :: int
  ls_full :: bool

record log_record =
  lr_sequence :: u64
  lr_log_id :: bytes
  lr_record_key :: go_bytes
  lr_payload :: go_bytes
  lr_content_hash :: bytes
  lr_created_at :: int

record log_checkpoint =
  lc_log_id :: bytes
  lc_list_marker :: bytes
  lc_pending_hash :: bytes
  lc_delivered_hash :: bytes
  lc_last_fetched_at :: int
  lc_last_seen_at :: int
  lc_absent_since :: int

definition zero_log_checkpoint :: log_checkpoint where
  "zero_log_checkpoint =
     \<lparr>lc_log_id = [], lc_list_marker = [], lc_pending_hash = [], lc_delivered_hash = [],
      lc_last_fetched_at = 0, lc_last_seen_at = 0, lc_absent_since = 0\<rparr>"

definition zero_log_record :: log_record where
  "zero_log_record =
     \<lparr>lr_sequence = 0, lr_log_id = [], lr_record_key = None, lr_payload = None, lr_content_hash = [],
      lr_created_at = 0\<rparr>"

definition log_record_json :: "log_record \<Rightarrow> json" where
  "log_record_json r =
     JObj [(''sequence'', juint (lr_sequence r)), (''log_id'', JStr (lr_log_id r)),
       (''record_key'', jbytes (lr_record_key r)), (''payload'', jbytes (lr_payload r)),
       (''content_hash'', JStr (lr_content_hash r)), (''created_at_unix_nano'', jint (lr_created_at r))]"

definition log_checkpoint_json :: "log_checkpoint \<Rightarrow> json" where
  "log_checkpoint_json c =
     JObj ([(''log_id'', JStr (lc_log_id c))] @
       str_member ''list_marker'' (lc_list_marker c) @
       str_member ''pending_hash'' (lc_pending_hash c) @
       str_member ''delivered_hash'' (lc_delivered_hash c) @
       int_member ''last_fetched_at_unix_nano'' jint (lc_last_fetched_at c) @
       int_member ''last_seen_at_unix_nano'' jint (lc_last_seen_at c) @
       int_member ''absent_since_unix_nano'' jint (lc_absent_since c))"

definition marshal_log_record :: "log_record \<Rightarrow> bytes" where
  "marshal_log_record r = json_print (log_record_json r)"

definition marshal_log_checkpoint :: "log_checkpoint \<Rightarrow> bytes" where
  "marshal_log_checkpoint c = json_print (log_checkpoint_json c)"

definition un_log_record :: "json \<Rightarrow> log_record option" where
  "un_log_record j =
     (case j of
        JNull \<Rightarrow> Some zero_log_record
      | JObj ms \<Rightarrow>
          do { sq \<leftarrow> un_field ''sequence'' un_uint64 ms 0;
               ai \<leftarrow> un_field ''log_id'' un_string ms [];
               rk \<leftarrow> un_field ''record_key'' un_bytes ms None;
               pl \<leftarrow> un_field ''payload'' un_bytes ms None;
               ch \<leftarrow> un_field ''content_hash'' un_string ms [];
               ca \<leftarrow> un_field ''created_at_unix_nano'' un_int64 ms 0;
               Some \<lparr>lr_sequence = sq, lr_log_id = ai, lr_record_key = rk, lr_payload = pl,
                     lr_content_hash = ch, lr_created_at = ca\<rparr> }
      | _ \<Rightarrow> None)"

definition un_log_checkpoint :: "json \<Rightarrow> log_checkpoint option" where
  "un_log_checkpoint j =
     (case j of
        JNull \<Rightarrow> Some zero_log_checkpoint
      | JObj ms \<Rightarrow>
          do { ai \<leftarrow> un_field ''log_id'' un_string ms [];
               lm \<leftarrow> un_field ''list_marker'' un_string ms [];
               ph \<leftarrow> un_field ''pending_hash'' un_string ms [];
               dh \<leftarrow> un_field ''delivered_hash'' un_string ms [];
               lf \<leftarrow> un_field ''last_fetched_at_unix_nano'' un_int64 ms 0;
               ls \<leftarrow> un_field ''last_seen_at_unix_nano'' un_int64 ms 0;
               ab \<leftarrow> un_field ''absent_since_unix_nano'' un_int64 ms 0;
               Some \<lparr>lc_log_id = ai, lc_list_marker = lm, lc_pending_hash = ph, lc_delivered_hash = dh,
                     lc_last_fetched_at = lf, lc_last_seen_at = ls, lc_absent_since = ab\<rparr> }
      | _ \<Rightarrow> None)"

definition unmarshal_log_record :: "bytes \<Rightarrow> log_record option" where
  "unmarshal_log_record s = Option.bind (json_parse s) un_log_record"

definition unmarshal_log_checkpoint :: "bytes \<Rightarrow> log_checkpoint option" where
  "unmarshal_log_checkpoint s = Option.bind (json_parse s) un_log_checkpoint"

definition read_log_checkpoint :: "bytes option \<Rightarrow> go_error + log_checkpoint" where
  "read_log_checkpoint v =
     (case v of
        None \<Rightarrow> Inr zero_log_checkpoint
      | Some s \<Rightarrow>
          (case unmarshal_log_checkpoint s of
             None \<Rightarrow> Inl (Wrapped ''decode checkpoint'' json_error)
           | Some c \<Rightarrow> Inr c))"

definition put_log_checkpoint :: "'d bolt \<Rightarrow> log_checkpoint \<Rightarrow> 'd \<Rightarrow> go_error + 'd" where
  "put_log_checkpoint B c d = putE B bucket_checkpoints (lc_log_id c) (marshal_log_checkpoint c) d"


text \<open>Both times parse, and the incoming one is before the previous one.\<close>

definition older_marker :: "bytes \<Rightarrow> bytes \<Rightarrow> bool" where
  "older_marker incoming previous =
     (case (parse_rfc3339 previous, parse_rfc3339 incoming) of
        (Some old, Some new) \<Rightarrow> new < old
      | _ \<Rightarrow> False)"

section \<open>Operations\<close>

definition log_identity :: "'d bolt \<Rightarrow> store_options \<Rightarrow> bytes \<Rightarrow> log_checkpoint \<Rightarrow> 'd \<Rightarrow> go_error + log_checkpoint" where
  "log_identity B opts i c d =
     (if lc_log_id c = [] then
        (if int (key_n B d bucket_checkpoints) \<ge> opt_max_checkpoints opts then Inl log_full_error
         else Inr (c\<lparr>lc_log_id := i\<rparr>))
      else Inr c)"

definition log_enqueue_tx ::
  "'d bolt \<Rightarrow> store_options \<Rightarrow> encoded_log \<Rightarrow> bytes \<Rightarrow> go_time \<Rightarrow> 'd \<Rightarrow> go_error + 'd \<times> bool" where
  "log_enqueue_tx B opts el marker observed d =
     (let i = lev_log_id (el_event el) in
      bindE (read_log_checkpoint (bget B d bucket_checkpoints i)) (\<lambda>c0.
      bindE (log_identity B opts i c0 d) (\<lambda>c1.
      if older_marker marker (lc_list_marker c1) then Inr (d, False)
      else
        let now = unix_nano observed;
            c = c1\<lparr>lc_last_seen_at := now, lc_last_fetched_at := now, lc_list_marker := marker,
                   lc_absent_since := 0\<rparr>
        in if lc_pending_hash c = el_content_hash el \<or>
              (lc_pending_hash c = [] \<and> lc_delivered_hash c = el_content_hash el)
           then bindE (put_log_checkpoint B c d) (\<lambda>d1. Inr (d1, False))
           else
             let count = sint (read_u64 (bget B d bucket_meta key_event_count));
                 used = sint (read_u64 (bget B d bucket_meta key_event_bytes))
             in bindE (next_seqE B bucket_outbox d) (\<lambda>(d1, sequence).
                let encoded = marshal_log_record
                      \<lparr>lr_sequence = sequence, lr_log_id = i, lr_record_key = append_nil (el_record_key el),
                       lr_payload = append_nil (el_payload el), lr_content_hash = el_content_hash el,
                       lr_created_at = now\<rparr>;
                    encoded_size = int (length encoded)
                in bindE (guardE (\<not> (count \<ge> opt_max_events opts \<or>
                                      encoded_size > wrap64 (opt_max_bytes opts - used))) log_full_error) (\<lambda>_.
                   bindE (putE B bucket_outbox (be64 sequence) encoded d1) (\<lambda>d2.
                   bindE (put_log_checkpoint B (c\<lparr>lc_pending_hash := el_content_hash el\<rparr>) d2) (\<lambda>d3.
                   bindE (putE B bucket_meta key_event_count (be64 (of_int (count + 1))) d3) (\<lambda>d4.
                   bindE (putE B bucket_meta key_event_bytes (be64 (of_int (used + encoded_size))) d4) (\<lambda>d5.
                   Inr (d5, True))))))))))"

definition log_enqueue ::
  "'d bolt \<Rightarrow> store_options \<Rightarrow> encoded_log \<Rightarrow> bytes \<Rightarrow> go_time \<Rightarrow> 'd \<Rightarrow> 'd \<times> bool \<times> go_error option" where
  "log_enqueue B opts el marker observed d = update_tx B False (log_enqueue_tx B opts el marker observed) d"

definition log_mark_seen_tx ::
  "'d bolt \<Rightarrow> store_options \<Rightarrow> bytes \<Rightarrow> bytes \<Rightarrow> go_time \<Rightarrow> 'd \<Rightarrow> go_error + 'd \<times> unit" where
  "log_mark_seen_tx B opts i marker observed d =
     bindE (read_log_checkpoint (bget B d bucket_checkpoints i)) (\<lambda>c0.
     bindE (log_identity B opts i c0 d) (\<lambda>c1.
     let c = (if \<not> older_marker marker (lc_list_marker c1) then c1\<lparr>lc_list_marker := marker\<rparr> else c1)
     in bindE (put_log_checkpoint B (c\<lparr>lc_last_seen_at := unix_nano observed, lc_absent_since := 0\<rparr>) d)
          (\<lambda>d1. Inr (d1, ()))))"

definition log_mark_seen ::
  "'d bolt \<Rightarrow> store_options \<Rightarrow> bytes \<Rightarrow> bytes \<Rightarrow> go_time \<Rightarrow> 'd \<Rightarrow> 'd \<times> go_error option" where
  "log_mark_seen B opts i marker observed d =
     (case update_tx B () (log_mark_seen_tx B opts i marker observed) d of (d', _, err) \<Rightarrow> (d', err))"

definition get_log_checkpoint :: "'d bolt \<Rightarrow> bytes \<Rightarrow> 'd \<Rightarrow> log_checkpoint \<times> bool \<times> go_error option" where
  "get_log_checkpoint B i d =
     (case read_log_checkpoint (bget B d bucket_checkpoints i) of
        Inl e \<Rightarrow> (zero_log_checkpoint, False, Some e)
      | Inr c \<Rightarrow> (c, lc_log_id c \<noteq> [], None))"

definition log_fetch_state :: "'d bolt \<Rightarrow> bytes \<Rightarrow> 'd \<Rightarrow> bool \<times> bytes \<times> go_time \<times> go_error option" where
  "log_fetch_state B i d =
     (case get_log_checkpoint B i d of
        (c, exists, err) \<Rightarrow>
          if err \<noteq> None \<or> \<not> exists then (exists, [], zero_time, err)
          else if lc_last_fetched_at c = 0 then (True, lc_list_marker c, zero_time, None)
          else (True, lc_list_marker c, time_unix0 (lc_last_fetched_at c), None))"

fun read_log_records :: "nat \<Rightarrow> (bytes \<times> bytes) list \<Rightarrow> log_record list \<times> go_error option" where
  "read_log_records 0 es = ([], None)"
| "read_log_records (Suc n) [] = ([], None)"
| "read_log_records (Suc n) ((k, v) # es) =
     (case unmarshal_log_record v of
        None \<Rightarrow> ([], Some (log_corruption ''invalid outbox record''))
      | Some r \<Rightarrow> (case read_log_records n es of (rs, err) \<Rightarrow> (r # rs, err)))"

definition log_records :: "'d bolt \<Rightarrow> int \<Rightarrow> 'd \<Rightarrow> log_record list \<times> go_error option" where
  "log_records B limit d =
     (if limit < 1 then ([], Some (Plain ''record limit must be positive''))
      else read_log_records (nat limit) (bentries B d bucket_outbox))"

definition log_stats :: "'d bolt \<Rightarrow> store_options \<Rightarrow> 'd \<Rightarrow> log_store_stats \<times> go_error option" where
  "log_stats B opts d =
     (if \<not> has_bucket B d bucket_meta \<or> \<not> has_bucket B d bucket_checkpoints
      then (\<lparr>ls_events = 0, ls_bytes = 0, ls_checkpoints = 0, ls_full = False\<rparr>,
            Some (log_corruption ''required bucket is missing''))
      else
        let events = sint (read_u64 (bget B d bucket_meta key_event_count));
            used = sint (read_u64 (bget B d bucket_meta key_event_bytes));
            cps = int (key_n B d bucket_checkpoints)
        in (\<lparr>ls_events = events, ls_bytes = used, ls_checkpoints = cps,
             ls_full = (events \<ge> opt_max_events opts \<or> used \<ge> opt_max_bytes opts \<or>
                        cps \<ge> opt_max_checkpoints opts)\<rparr>, None))"

definition log_health :: "'d bolt \<Rightarrow> store_options \<Rightarrow> 'd \<Rightarrow> int \<times> bool \<times> go_error option" where
  "log_health B opts d = (case log_stats B opts d of (s, err) \<Rightarrow> (ls_events s, ls_full s, err))"

definition valid_log_record :: "log_record \<Rightarrow> bool" where
  "valid_log_record r \<longleftrightarrow>
     \<not> (lr_sequence r = 0 \<or> lr_created_at r \<le> 0 \<or> validate_log_id (lr_log_id r) \<noteq> Inr () \<or>
        \<not> valid_hash (lr_content_hash r)) \<and>
     (let key = slice_bytes (lr_record_key r) in
      \<not> (length key \<noteq> 64 \<or> \<not> valid_hash key) \<and>
      (case decode_stored_log (slice_bytes (lr_payload r)) of
         Inl _ \<Rightarrow> False
       | Inr e \<Rightarrow>
           lev_log_id e = lr_log_id r \<and> lev_content_hash e = lr_content_hash r \<and>
           sha256_hex (marshal_log (lev_log e)) = lr_content_hash r \<and>
           key = sha256_hex (lev_source_instance e @ [chr 0] @ record_kind @ [chr 0] @ lev_log_id e)))"

fun newest_pending_log :: "bytes \<Rightarrow> (bytes \<times> bytes) list \<Rightarrow> bytes \<times> u64 \<Rightarrow> go_error + bytes \<times> u64" where
  "newest_pending_log i [] acc = Inr acc"
| "newest_pending_log i ((k, v) # es) acc =
     (case unmarshal_log_record v of
        None \<Rightarrow> Inl (log_corruption ''invalid outbox record'')
      | Some r \<Rightarrow>
          newest_pending_log i es
            (if lr_log_id r = i then (lr_content_hash r, lr_sequence r) else acc))"

definition log_acknowledge_tx :: "'d bolt \<Rightarrow> u64 \<Rightarrow> 'd \<Rightarrow> go_error + 'd \<times> unit" where
  "log_acknowledge_tx B sequence d =
     (case bget B d bucket_outbox (be64 sequence) of
        None \<Rightarrow> Inr (d, ())
      | Some value \<Rightarrow>
          (case unmarshal_log_record value of
             None \<Rightarrow> Inl (log_corruption ''invalid outbox record'')
           | Some r \<Rightarrow>
               bindE (guardE (marshal_log_record r = value \<and> lr_sequence r = sequence \<and> valid_log_record r)
                        (log_corruption ''invalid outbox record'')) (\<lambda>_.
               bindE (read_log_checkpoint (bget B d bucket_checkpoints (lr_log_id r))) (\<lambda>c.
               bindE (guardE (\<not> (lc_log_id c = [] \<or> lc_log_id c \<noteq> lr_log_id r))
                        (log_corruption ''outbox record has no matching checkpoint'')) (\<lambda>_.
               bindE (newest_pending_log (lr_log_id r) (bentries B d bucket_outbox) ([], 0)) (\<lambda>(newest, newest_seq).
               bindE (guardE (lc_pending_hash c = newest)
                        (log_corruption ''checkpoint pending hash mismatch'')) (\<lambda>_.
                 let c1 = c\<lparr>lc_delivered_hash := lr_content_hash r\<rparr>;
                     c2 = (if newest_seq = lr_sequence r then c1\<lparr>lc_pending_hash := []\<rparr> else c1)
                 in bindE (put_log_checkpoint B c2 d) (\<lambda>d1.
                    let count = read_u64 (bget B d1 bucket_meta key_event_count);
                        used = read_u64 (bget B d1 bucket_meta key_event_bytes);
                        encoded_size = of_nat (length value) :: u64
                    in bindE (deleteE B bucket_outbox (be64 sequence) d1) (\<lambda>d2.
                       bindE (guardE (\<not> encoded_size > used) (log_corruption ''derived byte count underflow'')) (\<lambda>_.
                       bindE (putE B bucket_meta key_event_count
                                (be64 (if count > 0 then count - 1 else count)) d2) (\<lambda>d3.
                       bindE (putE B bucket_meta key_event_bytes (be64 (used - encoded_size)) d3) (\<lambda>d4.
                       Inr (d4, ())))))))))))))"

definition log_acknowledge :: "'d bolt \<Rightarrow> u64 \<Rightarrow> 'd \<Rightarrow> 'd \<times> go_error option" where
  "log_acknowledge B sequence d =
     (case update_tx B () (log_acknowledge_tx B sequence) d of (d', _, err) \<Rightarrow> (d', err))"

fun log_reconcile_loop ::
  "'d bolt \<Rightarrow> store_options \<Rightarrow> bytes set \<Rightarrow> go_time \<Rightarrow> (bytes \<times> bytes) list \<Rightarrow> 'd \<Rightarrow> bytes list
   \<Rightarrow> go_error + 'd \<times> bytes list" where
  "log_reconcile_loop B opts listed now [] d del = Inr (d, del)"
| "log_reconcile_loop B opts listed now ((k, v) # es) d del =
     bindE (read_log_checkpoint (Some v)) (\<lambda>c.
       if lc_log_id c \<in> listed then log_reconcile_loop B opts listed now es d del
       else
         bindE (if lc_absent_since c = 0 then
                  (let c1 = c\<lparr>lc_absent_since := unix_nano now\<rparr>
                   in bindE (put_log_checkpoint B c1 d) (\<lambda>d1. Inr (c1, d1)))
                else Inr (c, d)) (\<lambda>(c1, d1).
           log_reconcile_loop B opts listed now es d1
             (if time_sub now (time_unix0 (lc_absent_since c1)) \<ge> opt_retention opts \<and> lc_pending_hash c1 = []
              then del @ [k] else del)))"

text \<open>The fullness is read from the page statistics after the deletions of the same transaction.\<close>

definition log_reconcile_tx ::
  "'d bolt \<Rightarrow> store_options \<Rightarrow> bytes set \<Rightarrow> go_time \<Rightarrow> 'd \<Rightarrow> go_error + 'd \<times> bool" where
  "log_reconcile_tx B opts listed now d =
     bindE (log_reconcile_loop B opts listed now (bentries B d bucket_checkpoints) d []) (\<lambda>(d1, del).
     bindE (delete_keys B bucket_checkpoints del d1) (\<lambda>d2.
     Inr (d2, int (key_n B d2 bucket_checkpoints) \<ge> opt_max_checkpoints opts)))"

definition log_reconcile_listed ::
  "'d bolt \<Rightarrow> store_options \<Rightarrow> bytes set \<Rightarrow> go_time \<Rightarrow> bool \<Rightarrow> 'd \<Rightarrow> 'd \<times> go_error option" where
  "log_reconcile_listed B opts listed now complete d =
     (if \<not> complete then (d, None)
      else case update_tx B False (log_reconcile_tx B opts listed now) d of
             (d', full, Some e) \<Rightarrow> (d', Some e)
           | (d', full, None) \<Rightarrow> (d', if full then Some log_full_error else None))"

section \<open>Opening\<close>

fun validate_log_records ::
  "(bytes \<times> bytes) list \<Rightarrow> u64 \<Rightarrow> u64 \<Rightarrow> (bytes \<rightharpoonup> bytes) \<Rightarrow> bytes set
   \<Rightarrow> go_error + u64 \<times> u64 \<times> (bytes \<rightharpoonup> bytes) \<times> bytes set" where
  "validate_log_records [] count used newest by_log = Inr (count, used, newest, by_log)"
| "validate_log_records ((k, v) # es) count used newest by_log =
     (if length k \<noteq> 8 then Inl (log_corruption ''invalid outbox key'')
      else if of_be64 k = 0 then Inl (log_corruption ''invalid outbox sequence'')
      else case unmarshal_log_record v of
        None \<Rightarrow> Inl (log_corruption ''invalid outbox record'')
      | Some r \<Rightarrow>
          if marshal_log_record r \<noteq> v \<or> lr_sequence r \<noteq> of_be64 k \<or> \<not> valid_log_record r
          then Inl (log_corruption ''outbox record invariant failed'')
          else if of_nat (length v) > (- 1 :: u64) - used
          then Inl (log_corruption ''outbox byte count overflow'')
          else validate_log_records es (count + 1) (used + of_nat (length v))
                 (newest(lr_log_id r \<mapsto> lr_content_hash r)) (insert (lr_log_id r) by_log))"

fun validate_log_checkpoints ::
  "(bytes \<times> bytes) list \<Rightarrow> (bytes \<rightharpoonup> bytes) \<Rightarrow> bytes set \<Rightarrow> go_error + unit" where
  "validate_log_checkpoints [] newest by_log =
     (if by_log \<noteq> {} then Inl (log_corruption ''outbox record has no checkpoint'') else Inr ())"
| "validate_log_checkpoints ((k, v) # es) newest by_log =
     (case read_log_checkpoint (Some v) of
        Inl _ \<Rightarrow> Inl (log_corruption ''invalid checkpoint'')
      | Inr c \<Rightarrow>
          if lc_log_id c = [] \<or> k \<noteq> lc_log_id c \<or> validate_log_id (lc_log_id c) \<noteq> Inr ()
          then Inl (log_corruption ''checkpoint identity mismatch'')
          else if marshal_log_checkpoint c \<noteq> v then Inl (log_corruption ''non-canonical checkpoint'')
          else if list_ex (\<lambda>h. h \<noteq> [] \<and> \<not> valid_hash h) [lc_pending_hash c, lc_delivered_hash c]
          then Inl (log_corruption ''invalid checkpoint hash'')
          else if list_ex (\<lambda>t. t < 0) [lc_last_fetched_at c, lc_last_seen_at c, lc_absent_since c]
          then Inl (log_corruption ''invalid checkpoint timestamp'')
          else if lc_pending_hash c \<noteq> map_lookup newest (lc_log_id c)
          then Inl (log_corruption ''checkpoint pending hash mismatch'')
          else validate_log_checkpoints es newest (by_log - {lc_log_id c}))"

definition log_migrate_checked :: "'d bolt \<Rightarrow> 'd \<Rightarrow> go_error + 'd" where
  "log_migrate_checked B d =
     bindE (validate_log_records (bentries B d bucket_outbox) 0 0 Map.empty {}) (\<lambda>(count, used, newest, by_log).
     bindE (validate_log_checkpoints (bentries B d bucket_checkpoints) newest by_log) (\<lambda>_.
     bindE (putE B bucket_meta key_event_count (be64 count) d) (\<lambda>d1.
     bindE (putE B bucket_meta key_event_bytes (be64 used) d1) (\<lambda>d2.
     putE B bucket_meta key_schema_version current_schema d2))))"

definition log_validate_and_migrate :: "'d bolt \<Rightarrow> 'd \<Rightarrow> go_error + 'd" where
  "log_validate_and_migrate B d =
     (if \<not> (has_bucket B d bucket_meta \<and> has_bucket B d bucket_outbox \<and> has_bucket B d bucket_checkpoints)
      then Inl (log_corruption ''required bucket is missing'')
      else case bget B d bucket_meta key_schema_version of
        Some v \<Rightarrow> if v \<noteq> current_schema then Inl (log_corruption ''unsupported schema version'')
                  else log_migrate_checked B d
      | None \<Rightarrow> log_migrate_checked B d)"

definition log_open_tx :: "'d bolt \<Rightarrow> 'd \<Rightarrow> go_error + 'd \<times> unit" where
  "log_open_tx B d =
     (let present = length (filter (has_bucket B d) required_buckets) in
      bindE (guardE (\<not> (present \<noteq> 0 \<and> present \<noteq> 3)) (log_corruption ''required bucket is missing'')) (\<lambda>_.
      bindE (if present = 0 then create_buckets B required_buckets d else Inr d) (\<lambda>d1.
      bindE (log_validate_and_migrate B d1) (\<lambda>d2. Inr (d2, ())))))"

definition log_open_store :: "'d bolt \<Rightarrow> store_options \<Rightarrow> 'd \<Rightarrow> 'd \<times> go_error option" where
  "log_open_store B opts d =
     (if \<not> options_ok opts then (d, Some (Plain ''invalid serviceability log state options''))
      else case update_tx B () (log_open_tx B) d of
             (d', _, None) \<Rightarrow> (d', None)
           | (d', _, Some e) \<Rightarrow>
               (d', Some (if errors_as_class e \<noteq> None then e
                          else Plain ''cannot initialize serviceability log state'')))"

end
