(* ===== verification/Log_Spec.thy ===== *)
theory Log_Spec
  imports Log_Store Outbox_Props
begin

text \<open>
  What the serviceability log state promises, over an abstract state: the queued records in order, the
  checkpoints as a map, and the last sequence number. The operations \<open>log_spec_*\<close> are written on that
  state; \<open>log_represents\<close> relates it to a database, and \<open>log_abs_wf\<close> is its invariant, kept by every
  operation. The view of a transaction and the bounds are the ones of the alert outbox.
\<close>

section \<open>Abstract state\<close>

record log_abs =
  la_queue :: "log_record list"
  la_cps :: "bytes \<rightharpoonup> log_checkpoint"
  la_seq :: u64

definition log_record_size :: "log_record \<Rightarrow> nat" where
  "log_record_size r = length (marshal_log_record r)"

definition log_total_bytes :: "log_record list \<Rightarrow> nat" where
  "log_total_bytes q = sum_list (map log_record_size q)"

text \<open>The newest record of a log, and the hash its checkpoint must show as pending.\<close>

definition log_newest_of :: "bytes \<Rightarrow> log_record list \<Rightarrow> log_record option" where
  "log_newest_of i q =
     (let rs = filter (\<lambda>r. lr_log_id r = i) q in if rs = [] then None else Some (last rs))"

definition log_newest_hash :: "bytes \<Rightarrow> log_record list \<Rightarrow> bytes" where
  "log_newest_hash i q = (case log_newest_of i q of None \<Rightarrow> [] | Some r \<Rightarrow> lr_content_hash r)"

text \<open>A checkpoint the store may hold for the log i.\<close>

definition log_cp_wf :: "bytes \<Rightarrow> log_checkpoint \<Rightarrow> bool" where
  "log_cp_wf i c \<longleftrightarrow>
     lc_log_id c = i \<and> validate_log_id i = Inr () \<and> marker_ok (lc_list_marker c) \<and>
     hash_ok (lc_pending_hash c) \<and> hash_ok (lc_delivered_hash c) \<and>
     stamp_ok (lc_last_fetched_at c) \<and> stamp_ok (lc_last_seen_at c) \<and> stamp_ok (lc_absent_since c)"

definition log_rec_wf :: "log_record \<Rightarrow> bool" where
  "log_rec_wf r \<longleftrightarrow> valid_log_record r \<and> is_int64 (lr_created_at r)"

definition log_abs_wf :: "log_abs \<Rightarrow> bool" where
  "log_abs_wf a \<longleftrightarrow>
     (\<forall>r \<in> set (la_queue a). log_rec_wf r \<and> lr_sequence r \<le> la_seq a \<and> la_cps a (lr_log_id r) \<noteq> None) \<and>
     sorted_wrt (\<lambda>r s. lr_sequence r < lr_sequence s) (la_queue a) \<and>
     (\<forall>i c. la_cps a i = Some c \<longrightarrow> log_cp_wf i c \<and> lc_pending_hash c = log_newest_hash i (la_queue a)) \<and>
     finite (dom (la_cps a)) \<and>
     length (la_queue a) \<le> size_limit \<and> log_total_bytes (la_queue a) \<le> size_limit"

definition empty_log_abs :: log_abs where
  "empty_log_abs = \<lparr>la_queue = [], la_cps = Map.empty, la_seq = 0\<rparr>"

section \<open>Abstract operations\<close>

definition log_cp_of :: "log_abs \<Rightarrow> bytes \<Rightarrow> log_checkpoint" where
  "log_cp_of a i = (case la_cps a i of None \<Rightarrow> zero_log_checkpoint\<lparr>lc_log_id := i\<rparr> | Some c \<Rightarrow> c)"

definition log_room_for :: "store_options \<Rightarrow> bytes \<Rightarrow> log_abs \<Rightarrow> bool" where
  "log_room_for opts i a \<longleftrightarrow> la_cps a i \<noteq> None \<or> int (card (dom (la_cps a))) < opt_max_checkpoints opts"

definition log_seen_cp :: "bytes \<Rightarrow> go_time \<Rightarrow> log_checkpoint \<Rightarrow> log_checkpoint" where
  "log_seen_cp marker now c = c\<lparr>lc_list_marker := marker, lc_last_seen_at := now, lc_absent_since := 0\<rparr>"

definition log_new_record :: "encoded_log \<Rightarrow> go_time \<Rightarrow> u64 \<Rightarrow> log_record" where
  "log_new_record ee now sequence =
     \<lparr>lr_sequence = sequence, lr_log_id = lev_log_id (el_event ee), lr_record_key = append_nil (el_record_key ee),
      lr_payload = append_nil (el_payload ee), lr_content_hash = el_content_hash ee, lr_created_at = now\<rparr>"

text \<open>The content is already queued, or was delivered and nothing is queued.\<close>

definition log_known_content :: "log_checkpoint \<Rightarrow> bytes \<Rightarrow> bool" where
  "log_known_content c h \<longleftrightarrow> lc_pending_hash c = h \<or> (lc_pending_hash c = [] \<and> lc_delivered_hash c = h)"

definition log_spec_enqueue ::
  "store_options \<Rightarrow> encoded_log \<Rightarrow> bytes \<Rightarrow> go_time \<Rightarrow> log_abs \<Rightarrow> go_error + log_abs \<times> bool" where
  "log_spec_enqueue opts ee marker now a =
     (let i = lev_log_id (el_event ee);
          c = (log_seen_cp marker now (log_cp_of a i))\<lparr>lc_last_fetched_at := now\<rparr>;
          r = log_new_record ee now (la_seq a + 1)
      in if \<not> log_room_for opts i a then Inl log_full_error
         else if older_marker marker (lc_list_marker (log_cp_of a i)) then Inr (a, False)
         else if log_known_content c (el_content_hash ee)
         then Inr (a\<lparr>la_cps := (la_cps a)(i \<mapsto> c)\<rparr>, False)
         else if int (length (la_queue a)) \<ge> opt_max_events opts \<or>
                 int (log_total_bytes (la_queue a) + log_record_size r) > opt_max_bytes opts
         then Inl log_full_error
         else Inr (a\<lparr>la_queue := la_queue a @ [r],
                     la_cps := (la_cps a)(i \<mapsto> c\<lparr>lc_pending_hash := el_content_hash ee\<rparr>),
                     la_seq := la_seq a + 1\<rparr>, True))"

text \<open>The marker of a checkpoint never goes back.\<close>

definition log_marked_cp :: "bytes \<Rightarrow> go_time \<Rightarrow> log_checkpoint \<Rightarrow> log_checkpoint" where
  "log_marked_cp marker now c =
     log_seen_cp (if older_marker marker (lc_list_marker c) then lc_list_marker c else marker) now c"

definition log_spec_mark_seen ::
  "store_options \<Rightarrow> bytes \<Rightarrow> bytes \<Rightarrow> go_time \<Rightarrow> log_abs \<Rightarrow> go_error + log_abs" where
  "log_spec_mark_seen opts i marker now a =
     (if \<not> log_room_for opts i a then Inl log_full_error
      else Inr (a\<lparr>la_cps := (la_cps a)(i \<mapsto> log_marked_cp marker now (log_cp_of a i))\<rparr>))"

definition log_acked_cp :: "log_record \<Rightarrow> log_record list \<Rightarrow> log_checkpoint \<Rightarrow> log_checkpoint" where
  "log_acked_cp r q c =
     (let c1 = c\<lparr>lc_delivered_hash := lr_content_hash r\<rparr>
      in if log_newest_of (lr_log_id r) q = Some r then c1\<lparr>lc_pending_hash := []\<rparr> else c1)"

definition log_remove_seq :: "u64 \<Rightarrow> log_record list \<Rightarrow> log_record list" where
  "log_remove_seq s q = filter (\<lambda>r. lr_sequence r \<noteq> s) q"

definition log_spec_acknowledge :: "u64 \<Rightarrow> log_abs \<Rightarrow> log_abs" where
  "log_spec_acknowledge s a =
     (case find (\<lambda>r. lr_sequence r = s) (la_queue a) of
        None \<Rightarrow> a
      | Some r \<Rightarrow>
          (let i = lr_log_id r in
           a\<lparr>la_queue := log_remove_seq s (la_queue a),
             la_cps := (la_cps a)(i \<mapsto> log_acked_cp r (la_queue a) (log_cp_of a i))\<rparr>))"

definition log_absent_cp :: "go_time \<Rightarrow> log_checkpoint \<Rightarrow> log_checkpoint" where
  "log_absent_cp now c = (if lc_absent_since c = 0 then c\<lparr>lc_absent_since := now\<rparr> else c)"

definition log_expired :: "store_options \<Rightarrow> go_time \<Rightarrow> log_checkpoint \<Rightarrow> bool" where
  "log_expired opts now c \<longleftrightarrow>
     time_sub now (time_unix0 (lc_absent_since c)) \<ge> opt_retention opts \<and> lc_pending_hash c = []"

definition log_spec_reconcile :: "store_options \<Rightarrow> bytes set \<Rightarrow> go_time \<Rightarrow> log_abs \<Rightarrow> log_abs" where
  "log_spec_reconcile opts listed now a =
     a\<lparr>la_cps := (\<lambda>i. case la_cps a i of
          None \<Rightarrow> None
        | Some c \<Rightarrow> if i \<in> listed then Some c
                    else let c1 = log_absent_cp now c in if log_expired opts now c1 then None else Some c1)\<rparr>"

section \<open>Representation\<close>

definition log_out_entry :: "log_record \<Rightarrow> bytes \<times> bytes" where
  "log_out_entry r = (be64 (lr_sequence r), marshal_log_record r)"

definition log_meta_map :: "log_record list \<Rightarrow> (bytes \<rightharpoonup> bytes) \<Rightarrow> bool" where
  "log_meta_map q mm \<longleftrightarrow>
     mm key_schema_version = Some current_schema \<and>
     mm key_event_count = Some (be64 (of_nat (length q))) \<and>
     mm key_event_bytes = Some (be64 (of_nat (log_total_bytes q)))"

definition log_content :: "'d bolt \<Rightarrow> 'd \<Rightarrow> log_abs \<Rightarrow> bool" where
  "log_content B d a \<longleftrightarrow>
     (\<exists>mm. tx_view B d (map log_out_entry (la_queue a)) (\<lambda>i. map_option marshal_log_checkpoint (la_cps a i)) mm
             (la_seq a) \<and> log_meta_map (la_queue a) mm)"

definition log_represents :: "'d bolt \<Rightarrow> 'd \<Rightarrow> log_abs \<Rightarrow> bool" where
  "log_represents B d a \<longleftrightarrow> settled B d \<and> log_abs_wf a \<and> log_content B d a"


section \<open>Encodings\<close>

lemma un_log_checkpoint_json:
  assumes "is_int64 (lc_last_fetched_at c)" "is_int64 (lc_last_seen_at c)" "is_int64 (lc_absent_since c)"
  shows "un_log_checkpoint (log_checkpoint_json c) = Some c"
  using assms
  by (simp add: un_log_checkpoint_def log_checkpoint_json_def un_field_append un_field_Cons_skip un_field_skip
      un_field_hit un_field_str un_field_int un_field_Nil del: un_field.simps(2))

lemma log_cp_wf_unmarshal:
  assumes "log_cp_wf i c"
  shows "unmarshal_log_checkpoint (marshal_log_checkpoint c) = Some c"
proof -
  have c: "utf8_valid (lc_log_id c)" "utf8_valid (lc_list_marker c)" "utf8_valid (lc_pending_hash c)"
    "utf8_valid (lc_delivered_hash c)" "is_int64 (lc_last_fetched_at c)" "is_int64 (lc_last_seen_at c)"
    "is_int64 (lc_absent_since c)"
    using assms hash_facts(1) by (auto simp: log_cp_wf_def marker_ok_def stamp_int64 validate_log_id_Inr)
  have "json_ok (log_checkpoint_json c)" using c by (simp add: log_checkpoint_json_def)
  moreover have "json_depth (log_checkpoint_json c) \<le> Suc 0"
    by (simp add: log_checkpoint_json_def json_depth_le ball_Un del: json_depth.simps(2))
  then have "json_depth (log_checkpoint_json c) \<le> max_nesting" by (simp add: max_nesting_def)
  ultimately show ?thesis
    using c by (simp add: unmarshal_log_checkpoint_def marshal_log_checkpoint_def json_parse_print
        un_log_checkpoint_json)
qed

lemma log_cp_kv_valid:
  assumes "log_cp_wf i c"
  shows "kv_valid i (marshal_log_checkpoint c)"
proof -
  have c: "lc_log_id c = i" "1 \<le> length i" "length i \<le> 256" "length (lc_list_marker c) \<le> 67108864"
    "length (lc_pending_hash c) \<le> 64" "length (lc_delivered_hash c) \<le> 64"
    "is_int64 (lc_last_fetched_at c)" "is_int64 (lc_last_seen_at c)" "is_int64 (lc_absent_since c)"
    using assms hash_facts by (auto simp: log_cp_wf_def marker_ok_def stamp_int64 validate_log_id_Inr)
  note lens = length_print_str [of i]
    members_length_str [of "''list_marker''" "lc_list_marker c"]
    members_length_str [of "''pending_hash''" "lc_pending_hash c"]
    members_length_str [of "''delivered_hash''" "lc_delivered_hash c"]
    members_length_int [OF _ c(7), of "''last_fetched_at_unix_nano''"]
    members_length_int [OF _ c(8), of "''last_seen_at_unix_nano''"]
    members_length_int [OF _ c(9), of "''absent_since_unix_nano''"]
  have "length (marshal_log_checkpoint c) \<le> 500000000"
    unfolding marshal_log_checkpoint_def log_checkpoint_json_def
    by (rule order_trans [OF length_print_obj]) (use lens c in simp)
  moreover have "i \<noteq> []" using c(2) by auto
  ultimately show ?thesis using c(3) by (simp add: kv_valid_def)
qed

lemma valid_log_record_facts:
  assumes "valid_log_record r"
  shows "length (slice_bytes (lr_payload r)) \<le> max_event_bytes" "length (slice_bytes (lr_record_key r)) = 64"
    "length (lr_content_hash r) = 64" "length (lr_log_id r) \<le> 256" "lr_sequence r \<noteq> 0"
    "validate_log_id (lr_log_id r) = Inr ()" "valid_hash (lr_content_hash r)"
  using assms decode_stored_log_Inr [of "slice_bytes (lr_payload r)"]
  by (auto simp: valid_log_record_def Let_def validate_log_id_Inr valid_hash_def split: sum.splits)

lemma log_record_length:
  assumes "valid_log_record r" "is_int64 (lr_created_at r)"
  shows "length (marshal_log_record r) \<le> 3000000"
proof -
  note f = valid_log_record_facts [OF assms(1)]
  note lens = length_juint [of "lr_sequence r"] length_print_str [of "lr_log_id r"]
    length_jbytes [of "lr_record_key r"] length_jbytes [of "lr_payload r"]
    length_print_str [of "lr_content_hash r"] length_jint [OF assms(2)]
  show ?thesis
    unfolding marshal_log_record_def log_record_json_def
    by (intro order_trans [OF length_print_obj]) (use lens f in \<open>simp add: max_event_bytes_def\<close>)
qed

lemma log_rec_wf_facts:
  assumes "log_rec_wf r"
  shows "validate_log_id (lr_log_id r) = Inr ()" "valid_hash (lr_content_hash r)"
    "length (slice_bytes (lr_payload r)) \<le> max_event_bytes" "length (slice_bytes (lr_record_key r)) = 64"
    "is_int64 (lr_created_at r)" "lr_sequence r \<noteq> 0" "unmarshal_log_record (marshal_log_record r) = Some r"
    "valid_log_record r"
proof -
  show v: "valid_log_record r" and i: "is_int64 (lr_created_at r)" using assms by (simp_all add: log_rec_wf_def)
  note f = valid_log_record_facts [OF v]
  show "validate_log_id (lr_log_id r) = Inr ()" "valid_hash (lr_content_hash r)"
    "length (slice_bytes (lr_payload r)) \<le> max_event_bytes" "length (slice_bytes (lr_record_key r)) = 64"
    "lr_sequence r \<noteq> 0" using f by blast+
  have u: "utf8_valid (lr_log_id r)" "utf8_valid (lr_content_hash r)"
    using f(6) hash_facts(1) [of "lr_content_hash r"] f(7) by (simp_all add: validate_log_id_Inr hash_ok_def)
  have "un_log_record (log_record_json r) = Some r"
    using i by (simp add: un_log_record_def log_record_json_def un_field_Cons_skip un_field_hit un_field_Nil
        is_int64_def del: un_field.simps(2))
  moreover have "json_ok (log_record_json r)" using u by (simp add: log_record_json_def)
  moreover have "json_depth (log_record_json r) \<le> max_nesting" by (simp add: log_record_json_def max_nesting_def)
  ultimately show "unmarshal_log_record (marshal_log_record r) = Some r"
    by (simp add: unmarshal_log_record_def marshal_log_record_def json_parse_print)
qed

lemma log_record_size_bound: "log_rec_wf r \<Longrightarrow> log_record_size r \<le> 3000000"
  using log_record_length [of r] by (simp add: log_rec_wf_def log_record_size_def)

lemma log_kv_valid_record: "log_rec_wf r \<Longrightarrow> kv_valid (be64 w) (marshal_log_record r)"
  using log_record_size_bound [of r] by (simp add: kv_valid_def log_record_size_def)

section \<open>Inputs\<close>

text \<open>What the caller must provide: a valid stored event and sane times.\<close>

definition log_event_ok :: "encoded_log \<Rightarrow> bool" where
  "log_event_ok ee \<longleftrightarrow>
     validate_stored_log (el_event ee) = Inr () \<and> decode_stored_log (el_payload ee) = Inr (el_event ee) \<and>
     el_content_hash ee = lev_content_hash (el_event ee) \<and>
     el_record_key ee = log_record_key (lev_source_instance (el_event ee)) (lev_log_id (el_event ee))"

lemma log_new_record_wf:
  assumes e: "log_event_ok ee" and c: "clock_ok now" and s: "sequence \<noteq> 0"
  shows "log_rec_wf (log_new_record ee now sequence)"
proof -
  have v: "validate_stored_log (el_event ee) = Inr ()" using e by (simp add: log_event_ok_def)
  have id: "validate_log_id (lev_log_id (el_event ee)) = Inr ()"
    using v by (simp add: validate_stored_log_def)
  have vh: "valid_hash (el_content_hash ee)" "valid_hash (el_record_key ee)"
    "lev_content_hash (el_event ee) = sha256_hex (marshal_log (lev_log (el_event ee)))"
    using v e by (simp_all add: log_event_ok_def validate_stored_log_def valid_hash_eq log_record_key_def)
  have "valid_log_record (log_new_record ee now sequence)"
    using e c s id vh v unfolding valid_log_record_def log_new_record_def Let_def
    by (simp add: log_event_ok_def clock_ok_def log_record_key_def validate_stored_log_def valid_hash_def)
  moreover have "is_int64 now" using c by (simp add: clock_ok_def is_int64_def min_int64_def)
  ultimately show ?thesis by (simp add: log_rec_wf_def log_new_record_def)
qed

lemma log_abs_wf_cp: "log_abs_wf a \<Longrightarrow> la_cps a i = Some c \<Longrightarrow> log_cp_wf i c \<and> lc_pending_hash c = log_newest_hash i (la_queue a)"
  by (simp add: log_abs_wf_def)

lemma log_abs_wf_rec: "log_abs_wf a \<Longrightarrow> r \<in> set (la_queue a) \<Longrightarrow>
    log_rec_wf r \<and> lr_sequence r \<le> la_seq a \<and> la_cps a (lr_log_id r) \<noteq> None"
  by (simp add: log_abs_wf_def)

section \<open>The newest record of a log\<close>

lemma log_newest_of_append:
  "log_newest_of i (q @ [r]) = (if lr_log_id r = i then Some r else log_newest_of i q)"
  by (simp add: log_newest_of_def Let_def)

lemma log_newest_hash_append:
  "log_newest_hash i (q @ [r]) = (if lr_log_id r = i then lr_content_hash r else log_newest_hash i q)"
  by (simp add: log_newest_hash_def log_newest_of_append)

lemma log_newest_of_None: "log_newest_of i q = None \<longleftrightarrow> (\<forall>r \<in> set q. lr_log_id r \<noteq> i)"
  by (simp add: log_newest_of_def filter_empty_conv Let_def)

lemma log_newest_of_in: "log_newest_of i q = Some r \<Longrightarrow> r \<in> set q \<and> lr_log_id r = i"
proof -
  let ?f = "filter (\<lambda>r. lr_log_id r = i) q"
  assume "log_newest_of i q = Some r"
  then have "?f \<noteq> []" "r = last ?f" by (simp_all add: log_newest_of_def Let_def split: if_splits)
  then have "r \<in> set ?f" using last_in_set by blast
  then show ?thesis by (simp only: set_filter mem_Collect_eq)
qed

lemma log_newest_of_remove:
  assumes "log_newest_of i q \<noteq> Some r" "r \<in> set q" "distinct (map lr_sequence q)"
  shows "log_newest_of i (log_remove_seq (lr_sequence r) q) = log_newest_of i q"
  using assms
proof (induction q rule: rev_induct)
  case (snoc x q)
  show ?case
  proof (cases "x = r")
    case True
    then have "lr_log_id r \<noteq> i" using snoc.prems(1) by (auto simp: log_newest_of_append)
    moreover have "log_remove_seq (lr_sequence r) q = q"
      unfolding log_remove_seq_def using snoc.prems(3) True by (intro filter_id_iff) (auto simp: image_iff)
    ultimately show ?thesis using True by (simp add: log_remove_seq_def log_newest_of_append)
  next
    case False
    then have "r \<in> set q" using snoc.prems(2) by simp
    then have "lr_sequence x \<noteq> lr_sequence r" using snoc.prems(3) by (auto simp: image_iff)
    then have rem: "log_remove_seq (lr_sequence r) (q @ [x]) = log_remove_seq (lr_sequence r) q @ [x]"
      by (simp add: log_remove_seq_def)
    show ?thesis
    proof (cases "lr_log_id x = i")
      case False
      then have "log_newest_of i (log_remove_seq (lr_sequence r) q) = log_newest_of i q"
        using snoc \<open>r \<in> set q\<close> by (simp add: log_newest_of_append)
      with False show ?thesis by (simp add: rem log_newest_of_append)
    qed (simp add: rem log_newest_of_append)
  qed
qed simp

lemma log_abs_wf_distinct: "log_abs_wf a \<Longrightarrow> distinct (map lr_sequence (la_queue a))"
proof -
  assume "log_abs_wf a"
  then have "sorted_wrt (\<lambda>r s. lr_sequence r < lr_sequence s) (la_queue a)" by (simp add: log_abs_wf_def)
  moreover have "distinct (map lr_sequence q)"
    if "sorted_wrt (\<lambda>r s. lr_sequence r < lr_sequence s) q" for q :: "log_record list"
    using that by (induction q) auto
  ultimately show ?thesis by blast
qed

section \<open>Preservation\<close>

lemma log_cp_of_facts:
  assumes "log_abs_wf a" "validate_log_id i = Inr ()"
  shows "log_cp_wf i (log_cp_of a i)" "lc_pending_hash (log_cp_of a i) = log_newest_hash i (la_queue a)"
proof -
  have "log_newest_of i (la_queue a) = None" if "la_cps a i = None"
    using assms(1) that by (auto simp: log_newest_of_None log_abs_wf_def)
  then show "lc_pending_hash (log_cp_of a i) = log_newest_hash i (la_queue a)"
    using assms(1) by (auto simp: log_cp_of_def log_abs_wf_def zero_log_checkpoint_def log_newest_hash_def split: option.split)
  show "log_cp_wf i (log_cp_of a i)"
  proof (cases "la_cps a i")
    case None
    then show ?thesis
      using assms(2) by (simp add: log_cp_of_def zero_log_checkpoint_def log_cp_wf_def marker_ok_def hash_ok_def
          stamp_ok_def max_int64_def)
  next
    case (Some c)
    then show ?thesis using log_abs_wf_cp [OF assms(1)] by (simp add: log_cp_of_def)
  qed
qed

text \<open>Replacing one checkpoint by a well-formed one with the right pending hash.\<close>

lemma log_abs_wf_update_cp:
  assumes "log_abs_wf a" "log_cp_wf i c" "lc_pending_hash c = log_newest_hash i (la_queue a)"
  shows "log_abs_wf (a\<lparr>la_cps := (la_cps a)(i \<mapsto> c)\<rparr>)"
  using assms by (auto simp: log_abs_wf_def)

lemma log_seen_cp_wf:
  "log_cp_wf i c \<Longrightarrow> marker_ok m \<Longrightarrow> clock_ok now \<Longrightarrow>
     log_cp_wf i (log_seen_cp m now c) \<and> log_cp_wf i ((log_seen_cp m now c)\<lparr>lc_last_fetched_at := now\<rparr>)"
  by (simp add: log_cp_wf_def log_seen_cp_def clock_ok_def stamp_ok_def max_int64_def)

lemma log_total_bytes_append [simp]: "log_total_bytes (q @ [r]) = log_total_bytes q + log_record_size r"
  by (simp add: log_total_bytes_def)

theorem log_spec_enqueue_wf:
  assumes w: "log_abs_wf a" and e: "log_event_ok ee" and m: "marker_ok marker" and c: "clock_ok now"
    and o: "options_sane opts" and s: "unat (la_seq a) < 18446744073709551615"
    and r: "log_spec_enqueue opts ee marker now a = Inr (a', ins)"
  shows "log_abs_wf a'"
proof -
  let ?i = "lev_log_id (el_event ee)"
  let ?c = "(log_seen_cp marker now (log_cp_of a ?i))\<lparr>lc_last_fetched_at := now\<rparr>"
  let ?r = "log_new_record ee now (la_seq a + 1)"
  have id: "validate_log_id ?i = Inr ()"
    using e by (simp add: log_event_ok_def validate_stored_log_def)
  note cf = log_cp_of_facts [OF w id]
  have cw: "log_cp_wf ?i ?c" and cp: "lc_pending_hash ?c = log_newest_hash ?i (la_queue a)"
    using log_seen_cp_wf [OF cf(1) m c] cf(2) by (simp_all add: log_seen_cp_def)
  show ?thesis
  proof (cases "older_marker marker (lc_list_marker (log_cp_of a ?i))")
    case True
    with r have "a' = a" by (simp add: log_spec_enqueue_def Let_def split: if_splits)
    then show ?thesis using w by simp
  next
  case newer: False
  show ?thesis
  proof (cases "log_known_content ?c (el_content_hash ee)")
    case True
    with r newer have "a' = a\<lparr>la_cps := (la_cps a)(?i \<mapsto> ?c)\<rparr>"
      by (simp add: log_spec_enqueue_def Let_def split: if_splits)
    then show ?thesis using log_abs_wf_update_cp [OF w cw cp] by simp
  next
    case False
    with r newer have a': "a' = a\<lparr>la_queue := la_queue a @ [?r],
          la_cps := (la_cps a)(?i \<mapsto> ?c\<lparr>lc_pending_hash := el_content_hash ee\<rparr>), la_seq := la_seq a + 1\<rparr>"
      and room: "int (length (la_queue a)) < opt_max_events opts"
        "int (log_total_bytes (la_queue a) + log_record_size ?r) \<le> opt_max_bytes opts"
      by (simp_all add: log_spec_enqueue_def Let_def split: if_splits)
    note sq = seq_room [OF s]
    have rw: "log_rec_wf ?r" using log_new_record_wf [OF e c sq(2)] .
    have hw: "log_cp_wf ?i (?c\<lparr>lc_pending_hash := el_content_hash ee\<rparr>)"
      using cw log_rec_wf_facts(2) [OF rw] by (simp add: log_cp_wf_def hash_ok_def log_new_record_def)
    have le: "lr_sequence x \<le> la_seq a" if "x \<in> set (la_queue a)" for x using w that by (simp add: log_abs_wf_def)
    have "lr_sequence ?r = la_seq a + 1" "lr_log_id ?r = ?i" "lr_content_hash ?r = el_content_hash ee"
      by (simp_all add: log_new_record_def)
    with w room o le sq(1) rw hw show ?thesis
      unfolding log_abs_wf_def a' options_sane_def
      by (auto simp: sorted_wrt_append log_newest_hash_append intro: order_trans less_imp_le le_less_trans)
  qed
qed
qed

lemma log_marked_cp_wf:
  "log_cp_wf i c \<Longrightarrow> marker_ok m \<Longrightarrow> clock_ok now \<Longrightarrow> log_cp_wf i (log_marked_cp m now c)"
  unfolding log_marked_cp_def by (rule log_seen_cp_wf [THEN conjunct1]) (auto simp: log_cp_wf_def)

theorem log_spec_mark_seen_wf:
  assumes w: "log_abs_wf a" and i: "validate_log_id i = Inr ()" and m: "marker_ok marker" and c: "clock_ok now"
    and r: "log_spec_mark_seen opts i marker now a = Inr a'"
  shows "log_abs_wf a'"
proof -
  note cf = log_cp_of_facts [OF w i]
  have "log_abs_wf (a\<lparr>la_cps := (la_cps a)(i \<mapsto> log_marked_cp marker now (log_cp_of a i))\<rparr>)"
    using log_marked_cp_wf [OF cf(1) m c] cf(2)
    by (intro log_abs_wf_update_cp [OF w]) (simp_all add: log_marked_cp_def log_seen_cp_def)
  with r show ?thesis by (simp add: log_spec_mark_seen_def split: if_splits)
qed

text \<open>No older record of the same log is queued.\<close>

definition oldest_of_log :: "u64 \<Rightarrow> log_record list \<Rightarrow> bool" where
  "oldest_of_log s q \<longleftrightarrow>
     (\<forall>r \<in> set q. \<forall>x \<in> set q. lr_sequence r = s \<longrightarrow> lr_log_id x = lr_log_id r \<longrightarrow> s \<le> lr_sequence x)"

lemma log_newest_of_greatest:
  "sorted_wrt (\<lambda>r s. lr_sequence r < lr_sequence s) q \<Longrightarrow> log_newest_of i q = Some r \<Longrightarrow> x \<in> set q \<Longrightarrow>
     lr_log_id x = i \<Longrightarrow> lr_sequence x \<le> lr_sequence r"
proof (induction q rule: rev_induct)
  case (snoc y q)
  then show ?case
    by (auto simp: log_newest_of_append sorted_wrt_append dest: log_newest_of_in split: if_splits)
qed simp

lemma log_remove_seq_set: "set (log_remove_seq s q) = {r \<in> set q. lr_sequence r \<noteq> s}"
  by (auto simp: log_remove_seq_def)

lemma log_total_bytes_remove: "log_total_bytes (log_remove_seq s q) \<le> log_total_bytes q"
  by (induction q) (auto simp: log_total_bytes_def log_remove_seq_def)

theorem log_spec_acknowledge_wf:
  assumes w: "log_abs_wf a" and old: "oldest_of_log s (la_queue a)"
  shows "log_abs_wf (log_spec_acknowledge s a)"
proof (cases "find (\<lambda>r. lr_sequence r = s) (la_queue a)")
  case None
  with w show ?thesis by (simp add: log_spec_acknowledge_def)
next
  case (Some r)
  let ?i = "lr_log_id r" and ?q = "la_queue a"
  from Some have r: "r \<in> set ?q" "lr_sequence r = s" by (auto simp: find_Some_iff)
  have sorted: "sorted_wrt (\<lambda>r s. lr_sequence r < lr_sequence s) ?q" using w by (simp add: log_abs_wf_def)
  note dist = log_abs_wf_distinct [OF w]
  note rw = log_abs_wf_rec [OF w r(1)]
  have id: "validate_log_id ?i = Inr ()" using rw log_rec_wf_facts(1) by blast
  note cf = log_cp_of_facts [OF w id]
  have cw: "log_cp_wf ?i (log_acked_cp r ?q (log_cp_of a ?i))"
    using cf(1) log_rec_wf_facts(2) [of r] rw by (auto simp: log_acked_cp_def log_cp_wf_def hash_ok_def Let_def)
  have pend: "lc_pending_hash (log_acked_cp r ?q (log_cp_of a ?i)) = log_newest_hash ?i (log_remove_seq s ?q)"
  proof (cases "log_newest_of ?i ?q = Some r")
    case True
    have "lr_log_id x \<noteq> ?i" if "x \<in> set (log_remove_seq s ?q)" for x
    proof
      assume x: "lr_log_id x = ?i"
      from that have "x \<in> set ?q" "lr_sequence x \<noteq> s" by (auto simp: log_remove_seq_set)
      moreover have "lr_sequence x \<le> s" using log_newest_of_greatest [OF sorted True \<open>x \<in> set ?q\<close> x] r(2) by simp
      moreover have "s \<le> lr_sequence x"
        using old r x \<open>x \<in> set ?q\<close> unfolding oldest_of_log_def by blast
      ultimately show False by simp
    qed
    then have "log_newest_of ?i (log_remove_seq s ?q) = None" by (simp add: log_newest_of_None)
    then show ?thesis using True by (simp add: log_acked_cp_def log_newest_hash_def Let_def)
  next
    case False
    then have "log_newest_of ?i (log_remove_seq s ?q) = log_newest_of ?i ?q"
      using log_newest_of_remove [OF False r(1) dist] r(2) by simp
    then show ?thesis using False cf(2) by (simp add: log_acked_cp_def log_newest_hash_def Let_def)
  qed
  have other: "log_newest_hash j (log_remove_seq s ?q) = log_newest_hash j ?q" if "j \<noteq> ?i" for j
  proof -
    have "log_newest_of j ?q \<noteq> Some r" using that log_newest_of_in by blast
    then show ?thesis using log_newest_of_remove [OF _ r(1) dist] r(2) by (simp add: log_newest_hash_def)
  qed
  have sz: "length (log_remove_seq s ?q) \<le> size_limit" "log_total_bytes (log_remove_seq s ?q) \<le> size_limit"
    using w log_total_bytes_remove [of s ?q] length_filter_le [of "\<lambda>r. lr_sequence r \<noteq> s" ?q]
    unfolding log_abs_wf_def log_remove_seq_def by linarith+
  have "log_spec_acknowledge s a = a\<lparr>la_queue := log_remove_seq s ?q,
      la_cps := (la_cps a)(?i \<mapsto> log_acked_cp r ?q (log_cp_of a ?i))\<rparr>"
    by (simp add: log_spec_acknowledge_def Some Let_def)
  then show ?thesis
    using w cw pend other sz sorted unfolding log_abs_wf_def
    by (auto simp: log_remove_seq_set sorted_wrt_filter log_remove_seq_def)
qed

theorem log_spec_reconcile_wf:
  assumes w: "log_abs_wf a" and c: "clock_ok now"
  shows "log_abs_wf (log_spec_reconcile opts listed now a)"
proof -
  let ?a = "log_spec_reconcile opts listed now a"
  have keep: "log_cp_wf i c' \<and> lc_pending_hash c' = log_newest_hash i (la_queue a)" if "la_cps ?a i = Some c'" for i c'
  proof -
    from that obtain c0 where c0: "la_cps a i = Some c0" "c' = c0 \<or> c' = log_absent_cp now c0"
      by (auto simp: log_spec_reconcile_def Let_def split: option.splits if_splits)
    have "log_cp_wf i c0 \<and> lc_pending_hash c0 = log_newest_hash i (la_queue a)" using log_abs_wf_cp [OF w c0(1)] .
    then show ?thesis using c0(2) c
      by (auto simp: log_absent_cp_def log_cp_wf_def clock_ok_def stamp_ok_def)
  qed
  have stay: "la_cps ?a (lr_log_id r) \<noteq> None" if "r \<in> set (la_queue a)" for r
  proof -
    from w that obtain c0 where c0: "la_cps a (lr_log_id r) = Some c0" "log_rec_wf r"
      by (auto simp: log_abs_wf_def)
    have "log_newest_of (lr_log_id r) (la_queue a) \<noteq> None" using that by (auto simp: log_newest_of_None)
    then obtain x where x: "log_newest_of (lr_log_id r) (la_queue a) = Some x" by auto
    then have "log_rec_wf x" using w log_newest_of_in by (auto simp: log_abs_wf_def)
    then have "length (lr_content_hash x) = 64" using log_rec_wf_facts(2) [of x] by (simp add: valid_hash_def)
    then have "lr_content_hash x \<noteq> []" by auto
    then have "lc_pending_hash c0 \<noteq> []" using log_abs_wf_cp [OF w c0(1)] x by (simp add: log_newest_hash_def)
    then show ?thesis by (auto simp: log_spec_reconcile_def c0 log_expired_def log_absent_cp_def Let_def)
  qed
  have "dom (la_cps ?a) \<subseteq> dom (la_cps a)"
    by (auto simp: log_spec_reconcile_def dom_def split: option.splits)
  then have "finite (dom (la_cps ?a))" using w by (auto simp: log_abs_wf_def intro: finite_subset)
  moreover have "la_queue ?a = la_queue a" "la_seq ?a = la_seq a" by (simp_all add: log_spec_reconcile_def)
  ultimately show ?thesis using w keep stay unfolding log_abs_wf_def by auto
qed

lemma log_empty_abs_wf [simp]: "log_abs_wf empty_log_abs"
  by (simp add: log_abs_wf_def empty_log_abs_def log_total_bytes_def)


end
