(* ===== verification/Log_Refine.thy ===== *)
theory Log_Refine
  imports Log_Spec
begin

text \<open>
  The serviceability log state implements its specification: on a database that represents an abstract
  state, every operation of \<open>Log_Store\<close> fails as the specification says and leaves the database as it
  is, or fails to commit and leaves it as it is, or commits a database that represents the specified
  state. Only the flag that a reconciliation reports as fullness is left open: it is read from page
  statistics that are unspecified after a write.
\<close>

section \<open>What a transaction reads\<close>

lemma log_represents_view:
  assumes "log_represents B d a"
  obtains mm where "settled B d" "log_abs_wf a" "log_meta_map (la_queue a) mm"
    "tx_view B d (map log_out_entry (la_queue a)) (\<lambda>i. map_option marshal_log_checkpoint (la_cps a i)) mm (la_seq a)"
  using assms by (auto simp: log_represents_def log_content_def)

lemma log_map_of_out_entries:
  assumes "log_abs_wf a"
  shows "map_of (map log_out_entry (la_queue a)) (be64 s) =
           map_option marshal_log_record (find (\<lambda>r. lr_sequence r = s) (la_queue a))"
proof -
  have "map_of (map log_out_entry q) (be64 s) = map_option marshal_log_record (find (\<lambda>r. lr_sequence r = s) q)" for q
    by (induction q) (auto simp: log_out_entry_def)
  then show ?thesis .
qed

lemma log_read_checkpoint_view:
  assumes "log_abs_wf a"
  shows "read_log_checkpoint (map_option marshal_log_checkpoint (la_cps a i)) =
           Inr (case la_cps a i of None \<Rightarrow> zero_log_checkpoint | Some c \<Rightarrow> c)"
proof (cases "la_cps a i")
  case (Some c)
  then have "unmarshal_log_checkpoint (marshal_log_checkpoint c) = Some c"
    using log_abs_wf_cp [OF assms] log_cp_wf_unmarshal by blast
  then show ?thesis by (simp add: Some read_log_checkpoint_def)
qed (simp add: read_log_checkpoint_def)

lemma log_with_identity_view:
  assumes B: "bolt_ok B" and s: "settled B d" and w: "log_abs_wf a" and i: "validate_log_id i = Inr ()"
    and v: "tx_view B d es (\<lambda>i. map_option marshal_log_checkpoint (la_cps a i)) mm n"
  shows "log_identity B opts i (case la_cps a i of None \<Rightarrow> zero_log_checkpoint | Some c \<Rightarrow> c) d =
           (if log_room_for opts i a then Inr (log_cp_of a i) else Inl log_full_error)"
proof -
  have "key_n B d bucket_checkpoints = card (dom (la_cps a))"
    using s tx_viewD(8,9) [OF B v] by (simp add: settled_def dom_map_option)
  moreover have "lc_log_id c = i" if "la_cps a i = Some c" for c
    using log_abs_wf_cp [OF w that] by (simp add: log_cp_wf_def)
  ultimately show ?thesis
    using i validate_log_id_Inr [of i]
    by (auto simp: log_identity_def log_room_for_def log_cp_of_def zero_log_checkpoint_def split: option.split)
qed

text \<open>How a transaction's result reaches the caller.\<close>

lemma log_update_tx_refines:
  assumes "bolt_ok B" "f d = Inr (d1, x)"
    and "tx_view B d1 (map log_out_entry (la_queue a')) (\<lambda>i. map_option marshal_log_checkpoint (la_cps a' i)) mm (la_seq a')"
    and "log_meta_map (la_queue a') mm" "log_abs_wf a'"
  shows "(\<exists>d'. update_tx B z f d = (d', x, None) \<and> log_represents B d' a') \<or>
         commit_fails B \<and> update_tx B z f d = (d, x, Some commit_error)"
proof (cases "commit B d1")
  case None
  then show ?thesis by (auto simp: update_tx_def assms(2) commit_fails_def)
next
  case (Some d')
  have "log_represents B d' a'"
    using tx_commit [OF assms(1,3) Some] assms(4,5) by (auto simp: log_represents_def log_content_def)
  with Some show ?thesis by (simp add: update_tx_def assms(2))
qed

lemma log_meta_reads:
  assumes "log_abs_wf a" "log_meta_map (la_queue a) mm"
  shows "read_u64 (mm key_event_count) = of_nat (length (la_queue a))"
    "read_u64 (mm key_event_bytes) = of_nat (log_total_bytes (la_queue a))"
    "sint (of_nat (length (la_queue a)) :: u64) = int (length (la_queue a))"
    "sint (of_nat (log_total_bytes (la_queue a)) :: u64) = int (log_total_bytes (la_queue a))"
proof -
  show "read_u64 (mm key_event_count) = of_nat (length (la_queue a))"
    "read_u64 (mm key_event_bytes) = of_nat (log_total_bytes (la_queue a))"
    using assms(2) by (simp_all add: log_meta_map_def read_u64_def)
  have s: "sint (of_nat k :: u64) = int k" if "k \<le> size_limit" for k
  proof -
    have "int k < 9223372036854775808" using that by (simp add: size_limit_def)
    then show ?thesis by (simp add: signed_of_nat signed_take_bit_int_eq_self)
  qed
  then show "sint (of_nat (length (la_queue a)) :: u64) = int (length (la_queue a))"
    "sint (of_nat (log_total_bytes (la_queue a)) :: u64) = int (log_total_bytes (la_queue a))"
    using assms(1) by (simp_all add: log_abs_wf_def)
qed



section \<open>Enqueue\<close>

lemma log_out_entries_append:
  assumes w: "log_abs_wf a" and s: "la_seq a < lr_sequence r"
  shows "kv_put (be64 (lr_sequence r)) (marshal_log_record r) (map log_out_entry (la_queue a)) =
           map log_out_entry (la_queue a @ [r])"
proof -
  have "kv_put (be64 (lr_sequence r)) (marshal_log_record r) (map log_out_entry (la_queue a)) =
      map log_out_entry (la_queue a) @ [(be64 (lr_sequence r), marshal_log_record r)]"
  proof (rule kv_put_last)
    fix e assume "e \<in> set (map log_out_entry (la_queue a))"
    then obtain x where "x \<in> set (la_queue a)" "e = log_out_entry x" by auto
    then show "bytes_less (fst e) (be64 (lr_sequence r))"
      using log_abs_wf_rec [OF w, of x] s by (auto simp: log_out_entry_def)
  qed
  then show ?thesis by (simp add: log_out_entry_def)
qed

lemma log_meta_map_upd:
  assumes "log_meta_map q mm"
  shows "log_meta_map q' (mm(key_event_count \<mapsto> be64 (of_nat (length q')), key_event_bytes \<mapsto> be64 (of_nat (log_total_bytes q'))))"
  using assms by (simp add: log_meta_map_def)

definition log_refined :: "'d bolt \<Rightarrow> 'd \<Rightarrow> go_error + log_abs \<times> 'a \<Rightarrow> 'a \<Rightarrow> 'd \<times> 'a \<times> go_error option \<Rightarrow> bool" where
  "log_refined B d spec z result \<longleftrightarrow>
     (case spec of
        Inl e \<Rightarrow> result = (d, z, Some e)
      | Inr (a', x) \<Rightarrow>
          (\<exists>d'. result = (d', x, None) \<and> log_represents B d' a') \<or>
          commit_fails B \<and> result = (d, x, Some commit_error))"

lemma log_refinedI:
  assumes "bolt_ok B" "f d = Inr (d1, x)"
    and "tx_view B d1 (map log_out_entry (la_queue a')) (\<lambda>i. map_option marshal_log_checkpoint (la_cps a' i)) mm (la_seq a')"
    and "log_meta_map (la_queue a') mm" "log_abs_wf a'"
  shows "log_refined B d (Inr (a', x)) z (update_tx B z f d)"
  using log_update_tx_refines [of B f d d1 x a' mm z] assms by (auto simp: log_refined_def)

theorem log_enqueue_refines:
  assumes B: "bolt_ok B" and rep: "log_represents B d a" and e: "log_event_ok ee" and m: "marker_ok marker"
    and c: "clock_ok now" and o: "options_sane opts" and pos: "0 < opt_max_bytes opts"
    and s: "unat (la_seq a) < 18446744073709551615"
  shows "log_refined B d (log_spec_enqueue opts ee marker now a) False (log_enqueue B opts ee marker now d)"
proof -
  from rep obtain mm where st: "settled B d" and w: "log_abs_wf a" and mm: "log_meta_map (la_queue a) mm"
    and v: "tx_view B d (map log_out_entry (la_queue a)) (\<lambda>i. map_option marshal_log_checkpoint (la_cps a i)) mm (la_seq a)"
    by (rule log_represents_view)
  define i where "i = lev_log_id (el_event ee)"
  have id: "validate_log_id i = Inr ()"
    using e by (simp add: i_def log_event_ok_def validate_stored_log_def)
  define c1 where "c1 = (log_seen_cp marker now (log_cp_of a i))\<lparr>lc_last_fetched_at := now\<rparr>"
  have c1: "(log_cp_of a i)\<lparr>lc_last_seen_at := now, lc_last_fetched_at := now, lc_list_marker := marker,
              lc_absent_since := 0\<rparr> = c1"
    by (simp add: c1_def log_seen_cp_def)
  have ch: "lc_pending_hash c1 = lc_pending_hash (log_cp_of a i)" "lc_delivered_hash c1 = lc_delivered_hash (log_cp_of a i)"
    by (simp_all add: c1_def log_seen_cp_def)
  note cf = log_cp_of_facts [OF w id]
  have cw: "log_cp_wf i c1" and ci: "lc_log_id c1 = i"
    using log_seen_cp_wf [OF cf(1) m c] by (simp_all add: c1_def log_cp_wf_def)
  have ci0: "lc_log_id (log_cp_of a i) = i" using cf(1) by (simp add: log_cp_wf_def)
  note reads = tx_viewD [OF B v] log_read_checkpoint_view [OF w] log_with_identity_view [OF B st w id v]
    log_meta_reads [OF w mm]
  note start = log_enqueue_tx_def [of B opts ee marker now d, folded i_def]
  show ?thesis
  proof (cases "log_room_for opts i a")
    case False
    then have "log_enqueue_tx B opts ee marker now d = Inl log_full_error"
      by (simp add: start reads Let_def)
    with False show ?thesis
      by (simp add: log_refined_def log_enqueue_def update_tx_def log_spec_enqueue_def i_def [symmetric] Let_def)
  next
    case room: True
    show ?thesis
    proof (cases "older_marker marker (lc_list_marker (log_cp_of a i))")
      case True
      then have "log_enqueue_tx B opts ee marker now d = Inr (d, False)"
        using room by (simp add: start reads Let_def)
      moreover have "log_spec_enqueue opts ee marker now a = Inr (a, False)"
        using room True by (simp add: log_spec_enqueue_def i_def [symmetric] Let_def)
      ultimately show ?thesis
        unfolding log_enqueue_def using v mm w by (simp add: log_refinedI [OF B, where mm = mm])
    next
    case newer: False
    show ?thesis
    proof (cases "log_known_content c1 (el_content_hash ee)")
      case True
      let ?a = "a\<lparr>la_cps := (la_cps a)(i \<mapsto> c1)\<rparr>"
      have spec: "log_spec_enqueue opts ee marker now a = Inr (?a, False)"
        using room newer True by (simp add: log_spec_enqueue_def i_def [symmetric] c1_def [symmetric] Let_def)
      from tx_put_cp [OF B v log_cp_kv_valid [OF cw]] obtain d1 where
        d1: "putE B bucket_checkpoints i (marshal_log_checkpoint c1) d = Inr d1"
          "tx_view B d1 (map log_out_entry (la_queue a))
             ((\<lambda>i. map_option marshal_log_checkpoint (la_cps a i))(i \<mapsto> marshal_log_checkpoint c1)) mm (la_seq a)" .
      have "log_enqueue_tx B opts ee marker now d = Inr (d1, False)"
        using room newer True d1(1) c ci ci0
        by (simp add: start reads Let_def c1 ch log_known_content_def put_log_checkpoint_def)
      moreover have "log_abs_wf ?a"
        using log_spec_enqueue_wf [OF w e m c o s spec] .
      ultimately show ?thesis
        unfolding spec log_enqueue_def using d1(2) mm
        by (intro log_refinedI [OF B, where mm = mm]) (simp_all add: map_option_upd)
    next
      case fresh: False
      define n where "n = la_seq a + 1"
      define r where "r = log_new_record ee now n"
      have r: "\<lparr>lr_sequence = n, lr_log_id = i, lr_record_key = append_nil (el_record_key ee),
          lr_payload = append_nil (el_payload ee), lr_content_hash = el_content_hash ee, lr_created_at = now\<rparr> = r"
        by (simp add: r_def log_new_record_def i_def)
      have sq: "la_seq a < n" "n \<noteq> 0" using seq_room [OF s] by (simp_all add: n_def)
      have rw: "log_rec_wf r" unfolding r_def by (rule log_new_record_wf [OF e c sq(2)])
      have rs: "lr_sequence r = n" by (simp add: r_def log_new_record_def)
      from tx_next_seq [OF B v] obtain d1 where
        d1: "next_seqE B bucket_outbox d = Inr (d1, n)"
          "tx_view B d1 (map log_out_entry (la_queue a)) (\<lambda>i. map_option marshal_log_checkpoint (la_cps a i)) mm n"
        unfolding n_def .
      have tot: "int (length (marshal_log_record r)) > wrap64 (opt_max_bytes opts - int (log_total_bytes (la_queue a))) \<longleftrightarrow>
          int (log_total_bytes (la_queue a) + log_record_size r) > opt_max_bytes opts"
      proof -
        have "log_total_bytes (la_queue a) \<le> size_limit" using w by (simp add: log_abs_wf_def)
        then have "wrap64 (opt_max_bytes opts - int (log_total_bytes (la_queue a))) =
            opt_max_bytes opts - int (log_total_bytes (la_queue a))"
          using o pos by (intro wrap64_id) (simp_all add: options_sane_def size_limit_def min_int64_def max_int64_def)
        then show ?thesis unfolding log_record_size_def by linarith
      qed
      have pre: "log_enqueue_tx B opts ee marker now d =
          bindE (guardE (\<not> (int (length (la_queue a)) \<ge> opt_max_events opts \<or>
                   int (log_total_bytes (la_queue a) + log_record_size r) > opt_max_bytes opts)) log_full_error) (\<lambda>_.
          bindE (putE B bucket_outbox (be64 n) (marshal_log_record r) d1) (\<lambda>d2.
          bindE (put_log_checkpoint B (c1\<lparr>lc_pending_hash := el_content_hash ee\<rparr>) d2) (\<lambda>d3.
          bindE (putE B bucket_meta key_event_count (be64 (of_int (int (length (la_queue a)) + 1))) d3) (\<lambda>d4.
          bindE (putE B bucket_meta key_event_bytes
                   (be64 (of_int (int (log_total_bytes (la_queue a)) + int (log_record_size r)))) d4) (\<lambda>d5.
          Inr (d5, True))))))"
        using room newer fresh d1(1) c
        by (simp add: start reads Let_def c1 ch log_known_content_def r tot) (auto simp: log_record_size_def)
      show ?thesis
      proof (cases "int (length (la_queue a)) \<ge> opt_max_events opts \<or>
                   int (log_total_bytes (la_queue a) + log_record_size r) > opt_max_bytes opts")
        case True
        then have "log_enqueue_tx B opts ee marker now d = Inl log_full_error"
          unfolding pre by (simp add: guardE_def)
        moreover have "log_spec_enqueue opts ee marker now a = Inl log_full_error"
          using room newer fresh True
          by (simp add: log_spec_enqueue_def i_def [symmetric] c1_def [symmetric] n_def [symmetric] r_def [symmetric] Let_def)
        ultimately show ?thesis by (simp add: log_refined_def log_enqueue_def update_tx_def)
      next
        case False
        let ?q = "la_queue a @ [r]"
        let ?c2 = "c1\<lparr>lc_pending_hash := el_content_hash ee\<rparr>"
        let ?a = "a\<lparr>la_queue := ?q, la_cps := (la_cps a)(i \<mapsto> ?c2), la_seq := n\<rparr>"
        have spec: "log_spec_enqueue opts ee marker now a = Inr (?a, True)"
          using room newer fresh False
          by (simp add: log_spec_enqueue_def i_def [symmetric] c1_def [symmetric] n_def [symmetric] r_def [symmetric] Let_def)
        have cw2: "log_cp_wf i ?c2"
          using cw log_rec_wf_facts(2) [OF rw] by (simp add: log_cp_wf_def hash_ok_def r_def log_new_record_def)
        have app: "kv_put (be64 n) (marshal_log_record r) (map log_out_entry (la_queue a)) = map log_out_entry ?q"
          using log_out_entries_append [OF w, of r] sq(1) rs by simp
        from tx_put_outbox [OF B d1(2) log_kv_valid_record [OF rw, of n], unfolded app] obtain d2 where
          d2: "putE B bucket_outbox (be64 n) (marshal_log_record r) d1 = Inr d2"
            "tx_view B d2 (map log_out_entry ?q) (\<lambda>i. map_option marshal_log_checkpoint (la_cps a i)) mm n"
          .
        from tx_put_cp [OF B d2(2) log_cp_kv_valid [OF cw2]] obtain d3 where
          d3: "putE B bucket_checkpoints i (marshal_log_checkpoint ?c2) d2 = Inr d3"
            "tx_view B d3 (map log_out_entry ?q)
               ((\<lambda>i. map_option marshal_log_checkpoint (la_cps a i))(i \<mapsto> marshal_log_checkpoint ?c2)) mm n" .
        from tx_put_meta [OF B d3(2) kv_valid_meta(1)] obtain d4 where
          d4: "putE B bucket_meta key_event_count (be64 (of_nat (length ?q))) d3 = Inr d4"
            "tx_view B d4 (map log_out_entry ?q)
               ((\<lambda>i. map_option marshal_log_checkpoint (la_cps a i))(i \<mapsto> marshal_log_checkpoint ?c2))
               (mm(key_event_count \<mapsto> be64 (of_nat (length ?q)))) n" .
        from tx_put_meta [OF B d4(2) kv_valid_meta(2)] obtain d5 where
          d5: "putE B bucket_meta key_event_bytes (be64 (of_nat (log_total_bytes ?q))) d4 = Inr d5"
            "tx_view B d5 (map log_out_entry ?q)
               ((\<lambda>i. map_option marshal_log_checkpoint (la_cps a i))(i \<mapsto> marshal_log_checkpoint ?c2))
               (mm(key_event_count \<mapsto> be64 (of_nat (length ?q)),
                   key_event_bytes \<mapsto> be64 (of_nat (log_total_bytes ?q)))) n" .
        have "of_int (int (length (la_queue a)) + 1) = (of_nat (length ?q) :: u64)"
          "of_int (int (log_total_bytes (la_queue a)) + int (log_record_size r)) = (of_nat (log_total_bytes ?q) :: u64)"
          by simp_all
        then have "log_enqueue_tx B opts ee marker now d = Inr (d5, True)"
          unfolding pre using False d2(1) d3(1) d4(1) d5(1) ci
          by (simp add: put_log_checkpoint_def guardE_def add.commute [of 1])
        moreover have "log_abs_wf ?a" by (rule log_spec_enqueue_wf [OF w e m c o s spec])
        ultimately show ?thesis
          unfolding spec log_enqueue_def using d5(2) log_meta_map_upd [OF mm, of ?q]
          by (intro log_refinedI [OF B]) (simp_all add: map_option_upd)
      qed
    qed
  qed
  qed
qed


section \<open>Mark seen\<close>

theorem log_mark_seen_refines:
  assumes B: "bolt_ok B" and rep: "log_represents B d a" and id: "validate_log_id i = Inr ()" and m: "marker_ok marker"
    and c: "clock_ok now"
  shows "case log_spec_mark_seen opts i marker now a of
           Inl e \<Rightarrow> log_mark_seen B opts i marker now d = (d, Some e)
         | Inr a' \<Rightarrow> (\<exists>d'. log_mark_seen B opts i marker now d = (d', None) \<and> log_represents B d' a') \<or>
                     commit_fails B \<and> log_mark_seen B opts i marker now d = (d, Some commit_error)"
proof -
  from rep obtain mm where st: "settled B d" and w: "log_abs_wf a" and mm: "log_meta_map (la_queue a) mm"
    and v: "tx_view B d (map log_out_entry (la_queue a)) (\<lambda>i. map_option marshal_log_checkpoint (la_cps a i)) mm (la_seq a)"
    by (rule log_represents_view)
  let ?c1 = "log_marked_cp marker now (log_cp_of a i)"
  note cf = log_cp_of_facts [OF w id]
  have cw: "log_cp_wf i ?c1" and ci: "lc_log_id ?c1 = i"
    using log_marked_cp_wf [OF cf(1) m c] by (simp_all add: log_cp_wf_def)
  note reads = tx_viewD [OF B v] log_read_checkpoint_view [OF w] log_with_identity_view [OF B st w id v]
  show ?thesis
  proof (cases "log_room_for opts i a")
    case False
    then show ?thesis by (simp add: log_mark_seen_def log_mark_seen_tx_def update_tx_def reads log_spec_mark_seen_def)
  next
    case True
    let ?a = "a\<lparr>la_cps := (la_cps a)(i \<mapsto> ?c1)\<rparr>"
    have spec: "log_spec_mark_seen opts i marker now a = Inr ?a" using True by (simp add: log_spec_mark_seen_def)
    from tx_put_cp [OF B v log_cp_kv_valid [OF cw]] obtain d1 where
      d1: "putE B bucket_checkpoints i (marshal_log_checkpoint ?c1) d = Inr d1"
        "tx_view B d1 (map log_out_entry (la_queue a))
           ((\<lambda>i. map_option marshal_log_checkpoint (la_cps a i))(i \<mapsto> marshal_log_checkpoint ?c1)) mm (la_seq a)" .
    have "log_mark_seen_tx B opts i marker now d = Inr (d1, ())"
      using True d1(1) c ci
      by (simp add: log_mark_seen_tx_def reads put_log_checkpoint_def log_marked_cp_def log_seen_cp_def Let_def split: if_splits)
    moreover have "log_abs_wf ?a" by (rule log_spec_mark_seen_wf [OF w id m c spec])
    ultimately have "log_refined B d (Inr (?a, ())) () (update_tx B () (log_mark_seen_tx B opts i marker now) d)"
      using d1(2) mm by (intro log_refinedI [OF B, where mm = mm]) (simp_all add: map_option_upd)
    then show ?thesis unfolding spec by (auto simp: log_refined_def log_mark_seen_def)
  qed
qed

section \<open>Acknowledge\<close>

lemma log_newest_pending_view:
  assumes "\<forall>r \<in> set q. log_rec_wf r"
  shows "newest_pending_log i (map log_out_entry q) acc =
           Inr (case log_newest_of i q of None \<Rightarrow> acc | Some r \<Rightarrow> (lr_content_hash r, lr_sequence r))"
  using assms
proof (induction q arbitrary: acc)
  case (Cons r q)
  have "log_newest_of i (r # q) = (case log_newest_of i q of None \<Rightarrow> if lr_log_id r = i then Some r else None
      | Some x \<Rightarrow> Some x)"
    by (simp add: log_newest_of_def Let_def)
  with Cons show ?case by (simp add: log_out_entry_def log_rec_wf_facts(7) split: option.split)
qed (simp add: log_newest_of_def)

lemma log_remove_entry:
  assumes "log_abs_wf a"
  shows "kv_delete (be64 s) (map log_out_entry (la_queue a)) = map log_out_entry (log_remove_seq s (la_queue a))"
  by (simp add: kv_delete_def log_remove_seq_def filter_map comp_def log_out_entry_def)

lemma log_total_bytes_remove_eq:
  assumes "r \<in> set q" "distinct (map lr_sequence q)"
  shows "log_total_bytes q = log_record_size r + log_total_bytes (log_remove_seq (lr_sequence r) q)"
    "length q = Suc (length (log_remove_seq (lr_sequence r) q))"
proof -
  from assms(1) obtain xs ys where q: "q = xs @ r # ys" by (auto simp: in_set_conv_decomp)
  have "log_remove_seq (lr_sequence r) xs = xs" "log_remove_seq (lr_sequence r) ys = ys"
    unfolding log_remove_seq_def using assms(2) q by (intro filter_id_iff; auto simp: image_iff)+
  then have "log_remove_seq (lr_sequence r) q = xs @ ys" by (simp add: q log_remove_seq_def)
  then show "log_total_bytes q = log_record_size r + log_total_bytes (log_remove_seq (lr_sequence r) q)"
    "length q = Suc (length (log_remove_seq (lr_sequence r) q))"
    by (simp_all add: q log_total_bytes_def)
qed

theorem log_acknowledge_refines:
  assumes B: "bolt_ok B" and rep: "log_represents B d a" and old: "oldest_of_log s (la_queue a)"
  shows "(\<exists>d'. log_acknowledge B s d = (d', None) \<and> log_represents B d' (log_spec_acknowledge s a)) \<or>
         commit_fails B \<and> log_acknowledge B s d = (d, Some commit_error)"
proof -
  from rep obtain mm where st: "settled B d" and w: "log_abs_wf a" and mm: "log_meta_map (la_queue a) mm"
    and v: "tx_view B d (map log_out_entry (la_queue a)) (\<lambda>i. map_option marshal_log_checkpoint (la_cps a i)) mm (la_seq a)"
    by (rule log_represents_view)
  have get: "bget B d bucket_outbox (be64 s) =
      map_option marshal_log_record (find (\<lambda>r. lr_sequence r = s) (la_queue a))"
    using tx_viewD(2) [OF B v] log_map_of_out_entries [OF w] by simp
  have "log_refined B d (Inr (log_spec_acknowledge s a, ())) () (update_tx B () (log_acknowledge_tx B s) d)"
  proof (cases "find (\<lambda>r. lr_sequence r = s) (la_queue a)")
    case None
    then have "log_acknowledge_tx B s d = Inr (d, ())" by (simp add: log_acknowledge_tx_def get)
    moreover have "log_spec_acknowledge s a = a" using None by (simp add: log_spec_acknowledge_def)
    ultimately show ?thesis using v mm w by (simp add: log_refinedI [OF B])
  next
    case (Some r)
    let ?i = "lr_log_id r" and ?q = "la_queue a"
    from Some have r: "r \<in> set ?q" "lr_sequence r = s" by (auto simp: find_Some_iff)
    note rw = log_abs_wf_rec [OF w r(1)]
    note rf = log_rec_wf_facts [of r]
    have id: "validate_log_id ?i = Inr ()" using rw rf(1) by blast
    note cf = log_cp_of_facts [OF w id]
    obtain c where c: "la_cps a ?i = Some c" using rw by auto
    then have cp: "log_cp_of a ?i = c" by (simp add: log_cp_of_def)
    have ci: "lc_log_id c = ?i" "?i \<noteq> []" using cf(1) id by (auto simp: cp log_cp_wf_def validate_log_id_Inr)
    have np: "newest_pending_log ?i (map log_out_entry ?q) ([], 0) =
        Inr (log_newest_hash ?i ?q, case log_newest_of ?i ?q of None \<Rightarrow> 0 | Some x \<Rightarrow> lr_sequence x)"
      using log_newest_pending_view [of ?q ?i "([], 0)"] log_abs_wf_rec [OF w]
      by (auto simp: log_newest_hash_def split: option.split)
    have newest: "(case log_newest_of ?i ?q of None \<Rightarrow> 0 | Some x \<Rightarrow> lr_sequence x) = s \<longleftrightarrow> log_newest_of ?i ?q = Some r"
    proof (cases "log_newest_of ?i ?q")
      case None
      then have False using r(1) by (auto simp: log_newest_of_None)
      then show ?thesis ..
    next
      case (Some x)
      then have "x \<in> set ?q" using log_newest_of_in by blast
      then show ?thesis
        using Some r log_abs_wf_distinct [OF w] by (auto simp: distinct_map dest: inj_onD)
    qed
    let ?c2 = "log_acked_cp r ?q c"
    have c2: "(let c1 = c\<lparr>lc_delivered_hash := lr_content_hash r\<rparr>
         in if (case log_newest_of ?i ?q of None \<Rightarrow> 0 | Some x \<Rightarrow> lr_sequence x) = s
            then c1\<lparr>lc_pending_hash := []\<rparr> else c1) = ?c2"
      unfolding newest by (simp add: log_acked_cp_def Let_def)
    let ?q' = "log_remove_seq s ?q"
    let ?a = "a\<lparr>la_queue := ?q', la_cps := (la_cps a)(?i \<mapsto> ?c2)\<rparr>"
    have spec: "log_spec_acknowledge s a = ?a" by (simp add: log_spec_acknowledge_def Some cp Let_def)
    have wa: "log_abs_wf ?a" using log_spec_acknowledge_wf [OF w old] spec by simp
    have cw: "log_cp_wf ?i ?c2" using log_abs_wf_cp [OF wa, of ?i ?c2] by simp
    have c2i: "lc_log_id ?c2 = ?i" using cw by (simp add: log_cp_wf_def)
    note tot = log_total_bytes_remove_eq [OF r(1) log_abs_wf_distinct [OF w], unfolded r(2)]
    from tx_put_cp [OF B v log_cp_kv_valid [OF cw]] obtain d1 where
      d1: "putE B bucket_checkpoints ?i (marshal_log_checkpoint ?c2) d = Inr d1"
        "tx_view B d1 (map log_out_entry ?q)
           ((\<lambda>i. map_option marshal_log_checkpoint (la_cps a i))(?i \<mapsto> marshal_log_checkpoint ?c2)) mm (la_seq a)" .
    from tx_delete_outbox [OF B d1(2), of "be64 s", unfolded log_remove_entry [OF w]] obtain d2 where
      d2: "deleteE B bucket_outbox (be64 s) d1 = Inr d2"
        "tx_view B d2 (map log_out_entry ?q')
           ((\<lambda>i. map_option marshal_log_checkpoint (la_cps a i))(?i \<mapsto> marshal_log_checkpoint ?c2)) mm (la_seq a)" .
    from tx_put_meta [OF B d2(2) kv_valid_meta(1)] obtain d3 where
      d3: "putE B bucket_meta key_event_count (be64 (of_nat (length ?q'))) d2 = Inr d3"
        "tx_view B d3 (map log_out_entry ?q')
           ((\<lambda>i. map_option marshal_log_checkpoint (la_cps a i))(?i \<mapsto> marshal_log_checkpoint ?c2))
           (mm(key_event_count \<mapsto> be64 (of_nat (length ?q')))) (la_seq a)" .
    from tx_put_meta [OF B d3(2) kv_valid_meta(2)] obtain d4 where
      d4: "putE B bucket_meta key_event_bytes (be64 (of_nat (log_total_bytes ?q'))) d3 = Inr d4"
        "tx_view B d4 (map log_out_entry ?q')
           ((\<lambda>i. map_option marshal_log_checkpoint (la_cps a i))(?i \<mapsto> marshal_log_checkpoint ?c2))
           (mm(key_event_count \<mapsto> be64 (of_nat (length ?q')),
               key_event_bytes \<mapsto> be64 (of_nat (log_total_bytes ?q')))) (la_seq a)" .
    have meta1: "read_u64 (bget B d1 bucket_meta key_event_count) = of_nat (length ?q)"
      "read_u64 (bget B d1 bucket_meta key_event_bytes) = of_nat (log_total_bytes ?q)"
      using tx_viewD(4) [OF B d1(2)] log_meta_reads(1,2) [OF w mm] by simp_all
    have lim: "length ?q \<le> size_limit" "log_total_bytes ?q \<le> size_limit" using w by (simp_all add: log_abs_wf_def)
    have cnt: "(if read_u64 (bget B d1 bucket_meta key_event_count) > 0
          then read_u64 (bget B d1 bucket_meta key_event_count) - 1
          else read_u64 (bget B d1 bucket_meta key_event_count)) = of_nat (length ?q')"
      unfolding meta1 using u64_minus(2) [of 1 "length ?q"] lim(1) tot(2) by simp
    have byt: "\<not> of_nat (length (marshal_log_record r)) > read_u64 (bget B d1 bucket_meta key_event_bytes)"
      "read_u64 (bget B d1 bucket_meta key_event_bytes) - of_nat (length (marshal_log_record r)) =
        of_nat (log_total_bytes ?q')"
    proof -
      have le: "log_record_size r \<le> log_total_bytes ?q" and diff: "log_total_bytes ?q - log_record_size r = log_total_bytes ?q'"
        using tot(1) by simp_all
      have "unat (of_nat (log_record_size r) :: u64) = log_record_size r"
        "unat (of_nat (log_total_bytes ?q) :: u64) = log_total_bytes ?q"
        using le lim(2) by (simp_all add: size_limit_def unat_of_nat)
      then show "\<not> of_nat (length (marshal_log_record r)) > read_u64 (bget B d1 bucket_meta key_event_bytes)"
        unfolding meta1 using le by (simp add: word_less_nat_alt log_record_size_def)
      show "read_u64 (bget B d1 bucket_meta key_event_bytes) - of_nat (length (marshal_log_record r)) =
        of_nat (log_total_bytes ?q')"
        unfolding meta1 using le tot(1) by (simp add: log_record_size_def)
    qed
    have rc: "read_log_checkpoint (bget B d bucket_checkpoints ?i) = Inr c"
      using tx_viewD(3) [OF B v] log_read_checkpoint_view [OF w, of ?i] c by simp
    have "log_acknowledge_tx B s d = Inr (d4, ())"
      unfolding log_acknowledge_tx_def get Some option.map option.case rf(7) [OF rw [THEN conjunct1]]
      using rf(8) rw r(2) rc ci np cf(2) c2 d1(1) d2(1) d3(1) d4(1) c2i
      by (simp add: guardE_def tx_viewD(1) [OF B v] cp put_log_checkpoint_def cnt byt Let_def split del: if_split)
    then show ?thesis
      unfolding spec using d4(2) log_meta_map_upd [OF mm, of ?q'] wa
      by (intro log_refinedI [OF B]) (simp_all add: map_option_upd)
  qed
  then show ?thesis by (auto simp: log_refined_def log_acknowledge_def)
qed


section \<open>Reconcile\<close>

definition log_cps_view :: "(bytes \<rightharpoonup> log_checkpoint) \<Rightarrow> bytes \<rightharpoonup> bytes" where
  "log_cps_view m = (\<lambda>i. map_option marshal_log_checkpoint (m i))"

lemma log_cps_view_upd: "(log_cps_view m)(k \<mapsto> marshal_log_checkpoint c) = log_cps_view (m(k \<mapsto> c))"
  by (auto simp: log_cps_view_def fun_eq_iff)

definition log_aged :: "bytes set \<Rightarrow> go_time \<Rightarrow> bytes set \<Rightarrow> (bytes \<rightharpoonup> log_checkpoint) \<Rightarrow> bytes \<rightharpoonup> log_checkpoint" where
  "log_aged listed now ks m = (\<lambda>i. if i \<in> ks \<and> i \<notin> listed then map_option (log_absent_cp now) (m i) else m i)"

definition log_stale_keys ::
  "store_options \<Rightarrow> bytes set \<Rightarrow> go_time \<Rightarrow> (bytes \<rightharpoonup> log_checkpoint) \<Rightarrow> (bytes \<times> bytes) list \<Rightarrow> bytes list" where
  "log_stale_keys opts listed now m es =
     filter (\<lambda>k. k \<notin> listed \<and> log_expired opts now (log_absent_cp now (the (m k)))) (map fst es)"

lemma log_absent_cp_wf: "log_cp_wf i c \<Longrightarrow> clock_ok now \<Longrightarrow> log_cp_wf i (log_absent_cp now c)"
  by (simp add: log_absent_cp_def log_cp_wf_def clock_ok_def stamp_ok_def)

lemma log_reconcile_loop_view:
  assumes B: "bolt_ok B" and c: "clock_ok now"
    and "tx_view B d out (log_cps_view m) mm n"
    and "\<forall>e \<in> set es. \<exists>c. m (fst e) = Some c \<and> snd e = marshal_log_checkpoint c \<and> log_cp_wf (fst e) c"
    and "distinct (map fst es)"
  shows "\<exists>d'. log_reconcile_loop B opts listed now es d del =
                Inr (d', del @ log_stale_keys opts listed now m es) \<and>
              tx_view B d' out (log_cps_view (log_aged listed now (fst ` set es) m)) mm n"
  using assms(3-)
proof (induction es arbitrary: d m del)
  case Nil
  then show ?case by (simp add: log_stale_keys_def log_aged_def)
next
  case (Cons e es)
  obtain k v where e: "e = (k, v)" by (cases e)
  from Cons.prems(2) e obtain c where mk: "m k = Some c" and v: "v = marshal_log_checkpoint c" and cw: "log_cp_wf k c"
    by auto
  have ck: "lc_log_id c = k" using cw by (simp add: log_cp_wf_def)
  have rd: "read_log_checkpoint (Some v) = Inr c" by (simp add: read_log_checkpoint_def v log_cp_wf_unmarshal [OF cw])
  show ?case
  proof (cases "k \<in> listed")
    case True
    have "log_aged listed now (fst ` set (e # es)) m = log_aged listed now (fst ` set es) m"
      using True e by (auto simp: log_aged_def fun_eq_iff)
    moreover have "log_stale_keys opts listed now m (e # es) = log_stale_keys opts listed now m es"
      using True e by (simp add: log_stale_keys_def)
    ultimately show ?thesis using Cons.IH [of d m del] Cons.prems True e rd ck by simp
  next
    case False
    let ?c = "log_absent_cp now c" and ?m = "m(k \<mapsto> log_absent_cp now c)"
    have "lc_log_id ?c = k" by (simp add: log_absent_cp_def ck)
    have "\<exists>d1. (if lc_absent_since c = 0
                then (let c1 = c\<lparr>lc_absent_since := unix_nano now\<rparr>
                      in bindE (put_log_checkpoint B c1 d) (\<lambda>d1. Inr (c1, d1)))
                else Inr (c, d)) = Inr (?c, d1) \<and> tx_view B d1 out (log_cps_view ?m) mm n"
    proof (cases "lc_absent_since c = 0")
      case True
      from tx_put_cp [OF B Cons.prems(1) log_cp_kv_valid [OF log_absent_cp_wf [OF cw c]]] obtain d1 where
        "putE B bucket_checkpoints k (marshal_log_checkpoint ?c) d = Inr d1"
        "tx_view B d1 out ((log_cps_view m)(k \<mapsto> marshal_log_checkpoint ?c)) mm n" .
      then show ?thesis using True c ck by (simp add: log_absent_cp_def put_log_checkpoint_def log_cps_view_upd Let_def)
    next
      case False
      then have "?m = m" by (simp add: log_absent_cp_def mk fun_upd_idem)
      with False Cons.prems(1) show ?thesis by (simp add: log_absent_cp_def)
    qed
    then obtain d1 where d1: "(if lc_absent_since c = 0
                then (let c1 = c\<lparr>lc_absent_since := unix_nano now\<rparr>
                      in bindE (put_log_checkpoint B c1 d) (\<lambda>d1. Inr (c1, d1)))
                else Inr (c, d)) = Inr (?c, d1)" "tx_view B d1 out (log_cps_view ?m) mm n" by blast
    have other: "\<forall>e \<in> set es. \<exists>c. ?m (fst e) = Some c \<and> snd e = marshal_log_checkpoint c \<and> log_cp_wf (fst e) c"
      using Cons.prems(2,3) e by (auto simp: image_iff)
    have notin: "k \<notin> fst ` set es" using Cons.prems(3) e by simp
    have sk: "log_stale_keys opts listed now ?m es = log_stale_keys opts listed now m es"
      unfolding log_stale_keys_def using notin by (intro filter_cong) auto
    have ag: "log_aged listed now (fst ` set es) ?m = log_aged listed now (fst ` set (e # es)) m"
      using notin False e mk by (auto simp: log_aged_def fun_eq_iff)
    define del' where "del' = (if time_sub now (time_unix0 (lc_absent_since ?c)) \<ge> opt_retention opts \<and>
        lc_pending_hash ?c = [] then del @ [k] else del)"
    have "del' @ log_stale_keys opts listed now m es = del @ log_stale_keys opts listed now m (e # es)"
      using False e mk by (simp add: log_stale_keys_def log_expired_def del'_def)
    moreover have "log_reconcile_loop B opts listed now (e # es) d del =
        log_reconcile_loop B opts listed now es d1 del'"
      using False e rd ck d1(1) by (simp add: del'_def)
    moreover have "distinct (map fst es)" using Cons.prems(3) by simp
    note Cons.IH [OF d1(2) other this, of del', unfolded sk ag]
    ultimately show ?thesis by simp
  qed
qed

theorem log_reconcile_refines:
  assumes B: "bolt_ok B" and rep: "log_represents B d a" and c: "clock_ok now"
  shows "let a' = log_spec_reconcile opts listed now a
         in (\<exists>d' full. log_reconcile_listed B opts listed now True d = (d', full) \<and> log_represents B d' a' \<and>
               full \<in> {None, Some log_full_error}) \<or>
            commit_fails B \<and> log_reconcile_listed B opts listed now True d = (d, Some commit_error)"
proof -
  from rep obtain mm where st: "settled B d" and w: "log_abs_wf a" and mm: "log_meta_map (la_queue a) mm"
    and v0: "tx_view B d (map log_out_entry (la_queue a)) (\<lambda>i. map_option marshal_log_checkpoint (la_cps a i)) mm (la_seq a)"
    by (rule log_represents_view)
  let ?a = "log_spec_reconcile opts listed now a"
  define es where "es = bentries B d bucket_checkpoints"
  have v: "tx_view B d (map log_out_entry (la_queue a)) (log_cps_view (la_cps a)) mm (la_seq a)"
    using v0 by (simp add: log_cps_view_def)
  have mo: "map_of es = log_cps_view (la_cps a)" using v by (simp add: tx_view_def es_def)
  have dist: "distinct (map fst es)" unfolding es_def by (rule bolt_distinct [OF B])
  have ent: "\<forall>e \<in> set es. \<exists>c. la_cps a (fst e) = Some c \<and> snd e = marshal_log_checkpoint c \<and> log_cp_wf (fst e) c"
  proof
    fix e assume "e \<in> set es"
    then have "map_of es (fst e) = Some (snd e)" using dist by simp
    then obtain c where "la_cps a (fst e) = Some c" "snd e = marshal_log_checkpoint c"
      by (auto simp: mo log_cps_view_def)
    then show "\<exists>c. la_cps a (fst e) = Some c \<and> snd e = marshal_log_checkpoint c \<and> log_cp_wf (fst e) c"
      using log_abs_wf_cp [OF w] by blast
  qed
  have keys: "fst ` set es = dom (la_cps a)"
    using dom_map_of_conv_image_fst [of es] by (simp add: mo log_cps_view_def dom_def)
  let ?del = "log_stale_keys opts listed now (la_cps a) es"
  from log_reconcile_loop_view [OF B c v ent dist, of opts listed "[]"] obtain d1 where
    d1: "log_reconcile_loop B opts listed now es d [] = Inr (d1, ?del)"
      "tx_view B d1 (map log_out_entry (la_queue a)) (log_cps_view (log_aged listed now (fst ` set es) (la_cps a))) mm (la_seq a)"
    by auto
  from delete_keys_view [OF B d1(2), of ?del] obtain d2 where
    d2: "delete_keys B bucket_checkpoints ?del d1 = Inr d2"
      "tx_view B d2 (map log_out_entry (la_queue a))
         (\<lambda>i. if i \<in> set ?del then None else log_cps_view (log_aged listed now (fst ` set es) (la_cps a)) i) mm (la_seq a)"
    by blast
  have del: "set ?del = {i \<in> dom (la_cps a). i \<notin> listed \<and> log_expired opts now (log_absent_cp now (the (la_cps a i)))}"
    using keys by (auto simp: log_stale_keys_def)
  have cps: "(\<lambda>i. if i \<in> set ?del then None else log_cps_view (log_aged listed now (fst ` set es) (la_cps a)) i) =
      (\<lambda>i. map_option marshal_log_checkpoint (la_cps ?a i))"
    unfolding del keys
    by (auto simp: log_spec_reconcile_def log_cps_view_def log_aged_def fun_eq_iff Let_def dom_def split: option.split)
  define full where "full = (int (key_n B d2 bucket_checkpoints) \<ge> opt_max_checkpoints opts)"
  have tx: "log_reconcile_tx B opts listed now d = Inr (d2, full)"
    unfolding log_reconcile_tx_def es_def [symmetric] full_def using d1(1) d2(1) by simp
  have q: "la_queue ?a = la_queue a" "la_seq ?a = la_seq a" by (simp_all add: log_spec_reconcile_def)
  have "log_refined B d (Inr (?a, full)) False
      (update_tx B False (log_reconcile_tx B opts listed now) d)"
    using d2(2) mm log_spec_reconcile_wf [OF w c, of opts listed]
    by (intro log_refinedI [where f = "log_reconcile_tx B opts listed now", OF B tx]) (simp_all add: q cps)
  then show ?thesis
    unfolding log_refined_def log_reconcile_listed_def Let_def by auto
qed


section \<open>Reading\<close>

lemma log_records_view:
  assumes "bolt_ok B" "log_represents B d a"
  shows "0 < limit \<Longrightarrow> log_records B limit d = (take (nat limit) (la_queue a), None)"
proof -
  from assms(2) obtain mm where w: "log_abs_wf a"
    and v: "tx_view B d (map log_out_entry (la_queue a)) (\<lambda>i. map_option marshal_log_checkpoint (la_cps a i)) mm (la_seq a)"
    by (rule log_represents_view)
  have "read_log_records n (map log_out_entry q) = (take n q, None)" if "\<forall>r \<in> set q. log_rec_wf r" for q n
    using that
  proof (induction q arbitrary: n)
    case Nil
    then show ?case by (cases n) simp_all
  next
    case (Cons r q)
    then show ?case by (cases n) (simp_all add: log_out_entry_def log_rec_wf_facts(7))
  qed
  then show "log_records B limit d = (take (nat limit) (la_queue a), None)" if "0 < limit"
    using that log_abs_wf_rec [OF w] tx_viewD(1) [OF assms(1) v] by (simp add: log_records_def)
qed

lemma log_health_exact:
  assumes "bolt_ok B" "log_represents B d a"
  shows "log_health B opts d =
     (int (length (la_queue a)),
      int (length (la_queue a)) \<ge> opt_max_events opts \<or> int (log_total_bytes (la_queue a)) \<ge> opt_max_bytes opts \<or>
      int (card (dom (la_cps a))) \<ge> opt_max_checkpoints opts, None)"
proof -
  from assms(2) obtain mm where st: "settled B d" and w: "log_abs_wf a" and mm: "log_meta_map (la_queue a) mm"
    and v: "tx_view B d (map log_out_entry (la_queue a)) (\<lambda>i. map_option marshal_log_checkpoint (la_cps a i)) mm (la_seq a)"
    by (rule log_represents_view)
  have "int (key_n B d bucket_checkpoints) = int (card (dom (la_cps a)))"
    using st tx_viewD(8,9) [OF assms(1) v] by (simp add: settled_def dom_def)
  then show ?thesis
    using tx_viewD(4,6,8) [OF assms(1) v] log_meta_reads [OF w mm]
    by (simp add: log_health_def log_stats_def Let_def)
qed

lemma log_fetch_state_view:
  assumes "bolt_ok B" "log_represents B d a" "validate_log_id i = Inr ()"
  shows "log_fetch_state B i d =
     (case la_cps a i of
        None \<Rightarrow> (False, [], zero_time, None)
      | Some c \<Rightarrow> (True, lc_list_marker c,
                   if lc_last_fetched_at c \<noteq> 0 then lc_last_fetched_at c else zero_time, None))"
proof -
  from assms(2) obtain mm where w: "log_abs_wf a"
    and v: "tx_view B d (map log_out_entry (la_queue a)) (\<lambda>i. map_option marshal_log_checkpoint (la_cps a i)) mm (la_seq a)"
    by (rule log_represents_view)
  have "lc_log_id c \<noteq> []" if "la_cps a i = Some c" for c
    using log_abs_wf_cp [OF w that] assms(3) by (auto simp: log_cp_wf_def validate_log_id_Inr)
  then show ?thesis
    using tx_viewD(3) [OF assms(1) v] log_read_checkpoint_view [OF w]
    by (auto simp: log_fetch_state_def get_log_checkpoint_def zero_log_checkpoint_def time_unix0_def split: option.split)
qed


end
