(* ===== verification/Log_Props.thy ===== *)
theory Log_Props
  imports Log_Refine
begin

text \<open>
  What the serviceability log state promises, stated on the entries of the database: \<open>Open\<close> accepts a
  database exactly when it is new or its records and checkpoints are consistent, whatever its counters say,
  and recomputes the counters; the marker of a log never goes back in time.
\<close>

section \<open>Consistency of the stored data\<close>

text \<open>One queue entry: canonical, keyed by its sequence number, with a valid event inside.\<close>

definition log_entry_ok :: "bytes \<times> bytes \<Rightarrow> bool" where
  "log_entry_ok e \<longleftrightarrow>
     (\<exists>r. unmarshal_log_record (snd e) = Some r \<and> marshal_log_record r = snd e \<and>
          length (fst e) = 8 \<and> of_be64 (fst e) = lr_sequence r \<and> valid_log_record r)"

definition log_queue :: "(bytes \<times> bytes) list \<Rightarrow> log_record list" where
  "log_queue es =
     map (\<lambda>e. case unmarshal_log_record (snd e) of Some r \<Rightarrow> r | None \<Rightarrow> zero_log_record) es"

definition entry_bytes :: "(bytes \<times> bytes) list \<Rightarrow> nat" where
  "entry_bytes es = sum_list (map (\<lambda>e. length (snd e)) es)"

definition log_checkpoint_ok :: "log_record list \<Rightarrow> bytes \<times> bytes \<Rightarrow> bool" where
  "log_checkpoint_ok q e \<longleftrightarrow>
     (\<exists>c. unmarshal_log_checkpoint (snd e) = Some c \<and> marshal_log_checkpoint c = snd e \<and>
          lc_log_id c = fst e \<and> validate_log_id (fst e) = Inr () \<and>
          hash_ok (lc_pending_hash c) \<and> hash_ok (lc_delivered_hash c) \<and>
          0 \<le> lc_last_fetched_at c \<and> 0 \<le> lc_last_seen_at c \<and> 0 \<le> lc_absent_since c \<and>
          lc_pending_hash c = log_newest_hash (fst e) q)"

definition log_consistent :: "'d bolt \<Rightarrow> 'd \<Rightarrow> bool" where
  "log_consistent B d \<longleftrightarrow>
     (let es = bentries B d bucket_outbox; cs = bentries B d bucket_checkpoints in
      (\<forall>b \<in> set required_buckets. has_bucket B d b) \<and>
      (\<forall>e \<in> set es. log_entry_ok e) \<and> entry_bytes es < 18446744073709551616 \<and>
      (\<forall>e \<in> set cs. log_checkpoint_ok (log_queue es) e) \<and>
      (\<forall>r \<in> set (log_queue es). lr_log_id r \<in> fst ` set cs))"

definition log_counters :: "'d bolt \<Rightarrow> 'd \<Rightarrow> bool" where
  "log_counters B d \<longleftrightarrow>
     (let es = bentries B d bucket_outbox in
      bget B d bucket_meta key_event_count = Some (be64 (of_nat (length es))) \<and>
      bget B d bucket_meta key_event_bytes = Some (be64 (of_nat (entry_bytes es))) \<and>
      bget B d bucket_meta key_schema_version = Some current_schema)"

section \<open>The loops of Open\<close>

lemma entry_bytes_Cons [simp]: "entry_bytes (e # es) = length (snd e) + entry_bytes es"
  by (simp add: entry_bytes_def)

lemma entry_bytes_Nil [simp]: "entry_bytes [] = 0"
  by (simp add: entry_bytes_def)

lemma log_queue_simps [simp]: "log_queue [] = []"
  "log_queue (e # es) =
     (case unmarshal_log_record (snd e) of Some r \<Rightarrow> r | None \<Rightarrow> zero_log_record) # log_queue es"
  by (simp_all add: log_queue_def)

definition newest_step :: "(bytes \<rightharpoonup> bytes) \<Rightarrow> log_record \<Rightarrow> bytes \<rightharpoonup> bytes" where
  "newest_step m r = m(lr_log_id r \<mapsto> lr_content_hash r)"

lemma newest_log_map:
  "map_lookup (foldl newest_step Map.empty q) i = log_newest_hash i q"
  by (induction q rule: rev_induct)
     (auto simp: log_newest_hash_append map_lookup_def newest_step_def log_newest_hash_def log_newest_of_def)

text \<open>The overflow test of the loop, on numbers.\<close>

lemma byte_room:
  assumes "unat (used :: u64) + n < 18446744073709551616"
  shows "\<not> of_nat n > (- 1 :: u64) - used" "unat (used + of_nat n) = unat used + n"
proof -
  have u: "unat (of_nat n :: u64) = n" using assms by (simp add: unat_of_nat)
  have "unat (- 1 - used) = 18446744073709551615 - unat used"
    by (subst unat_sub) (simp_all add: unsigned_minus_1_eq_mask mask_eq_exp_minus_1)
  then show "\<not> of_nat n > (- 1 :: u64) - used" using assms u by (simp add: word_less_nat_alt)
  show "unat (used + of_nat n) = unat used + n" using assms u by (simp add: unat_word_ariths)
qed

lemma byte_no_room:
  assumes "18446744073709551616 \<le> unat (used :: u64) + n" "n < 18446744073709551616"
  shows "of_nat n > (- 1 :: u64) - used"
proof -
  have u: "unat (of_nat n :: u64) = n" using assms(2) by (simp add: unat_of_nat)
  have "unat (- 1 - used) = 18446744073709551615 - unat used"
    by (subst unat_sub) (simp_all add: unsigned_minus_1_eq_mask mask_eq_exp_minus_1)
  moreover have "18446744073709551615 - unat used < n"
    using assms(1) unsigned_less [of used, where 'a = nat] by simp
  ultimately show ?thesis using u by (simp add: word_less_nat_alt)
qed

text \<open>A decoded record has 64-bit times, and a valid one has a bounded encoding.\<close>

lemma un_int64_range: "un_int64 v c = Some x \<Longrightarrow> is_int64 c \<Longrightarrow> is_int64 x"
  by (auto simp: un_int64_def is_int64_def parse_int64_def Let_def split: json.splits option.splits if_splits list.splits)

lemma zero_int64 [simp]: "is_int64 0"
  by (simp add: is_int64_def min_int64_def max_int64_def)

lemma unmarshal_log_record_int64:
  "unmarshal_log_record s = Some r \<Longrightarrow> is_int64 (lr_created_at r)"
proof -
  assume "unmarshal_log_record s = Some r"
  then obtain j where j: "un_log_record j = Some r"
    by (auto simp: unmarshal_log_record_def bind_eq_Some_conv)
  have field: "is_int64 y" if "un_field name un_int64 ms 0 = Some y" for name ms y
    using that zero_int64 un_int64_range by (rule un_field_keeps)
  show ?thesis
  proof (cases j)
    case (JObj ms)
    with j show ?thesis by (auto simp: un_log_record_def bind_eq_Some_conv intro: field)
  qed (use j in \<open>auto simp: un_log_record_def zero_log_record_def\<close>)
qed

lemma log_entry_size: "log_entry_ok e \<Longrightarrow> length (snd e) \<le> 3000000"
  using log_record_length unmarshal_log_record_int64 by (fastforce simp: log_entry_ok_def)

theorem validate_log_records_iff:
  "validate_log_records es count used newest ids = Inr res \<longleftrightarrow>
     (\<forall>e \<in> set es. log_entry_ok e) \<and> unat used + entry_bytes es < 18446744073709551616 \<and>
     res = (count + of_nat (length es), used + of_nat (entry_bytes es),
            foldl newest_step newest (log_queue es), ids \<union> lr_log_id ` set (log_queue es))"
proof (induction es arbitrary: count used newest ids)
  case Nil
  then show ?case using unsigned_less [of used, where 'a = nat] by auto
next
  case (Cons e es)
  obtain k v where e: "e = (k, v)" by (cases e)
  show ?case
  proof (cases "log_entry_ok e")
    case False
    then show ?thesis
      by (auto simp: e log_entry_ok_def valid_log_record_def split: option.splits if_splits)
  next
    case True
    then obtain r where r: "unmarshal_log_record v = Some r" "marshal_log_record r = v" "length k = 8"
      "of_be64 k = lr_sequence r" "valid_log_record r" by (auto simp: e log_entry_ok_def)
    have nz: "lr_sequence r \<noteq> 0" using r(5) valid_log_record_facts(5) by blast
    have lv: "length v < 18446744073709551616" using log_entry_size [OF True] e by simp
    show ?thesis
    proof (cases "unat used + length v < 18446744073709551616")
      case False
      then have "of_nat (length v) > (- 1 :: u64) - used" using byte_no_room lv by simp
      then show ?thesis using False r nz by (simp add: e)
    next
      case room: True
      note br = byte_room [OF room]
      have "validate_log_records (e # es) count used newest ids =
          validate_log_records es (count + 1) (used + of_nat (length v)) (newest_step newest r)
            (insert (lr_log_id r) ids)"
        using r nz br(1) by (simp add: e newest_step_def)
      then show ?thesis
        using Cons.IH [of "count + 1" "used + of_nat (length v)" "newest_step newest r" "insert (lr_log_id r) ids"]
        using True r br(2) by (simp add: e add.assoc)
    qed
  qed
qed

lemma validate_log_checkpoints_iff:
  assumes "\<And>i. map_lookup newest i = log_newest_hash i q"
  shows "validate_log_checkpoints cs newest ids = Inr () \<longleftrightarrow>
     (\<forall>e \<in> set cs. log_checkpoint_ok q e) \<and> ids \<subseteq> fst ` set cs"
proof (induction cs arbitrary: ids)
  case (Cons e cs)
  obtain k v where e: "e = (k, v)" by (cases e)
  show ?case
  proof (cases "log_checkpoint_ok q e")
    case False
    have "validate_log_checkpoints (e # cs) newest ids \<noteq> Inr ()"
    proof (cases "unmarshal_log_checkpoint v")
      case None
      then show ?thesis by (simp add: e read_log_checkpoint_def)
    next
      case (Some c)
      have "\<not> (lc_log_id c = [] \<or> k \<noteq> lc_log_id c \<or> validate_log_id (lc_log_id c) \<noteq> Inr ()) \<Longrightarrow>
            marshal_log_checkpoint c = v \<Longrightarrow>
            \<not> list_ex (\<lambda>h. h \<noteq> [] \<and> \<not> valid_hash h) [lc_pending_hash c, lc_delivered_hash c] \<Longrightarrow>
            \<not> list_ex (\<lambda>t. t < 0) [lc_last_fetched_at c, lc_last_seen_at c, lc_absent_since c] \<Longrightarrow>
            lc_pending_hash c = map_lookup newest (lc_log_id c) \<Longrightarrow> log_checkpoint_ok q e"
        using Some by (auto simp: e log_checkpoint_ok_def hash_ok_def assms not_less)
      with False show ?thesis
        unfolding e validate_log_checkpoints.simps read_log_checkpoint_def Some option.case sum.case
        by (metis Inl_Inr_False)
    qed
    with False show ?thesis by simp
  next
    case True
    then obtain c where c: "unmarshal_log_checkpoint v = Some c" "marshal_log_checkpoint c = v" "lc_log_id c = k"
      "validate_log_id k = Inr ()" "hash_ok (lc_pending_hash c)" "hash_ok (lc_delivered_hash c)"
      "0 \<le> lc_last_fetched_at c" "0 \<le> lc_last_seen_at c" "0 \<le> lc_absent_since c"
      "lc_pending_hash c = log_newest_hash k q" by (auto simp: e log_checkpoint_ok_def)
    have "k \<noteq> []" using c(4) by (auto simp: validate_log_id_Inr)
    then show ?thesis
      using c assms Cons.IH [of "ids - {k}"] True
      by (auto simp: e read_log_checkpoint_def hash_ok_def)
  qed
qed simp

section \<open>Open\<close>

lemma log_consistent_entries:
  assumes "bentries B d' bucket_outbox = bentries B d bucket_outbox"
    and "bentries B d' bucket_checkpoints = bentries B d bucket_checkpoints"
    and "\<And>b. has_bucket B d' b = has_bucket B d b"
  shows "log_consistent B d' = log_consistent B d"
  using assms by (simp add: log_consistent_def)

lemma log_validation_iff:
  assumes "\<forall>b \<in> set required_buckets. has_bucket B d b"
  shows "(\<exists>count used newest ids.
      validate_log_records (bentries B d bucket_outbox) 0 0 Map.empty {} = Inr (count, used, newest, ids) \<and>
      validate_log_checkpoints (bentries B d bucket_checkpoints) newest ids = Inr ()) \<longleftrightarrow> log_consistent B d"
  using assms validate_log_checkpoints_iff [OF newest_log_map, of "bentries B d bucket_checkpoints"]
  by (auto simp: validate_log_records_iff log_consistent_def Let_def)

lemma log_migrate_outcome:
  assumes B: "bolt_ok B" and b: "\<forall>b \<in> set required_buckets. has_bucket B d b"
  shows "if log_consistent B d
     then \<exists>d'. log_migrate_checked B d = Inr d' \<and> log_counters B d' \<and>
            (\<forall>b. has_bucket B d' b = has_bucket B d b) \<and>
            bentries B d' bucket_outbox = bentries B d bucket_outbox \<and>
            bentries B d' bucket_checkpoints = bentries B d bucket_checkpoints \<and>
            bseq B d' bucket_outbox = bseq B d bucket_outbox
     else \<exists>e. log_migrate_checked B d = Inl e"
proof (cases "log_consistent B d")
  case False
  have "log_migrate_checked B d \<noteq> Inr d'" for d'
  proof
    assume "log_migrate_checked B d = Inr d'"
    then have "\<exists>count used newest ids.
      validate_log_records (bentries B d bucket_outbox) 0 0 Map.empty {} = Inr (count, used, newest, ids) \<and>
      validate_log_checkpoints (bentries B d bucket_checkpoints) newest ids = Inr ()"
      by (auto simp: log_migrate_checked_def split: prod.splits)
    with False log_validation_iff [OF b] show False by blast
  qed
  with False show ?thesis by (cases "log_migrate_checked B d") auto
next
  case True
  let ?es = "bentries B d bucket_outbox" and ?cs = "bentries B d bucket_checkpoints"
  have hb: "has_bucket B d bucket_meta" using b by (simp add: required_buckets_def)
  from True log_validation_iff [OF b] obtain count used newest ids where
    v: "validate_log_records ?es 0 0 Map.empty {} = Inr (count, used, newest, ids)"
      "validate_log_checkpoints ?cs newest ids = Inr ()" by blast
  then have cu: "count = of_nat (length ?es)" "used = of_nat (entry_bytes ?es)"
    by (simp_all add: validate_log_records_iff)
  obtain d1 where d1: "putE B bucket_meta key_event_count (be64 count) d = Inr d1" "same_but B bucket_meta d d1"
    "bentries B d1 bucket_meta = kv_put key_event_count (be64 count) (bentries B d bucket_meta)"
    using bolt_put [OF B hb kv_valid_meta(1)] by blast
  have hb1: "has_bucket B d1 bucket_meta" using same_butD(1) [OF d1(2)] hb by simp
  obtain d2 where d2: "putE B bucket_meta key_event_bytes (be64 used) d1 = Inr d2" "same_but B bucket_meta d1 d2"
    "bentries B d2 bucket_meta = kv_put key_event_bytes (be64 used) (bentries B d1 bucket_meta)"
    using bolt_put [OF B hb1 kv_valid_meta(2)] by blast
  have hb2: "has_bucket B d2 bucket_meta" using same_butD(1) [OF d2(2)] hb1 by simp
  obtain d3 where d3: "putE B bucket_meta key_schema_version current_schema d2 = Inr d3" "same_but B bucket_meta d2 d3"
    "bentries B d3 bucket_meta = kv_put key_schema_version current_schema (bentries B d2 bucket_meta)"
    using bolt_put [OF B hb2 kv_valid_meta(3)] by blast
  have other: "bentries B d3 bucket_outbox = ?es" "bentries B d3 bucket_checkpoints = ?cs"
    "has_bucket B d3 b = has_bucket B d b" "bseq B d3 bucket_outbox = bseq B d bucket_outbox" for b
    using same_butD [OF d1(2)] same_butD [OF d2(2)] same_butD [OF d3(2)] by simp_all
  have "map_of (bentries B d3 bucket_meta) =
      (map_of (bentries B d bucket_meta))(key_event_count \<mapsto> be64 count, key_event_bytes \<mapsto> be64 used,
         key_schema_version \<mapsto> current_schema)"
    using bolt_sorted [OF B] by (simp add: d1(3) d2(3) d3(3) map_of_kv_put kv_put_sorted)
  then have "log_counters B d3"
    using cu by (simp add: log_counters_def Let_def other bolt_get [OF B])
  moreover have "log_migrate_checked B d = Inr d3"
    using v d1(1) d2(1) d3(1) by (simp add: log_migrate_checked_def)
  ultimately show ?thesis using True other by auto
qed

lemma log_open_outcome:
  assumes B: "bolt_ok B" and o: "options_ok opts" and b: "\<forall>b \<in> set required_buckets. has_bucket B d b"
    and v: "bget B d bucket_meta key_schema_version \<in> {None, Some current_schema}"
    and r: "log_open_store B opts d = (d', err)"
  shows "if err = None
     then log_consistent B d \<and> log_consistent B d' \<and> log_counters B d' \<and>
          bentries B d' bucket_outbox = bentries B d bucket_outbox \<and>
          bentries B d' bucket_checkpoints = bentries B d bucket_checkpoints \<and>
          bseq B d' bucket_outbox = bseq B d bucket_outbox
     else d' = d \<and> (\<not> log_consistent B d \<or> commit_fails B)"
proof -
  have "filter (has_bucket B d) required_buckets = required_buckets" using b by (intro filter_id_iff) simp
  then have "log_open_tx B d = bindE (log_validate_and_migrate B d) (\<lambda>d2. Inr (d2, ()))"
    by (simp add: log_open_tx_def required_buckets_def guardE_def)
  moreover have "log_validate_and_migrate B d = log_migrate_checked B d"
    using b v by (auto simp: log_validate_and_migrate_def required_buckets_def)
  ultimately have tx: "log_open_tx B d = bindE (log_migrate_checked B d) (\<lambda>d2. Inr (d2, ()))" by simp
  note m = log_migrate_outcome [OF B b]
  show ?thesis
  proof (cases "log_consistent B d")
    case False
    with m obtain e where "log_migrate_checked B d = Inl e" by auto
    with r o False show ?thesis by (auto simp: log_open_store_def tx update_tx_def split: if_splits)
  next
    case True
    with m obtain d1 where d1: "log_migrate_checked B d = Inr d1" "log_counters B d1"
      "\<And>b. has_bucket B d1 b = has_bucket B d b" "bentries B d1 bucket_outbox = bentries B d bucket_outbox"
      "bentries B d1 bucket_checkpoints = bentries B d bucket_checkpoints"
      "bseq B d1 bucket_outbox = bseq B d bucket_outbox" by auto
    show ?thesis
    proof (cases "commit B d1")
      case None
      then have "commit_fails B" by (auto simp: commit_fails_def)
      with None r o d1(1) show ?thesis by (auto simp: log_open_store_def tx update_tx_def)
    next
      case (Some d2)
      with r o d1(1) have "d' = d2" "err = None" by (auto simp: log_open_store_def tx update_tx_def)
      moreover note c = bolt_commit [OF B Some]
      have "log_consistent B d2" using True d1(3-5) c(2,3) log_consistent_entries [of B d2 d] by simp
      moreover have "log_counters B d2" using d1(2) c(3) by (simp add: log_counters_def bolt_get [OF B])
      ultimately show ?thesis using True d1 c(3,4) by simp
    qed
  qed
qed

text \<open>The databases that Open accepts: a new one, or a consistent one of this schema.\<close>

definition log_openable :: "'d bolt \<Rightarrow> 'd \<Rightarrow> bool" where
  "log_openable B d \<longleftrightarrow>
     (\<forall>b \<in> set required_buckets. \<not> has_bucket B d b) \<or>
     log_consistent B d \<and> bget B d bucket_meta key_schema_version \<in> {None, Some current_schema}"

lemma log_corruption_class: "errors_as_class (log_corruption m) = Some ClassInternal"
  by (simp add: log_corruption_def)

lemma validate_log_records_error:
  "validate_log_records es count used newest ids = Inl e \<Longrightarrow> \<exists>m. e = log_corruption m"
proof (induction es arbitrary: count used newest ids)
  case (Cons a es)
  then show ?case by (cases a) (auto split: if_splits option.splits)
qed simp

lemma validate_log_checkpoints_error:
  "validate_log_checkpoints cs newest ids = Inl e \<Longrightarrow> \<exists>m. e = log_corruption m"
proof (induction cs arbitrary: ids)
  case (Cons a cs)
  then show ?case by (cases a) (auto split: if_splits sum.splits)
qed (auto split: if_splits)

lemma log_migrate_refused:
  assumes "\<forall>b \<in> set required_buckets. has_bucket B d b" and "\<not> log_consistent B d"
  shows "\<exists>m. log_migrate_checked B d = Inl (log_corruption m)"
proof (cases "validate_log_records (bentries B d bucket_outbox) 0 0 Map.empty {}")
  case (Inl e)
  then show ?thesis using validate_log_records_error [OF Inl] by (auto simp: log_migrate_checked_def)
next
  case (Inr r)
  obtain count used newest ids where r: "r = (count, used, newest, ids)" by (cases r) auto
  then have "validate_log_checkpoints (bentries B d bucket_checkpoints) newest ids \<noteq> Inr ()"
    using Inr assms(2) log_validation_iff [OF assms(1)] by blast
  then obtain e where e: "validate_log_checkpoints (bentries B d bucket_checkpoints) newest ids = Inl e"
    by (cases "validate_log_checkpoints (bentries B d bucket_checkpoints) newest ids") auto
  then show ?thesis
    using validate_log_checkpoints_error [OF e] by (auto simp: log_migrate_checked_def Inr r)
qed

lemma create_required:
  assumes B: "bolt_ok B" and new: "\<forall>b \<in> set required_buckets. \<not> has_bucket B d b"
  obtains d' where "create_buckets B required_buckets d = Inr d'" "\<forall>b \<in> set required_buckets. has_bucket B d' b"
    "bentries B d' bucket_meta = []" "bentries B d' bucket_outbox = []" "bentries B d' bucket_checkpoints = []"
proof -
  have n: "\<not> has_bucket B d bucket_meta" "\<not> has_bucket B d bucket_outbox" "\<not> has_bucket B d bucket_checkpoints"
    using new by (simp_all add: required_buckets_def)
  obtain d1 where d1: "createE B bucket_meta d = Inr d1" "bentries B d1 bucket_meta = []"
    "\<And>b. has_bucket B d1 b = (b = bucket_meta \<or> has_bucket B d b)"
    using bolt_create [OF B n(1)] by (metis buckets_distinct(7))
  have n2: "\<not> has_bucket B d1 bucket_outbox" using n by (simp add: d1)
  obtain d2 where d2: "createE B bucket_outbox d1 = Inr d2" "bentries B d2 bucket_outbox = []"
    "bentries B d2 bucket_meta = []" "\<And>b. has_bucket B d2 b = (b = bucket_outbox \<or> has_bucket B d1 b)"
    using bolt_create [OF B n2] d1(2) by (metis buckets_distinct(1,8))
  have n3: "\<not> has_bucket B d2 bucket_checkpoints" using n by (simp add: d1 d2)
  obtain d3 where d3: "createE B bucket_checkpoints d2 = Inr d3" "bentries B d3 bucket_checkpoints = []"
    "bentries B d3 bucket_meta = []" "bentries B d3 bucket_outbox = []"
    "\<And>b. has_bucket B d3 b = (b = bucket_checkpoints \<or> has_bucket B d2 b)"
    using bolt_create [OF B n3] d2(2-3) by (metis buckets_distinct(2,4,9))
  show ?thesis
    using d1(1,3) d2(1,4) d3 by (intro that [of d3]) (simp_all add: required_buckets_def)
qed

lemma log_validate_outcome:
  assumes B: "bolt_ok B" and b: "\<forall>b \<in> set required_buckets. has_bucket B d b"
  shows "if log_openable B d
     then \<exists>d'. log_validate_and_migrate B d = Inr d' \<and> log_consistent B d' \<and> log_counters B d' \<and>
            bentries B d' bucket_outbox = bentries B d bucket_outbox \<and>
            bentries B d' bucket_checkpoints = bentries B d bucket_checkpoints
     else \<exists>m. log_validate_and_migrate B d = Inl (log_corruption m)"
proof (cases "bget B d bucket_meta key_schema_version \<in> {None, Some current_schema}")
  case True
  have o: "log_openable B d = log_consistent B d"
    using b True by (auto simp: log_openable_def required_buckets_def)
  have "log_validate_and_migrate B d = log_migrate_checked B d"
    using b True by (auto simp: log_validate_and_migrate_def required_buckets_def)
  then show ?thesis
    using log_migrate_outcome [OF B b] log_migrate_refused [OF b] log_consistent_entries
    unfolding o by (metis (lifting))
next
  case False
  then have "\<not> log_openable B d" using b by (auto simp: log_openable_def required_buckets_def)
  moreover obtain v where "bget B d bucket_meta key_schema_version = Some v" "v \<noteq> current_schema"
    using False by auto
  ultimately show ?thesis using b by (auto simp: log_validate_and_migrate_def required_buckets_def)
qed

lemma log_open_tx_outcome:
  assumes B: "bolt_ok B"
  shows "if log_openable B d
     then \<exists>d'. log_open_tx B d = Inr (d', ()) \<and> log_consistent B d' \<and> log_counters B d' \<and>
            (if has_bucket B d bucket_outbox
             then bentries B d' bucket_outbox = bentries B d bucket_outbox \<and>
                  bentries B d' bucket_checkpoints = bentries B d bucket_checkpoints
             else bentries B d' bucket_outbox = [] \<and> bentries B d' bucket_checkpoints = [])
     else \<exists>m. log_open_tx B d = Inl (log_corruption m)"
proof (cases "\<forall>b \<in> set required_buckets. has_bucket B d b")
  case True
  then have "filter (has_bucket B d) required_buckets = required_buckets" by (intro filter_id_iff) simp
  then have "log_open_tx B d = bindE (log_validate_and_migrate B d) (\<lambda>d2. Inr (d2, ()))"
    by (simp add: log_open_tx_def required_buckets_def guardE_def)
  moreover have "has_bucket B d bucket_outbox" using True by (simp add: required_buckets_def)
  ultimately show ?thesis using log_validate_outcome [OF B True] by (auto split: if_splits)
next
  case False
  show ?thesis
  proof (cases "\<forall>b \<in> set required_buckets. \<not> has_bucket B d b")
    case True
    obtain d1 where d1: "create_buckets B required_buckets d = Inr d1" "\<forall>b \<in> set required_buckets. has_bucket B d1 b"
      "bentries B d1 bucket_meta = []" "bentries B d1 bucket_outbox = []" "bentries B d1 bucket_checkpoints = []"
      by (rule create_required [OF B True])
    have "filter (has_bucket B d) required_buckets = []" using True by (intro filter_False) simp
    then have "log_open_tx B d = bindE (log_validate_and_migrate B d1) (\<lambda>d2. Inr (d2, ()))"
      by (simp add: log_open_tx_def d1(1) guardE_def)
    moreover have "log_openable B d1"
      using d1 by (simp add: log_openable_def log_consistent_def bolt_get [OF B])
    moreover have "log_openable B d" "\<not> has_bucket B d bucket_outbox"
      using True by (simp_all add: log_openable_def required_buckets_def)
    ultimately show ?thesis using log_validate_outcome [OF B d1(2)] d1(4,5) by auto
  next
    case partial: False
    then have "\<not> log_openable B d" using False by (simp add: log_openable_def log_consistent_def Let_def)
    moreover have "length (filter (has_bucket B d) required_buckets) \<noteq> 0"
      "length (filter (has_bucket B d) required_buckets) \<noteq> 3"
      using False partial by (auto simp: required_buckets_def)
    ultimately show ?thesis by (simp add: log_open_tx_def guardE_def) (rule exI, rule refl)
  qed
qed

section \<open>Checkpoints\<close>

text \<open>Writing a checkpoint and reading it back, in the same transaction and after the commit.\<close>

lemma put_log_checkpoint_read:
  assumes B: "bolt_ok B" and b: "has_bucket B d bucket_checkpoints" and w: "log_cp_wf i c"
  obtains d' where "put_log_checkpoint B c d = Inr d'" "same_but B bucket_checkpoints d d'"
    "read_log_checkpoint (bget B d' bucket_checkpoints i) = Inr c"
    "\<And>j. j \<noteq> i \<Longrightarrow> bget B d' bucket_checkpoints j = bget B d bucket_checkpoints j"
proof -
  have i: "lc_log_id c = i" using w by (simp add: log_cp_wf_def)
  obtain d' where d': "putE B bucket_checkpoints i (marshal_log_checkpoint c) d = Inr d'"
    "same_but B bucket_checkpoints d d'"
    "bentries B d' bucket_checkpoints = kv_put i (marshal_log_checkpoint c) (bentries B d bucket_checkpoints)"
    using bolt_put [OF B b log_cp_kv_valid [OF w]] by blast
  have "bget B d' bucket_checkpoints = (bget B d bucket_checkpoints)(i \<mapsto> marshal_log_checkpoint c)"
    by (simp add: fun_eq_iff bolt_get [OF B] d'(3) map_of_kv_put bolt_sorted [OF B])
  then show ?thesis
    using d' i by (intro that [of d']) (simp_all add: put_log_checkpoint_def read_log_checkpoint_def
        log_cp_wf_unmarshal [OF w])
qed

section \<open>Markers\<close>

lemma older_marker_irrefl [simp]: "\<not> older_marker m m"
  by (simp add: older_marker_def split: option.split)

lemma older_marker_asym: "older_marker m n \<Longrightarrow> \<not> older_marker n m"
  by (simp add: older_marker_def split: option.splits)

lemma stamp_clock: "clock_ok t \<Longrightarrow> stamp_ok t"
  by (simp add: clock_ok_def stamp_ok_def)

lemma log_identity_known: "log_cp_wf i c \<Longrightarrow> log_identity B opts i c d = Inr c"
  by (auto simp: log_identity_def log_cp_wf_def validate_log_id_Inr)

lemma log_mark_seen_tx_result:
  assumes B: "bolt_ok B" and b: "has_bucket B d bucket_checkpoints"
    and c: "read_log_checkpoint (bget B d bucket_checkpoints i) = Inr c" "log_cp_wf i c"
    and m: "marker_ok marker" "clock_ok now"
  obtains d1 where "log_mark_seen_tx B opts i marker now d = Inr (d1, ())"
    "read_log_checkpoint (bget B d1 bucket_checkpoints i) =
       Inr (c\<lparr>lc_list_marker := if older_marker marker (lc_list_marker c) then lc_list_marker c else marker,
              lc_last_seen_at := now, lc_absent_since := 0\<rparr>)"
    "\<And>j. j \<noteq> i \<Longrightarrow> bget B d1 bucket_checkpoints j = bget B d bucket_checkpoints j"
proof -
  let ?c = "c\<lparr>lc_list_marker := if older_marker marker (lc_list_marker c) then lc_list_marker c else marker,
                   lc_last_seen_at := now, lc_absent_since := 0\<rparr>"
  have w: "log_cp_wf i ?c" using c(2) m stamp_clock [OF m(2)]
    by (simp add: log_cp_wf_def stamp_ok_def max_int64_def)
  obtain d1 where d1: "put_log_checkpoint B ?c d = Inr d1"
    "read_log_checkpoint (bget B d1 bucket_checkpoints i) = Inr ?c"
    "\<And>j. j \<noteq> i \<Longrightarrow> bget B d1 bucket_checkpoints j = bget B d bucket_checkpoints j"
    using put_log_checkpoint_read [OF B b w] by blast
  have "log_mark_seen_tx B opts i marker now d = Inr (d1, ())"
    using d1(1) m(2) unfolding log_mark_seen_tx_def c(1) bindE_simps log_identity_known [OF c(2)] Let_def
    by (cases "older_marker marker (lc_list_marker c)") simp_all
  from this d1(2,3) show ?thesis by (rule that)
qed

lemma log_mark_seen_marker:
  assumes B: "bolt_ok B" and b: "has_bucket B d bucket_checkpoints"
    and c: "read_log_checkpoint (bget B d bucket_checkpoints i) = Inr c" "log_cp_wf i c"
    and m: "marker_ok marker" "clock_ok now"
    and r: "log_mark_seen B opts i marker now d = (d', err)"
  shows "if err = None
     then read_log_checkpoint (bget B d' bucket_checkpoints i) =
            Inr (c\<lparr>lc_list_marker := if older_marker marker (lc_list_marker c) then lc_list_marker c else marker,
                   lc_last_seen_at := now, lc_absent_since := 0\<rparr>) \<and>
          (\<forall>j. j \<noteq> i \<longrightarrow> bget B d' bucket_checkpoints j = bget B d bucket_checkpoints j)
     else d' = d \<and> commit_fails B"
proof -
  obtain d1 where d1: "log_mark_seen_tx B opts i marker now d = Inr (d1, ())"
    "read_log_checkpoint (bget B d1 bucket_checkpoints i) =
       Inr (c\<lparr>lc_list_marker := if older_marker marker (lc_list_marker c) then lc_list_marker c else marker,
              lc_last_seen_at := now, lc_absent_since := 0\<rparr>)"
    "\<And>j. j \<noteq> i \<Longrightarrow> bget B d1 bucket_checkpoints j = bget B d bucket_checkpoints j"
    using log_mark_seen_tx_result [OF B b c m] by blast
  show ?thesis
  proof (cases "commit B d1")
    case None
    then show ?thesis using r d1(1) by (auto simp: log_mark_seen_def update_tx_def commit_fails_def)
  next
    case (Some d2)
    then have "d' = d2" "err = None" using r d1(1) by (simp_all add: log_mark_seen_def update_tx_def)
    then show ?thesis using d1(2,3) bolt_commit(3) [OF B Some] by (simp add: bolt_get [OF B])
  qed
qed

section \<open>Examples\<close>

definition empty_db :: ref_db where
  "empty_db = [(bucket_meta, [], 0), (bucket_outbox, [], 0), (bucket_checkpoints, [], 0)]"

lemma empty_db_buckets: "\<forall>b \<in> set required_buckets. has_bucket ref_bolt empty_db b"
  by (simp add: required_buckets_def ref_bolt_def empty_db_def)

lemma empty_db_entries [simp]: "bentries ref_bolt empty_db b = []"
  by (simp add: ref_bolt_def ref_entries_def ref_bucket_def empty_db_def split: option.split)

lemma empty_db_consistent: "log_consistent ref_bolt empty_db"
  using empty_db_buckets by (simp add: log_consistent_def)

definition example_log_cp :: log_checkpoint where
  "example_log_cp = zero_log_checkpoint\<lparr>lc_log_id := ''l/1'', lc_list_marker := ''m''\<rparr>"

lemma example_log_cp_wf: "log_cp_wf ''l/1'' example_log_cp"
  using example_log_id example_marker
  by (simp add: log_cp_wf_def example_log_cp_def zero_log_checkpoint_def hash_ok_def stamp_ok_def max_int64_def)

lemma example_log_db:
  "\<exists>d. has_bucket ref_bolt d bucket_checkpoints \<and>
       read_log_checkpoint (bget ref_bolt d bucket_checkpoints ''l/1'') = Inr example_log_cp"
proof -
  have b: "has_bucket ref_bolt empty_db bucket_checkpoints"
    using empty_db_buckets by (simp add: required_buckets_def)
  from put_log_checkpoint_read [OF ref_bolt_ok b example_log_cp_wf] b show ?thesis
    by (metis same_butD(1))
qed

section \<open>Events and the first state\<close>

lemma build_log_event_ok:
  assumes "build_log_event source i d obs = Inr x" "log_times_in_range d" "log_detail_typed d" "year_ok obs"
  shows "log_event_ok x" "lev_log_id (el_event x) = i"
proof -
  note v = build_log_event_valid [OF assms]
  from assms(1) show "log_event_ok x"
    by (rule build_log_event_Inr) (use v in \<open>simp add: log_event_ok_def\<close>)
  from assms(1) show "lev_log_id (el_event x) = i" by (rule build_log_event_Inr)
qed

lemma empty_db_seq: "bseq ref_bolt empty_db bucket_outbox = 0"
  by (simp add: ref_bolt_def ref_bucket_def empty_db_def)

lemma example_log_open: "\<exists>d. log_represents ref_bolt d empty_log_abs"
proof -
  obtain d err where d: "log_open_store ref_bolt example_options empty_db = (d, err)" by fastforce
  have v: "bget ref_bolt empty_db bucket_meta key_schema_version \<in> {None, Some current_schema}"
    by (simp add: bolt_get [OF ref_bolt_ok])
  note o = log_open_outcome [OF ref_bolt_ok example_options_ok(1) empty_db_buckets v d]
  have c: "bseq ref_bolt d bucket_outbox = 0" "log_consistent ref_bolt d" "log_counters ref_bolt d" "bentries ref_bolt d bucket_outbox = []"
    "bentries ref_bolt d bucket_checkpoints = []"
    using o empty_db_consistent ref_commits empty_db_seq by (auto split: if_splits)
  have b: "\<forall>b \<in> set required_buckets. has_bucket ref_bolt d b" using c(2) by (simp add: log_consistent_def Let_def)
  have "tx_view ref_bolt d (map log_out_entry (la_queue empty_log_abs))
      (\<lambda>i. map_option marshal_log_checkpoint (la_cps empty_log_abs i)) (bget ref_bolt d bucket_meta) (la_seq empty_log_abs)"
    using b c by (simp add: tx_view_def empty_log_abs_def fun_eq_iff bolt_get [OF ref_bolt_ok])
  moreover have "log_meta_map (la_queue empty_log_abs) (bget ref_bolt d bucket_meta)"
    using c(3,4) by (simp add: log_counters_def log_meta_map_def empty_log_abs_def log_total_bytes_def Let_def)
  ultimately have "log_represents ref_bolt d empty_log_abs"
    using ref_settled by (auto simp: log_represents_def log_content_def)
  then show ?thesis by blast
qed

section \<open>Properties\<close>

text \<open>
  Claim C17. Open of the log state decides every database. It succeeds exactly on a database with none of its buckets,
  which it sets up empty, and on one with all of them, no foreign schema version and consistent data: every
  queued record is canonical, keyed by its sequence number and carries a valid event of its log, and every
  checkpoint is canonical and shows as pending the hash of the newest queued record of its log. The stored
  counters are not consulted: after a success the records and checkpoints are as before and the counters are
  the true ones. All other databases are refused with a corruption error and left unchanged; apart from that
  only bad options and a failed commit make Open fail.
\<close>

theorem log_open_decides_consistency:
  assumes "bolt_ok B"
  shows "case log_open_store B opts d of
     (d', None) \<Rightarrow> options_ok opts \<and> log_openable B d \<and> log_consistent B d' \<and> log_counters B d' \<and>
        (if has_bucket B d bucket_outbox
         then bentries B d' bucket_outbox = bentries B d bucket_outbox \<and>
              bentries B d' bucket_checkpoints = bentries B d bucket_checkpoints
         else bentries B d' bucket_outbox = [] \<and> bentries B d' bucket_checkpoints = [])
   | (d', Some e) \<Rightarrow> d' = d \<and>
        (if \<not> options_ok opts then e = Plain ''invalid serviceability log state options''
         else if \<not> log_openable B d then \<exists>m. e = log_corruption m
         else commit_fails B \<and> e = Plain ''cannot initialize serviceability log state'')"
proof (cases "options_ok opts \<and> log_openable B d")
  case False
  then show ?thesis
    using log_open_tx_outcome [OF assms, of d]
    by (auto simp: log_open_store_def update_tx_def log_corruption_class) (rule exI, rule refl)
next
  case True
  then obtain d1 where d1: "log_open_tx B d = Inr (d1, ())" "log_consistent B d1" "log_counters B d1"
    "if has_bucket B d bucket_outbox
     then bentries B d1 bucket_outbox = bentries B d bucket_outbox \<and>
          bentries B d1 bucket_checkpoints = bentries B d bucket_checkpoints
     else bentries B d1 bucket_outbox = [] \<and> bentries B d1 bucket_checkpoints = []"
    using log_open_tx_outcome [OF assms, of d] by auto
  show ?thesis
  proof (cases "commit B d1")
    case None
    then show ?thesis
      using True d1(1) by (auto simp: log_open_store_def update_tx_def commit_fails_def commit_error_def)
  next
    case (Some d2)
    note c = bolt_commit [OF assms Some]
    have "log_consistent B d2" using d1(2) c(2,3) log_consistent_entries [of B d2 d1] by simp
    moreover have "log_counters B d2" using d1(3) c(3) by (simp add: log_counters_def bolt_get [OF assms])
    ultimately show ?thesis using True d1(1,4) c(3) Some by (simp add: log_open_store_def update_tx_def)
  qed
qed

lemma log_open_decides_consistency_witness:
  "\<exists>d' d'' m. log_open_store ref_bolt example_options empty_db = (d', None) \<and> log_counters ref_bolt d' \<and>
     log_open_store ref_bolt example_options [] = (d'', None) \<and> log_counters ref_bolt d'' \<and>
     log_open_store ref_bolt example_options (tl empty_db) = (tl empty_db, Some (log_corruption m))"
proof -
  have "log_openable ref_bolt empty_db"
    using empty_db_consistent by (simp add: log_openable_def bolt_get [OF ref_bolt_ok])
  moreover have "log_openable ref_bolt []" by (simp add: log_openable_def ref_bolt_def)
  moreover have "\<not> log_openable ref_bolt (tl empty_db)"
    by (simp add: log_openable_def log_consistent_def required_buckets_def ref_bolt_def empty_db_def Let_def)
  moreover
  note p = log_open_decides_consistency [OF ref_bolt_ok, of example_options]
  note p [of empty_db] p [of "[]"] p [of "tl empty_db"] ref_commits example_options_ok(1)
  ultimately show ?thesis by (auto split: prod.splits option.splits)
qed

text \<open>
  Claim C18. The marker of a log never goes back in time. MarkSeen stores the listed marker, except when the listed and
  the stored marker are both RFC 3339 timestamps and the listed one is the earlier instant: then the stored
  one stays. So a stored timestamp is only ever followed by one that is not earlier. The hashes and the fetch
  time are kept, the log counts as seen now, and no other checkpoint changes.
\<close>

theorem log_marker_never_goes_back:
  assumes "bolt_ok B" and "has_bucket B d bucket_checkpoints"
    and "read_log_checkpoint (bget B d bucket_checkpoints i) = Inr c" and "log_cp_wf i c"
    and "marker_ok marker" and "clock_ok now" and "log_mark_seen B opts i marker now d = (d', None)"
  shows "\<exists>m. read_log_checkpoint (bget B d' bucket_checkpoints i) =
            Inr (c\<lparr>lc_list_marker := m, lc_last_seen_at := now, lc_absent_since := 0\<rparr>) \<and>
         m = (case (parse_rfc3339 marker, parse_rfc3339 (lc_list_marker c)) of
                (Some new, Some old) \<Rightarrow> if new < old then lc_list_marker c else marker
              | _ \<Rightarrow> marker) \<and>
         (\<forall>old new. parse_rfc3339 (lc_list_marker c) = Some old \<and> parse_rfc3339 m = Some new \<longrightarrow> old \<le> new) \<and>
         (\<forall>j. j \<noteq> i \<longrightarrow> bget B d' bucket_checkpoints j = bget B d bucket_checkpoints j)"
  using log_mark_seen_marker [OF assms] by (auto simp: older_marker_def split: option.split)

lemma log_marker_never_goes_back_witness:
  "\<exists>d d' c. lc_list_marker c = ''9999-12-31T23:59:59-01:00'' \<and>
     read_log_checkpoint (bget ref_bolt d bucket_checkpoints ''l/1'') = Inr c \<and>
     log_mark_seen ref_bolt example_options ''l/1'' (format_rfc3339 0) 1 d = (d', None) \<and>
     read_log_checkpoint (bget ref_bolt d' bucket_checkpoints ''l/1'') = Inr (c\<lparr>lc_last_seen_at := 1\<rparr>)"
proof -
  define c where "c = example_log_cp\<lparr>lc_list_marker := ''9999-12-31T23:59:59-01:00''\<rparr>"
  have fm: "lc_list_marker c = ''9999-12-31T23:59:59-01:00''" and ab: "lc_absent_since c = 0"
    by (simp_all add: c_def example_log_cp_def zero_log_checkpoint_def)
  have m: "marker_ok (format_rfc3339 0)"
  proof -
    have "utf8_valid (format_rfc3339 0)" using format_rfc3339_plain by (fastforce intro: utf8_valid_ascii)
    then show ?thesis using length_format_rfc3339 [OF example_year] by (simp add: marker_ok_def)
  qed
  have w: "log_cp_wf ''l/1'' c"
    using example_log_cp_wf by (simp add: c_def log_cp_wf_def marker_ok_def byte_def)
  have b: "has_bucket ref_bolt empty_db bucket_checkpoints"
    using empty_db_buckets by (simp add: required_buckets_def)
  obtain d where p: "same_but ref_bolt bucket_checkpoints empty_db d"
    and d2: "read_log_checkpoint (bget ref_bolt d bucket_checkpoints ''l/1'') = Inr c"
    by (rule put_log_checkpoint_read [OF ref_bolt_ok b w])
  have d1: "has_bucket ref_bolt d bucket_checkpoints" using same_butD(1) [OF p] b by simp
  note d = d1 d2
  obtain d' err where r: "log_mark_seen ref_bolt example_options ''l/1'' (format_rfc3339 0) 1 d = (d', err)" by fastforce
  have e: "err = None" using log_mark_seen_marker [OF ref_bolt_ok d w m example_clock(1) r] ref_commits by meson
  have z: "parse_rfc3339 (format_rfc3339 0) = Some 0"
    using example_year by (simp add: parse_format_rfc3339 year_ok_def)
  have old: "parse_rfc3339 (lc_list_marker c) = Some far_time" "0 < far_time"
    using parse_far_time by (simp_all add: fm far_time_def)
  have "read_log_checkpoint (bget ref_bolt d' bucket_checkpoints ''l/1'') =
      Inr (c\<lparr>lc_list_marker := lc_list_marker c, lc_last_seen_at := 1, lc_absent_since := 0\<rparr>)"
    using log_marker_never_goes_back [OF ref_bolt_ok d w m example_clock(1) r [unfolded e]] old
    by (simp add: z)
  then have "read_log_checkpoint (bget ref_bolt d' bucket_checkpoints ''l/1'') = Inr (c\<lparr>lc_last_seen_at := 1\<rparr>)"
    using ab by (cases c) simp
  with r d(2) e fm show ?thesis by blast
qed

end
