(* ===== verification/Log_Publisher.thy ===== *)
theory Log_Publisher
  imports Publisher Log_Props
begin

text \<open>
  The publisher of the serviceability logs (\<open>internal/logpublisher/publisher.go\<close>): the loop of
  \<open>Publisher\<close> on the log state, the log topic and the log diagnostics. The two contracts of the loop
  are interpreted on the log state and on the log part of the diagnostics.
\<close>

section \<open>The loop on the log state\<close>

definition log_queue_ops :: "'d bolt \<Rightarrow> store_options \<Rightarrow> ('d, log_record) queue_ops" where
  "log_queue_ops B opts =
     \<lparr>q_records = (\<lambda>n d. log_records B (int n) d), q_ack = log_acknowledge B, q_health = log_health B opts,
      q_seq = lr_sequence\<rparr>"

definition log_diag :: "'f view diag_ops" where
  "log_diag =
     \<lparr>dg_healthy = set_log_publisher_state_healthy, dg_buffered = set_log_buffered,
      dg_full = set_log_state_full, dg_publish = record_log_publish\<rparr>"

definition log_send :: "'k produce \<Rightarrow> bytes \<Rightarrow> log_record \<Rightarrow> 'k \<Rightarrow> 'k \<times> go_error option" where
  "log_send produce topic r = publish_log produce topic (lr_record_key r) (lr_payload r)"

definition log_flush ::
  "'d bolt \<Rightarrow> store_options \<Rightarrow> (log_record \<Rightarrow> 'k \<Rightarrow> 'k \<times> go_error option) \<Rightarrow> (nat \<Rightarrow> go_duration)
   \<Rightarrow> ('d, 'k, 'f view) publisher \<Rightarrow> ('d, 'k, 'f view) publisher" where
  "log_flush B opts send since p = flush (log_queue_ops B opts) log_diag send since p"

text \<open>\<open>Run\<close>: a flush at once, then one per tick.\<close>

definition log_publisher_run ::
  "'d bolt \<Rightarrow> store_options \<Rightarrow> (log_record \<Rightarrow> 'k \<Rightarrow> 'k \<times> go_error option) \<Rightarrow> (nat \<Rightarrow> go_duration) list
   \<Rightarrow> ('d, 'k, 'f view) publisher \<Rightarrow> ('d, 'k, 'f view) publisher" where
  "log_publisher_run B opts send ticks p = foldl (\<lambda>p since. log_flush B opts send since p) p ticks"

section \<open>The contracts\<close>

definition log_inv :: "'d bolt \<Rightarrow> 'd \<Rightarrow> bool" where
  "log_inv B d \<longleftrightarrow> bolt_ok B \<and> (\<exists>a. log_represents B d a)"

definition log_queued :: "'d bolt \<Rightarrow> 'd \<Rightarrow> log_record list" where
  "log_queued B d = log_queue (bentries B d bucket_outbox)"

lemma log_queued_view:
  assumes "bolt_ok B" and "log_represents B d a"
  shows "log_queued B d = la_queue a"
proof -
  from assms(2) obtain mm where w: "log_abs_wf a"
    and v: "tx_view B d (map log_out_entry (la_queue a)) (\<lambda>i. map_option marshal_log_checkpoint (la_cps a i)) mm (la_seq a)"
    by (rule log_represents_view)
  have "log_queue (map log_out_entry q) = q" if "\<forall>r \<in> set q. log_rec_wf r" for q
    using that by (induction q) (simp_all add: log_out_entry_def log_rec_wf_facts(7))
  then show ?thesis
    using log_abs_wf_rec [OF w] tx_viewD(1) [OF assms(1) v] by (simp add: log_queued_def)
qed

lemma log_head_is_oldest:
  assumes "log_abs_wf a" and "la_queue a = r # rs"
  shows "oldest_of_log (lr_sequence r) (la_queue a)" "log_remove_seq (lr_sequence r) (la_queue a) = rs"
proof -
  have s: "sorted_wrt (\<lambda>r s. lr_sequence r < lr_sequence s) (r # rs)"
    using assms by (simp add: log_abs_wf_def)
  then show "oldest_of_log (lr_sequence r) (la_queue a)"
    unfolding oldest_of_log_def assms(2) by (auto dest: less_imp_le)
  have "\<forall>x \<in> set rs. lr_sequence x \<noteq> lr_sequence r" using s by auto
  then show "log_remove_seq (lr_sequence r) (la_queue a) = rs" by (simp add: log_remove_seq_def assms(2))
qed

lemma log_ack_head_view:
  assumes "bolt_ok B" and "log_represents B d a" and "la_queue a = r # rs"
  shows "(\<exists>d' a'. log_acknowledge B (lr_sequence r) d = (d', None) \<and> log_represents B d' a' \<and> la_queue a' = rs) \<or>
         commit_fails B \<and> log_acknowledge B (lr_sequence r) d = (d, Some commit_error)"
proof -
  have w: "log_abs_wf a" using assms(2) by (simp add: log_represents_def)
  have "la_queue (log_spec_acknowledge (lr_sequence r) a) = rs"
    using log_head_is_oldest(2) [OF w assms(3)] assms(3) by (simp add: log_spec_acknowledge_def Let_def)
  then show ?thesis using log_acknowledge_refines [OF assms(1,2) log_head_is_oldest(1) [OF w assms(3)]] by blast
qed

interpretation logs: delivery_queue "log_queue_ops B opts" "log_inv B" "log_queued B" "\<not> commit_fails B"
proof
  fix s and n :: nat assume "log_inv B s" "0 < n"
  then obtain a where a: "bolt_ok B" "log_represents B s a" "0 < int n" by (auto simp: log_inv_def)
  then show "q_records (log_queue_ops B opts) n s = (take n (log_queued B s), None)"
    using log_queued_view [OF a(1,2)] log_records_view [OF a] by (simp add: log_queue_ops_def)
next
  fix s r rs assume "log_inv B s" "log_queued B s = r # rs"
  then obtain a where a: "bolt_ok B" "log_represents B s a" "la_queue a = r # rs"
    using log_queued_view by (fastforce simp: log_inv_def)
  from log_ack_head_view [OF this]
  show "\<exists>s' err. q_ack (log_queue_ops B opts) (q_seq (log_queue_ops B opts) r) s = (s', err) \<and> log_inv B s' \<and>
      (err = None \<longrightarrow> log_queued B s' = rs) \<and> (err \<noteq> None \<longrightarrow> log_queued B s' = log_queued B s \<and> \<not> \<not> commit_fails B)"
  proof (elim disjE exE conjE)
    fix d' a' assume "log_acknowledge B (lr_sequence r) s = (d', None)" "log_represents B d' a'" "la_queue a' = rs"
    then show ?thesis using a(1) log_queued_view [OF a(1)] by (auto simp: log_queue_ops_def log_inv_def)
  next
    assume "commit_fails B" "log_acknowledge B (lr_sequence r) s = (s, Some commit_error)"
    then show ?thesis using a(1,2) by (auto simp: log_queue_ops_def log_inv_def)
  qed
next
  fix s assume "log_inv B s"
  then obtain a where "bolt_ok B" "log_represents B s a" by (auto simp: log_inv_def)
  then show "\<exists>full. q_health (log_queue_ops B opts) s = (int (length (log_queued B s)), full, None)"
    using log_queued_view log_health_exact by (fastforce simp: log_queue_ops_def)
qed

interpretation log_diagnostics: publisher_diagnostics log_diag log_publisher_state_ok
  by unfold_locales (simp_all add: log_diag_def snap_op_defs)

lemma log_queued_distinct: "log_inv B d \<Longrightarrow> distinct (log_queued B d)"
proof -
  assume "log_inv B d"
  then obtain a where a: "bolt_ok B" "log_represents B d a" by (auto simp: log_inv_def)
  then have "log_abs_wf a" by (simp add: log_represents_def)
  then have "distinct (la_queue a)" using log_abs_wf_distinct distinct_map by blast
  then show ?thesis using log_queued_view [OF a] by simp
qed

section \<open>Examples\<close>

lemma log_spec_enqueue_first:
  assumes "log_event_ok x"
  shows "\<exists>a. log_spec_enqueue example_options x ''m'' 1 empty_log_abs = Inr (a, True) \<and>
             la_queue a = [log_new_record x 1 1] \<and> la_seq a = 1"
proof -
  have rw: "log_rec_wf (log_new_record x 1 1)" by (rule log_new_record_wf [OF assms example_clock(1)]) simp
  have "log_record_size (log_new_record x 1 1) \<le> 3000000" by (rule log_record_size_bound [OF rw])
  moreover have "length (el_content_hash x) = 64"
    using log_rec_wf_facts(2) [OF rw] by (simp add: log_new_record_def valid_hash_def)
  then have "el_content_hash x \<noteq> []" by auto
  moreover have "\<not> older_marker ''m'' []" by (simp add: older_marker_def parse_rfc3339_def take_digits_def)
  ultimately show ?thesis
    by (simp add: log_spec_enqueue_def log_room_for_def empty_log_abs_def log_known_content_def log_seen_cp_def
        log_cp_of_def zero_log_checkpoint_def example_options_def log_total_bytes_def Let_def)
qed

text \<open>A store with one queued event.\<close>

lemma example_log_queue:
  "\<exists>d a. log_represents ref_bolt d a \<and> length (la_queue a) = 1 \<and> la_seq a = 1 \<and> la_cps a ''l/1'' \<noteq> None"
proof -
  obtain d where d: "log_represents ref_bolt d empty_log_abs" using example_log_open by blast
  obtain x where b: "build_log_event ''ddae-1'' ''l/1'' example_log_detail 0 = Inr x" using example_build_log by blast
  note x = build_log_event_ok [OF b example_log_typed example_year]
  obtain a where a: "log_spec_enqueue example_options x ''m'' 1 empty_log_abs = Inr (a, True)"
    "la_queue a = [log_new_record x 1 1]" "la_seq a = 1" using log_spec_enqueue_first [OF x(1)] by blast
  have s: "unat (la_seq empty_log_abs) < 18446744073709551615" by (simp add: empty_log_abs_def)
  have pos: "0 < opt_max_bytes example_options" by (simp add: example_options_def)
  from log_enqueue_refines [OF ref_bolt_ok d x(1) example_marker example_clock(1) example_options_ok(2) pos s]
  obtain d' where d': "log_represents ref_bolt d' a" using a(1) ref_commits by (auto simp: log_refined_def)
  have "la_cps a ''l/1'' \<noteq> None"
    using a(1) x(2) by (auto simp: log_spec_enqueue_def Let_def split: if_splits)
  then show ?thesis using d' a by (intro exI [of _ d'] exI [of _ a]) simp
qed

lemma example_log_inv: "\<exists>d. log_inv ref_bolt d \<and> length (log_queued ref_bolt d) = 1"
  using example_log_queue log_queued_view [OF ref_bolt_ok] ref_bolt_ok unfolding log_inv_def by metis

section \<open>Properties\<close>

text \<open>
  Claim C19. A run of the log publisher, however many flushes it has and whatever fails in them, removes
  from the queue a prefix that the broker has accepted, in order: up to immediate repetitions the
  broker's new records are the removed ones, or these and the head of the queue, whose
  acknowledgement failed.
\<close>

theorem log_run_delivers_in_order:
  assumes "log_inv B (pb_store p)" and "broker_ok send accepted"
  shows "\<exists>k xs. log_inv B (pb_store (log_publisher_run B opts send ticks p)) \<and> k \<le> length (log_queued B (pb_store p)) \<and>
     log_queued B (pb_store (log_publisher_run B opts send ticks p)) = drop k (log_queued B (pb_store p)) \<and>
     accepted (pb_broker (log_publisher_run B opts send ticks p)) = accepted (pb_broker p) @ xs \<and>
     (remdups_adj xs = take k (log_queued B (pb_store p)) \<or>
        k < length (log_queued B (pb_store p)) \<and> remdups_adj xs = take (k + 1) (log_queued B (pb_store p)))"
  unfolding log_publisher_run_def log_flush_def
  by (rule logs.run_delivers [OF assms log_queued_distinct [OF assms(1)]])

lemma log_run_delivers_in_order_witness:
  "\<exists>(p :: (_, log_record list \<times> bool list, int view) publisher) k. length (log_queued ref_bolt (pb_store p)) = 1 \<and>
     log_queued ref_bolt (pb_store (log_publisher_run ref_bolt example_options ref_send [\<lambda>_. 0, \<lambda>_. 1] p)) =
       drop k (log_queued ref_bolt (pb_store p))"
proof -
  obtain d where d: "log_inv ref_bolt d" "length (log_queued ref_bolt d) = 1" using example_log_inv by blast
  define p :: "(_, log_record list \<times> bool list, int view) publisher" where
    "p = \<lparr>pb_store = d, pb_broker = ([], [False]), pb_view = new_store, pb_recovery = False\<rparr>"
  have "log_inv ref_bolt (pb_store p)" using d(1) by (simp add: p_def)
  from log_run_delivers_in_order [OF this ref_send_ok, of example_options "[\<lambda>_. 0, \<lambda>_. 1]"] obtain k where
    "log_queued ref_bolt (pb_store (log_publisher_run ref_bolt example_options ref_send [\<lambda>_. 0, \<lambda>_. 1] p)) =
       drop k (log_queued ref_bolt (pb_store p))" by blast
  then show ?thesis using d(2) by (intro exI [of _ p] exI [of _ k]) (simp add: p_def)
qed

text \<open>
  After a failure of the log state the log publisher stays unhealthy until it has recovered:
  while recovery is required, the publisher part of the log readiness is false at the end of every run.
\<close>

theorem log_recovery_keeps_unready:
  assumes "pb_recovery p \<longrightarrow> \<not> log_publisher_state_ok (pb_view p)"
  shows "pb_recovery (log_publisher_run B opts send ticks p) \<longrightarrow>
           \<not> log_publisher_state_ok (pb_view (log_publisher_run B opts send ticks p))"
proof -
  have "pb_recovery (foldl (\<lambda>p t. flush (log_queue_ops B opts) log_diag send t p) p ticks) \<longrightarrow>
      \<not> log_publisher_state_ok (pb_view (foldl (\<lambda>p t. flush (log_queue_ops B opts) log_diag send t p) p ticks))"
    using assms by (induction ticks rule: rev_induct) (simp, simp add: log_diagnostics.flush_recovery)
  then show ?thesis unfolding log_publisher_run_def log_flush_def .
qed

lemma log_recovery_keeps_unready_witness:
  "\<exists>p :: (ref_db, log_record list \<times> bool list, int view) publisher. pb_recovery p \<and>
     (pb_recovery (log_publisher_run ref_bolt example_options ref_send [\<lambda>_. 0] p) \<longrightarrow>
        \<not> log_publisher_state_ok (pb_view (log_publisher_run ref_bolt example_options ref_send [\<lambda>_. 0] p)))"
proof -
  define p :: "(ref_db, log_record list \<times> bool list, int view) publisher" where
    "p = \<lparr>pb_store = [], pb_broker = ([], []), pb_view = new_store, pb_recovery = True\<rparr>"
  have "pb_recovery p \<longrightarrow> \<not> log_publisher_state_ok (pb_view p)" by (simp add: p_def new_store_def)
  from log_recovery_keeps_unready [OF this, of ref_bolt example_options ref_send "[\<lambda>_. 0]"]
  show ?thesis by (intro exI [of _ p]) (simp add: p_def)
qed

end
