(* ===== verification/Log_Pipeline.thy ===== *)
theory Log_Pipeline
  imports Alert_Pipeline Log_Publisher
begin

text \<open>
  The serviceability log pipeline (\<open>internal/serviceability/pipeline.go\<close>): the poll of the alert pipeline
  on the log API and the log state, with three differences of its own. A list may be known to be
  malformed; a list that is bounded by the service's threshold can still be \<open>usable\<close>, which is enough
  for readiness when backfilling is on; and the marker of an enqueued detail is the detail's own update
  time when it has one. The loops, the fair selection and the worker pool are the ones of
  \<open>Pipeline_Core\<close> and \<open>Fair_Select\<close>: the source has them word for word in both packages.
\<close>

section \<open>The poll\<close>

record log_pipe_options = pipe_options +
  lo_backfill :: bool

definition valid_log_id :: "bytes \<Rightarrow> bool" where
  "valid_log_id i \<longleftrightarrow> validate_log_id i = Inr ()"

definition log_unhealthy :: "'f view \<Rightarrow> 'f view" where
  "log_unhealthy = set_log_pipeline_state_healthy False"

definition detail_marker :: "bytes option \<Rightarrow> bytes \<Rightarrow> bytes" where
  "detail_marker value fallback = (if usable_marker value \<noteq> [] then usable_marker value else fallback)"

text \<open>The selection and the worker pool, as this package has them.\<close>

definition log_select_fair :: "int \<Rightarrow> detail_task list \<Rightarrow> fair_state \<Rightarrow> fair_state \<times> detail_task list" where
  "log_select_fair = select_fair"

definition log_fetch_details ::
  "('s, encoded_log) state_ops \<Rightarrow> log_pipe_options \<Rightarrow> (log_list, log_detail) poll_input \<Rightarrow> detail_task list
   \<Rightarrow> 's \<Rightarrow> 's \<times> bool \<times> bool" where
  "log_fetch_details S opts e =
     fetch_details S (pi_detail e) (\<lambda>i d. build_log_event (po_source opts) i d (pi_now e))
       (\<lambda>d marker. detail_marker (ld_updated_on d) marker) (po_concurrency opts) (pi_schedule e) (pi_now e)"

text \<open>
  The list is bounded by the threshold and nothing in it was skipped. \<open>n\<close> is the number of different
  valid identifiers, \<open>scanned\<close> the flag after the loop over the items.
\<close>

definition usable_list :: "log_list \<Rightarrow> bool \<Rightarrow> nat \<Rightarrow> bool" where
  "usable_list l scanned n \<longleftrightarrow>
     scanned \<and> n = length (ll_results l) \<and>
     (case ll_threshold l of None \<Rightarrow> False | Some t \<Rightarrow> t > 0 \<and> int n \<le> t) \<and>
     (case ll_total_records l of None \<Rightarrow> False | Some r \<Rightarrow> r \<ge> int n)"

definition log_poll ::
  "('s, encoded_log) state_ops \<Rightarrow> log_pipe_options \<Rightarrow> (log_list, log_detail) poll_input
   \<Rightarrow> ('s, 'f view) pipeline \<Rightarrow> ('s, 'f view) pipeline" where
  "log_poll S opts e p =
     (case pi_list e of
        Inl err \<Rightarrow>
          p\<lparr>pp_view := set_log_collection_ready False (record_log_detail False 0 0
                         (record_log_list False False (pi_list_duration e) (pp_view p)))\<rparr>
      | Inr l \<Rightarrow>
          (let now = pi_now e;
               (listed, markers, scanned) =
                 scan_items valid_log_id (ll_results l) [] Map.empty
                   (\<not> ll_malformed l \<and> total_known (ll_total_records l));
               usable = usable_list l scanned (length listed);
               complete = (scanned \<and> \<not> total_above (ll_total_records l) (length listed));
               v1 = record_log_list True complete (pi_list_duration e) (pp_view p);
               plan = plan_tasks S log_unhealthy (po_refresh opts) now markers (pi_order e listed)
                        \<lparr>pl_state = pp_state p, pl_view = v1, pl_tasks = [], pl_ok = True\<rparr>;
               (fair, selected) = log_select_fair (po_max opts) (pl_tasks plan) (pp_fair p);
               deferred = int (length (pl_tasks plan)) - int (length selected);
               (s2, detail_ok, detail_state_ok) = log_fetch_details S opts e selected (pl_state plan);
               (ok2, v2) = (if \<not> detail_state_ok then (False, log_unhealthy (pl_view plan))
                            else (pl_ok plan, pl_view plan));
               (s3, reconcile_err) = so_reconcile S (set listed) now complete s2;
               (ok3, v3) = (if reconcile_err \<noteq> None then (False, log_unhealthy v2) else (ok2, v2));
               (events, full, health_err) = so_health S s3;
               (ok4, v4) = (if health_err \<noteq> None then (False, log_unhealthy v3) else (ok3, v3));
               v5 = set_log_state_full full (set_log_buffered events v4);
               v6 = record_log_detail (detail_ok \<and> ok4) (pi_detail_duration e) deferred v5;
               v7 = set_log_collection_ready ((complete \<or> (lo_backfill opts \<and> usable)) \<and> detail_ok \<and> ok4) v6;
               v8 = (if ok4 \<and> detail_ok then set_log_pipeline_state_healthy True v7 else v7)
           in \<lparr>pp_state = s3, pp_view = v8, pp_fair = fair\<rparr>))"

fun log_run ::
  "('s, encoded_log) state_ops \<Rightarrow> log_pipe_options \<Rightarrow> (log_list, log_detail) poll_input list
   \<Rightarrow> ('s, 'f view) pipeline \<Rightarrow> ('s, 'f view) pipeline" where
  "log_run S opts [] p = p"
| "log_run S opts (e # es) p = log_run S opts es (log_poll S opts e p)"

text \<open>The log state as the state of the pipeline.\<close>

definition log_state :: "'d bolt \<Rightarrow> store_options \<Rightarrow> ('d, encoded_log) state_ops" where
  "log_state B opts =
     \<lparr>so_fetch = log_fetch_state B, so_enqueue = log_enqueue B opts, so_mark_seen = log_mark_seen B opts,
      so_reconcile = log_reconcile_listed B opts, so_health = log_health B opts\<rparr>"

section \<open>What readiness means\<close>

text \<open>
  A list is bounded when the service reported a positive threshold that the list respects, at least as
  many records as it lists, and only valid, pairwise different identifiers.
\<close>

definition list_bounded :: "log_list \<Rightarrow> bool" where
  "list_bounded l \<longleftrightarrow>
     (\<exists>t. ll_threshold l = Some t \<and> 0 < t \<and> int (length (ll_results l)) \<le> t) \<and>
     (\<exists>r. ll_total_records l = Some r \<and> int (length (ll_results l)) \<le> r) \<and>
     (\<forall>item \<in> set (ll_results l). valid_log_id (li_id item)) \<and> distinct (map li_id (ll_results l))"

lemma scan_log_iff:
  assumes "scan_items valid (ll_results l) [] Map.empty (\<not> ll_malformed l \<and> total_known (ll_total_records l)) =
      (listed, markers, scanned)"
  shows "scanned \<longleftrightarrow> \<not> ll_malformed l \<and> total_known (ll_total_records l) \<and>
      (\<forall>item \<in> set (ll_results l). valid (li_id item)) \<and> distinct (map li_id (ll_results l))"
    and "scanned \<Longrightarrow> length listed = length (ll_results l)"
proof -
  show s: "scanned \<longleftrightarrow> \<not> ll_malformed l \<and> total_known (ll_total_records l) \<and>
      (\<forall>item \<in> set (ll_results l). valid (li_id item)) \<and> distinct (map li_id (ll_results l))"
    using scan_complete [of valid "ll_results l" "[]" Map.empty "\<not> ll_malformed l \<and> total_known (ll_total_records l)"]
      assms by simp
  note l = scan_listed [OF assms]
  assume scanned
  with s have "set listed = set (map li_id (ll_results l))" "distinct (map li_id (ll_results l))" using l(3) by auto
  then show "length listed = length (ll_results l)"
    using distinct_card [OF l(1)] distinct_card [of "map li_id (ll_results l)"] by simp
qed

lemma log_list_flags:
  assumes "scan_items valid_log_id (ll_results l) [] Map.empty (\<not> ll_malformed l \<and> total_known (ll_total_records l)) =
      (listed, markers, scanned)"
  shows "scanned \<and> \<not> total_above (ll_total_records l) (length listed) \<longleftrightarrow>
      \<not> ll_malformed l \<and> list_complete valid_log_id (ll_results l) (ll_total_records l)"
    and "usable_list l scanned (length listed) \<longleftrightarrow> \<not> ll_malformed l \<and> list_bounded l"
  using scan_log_iff [OF assms]
  by (auto simp: list_complete_def total_known_def total_above_def usable_list_def list_bounded_def
      split: option.splits)

section \<open>The log state as the state of the pipeline\<close>

lemma not_older_than_none: "\<not> older_marker m []"
  by (simp add: older_marker_def parse_rfc3339_def take_digits_def)

definition log_wf :: "'d bolt \<Rightarrow> store_options \<Rightarrow> nat \<Rightarrow> 'd \<Rightarrow> bool" where
  "log_wf B opts n d \<longleftrightarrow> bolt_ok B \<and> options_sane opts \<and> 0 < opt_max_bytes opts \<and>
     (\<exists>a. log_represents B d a \<and> unat (la_seq a) + n < 18446744073709551616)"

definition log_known :: "'d bolt \<Rightarrow> bytes \<Rightarrow> 'd \<Rightarrow> bool" where
  "log_known B i d \<longleftrightarrow> lc_log_id (fst (get_log_checkpoint B i d)) \<noteq> []"

lemma log_known_view:
  assumes "bolt_ok B" and "log_represents B d a"
  shows "log_known B i d \<longleftrightarrow> la_cps a i \<noteq> None"
proof -
  from assms(2) obtain mm where w: "log_abs_wf a"
    and v: "tx_view B d (map log_out_entry (la_queue a)) (\<lambda>i. map_option marshal_log_checkpoint (la_cps a i)) mm (la_seq a)"
    by (rule log_represents_view)
  have "lc_log_id c \<noteq> []" if "la_cps a i = Some c" for c
    using log_abs_wf_cp [OF w that] by (auto simp: log_cp_wf_def validate_log_id_Inr)
  then show ?thesis
    using tx_viewD(3) [OF assms(1) v] log_read_checkpoint_view [OF w]
    by (auto simp: log_known_def get_log_checkpoint_def zero_log_checkpoint_def split: option.split)
qed

interpretation log_store: detail_state "log_state B opts" "log_wf B opts" "log_known B"
  "\<lambda>i. validate_log_id i = Inr ()" log_event_ok "\<lambda>ee. lev_log_id (el_event ee)" clock_ok marker_ok
proof
  show "log_wf B opts (Suc n) s \<Longrightarrow> log_wf B opts n s" for n s
    by (auto simp: log_wf_def)
next
  fix n s i assume "log_wf B opts n s" "validate_log_id i = Inr ()"
  then obtain a where "bolt_ok B" "log_represents B s a" "validate_log_id i = Inr ()" by (auto simp: log_wf_def)
  then show "\<exists>m t. so_fetch (log_state B opts) i s = (log_known B i s, m, t, None)"
    using log_fetch_state_view [of B s a i] log_known_view [of B s a i]
    by (auto simp: log_state_def split: option.splits)
next
  fix n s ev m now s' inserted err
  assume wf: "log_wf B opts (Suc n) s" and e: "log_event_ok ev" "marker_ok m" "clock_ok now"
    and r: "so_enqueue (log_state B opts) ev m now s = (s', inserted, err)"
  from wf obtain a where a: "bolt_ok B" "options_sane opts" "log_represents B s a" "0 < opt_max_bytes opts"
    "unat (la_seq a) + Suc n < 18446744073709551616" by (auto simp: log_wf_def)
  then have room: "unat (la_seq a) < 18446744073709551615" by simp
  have succ: "unat (la_seq a + 1) = unat (la_seq a) + 1" using room by (simp add: unat_word_ariths)
  have "log_refined B s (log_spec_enqueue opts ev m now a) False (s', inserted, err)"
    using log_enqueue_refines [OF a(1,3) e a(2,4) room] r by (simp add: log_state_def)
  moreover have "la_cps a (lev_log_id (el_event ev)) \<noteq> None"
    if "older_marker m (lc_list_marker (log_cp_of a (lev_log_id (el_event ev))))"
    using that not_older_than_none by (auto simp: log_cp_of_def zero_log_checkpoint_def split: option.splits)
  ultimately obtain a' where a': "log_represents B s' a'" "unat (la_seq a') \<le> unat (la_seq a) + 1"
    "\<forall>j. la_cps a j \<noteq> None \<longrightarrow> la_cps a' j \<noteq> None"
    "err = None \<longrightarrow> la_cps a' (lev_log_id (el_event ev)) \<noteq> None"
    using a(3) succ by (fastforce simp: log_refined_def log_spec_enqueue_def Let_def split: sum.splits if_splits)
  show "log_wf B opts n s' \<and> (err = None \<longrightarrow> log_known B (lev_log_id (el_event ev)) s') \<and>
      (\<forall>j. log_known B j s \<longrightarrow> log_known B j s')"
    using a a' log_known_view [OF a(1,3)] log_known_view [OF a(1) a'(1)] by (auto simp: log_wf_def)
next
  fix n s i m now s' err
  assume wf: "log_wf B opts n s" and i: "validate_log_id i = Inr ()" "marker_ok m" "clock_ok now"
    and r: "so_mark_seen (log_state B opts) i m now s = (s', err)"
  from wf obtain a where a: "bolt_ok B" "options_sane opts" "log_represents B s a" "0 < opt_max_bytes opts"
    "unat (la_seq a) + n < 18446744073709551616" by (auto simp: log_wf_def)
  from log_mark_seen_refines [OF a(1,3) i, of opts] r a(3) obtain a' where
    a': "log_represents B s' a'" "la_seq a' = la_seq a" "\<forall>j. la_cps a j \<noteq> None \<longrightarrow> la_cps a' j \<noteq> None"
    "err = None \<longrightarrow> la_cps a' i \<noteq> None"
    by (fastforce simp: log_state_def log_spec_mark_seen_def split: if_splits)
  show "log_wf B opts n s' \<and> (err = None \<longrightarrow> log_known B i s') \<and> (\<forall>j. log_known B j s \<longrightarrow> log_known B j s')"
    using a a' log_known_view [OF a(1,3)] log_known_view [OF a(1) a'(1)] by (auto simp: log_wf_def)
next
  fix n s now listed complete s' err
  assume wf: "log_wf B opts n s" and c: "clock_ok now"
    and r: "so_reconcile (log_state B opts) listed now complete s = (s', err)"
  from wf obtain a where a: "bolt_ok B" "options_sane opts" "log_represents B s a" "0 < opt_max_bytes opts"
    "unat (la_seq a) + n < 18446744073709551616" by (auto simp: log_wf_def)
  show "log_wf B opts n s' \<and> (\<forall>j \<in> listed. log_known B j s \<longrightarrow> log_known B j s') \<and>
      (\<not> complete \<longrightarrow> s' = s)"
  proof (cases complete)
    case False
    then show ?thesis using r wf by (simp add: log_state_def log_reconcile_listed_def)
  next
    case True
    from log_reconcile_refines [OF a(1,3) c, of opts listed] r a(3) True obtain a' where
      a': "log_represents B s' a'" "la_seq a' = la_seq a" "\<forall>j \<in> listed. la_cps a' j = la_cps a j \<or> la_cps a' j \<noteq> None"
      by (fastforce simp: log_state_def log_spec_reconcile_def Let_def split: option.splits)
    show ?thesis
      using a a' True log_known_view [OF a(1,3)] log_known_view [OF a(1) a'(1)] by (auto simp: log_wf_def)
  qed
qed

section \<open>What a poll does\<close>

text \<open>The values a poll computes on the way, for the proofs.\<close>

lemma log_poll_cases:
  assumes "pi_list e = Inr l"
  obtains listed markers scanned usable complete plan fair selected s2 detail_ok detail_state_ok ok2 v2 s3
    reconcile_err ok3 v3 events full health_err ok4 v4 where
    "scan_items valid_log_id (ll_results l) [] Map.empty (\<not> ll_malformed l \<and> total_known (ll_total_records l)) =
       (listed, markers, scanned)"
    "usable = usable_list l scanned (length listed)"
    "complete = (scanned \<and> \<not> total_above (ll_total_records l) (length listed))"
    "plan = plan_tasks S log_unhealthy (po_refresh opts) (pi_now e) markers (pi_order e listed)
       \<lparr>pl_state = pp_state p, pl_view = record_log_list True complete (pi_list_duration e) (pp_view p),
        pl_tasks = [], pl_ok = True\<rparr>"
    "log_select_fair (po_max opts) (pl_tasks plan) (pp_fair p) = (fair, selected)"
    "log_fetch_details S opts e selected (pl_state plan) = (s2, detail_ok, detail_state_ok)"
    "(ok2, v2) = (if \<not> detail_state_ok then (False, log_unhealthy (pl_view plan)) else (pl_ok plan, pl_view plan))"
    "so_reconcile S (set listed) (pi_now e) complete s2 = (s3, reconcile_err)"
    "(ok3, v3) = (if reconcile_err \<noteq> None then (False, log_unhealthy v2) else (ok2, v2))"
    "so_health S s3 = (events, full, health_err)"
    "(ok4, v4) = (if health_err \<noteq> None then (False, log_unhealthy v3) else (ok3, v3))"
    "log_poll S opts e p =
       \<lparr>pp_state = s3,
        pp_view = (let v7 = set_log_collection_ready ((complete \<or> (lo_backfill opts \<and> usable)) \<and> detail_ok \<and> ok4)
             (record_log_detail (detail_ok \<and> ok4) (pi_detail_duration e)
                (int (length (pl_tasks plan)) - int (length selected))
                (set_log_state_full full (set_log_buffered events v4)))
           in if ok4 \<and> detail_ok then set_log_pipeline_state_healthy True v7 else v7),
        pp_fair = fair\<rparr>"
proof -
  obtain listed markers scanned where
    1: "scan_items valid_log_id (ll_results l) [] Map.empty (\<not> ll_malformed l \<and> total_known (ll_total_records l)) =
       (listed, markers, scanned)"
    by (cases "scan_items valid_log_id (ll_results l) [] Map.empty (\<not> ll_malformed l \<and> total_known (ll_total_records l))")
  define complete where 2: "complete = (scanned \<and> \<not> total_above (ll_total_records l) (length listed))"
  define plan where 3: "plan = plan_tasks S log_unhealthy (po_refresh opts) (pi_now e) markers (pi_order e listed)
       \<lparr>pl_state = pp_state p, pl_view = record_log_list True complete (pi_list_duration e) (pp_view p),
        pl_tasks = [], pl_ok = True\<rparr>"
  obtain fair selected where 4: "log_select_fair (po_max opts) (pl_tasks plan) (pp_fair p) = (fair, selected)"
    by (cases "log_select_fair (po_max opts) (pl_tasks plan) (pp_fair p)")
  obtain s2 detail_ok detail_state_ok where 5:
    "log_fetch_details S opts e selected (pl_state plan) = (s2, detail_ok, detail_state_ok)"
    by (cases "log_fetch_details S opts e selected (pl_state plan)")
  obtain ok2 v2 where 6:
    "(ok2, v2) = (if \<not> detail_state_ok then (False, log_unhealthy (pl_view plan)) else (pl_ok plan, pl_view plan))"
    by (metis surj_pair)
  obtain s3 reconcile_err where 7: "so_reconcile S (set listed) (pi_now e) complete s2 = (s3, reconcile_err)"
    by fastforce
  obtain ok3 v3 where 8: "(ok3, v3) = (if reconcile_err \<noteq> None then (False, log_unhealthy v2) else (ok2, v2))"
    by (metis surj_pair)
  obtain events full health_err where 9: "so_health S s3 = (events, full, health_err)"
    by (cases "so_health S s3")
  obtain ok4 v4 where 10: "(ok4, v4) = (if health_err \<noteq> None then (False, log_unhealthy v3) else (ok3, v3))"
    by (metis surj_pair)
  have 11: "log_poll S opts e p =
       \<lparr>pp_state = s3,
        pp_view = (let v7 = set_log_collection_ready ((complete \<or> (lo_backfill opts \<and> usable_list l scanned (length listed))) \<and> detail_ok \<and> ok4)
             (record_log_detail (detail_ok \<and> ok4) (pi_detail_duration e)
                (int (length (pl_tasks plan)) - int (length selected))
                (set_log_state_full full (set_log_buffered events v4)))
           in if ok4 \<and> detail_ok then set_log_pipeline_state_healthy True v7 else v7),
        pp_fair = fair\<rparr>"
    unfolding log_poll_def
    by (simp only: assms sum.case Let_def 1 prod.case 2 [symmetric] 3 [symmetric] 4 5 6 [symmetric] 7
        8 [symmetric] 9 10 [symmetric])
  show ?thesis by (rule that [OF 1 refl 2 3 4 5 6 7 8 9 10 11])
qed

text \<open>A list that proves the absence of what it does not mention.\<close>

definition whole_log_list :: "log_list \<Rightarrow> bool" where
  "whole_log_list l \<longleftrightarrow> \<not> ll_malformed l \<and> list_complete valid_log_id (ll_results l) (ll_total_records l)"

text \<open>What the properties assume of the outside world.\<close>

definition log_input_ok :: "(log_list, log_detail) poll_input \<Rightarrow> bool" where
  "log_input_ok e \<longleftrightarrow>
     (\<forall>xs. mset (pi_order e xs) = mset xs) \<and> schedule_ok (pi_schedule e) \<and>
     clock_ok (pi_now e) \<and> year_ok (pi_now e) \<and>
     (\<forall>l. pi_list e = Inr l \<longrightarrow> (\<forall>item \<in> set (ll_results l). time_text_ok (li_updated_on item))) \<and>
     (\<forall>i d. pi_detail e i = Inr d \<longrightarrow> log_times_in_range d \<and> log_detail_typed d)"

text \<open>The state after a poll: well formed, and nothing that matters is forgotten.\<close>

lemma log_poll_state:
  assumes wf: "log_wf B so (n + nat (po_max opts)) (pp_state p)" and e: "log_input_ok e"
  shows "log_wf B so n (pp_state (log_poll (log_state B so) opts e p)) \<and>
    (\<forall>j. log_known B j (pp_state p) \<and> \<not> log_known B j (pp_state (log_poll (log_state B so) opts e p)) \<longrightarrow>
       (\<exists>l. pi_list e = Inr l \<and> whole_log_list l \<and>
            j \<notin> li_id ` set (ll_results l))) \<and>
    (\<forall>l. pi_list e = Inr l \<longrightarrow>
       st_success (collector_status_of (pp_view (log_poll (log_state B so) opts e p)) ''serviceability_log_detail'') \<longrightarrow>
       log_deferred (pp_view (log_poll (log_state B so) opts e p)) = 0 \<longrightarrow>
       (\<forall>i \<in> li_id ` set (ll_results l). valid_log_id i \<longrightarrow>
          log_known B i (pp_state (log_poll (log_state B so) opts e p))))"
proof (cases "pi_list e")
  case (Inl err)
  then show ?thesis using log_store.wf_drop [OF wf] by (simp add: log_poll_def)
next
  case (Inr l)
  then show ?thesis
  proof (rule log_poll_cases [where S = "log_state B so" and opts = opts and p = p])
    fix listed markers scanned usable complete plan fair selected s2 detail_ok detail_state_ok ok2 v2 s3
      reconcile_err ok3 v3 events full health_err ok4 v4
    let ?S = "log_state B so"
    let ?p0 = "\<lparr>pl_state = pp_state p, pl_view = record_log_list True complete (pi_list_duration e) (pp_view p),
                pl_tasks = [], pl_ok = True\<rparr>"
    assume scan: "scan_items valid_log_id (ll_results l) [] Map.empty (\<not> ll_malformed l \<and> total_known (ll_total_records l)) =
        (listed, markers, scanned)"
      and complete: "complete = (scanned \<and> \<not> total_above (ll_total_records l) (length listed))"
      and plan: "plan = plan_tasks ?S log_unhealthy (po_refresh opts) (pi_now e) markers (pi_order e listed) ?p0"
      and sel: "log_select_fair (po_max opts) (pl_tasks plan) (pp_fair p) = (fair, selected)"
      and fetch: "log_fetch_details ?S opts e selected (pl_state plan) = (s2, detail_ok, detail_state_ok)"
      and ok2: "(ok2, v2) = (if \<not> detail_state_ok then (False, log_unhealthy (pl_view plan)) else (pl_ok plan, pl_view plan))"
      and rec: "so_reconcile ?S (set listed) (pi_now e) complete s2 = (s3, reconcile_err)"
      and ok3: "(ok3, v3) = (if reconcile_err \<noteq> None then (False, log_unhealthy v2) else (ok2, v2))"
      and ok4: "(ok4, v4) = (if health_err \<noteq> None then (False, log_unhealthy v3) else (ok3, v3))"
      and poll: "log_poll ?S opts e p = \<lparr>pp_state = s3,
        pp_view = (let v7 = set_log_collection_ready ((complete \<or> (lo_backfill opts \<and> usable)) \<and> detail_ok \<and> ok4)
             (record_log_detail (detail_ok \<and> ok4) (pi_detail_duration e)
                (int (length (pl_tasks plan)) - int (length selected))
                (set_log_state_full full (set_log_buffered events v4)))
           in if ok4 \<and> detail_ok then set_log_pipeline_state_healthy True v7 else v7),
        pp_fair = fair\<rparr>"
    note l = scan_listed [OF scan]
    have perm: "set (pi_order e listed) = set listed" "distinct (pi_order e listed)"
    proof -
      have m: "mset (pi_order e listed) = mset listed" using e by (simp add: log_input_ok_def)
      then show "set (pi_order e listed) = set listed" by (rule mset_eq_setD)
      show "distinct (pi_order e listed)" using l(1) m mset_eq_imp_distinct_iff by blast
    qed
    have c: "clock_ok (pi_now e)" "schedule_ok (pi_schedule e)" using e by (simp_all add: log_input_ok_def)
    have "\<forall>i m. markers i = Some m \<longrightarrow> marker_ok m"
      by (rule scan_markers [OF scan]) (use e Inr usable_marker_ok in \<open>auto simp: log_input_ok_def\<close>)
    then have m: "marker_ok (marker_of markers i)" for i
      by (auto simp: marker_of_def marker_ok_def split: option.split)
    have ids: "\<forall>i \<in> set (pi_order e listed). validate_log_id i = Inr () \<and> marker_ok (marker_of markers i)"
      using l(2) m unfolding perm(1) by (simp add: valid_log_id_def)
    have wf0: "log_wf B so (n + nat (po_max opts)) (pl_state ?p0)" using wf by simp
    note pk = log_store.plan_keeps [OF ids c(1) wf0, of log_unhealthy "po_refresh opts", folded plan]
    obtain ts where ts: "pl_tasks plan = ts" "\<forall>t \<in> set ts. dt_id t \<in> set listed \<and> dt_marker t = marker_of markers (dt_id t)"
      "distinct (map dt_id ts)"
      "pl_ok plan \<longrightarrow> (\<forall>i \<in> set listed. i \<in> dt_id ` set ts \<or> log_known B i (pl_state plan))"
      using pk(3) perm by auto
    have sub: "mset selected \<subseteq># mset ts" using selected_subset [OF sel [unfolded log_select_fair_def]] ts(1) by simp
    have len: "length selected \<le> nat (po_max opts)"
      using selected_length [OF sel [unfolded log_select_fair_def]] by linarith
    have build: "\<forall>t \<in> set selected. \<forall>d ev. pi_detail e (dt_id t) = Inr d \<longrightarrow>
        build_log_event (po_source opts) (dt_id t) d (pi_now e) = Inr ev \<longrightarrow>
        log_event_ok ev \<and> lev_log_id (el_event ev) = dt_id t \<and> marker_ok (detail_marker (ld_updated_on d) (dt_marker t))"
    proof (intro ballI allI impI)
      fix t d ev assume t: "t \<in> set selected" and d: "pi_detail e (dt_id t) = Inr d"
        and b: "build_log_event (po_source opts) (dt_id t) d (pi_now e) = Inr ev"
      have "t \<in> set ts" using t set_mset_mono [OF sub] by auto
      then have "marker_ok (dt_marker t)" using ts(2) m by simp
      then have "marker_ok (detail_marker (ld_updated_on d) (dt_marker t))"
        using e d usable_marker_ok [of "ld_updated_on d"]
        by (auto simp: detail_marker_def log_input_ok_def log_times_in_range_def)
      moreover have "log_times_in_range d" "log_detail_typed d" "year_ok (pi_now e)"
        using e d by (simp_all add: log_input_ok_def)
      ultimately show "log_event_ok ev \<and> lev_log_id (el_event ev) = dt_id t \<and> marker_ok (detail_marker (ld_updated_on d) (dt_marker t))"
        using build_log_event_ok [OF b] by simp
    qed
    have "log_wf B so (n + length selected + (nat (po_max opts) - length selected)) (pl_state plan)"
      using pk(1) len by simp
    then have wf1: "log_wf B so (n + length selected) (pl_state plan)" by (rule log_store.wf_drop)
    note fk = log_store.fetch_keeps [OF fetch [unfolded log_fetch_details_def] build c(2,1) wf1]
    have wf2: "log_wf B so n s2" using fk by blast
    note rk = log_store.reconcile_keeps [OF wf2 c(1) rec]
    have known: "log_known B j s2" if "log_known B j (pp_state p)" for j
      using that pk(2) fk by simp
    have cc: "complete \<longleftrightarrow> whole_log_list l"
      using log_list_flags(1) [OF scan] complete by (simp add: whole_log_list_def)
    have all: "log_known B i s3" if "detail_ok" "ok4" "length ts = length selected" "i \<in> set listed" for i
    proof -
      have "pl_ok plan" using that(2) ok2 ok3 ok4 by (auto split: if_splits)
      moreover have "set selected = set ts"
      proof -
        have "mset selected = mset ts"
          using sub that(3) by (metis mset_subset_size nat_neq_iff size_mset subset_mset.le_neq_trans)
        then show ?thesis by (rule mset_eq_setD)
      qed
      ultimately have "log_known B i s2" using ts(4) that(1,4) fk by (metis image_iff)
      then show ?thesis using rk that(4) by blast
    qed
    have lost: "\<exists>l'. pi_list e = Inr l' \<and> whole_log_list l' \<and>
        j \<notin> li_id ` set (ll_results l')" if "log_known B j (pp_state p)" "\<not> log_known B j s3" for j
    proof -
      have complete: "complete" "j \<notin> set listed" using rk known [OF that(1)] that(2) by auto
      then have "whole_log_list l" using cc by simp
      moreover have "j \<notin> li_id ` set (ll_results l)"
        using complete(2) calculation l(3) by (auto simp: whole_log_list_def list_complete_def)
      ultimately show ?thesis using Inr by blast
    qed
    have view: "log_deferred (pp_view (log_poll ?S opts e p)) = int (length ts) - int (length selected)"
      "st_success (collector_status_of (pp_view (log_poll ?S opts e p)) ''serviceability_log_detail'') \<longleftrightarrow> detail_ok \<and> ok4"
      using ts(1) by (simp_all add: poll Let_def snap_op_defs collector_status_of_def)
    show ?thesis
      using rk lost all l(3) Inr view by (auto simp: poll)
  qed
qed

section \<open>Examples\<close>

definition example_log_pipe :: log_pipe_options where
  "example_log_pipe = \<lparr>po_source = ''ddae-1'', po_refresh = 1000, po_max = 2, po_concurrency = 1, lo_backfill = True\<rparr>"

text \<open>A poll whose list is empty but bounded: the service holds more records than it lists.\<close>

definition example_log_poll :: "(log_list, log_detail) poll_input" where
  "example_log_poll =
     \<lparr>pi_list = Inr \<lparr>ll_results = [], ll_threshold = Some 10, ll_total_records = Some 5, ll_malformed = False\<rparr>,
      pi_list_duration = 1, pi_now = 1, pi_order = (\<lambda>xs. xs), pi_detail = (\<lambda>i. Inr example_log_detail),
      pi_schedule = (\<lambda>ts. ts), pi_detail_duration = 1\<rparr>"

lemma example_log_poll_ok: "log_input_ok example_log_poll"
  using example_log_typed year_ok_1 example_clock(1)
  by (simp add: log_input_ok_def example_log_poll_def schedule_ok_def)

lemma example_log_known:
  "\<exists>d. log_wf ref_bolt example_options 100 d \<and> log_known ref_bolt ''l/1'' d"
proof -
  obtain d a where d: "log_represents ref_bolt d a" "la_cps a ''l/1'' \<noteq> None" "la_seq a = 1"
    using example_log_queue by blast
  have "unat (la_seq a) = 1" unfolding d(3) by simp
  then have "unat (la_seq a) + 100 < 18446744073709551616" by linarith
  moreover have "0 < opt_max_bytes example_options" by (simp add: example_options_def)
  ultimately have "log_wf ref_bolt example_options 100 d"
    unfolding log_wf_def using ref_bolt_ok example_options_ok(2) d(1) by blast
  then show ?thesis using log_known_view [OF ref_bolt_ok d(1)] d(2) by blast
qed

lemma example_log_poll_wf:
  assumes "log_wf ref_bolt example_options 100 d"
  shows "log_wf ref_bolt example_options (0 + nat (po_max example_log_pipe)) (pp_state (new_pipeline d v))"
  using log_store.wf_drop [of ref_bolt example_options 2 98 d] assms
  by (simp add: example_log_pipe_def new_pipeline_def numeral_2_eq_2)

section \<open>Properties\<close>

lemma log_run_state:
  assumes "\<forall>e \<in> set es. log_input_ok e"
  shows "log_wf B so (length es * nat (po_max opts)) (pp_state p) \<Longrightarrow>
     log_wf B so 0 (pp_state (log_run (log_state B so) opts es p))"
  using assms
proof (induction es arbitrary: p)
  case (Cons e es)
  have "log_wf B so (length es * nat (po_max opts) + nat (po_max opts)) (pp_state p)"
    using Cons.prems(1) by (simp add: add.commute)
  then have "log_wf B so (length es * nat (po_max opts)) (pp_state (log_poll (log_state B so) opts e p))"
    using log_poll_state Cons.prems(2) by (metis list.set_intros(1))
  then show ?case using Cons.IH Cons.prems(2) by simp
qed simp

text \<open>
  Any sequence of polls of the log pipeline, whatever the service answers and however the
  workers are scheduled, keeps the log state a well-formed store, as long as its sequence numbers do not
  run out.
\<close>

theorem log_polls_keep_the_store:
  assumes "\<forall>e \<in> set es. log_input_ok e" and "log_wf B so (length es * nat (po_max opts)) (pp_state p)"
  shows "log_wf B so 0 (pp_state (log_run (log_state B so) opts es p))"
  by (rule log_run_state [OF assms])

lemma log_polls_keep_the_store_witness:
  "\<exists>d. log_wf ref_bolt example_options 0
     (pp_state (log_run (log_state ref_bolt example_options) example_log_pipe
        [example_log_poll, example_log_poll] (new_pipeline d (new_store :: int view))))"
proof -
  obtain d where d: "log_wf ref_bolt example_options 100 d" using example_log_known by blast
  have "\<forall>e \<in> set [example_log_poll, example_log_poll]. log_input_ok e" using example_log_poll_ok by simp
  moreover have "log_wf ref_bolt example_options (length [example_log_poll, example_log_poll] * nat (po_max example_log_pipe))
      (pp_state (new_pipeline d (new_store :: int view)))"
    using log_store.wf_drop [of ref_bolt example_options 4 96 d] d by (simp add: example_log_pipe_def new_pipeline_def)
  ultimately have "log_wf ref_bolt example_options 0
     (pp_state (log_run (log_state ref_bolt example_options) example_log_pipe
        [example_log_poll, example_log_poll] (new_pipeline d (new_store :: int view))))"
    by (rule log_polls_keep_the_store)
  then show ?thesis by blast
qed

text \<open>
  A poll of the log pipeline forgets a log identifier only on the strength of a well-formed
  and complete list that does not contain it.
\<close>

theorem log_poll_forgets_only_unlisted:
  assumes "log_wf B so (n + nat (po_max opts)) (pp_state p)" and "log_input_ok e"
    and "log_known B i (pp_state p)"
  shows "log_known B i (pp_state (log_poll (log_state B so) opts e p)) \<or>
         (\<exists>l. pi_list e = Inr l \<and> whole_log_list l \<and> i \<notin> li_id ` set (ll_results l))"
  using log_poll_state [OF assms(1,2)] assms(3) by blast

lemma log_poll_forgets_only_unlisted_witness:
  "\<exists>d. log_known ref_bolt ''l/1'' d \<and>
     log_known ref_bolt ''l/1'' (pp_state (log_poll (log_state ref_bolt example_options) example_log_pipe
       example_log_poll (new_pipeline d (new_store :: int view))))"
proof -
  obtain d where d: "log_wf ref_bolt example_options 100 d" "log_known ref_bolt ''l/1'' d"
    using example_log_known by blast
  have "log_known ref_bolt ''l/1'' (pp_state (new_pipeline d (new_store :: int view)))"
    using d(2) by (simp add: new_pipeline_def)
  from log_poll_forgets_only_unlisted [OF example_log_poll_wf [OF d(1)] example_log_poll_ok this] d(2)
  show ?thesis by (auto simp: example_log_poll_def whole_log_list_def list_complete_def)
qed

text \<open>
  What the readiness of the log pipeline means: right after a poll it can only be ready if the
  list was fetched, is not malformed and is complete or, with backfilling on, bounded by the service's
  threshold, and the state is healthy and not full.
\<close>

theorem log_ready_means_complete_or_bounded:
  assumes "log_pipeline_ready (pp_view (log_poll S opts e p))"
  shows "(\<exists>l. pi_list e = Inr l \<and>
            (whole_log_list l \<or> lo_backfill opts \<and> \<not> ll_malformed l \<and> list_bounded l)) \<and>
         (\<exists>events. so_health S (pp_state (log_poll S opts e p)) = (events, False, None))"
proof (cases "pi_list e")
  case (Inl err)
  then show ?thesis using assms by (simp add: log_poll_def snap_op_defs)
next
  case (Inr l)
  then show ?thesis
    apply (rule log_poll_cases [where S = S and opts = opts and p = p])
    using assms log_list_flags Inr
    by (auto simp: Let_def snap_op_defs log_unhealthy_def whole_log_list_def split: if_splits)
qed

lemma log_ready_means_complete_or_bounded_witness:
  "\<exists>d (v :: int view) l. pi_list example_log_poll = Inr l \<and> \<not> whole_log_list l \<and>
     log_pipeline_ready (pp_view (log_poll (log_state ref_bolt example_options) example_log_pipe
       example_log_poll (new_pipeline d v))) \<and> list_bounded l"
proof -
  define v :: "int view" where "v = set_log_publisher_state_healthy True new_store"
  obtain d where d: "log_represents ref_bolt d empty_log_abs" using example_log_open by blast
  have h: "so_health (log_state ref_bolt example_options) d = (0, False, None)"
    using log_health_exact [OF ref_bolt_ok d, of example_options]
    by (simp add: log_state_def empty_log_abs_def example_options_def log_total_bytes_def)
  have sf: "select_fair 2 [] new_fair_state = (new_fair_state, [])"
    by (simp add: select_fair_def fair_pick_def new_fair_state_def Let_def)
  have r: "so_reconcile (log_state ref_bolt example_options) {} 1 False d = (d, None)"
    by (simp add: log_state_def log_reconcile_listed_def)
  have "log_pipeline_ready (pp_view (log_poll (log_state ref_bolt example_options) example_log_pipe
       example_log_poll (new_pipeline d v)))"
    using h sf r
    by (simp add: log_poll_def example_log_poll_def new_pipeline_def example_log_pipe_def usable_list_def
        total_known_def total_above_def log_select_fair_def log_fetch_details_def fetch_details_def Let_def
        snap_op_defs collector_status_of_def v_def)
  from log_ready_means_complete_or_bounded [OF this] this show ?thesis
    by (intro exI [of _ d] exI [of _ v])
      (auto simp: example_log_poll_def whole_log_list_def list_complete_def)
qed

end
