(* ===== verification/Go_Zoned.thy ===== *)
theory Go_Zoned
  imports Go_Time Go_Json_Roundtrip
begin

text \<open>
  \<open>time.Time\<close> with its zone, as far as \<open>encoding/json\<close> shows it: an instant and an offset from UTC in
  seconds. \<open>format_zoned\<close> is the text \<open>MarshalJSON\<close> writes, \<open>zoned_json_ok\<close> its check (a year of four
  digits, an offset below 24 hours), \<open>parse_zoned\<close> is \<open>time.Parse(time.RFC3339Nano, s)\<close>, which
  \<open>UnmarshalJSON\<close> uses too. Only the text depends on the offset: comparisons are on the instants. A
  time string of a JSON document is compared after unescaping here and before it by the program; the
  stores reject such a document in either case because it is not canonical.
\<close>

record zoned =
  zt_at :: go_time
  zt_off :: int

definition utc_time :: "go_time \<Rightarrow> zoned" where
  "utc_time t = \<lparr>zt_at = t, zt_off = 0\<rparr>"

definition zero_zoned :: zoned where "zero_zoned = utc_time zero_time"

definition zoned_is_zero :: "zoned \<Rightarrow> bool" where "zoned_is_zero z \<longleftrightarrow> is_zero (zt_at z)"

definition zoned_add :: "zoned \<Rightarrow> go_duration \<Rightarrow> zoned" where
  "zoned_add z d = z\<lparr>zt_at := zt_at z + d\<rparr>"

text \<open>\<open>t.Truncate(time.Second)\<close>.\<close>

definition trunc_second :: "go_time \<Rightarrow> go_time" where
  "trunc_second t = t div 1000000000 * 1000000000"

definition zoned_trunc :: "zoned \<Rightarrow> zoned" where
  "zoned_trunc z = z\<lparr>zt_at := trunc_second (zt_at z)\<rparr>"

lemma trunc_second_bounds: "trunc_second t \<le> t" "t < trunc_second t + 1000000000"
  unfolding trunc_second_def
  using mult_div_mod_eq [of 1000000000 t] pos_mod_sign [of 1000000000 t] pos_mod_bound [of 1000000000 t]
  by linarith+

lemma trunc_second_mono: "s \<le> t \<Longrightarrow> trunc_second s \<le> trunc_second t"
  by (simp add: trunc_second_def zdiv_mono1)

lemma zoned_simps [simp]:
  "zt_at (utc_time t) = t" "zt_off (utc_time t) = 0"
  "zt_at (zoned_add z d) = zt_at z + d" "zt_off (zoned_add z d) = zt_off z"
  "zt_at (zoned_trunc z) = trunc_second (zt_at z)" "zt_off (zoned_trunc z) = zt_off z"
  "zt_at zero_zoned = zero_time" "zt_off zero_zoned = 0"
  by (simp_all add: utc_time_def zoned_add_def zoned_trunc_def zero_zoned_def)

section \<open>Text\<close>

definition show_zone :: "int \<Rightarrow> bytes" where
  "show_zone off =
     (if off = 0 then ''Z''
      else let m = (if off < 0 then - ((- off) div 60) else off div 60); k = nat (abs m)
           in (if m < 0 then CHR ''-'' else CHR ''+'') # pad_digits 2 (k div 60) @ CHR '':'' # pad_digits 2 (k mod 60))"

definition format_zoned :: "zoned \<Rightarrow> bytes" where
  "format_zoned z =
     (let t = zt_at z + zt_off z * 1000000000;
          (y, m, d) = utc_date t;
          r = nat (t div 1000000000 mod 86400)
      in show_year y @ CHR ''-'' # pad_digits 2 m @ CHR ''-'' # pad_digits 2 (nat d) @
         CHR ''T'' # pad_digits 2 (r div 3600) @ CHR '':'' # pad_digits 2 (r div 60 mod 60) @
         CHR '':'' # pad_digits 2 (r mod 60) @ show_frac (nat (t mod 1000000000)) @ show_zone (zt_off z))"

definition zoned_json_ok :: "zoned \<Rightarrow> bool" where
  "zoned_json_ok z \<longleftrightarrow> year_ok (zt_at z + zt_off z * 1000000000) \<and> abs (zt_off z) < 86400"

definition parse_zoned :: "bytes \<Rightarrow> zoned option" where
  "parse_zoned s =
     do { (y, s1) \<leftarrow> take_digits 4 s;
          s2 \<leftarrow> take_char (CHR ''-'') s1;
          (m, s3) \<leftarrow> take_digits 2 s2;
          s4 \<leftarrow> take_char (CHR ''-'') s3;
          (d, s5) \<leftarrow> take_digits 2 s4;
          s6 \<leftarrow> take_char (CHR ''T'') s5;
          (h, s7) \<leftarrow> take_hour s6;
          s8 \<leftarrow> take_char (CHR '':'') s7;
          (mi, s9) \<leftarrow> take_digits 2 s8;
          s10 \<leftarrow> take_char (CHR '':'') s9;
          (sec, s11) \<leftarrow> take_digits 2 s10;
          (let (ns, s12) = take_frac s11
           in do { off \<leftarrow> take_zone s12;
                   (if date_valid (int y) m (int d) \<and> h < 24 \<and> mi < 60 \<and> sec < 60
                    then Some \<lparr>zt_at = ((day_number (int y) m (int d) - unix_epoch_day) * 86400
                                 + int (h * 3600 + mi * 60 + sec) - off) * 1000000000 + int ns,
                               zt_off = off\<rparr>
                    else None) }) }"

lemma parse_zoned_at: "parse_rfc3339 s = map_option zt_at (parse_zoned s)"
  unfolding parse_rfc3339_def parse_zoned_def
  by (auto simp: Let_def split: option.split prod.split bind_split)

lemma take_zone_minutes: "take_zone s = Some off \<Longrightarrow> off mod 60 = 0"
  unfolding take_zone_def
  by (auto simp: Option.bind_eq_Some_conv split: if_splits list.splits prod.splits)

lemma parse_zoned_minutes: "parse_zoned s = Some z \<Longrightarrow> zt_off z mod 60 = 0"
  unfolding parse_zoned_def
  by (auto simp: Option.bind_eq_Some_conv Let_def case_prod_beta dest: take_zone_minutes split: if_splits)

section \<open>Round trip\<close>

definition zone_head :: "bytes \<Rightarrow> bool" where
  "zone_head s \<longleftrightarrow> (\<exists>c t. s = c # t \<and> \<not> is_digit c \<and> c \<noteq> CHR ''.'' \<and> c \<noteq> CHR '','')"

lemma take_frac_zone:
  assumes "n < 1000000000" "zone_head z"
  shows "take_frac (show_frac n @ z) = (n, z)"
proof (cases "n = 0")
  case True
  then show ?thesis using assms(2) by (auto simp: show_frac_def take_frac_def zone_head_def split: list.split)
next
  case False
  have "take_frac (show_frac n @ ''Z'') = (n, ''Z'')" by (rule take_frac_show) (rule assms)
  obtain k where k: "pad_digits 9 n = strip_zeros (pad_digits 9 n) @ replicate k (digit 0)"
    using strip_zeros_split by blast
  define x where "x = strip_zeros (pad_digits 9 n)"
  have len: "length x + k = 9" using arg_cong [OF k, of length] by (simp add: x_def)
  have val: "read_nat x * 10 ^ k = n"
    using read_nat_zeros [of x k] k read_pad_digits [of n 9] assms by (simp add: x_def)
  have ds: "\<forall>c \<in> set x. is_digit c"
    using pad_digits_digits [of _ 9 n] k unfolding x_def by (metis UnI1 set_append)
  have "x \<noteq> []" using val False by (auto simp: read_nat_def)
  then obtain d t where x: "x = d # t" by (cases x) auto
  have tw: "takeWhile is_digit (x @ z) = x" "dropWhile is_digit (x @ z) = z"
    using ds assms(2) by (auto simp: takeWhile_append2 dropWhile_append2 zone_head_def)
  have "9 - length x = k" "take 9 x = x" using len by simp_all
  moreover have "show_frac n = CHR ''.'' # x" using False by (simp add: show_frac_def x_def)
  ultimately show ?thesis
    using tw ds val unfolding take_frac_def by (simp add: x)
qed

lemma zone_head_show: "zone_head (show_zone off)"
  by (auto simp: zone_head_def show_zone_def Let_def is_digit_def byte_def)

lemma take_zone_show:
  assumes "abs off < 86400" "off mod 60 = 0"
  shows "take_zone (show_zone off) = Some off"
proof (cases "off = 0")
  case True
  then show ?thesis by (simp add: show_zone_def take_zone_def)
next
  case False
  define m where "m = (if off < 0 then - ((- off) div 60) else off div 60)"
  have "60 dvd off" using assms(2) by (simp add: dvd_eq_mod_eq_0)
  then obtain j where j: "off = 60 * j" by (rule dvdE)
  have "(- (60 * j)) div 60 = - j" using nonzero_mult_div_cancel_left [of 60 "- j"] by simp
  then have m: "off = 60 * m" using j unfolding m_def by simp
  define k where "k = nat (abs m)"
  have k: "k < 1440" "int k = abs m" using assms(1) m by (simp_all add: k_def)
  have b: "k div 60 < 10 ^ 2" "k mod 60 < 10 ^ 2" "k div 60 \<le> 24" "k mod 60 \<le> 60"
    using k(1) mod_less_divisor [of 60 k] by (auto simp: less_mult_imp_div_less)
  have m0: "m \<noteq> 0" using False m by simp
  have e: "take_digits 2 (pad_digits 2 (k mod 60)) = Some (k mod 60, [])"
    using take_digits_pad [OF b(2), of "[]"] by simp
  have s: "show_zone off = (if m < 0 then CHR ''-'' else CHR ''+'') # pad_digits 2 (k div 60) @ CHR '':'' # pad_digits 2 (k mod 60)"
    using False by (simp add: show_zone_def Let_def m_def k_def)
  have n: "int (k div 60) * 60 + int (k mod 60) = abs m"
    by (metis k(2) of_nat_add of_nat_mult of_nat_numeral div_mult_mod_eq)
  have nz: "show_zone off \<noteq> ''Z''" by (simp add: s)
  have "take_zone (show_zone off) =
      Some ((if m < 0 then -1 else 1) * (int (k div 60) * 60 + int (k mod 60)) * 60)"
    using nz unfolding take_zone_def s
    by (simp add: take_digits_pad [OF b(1)] e b(3,4) del: pad_digits.simps)
  also have "\<dots> = Some off" unfolding n using m by simp
  finally show ?thesis .
qed

theorem parse_format_zoned:
  assumes "zoned_json_ok z" "zt_off z mod 60 = 0"
  shows "parse_zoned (format_zoned z) = Some z"
proof -
  define t where "t = zt_at z + zt_off z * 1000000000"
  obtain y m d where c: "utc_date t = (y, m, d)" by (cases "utc_date t") auto
  from c have cn: "civil (t div 1000000000 div 86400 + unix_epoch_day) = (y, m, d)"
    by (simp add: utc_date_def)
  note dn = day_number_civil [OF cn]
  have y: "0 \<le> y" "nat y < 10000"
    using assms(1) c by (auto simp: utc_year_def zoned_json_ok_def year_ok_def t_def)
  have d: "1 \<le> d" using dn(2) by (simp add: date_valid_def)
  define r where "r = nat (t div 1000000000 mod 86400)"
  have r: "r < 86400" "int r = t div 1000000000 mod 86400" by (simp_all add: r_def)
  have rng: "r div 3600 < 24" "r div 60 mod 60 < 60" "r mod 60 < 60"
    using r(1) by (simp_all add: less_mult_imp_div_less)
  have n: "nat (t mod 1000000000) < 1000000000" by (simp add: nat_less_iff)
  have v: "date_valid (int (nat y)) m (int (nat d))" using dn(2) y d by simp
  have yr: "show_year y = pad_digits 4 (nat y)" using y by (simp add: show_year_def)
  have b: "m < 10 ^ 2" "nat d < 10 ^ 2" "r div 60 mod 60 < 10 ^ 2" "r mod 60 < 10 ^ 2" "nat y < 10 ^ 4" "r div 3600 < 100"
    using v rng y by (auto simp: date_valid_def days_in_month_def split: if_splits)
  have zn: "take_zone (show_zone (zt_off z)) = Some (zt_off z)"
    using assms by (intro take_zone_show) (simp_all add: zoned_json_ok_def)
  have f: "format_zoned z = pad_digits 4 (nat y) @ CHR ''-'' # pad_digits 2 m @ CHR ''-'' # pad_digits 2 (nat d) @
         CHR ''T'' # pad_digits 2 (r div 3600) @ CHR '':'' # pad_digits 2 (r div 60 mod 60) @
         CHR '':'' # pad_digits 2 (r mod 60) @ show_frac (nat (t mod 1000000000)) @ show_zone (zt_off z)"
    unfolding format_zoned_def t_def [symmetric] c case_prod_conv yr r_def [symmetric] Let_def ..
  have dy: "day_number (int (nat y)) m (int (nat d)) - unix_epoch_day = t div 1000000000 div 86400"
    using dn(1) y d by simp
  have p: "parse_zoned (format_zoned z) =
      Some \<lparr>zt_at = ((day_number (int (nat y)) m (int (nat d)) - unix_epoch_day) * 86400
              + int (r div 3600 * 3600 + r div 60 mod 60 * 60 + r mod 60) - zt_off z) * 1000000000 +
              int (nat (t mod 1000000000)), zt_off = zt_off z\<rparr>"
    unfolding f parse_zoned_def take_digits_pad [OF b(5)] bind.simps case_prod_conv take_char_same
      take_digits_pad [OF b(1)] take_digits_pad [OF b(2)] take_hour_pad [OF b(6)]
      take_digits_pad [OF b(3)] take_digits_pad [OF b(4)] take_frac_zone [OF n zone_head_show] Let_def zn
    using v rng by simp
  have "(t div 1000000000 div 86400 * 86400 + int r - zt_off z) * 1000000000 + int (nat (t mod 1000000000)) = zt_at z"
    unfolding r(2) by (simp add: t_def algebra_simps)
  then show ?thesis unfolding p hms_seconds dy by simp
qed

section \<open>JSON\<close>

definition jtime :: "zoned \<Rightarrow> json" where "jtime z = JStr (format_zoned z)"

definition un_time :: "json \<Rightarrow> zoned \<Rightarrow> zoned option" where
  "un_time j cur = (case j of JStr s \<Rightarrow> parse_zoned s | JNull \<Rightarrow> Some cur | _ \<Rightarrow> None)"

lemma un_time_jtime [simp]:
  "zoned_json_ok z \<Longrightarrow> zt_off z mod 60 = 0 \<Longrightarrow> un_time (jtime z) cur = Some z"
  by (simp add: un_time_def jtime_def parse_format_zoned)

lemma format_zoned_ascii: "c \<in> set (format_zoned z) \<Longrightarrow> byte c < 128"
proof -
  have y: "c \<in> set (show_year i) \<Longrightarrow> is_digit c \<or> c = CHR ''-''" for i
    using pad_digits_digits show_nat_digits by (auto simp: show_year_def Let_def split: if_splits)
  have f: "c \<in> set (show_frac n) \<Longrightarrow> is_digit c \<or> c = CHR ''.''" for n
  proof -
    have "set (strip_zeros s) \<subseteq> set s" for s
      using set_dropWhileD by (fastforce simp: strip_zeros_def)
    from subsetD [OF this] have "c \<in> set (strip_zeros (pad_digits 9 n)) \<Longrightarrow> is_digit c"
      using pad_digits_digits by blast
    then show "c \<in> set (show_frac n) \<Longrightarrow> is_digit c \<or> c = CHR ''.''"
      by (auto simp: show_frac_def split: if_splits)
  qed
  have z: "c \<in> set (show_zone n) \<Longrightarrow> is_digit c \<or> c \<in> set ''-+:Z''" for n
    using pad_digits_digits by (auto simp: show_zone_def Let_def split: if_splits simp del: pad_digits.simps)
  assume "c \<in> set (format_zoned z)"
  then have "is_digit c \<or> c \<in> set ''-+:TZ.''"
    using y f z pad_digits_digits by (fastforce simp: format_zoned_def Let_def split: prod.splits simp del: pad_digits.simps)
  then show ?thesis by (auto simp: is_digit_def byte_def)
qed

lemma json_ok_jtime [simp]: "json_ok (jtime z)"
proof -
  have "utf8_valid (format_zoned z)" using format_zoned_ascii by (intro utf8_valid_ascii) auto
  then show ?thesis by (simp add: jtime_def)
qed

lemma jtime_simps [simp]: "jtime z \<noteq> JNull" "json_depth (jtime z) = 0"
  by (simp_all add: jtime_def)

lemma length_format_zoned:
  assumes "zoned_json_ok z"
  shows "length (format_zoned z) \<le> 40"
proof -
  obtain y m d where c: "utc_date (zt_at z + zt_off z * 1000000000) = (y, m, d)"
    by (cases "utc_date (zt_at z + zt_off z * 1000000000)") auto
  have y: "length (show_year y) = 4"
    using assms c by (auto simp: zoned_json_ok_def year_ok_def utc_year_def show_year_def Let_def)
  have "length (strip_zeros s) \<le> length s" for s
    unfolding strip_zeros_def using length_dropWhile_le [of _ "rev s"] by simp
  from this [of "pad_digits 9 n" for n] have f: "length (show_frac n) \<le> 10" for n by (simp add: show_frac_def)
  have z: "length (show_zone n) \<le> 6" for n by (simp add: show_zone_def Let_def)
  have "length (show_frac n) + length (show_zone k) \<le> 16" for n k using f [of n] z [of k] by linarith
  from this [of "nat (zt_at z mod 1000000000)" "zt_off z"] show ?thesis using y by (simp add: format_zoned_def c Let_def)
qed

lemma zero_zoned_json_ok: "zoned_json_ok zero_zoned"
proof -
  have "utc_date zero_time = civil (day_number 1 1 1)"
    by (simp add: utc_date_def zero_time_def unix_epoch_day_def day_number_def days_before_year_def
        days_before_month_def)
  moreover have "date_valid 1 1 1" by (simp add: date_valid_def days_in_month_def)
  ultimately show ?thesis by (simp add: zoned_json_ok_def year_ok_def utc_year_def civil_day_number)
qed

end
