(* ===== verification/Go_Json_Raw.thy ===== *)
theory Go_Json_Raw
  imports Go_Json_Roundtrip
begin

text \<open>
  \<open>json.RawMessage\<close>: the text of the members of an object, without the white space around it. It is
  asked for only after the document was found valid; \<open>raw_fields\<close> walks the members with the same
  scanner as \<open>json_parse\<close>. For a printed object every member's text is its printed value.
\<close>

definition raw_value :: "bytes \<Rightarrow> (bytes \<times> bytes) option" where
  "raw_value t =
     (case parse_val (Suc (length t)) max_nesting t of
        None \<Rightarrow> None
      | Some (x, u) \<Rightarrow> Some (take (length (skip_ws t) - length u) (skip_ws t), u))"

fun raw_members :: "nat \<Rightarrow> bytes \<Rightarrow> (bytes \<times> bytes) list option" where
  "raw_members 0 s = None"
| "raw_members (Suc n) s =
     (case skip_ws s of
        [] \<Rightarrow> None
      | q # s1 \<Rightarrow>
          (case parse_str s1 of
             None \<Rightarrow> None
           | Some (k, r) \<Rightarrow>
               (case skip_ws r of
                  [] \<Rightarrow> None
                | c # t \<Rightarrow>
                    (case raw_value t of
                       None \<Rightarrow> None
                     | Some (v, u) \<Rightarrow>
                         (case skip_ws u of
                            [] \<Rightarrow> None
                          | e # w \<Rightarrow>
                              if e = CHR '','' then map_option (\<lambda>ms. (k, v) # ms) (raw_members n w)
                              else Some [(k, v)])))))"

definition raw_fields :: "bytes \<Rightarrow> (bytes \<times> bytes) list option" where
  "raw_fields s =
     (case skip_ws s of
        c # t \<Rightarrow>
          if c \<noteq> CHR ''{'' then None
          else if skip_ws t \<noteq> [] \<and> hd (skip_ws t) = CHR ''}'' then Some []
          else raw_members (length s) t
      | [] \<Rightarrow> None)"

text \<open>The value a \<open>json.RawMessage\<close> field ends up with: the last member that reaches it.\<close>

fun raw_field :: "bytes \<Rightarrow> (bytes \<times> bytes) list \<Rightarrow> bytes option \<Rightarrow> bytes option" where
  "raw_field name [] cur = cur"
| "raw_field name ((k, v) # ms) cur = raw_field name ms (if equal_fold k name then Some v else cur)"

lemma value_head_not_ws: "value_head c \<Longrightarrow> \<not> is_ws c"
  by (auto simp: value_head_def)

lemma skip_ws_print: "json_ok j \<Longrightarrow> skip_ws (json_print j @ u) = json_print j @ u"
  using json_print_head [of j] value_head_not_ws by auto

lemma raw_value_print:
  assumes "json_ok j" "json_depth j \<le> max_nesting" "num_end u"
  shows "raw_value (json_print j @ u) = Some (json_print j, u)"
proof -
  have "json_fuel j \<le> Suc (length (json_print j @ u))"
    using json_fuel_le_length [OF assms(1)] by simp
  then have "parse_val (Suc (length (json_print j @ u))) max_nesting (json_print j @ u) = Some (j, u)"
    using reads_back_all [of j] assms by blast
  then show ?thesis using skip_ws_print [OF assms(1)] unfolding raw_value_def by simp
qed

lemma raw_members_print:
  assumes "ms \<noteq> []" "\<forall>m \<in> set ms. utf8_valid (fst m) \<and> json_ok (snd m) \<and> json_depth (snd m) \<le> max_nesting"
    and "length ms \<le> n"
  shows "raw_members n (join_comma (map print_member ms) @ CHR ''}'' # u) =
     Some (map (\<lambda>m. (fst m, json_print (snd m))) ms)"
  using assms
proof (induction ms arbitrary: n)
  case (Cons m ms)
  then obtain k where n: "n = Suc k" by (cases n) auto
  obtain name x where m: "m = (name, x)" by (cases m)
  have x: "json_ok x" "json_depth x \<le> max_nesting" "utf8_valid name" using Cons.prems(2) m by auto
  have val: "raw_value (json_print x @ r) = Some (json_print x, r)" if "num_end r" for r
    using raw_value_print [OF x(1,2) that] .
  show ?case
  proof (cases ms)
    case Nil
    have e: "join_comma (map print_member (m # ms)) @ CHR ''}'' # u =
        CHR 0x22 # json_escape name @ CHR 0x22 # CHR '':'' # json_print x @ CHR ''}'' # u"
      using m Nil by (simp add: print_member_def print_str_def)
    show ?thesis unfolding e n raw_members.simps using Nil m x(3) val [of "CHR ''}'' # u"]
      by (simp add: parse_str_escape)
  next
    case (Cons y ys)
    let ?rest = "join_comma (map print_member ms) @ CHR ''}'' # u"
    have e: "join_comma (map print_member (m # ms)) @ CHR ''}'' # u =
        CHR 0x22 # json_escape name @ CHR 0x22 # CHR '':'' # json_print x @ CHR '','' # ?rest"
      using m Cons by (simp add: print_member_def [of "(name, x)"] print_str_def [of name])
    have ih: "raw_members k ?rest = Some (map (\<lambda>m. (fst m, json_print (snd m))) ms)"
      using Cons.prems n Cons by (intro Cons.IH) auto
    show ?thesis unfolding e n raw_members.simps using m x(3) val [of "CHR '','' # ?rest"] ih
      by (simp add: parse_str_escape)
  qed
qed simp

theorem raw_fields_print:
  assumes "\<forall>m \<in> set ms. utf8_valid (fst m) \<and> json_ok (snd m) \<and> json_depth (snd m) \<le> max_nesting"
  shows "raw_fields (json_print (JObj ms)) = Some (map (\<lambda>m. (fst m, json_print (snd m))) ms)"
proof (cases "ms = []")
  case True
  then show ?thesis by (simp add: raw_fields_def)
next
  case False
  let ?body = "join_comma (map print_member ms) @ CHR ''}'' # []"
  obtain w where w: "?body = CHR 0x22 # w"
    using False join_comma_head [of "map print_member ms"]
    by (cases ms) (force simp: print_member_def print_str_def)+
  have len: "length ms \<le> length (json_print (JObj ms))"
  proof -
    have "length ms \<le> sum_list (map (\<lambda>s. Suc (length s)) (map print_member ms))"
      using sum_list_mono [of ms "\<lambda>_. 1" "\<lambda>m. Suc (length (print_member m))"] by (simp add: sum_list_triv comp_def)
    then show ?thesis
      using False length_join_comma [of "map print_member ms"] by (simp add: json_print_JObj del: json_print.simps)
  qed
  have "raw_members (length (json_print (JObj ms))) ?body = Some (map (\<lambda>m. (fst m, json_print (snd m))) ms)"
    by (rule raw_members_print [OF False assms len])
  then show ?thesis using w by (simp add: raw_fields_def json_print_JObj del: json_print.simps)
qed

lemma raw_field_fresh:
  "\<forall>m \<in> set ms. \<not> equal_fold (fst m) name \<Longrightarrow> raw_field name ms cur = cur"
  by (induction ms arbitrary: cur) auto

end
