(* ===== verification/History_Props.thy ===== *)
theory History_Props
  imports History_State Go_Json_Text
begin

text \<open>
  Facts about the stored progress: the JSON text and the envelope read back, a load after a successful
  update returns exactly the updated progress and leaves the other pipeline's progress alone, and whatever
  is loaded is a validated record whose stored text is its canonical encoding.
\<close>

section \<open>Round trips\<close>

definition progress_typed :: "progress \<Rightarrow> bool" where
  "progress_typed p \<longleftrightarrow>
     utf8_valid (pr_source p) \<and> utf8_valid (pr_block p) \<and> is_int64 (pr_lookback p) \<and> is_int64 (pr_overlap p) \<and>
     (\<forall>i \<in> set (elems (pr_pending p)). utf8_valid (it_id i) \<and> utf8_valid (it_marker i)) \<and>
     (\<forall>z \<in> set (progress_times p). zt_off z mod 60 = 0)"

lemma history_names:
  "fold_name ''Start'' = ''START''" "fold_name ''End'' = ''END''" "fold_name ''ID'' = ''ID''"
  "fold_name ''Marker'' = ''MARKER''" "fold_name ''When'' = ''WHEN''" "fold_name ''Source'' = ''SOURCE''"
  "fold_name ''Lookback'' = ''LOOKBACK''" "fold_name ''Overlap'' = ''OVERLAP''"
  "fold_name ''LastCompleted'' = ''LASTCOMPLETED''" "fold_name ''LastSweep'' = ''LASTSWEEP''"
  "fold_name ''Windows'' = ''WINDOWS''" "fold_name ''Pending'' = ''PENDING''" "fold_name ''Page'' = ''PAGE''"
  "fold_name ''Block'' = ''BLOCK''" "fold_name ''Version'' = ''VERSION''" "fold_name ''Hash'' = ''HASH''"
  "fold_name ''Data'' = ''DATA''"
  by (simp_all add: fold_name_ascii is_lower_def byte_def chr_def char_of_def bit_0)

lemma history_names_valid:
  "utf8_valid ''Start''" "utf8_valid ''End''" "utf8_valid ''ID''" "utf8_valid ''Marker''" "utf8_valid ''When''"
  "utf8_valid ''Source''" "utf8_valid ''Lookback''" "utf8_valid ''Overlap''" "utf8_valid ''LastCompleted''"
  "utf8_valid ''LastSweep''" "utf8_valid ''Windows''" "utf8_valid ''Pending''" "utf8_valid ''Page''"
  "utf8_valid ''Block''" "utf8_valid ''Version''" "utf8_valid ''Hash''" "utf8_valid ''Data''"
  by (rule utf8_valid_ascii, auto simp: byte_def)+

lemma un_window_json:
  assumes "\<forall>z \<in> set (window_times w). zoned_json_ok z \<and> zt_off z mod 60 = 0"
  shows "un_window (window_json w) = Some w"
  using assms
  by (simp add: un_window_def window_json_def window_times_def equal_fold_def history_names)

lemma un_item_json:
  assumes "zoned_json_ok (it_when i)" "zt_off (it_when i) mod 60 = 0"
  shows "un_item (item_json i) = Some i"
  using assms
  by (simp add: un_item_def item_json_def equal_fold_def history_names)

lemma un_gslice_jslice:
  assumes "\<And>x. x \<in> set (elems s) \<Longrightarrow> f (enc x) = Some x"
  shows "un_gslice f (jslice enc s) cur = Some s"
  using assms un_list_map [of "elems s" f enc]
  by (cases s) (simp_all add: un_gslice_def jslice_def)

lemma window_json_not_null [simp]: "window_json w \<noteq> JNull" by (simp add: window_json_def)

lemma un_progress_json:
  assumes "progress_typed p" "list_all zoned_json_ok (progress_times p)"
  shows "un_progress source (progress_json p) = Some p"
proof -
  have t: "\<forall>z \<in> set (progress_times p). zoned_json_ok z \<and> zt_off z mod 60 = 0"
    using assms by (simp add: progress_typed_def list_all_iff)
  have w: "un_gslice un_window (jslice window_json (pr_windows p)) cur = Some (pr_windows p)" for cur
    using t by (intro un_gslice_jslice un_window_json) (auto simp: progress_times_def)
  have i: "un_gslice un_item (jslice item_json (pr_pending p)) cur = Some (pr_pending p)" for cur
    using t by (intro un_gslice_jslice un_item_json) (auto simp: progress_times_def)
  have g: "un_ptr (\<lambda>j z. un_window j) zero_window (case pr_page p of None \<Rightarrow> JNull | Some w \<Rightarrow> window_json w) =
      Some (pr_page p)"
    using t un_window_json
    by (cases "pr_page p") (simp_all add: un_ptr_not_null progress_times_def, simp add: un_ptr_def)
  have r: "min_int64 \<le> pr_lookback p" "pr_lookback p \<le> max_int64" "min_int64 \<le> pr_overlap p" "pr_overlap p \<le> max_int64"
    using assms(1) by (simp_all add: progress_typed_def is_int64_def)
  have z: "zoned_json_ok z \<and> zt_off z mod 60 = 0" if "z \<in> {pr_start p, pr_end p, pr_last_completed p, pr_last_sweep p}" for z
    using t that by (auto simp: progress_times_def)
  show ?thesis
    using w i g r z
    by (simp add: un_progress_def progress_json_def equal_fold_def history_names)
qed

lemma progress_json_ok: "progress_typed p \<Longrightarrow> json_ok (progress_json p)"
  by (auto simp: progress_json_def progress_typed_def jslice_def window_json_def item_json_def list_all_iff
      history_names_valid split: option.split)

lemma json_depth_window: "json_depth (window_json w) = 1" "json_depth (item_json i) = 1"
  by (simp_all add: window_json_def item_json_def)

lemma json_depth_jslice: "(\<And>x. json_depth (enc x) = 1) \<Longrightarrow> json_depth (jslice enc s) \<le> 2"
proof -
  assume "\<And>x. json_depth (enc x) = 1"
  then have "foldr max (map json_depth (map enc xs)) 0 \<le> 1" for xs by (induction xs) simp_all
  then have "Suc (foldr max (map json_depth (map enc xs)) 0) \<le> 2" for xs
    by (metis Suc_1 Suc_le_mono One_nat_def)
  then show ?thesis by (auto simp: jslice_def split: option.split simp del: map_map)
qed

lemma json_depth_progress: "json_depth (progress_json p) \<le> 4"
  using json_depth_jslice [of window_json "pr_windows p"] json_depth_jslice [of item_json "pr_pending p"]
  by (auto simp: progress_json_def json_depth_window split: option.split)

lemma unmarshal_marshal_progress:
  assumes "progress_typed p" "marshal_progress p = Some data"
  shows "unmarshal_progress source data = Some p"
proof -
  have m: "list_all zoned_json_ok (progress_times p)" "data = json_print (progress_json p)"
    using assms(2) by (auto simp: marshal_progress_def split: if_splits)
  have "json_depth (progress_json p) \<le> max_nesting" using json_depth_progress [of p] by (simp add: max_nesting_def)
  then show ?thesis
    using json_parse_print [OF progress_json_ok [OF assms(1)]] un_progress_json [OF assms(1) m(1)]
    by (simp add: unmarshal_progress_def m(2))
qed

lemma unmarshal_marshal_envelope:
  assumes "utf8_valid h" "json_ok j" "json_depth j < max_nesting"
  shows "unmarshal_envelope (marshal_envelope h j) = Some (1, h, json_print j)"
proof -
  let ?ms = "[(''Version'', jint 1), (''Hash'', JStr h), (''Data'', j)]"
  have ok: "json_ok (JObj ?ms)" using assms by (simp add: history_names_valid)
  have depth: "json_depth (JObj ?ms) \<le> max_nesting" using assms(3) by (simp add: max_nesting_def)
  have raw: "raw_fields (marshal_envelope h j) =
      Some [(''Version'', json_print (jint 1)), (''Hash'', json_print (JStr h)), (''Data'', json_print j)]"
    unfolding marshal_envelope_def using assms
    by (subst raw_fields_print) (simp_all add: max_nesting_def history_names_valid)
  have "\<not> equal_fold ''Version'' ''Data''" "\<not> equal_fold ''Hash'' ''Data''"
    by (simp_all add: equal_fold_def history_names)
  then show ?thesis
    using json_parse_print [OF ok depth] raw
    by (simp add: unmarshal_envelope_def marshal_envelope_def equal_fold_def history_names min_int64_def max_int64_def del: json_print.simps)
qed

lemma decode_own_progress:
  assumes "progress_typed p" "marshal_progress p = Some data" "validate_progress p 100000 = Inr ()"
    and "length (marshal_envelope (sha256_hex data) (progress_json p)) \<le> max_value"
  shows "decode_progress (pr_source p) (marshal_envelope (sha256_hex data) (progress_json p)) = Inr p"
proof -
  have d: "data = json_print (progress_json p)"
    using assms(2) by (auto simp: marshal_progress_def split: if_splits)
  have "utf8_valid (sha256_hex data)"
    using sha256_hex_lower by (intro utf8_valid_ascii) (force simp: is_lower_hex_def is_digit_def)
  then have "unmarshal_envelope (marshal_envelope (sha256_hex data) (progress_json p)) = Some (1, sha256_hex data, data)"
    using unmarshal_marshal_envelope progress_json_ok [OF assms(1)] json_depth_progress [of p] d
    by (simp add: max_nesting_def)
  then show ?thesis
    using assms unmarshal_marshal_progress [OF assms(1,2)] by (simp add: decode_progress_def)
qed

section \<open>Loading and updating\<close>

lemma update_progress_error: "update_progress B key source limit f d = (d', Some e) \<Longrightarrow> d' = d"
  by (auto simp: update_progress_def split: if_splits prod.splits dest: update_tx_error_unchanged)

lemma validate_progress_mono:
  "validate_progress p limit = Inr () \<Longrightarrow> limit \<le> limit' \<Longrightarrow> validate_progress p limit' = Inr ()"
  by (auto simp: validate_progress_def split: if_splits)

lemma marshal_envelope_positive: "progress_bucket \<noteq> []" "key_ok key \<Longrightarrow> key \<noteq> [] \<and> length key \<le> 32768"
  by (auto simp: progress_bucket_def key_ok_def)

lemma update_progress_load:
  assumes B: "bolt_ok B" and u: "update_progress B key source limit f d = (d', None)" and lim: "limit \<le> 100000"
  obtains p p' where "load_progress B key source d = Inr p" "f p = Inr p'" "validate_progress p' limit = Inr ()"
    "progress_typed p' \<Longrightarrow> load_progress B key source d' = Inr p'"
    "\<And>k s. k \<noteq> key \<Longrightarrow> load_progress B k s d' = load_progress B k s d"
proof -
  from u have k: "key_ok key" "source \<noteq> []"
    and tx: "update_tx B () (update_progress_tx B key source limit f) d = (d', (), None)"
    by (auto simp: update_progress_def split: if_splits prod.splits)
  from tx obtain d1 where b: "update_progress_tx B key source limit f d = Inr (d1, ())" and c: "commit B d1 = Some d'"
    by (auto elim: update_tx_cases)
  from b obtain p p' data where
    p: "read_progress B key source d = Inr p" "f p = Inr p'" "pr_source p' = source"
       "validate_progress p' limit = Inr ()" "marshal_progress p' = Some data"
    and len: "length (marshal_envelope (sha256_hex data) (progress_json p')) \<le> max_value"
    and put: "putE B progress_bucket key (marshal_envelope (sha256_hex data) (progress_json p')) d = Inr d1"
    by (auto simp: update_progress_tx_def Let_def bindE_Inr_iff split: if_splits option.splits)
  let ?v = "marshal_envelope (sha256_hex data) (progress_json p')"
  have h: "has_bucket B d progress_bucket" using p(1) by (auto simp: read_progress_def split: if_splits)
  have v: "kv_valid key ?v" using marshal_envelope_positive(2) [OF k(1)] len by (simp add: kv_valid_def max_value_def)
  from bolt_put [OF B h v] put have s: "same_but B progress_bucket d d1"
    "bentries B d1 progress_bucket = kv_put key ?v (bentries B d progress_bucket)" by auto
  have h': "has_bucket B d' progress_bucket" using bolt_commit [OF B c] same_butD [OF s(1)] h by simp
  have get: "bget B d' progress_bucket j = (if j = key then Some ?v else bget B d progress_bucket j)" for j
    using bolt_commit [OF B c] s(2) by (simp add: bolt_get [OF B] map_of_kv_put bolt_sorted [OF B])
  have "load_progress B key source d = Inr p" using p(1) k by (simp add: load_progress_def)
  moreover have "load_progress B key source d' = Inr p'" if "progress_typed p'"
    using decode_own_progress [OF that p(5) validate_progress_mono [OF p(4) lim] len] h' get k p(3)
    by (simp add: load_progress_def read_progress_def)
  moreover have "load_progress B j s d' = load_progress B j s d" if "j \<noteq> key" for j s
    using h h' get that by (simp add: load_progress_def read_progress_def)
  ultimately show ?thesis using p(2,4) by (intro that)
qed

text \<open>What is loaded was validated, belongs to the source, and its stored text is canonical.\<close>

lemma load_progress_Inr:
  assumes "load_progress B key source d = Inr p"
  shows "p = zero_progress source \<or>
     pr_source p = source \<and> validate_progress p 100000 = Inr () \<and>
     (\<exists>v data. bget B d progress_bucket key = Some v \<and> marshal_progress p = Some data \<and>
        unmarshal_envelope v = Some (1, sha256_hex data, data))"
  using assms
  by (auto simp: load_progress_def read_progress_def decode_progress_def split: if_splits option.splits)

lemma validate_items_distinct:
  "validate_items is seen \<longleftrightarrow>
     (\<forall>i \<in> set is. it_id i \<noteq> [] \<and> length (it_id i) \<le> 1024 \<and> length (it_marker i) \<le> 128 \<and>
        \<not> zoned_is_zero (it_when i) \<and> it_id i \<notin> seen) \<and> distinct (map it_id is)"
proof (induction "is" arbitrary: seen)
  case (Cons i js)
  have "it_id j \<noteq> it_id i" if "it_id i \<notin> it_id ` set js" "j \<in> set js" for j using that by (metis image_eqI)
  then show ?case using Cons.IH by auto
qed simp

lemma validate_progress_Inr:
  "validate_progress p limit = Inr () \<longleftrightarrow>
     length (elems (pr_windows p)) \<le> 4096 \<and> int (length (elems (pr_pending p))) \<le> limit \<and>
     (\<forall>w \<in> set (elems (pr_windows p)). \<not> window_bad w) \<and> (\<forall>w. pr_page p = Some w \<longrightarrow> \<not> window_bad w) \<and>
     validate_items (elems (pr_pending p)) {}"
  by (auto simp: validate_progress_def list_ex_iff split: option.splits)

end
