(* ===== verification/History_Scan.thy ===== *)
theory History_Scan
  imports History_Props
begin

text \<open>
  The history backfill worker (\<open>internal/historyscan/scan.go\<close>). A cycle plans a sweep over
  \<open>[Start, End)\<close> when nothing is pending, and then walks the windows from the newest to the oldest: it
  lists a window, halves it when the service's page is incomplete, keeps the items of a complete page as
  pending, records them one by one and forgets each only after it was recorded. All of this is in the
  durable progress, changed by one atomic update at a time.

  The progress store is an argument (\<open>progress_ops\<close>), and so are the source and the world \<open>'k\<close> its calls
  change. What the runtime decides is in \<open>cycle_env\<close>: the clock, whether the context is done at the n-th
  pass of the loop, how many items of a batch are dispatched before it is, and the order in which the
  workers finish. Recording touches the source's store and the update the progress, so that the order of
  completion is all that is left of the workers' interleaving. The loop has fuel; \<open>cycle_fuel\<close> is enough.
\<close>

section \<open>Configuration, errors, sources\<close>

record backfill_config =
  bc_enabled :: bool
  bc_lookback :: go_duration
  bc_overlap :: go_duration
  bc_interval :: go_duration
  bc_cycle_timeout :: go_duration
  bc_rescan :: go_duration
  bc_max_pages :: int
  bc_detail_max :: int
  bc_concurrency :: int
  bc_max_pending :: int

definition err_saturated :: go_error where
  "err_saturated = Plain ''history timestamp interval saturated''"

definition err_expired :: go_error where
  "err_expired = Plain ''history interval predates retention''"

definition err_page :: go_error where
  "err_page = Plain ''history page identity or time invalid''"

record page =
  pg_items :: "item list"
  pg_complete :: bool

record 'k source_ops =
  src_list :: "window \<Rightarrow> 'k \<Rightarrow> 'k \<times> (go_error + page)"
  src_record :: "item \<Rightarrow> 'k \<Rightarrow> 'k \<times> go_error option"

record 'd progress_ops =
  pg_load :: "'d \<Rightarrow> go_error + progress"
  pg_update :: "(progress \<Rightarrow> progress) \<Rightarrow> 'd \<Rightarrow> 'd \<times> go_error option"

text \<open>The worker's \<open>load\<close> and \<open>update\<close> on the history store; its changes never fail.\<close>

definition history_ops :: "'d bolt \<Rightarrow> bytes \<Rightarrow> bytes \<Rightarrow> backfill_config \<Rightarrow> 'd progress_ops" where
  "history_ops B key identity c =
     \<lparr>pg_load = load_progress B key identity,
      pg_update = (\<lambda>f d.
        case update_progress B key identity (bc_max_pending c) (\<lambda>p. Inr (f p)) d of
          (d', None) \<Rightarrow> (d', None)
        | (d', Some e) \<Rightarrow> (d', Some (if errors_is e err_full then e else Joined [err_corrupt, e])))\<rparr>"

section \<open>Changes of the progress\<close>

definition reset_progress :: "backfill_config \<Rightarrow> progress \<Rightarrow> progress" where
  "reset_progress c p =
     p\<lparr>pr_windows := None, pr_pending := None, pr_page := None, pr_block := [],
       pr_last_completed := zero_zoned, pr_last_sweep := zero_zoned,
       pr_lookback := bc_lookback c, pr_overlap := bc_overlap c\<rparr>"

definition plan_sweep :: "backfill_config \<Rightarrow> go_time \<Rightarrow> progress \<Rightarrow> progress" where
  "plan_sweep c now p =
     (let stop = utc_time (trunc_second (now + 999999999));
          sweep = (zoned_is_zero (pr_last_completed p) \<or> time_sub now (zt_at (pr_last_sweep p)) \<ge> bc_rescan c);
          start = (if sweep then utc_time (trunc_second (now - bc_lookback c))
                   else zoned_add (pr_last_completed p) (- bc_overlap c));
          p1 = (if sweep then p\<lparr>pr_last_sweep := stop\<rparr> else p)
      in if \<not> zt_at stop > zt_at (pr_last_completed p) then p1
         else p1\<lparr>pr_start := start, pr_end := stop,
                 pr_windows := Some [\<lparr>w_start = start, w_end = stop\<rparr>]\<rparr>)"

definition plan_progress :: "backfill_config \<Rightarrow> go_time \<Rightarrow> progress \<Rightarrow> progress" where
  "plan_progress c now p0 =
     (let p = (if pr_lookback p0 \<noteq> bc_lookback c then reset_progress c p0 else p0)
      in if pr_block p \<noteq> [] then p
         else if elems (pr_windows p) = [] \<and> elems (pr_pending p) = [] \<and> pr_page p = None
         then plan_sweep c now p
         else p)"

fun remove_id :: "bytes \<Rightarrow> item list \<Rightarrow> item list" where
  "remove_id i [] = []"
| "remove_id i (x # xs) = (if it_id x = i then xs else x # remove_id i xs)"

definition drop_pending :: "bytes \<Rightarrow> progress \<Rightarrow> progress" where
  "drop_pending i p = p\<lparr>pr_pending := map_option (remove_id i) (pr_pending p)\<rparr>"

definition set_block :: "bytes \<Rightarrow> progress \<Rightarrow> progress" where
  "set_block reason p = p\<lparr>pr_block := reason\<rparr>"

definition finish_page :: "progress \<Rightarrow> progress" where
  "finish_page p =
     (if elems (pr_windows p) = [] then p\<lparr>pr_page := None, pr_last_completed := pr_end p\<rparr>
      else p\<lparr>pr_page := None\<rparr>)"

definition split_window :: "window \<Rightarrow> zoned \<Rightarrow> progress \<Rightarrow> progress" where
  "split_window w mid p =
     p\<lparr>pr_windows := Some (\<lparr>w_start = mid, w_end = w_end w\<rparr> # \<lparr>w_start = w_start w, w_end = mid\<rparr> #
                            tl (elems (pr_windows p)))\<rparr>"

definition take_page :: "window \<Rightarrow> page \<Rightarrow> progress \<Rightarrow> progress" where
  "take_page w pg p =
     p\<lparr>pr_pending := Some (pg_items pg), pr_page := Some w, pr_windows := Some (tl (elems (pr_windows p)))\<rparr>"

section \<open>The cycle\<close>

record cycle_env =
  ce_now :: go_time
  ce_done :: "nat \<Rightarrow> bool"
  ce_ctx_error :: go_error
  ce_sent :: "nat \<Rightarrow> nat"
  ce_order :: "item list \<Rightarrow> item list"

record ('d, 'k) scan_state =
  sc_details :: int
  sc_pages :: int
  sc_store :: 'd
  sc_world :: 'k

type_synonym ('d, 'k) cycle_result = "'d \<times> 'k \<times> go_error option"

definition update_or ::
  "'d progress_ops \<Rightarrow> (progress \<Rightarrow> progress) \<Rightarrow> 'd \<Rightarrow> 'k \<Rightarrow>
   ('d \<Rightarrow> ('d, 'k) cycle_result + 'a) \<Rightarrow> ('d, 'k) cycle_result + 'a" where
  "update_or P f d k next_pass =
     (case pg_update P f d of
        (d', Some e) \<Rightarrow> Inl (d', k, Some e)
      | (d', None) \<Rightarrow> next_pass d')"

definition record_one ::
  "'d progress_ops \<Rightarrow> 'k source_ops \<Rightarrow> item \<Rightarrow> 'd \<times> 'k \<Rightarrow> 'd \<times> 'k \<times> go_error option" where
  "record_one P S i dk =
     (case dk of (d, k) \<Rightarrow>
        (case src_record S i k of
           (k', Some e) \<Rightarrow> (d, k', Some e)
         | (k', None) \<Rightarrow> (case pg_update P (drop_pending (it_id i)) d of (d', err) \<Rightarrow> (d', k', err))))"

text \<open>The last failure in the order of completion is the one reported.\<close>

fun record_all ::
  "'d progress_ops \<Rightarrow> 'k source_ops \<Rightarrow> item list \<Rightarrow> 'd \<times> 'k \<times> go_error option \<Rightarrow> 'd \<times> 'k \<times> go_error option" where
  "record_all P S [] r = r"
| "record_all P S (i # is) r =
     (case r of (d, k, failure) \<Rightarrow>
        (case record_one P S i (d, k) of (d', k', err) \<Rightarrow>
           record_all P S is (d', k', if err \<noteq> None then err else failure)))"

definition scan_batch ::
  "'d progress_ops \<Rightarrow> 'k source_ops \<Rightarrow> backfill_config \<Rightarrow> cycle_env \<Rightarrow> nat \<Rightarrow> progress \<Rightarrow> ('d, 'k) scan_state
   \<Rightarrow> ('d, 'k) cycle_result + ('d, 'k) scan_state" where
  "scan_batch P S c e n p s =
     (if sc_details s \<ge> bc_detail_max c then Inl (sc_store s, sc_world s, None)
      else
        let batch = take (nat (min (bc_detail_max c - sc_details s) (int (length (elems (pr_pending p))))))
                      (elems (pr_pending p));
            sent = (if bc_concurrency c \<le> 0 then 0 else min (ce_sent e n) (length batch));
            (d, k, failure) = record_all P S (ce_order e (take sent batch)) (sc_store s, sc_world s, None)
        in case failure of
             Some f \<Rightarrow>
               (if errors_is f err_expired
                then Inl (fst (pg_update P (set_block ''expired'') d), k, Some f)
                else Inl (d, k, Some f))
           | None \<Rightarrow>
               if sent < length batch then Inl (d, k, Some (ce_ctx_error e))
               else Inr (s\<lparr>sc_details := sc_details s + int sent, sc_store := d, sc_world := k\<rparr>))"

definition window_expired :: "go_time \<Rightarrow> go_duration \<Rightarrow> window \<Rightarrow> bool" where
  "window_expired now retention w \<longleftrightarrow> zt_at (w_start w) < trunc_second (now - retention)"

fun page_bad :: "window \<Rightarrow> item list \<Rightarrow> bytes set \<Rightarrow> bool" where
  "page_bad w [] seen = False"
| "page_bad w (i # is) seen =
     (it_id i = [] \<or> it_id i \<in> seen \<or> zt_at (it_when i) < trunc_second (zt_at (w_start w)) \<or>
      zt_at (it_when i) > trunc_second (zt_at (w_end w) + 999999999) \<or>
      page_bad w is (insert (it_id i) seen))"

definition mid_time :: "window \<Rightarrow> zoned" where
  "mid_time w =
     (let mid = zoned_trunc (zoned_add (w_start w) (time_sub (zt_at (w_end w)) (zt_at (w_start w)) div 2))
      in if \<not> zt_at mid > zt_at (w_start w) then zoned_add (w_start w) 1000000000 else mid)"

definition scan_window ::
  "'d progress_ops \<Rightarrow> 'k source_ops \<Rightarrow> backfill_config \<Rightarrow> go_duration \<Rightarrow> cycle_env \<Rightarrow> window \<Rightarrow> ('d, 'k) scan_state
   \<Rightarrow> ('d, 'k) cycle_result + ('d, 'k) scan_state" where
  "scan_window P S c retention e w s =
     (let d = sc_store s; k = sc_world s in
      if window_expired (ce_now e) retention w
      then update_or P (set_block ''expired'') d k (\<lambda>d'. Inl (d', k, Some err_expired))
      else if sc_pages s \<ge> bc_max_pages c then Inl (d, k, None)
      else
        let (k', listed) = src_list S w k; s' = s\<lparr>sc_pages := sc_pages s + 1, sc_world := k'\<rparr>
        in case listed of
             Inl er \<Rightarrow> Inl (d, k', Some er)
           | Inr pg \<Rightarrow>
               if page_bad w (pg_items pg) {} then Inl (d, k', Some err_page)
               else if \<not> pg_complete pg then
                 (if time_sub (zt_at (w_end w)) (zt_at (w_start w)) \<le> 1000000000
                  then update_or P (set_block ''saturated'') d k' (\<lambda>d'. Inl (d', k', Some err_saturated))
                  else if \<not> zt_at (mid_time w) < zt_at (w_end w) then Inl (d, k', Some err_saturated)
                  else update_or P (split_window w (mid_time w)) d k' (\<lambda>d'. Inr (s'\<lparr>sc_store := d'\<rparr>)))
               else update_or P (take_page w pg) d k' (\<lambda>d'. Inr (s'\<lparr>sc_store := d'\<rparr>)))"

definition scan_step ::
  "'d progress_ops \<Rightarrow> 'k source_ops \<Rightarrow> backfill_config \<Rightarrow> go_duration \<Rightarrow> cycle_env \<Rightarrow> nat \<Rightarrow> ('d, 'k) scan_state
   \<Rightarrow> ('d, 'k) cycle_result + ('d, 'k) scan_state" where
  "scan_step P S c retention e n s =
     (let d = sc_store s; k = sc_world s in
      if ce_done e n then Inl (d, k, Some (ce_ctx_error e))
      else case pg_load P d of
        Inl er \<Rightarrow> Inl (d, k, Some er)
      | Inr p \<Rightarrow>
          if pr_block p \<noteq> [] then Inl (d, k, Some err_saturated)
          else if (case pr_page p of None \<Rightarrow> False | Some w \<Rightarrow> window_expired (ce_now e) retention w)
          then update_or P (set_block ''expired'') d k (\<lambda>d'. Inl (d', k, Some err_expired))
          else if elems (pr_pending p) \<noteq> [] then scan_batch P S c e n p s
          else if pr_page p \<noteq> None
          then update_or P finish_page d k (\<lambda>d'. Inr (s\<lparr>sc_store := d'\<rparr>))
          else case elems (pr_windows p) of
            [] \<Rightarrow> Inl (d, k, None)
          | w # _ \<Rightarrow> scan_window P S c retention e w s)"

fun scan_loop ::
  "'d progress_ops \<Rightarrow> 'k source_ops \<Rightarrow> backfill_config \<Rightarrow> go_duration \<Rightarrow> cycle_env \<Rightarrow> nat \<Rightarrow> nat
   \<Rightarrow> ('d, 'k) scan_state \<Rightarrow> ('d, 'k) cycle_result option" where
  "scan_loop P S c retention e 0 n s = None"
| "scan_loop P S c retention e (Suc fuel) n s =
     (case scan_step P S c retention e n s of
        Inl r \<Rightarrow> Some r
      | Inr s' \<Rightarrow> scan_loop P S c retention e fuel (Suc n) s')"

definition cycle_fuel :: "backfill_config \<Rightarrow> nat" where
  "cycle_fuel c = nat (2 * bc_max_pages c) + nat (bc_detail_max c) + 2"

definition scan_cycle ::
  "'d progress_ops \<Rightarrow> 'k source_ops \<Rightarrow> backfill_config \<Rightarrow> go_duration \<Rightarrow> cycle_env \<Rightarrow> nat \<Rightarrow> 'd \<times> 'k
   \<Rightarrow> ('d, 'k) cycle_result option" where
  "scan_cycle P S c retention e fuel dk =
     (case dk of (d, k) \<Rightarrow>
        (case pg_update P (plan_progress c (ce_now e)) d of
           (d', Some er) \<Rightarrow> Some (d', k, Some er)
         | (d', None) \<Rightarrow>
             scan_loop P S c retention e fuel 0 \<lparr>sc_details = 0, sc_pages = 0, sc_store = d', sc_world = k\<rparr>))"

section \<open>The worker\<close>

record backfill_worker =
  wk_success :: bool
  wk_blocked :: bool
  wk_at :: go_time
  wk_progress :: progress

definition new_worker :: "'d progress_ops \<Rightarrow> backfill_config \<Rightarrow> 'd \<Rightarrow> go_error + backfill_worker" where
  "new_worker P c d =
     (case pg_load P d of
        Inl e \<Rightarrow> Inl e
      | Inr p \<Rightarrow>
          if pr_lookback p \<noteq> 0 \<and> pr_overlap p \<noteq> bc_overlap c
          then Inl (Plain ''history window configuration changed; restore overlap or use a separate state directory'')
          else Inr \<lparr>wk_success = False, wk_blocked = False, wk_at = zero_time, wk_progress = p\<rparr>)"

text \<open>What a poll reports: \<open>loaded\<close> is the load after the cycle, \<open>at\<close> the time.\<close>

definition poll_report ::
  "backfill_worker \<Rightarrow> go_error option \<Rightarrow> go_error + progress \<Rightarrow> go_time \<Rightarrow> backfill_worker" where
  "poll_report w err loaded at =
     (let failed = (\<lambda>t. case err of None \<Rightarrow> False | Some e \<Rightarrow> errors_is e t) in
      \<lparr>wk_success = (err = None \<and> (case loaded of Inl _ \<Rightarrow> False | Inr _ \<Rightarrow> True)),
       wk_blocked = ((case loaded of Inl _ \<Rightarrow> True | Inr p \<Rightarrow> pr_block p \<noteq> []) \<or>
                     failed err_full \<or> failed err_corrupt \<or> failed err_expired),
       wk_at = at,
       wk_progress = (case loaded of Inl _ \<Rightarrow> wk_progress w | Inr p \<Rightarrow> p)\<rparr>)"

definition poll_history ::
  "'d progress_ops \<Rightarrow> 'k source_ops \<Rightarrow> backfill_config \<Rightarrow> go_duration \<Rightarrow> nat \<Rightarrow> cycle_env \<times> go_time
   \<Rightarrow> backfill_worker \<times> 'd \<times> 'k \<Rightarrow> (backfill_worker \<times> 'd \<times> 'k) option" where
  "poll_history P S c retention fuel inp wdk =
     (case wdk of (w, d, k) \<Rightarrow>
      case scan_cycle P S c retention (fst inp) fuel (d, k) of
        None \<Rightarrow> None
      | Some (d', k', err) \<Rightarrow> Some (poll_report w err (pg_load P d') (snd inp), d', k'))"

fun run_history ::
  "'d progress_ops \<Rightarrow> 'k source_ops \<Rightarrow> backfill_config \<Rightarrow> go_duration \<Rightarrow> (cycle_env \<times> go_time) list
   \<Rightarrow> backfill_worker \<times> 'd \<times> 'k \<Rightarrow> (backfill_worker \<times> 'd \<times> 'k) option" where
  "run_history P S c retention [] wdk = Some wdk"
| "run_history P S c retention (e # es) wdk =
     (case poll_history P S c retention (cycle_fuel c) e wdk of
        None \<Rightarrow> None
      | Some wdk' \<Rightarrow> run_history P S c retention es wdk')"

definition worker_ready :: "backfill_config \<Rightarrow> go_time \<Rightarrow> backfill_worker \<Rightarrow> bool" where
  "worker_ready c now w \<longleftrightarrow>
     wk_success w \<and> \<not> wk_blocked w \<and> \<not> is_zero (wk_at w) \<and> time_sub now (wk_at w) \<le> wrap64 (3 * bc_interval c)"

definition history_incomplete :: "backfill_worker \<Rightarrow> bool" where
  "history_incomplete w \<longleftrightarrow>
     (let p = wk_progress w in
      zoned_is_zero (pr_last_completed p) \<or> elems (pr_windows p) \<noteq> [] \<or> elems (pr_pending p) \<noteq> [] \<or>
      pr_page p \<noteq> None \<or> wk_blocked w)"

text \<open>The gauges of \<open>Collect\<close> with their values; the time only when it is set.\<close>

definition history_metrics :: "backfill_worker \<Rightarrow> (bytes \<times> int) list" where
  "history_metrics w =
     (let p = wk_progress w; flag = (\<lambda>b. if b then 1 else 0) in
      [(''enabled'', 1), (''success'', flag (wk_success w)),
       (''pending_windows'', int (length (elems (pr_windows p)))),
       (''pending_records'', int (length (elems (pr_pending p))))] @
      (if zoned_is_zero (pr_last_completed p) then []
       else [(''last_completed_timestamp_seconds'', zt_at (pr_last_completed p) div 1000000000)]) @
      [(''incomplete'', flag (history_incomplete w)), (''blocked'', flag (wk_blocked w))])"

end
