(* ===== verification/History_Coverage.thy ===== *)
theory History_Coverage
  imports History_Scan "HOL-Library.Multiset"
begin

text \<open>
  Correctness of the backfill worker. A ghost log of the source's successful calls (\<open>logged\<close>) says what
  was listed and what was recorded; the invariant \<open>scan_inv\<close> says that the part of the sweep above the
  remaining windows is covered: every instant of it lies in a window whose complete page was recorded
  item by item. Proved once over any progress store (locale \<open>progress_store\<close>): the loop keeps the
  invariant whatever fails, and ends within the fuel given. The last section interprets the locale on the
  history store.
\<close>

section \<open>The ghost log\<close>

datatype scan_event = Listed window page | Recorded item

definition logged :: "'k source_ops \<Rightarrow> ('k \<times> scan_event list) source_ops" where
  "logged S =
     \<lparr>src_list = (\<lambda>w (k, l). case src_list S w k of
         (k', Inl e) \<Rightarrow> ((k', l), Inl e)
       | (k', Inr pg) \<Rightarrow> ((k', l @ [Listed w pg]), Inr pg)),
      src_record = (\<lambda>i (k, l). case src_record S i k of
         (k', Some e) \<Rightarrow> ((k', l), Some e)
       | (k', None) \<Rightarrow> ((k', l @ [Recorded i]), None))\<rparr>"

text \<open>A complete page of the window was listed and all of it but the items of \<open>rest\<close> recorded since.\<close>

definition covered_but :: "scan_event list \<Rightarrow> window \<Rightarrow> item set \<Rightarrow> bool" where
  "covered_but l w rest \<longleftrightarrow>
     (\<exists>l1 pg l2. l = l1 @ Listed w pg # l2 \<and> pg_complete pg \<and>
        (\<forall>i \<in> set (pg_items pg). Recorded i \<in> set l2 \<or> i \<in> rest))"

abbreviation covered :: "scan_event list \<Rightarrow> window \<Rightarrow> bool" where
  "covered l w \<equiv> covered_but l w {}"

definition walked :: "scan_event list \<Rightarrow> go_time \<Rightarrow> go_time \<Rightarrow> bool" where
  "walked l a b \<longleftrightarrow>
     (\<forall>t. a \<le> t \<and> t < b \<longrightarrow> (\<exists>w. zt_at (w_start w) \<le> t \<and> t < zt_at (w_end w) \<and> covered l w))"

text \<open>The windows descend without gaps from \<open>upper\<close> to \<open>bottom\<close>.\<close>

fun chain :: "go_time \<Rightarrow> window list \<Rightarrow> go_time \<Rightarrow> bool" where
  "chain upper [] bottom \<longleftrightarrow> upper = bottom"
| "chain upper (w # ws) bottom \<longleftrightarrow>
     zt_at (w_end w) = upper \<and> zt_at (w_start w) < zt_at (w_end w) \<and> chain (zt_at (w_start w)) ws bottom"

definition scan_inv :: "scan_event list \<Rightarrow> progress \<Rightarrow> bool" where
  "scan_inv l p \<longleftrightarrow>
     (case pr_page p of
        Some w \<Rightarrow>
          covered_but l w (set (elems (pr_pending p))) \<and>
          chain (zt_at (w_start w)) (elems (pr_windows p)) (zt_at (pr_start p)) \<and>
          walked l (zt_at (w_end w)) (zt_at (pr_end p))
      | None \<Rightarrow>
          elems (pr_pending p) = [] \<and>
          (if elems (pr_windows p) = [] then
             \<not> zoned_is_zero (pr_last_completed p) \<longrightarrow>
               pr_last_completed p = pr_end p \<and> walked l (zt_at (pr_start p)) (zt_at (pr_end p))
           else \<exists>upper. chain upper (elems (pr_windows p)) (zt_at (pr_start p)) \<and> walked l upper (zt_at (pr_end p))))"

lemma covered_butI:
  "l = l1 @ Listed w pg # l2 \<Longrightarrow> pg_complete pg \<Longrightarrow>
   (\<And>i. i \<in> set (pg_items pg) \<Longrightarrow> Recorded i \<in> set l2 \<or> i \<in> r) \<Longrightarrow> covered_but l w r"
  unfolding covered_but_def by blast

lemma covered_but_append: "covered_but l w r \<Longrightarrow> covered_but (l @ l') w r"
  unfolding covered_but_def by (elim exE conjE, rule covered_butI [unfolded covered_but_def]) auto

lemma covered_but_listed: "pg_complete pg \<Longrightarrow> covered_but (l @ [Listed w pg]) w (set (pg_items pg))"
  unfolding covered_but_def by (intro exI [of _ l] exI [of _ pg] exI [of _ "[]"]) simp

lemma covered_but_recorded:
  "covered_but l w r \<Longrightarrow> r \<subseteq> insert i r' \<Longrightarrow> covered_but (l @ [Recorded i]) w r'"
proof -
  assume "covered_but l w r" and r: "r \<subseteq> insert i r'"
  then obtain l1 pg l2 where "l = l1 @ Listed w pg # l2" "pg_complete pg"
    "\<forall>i \<in> set (pg_items pg). Recorded i \<in> set l2 \<or> i \<in> r" unfolding covered_but_def by blast
  then show ?thesis using r by (intro covered_butI [of _ l1 w pg "l2 @ [Recorded i]"]) auto
qed

lemma walked_append: "walked l a b \<Longrightarrow> walked (l @ l') a b"
  unfolding walked_def using covered_but_append by blast

lemma walked_extend:
  "walked l (zt_at (w_end w)) b \<Longrightarrow> covered l w \<Longrightarrow> walked l (zt_at (w_start w)) b"
  unfolding walked_def by (metis not_le)

lemma walked_empty [simp]: "walked l a a"
  unfolding walked_def by (metis not_less)

lemma scan_inv_append: "scan_inv l p \<Longrightarrow> scan_inv (l @ l') p"
  using covered_but_append walked_append
  by (fastforce simp: scan_inv_def split: option.splits if_splits)

section \<open>The changes keep the invariant\<close>

lemma inv_set_block: "scan_inv l p \<Longrightarrow> scan_inv l (set_block r p)"
  by (auto simp: scan_inv_def set_block_def split: option.splits)

lemma inv_finish_page:
  assumes "scan_inv l p" "elems (pr_pending p) = []" "pr_page p \<noteq> None"
  shows "scan_inv l (finish_page p)"
proof -
  from assms(3) obtain w where w: "pr_page p = Some w" by blast
  with assms(1,2) have i: "covered l w" "chain (zt_at (w_start w)) (elems (pr_windows p)) (zt_at (pr_start p))"
    "walked l (zt_at (w_end w)) (zt_at (pr_end p))" by (simp_all add: scan_inv_def)
  have "walked l (zt_at (w_start w)) (zt_at (pr_end p))" by (rule walked_extend [OF i(3,1)])
  then show ?thesis using i(2) assms(2) by (auto simp: scan_inv_def finish_page_def)
qed

lemma inv_split:
  assumes "scan_inv l p" "pr_page p = None" "elems (pr_windows p) = w # ws"
    and "zt_at (w_start w) < zt_at mid" "zt_at mid < zt_at (w_end w)"
  shows "scan_inv l (split_window w mid p)"
  using assms by (auto simp: scan_inv_def split_window_def)

lemma inv_take_page:
  assumes "scan_inv l p" "pr_page p = None" "elems (pr_windows p) = w # ws" "pg_complete pg"
  shows "scan_inv (l @ [Listed w pg]) (take_page w pg p)"
  using assms covered_but_listed [OF assms(4)] walked_append
  by (auto simp: scan_inv_def take_page_def)

lemma set_remove_id: "distinct (map it_id xs) \<Longrightarrow> set (remove_id i xs) = {x \<in> set xs. it_id x \<noteq> i}"
proof (induction xs)
  case (Cons y xs)
  have "it_id x \<noteq> it_id y" if "x \<in> set xs" for x using Cons.prems that by (metis distinct.simps(2) image_eqI list.set_map list.simps(9))
  then show ?case using Cons by auto
qed simp

lemma remove_id_subset: "set (remove_id i xs) \<subseteq> set xs"
  by (induction xs) auto

lemma distinct_remove_id: "distinct (map it_id xs) \<Longrightarrow> distinct (map it_id (remove_id i xs))"
  using remove_id_subset by (induction xs) fastforce+

lemma elems_map_option [simp]: "elems (map_option (remove_id i) s) = remove_id i (elems s)"
  by (cases s) simp_all

lemma inv_drop_pending:
  assumes "scan_inv l p" "i \<in> set (elems (pr_pending p))" "distinct (map it_id (elems (pr_pending p)))"
  shows "scan_inv (l @ [Recorded i]) (drop_pending (it_id i) p)"
proof -
  obtain w where w: "pr_page p = Some w"
    using assms(1,2) by (auto simp: scan_inv_def split: option.splits)
  have "set (elems (pr_pending p)) \<subseteq> insert i (set (remove_id (it_id i) (elems (pr_pending p))))"
    using assms(2,3) by (auto simp: set_remove_id) (metis distinct_map inj_onD)
  then show ?thesis
    using assms(1) covered_but_recorded walked_append by (auto simp: scan_inv_def w drop_pending_def)
qed

lemma inv_plan:
  assumes "scan_inv l p" "\<forall>w \<in> set (elems (pr_windows (plan_progress c now p))). zt_at (w_start w) < zt_at (w_end w)"
  shows "scan_inv l (plan_progress c now p)"
proof -
  define q where "q = (if pr_lookback p \<noteq> bc_lookback c then reset_progress c p else p)"
  have q: "scan_inv l q" using assms(1) by (auto simp: q_def scan_inv_def reset_progress_def zoned_is_zero_def is_zero_def)
  have pq: "plan_progress c now p = (if pr_block q \<noteq> [] then q
         else if elems (pr_windows q) = [] \<and> elems (pr_pending q) = [] \<and> pr_page q = None
         then plan_sweep c now q else q)"
    by (simp add: plan_progress_def q_def Let_def)
  show ?thesis
  proof (cases "plan_progress c now p = q")
    case True
    with q show ?thesis by simp
  next
    case False
    with pq have e: "plan_progress c now p = plan_sweep c now q" and idle: "elems (pr_windows q) = []"
      "elems (pr_pending q) = []" "pr_page q = None" by (auto split: if_splits)
    show ?thesis using q idle assms(2) unfolding e
      by (auto simp: plan_sweep_def Let_def scan_inv_def split: if_splits)
  qed
qed

text \<open>The middle of a window of more than a second is inside it: the check before the split never fires.\<close>

lemma mid_time_inside:
  assumes "time_sub (zt_at (w_end w)) (zt_at (w_start w)) > 1000000000"
  shows "zt_at (w_start w) < zt_at (mid_time w)" "zt_at (mid_time w) < zt_at (w_end w)"
proof -
  let ?a = "zt_at (w_start w)" and ?b = "zt_at (w_end w)"
  define len where "len = time_sub ?b ?a"
  have len: "1000000000 < len" "len \<le> ?b - ?a" using assms by (auto simp: len_def time_sub_def max_int64_def min_int64_def)
  define m where "m = trunc_second (?a + len div 2)"
  have m: "m \<le> ?a + len div 2" using trunc_second_bounds by (simp add: m_def)
  have "len div 2 < len" using len by simp
  then have "m < ?b" using m len by linarith
  moreover have "?a + 1000000000 < ?b" using len by linarith
  moreover have "zt_at (mid_time w) = (if m > ?a then m else ?a + 1000000000)"
    by (simp add: mid_time_def Let_def m_def len_def)
  ultimately show "?a < zt_at (mid_time w)" "zt_at (mid_time w) < ?b" by auto
qed

section \<open>Typing of the changes\<close>

definition item_typed :: "item \<Rightarrow> bool" where
  "item_typed i \<longleftrightarrow> utf8_valid (it_id i) \<and> utf8_valid (it_marker i) \<and> zt_off (it_when i) mod 60 = 0"

definition source_typed :: "'k source_ops \<Rightarrow> bool" where
  "source_typed S \<longleftrightarrow> (\<forall>w k k' pg. src_list S w k = (k', Inr pg) \<longrightarrow> (\<forall>i \<in> set (pg_items pg). item_typed i))"

definition config_typed :: "backfill_config \<Rightarrow> bool" where
  "config_typed c \<longleftrightarrow> is_int64 (bc_lookback c) \<and> is_int64 (bc_overlap c)"

definition env_ok :: "cycle_env \<Rightarrow> bool" where
  "env_ok e \<longleftrightarrow> (\<forall>xs. mset (ce_order e xs) = mset xs)"

lemma source_typed_logged: "source_typed S \<Longrightarrow> source_typed (logged S)"
  unfolding source_typed_def logged_def by (auto split: prod.splits sum.splits)

lemma progress_typed_iff:
  "progress_typed p \<longleftrightarrow>
     utf8_valid (pr_source p) \<and> utf8_valid (pr_block p) \<and> is_int64 (pr_lookback p) \<and> is_int64 (pr_overlap p) \<and>
     (\<forall>i \<in> set (elems (pr_pending p)). item_typed i) \<and>
     (\<forall>z \<in> {pr_start p, pr_end p, pr_last_completed p, pr_last_sweep p}. zt_off z mod 60 = 0) \<and>
     (\<forall>w \<in> set (elems (pr_windows p)). \<forall>z \<in> set (window_times w). zt_off z mod 60 = 0) \<and>
     (\<forall>w. pr_page p = Some w \<longrightarrow> (\<forall>z \<in> set (window_times w). zt_off z mod 60 = 0))"
  by (cases "pr_page p") (simp_all add: progress_typed_def progress_times_def item_typed_def ball_Un, blast+)

lemma typed_set_block: "progress_typed p \<Longrightarrow> utf8_valid r \<Longrightarrow> progress_typed (set_block r p)"
  by (simp add: progress_typed_iff set_block_def)

lemma typed_finish_page: "progress_typed p \<Longrightarrow> progress_typed (finish_page p)"
  by (simp add: progress_typed_iff finish_page_def)

lemma typed_drop_pending: "progress_typed p \<Longrightarrow> progress_typed (drop_pending i p)"
  using remove_id_subset by (fastforce simp: progress_typed_iff drop_pending_def)

lemma typed_split:
  assumes "progress_typed p" "elems (pr_windows p) = w # ws"
  shows "progress_typed (split_window w (mid_time w) p)"
  using assms by (simp add: progress_typed_iff split_window_def window_times_def mid_time_def Let_def)

lemma typed_take_page:
  assumes "progress_typed p" "elems (pr_windows p) = w # ws" "\<forall>i \<in> set (pg_items pg). item_typed i"
  shows "progress_typed (take_page w pg p)"
  using assms by (simp add: progress_typed_iff take_page_def)

lemma expired_valid: "utf8_valid ''expired''" "utf8_valid ''saturated''"
  by (rule utf8_valid_ascii, auto simp: byte_def)+

lemma typed_plan:
  assumes "progress_typed p" "config_typed c"
  shows "progress_typed (plan_progress c now p)"
proof -
  define q where "q = (if pr_lookback p \<noteq> bc_lookback c then reset_progress c p else p)"
  have q: "progress_typed q"
    using assms utf8_valid_Nil by (auto simp: q_def reset_progress_def progress_typed_iff config_typed_def)
  then have "progress_typed (plan_sweep c now q)"
    by (auto simp: plan_sweep_def Let_def progress_typed_iff window_times_def)
  with q show ?thesis by (simp add: plan_progress_def q_def [symmetric] Let_def)
qed

section \<open>Any progress store\<close>

definition progress_sound :: "progress \<Rightarrow> bool" where
  "progress_sound p \<longleftrightarrow>
     distinct (map it_id (elems (pr_pending p))) \<and>
     (\<forall>w \<in> set (elems (pr_windows p)). zt_at (w_start w) < zt_at (w_end w))"

locale progress_store =
  fixes P :: "'d progress_ops" and wf :: "'d \<Rightarrow> bool"
  assumes update_keeps: "pg_update P f d = (d', Some er) \<Longrightarrow> d' = d"
    and update_loads: "wf d \<Longrightarrow> pg_update P f d = (d', None) \<Longrightarrow>
      \<exists>p. pg_load P d = Inr p \<and> progress_sound (f p) \<and>
          (progress_typed (f p) \<longrightarrow> wf d' \<and> pg_load P d' = Inr (f p))"
    and load_typed: "wf d \<Longrightarrow> pg_load P d = Inr p \<Longrightarrow> progress_typed p \<and> progress_sound p"
begin

definition good :: "scan_event list \<Rightarrow> 'd \<Rightarrow> bool" where
  "good l d \<longleftrightarrow> wf d \<and> (\<forall>p. pg_load P d = Inr p \<longrightarrow> scan_inv l p)"

lemma good_append: "good l d \<Longrightarrow> good (l @ l') d"
  using scan_inv_append by (auto simp: good_def)

lemma update_good:
  assumes "good l d" "pg_update P f d = (d', err)"
    and "\<And>p. pg_load P d = Inr p \<Longrightarrow> progress_typed p \<Longrightarrow> progress_sound (f p) \<Longrightarrow> scan_inv l p \<Longrightarrow>
           progress_typed (f p) \<and> scan_inv (l @ l') (f p)"
  shows "good (l @ l') d'"
proof (cases err)
  case (Some er)
  then have "d' = d" using update_keeps assms(2) by blast
  then show ?thesis using good_append [OF assms(1)] by simp
next
  case None
  have w: "wf d" using assms(1) by (simp add: good_def)
  from update_loads [OF w] assms(2) None obtain p where
    p: "pg_load P d = Inr p" "progress_sound (f p)" "progress_typed (f p) \<longrightarrow> wf d' \<and> pg_load P d' = Inr (f p)" by blast
  have "progress_typed (f p) \<and> scan_inv (l @ l') (f p)"
    using assms(1,3) p load_typed [OF w] by (auto simp: good_def)
  then show ?thesis using p(3) by (auto simp: good_def)
qed

lemma update_good_same:
  assumes "good l d" "pg_update P f d = (d', err)"
    and "\<And>p. pg_load P d = Inr p \<Longrightarrow> progress_typed p \<Longrightarrow> progress_sound (f p) \<Longrightarrow> scan_inv l p \<Longrightarrow>
           progress_typed (f p) \<and> scan_inv l (f p)"
  shows "good l d'"
  using update_good [OF assms(1,2), of "[]"] assms(3) by simp

text \<open>Recording a batch.\<close>

lemma record_one_good:
  assumes g: "good l d" and i: "\<forall>p. pg_load P d = Inr p \<longrightarrow> i \<in> set (elems (pr_pending p))"
    and r: "record_one P (logged S) i (d, (k, l)) = (d', (k', l'), err)"
  shows "good l' d'" and "\<forall>p'. pg_load P d' = Inr p' \<longrightarrow>
    (\<exists>p. pg_load P d = Inr p \<and> (p' = p \<or> p' = drop_pending (it_id i) p))"
proof -
  obtain k2 e2 where s: "src_record S i k = (k2, e2)" by fastforce
  have "good l' d' \<and> (\<forall>p'. pg_load P d' = Inr p' \<longrightarrow>
    (\<exists>p. pg_load P d = Inr p \<and> (p' = p \<or> p' = drop_pending (it_id i) p)))"
  proof (cases e2)
    case (Some er)
    then show ?thesis using r s g by (simp add: record_one_def logged_def)
  next
    case None
    then obtain l2 where u: "pg_update P (drop_pending (it_id i)) d = (d', err)" and l': "l' = l @ [Recorded i]"
      using r s by (auto simp: record_one_def logged_def split: prod.splits)
    have w: "wf d" using g by (simp add: good_def)
    have d: "progress_sound p" if "pg_load P d = Inr p" for p using load_typed [OF w that] by blast
    have "good l' d'" unfolding l'
      by (rule update_good [OF g u])
        (use i d inv_drop_pending typed_drop_pending in \<open>auto simp: progress_sound_def\<close>)
    moreover have "\<exists>p. pg_load P d = Inr p \<and> (p' = p \<or> p' = drop_pending (it_id i) p)" if "pg_load P d' = Inr p'" for p'
    proof (cases err)
      case (Some er)
      then show ?thesis using update_keeps u that by blast
    next
      case None
      from update_loads [OF w] u None obtain p where
        p: "pg_load P d = Inr p" "progress_typed (drop_pending (it_id i) p) \<longrightarrow> pg_load P d' = Inr (drop_pending (it_id i) p)"
        by blast
      then show ?thesis using typed_drop_pending load_typed [OF w p(1)] that by auto
    qed
    ultimately show ?thesis by blast
  qed
  then show "good l' d'" and "\<forall>p'. pg_load P d' = Inr p' \<longrightarrow>
    (\<exists>p. pg_load P d = Inr p \<and> (p' = p \<or> p' = drop_pending (it_id i) p))" by blast+
qed

lemma record_rest:
  assumes g: "good l d" and dist: "distinct (map it_id (i # js))"
    and sub: "\<forall>p. pg_load P d = Inr p \<longrightarrow> set (i # js) \<subseteq> set (elems (pr_pending p))"
    and one: "\<forall>p'. pg_load P d1 = Inr p' \<longrightarrow>
        (\<exists>p. pg_load P d = Inr p \<and> (p' = p \<or> p' = drop_pending (it_id i) p))"
    and p1: "pg_load P d1 = Inr p1"
  shows "set js \<subseteq> set (elems (pr_pending p1))"
proof -
  obtain p where p: "pg_load P d = Inr p" "p1 = p \<or> p1 = drop_pending (it_id i) p" using one p1 by blast
  have "set js \<subseteq> set (elems (pr_pending p))" using sub p(1) by auto
  moreover have "\<forall>j \<in> set js. it_id j \<noteq> it_id i"
    using dist by (metis distinct.simps(2) image_eqI list.set_map list.simps(9))
  moreover have "distinct (map it_id (elems (pr_pending p)))"
    using load_typed [OF _ p(1)] g by (simp add: good_def progress_sound_def)
  ultimately show ?thesis using p(2) by (auto simp: drop_pending_def set_remove_id)
qed

lemma record_all_good:
  assumes "good l d" "distinct (map it_id is)"
    and "\<forall>p. pg_load P d = Inr p \<longrightarrow> set is \<subseteq> set (elems (pr_pending p))"
    and "record_all P (logged S) is (d, (k, l), failure) = (d', (k', l'), failure')"
  shows "good l' d'"
  using assms
proof (induction "is" arbitrary: d k l failure)
  case (Cons i js)
  obtain d1 k1 l1 e1 where r: "record_one P (logged S) i (d, (k, l)) = (d1, (k1, l1), e1)"
    by (metis surj_pair)
  have i: "\<forall>p. pg_load P d = Inr p \<longrightarrow> i \<in> set (elems (pr_pending p))" using Cons.prems(3) by auto
  note one = record_one_good [OF Cons.prems(1) i r]
  have w: "wf d" using Cons.prems(1) by (simp add: good_def)
  have sub: "set js \<subseteq> set (elems (pr_pending p1))" if p1: "pg_load P d1 = Inr p1" for p1
    by (rule record_rest [OF Cons.prems(1,2,3) one(2) p1])
  show ?case
    by (rule Cons.IH [OF one(1), of k1 "if e1 \<noteq> None then e1 else failure"])
      (use Cons.prems(2,4) sub r in auto)
qed simp

lemma record_all_page:
  assumes "good l d" "distinct (map it_id is)"
    and "\<forall>p. pg_load P d = Inr p \<longrightarrow> set is \<subseteq> set (elems (pr_pending p))"
    and "record_all P (logged S) is (d, (k, l), failure) = (d', kl', failure')"
    and "pg_load P d' = Inr p'"
  shows "\<exists>p. pg_load P d = Inr p \<and> pr_page p' = pr_page p"
  using assms
proof (induction "is" arbitrary: d k l failure)
  case (Cons i js)
  obtain d1 k1 l1 e1 where r: "record_one P (logged S) i (d, (k, l)) = (d1, (k1, l1), e1)"
    by (metis surj_pair)
  have i: "\<forall>p. pg_load P d = Inr p \<longrightarrow> i \<in> set (elems (pr_pending p))" using Cons.prems(3) by auto
  note one = record_one_good [OF Cons.prems(1) i r]
  have w: "wf d" using Cons.prems(1) by (simp add: good_def)
  have sub: "set js \<subseteq> set (elems (pr_pending p1))" if p1: "pg_load P d1 = Inr p1" for p1
    by (rule record_rest [OF Cons.prems(1,2,3) one(2) p1])
  have "\<exists>p1. pg_load P d1 = Inr p1 \<and> pr_page p' = pr_page p1"
    by (rule Cons.IH [OF one(1), of k1 "if e1 \<noteq> None then e1 else failure"])
      (use Cons.prems(2,4,5) sub r in auto)
  then show ?case using one(2) by (auto simp: drop_pending_def)
qed simp

text \<open>One pass of the loop.\<close>

definition good_result :: "('d, 'k \<times> scan_event list) cycle_result + ('d, 'k \<times> scan_event list) scan_state \<Rightarrow> bool" where
  "good_result r \<longleftrightarrow>
     (case r of
        Inl (d, (k, l), err) \<Rightarrow> good l d
      | Inr s \<Rightarrow> good (snd (sc_world s)) (sc_store s))"

definition has_page :: "'d \<Rightarrow> bool" where
  "has_page d \<longleftrightarrow> (\<exists>p w. pg_load P d = Inr p \<and> pr_page p = Some w)"

definition budget :: "backfill_config \<Rightarrow> ('d, 'k) scan_state \<Rightarrow> nat" where
  "budget c s =
     2 * nat (bc_max_pages c - sc_pages s) + nat (bc_detail_max c - sc_details s) +
     (if has_page (sc_store s) then 1 else 0)"

definition spends :: "backfill_config \<Rightarrow> ('d, 'k) scan_state \<Rightarrow> ('d, 'k) cycle_result + ('d, 'k) scan_state \<Rightarrow> bool" where
  "spends c s r \<longleftrightarrow> (\<forall>s'. r = Inr s' \<longrightarrow> budget c s' < budget c s)"

lemma update_or_good:
  assumes "good l d"
    and "\<And>p. pg_load P d = Inr p \<Longrightarrow> progress_typed p \<Longrightarrow> progress_sound (f p) \<Longrightarrow> scan_inv l p \<Longrightarrow>
           progress_typed (f p) \<and> scan_inv l (f p)"
    and "\<And>d'. pg_update P f d = (d', None) \<Longrightarrow> good l d' \<Longrightarrow> good_result (g d')"
  shows "good_result (update_or P f d (k, l) g)"
proof -
  obtain d' err where u: "pg_update P f d = (d', err)" by fastforce
  have "good l d'" by (rule update_good_same [OF assms(1) u assms(2)])
  then show ?thesis using assms(3) u by (cases err) (auto simp: update_or_def good_result_def)
qed

lemma update_or_spends:
  "(\<And>d'. pg_update P f d = (d', None) \<Longrightarrow> spends c s (g d')) \<Longrightarrow> spends c s (update_or P f d k g)"
  by (auto simp: update_or_def spends_def split: prod.splits option.splits)

lemma batch_facts:
  assumes g: "good l d" and p: "pg_load P d = Inr p" and e: "env_ok e"
  shows "distinct (map it_id (ce_order e (take sent (take m (elems (pr_pending p))))))"
    and "set (ce_order e (take sent (take m (elems (pr_pending p))))) \<subseteq> set (elems (pr_pending p))"
proof -
  let ?b = "take sent (take m (elems (pr_pending p)))"
  have w: "wf d" using g by (simp add: good_def)
  have d: "distinct (map it_id (elems (pr_pending p)))" using load_typed [OF w p] by (simp add: progress_sound_def)
  have m: "mset (ce_order e ?b) = mset ?b" using e by (simp add: env_ok_def)
  have "mset (map it_id (ce_order e ?b)) = mset (map it_id ?b)" by (simp only: mset_map m)
  moreover have "distinct (map it_id ?b)" using d by (simp add: take_map [symmetric] del: take_take)
  ultimately show "distinct (map it_id (ce_order e ?b))" using mset_eq_imp_distinct_iff by blast
  show "set (ce_order e ?b) \<subseteq> set (elems (pr_pending p))"
    using mset_eq_setD [OF m] set_take_subset by fastforce
qed

lemma scan_batch_good:
  assumes g: "good (snd (sc_world s)) (sc_store s)" and p: "pg_load P (sc_store s) = Inr p"
    and e: "env_ok e" and ne: "elems (pr_pending p) \<noteq> []"
  shows "good_result (scan_batch P (logged S) c e n p s) \<and> spends c s (scan_batch P (logged S) c e n p s)"
proof (cases "sc_details s \<ge> bc_detail_max c")
  case True
  then show ?thesis using g by (auto simp: scan_batch_def good_result_def spends_def split: prod.splits)
next
  case False
  obtain k l where kl: "sc_world s = (k, l)" by fastforce
  define m where "m = nat (min (bc_detail_max c - sc_details s) (int (length (elems (pr_pending p)))))"
  define batch where "batch = take m (elems (pr_pending p))"
  define sent where "sent = (if bc_concurrency c \<le> 0 then 0 else min (ce_sent e n) (length batch))"
  obtain d' k' l' failure where r: "record_all P (logged S) (ce_order e (take sent batch)) (sc_store s, (k, l), None) =
      (d', (k', l'), failure)" by (metis surj_pair)
  have gl: "good l (sc_store s)" using g kl by simp
  note b = batch_facts [OF gl p e, of sent m, folded batch_def]
  have sub: "\<forall>q. pg_load P (sc_store s) = Inr q \<longrightarrow> set (ce_order e (take sent batch)) \<subseteq> set (elems (pr_pending q))"
    using b(2) p by auto
  have g': "good l' d'" by (rule record_all_good [OF gl b(1) sub r])
  have page: "has_page d' \<Longrightarrow> has_page (sc_store s)"
    using record_all_page [OF gl b(1) sub r] unfolding has_page_def by metis
  have eq: "scan_batch P (logged S) c e n p s =
     (case failure of
        Some f \<Rightarrow> if errors_is f err_expired
                  then Inl (fst (pg_update P (set_block ''expired'') d'), (k', l'), Some f)
                  else Inl (d', (k', l'), Some f)
      | None \<Rightarrow> if sent < length batch then Inl (d', (k', l'), Some (ce_ctx_error e))
                else Inr (s\<lparr>sc_details := sc_details s + int sent, sc_store := d', sc_world := (k', l')\<rparr>))"
    using False r unfolding scan_batch_def Let_def m_def [symmetric] batch_def [symmetric] sent_def [symmetric] kl
    by simp
  have blk: "good l' (fst (pg_update P (set_block ''expired'') d'))"
  proof -
    obtain d2 e2 where u: "pg_update P (set_block ''expired'') d' = (d2, e2)" by fastforce
    have "good l' d2"
      by (rule update_good_same [OF g' u]) (auto simp: inv_set_block typed_set_block expired_valid)
    then show ?thesis using u by simp
  qed
  have len: "length batch = m" "0 < m" "int m \<le> bc_detail_max c - sc_details s"
    using False ne by (auto simp: batch_def m_def)
  have sp: "budget c (s\<lparr>sc_details := sc_details s + int sent, sc_store := d', sc_world := (k', l')\<rparr>) < budget c s"
    if "\<not> sent < length batch"
  proof -
    have "nat (bc_detail_max c - (sc_details s + int sent)) < nat (bc_detail_max c - sc_details s)"
      using that len by linarith
    then show ?thesis using page by (auto simp: budget_def)
  qed
  show ?thesis unfolding eq
    using g' blk sp by (cases failure) (auto simp: good_result_def spends_def split: if_splits)
qed

lemma scan_window_good:
  assumes g: "good (snd (sc_world s)) (sc_store s)" and p: "pg_load P (sc_store s) = Inr p"
    and pg: "pr_page p = None" and w: "elems (pr_windows p) = w # ws" and S: "source_typed S"
  shows "good_result (scan_window P (logged S) c retention e w s) \<and>
    spends c s (scan_window P (logged S) c retention e w s)"
proof -
  obtain k l where kl: "sc_world s = (k, l)" by fastforce
  have gl: "good l (sc_store s)" using g kl by simp
  have blk: "good_result (update_or P (set_block r) (sc_store s) (k', l') (\<lambda>d'. Inl (d', (k', l'), err)))"
    if "good l' (sc_store s)" "utf8_valid r" for k' l' r err
    by (rule update_or_good [OF that(1)]) (use that(2) in \<open>auto simp: good_result_def inv_set_block typed_set_block\<close>)
  have spb: "spends c s (update_or P f d kk (\<lambda>d'. Inl (d', kk, err)))" for f d err kk
    by (rule update_or_spends) (simp add: spends_def)
  have adv: "spends c s (update_or P f (sc_store s) (k', l')
      (\<lambda>d'. Inr (s\<lparr>sc_pages := sc_pages s + 1, sc_world := (k', l'), sc_store := d'\<rparr>)))"
    if "\<not> sc_pages s \<ge> bc_max_pages c" for f k' l'
  proof (rule update_or_spends)
    fix d'
    have "nat (bc_max_pages c - sc_pages s) = Suc (nat (bc_max_pages c - (sc_pages s + 1)))" using that by linarith
    then show "spends c s (Inr (s\<lparr>sc_pages := sc_pages s + 1, sc_world := (k', l'), sc_store := d'\<rparr>))"
      by (simp add: spends_def budget_def)
  qed
  show ?thesis
  proof (cases "window_expired (ce_now e) retention w \<or> sc_pages s \<ge> bc_max_pages c")
    case True
    then show ?thesis using blk [OF gl expired_valid(1)] spb gl kl
      by (auto simp: scan_window_def Let_def good_result_def spends_def)
  next
    case False
    obtain k' r where sl: "src_list S w k = (k', r)" by fastforce
    show ?thesis
    proof (cases r)
      case (Inl er)
      then show ?thesis using False sl kl gl
        by (simp add: scan_window_def Let_def logged_def good_result_def spends_def)
    next
      case (Inr page)
      define l' where "l' = l @ [Listed w page]"
      have gl': "good l' (sc_store s)" unfolding l'_def by (rule good_append [OF gl])
      have lg: "src_list (logged S) w (k, l) = ((k', l'), Inr page)"
        using sl Inr by (simp add: logged_def l'_def)
      have ty: "\<forall>i \<in> set (pg_items page). item_typed i" using S sl Inr by (auto simp: source_typed_def)
      have p': "q = p" if "pg_load P (sc_store s) = Inr q" for q using p that by simp
      have split: "good_result (update_or P (split_window w (mid_time w)) (sc_store s) (k', l')
          (\<lambda>d'. Inr (s\<lparr>sc_pages := sc_pages s + 1, sc_world := (k', l'), sc_store := d'\<rparr>)))"
        if "\<not> time_sub (zt_at (w_end w)) (zt_at (w_start w)) \<le> 1000000000"
      proof -
        have "time_sub (zt_at (w_end w)) (zt_at (w_start w)) > 1000000000" using that by simp
        note mid = mid_time_inside [OF this]
        show ?thesis
          by (rule update_or_good [OF gl'])
            (use p' pg w mid inv_split typed_split in \<open>auto simp: good_result_def\<close>)
      qed
      have take: "good_result (update_or P (take_page w page) (sc_store s) (k', l')
          (\<lambda>d'. Inr (s\<lparr>sc_pages := sc_pages s + 1, sc_world := (k', l'), sc_store := d'\<rparr>)))" if "pg_complete page"
      proof -
        obtain d' err where u: "pg_update P (take_page w page) (sc_store s) = (d', err)" by fastforce
        have "good l' d'" unfolding l'_def
          by (rule update_good [OF gl u]) (use p' pg w ty that inv_take_page typed_take_page in auto)
        then show ?thesis using u by (cases err) (auto simp: update_or_def good_result_def)
      qed
      show ?thesis
        using False lg kl gl' blk [OF gl' expired_valid(2)] spb adv split take
        by (auto simp: scan_window_def Let_def good_result_def spends_def)
    qed
  qed
qed

lemma scan_step_good:
  assumes g: "good (snd (sc_world s)) (sc_store s)" and S: "source_typed S" and e: "env_ok e"
  shows "good_result (scan_step P (logged S) c retention e n s) \<and>
    spends c s (scan_step P (logged S) c retention e n s)"
proof -
  obtain k l where kl: "sc_world s = (k, l)" by fastforce
  have gl: "good l (sc_store s)" using g kl by simp
  have stop: "good_result (Inl (sc_store s, (k, l), err))" for err using gl by (simp add: good_result_def)
  show ?thesis
  proof (cases "ce_done e n")
    case True
    then show ?thesis using stop kl by (simp add: scan_step_def Let_def spends_def)
  next
    case nd: False
    show ?thesis
    proof (cases "pg_load P (sc_store s)")
      case (Inl er)
      then show ?thesis using nd stop kl by (simp add: scan_step_def Let_def spends_def)
    next
      case (Inr p)
      have w: "wf (sc_store s)" using gl by (simp add: good_def)
      note t = load_typed [OF w Inr]
      have blk: "good_result (update_or P (set_block ''expired'') (sc_store s) (k, l) (\<lambda>d'. Inl (d', (k, l), err)))" for err
        by (rule update_or_good [OF gl]) (auto simp: good_result_def inv_set_block typed_set_block expired_valid)
      have spb: "spends c s (update_or P f d kk (\<lambda>d'. Inl (d', kk, err)))" for f d err kk
        by (rule update_or_spends) (simp add: spends_def)
      have fin: "good_result (update_or P finish_page (sc_store s) (k, l) (\<lambda>d'. Inr (s\<lparr>sc_store := d'\<rparr>))) \<and>
          spends c s (update_or P finish_page (sc_store s) (k, l) (\<lambda>d'. Inr (s\<lparr>sc_store := d'\<rparr>)))"
        if "elems (pr_pending p) = []" "pr_page p \<noteq> None"
      proof
        show "good_result (update_or P finish_page (sc_store s) (k, l) (\<lambda>d'. Inr (s\<lparr>sc_store := d'\<rparr>)))"
          by (rule update_or_good [OF gl])
            (use that Inr kl in \<open>auto simp: good_result_def inv_finish_page typed_finish_page\<close>)
        show "spends c s (update_or P finish_page (sc_store s) (k, l) (\<lambda>d'. Inr (s\<lparr>sc_store := d'\<rparr>)))"
        proof (rule update_or_spends)
          fix d' assume u: "pg_update P finish_page (sc_store s) = (d', None)"
          from update_loads [OF w u] Inr t have "pg_load P d' = Inr (finish_page p)"
            by (auto simp: typed_finish_page)
          then have "\<not> has_page d'" "has_page (sc_store s)"
            using that(2) Inr by (auto simp: has_page_def finish_page_def)
          then show "spends c s (Inr (s\<lparr>sc_store := d'\<rparr>))" by (simp add: spends_def budget_def)
        qed
      qed
      have batch: "elems (pr_pending p) \<noteq> [] \<Longrightarrow> good_result (scan_batch P (logged S) c e n p s) \<and>
          spends c s (scan_batch P (logged S) c e n p s)"
        by (rule scan_batch_good [OF g Inr e])
      have window: "good_result (scan_window P (logged S) c retention e w s) \<and>
          spends c s (scan_window P (logged S) c retention e w s)"
        if "pr_page p = None" "elems (pr_windows p) = w # ws" for w ws
        by (rule scan_window_good [OF g Inr that S])
      show ?thesis
        using nd Inr kl stop blk spb fin batch window
        by (auto simp: scan_step_def Let_def spends_def split: list.split option.splits)
    qed
  qed
qed

text \<open>The loop: it keeps the invariant, and its budget bounds its passes.\<close>

lemma scan_loop_good:
  assumes "good (snd (sc_world s)) (sc_store s)" "source_typed S" "env_ok e"
    and "scan_loop P (logged S) c retention e fuel n s = Some (d', (k', l'), err)"
  shows "good l' d'"
  using assms
proof (induction fuel arbitrary: n s)
  case (Suc fuel)
  note st = scan_step_good [OF Suc.prems(1-3), of c retention n]
  show ?case
    using Suc.IH st Suc.prems by (auto simp: good_result_def split: sum.splits)
qed simp

lemma scan_loop_ends:
  assumes "good (snd (sc_world s)) (sc_store s)" "source_typed S" "env_ok e" "budget c s < fuel"
  shows "scan_loop P (logged S) c retention e fuel n s \<noteq> None"
  using assms
proof (induction fuel arbitrary: n s)
  case (Suc fuel)
  note st = scan_step_good [OF Suc.prems(1-3), of c retention n]
  show ?case
  proof (cases "scan_step P (logged S) c retention e n s")
    case (Inr s')
    then have "good (snd (sc_world s')) (sc_store s')" "budget c s' < budget c s"
      using st by (auto simp: good_result_def spends_def)
    then show ?thesis using Suc.IH [of s' "Suc n"] Suc.prems Inr by simp
  qed simp
qed simp

theorem scan_cycle_good:
  assumes g: "good l d" and S: "source_typed S" and e: "env_ok e" and c: "config_typed c"
    and r: "scan_cycle P (logged S) c retention e fuel (d, (k, l)) = Some (d', (k', l'), err)"
  shows "good l' d'"
proof -
  obtain d1 er where u: "pg_update P (plan_progress c (ce_now e)) d = (d1, er)" by fastforce
  have "good l d1"
    by (rule update_good_same [OF g u]) (use c inv_plan typed_plan in \<open>auto simp: progress_sound_def\<close>)
  then show ?thesis
    using r u scan_loop_good [OF _ S e, of "\<lparr>sc_details = 0, sc_pages = 0, sc_store = d1, sc_world = (k, l)\<rparr>"]
    by (auto simp: scan_cycle_def split: option.splits)
qed

theorem scan_cycle_ends:
  assumes g: "good l d" and S: "source_typed S" and e: "env_ok e" and c: "config_typed c"
  shows "scan_cycle P (logged S) c retention e (cycle_fuel c) (d, (k, l)) \<noteq> None"
proof -
  obtain d1 er where u: "pg_update P (plan_progress c (ce_now e)) d = (d1, er)" by fastforce
  have g1: "good l d1"
    by (rule update_good_same [OF g u]) (use c inv_plan typed_plan in \<open>auto simp: progress_sound_def\<close>)
  let ?s = "\<lparr>sc_details = 0, sc_pages = 0, sc_store = d1, sc_world = (k, l)\<rparr>"
  have "budget c ?s < cycle_fuel c" by (simp add: budget_def cycle_fuel_def nat_mult_distrib)
  then have "scan_loop P (logged S) c retention e (cycle_fuel c) 0 ?s \<noteq> None"
    using g1 by (intro scan_loop_ends S e) simp_all
  then show ?thesis using u by (auto simp: scan_cycle_def split: option.splits)
qed

end

end
