(* ===== verification/History_Backfill.thy ===== *)
theory History_Backfill
  imports History_Coverage Go_Json_Text
begin

text \<open>
  The backfill worker on the history store: the store is a \<open>progress_store\<close>, so every run of polls keeps
  the invariant and every cycle ends. The properties read the invariant at the worker's own report: when
  the gauge says the history is complete, the swept interval is covered.
\<close>

section \<open>The history store as a progress store\<close>

definition history_wf :: "'d bolt \<Rightarrow> bytes \<Rightarrow> bytes \<Rightarrow> backfill_config \<Rightarrow> 'd \<Rightarrow> bool" where
  "history_wf B key identity c d \<longleftrightarrow>
     bolt_ok B \<and> bc_max_pending c \<le> 100000 \<and>
     (\<forall>p. load_progress B key identity d = Inr p \<longrightarrow> progress_typed p)"

lemma validated_sound: "validate_progress p limit = Inr () \<Longrightarrow> progress_sound p"
  by (auto simp: validate_progress_Inr progress_sound_def validate_items_distinct window_bad_def)

lemma update_loads_exists:
  assumes "bolt_ok B" "update_progress B key source limit f d = (d', None)" "limit \<le> 100000"
  shows "\<exists>p p'. load_progress B key source d = Inr p \<and> f p = Inr p' \<and> validate_progress p' limit = Inr () \<and>
    (progress_typed p' \<longrightarrow> load_progress B key source d' = Inr p')"
  by (rule update_progress_load [OF assms]) (intro exI conjI impI; assumption?; simp)

lemma history_update:
  assumes "pg_update (history_ops B key identity c) f d = (d', err)"
  shows "(err = None \<longrightarrow> update_progress B key identity (bc_max_pending c) (\<lambda>p. Inr (f p)) d = (d', None)) \<and>
    (err \<noteq> None \<longrightarrow> d' = d)"
proof -
  obtain d1 e1 where u: "update_progress B key identity (bc_max_pending c) (\<lambda>p. Inr (f p)) d = (d1, e1)" by fastforce
  show ?thesis
  proof (cases e1)
    case None
    then show ?thesis using assms u by (simp add: history_ops_def)
  next
    case (Some e)
    then show ?thesis using assms u update_progress_error [OF u [unfolded Some]] by (auto simp: history_ops_def)
  qed
qed

lemma history_load [simp]: "pg_load (history_ops B key identity c) = load_progress B key identity"
  by (simp add: history_ops_def)

interpretation history: progress_store "history_ops B key identity c" "history_wf B key identity c"
proof
  fix f d d' er assume u: "pg_update (history_ops B key identity c) f d = (d', Some er)"
  show "d' = d" using history_update [OF u] by simp
next
  fix f d d' assume w: "history_wf B key identity c d" and u: "pg_update (history_ops B key identity c) f d = (d', None)"
  have B: "bolt_ok B" and lim: "bc_max_pending c \<le> 100000" using w by (simp_all add: history_wf_def)
  have "update_progress B key identity (bc_max_pending c) (\<lambda>p. Inr (f p)) d = (d', None)"
    using history_update [OF u] by simp
  from update_loads_exists [OF B this lim] obtain p where
    p: "load_progress B key identity d = Inr p" "validate_progress (f p) (bc_max_pending c) = Inr ()"
      "progress_typed (f p) \<longrightarrow> load_progress B key identity d' = Inr (f p)" by auto
  then show "\<exists>p. pg_load (history_ops B key identity c) d = Inr p \<and> progress_sound (f p) \<and>
      (progress_typed (f p) \<longrightarrow> history_wf B key identity c d' \<and> pg_load (history_ops B key identity c) d' = Inr (f p))"
    using validated_sound B lim by (auto simp: history_wf_def)
next
  fix d p assume "history_wf B key identity c d" "pg_load (history_ops B key identity c) d = Inr p"
  moreover have "progress_sound (zero_progress identity)" by (simp add: zero_progress_def progress_sound_def)
  ultimately show "progress_typed p \<and> progress_sound p"
    using load_progress_Inr validated_sound by (fastforce simp: history_wf_def)
qed

section \<open>Runs\<close>

definition worker_inv :: "'d bolt \<Rightarrow> bytes \<Rightarrow> bytes \<Rightarrow> backfill_config \<Rightarrow> scan_event list \<Rightarrow> backfill_worker \<Rightarrow> 'd \<Rightarrow> bool" where
  "worker_inv B key identity c l w d \<longleftrightarrow>
     history.good B key identity c l d \<and> (wk_blocked w \<or> scan_inv l (wk_progress w))"

text \<open>What a run assumes of its configuration, its source and its environments.\<close>

definition run_ok :: "backfill_config \<Rightarrow> 'k source_ops \<Rightarrow> (cycle_env \<times> go_time) list \<Rightarrow> bool" where
  "run_ok c S es \<longleftrightarrow> config_typed c \<and> source_typed S \<and> (\<forall>e \<in> set es. env_ok (fst e))"

lemma fresh_inv: "scan_inv [] (zero_progress identity)"
  by (simp add: scan_inv_def zero_progress_def zoned_is_zero_def is_zero_def)

lemma fresh_typed: "utf8_valid identity \<Longrightarrow> progress_typed (zero_progress identity)"
  using utf8_valid_Nil
  by (simp add: progress_typed_iff zero_progress_def is_int64_def min_int64_def max_int64_def)

lemma fresh_worker_inv:
  assumes "bolt_ok B" "bc_max_pending c \<le> 100000" "utf8_valid identity"
    and "load_progress B key identity d = Inr (zero_progress identity)"
    and "new_worker (history_ops B key identity c) c d = Inr w"
  shows "worker_inv B key identity c [] w d"
proof -
  have "wk_progress w = zero_progress identity"
    using assms(4,5) by (auto simp: new_worker_def split: if_splits)
  moreover have "history.good B key identity c [] d"
    using assms fresh_inv fresh_typed by (simp add: history.good_def history_wf_def)
  ultimately show ?thesis using fresh_inv by (simp add: worker_inv_def)
qed

lemma poll_history_inv:
  assumes "worker_inv B key identity c l w d" "run_ok c S [e]"
    and "poll_history (history_ops B key identity c) (logged S) c retention fuel e (w, d, (k, l)) = Some (w', d', (k', l'))"
  shows "worker_inv B key identity c l' w' d'"
proof -
  let ?P = "history_ops B key identity c"
  obtain d1 kl err where r1: "scan_cycle ?P (logged S) c retention (fst e) fuel (d, (k, l)) = Some (d1, kl, err)"
    using assms(3) by (cases "scan_cycle ?P (logged S) c retention (fst e) fuel (d, (k, l))") (auto simp: poll_history_def)
  then have e: "d1 = d'" "kl = (k', l')" and w': "w' = poll_report w err (pg_load ?P d') (snd e)"
    using assms(3) by (auto simp: poll_history_def)
  note r = r1 [unfolded e]
  have g: "history.good B key identity c l d" using assms(1) by (simp add: worker_inv_def)
  have "history.good B key identity c l' d'"
    by (rule history.scan_cycle_good [OF g _ _ _ r]) (use assms(2) in \<open>auto simp: run_ok_def\<close>)
  then show ?thesis using w' by (auto simp: worker_inv_def history.good_def poll_report_def Let_def split: sum.split)
qed

lemma run_history_inv:
  assumes "worker_inv B key identity c l w d" "run_ok c S es"
  shows "\<exists>w' d' k' l'. run_history (history_ops B key identity c) (logged S) c retention es (w, d, (k, l)) =
      Some (w', d', (k', l')) \<and> worker_inv B key identity c l' w' d'"
  using assms
proof (induction es arbitrary: w d k l)
  case (Cons e es)
  let ?P = "history_ops B key identity c"
  have ok: "run_ok c S [e]" "run_ok c S es" using Cons.prems(2) by (auto simp: run_ok_def)
  have g: "history.good B key identity c l d" using Cons.prems(1) by (simp add: worker_inv_def)
  have "scan_cycle ?P (logged S) c retention (fst e) (cycle_fuel c) (d, (k, l)) \<noteq> None"
    using ok(1) by (intro history.scan_cycle_ends [OF g]) (auto simp: run_ok_def)
  then obtain w1 d1 k1 l1 where
    p: "poll_history ?P (logged S) c retention (cycle_fuel c) e (w, d, (k, l)) = Some (w1, d1, (k1, l1))"
    by (fastforce simp: poll_history_def)
  have "worker_inv B key identity c l1 w1 d1" by (rule poll_history_inv [OF Cons.prems(1) ok(1) p])
  from Cons.IH [OF this ok(2)] show ?case using p by simp
qed auto

lemma complete_covers:
  assumes "worker_inv B key identity c l w d" "\<not> history_incomplete w"
  shows "walked l (zt_at (pr_start (wk_progress w))) (zt_at (pr_last_completed (wk_progress w)))"
  using assms by (auto simp: worker_inv_def history_incomplete_def scan_inv_def Let_def)

section \<open>Examples\<close>

text \<open>A progress with at most one window and nothing pending is stored by the reference store.\<close>

definition small_progress :: "progress \<Rightarrow> bool" where
  "small_progress p \<longleftrightarrow>
     progress_typed p \<and> list_all zoned_json_ok (progress_times p) \<and> elems (pr_pending p) = [] \<and>
     length (elems (pr_windows p)) \<le> 1 \<and> (\<forall>w \<in> set (elems (pr_windows p)). \<not> window_bad w) \<and>
     (\<forall>w. pr_page p = Some w \<longrightarrow> \<not> window_bad w) \<and> length (pr_source p) \<le> 100 \<and> pr_block p = []"

lemma small_progress_length:
  assumes "small_progress p"
  shows "print_bound (progress_json p) \<le> 8000"
proof -
  have t: "list_all zoned_json_ok (progress_times p)" "progress_typed p" using assms by (simp_all add: small_progress_def)
  have z: "print_bound (jtime z) \<le> 242" if "z \<in> set (progress_times p)" for z
    using length_format_zoned [of z] t(1) that by (simp add: jtime_def list_all_iff)
  have n: "print_bound (jint i) \<le> 21" if "is_int64 i" for i using length_jint [OF that] by (simp add: jint_def)
  have w: "print_bound (window_json w) \<le> 600" if "set (window_times w) \<subseteq> set (progress_times p)" for w
    using z [of "w_start w"] z [of "w_end w"] that by (simp add: window_json_def window_times_def)
  have ws: "print_bound (jslice window_json (pr_windows p)) \<le> 700"
  proof (cases "pr_windows p")
    case (Some ws)
    show ?thesis
    proof (cases ws)
      case (Cons x xs)
      have "length ws \<le> 1" using assms Some by (simp add: small_progress_def)
      then have "ws = [x]" using Cons by simp
      moreover have "set (window_times x) \<subseteq> set (progress_times p)"
        using Some Cons by (auto simp: progress_times_def)
      ultimately show ?thesis using w [of x] Some by (simp add: jslice_def)
    qed (use Some in \<open>simp add: jslice_def\<close>)
  qed (simp add: jslice_def)
  have ps: "print_bound (jslice item_json (pr_pending p)) \<le> 4"
    using assms by (cases "pr_pending p") (simp_all add: small_progress_def jslice_def)
  have pg: "print_bound (case pr_page p of None \<Rightarrow> JNull | Some w \<Rightarrow> window_json w) \<le> 600"
    using w by (cases "pr_page p") (auto simp: progress_times_def)
  have i: "print_bound (jint (pr_lookback p)) \<le> 21" "print_bound (jint (pr_overlap p)) \<le> 21"
    using n t(2) by (simp_all add: progress_typed_def)
  have z4: "print_bound (jtime (pr_start p)) \<le> 242" "print_bound (jtime (pr_end p)) \<le> 242"
    "print_bound (jtime (pr_last_completed p)) \<le> 242" "print_bound (jtime (pr_last_sweep p)) \<le> 242"
    by (rule z; simp add: progress_times_def)+
  have so: "length (pr_source p) \<le> 100" "pr_block p = []" using assms by (simp_all add: small_progress_def)
  show ?thesis unfolding progress_json_def using i z4 ws ps pg so by simp
qed

definition lone_store :: "bytes \<Rightarrow> ref_db \<Rightarrow> bool" where
  "lone_store key d \<longleftrightarrow>
     has_bucket ref_bolt d progress_bucket \<and> (\<forall>e \<in> set (bentries ref_bolt d progress_bucket). fst e = key)"

lemma small_update:
  assumes d: "lone_store key d" and k: "key_ok key" "identity \<noteq> []" "1 \<le> bc_max_pending c" "bc_max_pending c \<le> 100000"
    and p: "load_progress ref_bolt key identity d = Inr p" and f: "small_progress (f p)" "pr_source (f p) = identity"
  shows "\<exists>d'. update_progress ref_bolt key identity (bc_max_pending c) (\<lambda>p. Inr (f p)) d = (d', None) \<and>
    pg_update (history_ops ref_bolt key identity c) f d = (d', None) \<and> lone_store key d' \<and>
    load_progress ref_bolt key identity d' = Inr (f p)"
proof -
  let ?B = ref_bolt and ?lim = "bc_max_pending c"
  have h: "has_bucket ?B d progress_bucket" using d by (simp add: lone_store_def)
  have rd: "read_progress ?B key identity d = Inr p" using p by (simp add: load_progress_def split: if_splits)
  have t: "progress_typed (f p)" using f(1) by (simp add: small_progress_def)
  obtain data where m: "marshal_progress (f p) = Some data" using f(1) by (simp add: marshal_progress_def small_progress_def)
  have v: "validate_progress (f p) ?lim = Inr ()"
    using f(1) k(3) by (auto simp: validate_progress_Inr small_progress_def)
  define val where "val = marshal_envelope (sha256_hex data) (progress_json (f p))"
  have len: "length val \<le> 9000"
  proof -
    have "length val \<le> print_bound (JObj [(''Version'', jint 1), (''Hash'', JStr (sha256_hex data)), (''Data'', progress_json (f p))])"
      unfolding val_def marshal_envelope_def by (rule length_json_print)
    also have "\<dots> \<le> 9000"
      using small_progress_length [OF f(1)] length_jint [of 1]
      by (simp add: jint_def is_int64_def min_int64_def max_int64_def)
    finally show ?thesis .
  qed
  have others: "others_size key (bentries ?B d progress_bucket) = 0"
    using d by (auto simp: others_size_def lone_store_def)
  have kv: "kv_valid key val" using marshal_envelope_positive(2) [OF k(1)] len by (simp add: kv_valid_def)
  from bolt_put [OF ref_bolt_ok h kv] obtain d1 where
    put: "putE ?B progress_bucket key val d = Inr d1" "same_but ?B progress_bucket d d1"
      "bentries ?B d1 progress_bucket = kv_put key val (bentries ?B d progress_bucket)" by blast
  have tx: "update_progress_tx ?B key identity ?lim (\<lambda>p. Inr (f p)) d = Inr (d1, ())"
    using rd f(2) v m others put(1) len
    by (simp add: update_progress_tx_def Let_def val_def [symmetric] max_value_def)
  have up: "update_progress ?B key identity ?lim (\<lambda>p. Inr (f p)) d = (d1, None)"
    using k(1-3) tx by (simp add: update_progress_def update_tx_def ref_bolt_def)
  have "load_progress ?B key identity d1 = Inr (f p)"
    using update_loads_exists [OF ref_bolt_ok up k(4)] p t by auto
  moreover have "lone_store key d1"
    using d put(3) set_kv_put [OF bolt_sorted [OF ref_bolt_ok, of d progress_bucket], of key val]
    by (simp add: lone_store_def same_butD [OF put(2)])
  ultimately show ?thesis using up by (intro exI [of _ d1]) (simp add: history_ops_def)
qed

text \<open>One poll of a fresh store against a source that answers an empty complete page.\<close>

definition example_backfill :: backfill_config where
  "example_backfill =
     \<lparr>bc_enabled = True, bc_lookback = 1000000000, bc_overlap = 0, bc_interval = 5000000000,
      bc_cycle_timeout = 1000000000, bc_rescan = 0, bc_max_pages = 4, bc_detail_max = 25,
      bc_concurrency = 1, bc_max_pending = 1000\<rparr>"

definition example_source :: "unit source_ops" where
  "example_source =
     \<lparr>src_list = (\<lambda>w k. (k, Inr \<lparr>pg_items = [], pg_complete = True\<rparr>)), src_record = (\<lambda>i k. (k, None))\<rparr>"

definition example_env :: cycle_env where
  "example_env =
     \<lparr>ce_now = 2000000000, ce_done = (\<lambda>_. False), ce_ctx_error = Plain ''context canceled'',
      ce_sent = (\<lambda>_. 100), ce_order = (\<lambda>xs. xs)\<rparr>"

definition fresh_db :: ref_db where "fresh_db = [(progress_bucket, ([], 0))]"

definition example_worker :: backfill_worker where
  "example_worker =
     \<lparr>wk_success = False, wk_blocked = False, wk_at = zero_time, wk_progress = zero_progress ''id''\<rparr>"

definition example_window :: window where
  "example_window = \<lparr>w_start = utc_time 1000000000, w_end = utc_time 2000000000\<rparr>"

lemma fresh_db_facts:
  "lone_store ''queries'' fresh_db" "load_progress ref_bolt ''queries'' ''id'' fresh_db = Inr (zero_progress ''id'')"
  by (simp_all add: fresh_db_def lone_store_def ref_bolt_def ref_entries_def ref_bucket_def load_progress_def
      read_progress_def key_ok_def)

lemma example_run_ok: "run_ok example_backfill example_source [(example_env, 3000000000)]"
  by (simp add: run_ok_def config_typed_def example_backfill_def is_int64_def min_int64_def max_int64_def
      source_typed_def example_source_def env_ok_def example_env_def)

lemma example_times:
  "zoned_json_ok (utc_time 1000000000)" "zoned_json_ok (utc_time 2000000000)" "zoned_json_ok zero_zoned"
proof -
  have "utc_date 1000000000 = utc_date 0" "utc_date 2000000000 = utc_date 0" by (simp_all add: utc_date_def)
  then show "zoned_json_ok (utc_time 1000000000)" "zoned_json_ok (utc_time 2000000000)"
    using example_year by (simp_all add: zoned_json_ok_def year_ok_def utc_year_def)
qed (rule zero_zoned_json_ok)

lemma example_small:
  assumes "p \<in> {plan_progress example_backfill 2000000000 (zero_progress ''id''),
     take_page example_window \<lparr>pg_items = [], pg_complete = True\<rparr>
       (plan_progress example_backfill 2000000000 (zero_progress ''id'')),
     finish_page (take_page example_window \<lparr>pg_items = [], pg_complete = True\<rparr>
       (plan_progress example_backfill 2000000000 (zero_progress ''id'')))}"
  shows "small_progress p \<and> pr_source p = ''id''"
proof -
  have id: "utf8_valid ''id''" by (rule utf8_valid_ascii) (auto simp: byte_def)
  have z: "\<not> is_zero 1000000000" "1000000000 \<noteq> zero_time" "is_zero zero_time" "zero_time < 2000000000"
    by (simp_all add: is_zero_def zero_time_def)
  show ?thesis using assms id example_times z utf8_valid_Nil
    by (auto simp: small_progress_def progress_typed_iff progress_times_def window_times_def window_bad_def
        zoned_is_zero_def plan_progress_def plan_sweep_def reset_progress_def zero_progress_def
        take_page_def finish_page_def example_backfill_def example_window_def trunc_second_def Let_def
        is_int64_def min_int64_def max_int64_def)
qed

text \<open>One poll of any source that answers the one window with a complete empty page.\<close>

lemma example_run_of:
  assumes "src_list S example_window k0 = (k0, Inr \<lparr>pg_items = [], pg_complete = True\<rparr>)"
  shows "\<exists>w d'. run_history (history_ops ref_bolt ''queries'' ''id'' example_backfill) (logged S)
       example_backfill 1000000000000 [(example_env, 3000000000)] (example_worker, fresh_db, (k0, [])) =
     Some (w, d', (k0, [Listed example_window \<lparr>pg_items = [], pg_complete = True\<rparr>])) \<and>
     \<not> history_incomplete w \<and> zt_at (pr_start (wk_progress w)) = 1000000000 \<and>
     zt_at (pr_last_completed (wk_progress w)) = 2000000000"
proof -
  let ?P = "history_ops ref_bolt ''queries'' ''id'' example_backfill"
  let ?pg = "\<lparr>pg_items = [], pg_complete = True\<rparr> :: page"
  define p1 where "p1 = plan_progress example_backfill 2000000000 (zero_progress ''id'')"
  define p2 where "p2 = take_page example_window ?pg p1"
  define p3 where "p3 = finish_page p2"
  have small: "small_progress p \<and> pr_source p = ''id''" if "p \<in> {p1, p2, p3}" for p
    by (rule example_small) (use that in \<open>simp add: p1_def p2_def p3_def\<close>)
  have k: "key_ok ''queries''" "''id'' \<noteq> []" "1 \<le> bc_max_pending example_backfill" "bc_max_pending example_backfill \<le> 100000"
    by (simp_all add: key_ok_def example_backfill_def)
  note up = small_update [OF _ k]
  have s1: "small_progress p1" "pr_source p1 = ''id''" using small [of p1] by simp_all
  from up [OF fresh_db_facts, of "plan_progress example_backfill 2000000000", folded p1_def, OF s1] obtain d1 where
    d1: "pg_update ?P (plan_progress example_backfill 2000000000) fresh_db = (d1, None)" "lone_store ''queries'' d1"
      "load_progress ref_bolt ''queries'' ''id'' d1 = Inr p1" by (elim exE conjE)
  have s2: "small_progress p2" "pr_source p2 = ''id''" using small [of p2] by simp_all
  from up [OF d1(2,3), of "take_page example_window ?pg", folded p2_def, OF s2] obtain d2 where
    d2: "pg_update ?P (take_page example_window ?pg) d1 = (d2, None)" "lone_store ''queries'' d2"
      "load_progress ref_bolt ''queries'' ''id'' d2 = Inr p2" by (elim exE conjE)
  have s3: "small_progress p3" "pr_source p3 = ''id''" using small [of p3] by simp_all
  from up [OF d2(2,3), of finish_page, folded p3_def, OF s3] obtain d3 where
    d3: "pg_update ?P finish_page d2 = (d3, None)" "lone_store ''queries'' d3"
      "load_progress ref_bolt ''queries'' ''id'' d3 = Inr p3" by (elim exE conjE)
  have z: "\<not> is_zero 2000000000" "is_zero zero_time" "zero_time < 2000000000" by (simp_all add: is_zero_def zero_time_def)
  have q1: "pr_block p1 = []" "pr_page p1 = None" "elems (pr_pending p1) = []" "elems (pr_windows p1) = [example_window]"
    "pr_start p1 = utc_time 1000000000" "pr_end p1 = utc_time 2000000000"
    using z by (simp_all add: p1_def plan_progress_def plan_sweep_def reset_progress_def zero_progress_def
        example_backfill_def example_window_def trunc_second_def Let_def zoned_is_zero_def)
  have q2: "pr_block p2 = []" "pr_page p2 = Some example_window" "elems (pr_pending p2) = []" "elems (pr_windows p2) = []"
    "pr_start p2 = utc_time 1000000000" "pr_end p2 = utc_time 2000000000"
    using q1 by (simp_all add: p2_def take_page_def)
  have q3: "pr_block p3 = []" "pr_page p3 = None" "elems (pr_pending p3) = []" "elems (pr_windows p3) = []"
    "pr_start p3 = utc_time 1000000000" "pr_last_completed p3 = utc_time 2000000000"
    using q2 by (simp_all add: p3_def finish_page_def)
  have ex: "\<not> window_expired 2000000000 1000000000000 example_window"
    by (simp add: window_expired_def example_window_def trunc_second_def)
  have "cycle_fuel example_backfill = 35" by (simp add: cycle_fuel_def example_backfill_def)
  then obtain m where fuel: "cycle_fuel example_backfill = Suc (Suc (Suc m))" by (simp add: eval_nat_numeral)
  have listed: "src_list (logged S) example_window (k0, []) = ((k0, [Listed example_window ?pg]), Inr ?pg)"
    by (simp add: logged_def assms)
  have e: "ce_now example_env = 2000000000" "\<not> ce_done example_env n" "bc_max_pages example_backfill = 4" for n
    by (simp_all add: example_env_def example_backfill_def)
  have step1: "scan_step ?P (logged S) example_backfill 1000000000000 example_env n
      \<lparr>sc_details = 0, sc_pages = 0, sc_store = d1, sc_world = (k0, [])\<rparr> =
      Inr \<lparr>sc_details = 0, sc_pages = 1, sc_store = d2, sc_world = (k0, [Listed example_window ?pg])\<rparr>" for n
    by (simp add: scan_step_def scan_window_def update_or_def e ex d1(3) d2(1) q1 listed)
  have step2: "scan_step ?P (logged S) example_backfill 1000000000000 example_env n
      \<lparr>sc_details = 0, sc_pages = 1, sc_store = d2, sc_world = k\<rparr> =
      Inr \<lparr>sc_details = 0, sc_pages = 1, sc_store = d3, sc_world = k\<rparr>" for n and k :: "_ \<times> scan_event list"
    by (simp add: scan_step_def update_or_def e ex d2(3) d3(1) q2)
  have step3: "scan_step ?P (logged S) example_backfill 1000000000000 example_env n
      \<lparr>sc_details = 0, sc_pages = 1, sc_store = d3, sc_world = k\<rparr> = Inl (d3, k, None)"
      for n and k :: "_ \<times> scan_event list"
    by (simp add: scan_step_def e d3(3) q3)
  have "scan_cycle ?P (logged S) example_backfill 1000000000000 example_env (cycle_fuel example_backfill)
      (fresh_db, (k0, [])) = Some (d3, (k0, [Listed example_window ?pg]), None)"
    by (simp add: fuel scan_cycle_def e d1(1) step1 step2 step3)
  then have "run_history ?P (logged S) example_backfill 1000000000000 [(example_env, 3000000000)]
      (example_worker, fresh_db, (k0, [])) =
      Some (poll_report example_worker None (Inr p3) 3000000000, d3, (k0, [Listed example_window ?pg]))"
    using d3(3) by (simp add: poll_history_def)
  moreover have "\<not> history_incomplete (poll_report example_worker None (Inr p3) 3000000000)"
    using q3 z by (simp add: history_incomplete_def poll_report_def zoned_is_zero_def)
  ultimately show ?thesis using q3 by (intro exI [of _ "poll_report example_worker None (Inr p3) 3000000000"] exI [of _ d3])
      (simp add: poll_report_def)
qed

lemma example_run:
  "\<exists>w d'. run_history (history_ops ref_bolt ''queries'' ''id'' example_backfill) (logged example_source)
       example_backfill 1000000000000 [(example_env, 3000000000)] (example_worker, fresh_db, ((), [])) =
     Some (w, d', ((), [Listed example_window \<lparr>pg_items = [], pg_complete = True\<rparr>])) \<and>
     \<not> history_incomplete w \<and> zt_at (pr_start (wk_progress w)) = 1000000000 \<and>
     zt_at (pr_last_completed (wk_progress w)) = 2000000000"
  by (rule example_run_of) (simp add: example_source_def)

lemma example_new_worker:
  "new_worker (history_ops ref_bolt ''queries'' ''id'' example_backfill) example_backfill fresh_db = Inr example_worker"
  using fresh_db_facts(2) by (simp add: new_worker_def example_worker_def zero_progress_def)

lemma example_backfill_bounds: "bc_max_pending example_backfill \<le> 100000" "utf8_valid ''id''"
  by (simp add: example_backfill_def) (rule utf8_valid_ascii, auto simp: byte_def)

section \<open>Properties\<close>

text \<open>
  Claim C20. When the backfill worker reports its history complete, every instant from the sweep's start
  to the last completed time lies in a window for which the source gave a complete page, and every item
  of that page was recorded afterwards. This holds after any number of polls from a fresh history store,
  whatever the source answers, whatever fails, and however the workers are scheduled.
\<close>

theorem complete_history_is_covered:
  assumes "bolt_ok B" "bc_max_pending c \<le> 100000" "utf8_valid identity" "run_ok c S es"
    and "load_progress B key identity d = Inr (zero_progress identity)"
    and "new_worker (history_ops B key identity c) c d = Inr w0"
    and "run_history (history_ops B key identity c) (logged S) c retention es (w0, d, (k, [])) = Some (w, d', (k', l))"
    and "\<not> history_incomplete w"
    and "zt_at (pr_start (wk_progress w)) \<le> t" "t < zt_at (pr_last_completed (wk_progress w))"
  shows "\<exists>win pg l1 l2. zt_at (w_start win) \<le> t \<and> t < zt_at (w_end win) \<and>
           l = l1 @ Listed win pg # l2 \<and> pg_complete pg \<and> (\<forall>i \<in> set (pg_items pg). Recorded i \<in> set l2)"
proof -
  from run_history_inv [OF fresh_worker_inv [OF assms(1-3,5,6)] assms(4), of retention k] assms(7)
  have "worker_inv B key identity c l w d'" by fastforce
  from complete_covers [OF this assms(8)] assms(9,10) obtain win where
    t: "zt_at (w_start win) \<le> t" "t < zt_at (w_end win)" and cov: "covered_but l win {}"
    unfolding walked_def by blast
  from cov obtain l1 pg l2 where "l = l1 @ Listed win pg # l2" "pg_complete pg" "\<forall>i \<in> set (pg_items pg). Recorded i \<in> set l2"
    unfolding covered_but_def by blast
  with t show ?thesis by blast
qed

lemma complete_history_is_covered_witness:
  "\<exists>w d' l win pg. run_history (history_ops ref_bolt ''queries'' ''id'' example_backfill) (logged example_source)
       example_backfill 1000000000000 [(example_env, 3000000000)] (example_worker, fresh_db, ((), [])) =
     Some (w, d', ((), l)) \<and> \<not> history_incomplete w \<and>
     zt_at (w_start win) \<le> 1500000000 \<and> 1500000000 < zt_at (w_end win) \<and> Listed win pg \<in> set l"
proof -
  obtain w d' where r: "run_history (history_ops ref_bolt ''queries'' ''id'' example_backfill) (logged example_source)
       example_backfill 1000000000000 [(example_env, 3000000000)] (example_worker, fresh_db, ((), [])) =
     Some (w, d', ((), [Listed example_window \<lparr>pg_items = [], pg_complete = True\<rparr>]))" and i: "\<not> history_incomplete w"
    and t: "zt_at (pr_start (wk_progress w)) = 1000000000" "zt_at (pr_last_completed (wk_progress w)) = 2000000000"
    using example_run by blast
  have t': "zt_at (pr_start (wk_progress w)) \<le> 1500000000" "1500000000 < zt_at (pr_last_completed (wk_progress w))"
    using t by simp_all
  obtain win pg l1 l2 where "zt_at (w_start win) \<le> 1500000000" "1500000000 < zt_at (w_end win)"
    "[Listed example_window \<lparr>pg_items = [], pg_complete = True\<rparr>] = l1 @ Listed win pg # l2"
    using complete_history_is_covered [OF ref_bolt_ok example_backfill_bounds example_run_ok fresh_db_facts(2)
        example_new_worker r i t'] by blast
  then show ?thesis using r i
    by (intro exI [of _ w] exI [of _ d'] exI [of _ "l1 @ Listed win pg # l2"] exI [of _ win] exI [of _ pg]) simp
qed

text \<open>
  Claim C23. Every poll of the backfill worker ends: the loop of a cycle needs at most two passes for each
  page it may list, one for each record it may deliver, and two more, whatever the source answers.
\<close>

theorem backfill_polls_end:
  assumes "bolt_ok B" "bc_max_pending c \<le> 100000" "utf8_valid identity" "run_ok c S es"
    and "load_progress B key identity d = Inr (zero_progress identity)"
    and "new_worker (history_ops B key identity c) c d = Inr w0"
  shows "run_history (history_ops B key identity c) (logged S) c retention es (w0, d, (k, [])) \<noteq> None"
  using run_history_inv [OF fresh_worker_inv [OF assms(1-3,5,6)] assms(4)] by fastforce

lemma backfill_polls_end_witness:
  "run_history (history_ops ref_bolt ''queries'' ''id'' example_backfill) (logged example_source)
     example_backfill 1000000000000 [(example_env, 3000000000)] (example_worker, fresh_db, ((), [])) \<noteq> None"
  by (rule backfill_polls_end [OF ref_bolt_ok example_backfill_bounds example_run_ok fresh_db_facts(2) example_new_worker])

text \<open>
  Claim C24. A progress that Update stored is what the next Load returns, and the other pipeline's progress
  in the same bucket is not touched.
\<close>

theorem stored_progress_is_loaded:
  assumes "bolt_ok B" "update_progress B key source limit f d = (d', None)" "limit \<le> 100000"
    and "load_progress B key source d = Inr p" "f p = Inr p'" "progress_typed p'"
  shows "load_progress B key source d' = Inr p' \<and>
    (\<forall>other s. other \<noteq> key \<longrightarrow> load_progress B other s d' = load_progress B other s d)"
  by (rule update_progress_load [OF assms(1-3)]) (use assms(4-6) in auto)

lemma stored_progress_is_loaded_witness:
  "\<exists>d'. update_progress ref_bolt ''queries'' ''id'' 1000
      (\<lambda>p. Inr (plan_progress example_backfill 2000000000 p)) fresh_db = (d', None) \<and>
    load_progress ref_bolt ''queries'' ''id'' d' = Inr (plan_progress example_backfill 2000000000 (zero_progress ''id''))"
proof -
  let ?p = "plan_progress example_backfill 2000000000 (zero_progress ''id'')"
  have s: "small_progress ?p \<and> pr_source ?p = ''id''" by (rule example_small) simp
  have c: "key_ok ''queries''" "''id'' \<noteq> []" "1 \<le> bc_max_pending example_backfill" "bc_max_pending example_backfill \<le> 100000"
    by (simp_all add: key_ok_def example_backfill_def)
  obtain d' where u: "update_progress ref_bolt ''queries'' ''id'' 1000
      (\<lambda>p. Inr (plan_progress example_backfill 2000000000 p)) fresh_db = (d', None)"
    using small_update [OF fresh_db_facts(1) c fresh_db_facts(2), of "plan_progress example_backfill 2000000000"] s
    by (auto simp: example_backfill_def)
  have "progress_typed ?p" using s by (simp add: small_progress_def)
  from stored_progress_is_loaded [OF ref_bolt_ok u _ fresh_db_facts(2) refl this] u show ?thesis by auto
qed

end
