(* ===== verification/Go_Float.thy ===== *)
theory Go_Float
  imports Go_Json_Text
begin

text \<open>
  \<open>float64\<close> as the query statistics use it: thousandths of an integer, sums, comparisons and the number
  text of \<open>encoding/json\<close>. The arithmetic is the IEEE 754 one of the machine and is not rebuilt here: the
  operations are a record, and \<open>float_ok\<close> states what is relied on. \<open>fl_milli v\<close> is \<open>float64(v)/1000\<close>,
  which is finite and monotone for integers of up to 53 bits; \<open>fl_print\<close> writes the shortest decimal that
  reads back as the same value, at most 25 characters for a finite one, and \<open>fl_parse\<close> reads it.
  \<open>ref_float\<close> counts in thousandths and satisfies the laws.
\<close>

record 'f float_ops =
  fl_milli :: "int \<Rightarrow> 'f"
  fl_zero :: 'f
  fl_add :: "'f \<Rightarrow> 'f \<Rightarrow> 'f"
  fl_le :: "'f \<Rightarrow> 'f \<Rightarrow> bool"
  fl_finite :: "'f \<Rightarrow> bool"
  fl_print :: "'f \<Rightarrow> bytes"
  fl_parse :: "bytes \<Rightarrow> 'f option"

definition max_safe :: int where "max_safe = 9007199254740991"

definition fl_same :: "'f float_ops \<Rightarrow> 'f \<Rightarrow> 'f \<Rightarrow> bool" where
  "fl_same F x y \<longleftrightarrow> fl_le F x y \<and> fl_le F y x"

definition milli_law :: "'f float_ops \<Rightarrow> bool" where
  "milli_law F \<longleftrightarrow>
     (\<forall>n. 0 \<le> n \<longrightarrow> n \<le> max_safe \<longrightarrow> fl_finite F (fl_milli F n) \<and> fl_le F (fl_zero F) (fl_milli F n)) \<and>
     (\<forall>m n. 0 \<le> m \<longrightarrow> m \<le> n \<longrightarrow> n \<le> max_safe \<longrightarrow> fl_le F (fl_milli F m) (fl_milli F n))"

definition order_law :: "'f float_ops \<Rightarrow> bool" where
  "order_law F \<longleftrightarrow>
     (\<forall>x y z. fl_le F x y \<longrightarrow> fl_le F y z \<longrightarrow> fl_le F x z) \<and>
     fl_finite F (fl_zero F) \<and> fl_le F (fl_zero F) (fl_zero F)"

definition add_law :: "'f float_ops \<Rightarrow> bool" where
  "add_law F \<longleftrightarrow>
     (\<forall>x y. fl_finite F x \<longrightarrow> fl_finite F y \<longrightarrow> fl_le F (fl_zero F) x \<longrightarrow> fl_le F (fl_zero F) y \<longrightarrow>
        fl_le F (fl_zero F) (fl_add F x y))"

definition text_law :: "'f float_ops \<Rightarrow> bool" where
  "text_law F \<longleftrightarrow>
     (\<forall>x. fl_finite F x \<longrightarrow>
        fl_parse F (fl_print F x) = Some x \<and> num_text (fl_print F x) \<and> length (fl_print F x) \<le> 25)"

definition float_ok :: "'f float_ops \<Rightarrow> bool" where
  "float_ok F \<longleftrightarrow> milli_law F \<and> order_law F \<and> add_law F \<and> text_law F"

definition jfloat :: "'f float_ops \<Rightarrow> 'f \<Rightarrow> json" where
  "jfloat F x = JNum (fl_print F x)"

definition un_float :: "'f float_ops \<Rightarrow> json \<Rightarrow> 'f \<Rightarrow> 'f option" where
  "un_float F j cur = (case j of JNum n \<Rightarrow> fl_parse F n | JNull \<Rightarrow> Some cur | _ \<Rightarrow> None)"

lemma float_milli:
  assumes "float_ok F" "0 \<le> n" "n \<le> max_safe"
  shows "fl_finite F (fl_milli F n)" "fl_le F (fl_zero F) (fl_milli F n)"
  using assms by (simp_all add: float_ok_def milli_law_def)

lemma float_milli_mono:
  assumes "float_ok F" "0 \<le> m" "m \<le> n" "n \<le> max_safe"
  shows "fl_le F (fl_milli F m) (fl_milli F n)"
  using assms by (simp add: float_ok_def milli_law_def)

lemma float_trans:
  assumes "float_ok F" "fl_le F x y" "fl_le F y z"
  shows "fl_le F x z"
proof -
  have "\<forall>x y z. fl_le F x y \<longrightarrow> fl_le F y z \<longrightarrow> fl_le F x z"
    using assms(1) unfolding float_ok_def order_law_def by (elim conjE)
  then show ?thesis using assms(2,3) by blast
qed

lemma float_zero:
  assumes "float_ok F"
  shows "fl_finite F (fl_zero F)" "fl_le F (fl_zero F) (fl_zero F)"
proof -
  from assms have l: "order_law F" by (simp add: float_ok_def)
  show "fl_finite F (fl_zero F)" using l unfolding order_law_def by (elim conjE)
  show "fl_le F (fl_zero F) (fl_zero F)" using l unfolding order_law_def by (elim conjE)
qed

lemma float_add:
  assumes "float_ok F" "fl_finite F x" "fl_finite F y" "fl_le F (fl_zero F) x" "fl_le F (fl_zero F) y"
  shows "fl_le F (fl_zero F) (fl_add F x y)"
  using assms by (simp add: float_ok_def add_law_def)

lemma float_text:
  assumes "float_ok F" "fl_finite F x"
  shows "fl_parse F (fl_print F x) = Some x" "num_text (fl_print F x)" "length (fl_print F x) \<le> 25"
  using assms by (simp_all add: float_ok_def text_law_def)

lemma jfloat_facts:
  assumes "float_ok F" "fl_finite F x"
  shows "json_ok (jfloat F x)" "un_float F (jfloat F x) cur = Some x" "length (json_print (jfloat F x)) \<le> 25"
  using float_text [OF assms] by (simp_all add: jfloat_def un_float_def)

lemma jfloat_simps [simp]: "jfloat F x \<noteq> JNull" "json_depth (jfloat F x) = 0"
  by (simp_all add: jfloat_def)

section \<open>A reference instance\<close>

definition ref_float :: "int float_ops" where
  "ref_float =
     \<lparr>fl_milli = (\<lambda>n. n), fl_zero = 0, fl_add = (+), fl_le = (\<le>), fl_finite = is_int64,
      fl_print = show_int, fl_parse = parse_int64\<rparr>"

lemma length_show_int: "is_int64 i \<Longrightarrow> length (show_int i) \<le> 25"
  using length_jint [of i] by (simp add: jint_def)

lemma ref_float_ok: "float_ok ref_float"
proof -
  have m: "milli_law ref_float"
    by (simp add: milli_law_def ref_float_def is_int64_def min_int64_def max_int64_def max_safe_def)
  have o: "order_law ref_float" "add_law ref_float"
    by (auto simp: order_law_def add_law_def ref_float_def is_int64_def min_int64_def max_int64_def)
  have "parse_int64 (show_int i) = Some i" if "is_int64 i" for i
    using that by (intro parse_int64_show_int) (simp_all add: is_int64_def)
  then have "text_law ref_float" using length_show_int by (simp add: text_law_def ref_float_def)
  with m o show ?thesis by (simp add: float_ok_def)
qed

end
