(* ===== verification/Query_Types.thy ===== *)
theory Query_Types
  imports History_State Go_Float
begin

text \<open>
  The responses of the query interface (internal/queryclient/types.go, detail.go): decoding of the
  overview, the history list and one query's detail into checked values, and the request of a detail.
  A response is decoded as one JSON document with nothing but white space after it. \<open>query_event\<close> is
  the event of a query; its durations are thousandths of the milliseconds the server reports.
\<close>

definition err_schema :: go_error where
  "err_schema = Plain ''query response schema invalid''"

definition query_id_char :: "char \<Rightarrow> bool" where
  "query_id_char c \<longleftrightarrow> is_lower c \<or> is_upper c \<or> is_digit c \<or> c = CHR ''_'' \<or> c = CHR ''-''"

definition valid_query_id :: "bytes \<Rightarrow> bool" where
  "valid_query_id i \<longleftrightarrow> 1 \<le> length i \<and> length i \<le> 256 \<and> list_all query_id_char i"

text \<open>\<open>decode\<close>: a value of any type from the body.\<close>

definition decode_body :: "(json \<Rightarrow> 'a option) \<Rightarrow> bytes \<Rightarrow> go_error + 'a" where
  "decode_body un body =
     (case Option.bind (json_parse body) un of None \<Rightarrow> Inl err_schema | Some v \<Rightarrow> Inr v)"

section \<open>Overview\<close>

record query_sample =
  sm_at :: zoned
  sm_running :: int
  sm_queued :: int

definition zero_sample :: query_sample where
  "zero_sample = \<lparr>sm_at = zero_zoned, sm_running = 0, sm_queued = 0\<rparr>"

record raw_sample =
  rs_time :: zoned
  rs_metric :: "(int option \<times> int option) option"

definition un_metric :: "json \<Rightarrow> (int option \<times> int option) option" where
  "un_metric j =
     (case j of
        JObj ms \<Rightarrow>
          do { r \<leftarrow> un_field ''runningQueries'' (\<lambda>j cur. un_ptr un_int64 0 j) ms None;
               q \<leftarrow> un_field ''queuedQueries'' (\<lambda>j cur. un_ptr un_int64 0 j) ms None;
               Some (r, q) }
      | _ \<Rightarrow> None)"

definition un_raw_sample :: "json \<Rightarrow> raw_sample option" where
  "un_raw_sample j =
     (case j of
        JNull \<Rightarrow> Some \<lparr>rs_time = zero_zoned, rs_metric = None\<rparr>
      | JObj ms \<Rightarrow>
          do { t \<leftarrow> un_field ''time'' un_time ms zero_zoned;
               m \<leftarrow> un_field ''metric'' (\<lambda>j cur. un_ptr (\<lambda>j z. un_metric j) (None, None) j) ms None;
               Some \<lparr>rs_time = t, rs_metric = m\<rparr> }
      | _ \<Rightarrow> None)"

definition un_overview :: "json \<Rightarrow> raw_sample list option" where
  "un_overview j =
     (case j of
        JNull \<Rightarrow> Some []
      | JObj ms \<Rightarrow> map_option elems (un_field ''history'' (un_gslice un_raw_sample) ms None)
      | _ \<Rightarrow> None)"

fun newest_sample :: "go_time \<Rightarrow> raw_sample list \<Rightarrow> query_sample \<Rightarrow> query_sample option" where
  "newest_sample now [] best = Some best"
| "newest_sample now (s # ss) best =
     (if zoned_is_zero (rs_time s) \<or> zt_at (rs_time s) > now + 5000000000 then None
      else case rs_metric s of
        Some (Some running, Some queued) \<Rightarrow>
          if running < 0 \<or> queued < 0 then None
          else newest_sample now ss
                 (if zt_at (rs_time s) > zt_at (sm_at best)
                  then \<lparr>sm_at = rs_time s, sm_running = running, sm_queued = queued\<rparr> else best)
      | _ \<Rightarrow> None)"

definition decode_overview :: "bytes \<Rightarrow> go_time \<Rightarrow> go_duration \<Rightarrow> go_error + query_sample" where
  "decode_overview body now stale =
     bindE (decode_body un_overview body) (\<lambda>history.
       if history = [] then Inl err_schema
       else case newest_sample now history zero_sample of
         None \<Rightarrow> Inl err_schema
       | Some best \<Rightarrow>
           if time_sub now (zt_at (sm_at best)) > stale then Inl (Plain ''query sample stale'') else Inr best)"

section \<open>History\<close>

record history_row =
  hr_id :: bytes
  hr_state :: bytes
  hr_created :: zoned

definition un_row :: "json \<Rightarrow> history_row option" where
  "un_row j =
     (case j of
        JNull \<Rightarrow> Some \<lparr>hr_id = [], hr_state = [], hr_created = zero_zoned\<rparr>
      | JObj ms \<Rightarrow>
          do { i \<leftarrow> un_field ''queryId'' un_string ms [];
               s \<leftarrow> un_field ''state'' un_string ms [];
               c \<leftarrow> un_field ''createTime'' un_time ms zero_zoned;
               Some \<lparr>hr_id = i, hr_state = s, hr_created = c\<rparr> }
      | _ \<Rightarrow> None)"

fun rows_valid :: "history_row list \<Rightarrow> bytes set \<Rightarrow> bool" where
  "rows_valid [] seen = True"
| "rows_valid (r # rs) seen =
     (valid_query_id (hr_id r) \<and> hr_id r \<notin> seen \<and> hr_state r \<noteq> [] \<and> \<not> zoned_is_zero (hr_created r) \<and>
      rows_valid rs (insert (hr_id r) seen))"

definition decode_history :: "bytes \<Rightarrow> int \<Rightarrow> go_error + history_row list" where
  "decode_history body limit =
     bindE (decode_body (\<lambda>j. un_gslice un_row j None) body) (\<lambda>items.
       case items of
         None \<Rightarrow> Inl err_schema
       | Some rows \<Rightarrow>
           if int (length rows) > limit \<or> \<not> rows_valid rows {} then Inl err_schema else Inr rows)"

section \<open>Events\<close>

record 'f query_event =
  qe_source_instance :: bytes
  qe_query_id :: bytes
  qe_user :: bytes
  qe_source :: bytes
  qe_state :: bytes
  qe_submitted :: zoned
  qe_completed :: "zoned option"
  qe_observed :: zoned
  qe_elapsed :: "'f option"
  qe_queued :: "'f option"
  qe_execution :: "'f option"
  qe_cpu :: "'f option"

definition terminal_states :: "bytes list" where
  "terminal_states = [''finished'', ''failed'', ''canceled'']"

definition terminal :: "bytes \<Rightarrow> bool" where
  "terminal s \<longleftrightarrow> s = ''finished'' \<or> s = ''failed'' \<or> s = ''canceled''"

definition query_state_name :: "bytes \<Rightarrow> bytes" where
  "query_state_name s =
     (let u = to_upper s in
      if u = ''FINISHED'' then ''finished''
      else if u = ''FAILED'' then ''failed''
      else if u = ''CANCELED'' \<or> u = ''CANCELLED'' then ''canceled''
      else if u = ''QUEUED'' then ''queued''
      else if u = ''RUNNING'' then ''running''
      else if u = ''PLANNING'' then ''planning''
      else if u = ''STARTING'' then ''starting''
      else if u = ''FINISHING'' then ''finishing''
      else if u = ''WAITING_FOR_RESOURCES'' then ''waiting_for_resources''
      else if u = ''DISPATCHING'' then ''dispatching''
      else ''unknown'')"

definition text_valid :: "bytes \<Rightarrow> bool \<Rightarrow> bool" where
  "text_valid s required \<longleftrightarrow>
     (\<not> required \<or> s \<noteq> []) \<and> length s \<le> 1024 \<and> utf8_valid s \<and> \<not> contains_any s [chr 0, chr 13, chr 10]"

record wire_detail =
  wd_id :: bytes
  wd_state :: bytes
  wd_user :: bytes
  wd_source :: bytes
  wd_submitted :: zoned
  wd_completed :: "zoned option"
  wd_elapsed :: "int option"
  wd_queued :: "int option"
  wd_execution :: "int option"
  wd_cpu :: "int option"

abbreviation un_int_ptr :: "bytes \<Rightarrow> (bytes \<times> json) list \<Rightarrow> int option option" where
  "un_int_ptr name ms \<equiv> un_field name (\<lambda>j cur. un_ptr un_int64 0 j) ms None"

definition zero_wire :: wire_detail where
  "zero_wire =
     \<lparr>wd_id = [], wd_state = [], wd_user = [], wd_source = [], wd_submitted = zero_zoned, wd_completed = None,
      wd_elapsed = None, wd_queued = None, wd_execution = None, wd_cpu = None\<rparr>"

definition un_wire :: "json \<Rightarrow> wire_detail option" where
  "un_wire j =
     (case j of
        JNull \<Rightarrow> Some zero_wire
      | JObj ms \<Rightarrow>
          do { i \<leftarrow> un_field ''queryId'' un_string ms [];
               s \<leftarrow> un_field ''state'' un_string ms [];
               u \<leftarrow> un_field ''user'' un_string ms [];
               so \<leftarrow> un_field ''source'' un_string ms [];
               su \<leftarrow> un_field ''submissionTime'' un_time ms zero_zoned;
               co \<leftarrow> un_field ''completionTime'' (\<lambda>j cur. un_ptr un_time zero_zoned j) ms None;
               el \<leftarrow> un_int_ptr ''elapsedTime'' ms;
               qu \<leftarrow> un_int_ptr ''queuedTime'' ms;
               ex \<leftarrow> un_int_ptr ''executionTime'' ms;
               cp \<leftarrow> un_int_ptr ''cpuTime'' ms;
               Some \<lparr>wd_id = i, wd_state = s, wd_user = u, wd_source = so, wd_submitted = su,
                     wd_completed = co, wd_elapsed = el, wd_queued = qu, wd_execution = ex, wd_cpu = cp\<rparr> }
      | _ \<Rightarrow> None)"

text \<open>One duration: milliseconds within the safe integers become seconds.\<close>

definition seconds_of :: "'f float_ops \<Rightarrow> int option \<Rightarrow> go_error + 'f option" where
  "seconds_of F v =
     (case v of
        None \<Rightarrow> Inr None
      | Some n \<Rightarrow> if n < 0 \<or> n > max_safe then Inl err_schema else Inr (Some (fl_milli F n)))"

definition decode_detail ::
  "'f float_ops \<Rightarrow> bytes \<Rightarrow> bytes \<Rightarrow> bytes \<Rightarrow> zoned \<Rightarrow> go_time \<Rightarrow> go_error + 'f query_event" where
  "decode_detail F body i source observed now =
     bindE (decode_body un_wire body) (\<lambda>w.
       if wd_id w \<noteq> i \<or> \<not> valid_query_id i \<or> \<not> text_valid (wd_user w) True \<or> \<not> text_valid (wd_source w) False \<or>
          wd_state w = [] \<or> zoned_is_zero (wd_submitted w) \<or> zt_at (wd_submitted w) > now + 5000000000
       then Inl err_schema
       else if (case wd_completed w of None \<Rightarrow> False
                | Some c \<Rightarrow> zt_at c < zt_at (wd_submitted w) \<or> zt_at c > now + 5000000000)
       then Inl err_schema
       else
         let state = query_state_name (wd_state w) in
         if terminal state \<and> (wd_completed w = None \<or> wd_elapsed w = None) then Inl err_schema
         else bindE (seconds_of F (wd_elapsed w)) (\<lambda>el.
              bindE (seconds_of F (wd_queued w)) (\<lambda>qu.
              bindE (seconds_of F (wd_execution w)) (\<lambda>ex.
              bindE (seconds_of F (wd_cpu w)) (\<lambda>cp.
                Inr \<lparr>qe_source_instance = source, qe_query_id = i, qe_user = wd_user w,
                     qe_source = wd_source w, qe_state = state, qe_submitted = wd_submitted w,
                     qe_completed = wd_completed w, qe_observed = observed, qe_elapsed = el,
                     qe_queued = qu, qe_execution = ex, qe_cpu = cp\<rparr>)))))"

text \<open>
  \<open>FetchDetail\<close>: the observation time is read before the request, the time of validation after it.
  \<open>get\<close> is the client's request for a path, on a state of its own.
\<close>

definition detail_path :: "bytes \<Rightarrow> bytes" where
  "detail_path i = ''/ui/api/insights/history/queries/'' @ i"

definition fetch_detail ::
  "'f float_ops \<Rightarrow> (bytes \<Rightarrow> 'k \<Rightarrow> 'k \<times> (go_error + bytes)) \<Rightarrow> bytes \<Rightarrow> bytes \<Rightarrow> go_time \<Rightarrow> go_time \<Rightarrow> 'k
   \<Rightarrow> 'k \<times> (go_error + 'f query_event)" where
  "fetch_detail F get i source before after k =
     (if \<not> valid_query_id i then (k, Inl err_schema)
      else case get (detail_path i) k of
        (k', Inl e) \<Rightarrow> (k', Inl e)
      | (k', Inr body) \<Rightarrow> (k', decode_detail F body i source (utc_time before) after))"

end
