(* ===== verification/Query_State.thy ===== *)
theory Query_State
  imports Query_Types Go_Json_Raw Bolt Go_Sha256
begin

text \<open>
  The query state (internal/querystate): a bbolt database with the buckets \<open>meta\<close>, \<open>checkpoints\<close> and
  \<open>events\<close>. Statistics are one JSON document under \<open>meta\<close>; a checkpoint per query remembers its last
  content hash and whether it ended; changed queries are queued as events. Everything read back passes a
  strict decoder: exact member names, no duplicates, bounded depth and length. Go maps are lists of
  members in key order, which is how \<open>encoding/json\<close> writes them.
\<close>

definition err_query_full :: go_error where
  "err_query_full = Plain ''query state capacity reached''"

definition err_query_expired :: go_error where
  "err_query_expired = Plain ''query record predates retention floor''"

definition err_query_corrupt :: go_error where
  "err_query_corrupt = Plain ''query persistent state is corrupt''"

definition err_marshal :: go_error where "err_marshal = Plain ''json''"

definition query_meta :: bytes where "query_meta = ''meta''"
definition query_cps :: bytes where "query_cps = ''checkpoints''"
definition query_events :: bytes where "query_events = ''events''"

definition key_stats :: bytes where "key_stats = ''stats''"
definition key_version :: bytes where "key_version = ''version''"
definition key_source :: bytes where "key_source = ''source''"

definition max_query_bytes :: nat where "max_query_bytes = 65536"
definition max_small_bytes :: nat where "max_small_bytes = 2048"

text \<open>The bounds .01 to 300 seconds, in thousandths.\<close>

definition bound_millis :: "int list" where
  "bound_millis = [10, 50, 100, 500, 1000, 5000, 10000, 30000, 60000, 300000]"

record query_options =
  qo_source :: bytes
  qo_max_events :: int
  qo_max_checkpoints :: int
  qo_max_bytes :: int
  qo_retention :: go_duration
  qo_events :: bool

record 'f histogram =
  hg_count :: u64
  hg_sum :: 'f
  hg_buckets :: "u64 list option"

record 'f query_stats =
  qs_revision :: u64
  qs_completed :: "(bytes \<times> u64) list"
  qs_histograms :: "(bytes \<times> 'f histogram) list"
  qs_pending :: int
  qs_bytes :: int
  qs_floor :: zoned

record query_checkpoint =
  qc_final :: bool
  qc_hash :: bytes
  qc_fetched :: zoned
  qc_time :: zoned

record query_record =
  qr_sequence :: u64
  qr_key :: bytes
  qr_payload :: bytes

definition empty_stats :: "'f query_stats" where
  "empty_stats =
     \<lparr>qs_revision = 0, qs_completed = [], qs_histograms = [], qs_pending = 0, qs_bytes = 0, qs_floor = zero_zoned\<rparr>"

definition zero_histogram :: "'f float_ops \<Rightarrow> 'f histogram" where
  "zero_histogram F = \<lparr>hg_count = 0, hg_sum = fl_zero F, hg_buckets = None\<rparr>"

fun map_put :: "bytes \<Rightarrow> 'v \<Rightarrow> (bytes \<times> 'v) list \<Rightarrow> (bytes \<times> 'v) list" where
  "map_put k v [] = [(k, v)]"
| "map_put k v ((k', v') # es) =
     (if k = k' then (k, v) # es
      else if bytes_less k k' then (k, v) # (k', v') # es
      else (k', v') # map_put k v es)"

section \<open>JSON\<close>

definition histogram_json :: "'f float_ops \<Rightarrow> 'f histogram \<Rightarrow> json" where
  "histogram_json F h =
     JObj [(''Count'', juint (hg_count h)), (''Sum'', jfloat F (hg_sum h)), (''Buckets'', jslice juint (hg_buckets h))]"

definition stats_json :: "'f float_ops \<Rightarrow> 'f query_stats \<Rightarrow> json" where
  "stats_json F a =
     JObj [(''Revision'', juint (qs_revision a)),
       (''Completed'', JObj (map (\<lambda>(k, v). (k, juint v)) (qs_completed a))),
       (''Histograms'', JObj (map (\<lambda>(k, h). (k, histogram_json F h)) (qs_histograms a))),
       (''Pending'', jint (qs_pending a)), (''Bytes'', jint (qs_bytes a)), (''Floor'', jtime (qs_floor a))]"

definition marshal_stats :: "'f float_ops \<Rightarrow> 'f query_stats \<Rightarrow> bytes option" where
  "marshal_stats F a =
     (if zoned_json_ok (qs_floor a) \<and> list_all (\<lambda>(k, h). fl_finite F (hg_sum h)) (qs_histograms a)
      then Some (json_print (stats_json F a)) else None)"

definition query_cp_json :: "query_checkpoint \<Rightarrow> json" where
  "query_cp_json c =
     JObj [(''Final'', JBool (qc_final c)), (''Hash'', JArr (map (\<lambda>b. jint (int (byte b))) (qc_hash c))),
       (''LastFetched'', jtime (qc_fetched c)), (''Time'', jtime (qc_time c))]"

definition marshal_query_cp :: "query_checkpoint \<Rightarrow> bytes option" where
  "marshal_query_cp c =
     (if zoned_json_ok (qc_fetched c) \<and> zoned_json_ok (qc_time c) then Some (json_print (query_cp_json c)) else None)"

definition event_times :: "'f query_event \<Rightarrow> zoned list" where
  "event_times e =
     qe_submitted e # (case qe_completed e of None \<Rightarrow> [] | Some t \<Rightarrow> [t]) @ [qe_observed e]"

definition event_durations :: "'f query_event \<Rightarrow> 'f list" where
  "event_durations e =
     concat (map (\<lambda>x. case x of None \<Rightarrow> [] | Some v \<Rightarrow> [v]) [qe_elapsed e, qe_queued e, qe_execution e, qe_cpu e])"

definition query_event_json :: "'f float_ops \<Rightarrow> 'f query_event \<Rightarrow> json" where
  "query_event_json F e =
     JObj ([(''source_instance'', JStr (qe_source_instance e)), (''query_id'', JStr (qe_query_id e)),
            (''user'', JStr (qe_user e))] @
           str_member ''source'' (qe_source e) @
           [(''state'', JStr (qe_state e)), (''submitted_at'', jtime (qe_submitted e))] @
           opt_member ''completed_at'' jtime (qe_completed e) @
           [(''observed_at'', jtime (qe_observed e))] @
           opt_member ''elapsed_seconds'' (jfloat F) (qe_elapsed e) @
           opt_member ''queued_seconds'' (jfloat F) (qe_queued e) @
           opt_member ''execution_seconds'' (jfloat F) (qe_execution e) @
           opt_member ''cpu_seconds'' (jfloat F) (qe_cpu e))"

definition marshal_query_event :: "'f float_ops \<Rightarrow> 'f query_event \<Rightarrow> bytes option" where
  "marshal_query_event F e =
     (if list_all zoned_json_ok (event_times e) \<and> list_all (fl_finite F) (event_durations e)
      then Some (json_print (query_event_json F e)) else None)"

section \<open>The strict decoder\<close>

text \<open>\<open>scanJSON\<close>: the depth is at most 16 and no object names a member twice.\<close>

fun scan_json :: "json \<Rightarrow> nat \<Rightarrow> bool" where
  "scan_json (JObj ms) n \<longleftrightarrow> n \<le> 16 \<and> distinct (map fst ms) \<and> list_all (\<lambda>(k, v). scan_json v (Suc n)) ms"
| "scan_json (JArr xs) n \<longleftrightarrow> n \<le> 16 \<and> list_all (\<lambda>x. scan_json x (Suc n)) xs"
| "scan_json _ n \<longleftrightarrow> n \<le> 16"

text \<open>The members of the document, and their texts as \<open>json.RawMessage\<close>.\<close>

definition strict_object ::
  "bytes \<Rightarrow> nat \<Rightarrow> bytes list \<Rightarrow> bytes list \<Rightarrow> ((bytes \<times> json) list \<times> (bytes \<times> bytes) list) option" where
  "strict_object data limit required optional =
     (if data = [] \<or> length data > limit \<or> \<not> utf8_valid data then None
      else case json_parse data of
        Some (JObj ms) \<Rightarrow>
          if \<not> scan_json (JObj ms) 0 then None
          else if list_ex (\<lambda>name. map_of ms name = None \<or> map_of ms name = Some JNull) required then None
          else if list_ex (\<lambda>(k, v). k \<notin> set required \<and> k \<notin> set optional) ms then None
          else map_option (Pair ms) (raw_fields data)
      | _ \<Rightarrow> None)"

text \<open>A JSON object as a map: each member's value is decoded into a fresh element.\<close>

fun un_members :: "(json \<Rightarrow> 'v option) \<Rightarrow> (bytes \<times> json) list \<Rightarrow> (bytes \<times> 'v) list \<Rightarrow> (bytes \<times> 'v) list option" where
  "un_members f [] m = Some m"
| "un_members f ((k, j) # ms) m = (case f j of None \<Rightarrow> None | Some v \<Rightarrow> un_members f ms (map_put k v m))"

definition un_map :: "(json \<Rightarrow> 'v option) \<Rightarrow> json \<Rightarrow> (bytes \<times> 'v) list \<Rightarrow> (bytes \<times> 'v) list option" where
  "un_map f j cur = (case j of JNull \<Rightarrow> Some [] | JObj ms \<Rightarrow> un_members f ms cur | _ \<Rightarrow> None)"

definition un_histogram :: "'f float_ops \<Rightarrow> json \<Rightarrow> 'f histogram option" where
  "un_histogram F j =
     (case j of
        JNull \<Rightarrow> Some (zero_histogram F)
      | JObj ms \<Rightarrow>
          if \<not> list_all (\<lambda>(k, v). list_ex (equal_fold k) [''Count'', ''Sum'', ''Buckets'']) ms then None
          else do { c \<leftarrow> un_field ''Count'' un_uint64 ms 0;
                    s \<leftarrow> un_field ''Sum'' (un_float F) ms (fl_zero F);
                    b \<leftarrow> un_field ''Buckets'' (un_gslice (\<lambda>j. un_uint64 j 0)) ms None;
                    Some \<lparr>hg_count = c, hg_sum = s, hg_buckets = b\<rparr> }
      | _ \<Rightarrow> None)"

text \<open>A fixed array of 32 bytes: missing entries are zero, more than 32 are skipped.\<close>

definition un_hash32 :: "json \<Rightarrow> bytes \<Rightarrow> bytes option" where
  "un_hash32 j cur =
     (case j of
        JArr xs \<Rightarrow> map_option (\<lambda>bs. bs @ replicate (32 - length bs) (chr 0)) (un_list un_byte (take 32 xs))
      | JNull \<Rightarrow> Some cur
      | _ \<Rightarrow> None)"

definition zero_hash :: bytes where "zero_hash = replicate 32 (chr 0)"

section \<open>Validation\<close>

text \<open>\<open>validateEvent\<close>.\<close>

definition event_valid :: "'f float_ops \<Rightarrow> 'f query_event \<Rightarrow> bytes \<Rightarrow> bool" where
  "event_valid F e source \<longleftrightarrow>
     \<not> (qe_source_instance e \<noteq> source \<or> \<not> valid_query_id (qe_query_id e) \<or> \<not> text_valid (qe_user e) True \<or>
        \<not> text_valid (qe_source e) False \<or> qe_state e = [] \<or> query_state_name (qe_state e) \<noteq> qe_state e \<or>
        zoned_is_zero (qe_submitted e) \<or> zoned_is_zero (qe_observed e)) \<and>
     (case qe_completed e of
        None \<Rightarrow> True
      | Some c \<Rightarrow> \<not> zoned_is_zero c \<and> \<not> zt_at c < zt_at (qe_submitted e)) \<and>
     \<not> (terminal (qe_state e) \<and> (qe_completed e = None \<or> qe_elapsed e = None)) \<and>
     list_all (\<lambda>v. fl_finite F v \<and> fl_le F (fl_zero F) v \<and> fl_le F v (fl_milli F max_safe)) (event_durations e)"

definition event_required :: "bytes list" where
  "event_required = [''source_instance'', ''query_id'', ''user'', ''state'', ''submitted_at'', ''observed_at'']"

definition event_optional :: "bytes list" where
  "event_optional =
     [''source'', ''completed_at'', ''elapsed_seconds'', ''queued_seconds'', ''execution_seconds'', ''cpu_seconds'']"

abbreviation un_float_ptr :: "'f float_ops \<Rightarrow> bytes \<Rightarrow> (bytes \<times> json) list \<Rightarrow> 'f option option" where
  "un_float_ptr F name ms \<equiv> un_field name (\<lambda>j cur. un_ptr (un_float F) (fl_zero F) j) ms None"

definition un_query_event :: "'f float_ops \<Rightarrow> (bytes \<times> json) list \<Rightarrow> 'f query_event option" where
  "un_query_event F ms =
     do { si \<leftarrow> un_field ''source_instance'' un_string ms [];
          qi \<leftarrow> un_field ''query_id'' un_string ms [];
          us \<leftarrow> un_field ''user'' un_string ms [];
          so \<leftarrow> un_field ''source'' un_string ms [];
          st \<leftarrow> un_field ''state'' un_string ms [];
          su \<leftarrow> un_field ''submitted_at'' un_time ms zero_zoned;
          co \<leftarrow> un_field ''completed_at'' (\<lambda>j cur. un_ptr un_time zero_zoned j) ms None;
          ob \<leftarrow> un_field ''observed_at'' un_time ms zero_zoned;
          el \<leftarrow> un_float_ptr F ''elapsed_seconds'' ms;
          qu \<leftarrow> un_float_ptr F ''queued_seconds'' ms;
          ex \<leftarrow> un_float_ptr F ''execution_seconds'' ms;
          cp \<leftarrow> un_float_ptr F ''cpu_seconds'' ms;
          Some \<lparr>qe_source_instance = si, qe_query_id = qi, qe_user = us, qe_source = so, qe_state = st,
                qe_submitted = su, qe_completed = co, qe_observed = ob, qe_elapsed = el, qe_queued = qu,
                qe_execution = ex, qe_cpu = cp\<rparr> }"

definition decode_query_event :: "'f float_ops \<Rightarrow> bytes \<Rightarrow> bytes \<Rightarrow> 'f query_event option" where
  "decode_query_event F data source =
     (case strict_object data max_query_bytes event_required event_optional of
        None \<Rightarrow> None
      | Some (ms, _) \<Rightarrow>
          (case un_query_event F ms of
             None \<Rightarrow> None
           | Some e \<Rightarrow> if event_valid F e source then Some e else None))"

text \<open>\<open>eventHash\<close>: the observation time does not count.\<close>

definition event_hash :: "'f float_ops \<Rightarrow> 'f query_event \<Rightarrow> bytes option" where
  "event_hash F e = map_option sha256 (marshal_query_event F (e\<lparr>qe_observed := zero_zoned\<rparr>))"

definition un_query_cp :: "(bytes \<times> json) list \<Rightarrow> query_checkpoint option" where
  "un_query_cp ms =
     do { fi \<leftarrow> un_field ''Final'' un_bool ms False;
          ha \<leftarrow> un_field ''Hash'' un_hash32 ms zero_hash;
          la \<leftarrow> un_field ''LastFetched'' un_time ms zero_zoned;
          ti \<leftarrow> un_field ''Time'' un_time ms zero_zoned;
          Some \<lparr>qc_final = fi, qc_hash = ha, qc_fetched = la, qc_time = ti\<rparr> }"

definition decode_query_cp :: "bytes \<Rightarrow> bytes \<Rightarrow> query_checkpoint option" where
  "decode_query_cp key data =
     (case strict_object data max_small_bytes [''Final'', ''Hash'', ''LastFetched'', ''Time''] [] of
        None \<Rightarrow> None
      | Some (ms, _) \<Rightarrow>
          (case un_query_cp ms of
             None \<Rightarrow> None
           | Some c \<Rightarrow>
               if \<not> valid_query_id key \<or> zoned_is_zero (qc_fetched c) \<or> zoned_is_zero (qc_time c) \<or>
                  qc_hash c = zero_hash
               then None
               else (case map_of ms ''Hash'' of
                       Some (JArr xs) \<Rightarrow> if length xs = 32 \<and> JNull \<notin> set xs then Some c else None
                     | _ \<Rightarrow> None)))"

text \<open>\<open>strings.Cut(key, ":")\<close> with the names of the three histograms.\<close>

definition cut_colon :: "bytes \<Rightarrow> (bytes \<times> bytes) option" where
  "cut_colon s =
     (if CHR '':'' \<in> set s
      then Some (takeWhile (\<lambda>c. c \<noteq> CHR '':'') s, tl (dropWhile (\<lambda>c. c \<noteq> CHR '':'') s)) else None)"

definition histogram_names :: "bytes list" where
  "histogram_names = [''elapsed'', ''execution'', ''queued'']"

fun buckets_valid :: "u64 \<Rightarrow> u64 \<Rightarrow> u64 list \<Rightarrow> bool" where
  "buckets_valid count previous [] = True"
| "buckets_valid count previous (b # bs) \<longleftrightarrow> \<not> (b < previous \<or> b > count) \<and> buckets_valid count b bs"

definition completed_of :: "'f query_stats \<Rightarrow> bytes \<Rightarrow> u64" where
  "completed_of a state = (case map_of (qs_completed a) state of None \<Rightarrow> 0 | Some n \<Rightarrow> n)"

definition histogram_valid ::
  "'f float_ops \<Rightarrow> 'f query_stats \<Rightarrow> (bytes \<times> bytes) list \<Rightarrow> bytes \<Rightarrow> 'f histogram \<Rightarrow> bool" where
  "histogram_valid F a raw key h \<longleftrightarrow>
     (case cut_colon key of
        None \<Rightarrow> False
      | Some (name, state) \<Rightarrow>
          name \<in> set histogram_names \<and> terminal state \<and>
          (case map_of raw key of
             None \<Rightarrow> False
           | Some text \<Rightarrow>
               (case strict_object text max_small_bytes [''Count'', ''Sum'', ''Buckets''] [] of
                  None \<Rightarrow> False
                | Some (ms, _) \<Rightarrow>
                    length (elems (hg_buckets h)) = length bound_millis \<and>
                    fl_finite F (hg_sum h) \<and> fl_le F (fl_zero F) (hg_sum h) \<and>
                    (hg_count h = 0 \<longrightarrow> fl_same F (hg_sum h) (fl_zero F)) \<and>
                    hg_count h \<le> completed_of a state \<and>
                    (case map_of ms ''Buckets'' of Some (JArr xs) \<Rightarrow> JNull \<notin> set xs | _ \<Rightarrow> False) \<and>
                    buckets_valid (hg_count h) 0 (elems (hg_buckets h)))))"

definition un_stats :: "'f float_ops \<Rightarrow> (bytes \<times> json) list \<Rightarrow> 'f query_stats option" where
  "un_stats F ms =
     do { re \<leftarrow> un_field ''Revision'' un_uint64 ms 0;
          co \<leftarrow> un_field ''Completed'' (un_map (\<lambda>j. un_uint64 j 0)) ms [];
          hi \<leftarrow> un_field ''Histograms'' (un_map (un_histogram F)) ms [];
          pe \<leftarrow> un_field ''Pending'' un_int64 ms 0;
          by \<leftarrow> un_field ''Bytes'' un_int64 ms 0;
          fl \<leftarrow> un_field ''Floor'' un_time ms zero_zoned;
          Some \<lparr>qs_revision = re, qs_completed = co, qs_histograms = hi, qs_pending = pe, qs_bytes = by,
                qs_floor = fl\<rparr> }"

definition stats_required :: "bytes list" where
  "stats_required = [''Revision'', ''Completed'', ''Histograms'', ''Pending'', ''Bytes'', ''Floor'']"

definition decode_stats :: "'f float_ops \<Rightarrow> bytes \<Rightarrow> 'f query_stats option" where
  "decode_stats F data =
     (case strict_object data max_query_bytes stats_required [] of
        None \<Rightarrow> None
      | Some (ms, raw) \<Rightarrow>
          (case un_stats F ms of
             None \<Rightarrow> None
           | Some a \<Rightarrow>
               if qs_revision a = 0 \<or> qs_pending a < 0 \<or> qs_bytes a < 0 then None
               else if list_ex (\<lambda>(k, v). \<not> terminal k) (qs_completed a) then None
               else if (case map_of ms ''Completed'' of Some (JObj cs) \<Rightarrow> list_ex (\<lambda>(k, v). v = JNull) cs | _ \<Rightarrow> True)
               then None
               else (case Option.bind (map_of raw ''Histograms'') raw_fields of
                       None \<Rightarrow> None
                     | Some hs \<Rightarrow>
                         if list_all (\<lambda>(k, h). histogram_valid F a hs k h) (qs_histograms a) then Some a else None)))"

end
