(* ===== verification/Query_Store.thy ===== *)
theory Query_Store
  imports Query_State
begin

text \<open>
  The operations of the query state (internal/querystate/store.go, validation.go): opening with its
  read-only validation, pruning, recording an event, and the queue of pending events. \<open>now\<close> is the clock
  of the call, a panic cannot occur on buckets that \<open>validate\<close> found.
\<close>

definition read_stats :: "'f float_ops \<Rightarrow> 'd bolt \<Rightarrow> 'd \<Rightarrow> go_error + 'f query_stats" where
  "read_stats F B d =
     (if \<not> has_bucket B d query_meta then Inl err_query_corrupt
      else case bget B d query_meta key_stats of
        None \<Rightarrow> Inl err_query_corrupt
      | Some data \<Rightarrow> (case decode_stats F data of None \<Rightarrow> Inl err_query_corrupt | Some a \<Rightarrow> Inr a))"

definition save_stats :: "'f float_ops \<Rightarrow> 'd bolt \<Rightarrow> 'f query_stats \<Rightarrow> 'd \<Rightarrow> go_error + 'd" where
  "save_stats F B a d =
     (if qs_revision a = - 1 then Inl err_query_corrupt
      else case marshal_stats F (a\<lparr>qs_revision := qs_revision a + 1\<rparr>) of
        None \<Rightarrow> Inl err_marshal
      | Some data \<Rightarrow> putE B query_meta key_stats data d)"

section \<open>Pruning\<close>

definition prune_floor :: "query_options \<Rightarrow> zoned \<Rightarrow> 'f query_stats \<Rightarrow> zoned" where
  "prune_floor opts now a =
     (let floor = zoned_add now (- qo_retention opts)
      in if zt_at floor < zt_at (qs_floor a) then qs_floor a else floor)"

fun prune_loop :: "'d bolt \<Rightarrow> zoned \<Rightarrow> (bytes \<times> bytes) list \<Rightarrow> 'd \<Rightarrow> go_error + 'd" where
  "prune_loop B floor [] d = Inr d"
| "prune_loop B floor ((k, v) # es) d =
     (case decode_query_cp k v of
        None \<Rightarrow> Inl err_query_corrupt
      | Some c \<Rightarrow>
          if zt_at (qc_time c) < zt_at floor
          then bindE (deleteE B query_cps k d) (prune_loop B floor es)
          else prune_loop B floor es d)"

definition prune_tx :: "'f float_ops \<Rightarrow> 'd bolt \<Rightarrow> query_options \<Rightarrow> zoned \<Rightarrow> 'd \<Rightarrow> go_error + 'd \<times> unit" where
  "prune_tx F B opts now d =
     bindE (read_stats F B d) (\<lambda>a.
       let floor = prune_floor opts now a
       in bindE (prune_loop B floor (bentries B d query_cps) d) (\<lambda>d1.
          bindE (save_stats F B (a\<lparr>qs_floor := floor\<rparr>) d1) (\<lambda>d2. Inr (d2, ()))))"

definition prune :: "'f float_ops \<Rightarrow> 'd bolt \<Rightarrow> query_options \<Rightarrow> zoned \<Rightarrow> 'd \<Rightarrow> 'd \<times> go_error option" where
  "prune F B opts now d = (case update_tx B () (prune_tx F B opts now) d of (d', _, err) \<Rightarrow> (d', err))"

section \<open>Recording\<close>

definition fetch_final :: "'d bolt \<Rightarrow> bytes \<Rightarrow> 'd \<Rightarrow> bool \<times> zoned \<times> go_error option" where
  "fetch_final B i d =
     (case bget B d query_cps i of
        None \<Rightarrow> (False, zero_zoned, None)
      | Some v \<Rightarrow>
          (case decode_query_cp i v of
             None \<Rightarrow> (False, zero_zoned, Some err_query_corrupt)
           | Some c \<Rightarrow> (qc_final c, qc_fetched c, None)))"

text \<open>The time that decides about retention: the completion, or the submission before it.\<close>

definition event_when :: "'f query_event \<Rightarrow> zoned" where
  "event_when e = (case qe_completed e of None \<Rightarrow> qe_submitted e | Some c \<Rightarrow> c)"

definition observe :: "'f float_ops \<Rightarrow> 'f \<Rightarrow> u64 list \<Rightarrow> 'f histogram \<Rightarrow> 'f histogram" where
  "observe F v bs h =
     h\<lparr>hg_count := hg_count h + 1, hg_sum := fl_add F (hg_sum h) v,
       hg_buckets := Some (map (\<lambda>(bound, b). if fl_le F v (fl_milli F bound) then b + 1 else b) (zip bound_millis bs))\<rparr>"

fun add_observations ::
  "'f float_ops \<Rightarrow> bytes \<Rightarrow> (bytes \<times> 'f option) list \<Rightarrow> (bytes \<times> 'f histogram) list
   \<Rightarrow> go_error + (bytes \<times> 'f histogram) list" where
  "add_observations F state [] hs = Inr hs"
| "add_observations F state ((name, value) # vs) hs =
     (case value of
        None \<Rightarrow> add_observations F state vs hs
      | Some v \<Rightarrow>
          (let key = name @ CHR '':'' # state;
               h = (case map_of hs key of None \<Rightarrow> zero_histogram F | Some h \<Rightarrow> h);
               bs = (case hg_buckets h of None \<Rightarrow> replicate (length bound_millis) 0 | Some bs \<Rightarrow> bs)
           in if length bs \<noteq> length bound_millis then Inl (Plain ''query histogram corrupt'')
              else add_observations F state vs (map_put key (observe F v bs h) hs)))"

definition count_terminal :: "'f float_ops \<Rightarrow> 'f query_event \<Rightarrow> 'f query_stats \<Rightarrow> go_error + 'f query_stats" where
  "count_terminal F e a =
     (if \<not> terminal (qe_state e) then Inr a
      else if completed_of a (qe_state e) = - 1 then Inl err_query_corrupt
      else
        let a1 = a\<lparr>qs_completed := map_put (qe_state e) (completed_of a (qe_state e) + 1) (qs_completed a)\<rparr>
        in bindE (add_observations F (qe_state e)
                    [(''elapsed'', qe_elapsed e), (''execution'', qe_execution e), (''queued'', qe_queued e)]
                    (qs_histograms a1)) (\<lambda>hs. Inr (a1\<lparr>qs_histograms := hs\<rparr>)))"

text \<open>Queueing the payload, when the content changed and events are published.\<close>

definition queue_event ::
  "'d bolt \<Rightarrow> query_options \<Rightarrow> bool \<Rightarrow> bytes \<Rightarrow> 'f query_stats \<Rightarrow> 'd \<Rightarrow> go_error + 'd \<times> 'f query_stats" where
  "queue_event B opts changed payload a d =
     (if \<not> (changed \<and> qo_events opts) then Inr (d, a)
      else if qs_pending a \<ge> qo_max_events opts \<or> int (length payload) > wrap64 (qo_max_bytes opts - qs_bytes a)
      then Inl err_query_full
      else bindE (next_seqE B query_events d) (\<lambda>(d1, seq).
           bindE (putE B query_events (be64 seq) payload d1) (\<lambda>d2.
           Inr (d2, a\<lparr>qs_pending := wrap64 (qs_pending a + 1),
                      qs_bytes := wrap64 (qs_bytes a + int (length payload))\<rparr>))))"

definition record_tx ::
  "'f float_ops \<Rightarrow> 'd bolt \<Rightarrow> query_options \<Rightarrow> 'f query_event \<Rightarrow> bytes \<Rightarrow> bytes \<Rightarrow> 'd \<Rightarrow> go_error + 'd \<times> unit" where
  "record_tx F B opts e hash payload d =
     bindE (read_stats F B d) (\<lambda>a.
       if zt_at (event_when e) < zt_at (qs_floor a) then Inl err_query_expired
       else
         let v = bget B d query_cps (qe_query_id e)
         in bindE (case v of
                     None \<Rightarrow> Inr None
                   | Some data \<Rightarrow>
                       (case decode_query_cp (qe_query_id e) data of
                          None \<Rightarrow> Inl err_query_corrupt
                        | Some c \<Rightarrow> Inr (Some c))) (\<lambda>previous.
            if (case previous of None \<Rightarrow> False
                | Some c \<Rightarrow> qc_final c \<or> zt_at (qe_observed e) < zt_at (qc_fetched c))
            then Inr (d, ())
            else if previous = None \<and> int (key_n B d query_cps) \<ge> qo_max_checkpoints opts then Inl err_query_full
            else
              let changed = (case previous of None \<Rightarrow> True | Some c \<Rightarrow> qc_hash c \<noteq> hash)
              in bindE (queue_event B opts changed payload a d) (\<lambda>(d1, a1).
                 bindE (count_terminal F e a1) (\<lambda>a2.
                 case marshal_query_cp \<lparr>qc_final = terminal (qe_state e), qc_hash = hash,
                        qc_fetched = qe_observed e, qc_time = event_when e\<rparr> of
                   None \<Rightarrow> Inl err_marshal
                 | Some data \<Rightarrow>
                     bindE (putE B query_cps (qe_query_id e) data d1) (\<lambda>d2.
                     bindE (save_stats F B a2 d2) (\<lambda>d3. Inr (d3, ())))))))"

definition record_query ::
  "'f float_ops \<Rightarrow> 'd bolt \<Rightarrow> query_options \<Rightarrow> 'f query_event \<Rightarrow> 'd \<Rightarrow> 'd \<times> go_error option" where
  "record_query F B opts e d =
     (if \<not> event_valid F e (qo_source opts) then (d, Some (Plain ''query record invalid''))
      else case event_hash F e of
        None \<Rightarrow> (d, Some err_marshal)
      | Some hash \<Rightarrow>
          (case marshal_query_event F e of
             None \<Rightarrow> (d, Some (Plain ''query event exceeds bounds''))
           | Some payload \<Rightarrow>
               if length payload > max_query_bytes then (d, Some (Plain ''query event exceeds bounds''))
               else (case update_tx B () (record_tx F B opts e hash payload) d of (d', _, err) \<Rightarrow> (d', err))))"

section \<open>The queue\<close>

definition validate_query_record ::
  "'f float_ops \<Rightarrow> 'd bolt \<Rightarrow> query_options \<Rightarrow> bytes \<Rightarrow> bytes \<Rightarrow> zoned \<Rightarrow> 'd \<Rightarrow> go_error + 'f query_event" where
  "validate_query_record F B opts key payload floor d =
     (if length key \<noteq> 8 \<or> of_be64 key = 0 \<or> of_be64 key > bseq B d query_events then Inl err_query_corrupt
      else case decode_query_event F payload (qo_source opts) of
        None \<Rightarrow> Inl err_query_corrupt
      | Some e \<Rightarrow>
          if terminal (qe_state e) \<and> \<not> zt_at (event_when e) < zt_at floor then
            (case bget B d query_cps (qe_query_id e) of
               None \<Rightarrow> Inl err_query_corrupt
             | Some data \<Rightarrow>
                 (case decode_query_cp (qe_query_id e) data of
                    None \<Rightarrow> Inl err_query_corrupt
                  | Some c \<Rightarrow>
                      if \<not> qc_final c \<or> event_hash F e \<noteq> Some (qc_hash c) \<or>
                         zt_at (qc_time c) \<noteq> zt_at (event_when e) \<or> zt_at (qc_fetched c) \<noteq> zt_at (qe_observed e)
                      then Inl err_query_corrupt else Inr e))
          else Inr e)"

definition query_stats_of :: "'f float_ops \<Rightarrow> 'd bolt \<Rightarrow> 'd \<Rightarrow> go_error + 'f query_stats" where
  "query_stats_of F B d =
     bindE (read_stats F B d) (\<lambda>a.
       if qs_pending a \<noteq> int (key_n B d query_events) then Inl (Plain ''query pending count corrupt'') else Inr a)"

definition read_query_record ::
  "'f float_ops \<Rightarrow> 'd bolt \<Rightarrow> query_options \<Rightarrow> zoned \<Rightarrow> 'd \<Rightarrow> bytes \<times> bytes \<Rightarrow> go_error + query_record" where
  "read_query_record F B opts floor d kv =
     bindE (validate_query_record F B opts (fst kv) (snd kv) floor d) (\<lambda>e.
       Inr \<lparr>qr_sequence = of_be64 (fst kv), qr_key = sha256 (qe_source_instance e @ chr 0 # qe_query_id e),
            qr_payload = snd kv\<rparr>)"

definition query_records ::
  "'f float_ops \<Rightarrow> 'd bolt \<Rightarrow> query_options \<Rightarrow> int \<Rightarrow> 'd \<Rightarrow> go_error + query_record list" where
  "query_records F B opts limit d =
     (if limit < 1 \<or> limit > 100 then Inl (Plain ''query batch bound invalid'')
      else bindE (read_stats F B d) (\<lambda>a.
           mapE (read_query_record F B opts (qs_floor a) d) (take (nat limit) (bentries B d query_events))))"

definition ack_query_tx ::
  "'f float_ops \<Rightarrow> 'd bolt \<Rightarrow> query_options \<Rightarrow> u64 \<Rightarrow> 'd \<Rightarrow> go_error + 'd \<times> unit" where
  "ack_query_tx F B opts seq d =
     (case bget B d query_events (be64 seq) of
        None \<Rightarrow> Inr (d, ())
      | Some v \<Rightarrow>
          bindE (read_stats F B d) (\<lambda>a.
          bindE (validate_query_record F B opts (be64 seq) v (qs_floor a) d) (\<lambda>_.
            let a1 = a\<lparr>qs_pending := wrap64 (qs_pending a - 1), qs_bytes := wrap64 (qs_bytes a - int (length v))\<rparr>
            in if qs_pending a1 < 0 \<or> qs_bytes a1 < 0 then Inl (Plain ''query outbox accounting corrupt'')
               else bindE (deleteE B query_events (be64 seq) d) (\<lambda>d1.
                    bindE (save_stats F B a1 d1) (\<lambda>d2. Inr (d2, ()))))))"

definition ack_query :: "'f float_ops \<Rightarrow> 'd bolt \<Rightarrow> query_options \<Rightarrow> u64 \<Rightarrow> 'd \<Rightarrow> 'd \<times> go_error option" where
  "ack_query F B opts seq d = (case update_tx B () (ack_query_tx F B opts seq) d of (d', _, err) \<Rightarrow> (d', err))"

section \<open>Opening\<close>

fun validate_events ::
  "'f float_ops \<Rightarrow> 'd bolt \<Rightarrow> query_options \<Rightarrow> zoned \<Rightarrow> 'd \<Rightarrow> (bytes \<times> bytes) list \<Rightarrow> int \<Rightarrow> int
   \<Rightarrow> go_error + int \<times> int" where
  "validate_events F B opts floor d [] count used = Inr (count, used)"
| "validate_events F B opts floor d ((k, v) # es) count used =
     bindE (validate_query_record F B opts k v floor d) (\<lambda>_.
       if used > max_int64 - int (length v) \<or> count = max_int64 then Inl err_query_corrupt
       else validate_events F B opts floor d es (count + 1) (used + int (length v)))"

definition validate_query_db :: "'f float_ops \<Rightarrow> 'd bolt \<Rightarrow> query_options \<Rightarrow> 'd \<Rightarrow> go_error + unit" where
  "validate_query_db F B opts d =
     (if \<not> has_bucket B d query_meta \<or> \<not> has_bucket B d query_cps \<or> \<not> has_bucket B d query_events
      then Inl err_query_corrupt
      else if bget B d query_meta key_version \<noteq> Some ''1'' \<or>
              (case bget B d query_meta key_source of None \<Rightarrow> [] | Some s \<Rightarrow> s) \<noteq> qo_source opts
      then Inl (Plain ''query state schema or source mismatch'')
      else bindE (read_stats F B d) (\<lambda>a.
           bindE (forE (\<lambda>(k, v). if decode_query_cp k v = None then Inl err_query_corrupt else Inr ())
                    (bentries B d query_cps)) (\<lambda>_.
           bindE (validate_events F B opts (qs_floor a) d (bentries B d query_events) 0 0) (\<lambda>(count, used).
             if count \<noteq> qs_pending a \<or> used \<noteq> qs_bytes a then Inl err_query_corrupt else Inr ()))))"

definition create_query_db :: "'f float_ops \<Rightarrow> 'd bolt \<Rightarrow> query_options \<Rightarrow> 'd \<Rightarrow> go_error + 'd \<times> unit" where
  "create_query_db F B opts d =
     bindE (createE B query_meta d) (\<lambda>d1.
     bindE (createE B query_cps d1) (\<lambda>d2.
     bindE (createE B query_events d2) (\<lambda>d3.
     bindE (putE B query_meta key_version ''1'' d3) (\<lambda>d4.
     bindE (putE B query_meta key_source (qo_source opts) d4) (\<lambda>d5.
     bindE (save_stats F B empty_stats d5) (\<lambda>d6. Inr (d6, ())))))))"

definition query_options_bad :: "query_options \<Rightarrow> bool" where
  "query_options_bad opts \<longleftrightarrow>
     qo_source opts = [] \<or> qo_max_bytes opts < 1 \<or> qo_max_events opts < 1 \<or> qo_max_checkpoints opts < 1 \<or>
     qo_retention opts \<le> 0"

text \<open>
  \<open>Open\<close> on the opened database; \<open>fresh\<close> is whether the file did not exist. The options are checked
  first, an existing database is validated before anything is written, then both are pruned.
\<close>

definition open_query ::
  "'f float_ops \<Rightarrow> 'd bolt \<Rightarrow> query_options \<Rightarrow> bool \<Rightarrow> zoned \<Rightarrow> 'd \<Rightarrow> 'd \<times> go_error option" where
  "open_query F B opts fresh now d =
     (if query_options_bad opts then (d, Some (Plain ''query state options invalid''))
      else
        let (d1, err) =
          (if fresh then (case update_tx B () (create_query_db F B opts) d of (d', _, e) \<Rightarrow> (d', e))
           else (d, case validate_query_db F B opts d of Inl e \<Rightarrow> Some e | Inr _ \<Rightarrow> None))
        in case err of
             Some e \<Rightarrow> (d1, Some e)
           | None \<Rightarrow> prune F B opts now d1)"

end
