(* ===== verification/Query_Codec.thy ===== *)
theory Query_Codec
  imports Query_Store History_Props Log_Event
begin

text \<open>
  The strict decoder reads back what the program writes: a well-formed event, checkpoint or statistics
  value is decoded from its own text to the same value, and the text fits the decoder's limits.
\<close>

section \<open>The strict decoder on printed objects\<close>

lemma map_of_json_texts: "map_of (map (\<lambda>m. (fst m, json_print (snd m))) ms) k = map_option json_print (map_of ms k)"
  by (induction ms) auto

lemma strict_object_print:
  assumes "json_ok (JObj ms)" "json_depth (JObj ms) \<le> 16" "scan_json (JObj ms) 0"
    and "length (json_print (JObj ms)) \<le> limit"
    and "\<forall>name \<in> set required. map_of ms name \<noteq> None \<and> map_of ms name \<noteq> Some JNull"
    and "\<forall>m \<in> set ms. fst m \<in> set required \<or> fst m \<in> set optional"
  shows "strict_object (json_print (JObj ms)) limit required optional =
    Some (ms, map (\<lambda>m. (fst m, json_print (snd m))) ms)"
proof -
  have d: "json_depth (JObj ms) \<le> max_nesting" using assms(2) by (simp add: max_nesting_def)
  have "json_depth (snd m) \<le> max_nesting" if "m \<in> set ms" for m
    using that d foldr_max_le [of "json_depth (snd m)" "map (\<lambda>(k, v). json_depth v) ms" 0]
    by (force simp: case_prod_beta)
  then have raw: "raw_fields (json_print (JObj ms)) = Some (map (\<lambda>m. (fst m, json_print (snd m))) ms)"
    using assms(1) by (intro raw_fields_print) (auto simp: list_all_iff)
  have "list_ex (\<lambda>name. map_of ms name = None \<or> map_of ms name = Some JNull) required = False"
    "list_ex (\<lambda>(k, v). k \<notin> set required \<and> k \<notin> set optional) ms = False"
    using assms(5,6) by (auto simp: list_ex_iff)
  moreover have "json_print (JObj ms) \<noteq> []" by simp
  ultimately show ?thesis
    using assms(1,3,4) json_parse_print [OF assms(1) d] utf8_valid_json_print [OF assms(1)] raw
    unfolding strict_object_def by (simp del: json_print.simps scan_json.simps json_ok.simps)
qed

section \<open>Maps\<close>

abbreviation keys_sorted :: "(bytes \<times> 'v) list \<Rightarrow> bool" where
  "keys_sorted m \<equiv> sorted_wrt bytes_less (map fst m)"

lemma map_put_keys: "fst ` set (map_put k v m) = insert k (fst ` set m)"
  by (induction m rule: map_put.induct) auto

lemma map_put_sorted: "keys_sorted m \<Longrightarrow> keys_sorted (map_put k v m)"
proof (induction k v m rule: map_put.induct)
  case (2 k v k' v' es)
  have "bytes_less k' x" if "x \<in> fst ` set (map_put k v es)" "\<not> bytes_less k k'" "k \<noteq> k'" for x
    using that 2(2) bytes_less_linear [of k k'] by (auto simp: map_put_keys)
  then show ?case using 2 bytes_less_trans [of k k'] by (auto simp: image_iff)
qed simp

lemma keys_sorted_distinct: "keys_sorted m \<Longrightarrow> distinct (map fst m)"
  by (induction m) auto

lemma map_of_map_put: "keys_sorted m \<Longrightarrow> map_of (map_put k v m) = (map_of m)(k \<mapsto> v)"
proof (induction k v m rule: map_put.induct)
  case (2 k v k' v' es)
  have "map_of es k = None" if "bytes_less k k'"
    using that 2(2) bytes_less_trans by (fastforce simp: map_of_eq_None_iff)
  with 2 show ?case by (auto simp: fun_eq_iff)
qed auto

lemma map_put_last: "(\<And>x. x \<in> fst ` set m \<Longrightarrow> bytes_less x k) \<Longrightarrow> map_put k v m = m @ [(k, v)]"
proof (induction m)
  case (Cons e m)
  obtain k' v' where e: "e = (k', v')" by (cases e)
  then have "bytes_less k' k" using Cons.prems by simp
  then have "k \<noteq> k'" "\<not> bytes_less k k'" using bytes_less_asym by auto
  with Cons e show ?case by auto
qed simp

lemma un_members_print:
  assumes "keys_sorted (acc @ m)" "\<And>k v. (k, v) \<in> set m \<Longrightarrow> f (enc v) = Some v"
  shows "un_members f (map (\<lambda>(k, v). (k, enc v)) m) acc = Some (acc @ m)"
  using assms
proof (induction m arbitrary: acc)
  case (Cons e m)
  obtain k v where e: "e = (k, v)" by (cases e)
  have "map_put k v acc = acc @ [(k, v)]"
    using Cons.prems(1) e by (intro map_put_last) (auto simp: sorted_wrt_append)
  moreover have "un_members f (map (\<lambda>(k, v). (k, enc v)) m) (acc @ [(k, v)]) = Some ((acc @ [(k, v)]) @ m)"
    using Cons.prems e by (intro Cons.IH) auto
  moreover have "f (enc v) = Some v" using Cons.prems(2) [of k v] e by simp
  ultimately show ?case using e by simp
qed simp

lemma un_map_print:
  assumes "keys_sorted m" "\<And>k v. (k, v) \<in> set m \<Longrightarrow> f (enc v) = Some v"
  shows "un_map f (JObj (map (\<lambda>(k, v). (k, enc v)) m)) [] = Some m"
  using un_members_print [of "[]" m f enc] assms by (simp add: un_map_def)

section \<open>Events\<close>

lemma query_event_names [simp]:
  "plain_name ''source_instance''" "plain_name ''query_id''" "plain_name ''user''" "plain_name ''source''"
  "plain_name ''state''" "plain_name ''submitted_at''" "plain_name ''completed_at''" "plain_name ''observed_at''"
  "plain_name ''elapsed_seconds''" "plain_name ''queued_seconds''" "plain_name ''execution_seconds''"
  "plain_name ''cpu_seconds''"
  by (simp_all add: plain_name_def is_lower_def is_digit_def byte_def)

definition time_typed :: "zoned \<Rightarrow> bool" where
  "time_typed z \<longleftrightarrow> zoned_json_ok z \<and> zt_off z mod 60 = 0"

definition event_typed :: "'f float_ops \<Rightarrow> 'f query_event \<Rightarrow> bool" where
  "event_typed F e \<longleftrightarrow>
     utf8_valid (qe_source_instance e) \<and> utf8_valid (qe_query_id e) \<and> utf8_valid (qe_user e) \<and>
     utf8_valid (qe_source e) \<and> utf8_valid (qe_state e) \<and> list_all time_typed (event_times e) \<and>
     list_all (fl_finite F) (event_durations e)"

lemma un_field_opt_ptr [json_rt]:
  assumes "\<And>y. x = Some y \<Longrightarrow> enc y \<noteq> JNull \<and> f (enc y) z = Some y"
  shows "un_field name (\<lambda>j cur. un_ptr f z j) (opt_member name enc x) None = Some x"
  using assms by (cases x) (simp_all add: opt_member_def un_ptr_not_null)

lemma un_query_event_json:
  assumes F: "float_ok F" and t: "event_typed F e"
  shows "\<exists>ms. query_event_json F e = JObj ms \<and> un_query_event F ms = Some e"
proof -
  have z: "un_time (jtime y) c = Some y" if "y \<in> set (event_times e)" for y c
    using t that by (simp add: event_typed_def list_all_iff time_typed_def)
  have d: "un_float F (jfloat F y) c = Some y" if "y \<in> set (event_durations e)" for y c
    using t that jfloat_facts(2) [OF F] by (simp add: event_typed_def list_all_iff)
  have z': "un_time (jtime (qe_submitted e)) c = Some (qe_submitted e)"
      "un_time (jtime (qe_observed e)) c = Some (qe_observed e)" for c
    by (rule z; simp add: event_times_def)+
  have zc: "qe_completed e = Some y \<Longrightarrow> un_time (jtime y) c = Some y" for y c
    by (rule z) (simp add: event_times_def)
  have dd: "qe_elapsed e = Some y \<Longrightarrow> un_float F (jfloat F y) c = Some y"
    "qe_queued e = Some y \<Longrightarrow> un_float F (jfloat F y) c = Some y"
    "qe_execution e = Some y \<Longrightarrow> un_float F (jfloat F y) c = Some y"
    "qe_cpu e = Some y \<Longrightarrow> un_float F (jfloat F y) c = Some y" for y c
    by (rule d; simp add: event_durations_def)+
  show ?thesis
    unfolding query_event_json_def json.inject
    by (intro exI conjI, rule refl)
      (simp add: un_query_event_def un_field_append json_rt z' zc dd
        del: un_field.simps(2))
qed

lemma fst_member: "x \<in> fst ` set (opt_member n f v) \<Longrightarrow> x = n" "x \<in> fst ` set (str_member n s) \<Longrightarrow> x = n"
  by (auto simp: opt_member_def str_member_def split: option.splits if_splits)

lemma distinct_member [simp]: "distinct (map fst (opt_member n f v))" "distinct (map fst (str_member n s))"
  by (simp_all add: opt_member_def str_member_def split: option.split)

lemma scan_leaf: "json_depth j = 0 \<Longrightarrow> scan_json j n \<longleftrightarrow> n \<le> 16"
  by (cases j) simp_all

lemma member_leaf:
  "(\<And>x. json_depth (f x) = 0) \<Longrightarrow> m \<in> set (opt_member n f v) \<Longrightarrow> json_depth (snd m) = 0"
  "m \<in> set (str_member n s) \<Longrightarrow> json_depth (snd m) = 0"
  by (auto simp: opt_member_def str_member_def split: option.splits if_splits)

abbreviation event_members :: "'f float_ops \<Rightarrow> 'f query_event \<Rightarrow> (bytes \<times> json) list" where
  "event_members F e \<equiv> (case query_event_json F e of JObj ms \<Rightarrow> ms | _ \<Rightarrow> [])"

lemma event_members_json: "\<exists>ms. query_event_json F e = JObj ms"
  by (simp add: query_event_json_def)

lemma event_members_names:
  "distinct (map fst (event_members F e))"
  "m \<in> set (event_members F e) \<Longrightarrow> fst m \<in> set event_required \<or> fst m \<in> set event_optional"
  "m \<in> set (event_members F e) \<Longrightarrow> json_depth (snd m) = 0"
proof -
  show "distinct (map fst (event_members F e))"
    by (auto simp: query_event_json_def dest!: fst_member)
  show "m \<in> set (event_members F e) \<Longrightarrow> fst m \<in> set event_required \<or> fst m \<in> set event_optional"
    by (auto simp: query_event_json_def event_required_def event_optional_def opt_member_def str_member_def
        split: option.splits if_splits)
  show "m \<in> set (event_members F e) \<Longrightarrow> json_depth (snd m) = 0"
    by (auto simp: query_event_json_def opt_member_def dest: member_leaf split: option.splits)
qed

lemma event_members_ok:
  assumes F: "float_ok F" and t: "event_typed F e"
  shows "json_ok (query_event_json F e)"
proof -
  have d: "json_ok (jfloat F y)" if "y \<in> set (event_durations e)" for y
    using t that jfloat_facts(1) [OF F] by (simp add: event_typed_def list_all_iff)
  have dd: "qe_elapsed e = Some y \<Longrightarrow> json_ok (jfloat F y)" "qe_queued e = Some y \<Longrightarrow> json_ok (jfloat F y)"
    "qe_execution e = Some y \<Longrightarrow> json_ok (jfloat F y)" "qe_cpu e = Some y \<Longrightarrow> json_ok (jfloat F y)" for y
    by (rule d; simp add: event_durations_def)+
  have n: "plain_name s \<Longrightarrow> utf8_valid s" for s
    by (rule utf8_valid_ascii) (auto simp: plain_name_def list_all_iff is_lower_def is_digit_def byte_def)
  show ?thesis
    using t dd unfolding query_event_json_def
    by (auto simp: event_typed_def n opt_member_def str_member_def split: option.splits)
qed

lemma decode_query_event_print:
  assumes F: "float_ok F" and t: "event_typed F e" and v: "event_valid F e source"
    and l: "length (json_print (query_event_json F e)) \<le> max_query_bytes"
  shows "decode_query_event F (json_print (query_event_json F e)) source = Some e"
proof -
  obtain ms where j: "query_event_json F e = JObj ms" using event_members_json by blast
  then have ms: "event_members F e = ms" by simp
  note names = event_members_names [where F = F and e = e, unfolded ms]
  have dep: "json_depth (JObj ms) \<le> 16"
  proof -
    have "foldr max (map (\<lambda>(k, v). json_depth v) ms) 0 \<le> 0"
      unfolding foldr_max_le_iff using names(3) by (auto simp: case_prod_beta)
    then show ?thesis by simp
  qed
  have sc: "scan_json (JObj ms) 0"
    using names(1,3) by (auto simp: list_all_iff scan_leaf case_prod_beta)
  have req: "\<forall>name \<in> set event_required. map_of ms name \<noteq> None \<and> map_of ms name \<noteq> Some JNull"
    unfolding ms [symmetric]
    by (simp add: event_required_def query_event_json_def map_add_def opt_member_def str_member_def split: option.split)
  have "strict_object (json_print (JObj ms)) max_query_bytes event_required event_optional =
      Some (ms, map (\<lambda>m. (fst m, json_print (snd m))) ms)"
    using event_members_ok [OF F t] l names(2) unfolding j
    by (intro strict_object_print dep sc req) auto
  moreover have "un_query_event F ms = Some e"
    using un_query_event_json [OF F t] j by auto
  ultimately show ?thesis using v unfolding decode_query_event_def j by simp
qed

section \<open>Checkpoints\<close>

lemma query_names:
  "fold_name ''Final'' = ''FINAL''" "fold_name ''LastFetched'' = ''LASTFETCHED''" "fold_name ''Time'' = ''TIME''"
  "fold_name ''Revision'' = ''REVISION''" "fold_name ''Completed'' = ''COMPLETED''"
  "fold_name ''Histograms'' = ''HISTOGRAMS''" "fold_name ''Bytes'' = ''BYTES''" "fold_name ''Floor'' = ''FLOOR''"
  "fold_name ''Count'' = ''COUNT''" "fold_name ''Sum'' = ''SUM''" "fold_name ''Buckets'' = ''BUCKETS''"
  by (simp_all add: fold_name_ascii is_lower_def byte_def chr_def char_of_def bit_0)

lemma query_names_valid:
  "utf8_valid ''Final''" "utf8_valid ''LastFetched''" "utf8_valid ''Time''" "utf8_valid ''Revision''"
  "utf8_valid ''Completed''" "utf8_valid ''Histograms''" "utf8_valid ''Bytes''" "utf8_valid ''Floor''"
  "utf8_valid ''Count''" "utf8_valid ''Sum''" "utf8_valid ''Buckets''"
  by (rule utf8_valid_ascii, auto simp: byte_def)+

definition query_cp_ok :: "bytes \<Rightarrow> query_checkpoint \<Rightarrow> bool" where
  "query_cp_ok i c \<longleftrightarrow>
     valid_query_id i \<and> time_typed (qc_fetched c) \<and> time_typed (qc_time c) \<and> \<not> zoned_is_zero (qc_fetched c) \<and>
     \<not> zoned_is_zero (qc_time c) \<and> length (qc_hash c) = 32 \<and> qc_hash c \<noteq> zero_hash"

lemma un_byte_jint [simp]: "un_byte (jint (int (byte b))) = Some b"
proof -
  have u: "unat (of_nat (byte b) :: u64) = byte b" using byte_less [of b] by (simp add: unat_of_nat del: byte_less)
  have "show_int (int (byte b)) = show_nat (unat (of_nat (byte b) :: u64))" unfolding u by (simp add: show_int_def)
  then have "parse_uint64 (show_int (int (byte b))) = Some (of_nat (byte b))" by (simp only: parse_uint64_show)
  then show ?thesis using u by (simp add: un_byte_def jint_def)
qed

lemma un_hash32_print: "length h = 32 \<Longrightarrow> un_hash32 (JArr (map (\<lambda>b. jint (int (byte b))) h)) cur = Some h"
  using un_list_map [of h un_byte "\<lambda>b. jint (int (byte b))"] by (simp add: un_hash32_def)

lemma time_bound: "zoned_json_ok z \<Longrightarrow> print_bound (jtime z) \<le> 242"
  using length_format_zoned [of z] by (simp add: jtime_def)

lemma checkpoint_size:
  assumes "query_cp_ok i c"
  shows "length (json_print (query_cp_json c)) \<le> max_small_bytes"
proof -
  have b: "print_bound (jint (int (byte b))) \<le> 3" for b
  proof -
    have "byte b < 10 ^ 3" using byte_less [of b] by (simp del: byte_less)
    then show ?thesis using length_show_nat_le [of "byte b" 3] by (simp add: jint_def show_int_def)
  qed
  have "Suc (print_bound (jint (int (byte b)))) \<le> 4" for b using b [of b] by linarith
  then have "sum_list (map (\<lambda>b. Suc (print_bound (jint (int (byte b))))) (qc_hash c)) \<le> sum_list (map (\<lambda>_. 4) (qc_hash c))"
    by (intro sum_list_mono)
  then have h: "sum_list (map (\<lambda>b. Suc (print_bound (jint (int (byte b))))) (qc_hash c)) \<le> 128"
    using assms by (simp add: query_cp_ok_def sum_list_triv)
  have "print_bound (query_cp_json c) \<le> 2048"
    using h time_bound [of "qc_fetched c"] time_bound [of "qc_time c"] assms
    by (simp add: query_cp_json_def query_cp_ok_def time_typed_def comp_def)
  then show ?thesis using length_json_print [of "query_cp_json c"] by (simp add: max_small_bytes_def)
qed

lemma checkpoint_marshal: "query_cp_ok i c \<Longrightarrow> marshal_query_cp c = Some (json_print (query_cp_json c))"
  by (simp add: marshal_query_cp_def query_cp_ok_def time_typed_def)

lemma decode_query_cp_print:
  assumes "query_cp_ok i c"
  shows "decode_query_cp i (json_print (query_cp_json c)) = Some c"
proof -
  let ?h = "JArr (map (\<lambda>b. jint (int (byte b))) (qc_hash c))"
  let ?ms = "[(''Final'', JBool (qc_final c)), (''Hash'', ?h), (''LastFetched'', jtime (qc_fetched c)),
    (''Time'', jtime (qc_time c))]"
  have j: "query_cp_json c = JObj ?ms" by (simp add: query_cp_json_def)
  have d: "json_depth ?h \<le> 1"
  proof -
    have "foldr max (map json_depth (map (\<lambda>b. jint (int (byte b))) (qc_hash c))) 0 \<le> 0"
      unfolding foldr_max_le_iff by auto
    then show ?thesis by simp
  qed
  have ok: "json_ok (JObj ?ms)" by (auto simp: list_all_iff query_names_valid history_names_valid)
  have "strict_object (json_print (JObj ?ms)) max_small_bytes [''Final'', ''Hash'', ''LastFetched'', ''Time''] [] =
      Some (?ms, map (\<lambda>m. (fst m, json_print (snd m))) ?ms)"
    using checkpoint_size [OF assms] ok d unfolding j
    by (intro strict_object_print) (auto simp: list_all_iff scan_leaf)
  moreover have "un_query_cp ?ms = Some c"
    using assms un_hash32_print
    by (simp add: un_query_cp_def query_cp_ok_def time_typed_def equal_fold_def query_names history_names)
  moreover have "JNull \<noteq> jint n" for n by (simp add: jint_def)
  ultimately show ?thesis using assms unfolding decode_query_cp_def j
    by (auto simp: query_cp_ok_def simp del: json_print.simps)
qed

section \<open>Statistics\<close>

definition histogram_ok :: "'f float_ops \<Rightarrow> 'f query_stats \<Rightarrow> bytes \<Rightarrow> 'f histogram \<Rightarrow> bool" where
  "histogram_ok F a key h \<longleftrightarrow>
     (\<exists>name state. name \<in> set histogram_names \<and> terminal state \<and> key = name @ CHR '':'' # state \<and>
        hg_count h \<le> completed_of a state) \<and>
     (\<exists>bs. hg_buckets h = Some bs \<and> length bs = length bound_millis \<and> buckets_valid (hg_count h) 0 bs) \<and>
     fl_finite F (hg_sum h) \<and> fl_le F (fl_zero F) (hg_sum h) \<and>
     (hg_count h = 0 \<longrightarrow> fl_same F (hg_sum h) (fl_zero F))"

definition stats_ok :: "'f float_ops \<Rightarrow> 'f query_stats \<Rightarrow> bool" where
  "stats_ok F a \<longleftrightarrow>
     qs_revision a \<noteq> 0 \<and> 0 \<le> qs_pending a \<and> qs_pending a \<le> max_int64 \<and> 0 \<le> qs_bytes a \<and> qs_bytes a \<le> max_int64 \<and>
     keys_sorted (qs_completed a) \<and> (\<forall>m \<in> set (qs_completed a). terminal (fst m)) \<and>
     keys_sorted (qs_histograms a) \<and> (\<forall>m \<in> set (qs_histograms a). histogram_ok F a (fst m) (snd m)) \<and>
     time_typed (qs_floor a)"

lemma terminal_facts:
  assumes "terminal s"
  shows "utf8_valid s" "CHR '':'' \<notin> set s" "length s \<le> 8"
  using assms by (auto simp: terminal_def byte_def intro: utf8_valid_ascii)

lemma histogram_name_facts:
  assumes "n \<in> set histogram_names"
  shows "utf8_valid n" "CHR '':'' \<notin> set n" "length n \<le> 9"
  using assms by (auto simp: histogram_names_def byte_def intro: utf8_valid_ascii)

lemma cut_colon_key: "CHR '':'' \<notin> set n \<Longrightarrow> cut_colon (n @ CHR '':'' # s) = Some (n, s)"
  by (simp add: cut_colon_def takeWhile_append dropWhile_append takeWhile_tail)

lemma histogram_key_facts:
  assumes "histogram_ok F a k h"
  shows "utf8_valid k" "length k \<le> 18"
  using assms terminal_facts histogram_name_facts
  by (fastforce simp: histogram_ok_def utf8_valid_append byte_def)+

lemma distinct_length_le:
  assumes "distinct (map f xs)" "f ` set xs \<subseteq> A" "finite A"
  shows "length xs \<le> card A"
  using assms card_mono [of A "f ` set xs"] by (metis distinct_card length_map set_map)

lemma completed_length:
  assumes "stats_ok F a"
  shows "length (qs_completed a) \<le> 3"
proof -
  have "fst ` set (qs_completed a) \<subseteq> {''finished'', ''failed'', ''canceled''}"
    using assms by (auto simp: stats_ok_def terminal_def)
  then have "length (qs_completed a) \<le> card {''finished'', ''failed'', ''canceled''}"
    using assms by (intro distinct_length_le [where f = fst]) (auto simp: stats_ok_def keys_sorted_distinct)
  then show ?thesis by simp
qed

lemma histograms_length:
  assumes "stats_ok F a"
  shows "length (qs_histograms a) \<le> 9"
proof -
  let ?A = "(\<lambda>(n, s). n @ CHR '':'' # s) ` (set histogram_names \<times> set terminal_states)"
  have "fst ` set (qs_histograms a) \<subseteq> ?A"
    using assms by (fastforce simp: stats_ok_def histogram_ok_def terminal_def terminal_states_def image_iff)
  then have "length (qs_histograms a) \<le> card ?A"
    using assms by (intro distinct_length_le [where f = fst]) (auto simp: stats_ok_def keys_sorted_distinct)
  also have "\<dots> \<le> card (set histogram_names \<times> set terminal_states)" by (rule card_image_le) simp
  also have "\<dots> \<le> 9" by (simp add: card_cartesian_product histogram_names_def terminal_states_def)
  finally show ?thesis .
qed

lemma juint_bound: "print_bound (juint w) \<le> 20"
  using length_juint [of w] by (simp add: juint_def)

lemma histogram_bound:
  assumes "float_ok F" "histogram_ok F a k h"
  shows "print_bound (histogram_json F h) \<le> 500"
proof -
  obtain bs where b: "hg_buckets h = Some bs" "length bs = 10"
    using assms(2) by (auto simp: histogram_ok_def bound_millis_def)
  have "Suc (print_bound (juint w)) \<le> 21" for w using juint_bound [of w] by linarith
  then have "sum_list (map (\<lambda>w. Suc (print_bound (juint w))) bs) \<le> sum_list (map (\<lambda>_. 21) bs)"
    by (intro sum_list_mono)
  then have s: "sum_list (map (\<lambda>w. Suc (print_bound (juint w))) bs) \<le> 210"
    using b(2) by (simp add: sum_list_triv)
  have "print_bound (jfloat F (hg_sum h)) \<le> 25"
    using jfloat_facts(3) [OF assms(1)] assms(2) by (simp add: jfloat_def histogram_ok_def)
  then show ?thesis
    using s b(1) juint_bound [of "hg_count h"] by (simp add: histogram_json_def jslice_def comp_def)
qed

lemma json_ok_jslice_juint [simp]: "json_ok (jslice juint s)"
  by (cases s) (simp_all add: jslice_def list_all_iff)

lemma json_depth_jslice_juint: "json_depth (jslice juint s) \<le> 1"
proof -
  have "foldr max (map json_depth (map juint bs)) 0 \<le> 0" for bs
    unfolding foldr_max_le_iff by auto
  then show ?thesis by (cases s) (simp_all add: jslice_def)
qed

lemma json_depth_histogram: "json_depth (histogram_json F h) \<le> 2"
  using json_depth_jslice_juint [of "hg_buckets h"] by (auto simp: histogram_json_def)

lemma json_ok_histogram:
  assumes "float_ok F" "histogram_ok F a k h"
  shows "json_ok (histogram_json F h)"
  using jfloat_facts(1) [OF assms(1)] assms(2)
  by (simp add: histogram_json_def histogram_ok_def query_names_valid)

lemma scan_slice: "scan_json (jslice juint s) n \<longleftrightarrow> n \<le> 16 \<and> (elems s = [] \<or> Suc n \<le> 16)"
  by (cases s) (auto simp: jslice_def list_all_iff scan_leaf)

lemma un_histogram_json:
  assumes "float_ok F" "histogram_ok F a k h"
  shows "un_histogram F (histogram_json F h) = Some h"
proof -
  obtain bs where b: "hg_buckets h = Some bs" using assms(2) by (auto simp: histogram_ok_def)
  have "un_float F (jfloat F (hg_sum h)) c = Some (hg_sum h)" for c
    using jfloat_facts(2) [OF assms(1)] assms(2) by (simp add: histogram_ok_def)
  moreover have "un_gslice (\<lambda>j. un_uint64 j 0) (jslice juint (hg_buckets h)) None = Some (hg_buckets h)"
    by (rule un_gslice_jslice) simp
  ultimately show ?thesis
    by (simp add: un_histogram_def histogram_json_def equal_fold_def query_names)
qed

lemma histogram_valid_print:
  assumes F: "float_ok F" and h: "histogram_ok F a k h" and m: "map_of raw k = Some (json_print (histogram_json F h))"
  shows "histogram_valid F a raw k h"
proof -
  obtain n s where ns: "n \<in> set histogram_names" "terminal s" "k = n @ CHR '':'' # s" "hg_count h \<le> completed_of a s"
    using h by (auto simp: histogram_ok_def)
  obtain bs where bs: "hg_buckets h = Some bs" "length bs = length bound_millis" "buckets_valid (hg_count h) 0 bs"
    using h by (auto simp: histogram_ok_def)
  let ?ms = "[(''Count'', juint (hg_count h)), (''Sum'', jfloat F (hg_sum h)), (''Buckets'', jslice juint (hg_buckets h))]"
  have j: "histogram_json F h = JObj ?ms" by (simp add: histogram_json_def)
  have len: "length (json_print (JObj ?ms)) \<le> max_small_bytes"
    using length_json_print [of "JObj ?ms"] histogram_bound [OF F h] unfolding j by (simp add: max_small_bytes_def)
  have dep: "json_depth (JObj ?ms) \<le> 16" using json_depth_histogram [of F h] unfolding j by simp
  have nn: "jslice juint (hg_buckets h) \<noteq> JNull" using bs(1) by (simp add: jslice_def)
  have "strict_object (json_print (JObj ?ms)) max_small_bytes [''Count'', ''Sum'', ''Buckets''] [] =
      Some (?ms, map (\<lambda>m. (fst m, json_print (snd m))) ?ms)"
    using json_ok_histogram [OF F h] nn unfolding j
    by (intro strict_object_print len dep) (auto simp: scan_slice scan_leaf)
  then show ?thesis
    using h ns bs m histogram_name_facts(2) [OF ns(1)]
    unfolding histogram_valid_def j
    by (auto simp: histogram_ok_def cut_colon_key jslice_def juint_def simp del: json_print.simps)
qed

lemma members_bound:
  assumes "\<And>k v. (k, v) \<in> set m \<Longrightarrow> 6 * length k + 4 + print_bound (enc v) \<le> b" "length m \<le> n"
  shows "print_bound (JObj (map (\<lambda>(k, v). (k, enc v)) m)) \<le> 2 + n * b"
proof -
  have "sum_list (map (\<lambda>x. 6 * length (fst x) + 4 + print_bound (enc (snd x))) m) \<le> sum_list (map (\<lambda>_. b) m)"
    using assms(1) by (intro sum_list_mono) auto
  also have "\<dots> \<le> n * b" using assms(2) by (simp add: sum_list_triv)
  finally show ?thesis by (simp add: comp_def case_prod_beta)
qed

lemma stats_size:
  assumes F: "float_ok F" and a: "stats_ok F a"
  shows "length (json_print (stats_json F a)) \<le> max_query_bytes"
proof -
  have c: "print_bound (JObj (map (\<lambda>(k, v). (k, juint v)) (qs_completed a))) \<le> 2 + 3 * 80"
  proof (rule members_bound [OF _ completed_length [OF a]])
    fix k v assume "(k, v) \<in> set (qs_completed a)"
    then have "length k \<le> 8" using a terminal_facts(3) by (force simp: stats_ok_def)
    then show "6 * length k + 4 + print_bound (juint v) \<le> 80" using juint_bound [of v] by linarith
  qed
  have h: "print_bound (JObj (map (\<lambda>(k, h). (k, histogram_json F h)) (qs_histograms a))) \<le> 2 + 9 * 700"
  proof (rule members_bound [OF _ histograms_length [OF a]])
    fix k v assume "(k, v) \<in> set (qs_histograms a)"
    then have "histogram_ok F a k v" using a by (force simp: stats_ok_def)
    then show "6 * length k + 4 + print_bound (histogram_json F v) \<le> 700"
      using histogram_key_facts(2) [of F a k v] histogram_bound [OF F] by fastforce
  qed
  have i: "print_bound (jint (qs_pending a)) \<le> 21" "print_bound (jint (qs_bytes a)) \<le> 21"
    using length_jint [of "qs_pending a"] length_jint [of "qs_bytes a"] a
    by (simp_all add: jint_def stats_ok_def is_int64_def min_int64_def)
  have "print_bound (jtime (qs_floor a)) \<le> 242" using a time_bound by (simp add: stats_ok_def time_typed_def)
  then have "print_bound (stats_json F a) \<le> 65536"
    using c h i juint_bound [of "qs_revision a"]
    unfolding stats_json_def print_bound.simps(6) [of "_ # _"] by (simp del: print_bound.simps(6))
  then show ?thesis using length_json_print [of "stats_json F a"] by (simp add: max_query_bytes_def)
qed

lemma marshal_stats_ok:
  assumes "stats_ok F a"
  shows "marshal_stats F a = Some (json_print (stats_json F a))"
proof -
  have "list_all (\<lambda>(k, h). fl_finite F (hg_sum h)) (qs_histograms a)"
    using assms by (force simp: stats_ok_def histogram_ok_def list_all_iff)
  then show ?thesis using assms by (simp add: marshal_stats_def stats_ok_def time_typed_def)
qed

lemma decode_stats_print:
  assumes F: "float_ok F" and a: "stats_ok F a"
  shows "decode_stats F (json_print (stats_json F a)) = Some a"
proof -
  let ?C = "JObj (map (\<lambda>(k, v). (k, juint v)) (qs_completed a))"
  let ?hs = "map (\<lambda>(k, h). (k, histogram_json F h)) (qs_histograms a)"
  let ?ms = "[(''Revision'', juint (qs_revision a)), (''Completed'', ?C), (''Histograms'', JObj ?hs),
    (''Pending'', jint (qs_pending a)), (''Bytes'', jint (qs_bytes a)), (''Floor'', jtime (qs_floor a))]"
  have j: "stats_json F a = JObj ?ms" by (simp add: stats_json_def)
  have cs: "keys_sorted (qs_completed a)" "keys_sorted (qs_histograms a)" using a by (simp_all add: stats_ok_def)
  have hok: "histogram_ok F a k h" if "(k, h) \<in> set (qs_histograms a)" for k h
    using a that by (force simp: stats_ok_def)
  have okc: "json_ok ?C" using a terminal_facts(1) by (force simp: stats_ok_def list_all_iff)
  have okh: "\<forall>m \<in> set ?hs. utf8_valid (fst m) \<and> json_ok (snd m) \<and> json_depth (snd m) \<le> 2"
    using histogram_key_facts(1) [OF hok] json_ok_histogram [OF F hok] json_depth_histogram [of F] by auto
  then have okh': "json_ok (JObj ?hs)" by (auto simp: list_all_iff)
  have dc: "json_depth ?C \<le> 1"
  proof -
    have "foldr max (map (\<lambda>(k, v). json_depth v) (map (\<lambda>(k, v). (k, juint v)) (qs_completed a))) 0 \<le> 0"
      unfolding foldr_max_le_iff by auto
    then show ?thesis by simp
  qed
  have dh: "json_depth (JObj ?hs) \<le> 3"
  proof -
    have "foldr max (map (\<lambda>(k, v). json_depth v) ?hs) 0 \<le> 2"
      unfolding foldr_max_le_iff using okh by (auto simp: case_prod_beta)
    then show ?thesis by simp
  qed
  have ok: "json_ok (JObj ?ms)" using okc okh' by (auto simp: query_names_valid history_names_valid)
  have dep: "json_depth (JObj ?ms) \<le> 16" using dc dh by simp
  have keys: "distinct (map fst (qs_completed a))" "distinct (map fst (qs_histograms a))"
    using cs keys_sorted_distinct by blast+
  have scc: "scan_json ?C 1" using keys(1) by (auto simp: list_all_iff scan_leaf comp_def case_prod_beta)
  have sch: "scan_json (JObj ?hs) 1"
    using keys(2) by (auto simp: list_all_iff scan_leaf scan_slice histogram_json_def comp_def case_prod_beta)
  have sc: "scan_json (JObj ?ms) 0"
    using scc sch by (simp add: scan_leaf del: scan_json.simps(1)) (simp add: scan_leaf)
  have st: "strict_object (json_print (JObj ?ms)) max_query_bytes stats_required [] =
      Some (?ms, map (\<lambda>m. (fst m, json_print (snd m))) ?ms)"
    using stats_size [OF F a] ok unfolding j
    by (intro strict_object_print dep sc) (simp_all add: stats_required_def)
  have un: "un_stats F ?ms = Some a"
  proof -
    have "un_map (\<lambda>j. un_uint64 j 0) ?C [] = Some (qs_completed a)" using cs(1) by (intro un_map_print) simp_all
    moreover have "un_map (un_histogram F) (JObj ?hs) [] = Some (qs_histograms a)"
      using cs(2) un_histogram_json [OF F hok] by (intro un_map_print) simp_all
    ultimately show ?thesis
      using a by (simp add: un_stats_def stats_ok_def time_typed_def equal_fold_def query_names history_names min_int64_def)
  qed
  have raw: "raw_fields (json_print (JObj ?hs)) = Some (map (\<lambda>m. (fst m, json_print (snd m))) ?hs)"
    using okh by (intro raw_fields_print) (auto simp: max_nesting_def)
  have hv: "histogram_valid F a (map (\<lambda>m. (fst m, json_print (snd m))) ?hs) k h"
    if "(k, h) \<in> set (qs_histograms a)" for k h
  proof (rule histogram_valid_print [OF F hok [OF that]])
    have "map_of ?hs k = Some (histogram_json F h)"
      using that keys(2) by (auto intro!: map_of_is_SomeI simp: comp_def case_prod_beta image_iff) force
    then show "map_of (map (\<lambda>m. (fst m, json_print (snd m))) ?hs) k = Some (json_print (histogram_json F h))"
      by (simp only: map_of_json_texts option.map)
  qed
  show ?thesis
    unfolding j decode_stats_def st option.case prod.case un using a raw hv
    by (force simp: stats_ok_def list_ex_iff list_all_iff simp del: json_print.simps)
qed

end
