(* ===== verification/Query_Spec.thy ===== *)
theory Query_Spec
  imports Query_Codec
begin

text \<open>
  The abstract query state: statistics, a map of checkpoints and a queue of events. Each operation is
  specified on it, and every specified operation keeps its invariant: the statistics pass the strict
  decoder's checks, the pending counters are the queue's, and a terminal event that retention still
  covers has its final checkpoint.
\<close>

record 'f query_abs =
  qa_stats :: "'f query_stats"
  qa_cps :: "bytes \<rightharpoonup> query_checkpoint"
  qa_queue :: "(u64 \<times> 'f query_event) list"
  qa_seq :: u64

definition event_text :: "'f float_ops \<Rightarrow> 'f query_event \<Rightarrow> bytes" where
  "event_text F e = json_print (query_event_json F e)"

definition queue_bytes :: "'f float_ops \<Rightarrow> (u64 \<times> 'f query_event) list \<Rightarrow> nat" where
  "queue_bytes F q = sum_list (map (\<lambda>m. length (event_text F (snd m))) q)"

definition event_good :: "'f float_ops \<Rightarrow> query_options \<Rightarrow> 'f query_event \<Rightarrow> bool" where
  "event_good F opts e \<longleftrightarrow>
     event_typed F e \<and> event_valid F e (qo_source opts) \<and> length (event_text F e) \<le> max_query_bytes"

text \<open>The checkpoint that belongs to a terminal event.\<close>

definition matches :: "'f float_ops \<Rightarrow> 'f query_event \<Rightarrow> query_checkpoint \<Rightarrow> bool" where
  "matches F e c \<longleftrightarrow>
     qc_final c \<and> event_hash F e = Some (qc_hash c) \<and> zt_at (qc_time c) = zt_at (event_when e) \<and>
     zt_at (qc_fetched c) = zt_at (qe_observed e)"

definition locked :: "'f query_abs \<Rightarrow> 'f query_event \<Rightarrow> bool" where
  "locked a e \<longleftrightarrow> terminal (qe_state e) \<and> \<not> zt_at (event_when e) < zt_at (qs_floor (qa_stats a))"

definition query_wf :: "'f float_ops \<Rightarrow> query_options \<Rightarrow> 'f query_abs \<Rightarrow> bool" where
  "query_wf F opts a \<longleftrightarrow>
     stats_ok F (qa_stats a) \<and> finite (dom (qa_cps a)) \<and>
     (\<forall>i c. qa_cps a i = Some c \<longrightarrow> query_cp_ok i c) \<and>
     sorted_wrt (<) (map fst (qa_queue a)) \<and>
     (\<forall>(s, e) \<in> set (qa_queue a). 0 < s \<and> s \<le> qa_seq a \<and> event_good F opts e \<and>
        (locked a e \<longrightarrow> (\<exists>c. qa_cps a (qe_query_id e) = Some c \<and> matches F e c))) \<and>
     qs_pending (qa_stats a) = int (length (qa_queue a)) \<and>
     qs_bytes (qa_stats a) = int (queue_bytes F (qa_queue a))"

section \<open>Specified operations\<close>

definition bump :: "'f query_stats \<Rightarrow> 'f query_stats" where
  "bump st = st\<lparr>qs_revision := qs_revision st + 1\<rparr>"

text \<open>Statistics that can be saved: a revision is left and every number and the floor have a text.\<close>

definition save_check :: "'f float_ops \<Rightarrow> 'f query_stats \<Rightarrow> go_error + unit" where
  "save_check F st =
     (if qs_revision st = - 1 then Inl err_query_corrupt
      else if \<not> (zoned_json_ok (qs_floor st) \<and> list_all (\<lambda>(k, h). fl_finite F (hg_sum h)) (qs_histograms st))
      then Inl err_marshal else Inr ())"

definition spec_prune :: "'f float_ops \<Rightarrow> query_options \<Rightarrow> zoned \<Rightarrow> 'f query_abs \<Rightarrow> go_error + 'f query_abs" where
  "spec_prune F opts now a =
     (let floor = prune_floor opts now (qa_stats a); st = (qa_stats a)\<lparr>qs_floor := floor\<rparr>
      in bindE (save_check F st) (\<lambda>_.
         Inr (a\<lparr>qa_stats := bump st,
                qa_cps := (\<lambda>i. case qa_cps a i of
                                None \<Rightarrow> None
                              | Some c \<Rightarrow> if zt_at (qc_time c) < zt_at floor then None else Some c)\<rparr>)))"

definition recorded_cp :: "bytes \<Rightarrow> 'f query_event \<Rightarrow> query_checkpoint" where
  "recorded_cp hash e =
     \<lparr>qc_final = terminal (qe_state e), qc_hash = hash, qc_fetched = qe_observed e, qc_time = event_when e\<rparr>"

definition settled_event :: "'f query_abs \<Rightarrow> 'f query_event \<Rightarrow> bool" where
  "settled_event a e \<longleftrightarrow>
     (case qa_cps a (qe_query_id e) of
        None \<Rightarrow> False
      | Some c \<Rightarrow> qc_final c \<or> zt_at (qe_observed e) < zt_at (qc_fetched c))"

definition queues :: "query_options \<Rightarrow> bytes \<Rightarrow> 'f query_event \<Rightarrow> 'f query_abs \<Rightarrow> bool" where
  "queues opts hash e a \<longleftrightarrow>
     qo_events opts \<and> (case qa_cps a (qe_query_id e) of None \<Rightarrow> True | Some c \<Rightarrow> qc_hash c \<noteq> hash)"

definition queued_stats :: "'f float_ops \<Rightarrow> 'f query_event \<Rightarrow> 'f query_stats \<Rightarrow> 'f query_stats" where
  "queued_stats F e st =
     st\<lparr>qs_pending := qs_pending st + 1, qs_bytes := qs_bytes st + int (length (event_text F e))\<rparr>"

definition spec_record ::
  "'f float_ops \<Rightarrow> query_options \<Rightarrow> 'f query_event \<Rightarrow> bytes \<Rightarrow> 'f query_abs \<Rightarrow> go_error + 'f query_abs" where
  "spec_record F opts e hash a =
     (let st = qa_stats a; q = queues opts hash e a in
      if zt_at (event_when e) < zt_at (qs_floor st) then Inl err_query_expired
      else if settled_event a e then Inr a
      else if qa_cps a (qe_query_id e) = None \<and> int (card (dom (qa_cps a))) \<ge> qo_max_checkpoints opts
      then Inl err_query_full
      else if q \<and> (qs_pending st \<ge> qo_max_events opts \<or>
                    int (length (event_text F e)) > qo_max_bytes opts - qs_bytes st)
      then Inl err_query_full
      else bindE (count_terminal F e (if q then queued_stats F e st else st)) (\<lambda>st'.
           bindE (save_check F st') (\<lambda>_.
             Inr (a\<lparr>qa_stats := bump st',
                    qa_cps := (qa_cps a)(qe_query_id e \<mapsto> recorded_cp hash e),
                    qa_queue := (if q then qa_queue a @ [(qa_seq a + 1, e)] else qa_queue a),
                    qa_seq := (if q then qa_seq a + 1 else qa_seq a)\<rparr>))))"

definition without_seq :: "u64 \<Rightarrow> (u64 \<times> 'f query_event) list \<Rightarrow> (u64 \<times> 'f query_event) list" where
  "without_seq s q = filter (\<lambda>m. fst m \<noteq> s) q"

definition spec_ack :: "'f float_ops \<Rightarrow> u64 \<Rightarrow> 'f query_abs \<Rightarrow> go_error + 'f query_abs" where
  "spec_ack F s a =
     (case map_of (qa_queue a) s of
        None \<Rightarrow> Inr a
      | Some e \<Rightarrow>
          (let st = (qa_stats a)\<lparr>qs_pending := qs_pending (qa_stats a) - 1,
                                 qs_bytes := qs_bytes (qa_stats a) - int (length (event_text F e))\<rparr>
           in bindE (save_check F st) (\<lambda>_.
              Inr (a\<lparr>qa_stats := bump st, qa_queue := without_seq s (qa_queue a)\<rparr>))))"

section \<open>Statistics stay valid\<close>

lemma bump_ok: "stats_ok F st \<Longrightarrow> qs_revision st \<noteq> - 1 \<Longrightarrow> stats_ok F (bump st)"
proof -
  assume s: "stats_ok F st" "qs_revision st \<noteq> - 1"
  have "qs_revision st + 1 \<noteq> 0" using s(2) by (metis add.inverse_unique add.commute)
  moreover have "histogram_ok F (bump st) k h = histogram_ok F st k h" for k h
    by (simp add: histogram_ok_def bump_def completed_of_def)
  ultimately show ?thesis using s(1) by (simp add: stats_ok_def bump_def)
qed

lemma buckets_valid_iff:
  "buckets_valid count p bs \<longleftrightarrow> sorted (p # bs) \<and> (\<forall>b \<in> set bs. b \<le> count)"
  by (induction bs arbitrary: p) (auto simp: not_less)

lemma bounds_sorted: "sorted bound_millis" "\<forall>b \<in> set bound_millis. 0 \<le> b \<and> b \<le> max_safe"
  by (simp_all add: bound_millis_def max_safe_def)

lemma below_top: "(x :: u64) \<noteq> - 1 \<Longrightarrow> x + 1 \<noteq> 0 \<and> x < x + 1"
proof -
  assume "x \<noteq> - 1"
  then have n: "x + 1 \<noteq> 0" by (metis add.inverse_unique add.commute)
  then have "unat (x + 1) = Suc (unat x)" using unatSuc [of x] by (simp add: add.commute)
  with n show ?thesis by (simp add: word_less_nat_alt)
qed

lemma succ_mono: "(x :: u64) \<le> y \<Longrightarrow> y \<noteq> - 1 \<Longrightarrow> x + 1 \<le> y + 1 \<and> x \<le> y + 1"
proof -
  assume a: "x \<le> y" "y \<noteq> - 1"
  have y: "unat (y + 1) = Suc (unat y)"
    using below_top [OF a(2)] unatSuc [of y] by (simp add: add.commute)
  have "unat (x + 1) \<le> Suc (unat x)" by (metis add.commute le_eq_less_or_eq not_less_eq_eq unatSuc unat_0 le0)
  then show ?thesis using a(1) y by (simp add: word_le_nat_alt)
qed

lemma observed_buckets:
  assumes "float_ok F" "buckets_valid c 0 bs" "length bs = length bound_millis" "c \<noteq> - 1"
  shows "buckets_valid (c + 1) 0 (map (\<lambda>(bound, b). if fl_le F v (fl_milli F bound) then b + 1 else b) (zip bound_millis bs))"
proof -
  let ?f = "\<lambda>(bound, b). if fl_le F v (fl_milli F bound) then b + 1 else b"
  have bs: "sorted bs" "\<forall>b \<in> set bs. b \<le> c" using assms(2) by (auto simp: buckets_valid_iff)
  have "\<forall>b \<in> set (map ?f (zip bound_millis bs)). b \<le> c + 1"
    using bs(2) succ_mono [OF _ assms(4)] by (auto dest!: set_zip_rightD)
  moreover have "sorted (map ?f (zip bound_millis bs))"
  proof (rule sorted_iff_nth_mono [THEN iffD2], intro allI impI)
    fix i j assume ij: "i \<le> j" "j < length (map ?f (zip bound_millis bs))"
    then have len: "i < length bound_millis" "j < length bound_millis" "i < length bs" "j < length bs" by auto
    have b: "bs ! i \<le> bs ! j" "bs ! j \<le> c" using bs ij len by (auto simp: sorted_iff_nth_mono)
    have "bs ! j \<noteq> - 1" using b(2) assms(4) by (metis word_order.extremum_unique)
    note sm = succ_mono [OF b(1) this]
    have "fl_le F (fl_milli F (bound_millis ! i)) (fl_milli F (bound_millis ! j))"
      using bounds_sorted ij len by (intro float_milli_mono [OF assms(1)]) (auto simp: sorted_iff_nth_mono)
    then have "fl_le F v (fl_milli F (bound_millis ! i)) \<Longrightarrow> fl_le F v (fl_milli F (bound_millis ! j))"
      by (rule float_trans [OF assms(1), rotated])
    then show "map ?f (zip bound_millis bs) ! i \<le> map ?f (zip bound_millis bs) ! j"
      using len b(1) sm by auto
  qed
  ultimately show ?thesis by (simp add: buckets_valid_iff)
qed

definition sums_finite :: "'f float_ops \<Rightarrow> (bytes \<times> 'f histogram) list \<Rightarrow> bool" where
  "sums_finite F hs \<longleftrightarrow> (\<forall>m \<in> set hs. fl_finite F (hg_sum (snd m)))"

text \<open>A histogram as the checks see it, with room for one more observation of its state.\<close>

definition histogram_below :: "'f float_ops \<Rightarrow> (bytes \<Rightarrow> u64) \<Rightarrow> bytes \<Rightarrow> 'f histogram \<Rightarrow> bool" where
  "histogram_below F limit key h \<longleftrightarrow>
     (\<exists>name state. name \<in> set histogram_names \<and> terminal state \<and> key = name @ CHR '':'' # state \<and>
        hg_count h \<le> limit state) \<and>
     (\<exists>bs. hg_buckets h = Some bs \<and> length bs = length bound_millis \<and> buckets_valid (hg_count h) 0 bs) \<and>
     fl_le F (fl_zero F) (hg_sum h) \<and> (hg_count h = 0 \<longrightarrow> fl_same F (hg_sum h) (fl_zero F))"

lemma histogram_ok_below:
  "histogram_ok F a k h \<longleftrightarrow> histogram_below F (completed_of a) k h \<and> fl_finite F (hg_sum h)"
  by (auto simp: histogram_ok_def histogram_below_def)

lemma histogram_belowD:
  assumes "histogram_below F l key h"
  obtains name state where "name \<in> set histogram_names" "terminal state" "key = name @ CHR '':'' # state"
    "hg_count h \<le> l state"
  using assms unfolding histogram_below_def by (elim conjE exE)

lemma histogram_below_mono:
  assumes "histogram_below F l k h" "\<And>s. terminal s \<Longrightarrow> l s \<le> l' s"
  shows "histogram_below F l' k h"
proof -
  obtain name state where n: "name \<in> set histogram_names" "terminal state" "k = name @ CHR '':'' # state"
    "hg_count h \<le> l state" using histogram_belowD [OF assms(1)] .
  have "hg_count h \<le> l' state" using n(2,4) assms(2) order_trans by blast
  with n assms(1) show ?thesis unfolding histogram_below_def by blast
qed

lemma key_split:
  assumes "n @ CHR '':'' # s = n' @ CHR '':'' # s'" "n \<in> set histogram_names" "n' \<in> set histogram_names"
  shows "n = n' \<and> s = s'"
proof -
  have "Some (n, s) = Some (n', s')"
    unfolding cut_colon_key [OF histogram_name_facts(2) [OF assms(2)], symmetric]
      cut_colon_key [OF histogram_name_facts(2) [OF assms(3)], symmetric] assms(1) ..
  then show ?thesis by simp
qed

lemma observe_below:
  assumes F: "float_ok F" and h: "histogram_below F l (n @ CHR '':'' # s) h" and n: "n \<in> set histogram_names"
    and f: "fl_finite F (hg_sum h)" and v: "fl_finite F v" "fl_le F (fl_zero F) v" and l: "l s \<noteq> - 1"
    and bs: "hg_buckets h = Some bs"
  shows "histogram_below F (l(s := l s + 1)) (n @ CHR '':'' # s) (observe F v bs h)"
proof -
  obtain n' s' where n': "n' \<in> set histogram_names" "terminal s'" "n @ CHR '':'' # s = n' @ CHR '':'' # s'"
    "hg_count h \<le> l s'" using histogram_belowD [OF h] .
  have c: "hg_count h \<le> l s" "terminal s" using key_split [OF n'(3) n n'(1)] n'(2,4) by simp_all
  then have top: "hg_count h \<noteq> - 1" using l by (metis word_order.extremum_unique)
  have b: "length bs = length bound_millis" "buckets_valid (hg_count h) 0 bs" and z: "fl_le F (fl_zero F) (hg_sum h)"
    using h bs by (auto simp: histogram_below_def)
  let ?o = "observe F v bs h"
  have "hg_count ?o \<le> (l(s := l s + 1)) s" "hg_count ?o \<noteq> 0"
    using succ_mono [OF c(1) l] below_top [OF top] by (simp_all add: observe_def)
  moreover have "fl_le F (fl_zero F) (hg_sum ?o)"
    using float_add [OF F f v(1) z v(2)] by (simp add: observe_def)
  moreover have "\<exists>bs. hg_buckets ?o = Some bs \<and> length bs = length bound_millis \<and> buckets_valid (hg_count ?o) 0 bs"
    using observed_buckets [OF F b(2,1) top, of v] b(1) by (simp add: observe_def)
  ultimately show ?thesis using n c(2) unfolding histogram_below_def by blast
qed

lemma fresh_below:
  assumes F: "float_ok F" and n: "n \<in> set histogram_names" and s: "terminal s"
  shows "histogram_below F l (n @ CHR '':'' # s)
    ((zero_histogram F)\<lparr>hg_buckets := Some (replicate (length bound_millis) 0)\<rparr>)"
proof -
  have "buckets_valid 0 0 (replicate k 0)" for k by (induction k) simp_all
  then show ?thesis
    using n s float_zero [OF F] by (auto simp: histogram_below_def zero_histogram_def fl_same_def)
qed

lemma observe_buckets [simp]: "observe F v bs (h\<lparr>hg_buckets := b\<rparr>) = observe F v bs h"
  by (simp add: observe_def)

text \<open>The histograms of the three durations: each is touched at most once, so the room is used once.\<close>

lemma add_observations_below:
  assumes F: "float_ok F" and s: "terminal s" and l: "l s \<noteq> - 1"
    and r: "add_observations F s vs hs = Inr hs'"
    and names: "distinct (map fst vs)" "set (map fst vs) \<subseteq> set histogram_names"
    and vals: "\<forall>(n, x) \<in> set vs. \<forall>v. x = Some v \<longrightarrow> fl_finite F v \<and> fl_le F (fl_zero F) v"
    and hs: "keys_sorted hs" "\<forall>m \<in> set hs. histogram_below F (l(s := l s + 1)) (fst m) (snd m)"
      "\<forall>n \<in> set (map fst vs). \<forall>h. map_of hs (n @ CHR '':'' # s) = Some h \<longrightarrow>
         histogram_below F l (n @ CHR '':'' # s) h \<and> fl_finite F (hg_sum h)"
  shows "keys_sorted hs' \<and> (\<forall>m \<in> set hs'. histogram_below F (l(s := l s + 1)) (fst m) (snd m))"
  using r names vals hs
proof (induction vs arbitrary: hs)
  case (Cons x vs)
  obtain n y where x: "x = (n, y)" by (cases x)
  have nn: "n \<in> set histogram_names" using Cons.prems(3) x by simp
  show ?case
  proof (cases y)
    case None
    have "add_observations F s vs hs = Inr hs'" using Cons.prems(1) x None by simp
    then show ?thesis
      by (rule Cons.IH) (use Cons.prems in \<open>auto simp: x\<close>)
  next
    case (Some v)
    let ?k = "n @ CHR '':'' # s"
    have v: "fl_finite F v" "fl_le F (fl_zero F) v" using Cons.prems(4) x Some by auto
    define h where "h = (case map_of hs ?k of None \<Rightarrow> zero_histogram F | Some h \<Rightarrow> h)"
    define bs where "bs = (case hg_buckets h of None \<Rightarrow> replicate (length bound_millis) 0 | Some bs \<Rightarrow> bs)"
    have step: "add_observations F s vs (map_put ?k (observe F v bs h) hs) = Inr hs'"
      using Cons.prems(1) x Some by (auto simp: Let_def h_def bs_def split: if_splits)
    have new: "histogram_below F (l(s := l s + 1)) ?k (observe F v bs h)"
    proof (cases "map_of hs ?k")
      case None
      then have "h = zero_histogram F" "bs = replicate (length bound_millis) 0"
        by (simp_all add: h_def bs_def zero_histogram_def)
      moreover have "fl_finite F (hg_sum ((zero_histogram F)\<lparr>hg_buckets := Some bs\<rparr>))"
        using float_zero [OF F] by (simp add: zero_histogram_def)
      ultimately show ?thesis
        using observe_below [OF F fresh_below [OF F nn s, of l] nn _ v l, of bs] by simp
    next
      case (Some h0)
      then have h: "histogram_below F l ?k h" "fl_finite F (hg_sum h)"
        using Cons.prems(7) x by (auto simp: h_def)
      then have "hg_buckets h = Some bs" by (auto simp: histogram_below_def bs_def)
      then show ?thesis by (rule observe_below [OF F h(1) nn h(2) v l])
    qed
    have other: "m @ CHR '':'' # s \<noteq> ?k" if "m \<in> set (map fst vs)" for m
      using that Cons.prems(2,3) x key_split [of m s n s] by auto
    show ?thesis
    proof (rule Cons.IH [OF step])
      show "keys_sorted (map_put ?k (observe F v bs h) hs)" using Cons.prems(5) by (rule map_put_sorted)
      have put: "map_of (map_put ?k (observe F v bs h) hs) = (map_of hs)(?k \<mapsto> observe F v bs h)"
        using Cons.prems(5) by (rule map_of_map_put)
      have mem: "m \<in> set (map_put ?k (observe F v bs h) hs) \<Longrightarrow> m = (?k, observe F v bs h) \<or> m \<in> set hs" for m
        by (induction ?k "observe F v bs h" hs rule: map_put.induct) (auto split: if_splits)
      show "\<forall>m \<in> set (map_put ?k (observe F v bs h) hs). histogram_below F (l(s := l s + 1)) (fst m) (snd m)"
        using mem new Cons.prems(6) by fastforce
      show "\<forall>m \<in> set (map fst vs). \<forall>h'. map_of (map_put ?k (observe F v bs h) hs) (m @ CHR '':'' # s) = Some h' \<longrightarrow>
          histogram_below F l (m @ CHR '':'' # s) h' \<and> fl_finite F (hg_sum h')"
        using Cons.prems(7) other put x by auto
    qed (use Cons.prems x in auto)
  qed
qed simp

lemma completed_of_put:
  assumes "keys_sorted (qs_completed st)"
  shows "completed_of (st\<lparr>qs_completed := map_put s n (qs_completed st)\<rparr>) = (completed_of st)(s := n)"
  using map_of_map_put [OF assms, of s n] by (auto simp: completed_of_def fun_eq_iff)

lemma event_values:
  assumes "event_valid F e source"
  shows "\<forall>(n, x) \<in> set [(''elapsed'', qe_elapsed e), (''execution'', qe_execution e), (''queued'', qe_queued e)].
    \<forall>v. x = Some v \<longrightarrow> fl_finite F v \<and> fl_le F (fl_zero F) v"
  using assms by (auto simp: event_valid_def event_durations_def)

lemma count_terminal_ok:
  assumes F: "float_ok F" and st: "stats_ok F st" and e: "event_valid F e source"
    and c: "count_terminal F e st = Inr st'" and fin: "sums_finite F (qs_histograms st')"
  shows "stats_ok F st' \<and> qs_revision st' = qs_revision st \<and> qs_pending st' = qs_pending st \<and>
    qs_bytes st' = qs_bytes st \<and> qs_floor st' = qs_floor st"
proof (cases "terminal (qe_state e)")
  case False
  then show ?thesis using c st by (simp add: count_terminal_def)
next
  case True
  let ?s = "qe_state e" and ?l = "completed_of st"
  let ?vs = "[(''elapsed'', qe_elapsed e), (''execution'', qe_execution e), (''queued'', qe_queued e)]"
  have l: "?l ?s \<noteq> - 1" using c True by (auto simp: count_terminal_def split: if_splits)
  obtain hs where hs: "add_observations F ?s ?vs (qs_histograms st) = Inr hs"
    and st': "st' = st\<lparr>qs_completed := map_put ?s (?l ?s + 1) (qs_completed st), qs_histograms := hs\<rparr>"
    using c True l by (auto simp: count_terminal_def Let_def bindE_Inr_iff simp del: add_observations.simps)
  have ks: "keys_sorted (qs_completed st)" "keys_sorted (qs_histograms st)" using st by (simp_all add: stats_ok_def)
  have ok: "histogram_below F ?l (fst m) (snd m)" "fl_finite F (hg_sum (snd m))" if "m \<in> set (qs_histograms st)" for m
    using st that by (auto simp: stats_ok_def histogram_ok_below)
  have "?l t \<le> (?l(?s := ?l ?s + 1)) t" for t using below_top [OF l] by auto
  then have up: "histogram_below F (?l(?s := ?l ?s + 1)) (fst m) (snd m)" if "m \<in> set (qs_histograms st)" for m
    using histogram_below_mono [OF ok(1) [OF that]] by blast
  have look: "\<forall>n \<in> set (map fst ?vs). \<forall>h. map_of (qs_histograms st) (n @ CHR '':'' # ?s) = Some h \<longrightarrow>
      histogram_below F ?l (n @ CHR '':'' # ?s) h \<and> fl_finite F (hg_sum h)"
    using ok by (fastforce dest: map_of_SomeD)
  have hs': "keys_sorted hs \<and> (\<forall>m \<in> set hs. histogram_below F (?l(?s := ?l ?s + 1)) (fst m) (snd m))"
    by (rule add_observations_below [where l = ?l, OF F True l hs])
      (use event_values [OF e] ks(2) up look in \<open>auto simp: histogram_names_def\<close>)
  have comp: "completed_of st' = ?l(?s := ?l ?s + 1)"
    using completed_of_put [OF ks(1), of ?s "?l ?s + 1"] by (simp add: st' completed_of_def fun_eq_iff)
  have keys: "terminal (fst m)" if "m \<in> set (map_put ?s (?l ?s + 1) (qs_completed st))" for m
  proof -
    have "fst m \<in> insert ?s (fst ` set (qs_completed st))" using that map_put_keys by (metis image_eqI)
    then show ?thesis using st True by (auto simp: stats_ok_def)
  qed
  have "\<forall>m \<in> set hs. histogram_ok F st' (fst m) (snd m)"
    using hs' fin unfolding histogram_ok_below comp by (simp add: st' sums_finite_def)
  then show ?thesis
    using st hs' keys ks(1) map_put_sorted by (auto simp: stats_ok_def st')
qed

lemma save_check_Inr:
  "save_check F st = Inr u \<longleftrightarrow>
     qs_revision st \<noteq> - 1 \<and> zoned_json_ok (qs_floor st) \<and> sums_finite F (qs_histograms st)"
  by (simp add: save_check_def sums_finite_def list_all_iff case_prod_unfold split: if_splits) blast?

section \<open>The invariant\<close>

lemma query_wfD:
  assumes "query_wf F opts a"
  shows "stats_ok F (qa_stats a)" "finite (dom (qa_cps a))" "qa_cps a i = Some c \<Longrightarrow> query_cp_ok i c"
    "sorted_wrt (<) (map fst (qa_queue a))"
    "(s, e) \<in> set (qa_queue a) \<Longrightarrow> 0 < s \<and> s \<le> qa_seq a \<and> event_good F opts e"
    "(s, e) \<in> set (qa_queue a) \<Longrightarrow> locked a e \<Longrightarrow> \<exists>c. qa_cps a (qe_query_id e) = Some c \<and> matches F e c"
    "qs_pending (qa_stats a) = int (length (qa_queue a))"
    "qs_bytes (qa_stats a) = int (queue_bytes F (qa_queue a))"
  using assms by (auto simp: query_wf_def)

lemma sums_finite_ok: "stats_ok F st \<Longrightarrow> sums_finite F (qs_histograms st)"
  by (auto simp: stats_ok_def histogram_ok_below sums_finite_def)

lemma event_when_times: "event_when e \<in> set (event_times e)"
  by (auto simp: event_when_def event_times_def split: option.split)

lemma recorded_cp_ok:
  assumes "event_good F opts e" "event_hash F e = Some hash" "hash \<noteq> zero_hash"
  shows "query_cp_ok (qe_query_id e) (recorded_cp hash e)"
proof -
  have t: "time_typed (qe_observed e)" "time_typed (event_when e)"
    using assms(1) event_when_times [of e]
    by (auto simp: event_good_def event_typed_def list_all_iff event_times_def)
  have "length hash = 32" using assms(2) by (auto simp: event_hash_def)
  moreover have "\<not> zoned_is_zero (event_when e)" "\<not> zoned_is_zero (qe_observed e)" "valid_query_id (qe_query_id e)"
    using assms(1) by (auto simp: event_good_def event_valid_def event_when_def split: option.split)
  ultimately show ?thesis using t assms(3) by (simp add: query_cp_ok_def recorded_cp_def)
qed

definition capacity_ok :: "query_options \<Rightarrow> bool" where
  "capacity_ok opts \<longleftrightarrow>
     1 \<le> qo_max_bytes opts \<and> qo_max_bytes opts \<le> max_int64 \<and> 1 \<le> qo_max_events opts \<and>
     qo_max_events opts \<le> max_int64 \<and> qo_source opts \<noteq> [] \<and> length (qo_source opts) \<le> 1024 \<and>
     utf8_valid (qo_source opts)"

lemma bump_simps [simp]:
  "qs_floor (bump st) = qs_floor st" "qs_pending (bump st) = qs_pending st" "qs_bytes (bump st) = qs_bytes st"
  "qs_completed (bump st) = qs_completed st" "qs_histograms (bump st) = qs_histograms st"
  "qs_revision (bump st) = qs_revision st + 1"
  by (simp_all add: bump_def)

lemma spec_record_wf:
  assumes F: "float_ok F" and w: "query_wf F opts a" and o: "capacity_ok opts"
    and e: "event_good F opts e" "event_hash F e = Some hash" "hash \<noteq> zero_hash"
    and room: "qa_seq a \<noteq> - 1" and r: "spec_record F opts e hash a = Inr a'"
  shows "query_wf F opts a'"
proof (cases "settled_event a e")
  case True
  then show ?thesis using r w by (auto simp: spec_record_def Let_def split: if_splits)
next
  case new: False
  note wd = query_wfD [OF w]
  define q where "q = queues opts hash e a"
  define st0 where "st0 = (if q then queued_stats F e (qa_stats a) else qa_stats a)"
  from r new obtain st' where c: "count_terminal F e st0 = Inr st'" and sv: "save_check F st' = Inr ()"
    and cap: "q \<Longrightarrow> qs_pending (qa_stats a) < qo_max_events opts"
      "q \<Longrightarrow> int (length (event_text F e)) \<le> qo_max_bytes opts - qs_bytes (qa_stats a)"
    and a': "a' = a\<lparr>qa_stats := bump st', qa_cps := (qa_cps a)(qe_query_id e \<mapsto> recorded_cp hash e),
                 qa_queue := (if q then qa_queue a @ [(qa_seq a + 1, e)] else qa_queue a),
                 qa_seq := (if q then qa_seq a + 1 else qa_seq a)\<rparr>"
    by (auto simp: spec_record_def Let_def bindE_Inr_iff q_def [symmetric] st0_def not_le not_less split: if_splits)
  have st0: "stats_ok F st0"
  proof (cases q)
    case True
    have "histogram_ok F st0 k h = histogram_ok F (qa_stats a) k h" for k h
      by (simp add: histogram_ok_def completed_of_def st0_def queued_stats_def)
    then show ?thesis using True wd(1) cap o
      by (auto simp: st0_def queued_stats_def stats_ok_def capacity_ok_def)
  qed (simp add: st0_def wd(1))
  note sv' = sv [unfolded save_check_Inr]
  have ev: "event_valid F e (qo_source opts)" using e(1) by (simp add: event_good_def)
  note ct = count_terminal_ok [OF F st0 ev c conjunct2 [OF conjunct2 [OF sv']]]
  have st': "stats_ok F (bump st')" using ct sv' by (intro bump_ok) simp_all
  have cnt: "qs_floor st' = qs_floor (qa_stats a)"
    "qs_pending st' = qs_pending (qa_stats a) + (if q then 1 else 0)"
    "qs_bytes st' = qs_bytes (qa_stats a) + (if q then int (length (event_text F e)) else 0)"
    using ct by (simp_all add: st0_def queued_stats_def)
  have lk: "locked a' x \<longleftrightarrow> locked a x" for x by (simp add: locked_def a' cnt(1))
  have rc: "query_cp_ok (qe_query_id e) (recorded_cp hash e)" by (rule recorded_cp_ok [OF e])
  have match: "matches F e (recorded_cp hash e)" if "terminal (qe_state e)"
    using that e(2) by (simp add: matches_def recorded_cp_def)
  have old: "\<exists>c. qa_cps a' (qe_query_id x) = Some c \<and> matches F x c" if "(s, x) \<in> set (qa_queue a)" "locked a x" for s x
  proof -
    note wd(6) [OF that]
    then obtain c where c: "qa_cps a (qe_query_id x) = Some c" "matches F x c" by blast
    have "qe_query_id x \<noteq> qe_query_id e" using new c by (auto simp: settled_event_def matches_def)
    then show ?thesis using c by (simp add: a')
  qed
  note top = below_top [OF room]
  have grow: "s < qa_seq a + 1" "0 < qa_seq a + 1" if "s \<le> qa_seq a" for s
    using that top by (auto simp: word_gt_0 intro: le_less_trans)
  have entries: "\<forall>(s, x) \<in> set (qa_queue a'). 0 < s \<and> s \<le> qa_seq a' \<and> event_good F opts x \<and>
      (locked a' x \<longrightarrow> (\<exists>c. qa_cps a' (qe_query_id x) = Some c \<and> matches F x c))"
  proof (intro ballI, clarsimp simp: lk)
    fix s x assume m: "(s, x) \<in> set (qa_queue a')"
    show "0 < s \<and> s \<le> qa_seq a' \<and> event_good F opts x \<and>
      (locked a x \<longrightarrow> (\<exists>c. qa_cps a' (qe_query_id x) = Some c \<and> matches F x c))"
    proof (cases "(s, x) \<in> set (qa_queue a)")
      case True
      have "s \<le> qa_seq a'" using wd(5) [OF True] grow by (auto simp: a' intro: less_imp_le)
      then show ?thesis using wd(5) [OF True] old [OF True] by blast
    next
      case False
      then have "q" "s = qa_seq a + 1" "x = e" using m by (auto simp: a' split: if_splits)
      then show ?thesis using grow(2) [OF order_refl] e(1) match by (auto simp: a' locked_def)
    qed
  qed
  have sorted: "sorted_wrt (<) (map fst (qa_queue a'))"
    using wd(4,5) grow(1) by (auto simp: a' sorted_wrt_append)
  have cps: "\<forall>i c. qa_cps a' i = Some c \<longrightarrow> query_cp_ok i c"
    using wd(3) rc by (auto simp: a')
  have counters: "qs_pending (qa_stats a') = int (length (qa_queue a'))"
    "qs_bytes (qa_stats a') = int (queue_bytes F (qa_queue a'))"
    using wd(7,8) by (simp_all add: a' cnt queue_bytes_def)
  show ?thesis
    using st' sorted entries cps counters wd(2) unfolding query_wf_def by (simp add: a')
qed

text \<open>Pruning removes the checkpoints before the new floor; what the floor still covers stays.\<close>

lemma prune_floor_mono: "zt_at (qs_floor st) \<le> zt_at (prune_floor opts now st)"
  by (simp add: prune_floor_def Let_def)

lemma spec_prune_wf:
  assumes w: "query_wf F opts a" and t: "zoned_json_ok (prune_floor opts now (qa_stats a)) \<Longrightarrow>
      time_typed (prune_floor opts now (qa_stats a))"
    and r: "spec_prune F opts now a = Inr a'"
  shows "query_wf F opts a'"
proof -
  let ?fl = "prune_floor opts now (qa_stats a)" and ?st = "(qa_stats a)\<lparr>qs_floor := prune_floor opts now (qa_stats a)\<rparr>"
  note wd = query_wfD [OF w]
  from r have sv: "save_check F ?st = Inr ()"
    and a': "a' = a\<lparr>qa_stats := bump ?st, qa_cps := (\<lambda>i. case qa_cps a i of None \<Rightarrow> None
               | Some c \<Rightarrow> if zt_at (qc_time c) < zt_at ?fl then None else Some c)\<rparr>"
    by (auto simp: spec_prune_def Let_def bindE_Inr_iff)
  have "histogram_ok F ?st k h = histogram_ok F (qa_stats a) k h" for k h
    by (simp add: histogram_ok_def completed_of_def)
  then have st: "stats_ok F (bump ?st)"
    using wd(1) sv t by (intro bump_ok) (auto simp: save_check_Inr stats_ok_def)
  have cps: "query_cp_ok i c" if "qa_cps a' i = Some c" for i c
    using wd(3) that by (auto simp: a' split: option.splits if_splits)
  have fin: "finite (dom (qa_cps a'))"
    by (rule finite_subset [OF _ wd(2)]) (auto simp: a' split: option.splits)
  have keep: "\<exists>c. qa_cps a' (qe_query_id x) = Some c \<and> matches F x c"
    if m: "(s, x) \<in> set (qa_queue a)" and l: "locked a' x" for s x
  proof -
    have "\<not> zt_at (event_when x) < zt_at ?fl" "locked a x"
      using l prune_floor_mono [of "qa_stats a" opts now] by (auto simp: locked_def a')
    moreover obtain c where "qa_cps a (qe_query_id x) = Some c" "matches F x c"
      using wd(6) [OF m] calculation(2) by blast
    ultimately show ?thesis by (simp add: a' matches_def)
  qed
  show ?thesis
    unfolding query_wf_def
  proof (intro conjI)
    show "\<forall>(s, e) \<in> set (qa_queue a'). 0 < s \<and> s \<le> qa_seq a' \<and> event_good F opts e \<and>
        (locked a' e \<longrightarrow> (\<exists>c. qa_cps a' (qe_query_id e) = Some c \<and> matches F e c))"
      using wd(5) keep by (auto simp: a')
  qed (use st cps fin wd(4,7,8) in \<open>auto simp: a'\<close>)
qed

text \<open>Acknowledging removes one entry and its part of the counters.\<close>

lemma queue_remove:
  assumes "map_of q s = Some e" "distinct (map fst q)"
  shows "length q = Suc (length (without_seq s q))"
    "queue_bytes F q = length (event_text F e) + queue_bytes F (without_seq s q)"
proof -
  obtain xs ys where q: "q = xs @ (s, e) # ys" using map_of_SomeD [OF assms(1)] by (auto simp: in_set_conv_decomp)
  have "without_seq s xs = xs" "without_seq s ys = ys"
    unfolding without_seq_def using assms(2) q by (intro filter_id_iff; auto simp: image_iff)+
  then have "without_seq s q = xs @ ys" by (simp add: q without_seq_def)
  then show "length q = Suc (length (without_seq s q))"
    "queue_bytes F q = length (event_text F e) + queue_bytes F (without_seq s q)"
    by (simp_all add: q queue_bytes_def)
qed

lemma sorted_less_distinct: "sorted_wrt (<) (xs :: u64 list) \<Longrightarrow> distinct xs"
  by (induction xs) auto

lemma query_wf_distinct: "query_wf F opts a \<Longrightarrow> distinct (map fst (qa_queue a))"
  by (rule sorted_less_distinct) (simp add: query_wf_def)

lemma spec_ack_wf:
  assumes w: "query_wf F opts a" and r: "spec_ack F s a = Inr a'"
  shows "query_wf F opts a'"
proof (cases "map_of (qa_queue a) s")
  case None
  then show ?thesis using r w by (simp add: spec_ack_def)
next
  case (Some e)
  let ?st = "(qa_stats a)\<lparr>qs_pending := qs_pending (qa_stats a) - 1,
     qs_bytes := qs_bytes (qa_stats a) - int (length (event_text F e))\<rparr>"
  note wd = query_wfD [OF w]
  note rem = queue_remove(1) [OF Some query_wf_distinct [OF w]]
    queue_remove(2) [OF Some query_wf_distinct [OF w], where F = F]
  from r Some have sv: "save_check F ?st = Inr ()"
    and a': "a' = a\<lparr>qa_stats := bump ?st, qa_queue := without_seq s (qa_queue a)\<rparr>"
    by (auto simp: spec_ack_def Let_def bindE_Inr_iff)
  have "histogram_ok F ?st k h = histogram_ok F (qa_stats a) k h" for k h
    by (simp add: histogram_ok_def completed_of_def)
  then have st: "stats_ok F (bump ?st)"
    using wd(1,7,8) sv rem by (intro bump_ok) (auto simp: save_check_Inr stats_ok_def)
  have lk: "locked a' x \<longleftrightarrow> locked a x" for x by (simp add: locked_def a')
  have sub: "set (qa_queue a') \<subseteq> set (qa_queue a)" by (auto simp: a' without_seq_def)
  have sorted: "sorted_wrt (<) (map fst (qa_queue a'))"
    using wd(4) by (simp add: a' without_seq_def sorted_wrt_map sorted_wrt_filter)
  show ?thesis
    unfolding query_wf_def
  proof (intro conjI)
    show "\<forall>(s, e) \<in> set (qa_queue a'). 0 < s \<and> s \<le> qa_seq a' \<and> event_good F opts e \<and>
        (locked a' e \<longrightarrow> (\<exists>c. qa_cps a' (qe_query_id e) = Some c \<and> matches F e c))"
      using wd(5,6) sub unfolding lk by (fastforce simp: a')
  qed (use st sorted wd(2,3,7,8) rem in \<open>auto simp: a'\<close>)
qed

end
