(* ===== verification/Query_Refine.thy ===== *)
theory Query_Refine
  imports Query_Spec Outbox_Refine
begin

text \<open>
  The query state implements its specification: on a database that represents an abstract state, every
  operation of \<open>Query_Store\<close> fails as the specification says and leaves the database as it is, or fails to
  commit and leaves it as it is, or commits a database that represents the specified state.
\<close>

section \<open>Representation\<close>

definition stats_text :: "'f float_ops \<Rightarrow> 'f query_stats \<Rightarrow> bytes" where
  "stats_text F st = json_print (stats_json F st)"

definition cp_text :: "query_checkpoint \<Rightarrow> bytes" where
  "cp_text c = json_print (query_cp_json c)"

definition query_entry :: "'f float_ops \<Rightarrow> u64 \<times> 'f query_event \<Rightarrow> bytes \<times> bytes" where
  "query_entry F m = (be64 (fst m), event_text F (snd m))"

definition query_view ::
  "'f float_ops \<Rightarrow> 'd bolt \<Rightarrow> query_options \<Rightarrow> 'd \<Rightarrow> bytes option \<Rightarrow> (bytes \<rightharpoonup> query_checkpoint)
   \<Rightarrow> (u64 \<times> 'f query_event) list \<Rightarrow> u64 \<Rightarrow> bool" where
  "query_view F B opts d st cps q n \<longleftrightarrow>
     has_bucket B d query_meta \<and> has_bucket B d query_cps \<and> has_bucket B d query_events \<and>
     bget B d query_meta key_version = Some ''1'' \<and> bget B d query_meta key_source = Some (qo_source opts) \<and>
     bget B d query_meta key_stats = st \<and>
     map_of (bentries B d query_cps) = (\<lambda>i. map_option cp_text (cps i)) \<and>
     bentries B d query_events = map (query_entry F) q \<and> bseq B d query_events = n"

definition query_represents :: "'f float_ops \<Rightarrow> 'd bolt \<Rightarrow> query_options \<Rightarrow> 'd \<Rightarrow> 'f query_abs \<Rightarrow> bool" where
  "query_represents F B opts d a \<longleftrightarrow>
     settled B d \<and> query_wf F opts a \<and>
     query_view F B opts d (Some (stats_text F (qa_stats a))) (qa_cps a) (qa_queue a) (qa_seq a)"

definition query_refined ::
  "'f float_ops \<Rightarrow> 'd bolt \<Rightarrow> query_options \<Rightarrow> 'd \<Rightarrow> go_error + 'f query_abs \<Rightarrow> 'd \<times> go_error option \<Rightarrow> bool" where
  "query_refined F B opts d spec result \<longleftrightarrow>
     (case spec of
        Inl e \<Rightarrow> result = (d, Some e)
      | Inr a' \<Rightarrow>
          (\<exists>d'. result = (d', None) \<and> query_represents F B opts d' a') \<or>
          commit_fails B \<and> result = (d, Some commit_error))"

section \<open>Transactions on a view\<close>

lemma query_buckets [simp]:
  "query_meta \<noteq> query_cps" "query_cps \<noteq> query_meta" "query_meta \<noteq> query_events" "query_events \<noteq> query_meta"
  "query_cps \<noteq> query_events" "query_events \<noteq> query_cps" "query_meta \<noteq> []" "query_cps \<noteq> []" "query_events \<noteq> []"
  "key_version \<noteq> key_source" "key_source \<noteq> key_version" "key_stats \<noteq> key_source" "key_source \<noteq> key_stats"
  "key_stats \<noteq> key_version" "key_version \<noteq> key_stats"
  by (simp_all add: query_meta_def query_cps_def query_events_def key_version_def key_source_def key_stats_def)

lemma query_viewD:
  assumes "bolt_ok B" "query_view F B opts d st cps q n"
  shows "has_bucket B d query_meta" "has_bucket B d query_cps" "has_bucket B d query_events"
    "bget B d query_meta key_stats = st" "bget B d query_cps i = map_option cp_text (cps i)"
    "bentries B d query_events = map (query_entry F) q" "bseq B d query_events = n"
    "length (bentries B d query_cps) = card (dom cps)"
    "bget B d query_events (be64 s) = map_option (event_text F) (map_of q s)"
proof -
  have m: "map_of (bentries B d query_cps) = (\<lambda>i. map_option cp_text (cps i))" using assms(2) by (simp add: query_view_def)
  then have "dom (map_of (bentries B d query_cps)) = dom cps" by (auto simp: dom_def)
  then show "length (bentries B d query_cps) = card (dom cps)"
    using bolt_distinct [OF assms(1), of d query_cps]
    by (metis distinct_card dom_map_of_conv_image_fst length_map list.set_map)
  have "map_of (map (query_entry F) q) (be64 s) = map_option (event_text F) (map_of q s)"
    by (induction q) (auto simp: query_entry_def)
  then show "bget B d query_events (be64 s) = map_option (event_text F) (map_of q s)"
    using assms by (simp add: query_view_def bolt_get)
  show "bget B d query_cps i = map_option cp_text (cps i)" using m by (simp add: bolt_get [OF assms(1)])
qed (use assms(2) in \<open>simp_all add: query_view_def\<close>)

lemma query_put_cp:
  assumes B: "bolt_ok B" and v: "query_view F B opts d st cps q n" and c: "query_cp_ok i c"
  obtains d' where "putE B query_cps i (cp_text c) d = Inr d'" "query_view F B opts d' st (cps(i \<mapsto> c)) q n"
proof -
  have "valid_query_id i" "length (cp_text c) \<le> 2048"
    using c checkpoint_size [OF c] by (simp_all add: query_cp_ok_def cp_text_def max_small_bytes_def)
  then have kv: "kv_valid i (cp_text c)" by (auto simp: kv_valid_def valid_query_id_def)
  obtain d' where d: "putE B query_cps i (cp_text c) d = Inr d'" "same_but B query_cps d d'"
    "bentries B d' query_cps = kv_put i (cp_text c) (bentries B d query_cps)"
    using bolt_put [OF B query_viewD(2) [OF B v] kv] by blast
  have "query_view F B opts d' st (cps(i \<mapsto> c)) q n"
    using v d(3) same_butD [OF d(2)]
    by (auto simp: query_view_def map_of_kv_put bolt_sorted [OF B] bolt_get [OF B] fun_eq_iff)
  with d(1) show ?thesis by (rule that)
qed

lemma query_delete_cp:
  assumes B: "bolt_ok B" and v: "query_view F B opts d st cps q n"
  obtains d' where "deleteE B query_cps i d = Inr d'" "query_view F B opts d' st (cps(i := None)) q n"
proof -
  obtain d' where d: "deleteE B query_cps i d = Inr d'" "same_but B query_cps d d'"
    "bentries B d' query_cps = kv_delete i (bentries B d query_cps)"
    using bolt_delete [OF B query_viewD(2) [OF B v]] by blast
  have "query_view F B opts d' st (cps(i := None)) q n"
    using v d(3) same_butD [OF d(2)] by (auto simp: query_view_def map_of_kv_delete bolt_get [OF B] fun_eq_iff)
  with d(1) show ?thesis by (rule that)
qed

lemma query_put_event:
  assumes B: "bolt_ok B" and v: "query_view F B opts d st cps q n" and l: "length (event_text F e) \<le> max_query_bytes"
    and new: "\<And>m. m \<in> set q \<Longrightarrow> fst m < s"
  obtains d' where "putE B query_events (be64 s) (event_text F e) d = Inr d'"
    "query_view F B opts d' st cps (q @ [(s, e)]) n"
proof -
  have "be64 s \<noteq> []" using length_be64 [of s] by fastforce
  then have kv: "kv_valid (be64 s) (event_text F e)" using l by (simp add: kv_valid_def max_query_bytes_def)
  obtain d' where d: "putE B query_events (be64 s) (event_text F e) d = Inr d'" "same_but B query_events d d'"
    "bentries B d' query_events = kv_put (be64 s) (event_text F e) (bentries B d query_events)"
    using bolt_put [OF B query_viewD(3) [OF B v] kv] by blast
  have "kv_put (be64 s) (event_text F e) (map (query_entry F) q) = map (query_entry F) q @ [(be64 s, event_text F e)]"
    by (rule kv_put_last) (use new in \<open>auto simp: query_entry_def\<close>)
  then have "query_view F B opts d' st cps (q @ [(s, e)]) n"
    using v d(3) same_butD [OF d(2)] by (simp add: query_view_def bolt_get [OF B]) (simp add: query_entry_def)
  with d(1) show ?thesis by (rule that)
qed

lemma query_delete_event:
  assumes B: "bolt_ok B" and v: "query_view F B opts d st cps q n"
  obtains d' where "deleteE B query_events (be64 s) d = Inr d'" "query_view F B opts d' st cps (without_seq s q) n"
proof -
  obtain d' where d: "deleteE B query_events (be64 s) d = Inr d'" "same_but B query_events d d'"
    "bentries B d' query_events = kv_delete (be64 s) (bentries B d query_events)"
    using bolt_delete [OF B query_viewD(3) [OF B v]] by blast
  have "kv_delete (be64 s) (map (query_entry F) q) = map (query_entry F) (without_seq s q)"
    by (simp add: kv_delete_def without_seq_def filter_map comp_def query_entry_def)
  then have "query_view F B opts d' st cps (without_seq s q) n"
    using v d(3) same_butD [OF d(2)] by (simp add: query_view_def bolt_get [OF B])
  with d(1) show ?thesis by (rule that)
qed

lemma query_next_seq:
  assumes B: "bolt_ok B" and v: "query_view F B opts d st cps q n"
  obtains d' where "next_seqE B query_events d = Inr (d', n + 1)" "query_view F B opts d' st cps q (n + 1)"
proof -
  obtain d' where "next_seqE B query_events d = Inr (d', bseq B d query_events + 1)"
    "\<And>b'. has_bucket B d' b' = has_bucket B d b'" "\<And>b'. bentries B d' b' = bentries B d b'"
    "\<And>b'. bseq B d' b' = (if b' = query_events then bseq B d query_events + 1 else bseq B d b')"
    using bolt_seq [OF B query_viewD(3) [OF B v]] by blast
  then show ?thesis using v by (intro that [of d']) (simp_all add: query_view_def bolt_get [OF B])
qed

lemma query_save_stats:
  assumes B: "bolt_ok B" and F: "float_ok F" and v: "query_view F B opts d x cps q n" and st: "stats_ok F (bump st)"
    and ok: "save_check F st = Inr ()"
  obtains d' where "save_stats F B st d = Inr d'"
    "query_view F B opts d' (Some (stats_text F (bump st))) cps q n"
proof -
  let ?t = "stats_text F (bump st)"
  have kv: "kv_valid key_stats ?t"
    using stats_size [OF F st] by (simp add: kv_valid_def key_stats_def stats_text_def max_query_bytes_def)
  obtain d' where d: "putE B query_meta key_stats ?t d = Inr d'" "same_but B query_meta d d'"
    "bentries B d' query_meta = kv_put key_stats ?t (bentries B d query_meta)"
    using bolt_put [OF B query_viewD(1) [OF B v] kv] by blast
  have "save_stats F B st d = Inr d'"
    using d(1) ok marshal_stats_ok [OF st]
    by (simp add: save_stats_def save_check_Inr stats_text_def bump_def del: json_print.simps)
  moreover have "query_view F B opts d' (Some ?t) cps q n"
    using v d(3) same_butD [OF d(2)] by (auto simp: query_view_def map_of_kv_put bolt_sorted [OF B] bolt_get [OF B])
  ultimately show ?thesis by (rule that)
qed

lemma save_stats_fails: "save_check F st = Inl e \<Longrightarrow> save_stats F B st d = Inl e"
  by (auto simp: save_check_def save_stats_def marshal_stats_def split: if_splits)

lemma query_refinedI:
  assumes B: "bolt_ok B" and t: "f d = Inr (d1, ())" and w: "query_wf F opts a'"
    and v: "query_view F B opts d1 (Some (stats_text F (qa_stats a'))) (qa_cps a') (qa_queue a') (qa_seq a')"
  shows "query_refined F B opts d (Inr a') (case update_tx B () f d of (d', _, err) \<Rightarrow> (d', err))"
proof (cases "commit B d1")
  case None
  then show ?thesis by (auto simp: query_refined_def update_tx_def t commit_fails_def)
next
  case (Some d')
  have "query_represents F B opts d' a'"
    using v w bolt_commit [OF B Some] by (simp add: query_represents_def query_view_def bolt_get [OF B])
  with Some show ?thesis by (simp add: query_refined_def update_tx_def t)
qed

lemma query_refined_fails:
  "f d = Inl e \<Longrightarrow> query_refined F B opts d (Inl e) (case update_tx B () f d of (d', _, err) \<Rightarrow> (d', err))"
  by (simp add: query_refined_def update_tx_def)

section \<open>What a transaction reads\<close>

lemma query_representsD:
  assumes "query_represents F B opts d a"
  shows "settled B d" "query_wf F opts a"
    "query_view F B opts d (Some (stats_text F (qa_stats a))) (qa_cps a) (qa_queue a) (qa_seq a)"
  using assms by (simp_all add: query_represents_def)

lemma query_read_stats:
  assumes "float_ok F" "bolt_ok B" "query_represents F B opts d a"
  shows "read_stats F B d = Inr (qa_stats a)"
  using query_viewD(1,4) [OF assms(2) query_representsD(3) [OF assms(3)]]
    decode_stats_print [OF assms(1) query_wfD(1) [OF query_representsD(2) [OF assms(3)]]]
  by (simp add: read_stats_def stats_text_def)

lemma query_decode_cp:
  "query_wf F opts a \<Longrightarrow> qa_cps a i = Some c \<Longrightarrow> decode_query_cp i (cp_text c) = Some c"
  using decode_query_cp_print query_wfD(3) unfolding cp_text_def by blast

section \<open>Pruning\<close>

lemma prune_loop_view:
  assumes B: "bolt_ok B" and v: "query_view F B opts d st m q n"
    and es: "\<And>k v. (k, v) \<in> set es \<Longrightarrow> \<exists>c. cps k = Some c \<and> v = cp_text c \<and> decode_query_cp k v = Some c"
  shows "\<exists>d'. prune_loop B fl es d = Inr d' \<and>
    query_view F B opts d' st (\<lambda>i. if i \<in> fst ` set es \<and> (\<exists>c. cps i = Some c \<and> zt_at (qc_time c) < zt_at fl)
                              then None else m i) q n"
  using v es
proof (induction es arbitrary: d m)
  case (Cons x es)
  obtain k v where x: "x = (k, v)" by (cases x)
  obtain c where c: "cps k = Some c" "decode_query_cp k v = Some c" using Cons.prems(2) [of k v] x by auto
  show ?case
  proof (cases "zt_at (qc_time c) < zt_at fl")
    case True
    obtain d1 where d1: "deleteE B query_cps k d = Inr d1" "query_view F B opts d1 st (m(k := None)) q n"
      using query_delete_cp [OF B Cons.prems(1)] by blast
    have "(\<lambda>i. if i \<in> fst ` set es \<and> (\<exists>c. cps i = Some c \<and> zt_at (qc_time c) < zt_at fl) then None else (m(k := None)) i) =
        (\<lambda>i. if i \<in> fst ` set (x # es) \<and> (\<exists>c. cps i = Some c \<and> zt_at (qc_time c) < zt_at fl) then None else m i)"
      using c True by (auto simp: x fun_eq_iff)
    then show ?thesis
      using Cons.IH [OF d1(2)] Cons.prems(2) d1(1) c True by (auto simp: x)
  next
    case False
    have "(\<lambda>i. if i \<in> fst ` set es \<and> (\<exists>c. cps i = Some c \<and> zt_at (qc_time c) < zt_at fl) then None else m i) =
        (\<lambda>i. if i \<in> fst ` set (x # es) \<and> (\<exists>c. cps i = Some c \<and> zt_at (qc_time c) < zt_at fl) then None else m i)"
      using c False by (auto simp: x fun_eq_iff)
    then show ?thesis
      using Cons.IH [OF Cons.prems(1)] Cons.prems(2) c False by (auto simp: x)
  qed
qed (simp add: fun_eq_iff)

lemma query_cp_entries:
  assumes "bolt_ok B" "query_represents F B opts d a" "(k, v) \<in> set (bentries B d query_cps)"
  shows "\<exists>c. qa_cps a k = Some c \<and> v = cp_text c \<and> decode_query_cp k v = Some c"
proof -
  have "map_of (bentries B d query_cps) k = Some v"
    using assms(3) bolt_distinct [OF assms(1)] by (simp add: map_of_is_SomeI)
  then have "map_option cp_text (qa_cps a k) = Some v"
    using query_representsD(3) [OF assms(2)] by (simp add: query_view_def)
  then show ?thesis using query_decode_cp [OF query_representsD(2) [OF assms(2)]] by auto
qed

theorem prune_refines:
  assumes F: "float_ok F" and B: "bolt_ok B" and r: "query_represents F B opts d a" and t: "zt_off now mod 60 = 0"
  shows "query_refined F B opts d (spec_prune F opts now a) (prune F B opts now d)"
proof -
  let ?fl = "prune_floor opts now (qa_stats a)"
  let ?st = "(qa_stats a)\<lparr>qs_floor := ?fl\<rparr>"
  let ?m = "\<lambda>i. case qa_cps a i of None \<Rightarrow> None | Some c \<Rightarrow> if zt_at (qc_time c) < zt_at ?fl then None else Some c"
  note w = query_representsD(2) [OF r] and v = query_representsD(3) [OF r]
  obtain d1 where d1: "prune_loop B ?fl (bentries B d query_cps) d = Inr d1"
    and v1: "query_view F B opts d1 (Some (stats_text F (qa_stats a)))
      (\<lambda>i. if i \<in> fst ` set (bentries B d query_cps) \<and> (\<exists>c. qa_cps a i = Some c \<and> zt_at (qc_time c) < zt_at ?fl)
           then None else qa_cps a i) (qa_queue a) (qa_seq a)"
    using prune_loop_view [OF B v query_cp_entries [OF B r]] by blast
  have "dom (map_of (bentries B d query_cps)) = dom (qa_cps a)" using v by (auto simp: query_view_def dom_def)
  then have "fst ` set (bentries B d query_cps) = dom (qa_cps a)" by (simp add: dom_map_of_conv_image_fst)
  then have "(\<lambda>i. if i \<in> fst ` set (bentries B d query_cps) \<and> (\<exists>c. qa_cps a i = Some c \<and> zt_at (qc_time c) < zt_at ?fl)
           then None else qa_cps a i) = ?m"
    by (auto simp: fun_eq_iff split: option.split)
  note v1 = v1 [unfolded this]
  have start: "prune_tx F B opts now d = bindE (save_stats F B ?st d1) (\<lambda>d2. Inr (d2, ()))"
    using query_read_stats [OF F B r] d1 by (simp add: prune_tx_def Let_def)
  have typed: "zoned_json_ok ?fl \<Longrightarrow> time_typed ?fl"
    using t query_wfD(1) [OF w] by (auto simp: time_typed_def prune_floor_def zoned_add_def stats_ok_def Let_def)
  show ?thesis
  proof (cases "save_check F ?st")
    case (Inl e)
    then have "prune_tx F B opts now d = Inl e" "spec_prune F opts now a = Inl e"
      using save_stats_fails [OF Inl, of B d1] start by (simp_all add: spec_prune_def Let_def)
    then show ?thesis by (simp add: prune_def query_refined_fails)
  next
    case (Inr u)
    let ?a = "a\<lparr>qa_stats := bump ?st, qa_cps := ?m\<rparr>"
    have spec: "spec_prune F opts now a = Inr ?a" using Inr by (simp add: spec_prune_def Let_def)
    have wa: "query_wf F opts ?a" by (rule spec_prune_wf [OF w typed spec])
    have "stats_ok F (bump ?st)" using query_wfD(1) [OF wa] by simp
    then obtain d2 where "save_stats F B ?st d1 = Inr d2"
      "query_view F B opts d2 (Some (stats_text F (bump ?st))) ?m (qa_queue a) (qa_seq a)"
      using query_save_stats [OF B F v1, of ?st] Inr by auto
    then show ?thesis
      unfolding spec prune_def using wa start by (intro query_refinedI [OF B]) simp_all
  qed
qed

section \<open>Acknowledging\<close>

lemma hash_observed: "event_hash F (e\<lparr>qe_observed := t\<rparr>) = event_hash F e"
  by (simp add: event_hash_def)

lemma query_validate_record:
  assumes F: "float_ok F" and B: "bolt_ok B" and r: "query_represents F B opts d a" and m: "(s, e) \<in> set (qa_queue a)"
  shows "validate_query_record F B opts (be64 s) (event_text F e) (qs_floor (qa_stats a)) d = Inr e"
proof -
  note w = query_representsD(2) [OF r] and v = query_representsD(3) [OF r]
  note we = query_wfD(5) [OF w m]
  have "decode_query_event F (event_text F e) (qo_source opts) = Some e"
    using decode_query_event_print [OF F, of e] we by (simp add: event_good_def event_text_def del: json_print.simps)
  moreover have "\<exists>c. bget B d query_cps (qe_query_id e) = Some (cp_text c) \<and>
      decode_query_cp (qe_query_id e) (cp_text c) = Some c \<and> matches F e c" if "locked a e"
    using query_wfD(6) [OF w m that] query_decode_cp [OF w] query_viewD(5) [OF B v] by fastforce
  ultimately show ?thesis
    using we query_viewD(7) [OF B v] by (auto simp: validate_query_record_def locked_def matches_def)
qed

theorem ack_query_refines:
  assumes F: "float_ok F" and B: "bolt_ok B" and r: "query_represents F B opts d a"
  shows "query_refined F B opts d (spec_ack F s a) (ack_query F B opts s d)"
proof (cases "map_of (qa_queue a) s")
  case None
  have "ack_query_tx F B opts s d = Inr (d, ())"
    using None query_viewD(9) [OF B query_representsD(3) [OF r]] by (simp add: ack_query_tx_def)
  then show ?thesis
    using None query_representsD(2,3) [OF r] unfolding ack_query_def
    by (simp add: spec_ack_def) (intro query_refinedI [OF B], simp_all)
next
  case (Some e)
  note w = query_representsD(2) [OF r] and v = query_representsD(3) [OF r]
  let ?st = "(qa_stats a)\<lparr>qs_pending := qs_pending (qa_stats a) - 1,
     qs_bytes := qs_bytes (qa_stats a) - int (length (event_text F e))\<rparr>"
  note rem = queue_remove(1) [OF Some query_wf_distinct [OF w]]
    queue_remove(2) [OF Some query_wf_distinct [OF w], where F = F]
  note wd = query_wfD [OF w]
  have wr: "wrap64 (qs_pending (qa_stats a) - 1) = qs_pending (qa_stats a) - 1"
    "wrap64 (qs_bytes (qa_stats a) - int (length (event_text F e))) = qs_bytes (qa_stats a) - int (length (event_text F e))"
    using wd(1,7,8) rem by (auto intro!: wrap64_id simp: stats_ok_def min_int64_def max_int64_def)
  obtain d1 where d1: "deleteE B query_events (be64 s) d = Inr d1"
    "query_view F B opts d1 (Some (stats_text F (qa_stats a))) (qa_cps a) (without_seq s (qa_queue a)) (qa_seq a)"
    using query_delete_event [OF B v] by blast
  have pos: "\<not> qs_pending (qa_stats a) - 1 < 0"
    "\<not> qs_bytes (qa_stats a) - int (length (event_text F e)) < 0"
    using wd(7,8) rem by simp_all
  have start: "ack_query_tx F B opts s d = bindE (save_stats F B ?st d1) (\<lambda>d2. Inr (d2, ()))"
    using Some query_viewD(9) [OF B v] query_read_stats [OF F B r] d1(1) pos
      query_validate_record [OF F B r map_of_SomeD [OF Some]]
    by (simp add: ack_query_tx_def wr Let_def)
  show ?thesis
  proof (cases "save_check F ?st")
    case (Inl er)
    then have "ack_query_tx F B opts s d = Inl er" "spec_ack F s a = Inl er"
      using save_stats_fails [OF Inl, of B d1] start Some by (simp_all add: spec_ack_def Let_def)
    then show ?thesis by (simp add: ack_query_def query_refined_fails)
  next
    case (Inr u)
    let ?a = "a\<lparr>qa_stats := bump ?st, qa_queue := without_seq s (qa_queue a)\<rparr>"
    have spec: "spec_ack F s a = Inr ?a" using Inr Some by (simp add: spec_ack_def Let_def)
    have wa: "query_wf F opts ?a" by (rule spec_ack_wf [OF w spec])
    have "stats_ok F (bump ?st)" using query_wfD(1) [OF wa] by simp
    then obtain d2 where "save_stats F B ?st d1 = Inr d2"
      "query_view F B opts d2 (Some (stats_text F (bump ?st))) (qa_cps a) (without_seq s (qa_queue a)) (qa_seq a)"
      using query_save_stats [OF B F d1(2), of ?st] Inr by auto
    then show ?thesis
      unfolding spec ack_query_def using wa start by (intro query_refinedI [OF B]) simp_all
  qed
qed

section \<open>Recording\<close>

lemma event_text_marshal: "event_good F opts e \<Longrightarrow> marshal_query_event F e = Some (event_text F e)"
  by (auto simp: event_good_def event_typed_def time_typed_def marshal_query_event_def event_text_def list_all_iff)

theorem record_tx_refines:
  assumes F: "float_ok F" and B: "bolt_ok B" and r: "query_represents F B opts d a" and o: "capacity_ok opts"
    and e: "event_good F opts e" "event_hash F e = Some hash" "hash \<noteq> zero_hash" and room: "qa_seq a \<noteq> - 1"
  shows "query_refined F B opts d (spec_record F opts e hash a)
    (case update_tx B () (record_tx F B opts e hash (event_text F e)) d of (d', _, err) \<Rightarrow> (d', err))"
proof -
  note w = query_representsD(2) [OF r] and v = query_representsD(3) [OF r]
  note wd = query_wfD [OF w]
  define previous where "previous = qa_cps a (qe_query_id e)"
  define q where "q = queues opts hash e a"
  let ?st = "qa_stats a" and ?i = "qe_query_id e" and ?p = "event_text F e"
  have read: "(case bget B d query_cps ?i of None \<Rightarrow> Inr None
      | Some data \<Rightarrow> (case decode_query_cp ?i data of None \<Rightarrow> Inl err_query_corrupt | Some c \<Rightarrow> Inr (Some c))) =
      (Inr previous :: go_error + query_checkpoint option)"
    using query_viewD(5) [OF B v] query_decode_cp [OF w] by (auto simp: previous_def split: option.split)
  have settled: "(case previous of None \<Rightarrow> False | Some c \<Rightarrow> qc_final c \<or> zt_at (qe_observed e) < zt_at (qc_fetched c)) \<longleftrightarrow>
      settled_event a e"
    by (simp add: settled_event_def previous_def)
  have kn: "key_n B d query_cps = card (dom (qa_cps a))"
    using query_representsD(1) [OF r] query_viewD(2,8) [OF B v] by (simp add: settled_def)
  have changed: "(case previous of None \<Rightarrow> True | Some c \<Rightarrow> qc_hash c \<noteq> hash) \<and> qo_events opts \<longleftrightarrow> q"
    by (auto simp: q_def queues_def previous_def)
  have body: "record_tx F B opts e hash ?p d =
      (if zt_at (event_when e) < zt_at (qs_floor ?st) then Inl err_query_expired
       else if settled_event a e then Inr (d, ())
       else if previous = None \<and> int (card (dom (qa_cps a))) \<ge> qo_max_checkpoints opts then Inl err_query_full
       else bindE (queue_event B opts (case previous of None \<Rightarrow> True | Some c \<Rightarrow> qc_hash c \<noteq> hash) ?p ?st d)
         (\<lambda>(d1, a1). bindE (count_terminal F e a1) (\<lambda>a2.
            case marshal_query_cp (recorded_cp hash e) of
              None \<Rightarrow> Inl err_marshal
            | Some data \<Rightarrow> bindE (putE B query_cps ?i data d1) (\<lambda>d2.
                            bindE (save_stats F B a2 d2) (\<lambda>d3. Inr (d3, ()))))))"
    using query_read_stats [OF F B r]
    by (simp add: record_tx_def Let_def read settled kn recorded_cp_def)
  show ?thesis
  proof (cases "zt_at (event_when e) < zt_at (qs_floor ?st)")
    case True
    then show ?thesis using body by (simp add: spec_record_def query_refined_fails)
  next
    case live: False
    show ?thesis
    proof (cases "settled_event a e")
      case True
      then have "record_tx F B opts e hash ?p d = Inr (d, ())" "spec_record F opts e hash a = Inr a"
        using body live by (simp_all add: spec_record_def)
      then show ?thesis using w v by (simp add: query_refinedI [OF B])
    next
      case new: False
      show ?thesis
      proof (cases "previous = None \<and> int (card (dom (qa_cps a))) \<ge> qo_max_checkpoints opts")
        case True
        then show ?thesis using body live new by (simp add: spec_record_def previous_def query_refined_fails)
      next
        case fits: False
        have nm: "\<not> (qa_cps a ?i = None \<and> qo_max_checkpoints opts \<le> int (card (dom (qa_cps a))))"
          using fits by (simp add: previous_def)
        have wr: "wrap64 (qo_max_bytes opts - qs_bytes ?st) = qo_max_bytes opts - qs_bytes ?st"
          using o wd(1) by (intro wrap64_id) (auto simp: capacity_ok_def stats_ok_def min_int64_def max_int64_def)
        let ?full = "qs_pending ?st \<ge> qo_max_events opts \<or> int (length ?p) > qo_max_bytes opts - qs_bytes ?st"
        show ?thesis
        proof (cases "q \<and> ?full")
          case True
          then have "queue_event B opts (case previous of None \<Rightarrow> True | Some c \<Rightarrow> qc_hash c \<noteq> hash) ?p ?st d = Inl err_query_full"
            using changed by (simp add: queue_event_def wr)
          then have "record_tx F B opts e hash ?p d = Inl err_query_full" using body live new fits by simp
          moreover have "spec_record F opts e hash a = Inl err_query_full"
            using True live new nm by (simp add: spec_record_def Let_def q_def)
          ultimately show ?thesis by (simp add: query_refined_fails)
        next
          case False
          define st0 where "st0 = (if q then queued_stats F e ?st else ?st)"
          define q' where "q' = (if q then qa_queue a @ [(qa_seq a + 1, e)] else qa_queue a)"
          define n' where "n' = (if q then qa_seq a + 1 else qa_seq a)"
          have "\<exists>d1. queue_event B opts (case previous of None \<Rightarrow> True | Some c \<Rightarrow> qc_hash c \<noteq> hash) ?p ?st d = Inr (d1, st0) \<and>
              query_view F B opts d1 (Some (stats_text F ?st)) (qa_cps a) q' n'"
          proof (cases q)
            case q: True
            have wr2: "wrap64 (qs_pending ?st + 1) = qs_pending ?st + 1"
              "wrap64 (qs_bytes ?st + int (length ?p)) = qs_bytes ?st + int (length ?p)"
              using o wd(1) False q by (auto intro!: wrap64_id simp: capacity_ok_def stats_ok_def min_int64_def max_int64_def)
            obtain d1 where d1: "next_seqE B query_events d = Inr (d1, qa_seq a + 1)"
              "query_view F B opts d1 (Some (stats_text F ?st)) (qa_cps a) (qa_queue a) (qa_seq a + 1)"
              using query_next_seq [OF B v] by blast
            have l: "length ?p \<le> max_query_bytes" using e(1) by (simp add: event_good_def)
            have lt: "fst m < qa_seq a + 1" if "m \<in> set (qa_queue a)" for m
              using wd(5) [of "fst m" "snd m"] that below_top [OF room] by (auto intro: le_less_trans)
            obtain d2 where "putE B query_events (be64 (qa_seq a + 1)) ?p d1 = Inr d2"
              "query_view F B opts d2 (Some (stats_text F ?st)) (qa_cps a) (qa_queue a @ [(qa_seq a + 1, e)]) (qa_seq a + 1)"
              using query_put_event [OF B d1(2) l lt] by blast
            then show ?thesis
              using d1(1) q False changed by (simp add: queue_event_def wr wr2 st0_def q'_def n'_def queued_stats_def)
          next
            case False
            then show ?thesis using v changed by (auto simp: queue_event_def st0_def q'_def n'_def)
          qed
          then obtain d1 where d1: "queue_event B opts (case previous of None \<Rightarrow> True | Some c \<Rightarrow> qc_hash c \<noteq> hash) ?p ?st d = Inr (d1, st0)"
            "query_view F B opts d1 (Some (stats_text F ?st)) (qa_cps a) q' n'" by blast
          have rc: "query_cp_ok ?i (recorded_cp hash e)" by (rule recorded_cp_ok [OF e])
          obtain d2 where d2: "putE B query_cps ?i (cp_text (recorded_cp hash e)) d1 = Inr d2"
            "query_view F B opts d2 (Some (stats_text F ?st)) ((qa_cps a)(?i \<mapsto> recorded_cp hash e)) q' n'"
            using query_put_cp [OF B d1(2) rc] by blast
          have pre: "record_tx F B opts e hash ?p d =
              bindE (count_terminal F e st0) (\<lambda>a2. bindE (save_stats F B a2 d2) (\<lambda>d3. Inr (d3, ())))"
            using body live new fits d1(1) d2(1) checkpoint_marshal [OF rc] by (simp add: cp_text_def del: json_print.simps)
          have spec: "spec_record F opts e hash a =
              bindE (count_terminal F e st0) (\<lambda>st'. bindE (save_check F st') (\<lambda>_.
                Inr (a\<lparr>qa_stats := bump st', qa_cps := (qa_cps a)(?i \<mapsto> recorded_cp hash e), qa_queue := q', qa_seq := n'\<rparr>)))"
            unfolding spec_record_def Let_def q_def [symmetric] if_not_P [OF live] if_not_P [OF new] if_not_P [OF nm]
              if_not_P [OF False] st0_def q'_def n'_def ..
          show ?thesis
          proof (cases "count_terminal F e st0")
            case (Inl er)
            then have "record_tx F B opts e hash ?p d = Inl er" "spec_record F opts e hash a = Inl er"
              using pre spec by simp_all
            then show ?thesis by (simp add: query_refined_fails)
          next
            case ct: (Inr st')
            show ?thesis
            proof (cases "save_check F st'")
              case (Inl er)
              then have "record_tx F B opts e hash ?p d = Inl er" "spec_record F opts e hash a = Inl er"
                using pre spec ct save_stats_fails [OF Inl, of B d2] by simp_all
              then show ?thesis by (simp add: query_refined_fails)
            next
              case (Inr u)
              let ?a = "a\<lparr>qa_stats := bump st', qa_cps := (qa_cps a)(?i \<mapsto> recorded_cp hash e), qa_queue := q', qa_seq := n'\<rparr>"
              have sa: "spec_record F opts e hash a = Inr ?a" using spec ct Inr by simp
              have wa: "query_wf F opts ?a" by (rule spec_record_wf [OF F w o e room sa])
              have "stats_ok F (bump st')" using query_wfD(1) [OF wa] by simp
              then obtain d3 where "save_stats F B st' d2 = Inr d3"
                "query_view F B opts d3 (Some (stats_text F (bump st'))) ((qa_cps a)(?i \<mapsto> recorded_cp hash e)) q' n'"
                using query_save_stats [OF B F d2(2), of st'] Inr by auto
              then show ?thesis
                unfolding sa using wa pre ct by (intro query_refinedI [OF B]) simp_all
            qed
          qed
        qed
      qed
    qed
  qed
qed

text \<open>
  The whole call: what \<open>Record\<close> rejects before the transaction, then the transaction. The events the
  program records come from parsed timestamps, whose offsets are whole minutes.
\<close>

definition spec_record_query :: "'f float_ops \<Rightarrow> query_options \<Rightarrow> 'f query_event \<Rightarrow> 'f query_abs \<Rightarrow> go_error + 'f query_abs" where
  "spec_record_query F opts e a =
     (if \<not> event_valid F e (qo_source opts) then Inl (Plain ''query record invalid'')
      else case event_hash F e of
        None \<Rightarrow> Inl err_marshal
      | Some hash \<Rightarrow>
          if marshal_query_event F e = None \<or> length (event_text F e) > max_query_bytes
          then Inl (Plain ''query event exceeds bounds'')
          else spec_record F opts e hash a)"

definition minute_times :: "'f query_event \<Rightarrow> bool" where
  "minute_times e \<longleftrightarrow> list_all (\<lambda>z. zt_off z mod 60 = 0) (event_times e)"

lemma query_id_utf8: "valid_query_id i \<Longrightarrow> utf8_valid i"
  by (rule utf8_valid_ascii)
    (auto simp: valid_query_id_def list_all_iff query_id_char_def is_lower_def is_upper_def is_digit_def byte_def)

lemma state_name_utf8: "utf8_valid (query_state_name s)"
  by (rule utf8_valid_ascii) (auto simp: query_state_name_def Let_def byte_def split: if_splits)

lemma event_good_valid:
  assumes "event_valid F e (qo_source opts)" "marshal_query_event F e = Some p" "minute_times e"
    "length (event_text F e) \<le> max_query_bytes" "utf8_valid (qo_source opts)"
  shows "event_good F opts e" "p = event_text F e"
proof -
  have "utf8_valid (qe_state e)" using assms(1) state_name_utf8 [of "qe_state e"] by (simp add: event_valid_def)
  moreover have "list_all time_typed (event_times e)"
    using assms(2,3) by (auto simp: marshal_query_event_def minute_times_def time_typed_def list_all_iff split: if_splits)
  ultimately show "event_good F opts e"
    using assms query_id_utf8
    by (auto simp: event_good_def event_typed_def event_valid_def text_valid_def marshal_query_event_def split: if_splits)
  show "p = event_text F e" using assms(2) by (auto simp: marshal_query_event_def event_text_def split: if_splits)
qed

theorem record_query_refines:
  assumes F: "float_ok F" and B: "bolt_ok B" and r: "query_represents F B opts d a" and o: "capacity_ok opts"
    and e: "minute_times e" "event_hash F e \<noteq> Some zero_hash" and room: "qa_seq a \<noteq> - 1"
  shows "query_refined F B opts d (spec_record_query F opts e a) (record_query F B opts e d)"
proof (cases "event_valid F e (qo_source opts)")
  case False
  then show ?thesis by (simp add: spec_record_query_def record_query_def query_refined_def)
next
  case valid: True
  show ?thesis
  proof (cases "event_hash F e")
    case None
    then show ?thesis using valid by (simp add: spec_record_query_def record_query_def query_refined_def)
  next
    case (Some hash)
    show ?thesis
    proof (cases "marshal_query_event F e = None \<or> length (event_text F e) > max_query_bytes")
      case True
      then have "record_query F B opts e d = (d, Some (Plain ''query event exceeds bounds''))"
        using valid Some by (auto simp: record_query_def marshal_query_event_def event_text_def split: if_splits)
      then show ?thesis using True valid Some by (simp add: spec_record_query_def query_refined_def)
    next
      case False
      then obtain p where p: "marshal_query_event F e = Some p" "length (event_text F e) \<le> max_query_bytes" by auto
      have u: "utf8_valid (qo_source opts)" using o by (simp add: capacity_ok_def)
      note g = event_good_valid [OF valid p(1) e(1) p(2) u]
      have "hash \<noteq> zero_hash" using Some e(2) by simp
      note record_tx_refines [OF F B r o g(1) Some this room]
      then show ?thesis
        using valid Some False p g(2) by (simp add: spec_record_query_def record_query_def)
    qed
  qed
qed

lemma spec_record_query_wf:
  assumes F: "float_ok F" and w: "query_wf F opts a" and o: "capacity_ok opts"
    and e: "minute_times e" "event_hash F e \<noteq> Some zero_hash" and room: "qa_seq a \<noteq> - 1"
    and s: "spec_record_query F opts e a = Inr a'"
  obtains hash where "event_good F opts e" "event_hash F e = Some hash" "spec_record F opts e hash a = Inr a'"
    "query_wf F opts a'"
proof -
  from s obtain hash p where h: "event_valid F e (qo_source opts)" "event_hash F e = Some hash"
    "marshal_query_event F e = Some p" "length (event_text F e) \<le> max_query_bytes" "spec_record F opts e hash a = Inr a'"
    by (auto simp: spec_record_query_def split: if_splits option.splits)
  have g: "event_good F opts e"
    using event_good_valid [OF h(1,3) e(1) h(4)] o by (simp add: capacity_ok_def)
  have "hash \<noteq> zero_hash" using h(2) e(2) by simp
  then show ?thesis using spec_record_wf [OF F w o g h(2) _ room h(5)] g h(2,5) that by blast
qed

section \<open>Reading\<close>

definition abs_record :: "'f float_ops \<Rightarrow> u64 \<times> 'f query_event \<Rightarrow> query_record" where
  "abs_record F m =
     \<lparr>qr_sequence = fst m, qr_key = sha256 (qe_source_instance (snd m) @ chr 0 # qe_query_id (snd m)),
      qr_payload = event_text F (snd m)\<rparr>"

lemma query_records_view:
  assumes F: "float_ok F" and B: "bolt_ok B" and r: "query_represents F B opts d a" and l: "1 \<le> limit" "limit \<le> 100"
  shows "query_records F B opts limit d = Inr (map (abs_record F) (take (nat limit) (qa_queue a)))"
proof -
  have es: "take (nat limit) (bentries B d query_events) = map (query_entry F) (take (nat limit) (qa_queue a))"
    using query_viewD(6) [OF B query_representsD(3) [OF r]] by (simp add: take_map)
  have "mapE (read_query_record F B opts (qs_floor (qa_stats a)) d) (map (query_entry F) (take (nat limit) (qa_queue a))) =
      Inr (map (abs_record F) (take (nat limit) (qa_queue a)))"
    unfolding mapE_Inr_iff map_map
  proof (rule map_cong [OF refl])
    fix m assume "m \<in> set (take (nat limit) (qa_queue a))"
    then have "(fst m, snd m) \<in> set (qa_queue a)" by (auto dest: in_set_takeD)
    then show "(read_query_record F B opts (qs_floor (qa_stats a)) d \<circ> query_entry F) m = (Inr \<circ> abs_record F) m"
      using query_validate_record [OF F B r] by (simp add: read_query_record_def query_entry_def abs_record_def)
  qed
  then show ?thesis using l query_read_stats [OF F B r] by (simp add: query_records_def es)
qed

lemma query_stats_view:
  assumes F: "float_ok F" and B: "bolt_ok B" and r: "query_represents F B opts d a"
  shows "query_stats_of F B d = Inr (qa_stats a)"
proof -
  have "key_n B d query_events = length (qa_queue a)"
    using query_representsD(1) [OF r] query_viewD(3,6) [OF B query_representsD(3) [OF r]] by (simp add: settled_def)
  then show ?thesis
    using query_read_stats [OF F B r] query_wfD(7) [OF query_representsD(2) [OF r]] by (simp add: query_stats_of_def)
qed

lemma fetch_final_view:
  assumes B: "bolt_ok B" and r: "query_represents F B opts d a"
  shows "fetch_final B i d = (case qa_cps a i of None \<Rightarrow> (False, zero_zoned, None) | Some c \<Rightarrow> (qc_final c, qc_fetched c, None))"
  using query_viewD(5) [OF B query_representsD(3) [OF r]] query_decode_cp [OF query_representsD(2) [OF r]]
  by (auto simp: fetch_final_def split: option.split)

section \<open>Opening\<close>

lemma validate_events_view:
  assumes "\<And>m. m \<in> set q \<Longrightarrow> validate_query_record F B opts (be64 (fst m)) (event_text F (snd m)) fl d = Inr (snd m)"
    and "count + int (length q) \<le> max_int64" "used + int (queue_bytes F q) \<le> max_int64"
  shows "validate_events F B opts fl d (map (query_entry F) q) count used =
    Inr (count + int (length q), used + int (queue_bytes F q))"
  using assms
proof (induction q arbitrary: count used)
  case (Cons m q)
  have qb: "queue_bytes F (m # q) = length (event_text F (snd m)) + queue_bytes F q" by (simp add: queue_bytes_def)
  have "validate_events F B opts fl d (map (query_entry F) q) (count + 1) (used + int (length (event_text F (snd m)))) =
      Inr (count + 1 + int (length q), used + int (length (event_text F (snd m))) + int (queue_bytes F q))"
    using Cons.prems qb by (intro Cons.IH) simp_all
  moreover have "\<not> (used > max_int64 - int (length (event_text F (snd m))) \<or> count = max_int64)"
    using Cons.prems(2,3) qb by auto
  moreover have "query_entry F m = (be64 (fst m), event_text F (snd m))" by (simp add: query_entry_def)
  ultimately show ?case using Cons.prems(1) [of m] qb by (simp add: ac_simps)
qed (simp add: queue_bytes_def)

theorem validate_query_view:
  assumes F: "float_ok F" and B: "bolt_ok B" and r: "query_represents F B opts d a"
  shows "validate_query_db F B opts d = Inr ()"
proof -
  note w = query_representsD(2) [OF r] and v = query_representsD(3) [OF r]
  note wd = query_wfD [OF w]
  have "validate_events F B opts (qs_floor (qa_stats a)) d (map (query_entry F) (qa_queue a)) 0 0 =
      Inr (0 + int (length (qa_queue a)), 0 + int (queue_bytes F (qa_queue a)))"
  proof (rule validate_events_view)
    fix m assume "m \<in> set (qa_queue a)"
    then show "validate_query_record F B opts (be64 (fst m)) (event_text F (snd m)) (qs_floor (qa_stats a)) d = Inr (snd m)"
      using query_validate_record [OF F B r, of "fst m" "snd m"] by simp
  qed (use wd(1,7,8) in \<open>auto simp: stats_ok_def\<close>)
  moreover have "\<forall>(k, x) \<in> set (bentries B d query_cps). decode_query_cp k x \<noteq> None"
    using query_cp_entries [OF B r] by fastforce
  ultimately show ?thesis
    using v wd(7,8) query_read_stats [OF F B r] query_viewD(6) [OF B v]
    by (auto simp: validate_query_db_def query_view_def split: prod.splits)
qed

text \<open>A new database, and one that an earlier run left.\<close>

definition empty_query_abs :: "'f query_abs" where
  "empty_query_abs = \<lparr>qa_stats = bump empty_stats, qa_cps = Map.empty, qa_queue = [], qa_seq = 0\<rparr>"

lemma zero_zoned_typed: "time_typed zero_zoned"
  using zero_zoned_json_ok by (simp add: time_typed_def)

lemma empty_stats_ok: "stats_ok F (bump empty_stats)"
  by (simp add: stats_ok_def bump_def empty_stats_def max_int64_def zero_zoned_typed)

lemma empty_query_wf: "query_wf F opts empty_query_abs"
  by (simp add: query_wf_def empty_query_abs_def empty_stats_ok queue_bytes_def)
    (simp add: bump_def empty_stats_def)

theorem create_query_refines:
  fixes F :: "'f float_ops"
  assumes F: "float_ok F" and B: "bolt_ok B" and o: "capacity_ok opts" and new: "\<And>b. \<not> has_bucket B d b"
  shows "query_refined F B opts d (Inr empty_query_abs)
    (case update_tx B () (create_query_db F B opts) d of (d', _, err) \<Rightarrow> (d', err))"
proof -
  obtain d1 where d1: "createE B query_meta d = Inr d1" "bentries B d1 query_meta = []"
    "\<And>b'. has_bucket B d1 b' = (b' = query_meta \<or> has_bucket B d b')"
    using bolt_create [OF B new, of query_meta] by (metis query_buckets(7))
  obtain d2 where d2: "createE B query_cps d1 = Inr d2" "bentries B d2 query_cps = []"
    "\<And>b'. has_bucket B d2 b' = (b' = query_cps \<or> has_bucket B d1 b')"
    "\<And>b'. b' \<noteq> query_cps \<Longrightarrow> bentries B d2 b' = bentries B d1 b'"
    using bolt_create [OF B, of d1 query_cps] d1(3) new by (metis query_buckets(2,8))
  obtain d3 where d3: "createE B query_events d2 = Inr d3" "bentries B d3 query_events = []" "bseq B d3 query_events = 0"
    "\<And>b'. has_bucket B d3 b' = (b' = query_events \<or> has_bucket B d2 b')"
    "\<And>b'. b' \<noteq> query_events \<Longrightarrow> bentries B d3 b' = bentries B d2 b'"
    using bolt_create [OF B, of d2 query_events] d2(3) d1(3) new by (metis query_buckets(4,6,9))
  have kv: "kv_valid key_version ''1''" "kv_valid key_source (qo_source opts)"
    using o by (simp_all add: kv_valid_def key_version_def key_source_def capacity_ok_def)
  have b3: "has_bucket B d3 query_meta" using d3(4) d2(3) d1(3) by simp
  obtain d4 where d4: "putE B query_meta key_version ''1'' d3 = Inr d4" "same_but B query_meta d3 d4"
    "bentries B d4 query_meta = kv_put key_version ''1'' (bentries B d3 query_meta)"
    using bolt_put [OF B b3 kv(1)] by blast
  have b4: "has_bucket B d4 query_meta" using b3 same_butD(1) [OF d4(2)] by simp
  obtain d5 where d5: "putE B query_meta key_source (qo_source opts) d4 = Inr d5" "same_but B query_meta d4 d5"
    "bentries B d5 query_meta = kv_put key_source (qo_source opts) (bentries B d4 query_meta)"
    using bolt_put [OF B b4 kv(2)] by blast
  note same = same_butD [OF d4(2)] same_butD [OF d5(2)]
  have "map_of (bentries B d5 query_meta) = [key_version \<mapsto> ''1'', key_source \<mapsto> qo_source opts]"
    using d1(2) d2(4) d3(5) d4(3) d5(3) by (simp add: map_of_kv_put bolt_sorted [OF B] fun_eq_iff)
  then have v: "query_view F B opts d5 None Map.empty [] 0"
    using d1(3) d2(2,3) d3(2-5) same by (simp add: query_view_def bolt_get [OF B] fun_eq_iff)
  have "save_check F (empty_stats :: 'f query_stats) = Inr ()"
    using zero_zoned_typed by (simp add: save_check_def empty_stats_def time_typed_def)
  then obtain d6 where "save_stats F B empty_stats d5 = Inr d6"
    "query_view F B opts d6 (Some (stats_text F (bump empty_stats))) Map.empty [] 0"
    using query_save_stats [OF B F v empty_stats_ok] by blast
  then show ?thesis
    using d1(1) d2(1) d3(1) d4(1) d5(1)
    by (intro query_refinedI [OF B _ empty_query_wf]) (simp_all add: create_query_db_def empty_query_abs_def)
qed

definition query_options_ok :: "query_options \<Rightarrow> bool" where
  "query_options_ok opts \<longleftrightarrow> capacity_ok opts \<and> 1 \<le> qo_max_checkpoints opts \<and> 0 < qo_retention opts"

lemma query_options_good: "query_options_ok opts \<Longrightarrow> \<not> query_options_bad opts"
  by (simp add: query_options_ok_def capacity_ok_def query_options_bad_def)

theorem reopen_query_refines:
  assumes F: "float_ok F" and B: "bolt_ok B" and r: "query_represents F B opts d a" and o: "query_options_ok opts"
    and t: "zt_off now mod 60 = 0"
  shows "query_refined F B opts d (spec_prune F opts now a) (open_query F B opts False now d)"
  using prune_refines [OF F B r t] query_options_good [OF o] validate_query_view [OF F B r]
  by (simp add: open_query_def)

end
