(* ===== verification/Query_Props.thy ===== *)
theory Query_Props
  imports Query_Refine
begin

text \<open>
  What the query state promises over a whole run: any sequence of records, prunes and acknowledgements,
  whether their commits succeed or not, leaves a database that the next start accepts, with exact
  counters, and that has counted every query that was ever final exactly once.
\<close>

datatype 'f query_op = Record_Query "'f query_event" | Prune_Queries zoned | Ack_Query u64

definition query_call ::
  "'f float_ops \<Rightarrow> 'd bolt \<Rightarrow> query_options \<Rightarrow> 'f query_op \<Rightarrow> 'd \<Rightarrow> 'd \<times> go_error option" where
  "query_call F B opts op d =
     (case op of
        Record_Query e \<Rightarrow> record_query F B opts e d
      | Prune_Queries now \<Rightarrow> prune F B opts now d
      | Ack_Query s \<Rightarrow> ack_query F B opts s d)"

fun query_run :: "'f float_ops \<Rightarrow> 'd bolt \<Rightarrow> query_options \<Rightarrow> 'f query_op list \<Rightarrow> 'd \<Rightarrow> 'd" where
  "query_run F B opts [] d = d"
| "query_run F B opts (op # ops) d = query_run F B opts ops (fst (query_call F B opts op d))"

definition spec_call :: "'f float_ops \<Rightarrow> query_options \<Rightarrow> 'f query_op \<Rightarrow> 'f query_abs \<Rightarrow> go_error + 'f query_abs" where
  "spec_call F opts op a =
     (case op of
        Record_Query e \<Rightarrow> spec_record_query F opts e a
      | Prune_Queries now \<Rightarrow> spec_prune F opts now a
      | Ack_Query s \<Rightarrow> spec_ack F s a)"

definition query_op_ok :: "'f float_ops \<Rightarrow> 'f query_op \<Rightarrow> bool" where
  "query_op_ok F op \<longleftrightarrow>
     (case op of
        Record_Query e \<Rightarrow> minute_times e \<and> event_hash F e \<noteq> Some zero_hash
      | Prune_Queries now \<Rightarrow> zt_off now mod 60 = 0
      | Ack_Query s \<Rightarrow> True)"

lemma query_call_refines:
  assumes "float_ok F" "bolt_ok B" "query_represents F B opts d a" "capacity_ok opts" "query_op_ok F op"
    "qa_seq a \<noteq> - 1"
  shows "query_refined F B opts d (spec_call F opts op a) (query_call F B opts op d)"
  using assms record_query_refines prune_refines ack_query_refines
  by (cases op) (fastforce simp: spec_call_def query_call_def query_op_ok_def)+

lemma query_call_step:
  assumes "float_ok F" "bolt_ok B" "query_represents F B opts d a" "capacity_ok opts" "query_op_ok F op"
    "qa_seq a \<noteq> - 1"
  shows "\<exists>a'. query_represents F B opts (fst (query_call F B opts op d)) a' \<and> (a' = a \<or> spec_call F opts op a = Inr a')"
  using query_call_refines [OF assms] assms(3)
  by (auto simp: query_refined_def split: sum.splits)

lemma spec_call_seq: "spec_call F opts op a = Inr a' \<Longrightarrow> qa_seq a' = qa_seq a \<or> qa_seq a' = qa_seq a + 1"
  by (auto simp: spec_call_def spec_record_query_def spec_record_def spec_prune_def spec_ack_def Let_def
      split: query_op.splits if_splits option.splits)

text \<open>An invariant of the specified operations holds of what a run's database represents.\<close>

lemma query_run_represents:
  assumes F: "float_ok F" and B: "bolt_ok B" and o: "capacity_ok opts"
    and ops: "list_all (query_op_ok F) ops"
    and r: "query_represents F B opts d a" and P: "P a" and room: "unat (qa_seq a) + length ops < 2 ^ 64 - 1"
    and inv: "\<And>op a a'. op \<in> set ops \<Longrightarrow> query_wf F opts a \<Longrightarrow> qa_seq a \<noteq> - 1 \<Longrightarrow> P a \<Longrightarrow>
      spec_call F opts op a = Inr a' \<Longrightarrow> P a'"
  shows "\<exists>a'. query_represents F B opts (query_run F B opts ops d) a' \<and> P a' \<and>
    unat (qa_seq a') \<le> unat (qa_seq a) + length ops"
  using ops r P room inv
proof (induction ops arbitrary: d a)
  case (Cons op ops)
  have ns: "qa_seq a \<noteq> - 1"
    using seq_room [of "qa_seq a"] Cons.prems(4) by auto
  have ok: "query_op_ok F op" "list_all (query_op_ok F) ops" using Cons.prems(1) by simp_all
  obtain a' where a': "query_represents F B opts (fst (query_call F B opts op d)) a'"
    "a' = a \<or> spec_call F opts op a = Inr a'"
    using query_call_step [OF F B Cons.prems(2) o ok(1) ns] by blast
  have "P a'"
    using a'(2) Cons.prems(3) Cons.prems(5) [of op a a'] query_representsD(2) [OF Cons.prems(2)] ns by auto
  moreover have sq: "unat (qa_seq a') \<le> Suc (unat (qa_seq a))"
  proof -
    have "unat (qa_seq a + 1) = Suc (unat (qa_seq a))"
      using below_top [OF ns] unatSuc [of "qa_seq a"] by (simp add: add.commute)
    then show ?thesis using a'(2) spec_call_seq [of F opts op a a'] by auto
  qed
  ultimately have "\<exists>x. query_represents F B opts (query_run F B opts (op # ops) d) x \<and> P x \<and>
      unat (qa_seq x) \<le> unat (qa_seq a') + length ops"
    unfolding query_run.simps using Cons.prems(4,5) by (intro Cons.IH [OF ok(2) a'(1)]) auto
  then show ?case using sq by fastforce
qed auto

section \<open>What is counted\<close>

definition tally :: "'f query_stats \<Rightarrow> nat" where
  "tally st = sum_list (map (\<lambda>s. unat (completed_of st s)) terminal_states)"

fun terminal_events :: "'f query_op list \<Rightarrow> 'f query_event list" where
  "terminal_events [] = []"
| "terminal_events (Record_Query e # ops) = (if terminal (qe_state e) then [e] else []) @ terminal_events ops"
| "terminal_events (_ # ops) = terminal_events ops"

text \<open>A query that ended is reported with one completion time.\<close>

definition one_completion :: "'f query_op list \<Rightarrow> bool" where
  "one_completion ops \<longleftrightarrow>
     list_all (\<lambda>e. list_all (\<lambda>e'. qe_query_id e = qe_query_id e' \<longrightarrow> zt_at (event_when e) = zt_at (event_when e'))
        (terminal_events ops)) (terminal_events ops)"

lemma terminal_eventsI: "Record_Query e \<in> set ops \<Longrightarrow> terminal (qe_state e) \<Longrightarrow> e \<in> set (terminal_events ops)"
  by (induction ops rule: terminal_events.induct) auto

lemma count_terminal_completed:
  assumes "keys_sorted (qs_completed st)" "count_terminal F e st = Inr st'"
  shows "completed_of st' = (if terminal (qe_state e)
           then (completed_of st)(qe_state e := completed_of st (qe_state e) + 1) else completed_of st)"
    "terminal (qe_state e) \<Longrightarrow> completed_of st (qe_state e) \<noteq> - 1"
proof -
  have h: "completed_of (s\<lparr>qs_histograms := hs\<rparr>) = completed_of s" for s :: "'a query_stats" and hs
    by (simp add: completed_of_def fun_eq_iff)
  show "completed_of st' = (if terminal (qe_state e)
      then (completed_of st)(qe_state e := completed_of st (qe_state e) + 1) else completed_of st)"
    using assms completed_of_put [OF assms(1)]
    by (auto simp: count_terminal_def Let_def h simp del: add_observations.simps split: if_splits)
  show "terminal (qe_state e) \<Longrightarrow> completed_of st (qe_state e) \<noteq> - 1"
    using assms(2) by (auto simp: count_terminal_def split: if_splits)
qed

lemma tally_bump: "tally (bump st) = tally st"
  by (simp add: tally_def completed_of_def)

lemma tally_pending: "tally (st\<lparr>qs_pending := p, qs_bytes := b\<rparr>) = tally st"
  by (simp add: tally_def completed_of_def)

lemma sum_bump:
  assumes "g x = Suc (f x)" "\<And>s. s \<noteq> x \<Longrightarrow> g s = f s" "x \<in> set xs" "distinct xs"
  shows "sum_list (map g xs) = Suc (sum_list (map f xs))"
  using assms(3,4)
proof (induction xs)
  case (Cons y ys)
  show ?case
  proof (cases "x = y")
    case True
    have "g s = f s" if "s \<in> set ys" for s using Cons.prems(2) True that assms(2) [of s] by auto
    then have m: "map g ys = map f ys" by simp
    show ?thesis unfolding list.map sum_list.Cons m using True assms(1) by simp
  next
    case False
    then show ?thesis using Cons assms(2) [of y] by simp
  qed
qed simp

lemma tally_count:
  assumes "keys_sorted (qs_completed st)" "count_terminal F e st = Inr st'"
  shows "tally st' = (if terminal (qe_state e) then Suc (tally st) else tally st)"
proof (cases "terminal (qe_state e)")
  case True
  note c = count_terminal_completed [OF assms]
  have u: "unat (completed_of st (qe_state e) + 1) = Suc (unat (completed_of st (qe_state e)))"
    using below_top [OF c(2) [OF True]] unatSuc [of "completed_of st (qe_state e)"] by (simp add: add.commute)
  have ts: "qe_state e \<in> set terminal_states" "distinct terminal_states"
    using True by (auto simp: terminal_def terminal_states_def)
  show ?thesis
    unfolding tally_def c(1) using True sum_bump [OF _ _ ts, where f = "\<lambda>s. unat (completed_of st s)"] u by simp
next
  case False
  then show ?thesis using count_terminal_completed(1) [OF assms] by (simp add: tally_def)
qed

text \<open>
  The invariant, for the set \<open>C\<close> of the queries counted so far: all of them were recorded as terminal, each
  still has its final checkpoint or ended before the retention floor, and every final checkpoint was counted.
\<close>

definition final_ids :: "'f query_abs \<Rightarrow> bytes set" where
  "final_ids a = {i. \<exists>c. qa_cps a i = Some c \<and> qc_final c}"

definition counted :: "(bytes \<Rightarrow> go_time) \<Rightarrow> bytes set \<Rightarrow> bytes set \<Rightarrow> 'f query_abs \<Rightarrow> bool" where
  "counted T S C a \<longleftrightarrow>
     C \<subseteq> S \<and> tally (qa_stats a) = card C \<and> final_ids a \<subseteq> C \<and>
     (\<forall>i \<in> C. (\<exists>c. qa_cps a i = Some c \<and> qc_final c \<and> zt_at (qc_time c) = T i) \<or> T i < zt_at (qs_floor (qa_stats a)))"

text \<open>An operation counts the queries that it makes final, and no others.\<close>

lemma counted_record:
  assumes w: "query_wf F opts a" and S: "finite S" and c: "counted T S C a" and r: "spec_record F opts e hash a = Inr a'"
    and e: "terminal (qe_state e) \<Longrightarrow> qe_query_id e \<in> S \<and> T (qe_query_id e) = zt_at (event_when e)"
    and F: "float_ok F" and v: "event_valid F e (qo_source opts)"
  shows "counted T S (C \<union> final_ids a') a'"
proof (cases "settled_event a e")
  case True
  then have "a' = a" using r by (auto simp: spec_record_def Let_def split: if_splits)
  then show ?thesis using c by (simp add: counted_def sup.absorb1)
next
  case new: False
  let ?i = "qe_query_id e"
  define st0 where "st0 = (if queues opts hash e a then queued_stats F e (qa_stats a) else qa_stats a)"
  from r new obtain st' where ct: "count_terminal F e st0 = Inr st'"
    and live: "\<not> zt_at (event_when e) < zt_at (qs_floor (qa_stats a))"
    and st': "qa_stats a' = bump st'" "qa_cps a' = (qa_cps a)(?i \<mapsto> recorded_cp hash e)"
    by (auto simp: spec_record_def Let_def st0_def split: if_splits)
  have ks: "keys_sorted (qs_completed st0)" "tally st0 = tally (qa_stats a)" "qs_floor st0 = qs_floor (qa_stats a)"
    using query_wfD(1) [OF w] by (auto simp: st0_def queued_stats_def stats_ok_def tally_def completed_of_def)
  have fl: "qs_floor st' = qs_floor (qa_stats a)"
    using ct ks(3) by (auto simp: count_terminal_def Let_def simp del: add_observations.simps split: if_splits)
  have tl: "tally (qa_stats a') = (if terminal (qe_state e) then Suc (tally (qa_stats a)) else tally (qa_stats a))"
    using tally_count [OF ks(1) ct] ks(2) by (simp add: st' tally_bump)
  have C: "C \<subseteq> S" "tally (qa_stats a) = card C" "final_ids a \<subseteq> C"
    "\<And>i. i \<in> C \<Longrightarrow> (\<exists>c. qa_cps a i = Some c \<and> qc_final c \<and> zt_at (qc_time c) = T i) \<or> T i < zt_at (qs_floor (qa_stats a))"
    using c unfolding counted_def by blast+
  have open_cp: "\<not> (\<exists>c. qa_cps a ?i = Some c \<and> qc_final c)" using new by (auto simp: settled_event_def)
  show ?thesis
  proof (cases "terminal (qe_state e)")
    case True
    have n: "?i \<notin> C" using C(4) [of ?i] open_cp e [OF True] live by auto
    have "C \<union> final_ids a' = insert ?i C"
      using C(3) True by (auto simp: final_ids_def st'(2) recorded_cp_def split: if_splits)
    moreover have "card (insert ?i C) = Suc (card C)"
      using n finite_subset [OF C(1) S] by simp
    ultimately show ?thesis
      unfolding counted_def using C e [OF True] tl True by (auto simp: st' fl recorded_cp_def)
  next
    case False
    have "final_ids a' \<subseteq> C"
      using C(3) False by (auto simp: final_ids_def st'(2) recorded_cp_def split: if_splits)
    moreover have "T ?i < zt_at (qs_floor (qa_stats a))" if "?i \<in> C" using C(4) [OF that] open_cp by blast
    ultimately show ?thesis
      unfolding counted_def using False C tl open_cp by (auto simp: sup.absorb1 st' fl recorded_cp_def)
  qed
qed

lemma counted_prune:
  assumes "counted T S C a" "spec_prune F opts now a = Inr a'"
  shows "counted T S (C \<union> final_ids a') a'"
proof -
  let ?fl = "prune_floor opts now (qa_stats a)"
  have st: "tally (qa_stats a') = tally (qa_stats a)" "qs_floor (qa_stats a') = ?fl"
    and cps: "qa_cps a' = (\<lambda>i. case qa_cps a i of None \<Rightarrow> None
               | Some c \<Rightarrow> if zt_at (qc_time c) < zt_at ?fl then None else Some c)"
    using assms(2) by (auto simp: spec_prune_def Let_def tally_def completed_of_def)
  have C: "C \<subseteq> S" "tally (qa_stats a) = card C" "final_ids a \<subseteq> C"
    "\<And>i. i \<in> C \<Longrightarrow> (\<exists>c. qa_cps a i = Some c \<and> qc_final c \<and> zt_at (qc_time c) = T i) \<or> T i < zt_at (qs_floor (qa_stats a))"
    using assms(1) unfolding counted_def by blast+
  have "(\<exists>c. qa_cps a' i = Some c \<and> qc_final c \<and> zt_at (qc_time c) = T i) \<or> T i < zt_at ?fl" if "i \<in> C" for i
    using C(4) [OF that] prune_floor_mono [of "qa_stats a" opts now] by (auto simp: cps)
  moreover have "final_ids a' \<subseteq> C"
    using C(3) by (auto simp: final_ids_def cps split: option.splits if_splits)
  ultimately show ?thesis
    unfolding counted_def using C(1,2) st by (auto simp: sup.absorb1)
qed

lemma counted_ack:
  assumes "counted T S C a" "spec_ack F s a = Inr a'"
  shows "counted T S (C \<union> final_ids a') a'"
proof -
  have "tally (qa_stats a') = tally (qa_stats a)" "qa_cps a' = qa_cps a" "qs_floor (qa_stats a') = qs_floor (qa_stats a)"
    using assms(2) by (auto simp: spec_ack_def Let_def tally_bump tally_pending split: option.splits)
  then show ?thesis using assms(1) by (auto simp: counted_def final_ids_def sup.absorb1)
qed

lemma counted_call:
  assumes F: "float_ok F" and w: "query_wf F opts a" and o: "capacity_ok opts" and op: "op \<in> set ops" "query_op_ok F op"
    and room: "qa_seq a \<noteq> - 1"
    and T: "\<And>e. e \<in> set (terminal_events ops) \<Longrightarrow> T (qe_query_id e) = zt_at (event_when e)"
    and c: "counted T (qe_query_id ` set (terminal_events ops)) C a" and s: "spec_call F opts op a = Inr a'"
  shows "counted T (qe_query_id ` set (terminal_events ops)) (C \<union> final_ids a') a'"
proof (cases op)
  case (Record_Query e)
  have e: "minute_times e" "event_hash F e \<noteq> Some zero_hash" "spec_record_query F opts e a = Inr a'"
    using op(2) s by (simp_all add: Record_Query query_op_ok_def spec_call_def)
  obtain hash where h: "event_good F opts e" "event_hash F e = Some hash" "spec_record F opts e hash a = Inr a'"
    "query_wf F opts a'"
    by (rule spec_record_query_wf [OF F w o e(1,2) room e(3)])
  show ?thesis
  proof (rule counted_record [OF w _ c h(3) _ F])
    assume "terminal (qe_state e)"
    then have "e \<in> set (terminal_events ops)" using terminal_eventsI op(1) by (simp add: Record_Query)
    then show "qe_query_id e \<in> qe_query_id ` set (terminal_events ops) \<and> T (qe_query_id e) = zt_at (event_when e)"
      using T by simp
  qed (use h(1) in \<open>simp_all add: event_good_def\<close>)
next
  case (Prune_Queries now)
  then show ?thesis using counted_prune [OF c] s by (simp add: spec_call_def)
next
  case (Ack_Query n)
  then show ?thesis using counted_ack [OF c] s by (simp add: spec_call_def)
qed

text \<open>The queries with a final checkpoint after the first \<open>k\<close> operations, and those that had one by then.\<close>

definition final_after :: "'f float_ops \<Rightarrow> 'd bolt \<Rightarrow> query_options \<Rightarrow> 'f query_op list \<Rightarrow> 'd \<Rightarrow> nat \<Rightarrow> bytes set" where
  "final_after F B opts ops d k = {i. fst (fetch_final B i (query_run F B opts (take k ops) d))}"

definition ever_final :: "'f float_ops \<Rightarrow> 'd bolt \<Rightarrow> query_options \<Rightarrow> 'f query_op list \<Rightarrow> 'd \<Rightarrow> nat \<Rightarrow> bytes set" where
  "ever_final F B opts ops d k = (\<Union>j \<le> k. final_after F B opts ops d j)"

lemma ever_final_Suc:
  "ever_final F B opts ops d (Suc k) = ever_final F B opts ops d k \<union> final_after F B opts ops d (Suc k)"
  by (auto simp: ever_final_def atMost_Suc)

lemma query_run_snoc:
  "query_run F B opts (ops @ [op]) d = fst (query_call F B opts op (query_run F B opts ops d))"
  by (induction ops arbitrary: d) simp_all

lemma final_after_view:
  assumes "bolt_ok B" "query_represents F B opts (query_run F B opts (take k ops) d) a"
  shows "final_after F B opts ops d k = final_ids a"
  by (auto simp: final_after_def final_ids_def fetch_final_view [OF assms] split: option.splits)

lemma run_counted:
  assumes F: "float_ok F" and B: "bolt_ok B" and o: "capacity_ok opts" and ops: "list_all (query_op_ok F) ops"
    and d: "query_represents F B opts d empty_query_abs" and len: "length ops < 2 ^ 64 - 1"
    and T: "\<And>e. e \<in> set (terminal_events ops) \<Longrightarrow> T (qe_query_id e) = zt_at (event_when e)"
  shows "k \<le> length ops \<Longrightarrow> \<exists>a. query_represents F B opts (query_run F B opts (take k ops) d) a \<and>
     counted T (qe_query_id ` set (terminal_events ops)) (ever_final F B opts ops d k) a \<and> unat (qa_seq a) \<le> k"
proof (induction k)
  case 0
  have "final_ids (empty_query_abs :: 'a query_abs) = {}" by (simp add: final_ids_def empty_query_abs_def)
  moreover have "tally (qa_stats (empty_query_abs :: 'a query_abs)) = 0"
    by (simp add: empty_query_abs_def tally_bump)
      (simp add: tally_def empty_stats_def completed_of_def terminal_states_def)
  ultimately have "counted T (qe_query_id ` set (terminal_events ops)) {} (empty_query_abs :: 'a query_abs)"
    by (simp add: counted_def)
  moreover have "ever_final F B opts ops d 0 = {}"
    using final_after_view [OF B, of F opts 0 ops d empty_query_abs] d \<open>final_ids empty_query_abs = {}\<close>
    by (simp add: ever_final_def)
  ultimately show ?case using d by (intro exI [of _ empty_query_abs]) (simp add: empty_query_abs_def)
next
  case (Suc k)
  then obtain a where a: "query_represents F B opts (query_run F B opts (take k ops) d) a"
    "counted T (qe_query_id ` set (terminal_events ops)) (ever_final F B opts ops d k) a" "unat (qa_seq a) \<le> k"
    by auto
  let ?op = "ops ! k"
  have run: "query_run F B opts (take (Suc k) ops) d =
      fst (query_call F B opts ?op (query_run F B opts (take k ops) d))"
    using Suc.prems by (simp add: take_Suc_conv_app_nth query_run_snoc)
  have op: "?op \<in> set ops" "query_op_ok F ?op" using Suc.prems ops by (simp_all add: list_all_iff)
  have ns: "qa_seq a \<noteq> - 1"
    using seq_room [of "qa_seq a"] a(3) Suc.prems len by auto
  obtain a' where a': "query_represents F B opts (query_run F B opts (take (Suc k) ops) d) a'"
    "a' = a \<or> spec_call F opts ?op a = Inr a'"
    using query_call_step [OF F B a(1) o op(2) ns] unfolding run by blast
  have "ever_final F B opts ops d (Suc k) = ever_final F B opts ops d k \<union> final_ids a'"
    using final_after_view [OF B a'(1)] by (simp add: ever_final_Suc)
  moreover have "counted T (qe_query_id ` set (terminal_events ops)) (ever_final F B opts ops d k \<union> final_ids a') a'"
    using a'(2) counted_call [OF F query_representsD(2) [OF a(1)] o op ns T a(2)] a(2)
    by (auto simp: counted_def sup.absorb1)
  moreover have "unat (qa_seq a + 1) = Suc (unat (qa_seq a))"
    using below_top [OF ns] unatSuc [of "qa_seq a"] by (simp add: add.commute)
  then have "unat (qa_seq a') \<le> Suc k" using a'(2) spec_call_seq [of F opts ?op a a'] a(3) by auto
  ultimately show ?case using a'(1) by auto
qed

lemma one_completion_time:
  assumes "one_completion ops"
  obtains T where "\<And>e. e \<in> set (terminal_events ops) \<Longrightarrow> T (qe_query_id e) = zt_at (event_when e)"
proof -
  define T where "T i = zt_at (event_when (the (find (\<lambda>e. qe_query_id e = i) (terminal_events ops))))" for i
  have "T (qe_query_id e) = zt_at (event_when e)" if e: "e \<in> set (terminal_events ops)" for e
  proof -
    obtain x where x: "find (\<lambda>x. qe_query_id x = qe_query_id e) (terminal_events ops) = Some x"
      using e by (metis (mono_tags, lifting) find_None_iff option.exhaust)
    then have "x \<in> set (terminal_events ops)" "qe_query_id x = qe_query_id e" by (auto simp: find_Some_iff)
    then have "zt_at (event_when x) = zt_at (event_when e)"
      using assms e unfolding one_completion_def list_all_iff by blast
    then show ?thesis unfolding T_def x by simp
  qed
  then show ?thesis by (rule that)
qed

section \<open>The promises\<close>

text \<open>A state directory as \<open>Open\<close> creates it.\<close>

definition query_created :: "'f float_ops \<Rightarrow> 'd bolt \<Rightarrow> query_options \<Rightarrow> 'd \<Rightarrow> 'd \<Rightarrow> bool" where
  "query_created F B opts d0 d \<longleftrightarrow>
     (\<forall>b. \<not> has_bucket B d0 b) \<and> update_tx B () (create_query_db F B opts) d0 = (d, (), None)"

lemma query_created_represents:
  assumes "float_ok F" "bolt_ok B" "capacity_ok opts" "query_created F B opts d0 d"
  shows "query_represents F B opts d empty_query_abs"
  using create_query_refines [OF assms(1-3), of d0] assms(4)
  by (auto simp: query_created_def query_refined_def)

text \<open>A concrete run: a finished query is recorded twice, then retention prunes and the event is acknowledged.\<close>

definition example_query_options :: query_options where
  "example_query_options =
     \<lparr>qo_source = ''c'', qo_max_events = 5, qo_max_checkpoints = 5, qo_max_bytes = 100000,
      qo_retention = 3600000000000, qo_events = True\<rparr>"

definition example_query_event :: "int query_event" where
  "example_query_event =
     \<lparr>qe_source_instance = ''c'', qe_query_id = ''q1'', qe_user = ''u'', qe_source = [], qe_state = ''finished'',
      qe_submitted = utc_time 0, qe_completed = Some (utc_time 1000000000), qe_observed = utc_time 2000000000,
      qe_elapsed = Some 1000, qe_queued = None, qe_execution = None, qe_cpu = None\<rparr>"

definition example_query_ops :: "int query_op list" where
  "example_query_ops =
     (if event_hash ref_float example_query_event = Some zero_hash then []
      else [Record_Query example_query_event, Record_Query example_query_event]) @
     [Prune_Queries (utc_time 9000000000000), Ack_Query 1]"

lemma example_query_ops_ok:
  "list_all (query_op_ok ref_float) example_query_ops" "length example_query_ops < 2 ^ 64 - 1"
  "one_completion example_query_ops" "query_options_ok example_query_options"
  by (simp_all add: example_query_ops_def query_op_ok_def minute_times_def event_times_def example_query_event_def
      one_completion_def utc_time_def query_options_ok_def capacity_ok_def example_query_options_def max_int64_def byte_def)

lemma example_query_created: "\<exists>d. query_created ref_float ref_bolt example_query_options [] d"
proof -
  have "capacity_ok example_query_options" using example_query_ops_ok(4) by (simp add: query_options_ok_def)
  then have "query_refined ref_float ref_bolt example_query_options [] (Inr empty_query_abs)
      (case update_tx ref_bolt () (create_query_db ref_float ref_bolt example_query_options) [] of (d', _, err) \<Rightarrow> (d', err))"
    by (rule create_query_refines [OF ref_float_ok ref_bolt_ok]) (simp add: ref_bolt_def)
  then have "\<exists>d. update_tx ref_bolt () (create_query_db ref_float ref_bolt example_query_options) [] = (d, (), None)"
    by (auto simp: query_refined_def commit_fails_def ref_bolt_def split: prod.splits)
  then show ?thesis by (simp add: query_created_def ref_bolt_def)
qed

text \<open>Claim C25. Whatever sequence of records, prunes and acknowledgements follows the creation of the query
  state, with commits that may fail at any point, the next \<open>Open\<close> accepts the file: its validation passes,
  and the statistics' pending counter is the number of queued events.\<close>

theorem query_state_reopens:
  assumes "float_ok F" "bolt_ok B" "query_options_ok opts" "query_created F B opts d0 d"
    "list_all (query_op_ok F) ops" "length ops < 2 ^ 64 - 1"
  shows "validate_query_db F B opts (query_run F B opts ops d) = Inr () \<and>
    (\<exists>st. query_stats_of F B (query_run F B opts ops d) = Inr st \<and>
          qs_pending st = int (key_n B (query_run F B opts ops d) query_events))"
proof -
  have o: "capacity_ok opts" using assms(3) by (simp add: query_options_ok_def)
  obtain a where r: "query_represents F B opts (query_run F B opts ops d) a"
    using query_run_represents [OF assms(1,2) o assms(5) query_created_represents [OF assms(1,2) o assms(4)],
        of "\<lambda>_. True"] assms(6) by (auto simp: empty_query_abs_def)
  show ?thesis
    using validate_query_view [OF assms(1,2) r] query_stats_view [OF assms(1,2) r]
    by (auto simp: query_stats_of_def split: if_splits)
qed

theorem query_state_reopens_witness:
  "\<exists>d. query_created ref_float ref_bolt example_query_options [] d \<and>
     validate_query_db ref_float ref_bolt example_query_options
       (query_run ref_float ref_bolt example_query_options example_query_ops d) = Inr ()"
  using example_query_created
    query_state_reopens [OF ref_float_ok ref_bolt_ok example_query_ops_ok(4) _ example_query_ops_ok(1,2)]
  by blast

text \<open>
  Claim C26. Every terminal query is counted exactly once: after any run of records, prunes, acknowledgements and failed
  commits from a new state, the completion counters add up to the number of queries that had a final
  checkpoint at some point of the run - none is missed, and none counted twice or taken back when retention
  drops its checkpoint or it is reported again. All of them were reported as terminal. The condition
  \<open>one_completion\<close> is that the engine reports one completion time for a query; with two of them, a query
  that retention had dropped would be counted again.
\<close>

theorem queries_counted_once:
  assumes "float_ok F" "bolt_ok B" "query_options_ok opts" "query_created F B opts d0 d"
    "list_all (query_op_ok F) ops" "length ops < 2 ^ 64 - 1" "one_completion ops"
  shows "\<exists>st. query_stats_of F B (query_run F B opts ops d) = Inr st \<and>
    tally st = card {i. \<exists>k \<le> length ops. fst (fetch_final B i (query_run F B opts (take k ops) d))} \<and>
    {i. \<exists>k \<le> length ops. fst (fetch_final B i (query_run F B opts (take k ops) d))} \<subseteq>
      qe_query_id ` set (terminal_events ops)"
proof -
  have o: "capacity_ok opts" using assms(3) by (simp add: query_options_ok_def)
  obtain T where T: "\<And>e. e \<in> set (terminal_events ops) \<Longrightarrow> T (qe_query_id e) = zt_at (event_when e)"
    using one_completion_time [OF assms(7)] by blast
  have eq: "{i. \<exists>k \<le> length ops. fst (fetch_final B i (query_run F B opts (take k ops) d))} =
      ever_final F B opts ops d (length ops)"
    by (auto simp: ever_final_def final_after_def)
  obtain a where r: "query_represents F B opts (query_run F B opts ops d) a"
    and c: "counted T (qe_query_id ` set (terminal_events ops)) (ever_final F B opts ops d (length ops)) a"
    using run_counted [OF assms(1,2) o assms(5) query_created_represents [OF assms(1,2) o assms(4)] assms(6) T,
        of "length ops"] by auto
  then show ?thesis using query_stats_view [OF assms(1,2) r] unfolding eq counted_def by auto
qed

theorem queries_counted_once_witness:
  "\<exists>d st. query_created ref_float ref_bolt example_query_options [] d \<and>
     query_stats_of ref_float ref_bolt (query_run ref_float ref_bolt example_query_options example_query_ops d) = Inr st \<and>
     tally st = card {i. \<exists>k \<le> length example_query_ops.
       fst (fetch_final ref_bolt i (query_run ref_float ref_bolt example_query_options (take k example_query_ops) d))}"
  using example_query_created
    queries_counted_once [OF ref_float_ok ref_bolt_ok example_query_ops_ok(4) _ example_query_ops_ok(1-3)]
  by blast

end
