(* ===== verification/Query_Pipeline.thy ===== *)
theory Query_Pipeline
  imports Query_Props Kafka_Producer
begin

text \<open>
  The query pipeline (internal/queries/pipeline.go): a poll asks for the scope, the overview, prunes the
  state, lists the history and fetches the details that are not final yet, going round the list with a
  cursor; a flush publishes the queued events. The client and the broker are parameters with a state of
  their own; the clock readings and the orders in which the workers fetch and record are inputs of a poll.
  A fetch does not read the store and a record does not use the client, so any interleaving of the workers
  has the effect of some order of the fetches followed by some order of the records. Warnings are logged
  in \<open>qp_failures\<close>.
\<close>

record 'w query_api =
  api_get :: "bytes \<Rightarrow> 'w \<Rightarrow> 'w \<times> (go_error + bytes)"
  api_scope :: "'w \<Rightarrow> 'w \<times> go_error option"

record query_poll_config =
  qy_events :: bool
  qy_stale_after :: go_duration
  qy_max_history :: int
  qy_max_per_cycle :: nat

record ('d, 'w, 'k, 'f) query_pipe =
  qp_store :: 'd
  qp_world :: 'w
  qp_broker :: 'k
  qp_sample :: query_sample
  qp_scope :: bool
  qp_overview_ok :: bool
  qp_detail_ok :: bool
  qp_state_ok :: bool
  qp_publish_ok :: bool
  qp_detail_at :: go_time
  qp_stats :: "'f query_stats"
  qp_cursor :: nat
  qp_failures :: "bytes list"

record query_poll_input =
  pq_overview_now :: go_time
  pq_prune_now :: zoned
  pq_times :: "bytes \<Rightarrow> go_time \<times> go_time"
  pq_fetch_order :: "bytes list \<Rightarrow> bytes list"
  pq_record_order :: "bytes list \<Rightarrow> bytes list"
  pq_detail_at :: go_time

definition query_failure :: "bytes \<Rightarrow> ('d, 'w, 'k, 'f) query_pipe \<Rightarrow> ('d, 'w, 'k, 'f) query_pipe" where
  "query_failure stage p = p\<lparr>qp_failures := qp_failures p @ [stage]\<rparr>"

text \<open>\<open>New\<close> on the opened state, client and producer: the first statistics are the stored ones.\<close>

definition new_query_pipe ::
  "'f float_ops \<Rightarrow> 'd bolt \<Rightarrow> query_poll_config \<Rightarrow> 'd \<Rightarrow> 'w \<Rightarrow> 'k \<Rightarrow> go_error + ('d, 'w, 'k, 'f) query_pipe" where
  "new_query_pipe F B c d w k =
     (case query_stats_of F B d of
        Inl e \<Rightarrow> Inl e
      | Inr st \<Rightarrow>
          Inr \<lparr>qp_store = d, qp_world = w, qp_broker = k, qp_sample = zero_sample, qp_scope = False,
               qp_overview_ok = False, qp_detail_ok = False, qp_state_ok = True, qp_publish_ok = (\<not> qy_events c),
               qp_detail_at = zero_time, qp_stats = st, qp_cursor = 0, qp_failures = []\<rparr>)"

section \<open>Which details to fetch\<close>

text \<open>
  The loop over the list from the cursor: the identifiers that are not final, how many items were
  examined, and whether every look-up worked.
\<close>

function select_ids ::
  "(bytes \<Rightarrow> bool \<times> go_error option) \<Rightarrow> history_row list \<Rightarrow> nat \<Rightarrow> nat \<Rightarrow> nat \<Rightarrow> bytes list \<Rightarrow> bytes list \<times> nat \<times> bool"
where
  "select_ids final items cursor limit examined ids =
     (if examined < length items \<and> length ids < limit then
        (let item = items ! ((cursor + examined) mod length items) in
         case final (hr_id item) of
           (f, Some e) \<Rightarrow> (ids, examined + 1, False)
         | (f, None) \<Rightarrow>
             select_ids final items cursor limit (examined + 1) (if f then ids else ids @ [hr_id item]))
      else (ids, examined, True))"
  by auto
termination by (relation "measure (\<lambda>(final, items, cursor, limit, examined, ids). length items - examined)") auto

declare select_ids.simps [simp del]

definition plan_details :: "'d bolt \<Rightarrow> nat \<Rightarrow> history_row list \<Rightarrow> nat \<Rightarrow> 'd \<Rightarrow> bytes list \<times> nat \<times> bool" where
  "plan_details B limit items cursor d =
     (case select_ids (\<lambda>i. case fetch_final B i d of (f, _, e) \<Rightarrow> (f, e)) items cursor limit 0 [] of
        (ids, examined, ok) \<Rightarrow> (ids, (cursor + examined) mod length items, ok))"

section \<open>The workers\<close>

fun fetch_jobs ::
  "'f float_ops \<Rightarrow> 'w query_api \<Rightarrow> bytes \<Rightarrow> (bytes \<Rightarrow> go_time \<times> go_time) \<Rightarrow> bytes list \<Rightarrow> 'w
   \<Rightarrow> 'w \<times> (bytes \<times> (go_error + 'f query_event)) list" where
  "fetch_jobs F A source clocks [] w = (w, [])"
| "fetch_jobs F A source clocks (i # is) w =
     (case fetch_detail F (api_get A) i source (fst (clocks i)) (snd (clocks i)) w of
        (w1, r) \<Rightarrow> (case fetch_jobs F A source clocks is w1 of (w2, rs) \<Rightarrow> (w2, (i, r) # rs)))"

fun record_jobs ::
  "'f float_ops \<Rightarrow> 'd bolt \<Rightarrow> query_options \<Rightarrow> (bytes \<Rightarrow> (go_error + 'f query_event) option) \<Rightarrow> bytes list \<Rightarrow> 'd
   \<Rightarrow> 'd \<times> go_error option list" where
  "record_jobs F B opts results [] d = (d, [])"
| "record_jobs F B opts results (i # is) d =
     (let (d1, err) =
        (case results i of
           None \<Rightarrow> (d, None)
         | Some (Inl e) \<Rightarrow> (d, Some e)
         | Some (Inr event) \<Rightarrow> record_query F B opts event d)
      in case record_jobs F B opts results is d1 of (d2, errs) \<Rightarrow> (d2, err # errs))"

definition run_details ::
  "'f float_ops \<Rightarrow> 'd bolt \<Rightarrow> 'w query_api \<Rightarrow> query_options \<Rightarrow> query_poll_input \<Rightarrow> bytes list \<Rightarrow> 'w \<Rightarrow> 'd
   \<Rightarrow> 'w \<times> 'd \<times> go_error option list" where
  "run_details F B A opts inp ids w d =
     (case fetch_jobs F A (qo_source opts) (pq_times inp) (pq_fetch_order inp ids) w of
        (w1, results) \<Rightarrow>
          (case record_jobs F B opts (map_of results) (pq_record_order inp ids) d of
             (d1, errs) \<Rightarrow> (w1, d1, errs)))"

text \<open>The loop over the results: an expired record is reported, every other error fails the cycle.\<close>

definition read_results :: "go_error option list \<Rightarrow> ('d, 'w, 'k, 'f) query_pipe \<Rightarrow> ('d, 'w, 'k, 'f) query_pipe \<times> bool" where
  "read_results errs p =
     (fold (\<lambda>err p. if err = Some err_query_expired then query_failure ''retention_gap'' p else p) errs p,
      list_all (\<lambda>err. err = None \<or> err = Some err_query_expired) errs)"

section \<open>A poll\<close>

definition newer_stats :: "go_error + 'f query_stats \<Rightarrow> ('d, 'w, 'k, 'f) query_pipe \<Rightarrow> ('d, 'w, 'k, 'f) query_pipe" where
  "newer_stats st p =
     (case st of
        Inl e \<Rightarrow> p\<lparr>qp_state_ok := False\<rparr>
      | Inr a \<Rightarrow>
          (let p1 = p\<lparr>qp_state_ok := True\<rparr>
           in if qs_revision a \<ge> qs_revision (qp_stats p) then p1\<lparr>qp_stats := a\<rparr> else p1))"

definition poll_overview ::
  "'w query_api \<Rightarrow> query_poll_config \<Rightarrow> go_time \<Rightarrow> ('d, 'w, 'k, 'f) query_pipe \<Rightarrow> ('d, 'w, 'k, 'f) query_pipe" where
  "poll_overview A c now p =
     (case api_get A ''/ui/api/insights/overview/queries'' (qp_world p) of
        (w, r) \<Rightarrow>
          (case bindE r (\<lambda>body. decode_overview body now (qy_stale_after c)) of
             Inl e \<Rightarrow> query_failure ''overview'' (p\<lparr>qp_world := w, qp_overview_ok := False\<rparr>)
           | Inr sample \<Rightarrow> p\<lparr>qp_world := w, qp_overview_ok := True, qp_sample := sample\<rparr>))"

definition poll_details ::
  "'f float_ops \<Rightarrow> 'd bolt \<Rightarrow> 'w query_api \<Rightarrow> query_poll_config \<Rightarrow> query_options \<Rightarrow> query_poll_input
   \<Rightarrow> ('d, 'w, 'k, 'f) query_pipe \<Rightarrow> ('d, 'w, 'k, 'f) query_pipe \<times> bool" where
  "poll_details F B A c opts inp p =
     (case api_get A ''/ui/api/insights/history/queries'' (qp_world p) of
        (w, r) \<Rightarrow>
          (case bindE r (\<lambda>body. decode_history body (qy_max_history c)) of
             Inl e \<Rightarrow> (p\<lparr>qp_world := w\<rparr>, False)
           | Inr items \<Rightarrow>
               if items = [] then (p\<lparr>qp_world := w\<rparr>, True)
               else
                 (case plan_details B (qy_max_per_cycle c) items (qp_cursor p) (qp_store p) of
                    (ids, cursor, ok) \<Rightarrow>
                      (case run_details F B A opts inp ids w (qp_store p) of
                         (w1, d1, errs) \<Rightarrow>
                           (case read_results errs (p\<lparr>qp_world := w1, qp_store := d1, qp_cursor := cursor\<rparr>) of
                              (p1, good) \<Rightarrow> (p1, ok \<and> good))))))"

definition query_poll ::
  "'f float_ops \<Rightarrow> 'd bolt \<Rightarrow> 'w query_api \<Rightarrow> query_poll_config \<Rightarrow> query_options \<Rightarrow> query_poll_input
   \<Rightarrow> ('d, 'w, 'k, 'f) query_pipe \<Rightarrow> ('d, 'w, 'k, 'f) query_pipe" where
  "query_poll F B A c opts inp p =
     (case api_scope A (qp_world p) of
        (w, Some e) \<Rightarrow>
          query_failure ''scope''
            (p\<lparr>qp_world := w, qp_scope := False, qp_overview_ok := False, qp_detail_ok := False\<rparr>)
      | (w, None) \<Rightarrow>
          (let p1 = poll_overview A c (pq_overview_now inp) (p\<lparr>qp_world := w, qp_scope := True\<rparr>) in
           case prune F B opts (pq_prune_now inp) (qp_store p1) of
             (d, Some e) \<Rightarrow>
               query_failure ''state'' (p1\<lparr>qp_store := d, qp_state_ok := False, qp_detail_ok := False\<rparr>)
           | (d, None) \<Rightarrow>
               (case poll_details F B A c opts inp (p1\<lparr>qp_store := d\<rparr>) of
                  (p2, ok) \<Rightarrow>
                    (let st = query_stats_of F B (qp_store p2);
                         p3 = newer_stats st (p2\<lparr>qp_detail_ok := ok \<and> (case st of Inl _ \<Rightarrow> False | Inr _ \<Rightarrow> True),
                                                qp_detail_at := pq_detail_at inp\<rparr>)
                     in if ok then p3 else query_failure ''details'' p3))))"

section \<open>A flush\<close>

definition query_send :: "'k produce \<Rightarrow> bytes \<Rightarrow> query_record \<Rightarrow> 'k \<Rightarrow> 'k \<times> go_error option" where
  "query_send produce topic r = publish_query produce topic (Some (qr_key r)) (Some (qr_payload r))"

text \<open>
  The loop over the batch. \<open>others n\<close> are the operations that polls and backfill commit between the n-th
  publish and its acknowledgement.
\<close>

fun flush_rows ::
  "'f float_ops \<Rightarrow> 'd bolt \<Rightarrow> query_options \<Rightarrow> (query_record \<Rightarrow> 'k \<Rightarrow> 'k \<times> go_error option)
   \<Rightarrow> (nat \<Rightarrow> 'f query_op list) \<Rightarrow> nat \<Rightarrow> query_record list \<Rightarrow> 'd \<Rightarrow> 'k \<Rightarrow> 'd \<times> 'k \<times> go_error option" where
  "flush_rows F B opts send others n [] d k = (d, k, None)"
| "flush_rows F B opts send others n (r # rs) d k =
     (case send r k of
        (k1, Some e) \<Rightarrow> (d, k1, Some e)
      | (k1, None) \<Rightarrow>
          (case ack_query F B opts (qr_sequence r) (query_run F B opts (others n) d) of
             (d1, Some e) \<Rightarrow> (d1, k1, Some e)
           | (d1, None) \<Rightarrow> flush_rows F B opts send others (n + 1) rs d1 k1))"

definition query_flush ::
  "'f float_ops \<Rightarrow> 'd bolt \<Rightarrow> query_options \<Rightarrow> (query_record \<Rightarrow> 'k \<Rightarrow> 'k \<times> go_error option)
   \<Rightarrow> (nat \<Rightarrow> 'f query_op list) \<Rightarrow> ('d, 'w, 'k, 'f) query_pipe \<Rightarrow> ('d, 'w, 'k, 'f) query_pipe" where
  "query_flush F B opts send others p =
     (case (case query_records F B opts 100 (qp_store p) of
              Inl e \<Rightarrow> (qp_store p, qp_broker p, Some e)
            | Inr rows \<Rightarrow> flush_rows F B opts send others 0 rows (qp_store p) (qp_broker p)) of
        (d, k, err) \<Rightarrow>
          (let st = query_stats_of F B d;
               p1 = newer_stats st
                 (p\<lparr>qp_store := d, qp_broker := k,
                    qp_publish_ok := err = None \<and> (case st of Inl _ \<Rightarrow> False | Inr _ \<Rightarrow> True)\<rparr>)
           in if err = None then p1 else query_failure ''publish'' p1))"

section \<open>Readiness and metrics\<close>

definition sample_fresh :: "query_poll_config \<Rightarrow> go_time \<Rightarrow> ('d, 'w, 'k, 'f) query_pipe \<Rightarrow> bool" where
  "sample_fresh c now p \<longleftrightarrow>
     \<not> zoned_is_zero (sm_at (qp_sample p)) \<and> time_sub now (zt_at (sm_at (qp_sample p))) \<le> qy_stale_after c"

definition query_ready :: "query_poll_config \<Rightarrow> go_time \<Rightarrow> ('d, 'w, 'k, 'f) query_pipe \<Rightarrow> bool" where
  "query_ready c now p \<longleftrightarrow>
     sample_fresh c now p \<and> qp_scope p \<and> qp_overview_ok p \<and> qp_detail_ok p \<and> qp_state_ok p \<and>
     time_sub now (qp_detail_at p) \<le> qy_stale_after c \<and> (\<not> qy_events c \<or> qp_publish_ok p)"

text \<open>
  The metrics of \<open>Collect\<close>: a number that is an integer, nanoseconds that are shown as seconds, or a
  histogram with its cumulative buckets.
\<close>

datatype 'f query_value = Whole int | Seconds int | Buckets u64 'f "(int \<times> u64) list"

definition whole :: "bool \<Rightarrow> 'f query_value" where
  "whole b = Whole (if b then 1 else 0)"

definition observed_metrics :: "'f query_stats \<Rightarrow> bytes \<Rightarrow> (bytes \<times> bytes \<times> 'f query_value) list" where
  "observed_metrics st state =
     (''ddae_queries_observed_completed_total'', state, Whole (uint (completed_of st state))) #
     concat (map (\<lambda>field.
        case map_of (qs_histograms st) (field @ CHR '':'' # state) of
          None \<Rightarrow> []
        | Some h \<Rightarrow>
            [(''ddae_query_observed_'' @ field @ ''_seconds'', state,
              Buckets (hg_count h) (hg_sum h) (zip bound_millis (elems (hg_buckets h))))])
        histogram_names)"

definition query_metrics ::
  "query_poll_config \<Rightarrow> go_time \<Rightarrow> ('d, 'w, 'k, 'f) query_pipe \<Rightarrow> (bytes \<times> bytes \<times> 'f query_value) list" where
  "query_metrics c now p =
     (let fresh = sample_fresh c now p; s = qp_sample p in
      [(''ddae_query_collection_success'', [], whole (qp_overview_ok p \<and> fresh \<and> qp_scope p)),
       (''ddae_query_detail_collection_success'', [],
        whole (qp_detail_ok p \<and> qp_state_ok p \<and> time_sub now (qp_detail_at p) \<le> qy_stale_after c)),
       (''ddae_query_scope_all'', [], whole (qp_scope p \<and> fresh)),
       (''ddae_query_history_complete'', [], Whole 0)] @
      (if qp_scope p \<and> fresh
       then [(''ddae_queries_running'', [], Whole (sm_running s)), (''ddae_queries_queued'', [], Whole (sm_queued s))]
       else []) @
      (if \<not> zoned_is_zero (sm_at s)
       then [(''ddae_query_sample_timestamp_seconds'', [], Seconds (wrap64 (zt_at (sm_at s))))] else []) @
      [(''ddae_query_events_pending'', [], Whole (qs_pending (qp_stats p)))] @
      (if qy_events c then [(''ddae_query_event_publish_success'', [], whole (qp_publish_ok p))] else []) @
      concat (map (observed_metrics (qp_stats p)) terminal_states))"

section \<open>The cursor goes round the list\<close>

lemma select_ids_covers:
  assumes "select_ids final items cursor limit examined ids = (ids', ex, ok)" "\<And>i. snd (final i) = None"
  shows "examined \<le> ex" "examined < length items \<Longrightarrow> length ids < limit \<Longrightarrow> examined < ex" "set ids \<subseteq> set ids'"
    "examined \<le> j \<Longrightarrow> j < ex \<Longrightarrow>
       fst (final (hr_id (items ! ((cursor + j) mod length items)))) \<or>
       hr_id (items ! ((cursor + j) mod length items)) \<in> set ids'"
proof -
  have "examined \<le> ex \<and> (examined < length items \<longrightarrow> length ids < limit \<longrightarrow> examined < ex) \<and> set ids \<subseteq> set ids' \<and>
    (\<forall>j. examined \<le> j \<longrightarrow> j < ex \<longrightarrow>
       fst (final (hr_id (items ! ((cursor + j) mod length items)))) \<or>
       hr_id (items ! ((cursor + j) mod length items)) \<in> set ids')"
    using assms
  proof (induction final items cursor limit examined ids rule: select_ids.induct)
    case (1 final items cursor limit examined ids)
    let ?i = "hr_id (items ! ((cursor + examined) mod length items))"
    show ?case
    proof (cases "examined < length items \<and> length ids < limit")
      case go: True
      obtain f where f: "final ?i = (f, None)" using 1(3) by (metis prod.exhaust_sel)
      have step: "select_ids final items cursor limit (examined + 1) (if f then ids else ids @ [?i]) = (ids', ex, ok)"
        using 1(2) go f unfolding select_ids.simps [of _ _ _ _ examined] by (simp add: Let_def)
      note ih = 1(1) [OF go refl f [symmetric] refl step 1(3)]
      have "fst (final (hr_id (items ! ((cursor + j) mod length items)))) \<or>
          hr_id (items ! ((cursor + j) mod length items)) \<in> set ids'" if "examined \<le> j" "j < ex" for j
        using ih that f by (cases "j = examined") (auto split: if_splits)
      then show ?thesis using ih by (auto split: if_splits)
    next
      case False
      then have "ids' = ids" "ex = examined" using 1(2) unfolding select_ids.simps [of _ _ _ _ examined] by auto
      then show ?thesis using False by auto
    qed
  qed
  then show "examined \<le> ex" "examined < length items \<Longrightarrow> length ids < limit \<Longrightarrow> examined < ex" "set ids \<subseteq> set ids'"
    "examined \<le> j \<Longrightarrow> j < ex \<Longrightarrow>
       fst (final (hr_id (items ! ((cursor + j) mod length items)))) \<or>
       hr_id (items ! ((cursor + j) mod length items)) \<in> set ids'"
    by blast+
qed

text \<open>The selections of consecutive polls that list the same queries; \<open>ds\<close> are the stores they find.\<close>

fun plan_run :: "'d bolt \<Rightarrow> nat \<Rightarrow> history_row list \<Rightarrow> nat \<Rightarrow> 'd list \<Rightarrow> bytes list list" where
  "plan_run B limit items cursor [] = []"
| "plan_run B limit items cursor (d # ds) =
     (case plan_details B limit items cursor d of
        (ids, cursor', ok) \<Rightarrow> ids # plan_run B limit items cursor' ds)"

lemma plan_run_covers:
  assumes "0 < limit" "items \<noteq> []" "\<forall>d \<in> set ds. \<forall>i. snd (snd (fetch_final B i d)) = None" "j < length ds" "j < length items"
  shows "\<exists>n < length ds.
    fst (fetch_final B (hr_id (items ! ((cursor + j) mod length items))) (ds ! n)) \<or>
    hr_id (items ! ((cursor + j) mod length items)) \<in> set (plan_run B limit items cursor ds ! n)"
  using assms(3-5)
proof (induction ds arbitrary: cursor j)
  case (Cons d ds)
  let ?final = "\<lambda>i. case fetch_final B i d of (f, _, e) \<Rightarrow> (f, e)"
  obtain ids ex ok where sel: "select_ids ?final items cursor limit 0 [] = (ids, ex, ok)" by (metis prod_cases3)
  have run: "plan_run B limit items cursor (d # ds) = ids # plan_run B limit items ((cursor + ex) mod length items) ds"
    by (simp add: plan_details_def sel)
  have fine: "snd (?final i) = None" for i
  proof -
    have "snd (snd (fetch_final B i d)) = None" using Cons.prems(1) by simp
    then show ?thesis by (cases "fetch_final B i d") simp
  qed
  note cov = select_ids_covers [OF sel fine]
  show ?case
  proof (cases "j < ex")
    case True
    have "fst (?final i) = fst (fetch_final B i d)" for i by (simp split: prod.split)
    then show ?thesis using cov(4) [OF _ True] unfolding run by (intro exI [of _ 0]) auto
  next
    case False
    have ex: "0 < ex" using cov(2) assms(1,2) by simp
    have j: "j - ex < length ds" "j - ex < length items" using Cons.prems(2,3) ex False by auto
    have pos: "((cursor + ex) mod length items + (j - ex)) mod length items = (cursor + j) mod length items"
    proof -
      have "((cursor + ex) mod length items + (j - ex)) mod length items = ((cursor + ex) + (j - ex)) mod length items"
        by (rule mod_add_left_eq)
      then show ?thesis using False by simp
    qed
    have "\<forall>d \<in> set ds. \<forall>i. snd (snd (fetch_final B i d)) = None" using Cons.prems(1) by simp
    from Cons.IH [OF this j, of "(cursor + ex) mod length items", unfolded pos] obtain n where "n < length ds"
      "fst (fetch_final B (hr_id (items ! ((cursor + j) mod length items))) (ds ! n)) \<or>
       hr_id (items ! ((cursor + j) mod length items)) \<in> set (plan_run B limit items ((cursor + ex) mod length items) ds ! n)"
      by blast
    then show ?thesis unfolding run by (intro exI [of _ "Suc n"]) simp
  qed
qed simp

text \<open>Claim C28. No listed query starves: over as many consecutive polls as the history lists queries, each
  of them is found final by some poll or selected for its detail to be fetched, whatever the cursor starts
  at, however small the number of details per poll and whatever the state becomes in between.\<close>

theorem history_does_not_starve:
  assumes "0 < limit" "length ds = length items" "x \<in> set items"
    "\<forall>d \<in> set ds. \<forall>i. snd (snd (fetch_final B i d)) = None"
  shows "\<exists>n < length ds.
    fst (fetch_final B (hr_id x) (ds ! n)) \<or> hr_id x \<in> set (plan_run B limit items cursor ds ! n)"
proof -
  obtain p where p: "p < length items" "items ! p = x" using assms(3) by (meson in_set_conv_nth)
  let ?j = "(p + (length items - cursor mod length items)) mod length items"
  have j: "?j < length items" by (rule mod_less_divisor) (use p(1) in linarith)
  have c: "cursor mod length items < length items" by (rule mod_less_divisor) (use p(1) in linarith)
  have "(cursor + ?j) mod length items =
      (cursor mod length items + (p + (length items - cursor mod length items))) mod length items"
    by (simp only: mod_add_left_eq mod_add_right_eq)
  also have "\<dots> = (p + length items) mod length items" using c by simp
  finally have "(cursor + ?j) mod length items = p" using p(1) by simp
  then show ?thesis
    using plan_run_covers [OF assms(1) _ assms(4), of items ?j cursor] j p assms(2) by fastforce
qed

section \<open>A flush publishes in order\<close>

definition no_ack :: "'f query_op list \<Rightarrow> bool" where
  "no_ack ops \<longleftrightarrow> list_all (\<lambda>op. case op of Ack_Query s \<Rightarrow> False | _ \<Rightarrow> True) ops"

lemma spec_call_appends:
  assumes "case op of Ack_Query s \<Rightarrow> False | _ \<Rightarrow> True" "spec_call F opts op a = Inr a'"
  shows "\<exists>new. qa_queue a' = qa_queue a @ new"
  using assms
  by (auto simp: spec_call_def spec_record_query_def spec_record_def spec_prune_def Let_def
      split: query_op.splits if_splits option.splits)

lemma query_run_appends:
  assumes "float_ok F" "bolt_ok B" "capacity_ok opts" "list_all (query_op_ok F) ops" "no_ack ops"
    "query_represents F B opts d a" "unat (qa_seq a) + length ops < 2 ^ 64 - 1"
  shows "\<exists>a' new. query_represents F B opts (query_run F B opts ops d) a' \<and> qa_queue a' = qa_queue a @ new \<and>
    unat (qa_seq a') \<le> unat (qa_seq a) + length ops"
proof -
  have "\<exists>a'. query_represents F B opts (query_run F B opts ops d) a' \<and> (\<exists>new. qa_queue a' = qa_queue a @ new) \<and>
      unat (qa_seq a') \<le> unat (qa_seq a) + length ops"
  proof (rule query_run_represents [OF assms(1-4,6)])
    fix op and x x' :: "'a query_abs"
    assume h: "op \<in> set ops" "\<exists>new. qa_queue x = qa_queue a @ new" "spec_call F opts op x = Inr x'"
    have "case op of Ack_Query s \<Rightarrow> False | _ \<Rightarrow> True" using assms(5) h(1) by (simp add: no_ack_def list_all_iff)
    then show "\<exists>new. qa_queue x' = qa_queue a @ new" using spec_call_appends [of op F opts x x'] h(2,3) by auto
  qed (use assms(7) in simp_all)
  then show ?thesis by blast
qed

lemma spec_ack_head:
  assumes "qa_queue a = (s, e) # q" "query_wf F opts a" "spec_ack F s a = Inr a'"
  shows "qa_queue a' = q" "qa_seq a' = qa_seq a"
proof -
  have "s \<notin> fst ` set q" using query_wf_distinct [OF assms(2)] assms(1) by simp
  then have "without_seq s (qa_queue a) = q"
    unfolding without_seq_def using assms(1) by (auto intro!: filter_True)
  then show "qa_queue a' = q" "qa_seq a' = qa_seq a"
    using assms(1,3) by (auto simp: spec_ack_def Let_def)
qed

fun others_total :: "(nat \<Rightarrow> 'f query_op list) \<Rightarrow> nat \<Rightarrow> nat \<Rightarrow> nat" where
  "others_total others n 0 = 0"
| "others_total others n (Suc k) = length (others n) + others_total others (n + 1) k"

definition event_payloads :: "'d bolt \<Rightarrow> 'd \<Rightarrow> bytes list" where
  "event_payloads B d = map snd (bentries B d query_events)"

lemma event_payloads_view:
  assumes "bolt_ok B" "query_represents F B opts d a"
  shows "event_payloads B d = map (\<lambda>m. event_text F (snd m)) (qa_queue a)"
  using query_viewD(6) [OF assms(1) query_representsD(3) [OF assms(2)]]
  by (simp add: event_payloads_def query_entry_def comp_def)

text \<open>
  What the others did during the flush: the database before and after each of their turns that took place,
  and the payloads that a turn appended to the queue.
\<close>

fun flush_turns ::
  "'f float_ops \<Rightarrow> 'd bolt \<Rightarrow> query_options \<Rightarrow> (query_record \<Rightarrow> 'k \<Rightarrow> 'k \<times> go_error option)
   \<Rightarrow> (nat \<Rightarrow> 'f query_op list) \<Rightarrow> nat \<Rightarrow> query_record list \<Rightarrow> 'd \<Rightarrow> 'k \<Rightarrow> ('d \<times> 'd) list" where
  "flush_turns F B opts send others n [] d k = []"
| "flush_turns F B opts send others n (r # rs) d k =
     (case send r k of
        (k1, Some e) \<Rightarrow> []
      | (k1, None) \<Rightarrow>
          (d, query_run F B opts (others n) d) #
          (case ack_query F B opts (qr_sequence r) (query_run F B opts (others n) d) of
             (d1, Some e) \<Rightarrow> []
           | (d1, None) \<Rightarrow> flush_turns F B opts send others (n + 1) rs d1 k1))"

definition appended :: "'d bolt \<Rightarrow> 'd \<times> 'd \<Rightarrow> bytes list" where
  "appended B t = drop (length (event_payloads B (fst t))) (event_payloads B (snd t))"

definition only_appends :: "'d bolt \<Rightarrow> 'd \<times> 'd \<Rightarrow> bool" where
  "only_appends B t \<longleftrightarrow> event_payloads B (snd t) = event_payloads B (fst t) @ appended B t"

lemma appended_view:
  assumes "bolt_ok B" "query_represents F B opts d a" "query_represents F B opts d' a'" "qa_queue a' = qa_queue a @ new"
  shows "appended B (d, d') = map (\<lambda>m. event_text F (snd m)) new" "only_appends B (d, d')"
  using event_payloads_view [OF assms(1,2)] event_payloads_view [OF assms(1,3)] assms(4)
  by (simp_all add: appended_def only_appends_def)

lemma flush_rows_delivers:
  assumes F: "float_ok F" and B: "bolt_ok B" and o: "capacity_ok opts" and br: "broker_ok send accepted"
    and ot: "\<And>n. list_all (query_op_ok F) (others n) \<and> no_ack (others n)"
    and r: "query_represents F B opts d a" and q: "qa_queue a = rows @ rest"
    and room: "unat (qa_seq a) + others_total others n (length rows) < 2 ^ 64 - 1"
    and fl: "flush_rows F B opts send others n (map (abs_record F) rows) d k = (d', k', err)"
  shows "\<exists>j m a' new. query_represents F B opts d' a' \<and> qa_queue a' = drop j rows @ rest @ new \<and>
    accepted k' = accepted k @ take m (map (abs_record F) rows) \<and> j \<le> m \<and> m \<le> Suc j \<and> m \<le> length rows \<and>
    (err = None \<longrightarrow> j = length rows) \<and>
    map (\<lambda>m. event_text F (snd m)) new =
      concat (map (appended B) (flush_turns F B opts send others n (map (abs_record F) rows) d k)) \<and>
    list_all (only_appends B) (flush_turns F B opts send others n (map (abs_record F) rows) d k) \<and>
    j \<le> length (flush_turns F B opts send others n (map (abs_record F) rows) d k) \<and>
    length (flush_turns F B opts send others n (map (abs_record F) rows) d k) \<le> m"
  using r q room fl
proof (induction rows arbitrary: n d a k rest)
  case Nil
  then show ?case by (intro exI [of _ 0] exI [of _ a] exI [of _ "[]"]) simp
next
  case (Cons x rows)
  obtain s e where x: "x = (s, e)" by (cases x)
  have sq: "qr_sequence (abs_record F x) = s" by (simp add: abs_record_def x)
  obtain k1 e1 where snd: "send (abs_record F x) k = (k1, e1)" by (cases "send (abs_record F x) k")
  show ?case
  proof (cases e1)
    case (Some er)
    then have "d' = d" "k' = k1" "err = Some er" using Cons.prems(4) snd by auto
    moreover have "flush_turns F B opts send others n (map (abs_record F) (x # rows)) d k = []" by (simp add: snd Some)
    moreover have "accepted k1 = accepted k @ take 0 (map (abs_record F) (x # rows)) \<or>
        accepted k1 = accepted k @ take 1 (map (abs_record F) (x # rows))"
      using broker_okD(2) [OF br snd [unfolded Some]] by auto
    ultimately show ?thesis
      using Cons.prems(1,2) by (elim disjE) (intro exI [of _ 0] exI [of _ a] exI [of _ "[]"], simp,
        intro exI [of _ 0] exI [of _ 1] exI [of _ a] exI [of _ "[]"], simp)
  next
    case None
    have acc: "accepted k1 = accepted k @ [abs_record F x]" by (rule broker_okD(1) [OF br snd [unfolded None]])
    have rm: "unat (qa_seq a) + length (others n) < 2 ^ 64 - 1" using Cons.prems(3) by simp
    obtain a1 new1 where a1: "query_represents F B opts (query_run F B opts (others n) d) a1"
      "qa_queue a1 = qa_queue a @ new1" "unat (qa_seq a1) \<le> unat (qa_seq a) + length (others n)"
      using query_run_appends [OF F B o _ _ Cons.prems(1) rm] ot [of n] by blast
    obtain d2 e2 where ak: "ack_query F B opts s (query_run F B opts (others n) d) = (d2, e2)"
      by (cases "ack_query F B opts s (query_run F B opts (others n) d)")
    note ref = ack_query_refines [OF F B a1(1), of s, unfolded ak query_refined_def]
    note app = appended_view [OF B Cons.prems(1) a1(1,2)]
    show ?thesis
    proof (cases e2)
      case (Some er)
      then have "d2 = query_run F B opts (others n) d" using ref by (auto split: sum.splits)
      moreover have "d' = d2" "k' = k1" "err = Some er" using Cons.prems(4) snd None ak Some by (simp_all add: sq)
      moreover have "flush_turns F B opts send others n (map (abs_record F) (x # rows)) d k =
          [(d, query_run F B opts (others n) d)]"
        by (simp add: snd None sq ak Some)
      ultimately show ?thesis
        using a1(1,2) Cons.prems(2) acc app
        by (intro exI [of _ 0] exI [of _ 1] exI [of _ a1] exI [of _ new1]) simp
    next
      case acked: None
      then obtain a2 where a2: "spec_ack F s a1 = Inr a2" "query_represents F B opts d2 a2"
        using ref by (auto split: sum.splits)
      have "qa_queue a1 = (s, e) # rows @ rest @ new1" using a1(2) Cons.prems(2) x by simp
      note hd = spec_ack_head [OF this query_representsD(2) [OF a1(1)] a2(1)]
      have q2: "qa_queue a2 = rows @ (rest @ new1)" using hd(1) by simp
      have rm2: "unat (qa_seq a2) + others_total others (n + 1) (length rows) < 2 ^ 64 - 1"
        using hd(2) a1(3) Cons.prems(3) by simp
      have fl2: "flush_rows F B opts send others (n + 1) (map (abs_record F) rows) d2 k1 = (d', k', err)"
        using Cons.prems(4) snd None ak acked by (simp add: sq)
      from Cons.IH [OF a2(2) q2 rm2 fl2] obtain j m a' new where ih: "query_represents F B opts d' a'"
        "qa_queue a' = drop j rows @ (rest @ new1) @ new" "accepted k' = accepted k1 @ take m (map (abs_record F) rows)"
        "j \<le> m" "m \<le> Suc j" "m \<le> length rows" "err = None \<longrightarrow> j = length rows"
        "map (\<lambda>m. event_text F (snd m)) new =
          concat (map (appended B) (flush_turns F B opts send others (n + 1) (map (abs_record F) rows) d2 k1))"
        "list_all (only_appends B) (flush_turns F B opts send others (n + 1) (map (abs_record F) rows) d2 k1)"
        "j \<le> length (flush_turns F B opts send others (n + 1) (map (abs_record F) rows) d2 k1)"
        "length (flush_turns F B opts send others (n + 1) (map (abs_record F) rows) d2 k1) \<le> m"
        by blast
      have "flush_turns F B opts send others n (map (abs_record F) (x # rows)) d k =
          (d, query_run F B opts (others n) d) #
          flush_turns F B opts send others (n + 1) (map (abs_record F) rows) d2 k1"
        by (simp add: snd None sq ak acked)
      then show ?thesis
        using ih acc app by (intro exI [of _ "Suc j"] exI [of _ "Suc m"] exI [of _ a'] exI [of _ "new1 @ new"]) simp
    qed
  qed
qed

lemma newer_stats_fields [simp]:
  "qp_store (newer_stats st p) = qp_store p" "qp_broker (newer_stats st p) = qp_broker p"
  "qp_publish_ok (newer_stats st p) = qp_publish_ok p" "qp_store (query_failure x p) = qp_store p"
  "qp_broker (query_failure x p) = qp_broker p" "qp_publish_ok (query_failure x p) = qp_publish_ok p"
  by (simp_all add: newer_stats_def query_failure_def Let_def split: sum.split)

text \<open>Claim C27. A flush sends the queued events in order and removes only what the broker accepted: from a
  state that any run left, with polls and backfill recording and pruning in turns meanwhile, it hands the broker
  the first \<open>m\<close> payloads of the queue and removes the first \<open>j\<close> of them, with \<open>m - 1 \<le> j \<le> m\<close>. Everything behind
  them stays, followed by exactly what the others appended in their turns, in order, nothing of it lost,
  repeated or changed. When the flush reports success the whole batch was sent and removed.\<close>

theorem query_flush_in_order:
  assumes "float_ok F" "bolt_ok B" "query_options_ok opts" "query_created F B opts d0 d"
    "qp_store p = query_run F B opts ops d" "list_all (query_op_ok F) ops" "broker_ok send accepted"
    "\<And>n. list_all (query_op_ok F) (others n) \<and> no_ack (others n)"
    "length ops + others_total others 0 100 < 2 ^ 64 - 1"
  shows "\<exists>rows j m. query_records F B opts 100 (qp_store p) = Inr rows \<and>
    map qr_payload (drop (length (accepted (qp_broker p))) (accepted (qp_broker (query_flush F B opts send others p)))) =
      take m (event_payloads B (qp_store p)) \<and>
    take (length (accepted (qp_broker p))) (accepted (qp_broker (query_flush F B opts send others p))) = accepted (qp_broker p) \<and>
    event_payloads B (qp_store (query_flush F B opts send others p)) =
      drop j (event_payloads B (qp_store p)) @
      concat (map (appended B) (flush_turns F B opts send others 0 rows (qp_store p) (qp_broker p))) \<and>
    list_all (only_appends B) (flush_turns F B opts send others 0 rows (qp_store p) (qp_broker p)) \<and>
    j \<le> length (flush_turns F B opts send others 0 rows (qp_store p) (qp_broker p)) \<and>
    length (flush_turns F B opts send others 0 rows (qp_store p) (qp_broker p)) \<le> m \<and>
    j \<le> m \<and> m \<le> Suc j \<and>
    (qp_publish_ok (query_flush F B opts send others p) \<longrightarrow> j = min 100 (length (event_payloads B (qp_store p))))"
proof -
  have o: "capacity_ok opts" using assms(3) by (simp add: query_options_ok_def)
  have "\<exists>a. query_represents F B opts (query_run F B opts ops d) a \<and> True \<and> unat (qa_seq a) \<le> unat (0 :: u64) + length ops"
    using query_run_represents [OF assms(1,2) o assms(6) query_created_represents [OF assms(1,2) o assms(4)],
        where P = "\<lambda>_. True"] assms(9) by (simp add: empty_query_abs_def)
  then obtain a where r: "query_represents F B opts (qp_store p) a" and sq: "unat (qa_seq a) \<le> length ops"
    using assms(5) by auto
  let ?rows = "take 100 (qa_queue a)"
  have rec: "query_records F B opts 100 (qp_store p) = Inr (map (abs_record F) ?rows)"
    using query_records_view [OF assms(1,2) r, of 100] by simp
  obtain d' k' err where fl: "flush_rows F B opts send others 0 (map (abs_record F) ?rows) (qp_store p) (qp_broker p) = (d', k', err)"
    by (metis prod_cases3)
  have mono: "others_total others n k \<le> others_total others n (k + i)" for n k i
    by (induction others n k rule: others_total.induct) (auto simp: add.commute)
  have "unat (qa_seq a) + others_total others 0 (length ?rows) < 2 ^ 64 - 1"
    using sq assms(9) mono [of 0 "length ?rows" "100 - length ?rows"] by simp
  from flush_rows_delivers [OF assms(1,2) o assms(7,8) r _ this fl, of "drop 100 (qa_queue a)"]
  obtain j m a' new where h: "query_represents F B opts d' a'" "qa_queue a' = drop j ?rows @ drop 100 (qa_queue a) @ new"
    "accepted k' = accepted (qp_broker p) @ take m (map (abs_record F) ?rows)" "j \<le> m" "m \<le> Suc j" "m \<le> length ?rows"
    "err = None \<longrightarrow> j = length ?rows"
    and turns: "map (\<lambda>m. event_text F (snd m)) new =
      concat (map (appended B) (flush_turns F B opts send others 0 (map (abs_record F) ?rows) (qp_store p) (qp_broker p)))"
    "list_all (only_appends B) (flush_turns F B opts send others 0 (map (abs_record F) ?rows) (qp_store p) (qp_broker p))"
    "j \<le> length (flush_turns F B opts send others 0 (map (abs_record F) ?rows) (qp_store p) (qp_broker p))"
    "length (flush_turns F B opts send others 0 (map (abs_record F) ?rows) (qp_store p) (qp_broker p)) \<le> m"
    by auto
  have fin: "qp_store (query_flush F B opts send others p) = d'" "qp_broker (query_flush F B opts send others p) = k'"
    "qp_publish_ok (query_flush F B opts send others p) \<longrightarrow> err = None"
    by (simp_all add: query_flush_def rec fl Let_def)
  have pl: "event_payloads B (qp_store p) = map (\<lambda>m. event_text F (snd m)) (qa_queue a)"
    by (rule event_payloads_view [OF assms(2) r])
  have jl: "j \<le> 100" "j \<le> length (qa_queue a)" "m \<le> 100" using h(4,6) by simp_all
  have "drop j ?rows @ drop 100 (qa_queue a) = drop j (qa_queue a)"
    using jl by (metis append_take_drop_id drop_append diff_is_0_eq drop_0 length_take min.bounded_iff)
  then have q': "event_payloads B d' = drop j (event_payloads B (qp_store p)) @ map (\<lambda>m. event_text F (snd m)) new"
    unfolding event_payloads_view [OF assms(2) h(1)] pl h(2) by (simp add: drop_map append_assoc [symmetric] del: append_assoc)
  have sent: "map qr_payload (take m (map (abs_record F) ?rows)) = take m (event_payloads B (qp_store p))"
    unfolding pl using jl(3) by (simp add: take_map abs_record_def comp_def)
  show ?thesis
    unfolding fin using rec h(3-5,7) q' sent fin(3) pl turns
    by (intro exI [of _ "map (abs_record F) ?rows"] exI [of _ j] exI [of _ m]) (auto simp: min.commute)
qed

section \<open>Every fetched detail can be recorded\<close>

lemma un_time_minutes: "un_time j z = Some x \<Longrightarrow> zt_off z mod 60 = 0 \<Longrightarrow> zt_off x mod 60 = 0"
  by (auto simp: un_time_def parse_zoned_minutes split: json.splits)

lemma un_wire_minutes:
  assumes "un_wire j = Some w"
  shows "zt_off (wd_submitted w) mod 60 = 0" "wd_completed w = Some c \<Longrightarrow> zt_off c mod 60 = 0"
proof -
  have z: "zt_off zero_zoned mod 60 = 0" by simp
  have f: "zt_off y mod 60 = 0" if "un_field name un_time ms zero_zoned = Some y" for name ms y
    using that z un_time_minutes by (rule un_field_keeps)
  have p: "\<forall>x. y = Some x \<longrightarrow> zt_off x mod 60 = 0"
    if "un_field name (\<lambda>j cur. un_ptr un_time zero_zoned j) ms None = Some y" for name ms y
    using that
    by (rule un_field_keeps) (use z un_time_minutes in \<open>auto simp: un_ptr_def split: json.splits\<close>)
  have "zt_off (wd_submitted w) mod 60 = 0 \<and> (\<forall>c. wd_completed w = Some c \<longrightarrow> zt_off c mod 60 = 0)"
    using assms f p z
    by (cases j) (auto simp: un_wire_def zero_wire_def bind_eq_Some_conv)
  then show "zt_off (wd_submitted w) mod 60 = 0" "wd_completed w = Some c \<Longrightarrow> zt_off c mod 60 = 0" by blast+
qed

definition query_state_values :: "bytes list" where
  "query_state_values =
     [''finished'', ''failed'', ''canceled'', ''queued'', ''running'', ''planning'', ''starting'', ''finishing'',
      ''waiting_for_resources'', ''dispatching'', ''unknown'']"

lemma query_state_name_range: "query_state_name s \<in> set query_state_values"
  by (simp add: query_state_name_def query_state_values_def Let_def)

lemma to_upper_ascii:
  assumes "\<forall>c \<in> set s. byte c < 128"
  shows "to_upper s = map (\<lambda>c. if is_lower c then chr (byte c - 32) else c) s"
proof -
  have "utf8_runes s = map (\<lambda>c. [c]) s" using assms by (intro utf8_runes_ascii) simp
  moreover have "concat (map upper_rune (map (\<lambda>c. [c]) s)) = map (\<lambda>c. if is_lower c then chr (byte c - 32) else c) s"
    by (induction s) (auto simp: upper_rune_def)
  ultimately show ?thesis by (simp add: to_upper_def)
qed

lemma upper_states:
  "to_upper ''finished'' = ''FINISHED''" "to_upper ''failed'' = ''FAILED''" "to_upper ''canceled'' = ''CANCELED''"
  "to_upper ''queued'' = ''QUEUED''" "to_upper ''running'' = ''RUNNING''" "to_upper ''planning'' = ''PLANNING''"
  "to_upper ''starting'' = ''STARTING''" "to_upper ''finishing'' = ''FINISHING''"
  "to_upper ''waiting_for_resources'' = ''WAITING_FOR_RESOURCES''" "to_upper ''dispatching'' = ''DISPATCHING''"
  "to_upper ''unknown'' = ''UNKNOWN''"
  by (simp_all add: to_upper_ascii is_lower_def byte_def chr_def char_of_def bit_0)

lemma query_state_names: "list_all (\<lambda>s. query_state_name s = s) query_state_values"
  unfolding query_state_values_def by (simp add: query_state_name_def upper_states)

lemma decode_detail_event:
  assumes F: "float_ok F" and d: "decode_detail F body i source (utc_time before) after = Inr e" and b: "\<not> is_zero before"
    and z: "\<And>c. qe_completed e = Some c \<Longrightarrow> \<not> zoned_is_zero c"
  shows "event_valid F e source" "minute_times e" "list_all (fl_finite F) (event_durations e)"
proof -
  from d obtain w where w: "decode_body un_wire body = Inr w" and wd: "wd_id w = i" "valid_query_id i"
    "text_valid (wd_user w) True" "text_valid (wd_source w) False" "wd_state w \<noteq> []" "\<not> zoned_is_zero (wd_submitted w)"
    "\<And>c. wd_completed w = Some c \<Longrightarrow> \<not> zt_at c < zt_at (wd_submitted w)"
    "terminal (query_state_name (wd_state w)) \<Longrightarrow> wd_completed w \<noteq> None \<and> wd_elapsed w \<noteq> None"
    and e: "\<exists>el qu ex cp. seconds_of F (wd_elapsed w) = Inr el \<and> seconds_of F (wd_queued w) = Inr qu \<and>
      seconds_of F (wd_execution w) = Inr ex \<and> seconds_of F (wd_cpu w) = Inr cp \<and>
      e = \<lparr>qe_source_instance = source, qe_query_id = i, qe_user = wd_user w,
           qe_source = wd_source w, qe_state = query_state_name (wd_state w), qe_submitted = wd_submitted w,
           qe_completed = wd_completed w, qe_observed = utc_time before, qe_elapsed = el,
           qe_queued = qu, qe_execution = ex, qe_cpu = cp\<rparr>"
    by (auto simp: decode_detail_def Let_def split: if_splits option.splits)
  obtain j where "un_wire j = Some w" using w by (auto simp: decode_body_def bind_eq_Some_conv split: option.splits)
  note m = un_wire_minutes [OF this]
  have sec: "\<forall>v. x = Some v \<longrightarrow> fl_finite F v \<and> fl_le F (fl_zero F) v \<and> fl_le F v (fl_milli F max_safe)"
    "x = None \<longleftrightarrow> y = None" if "seconds_of F y = Inr x" for x y
    using that float_milli [OF F] float_milli_mono [OF F]
    by (auto simp: seconds_of_def max_safe_def split: option.splits if_splits)
  have idem: "query_state_name (query_state_name s) = query_state_name s" "query_state_name s \<noteq> []" for s
    using query_state_names query_state_name_range [of s] by (auto simp: list_all_iff query_state_values_def)
  show "minute_times e" using e m by (auto simp: minute_times_def event_times_def utc_time_def split: option.splits)
  show "list_all (fl_finite F) (event_durations e)"
    using e sec(1) by (auto simp: event_durations_def split: option.splits)
  obtain el qu ex cp where s4: "seconds_of F (wd_elapsed w) = Inr el" "seconds_of F (wd_queued w) = Inr qu"
    "seconds_of F (wd_execution w) = Inr ex" "seconds_of F (wd_cpu w) = Inr cp"
    and e': "e = \<lparr>qe_source_instance = source, qe_query_id = i, qe_user = wd_user w,
           qe_source = wd_source w, qe_state = query_state_name (wd_state w), qe_submitted = wd_submitted w,
           qe_completed = wd_completed w, qe_observed = utc_time before, qe_elapsed = el,
           qe_queued = qu, qe_execution = ex, qe_cpu = cp\<rparr>"
    using e by blast
  have "list_all (\<lambda>v. fl_finite F v \<and> fl_le F (fl_zero F) v \<and> fl_le F v (fl_milli F max_safe)) (event_durations e)"
    using sec(1) [OF s4(1)] sec(1) [OF s4(2)] sec(1) [OF s4(3)] sec(1) [OF s4(4)]
    by (simp add: event_durations_def e' split: option.split)
  moreover have "terminal (qe_state e) \<Longrightarrow> qe_completed e \<noteq> None \<and> qe_elapsed e \<noteq> None"
    using wd(8) sec(2) [OF s4(1)] by (simp add: e')
  moreover have "case qe_completed e of None \<Rightarrow> True | Some c \<Rightarrow> \<not> zoned_is_zero c \<and> \<not> zt_at c < zt_at (qe_submitted e)"
    using wd(7) z by (simp add: e' split: option.split)
  ultimately show "event_valid F e source"
    using wd(2-6) idem b unfolding event_valid_def by (simp add: e' zoned_is_zero_def)
qed

lemma query_state_name_length: "length (query_state_name s) \<le> 21"
  by (simp add: query_state_name_def Let_def)

lemma member_costs:
  "(\<And>y. x = Some y \<Longrightarrow> print_bound (f y) \<le> b) \<Longrightarrow>
     sum_list (map (\<lambda>(k, v). 6 * length k + 4 + print_bound v) (opt_member n f x)) \<le> 6 * length n + 4 + b"
  "sum_list (map (\<lambda>(k, v). 6 * length k + 4 + print_bound v) (str_member n t)) \<le> 6 * length n + 4 + (6 * length t + 2)"
  by (cases x; simp add: opt_member_def) (simp add: str_member_def)

lemma event_size:
  assumes F: "float_ok F" and v: "event_valid F e source" and s: "length source \<le> 1024"
    and t: "list_all zoned_json_ok (event_times e)" and d: "list_all (fl_finite F) (event_durations e)"
  shows "length (event_text F e) \<le> max_query_bytes"
proof -
  have l: "length (qe_source_instance e) \<le> 1024" "length (qe_query_id e) \<le> 256" "length (qe_user e) \<le> 1024"
    "length (qe_source e) \<le> 1024" "length (qe_state e) \<le> 21"
    using v s query_state_name_length [of "qe_state e"]
    by (auto simp: event_valid_def valid_query_id_def text_valid_def)
  have tm: "print_bound (jtime z) \<le> 242" if "z \<in> set (event_times e)" for z
    using that t time_bound by (auto simp: list_all_iff)
  have fl: "print_bound (jfloat F x) \<le> 25" if "x \<in> set (event_durations e)" for x
    using that d F by (auto simp: list_all_iff jfloat_def float_ok_def text_law_def)
  have c: "print_bound (jtime z) \<le> 242" if "qe_completed e = Some z" for z
    using tm [of z] that by (simp add: event_times_def)
  have ds: "qe_elapsed e = Some x \<Longrightarrow> print_bound (jfloat F x) \<le> 25" "qe_queued e = Some x \<Longrightarrow> print_bound (jfloat F x) \<le> 25"
    "qe_execution e = Some x \<Longrightarrow> print_bound (jfloat F x) \<le> 25" "qe_cpu e = Some x \<Longrightarrow> print_bound (jfloat F x) \<le> 25" for x
    using fl [of x] by (auto simp: event_durations_def)
  have t3: "print_bound (jtime (qe_submitted e)) \<le> 242" "print_bound (jtime (qe_observed e)) \<le> 242"
    using tm by (simp_all add: event_times_def)
  note costs = member_costs(2) [of "''source''" "qe_source e"]
    member_costs(1) [where x = "qe_completed e" and f = "jtime" and n = "''completed_at''" and b = 242, OF c]
    member_costs(1) [where x = "qe_elapsed e" and f = "jfloat F" and n = "''elapsed_seconds''" and b = 25, OF ds(1)]
    member_costs(1) [where x = "qe_queued e" and f = "jfloat F" and n = "''queued_seconds''" and b = 25, OF ds(2)]
    member_costs(1) [where x = "qe_execution e" and f = "jfloat F" and n = "''execution_seconds''" and b = 25, OF ds(3)]
    member_costs(1) [where x = "qe_cpu e" and f = "jfloat F" and n = "''cpu_seconds''" and b = 25, OF ds(4)]
  have "print_bound (query_event_json F e) \<le> 65536"
    using l t3 costs unfolding query_event_json_def print_bound.simps(6) map_append sum_list_append by simp
  then show ?thesis using length_json_print [of "query_event_json F e"] by (simp add: event_text_def max_query_bytes_def)
qed

lemma fetch_detail_Inr:
  "fetch_detail F get i source before after k = (k', Inr e) \<Longrightarrow>
     \<exists>body. decode_detail F body i source (utc_time before) after = Inr e"
  by (auto simp: fetch_detail_def split: if_splits prod.splits sum.splits)

text \<open>
  So a poll is a run of the state's operations: a prune, then a record for every detail that was fetched.
\<close>

lemma record_jobs_run:
  "record_jobs F B opts results is d = (d', errs) \<Longrightarrow>
     \<exists>es. d' = query_run F B opts (map Record_Query es) d \<and> set es \<subseteq> {e. \<exists>i. results i = Some (Inr e)}"
proof (induction "is" arbitrary: d d' errs)
  case (Cons i "is")
  obtain d1 err where d1: "(case results i of None \<Rightarrow> (d, None) | Some (Inl e) \<Rightarrow> (d, Some e)
      | Some (Inr event) \<Rightarrow> record_query F B opts event d) = (d1, err)" by fastforce
  obtain errs1 where r: "record_jobs F B opts results is d1 = (d', errs1)"
    using Cons.prems d1 by (auto split: prod.splits)
  obtain es where es: "d' = query_run F B opts (map Record_Query es) d1" "set es \<subseteq> {e. \<exists>i. results i = Some (Inr e)}"
    using Cons.IH [OF r] by blast
  show ?case
  proof (cases "\<exists>e. results i = Some (Inr e)")
    case True
    then obtain e where e: "results i = Some (Inr e)" by blast
    then have "d1 = fst (query_call F B opts (Record_Query e) d)" using d1 by (simp add: query_call_def)
    then show ?thesis using es e by (intro exI [of _ "e # es"]) auto
  next
    case False
    then have "d1 = d" using d1 by (auto split: option.splits sum.splits)
    then show ?thesis using es by blast
  qed
qed (auto intro: exI [of _ "[]"])

lemma query_run_append: "query_run F B opts (xs @ ys) d = query_run F B opts ys (query_run F B opts xs d)"
  by (induction xs arbitrary: d) simp_all

lemma fetch_jobs_events:
  "fetch_jobs F A source clocks is w = (w', rs) \<Longrightarrow> (i, Inr e) \<in> set rs \<Longrightarrow>
     \<exists>body. decode_detail F body i source (utc_time (fst (clocks i))) (snd (clocks i)) = Inr e"
  by (induction "is" arbitrary: w w' rs) (auto split: prod.splits dest: fetch_detail_Inr)

lemma poll_store_simps [simp]:
  "qp_store (poll_overview A c now p) = qp_store p"
  "qp_store (fst (read_results errs p)) = qp_store p"
proof -
  show "qp_store (poll_overview A c now p) = qp_store p"
    by (simp add: poll_overview_def split: prod.split sum.split)
  show "qp_store (fst (read_results errs p)) = qp_store p"
    unfolding read_results_def by (induction errs arbitrary: p) simp_all
qed

lemma poll_details_run:
  assumes "poll_details F B A c opts inp p = (p', ok)"
  shows "\<exists>es. qp_store p' = query_run F B opts (map Record_Query es) (qp_store p) \<and>
    (\<forall>e \<in> set es. \<exists>i body. decode_detail F body i (qo_source opts)
        (utc_time (fst (pq_times inp i))) (snd (pq_times inp i)) = Inr e)"
proof -
  have same: ?thesis if "qp_store p' = qp_store p" using that by (intro exI [of _ "[]"]) simp
  obtain w r where g: "api_get A ''/ui/api/insights/history/queries'' (qp_world p) = (w, r)" by fastforce
  show ?thesis
  proof (cases "bindE r (\<lambda>body. decode_history body (qy_max_history c))")
    case (Inl e)
    then show ?thesis using assms g by (intro same) (auto simp: poll_details_def)
  next
    case (Inr items)
    show ?thesis
    proof (cases "items = []")
      case True
      then show ?thesis using assms g Inr by (intro same) (auto simp: poll_details_def)
    next
      case False
      obtain ids cur k where pl: "plan_details B (qy_max_per_cycle c) items (qp_cursor p) (qp_store p) = (ids, cur, k)"
        by (metis prod_cases3)
      obtain w1 rs where f: "fetch_jobs F A (qo_source opts) (pq_times inp) (pq_fetch_order inp ids) w = (w1, rs)" by fastforce
      obtain d1 errs where rc: "record_jobs F B opts (map_of rs) (pq_record_order inp ids) (qp_store p) = (d1, errs)" by fastforce
      obtain p1 good where rr: "read_results errs (p\<lparr>qp_world := w1, qp_store := d1, qp_cursor := cur\<rparr>) = (p1, good)"
        by fastforce
      have "p' = p1" using assms g Inr False pl f rc rr by (simp add: poll_details_def run_details_def)
      then have st: "qp_store p' = d1"
        using poll_store_simps(2) [of errs "p\<lparr>qp_world := w1, qp_store := d1, qp_cursor := cur\<rparr>"] rr by simp
      obtain es where es: "d1 = query_run F B opts (map Record_Query es) (qp_store p)"
        "set es \<subseteq> {e. \<exists>i. map_of rs i = Some (Inr e)}"
        using record_jobs_run [OF rc] by blast
      have "\<exists>i body. decode_detail F body i (qo_source opts) (utc_time (fst (pq_times inp i))) (snd (pq_times inp i)) = Inr e"
        if "e \<in> set es" for e
      proof -
        obtain i where "map_of rs i = Some (Inr e)" using es(2) \<open>e \<in> set es\<close> by blast
        then show ?thesis using fetch_jobs_events [OF f map_of_SomeD] by blast
      qed
      then show ?thesis using es(1) st by blast
    qed
  qed
qed

theorem query_poll_is_run:
  "\<exists>ops. qp_store (query_poll F B A c opts inp p) = query_run F B opts ops (qp_store p) \<and> no_ack ops \<and>
     (\<forall>op \<in> set ops. op = Prune_Queries (pq_prune_now inp) \<or>
        (\<exists>e i body. op = Record_Query e \<and> decode_detail F body i (qo_source opts)
           (utc_time (fst (pq_times inp i))) (snd (pq_times inp i)) = Inr e))"
proof -
  obtain w err where sc: "api_scope A (qp_world p) = (w, err)" by fastforce
  show ?thesis
  proof (cases err)
    case (Some e)
    then show ?thesis using sc by (intro exI [of _ "[]"]) (simp add: query_poll_def no_ack_def)
  next
    case None
    define p1 where "p1 = poll_overview A c (pq_overview_now inp) (p\<lparr>qp_world := w, qp_scope := True\<rparr>)"
    have p1: "qp_store p1 = qp_store p" by (simp add: p1_def)
    obtain d e1 where pr: "prune F B opts (pq_prune_now inp) (qp_store p) = (d, e1)" by fastforce
    have d: "d = query_run F B opts [Prune_Queries (pq_prune_now inp)] (qp_store p)" using pr by (simp add: query_call_def)
    show ?thesis
    proof (cases e1)
      case (Some e)
      have "qp_store (query_poll F B A c opts inp p) = d"
        using sc None pr Some p1 by (simp add: query_poll_def p1_def [symmetric])
      then show ?thesis using d by (intro exI [of _ "[Prune_Queries (pq_prune_now inp)]"]) (simp add: no_ack_def)
    next
      case ok: None
      obtain p2 good where pd: "poll_details F B A c opts inp (p1\<lparr>qp_store := d\<rparr>) = (p2, good)" by fastforce
      have st: "qp_store (query_poll F B A c opts inp p) = qp_store p2"
        using sc None pr ok p1 pd by (simp add: query_poll_def p1_def [symmetric] Let_def)
      obtain es where es: "qp_store p2 = query_run F B opts (map Record_Query es) d"
        "\<forall>e \<in> set es. \<exists>i body. decode_detail F body i (qo_source opts)
           (utc_time (fst (pq_times inp i))) (snd (pq_times inp i)) = Inr e"
        using poll_details_run [OF pd] by auto
      show ?thesis
        using es d st
        by (intro exI [of _ "Prune_Queries (pq_prune_now inp) # map Record_Query es"]) (auto simp: no_ack_def list_all_iff)
    qed
  qed
qed

text \<open>Claim C29. What the client decodes the store accepts: an event that \<open>FetchDetail\<close> returns, with
  timestamps that have a JSON form and a completion time other than the zero time, passes the validation of
  \<open>Record\<close>, has a hash, stays within the size bound however long its texts are, and its payload is read
  back as the same event.\<close>

theorem fetched_detail_is_recordable:
  assumes "float_ok F" "capacity_ok opts" "fetch_detail F get i (qo_source opts) before after k = (k', Inr e)"
    "\<not> is_zero before" "list_all zoned_json_ok (event_times e)" "\<And>c. qe_completed e = Some c \<Longrightarrow> \<not> zoned_is_zero c"
  shows "event_valid F e (qo_source opts) \<and> event_hash F e \<noteq> None \<and>
    (\<exists>payload. marshal_query_event F e = Some payload \<and> length payload \<le> max_query_bytes \<and>
       decode_query_event F payload (qo_source opts) = Some e)"
proof -
  obtain body where b: "decode_detail F body i (qo_source opts) (utc_time before) after = Inr e"
    using fetch_detail_Inr [OF assms(3)] by blast
  note ev = decode_detail_event [OF assms(1) b assms(4,6)]
  have o: "length (qo_source opts) \<le> 1024" "utf8_valid (qo_source opts)" using assms(2) by (simp_all add: capacity_ok_def)
  have m: "marshal_query_event F e = Some (event_text F e)"
    using assms(5) ev(3) by (simp add: marshal_query_event_def event_text_def)
  note size = event_size [OF assms(1) ev(1) o(1) assms(5) ev(3)]
  have "event_times (e\<lparr>qe_observed := zero_zoned\<rparr>) = butlast (event_times e) @ [zero_zoned]"
    by (simp add: event_times_def split: option.split)
  moreover have "event_durations (e\<lparr>qe_observed := zero_zoned\<rparr>) = event_durations e" by (simp add: event_durations_def)
  ultimately have h: "event_hash F e \<noteq> None"
    using assms(5) ev(3) zero_zoned_json_ok
    by (auto simp: event_hash_def marshal_query_event_def list_all_iff dest: in_set_butlastD)
  have "event_good F opts e" using event_good_valid [OF ev(1) m ev(2) size o(2)] by simp
  then have "decode_query_event F (event_text F e) (qo_source opts) = Some e"
    using decode_query_event_print [OF assms(1), of e] by (simp add: event_good_def event_text_def del: json_print.simps)
  then show ?thesis using ev(1) h m size by blast
qed

section \<open>Witnesses\<close>

definition example_detail_json :: json where
  "example_detail_json =
     JObj [(''queryId'', JStr ''q1''), (''state'', JStr ''FINISHED''), (''user'', JStr ''u''),
           (''submissionTime'', jtime (utc_time 0)), (''completionTime'', jtime (utc_time 1000000000)),
           (''elapsedTime'', jint 1000)]"

lemma wire_names:
  "fold_name ''queryId'' = ''QUERYID''" "fold_name ''state'' = ''STATE''" "fold_name ''user'' = ''USER''"
  "fold_name ''source'' = ''SOURCE''" "fold_name ''submissionTime'' = ''SUBMISSIONTIME''"
  "fold_name ''completionTime'' = ''COMPLETIONTIME''" "fold_name ''elapsedTime'' = ''ELAPSEDTIME''"
  "fold_name ''queuedTime'' = ''QUEUEDTIME''" "fold_name ''executionTime'' = ''EXECUTIONTIME''" "fold_name ''cpuTime'' = ''CPUTIME''"
  by (simp_all add: fold_name_ascii is_lower_def byte_def chr_def char_of_def bit_0)

definition example_wire :: wire_detail where
  "example_wire =
     \<lparr>wd_id = ''q1'', wd_state = ''FINISHED'', wd_user = ''u'', wd_source = [], wd_submitted = utc_time 0,
      wd_completed = Some (utc_time 1000000000), wd_elapsed = Some 1000, wd_queued = None, wd_execution = None,
      wd_cpu = None\<rparr>"

lemma example_zoned: "zoned_json_ok (utc_time 0)" "zoned_json_ok (utc_time 1000000000)"
proof -
  have "utc_date 1000000000 = utc_date 0" by (simp add: utc_date_def)
  then show "zoned_json_ok (utc_time 0)" "zoned_json_ok (utc_time 1000000000)"
    using example_year by (simp_all add: zoned_json_ok_def year_ok_def utc_year_def)
qed

lemma example_detail_decoded: "decode_body un_wire (json_print example_detail_json) = Inr example_wire"
proof -
  have "json_ok example_detail_json"
    by (simp add: example_detail_json_def) (simp add: utf8_valid_ascii byte_def)
  then have p: "json_parse (json_print example_detail_json) = Some example_detail_json"
    by (rule json_parse_print) (simp add: example_detail_json_def max_nesting_def)
  have u: "un_wire example_detail_json = Some example_wire"
    using example_zoned
    by (simp add: example_detail_json_def un_wire_def example_wire_def equal_fold_def wire_names un_ptr_not_null
        min_int64_def max_int64_def)
  show ?thesis unfolding decode_body_def p by (simp add: u)
qed

definition example_get :: "bytes \<Rightarrow> unit \<Rightarrow> unit \<times> (go_error + bytes)" where
  "example_get path k = (k, Inr (json_print example_detail_json))"

definition example_fetched :: "int query_event" where
  "example_fetched =
     \<lparr>qe_source_instance = ''c'', qe_query_id = ''q1'', qe_user = ''u'', qe_source = [], qe_state = ''finished'',
      qe_submitted = utc_time 0, qe_completed = Some (utc_time 1000000000), qe_observed = utc_time 1000000000,
      qe_elapsed = Some (fl_milli ref_float 1000), qe_queued = None, qe_execution = None, qe_cpu = None\<rparr>"

lemma example_upper: "to_upper ''FINISHED'' = ''FINISHED''"
  by (simp add: to_upper_ascii is_lower_def byte_def)

lemma example_fetch:
  "fetch_detail ref_float example_get ''q1'' ''c'' 1000000000 2000000000 () = ((), Inr example_fetched)"
proof -
  have "CHR ''u'' \<noteq> chr 0 \<and> CHR ''u'' \<noteq> chr 13 \<and> CHR ''u'' \<noteq> chr 10" by (simp add: chr_def char_of_def)
  then have "decode_detail ref_float (json_print example_detail_json) ''q1'' ''c'' (utc_time 1000000000) 2000000000 = Inr example_fetched"
    unfolding decode_detail_def example_detail_decoded
    by (simp add: example_wire_def valid_query_id_def query_id_char_def is_lower_def is_upper_def is_digit_def
        text_valid_def byte_def contains_any_def utf8_valid_ascii zoned_is_zero_def utc_time_def is_zero_def zero_time_def query_state_name_def
        example_upper seconds_of_def max_safe_def example_fetched_def terminal_def)
  then show ?thesis
    by (simp add: fetch_detail_def example_get_def valid_query_id_def query_id_char_def is_lower_def is_digit_def byte_def)
qed

theorem fetched_detail_is_recordable_witness:
  "event_valid ref_float example_fetched ''c'' \<and> event_hash ref_float example_fetched \<noteq> None"
proof -
  have o: "capacity_ok example_query_options" using example_query_ops_ok(4) by (simp add: query_options_ok_def)
  have "list_all zoned_json_ok (event_times example_fetched)"
    using example_zoned by (simp add: event_times_def example_fetched_def)
  moreover have "\<not> is_zero 1000000000" "\<And>c. qe_completed example_fetched = Some c \<Longrightarrow> \<not> zoned_is_zero c"
    by (simp_all add: is_zero_def zero_time_def example_fetched_def zoned_is_zero_def utc_time_def)
  ultimately show ?thesis
    using fetched_detail_is_recordable [OF ref_float_ok o, of example_get "''q1''" 1000000000 2000000000 "()" "()" example_fetched]
      example_fetch by (simp add: example_query_options_def)
qed

theorem history_does_not_starve_witness:
  "\<exists>n < 2. hr_id \<lparr>hr_id = ''b'', hr_state = ''s'', hr_created = utc_time 0\<rparr> \<in>
     set (plan_run ref_bolt 1 [\<lparr>hr_id = ''a'', hr_state = ''s'', hr_created = utc_time 0\<rparr>,
                               \<lparr>hr_id = ''b'', hr_state = ''s'', hr_created = utc_time 0\<rparr>] 0 [[], []] ! n)"
proof -
  have f: "fetch_final ref_bolt i [] = (False, zero_zoned, None)" for i
    by (simp add: fetch_final_def ref_bolt_def ref_entries_def ref_bucket_def)
  show ?thesis
    using history_does_not_starve [of 1 "[[], []]"
        "[\<lparr>hr_id = ''a'', hr_state = ''s'', hr_created = utc_time 0\<rparr>, \<lparr>hr_id = ''b'', hr_state = ''s'', hr_created = utc_time 0\<rparr>]"
        "\<lparr>hr_id = ''b'', hr_state = ''s'', hr_created = utc_time 0\<rparr>" ref_bolt 0]
    by (auto simp: f less_Suc_eq numeral_2_eq_2)
qed

text \<open>While the first record is published, retention prunes.\<close>

definition example_others :: "nat \<Rightarrow> int query_op list" where
  "example_others n = (if n = 0 then [Prune_Queries (utc_time 9000000000000)] else [])"

theorem query_flush_in_order_witness:
  "\<exists>d (p :: (ref_db, unit, query_record list \<times> bool list, int) query_pipe). query_created ref_float ref_bolt example_query_options [] d \<and>
     qp_store p = query_run ref_float ref_bolt example_query_options example_query_ops d \<and>
     (\<exists>rows j m. query_records ref_float ref_bolt example_query_options 100 (qp_store p) = Inr rows \<and>
        event_payloads ref_bolt (qp_store (query_flush ref_float ref_bolt example_query_options ref_send example_others p)) =
          drop j (event_payloads ref_bolt (qp_store p)) @
          concat (map (appended ref_bolt) (flush_turns ref_float ref_bolt example_query_options ref_send example_others 0 rows
                    (qp_store p) (qp_broker p))) \<and>
        j \<le> m \<and> m \<le> Suc j)"
proof -
  obtain d where d: "query_created ref_float ref_bolt example_query_options [] d" using example_query_created by blast
  define p :: "(ref_db, unit, query_record list \<times> bool list, int) query_pipe" where
    "p = \<lparr>qp_store = query_run ref_float ref_bolt example_query_options example_query_ops d, qp_world = (),
          qp_broker = ([], []), qp_sample = zero_sample, qp_scope = True, qp_overview_ok = True, qp_detail_ok = True,
          qp_state_ok = True, qp_publish_ok = False, qp_detail_at = 0, qp_stats = empty_stats, qp_cursor = 0,
          qp_failures = []\<rparr>"
  have st: "qp_store p = query_run ref_float ref_bolt example_query_options example_query_ops d" by (simp add: p_def)
  have z: "others_total example_others (Suc n) k = 0" for n k
    by (induction k arbitrary: n) (simp_all add: example_others_def)
  have "others_total example_others 0 100 = 1"
    using z [of 0 99] by (simp add: numeral_eq_Suc example_others_def)
  then have room: "length example_query_ops + others_total example_others 0 100 < 2 ^ 64 - 1"
    by (simp add: example_query_ops_def)
  have ot: "list_all (query_op_ok ref_float) (example_others n) \<and> no_ack (example_others n)" for n
    by (simp add: example_others_def no_ack_def query_op_ok_def utc_time_def)
  from query_flush_in_order [OF ref_float_ok ref_bolt_ok example_query_ops_ok(4) d st example_query_ops_ok(1) ref_send_ok ot room]
  show ?thesis using d st by blast
qed

end
