(* ===== verification/Go_Parse.thy ===== *)
theory Go_Parse
  imports Go_Strings
begin

text \<open>
  The functions of packages \<open>strings\<close>, \<open>strconv\<close>, \<open>net\<close> and \<open>time\<close> that read settings: splitting and
  joining on a separator, trimming a suffix, \<open>SplitHostPort\<close> and \<open>ParseDuration\<close>. The only step of
  \<open>ParseDuration\<close> that is not integer arithmetic, \<open>uint64(float64(f) * (float64(unit) / scale))\<close> for a
  fraction of \<open>k\<close> digits and value \<open>f\<close>, is the argument \<open>frac f unit k\<close>.
\<close>

section \<open>Splitting and joining\<close>

fun split_on :: "char \<Rightarrow> bytes \<Rightarrow> bytes list" where
  "split_on c [] = [[]]"
| "split_on c (x # s) =
     (if x = c then [] # split_on c s
      else case split_on c s of [] \<Rightarrow> [[x]] | p # ps \<Rightarrow> (x # p) # ps)"

fun join_with :: "char \<Rightarrow> bytes list \<Rightarrow> bytes" where
  "join_with c [] = []"
| "join_with c [p] = p"
| "join_with c (p # q # ps) = p @ c # join_with c (q # ps)"

lemma split_on_not_Nil [simp]: "split_on c s \<noteq> []"
  by (cases s) (auto split: list.split)

lemma split_on_Cons_other [simp]: "x \<noteq> c \<Longrightarrow> split_on c (x # s) = (x # hd (split_on c s)) # tl (split_on c s)"
  by (cases "split_on c s") auto

lemma split_on_Cons_same [simp]: "split_on c (c # s) = [] # split_on c s"
  by simp

declare split_on.simps(2) [simp del]

lemma split_on_no_sep: "c \<notin> set p \<Longrightarrow> split_on c p = [p]"
  by (induction p) auto

lemma split_on_append: "c \<notin> set p \<Longrightarrow> split_on c (p @ c # s) = p # split_on c s"
  by (induction p) auto

lemma split_join: "ps \<noteq> [] \<Longrightarrow> \<forall>p \<in> set ps. c \<notin> set p \<Longrightarrow> split_on c (join_with c ps) = ps"
  by (induction c ps rule: join_with.induct) (simp_all add: split_on_no_sep split_on_append)

lemma join_Cons_hd: "ps \<noteq> [] \<Longrightarrow> join_with c ((x # hd ps) # tl ps) = x # join_with c ps"
  by (cases ps; cases "tl ps") auto

lemma join_split [simp]: "join_with c (split_on c s) = s"
proof (induction s)
  case (Cons x s)
  show ?case
  proof (cases "x = c")
    case True
    then show ?thesis using Cons by (cases "split_on c s") auto
  next
    case False
    then show ?thesis using Cons join_Cons_hd [of "split_on c s" c x] by simp
  qed
qed simp

lemma split_on_parts: "p \<in> set (split_on c s) \<Longrightarrow> c \<notin> set p"
proof (induction s arbitrary: p)
  case (Cons x s)
  then show ?case by (cases "split_on c s") (auto simp: split_on.simps split: if_splits)
qed simp

lemma join_with_map_Cons: "ps \<noteq> [] \<Longrightarrow> c # join_with c ps = concat (map ((#) c) ps)"
  by (induction c ps rule: join_with.induct) auto

section \<open>Suffixes\<close>

definition has_suffix :: "bytes \<Rightarrow> bytes \<Rightarrow> bool" where
  "has_suffix s t = has_prefix (rev s) (rev t)"

definition trim_suffix :: "bytes \<Rightarrow> bytes \<Rightarrow> bytes" where
  "trim_suffix s t = (if has_suffix s t then take (length s - length t) s else s)"

section \<open>Host and port\<close>

text \<open>The text before and after the last occurrence of a byte.\<close>

fun split_last :: "char \<Rightarrow> bytes \<Rightarrow> (bytes \<times> bytes) option" where
  "split_last c [] = None"
| "split_last c (x # s) =
     (case split_last c s of Some (a, b) \<Rightarrow> Some (x # a, b)
      | None \<Rightarrow> if x = c then Some ([], s) else None)"

lemma split_last_None [simp]: "split_last c s = None \<longleftrightarrow> c \<notin> set s"
  by (induction s) (auto split: option.splits)

lemma split_last_append: "c \<notin> set b \<Longrightarrow> split_last c (a @ c # b) = Some (a, b)"
  by (induction a) (auto simp: split_last_None [THEN iffD2] split: option.split)

lemma split_last_parts: "split_last c s = Some (a, b) \<Longrightarrow> s = a @ c # b \<and> c \<notin> set b"
proof (induction s arbitrary: a)
  case (Cons x s)
  then show ?case by (cases "split_last c s") (auto split: if_splits)
qed simp

lemma split_last_Some: "split_last c s = Some (a, b) \<longleftrightarrow> s = a @ c # b \<and> c \<notin> set b"
  using split_last_append split_last_parts by metis

definition bracket_open :: char where "bracket_open = chr 91"
definition bracket_close :: char where "bracket_close = chr 93"
definition colon :: char where "colon = chr 58"

text \<open>
  \<open>net.SplitHostPort\<close>: the port starts after the last colon; a host in brackets must end just before
  it, any other host has no colon, and no further bracket may occur.
\<close>

definition split_host_port :: "bytes \<Rightarrow> (bytes \<times> bytes) option" where
  "split_host_port s =
     (case split_last colon s of None \<Rightarrow> None
      | Some (before, port) \<Rightarrow>
          if s \<noteq> [] \<and> hd s = bracket_open then
            (let inner = takeWhile (\<lambda>c. c \<noteq> bracket_close) s;
                 rest = drop (length inner) s
             in if rest = [] \<or> tl rest \<noteq> colon # port then None
                else if bracket_open \<in> set (tl s) \<or> bracket_close \<in> set (tl rest) then None
                else Some (tl inner, port))
          else if colon \<in> set before \<or> bracket_open \<in> set s \<or> bracket_close \<in> set s then None
          else Some (before, port))"

lemma split_host_port_plain:
  assumes "colon \<notin> set host" "bracket_open \<notin> set host" "bracket_close \<notin> set host"
    and "colon \<notin> set port" "bracket_open \<notin> set port" "bracket_close \<notin> set port"
  shows "split_host_port (host @ colon # port) = Some (host, port)"
proof -
  have l: "split_last colon (host @ colon # port) = Some (host, port)"
    using assms by (simp add: split_last_Some)
  have c: "colon \<noteq> bracket_open" "colon \<noteq> bracket_close"
    by (simp_all add: colon_def bracket_open_def bracket_close_def chr_def char_of_def)
  have "hd (host @ colon # port) \<noteq> bracket_open" using assms c by (cases host) auto
  with l c assms show ?thesis by (simp add: split_host_port_def)
qed

section \<open>Durations\<close>

definition leading_int_limit :: nat where "leading_int_limit = 9223372036854775808"

fun leading_int :: "nat \<Rightarrow> bytes \<Rightarrow> nat option" where
  "leading_int x [] = Some x"
| "leading_int x (c # s) =
     (if x > leading_int_limit div 10 then None
      else let y = x * 10 + digit_val c
           in if y > leading_int_limit then None else leading_int y s)"

text \<open>The value of the fraction's digits and how many count: past an overflow they are skipped.\<close>

fun leading_fraction :: "nat \<Rightarrow> nat \<Rightarrow> bytes \<Rightarrow> nat \<times> nat" where
  "leading_fraction x k [] = (x, k)"
| "leading_fraction x k (c # s) =
     (if x > (leading_int_limit - 1) div 10 then (x, k)
      else let y = x * 10 + digit_val c
           in if y > leading_int_limit then (x, k) else leading_fraction y (Suc k) s)"

definition duration_unit :: "bytes \<Rightarrow> nat option" where
  "duration_unit u =
     (if u = ''ns'' then Some 1
      else if u = ''us'' \<or> u = map chr [194, 181, 115] \<or> u = map chr [206, 188, 115] then Some 1000
      else if u = ''ms'' then Some 1000000
      else if u = ''s'' then Some 1000000000
      else if u = ''m'' then Some 60000000000
      else if u = ''h'' then Some 3600000000000
      else None)"

text \<open>One \<open>number unit\<close> group of the text: its nanoseconds, as \<open>uint64\<close>, and what follows.\<close>

definition duration_group :: "(nat \<Rightarrow> nat \<Rightarrow> nat \<Rightarrow> nat) \<Rightarrow> bytes \<Rightarrow> (nat \<times> bytes) option" where
  "duration_group frac s =
     (let whole = takeWhile is_digit s;
          s1 = dropWhile is_digit s;
          dot = (s1 \<noteq> [] \<and> hd s1 = CHR ''.'');
          fraction = (if dot then takeWhile is_digit (tl s1) else []);
          s2 = (if dot then dropWhile is_digit (tl s1) else s1);
          unit_text = takeWhile (\<lambda>c. c \<noteq> CHR ''.'' \<and> \<not> is_digit c) s2;
          rest = dropWhile (\<lambda>c. c \<noteq> CHR ''.'' \<and> \<not> is_digit c) s2
      in if whole = [] \<and> fraction = [] then None
         else case leading_int 0 whole of None \<Rightarrow> None
         | Some v \<Rightarrow>
           case duration_unit unit_text of None \<Rightarrow> None
           | Some n \<Rightarrow>
             if v > leading_int_limit div n then None
             else let (f, k) = leading_fraction 0 0 fraction;
                      w = (if f > 0 then (v * n + frac f n k) mod 18446744073709551616 else v * n)
                  in if f > 0 \<and> w > leading_int_limit then None else Some (w, rest))"

lemma length_dropWhile_less: "x \<in> set s \<Longrightarrow> P x \<Longrightarrow> s \<noteq> [] \<Longrightarrow> P (hd s) \<Longrightarrow> length (dropWhile P s) < length s"
  by (cases s) (auto simp: le_imp_less_Suc length_dropWhile_le)

lemma duration_unit_Nil [simp]: "duration_unit [] = None"
  by (simp add: duration_unit_def)

lemma dropWhile_takeWhile_shorter: "takeWhile P s \<noteq> [] \<Longrightarrow> length (dropWhile P s) < length s"
proof -
  assume "takeWhile P s \<noteq> []"
  moreover have "length (takeWhile P s) + length (dropWhile P s) = length s"
    by (metis length_append takeWhile_dropWhile_id)
  ultimately show ?thesis by (cases "takeWhile P s") auto
qed

text \<open>Every group consumes at least its unit, so the loop over the groups ends.\<close>

lemma duration_group_shorter:
  assumes "duration_group frac s = Some (w, r)"
  shows "length r < length s"
proof -
  let ?P = "\<lambda>c. c \<noteq> CHR ''.'' \<and> \<not> is_digit c"
  define s1 where "s1 = dropWhile is_digit s"
  define s2 where "s2 = (if s1 \<noteq> [] \<and> hd s1 = CHR ''.'' then dropWhile is_digit (tl s1) else s1)"
  have r: "r = dropWhile ?P s2" and u: "duration_unit (takeWhile ?P s2) \<noteq> None"
    using assms unfolding s1_def s2_def duration_group_def Let_def
    by (auto split: if_splits option.splits prod.splits)
  have "takeWhile ?P s2 \<noteq> []"
  proof
    assume "takeWhile ?P s2 = []"
    with u show False by simp
  qed
  then have "length r < length s2" unfolding r by (rule dropWhile_takeWhile_shorter)
  also have "length s2 \<le> length s1"
    unfolding s2_def by (cases s1) (auto intro: le_trans [OF length_dropWhile_le])
  also have "length s1 \<le> length s" unfolding s1_def by (rule length_dropWhile_le)
  finally show ?thesis .
qed

function duration_groups :: "(nat \<Rightarrow> nat \<Rightarrow> nat \<Rightarrow> nat) \<Rightarrow> nat \<Rightarrow> bytes \<Rightarrow> nat option" where
  "duration_groups frac d s =
     (if s = [] then Some d
      else case duration_group frac s of None \<Rightarrow> None
           | Some (w, r) \<Rightarrow>
               let d' = (d + w) mod 18446744073709551616
               in if d' > leading_int_limit then None else duration_groups frac d' r)"
  by pat_completeness auto
termination
  by (relation "measure (\<lambda>(_, _, s). length s)") (auto dest: duration_group_shorter)

declare duration_groups.simps [simp del]

definition parse_duration :: "(nat \<Rightarrow> nat \<Rightarrow> nat \<Rightarrow> nat) \<Rightarrow> bytes \<Rightarrow> go_duration option" where
  "parse_duration frac s =
     (let (neg, t) = (case s of c # r \<Rightarrow> if c = CHR ''-'' then (True, r)
                                     else if c = CHR ''+'' then (False, r) else (False, s)
                      | [] \<Rightarrow> (False, s))
      in if t = ''0'' then Some 0
         else if t = [] then None
         else case duration_groups frac 0 t of None \<Rightarrow> None
              | Some d \<Rightarrow>
                  if neg then Some (- int d)
                  else if int d > max_int64 then None else Some (int d))"

lemma parse_duration_le: "parse_duration frac s = Some d \<Longrightarrow> d \<le> max_int64"
  by (auto simp: parse_duration_def max_int64_def split: list.splits if_splits option.splits)

end
