(* ===== verification/Config_Values.thy ===== *)
theory Config_Values
  imports Go_Parse Observability
begin

text \<open>
  The helpers of the configuration loader (\<open>internal/config/config.go\<close>, \<open>topic.go\<close>): every setting is
  looked up by name, and each helper returns the parsed value, the fallback or an error that names the
  setting. \<open>config_env\<close> gathers what the loader is given: \<open>lookup\<close>, the reader of secret files, \<open>url.Parse\<close>
  and the floating-point step of \<open>time.ParseDuration\<close>. The accepted URLs and the fields the loader reads of
  them are the library's; nothing is assumed about them, since the loader checks what it needs.
\<close>

record url =
  ur_scheme :: bytes
  ur_user :: "bytes option"
  ur_host :: bytes
  ur_path :: bytes
  ur_raw_path :: bytes
  ur_raw_query :: bytes
  ur_fragment :: bytes

record config_env =
  en_lookup :: "bytes \<Rightarrow> bytes option"
  en_read :: "bytes \<Rightarrow> go_error + bytes"
  en_url :: "bytes \<Rightarrow> url option"
  en_frac :: "nat \<Rightarrow> nat \<Rightarrow> nat \<Rightarrow> nat"

type_synonym secret = bytes

abbreviation fails :: "bytes \<Rightarrow> bytes \<Rightarrow> go_error + 'a" where
  "fails name what \<equiv> Inl (Plain (name @ what))"

definition second :: go_duration where "second = 1000000000"
definition minute :: go_duration where "minute = 60000000000"
definition hour :: go_duration where "hour = 3600000000000"

named_theorems config_values \<open>what a value that was read satisfies\<close>

section \<open>Texts and secrets\<close>

definition optional_text :: "config_env \<Rightarrow> bytes \<Rightarrow> bytes \<Rightarrow> bytes" where
  "optional_text E name fallback = (case en_lookup E name of Some v \<Rightarrow> v | None \<Rightarrow> fallback)"

definition required_text :: "config_env \<Rightarrow> bytes \<Rightarrow> go_error + bytes" where
  "required_text E name =
     (case en_lookup E name of None \<Rightarrow> fails name '' is required''
      | Some v \<Rightarrow>
          if trim_space v = [] then fails name '' is required''
          else if chr 0 \<in> set v then fails name '' is invalid''
          else Inr v)"

definition secret_file_max_bytes :: nat where "secret_file_max_bytes = 65536"

text \<open>The text of a secret file without its line end.\<close>

definition trim_secret :: "bytes \<Rightarrow> bytes" where
  "trim_secret s =
     (let crlf = [chr 13, chr 10];
          v = trim_suffix s crlf
      in if has_suffix s crlf then v else trim_suffix (trim_suffix v [chr 10]) [chr 13])"

definition load_secret :: "config_env \<Rightarrow> bytes \<Rightarrow> bytes \<Rightarrow> bool \<Rightarrow> go_error + secret" where
  "load_secret E direct_name file_name required =
     (let check = (\<lambda>v. if v = [] \<or> chr 0 \<in> set v \<or> \<not> utf8_valid v
                       then fails direct_name '' is invalid'' else Inr v)
      in case (en_lookup E direct_name, en_lookup E file_name) of
           (Some _, Some _) \<Rightarrow> Inl (Plain (direct_name @ '' and '' @ file_name @ '' conflict''))
         | (None, None) \<Rightarrow>
             if required then Inl (Plain (direct_name @ '' or '' @ file_name @ '' is required'')) else Inr []
         | (None, Some path) \<Rightarrow>
             if path = [] then fails file_name '' is invalid''
             else (case en_read E path of Inl _ \<Rightarrow> Inl (Plain (''cannot read '' @ file_name))
                   | Inr data \<Rightarrow>
                       if length data > secret_file_max_bytes then fails file_name '' exceeds the size limit''
                       else check (trim_secret data))
         | (Some v, None) \<Rightarrow> check v)"

definition secret_inputs_conflict :: "config_env \<Rightarrow> bytes \<Rightarrow> bytes \<Rightarrow> bool" where
  "secret_inputs_conflict E direct_name file_name \<longleftrightarrow>
     en_lookup E direct_name \<noteq> None \<and> en_lookup E file_name \<noteq> None"

lemma load_secret_ok [config_values]:
  "load_secret E d f True = Inr v \<Longrightarrow> v \<noteq> [] \<and> chr 0 \<notin> set v \<and> utf8_valid v"
  by (auto simp: load_secret_def Let_def split: option.splits if_splits sum.splits)

lemma load_secret_no_conflict: "load_secret E d f r = Inr v \<Longrightarrow> \<not> secret_inputs_conflict E d f"
  by (auto simp: load_secret_def secret_inputs_conflict_def split: option.splits)

section \<open>Durations, booleans and numbers\<close>

definition duration :: "config_env \<Rightarrow> bytes \<Rightarrow> go_duration \<Rightarrow> go_error + go_duration" where
  "duration E name fallback =
     (case en_lookup E name of None \<Rightarrow> Inr fallback
      | Some v \<Rightarrow>
          (case parse_duration (en_frac E) v of None \<Rightarrow> fails name '' must be a positive Go duration''
           | Some d \<Rightarrow> if d \<le> 0 then fails name '' must be a positive Go duration'' else Inr d))"

definition duration_alias :: "config_env \<Rightarrow> bytes \<Rightarrow> bytes \<Rightarrow> go_duration \<Rightarrow> go_error + go_duration" where
  "duration_alias E name legacy fallback =
     (if en_lookup E name \<noteq> None then duration E name fallback else duration E legacy fallback)"

text \<open>
  \<open>strconv.ParseBool\<close> accepts a few spellings more than the texts \<open>true\<close> and \<open>false\<close>, which the loader
  then insists on.
\<close>

definition parse_bool :: "bytes \<Rightarrow> bool option" where
  "parse_bool s =
     (if s \<in> set [''1'', ''t'', ''T'', ''TRUE'', ''true'', ''True''] then Some True
      else if s \<in> set [''0'', ''f'', ''F'', ''FALSE'', ''false'', ''False''] then Some False
      else None)"

definition boolean :: "config_env \<Rightarrow> bytes \<Rightarrow> bool \<Rightarrow> go_error + bool" where
  "boolean E name fallback =
     (case en_lookup E name of None \<Rightarrow> Inr fallback
      | Some v \<Rightarrow>
          (case parse_bool (to_lower v) of None \<Rightarrow> fails name '' must be true or false''
           | Some b \<Rightarrow>
               if to_lower v \<noteq> ''true'' \<and> to_lower v \<noteq> ''false'' then fails name '' must be true or false''
               else Inr b))"

definition positive_int64 :: "config_env \<Rightarrow> bytes \<Rightarrow> int \<Rightarrow> go_error + int" where
  "positive_int64 E name fallback =
     (case en_lookup E name of None \<Rightarrow> Inr fallback
      | Some v \<Rightarrow>
          (case parse_int64 v of None \<Rightarrow> fails name '' must be a positive integer''
           | Some n \<Rightarrow> if n \<le> 0 then fails name '' must be a positive integer'' else Inr n))"

definition bounded_positive_int64 :: "config_env \<Rightarrow> bytes \<Rightarrow> int \<Rightarrow> int \<Rightarrow> go_error + int" where
  "bounded_positive_int64 E name fallback maximum =
     bindE (positive_int64 E name fallback) (\<lambda>v.
       if v > maximum then fails name ('' must be between 1 and '' @ show_int maximum) else Inr v)"

text \<open>\<open>int\<close> has 64 bits, so that \<open>strconv.Atoi\<close> accepts what \<open>ParseInt(s, 10, 64)\<close> does.\<close>

definition bounded_int :: "config_env \<Rightarrow> bytes \<Rightarrow> int \<Rightarrow> int \<Rightarrow> int \<Rightarrow> go_error + int" where
  "bounded_int E name fallback minimum maximum =
     (let bad = fails name ('' must be between '' @ show_int minimum @ '' and '' @ show_int maximum)
      in case en_lookup E name of None \<Rightarrow> Inr fallback
         | Some v \<Rightarrow>
             (case parse_int64 v of None \<Rightarrow> bad
              | Some n \<Rightarrow> if n < minimum \<or> n > maximum then bad else Inr n))"

lemma duration_ok [config_values]:
  "duration E name fallback = Inr d \<Longrightarrow> 0 < fallback \<Longrightarrow> fallback \<le> max_int64 \<Longrightarrow> 0 < d \<and> d \<le> max_int64"
  by (auto simp: duration_def dest: parse_duration_le split: option.splits if_splits)

lemma duration_alias_ok [config_values]:
  "duration_alias E name legacy fallback = Inr d \<Longrightarrow> 0 < fallback \<Longrightarrow> fallback \<le> max_int64 \<Longrightarrow> 0 < d \<and> d \<le> max_int64"
  by (auto simp: duration_alias_def dest: duration_ok split: if_splits)

lemma parse_int64_range: "parse_int64 s = Some n \<Longrightarrow> min_int64 \<le> n \<and> n \<le> max_int64"
  by (auto simp: parse_int64_def Let_def split: list.splits if_splits option.splits)

lemma positive_int64_ok [config_values]:
  "positive_int64 E name fallback = Inr n \<Longrightarrow> 0 < fallback \<Longrightarrow> fallback \<le> max_int64 \<Longrightarrow> 0 < n \<and> n \<le> max_int64"
  by (auto simp: positive_int64_def dest: parse_int64_range split: option.splits if_splits)

lemma bounded_positive_int64_ok [config_values]:
  assumes "bounded_positive_int64 E name fallback maximum = Inr n" "0 < fallback" "fallback \<le> max_int64"
  shows "0 < n \<and> n \<le> maximum"
  using assms positive_int64_ok [of E name fallback]
  by (auto simp: bounded_positive_int64_def split: if_splits)

lemma bounded_int_ok [config_values]:
  "bounded_int E name fallback minimum maximum = Inr n \<Longrightarrow> minimum \<le> fallback \<Longrightarrow> fallback \<le> maximum \<Longrightarrow>
     minimum \<le> n \<and> n \<le> maximum"
  by (auto simp: bounded_int_def Let_def split: option.splits if_splits)

section \<open>Addresses, paths and names\<close>

definition validate_origin :: "config_env \<Rightarrow> bytes \<Rightarrow> go_error + url" where
  "validate_origin E raw =
     (case en_url E raw of None \<Rightarrow> Inl (Plain ''not a valid URL'')
      | Some u \<Rightarrow>
          if ur_scheme u \<noteq> ''https'' \<or> ur_host u = [] then Inl (Plain ''must be an HTTPS origin'')
          else if ur_user u \<noteq> None \<or> ur_raw_query u \<noteq> [] \<or> ur_fragment u \<noteq> [] \<or>
                  (ur_path u \<noteq> [] \<and> ur_path u \<noteq> ''/'')
          then Inl (Plain ''must not contain user info, path, query or fragment'')
          else Inr (u\<lparr>ur_path := [], ur_raw_path := []\<rparr>))"

definition https_origin :: "url \<Rightarrow> bool" where
  "https_origin u \<longleftrightarrow>
     ur_scheme u = ''https'' \<and> ur_host u \<noteq> [] \<and> ur_user u = None \<and> ur_path u = [] \<and> ur_raw_path u = [] \<and>
     ur_raw_query u = [] \<and> ur_fragment u = []"

lemma validate_origin_ok [config_values]: "validate_origin E raw = Inr u \<Longrightarrow> https_origin u"
  by (auto simp: validate_origin_def https_origin_def split: option.splits if_splits)

definition path_prefix_max_bytes :: nat where "path_prefix_max_bytes = 128"

definition is_path_char :: "char \<Rightarrow> bool" where
  "is_path_char c \<longleftrightarrow> is_lower c \<or> is_upper c \<or> is_digit c \<or> c \<in> set ''._~-''"

definition validate_segment :: "bytes \<Rightarrow> go_error + unit" where
  "validate_segment s =
     (if s = [] then Inl (Plain ''must not contain an empty segment'')
      else if s = ''.'' \<or> s = ''..'' then Inl (Plain ''must not contain dot segments'')
      else if \<not> list_all is_path_char s
      then Inl (Plain ''contains a character outside the canonical path grammar'')
      else Inr ())"

definition validate_path_prefix :: "bytes \<Rightarrow> go_error + unit" where
  "validate_path_prefix v =
     (if v = [] then Inr ()
      else if length v > path_prefix_max_bytes
      then Inl (Plain (''must be at most '' @ show_nat path_prefix_max_bytes @ '' bytes''))
      else if hd v \<noteq> CHR ''/'' then Inl (Plain ''must begin with a slash'')
      else if last v = CHR ''/'' then Inl (Plain ''must not end with a slash'')
      else forE validate_segment (split_on (CHR ''/'') (tl v)))"

definition validate_source_instance :: "bytes \<Rightarrow> go_error + unit" where
  "validate_source_instance v =
     (if \<not> utf8_valid v \<or> length v < 1 \<or> length v > 128 then Inl (Plain ''must be 1-128 valid UTF-8 bytes'')
      else if chr 0 \<in> set v \<or> contains v ''://'' \<or> contains_any v [chr 13, chr 10]
      then Inl (Plain ''must not be a URL or contain control delimiters'')
      else Inr ())"

definition validate_listen_address :: "bytes \<Rightarrow> go_error + unit" where
  "validate_listen_address v =
     (case split_host_port v of None \<Rightarrow> Inl (Plain ''must be host:port'')
      | Some (host, port) \<Rightarrow>
          if host = [] then Inl (Plain ''host must be explicit'')
          else (case parse_int64 port of None \<Rightarrow> Inl (Plain ''port must be between 1 and 65535'')
                | Some p \<Rightarrow> if p < 1 \<or> p > 65535 then Inl (Plain ''port must be between 1 and 65535'') else Inr ()))"

definition is_topic_char :: "char \<Rightarrow> bool" where
  "is_topic_char c \<longleftrightarrow>
     is_lower c \<or> is_upper c \<or> is_digit c \<or> c = CHR ''.'' \<or> c = CHR ''_'' \<or> c = CHR ''-''"

definition valid_kafka_topic :: "bytes \<Rightarrow> bool" where
  "valid_kafka_topic t \<longleftrightarrow>
     \<not> (length t = 0 \<or> length t > 249 \<or> t = ''.'' \<or> t = ''..'') \<and> list_all is_topic_char t"

text \<open>The pattern \<open>^[A-Za-z0-9_-]{1,128}$\<close> of the realm and the role.\<close>

definition safe_name :: "bytes \<Rightarrow> bool" where
  "safe_name s \<longleftrightarrow>
     1 \<le> length s \<and> length s \<le> 128 \<and>
     list_all (\<lambda>c. is_upper c \<or> is_lower c \<or> is_digit c \<or> c = CHR ''_'' \<or> c = CHR ''-'') s"

section \<open>Brokers\<close>

fun collect_brokers :: "bytes list \<Rightarrow> bytes list \<Rightarrow> go_error + bytes list" where
  "collect_brokers [] brokers = Inr brokers"
| "collect_brokers (part # parts) brokers =
     (let broker = trim_space part
      in if broker = [] \<or> contains_any broker [chr 0, chr 13, chr 10]
         then Inl (Plain ''contains an empty or invalid broker'')
         else if broker \<in> set brokers then collect_brokers parts brokers
         else collect_brokers parts (brokers @ [broker]))"

definition parse_brokers :: "bytes \<Rightarrow> go_error + bytes list" where
  "parse_brokers raw =
     (let parts = split_on (CHR '','') raw
      in if length parts = 0 \<or> length parts > 64 then Inl (Plain ''must contain 1-64 brokers'')
         else collect_brokers parts [])"

definition broker_ok :: "bytes \<Rightarrow> bool" where
  "broker_ok b \<longleftrightarrow> b \<noteq> [] \<and> \<not> contains_any b [chr 0, chr 13, chr 10]"

lemma collect_brokers_spec:
  "collect_brokers parts bs = Inr out \<Longrightarrow> distinct bs \<Longrightarrow>
     distinct out \<and> set out = set bs \<union> trim_space ` set parts \<and> length out \<le> length bs + length parts \<and>
     list_all broker_ok (map trim_space parts)"
proof (induction parts arbitrary: bs)
  case (Cons p ps)
  let ?b = "trim_space p"
  from Cons.prems(1) have b: "broker_ok ?b"
    and r: "collect_brokers ps (if ?b \<in> set bs then bs else bs @ [?b]) = Inr out"
    by (simp_all add: Let_def broker_ok_def split: if_split_asm)
  from Cons.prems(2) have "distinct (if ?b \<in> set bs then bs else bs @ [?b])" by simp
  from Cons.IH [OF r this] b show ?case by (cases "?b \<in> set bs") auto
qed simp

lemma parse_brokers_ok [config_values]:
  assumes "parse_brokers raw = Inr bs"
  shows "distinct bs" "bs \<noteq> []" "length bs \<le> 64" "list_all broker_ok bs"
    "set bs = trim_space ` set (split_on (CHR '','') raw)"
proof -
  let ?ps = "split_on (CHR '','') raw"
  from assms have c: "collect_brokers ?ps [] = Inr bs" and l: "length ?ps \<le> 64"
    by (auto simp: parse_brokers_def Let_def split: if_splits)
  note s = collect_brokers_spec [OF c]
  show "distinct bs" "length bs \<le> 64" "set bs = trim_space ` set ?ps" using s l by auto
  then show "list_all broker_ok bs" using s by (auto simp: list_all_iff)
  show "bs \<noteq> []" using s split_on_not_Nil [of "CHR '',''" raw] by (cases ?ps) auto
qed

section \<open>The accepted path prefixes\<close>

definition path_segment :: "bytes \<Rightarrow> bool" where
  "path_segment s \<longleftrightarrow> s \<noteq> [] \<and> s \<noteq> ''.'' \<and> s \<noteq> ''..'' \<and> list_all is_path_char s"

lemma validate_segment_iff: "validate_segment s = Inr u \<longleftrightarrow> path_segment s"
  by (simp add: validate_segment_def path_segment_def)

lemma slash_not_path_char: "\<not> is_path_char (CHR ''/'')"
  by (simp add: is_path_char_def is_lower_def is_upper_def is_digit_def byte_def)

lemma path_segment_no_slash: "path_segment s \<Longrightarrow> CHR ''/'' \<notin> set s"
  using slash_not_path_char by (auto simp: path_segment_def list_all_iff)

lemma join_slash_last:
  "segs \<noteq> [] \<Longrightarrow> \<forall>s \<in> set segs. path_segment s \<Longrightarrow> last (join_with (CHR ''/'') segs) \<noteq> CHR ''/''"
proof (induction "CHR ''/''" segs rule: join_with.induct)
  case (2 p)
  then have "p \<noteq> []" "CHR ''/'' \<notin> set p" using path_segment_no_slash by (auto simp: path_segment_def)
  then show ?case using last_in_set by fastforce
next
  case (3 p q ps)
  have "join_with (CHR ''/'') (q # ps) \<noteq> []"
    using 3(3) by (cases ps) (auto simp: path_segment_def)
  with 3 show ?case by simp
qed simp

lemma validate_path_prefix_iff:
  "validate_path_prefix v = Inr u \<longleftrightarrow>
     (\<exists>segs. v = concat (map ((#) (CHR ''/'')) segs) \<and> (\<forall>s \<in> set segs. path_segment s) \<and> length v \<le> 128)"
proof
  assume ok: "validate_path_prefix v = Inr u"
  show "\<exists>segs. v = concat (map ((#) (CHR ''/'')) segs) \<and> (\<forall>s \<in> set segs. path_segment s) \<and> length v \<le> 128"
  proof (cases v)
    case Nil
    then show ?thesis by (intro exI [of _ "[]"]) simp
  next
    case (Cons c w)
    let ?segs = "split_on (CHR ''/'') w"
    have c: "c = CHR ''/''" and l: "length v \<le> 128" and f: "\<forall>s \<in> set ?segs. path_segment s"
      using ok Cons by (auto simp: validate_path_prefix_def path_prefix_max_bytes_def validate_segment_iff split: if_splits)
    have "v = CHR ''/'' # join_with (CHR ''/'') ?segs" using Cons c by simp
    also have "\<dots> = concat (map ((#) (CHR ''/'')) ?segs)" by (rule join_with_map_Cons) simp
    finally show ?thesis using f l by blast
  qed
next
  assume "\<exists>segs. v = concat (map ((#) (CHR ''/'')) segs) \<and> (\<forall>s \<in> set segs. path_segment s) \<and> length v \<le> 128"
  then obtain segs where v: "v = concat (map ((#) (CHR ''/'')) segs)" and f: "\<forall>s \<in> set segs. path_segment s"
    and l: "length v \<le> 128" by blast
  show "validate_path_prefix v = Inr u"
  proof (cases "segs = []")
    case True
    then show ?thesis using v by (simp add: validate_path_prefix_def)
  next
    case False
    then have vj: "v = CHR ''/'' # join_with (CHR ''/'') segs" using v join_with_map_Cons by metis
    have s: "split_on (CHR ''/'') (join_with (CHR ''/'') segs) = segs"
      using False f path_segment_no_slash by (intro split_join) auto
    have "join_with (CHR ''/'') segs \<noteq> []"
      using False f by (cases "(CHR ''/'', segs)" rule: join_with.cases) (auto simp: path_segment_def)
    then have "last v \<noteq> CHR ''/''" using vj join_slash_last [OF False f] by simp
    then show ?thesis
      using vj s f l by (simp add: validate_path_prefix_def path_prefix_max_bytes_def validate_segment_iff)
  qed
qed

end
