(* ===== verification/Config_Query.thy ===== *)
theory Config_Query
  imports Config_Values History_Scan
begin

text \<open>
  The settings of the query pipeline (\<open>internal/config/query.go\<close>) and of a backfill worker
  (\<open>internal/config/backfill.go\<close>). A disabled part keeps its zero values. The loops over tables of settings
  are written as chains in the order of the tables; \<open>load_query\<close> is split at the blocks of the source.
\<close>

section \<open>Queries\<close>

record query_config =
  qc_enabled :: bool
  qc_events :: bool
  qc_insecure :: bool
  qc_base_url :: "url option"
  qc_auth_url :: "url option"
  qc_realm :: bytes
  qc_role :: bytes
  qc_ca_file :: bytes
  qc_auth_ca_file :: bytes
  qc_topic :: bytes
  qc_username :: secret
  qc_password :: secret
  qc_interval :: go_duration
  qc_request_timeout :: go_duration
  qc_cycle_timeout :: go_duration
  qc_stale_after :: go_duration
  qc_retention :: go_duration
  qc_response_max :: int
  qc_max_bytes :: int
  qc_max_history :: int
  qc_max_per_cycle :: int
  qc_concurrency :: int
  qc_retry_max :: int
  qc_max_events :: int
  qc_max_checkpoints :: int

definition zero_query :: query_config where
  "zero_query =
     \<lparr>qc_enabled = False, qc_events = False, qc_insecure = False, qc_base_url = None, qc_auth_url = None,
      qc_realm = [], qc_role = [], qc_ca_file = [], qc_auth_ca_file = [], qc_topic = [], qc_username = [],
      qc_password = [], qc_interval = 0, qc_request_timeout = 0, qc_cycle_timeout = 0, qc_stale_after = 0,
      qc_retention = 0, qc_response_max = 0, qc_max_bytes = 0, qc_max_history = 0, qc_max_per_cycle = 0,
      qc_concurrency = 0, qc_retry_max = 0, qc_max_events = 0, qc_max_checkpoints = 0\<rparr>"

definition query_origin :: "config_env \<Rightarrow> bytes \<Rightarrow> go_error + url" where
  "query_origin E name =
     (case validate_origin E (optional_text E name []) of
        Inl _ \<Rightarrow> fails name '' must be an HTTPS origin''
      | Inr u \<Rightarrow> Inr u)"

definition load_query_target :: "config_env \<Rightarrow> bool \<Rightarrow> query_config \<Rightarrow> go_error + query_config" where
  "load_query_target E allow q =
     bindE (query_origin E ''QUERY_BASE_URL'') (\<lambda>base.
     bindE (query_origin E ''QUERY_AUTH_URL'') (\<lambda>auth.
     let realm = optional_text E ''QUERY_REALM'' [];
         role = optional_text E ''QUERY_ROLE'' [] in
     bindE (guardE (safe_name realm \<and> safe_name role)
              (Plain ''QUERY_REALM and QUERY_ROLE must be explicit safe names'')) (\<lambda>_.
     bindE (load_secret E ''QUERY_USERNAME'' ''QUERY_USERNAME_FILE'' True) (\<lambda>username.
     bindE (load_secret E ''QUERY_PASSWORD'' ''QUERY_PASSWORD_FILE'' True) (\<lambda>password.
     let ca = optional_text E ''QUERY_CA_FILE'' [];
         auth_ca = optional_text E ''QUERY_AUTH_CA_FILE'' [] in
     bindE (boolean E ''QUERY_TLS_INSECURE_SKIP_VERIFY'' False) (\<lambda>insecure.
     bindE (guardE (\<not> (insecure \<and> (\<not> allow \<or> ca \<noteq> [] \<or> auth_ca \<noteq> [])))
              (Plain ''query insecure TLS requires global opt-in and no CA files'')) (\<lambda>_.
     Inr (q\<lparr>qc_base_url := Some base, qc_auth_url := Some auth, qc_realm := realm, qc_role := role,
            qc_username := username, qc_password := password, qc_ca_file := ca, qc_auth_ca_file := auth_ca,
            qc_insecure := insecure\<rparr>))))))))"

definition load_query_timing :: "config_env \<Rightarrow> query_config \<Rightarrow> go_error + query_config" where
  "load_query_timing E q =
     bindE (duration E ''QUERY_INTERVAL'' (30 * second)) (\<lambda>interval.
     bindE (duration E ''QUERY_REQUEST_TIMEOUT'' (5 * second)) (\<lambda>request.
     bindE (duration E ''QUERY_CYCLE_TIMEOUT'' (20 * second)) (\<lambda>cycle.
     bindE (duration E ''QUERY_STALE_AFTER'' (90 * second)) (\<lambda>stale.
     bindE (duration E ''QUERY_CHECKPOINT_RETENTION'' (720 * hour)) (\<lambda>retention.
     bindE (guardE (\<not> (request \<ge> cycle \<or> cycle \<ge> interval \<or> stale \<le> interval))
              (Plain ''query timing must satisfy request < cycle < interval < stale_after'')) (\<lambda>_.
     Inr (q\<lparr>qc_interval := interval, qc_request_timeout := request, qc_cycle_timeout := cycle,
            qc_stale_after := stale, qc_retention := retention\<rparr>)))))))"

definition load_query_limits :: "config_env \<Rightarrow> query_config \<Rightarrow> go_error + query_config" where
  "load_query_limits E q =
     bindE (bounded_int E ''QUERY_MAX_HISTORY_RECORDS'' 1000 1 10000) (\<lambda>history.
     bindE (bounded_int E ''QUERY_DETAIL_MAX_PER_CYCLE'' 100 1 10000) (\<lambda>per_cycle.
     bindE (bounded_int E ''QUERY_DETAIL_CONCURRENCY'' 4 1 32) (\<lambda>concurrency.
     bindE (bounded_int E ''QUERY_RETRY_MAX'' 2 0 10) (\<lambda>retry.
     bindE (bounded_int E ''QUERY_OUTBOX_MAX_EVENTS'' 10000 1 1000000) (\<lambda>events.
     bindE (bounded_int E ''QUERY_CHECKPOINT_MAX_RECORDS'' 100000 1 1000000) (\<lambda>checkpoints.
     bindE (guardE (\<not> concurrency > per_cycle)
              (Plain ''query concurrency exceeds per-cycle detail budget'')) (\<lambda>_.
     bindE (bounded_positive_int64 E ''QUERY_RESPONSE_MAX_BYTES'' 16777216 67108864) (\<lambda>response.
     bindE (bounded_positive_int64 E ''QUERY_OUTBOX_MAX_BYTES'' 268435456 1073741824) (\<lambda>max_bytes.
     Inr (q\<lparr>qc_max_history := history, qc_max_per_cycle := per_cycle, qc_concurrency := concurrency,
            qc_retry_max := retry, qc_max_events := events, qc_max_checkpoints := checkpoints,
            qc_response_max := response, qc_max_bytes := max_bytes\<rparr>))))))))))"

definition load_query_events :: "config_env \<Rightarrow> query_config \<Rightarrow> go_error + query_config" where
  "load_query_events E q =
     bindE (boolean E ''QUERY_EVENTS_ENABLED'' False) (\<lambda>events.
     if \<not> events then Inr (q\<lparr>qc_events := False\<rparr>)
     else let topic = optional_text E ''QUERY_KAFKA_TOPIC'' [] in
          bindE (guardE (valid_kafka_topic topic)
                   (Plain ''QUERY_KAFKA_TOPIC is required and must be valid'')) (\<lambda>_.
          Inr (q\<lparr>qc_events := True, qc_topic := topic\<rparr>)))"

definition load_query :: "config_env \<Rightarrow> bool \<Rightarrow> go_error + query_config" where
  "load_query E allow =
     bindE (boolean E ''QUERY_ENABLED'' False) (\<lambda>enabled.
     if \<not> enabled then Inr zero_query
     else bindE (load_query_target E allow (zero_query\<lparr>qc_enabled := True\<rparr>)) (\<lambda>q.
          bindE (load_query_timing E q) (\<lambda>q.
          bindE (load_query_limits E q) (\<lambda>q.
          load_query_events E q))))"

section \<open>What enabled query settings satisfy\<close>

definition query_target_ok :: "bool \<Rightarrow> query_config \<Rightarrow> bool" where
  "query_target_ok allow q \<longleftrightarrow>
     (\<exists>u v. qc_base_url q = Some u \<and> qc_auth_url q = Some v \<and> https_origin u \<and> https_origin v) \<and>
     safe_name (qc_realm q) \<and> safe_name (qc_role q) \<and> qc_username q \<noteq> [] \<and> qc_password q \<noteq> [] \<and>
     (qc_insecure q \<longrightarrow> allow \<and> qc_ca_file q = [] \<and> qc_auth_ca_file q = [])"

definition query_timing_ok :: "query_config \<Rightarrow> bool" where
  "query_timing_ok q \<longleftrightarrow>
     0 < qc_request_timeout q \<and> qc_request_timeout q < qc_cycle_timeout q \<and>
     qc_cycle_timeout q < qc_interval q \<and> qc_interval q < qc_stale_after q \<and>
     0 < qc_retention q \<and> qc_retention q \<le> max_int64"

definition query_limits_ok :: "query_config \<Rightarrow> bool" where
  "query_limits_ok q \<longleftrightarrow>
     1 \<le> qc_max_history q \<and> qc_max_history q \<le> 10000 \<and>
     1 \<le> qc_concurrency q \<and> qc_concurrency q \<le> 32 \<and> qc_concurrency q \<le> qc_max_per_cycle q \<and>
     qc_max_per_cycle q \<le> 10000 \<and> 0 \<le> qc_retry_max q \<and> qc_retry_max q \<le> 10 \<and>
     1 \<le> qc_max_events q \<and> qc_max_events q \<le> 1000000 \<and>
     1 \<le> qc_max_checkpoints q \<and> qc_max_checkpoints q \<le> 1000000 \<and>
     1 \<le> qc_response_max q \<and> qc_response_max q \<le> 67108864 \<and>
     1 \<le> qc_max_bytes q \<and> qc_max_bytes q \<le> 1073741824"

definition query_config_ok :: "bool \<Rightarrow> query_config \<Rightarrow> bool" where
  "query_config_ok allow q \<longleftrightarrow>
     query_target_ok allow q \<and> query_timing_ok q \<and> query_limits_ok q \<and>
     (qc_events q \<longrightarrow> valid_kafka_topic (qc_topic q))"

lemma times_in_range:
  "0 < 30 * second" "30 * second \<le> max_int64" "0 < 5 * second" "5 * second \<le> max_int64"
  "0 < 20 * second" "20 * second \<le> max_int64" "0 < 90 * second" "90 * second \<le> max_int64"
  "0 < 720 * hour" "720 * hour \<le> max_int64" "0 < 10 * minute" "10 * minute \<le> max_int64"
  "0 < 10 * second" "10 * second \<le> max_int64" "0 < 15 * second" "15 * second \<le> max_int64"
  "0 < 120 * second" "120 * second \<le> max_int64" "0 < 24 * hour" "24 * hour \<le> max_int64"
  "0 < 2 * minute" "2 * minute \<le> max_int64" "0 < hour" "hour \<le> max_int64"
  by (simp_all add: second_def minute_def hour_def max_int64_def)

lemma query_origin_ok: "query_origin E name = Inr u \<Longrightarrow> https_origin u"
  by (auto simp: query_origin_def dest: validate_origin_ok split: sum.splits)

lemma load_query_target_ok:
  assumes "load_query_target E allow q = Inr q'"
  shows "query_target_ok allow q' \<and> qc_enabled q' = qc_enabled q"
  using assms by (auto simp: load_query_target_def query_target_ok_def Let_def dest: query_origin_ok load_secret_ok)

lemma load_query_timing_ok:
  assumes "load_query_timing E q = Inr q'"
  shows "query_timing_ok q' \<and> qc_enabled q' = qc_enabled q \<and> query_target_ok allow q' = query_target_ok allow q"
proof -
  from assms obtain i r c s t where
    d: "duration E ''QUERY_REQUEST_TIMEOUT'' (5 * second) = Inr r"
      "duration E ''QUERY_CHECKPOINT_RETENTION'' (720 * hour) = Inr t"
      "duration E ''QUERY_INTERVAL'' (30 * second) = Inr i"
      "duration E ''QUERY_CYCLE_TIMEOUT'' (20 * second) = Inr c"
      "duration E ''QUERY_STALE_AFTER'' (90 * second) = Inr s"
    and o: "r < c" "c < i" "i < s"
    and q: "q' = q\<lparr>qc_interval := i, qc_request_timeout := r, qc_cycle_timeout := c, qc_stale_after := s, qc_retention := t\<rparr>"
    by (auto simp: load_query_timing_def not_le)
  have "0 < r" "0 < t \<and> t \<le> max_int64" using duration_ok [OF d(1)] duration_ok [OF d(2)] times_in_range by simp_all
  then show ?thesis using o q by (simp add: query_timing_ok_def query_target_ok_def)
qed

lemma load_query_limits_ok:
  assumes "load_query_limits E q = Inr q'"
  shows "query_limits_ok q' \<and> qc_enabled q' = qc_enabled q \<and> query_target_ok allow q' = query_target_ok allow q \<and>
    query_timing_ok q' = query_timing_ok q"
proof -
  from assms obtain h p c r e k s m where
    b: "bounded_int E ''QUERY_MAX_HISTORY_RECORDS'' 1000 1 10000 = Inr h"
      "bounded_int E ''QUERY_DETAIL_MAX_PER_CYCLE'' 100 1 10000 = Inr p"
      "bounded_int E ''QUERY_DETAIL_CONCURRENCY'' 4 1 32 = Inr c"
      "bounded_int E ''QUERY_RETRY_MAX'' 2 0 10 = Inr r"
      "bounded_int E ''QUERY_OUTBOX_MAX_EVENTS'' 10000 1 1000000 = Inr e"
      "bounded_int E ''QUERY_CHECKPOINT_MAX_RECORDS'' 100000 1 1000000 = Inr k"
      "bounded_positive_int64 E ''QUERY_RESPONSE_MAX_BYTES'' 16777216 67108864 = Inr s"
      "bounded_positive_int64 E ''QUERY_OUTBOX_MAX_BYTES'' 268435456 1073741824 = Inr m"
    and o: "c \<le> p"
    and q: "q' = q\<lparr>qc_max_history := h, qc_max_per_cycle := p, qc_concurrency := c, qc_retry_max := r,
      qc_max_events := e, qc_max_checkpoints := k, qc_response_max := s, qc_max_bytes := m\<rparr>"
    by (auto simp: load_query_limits_def)
  note n = bounded_int_ok [OF b(1)] bounded_int_ok [OF b(2)] bounded_int_ok [OF b(3)] bounded_int_ok [OF b(4)]
    bounded_int_ok [OF b(5)] bounded_int_ok [OF b(6)]
    bounded_positive_int64_ok [OF b(7)] bounded_positive_int64_ok [OF b(8)]
  have l: "1 \<le> h \<and> h \<le> 10000" "p \<le> 10000" "1 \<le> c \<and> c \<le> 32" "0 \<le> r \<and> r \<le> 10" "1 \<le> e \<and> e \<le> 1000000"
    "1 \<le> k \<and> k \<le> 1000000" "1 \<le> s \<and> s \<le> 67108864" "1 \<le> m \<and> m \<le> 1073741824"
    using n by (simp_all add: max_int64_def)
  then have "query_limits_ok q'" using o by (simp add: query_limits_ok_def q)
  then show ?thesis by (simp add: q query_target_ok_def query_timing_ok_def)
qed

lemma load_query_events_ok:
  assumes "load_query_events E q = Inr q'"
  shows "(qc_events q' \<longrightarrow> valid_kafka_topic (qc_topic q')) \<and> qc_enabled q' = qc_enabled q \<and>
    query_target_ok allow q' = query_target_ok allow q \<and> query_timing_ok q' = query_timing_ok q \<and>
    query_limits_ok q' = query_limits_ok q"
proof -
  from assms consider "q' = q\<lparr>qc_events := False\<rparr>"
    | t where "valid_kafka_topic t" "q' = q\<lparr>qc_events := True, qc_topic := t\<rparr>"
    by (auto simp: load_query_events_def Let_def split: if_split_asm)
  then show ?thesis
    by cases (simp_all add: query_target_ok_def query_timing_ok_def query_limits_ok_def)
qed

lemma load_query_ok [config_values]:
  assumes "load_query E allow = Inr q"
  shows "if qc_enabled q then query_config_ok allow q else q = zero_query"
proof (cases "boolean E ''QUERY_ENABLED'' False = Inr True")
  case False
  with assms have "q = zero_query" by (auto simp: load_query_def split: if_splits)
  then show ?thesis by (simp add: zero_query_def)
next
  case True
  with assms obtain q1 q2 q3 where
    q: "load_query_target E allow (zero_query\<lparr>qc_enabled := True\<rparr>) = Inr q1" "load_query_timing E q1 = Inr q2"
      "load_query_limits E q2 = Inr q3" "load_query_events E q3 = Inr q"
    by (auto simp: load_query_def)
  from load_query_target_ok [OF q(1)] load_query_timing_ok [OF q(2), of allow]
    load_query_limits_ok [OF q(3), of allow] load_query_events_ok [OF q(4), of allow]
  show ?thesis by (simp add: query_config_ok_def)
qed

section \<open>Backfill\<close>

definition zero_backfill :: backfill_config where
  "zero_backfill =
     \<lparr>bc_enabled = False, bc_lookback = 0, bc_overlap = 0, bc_interval = 0, bc_cycle_timeout = 0, bc_rescan = 0,
      bc_max_pages = 0, bc_detail_max = 0, bc_concurrency = 0, bc_max_pending = 0\<rparr>"

definition bounded_duration ::
  "config_env \<Rightarrow> bytes \<Rightarrow> bytes \<Rightarrow> go_duration \<Rightarrow> go_duration \<Rightarrow> go_duration \<Rightarrow> go_error + go_duration" where
  "bounded_duration E prefix name fallback minimum maximum =
     bindE (duration E (prefix @ name) fallback) (\<lambda>d.
       if d < minimum \<or> d > maximum then Inl (Plain (prefix @ name @ '' outside bounds'')) else Inr d)"

lemma bounded_duration_ok [config_values]:
  "bounded_duration E prefix name fallback minimum maximum = Inr d \<Longrightarrow> minimum \<le> d \<and> d \<le> maximum"
  by (auto simp: bounded_duration_def split: if_splits)

definition load_backfill ::
  "config_env \<Rightarrow> bytes \<Rightarrow> bool \<Rightarrow> go_duration \<Rightarrow> go_duration \<Rightarrow> go_error + backfill_config" where
  "load_backfill E prefix parent request retention =
     bindE (boolean E (prefix @ ''ENABLED'') False) (\<lambda>enabled.
     if \<not> enabled then Inr zero_backfill
     else if \<not> parent then Inl (Plain (prefix @ ''ENABLED requires its monitoring pipeline''))
     else
       bindE (bounded_duration E prefix ''LOOKBACK'' (24 * hour) hour (720 * hour)) (\<lambda>lookback.
       bindE (bounded_duration E prefix ''OVERLAP'' (2 * minute) second hour) (\<lambda>overlap.
       bindE (bounded_duration E prefix ''INTERVAL'' (30 * second) (5 * second) hour) (\<lambda>interval.
       bindE (bounded_duration E prefix ''CYCLE_TIMEOUT'' (20 * second) second hour) (\<lambda>cycle.
       bindE (bounded_duration E prefix ''RESCAN_INTERVAL'' hour (5 * second) (720 * hour)) (\<lambda>rescan.
       bindE (guardE (\<not> (lookback > retention \<or> overlap > lookback \<or> cycle \<le> request \<or> cycle \<ge> interval \<or>
                        rescan < interval \<or> rescan > lookback))
                (Plain (prefix @ '' timing or retention constraints invalid''))) (\<lambda>_.
       bindE (bounded_int E (prefix @ ''MAX_PAGES_PER_CYCLE'') 4 1 32) (\<lambda>pages.
       bindE (bounded_int E (prefix @ ''DETAIL_MAX_PER_CYCLE'') 25 1 1000) (\<lambda>details.
       bindE (bounded_int E (prefix @ ''DETAIL_CONCURRENCY'') 2 1 8) (\<lambda>concurrency.
       bindE (bounded_int E (prefix @ ''MAX_PENDING_RECORDS'') 10000 1000 100000) (\<lambda>pending.
       bindE (guardE (\<not> concurrency > details) (Plain (prefix @ '' concurrency exceeds detail budget''))) (\<lambda>_.
       Inr \<lparr>bc_enabled = True, bc_lookback = lookback, bc_overlap = overlap, bc_interval = interval,
            bc_cycle_timeout = cycle, bc_rescan = rescan, bc_max_pages = pages, bc_detail_max = details,
            bc_concurrency = concurrency, bc_max_pending = pending\<rparr>))))))))))))"

definition backfill_ok :: "go_duration \<Rightarrow> go_duration \<Rightarrow> backfill_config \<Rightarrow> bool" where
  "backfill_ok request retention c \<longleftrightarrow>
     hour \<le> bc_lookback c \<and> bc_lookback c \<le> 720 * hour \<and> bc_lookback c \<le> retention \<and>
     second \<le> bc_overlap c \<and> bc_overlap c \<le> hour \<and> bc_overlap c \<le> bc_lookback c \<and>
     request < bc_cycle_timeout c \<and> bc_cycle_timeout c < bc_interval c \<and> bc_interval c \<le> bc_rescan c \<and>
     bc_rescan c \<le> bc_lookback c \<and> 5 * second \<le> bc_interval c \<and>
     1 \<le> bc_max_pages c \<and> bc_max_pages c \<le> 32 \<and> 1 \<le> bc_concurrency c \<and> bc_concurrency c \<le> 8 \<and>
     bc_concurrency c \<le> bc_detail_max c \<and> bc_detail_max c \<le> 1000 \<and>
     1000 \<le> bc_max_pending c \<and> bc_max_pending c \<le> 100000"

lemma load_backfill_ok [config_values]:
  assumes "load_backfill E prefix parent request retention = Inr c"
  shows "if bc_enabled c then parent \<and> backfill_ok request retention c else c = zero_backfill"
proof (cases "boolean E (prefix @ ''ENABLED'') False = Inr True")
  case False
  with assms have "c = zero_backfill" by (auto simp: load_backfill_def split: if_splits)
  then show ?thesis by (simp add: zero_backfill_def)
next
  case True
  with assms have p: parent by (auto simp: load_backfill_def split: if_splits)
  with True assms obtain l w i y r g d n m where
    b: "bounded_duration E prefix ''LOOKBACK'' (24 * hour) hour (720 * hour) = Inr l"
      "bounded_duration E prefix ''OVERLAP'' (2 * minute) second hour = Inr w"
      "bounded_duration E prefix ''INTERVAL'' (30 * second) (5 * second) hour = Inr i"
      "bounded_duration E prefix ''CYCLE_TIMEOUT'' (20 * second) second hour = Inr y"
      "bounded_duration E prefix ''RESCAN_INTERVAL'' hour (5 * second) (720 * hour) = Inr r"
    and n: "bounded_int E (prefix @ ''MAX_PAGES_PER_CYCLE'') 4 1 32 = Inr g"
      "bounded_int E (prefix @ ''DETAIL_MAX_PER_CYCLE'') 25 1 1000 = Inr d"
      "bounded_int E (prefix @ ''DETAIL_CONCURRENCY'') 2 1 8 = Inr n"
      "bounded_int E (prefix @ ''MAX_PENDING_RECORDS'') 10000 1000 100000 = Inr m"
    and g: "l \<le> retention" "w \<le> l" "request < y" "y < i" "i \<le> r" "r \<le> l" "n \<le> d"
    and c: "c = \<lparr>bc_enabled = True, bc_lookback = l, bc_overlap = w, bc_interval = i, bc_cycle_timeout = y,
      bc_rescan = r, bc_max_pages = g, bc_detail_max = d, bc_concurrency = n, bc_max_pending = m\<rparr>"
    by (auto simp: load_backfill_def not_less not_le)
  from bounded_duration_ok [OF b(1)] bounded_duration_ok [OF b(2)] bounded_duration_ok [OF b(3)]
    bounded_int_ok [OF n(1)] bounded_int_ok [OF n(2)] bounded_int_ok [OF n(3)] bounded_int_ok [OF n(4)] g p
  show ?thesis by (simp add: c backfill_ok_def)
qed

end
