(* ===== verification/Config_Load.thy ===== *)
theory Config_Load
  imports Config_Query
begin

text \<open>
  The loader (\<open>load\<close> of \<open>internal/config/config.go\<close>). The fields of \<open>Config\<close> are grouped in records along
  the blocks of the struct, and the loader is split at the same places: each function reads one block, in
  the order of the source, from what the earlier blocks gave. A \<open>Config\<close> that comes with an error is
  discarded by the callers and is not kept. \<open>config_ok\<close> says what every loaded configuration satisfies.
\<close>

section \<open>The configuration\<close>

record modes =
  md_resources :: bool
  md_alerts :: bool
  md_logs :: bool
  md_allow_insecure :: bool
  md_ddae_insecure :: bool
  md_kafka_insecure :: bool

record target =
  tg_base_url :: "url option"
  tg_ping_prefix :: bytes
  tg_api_prefix :: bytes
  tg_source :: bytes
  tg_username :: secret
  tg_password :: secret
  tg_client_secret :: secret
  tg_ca_file :: bytes

record timing =
  tm_resource_interval :: go_duration
  tm_alert_interval :: go_duration
  tm_log_interval :: go_duration
  tm_collection_interval :: go_duration
  tm_request_timeout :: go_duration
  tm_cycle_timeout :: go_duration
  tm_response_max :: int
  tm_retry_max :: int
  tm_stale_after :: go_duration

record detail_limits =
  dl_list_max :: int
  dl_detail_max :: int
  dl_refresh :: go_duration
  dl_per_cycle :: int
  dl_concurrency :: int

record kafka_config =
  kc_brokers :: "bytes list"
  kc_topic :: bytes
  kc_log_topic :: bytes
  kc_client_id :: bytes
  kc_ca_file :: bytes
  kc_cert_file :: bytes
  kc_key_file :: bytes
  kc_mechanism :: bytes
  kc_username :: secret
  kc_password :: secret
  kc_timeout :: go_duration

record store_limits =
  sl_max_bytes :: int
  sl_max_events :: int
  sl_retention :: go_duration
  sl_max_records :: int

record state_config =
  sc_dir :: bytes
  sc_outbox :: store_limits
  sc_log_outbox :: store_limits
  sc_grace :: go_duration
  sc_log_level :: bytes
  sc_log_format :: bytes

record config =
  cf_modes :: modes
  cf_query :: query_config
  cf_target :: target
  cf_listen :: bytes
  cf_timing :: timing
  cf_alert_details :: detail_limits
  cf_log_details :: detail_limits
  cf_kafka :: kafka_config
  cf_state :: state_config
  cf_log_backfill :: backfill_config
  cf_query_backfill :: backfill_config

definition management :: "modes \<Rightarrow> bool" where
  "management m \<longleftrightarrow> md_resources m \<or> md_alerts m \<or> md_logs m"

definition publishing :: "modes \<Rightarrow> query_config \<Rightarrow> bool" where
  "publishing m q \<longleftrightarrow> md_alerts m \<or> md_logs m \<or> qc_events q"

section \<open>Pipelines and TLS\<close>

definition load_modes :: "config_env \<Rightarrow> go_error + modes \<times> query_config" where
  "load_modes E =
     bindE (boolean E ''DDAE_RESOURCE_MONITORING_ENABLED'' True) (\<lambda>resources.
     bindE (boolean E ''DDAE_ALERT_MONITORING_ENABLED'' True) (\<lambda>alerts.
     bindE (boolean E ''DDAE_SERVICEABILITY_LOG_MONITORING_ENABLED'' False) (\<lambda>logs.
     bindE (boolean E ''ALLOW_INSECURE_TLS'' False) (\<lambda>allow.
     bindE (load_query E allow) (\<lambda>query.
     bindE (guardE (\<not> (\<not> (resources \<or> alerts \<or> logs) \<and> \<not> qc_enabled query))
              (Plain ''at least one monitoring pipeline must be enabled'')) (\<lambda>_.
     bindE (boolean E ''DDAE_TLS_INSECURE_SKIP_VERIFY'' False) (\<lambda>ddae_insecure.
     bindE (boolean E ''KAFKA_TLS_INSECURE_SKIP_VERIFY'' False) (\<lambda>kafka_insecure.
     bindE (guardE (\<not> ((ddae_insecure \<or> kafka_insecure) \<and> \<not> allow))
              (Plain ''target insecure_skip_verify requires ALLOW_INSECURE_TLS=true'')) (\<lambda>_.
     Inr (\<lparr>md_resources = resources, md_alerts = alerts, md_logs = logs, md_allow_insecure = allow,
           md_ddae_insecure = ddae_insecure, md_kafka_insecure = kafka_insecure\<rparr>, query))))))))))"

section \<open>The target\<close>

definition wrapE :: "bytes \<Rightarrow> go_error + 'a \<Rightarrow> go_error + 'a" where
  "wrapE msg r = (case r of Inl e \<Rightarrow> Inl (Wrapped msg e) | Inr a \<Rightarrow> Inr a)"

lemma wrapE_Inr [simp]: "wrapE msg r = Inr a \<longleftrightarrow> r = Inr a"
  by (cases r) (simp_all add: wrapE_def)

definition zero_target :: target where
  "zero_target =
     \<lparr>tg_base_url = None, tg_ping_prefix = [], tg_api_prefix = [], tg_source = [], tg_username = [],
      tg_password = [], tg_client_secret = [], tg_ca_file = []\<rparr>"

definition load_origin :: "config_env \<Rightarrow> go_error + target" where
  "load_origin E =
     (case en_lookup E ''DDAE_BASE_URL'' of None \<Rightarrow> Inl (Plain ''DDAE_BASE_URL is required'')
      | Some raw \<Rightarrow>
          if trim_space raw = [] then Inl (Plain ''DDAE_BASE_URL is required'')
          else
            bindE (wrapE ''DDAE_BASE_URL is invalid'' (validate_origin E raw)) (\<lambda>u.
            let ping = optional_text E ''DDAE_PING_PATH_PREFIX'' [];
                api = optional_text E ''DDAE_API_PATH_PREFIX'' ''/v1'' in
            bindE (wrapE ''DDAE_PING_PATH_PREFIX is invalid'' (validate_path_prefix ping)) (\<lambda>_.
            bindE (wrapE ''DDAE_API_PATH_PREFIX is invalid'' (validate_path_prefix api)) (\<lambda>_.
            Inr (zero_target\<lparr>tg_base_url := Some u, tg_ping_prefix := ping, tg_api_prefix := api\<rparr>)))))"

definition load_source :: "config_env \<Rightarrow> modes \<Rightarrow> query_config \<Rightarrow> go_error + bytes" where
  "load_source E m q =
     (case en_lookup E ''DDAE_SOURCE_INSTANCE'' of
        Some source \<Rightarrow>
          bindE (wrapE ''DDAE_SOURCE_INSTANCE is invalid'' (validate_source_instance source)) (\<lambda>_. Inr source)
      | None \<Rightarrow>
          if md_alerts m \<or> md_logs m \<or> qc_enabled q
          then Inl (Plain ''DDAE_SOURCE_INSTANCE is required when alert, serviceability log or query monitoring is enabled'')
          else Inr [])"

definition load_credentials :: "config_env \<Rightarrow> modes \<Rightarrow> target \<Rightarrow> go_error + target" where
  "load_credentials E m t =
     bindE (load_secret E ''DDAE_USERNAME'' ''DDAE_USERNAME_FILE'' True) (\<lambda>username.
     bindE (load_secret E ''DDAE_PASSWORD'' ''DDAE_PASSWORD_FILE'' True) (\<lambda>password.
     bindE (load_secret E ''DDAE_CLIENT_SECRET'' ''DDAE_CLIENT_SECRET_FILE'' True) (\<lambda>client_secret.
     let ca = optional_text E ''DDAE_CA_FILE'' [] in
     bindE (guardE (\<not> (md_ddae_insecure m \<and> ca \<noteq> []))
              (Plain ''DDAE_CA_FILE conflicts with DDAE_TLS_INSECURE_SKIP_VERIFY'')) (\<lambda>_.
     Inr (t\<lparr>tg_username := username, tg_password := password, tg_client_secret := client_secret,
            tg_ca_file := ca\<rparr>)))))"

definition load_target :: "config_env \<Rightarrow> modes \<Rightarrow> query_config \<Rightarrow> go_error + target" where
  "load_target E m q =
     bindE (if management m then load_origin E else Inr zero_target) (\<lambda>t.
     bindE (load_source E m q) (\<lambda>source.
     let t1 = t\<lparr>tg_source := source\<rparr> in
     if management m then load_credentials E m t1 else Inr t1))"

definition load_listen :: "config_env \<Rightarrow> go_error + bytes" where
  "load_listen E =
     (let address = optional_text E ''EXPORTER_LISTEN_ADDRESS'' ''127.0.0.1:9469''
      in bindE (wrapE ''EXPORTER_LISTEN_ADDRESS is invalid'' (validate_listen_address address)) (\<lambda>_. Inr address))"

section \<open>Timing and detail limits\<close>

definition load_timing :: "config_env \<Rightarrow> modes \<Rightarrow> go_error + timing" where
  "load_timing E m =
     bindE (duration_alias E ''DDAE_RESOURCE_COLLECTION_INTERVAL'' ''DDAE_COLLECTION_INTERVAL'' (30 * second)) (\<lambda>resource.
     bindE (duration_alias E ''DDAE_ALERT_COLLECTION_INTERVAL'' ''DDAE_COLLECTION_INTERVAL'' (30 * second)) (\<lambda>alert.
     bindE (duration E ''DDAE_SERVICEABILITY_LOG_COLLECTION_INTERVAL'' (30 * second)) (\<lambda>log.
     bindE (duration E ''DDAE_REQUEST_TIMEOUT'' (5 * second)) (\<lambda>request.
     bindE (duration E ''DDAE_CYCLE_TIMEOUT'' (20 * second)) (\<lambda>cycle.
     bindE (bounded_positive_int64 E ''DDAE_RESPONSE_MAX_BYTES'' 4194304 67108864) (\<lambda>response.
     bindE (bounded_int E ''DDAE_RETRY_MAX'' 2 0 10) (\<lambda>retry.
     bindE (duration E ''DDAE_STALE_AFTER'' (120 * second)) (\<lambda>stale.
     bindE (guardE (\<not> request \<ge> cycle)
              (Plain ''DDAE_REQUEST_TIMEOUT must be less than DDAE_CYCLE_TIMEOUT'')) (\<lambda>_.
     bindE (guardE (\<not> (md_resources m \<and> cycle \<ge> resource))
              (Plain ''DDAE_CYCLE_TIMEOUT must be less than the resource collection interval'')) (\<lambda>_.
     bindE (guardE (\<not> (md_alerts m \<and> cycle \<ge> alert))
              (Plain ''DDAE_CYCLE_TIMEOUT must be less than the alert collection interval'')) (\<lambda>_.
     bindE (guardE (\<not> (md_logs m \<and> cycle \<ge> log))
              (Plain ''DDAE_CYCLE_TIMEOUT must be less than the serviceability log collection interval'')) (\<lambda>_.
     bindE (guardE (\<not> (md_resources m \<and> stale \<le> resource))
              (Plain ''DDAE_STALE_AFTER must be greater than the resource collection interval'')) (\<lambda>_.
     Inr \<lparr>tm_resource_interval = resource, tm_alert_interval = alert, tm_log_interval = log,
          tm_collection_interval = resource, tm_request_timeout = request, tm_cycle_timeout = cycle,
          tm_response_max = response, tm_retry_max = retry, tm_stale_after = stale\<rparr>)))))))))))))"

text \<open>The two blocks of detail settings differ in the prefix of the names and in a word of an error.\<close>

definition load_details ::
  "config_env \<Rightarrow> bytes \<Rightarrow> bytes \<Rightarrow> bool \<Rightarrow> go_duration \<Rightarrow> go_error + detail_limits" where
  "load_details E prefix what enabled interval =
     bindE (bounded_positive_int64 E (prefix @ ''_LIST_RESPONSE_MAX_BYTES'') 8388608 67108864) (\<lambda>list_max.
     bindE (bounded_positive_int64 E (prefix @ ''_DETAIL_RESPONSE_MAX_BYTES'') 1048576 67108864) (\<lambda>detail_max.
     bindE (duration E (prefix @ ''_DETAIL_REFRESH_INTERVAL'') (10 * minute)) (\<lambda>refresh.
     bindE (bounded_int E (prefix @ ''_DETAIL_MAX_PER_CYCLE'') 200 1 10000) (\<lambda>per_cycle.
     bindE (bounded_int E (prefix @ ''_DETAIL_CONCURRENCY'') 4 1 128) (\<lambda>concurrency.
     bindE (guardE (\<not> concurrency > per_cycle)
              (Plain (prefix @ ''_DETAIL_CONCURRENCY must not exceed '' @ prefix @ ''_DETAIL_MAX_PER_CYCLE''))) (\<lambda>_.
     bindE (guardE (\<not> (enabled \<and> refresh < interval))
              (Plain (prefix @ ''_DETAIL_REFRESH_INTERVAL must not be less than the '' @ what @ '' collection interval''))) (\<lambda>_.
     Inr \<lparr>dl_list_max = list_max, dl_detail_max = detail_max, dl_refresh = refresh, dl_per_cycle = per_cycle,
          dl_concurrency = concurrency\<rparr>)))))))"

section \<open>Kafka\<close>

definition load_brokers :: "config_env \<Rightarrow> bool \<Rightarrow> go_error + bytes list" where
  "load_brokers E needed =
     (case en_lookup E ''KAFKA_BROKERS'' of
        Some raw \<Rightarrow>
          if trim_space raw = [] then Inl (Plain ''KAFKA_BROKERS is invalid'')
          else wrapE ''KAFKA_BROKERS is invalid'' (parse_brokers raw)
      | None \<Rightarrow>
          if needed
          then Inl (Plain ''KAFKA_BROKERS is required when alert, serviceability log or query event publishing is enabled'')
          else Inr [])"

definition load_topics :: "config_env \<Rightarrow> modes \<Rightarrow> query_config \<Rightarrow> go_error + bytes \<times> bytes" where
  "load_topics E m q =
     bindE (case en_lookup E ''KAFKA_TOPIC'' of
              Some t \<Rightarrow> if valid_kafka_topic t then Inr t else Inl (Plain ''KAFKA_TOPIC is invalid'')
            | None \<Rightarrow> if md_alerts m then Inl (Plain ''KAFKA_TOPIC is required when alert monitoring is enabled'')
                      else Inr []) (\<lambda>topic.
     let log_topic = optional_text E ''KAFKA_SERVICEABILITY_LOG_TOPIC'' ''ddae-serviceability-logs'' in
     bindE (guardE (valid_kafka_topic log_topic) (Plain ''KAFKA_SERVICEABILITY_LOG_TOPIC is invalid'')) (\<lambda>_.
     bindE (guardE (\<not> (md_alerts m \<and> md_logs m \<and> topic = log_topic))
              (Plain ''KAFKA_SERVICEABILITY_LOG_TOPIC must differ from KAFKA_TOPIC'')) (\<lambda>_.
     bindE (guardE (\<not> (qc_events q \<and> (qc_topic q = topic \<or> qc_topic q = log_topic)))
              (Plain ''query Kafka topic must be isolated'')) (\<lambda>_.
     Inr (topic, log_topic)))))"

definition load_sasl :: "config_env \<Rightarrow> bool \<Rightarrow> go_error + bytes \<times> secret \<times> secret" where
  "load_sasl E needed =
     bindE (guardE (\<not> secret_inputs_conflict E ''KAFKA_SASL_PASSWORD'' ''KAFKA_SASL_PASSWORD_FILE'')
              (Plain ''KAFKA_SASL_PASSWORD and KAFKA_SASL_PASSWORD_FILE conflict'')) (\<lambda>_.
     let mechanism = to_upper (optional_text E ''KAFKA_SASL_MECHANISM'' []) in
     bindE (guardE (mechanism \<in> set [[], ''PLAIN'', ''SCRAM-SHA-256'', ''SCRAM-SHA-512''])
              (Plain ''KAFKA_SASL_MECHANISM is unsupported'')) (\<lambda>_.
     if mechanism \<noteq> [] \<and> needed then
       bindE (required_text E ''KAFKA_SASL_USERNAME'') (\<lambda>username.
       bindE (load_secret E ''KAFKA_SASL_PASSWORD'' ''KAFKA_SASL_PASSWORD_FILE'' True) (\<lambda>password.
       Inr (mechanism, username, password)))
     else Inr (mechanism, [], [])))"

definition load_kafka :: "config_env \<Rightarrow> modes \<Rightarrow> query_config \<Rightarrow> go_error + kafka_config" where
  "load_kafka E m q =
     bindE (load_brokers E (publishing m q)) (\<lambda>brokers.
     bindE (load_topics E m q) (\<lambda>(topic, log_topic).
     let client_id = optional_text E ''KAFKA_CLIENT_ID'' ''ddae-exporter'' in
     bindE (guardE (\<not> (length client_id = 0 \<or> length client_id > 128 \<or>
                      contains_any client_id [chr 0, chr 13, chr 10])) (Plain ''KAFKA_CLIENT_ID is invalid'')) (\<lambda>_.
     let ca = optional_text E ''KAFKA_CA_FILE'' [] in
     bindE (guardE (\<not> (md_kafka_insecure m \<and> ca \<noteq> []))
              (Plain ''KAFKA_CA_FILE conflicts with KAFKA_TLS_INSECURE_SKIP_VERIFY'')) (\<lambda>_.
     let cert = optional_text E ''KAFKA_CLIENT_CERT_FILE'' [];
         key = optional_text E ''KAFKA_CLIENT_KEY_FILE'' [] in
     bindE (guardE ((cert = []) = (key = []))
              (Plain ''KAFKA_CLIENT_CERT_FILE and KAFKA_CLIENT_KEY_FILE must be configured together'')) (\<lambda>_.
     bindE (load_sasl E (publishing m q)) (\<lambda>(mechanism, username, password).
     bindE (duration E ''KAFKA_PUBLISH_TIMEOUT'' (10 * second)) (\<lambda>timeout.
     bindE (guardE (\<not> timeout < second) (Plain ''KAFKA_PUBLISH_TIMEOUT must be at least 1s'')) (\<lambda>_.
     Inr \<lparr>kc_brokers = brokers, kc_topic = topic, kc_log_topic = log_topic, kc_client_id = client_id,
          kc_ca_file = ca, kc_cert_file = cert, kc_key_file = key, kc_mechanism = mechanism,
          kc_username = username, kc_password = password, kc_timeout = timeout\<rparr>))))))))"

section \<open>State, logging and the whole\<close>

definition load_store_limits :: "config_env \<Rightarrow> bytes \<Rightarrow> bytes \<Rightarrow> bytes \<Rightarrow> bytes \<Rightarrow> go_error + store_limits" where
  "load_store_limits E max_bytes_name max_events_name retention_name max_records_name =
     bindE (positive_int64 E max_bytes_name 1073741824) (\<lambda>max_bytes.
     bindE (bounded_int E max_events_name 100000 1 10000000) (\<lambda>max_events.
     bindE (duration E retention_name (720 * hour)) (\<lambda>retention.
     bindE (bounded_int E max_records_name 100000 1 10000000) (\<lambda>max_records.
     Inr \<lparr>sl_max_bytes = max_bytes, sl_max_events = max_events, sl_retention = retention,
          sl_max_records = max_records\<rparr>))))"

definition load_state :: "config_env \<Rightarrow> go_error + state_config" where
  "load_state E =
     (let dir = optional_text E ''STATE_DIR'' ''/var/lib/ddae-exporter'' in
     bindE (guardE (has_prefix dir ''/'') (Plain ''STATE_DIR must be an absolute path'')) (\<lambda>_.
     bindE (load_store_limits E ''KAFKA_OUTBOX_MAX_BYTES'' ''KAFKA_OUTBOX_MAX_EVENTS''
              ''CHECKPOINT_RETENTION'' ''CHECKPOINT_MAX_ALERTS'') (\<lambda>outbox.
     bindE (load_store_limits E ''SERVICEABILITY_LOG_OUTBOX_MAX_BYTES'' ''SERVICEABILITY_LOG_OUTBOX_MAX_EVENTS''
              ''SERVICEABILITY_LOG_CHECKPOINT_RETENTION'' ''SERVICEABILITY_LOG_CHECKPOINT_MAX_RECORDS'') (\<lambda>log_outbox.
     bindE (duration E ''SHUTDOWN_GRACE_PERIOD'' (15 * second)) (\<lambda>grace.
     let level = to_lower (optional_text E ''LOG_LEVEL'' ''info'') in
     bindE (guardE (level \<in> set [''debug'', ''info'', ''warn'', ''error''])
              (Plain ''LOG_LEVEL must be debug, info, warn or error'')) (\<lambda>_.
     let format = to_lower (optional_text E ''LOG_FORMAT'' ''json'') in
     bindE (guardE (\<not> (format \<noteq> ''json'' \<and> format \<noteq> ''text'')) (Plain ''LOG_FORMAT must be json or text'')) (\<lambda>_.
     Inr \<lparr>sc_dir = dir, sc_outbox = outbox, sc_log_outbox = log_outbox, sc_grace = grace,
          sc_log_level = level, sc_log_format = format\<rparr>)))))))"

definition load :: "config_env \<Rightarrow> go_error + config" where
  "load E =
     bindE (load_modes E) (\<lambda>(m, q).
     bindE (load_target E m q) (\<lambda>target.
     bindE (load_listen E) (\<lambda>listen.
     bindE (load_timing E m) (\<lambda>tm.
     bindE (load_details E ''ALERT'' ''alert'' (md_alerts m) (tm_alert_interval tm)) (\<lambda>alerts.
     bindE (load_details E ''SERVICEABILITY_LOG'' ''serviceability log'' (md_logs m) (tm_log_interval tm)) (\<lambda>logs.
     bindE (load_kafka E m q) (\<lambda>kafka.
     bindE (load_state E) (\<lambda>st.
     bindE (load_backfill E ''SERVICEABILITY_LOG_BACKFILL_'' (md_logs m) (tm_request_timeout tm)
              (sl_retention (sc_log_outbox st))) (\<lambda>log_backfill.
     bindE (load_backfill E ''QUERY_BACKFILL_'' (qc_enabled q) (qc_request_timeout q) (qc_retention q)) (\<lambda>query_backfill.
     bindE (guardE (\<not> (bc_enabled query_backfill \<and> qc_max_history q < 1000))
              (Plain ''QUERY_MAX_HISTORY_RECORDS must be at least 1000 for backfill'')) (\<lambda>_.
     Inr \<lparr>cf_modes = m, cf_query = q, cf_target = target, cf_listen = listen, cf_timing = tm,
          cf_alert_details = alerts, cf_log_details = logs, cf_kafka = kafka, cf_state = st,
          cf_log_backfill = log_backfill, cf_query_backfill = query_backfill\<rparr>)))))))))))"

definition insecure_tls_targets :: "config \<Rightarrow> bytes list" where
  "insecure_tls_targets c =
     (if \<not> md_allow_insecure (cf_modes c) then []
      else (if qc_enabled (cf_query c) \<and> qc_insecure (cf_query c) then [''query''] else []) @
           (if md_ddae_insecure (cf_modes c) then [''ddae''] else []) @
           (if publishing (cf_modes c) (cf_query c) \<and> md_kafka_insecure (cf_modes c) then [''kafka''] else []))"

end
