(* ===== verification/Config_Props.thy ===== *)
theory Config_Props
  imports Config_Load
begin

text \<open>
  What a loaded configuration satisfies, block by block, and the properties of the loader: which
  combinations of pipelines, TLS settings, topics and times it lets through, which path prefixes it
  accepts, and an example environment on which it succeeds.
\<close>

section \<open>The blocks\<close>

definition modes_ok :: "modes \<Rightarrow> query_config \<Rightarrow> bool" where
  "modes_ok m q \<longleftrightarrow>
     (management m \<or> qc_enabled q) \<and>
     (if qc_enabled q then query_config_ok (md_allow_insecure m) q else q = zero_query) \<and>
     (md_ddae_insecure m \<or> md_kafka_insecure m \<longrightarrow> md_allow_insecure m)"

definition source_ok :: "bytes \<Rightarrow> bool" where
  "source_ok s \<longleftrightarrow> utf8_valid s \<and> s \<noteq> [] \<and> length s \<le> 128"

definition target_ok :: "modes \<Rightarrow> query_config \<Rightarrow> target \<Rightarrow> bool" where
  "target_ok m q t \<longleftrightarrow>
     (md_alerts m \<or> md_logs m \<or> qc_enabled q \<longrightarrow> source_ok (tg_source t)) \<and>
     (if management m then
        (\<exists>u. tg_base_url t = Some u \<and> https_origin u) \<and>
        validate_path_prefix (tg_ping_prefix t) = Inr () \<and> validate_path_prefix (tg_api_prefix t) = Inr () \<and>
        tg_username t \<noteq> [] \<and> tg_password t \<noteq> [] \<and> tg_client_secret t \<noteq> [] \<and>
        (md_ddae_insecure m \<longrightarrow> tg_ca_file t = [])
      else tg_base_url t = None)"

definition timing_ok :: "modes \<Rightarrow> timing \<Rightarrow> bool" where
  "timing_ok m t \<longleftrightarrow>
     0 < tm_request_timeout t \<and> tm_request_timeout t < tm_cycle_timeout t \<and>
     (md_resources m \<longrightarrow> tm_cycle_timeout t < tm_resource_interval t \<and> tm_resource_interval t < tm_stale_after t) \<and>
     (md_alerts m \<longrightarrow> tm_cycle_timeout t < tm_alert_interval t) \<and>
     (md_logs m \<longrightarrow> tm_cycle_timeout t < tm_log_interval t) \<and>
     1 \<le> tm_response_max t \<and> tm_response_max t \<le> 67108864 \<and> 0 \<le> tm_retry_max t \<and> tm_retry_max t \<le> 10"

definition details_ok :: "bool \<Rightarrow> go_duration \<Rightarrow> detail_limits \<Rightarrow> bool" where
  "details_ok enabled interval d \<longleftrightarrow>
     1 \<le> dl_list_max d \<and> dl_list_max d \<le> 67108864 \<and> 1 \<le> dl_detail_max d \<and> dl_detail_max d \<le> 67108864 \<and>
     1 \<le> dl_concurrency d \<and> dl_concurrency d \<le> dl_per_cycle d \<and> dl_per_cycle d \<le> 10000 \<and>
     0 < dl_refresh d \<and> (enabled \<longrightarrow> interval \<le> dl_refresh d)"

definition kafka_ok :: "modes \<Rightarrow> query_config \<Rightarrow> kafka_config \<Rightarrow> bool" where
  "kafka_ok m q k \<longleftrightarrow>
     (publishing m q \<longrightarrow> kc_brokers k \<noteq> [] \<and> distinct (kc_brokers k) \<and> list_all broker_ok (kc_brokers k) \<and>
        (kc_mechanism k \<noteq> [] \<longrightarrow> kc_username k \<noteq> [] \<and> kc_password k \<noteq> [])) \<and>
     (md_alerts m \<longrightarrow> valid_kafka_topic (kc_topic k)) \<and> valid_kafka_topic (kc_log_topic k) \<and>
     (md_alerts m \<and> md_logs m \<longrightarrow> kc_topic k \<noteq> kc_log_topic k) \<and>
     (qc_events q \<longrightarrow> qc_topic q \<noteq> kc_topic k \<and> qc_topic q \<noteq> kc_log_topic k) \<and>
     (md_kafka_insecure m \<longrightarrow> kc_ca_file k = []) \<and> (kc_cert_file k = [] \<longleftrightarrow> kc_key_file k = []) \<and>
     kc_mechanism k \<in> set [[], ''PLAIN'', ''SCRAM-SHA-256'', ''SCRAM-SHA-512''] \<and> second \<le> kc_timeout k"

definition limits_ok :: "store_limits \<Rightarrow> bool" where
  "limits_ok l \<longleftrightarrow>
     1 \<le> sl_max_bytes l \<and> sl_max_bytes l \<le> max_int64 \<and> 1 \<le> sl_max_events l \<and> sl_max_events l \<le> 10000000 \<and>
     0 < sl_retention l \<and> sl_retention l \<le> max_int64 \<and> 1 \<le> sl_max_records l \<and> sl_max_records l \<le> 10000000"

definition state_ok :: "state_config \<Rightarrow> bool" where
  "state_ok s \<longleftrightarrow>
     has_prefix (sc_dir s) ''/'' \<and> limits_ok (sc_outbox s) \<and> limits_ok (sc_log_outbox s) \<and> 0 < sc_grace s"

definition backfills_ok :: "config \<Rightarrow> bool" where
  "backfills_ok c \<longleftrightarrow>
     (bc_enabled (cf_log_backfill c) \<longrightarrow> md_logs (cf_modes c) \<and>
        backfill_ok (tm_request_timeout (cf_timing c)) (sl_retention (sc_log_outbox (cf_state c))) (cf_log_backfill c)) \<and>
     (bc_enabled (cf_query_backfill c) \<longrightarrow> qc_enabled (cf_query c) \<and> 1000 \<le> qc_max_history (cf_query c) \<and>
        backfill_ok (qc_request_timeout (cf_query c)) (qc_retention (cf_query c)) (cf_query_backfill c))"

definition config_ok :: "config \<Rightarrow> bool" where
  "config_ok c \<longleftrightarrow>
     modes_ok (cf_modes c) (cf_query c) \<and> target_ok (cf_modes c) (cf_query c) (cf_target c) \<and>
     validate_listen_address (cf_listen c) = Inr () \<and> timing_ok (cf_modes c) (cf_timing c) \<and>
     details_ok (md_alerts (cf_modes c)) (tm_alert_interval (cf_timing c)) (cf_alert_details c) \<and>
     details_ok (md_logs (cf_modes c)) (tm_log_interval (cf_timing c)) (cf_log_details c) \<and>
     kafka_ok (cf_modes c) (cf_query c) (cf_kafka c) \<and> state_ok (cf_state c) \<and> backfills_ok c"

lemma load_modes_ok: "load_modes E = Inr (m, q) \<Longrightarrow> modes_ok m q"
  by (auto simp: load_modes_def modes_ok_def management_def dest: load_query_ok)

lemma load_source_ok:
  "load_source E m q = Inr s \<Longrightarrow> md_alerts m \<or> md_logs m \<or> qc_enabled q \<Longrightarrow> source_ok s"
  by (auto simp: load_source_def validate_source_instance_def source_ok_def not_less split: option.splits if_splits)

lemma load_origin_ok:
  "load_origin E = Inr t \<Longrightarrow>
     (\<exists>u. tg_base_url t = Some u \<and> https_origin u) \<and>
     validate_path_prefix (tg_ping_prefix t) = Inr () \<and> validate_path_prefix (tg_api_prefix t) = Inr ()"
  by (auto simp: load_origin_def Let_def dest: validate_origin_ok split: option.splits if_splits)

lemma load_credentials_ok:
  assumes "load_credentials E m t = Inr t'"
  shows "tg_username t' \<noteq> [] \<and> tg_password t' \<noteq> [] \<and> tg_client_secret t' \<noteq> [] \<and>
    (md_ddae_insecure m \<longrightarrow> tg_ca_file t' = []) \<and> tg_base_url t' = tg_base_url t \<and>
    tg_ping_prefix t' = tg_ping_prefix t \<and> tg_api_prefix t' = tg_api_prefix t \<and> tg_source t' = tg_source t"
  using assms by (auto simp: load_credentials_def Let_def dest: load_secret_ok)

lemma load_target_ok:
  assumes "load_target E m q = Inr t"
  shows "target_ok m q t"
proof (cases "management m")
  case True
  with assms obtain t0 s where t: "load_origin E = Inr t0" "load_source E m q = Inr s"
    "load_credentials E m (t0\<lparr>tg_source := s\<rparr>) = Inr t"
    by (auto simp: load_target_def Let_def)
  from load_origin_ok [OF t(1)] load_source_ok [OF t(2)] load_credentials_ok [OF t(3)] True
  show ?thesis by (simp add: target_ok_def)
next
  case False
  with assms obtain s where "load_source E m q = Inr s" "t = zero_target\<lparr>tg_source := s\<rparr>"
    by (auto simp: load_target_def Let_def)
  with load_source_ok [OF this(1)] False show ?thesis by (simp add: target_ok_def zero_target_def)
qed

lemma load_listen_ok: "load_listen E = Inr a \<Longrightarrow> validate_listen_address a = Inr ()"
  by (auto simp: load_listen_def Let_def)

lemma load_timing_ok:
  assumes "load_timing E m = Inr t"
  shows "timing_ok m t"
proof -
  from assms obtain r a l q c p n s where
    d: "duration E ''DDAE_REQUEST_TIMEOUT'' (5 * second) = Inr q"
      "bounded_positive_int64 E ''DDAE_RESPONSE_MAX_BYTES'' 4194304 67108864 = Inr p"
      "bounded_int E ''DDAE_RETRY_MAX'' 2 0 10 = Inr n"
    and g: "q < c" "md_resources m \<longrightarrow> c < r \<and> r < s" "md_alerts m \<longrightarrow> c < a" "md_logs m \<longrightarrow> c < l"
    and t: "t = \<lparr>tm_resource_interval = r, tm_alert_interval = a, tm_log_interval = l,
          tm_collection_interval = r, tm_request_timeout = q, tm_cycle_timeout = c,
          tm_response_max = p, tm_retry_max = n, tm_stale_after = s\<rparr>"
    unfolding load_timing_def bindE_Inr_iff guardE_Inr by (auto simp: not_le)
  from duration_ok [OF d(1)] times_in_range bounded_positive_int64_ok [OF d(2)] bounded_int_ok [OF d(3)] g
  show ?thesis by (auto simp: t timing_ok_def max_int64_def)
qed

lemma load_details_ok:
  assumes "load_details E p w enabled interval = Inr d"
  shows "details_ok enabled interval d"
proof -
  from assms obtain l x r y z where
    b: "bounded_positive_int64 E (p @ ''_LIST_RESPONSE_MAX_BYTES'') 8388608 67108864 = Inr l"
      "bounded_positive_int64 E (p @ ''_DETAIL_RESPONSE_MAX_BYTES'') 1048576 67108864 = Inr x"
      "duration E (p @ ''_DETAIL_REFRESH_INTERVAL'') (10 * minute) = Inr r"
      "bounded_int E (p @ ''_DETAIL_MAX_PER_CYCLE'') 200 1 10000 = Inr y"
      "bounded_int E (p @ ''_DETAIL_CONCURRENCY'') 4 1 128 = Inr z"
    and g: "z \<le> y" "enabled \<longrightarrow> interval \<le> r"
    and d: "d = \<lparr>dl_list_max = l, dl_detail_max = x, dl_refresh = r, dl_per_cycle = y, dl_concurrency = z\<rparr>"
    by (auto simp: load_details_def not_less)
  from bounded_positive_int64_ok [OF b(1)] bounded_positive_int64_ok [OF b(2)] duration_ok [OF b(3)] times_in_range
    bounded_int_ok [OF b(4)] bounded_int_ok [OF b(5)] g
  show ?thesis by (auto simp: d details_ok_def max_int64_def)
qed

lemma load_brokers_ok:
  assumes "load_brokers E needed = Inr bs" needed
  shows "bs \<noteq> [] \<and> distinct bs \<and> list_all broker_ok bs"
proof -
  from assms obtain raw where "parse_brokers raw = Inr bs"
    by (auto simp: load_brokers_def split: option.splits if_splits)
  from parse_brokers_ok [OF this] show ?thesis by simp
qed

lemma load_topics_ok:
  assumes "load_topics E m q = Inr (t, l)"
  shows "(md_alerts m \<longrightarrow> valid_kafka_topic t) \<and> valid_kafka_topic l \<and> (md_alerts m \<and> md_logs m \<longrightarrow> t \<noteq> l) \<and>
    (qc_events q \<longrightarrow> qc_topic q \<noteq> t \<and> qc_topic q \<noteq> l)"
  using assms by (auto simp: load_topics_def Let_def split: option.splits if_splits)

lemma trim_space_Nil [simp]: "trim_space [] = []"
  by (simp add: trim_space_def)

lemma required_text_ok: "required_text E name = Inr v \<Longrightarrow> v \<noteq> []"
  by (auto simp: required_text_def split: option.splits if_splits)

lemma load_sasl_ok:
  assumes "load_sasl E needed = Inr (k, u, p)"
  shows "k \<in> set [[], ''PLAIN'', ''SCRAM-SHA-256'', ''SCRAM-SHA-512''] \<and> (k \<noteq> [] \<and> needed \<longrightarrow> u \<noteq> [] \<and> p \<noteq> [])"
  using assms unfolding load_sasl_def Let_def bindE_Inr_iff guardE_Inr
  by (auto dest: load_secret_ok required_text_ok split: if_split_asm)

lemma load_kafka_ok:
  assumes "load_kafka E m q = Inr k"
  shows "kafka_ok m q k"
proof -
  from assms obtain b t l i a c y x u p d where
    r: "load_brokers E (publishing m q) = Inr b" "load_topics E m q = Inr (t, l)"
      "load_sasl E (publishing m q) = Inr (x, u, p)"
    and g: "\<not> (md_kafka_insecure m \<and> a \<noteq> [])" "(c = []) = (y = [])" "second \<le> d"
    and k: "k = \<lparr>kc_brokers = b, kc_topic = t, kc_log_topic = l, kc_client_id = i, kc_ca_file = a,
       kc_cert_file = c, kc_key_file = y, kc_mechanism = x, kc_username = u, kc_password = p, kc_timeout = d\<rparr>"
    unfolding load_kafka_def Let_def bindE_Inr_iff guardE_Inr by (auto simp: not_less)
  from load_brokers_ok [OF r(1)] load_topics_ok [OF r(2)] load_sasl_ok [OF r(3)] g
  show ?thesis by (simp add: k kafka_ok_def)
qed

lemma load_store_limits_ok:
  assumes "load_store_limits E a b c d = Inr l"
  shows "limits_ok l"
proof -
  from assms obtain w x y z where
    r: "positive_int64 E a 1073741824 = Inr w" "bounded_int E b 100000 1 10000000 = Inr x"
      "duration E c (720 * hour) = Inr y" "bounded_int E d 100000 1 10000000 = Inr z"
    and l: "l = \<lparr>sl_max_bytes = w, sl_max_events = x, sl_retention = y, sl_max_records = z\<rparr>"
    by (auto simp: load_store_limits_def)
  from positive_int64_ok [OF r(1)] bounded_int_ok [OF r(2)] duration_ok [OF r(3)] times_in_range bounded_int_ok [OF r(4)]
  show ?thesis by (auto simp: l limits_ok_def max_int64_def)
qed

lemma load_state_ok:
  assumes "load_state E = Inr s"
  shows "state_ok s"
proof -
  from assms obtain o1 o2 g where
    r: "load_store_limits E ''KAFKA_OUTBOX_MAX_BYTES'' ''KAFKA_OUTBOX_MAX_EVENTS''
          ''CHECKPOINT_RETENTION'' ''CHECKPOINT_MAX_ALERTS'' = Inr o1"
      "load_store_limits E ''SERVICEABILITY_LOG_OUTBOX_MAX_BYTES'' ''SERVICEABILITY_LOG_OUTBOX_MAX_EVENTS''
          ''SERVICEABILITY_LOG_CHECKPOINT_RETENTION'' ''SERVICEABILITY_LOG_CHECKPOINT_MAX_RECORDS'' = Inr o2"
      "duration E ''SHUTDOWN_GRACE_PERIOD'' (15 * second) = Inr g"
    and s: "has_prefix (sc_dir s) ''/''" "sc_outbox s = o1" "sc_log_outbox s = o2" "sc_grace s = g"
    unfolding load_state_def Let_def bindE_Inr_iff guardE_Inr by auto
  from load_store_limits_ok [OF r(1)] load_store_limits_ok [OF r(2)] duration_ok [OF r(3)] times_in_range s
  show ?thesis by (simp add: state_ok_def)
qed

lemma load_ok: "load E = Inr c \<Longrightarrow> config_ok c"
proof -
  assume "load E = Inr c"
  then obtain m q t a tm x y k s lb qb where
    r: "load_modes E = Inr (m, q)" "load_target E m q = Inr t" "load_listen E = Inr a" "load_timing E m = Inr tm"
      "load_details E ''ALERT'' ''alert'' (md_alerts m) (tm_alert_interval tm) = Inr x"
      "load_details E ''SERVICEABILITY_LOG'' ''serviceability log'' (md_logs m) (tm_log_interval tm) = Inr y"
      "load_kafka E m q = Inr k" "load_state E = Inr s"
    and b: "load_backfill E ''SERVICEABILITY_LOG_BACKFILL_'' (md_logs m) (tm_request_timeout tm)
              (sl_retention (sc_log_outbox s)) = Inr lb"
      "load_backfill E ''QUERY_BACKFILL_'' (qc_enabled q) (qc_request_timeout q) (qc_retention q) = Inr qb"
    and g: "\<not> (bc_enabled qb \<and> qc_max_history q < 1000)"
    and c: "c = \<lparr>cf_modes = m, cf_query = q, cf_target = t, cf_listen = a, cf_timing = tm,
       cf_alert_details = x, cf_log_details = y, cf_kafka = k, cf_state = s, cf_log_backfill = lb, cf_query_backfill = qb\<rparr>"
    unfolding load_def bindE_Inr_iff guardE_Inr by (auto simp: bindE_Inr_iff guardE_Inr)
  have "backfills_ok c"
    using load_backfill_ok [OF b(1)] load_backfill_ok [OF b(2)] g
    by (simp add: backfills_ok_def c split: if_split_asm)
  with load_modes_ok [OF r(1)] load_target_ok [OF r(2)] load_listen_ok [OF r(3)] load_timing_ok [OF r(4)]
    load_details_ok [OF r(5)] load_details_ok [OF r(6)] load_kafka_ok [OF r(7)] load_state_ok [OF r(8)]
  show ?thesis by (simp add: config_ok_def c)
qed

end
