(* ===== verification/Config_File.thy ===== *)
theory Config_File
  imports Config_Load
begin

text \<open>
  The configuration file (\<open>internal/config/yaml.go\<close>): the document's structs, its translation into the names
  of the settings, the look-up that lays the environment over it, the checks on the file and \<open>LoadFile\<close>.
  The YAML decoder is a library and an argument (\<open>yaml_ops\<close>), and so is the file system (\<open>file_ops\<close>); a
  field the document does not set is \<open>None\<close>. The records follow the structs; the table of settings is
  written by section, in the order of \<open>environmentValues\<close>.
\<close>

section \<open>The document\<close>

record yaml_backfill =
  yb_enabled :: "bool option"
  yb_lookback :: "bytes option"
  yb_overlap :: "bytes option"
  yb_interval :: "bytes option"
  yb_cycle_timeout :: "bytes option"
  yb_rescan_interval :: "bytes option"
  yb_max_pages :: "int option"
  yb_detail_max :: "int option"
  yb_concurrency :: "int option"
  yb_max_pending :: "int option"

record yaml_queries =
  yq_backfill :: yaml_backfill
  yq_enabled :: "bool option"
  yq_events :: "bool option"
  yq_base_url :: "bytes option"
  yq_auth_url :: "bytes option"
  yq_realm :: "bytes option"
  yq_role :: "bytes option"
  yq_username_file :: "bytes option"
  yq_password_file :: "bytes option"
  yq_ca_file :: "bytes option"
  yq_auth_ca_file :: "bytes option"
  yq_insecure :: "bool option"
  yq_topic :: "bytes option"
  yq_interval :: "bytes option"
  yq_request_timeout :: "bytes option"
  yq_cycle_timeout :: "bytes option"
  yq_stale_after :: "bytes option"
  yq_retention :: "bytes option"
  yq_max_bytes :: "int option"
  yq_response_max_bytes :: "int option"
  yq_max_events :: "int option"
  yq_max_checkpoints :: "int option"
  yq_max_history :: "int option"
  yq_max_per_cycle :: "int option"
  yq_concurrency :: "int option"
  yq_retry_max :: "int option"

record yaml_resources =
  yr_enabled :: "bool option"
  yr_interval :: "bytes option"
  yr_stale_after :: "bytes option"

record yaml_alert_detail =
  yad_response_max_bytes :: "int option"
  yad_refresh_interval :: "bytes option"
  yad_max_per_cycle :: "int option"
  yad_concurrency :: "int option"

record yaml_alerts =
  ya_enabled :: "bool option"
  ya_interval :: "bytes option"
  ya_list_response_max_bytes :: "int option"
  ya_detail :: yaml_alert_detail

record yaml_log_detail =
  yld_response_max_bytes :: "int option"
  yld_refresh_interval :: "bytes option"
  yld_max_per_cycle :: "int option"
  yld_concurrency :: "int option"

record yaml_logs =
  yl_backfill :: yaml_backfill
  yl_enabled :: "bool option"
  yl_interval :: "bytes option"
  yl_list_response_max_bytes :: "int option"
  yl_detail :: yaml_log_detail

record yaml_monitoring =
  ym_queries :: yaml_queries
  ym_resources :: yaml_resources
  ym_alerts :: yaml_alerts
  ym_logs :: yaml_logs

record yaml_server =
  ys_listen_address :: "bytes option"
  ys_shutdown_grace_period :: "bytes option"

record yaml_security =
  yse_allow_insecure_tls :: "bool option"

record yaml_ddae_paths =
  ydp_ping_prefix :: "bytes option"
  ydp_api_prefix :: "bytes option"

record yaml_credentials =
  ycr_username_file :: "bytes option"
  ycr_password_file :: "bytes option"
  ycr_client_secret_file :: "bytes option"

record yaml_ddae_tls =
  ydt_ca_file :: "bytes option"
  ydt_insecure_skip_verify :: "bool option"

record yaml_ddae =
  yd_base_url :: "bytes option"
  yd_paths :: yaml_ddae_paths
  yd_source_instance :: "bytes option"
  yd_credentials :: yaml_credentials
  yd_tls :: yaml_ddae_tls
  yd_request_timeout :: "bytes option"
  yd_cycle_timeout :: "bytes option"
  yd_response_max_bytes :: "int option"
  yd_retry_max :: "int option"

record yaml_kafka_tls =
  ykt_ca_file :: "bytes option"
  ykt_client_cert_file :: "bytes option"
  ykt_client_key_file :: "bytes option"
  ykt_insecure_skip_verify :: "bool option"

record yaml_sasl =
  ysa_mechanism :: "bytes option"
  ysa_username :: "bytes option"
  ysa_password_file :: "bytes option"

record yaml_kafka =
  yk_brokers :: "bytes list option"
  yk_topic :: "bytes option"
  yk_log_topic :: "bytes option"
  yk_client_id :: "bytes option"
  yk_tls :: yaml_kafka_tls
  yk_sasl :: yaml_sasl
  yk_publish_timeout :: "bytes option"

record yaml_state =
  yst_dir :: "bytes option"
  yst_outbox_max_bytes :: "int option"
  yst_outbox_max_events :: "int option"
  yst_checkpoint_retention :: "bytes option"
  yst_checkpoint_max_alerts :: "int option"
  yst_log_outbox_max_bytes :: "int option"
  yst_log_outbox_max_events :: "int option"
  yst_log_checkpoint_retention :: "bytes option"
  yst_log_checkpoint_max_records :: "int option"

record yaml_logging =
  ylo_level :: "bytes option"
  ylo_format :: "bytes option"

record yaml_config =
  yc_version :: int
  yc_monitoring :: yaml_monitoring
  yc_server :: yaml_server
  yc_security :: yaml_security
  yc_ddae :: yaml_ddae
  yc_kafka :: yaml_kafka
  yc_state :: yaml_state
  yc_logging :: yaml_logging

section \<open>Settings\<close>

definition format_bool :: "bool \<Rightarrow> bytes" where
  "format_bool b = (if b then ''true'' else ''false'')"

definition bool_setting :: "bool option \<Rightarrow> bytes option" where
  "bool_setting v = map_option format_bool v"

definition int_setting :: "int option \<Rightarrow> bytes option" where
  "int_setting v = map_option show_int v"

definition put_setting :: "(bytes \<rightharpoonup> bytes) \<Rightarrow> bytes \<times> bytes option \<Rightarrow> (bytes \<rightharpoonup> bytes)" where
  "put_setting values s = (case snd s of None \<Rightarrow> values | Some v \<Rightarrow> values(fst s \<mapsto> v))"

definition backfill_settings :: "yaml_backfill \<Rightarrow> bytes \<Rightarrow> (bytes \<times> bytes option) list" where
  "backfill_settings b prefix =
     [(prefix @ ''ENABLED'', bool_setting (yb_enabled b)),
      (prefix @ ''LOOKBACK'', yb_lookback b),
      (prefix @ ''OVERLAP'', yb_overlap b),
      (prefix @ ''INTERVAL'', yb_interval b),
      (prefix @ ''CYCLE_TIMEOUT'', yb_cycle_timeout b),
      (prefix @ ''RESCAN_INTERVAL'', yb_rescan_interval b),
      (prefix @ ''MAX_PAGES_PER_CYCLE'', int_setting (yb_max_pages b)),
      (prefix @ ''DETAIL_MAX_PER_CYCLE'', int_setting (yb_detail_max b)),
      (prefix @ ''DETAIL_CONCURRENCY'', int_setting (yb_concurrency b)),
      (prefix @ ''MAX_PENDING_RECORDS'', int_setting (yb_max_pending b))]"

definition resource_settings :: "yaml_resources \<Rightarrow> (bytes \<times> bytes option) list" where
  "resource_settings r =
     [(''DDAE_RESOURCE_MONITORING_ENABLED'', bool_setting (yr_enabled r)),
      (''DDAE_RESOURCE_COLLECTION_INTERVAL'', yr_interval r),
      (''DDAE_STALE_AFTER'', yr_stale_after r)]"

definition alert_settings :: "yaml_alerts \<Rightarrow> (bytes \<times> bytes option) list" where
  "alert_settings a =
     [(''DDAE_ALERT_MONITORING_ENABLED'', bool_setting (ya_enabled a)),
      (''DDAE_ALERT_COLLECTION_INTERVAL'', ya_interval a),
      (''ALERT_LIST_RESPONSE_MAX_BYTES'', int_setting (ya_list_response_max_bytes a)),
      (''ALERT_DETAIL_RESPONSE_MAX_BYTES'', int_setting (yad_response_max_bytes (ya_detail a))),
      (''ALERT_DETAIL_REFRESH_INTERVAL'', yad_refresh_interval (ya_detail a)),
      (''ALERT_DETAIL_MAX_PER_CYCLE'', int_setting (yad_max_per_cycle (ya_detail a))),
      (''ALERT_DETAIL_CONCURRENCY'', int_setting (yad_concurrency (ya_detail a)))]"

definition log_settings :: "yaml_logs \<Rightarrow> (bytes \<times> bytes option) list" where
  "log_settings l =
     [(''DDAE_SERVICEABILITY_LOG_MONITORING_ENABLED'', bool_setting (yl_enabled l)),
      (''DDAE_SERVICEABILITY_LOG_COLLECTION_INTERVAL'', yl_interval l),
      (''SERVICEABILITY_LOG_LIST_RESPONSE_MAX_BYTES'', int_setting (yl_list_response_max_bytes l)),
      (''SERVICEABILITY_LOG_DETAIL_RESPONSE_MAX_BYTES'', int_setting (yld_response_max_bytes (yl_detail l))),
      (''SERVICEABILITY_LOG_DETAIL_REFRESH_INTERVAL'', yld_refresh_interval (yl_detail l)),
      (''SERVICEABILITY_LOG_DETAIL_MAX_PER_CYCLE'', int_setting (yld_max_per_cycle (yl_detail l))),
      (''SERVICEABILITY_LOG_DETAIL_CONCURRENCY'', int_setting (yld_concurrency (yl_detail l)))]"

definition query_settings :: "yaml_queries \<Rightarrow> (bytes \<times> bytes option) list" where
  "query_settings q =
     [(''QUERY_ENABLED'', bool_setting (yq_enabled q)),
      (''QUERY_EVENTS_ENABLED'', bool_setting (yq_events q)),
      (''QUERY_BASE_URL'', yq_base_url q),
      (''QUERY_AUTH_URL'', yq_auth_url q),
      (''QUERY_REALM'', yq_realm q),
      (''QUERY_ROLE'', yq_role q),
      (''QUERY_USERNAME_FILE'', yq_username_file q),
      (''QUERY_PASSWORD_FILE'', yq_password_file q),
      (''QUERY_CA_FILE'', yq_ca_file q),
      (''QUERY_AUTH_CA_FILE'', yq_auth_ca_file q),
      (''QUERY_TLS_INSECURE_SKIP_VERIFY'', bool_setting (yq_insecure q)),
      (''QUERY_KAFKA_TOPIC'', yq_topic q),
      (''QUERY_INTERVAL'', yq_interval q),
      (''QUERY_REQUEST_TIMEOUT'', yq_request_timeout q),
      (''QUERY_CYCLE_TIMEOUT'', yq_cycle_timeout q),
      (''QUERY_STALE_AFTER'', yq_stale_after q),
      (''QUERY_CHECKPOINT_RETENTION'', yq_retention q),
      (''QUERY_OUTBOX_MAX_BYTES'', int_setting (yq_max_bytes q)),
      (''QUERY_RESPONSE_MAX_BYTES'', int_setting (yq_response_max_bytes q)),
      (''QUERY_OUTBOX_MAX_EVENTS'', int_setting (yq_max_events q)),
      (''QUERY_CHECKPOINT_MAX_RECORDS'', int_setting (yq_max_checkpoints q)),
      (''QUERY_MAX_HISTORY_RECORDS'', int_setting (yq_max_history q)),
      (''QUERY_DETAIL_MAX_PER_CYCLE'', int_setting (yq_max_per_cycle q)),
      (''QUERY_DETAIL_CONCURRENCY'', int_setting (yq_concurrency q)),
      (''QUERY_RETRY_MAX'', int_setting (yq_retry_max q))]"

definition server_settings :: "yaml_server \<Rightarrow> (bytes \<times> bytes option) list" where
  "server_settings s =
     [(''EXPORTER_LISTEN_ADDRESS'', ys_listen_address s),
      (''SHUTDOWN_GRACE_PERIOD'', ys_shutdown_grace_period s)]"

definition ddae_settings :: "yaml_ddae \<Rightarrow> (bytes \<times> bytes option) list" where
  "ddae_settings d =
     [(''DDAE_BASE_URL'', yd_base_url d),
      (''DDAE_PING_PATH_PREFIX'', ydp_ping_prefix (yd_paths d)),
      (''DDAE_API_PATH_PREFIX'', ydp_api_prefix (yd_paths d)),
      (''DDAE_SOURCE_INSTANCE'', yd_source_instance d),
      (''DDAE_USERNAME_FILE'', ycr_username_file (yd_credentials d)),
      (''DDAE_PASSWORD_FILE'', ycr_password_file (yd_credentials d)),
      (''DDAE_CLIENT_SECRET_FILE'', ycr_client_secret_file (yd_credentials d)),
      (''DDAE_CA_FILE'', ydt_ca_file (yd_tls d)),
      (''DDAE_TLS_INSECURE_SKIP_VERIFY'', bool_setting (ydt_insecure_skip_verify (yd_tls d))),
      (''DDAE_REQUEST_TIMEOUT'', yd_request_timeout d),
      (''DDAE_CYCLE_TIMEOUT'', yd_cycle_timeout d),
      (''DDAE_RESPONSE_MAX_BYTES'', int_setting (yd_response_max_bytes d)),
      (''DDAE_RETRY_MAX'', int_setting (yd_retry_max d))]"

definition kafka_settings :: "yaml_kafka \<Rightarrow> (bytes \<times> bytes option) list" where
  "kafka_settings k =
     [(''KAFKA_BROKERS'', map_option (join_with (CHR '','')) (yk_brokers k)),
      (''KAFKA_TOPIC'', yk_topic k),
      (''KAFKA_SERVICEABILITY_LOG_TOPIC'', yk_log_topic k),
      (''KAFKA_CLIENT_ID'', yk_client_id k),
      (''KAFKA_CA_FILE'', ykt_ca_file (yk_tls k)),
      (''KAFKA_CLIENT_CERT_FILE'', ykt_client_cert_file (yk_tls k)),
      (''KAFKA_CLIENT_KEY_FILE'', ykt_client_key_file (yk_tls k)),
      (''KAFKA_TLS_INSECURE_SKIP_VERIFY'', bool_setting (ykt_insecure_skip_verify (yk_tls k))),
      (''KAFKA_SASL_MECHANISM'', ysa_mechanism (yk_sasl k)),
      (''KAFKA_SASL_USERNAME'', ysa_username (yk_sasl k)),
      (''KAFKA_SASL_PASSWORD_FILE'', ysa_password_file (yk_sasl k)),
      (''KAFKA_PUBLISH_TIMEOUT'', yk_publish_timeout k)]"

definition state_settings :: "yaml_state \<Rightarrow> (bytes \<times> bytes option) list" where
  "state_settings s =
     [(''STATE_DIR'', yst_dir s),
      (''KAFKA_OUTBOX_MAX_BYTES'', int_setting (yst_outbox_max_bytes s)),
      (''KAFKA_OUTBOX_MAX_EVENTS'', int_setting (yst_outbox_max_events s)),
      (''CHECKPOINT_RETENTION'', yst_checkpoint_retention s),
      (''CHECKPOINT_MAX_ALERTS'', int_setting (yst_checkpoint_max_alerts s)),
      (''SERVICEABILITY_LOG_OUTBOX_MAX_BYTES'', int_setting (yst_log_outbox_max_bytes s)),
      (''SERVICEABILITY_LOG_OUTBOX_MAX_EVENTS'', int_setting (yst_log_outbox_max_events s)),
      (''SERVICEABILITY_LOG_CHECKPOINT_RETENTION'', yst_log_checkpoint_retention s),
      (''SERVICEABILITY_LOG_CHECKPOINT_MAX_RECORDS'', int_setting (yst_log_checkpoint_max_records s))]"

definition logging_settings :: "yaml_logging \<Rightarrow> (bytes \<times> bytes option) list" where
  "logging_settings l =
     [(''LOG_LEVEL'', ylo_level l),
      (''LOG_FORMAT'', ylo_format l)]"

definition file_settings :: "yaml_config \<Rightarrow> (bytes \<times> bytes option) list" where
  "file_settings y =
     (let m = yc_monitoring y in
      backfill_settings (yq_backfill (ym_queries m)) ''QUERY_BACKFILL_'' @
      backfill_settings (yl_backfill (ym_logs m)) ''SERVICEABILITY_LOG_BACKFILL_'' @
      resource_settings (ym_resources m) @ alert_settings (ym_alerts m) @ log_settings (ym_logs m) @
      query_settings (ym_queries m) @ server_settings (yc_server y) @
      [(''ALLOW_INSECURE_TLS'', bool_setting (yse_allow_insecure_tls (yc_security y)))] @
      ddae_settings (yc_ddae y) @ kafka_settings (yc_kafka y) @ state_settings (yc_state y) @
      logging_settings (yc_logging y))"

definition environment_values :: "yaml_config \<Rightarrow> (bytes \<rightharpoonup> bytes)" where
  "environment_values y = foldl put_setting Map.empty (file_settings y)"

section \<open>The environment over the file\<close>

definition file_to_direct :: "(bytes \<times> bytes) list" where
  "file_to_direct =
     [(''QUERY_USERNAME_FILE'', ''QUERY_USERNAME''),
      (''QUERY_PASSWORD_FILE'', ''QUERY_PASSWORD''),
      (''DDAE_USERNAME_FILE'', ''DDAE_USERNAME''),
      (''DDAE_PASSWORD_FILE'', ''DDAE_PASSWORD''),
      (''DDAE_CLIENT_SECRET_FILE'', ''DDAE_CLIENT_SECRET''),
      (''KAFKA_SASL_PASSWORD_FILE'', ''KAFKA_SASL_PASSWORD'')]"

definition layered_lookup :: "(bytes \<rightharpoonup> bytes) \<Rightarrow> (bytes \<rightharpoonup> bytes) \<Rightarrow> bytes \<Rightarrow> bytes option" where
  "layered_lookup values environment name =
     (case environment name of Some v \<Rightarrow> Some v
      | None \<Rightarrow>
          if (name = ''DDAE_RESOURCE_COLLECTION_INTERVAL'' \<or> name = ''DDAE_ALERT_COLLECTION_INTERVAL'') \<and>
             environment ''DDAE_COLLECTION_INTERVAL'' \<noteq> None
          then environment ''DDAE_COLLECTION_INTERVAL''
          else (case map_of file_to_direct name of
                  Some direct \<Rightarrow> if environment direct \<noteq> None then None else values name
                | None \<Rightarrow> values name))"

section \<open>Reading the file\<close>

datatype yaml_kind = DocumentNode | SequenceNode | MappingNode | ScalarNode | AliasNode

datatype yaml_node = YamlNode (yn_kind: yaml_kind) (yn_tag: bytes) (yn_anchor: bytes) (yn_value: bytes)
  (yn_content: "yaml_node list")

text \<open>What the decoder finds after the first document.\<close>

datatype yaml_rest = EndOfInput | NextDocument | BadRest

record yaml_ops =
  yp_node :: "bytes \<Rightarrow> yaml_node option"
  yp_decode :: "bytes \<Rightarrow> yaml_config option"
  yp_rest :: "bytes \<Rightarrow> yaml_rest"

text \<open>\<open>UnmarshalYAML\<close> of a path prefix, which the decoder calls for the two prefixes of the target.\<close>

definition unmarshal_path_prefix :: "yaml_node \<Rightarrow> go_error + bytes" where
  "unmarshal_path_prefix n =
     (if yn_kind n \<noteq> ScalarNode \<or> yn_tag n \<noteq> ''!!str'' then Inl (Plain ''DDAE path prefix must be a string'')
      else Inr (yn_value n))"

fun visit_node :: "yaml_node \<Rightarrow> bool" where
  "visit_node (YamlNode kind tag anchor v content) =
     (kind = AliasNode \<or> anchor \<noteq> [] \<or> tag = ''!!merge'' \<or> list_ex visit_node content)"

definition reject_yaml_aliases :: "yaml_ops \<Rightarrow> bytes \<Rightarrow> go_error + unit" where
  "reject_yaml_aliases Y data =
     (case yp_node Y data of None \<Rightarrow> Inl (Plain ''configuration YAML is invalid'')
      | Some document \<Rightarrow>
          guardE (\<not> visit_node document) (Plain ''configuration YAML aliases and merge keys are unsupported''))"

definition decode_yaml :: "yaml_ops \<Rightarrow> bytes \<Rightarrow> go_error + (bytes \<rightharpoonup> bytes)" where
  "decode_yaml Y data =
     bindE (reject_yaml_aliases Y data) (\<lambda>_.
     case yp_decode Y data of None \<Rightarrow> Inl (Plain ''configuration YAML is invalid'')
     | Some document \<Rightarrow>
         (case yp_rest Y data of
            NextDocument \<Rightarrow> Inl (Plain ''configuration YAML must contain one document'')
          | BadRest \<Rightarrow> Inl (Plain ''configuration YAML is invalid'')
          | EndOfInput \<Rightarrow>
              if yc_version document \<noteq> 1 then Inl (Plain ''configuration version must be 1'')
              else Inr (environment_values document)))"

record file_info =
  fi_regular :: bool
  fi_size :: int

record open_file =
  of_stat :: "file_info option"
  of_data :: "bytes option"

record file_ops =
  fs_stat :: "bytes \<Rightarrow> file_info option"
  fs_open :: "bytes \<Rightarrow> open_file option"

definition yaml_file_max_bytes :: nat where "yaml_file_max_bytes = 1048576"

definition read_yaml_file :: "file_ops \<Rightarrow> bytes \<Rightarrow> go_error + bytes" where
  "read_yaml_file fs path =
     (let unreadable = Inl (Plain ''cannot read configuration file'');
          irregular = Inl (Plain ''configuration file must be a regular file'');
          large = Inl (Plain ''configuration file exceeds the size limit'')
      in case fs_stat fs path of None \<Rightarrow> unreadable
         | Some before \<Rightarrow>
           if \<not> fi_regular before then irregular
           else if fi_size before > int yaml_file_max_bytes then large
           else case fs_open fs path of None \<Rightarrow> unreadable
           | Some file \<Rightarrow>
             (case of_stat file of None \<Rightarrow> irregular
              | Some info \<Rightarrow>
                if \<not> fi_regular info then irregular
                else if fi_size info > int yaml_file_max_bytes then large
                else case of_data file of None \<Rightarrow> unreadable
                | Some content \<Rightarrow>
                  let data = take (yaml_file_max_bytes + 1) content
                  in if length data > yaml_file_max_bytes then large
                     else if \<not> utf8_valid data then Inl (Plain ''configuration file must be valid UTF-8'')
                     else Inr data))"

definition read_secret_file :: "file_ops \<Rightarrow> bytes \<Rightarrow> go_error + bytes" where
  "read_secret_file fs path =
     (case fs_stat fs path of None \<Rightarrow> Inl (Plain ''secret path must be a regular file'')
      | Some info \<Rightarrow>
          if \<not> fi_regular info then Inl (Plain ''secret path must be a regular file'')
          else (case fs_open fs path of None \<Rightarrow> Inl (Plain ''open failed'')
                | Some file \<Rightarrow>
                    (case of_data file of None \<Rightarrow> Inl (Plain ''read failed'')
                     | Some content \<Rightarrow> Inr (take (secret_file_max_bytes + 1) content))))"

definition load_with ::
  "file_ops \<Rightarrow> (bytes \<Rightarrow> url option) \<Rightarrow> (nat \<Rightarrow> nat \<Rightarrow> nat \<Rightarrow> nat) \<Rightarrow> (bytes \<rightharpoonup> bytes) \<Rightarrow> (bytes \<rightharpoonup> bytes)
   \<Rightarrow> go_error + config"
where
  "load_with fs parse_url frac values environment =
     load \<lparr>en_lookup = layered_lookup values environment, en_read = read_secret_file fs,
           en_url = parse_url, en_frac = frac\<rparr>"

definition load_file ::
  "yaml_ops \<Rightarrow> file_ops \<Rightarrow> (bytes \<Rightarrow> url option) \<Rightarrow> (nat \<Rightarrow> nat \<Rightarrow> nat \<Rightarrow> nat) \<Rightarrow> (bytes \<rightharpoonup> bytes) \<Rightarrow> bytes
   \<Rightarrow> go_error + config"
where
  "load_file Y fs parse_url frac environment command_line_path =
     (let selected = (if command_line_path \<noteq> [] then Some command_line_path
                      else environment ''DDAE_EXPORTER_CONFIG_FILE'')
      in bindE (case selected of None \<Rightarrow> Inr Map.empty
                | Some path \<Rightarrow>
                    if trim_space path = [] then Inl (Plain ''configuration file path is empty'')
                    else bindE (read_yaml_file fs path) (decode_yaml Y)) (\<lambda>values.
         load_with fs parse_url frac values environment))"

end
