(* ===== verification/Config_Example.thy ===== *)
theory Config_Example
  imports Config_Props Config_File
begin

text \<open>
  An environment on which the loader succeeds with every pipeline, query events and both backfills on and
  the certificates of the target unchecked. Each block is evaluated on its own; the witnesses of the
  properties of the configuration run on it.
\<close>

definition example_settings :: "(bytes \<times> bytes) list" where
  "example_settings =
     map (\<lambda>n. (n, ''true''))
       [''ALLOW_INSECURE_TLS'', ''DDAE_TLS_INSECURE_SKIP_VERIFY'', ''DDAE_SERVICEABILITY_LOG_MONITORING_ENABLED'',
        ''QUERY_ENABLED'', ''QUERY_EVENTS_ENABLED'', ''SERVICEABILITY_LOG_BACKFILL_ENABLED'', ''QUERY_BACKFILL_ENABLED''] @
     map (\<lambda>n. (n, ''x''))
       [''DDAE_BASE_URL'', ''QUERY_BASE_URL'', ''QUERY_AUTH_URL'', ''QUERY_REALM'', ''QUERY_ROLE'',
        ''QUERY_USERNAME'', ''QUERY_PASSWORD'', ''DDAE_USERNAME'', ''DDAE_PASSWORD'', ''DDAE_CLIENT_SECRET'',
        ''DDAE_SOURCE_INSTANCE'', ''KAFKA_BROKERS'', ''KAFKA_TOPIC''] @
     [(''QUERY_KAFKA_TOPIC'', ''q'')]"

definition example_url :: url where
  "example_url =
     \<lparr>ur_scheme = ''https'', ur_user = None, ur_host = ''x'', ur_path = [], ur_raw_path = [],
      ur_raw_query = [], ur_fragment = []\<rparr>"

definition example_env :: config_env where
  "example_env =
     \<lparr>en_lookup = map_of example_settings, en_read = (\<lambda>_. Inl (Plain ''no file'')),
      en_url = (\<lambda>_. Some example_url), en_frac = (\<lambda>_ _ _. 0)\<rparr>"

lemma example_unset_1:
  "map_of example_settings ''DDAE_RESOURCE_MONITORING_ENABLED'' = None"
  "map_of example_settings ''DDAE_ALERT_MONITORING_ENABLED'' = None"
  "map_of example_settings ''KAFKA_TLS_INSECURE_SKIP_VERIFY'' = None"
  "map_of example_settings ''DDAE_PING_PATH_PREFIX'' = None"
  "map_of example_settings ''DDAE_API_PATH_PREFIX'' = None"
  "map_of example_settings ''DDAE_USERNAME_FILE'' = None"
  "map_of example_settings ''DDAE_PASSWORD_FILE'' = None"
  "map_of example_settings ''DDAE_CLIENT_SECRET_FILE'' = None"
  "map_of example_settings ''DDAE_CA_FILE'' = None"
  "map_of example_settings ''EXPORTER_LISTEN_ADDRESS'' = None"
  "map_of example_settings ''DDAE_RESOURCE_COLLECTION_INTERVAL'' = None"
  "map_of example_settings ''DDAE_COLLECTION_INTERVAL'' = None"
  "map_of example_settings ''DDAE_ALERT_COLLECTION_INTERVAL'' = None"
  "map_of example_settings ''DDAE_SERVICEABILITY_LOG_COLLECTION_INTERVAL'' = None"
  "map_of example_settings ''DDAE_REQUEST_TIMEOUT'' = None"
  "map_of example_settings ''DDAE_CYCLE_TIMEOUT'' = None"
  by (simp_all add: example_settings_def)

lemma example_unset_2:
  "map_of example_settings ''DDAE_RESPONSE_MAX_BYTES'' = None"
  "map_of example_settings ''DDAE_RETRY_MAX'' = None"
  "map_of example_settings ''DDAE_STALE_AFTER'' = None"
  "map_of example_settings ''ALERT_LIST_RESPONSE_MAX_BYTES'' = None"
  "map_of example_settings ''ALERT_DETAIL_RESPONSE_MAX_BYTES'' = None"
  "map_of example_settings ''ALERT_DETAIL_REFRESH_INTERVAL'' = None"
  "map_of example_settings ''ALERT_DETAIL_MAX_PER_CYCLE'' = None"
  "map_of example_settings ''ALERT_DETAIL_CONCURRENCY'' = None"
  "map_of example_settings ''SERVICEABILITY_LOG_LIST_RESPONSE_MAX_BYTES'' = None"
  "map_of example_settings ''SERVICEABILITY_LOG_DETAIL_RESPONSE_MAX_BYTES'' = None"
  "map_of example_settings ''SERVICEABILITY_LOG_DETAIL_REFRESH_INTERVAL'' = None"
  "map_of example_settings ''SERVICEABILITY_LOG_DETAIL_MAX_PER_CYCLE'' = None"
  "map_of example_settings ''SERVICEABILITY_LOG_DETAIL_CONCURRENCY'' = None"
  "map_of example_settings ''KAFKA_SERVICEABILITY_LOG_TOPIC'' = None"
  "map_of example_settings ''KAFKA_CLIENT_ID'' = None"
  "map_of example_settings ''KAFKA_CA_FILE'' = None"
  by (simp_all add: example_settings_def)

lemma example_unset_3:
  "map_of example_settings ''KAFKA_CLIENT_CERT_FILE'' = None"
  "map_of example_settings ''KAFKA_CLIENT_KEY_FILE'' = None"
  "map_of example_settings ''KAFKA_SASL_PASSWORD'' = None"
  "map_of example_settings ''KAFKA_SASL_PASSWORD_FILE'' = None"
  "map_of example_settings ''KAFKA_SASL_MECHANISM'' = None"
  "map_of example_settings ''KAFKA_SASL_USERNAME'' = None"
  "map_of example_settings ''KAFKA_PUBLISH_TIMEOUT'' = None"
  "map_of example_settings ''STATE_DIR'' = None"
  "map_of example_settings ''KAFKA_OUTBOX_MAX_BYTES'' = None"
  "map_of example_settings ''KAFKA_OUTBOX_MAX_EVENTS'' = None"
  "map_of example_settings ''CHECKPOINT_RETENTION'' = None"
  "map_of example_settings ''CHECKPOINT_MAX_ALERTS'' = None"
  "map_of example_settings ''SERVICEABILITY_LOG_OUTBOX_MAX_BYTES'' = None"
  "map_of example_settings ''SERVICEABILITY_LOG_OUTBOX_MAX_EVENTS'' = None"
  "map_of example_settings ''SERVICEABILITY_LOG_CHECKPOINT_RETENTION'' = None"
  "map_of example_settings ''SERVICEABILITY_LOG_CHECKPOINT_MAX_RECORDS'' = None"
  by (simp_all add: example_settings_def)

lemma example_unset_4:
  "map_of example_settings ''SHUTDOWN_GRACE_PERIOD'' = None"
  "map_of example_settings ''LOG_LEVEL'' = None"
  "map_of example_settings ''LOG_FORMAT'' = None"
  "map_of example_settings ''QUERY_USERNAME_FILE'' = None"
  "map_of example_settings ''QUERY_PASSWORD_FILE'' = None"
  "map_of example_settings ''QUERY_CA_FILE'' = None"
  "map_of example_settings ''QUERY_AUTH_CA_FILE'' = None"
  "map_of example_settings ''QUERY_TLS_INSECURE_SKIP_VERIFY'' = None"
  "map_of example_settings ''QUERY_INTERVAL'' = None"
  "map_of example_settings ''QUERY_REQUEST_TIMEOUT'' = None"
  "map_of example_settings ''QUERY_CYCLE_TIMEOUT'' = None"
  "map_of example_settings ''QUERY_STALE_AFTER'' = None"
  "map_of example_settings ''QUERY_CHECKPOINT_RETENTION'' = None"
  "map_of example_settings ''QUERY_MAX_HISTORY_RECORDS'' = None"
  "map_of example_settings ''QUERY_DETAIL_MAX_PER_CYCLE'' = None"
  "map_of example_settings ''QUERY_DETAIL_CONCURRENCY'' = None"
  by (simp_all add: example_settings_def)

lemma example_unset_5:
  "map_of example_settings ''QUERY_RETRY_MAX'' = None"
  "map_of example_settings ''QUERY_OUTBOX_MAX_EVENTS'' = None"
  "map_of example_settings ''QUERY_CHECKPOINT_MAX_RECORDS'' = None"
  "map_of example_settings ''QUERY_RESPONSE_MAX_BYTES'' = None"
  "map_of example_settings ''QUERY_OUTBOX_MAX_BYTES'' = None"
  "map_of example_settings ''SERVICEABILITY_LOG_BACKFILL_LOOKBACK'' = None"
  "map_of example_settings ''SERVICEABILITY_LOG_BACKFILL_OVERLAP'' = None"
  "map_of example_settings ''SERVICEABILITY_LOG_BACKFILL_INTERVAL'' = None"
  "map_of example_settings ''SERVICEABILITY_LOG_BACKFILL_CYCLE_TIMEOUT'' = None"
  "map_of example_settings ''SERVICEABILITY_LOG_BACKFILL_RESCAN_INTERVAL'' = None"
  "map_of example_settings ''SERVICEABILITY_LOG_BACKFILL_MAX_PAGES_PER_CYCLE'' = None"
  "map_of example_settings ''SERVICEABILITY_LOG_BACKFILL_DETAIL_MAX_PER_CYCLE'' = None"
  "map_of example_settings ''SERVICEABILITY_LOG_BACKFILL_DETAIL_CONCURRENCY'' = None"
  "map_of example_settings ''SERVICEABILITY_LOG_BACKFILL_MAX_PENDING_RECORDS'' = None"
  "map_of example_settings ''QUERY_BACKFILL_LOOKBACK'' = None"
  "map_of example_settings ''QUERY_BACKFILL_OVERLAP'' = None"
  by (simp_all add: example_settings_def)

lemma example_unset_6:
  "map_of example_settings ''QUERY_BACKFILL_INTERVAL'' = None"
  "map_of example_settings ''QUERY_BACKFILL_CYCLE_TIMEOUT'' = None"
  "map_of example_settings ''QUERY_BACKFILL_RESCAN_INTERVAL'' = None"
  "map_of example_settings ''QUERY_BACKFILL_MAX_PAGES_PER_CYCLE'' = None"
  "map_of example_settings ''QUERY_BACKFILL_DETAIL_MAX_PER_CYCLE'' = None"
  "map_of example_settings ''QUERY_BACKFILL_DETAIL_CONCURRENCY'' = None"
  "map_of example_settings ''QUERY_BACKFILL_MAX_PENDING_RECORDS'' = None"
  by (simp_all add: example_settings_def)

lemma example_true:
  "map_of example_settings ''ALLOW_INSECURE_TLS'' = Some ''true''"
  "map_of example_settings ''DDAE_TLS_INSECURE_SKIP_VERIFY'' = Some ''true''"
  "map_of example_settings ''DDAE_SERVICEABILITY_LOG_MONITORING_ENABLED'' = Some ''true''"
  "map_of example_settings ''QUERY_ENABLED'' = Some ''true''"
  "map_of example_settings ''QUERY_EVENTS_ENABLED'' = Some ''true''"
  "map_of example_settings ''SERVICEABILITY_LOG_BACKFILL_ENABLED'' = Some ''true''"
  "map_of example_settings ''QUERY_BACKFILL_ENABLED'' = Some ''true''"
  by (simp_all add: example_settings_def)

lemma example_x:
  "map_of example_settings ''DDAE_BASE_URL'' = Some ''x''"
  "map_of example_settings ''QUERY_BASE_URL'' = Some ''x''"
  "map_of example_settings ''QUERY_AUTH_URL'' = Some ''x''"
  "map_of example_settings ''QUERY_REALM'' = Some ''x''"
  "map_of example_settings ''QUERY_ROLE'' = Some ''x''"
  "map_of example_settings ''QUERY_USERNAME'' = Some ''x''"
  "map_of example_settings ''QUERY_PASSWORD'' = Some ''x''"
  "map_of example_settings ''DDAE_USERNAME'' = Some ''x''"
  "map_of example_settings ''DDAE_PASSWORD'' = Some ''x''"
  "map_of example_settings ''DDAE_CLIENT_SECRET'' = Some ''x''"
  "map_of example_settings ''DDAE_SOURCE_INSTANCE'' = Some ''x''"
  "map_of example_settings ''KAFKA_BROKERS'' = Some ''x''"
  "map_of example_settings ''KAFKA_TOPIC'' = Some ''x''"
  "map_of example_settings ''QUERY_KAFKA_TOPIC'' = Some ''q''"
  by (simp_all add: example_settings_def)

lemmas example_lookups = example_unset_1 example_unset_2 example_unset_3 example_unset_4 example_unset_5 example_unset_6 example_true example_x

lemma example_env_simps [simp]:
  "en_lookup example_env = map_of example_settings" "en_url example_env raw = Some example_url"
  by (simp_all add: example_env_def)

lemma to_lower_ascii: "(\<And>c. c \<in> set s \<Longrightarrow> byte c < 128 \<and> \<not> is_upper c) \<Longrightarrow> to_lower s = s"
proof -
  assume a: "\<And>c. c \<in> set s \<Longrightarrow> byte c < 128 \<and> \<not> is_upper c"
  have r: "lower_rune [c] = [c]" if "c \<in> set s" for c
    using a [OF that] by (simp add: lower_rune_def)
  have "utf8_runes s = map (\<lambda>c. [c]) s" using a by (intro utf8_runes_ascii) simp
  then have "map lower_rune (utf8_runes s) = map (\<lambda>c. [c]) s" using r by simp
  then show ?thesis by (simp add: to_lower_def)
qed

lemma example_texts:
  "to_lower ''true'' = ''true''" "to_lower ''info'' = ''info''" "to_lower ''json'' = ''json''"
  by (rule to_lower_ascii; auto simp: byte_def is_upper_def)+

lemma to_upper_Nil [simp]: "to_upper [] = []"
  by (simp add: to_upper_def)

lemma trim_space_x: "trim_space ''x'' = ''x''"
  by (simp add: trim_space_def byte_def space_runes_def chr_def char_of_def)

lemma chr_controls: "chr 0 \<noteq> CHR ''x''" "chr 13 \<noteq> CHR ''x''" "chr 10 \<noteq> CHR ''x''"
    "CHR ''x'' \<noteq> chr 0" "CHR ''x'' \<noteq> chr 13" "CHR ''x'' \<noteq> chr 10"
  by (simp_all add: chr_def char_of_def)

section \<open>The blocks on the example\<close>

lemma example_flags:
  "boolean example_env ''DDAE_RESOURCE_MONITORING_ENABLED'' True = Inr True"
  "boolean example_env ''DDAE_ALERT_MONITORING_ENABLED'' True = Inr True"
  "boolean example_env ''DDAE_SERVICEABILITY_LOG_MONITORING_ENABLED'' False = Inr True"
  "boolean example_env ''ALLOW_INSECURE_TLS'' False = Inr True"
  "boolean example_env ''DDAE_TLS_INSECURE_SKIP_VERIFY'' False = Inr True"
  "boolean example_env ''KAFKA_TLS_INSECURE_SKIP_VERIFY'' False = Inr False"
  "boolean example_env ''QUERY_ENABLED'' False = Inr True"
  "boolean example_env ''QUERY_EVENTS_ENABLED'' False = Inr True"
  "boolean example_env ''QUERY_TLS_INSECURE_SKIP_VERIFY'' False = Inr False"
  "boolean example_env ''SERVICEABILITY_LOG_BACKFILL_ENABLED'' False = Inr True"
  "boolean example_env ''QUERY_BACKFILL_ENABLED'' False = Inr True"
  by (simp_all add: boolean_def example_lookups example_texts parse_bool_def)

definition example_query :: query_config where
  "example_query =
     \<lparr>qc_enabled = True, qc_events = True, qc_insecure = False, qc_base_url = Some example_url,
      qc_auth_url = Some example_url, qc_realm = ''x'', qc_role = ''x'', qc_ca_file = [], qc_auth_ca_file = [],
      qc_topic = ''q'', qc_username = ''x'', qc_password = ''x'', qc_interval = 30 * second,
      qc_request_timeout = 5 * second, qc_cycle_timeout = 20 * second, qc_stale_after = 90 * second,
      qc_retention = 720 * hour, qc_response_max = 16777216, qc_max_bytes = 268435456, qc_max_history = 1000,
      qc_max_per_cycle = 100, qc_concurrency = 4, qc_retry_max = 2, qc_max_events = 10000,
      qc_max_checkpoints = 100000\<rparr>"

lemma utf8_valid_x: "utf8_valid ''x''"
  by (simp add: byte_def)

lemma example_secrets:
  "load_secret example_env ''QUERY_USERNAME'' ''QUERY_USERNAME_FILE'' True = Inr ''x''"
  "load_secret example_env ''QUERY_PASSWORD'' ''QUERY_PASSWORD_FILE'' True = Inr ''x''"
  "load_secret example_env ''DDAE_USERNAME'' ''DDAE_USERNAME_FILE'' True = Inr ''x''"
  "load_secret example_env ''DDAE_PASSWORD'' ''DDAE_PASSWORD_FILE'' True = Inr ''x''"
  "load_secret example_env ''DDAE_CLIENT_SECRET'' ''DDAE_CLIENT_SECRET_FILE'' True = Inr ''x''"
  by (simp_all add: load_secret_def example_lookups utf8_valid_x chr_controls)

lemma example_origin: "validate_origin example_env raw = Inr example_url"
  by (simp add: validate_origin_def example_url_def)

lemma example_names: "safe_name ''x''" "valid_kafka_topic ''x''" "valid_kafka_topic ''q''"
    "valid_kafka_topic ''ddae-serviceability-logs''"
  by (simp_all add: safe_name_def valid_kafka_topic_def is_topic_char_def is_lower_def is_upper_def is_digit_def byte_def)

lemma example_query_loaded: "load_query example_env True = Inr example_query"
proof -
  let ?q = "zero_query\<lparr>qc_enabled := True\<rparr>"
  have "load_query_target example_env True ?q = Inr (?q\<lparr>qc_base_url := Some example_url,
      qc_auth_url := Some example_url, qc_realm := ''x'', qc_role := ''x'', qc_username := ''x'',
      qc_password := ''x'', qc_ca_file := [], qc_auth_ca_file := [], qc_insecure := False\<rparr>)"
    by (simp add: load_query_target_def query_origin_def example_origin optional_text_def example_lookups
        example_secrets example_names example_flags guardE_def Let_def)
  then show ?thesis
    by (simp add: load_query_def example_flags load_query_timing_def load_query_limits_def load_query_events_def
        duration_def bounded_int_def bounded_positive_int64_def positive_int64_def example_lookups guardE_def
        second_def optional_text_def example_names zero_query_def example_query_def)
qed

definition example_modes :: modes where
  "example_modes =
     \<lparr>md_resources = True, md_alerts = True, md_logs = True, md_allow_insecure = True, md_ddae_insecure = True,
      md_kafka_insecure = False\<rparr>"

lemma example_modes_loaded: "load_modes example_env = Inr (example_modes, example_query)"
  by (simp add: load_modes_def example_flags example_query_loaded guardE_def example_modes_def)

definition example_target :: target where
  "example_target =
     \<lparr>tg_base_url = Some example_url, tg_ping_prefix = [], tg_api_prefix = ''/v1'', tg_source = ''x'',
      tg_username = ''x'', tg_password = ''x'', tg_client_secret = ''x'', tg_ca_file = []\<rparr>"

lemma example_prefix: "validate_path_prefix ''/v1'' = Inr ()"
  by (simp add: validate_path_prefix_def path_prefix_max_bytes_def validate_segment_def is_path_char_def
      is_lower_def is_digit_def byte_def bit_0)

lemma example_load_source: "validate_source_instance ''x'' = Inr ()"
  by (simp add: validate_source_instance_def utf8_valid_x chr_controls contains_any_def)

lemma example_target_loaded: "load_target example_env example_modes example_query = Inr example_target"
proof -
  have "validate_path_prefix [] = Inr ()" by (simp add: validate_path_prefix_def)
  then show ?thesis
    by (simp add: load_target_def management_def example_modes_def load_origin_def example_lookups trim_space_x
        example_origin optional_text_def example_prefix load_source_def example_load_source wrapE_def load_credentials_def
        example_secrets guardE_def zero_target_def example_target_def)
qed

lemma example_listen: "load_listen example_env = Inr ''127.0.0.1:9469''"
proof -
  have c: "colon = CHR '':''" by (simp add: colon_def chr_def char_of_def bit_0)
  have "split_host_port (''127.0.0.1'' @ colon # ''9469'') = Some (''127.0.0.1'', ''9469'')"
    by (rule split_host_port_plain)
       (simp_all add: colon_def bracket_open_def bracket_close_def chr_def char_of_def bit_0)
  then have "split_host_port ''127.0.0.1:9469'' = Some (''127.0.0.1'', ''9469'')" by (simp add: c)
  moreover have "parse_int64 ''9469'' = Some 9469" by code_simp
  ultimately have "validate_listen_address ''127.0.0.1:9469'' = Inr ()"
    by (simp add: validate_listen_address_def)
  then show ?thesis by (simp add: load_listen_def optional_text_def example_lookups wrapE_def)
qed

definition example_timing :: timing where
  "example_timing =
     \<lparr>tm_resource_interval = 30 * second, tm_alert_interval = 30 * second, tm_log_interval = 30 * second,
      tm_collection_interval = 30 * second, tm_request_timeout = 5 * second, tm_cycle_timeout = 20 * second,
      tm_response_max = 4194304, tm_retry_max = 2, tm_stale_after = 120 * second\<rparr>"

lemma example_timing_loaded: "load_timing example_env example_modes = Inr example_timing"
  by (simp add: load_timing_def duration_alias_def duration_def bounded_int_def bounded_positive_int64_def
      positive_int64_def example_lookups guardE_def second_def example_modes_def example_timing_def)

definition example_limits :: detail_limits where
  "example_limits =
     \<lparr>dl_list_max = 8388608, dl_detail_max = 1048576, dl_refresh = 10 * minute, dl_per_cycle = 200, dl_concurrency = 4\<rparr>"

lemma example_details:
  "load_details example_env ''ALERT'' w True (30 * second) = Inr example_limits"
  "load_details example_env ''SERVICEABILITY_LOG'' w True (30 * second) = Inr example_limits"
  by (simp_all add: load_details_def duration_def bounded_int_def bounded_positive_int64_def positive_int64_def
      example_lookups guardE_def second_def minute_def example_limits_def)

definition example_kafka :: kafka_config where
  "example_kafka =
     \<lparr>kc_brokers = [''x''], kc_topic = ''x'', kc_log_topic = ''ddae-serviceability-logs'',
      kc_client_id = ''ddae-exporter'', kc_ca_file = [], kc_cert_file = [], kc_key_file = [], kc_mechanism = [],
      kc_username = [], kc_password = [], kc_timeout = 10 * second\<rparr>"

lemma example_kafka_loaded: "load_kafka example_env example_modes example_query = Inr example_kafka"
proof -
  have b: "load_brokers example_env n = Inr [''x'']" for n
    by (simp add: load_brokers_def example_lookups trim_space_x parse_brokers_def wrapE_def split_on.simps
        contains_any_def chr_controls Let_def)
  have t: "load_topics example_env example_modes example_query = Inr (''x'', ''ddae-serviceability-logs'')"
    by (simp add: load_topics_def example_lookups example_names optional_text_def guardE_def example_query_def)
  have s: "load_sasl example_env n = Inr ([], [], [])" for n
    by (simp add: load_sasl_def secret_inputs_conflict_def example_lookups optional_text_def guardE_def)
  have m: "\<not> md_kafka_insecure example_modes" by (simp add: example_modes_def)
  have "\<not> contains_any ''ddae-exporter'' [chr 0, chr 13, chr 10]"
    by (simp add: contains_any_def chr_def char_of_def)
  then show ?thesis
    by (simp add: load_kafka_def b t s m optional_text_def example_lookups guardE_def duration_def second_def
        example_kafka_def)
qed

definition example_store_limits :: store_limits where
  "example_store_limits =
     \<lparr>sl_max_bytes = 1073741824, sl_max_events = 100000, sl_retention = 720 * hour, sl_max_records = 100000\<rparr>"

definition example_state :: state_config where
  "example_state =
     \<lparr>sc_dir = ''/var/lib/ddae-exporter'', sc_outbox = example_store_limits, sc_log_outbox = example_store_limits,
      sc_grace = 15 * second, sc_log_level = ''info'', sc_log_format = ''json''\<rparr>"

lemma example_state_loaded: "load_state example_env = Inr example_state"
  by (simp add: load_state_def optional_text_def example_lookups guardE_def load_store_limits_def positive_int64_def
      bounded_int_def duration_def example_texts example_state_def example_store_limits_def)

definition example_backfill_config :: backfill_config where
  "example_backfill_config =
     \<lparr>bc_enabled = True, bc_lookback = 24 * hour, bc_overlap = 2 * minute, bc_interval = 30 * second,
      bc_cycle_timeout = 20 * second, bc_rescan = hour, bc_max_pages = 4, bc_detail_max = 25, bc_concurrency = 2,
      bc_max_pending = 10000\<rparr>"

lemma example_backfills:
  "load_backfill example_env ''SERVICEABILITY_LOG_BACKFILL_'' True (5 * second) (720 * hour) = Inr example_backfill_config"
  "load_backfill example_env ''QUERY_BACKFILL_'' True (5 * second) (720 * hour) = Inr example_backfill_config"
  by (simp_all add: load_backfill_def example_flags bounded_duration_def duration_def bounded_int_def example_lookups
      guardE_def second_def minute_def hour_def example_backfill_config_def)

definition example_config :: config where
  "example_config =
     \<lparr>cf_modes = example_modes, cf_query = example_query, cf_target = example_target,
      cf_listen = ''127.0.0.1:9469'', cf_timing = example_timing, cf_alert_details = example_limits,
      cf_log_details = example_limits, cf_kafka = example_kafka, cf_state = example_state,
      cf_log_backfill = example_backfill_config, cf_query_backfill = example_backfill_config\<rparr>"

lemma example_loaded: "load example_env = Inr example_config"
proof -
  have f: "md_alerts example_modes" "md_logs example_modes" "qc_enabled example_query"
    "tm_alert_interval example_timing = 30 * second" "tm_log_interval example_timing = 30 * second"
    "tm_request_timeout example_timing = 5 * second" "sl_retention (sc_log_outbox example_state) = 720 * hour"
    "qc_request_timeout example_query = 5 * second" "qc_retention example_query = 720 * hour"
    "qc_max_history example_query = 1000"
    by (simp_all add: example_modes_def example_query_def example_timing_def example_state_def example_store_limits_def)
  show ?thesis
    by (simp add: load_def example_modes_loaded example_target_loaded example_listen example_timing_loaded f
        example_details example_kafka_loaded example_state_loaded example_backfills guardE_def example_config_def)
qed

end
