(* ===== verification/History_Recording.thy ===== *)
theory History_Recording
  imports History_Backfill
begin

text \<open>
  A source of the backfill worker that records into a store of its own, as an interface: what it lists is
  real, recording an item makes the store hold it, nothing that is held is lost, and a failure changes
  nothing. Whatever the worker does, the store then holds what a complete history covered.
\<close>

section \<open>The source under the worker\<close>

text \<open>A predicate on the source's world that its two operations keep is kept by every run of the worker.\<close>

definition source_keeps :: "'k source_ops \<Rightarrow> ('k \<Rightarrow> bool) \<Rightarrow> bool" where
  "source_keeps S J \<longleftrightarrow>
     (\<forall>w k k' r. J k \<longrightarrow> src_list S w k = (k', r) \<longrightarrow> J k') \<and>
     (\<forall>i k k' r. J k \<longrightarrow> src_record S i k = (k', r) \<longrightarrow> J k')"

definition result_world :: "('d, 'k) cycle_result + ('d, 'k) scan_state \<Rightarrow> 'k" where
  "result_world r = (case r of Inl (d, k, e) \<Rightarrow> k | Inr s \<Rightarrow> sc_world s)"

lemma result_world_simps [simp]: "result_world (Inl (d, k, e)) = k" "result_world (Inr s) = sc_world s"
  by (simp_all add: result_world_def)

lemma update_or_keeps:
  "J k \<Longrightarrow> J k1 \<Longrightarrow> J (result_world (update_or P g d k (\<lambda>d'. Inl (d', k1, e))))"
  "J k \<Longrightarrow> J (sc_world s) \<Longrightarrow> J (result_world (update_or P g d k (\<lambda>d'. Inr (s\<lparr>sc_store := d'\<rparr>))))"
  by (simp_all add: update_or_def split: prod.split option.split)

lemma record_all_keeps:
  assumes "source_keeps S J" "J k"
  shows "J (fst (snd (record_all P S is (d, k, failure))))"
  using assms(2)
proof (induction "is" arbitrary: d k failure)
  case (Cons i xs)
  obtain d' k' e where one: "record_one P S i (d, k) = (d', k', e)" by (metis surj_pair)
  obtain k1 x where s: "src_record S i k = (k1, x)" by (metis surj_pair)
  have "J k1" using assms(1) Cons.prems s unfolding source_keeps_def by blast
  then have "J k'" using one s by (auto simp: record_one_def split: prod.splits option.splits)
  with Cons.IH one show ?case by simp
qed simp

lemma scan_batch_keeps:
  assumes S: "source_keeps S J" and J: "J (sc_world s)"
  shows "J (result_world (scan_batch P S c e n p s))"
proof (cases "sc_details s \<ge> bc_detail_max c")
  case True
  with J show ?thesis by (simp add: scan_batch_def)
next
  case False
  define b where "b = take (nat (min (bc_detail_max c - sc_details s) (int (length (elems (pr_pending p)))))) (elems (pr_pending p))"
  define sent where "sent = (if bc_concurrency c \<le> 0 then 0 else min (ce_sent e n) (length b))"
  obtain d k failure where r: "record_all P S (ce_order e (take sent b)) (sc_store s, sc_world s, None) = (d, k, failure)"
    by (metis surj_pair)
  have "J k" using record_all_keeps [OF S J] r by (metis fst_conv snd_conv)
  then show ?thesis using False r
    by (simp add: scan_batch_def Let_def b_def [symmetric] sent_def [symmetric] split: option.split)
qed

lemma scan_window_keeps:
  assumes S: "source_keeps S J" and J: "J (sc_world s)"
  shows "J (result_world (scan_window P S c retention e w s))"
proof -
  obtain k' listed where l: "src_list S w (sc_world s) = (k', listed)" by (cases "src_list S w (sc_world s)")
  have k': "J k'" using S J l unfolding source_keeps_def by blast
  note up = update_or_keeps [where J = J]
  show ?thesis
  proof (cases listed)
    case (Inl er)
    then show ?thesis using J k' by (simp add: scan_window_def Let_def l up)
  next
    case (Inr pg)
    then show ?thesis using J k' by (simp add: scan_window_def Let_def l up)
  qed
qed

lemma scan_step_keeps:
  assumes S: "source_keeps S J" and J: "J (sc_world s)"
  shows "J (result_world (scan_step P S c retention e n s))"
proof (cases "pg_load P (sc_store s)")
  case (Inl er)
  with J show ?thesis by (simp add: scan_step_def Let_def)
next
  case (Inr p)
  note up = update_or_keeps [where J = J]
  show ?thesis
  proof (cases "elems (pr_windows p)")
    case Nil
    then show ?thesis using J scan_batch_keeps [OF S J] by (simp add: scan_step_def Let_def Inr up)
  next
    case (Cons w ws)
    then show ?thesis using J scan_batch_keeps [OF S J] scan_window_keeps [OF S J]
      by (simp add: scan_step_def Let_def Inr up)
  qed
qed

lemma scan_loop_keeps:
  assumes S: "source_keeps S J" and "J (sc_world s)" "scan_loop P S c retention e fuel n s = Some (d', k', err)"
  shows "J k'"
  using assms(2,3)
proof (induction fuel arbitrary: n s)
  case (Suc fuel)
  note k = scan_step_keeps [OF S Suc.prems(1), of P c retention e n]
  show ?case
  proof (cases "scan_step P S c retention e n s")
    case (Inl r)
    with Suc.prems(2) k show ?thesis by simp
  next
    case (Inr s')
    with Suc.prems(2) k show ?thesis using Suc.IH [of s' "Suc n"] by simp
  qed
qed simp

lemma run_history_keeps:
  assumes S: "source_keeps S J" and "J k" "run_history P S c retention es (w, d, k) = Some (w', d', k')"
  shows "J k'"
  using assms(2,3)
proof (induction es arbitrary: w d k)
  case (Cons e es)
  obtain w1 d1 k1 where p: "poll_history P S c retention (cycle_fuel c) e (w, d, k) = Some (w1, d1, k1)"
    "run_history P S c retention es (w1, d1, k1) = Some (w', d', k')"
    using Cons.prems(2) by (auto split: option.splits)
  from p(1) obtain err where "scan_cycle P S c retention (fst e) (cycle_fuel c) (d, k) = Some (d1, k1, err)"
    by (auto simp: poll_history_def split: option.splits)
  then have "J k1"
    using Cons.prems(1) scan_loop_keeps [OF S, of "\<lparr>sc_details = 0, sc_pages = 0, sc_store = _, sc_world = k\<rparr>"]
    by (fastforce simp: scan_cycle_def split: prod.splits option.splits)
  with Cons.IH p(2) show ?case by blast
qed simp

section \<open>Sources that record into a store\<close>

fun recorded :: "scan_event \<Rightarrow> bool" where
  "recorded (Recorded i) = True"
| "recorded (Listed w pg) = False"

definition pages_real :: "(window \<Rightarrow> page \<Rightarrow> bool) \<Rightarrow> scan_event list \<Rightarrow> bool" where
  "pages_real page_ok l \<longleftrightarrow> (\<forall>win pg. Listed win pg \<in> set l \<longrightarrow> page_ok win pg)"

definition records_held :: "(item \<Rightarrow> 'd \<Rightarrow> bool) \<Rightarrow> scan_event list \<Rightarrow> 'd \<Rightarrow> bool" where
  "records_held holds l s \<longleftrightarrow> (\<forall>i. Recorded i \<in> set l \<longrightarrow> holds i s)"

lemma pages_real_append:
  "pages_real page_ok (l @ [e]) \<longleftrightarrow> pages_real page_ok l \<and> (\<forall>win pg. e = Listed win pg \<longrightarrow> page_ok win pg)"
  unfolding pages_real_def by auto

lemma records_held_append:
  "records_held holds (l @ [e]) s \<longleftrightarrow> records_held holds l s \<and> (\<forall>i. e = Recorded i \<longrightarrow> holds i s)"
  unfolding records_held_def by auto

text \<open>The pages are real, and as long as the budget of the store lasts it holds what was recorded.\<close>

definition recording_inv ::
  "(window \<Rightarrow> page \<Rightarrow> bool) \<Rightarrow> (nat \<Rightarrow> 'd \<Rightarrow> bool) \<Rightarrow> (item \<Rightarrow> 'd \<Rightarrow> bool) \<Rightarrow> nat
   \<Rightarrow> ('w \<times> 'd) \<times> scan_event list \<Rightarrow> bool" where
  "recording_inv page_ok store_ok holds n k \<longleftrightarrow>
     pages_real page_ok (snd k) \<and>
     (length (filter recorded (snd k)) \<le> n \<longrightarrow>
        store_ok (n - length (filter recorded (snd k))) (snd (fst k)) \<and> records_held holds (snd k) (snd (fst k)))"

locale recording_source =
  fixes S :: "('w \<times> 'd) source_ops"
    and page_ok :: "window \<Rightarrow> page \<Rightarrow> bool"
    and store_ok :: "nat \<Rightarrow> 'd \<Rightarrow> bool"
    and holds :: "item \<Rightarrow> 'd \<Rightarrow> bool"
  assumes typed: "source_typed S"
    and list_keeps: "src_list S win (w, s) = ((w', s'), r) \<Longrightarrow> s' = s \<and> (\<forall>pg. r = Inr pg \<longrightarrow> page_ok win pg)"
    and record_holds: "store_ok (Suc n) s \<Longrightarrow> src_record S i (w, s) = ((w', s'), None) \<Longrightarrow>
      store_ok n s' \<and> holds i s' \<and> (\<forall>j. holds j s \<longrightarrow> holds j s')"
    and record_fails: "src_record S i (w, s) = ((w', s'), Some e) \<Longrightarrow> s' = s"
begin

lemma lists_keep:
  assumes "recording_inv page_ok store_ok holds n k" "src_list (logged S) win k = (k', r)"
  shows "recording_inv page_ok store_ok holds n k'"
proof -
  obtain w s l where k: "k = ((w, s), l)" by (metis surj_pair)
  obtain w1 s1 x where a: "src_list S win (w, s) = ((w1, s1), x)" by (metis surj_pair)
  have s: "s1 = s" and pg: "\<And>pg. x = Inr pg \<Longrightarrow> page_ok win pg" using list_keeps [OF a] by simp_all
  have "k' = ((w1, s), l) \<or> (\<exists>pg. x = Inr pg \<and> k' = ((w1, s), l @ [Listed win pg]))"
    using assms(2) a s by (auto simp: k logged_def split: sum.splits)
  then show ?thesis
    using assms(1) pg by (auto simp: recording_inv_def k pages_real_append records_held_append)
qed

lemma records_keep:
  assumes J: "recording_inv page_ok store_ok holds n k" and r: "src_record (logged S) i k = (k', err)"
  shows "recording_inv page_ok store_ok holds n k'"
proof -
  obtain w s l where k: "k = ((w, s), l)" by (metis surj_pair)
  obtain w1 s1 e where a: "src_record S i (w, s) = ((w1, s1), e)" by (metis surj_pair)
  let ?c = "length (filter recorded l)"
  show ?thesis
  proof (cases e)
    case (Some x)
    have "k' = ((w1, s), l)" using r a record_fails [OF a [unfolded Some]] by (simp add: k logged_def Some)
    with J show ?thesis by (simp add: recording_inv_def k)
  next
    case None
    have k': "k' = ((w1, s1), l @ [Recorded i])" using r a by (simp add: k logged_def None)
    have "store_ok (n - Suc ?c) s1 \<and> records_held holds (l @ [Recorded i]) s1" if "Suc ?c \<le> n"
    proof -
      have w: "store_ok (Suc (n - Suc ?c)) s" "records_held holds l s"
        using J that by (simp_all add: recording_inv_def k Suc_diff_Suc)
      from record_holds [OF w(1) a [unfolded None]] w(2) show ?thesis
        unfolding records_held_append by (auto simp: records_held_def)
    qed
    with J show ?thesis by (simp add: recording_inv_def k k' pages_real_append)
  qed
qed

lemma keeps: "source_keeps (logged S) (recording_inv page_ok store_ok holds n)"
  unfolding source_keeps_def using lists_keep records_keep by blast

text \<open>A run whose worker reports a complete history.\<close>

lemma complete_run:
  assumes "bolt_ok H" "bc_max_pending c \<le> 100000" "utf8_valid identity" "config_typed c"
    and "\<forall>e \<in> set es. env_ok (fst e)"
    and "load_progress H key identity d = Inr (zero_progress identity)"
    and "new_worker (history_ops H key identity c) c d = Inr w0"
    and "store_ok n s"
    and run: "run_history (history_ops H key identity c) (logged S) c retention es (w0, d, ((k, s), [])) =
           Some (w, d', ((k', s'), l))"
    and n: "length (filter recorded l) \<le> n" and complete: "\<not> history_incomplete w"
    and t: "zt_at (pr_start (wk_progress w)) \<le> t" "t < zt_at (pr_last_completed (wk_progress w))"
  shows "\<exists>(win :: window) pg. zt_at (w_start win) \<le> t \<and> t < zt_at (w_end win) \<and> page_ok win pg \<and> pg_complete pg \<and>
           (\<forall>i \<in> set (pg_items pg). holds i s')"
proof -
  have ok: "run_ok c S es" using assms(4,5) typed by (simp add: run_ok_def)
  from run_history_inv [OF fresh_worker_inv [OF assms(1-3,6,7)] ok, of retention "(k, s)"] run
  have inv: "worker_inv H key identity c l w d'" by fastforce
  have "recording_inv page_ok store_ok holds n ((k, s), [])"
    using assms(8) by (simp add: recording_inv_def pages_real_def records_held_def)
  from run_history_keeps [OF keeps this run] n
  have J: "pages_real page_ok l" "records_held holds l s'" by (simp_all add: recording_inv_def)
  from complete_covers [OF inv complete] t obtain win where
    win: "zt_at (w_start win) \<le> t" "t < zt_at (w_end win)" and "covered_but l win {}"
    unfolding walked_def by blast
  then obtain l1 pg l2 where "l = l1 @ Listed win pg # l2" "pg_complete pg" "\<forall>i \<in> set (pg_items pg). Recorded i \<in> set l2"
    unfolding covered_but_def by blast
  then have "Listed win pg \<in> set l" "pg_complete pg" "\<forall>i \<in> set (pg_items pg). Recorded i \<in> set l" by simp_all
  with J win show ?thesis unfolding pages_real_def records_held_def by blast
qed

end

end
