(* ===== verification/Ddae_Decode.thy ===== *)
theory Ddae_Decode
  imports Ddae_Types Go_Json "HOL-Library.Monad_Syntax"
begin

text \<open>
  The decoders of package \<open>internal/ddae\<close> (\<open>types.go\<close>, \<open>decodeBounded\<close> of \<open>client.go\<close>): the resource
  responses, whose layouts differ between versions of the appliance, and the tolerant decoder of the log
  list. A decoder works on the parsed value, so that the trimming of raw messages and the test of their
  first byte are the shape of the value; \<open>None\<close> is any error. A \<open>map[string]json.RawMessage\<close> is read with
  \<open>raw_key\<close> (exact names, the last member wins), a struct with \<open>un_field\<close> (names up to case folding).
\<close>

section \<open>Values\<close>

record resource_config =
  rc_cpu :: "bytes option"
  rc_memory :: "bytes option"

record raw_cluster =
  rw_id :: bytes
  rw_status :: bytes
  rw_coordinator :: resource_config
  rw_worker :: resource_config

record resource_quantities =
  rq_cpu :: "bytes option"
  rq_memory :: "bytes option"
  rq_storage :: "bytes option"

record node_condition =
  nc_type :: bytes
  nc_status :: bytes

record raw_node =
  rn_id :: bytes
  rn_state :: bytes
  rn_capacity :: resource_quantities
  rn_allocatable :: resource_quantities
  rn_conditions :: "node_condition list"

record bool_status =
  bs_value :: bool
  bs_valid :: bool

record power_response =
  pw_control_plane_ready :: "bool option"
  pw_nodes_ready :: "int option"
  pw_total_nodes :: "int option"

definition raw_key :: "(bytes \<times> json) list \<Rightarrow> bytes \<Rightarrow> json option" where
  "raw_key ms name = map_of (rev ms) name"

text \<open>A \<open>json.RawMessage\<close> field keeps the last member that reaches it.\<close>

definition raw_member :: "bytes \<Rightarrow> (bytes \<times> json) list \<Rightarrow> json option" where
  "raw_member name ms = (case un_field name (\<lambda>j _. Some (Some j)) ms None of Some r \<Rightarrow> r | None \<Rightarrow> None)"

definition missing_or_null :: "json option \<Rightarrow> bool" where
  "missing_or_null j \<longleftrightarrow> j = None \<or> j = Some JNull"

definition as_object :: "json \<Rightarrow> (bytes \<times> json) list option" where
  "as_object j = (case j of JObj ms \<Rightarrow> Some ms | _ \<Rightarrow> None)"

section \<open>Quantities\<close>

definition decode_optional_string :: "json \<Rightarrow> bytes option option" where
  "decode_optional_string j = (case j of JNull \<Rightarrow> Some None | JStr s \<Rightarrow> Some (Some s) | _ \<Rightarrow> None)"

definition decode_node_cpu :: "json \<Rightarrow> bytes option option" where
  "decode_node_cpu j =
     (case j of
        JStr s \<Rightarrow> Some (Some s)
      | JNum n \<Rightarrow> if list_all is_digit n then Some (Some n) else None
      | _ \<Rightarrow> None)"

definition zero_resources :: resource_config where
  "zero_resources = \<lparr>rc_cpu = None, rc_memory = None\<rparr>"

text \<open>The members a resource object is read from: nested under \<open>resources\<close>, or the object's own.\<close>

definition select_resources :: "(bytes \<times> json) list \<Rightarrow> (bytes \<times> json) list option" where
  "select_resources ms =
     (case raw_key ms ''resources'' of
        None \<Rightarrow> Some ms
      | Some nested \<Rightarrow>
          if raw_key ms ''cpu'' \<noteq> None \<or> raw_key ms ''memory'' \<noteq> None then None else as_object nested)"

definition decode_resources :: "json \<Rightarrow> resource_config option" where
  "decode_resources j =
     (if j = JNull then Some zero_resources
      else do {
        ms \<leftarrow> as_object j;
        fields \<leftarrow> select_resources ms;
        cpu \<leftarrow> (case raw_key fields ''cpu'' of
                  Some c \<Rightarrow> if c = JNull then Some None else decode_node_cpu c
                | None \<Rightarrow> Some None);
        memory \<leftarrow> (case raw_key fields ''memory'' of Some m \<Rightarrow> decode_optional_string m | None \<Rightarrow> Some None);
        Some \<lparr>rc_cpu = cpu, rc_memory = memory\<rparr>
      })"

definition zero_quantities :: resource_quantities where
  "zero_quantities = \<lparr>rq_cpu = None, rq_memory = None, rq_storage = None\<rparr>"

definition decode_key :: "(json \<Rightarrow> 'a option option) \<Rightarrow> (bytes \<times> json) list \<Rightarrow> bytes \<Rightarrow> 'a option option" where
  "decode_key f ms name = (case raw_key ms name of Some j \<Rightarrow> f j | None \<Rightarrow> Some None)"

definition decode_quantities :: "json \<Rightarrow> resource_quantities option" where
  "decode_quantities j =
     do {
       ms \<leftarrow> as_object j;
       cpu \<leftarrow> decode_key decode_node_cpu ms ''cpu'';
       memory \<leftarrow> decode_key decode_optional_string ms ''memory'';
       documented \<leftarrow> decode_key decode_optional_string ms ''ephemeralStorage'';
       legacy \<leftarrow> decode_key decode_optional_string ms ''ephemeral-storage'';
       let has_documented = (raw_key ms ''ephemeralStorage'' \<noteq> None);
       let has_legacy = (raw_key ms ''ephemeral-storage'' \<noteq> None);
       if has_documented \<and> has_legacy \<and> documented \<noteq> legacy then None
       else Some \<lparr>rq_cpu = cpu, rq_memory = memory,
                  rq_storage = (if has_documented then documented else legacy)\<rparr>
     }"

section \<open>Clusters and nodes\<close>

definition decode_cluster_status :: "json option \<Rightarrow> bytes option" where
  "decode_cluster_status raw =
     (if missing_or_null raw then Some []
      else case raw of
        Some (JObj ms) \<Rightarrow> do { s \<leftarrow> un_field ''status'' (\<lambda>j _. un_ptr un_string [] j) ms None; s }
      | Some j \<Rightarrow> un_string j []
      | None \<Rightarrow> None)"

definition decode_cluster :: "json \<Rightarrow> raw_cluster option" where
  "decode_cluster j =
     do {
       ms \<leftarrow> as_object j;
       i \<leftarrow> un_field ''id'' un_string ms [];
       coordinator \<leftarrow> un_field ''coordinator'' (\<lambda>j _. decode_resources j) ms zero_resources;
       worker \<leftarrow> un_field ''worker'' (\<lambda>j _. decode_resources j) ms zero_resources;
       status \<leftarrow> decode_cluster_status (raw_member ''clusterStatus'' ms);
       Some \<lparr>rw_id = i, rw_status = status, rw_coordinator = coordinator, rw_worker = worker\<rparr>
     }"

definition decode_cluster_list :: "json \<Rightarrow> raw_cluster list option" where
  "decode_cluster_list j =
     (case (case j of JObj ms \<Rightarrow> raw_member ''results'' ms | _ \<Rightarrow> Some j) of
        Some (JArr items) \<Rightarrow> un_list decode_cluster items
      | _ \<Rightarrow> None)"

definition zero_condition :: node_condition where
  "zero_condition = \<lparr>nc_type = [], nc_status = []\<rparr>"

definition decode_condition :: "json \<Rightarrow> node_condition option" where
  "decode_condition j =
     (if j = JNull then Some zero_condition
      else do {
        ms \<leftarrow> as_object j;
        t \<leftarrow> un_field ''type'' un_string ms [];
        s \<leftarrow> un_field ''status'' un_string ms [];
        Some \<lparr>nc_type = t, nc_status = s\<rparr>
      })"

definition condition_of :: "(bytes \<times> json) list \<Rightarrow> bytes \<times> bytes \<Rightarrow> node_condition list option" where
  "condition_of ms field =
     (case raw_key ms (fst field) of
        None \<Rightarrow> Some []
      | Some raw \<Rightarrow>
          do {
            status \<leftarrow> decode_optional_string raw;
            Some [\<lparr>nc_type = snd field, nc_status = (case status of Some s \<Rightarrow> s | None \<Rightarrow> [])\<rparr>]
          })"

definition decode_conditions :: "json option \<Rightarrow> node_condition list option" where
  "decode_conditions raw =
     (if missing_or_null raw then Some []
      else case raw of
        Some (JArr items) \<Rightarrow> un_list decode_condition items
      | Some (JObj ms) \<Rightarrow>
          do {
            disk \<leftarrow> condition_of ms (''diskPressure'', ''DiskPressure'');
            memory \<leftarrow> condition_of ms (''memoryPressure'', ''MemoryPressure'');
            Some (disk @ memory)
          }
      | _ \<Rightarrow> None)"

definition decode_node :: "json \<Rightarrow> raw_node option" where
  "decode_node j =
     do {
       ms \<leftarrow> as_object j;
       i \<leftarrow> un_field ''id'' un_string ms [];
       state \<leftarrow> un_field ''state'' un_string ms [];
       capacity \<leftarrow> un_field ''capacity'' (\<lambda>j _. decode_quantities j) ms zero_quantities;
       allocatable \<leftarrow> un_field ''allocatable'' (\<lambda>j _. decode_quantities j) ms zero_quantities;
       conditions \<leftarrow> decode_conditions (raw_member ''conditions'' ms);
       Some \<lparr>rn_id = i, rn_state = state, rn_capacity = capacity, rn_allocatable = allocatable,
             rn_conditions = conditions\<rparr>
     }"

definition decode_node_list :: "json \<Rightarrow> raw_node list option" where
  "decode_node_list j =
     (case j of
        JArr items \<Rightarrow> un_list decode_node items
      | JObj ms \<Rightarrow>
          (case raw_key ms ''results'' of Some (JArr items) \<Rightarrow> un_list decode_node items | _ \<Rightarrow> None)
      | _ \<Rightarrow> None)"

section \<open>Ping, lock and power\<close>

definition decode_ping :: "json \<Rightarrow> bytes option" where
  "decode_ping j = (case j of JNull \<Rightarrow> Some [] | JObj ms \<Rightarrow> un_field ''status'' un_string ms [] | _ \<Rightarrow> None)"

definition decode_bool_status :: "json \<Rightarrow> bool_status option" where
  "decode_bool_status j =
     (case j of
        JBool b \<Rightarrow> Some \<lparr>bs_value = b, bs_valid = True\<rparr>
      | JStr s \<Rightarrow>
          if to_lower s = ''locked'' \<or> to_lower s = ''true'' then Some \<lparr>bs_value = True, bs_valid = True\<rparr>
          else if to_lower s = ''unlocked'' \<or> to_lower s = ''false'' then Some \<lparr>bs_value = False, bs_valid = True\<rparr>
          else None
      | _ \<Rightarrow> None)"

definition decode_lock :: "json \<Rightarrow> bool_status option" where
  "decode_lock j =
     (case j of
        JNull \<Rightarrow> Some \<lparr>bs_value = False, bs_valid = False\<rparr>
      | JObj ms \<Rightarrow> un_field ''status'' (\<lambda>j _. decode_bool_status j) ms \<lparr>bs_value = False, bs_valid = False\<rparr>
      | _ \<Rightarrow> None)"

definition opt_int :: "bytes \<Rightarrow> (bytes \<times> json) list \<Rightarrow> int option option" where
  "opt_int name ms = un_field name (\<lambda>j _. un_ptr un_int64 0 j) ms None"

definition opt_string :: "bytes \<Rightarrow> (bytes \<times> json) list \<Rightarrow> bytes option option" where
  "opt_string name ms = un_field name (\<lambda>j _. un_ptr un_string [] j) ms None"

definition decode_power :: "json \<Rightarrow> power_response option" where
  "decode_power j =
     do {
       ms \<leftarrow> (if j = JNull then Some [] else as_object j);
       ready \<leftarrow> un_field ''controlPlaneReady'' (\<lambda>j _. un_ptr un_bool False j) ms None;
       nodes \<leftarrow> opt_int ''nodesReady'' ms;
       total \<leftarrow> opt_int ''totalNodes'' ms;
       Some \<lparr>pw_control_plane_ready = ready, pw_nodes_ready = nodes, pw_total_nodes = total\<rparr>
     }"

section \<open>Lists and details of alerts and logs\<close>

definition decode_list_item :: "json \<Rightarrow> alert_list_item option" where
  "decode_list_item j =
     do {
       ms \<leftarrow> (if j = JNull then Some [] else as_object j);
       i \<leftarrow> un_field ''id'' un_string ms [];
       updated \<leftarrow> opt_string ''updatedon'' ms;
       Some \<lparr>li_id = i, li_updated_on = updated\<rparr>
     }"

definition decode_alert_list :: "json \<Rightarrow> alert_list option" where
  "decode_alert_list j =
     do {
       ms \<leftarrow> (if j = JNull then Some [] else as_object j);
       results \<leftarrow> un_field ''results'' (\<lambda>j _. un_slice decode_list_item j) ms [];
       threshold \<leftarrow> opt_int ''threshold'' ms;
       total \<leftarrow> opt_int ''totalRecords'' ms;
       Some \<lparr>al_results = results, al_threshold = threshold, al_total_records = total\<rparr>
     }"

text \<open>The list of logs is read member by member: what cannot be read only marks the list as malformed.\<close>

definition read_optional_int :: "json option \<Rightarrow> int option \<times> bool" where
  "read_optional_int raw =
     (case raw of None \<Rightarrow> (None, True)
      | Some j \<Rightarrow> (case un_int64 j 0 of Some n \<Rightarrow> (Some n, True) | None \<Rightarrow> (None, False)))"

definition decode_log_list :: "json \<Rightarrow> log_list option" where
  "decode_log_list j =
     do {
       ms \<leftarrow> (if j = JNull then Some [] else as_object j);
       let results = raw_member ''results'' ms;
       let threshold = raw_member ''threshold'' ms;
       let total = raw_member ''totalRecords'' ms;
       let (items, results_ok) =
         (case results of
            Some (JArr xs) \<Rightarrow> (List.map_filter decode_list_item xs, \<forall>x \<in> set xs. decode_list_item x \<noteq> None)
          | _ \<Rightarrow> ([], False));
       let (threshold_value, threshold_ok) =
         (if missing_or_null threshold then (None, True) else read_optional_int threshold);
       let (total_value, total_ok) =
         (if missing_or_null total then (None, False) else read_optional_int total);
       Some \<lparr>ll_results = items, ll_threshold = threshold_value, ll_total_records = total_value,
             ll_malformed = (\<not> (results_ok \<and> threshold_ok \<and> total_ok))\<rparr>
     }"

definition un_texts :: "json \<Rightarrow> bytes list option" where
  "un_texts j = un_slice (\<lambda>j. un_string j []) j"

definition decode_log_detail :: "json \<Rightarrow> log_detail option" where
  "decode_log_detail j =
     do {
       ms \<leftarrow> (if j = JNull then Some [] else as_object j);
       i \<leftarrow> un_field ''id'' un_string ms [];
       ty \<leftarrow> opt_string ''type'' ms;
       acknowledged \<leftarrow> opt_string ''acknowledged'' ms;
       count \<leftarrow> opt_int ''count'' ms;
       created \<leftarrow> opt_string ''createdon'' ms;
       updated \<leftarrow> opt_string ''updatedon'' ms;
       app_name \<leftarrow> opt_string ''appname'' ms;
       component \<leftarrow> opt_string ''component'' ms;
       namespace \<leftarrow> opt_string ''namespace'' ms;
       message \<leftarrow> opt_string ''message'' ms;
       reason \<leftarrow> opt_string ''reason'' ms;
       remedies \<leftarrow> un_field ''remedies'' (\<lambda>j _. un_texts j) ms [];
       resource \<leftarrow> opt_string ''resourceID'' ms;
       symptom \<leftarrow> opt_string ''symptomid'' ms;
       related \<leftarrow> opt_string ''related'' ms;
       Some \<lparr>ld_id = i, ld_type = ty, ld_acknowledged = acknowledged, ld_count = count, ld_created_on = created,
             ld_updated_on = updated, ld_app_name = app_name, ld_component = component, ld_namespace = namespace,
             ld_message = message, ld_reason = reason, ld_remedies = remedies, ld_resource_id = resource,
             ld_symptom_id = symptom, ld_related = related\<rparr>
     }"

definition decode_related :: "json \<Rightarrow> related_raw option" where
  "decode_related j =
     do {
       ms \<leftarrow> (if j = JNull then Some [] else as_object j);
       ty \<leftarrow> opt_string ''type'' ms;
       acknowledged \<leftarrow> opt_string ''acknowledged'' ms;
       count \<leftarrow> opt_int ''count'' ms;
       created \<leftarrow> opt_string ''createdon'' ms;
       updated \<leftarrow> opt_string ''updatedon'' ms;
       clear_type \<leftarrow> opt_string ''clearType'' ms;
       timeout \<leftarrow> opt_int ''autoClearTimeOut'' ms;
       app_name \<leftarrow> opt_string ''appname'' ms;
       component \<leftarrow> opt_string ''component'' ms;
       namespace \<leftarrow> opt_string ''namespace'' ms;
       message \<leftarrow> opt_string ''message'' ms;
       reason \<leftarrow> opt_string ''reason'' ms;
       remedies \<leftarrow> un_field ''remedies'' (\<lambda>j _. un_texts j) ms [];
       resource \<leftarrow> opt_string ''resourceID'' ms;
       symptom \<leftarrow> opt_string ''symptomid'' ms;
       related \<leftarrow> opt_string ''related'' ms;
       Some \<lparr>rr_type = ty, rr_acknowledged = acknowledged, rr_count = count, rr_created_on = created,
             rr_updated_on = updated, rr_clear_type = clear_type, rr_auto_clear_timeout = timeout,
             rr_app_name = app_name, rr_component = component, rr_namespace = namespace, rr_message = message,
             rr_reason = reason, rr_remedies = remedies, rr_resource_id = resource, rr_symptom_id = symptom,
             rr_related = related\<rparr>
     }"

definition decode_alert_detail :: "json \<Rightarrow> alert_detail option" where
  "decode_alert_detail j =
     do {
       ms \<leftarrow> (if j = JNull then Some [] else as_object j);
       i \<leftarrow> un_field ''id'' un_string ms [];
       r \<leftarrow> decode_related j;
       events \<leftarrow> un_field ''events'' (\<lambda>j _. un_slice decode_related j) ms [];
       Some \<lparr>ad_id = i, ad_type = rr_type r, ad_acknowledged = rr_acknowledged r, ad_count = rr_count r,
             ad_created_on = rr_created_on r, ad_updated_on = rr_updated_on r, ad_clear_type = rr_clear_type r,
             ad_auto_clear_timeout = rr_auto_clear_timeout r, ad_app_name = rr_app_name r,
             ad_component = rr_component r, ad_namespace = rr_namespace r, ad_message = rr_message r,
             ad_reason = rr_reason r, ad_remedies = rr_remedies r, ad_resource_id = rr_resource_id r,
             ad_symptom_id = rr_symptom_id r, ad_related = rr_related r, ad_events = events\<rparr>
     }"

section \<open>A bounded body\<close>

text \<open>
  \<open>decodeBounded\<close> on the body that was read: nothing of a body longer than the limit is decoded, and after
  the value only white space may follow.
\<close>

definition max_response_body :: int where "max_response_body = 67108864"

definition decode_bounded :: "(json \<Rightarrow> 'a option) \<Rightarrow> int \<Rightarrow> bytes \<Rightarrow> 'a option" where
  "decode_bounded f limit body =
     (if limit < 1 \<or> limit > max_response_body then None
      else if int (length body) > limit then None
      else do { j \<leftarrow> json_parse body; f j })"

section \<open>What the decoders reject\<close>

lemma un_list_length: "un_list f xs = Some ys \<Longrightarrow> length ys = length xs"
  by (induction xs arbitrary: ys) (auto split: option.splits)

lemma mixed_layout_rejected:
  assumes "raw_key ms ''resources'' \<noteq> None" "raw_key ms ''cpu'' \<noteq> None \<or> raw_key ms ''memory'' \<noteq> None"
  shows "decode_resources (JObj ms) = None"
  using assms by (auto simp: decode_resources_def as_object_def select_resources_def)

lemma conflicting_storage_rejected:
  assumes "raw_key ms ''ephemeralStorage'' = Some (JStr a)" "raw_key ms ''ephemeral-storage'' = Some (JStr b)" "a \<noteq> b"
  shows "decode_quantities (JObj ms) = None"
  using assms by (auto simp: decode_quantities_def as_object_def decode_key_def decode_optional_string_def
      split: Option.bind_split)

text \<open>A well-formed list of logs lost none of the items of the response.\<close>

lemma map_filter_all:
  "\<forall>x \<in> set xs. f x \<noteq> None \<Longrightarrow> length (List.map_filter f xs) = length xs"
  by (induction xs) (auto simp: List.map_filter_simps)

lemma well_formed_log_list:
  assumes "decode_log_list (JObj ms) = Some l" "\<not> ll_malformed l"
  shows "\<exists>xs n. raw_member ''results'' ms = Some (JArr xs) \<and> length (ll_results l) = length xs \<and>
     ll_total_records l = Some n"
proof -
  from assms obtain xs where x: "raw_member ''results'' ms = Some (JArr xs)"
    by (cases "raw_member ''results'' ms")
       (auto simp: decode_log_list_def as_object_def Let_def split: json.splits prod.splits if_splits)
  with assms show ?thesis
    by (auto simp: decode_log_list_def as_object_def Let_def read_optional_int_def map_filter_all missing_or_null_def
        split: prod.splits if_splits option.splits)
qed

end
