(* ===== verification/Go_Url.thy ===== *)
theory Go_Url
  imports Go_Strings
begin

text \<open>
  The parts of package \<open>net/url\<close> that build a request: \<open>PathEscape\<close>, \<open>QueryEscape\<close> and \<open>Values.Encode\<close>. An
  escaped path segment is one segment, and decoding its percent signs gives the segment back.
\<close>

definition is_unreserved :: "char \<Rightarrow> bool" where
  "is_unreserved c \<longleftrightarrow> is_lower c \<or> is_upper c \<or> is_digit c \<or> c \<in> set ''-_.~''"

definition segment_plain :: "char \<Rightarrow> bool" where
  "segment_plain c \<longleftrightarrow> is_unreserved c \<or> c \<in> set ''$&+:=@''"

definition upper_hex :: "nat \<Rightarrow> char" where
  "upper_hex n = (if n < 10 then chr (48 + n) else chr (55 + n))"

definition percent :: "char \<Rightarrow> bytes" where
  "percent c = [CHR ''%'', upper_hex (byte c div 16), upper_hex (byte c mod 16)]"

definition path_escape :: "bytes \<Rightarrow> bytes" where
  "path_escape s = concat (map (\<lambda>c. if segment_plain c then [c] else percent c) s)"

definition query_escape :: "bytes \<Rightarrow> bytes" where
  "query_escape s =
     concat (map (\<lambda>c. if is_unreserved c then [c] else if c = CHR '' '' then ''+'' else percent c) s)"

text \<open>\<open>Values.Encode\<close> of single-valued parameters, given in the order of their names.\<close>

fun encode_values :: "(bytes \<times> bytes) list \<Rightarrow> bytes" where
  "encode_values [] = []"
| "encode_values [(k, v)] = query_escape k @ ''='' @ query_escape v"
| "encode_values ((k, v) # p # ps) = query_escape k @ ''='' @ query_escape v @ ''&'' @ encode_values (p # ps)"

definition hex_value :: "char \<Rightarrow> nat option" where
  "hex_value c =
     (if is_digit c then Some (byte c - 48)
      else if 65 \<le> byte c \<and> byte c \<le> 70 then Some (byte c - 55)
      else if 97 \<le> byte c \<and> byte c \<le> 102 then Some (byte c - 87) else None)"

text \<open>\<open>PathUnescape\<close>.\<close>

fun path_unescape :: "bytes \<Rightarrow> bytes option" where
  "path_unescape [] = Some []"
| "path_unescape (c # s) =
     (if c \<noteq> CHR ''%'' then map_option ((#) c) (path_unescape s)
      else case s of
             a # b # t \<Rightarrow>
               (case (hex_value a, hex_value b) of
                  (Some x, Some y) \<Rightarrow> map_option ((#) (chr (16 * x + y))) (path_unescape t)
                | _ \<Rightarrow> None)
           | _ \<Rightarrow> None)"

lemma hex_value_upper [simp]: "n < 16 \<Longrightarrow> hex_value (upper_hex n) = Some n"
  by (auto simp: hex_value_def upper_hex_def is_digit_def)

lemma byte_halves: "byte c div 16 < 16" "byte c mod 16 < 16" "16 * (byte c div 16) + byte c mod 16 = byte c"
  using byte_less [of c] by (auto simp del: byte_less)

lemma path_unescape_percent: "path_unescape (percent c @ s) = map_option ((#) c) (path_unescape s)"
  using byte_halves [of c] by (simp add: percent_def)

lemma reserved_not_plain:
  "\<not> segment_plain (CHR ''%'')" "\<not> segment_plain (CHR ''/'')" "\<not> segment_plain (CHR ''?'')"
  "\<not> segment_plain (CHR ''#'')"
  by (simp_all add: segment_plain_def is_unreserved_def is_lower_def is_upper_def is_digit_def byte_def)

lemma path_unescape_plain: "segment_plain c \<Longrightarrow> path_unescape (c # s) = map_option ((#) c) (path_unescape s)"
  using reserved_not_plain(1) by (auto simp: path_unescape.simps(2))

lemma path_unescape_escape: "path_unescape (path_escape s) = Some s"
proof (induction s)
  case (Cons c s)
  have "path_escape (c # s) = (if segment_plain c then [c] else percent c) @ path_escape s" by (simp add: path_escape_def)
  then show ?case using Cons path_unescape_plain [of c "path_escape s"] path_unescape_percent [of c "path_escape s"] by simp
qed (simp add: path_escape_def)

lemma upper_hex_plain: "n < 16 \<Longrightarrow> segment_plain (upper_hex n)"
  by (auto simp: upper_hex_def segment_plain_def is_unreserved_def is_digit_def is_upper_def)

lemma path_escape_plain: "c \<in> set (path_escape s) \<Longrightarrow> segment_plain c \<or> c = CHR ''%''"
  using byte_halves(1,2) by (auto simp: path_escape_def percent_def upper_hex_plain split: if_splits)

lemma path_escape_segment: "CHR ''/'' \<notin> set (path_escape s)" "CHR ''?'' \<notin> set (path_escape s)"
    "CHR ''#'' \<notin> set (path_escape s)"
  using path_escape_plain [of "CHR ''/''" s] path_escape_plain [of "CHR ''?''" s] path_escape_plain [of "CHR ''#''" s]
    reserved_not_plain by auto

lemma path_escape_id: "list_all segment_plain s \<Longrightarrow> path_escape s = s"
  by (induction s) (auto simp: path_escape_def)

end
