(* ===== verification/Ddae_Client.thy ===== *)
theory Ddae_Client
  imports Ddae_Decode Config_Example Go_Url Go_Zoned
begin

text \<open>
  Package \<open>internal/ddae\<close>, the client: the route set and the allow list (\<open>allowlist.go\<close>), the tokens
  (\<open>auth.go\<close>) and the requests with their retries (\<open>client.go\<close>). The network is a record of three operations
  on a world: send a request, wait between attempts (false when the context ends), read the clock. Calls are
  sequential here; \<open>Token_Flight\<close> treats goroutines that share the token manager.
\<close>

section \<open>Routes\<close>

record route_set =
  rt_ping :: bytes
  rt_clusters :: bytes
  rt_nodes :: bytes
  rt_lock :: bytes
  rt_power :: bytes
  rt_alert_list :: bytes
  rt_alert_detail :: bytes
  rt_log_list :: bytes
  rt_log_detail :: bytes

record operation =
  op_collector :: bytes
  op_method :: bytes
  op_path :: bytes

definition token_path :: bytes where
  "token_path = ''/auth/realms/ddae/protocol/openid-connect/token''"

definition route_set_for_prefixes :: "bytes \<Rightarrow> bytes \<Rightarrow> go_error + route_set" where
  "route_set_for_prefixes ping api =
     bindE (wrapE ''DDAE Ping path prefix is invalid'' (validate_path_prefix ping)) (\<lambda>_.
     bindE (wrapE ''DDAE API path prefix is invalid'' (validate_path_prefix api)) (\<lambda>_.
     Inr \<lparr>rt_ping = ping @ ''/ping'',
          rt_clusters = api @ ''/ddae-clusters'',
          rt_nodes = api @ ''/infrastructure-nodes'',
          rt_lock = api @ ''/system-lock'',
          rt_power = api @ ''/system-shutdown'',
          rt_alert_list = api @ ''/serviceability-issues'',
          rt_alert_detail = api @ ''/serviceability-issues/'',
          rt_log_list = api @ ''/serviceability-events'',
          rt_log_detail = api @ ''/serviceability-events/''\<rparr>))"

definition get_operation :: "bytes \<Rightarrow> bytes \<Rightarrow> operation" where
  "get_operation name path = \<lparr>op_collector = name, op_method = ''GET'', op_path = path\<rparr>"

definition operations :: "route_set \<Rightarrow> operation list" where
  "operations r =
     [get_operation ''ping'' (rt_ping r),
      get_operation ''clusters'' (rt_clusters r),
      get_operation ''nodes'' (rt_nodes r),
      get_operation ''lock'' (rt_lock r),
      get_operation ''power'' (rt_power r),
      get_operation ''alert_list'' (rt_alert_list r),
      get_operation ''alert_detail'' (rt_alert_detail r @ ''{id}''),
      get_operation ''serviceability_log_list'' (rt_log_list r),
      get_operation ''serviceability_log_detail'' (rt_log_detail r @ ''{id}'')]"

definition approved_operations_for :: "bytes \<Rightarrow> bytes \<Rightarrow> go_error + operation list" where
  "approved_operations_for ping api = bindE (route_set_for_prefixes ping api) (\<lambda>r. Inr (operations r))"

text \<open>\<open>ApprovedOperations\<close>; \<open>None\<close> stands for the panic.\<close>

definition approved_operations :: "operation list option" where
  "approved_operations = (case approved_operations_for [] ''/v1'' of Inr ops \<Rightarrow> Some ops | Inl _ \<Rightarrow> None)"

section \<open>The client and the network\<close>

record ddae_client =
  dc_base :: url
  dc_routes :: route_set
  dc_limit :: int
  dc_list_limit :: int
  dc_detail_limit :: int
  dc_log_list_limit :: int
  dc_log_detail_limit :: int
  dc_retry_max :: int
  dc_username :: secret
  dc_password :: secret
  dc_client_secret :: secret

text \<open>
  \<open>NewClient\<close>; \<open>tls\<close> is what \<open>tlsConfig\<close> finds out about the file of authorities. A missing base URL is a nil
  pointer that \<open>cloneURL\<close> would follow.
\<close>

definition new_client :: "(bytes \<Rightarrow> go_error option) \<Rightarrow> config \<Rightarrow> go_error + ddae_client" where
  "new_client tls c =
     (let m = cf_modes c; t = cf_target c; g = cf_timing c in
      bindE (guardE (\<not> (md_ddae_insecure m \<and> \<not> md_allow_insecure m))
               (Plain ''DDAE insecure TLS requires the global acknowledgement'')) (\<lambda>_.
      bindE (guardE (\<not> (md_ddae_insecure m \<and> tg_ca_file t \<noteq> []))
               (Plain ''DDAE custom CA conflicts with insecure TLS'')) (\<lambda>_.
      bindE (route_set_for_prefixes (tg_ping_prefix t) (tg_api_prefix t)) (\<lambda>r.
      bindE (case tls (tg_ca_file t) of None \<Rightarrow> Inr () | Some e \<Rightarrow> Inl e) (\<lambda>_.
      case tg_base_url t of
        None \<Rightarrow> Inl (Plain ''nil pointer dereference'')
      | Some u \<Rightarrow>
          Inr \<lparr>dc_base = u, dc_routes = r, dc_limit = tm_response_max g,
               dc_list_limit = dl_list_max (cf_alert_details c), dc_detail_limit = dl_detail_max (cf_alert_details c),
               dc_log_list_limit = dl_list_max (cf_log_details c), dc_log_detail_limit = dl_detail_max (cf_log_details c),
               dc_retry_max = tm_retry_max g, dc_username = tg_username t, dc_password = tg_password t,
               dc_client_secret = tg_client_secret t\<rparr>)))))"

record http_request =
  hq_method :: bytes
  hq_host :: bytes
  hq_path :: bytes
  hq_raw_path :: bytes
  hq_query :: bytes
  hq_bearer :: "bytes option"
  hq_form :: bytes

text \<open>
  An answer: the request failed (was the deadline over, was it the certificate or the TLS record), or a
  status with the body, \<open>None\<close> if reading it failed.
\<close>

datatype http_answer = Failed bool bool | Answer nat "bytes option"

record 'w network =
  nw_send :: "http_request \<Rightarrow> 'w \<Rightarrow> http_answer \<times> 'w"
  nw_wait :: "go_duration \<Rightarrow> 'w \<Rightarrow> bool \<times> 'w"
  nw_now :: "'w \<Rightarrow> go_time \<times> 'w"

definition transport_failure_class :: "bool \<Rightarrow> bool \<Rightarrow> fclass" where
  "transport_failure_class deadline tls =
     (if deadline then ClassTimeout else if tls then ClassTLS else ClassTransport)"

text \<open>\<open>waitBackoff\<close>; the jitter of less than a tenth of a second is added by the network.\<close>

definition wait_backoff :: "'w network \<Rightarrow> nat \<Rightarrow> 'w \<Rightarrow> bool \<times> 'w" where
  "wait_backoff N attempt w = nw_wait N (100000000 * 2 ^ min attempt 5) w"

definition status_error :: "fclass \<Rightarrow> bytes \<Rightarrow> nat \<Rightarrow> go_error" where
  "status_error c op status =
     Classified c (op @ (if status \<noteq> 0 then '' failed with HTTP status '' @ show_nat status else '' failed''))"

definition success_status :: "nat \<Rightarrow> bool" where
  "success_status s \<longleftrightarrow> 200 \<le> s \<and> s < 300"

definition transient_class :: "go_error \<Rightarrow> bool" where
  "transient_class e \<longleftrightarrow> errors_as_class e = Some ClassTimeout \<or> errors_as_class e = Some ClassTransport"

definition retryable :: "nat \<Rightarrow> go_error \<Rightarrow> bool" where
  "retryable status e \<longleftrightarrow>
     (status = 0 \<and> transient_class e) \<or> status = 429 \<or> status = 502 \<or> status = 503 \<or> status = 504"

definition token_retryable :: "nat \<Rightarrow> go_error \<Rightarrow> bool" where
  "token_retryable status e \<longleftrightarrow>
     status = 429 \<or> (500 \<le> status \<and> status \<le> 599) \<or> (status = 0 \<and> transient_class e)"

section \<open>Tokens\<close>

record token_manager =
  tk_token :: bytes
  tk_refresh_at :: go_time
  tk_generation :: u64

record token_lease =
  le_token :: bytes
  le_generation :: u64

definition new_tokens :: token_manager where
  "new_tokens = \<lparr>tk_token = [], tk_refresh_at = zero_time, tk_generation = 0\<rparr>"

definition un_number :: "json \<Rightarrow> bytes \<Rightarrow> bytes option" where
  "un_number j cur =
     (case j of
        JNum n \<Rightarrow> Some n
      | JStr s \<Rightarrow> (case scan_num s of Some (_, []) \<Rightarrow> Some s | _ \<Rightarrow> None)
      | JNull \<Rightarrow> Some cur
      | _ \<Rightarrow> None)"

definition decode_token :: "json \<Rightarrow> (bytes \<times> bytes) option" where
  "decode_token j =
     do {
       ms \<leftarrow> (if j = JNull then Some [] else as_object j);
       token \<leftarrow> un_field ''access_token'' un_string ms [];
       expires \<leftarrow> un_field ''expires_in'' un_number ms [];
       Some (token, expires)
     }"

text \<open>Go's division truncates, and the products of durations wrap.\<close>

definition refresh_time :: "go_time \<Rightarrow> bytes \<Rightarrow> go_time" where
  "refresh_time now expires =
     (case parse_int64 expires of
        None \<Rightarrow> zero_time
      | Some seconds \<Rightarrow>
          if seconds \<le> 0 then zero_time
          else
            let lifetime = wrap64 (seconds * 1000000000);
                tenths = wrap64 (lifetime * 8);
                refresh = now + (if 0 \<le> tenths then tenths div 10 else - ((- tenths) div 10));
                before = now + wrap64 (lifetime - 60000000000)
            in if before > now \<and> before < refresh then before else refresh)"

definition token_body_limit :: int where "token_body_limit = 65536"

definition token_form :: "ddae_client \<Rightarrow> bytes" where
  "token_form c =
     encode_values [(''client_id'', ''dv-admin-rest''), (''client_secret'', dc_client_secret c),
       (''grant_type'', ''password''), (''password'', dc_password c), (''username'', dc_username c)]"

definition token_call :: "ddae_client \<Rightarrow> http_request" where
  "token_call c =
     \<lparr>hq_method = ''POST'', hq_host = ur_host (dc_base c), hq_path = token_path, hq_raw_path = ur_raw_path (dc_base c),
      hq_query = ur_raw_query (dc_base c), hq_bearer = None, hq_form = token_form c\<rparr>"

text \<open>One request for a token: the error with the status, or the token and when to refresh it.\<close>

definition token_request ::
  "'w network \<Rightarrow> ddae_client \<Rightarrow> 'w \<Rightarrow> (go_error \<times> nat + bytes \<times> go_time) \<times> 'w" where
  "token_request N c w =
     (case nw_send N (token_call c) w of
        (Failed deadline tls, w1) \<Rightarrow>
          (Inl (status_error (transport_failure_class deadline tls) ''token'' 0, 0), w1)
      | (Answer status body, w1) \<Rightarrow>
          if \<not> success_status status then
            (Inl (status_error (if status = 400 \<or> status = 401 \<or> status = 403 then ClassAuth else ClassHTTP)
                    ''token'' status, status), w1)
          else
            (case Option.bind body (decode_bounded decode_token token_body_limit) of
               None \<Rightarrow> (Inl (status_error ClassDecode ''token'' 0, status), w1)
             | Some (token, expires) \<Rightarrow>
                 if token = [] \<or> contains_any token [chr 13, chr 10, chr 0]
                 then (Inl (status_error ClassDecode ''token'' 0, status), w1)
                 else (case nw_now N w1 of (now, w2) \<Rightarrow> (Inr (token, refresh_time now expires), w2))))"

text \<open>\<open>requestWithRetry\<close>: the attempts left and the number of the next one.\<close>

fun token_attempts ::
  "'w network \<Rightarrow> ddae_client \<Rightarrow> nat \<Rightarrow> nat \<Rightarrow> 'w \<Rightarrow> (go_error + bytes \<times> go_time) \<times> 'w" where
  "token_attempts N c 0 attempt w = (Inl (status_error ClassInternal ''token'' 0), w)"
| "token_attempts N c (Suc left) attempt w =
     (case token_request N c w of
        (Inr r, w1) \<Rightarrow> (Inr r, w1)
      | (Inl (e, status), w1) \<Rightarrow>
          if \<not> token_retryable status e \<or> left = 0 then (Inl e, w1)
          else (case wait_backoff N attempt w1 of
                  (False, w2) \<Rightarrow> (Inl (status_error ClassTimeout ''token'' 0), w2)
                | (True, w2) \<Rightarrow> token_attempts N c left (Suc attempt) w2))"

definition attempts :: "ddae_client \<Rightarrow> nat" where
  "attempts c = nat (dc_retry_max c + 1)"

definition token_usable :: "go_time \<Rightarrow> u64 \<Rightarrow> token_manager \<Rightarrow> bool" where
  "token_usable now rejected m \<longleftrightarrow>
     tk_token m \<noteq> [] \<and> (is_zero (tk_refresh_at m) \<or> now < tk_refresh_at m) \<and>
     (rejected = 0 \<or> tk_generation m > rejected)"

definition token_get ::
  "'w network \<Rightarrow> ddae_client \<Rightarrow> u64 \<Rightarrow> token_manager \<Rightarrow> 'w \<Rightarrow> (go_error + token_lease) \<times> token_manager \<times> 'w" where
  "token_get N c rejected m w =
     (case nw_now N w of
        (now, w1) \<Rightarrow>
          if token_usable now rejected m
          then (Inr \<lparr>le_token = tk_token m, le_generation = tk_generation m\<rparr>, m, w1)
          else
            (case token_attempts N c (attempts c) 0 w1 of
               (Inl e, w2) \<Rightarrow> (Inl e, m, w2)
             | (Inr (token, refresh), w2) \<Rightarrow>
                 let g = tk_generation m + 1
                 in (Inr \<lparr>le_token = token, le_generation = g\<rparr>,
                     \<lparr>tk_token = token, tk_refresh_at = refresh, tk_generation = g\<rparr>, w2)))"

section \<open>Requests\<close>

definition get_call :: "ddae_client \<Rightarrow> bytes \<Rightarrow> bytes \<Rightarrow> (bytes \<times> bytes) list option \<Rightarrow> bytes \<Rightarrow> http_request" where
  "get_call c path raw query token =
     \<lparr>hq_method = ''GET'', hq_host = ur_host (dc_base c), hq_path = path, hq_raw_path = raw,
      hq_query = (case query of None \<Rightarrow> ur_raw_query (dc_base c) | Some vs \<Rightarrow> encode_values vs),
      hq_bearer = Some token, hq_form = []\<rparr>"

text \<open>\<open>doGET\<close>: the status and the error or the decoded body.\<close>

definition do_get ::
  "'w network \<Rightarrow> bytes \<Rightarrow> http_request \<Rightarrow> int \<Rightarrow> (json \<Rightarrow> 'a option) \<Rightarrow> 'w \<Rightarrow> (nat \<times> (go_error + 'a)) \<times> 'w" where
  "do_get N op rq limit dec w =
     (case nw_send N rq w of
        (Failed deadline tls, w1) \<Rightarrow> ((0, Inl (status_error (transport_failure_class deadline tls) op 0)), w1)
      | (Answer status body, w1) \<Rightarrow>
          if \<not> success_status status then
            ((status, Inl (status_error (if status = 401 \<or> status = 403 then ClassAuth else ClassHTTP) op status)), w1)
          else
            (case Option.bind body (decode_bounded dec limit) of
               None \<Rightarrow> ((status, Inl (status_error ClassDecode op 0)), w1)
             | Some x \<Rightarrow> ((status, Inr x), w1)))"

text \<open>
  The loop of \<open>getJSONRawPath\<close>: the request as a function of the token, the attempts left, the number of the
  next one, whether a token was rejected before, and the lease. A rejected token is replaced once, which does
  not count as an attempt.
\<close>

function get_attempts ::
  "'w network \<Rightarrow> ddae_client \<Rightarrow> bytes \<Rightarrow> (bytes \<Rightarrow> http_request) \<Rightarrow> int \<Rightarrow> (json \<Rightarrow> 'a option) \<Rightarrow> nat \<Rightarrow> nat \<Rightarrow> bool
   \<Rightarrow> token_lease \<Rightarrow> token_manager \<Rightarrow> 'w \<Rightarrow> (go_error + 'a) \<times> token_manager \<times> 'w" where
  "get_attempts N c op rq limit dec left attempt retried lease m w =
     (case left of
        0 \<Rightarrow> (Inl (status_error ClassInternal op 0), m, w)
      | Suc rest \<Rightarrow>
          (case do_get N op (rq (le_token lease)) limit dec w of
             ((status, r), w1) \<Rightarrow>
               if status = 401 then
                 if retried then (Inl (status_error ClassAuth op status), m, w1)
                 else
                   (case token_get N c (le_generation lease) m w1 of
                      (Inl e, m1, w2) \<Rightarrow> (Inl e, m1, w2)
                    | (Inr lease1, m1, w2) \<Rightarrow>
                        get_attempts N c op rq limit dec left attempt True lease1 m1 w2)
               else
                 (case r of
                    Inr x \<Rightarrow> (Inr x, m, w1)
                  | Inl e \<Rightarrow>
                      if \<not> retryable status e \<or> rest = 0 then (Inl e, m, w1)
                      else
                        (case wait_backoff N attempt w1 of
                           (False, w2) \<Rightarrow> (Inl (status_error ClassTimeout op 0), m, w2)
                         | (True, w2) \<Rightarrow>
                             get_attempts N c op rq limit dec rest (Suc attempt) retried lease m w2))))"
  by pat_completeness auto
termination
  by (relation "measure (\<lambda>(_, _, _, _, _, _, left, _, retried, _). 2 * left + (if retried then 0 else 1))") auto

declare get_attempts.simps [simp del]

definition get_json ::
  "'w network \<Rightarrow> ddae_client \<Rightarrow> bytes \<Rightarrow> bytes \<Rightarrow> bytes \<Rightarrow> int \<Rightarrow> (bytes \<times> bytes) list option \<Rightarrow> (json \<Rightarrow> 'a option)
   \<Rightarrow> token_manager \<Rightarrow> 'w \<Rightarrow> (go_error + 'a) \<times> token_manager \<times> 'w" where
  "get_json N c op path raw limit query dec m w =
     (case token_get N c 0 m w of
        (Inl e, m1, w1) \<Rightarrow> (Inl e, m1, w1)
      | (Inr lease, m1, w1) \<Rightarrow>
          get_attempts N c op (get_call c path raw query) limit dec (attempts c) 0 False lease m1 w1)"

section \<open>The operations\<close>

type_synonym ('a, 'w) api = "token_manager \<Rightarrow> 'w \<Rightarrow> (go_error + 'a) \<times> token_manager \<times> 'w"

text \<open>A check of the result after a successful request.\<close>

definition checked :: "('a \<Rightarrow> bool) \<Rightarrow> bytes \<Rightarrow> ('a, 'w) api \<Rightarrow> ('a, 'w) api" where
  "checked ok op f m w =
     (case f m w of
        (Inr x, m1, w1) \<Rightarrow> (if ok x then Inr x else Inl (status_error ClassValidation op 0), m1, w1)
      | r \<Rightarrow> r)"

definition ddae_ping :: "'w network \<Rightarrow> ddae_client \<Rightarrow> (bytes, 'w) api" where
  "ddae_ping N c =
     checked (\<lambda>s. trim_space s \<noteq> []) ''ping''
       (get_json N c ''ping'' (rt_ping (dc_routes c)) [] (dc_limit c) None decode_ping)"

definition ddae_clusters :: "'w network \<Rightarrow> ddae_client \<Rightarrow> (raw_cluster list, 'w) api" where
  "ddae_clusters N c = get_json N c ''clusters'' (rt_clusters (dc_routes c)) [] (dc_limit c) None decode_cluster_list"

definition ddae_nodes :: "'w network \<Rightarrow> ddae_client \<Rightarrow> (raw_node list, 'w) api" where
  "ddae_nodes N c = get_json N c ''nodes'' (rt_nodes (dc_routes c)) [] (dc_limit c) None decode_node_list"

definition ddae_lock :: "'w network \<Rightarrow> ddae_client \<Rightarrow> (bool_status, 'w) api" where
  "ddae_lock N c =
     checked bs_valid ''lock'' (get_json N c ''lock'' (rt_lock (dc_routes c)) [] (dc_limit c) None decode_lock)"

definition ddae_power :: "'w network \<Rightarrow> ddae_client \<Rightarrow> (power_response, 'w) api" where
  "ddae_power N c = get_json N c ''power'' (rt_power (dc_routes c)) [] (dc_limit c) None decode_power"

definition ddae_alert_list :: "'w network \<Rightarrow> ddae_client \<Rightarrow> (alert_list, 'w) api" where
  "ddae_alert_list N c =
     get_json N c ''alert_list'' (rt_alert_list (dc_routes c)) [] (dc_list_limit c) None decode_alert_list"

definition ddae_alert_detail :: "'w network \<Rightarrow> ddae_client \<Rightarrow> bytes \<Rightarrow> (alert_detail, 'w) api" where
  "ddae_alert_detail N c i m w =
     (case validate_alert_id i of
        Inl e \<Rightarrow> (Inl e, m, w)
      | Inr _ \<Rightarrow>
          get_json N c ''alert_detail'' (rt_alert_detail (dc_routes c) @ path_escape i) [] (dc_detail_limit c) None
            decode_alert_detail m w)"

definition ddae_log_list :: "'w network \<Rightarrow> ddae_client \<Rightarrow> (log_list, 'w) api" where
  "ddae_log_list N c =
     get_json N c ''serviceability_log_list'' (rt_log_list (dc_routes c)) [] (dc_log_list_limit c) None decode_log_list"

definition ddae_log_detail :: "'w network \<Rightarrow> ddae_client \<Rightarrow> bytes \<Rightarrow> (log_detail, 'w) api" where
  "ddae_log_detail N c i m w =
     (case validate_log_id i of
        Inl e \<Rightarrow> (Inl e, m, w)
      | Inr _ \<Rightarrow>
          get_json N c ''serviceability_log_detail'' (rt_log_detail (dc_routes c) @ i)
            (rt_log_detail (dc_routes c) @ path_escape i) (dc_log_detail_limit c) None decode_log_detail m w)"

text \<open>The bounds of a history window, widened to whole seconds.\<close>

definition window_start :: "go_time \<Rightarrow> go_time" where "window_start start = trunc_second start"

definition window_end :: "go_time \<Rightarrow> go_time" where "window_end stop = trunc_second (stop + (1000000000 - 1))"

definition window_filter :: "go_time \<Rightarrow> go_time \<Rightarrow> bytes" where
  "window_filter start stop =
     ''(updatetime ge '' @ [chr 34] @ format_rfc3339 (window_start start) @ [chr 34] @ '') and (updatetime le '' @
     [chr 34] @ format_rfc3339 (window_end stop) @ [chr 34] @ '')''"

definition ddae_log_window :: "'w network \<Rightarrow> ddae_client \<Rightarrow> go_time \<Rightarrow> go_time \<Rightarrow> (log_list, 'w) api" where
  "ddae_log_window N c start stop m w =
     (if is_zero start \<or> stop \<le> start then (Inl (Plain ''invalid history time bounds''), m, w)
      else get_json N c ''serviceability_log_list'' (rt_log_list (dc_routes c)) [] (dc_log_list_limit c)
             (Some [(''filter'', window_filter start stop)]) decode_log_list m w)"

lemma window_covers:
  "window_start start \<le> start" "stop \<le> window_end stop"
  "start - window_start start < 1000000000" "window_end stop - stop < 1000000000"
  using trunc_second_bounds [of start] trunc_second_bounds [of "stop + (1000000000 - 1)"]
  unfolding window_start_def window_end_def by simp_all

section \<open>What the client asks for\<close>

text \<open>The network with a log of the requests that were sent.\<close>

definition logged :: "'w network \<Rightarrow> ('w \<times> http_request list) network" where
  "logged N =
     \<lparr>nw_send = (\<lambda>rq (w, log). case nw_send N rq w of (a, w1) \<Rightarrow> (a, (w1, log @ [rq]))),
      nw_wait = (\<lambda>d (w, log). case nw_wait N d w of (b, w1) \<Rightarrow> (b, (w1, log))),
      nw_now = (\<lambda>(w, log). case nw_now N w of (t, w1) \<Rightarrow> (t, (w1, log)))\<rparr>"

datatype ddae_call =
  CallPing | CallClusters | CallNodes | CallLock | CallPower | CallAlertList | CallAlertDetail bytes
| CallLogList | CallLogDetail bytes | CallLogWindow go_time go_time

fun perform :: "'w network \<Rightarrow> ddae_client \<Rightarrow> ddae_call \<Rightarrow> token_manager \<Rightarrow> 'w \<Rightarrow> token_manager \<times> 'w" where
  "perform N c CallPing m w = snd (ddae_ping N c m w)"
| "perform N c CallClusters m w = snd (ddae_clusters N c m w)"
| "perform N c CallNodes m w = snd (ddae_nodes N c m w)"
| "perform N c CallLock m w = snd (ddae_lock N c m w)"
| "perform N c CallPower m w = snd (ddae_power N c m w)"
| "perform N c CallAlertList m w = snd (ddae_alert_list N c m w)"
| "perform N c (CallAlertDetail i) m w = snd (ddae_alert_detail N c i m w)"
| "perform N c CallLogList m w = snd (ddae_log_list N c m w)"
| "perform N c (CallLogDetail i) m w = snd (ddae_log_detail N c i m w)"
| "perform N c (CallLogWindow a b) m w = snd (ddae_log_window N c a b m w)"

definition wire_path :: "http_request \<Rightarrow> bytes" where
  "wire_path rq = (if hq_raw_path rq = [] then hq_path rq else hq_raw_path rq)"

text \<open>A request is an instance of an operation of the allow list; an identifier is one segment of the path sent.\<close>

definition matches_operation :: "http_request \<Rightarrow> operation \<Rightarrow> bool" where
  "matches_operation rq p \<longleftrightarrow>
     hq_method rq = op_method p \<and>
     (if has_suffix (op_path p) ''{id}'' then
        let base = take (length (op_path p) - 4) (op_path p);
            i = drop (length base) (hq_path rq); segment = drop (length base) (wire_path rq)
        in hq_path rq = base @ i \<and> wire_path rq = base @ segment \<and> i \<notin> {[], ''.'', ''..''} \<and>
           path_unescape segment = Some i \<and> CHR ''/'' \<notin> set segment
      else hq_path rq = op_path p \<and> hq_raw_path rq = [])"

definition is_get :: "http_request \<Rightarrow> bool" where
  "is_get rq \<longleftrightarrow> hq_bearer rq \<noteq> None"

text \<open>The log grew by requests with a property: at most \<open>a\<close> with a token, at most \<open>b\<close> for one.\<close>

definition adds ::
  "(http_request \<Rightarrow> bool) \<Rightarrow> nat \<Rightarrow> nat \<Rightarrow> http_request list \<Rightarrow> http_request list \<Rightarrow> bool" where
  "adds P a b l l' \<longleftrightarrow>
     l' = l @ drop (length l) l' \<and> list_all P (drop (length l) l') \<and>
     length (filter is_get (drop (length l) l')) \<le> a \<and>
     length (filter (\<lambda>rq. \<not> is_get rq) (drop (length l) l')) \<le> b"

lemma adds_iff:
  "adds P a b l l' \<longleftrightarrow> (\<exists>xs. l' = l @ xs \<and> list_all P xs \<and> length (filter is_get xs) \<le> a \<and>
     length (filter (\<lambda>rq. \<not> is_get rq) xs) \<le> b)"
  by (auto simp: adds_def)

lemma adds_refl [simp]: "adds P a b l l"
  by (simp add: adds_def)

lemma adds_trans:
  assumes "adds P a b l l1" "adds P a' b' l1 l2"
  shows "adds P (a + a') (b + b') l l2"
proof -
  obtain xs ys where "l1 = l @ xs" "list_all P xs" "length (filter is_get xs) \<le> a"
      "length (filter (\<lambda>rq. \<not> is_get rq) xs) \<le> b" "l2 = l1 @ ys" "list_all P ys" "length (filter is_get ys) \<le> a'"
      "length (filter (\<lambda>rq. \<not> is_get rq) ys) \<le> b'"
    using assms unfolding adds_iff by blast
  then have "l2 = l @ (xs @ ys) \<and> list_all P (xs @ ys) \<and> length (filter is_get (xs @ ys)) \<le> a + a' \<and>
      length (filter (\<lambda>rq. \<not> is_get rq) (xs @ ys)) \<le> b + b'" by simp
  then show ?thesis unfolding adds_iff by blast
qed

lemma adds_mono: "adds P a b l l' \<Longrightarrow> a \<le> a' \<Longrightarrow> b \<le> b' \<Longrightarrow> adds P a' b' l l'"
  by (auto simp: adds_def)

lemma logged_world:
  "nw_send (logged N) rq s = (case nw_send N rq (fst s) of (a, w) \<Rightarrow> (a, (w, snd s @ [rq])))"
  "snd (snd (nw_wait (logged N) d s)) = snd s" "snd (snd (nw_now (logged N) s)) = snd s"
  by (auto simp: logged_def split: prod.splits)

lemma wait_backoff_log: "snd (snd (wait_backoff (logged N) n s)) = snd s"
  by (simp add: wait_backoff_def logged_world)

lemma token_request_log: "snd (snd (token_request (logged N) c s)) = snd s @ [token_call c]"
proof -
  obtain a w where s: "nw_send N (token_call c) (fst s) = (a, w)" by (cases "nw_send N (token_call c) (fst s)")
  obtain t s1 where n: "nw_now (logged N) (w, snd s @ [token_call c]) = (t, s1)"
    by (cases "nw_now (logged N) (w, snd s @ [token_call c])")
  with logged_world(3) [of N "(w, snd s @ [token_call c])"] have "snd s1 = snd s @ [token_call c]" by simp
  with s n show ?thesis
    by (simp add: token_request_def logged_world split: http_answer.split option.split prod.split)
qed

lemma token_request_adds:
  assumes "P (token_call c)"
  shows "adds P 0 1 (snd s) (snd (snd (token_request (logged N) c s)))"
  using assms by (simp add: token_request_log adds_iff is_get_def token_call_def)

lemma token_attempts_adds:
  assumes "P (token_call c)"
  shows "adds P 0 left (snd s) (snd (snd (token_attempts (logged N) c left attempt s)))"
proof (induction left arbitrary: attempt s)
  case (Suc left)
  obtain r s1 where r: "token_request (logged N) c s = (r, s1)" by (cases "token_request (logged N) c s")
  obtain b s2 where b: "wait_backoff (logged N) attempt s1 = (b, s2)" by (cases "wait_backoff (logged N) attempt s1")
  have 1: "adds P 0 1 (snd s) (snd s1)" using token_request_adds [where P = P, OF assms, of s N] r by simp
  have e: "snd s2 = snd s1" using wait_backoff_log [of N attempt s1] b by simp
  have "adds P (0 + 0) (1 + left) (snd s) (snd (snd (token_attempts (logged N) c left (Suc attempt) s2)))"
    using adds_trans [OF 1 Suc.IH [of s2 "Suc attempt", unfolded e]] .
  moreover have "adds P 0 (Suc left) (snd s) (snd s1)" using 1 by (rule adds_mono) simp_all
  ultimately show ?case using r b e by (auto split: sum.split prod.split bool.split)
qed simp

lemma token_get_adds:
  assumes "P (token_call c)"
  shows "adds P 0 (attempts c) (snd s) (snd (snd (snd (token_get (logged N) c g m s))))"
proof -
  obtain t s1 where t: "nw_now (logged N) s = (t, s1)" by (cases "nw_now (logged N) s")
  have e: "snd s1 = snd s" using logged_world(3) [of N s] t by simp
  show ?thesis
    using token_attempts_adds [where P = P, OF assms, of "attempts c" s1 N 0] t e
    by (auto simp: token_get_def Let_def split: prod.split sum.split)
qed

lemma do_get_log: "snd (snd (do_get (logged N) op rq limit dec s)) = snd s @ [rq]"
proof -
  obtain a w where "nw_send N rq (fst s) = (a, w)" by (cases "nw_send N rq (fst s)")
  then show ?thesis by (simp add: do_get_def logged_world split: http_answer.split option.split)
qed

lemma get_attempts_0 [simp]:
  "get_attempts N c op rq limit dec 0 attempt retried lease m w = (Inl (status_error ClassInternal op 0), m, w)"
  by (subst get_attempts.simps) simp

text \<open>The two ways an attempt goes on: with another token, or after a wait.\<close>

lemma get_attempts_cases:
  assumes "do_get N op (rq (le_token lease)) limit dec w = ((status, r), w1)"
  shows "get_attempts N c op rq limit dec (Suc rest) attempt retried lease m w =
    (if status = 401 then
       if retried then (Inl (status_error ClassAuth op status), m, w1)
       else
         (case token_get N c (le_generation lease) m w1 of
            (Inl e, m1, w2) \<Rightarrow> (Inl e, m1, w2)
          | (Inr lease1, m1, w2) \<Rightarrow> get_attempts N c op rq limit dec (Suc rest) attempt True lease1 m1 w2)
     else
       (case r of
          Inr x \<Rightarrow> (Inr x, m, w1)
        | Inl e \<Rightarrow>
            if \<not> retryable status e \<or> rest = 0 then (Inl e, m, w1)
            else
              (case wait_backoff N attempt w1 of
                 (False, w2) \<Rightarrow> (Inl (status_error ClassTimeout op 0), m, w2)
               | (True, w2) \<Rightarrow> get_attempts N c op rq limit dec rest (Suc attempt) retried lease m w2)))"
  using assms by (subst get_attempts.simps) simp

lemma waiting_adds:
  assumes first: "adds P 1 0 l (snd s1)"
    and rec: "\<And>s2. adds P a b (snd s2) (snd (snd (snd (f s2))))"
  shows "adds P (Suc a) b l (snd (snd (snd
    (case r of
       Inr x \<Rightarrow> (Inr x, m, s1)
     | Inl e \<Rightarrow>
         if Q e then (Inl e, m, s1)
         else (case wait_backoff (logged N) attempt s1 of (False, s2) \<Rightarrow> (Inl z, m, s2) | (True, s2) \<Rightarrow> f s2)))))"
proof -
  obtain k s2 where w: "wait_backoff (logged N) attempt s1 = (k, s2)" by (cases "wait_backoff (logged N) attempt s1")
  have e: "snd s2 = snd s1" using wait_backoff_log [of N attempt s1] w by simp
  have 1: "adds P (Suc a) b l (snd s1)" using first by (rule adds_mono) simp_all
  have "adds P (1 + a) (0 + b) l (snd (snd (snd (f s2))))" by (rule adds_trans [OF first rec [of s2, unfolded e]])
  with 1 w e show ?thesis by (simp split: sum.split bool.split)
qed

lemma get_attempts_retried:
  assumes P: "\<And>t. P (rq t)" and g: "\<And>t. is_get (rq t)"
  shows "adds P left 0 (snd s)
    (snd (snd (snd (get_attempts (logged N) c op rq limit dec left attempt True lease m s))))"
proof (induction left arbitrary: attempt s)
  case (Suc rest)
  obtain status r s1 where d: "do_get (logged N) op (rq (le_token lease)) limit dec s = ((status, r), s1)"
    by (metis surj_pair)
  have l: "snd s1 = snd s @ [rq (le_token lease)]"
    using do_get_log [of N op "rq (le_token lease)" limit dec s] d by simp
  have 1: "adds P 1 0 (snd s) (snd s1)" using P g by (simp add: l adds_iff)
  have 2: "adds P (Suc rest) 0 (snd s) (snd s1)" using 1 by (rule adds_mono) simp_all
  show ?case unfolding get_attempts_cases [where rq = rq and lease = lease, OF d]
    using 2 waiting_adds [where f = "get_attempts (logged N) c op rq limit dec rest (Suc attempt) True lease m", OF 1 Suc.IH]
    by simp
qed simp

lemma get_attempts_adds:
  assumes T: "P (token_call c)" and P: "\<And>t. P (rq t)" and g: "\<And>t. is_get (rq t)"
  shows "adds P (Suc left) (attempts c) (snd s)
    (snd (snd (snd (get_attempts (logged N) c op rq limit dec left attempt False lease m s))))"
proof (induction left arbitrary: attempt s)
  case (Suc rest)
  obtain status r s1 where d: "do_get (logged N) op (rq (le_token lease)) limit dec s = ((status, r), s1)"
    by (metis surj_pair)
  have l: "snd s1 = snd s @ [rq (le_token lease)]"
    using do_get_log [of N op "rq (le_token lease)" limit dec s] d by simp
  have 1: "adds P 1 0 (snd s) (snd s1)" using P g by (simp add: l adds_iff)
  show ?case
  proof (cases "status = 401")
    case False
    with waiting_adds [where f = "get_attempts (logged N) c op rq limit dec rest (Suc attempt) False lease m", OF 1 Suc.IH]
    show ?thesis unfolding get_attempts_cases [where rq = rq and lease = lease, OF d] by simp
  next
    case True
    obtain t m1 s2 where t: "token_get (logged N) c (le_generation lease) m s1 = (t, m1, s2)"
      by (metis surj_pair)
    have "adds P 0 (attempts c) (snd s1) (snd s2)"
      using token_get_adds [where P = P, OF T, of s1 N "le_generation lease" m] t by simp
    note 2 = adds_trans [OF 1 this]
    show ?thesis
    proof (cases t)
      case (Inl e)
      have "adds P (Suc (Suc rest)) (attempts c) (snd s) (snd s2)" using 2 by (rule adds_mono) simp_all
      with True t Inl show ?thesis unfolding get_attempts_cases [where rq = rq and lease = lease, OF d] by simp
    next
      case (Inr lease1)
      have "adds P ((1 + 0) + Suc rest) ((0 + attempts c) + 0) (snd s)
          (snd (snd (snd (get_attempts (logged N) c op rq limit dec (Suc rest) attempt True lease1 m1 s2))))"
        by (rule adds_trans [OF 2 get_attempts_retried [where P = P and rq = rq, OF P g]])
      with True t Inr show ?thesis unfolding get_attempts_cases [where rq = rq and lease = lease, OF d] by simp
    qed
  qed
qed simp

lemma get_json_adds:
  assumes T: "P (token_call c)" and P: "\<And>t. P (get_call c path raw query t)"
  shows "adds P (Suc (attempts c)) (2 * attempts c) (snd s)
    (snd (snd (snd (get_json (logged N) c op path raw limit query dec m s))))"
proof -
  obtain t m1 s1 where t: "token_get (logged N) c 0 m s = (t, m1, s1)" by (metis surj_pair)
  have 1: "adds P 0 (attempts c) (snd s) (snd s1)"
    using token_get_adds [where P = P, OF T, of s N 0 m] t by simp
  have g: "is_get (get_call c path raw query x)" for x by (simp add: is_get_def get_call_def)
  show ?thesis
  proof (cases t)
    case (Inl e)
    have "adds P (Suc (attempts c)) (2 * attempts c) (snd s) (snd s1)" using 1 by (rule adds_mono) simp_all
    with t Inl show ?thesis by (simp add: get_json_def)
  next
    case (Inr lease)
    have "adds P (0 + Suc (attempts c)) (attempts c + attempts c) (snd s)
        (snd (snd (snd (get_attempts (logged N) c op (get_call c path raw query) limit dec (attempts c) 0 False lease m1 s1))))"
      by (rule adds_trans [OF 1 get_attempts_adds [where P = P and rq = "get_call c path raw query", OF T P g]])
    with t Inr show ?thesis by (simp add: get_json_def mult_2)
  qed
qed

lemma checked_state: "snd (checked ok op f m w) = snd (f m w)"
  by (simp add: checked_def split: prod.split sum.split)

definition approved :: "ddae_client \<Rightarrow> operation list \<Rightarrow> http_request \<Rightarrow> bool" where
  "approved c ops rq \<longleftrightarrow>
     hq_host rq = ur_host (dc_base c) \<and>
     (if hq_bearer rq = None then hq_method rq = ''POST'' \<and> hq_path rq = token_path
      else hq_form rq = [] \<and> list_ex (matches_operation rq) ops)"

lemma has_suffix_append [simp]: "has_suffix (s @ t) t"
proof -
  have "has_prefix (u @ v) u" for u v by (induction u) simp_all
  then show ?thesis by (simp add: has_suffix_def)
qed

lemma has_suffix_last: "has_suffix (s @ [a]) (t @ [b]) \<Longrightarrow> a = b"
  by (simp add: has_suffix_def)

lemma matches_fixed:
  assumes "op_path p = s @ [a]" "a \<noteq> CHR ''}''" "op_method p = ''GET''"
  shows "matches_operation (get_call c (op_path p) [] query t) p"
proof -
  have "\<not> has_suffix (op_path p) ''{id}''"
    using has_suffix_last [of s a "''{id''" "CHR ''}''"] assms(1,2) by auto
  with assms(3) show ?thesis by (simp add: matches_operation_def get_call_def)
qed

lemma matches_detail:
  assumes "i \<notin> {[], ''.'', ''..''}" "raw = base @ path_escape i \<or> raw = [] \<and> path_escape i = i"
  shows "matches_operation (get_call c (base @ i) raw query t) (get_operation name (base @ ''{id}''))"
proof -
  have "wire_path (get_call c (base @ i) raw query t) = base @ path_escape i"
  proof -
    have "path_escape i \<noteq> []" using path_unescape_escape [of i] assms(1) by auto
    with assms(2) show ?thesis by (auto simp: wire_path_def get_call_def)
  qed
  then show ?thesis
    using assms(1) path_unescape_escape [of i] path_escape_segment(1) [of i]
    by (simp add: matches_operation_def get_operation_def get_call_def Let_def)
qed

lemma alert_id_plain: "validate_alert_id i = Inr () \<Longrightarrow> path_escape i = i \<and> i \<notin> {[], ''.'', ''..''}"
proof -
  assume v: "validate_alert_id i = Inr ()"
  have "id_char c \<Longrightarrow> segment_plain c" for c
    by (auto simp: id_char_def segment_plain_def is_unreserved_def)
  with v have "list_all segment_plain i" by (auto simp: validate_alert_id_Inr list_all_iff)
  with v show ?thesis by (auto simp: path_escape_id validate_alert_id_Inr)
qed

lemma new_client_parts:
  assumes "new_client tls cfg = Inr c"
  shows "route_set_for_prefixes (tg_ping_prefix (cf_target cfg)) (tg_api_prefix (cf_target cfg)) = Inr (dc_routes c)"
  using assms by (auto simp: new_client_def Let_def split: option.splits)

lemma routes_end:
  assumes "route_set_for_prefixes ping api = Inr r"
  shows "rt_ping r = ping @ ''/ping''" "rt_clusters r = api @ ''/ddae-clusters''"
    "rt_nodes r = api @ ''/infrastructure-nodes''" "rt_lock r = api @ ''/system-lock''"
    "rt_power r = api @ ''/system-shutdown''" "rt_alert_list r = api @ ''/serviceability-issues''"
    "rt_log_list r = api @ ''/serviceability-events''"
  using assms by (auto simp: route_set_for_prefixes_def)

lemma perform_adds:
  assumes r: "route_set_for_prefixes ping api = Inr (dc_routes c)"
  shows "adds (approved c (operations (dc_routes c))) (Suc (attempts c)) (2 * attempts c) (snd s)
    (snd (snd (perform (logged N) c call m s)))"
proof -
  let ?r = "dc_routes c" and ?P = "approved c (operations (dc_routes c))"
  have T: "?P (token_call c)" by (simp add: approved_def token_call_def)
  have G: "?P (get_call c path raw q t)"
    if "\<exists>p \<in> set (operations ?r). matches_operation (get_call c path raw q t) p" for path raw q t
    using that by (simp add: approved_def get_call_def list_ex_iff)
  note ends = routes_end [OF r]
  have fixed: "?P (get_call c (op_path p) [] q t)"
    if "p \<in> set (operations ?r)" "op_path p = u @ [a]" "a \<noteq> CHR ''}''" for p q t u a
  proof -
    have "op_method p = ''GET''" using that(1) by (auto simp: operations_def get_operation_def)
    with matches_fixed [OF that(2,3)] that(1) show ?thesis by (intro G) blast
  qed
  have F: "?P (get_call c path [] q t)"
    if "path \<in> {rt_ping ?r, rt_clusters ?r, rt_nodes ?r, rt_lock ?r, rt_power ?r, rt_alert_list ?r, rt_log_list ?r}" for path q t
  proof -
    from that obtain name where n: "get_operation name path \<in> set (operations ?r)" by (auto simp: operations_def)
    from that obtain u a where "path = u @ [a]" "a \<noteq> CHR ''}''"
      unfolding ends by (auto simp: append_eq_append_conv2)
    with fixed [OF n] show ?thesis by (simp add: get_operation_def)
  qed
  have A: "?P (get_call c (rt_alert_detail ?r @ path_escape i) [] None t)" if "validate_alert_id i = Inr ()" for i t
    using alert_id_plain [OF that] matches_detail [of i "[]" "rt_alert_detail ?r" c None t "''alert_detail''"]
    by (intro G) (auto simp: operations_def)
  have L: "?P (get_call c (rt_log_detail ?r @ i) (rt_log_detail ?r @ path_escape i) None t)"
    if "validate_log_id i = Inr ()" for i t
  proof -
    have "i \<notin> {[], ''.'', ''..''}" using that by (auto simp: validate_log_id_Inr)
    from matches_detail [OF this, of "rt_log_detail ?r @ path_escape i" "rt_log_detail ?r"] show ?thesis
      by (intro G) (auto simp: operations_def)
  qed
  note J = get_json_adds [where P = ?P, OF T]
  show ?thesis
  proof (cases call)
    case (CallAlertDetail i)
    show ?thesis
    proof (cases "validate_alert_id i")
      case (Inr u)
      then have "validate_alert_id i = Inr ()" by simp
      then show ?thesis by (simp add: CallAlertDetail ddae_alert_detail_def J [OF A])
    qed (simp add: CallAlertDetail ddae_alert_detail_def)
  next
    case (CallLogDetail i)
    show ?thesis
    proof (cases "validate_log_id i")
      case (Inr u)
      then have "validate_log_id i = Inr ()" by simp
      then show ?thesis by (simp add: CallLogDetail ddae_log_detail_def J [OF L])
    qed (simp add: CallLogDetail ddae_log_detail_def)
  next
    case (CallLogWindow a b)
    show ?thesis by (simp add: CallLogWindow ddae_log_window_def J [OF F])
  next
    case CallPing
    show ?thesis by (simp add: CallPing ddae_ping_def checked_state J [OF F])
  next
    case CallClusters
    show ?thesis by (simp add: CallClusters ddae_clusters_def J [OF F])
  next
    case CallNodes
    show ?thesis by (simp add: CallNodes ddae_nodes_def J [OF F])
  next
    case CallLock
    show ?thesis by (simp add: CallLock ddae_lock_def checked_state J [OF F])
  next
    case CallPower
    show ?thesis by (simp add: CallPower ddae_power_def J [OF F])
  next
    case CallAlertList
    show ?thesis by (simp add: CallAlertList ddae_alert_list_def J [OF F])
  next
    case CallLogList
    show ?thesis by (simp add: CallLogList ddae_log_list_def J [OF F])
  qed
qed

text \<open>
  Claim C36. What the client sends: with a client made from a configuration, every call, whatever the network
  answers, sends at most one request per attempt and one more, and at most two rounds of token requests; every
  request goes to the configured host, credentials only in the POST for a token, and everything else is a GET
  with a bearer token whose path is on the allow list for the configured prefixes, an identifier being one
  escaped path segment that decodes to it.
\<close>

theorem requests_stay_on_allow_list:
  assumes "new_client tls cfg = Inr c"
    and "approved_operations_for (tg_ping_prefix (cf_target cfg)) (tg_api_prefix (cf_target cfg)) = Inr ops"
    and "perform (logged N) c call m (w, []) = (m', w', sent)"
  shows "list_all (approved c ops) sent \<and> length (filter is_get sent) \<le> attempts c + 1 \<and>
    length (filter (\<lambda>rq. \<not> is_get rq) sent) \<le> 2 * attempts c"
proof -
  have "ops = operations (dc_routes c)"
    using assms(2) new_client_parts [OF assms(1)] by (simp add: approved_operations_for_def)
  with perform_adds [OF new_client_parts [OF assms(1)], of "(w, [])" N call m] assms(3)
  show ?thesis by (simp add: adds_def)
qed

definition refusing :: "unit network" where
  "refusing =
     \<lparr>nw_send = (\<lambda>rq w. (Answer 400 None, w)), nw_wait = (\<lambda>d w. (True, w)), nw_now = (\<lambda>w. (0, w))\<rparr>"

lemma requests_stay_on_allow_list_witness:
  "\<exists>c ops m' sent. new_client (\<lambda>_. None) example_config = Inr c \<and>
     approved_operations_for [] ''/v1'' = Inr ops \<and>
     perform (logged refusing) c CallPing new_tokens ((), []) = (m', (), sent) \<and>
     sent = [token_call c] \<and> list_all (approved c ops) sent"
proof -
  have "validate_path_prefix [] = Inr ()" by (simp add: validate_path_prefix_def)
  then have "route_set_for_prefixes [] ''/v1'' \<noteq> Inl e" for e
    by (simp add: route_set_for_prefixes_def example_prefix wrapE_def)
  then obtain rs where rs: "route_set_for_prefixes [] ''/v1'' = Inr rs" by (cases "route_set_for_prefixes [] ''/v1''") auto
  have p: "tg_ping_prefix (cf_target example_config) = []" "tg_api_prefix (cf_target example_config) = ''/v1''"
    by (simp_all add: example_config_def example_target_def)
  have "\<exists>c. new_client (\<lambda>_. None) example_config = Inr c \<and> 0 < attempts c"
    using rs by (simp add: new_client_def Let_def p attempts_def)
       (simp add: example_config_def example_modes_def example_target_def example_timing_def)
  then obtain c where c: "new_client (\<lambda>_. None) example_config = Inr c" "0 < attempts c" by blast
  then obtain k where k: "attempts c = Suc k" by (cases "attempts c") auto
  have q: "token_request (logged refusing) c s =
      (Inl (status_error ClassAuth ''token'' 400, 400), (fst s, snd s @ [token_call c]))" for s
    by (simp add: token_request_def logged_def refusing_def success_status_def split: prod.split)
  obtain m' sent where s: "perform (logged refusing) c CallPing new_tokens ((), []) = (m', (), sent)"
    by (cases "perform (logged refusing) c CallPing new_tokens ((), [])") auto
  have e: "sent = [token_call c]"
    using s q by (simp add: ddae_ping_def checked_state get_json_def token_get_def k token_usable_def new_tokens_def
        token_retryable_def logged_def refusing_def split: prod.splits sum.splits)
  have o: "approved_operations_for (tg_ping_prefix (cf_target example_config)) (tg_api_prefix (cf_target example_config)) =
      Inr (operations rs)" using rs p by (simp add: approved_operations_for_def)
  from requests_stay_on_allow_list [OF c(1) o s] c s e o p show ?thesis by auto
qed

end
