(* ===== verification/Query_Client.thy ===== *)
theory Query_Client
  imports Config_Load Config_Example Go_Url Query_Types
begin

text \<open>
  The client of the query engine (internal/queryclient/client.go): the checks of \<open>New\<close>, the routing of a
  request to one of the two transports, the login with its redirects and its form, the allow list of
  \<open>Get\<close>, the requests with their retries, \<open>Scope\<close> and \<open>HistoryWindow\<close>. The network is a record of two
  operations on a world, which also holds the cookies: one request without following redirects, and a wait
  (false when the context ends first). The HTML entities and the resolution of URL references are arguments.
  Calls are sequential: the mutex keeps one login at a time, and the generation makes the callers that
  waited for it use its session.
\<close>

section \<open>The client\<close>

record query_client =
  ql_base :: url
  ql_auth :: url
  ql_config :: query_config

abbreviation ql_realm :: "query_client \<Rightarrow> bytes" where "ql_realm c \<equiv> qc_realm (ql_config c)"

text \<open>\<open>New\<close>; \<open>tls\<close> is what \<open>queryTLS\<close> finds out about a file of authorities.\<close>

definition new_query_client :: "(bytes \<Rightarrow> go_error option) \<Rightarrow> query_config \<Rightarrow> bool \<Rightarrow> go_error + query_client" where
  "new_query_client tls q allow =
     (case (qc_base_url q, qc_auth_url q) of
        (Some base, Some auth) \<Rightarrow>
          bindE (guardE (\<not> (ur_scheme base \<noteq> ''https'' \<or> ur_scheme auth \<noteq> ''https'' \<or> qc_username q = [] \<or>
                            qc_password q = [] \<or> qc_response_max q < 1 \<or> qc_response_max q > 64 * 2 ^ 20))
                   (Plain ''query configuration invalid'')) (\<lambda>_.
          bindE (guardE (\<not> (qc_insecure q \<and> (\<not> allow \<or> qc_ca_file q \<noteq> [] \<or> qc_auth_ca_file q \<noteq> [])))
                   (Plain ''query TLS opt-in invalid'')) (\<lambda>_.
          bindE (case tls (qc_ca_file q) of None \<Rightarrow> Inr () | Some e \<Rightarrow> Inl e) (\<lambda>_.
          bindE (case tls (qc_auth_ca_file q) of None \<Rightarrow> Inr () | Some e \<Rightarrow> Inl e) (\<lambda>_.
          Inr \<lparr>ql_base = base, ql_auth = auth, ql_config = q\<rparr>))))
      | _ \<Rightarrow> Inl (Plain ''query configuration invalid''))"

section \<open>Requests\<close>

text \<open>The two transports, each with its own authorities.\<close>

datatype query_target = EngineTransport | IdentityTransport

record query_request =
  rq_method :: bytes
  rq_target :: query_target
  rq_url :: url
  rq_body :: bytes
  rq_role :: "bytes option"

text \<open>
  What \<open>http.Client.Do\<close> returns: the request failed, or a status, the body (\<open>None\<close> if reading it fails)
  and what \<open>Location\<close> makes of the header.
\<close>

datatype query_answer = NoAnswer | QueryAnswer nat "bytes option" "url option"

record 'w query_network =
  qn_send :: "query_request \<Rightarrow> 'w \<Rightarrow> query_answer \<times> 'w"
  qn_wait :: "go_duration \<Rightarrow> 'w \<Rightarrow> bool \<times> 'w"

text \<open>\<open>targetTransport.RoundTrip\<close>.\<close>

definition route_request :: "query_client \<Rightarrow> url \<Rightarrow> query_target option" where
  "route_request c u =
     (if ur_scheme u \<noteq> ''https'' then None
      else if ur_host u = ur_host (ql_auth c) \<and> has_prefix (ur_path u) ''/auth/'' then Some IdentityTransport
      else if ur_host u = ur_host (ql_base c) then Some EngineTransport
      else None)"

type_synonym answered = "bytes \<times> nat \<times> url option"

text \<open>\<open>request\<close>; a URL that was parsed can be sent, so that building the request does not fail.\<close>

definition query_send_request ::
  "'w query_network \<Rightarrow> query_client \<Rightarrow> bytes \<Rightarrow> url \<Rightarrow> bytes \<Rightarrow> bool \<Rightarrow> 'w \<Rightarrow> (go_error + answered) \<times> 'w" where
  "query_send_request N c verb u body login w =
     (case route_request c u of
        None \<Rightarrow> (Inl (Plain ''query transport failed''), w)
      | Some t \<Rightarrow>
          (let rq = \<lparr>rq_method = verb, rq_target = t, rq_url = u, rq_body = body,
                     rq_role = (if login then None else Some (''system=ROLE{'' @ qc_role (ql_config c) @ ''}''))\<rparr>
           in case qn_send N rq w of
                (NoAnswer, w1) \<Rightarrow> (Inl (Plain ''query transport failed''), w1)
              | (QueryAnswer status data location, w1) \<Rightarrow>
                  (case data of
                     None \<Rightarrow> (Inl (Plain ''query response exceeds bounds''), w1)
                   | Some bs \<Rightarrow>
                       if int (length bs) > qc_response_max (ql_config c)
                       then (Inl (Plain ''query response exceeds bounds''), w1)
                       else (Inr (bs, status, location), w1))))"

section \<open>Login\<close>

definition realm_path :: "query_client \<Rightarrow> bytes" where
  "realm_path c = ''/auth/realms/'' @ ql_realm c"

definition login_action :: "query_client \<Rightarrow> bytes" where
  "login_action c = realm_path c @ ''/login-actions/authenticate''"

definition allowed_login :: "query_client \<Rightarrow> url \<Rightarrow> bool" where
  "allowed_login c u \<longleftrightarrow>
     \<not> (ur_scheme u \<noteq> ''https'' \<or> ur_user u \<noteq> None \<or> ur_fragment u \<noteq> [] \<or> ur_raw_path u \<noteq> []) \<and>
     (ur_host u = ur_host (ql_base c) \<and>
        ur_path u \<in> {''/ui/insights/login'', ''/ui/insights/login/proceed'', ''/ui/insights/'',
                     ''/ui/insights/index.html'', ''/oauth2/callback''} \<or>
      ur_host u = ur_host (ql_auth c) \<and>
        (ur_path u = realm_path c @ ''/protocol/openid-connect/auth'' \<or> ur_path u = login_action c))"

text \<open>\<open>loginChain\<close>; the number of redirects is shared by the two chains of a login.\<close>

function login_chain ::
  "'w query_network \<Rightarrow> query_client \<Rightarrow> url \<Rightarrow> bytes \<Rightarrow> bytes \<Rightarrow> nat \<Rightarrow> 'w \<Rightarrow> (go_error + bytes \<times> url) \<times> nat \<times> 'w" where
  "login_chain N c u verb body redirects w =
     (if \<not> allowed_login c u then (Inl (Plain ''query login redirect rejected''), redirects, w)
      else
        (case query_send_request N c verb u body True w of
           (Inl e, w1) \<Rightarrow> (Inl e, redirects, w1)
         | (Inr (data, status, location), w1) \<Rightarrow>
             if status = 200 then (Inr (data, u), redirects, w1)
             else if status \<notin> {301, 302, 303, 307, 308} then (Inl (Plain ''query login rejected''), redirects, w1)
             else if verb = ''POST'' \<and> (status = 307 \<or> status = 308)
             then (Inl (Plain ''query credential redirect rejected''), redirects, w1)
             else if redirects \<ge> 8 then (Inl (Plain ''query login redirect limit''), redirects, w1)
             else
               (case location of
                  None \<Rightarrow> (Inl (Plain ''query login location invalid''), redirects + 1, w1)
                | Some next \<Rightarrow> login_chain N c next ''GET'' [] (redirects + 1) w1)))"
  by pat_completeness auto
termination
  by (relation "measure (\<lambda>(_, _, _, _, _, redirects, _). 9 - redirects)") auto

declare login_chain.simps [simp del]

section \<open>The login form\<close>

definition word_char :: "char \<Rightarrow> bool" where
  "word_char c \<longleftrightarrow> is_lower c \<or> is_upper c \<or> is_digit c \<or> c = CHR ''_''"

definition ascii_space :: "char \<Rightarrow> bool" where
  "ascii_space c \<longleftrightarrow> byte c \<in> {9, 10, 12, 13, 32}"

text \<open>What follows a lower-case ASCII text, in any case.\<close>

fun after_text :: "bytes \<Rightarrow> bytes \<Rightarrow> bytes option" where
  "after_text [] s = Some s"
| "after_text (p # ps) [] = None"
| "after_text (p # ps) (c # s) = (if c = p \<or> is_upper c \<and> chr (byte c + 32) = p then after_text ps s else None)"

text \<open>All matches from the left, where \<open>m\<close> matches at the front and gives what follows the match.\<close>

function find_all :: "(bytes \<Rightarrow> ('a \<times> bytes) option) \<Rightarrow> bytes \<Rightarrow> 'a list" where
  "find_all m [] = []"
| "find_all m (c # s) =
     (case m (c # s) of
        None \<Rightarrow> find_all m s
      | Some (x, r) \<Rightarrow> x # find_all m (drop (length s - length r) s))"
  by pat_completeness auto
termination by (relation "measure (length \<circ> snd)") auto

text \<open>\<open><name\b([^>]*)>\<close> at the front.\<close>

definition match_tag :: "bytes \<Rightarrow> bytes \<Rightarrow> (bytes \<times> bytes) option" where
  "match_tag name s =
     do {
       t \<leftarrow> after_text (CHR ''<'' # name) s;
       if t \<noteq> [] \<and> word_char (hd t) then None
       else case dropWhile (\<lambda>c. c \<noteq> CHR ''>'') t of
              [] \<Rightarrow> None
            | _ # r \<Rightarrow> Some (takeWhile (\<lambda>c. c \<noteq> CHR ''>'') t, r)
     }"

text \<open>\<open>(.*?)</form\s*>\<close>: the shortest text before a closing tag.\<close>

definition match_close :: "bytes \<Rightarrow> bytes option" where
  "match_close s =
     do {
       t \<leftarrow> after_text ''</form'' s;
       case dropWhile ascii_space t of c # r \<Rightarrow> if c = CHR ''>'' then Some r else None | [] \<Rightarrow> None
     }"

fun until_close :: "bytes \<Rightarrow> (bytes \<times> bytes) option" where
  "until_close [] = None"
| "until_close (c # s) =
     (case match_close (c # s) of
        Some r \<Rightarrow> Some ([], r)
      | None \<Rightarrow> map_option (\<lambda>(b, r). (c # b, r)) (until_close s))"

text \<open>\<open>formRE\<close>: the attributes and the content; \<open>inputRE\<close>: the attributes.\<close>

definition match_form :: "bytes \<Rightarrow> ((bytes \<times> bytes) \<times> bytes) option" where
  "match_form s = do { (attrs, t) \<leftarrow> match_tag ''form'' s; (content, r) \<leftarrow> until_close t; Some ((attrs, content), r) }"

definition match_input :: "bytes \<Rightarrow> (bytes \<times> bytes) option" where
  "match_input s = match_tag ''input'' s"

text \<open>
  \<open>attrRE\<close>: without regard to case, the class of letters also has U+017F and U+212A. What follows a name
  cannot continue it, so that the longest name is the only one to try.
\<close>

definition letter_length :: "bytes \<Rightarrow> nat" where
  "letter_length s =
     (if s \<noteq> [] \<and> (is_lower (hd s) \<or> is_upper (hd s)) then 1
      else if has_prefix s (map chr [197, 191]) then 2
      else if has_prefix s (map chr [226, 132, 170]) then 3
      else 0)"

definition name_length :: "bytes \<Rightarrow> nat" where
  "name_length s = (if s \<noteq> [] \<and> (is_digit (hd s) \<or> hd s = CHR ''_'' \<or> hd s = CHR ''-'') then 1 else letter_length s)"

function name_end :: "bytes \<Rightarrow> nat" where
  "name_end s = (if s = [] \<or> name_length s = 0 then 0 else name_length s + name_end (drop (name_length s) s))"
  by pat_completeness auto
termination by (relation "measure length") auto

declare name_end.simps [simp del]

definition match_value :: "bytes \<Rightarrow> (bytes \<times> bytes) option" where
  "match_value s =
     (case s of
        q # t \<Rightarrow>
          if byte q = 34 \<or> byte q = 39 then
            (case dropWhile (\<lambda>c. c \<noteq> q) t of [] \<Rightarrow> None | _ # r \<Rightarrow> Some (takeWhile (\<lambda>c. c \<noteq> q) t, r))
          else None
      | [] \<Rightarrow> None)"

definition match_attribute :: "bytes \<Rightarrow> ((bytes \<times> bytes) \<times> bytes) option" where
  "match_attribute s =
     (if letter_length s = 0 then None
      else let n = name_end s in
        case dropWhile ascii_space (drop n s) of
          c # t \<Rightarrow>
            if c = CHR ''='' then map_option (\<lambda>(v, r). ((take n s, v), r)) (match_value (dropWhile ascii_space t))
            else None
        | [] \<Rightarrow> None)"

text \<open>\<open>attributes\<close>, as an association list with distinct names.\<close>

fun put_attributes ::
  "(bytes \<Rightarrow> bytes) \<Rightarrow> (bytes \<times> bytes) list \<Rightarrow> (bytes \<times> bytes) list \<Rightarrow> go_error + (bytes \<times> bytes) list" where
  "put_attributes entities [] m = Inr m"
| "put_attributes entities ((k, v) # as) m =
     (if to_lower k \<in> fst ` set m then Inl (Plain ''query login form ambiguous'')
      else put_attributes entities as ((to_lower k, entities v) # m))"

definition attributes :: "(bytes \<Rightarrow> bytes) \<Rightarrow> bytes \<Rightarrow> go_error + (bytes \<times> bytes) list" where
  "attributes entities s = put_attributes entities (find_all match_attribute s) []"

text \<open>A look-up in a Go map: a missing name gives the empty text.\<close>

definition attribute :: "(bytes \<times> bytes) list \<Rightarrow> bytes \<Rightarrow> bytes" where
  "attribute m k = (case map_of m k of None \<Rightarrow> [] | Some v \<Rightarrow> v)"

fun check_inputs :: "(bytes \<Rightarrow> bytes) \<Rightarrow> bytes list \<Rightarrow> bytes list \<Rightarrow> go_error + bytes list" where
  "check_inputs entities [] names = Inr names"
| "check_inputs entities (i # is) names =
     bindE (attributes entities i) (\<lambda>a.
       let name = attribute a ''name'' in
       if name \<notin> {''username'', ''password'', ''login''} then Inl (Plain ''query login additional input unsupported'')
       else if name \<in> set names then Inl (Plain ''query login duplicate input'')
       else check_inputs entities is (name # names))"

fun form_action ::
  "(bytes \<Rightarrow> bytes) \<Rightarrow> (bytes \<Rightarrow> url option) \<Rightarrow> (bytes \<times> bytes) list \<Rightarrow> url option \<Rightarrow> go_error + url option" where
  "form_action entities resolve [] action = Inr action"
| "form_action entities resolve ((attrs, content) # forms) action =
     bindE (attributes entities attrs) (\<lambda>a.
       if attribute a ''id'' \<noteq> ''kc-form-login'' then form_action entities resolve forms action
       else
         bindE (guardE (\<not> (action \<noteq> None \<or> to_lower (attribute a ''method'') \<noteq> ''post''))
                  (Plain ''query login form unsupported'')) (\<lambda>_.
         bindE (check_inputs entities (find_all match_input content) []) (\<lambda>names.
         bindE (guardE (\<not> (''username'' \<notin> set names \<or> ''password'' \<notin> set names))
                  (Plain ''query login fields missing'')) (\<lambda>_.
         case resolve (attribute a ''action'') of
           None \<Rightarrow> Inl (Plain ''query login action invalid'')
         | Some u \<Rightarrow> form_action entities resolve forms (Some u)))))"

section \<open>Authentication\<close>

text \<open>What the login takes from the library: HTML entities, and references resolved against a URL.\<close>

record html_ops =
  ho_unescape :: "bytes \<Rightarrow> bytes"
  ho_resolve :: "url \<Rightarrow> bytes \<Rightarrow> url option"

definition at_page :: "query_client \<Rightarrow> url \<Rightarrow> bool" where
  "at_page c u \<longleftrightarrow> ur_host u = ur_host (ql_base c) \<and> ur_path u = ''/ui/insights/''"

definition login_form :: "query_client \<Rightarrow> bytes" where
  "login_form c =
     encode_values [(''login'', ''Sign In''), (''password'', qc_password (ql_config c)),
                    (''username'', qc_username (ql_config c))]"

definition submit_login ::
  "'w query_network \<Rightarrow> query_client \<Rightarrow> url \<Rightarrow> nat \<Rightarrow> u64 \<Rightarrow> 'w \<Rightarrow> u64 \<times> go_error option \<times> 'w" where
  "submit_login N c u redirects generation w =
     (case login_chain N c u ''POST'' (login_form c) redirects w of
        (Inl e, _, w1) \<Rightarrow> (generation, Some e, w1)
      | (Inr (data, at), _, w1) \<Rightarrow>
          if \<not> at_page c at then (generation, Some (Plain ''query authentication incomplete''), w1)
          else (generation + 1, None, w1))"

definition authenticate ::
  "html_ops \<Rightarrow> 'w query_network \<Rightarrow> query_client \<Rightarrow> u64 \<Rightarrow> u64 \<Rightarrow> 'w \<Rightarrow> u64 \<times> go_error option \<times> 'w" where
  "authenticate H N c previous generation w =
     (if generation \<noteq> previous then (generation, None, w)
      else
        (case login_chain N c ((ql_base c)\<lparr>ur_path := ''/ui/insights/login''\<rparr>) ''GET'' [] 0 w of
           (Inl e, _, w1) \<Rightarrow> (generation, Some e, w1)
         | (Inr (data, at), redirects, w1) \<Rightarrow>
             if at_page c at then (generation + 1, None, w1)
             else
               (case form_action (ho_unescape H) (ho_resolve H at) (find_all match_form data) None of
                  Inl e \<Rightarrow> (generation, Some e, w1)
                | Inr action \<Rightarrow>
                    (case action of
                       None \<Rightarrow> (generation, Some (Plain ''query password destination rejected''), w1)
                     | Some u \<Rightarrow>
                         if \<not> allowed_login c u \<or> ur_host u \<noteq> ur_host (ql_auth c) \<or> ur_path u \<noteq> login_action c
                         then (generation, Some (Plain ''query password destination rejected''), w1)
                         else submit_login N c u redirects generation w1))))"

section \<open>Requests with retries\<close>

text \<open>
  The loop of \<open>get\<close> with the attempts that are left; a login repeats the attempt. The wait doubles with each
  attempt.
\<close>

function query_attempts ::
  "html_ops \<Rightarrow> 'w query_network \<Rightarrow> query_client \<Rightarrow> url \<Rightarrow> nat \<Rightarrow> nat \<Rightarrow> bool \<Rightarrow> u64 \<Rightarrow> 'w
   \<Rightarrow> (go_error + bytes) \<times> u64 \<times> 'w" where
  "query_attempts H N c u left attempt reauthenticated generation w =
     (case left of
        0 \<Rightarrow> (Inl (Plain ''query request failed''), generation, w)
      | Suc rest \<Rightarrow>
          (case query_send_request N c ''GET'' u [] False w of
             (r, w1) \<Rightarrow>
               let again = (if rest = 0 then (Inl (Plain ''query request failed''), generation, w1)
                            else
                              (case qn_wait N (100000000 * 2 ^ attempt) w1 of
                                 (False, w2) \<Rightarrow> (Inl (Plain ''context canceled''), generation, w2)
                               | (True, w2) \<Rightarrow>
                                   query_attempts H N c u rest (Suc attempt) reauthenticated generation w2))
               in case r of
                    Inl e \<Rightarrow> again
                  | Inr (data, status, location) \<Rightarrow>
                      if status = 200 then (Inr data, generation, w1)
                      else if status = 401 \<and> \<not> reauthenticated then
                        (case authenticate H N c generation generation w1 of
                           (g, Some e, w2) \<Rightarrow> (Inl e, g, w2)
                         | (g, None, w2) \<Rightarrow> query_attempts H N c u left attempt True g w2)
                      else if status \<noteq> 429 \<and> status < 500
                      then (Inl (Plain ''query access rejected''), generation, w1)
                      else again))"
  by pat_completeness auto
termination
  by (relation "measure (\<lambda>(_, _, _, _, left, _, re, _). 2 * left + (if re then 0 else 1))") auto

declare query_attempts.simps [simp del]

definition query_request_get ::
  "html_ops \<Rightarrow> 'w query_network \<Rightarrow> query_client \<Rightarrow> bytes \<Rightarrow> (bytes \<times> bytes) list \<Rightarrow> u64 \<Rightarrow> 'w
   \<Rightarrow> (go_error + bytes) \<times> u64 \<times> 'w" where
  "query_request_get H N c path params generation w =
     query_attempts H N c ((ql_base c)\<lparr>ur_path := path, ur_raw_query := encode_values params\<rparr>)
       (nat (qc_retry_max (ql_config c) + 1)) 0 False generation w"

section \<open>Operations\<close>

definition insights :: bytes where "insights = ''/ui/api/insights/''"

definition query_path_allowed :: "bytes \<Rightarrow> bool" where
  "query_path_allowed path \<longleftrightarrow>
     (if has_prefix path (insights @ ''history/queries/'')
      then valid_query_id (drop (length (insights @ ''history/queries/'')) path)
      else path \<in> {insights @ ''cluster/info'', insights @ ''overview/queries'', insights @ ''history/queries''})"

definition query_get ::
  "html_ops \<Rightarrow> 'w query_network \<Rightarrow> query_client \<Rightarrow> bytes \<Rightarrow> u64 \<times> 'w \<Rightarrow> (u64 \<times> 'w) \<times> (go_error + bytes)" where
  "query_get H N c path k =
     (if \<not> query_path_allowed path then (k, Inl (Plain ''query operation not allowed''))
      else case query_request_get H N c path [] (fst k) (snd k) of (r, g, w) \<Rightarrow> ((g, w), r))"

definition un_scope :: "json \<Rightarrow> bool option option" where
  "un_scope j =
     (case j of
        JNull \<Rightarrow> Some None
      | JObj ms \<Rightarrow> un_field ''allQueries'' (\<lambda>j cur. un_ptr un_bool False j) ms None
      | _ \<Rightarrow> None)"

definition query_scope ::
  "html_ops \<Rightarrow> 'w query_network \<Rightarrow> query_client \<Rightarrow> u64 \<times> 'w \<Rightarrow> (u64 \<times> 'w) \<times> go_error option" where
  "query_scope H N c k =
     (case query_get H N c (insights @ ''cluster/info'') k of
        (k1, Inl e) \<Rightarrow> (k1, Some e)
      | (k1, Inr body) \<Rightarrow>
          (k1, if decode_body un_scope body = Inr (Some True) then None
               else Some (Plain ''query all-query scope required'')))"

definition history_filter :: "go_time \<Rightarrow> go_time \<Rightarrow> bytes" where
  "history_filter start stop =
     json_print (JObj [(''startDate'', JStr (format_rfc3339 (trunc_second start))),
                       (''endDate'', JStr (format_rfc3339 (trunc_second (stop + (1000000000 - 1)))))])"

definition query_history_window ::
  "html_ops \<Rightarrow> 'w query_network \<Rightarrow> query_client \<Rightarrow> go_time \<Rightarrow> go_time \<Rightarrow> u64 \<times> 'w
   \<Rightarrow> (u64 \<times> 'w) \<times> (go_error + bytes)" where
  "query_history_window H N c start stop k =
     (if is_zero start \<or> stop \<le> start then (k, Inl (Plain ''invalid history time bounds''))
      else
        case query_request_get H N c (insights @ ''history/queries'')
               [(''filter'', history_filter start stop), (''sortBy'', ''createDate''), (''sortOrder'', ''desc'')]
               (fst k) (snd k) of
          (r, g, w) \<Rightarrow> ((g, w), r))"

section \<open>Where requests go\<close>

text \<open>The network with a log of the requests that were sent.\<close>

definition query_logged :: "'w query_network \<Rightarrow> ('w \<times> query_request list) query_network" where
  "query_logged N =
     \<lparr>qn_send = (\<lambda>rq (w, log). case qn_send N rq w of (a, w1) \<Rightarrow> (a, (w1, log @ [rq]))),
      qn_wait = (\<lambda>d (w, log). case qn_wait N d w of (b, w1) \<Rightarrow> (b, (w1, log)))\<rparr>"

datatype query_call = AskPath bytes | AskScope | AskWindow go_time go_time

fun query_perform ::
  "html_ops \<Rightarrow> 'w query_network \<Rightarrow> query_client \<Rightarrow> query_call \<Rightarrow> u64 \<times> 'w \<Rightarrow> u64 \<times> 'w" where
  "query_perform H N c (AskPath path) k = fst (query_get H N c path k)"
| "query_perform H N c AskScope k = fst (query_scope H N c k)"
| "query_perform H N c (AskWindow a b) k = fst (query_history_window H N c a b k)"

definition submits :: "query_request \<Rightarrow> bool" where
  "submits rq \<longleftrightarrow> rq_body rq \<noteq> [] \<or> rq_method rq = ''POST''"

definition submission_confined :: "query_client \<Rightarrow> query_request \<Rightarrow> bool" where
  "submission_confined c rq \<longleftrightarrow>
     rq_method rq = ''POST'' \<and> rq_target rq = IdentityTransport \<and> ur_host (rq_url rq) = ur_host (ql_auth c) \<and>
     ur_path (rq_url rq) = login_action c \<and> rq_body rq = login_form c"

definition request_confined :: "query_client \<Rightarrow> query_request \<Rightarrow> bool" where
  "request_confined c rq \<longleftrightarrow>
     ur_scheme (rq_url rq) = ''https'' \<and>
     (if submits rq then rq_role rq = None \<and> allowed_login c (rq_url rq) \<and> submission_confined c rq
      else
        rq_method rq = ''GET'' \<and>
        (case rq_role rq of
           None \<Rightarrow> allowed_login c (rq_url rq)
         | Some _ \<Rightarrow>
             rq_target rq = EngineTransport \<and> ur_host (rq_url rq) = ur_host (ql_base c) \<and>
             query_path_allowed (ur_path (rq_url rq))))"

text \<open>The log grew by at most \<open>n\<close> requests with a property, at most \<open>m\<close> of them with a form.\<close>

definition grows ::
  "(query_request \<Rightarrow> bool) \<Rightarrow> nat \<Rightarrow> nat \<Rightarrow> query_request list \<Rightarrow> query_request list \<Rightarrow> bool" where
  "grows P n m l l' \<longleftrightarrow>
     (\<exists>xs. l' = l @ xs \<and> list_all P xs \<and> length xs \<le> n \<and> length (filter submits xs) \<le> m)"

lemma grows_refl [simp]: "grows P n m l l"
  by (simp add: grows_def)

lemma grows_mono: "grows P n m l l' \<Longrightarrow> n \<le> n' \<Longrightarrow> m \<le> m' \<Longrightarrow> grows P n' m' l l'"
  by (auto simp: grows_def)

lemma grows_trans:
  assumes "grows P n m l l1" "grows P n' m' l1 l2"
  shows "grows P (n + n') (m + m') l l2"
proof -
  from assms obtain xs ys where "l1 = l @ xs" "list_all P xs" "length xs \<le> n" "length (filter submits xs) \<le> m"
    "l2 = l1 @ ys" "list_all P ys" "length ys \<le> n'" "length (filter submits ys) \<le> m'"
    by (auto simp: grows_def)
  then show ?thesis unfolding grows_def by (intro exI [of _ "xs @ ys"]) simp
qed

text \<open>One call of \<open>request\<close>: nothing is sent, or the request to the transport that the URL decides.\<close>

lemma send_request_grows:
  assumes "\<And>t. route_request c u = Some t \<Longrightarrow>
      P \<lparr>rq_method = verb, rq_target = t, rq_url = u, rq_body = body,
         rq_role = (if login then None else Some (''system=ROLE{'' @ qc_role (ql_config c) @ ''}''))\<rparr>"
    and "query_send_request (query_logged N) c verb u body login (w, l) = (r, (w1, l1))"
  shows "grows P 1 (if body \<noteq> [] \<or> verb = ''POST'' then 1 else 0) l l1"
proof (cases "route_request c u")
  case (Some t)
  have "l1 = l @ [\<lparr>rq_method = verb, rq_target = t, rq_url = u, rq_body = body,
      rq_role = (if login then None else Some (''system=ROLE{'' @ qc_role (ql_config c) @ ''}''))\<rparr>]"
    using assms(2) Some
    by (auto simp: query_send_request_def query_logged_def Let_def split: prod.splits query_answer.splits option.splits if_splits)
  with assms(1) [OF Some] show ?thesis by (simp add: grows_def submits_def)
qed (use assms(2) in \<open>simp add: query_send_request_def\<close>)

lemma wait_keeps_log: "snd (snd (qn_wait (query_logged N) d s)) = snd s"
  by (simp add: query_logged_def split: prod.split)

text \<open>A login page over a GET, and the submission of the form, are confined.\<close>

lemma route_https: "route_request c u = Some t \<Longrightarrow> ur_scheme u = ''https''"
  by (simp add: route_request_def split: if_splits)

lemma login_get_confined:
  assumes "allowed_login c u"
  shows "request_confined c \<lparr>rq_method = ''GET'', rq_target = t, rq_url = u, rq_body = [], rq_role = None\<rparr>"
  using assms by (simp add: request_confined_def submits_def allowed_login_def)

lemma login_action_prefix: "has_prefix (login_action c) ''/auth/''"
  by (simp add: login_action_def realm_path_def)

lemma login_post_confined:
  assumes "allowed_login c u" "ur_host u = ur_host (ql_auth c)" "ur_path u = login_action c" "route_request c u = Some t"
  shows "request_confined c \<lparr>rq_method = ''POST'', rq_target = t, rq_url = u, rq_body = login_form c, rq_role = None\<rparr>"
  using assms login_action_prefix [of c]
  by (simp add: request_confined_def submits_def submission_confined_def allowed_login_def route_request_def)

lemma insights_not_auth: "query_path_allowed p \<Longrightarrow> \<not> has_prefix p ''/auth/''"
  by (cases p; cases "tl p") (auto simp: query_path_allowed_def insights_def split: if_splits)

lemma api_get_confined:
  assumes "ur_scheme u = ''https''" "ur_host u = ur_host (ql_base c)" "query_path_allowed (ur_path u)"
    "route_request c u = Some t"
  shows "request_confined c \<lparr>rq_method = ''GET'', rq_target = t, rq_url = u, rq_body = [], rq_role = Some x\<rparr>"
  using assms insights_not_auth [OF assms(3)]
  by (simp add: request_confined_def submits_def route_request_def)

text \<open>A chain follows redirects with GET only, and sends one request more than the redirects it counts.\<close>

definition chain_start :: "query_client \<Rightarrow> url \<Rightarrow> bytes \<Rightarrow> bytes \<Rightarrow> bool" where
  "chain_start c u verb body \<longleftrightarrow>
     verb = ''GET'' \<and> body = [] \<or>
     verb = ''POST'' \<and> body = login_form c \<and> ur_host u = ur_host (ql_auth c) \<and> ur_path u = login_action c"

lemma chain_request_confined:
  assumes "chain_start c u verb body" "allowed_login c u" "route_request c u = Some t"
  shows "request_confined c \<lparr>rq_method = verb, rq_target = t, rq_url = u, rq_body = body, rq_role = None\<rparr>"
  using assms login_get_confined login_post_confined by (auto simp: chain_start_def)

lemma login_chain_grows:
  assumes "chain_start c u verb body" "redirects \<le> 8"
    and "login_chain (query_logged N) c u verb body redirects s = (r, n, s')"
  shows "redirects \<le> n \<and> n \<le> 8 \<and>
     grows (request_confined c) (n - redirects + 1) (if verb = ''POST'' then 1 else 0) (snd s) (snd s')"
  using assms
proof (induction "9 - redirects" arbitrary: u verb body redirects s rule: less_induct)
  case less
  let ?m = "if verb = ''POST'' then 1 else 0 :: nat"
  show ?case
  proof (cases "allowed_login c u")
    case False
    then show ?thesis using less.prems(2,3) by (simp add: login_chain.simps [of _ c u])
  next
    case True
    obtain w l where s: "s = (w, l)" by (cases s)
    obtain x w1 l1 where q: "query_send_request (query_logged N) c verb u body True (w, l) = (x, (w1, l1))"
      by (metis surj_pair)
    have p: "body \<noteq> [] \<or> verb = ''POST'' \<longleftrightarrow> verb = ''POST''" using less.prems(1) by (auto simp: chain_start_def)
    have "grows (request_confined c) 1 (if body \<noteq> [] \<or> verb = ''POST'' then 1 else 0) l l1"
      by (rule send_request_grows [OF _ q]) (simp add: chain_request_confined [OF less.prems(1) True])
    then have g: "grows (request_confined c) 1 ?m l l1" unfolding p .
    show ?thesis
    proof (cases "\<exists>data status nx. x = Inr (data, status, Some nx) \<and> status \<noteq> 200 \<and>
         status \<in> {301, 302, 303, 307, 308} \<and> \<not> (verb = ''POST'' \<and> (status = 307 \<or> status = 308)) \<and> redirects < 8")
      case True
      then obtain data status nx where x: "x = Inr (data, status, Some nx)" "status \<noteq> 200"
        "status \<in> {301, 302, 303, 307, 308}" "\<not> (verb = ''POST'' \<and> (status = 307 \<or> status = 308))" "redirects < 8"
        by blast
      have rec: "login_chain (query_logged N) c nx ''GET'' [] (redirects + 1) (w1, l1) = (r, n, s')"
        using less.prems(3) \<open>allowed_login c u\<close> x by (auto simp: login_chain.simps [of _ c u] s q)
      have "redirects + 1 \<le> n \<and> n \<le> 8 \<and> grows (request_confined c) (n - (redirects + 1) + 1) 0 l1 (snd s')"
        using less.hyps [OF _ _ _ rec] x(5) by (simp add: chain_start_def)
      moreover from this have "grows (request_confined c) (1 + (n - (redirects + 1) + 1)) (?m + 0) l (snd s')"
        using grows_trans [OF g] by blast
      ultimately show ?thesis by (simp add: s Suc_diff_Suc)
    next
      case False
      have "redirects \<le> n \<and> n \<le> 8 \<and> snd s' = l1"
        using less.prems(2,3) \<open>allowed_login c u\<close> False
        by (auto simp: login_chain.simps [of _ c u] s q split: sum.splits prod.splits if_splits option.splits)
      then show ?thesis using grows_mono [OF g] by (simp add: s)
    qed
  qed
qed

text \<open>A login sends at most ten requests, one of them with the form.\<close>

lemma authenticate_grows:
  assumes "authenticate H (query_logged N) c previous generation s = (g, e, s')"
  shows "grows (request_confined c) 10 1 (snd s) (snd s')"
proof (cases "generation = previous")
  case False
  with assms show ?thesis by (simp add: authenticate_def)
next
  case True
  obtain r n s1 where f: "login_chain (query_logged N) c ((ql_base c)\<lparr>ur_path := ''/ui/insights/login''\<rparr>) ''GET'' [] 0 s = (r, n, s1)"
    by (metis surj_pair)
  have a: "n \<le> 8" "grows (request_confined c) (n + 1) 0 (snd s) (snd s1)"
    using login_chain_grows [OF _ _ f] by (simp_all add: chain_start_def)
  have stop: "grows (request_confined c) 10 1 (snd s) (snd s1)" using grows_mono [OF a(2)] a(1) by simp
  show ?thesis
  proof (cases "\<exists>u. allowed_login c u \<and> ur_host u = ur_host (ql_auth c) \<and> ur_path u = login_action c \<and>
      (g, e, s') = submit_login (query_logged N) c u n generation s1")
    case True
    then obtain u where u: "ur_host u = ur_host (ql_auth c)" "ur_path u = login_action c"
      "(g, e, s') = submit_login (query_logged N) c u n generation s1" by blast
    obtain r2 n2 s2 where p: "login_chain (query_logged N) c u ''POST'' (login_form c) n s1 = (r2, n2, s2)"
      by (metis surj_pair)
    have b: "n \<le> n2" "n2 \<le> 8" "grows (request_confined c) (n2 - n + 1) 1 (snd s1) (snd s2)"
      using login_chain_grows [OF _ a(1) p] u by (simp_all add: chain_start_def)
    have "snd s2 = snd s'" using u(3) p by (auto simp: submit_login_def split: sum.splits prod.splits if_splits)
    moreover have "grows (request_confined c) (n + 1 + (n2 - n + 1)) (0 + 1) (snd s) (snd s2)"
      by (rule grows_trans [OF a(2) b(3)])
    ultimately show ?thesis using grows_mono [of "request_confined c" "n + 1 + (n2 - n + 1)" 1] b(1,2) by simp
  next
    case False
    have "snd s' = snd s1"
      using assms \<open>generation = previous\<close> False f
      by (auto simp: authenticate_def split: sum.splits option.splits if_splits prod.splits)
    with stop show ?thesis by simp
  qed
qed

definition api_url :: "query_client \<Rightarrow> url \<Rightarrow> bool" where
  "api_url c u \<longleftrightarrow> ur_scheme u = ''https'' \<and> ur_host u = ur_host (ql_base c) \<and> query_path_allowed (ur_path u)"

lemma api_request_grows:
  assumes "api_url c u" "query_send_request (query_logged N) c ''GET'' u [] False s = (r, s1)"
  shows "grows (request_confined c) 1 0 (snd s) (snd s1)"
proof -
  obtain w l w1 l1 where s: "s = (w, l)" "s1 = (w1, l1)" by (cases s; cases s1)
  have "grows (request_confined c) 1 (if [] \<noteq> ([] :: bytes) \<or> ''GET'' = ''POST'' then 1 else 0) l l1"
    by (rule send_request_grows [OF _ assms(2) [unfolded s]])
       (use assms(1) in \<open>simp add: api_url_def api_get_confined\<close>)
  then show ?thesis by (simp add: s)
qed

text \<open>How an attempt continues: an answer ends the loop, or a login or a wait goes before the next request.\<close>

definition attempts_bound :: "query_client \<Rightarrow> nat \<Rightarrow> bool \<Rightarrow> query_request list \<Rightarrow> query_request list \<Rightarrow> bool" where
  "attempts_bound c left re l l' \<longleftrightarrow>
     grows (request_confined c) (left + (if re then 0 else 11)) (if re then 0 else 1) l l'"

lemma attempts_bound_refl [simp]: "attempts_bound c left re l l"
  by (simp add: attempts_bound_def)

lemma attempts_bound_first: "grows (request_confined c) 1 0 l l' \<Longrightarrow> attempts_bound c (Suc rest) re l l'"
  unfolding attempts_bound_def by (erule grows_mono) simp_all

lemma attempts_bound_wait:
  assumes "grows (request_confined c) 1 0 l l1" "attempts_bound c rest re l1 l2"
  shows "attempts_bound c (Suc rest) re l l2"
  using grows_trans [OF assms(1) assms(2) [unfolded attempts_bound_def]] by (simp add: attempts_bound_def)

lemma attempts_bound_login:
  assumes "grows (request_confined c) 1 0 l l1" "grows (request_confined c) 10 1 l1 l2"
    "attempts_bound c left True l2 l3"
  shows "attempts_bound c left False l l3"
  using grows_trans [OF grows_trans [OF assms(1,2)] assms(3) [unfolded attempts_bound_def]]
  by (simp add: attempts_bound_def numeral_eq_Suc)

lemma query_attempts_grows:
  assumes "api_url c u"
  shows "attempts_bound c left re (snd s) (snd (snd (snd (query_attempts H (query_logged N) c u left attempt re generation s))))"
proof (induction "2 * left + (if re then 0 else 1)" arbitrary: left attempt re generation s rule: less_induct)
  case less
  show ?case
  proof (cases left)
    case 0
    then show ?thesis by (simp add: query_attempts.simps)
  next
    case (Suc rest)
    obtain r s1 where q: "query_send_request (query_logged N) c ''GET'' u [] False s = (r, s1)" by (metis surj_pair)
    note g = api_request_grows [OF assms q]
    note first = attempts_bound_first [OF g, of rest re]
    obtain go s2 where w: "qn_wait (query_logged N) (100000000 * 2 ^ attempt) s1 = (go, s2)" by (metis surj_pair)
    have l2: "snd s2 = snd s1" using wait_keeps_log [of N "100000000 * 2 ^ attempt" s1] w by simp
    have again: "attempts_bound c left re (snd s) (snd (snd (snd
        (query_attempts H (query_logged N) c u rest (Suc attempt) re generation s2))))"
      unfolding Suc using less.hyps [of rest re s2] by (intro attempts_bound_wait [OF g]) (simp add: Suc l2)
    obtain e g' s3 where a: "authenticate H (query_logged N) c generation generation s1 = (g', e, s3)" by (metis surj_pair)
    note grown = authenticate_grows [OF a]
    have login: "attempts_bound c left False (snd s) (snd (snd (snd
        (query_attempts H (query_logged N) c u left attempt True g' s3))))" if "\<not> re"
      using less.hyps [of left True s3] that by (intro attempts_bound_login [OF g grown]) simp
    have failed: "attempts_bound c left False (snd s) (snd s3)"
      by (rule attempts_bound_login [OF g grown]) simp
    let ?stop = "if rest = 0 then (Inl (Plain ''query request failed''), generation, s1)
      else if go then query_attempts H (query_logged N) c u rest (Suc attempt) re generation s2
      else (Inl (Plain ''context canceled''), generation, s2)"
    have stop: "attempts_bound c left re (snd s) (snd (snd (snd ?stop)))" using first again by (cases rest) (simp_all add: Suc l2)
    have eq: "query_attempts H (query_logged N) c u left attempt re generation s =
       (case r of
          Inl e \<Rightarrow> ?stop
        | Inr (data, status, location) \<Rightarrow>
            if status = 200 then (Inr data, generation, s1)
            else if status = 401 \<and> \<not> re then
              (case e of Some x \<Rightarrow> (Inl x, g', s3) | None \<Rightarrow> query_attempts H (query_logged N) c u left attempt True g' s3)
            else if status \<noteq> 429 \<and> status < 500 then (Inl (Plain ''query access rejected''), generation, s1)
            else ?stop)"
      by (subst query_attempts.simps) (simp add: Suc q w a Let_def split: sum.split option.split bool.split)
    show ?thesis
    proof (cases "\<exists>data location. r = Inr (data, 401, location) \<and> \<not> re")
      case True
      then show ?thesis unfolding eq using login failed by (auto split: option.split)
    next
      case False
      then show ?thesis using stop first unfolding eq by (auto simp: Suc split: sum.split if_splits)
    qed
  qed
qed

lemma query_get_bound:
  assumes "ur_scheme (ql_base c) = ''https''" "query_path_allowed path"
    "query_request_get H (query_logged N) c path params g s = (r, g', s')"
  shows "grows (request_confined c) (nat (qc_retry_max (ql_config c) + 1) + 11) 1 (snd s) (snd s')"
proof -
  have "api_url c ((ql_base c)\<lparr>ur_path := path, ur_raw_query := encode_values params\<rparr>)"
    using assms(1,2) by (simp add: api_url_def)
  from query_attempts_grows [OF this, of "nat (qc_retry_max (ql_config c) + 1)" False s H N 0 g] assms(3)
  show ?thesis by (simp add: query_request_get_def attempts_bound_def)
qed

lemma query_perform_bound:
  assumes "ur_scheme (ql_base c) = ''https''"
  shows "grows (request_confined c) (nat (qc_retry_max (ql_config c) + 1) + 11) 1 (snd (snd k))
           (snd (snd (query_perform H (query_logged N) c call k)))"
proof -
  have get: "grows (request_confined c) (nat (qc_retry_max (ql_config c) + 1) + 11) 1 (snd (snd k))
      (snd (snd (fst (query_get H (query_logged N) c path k))))" for path
    using query_get_bound [OF assms, where s = "snd k"]
    by (auto simp: query_get_def split: prod.split)
  show ?thesis
  proof (cases call)
    case (AskPath path)
    with get show ?thesis by simp
  next
    case AskScope
    have "fst (query_scope H (query_logged N) c k) = fst (query_get H (query_logged N) c (insights @ ''cluster/info'') k)"
      by (simp add: query_scope_def split: prod.split sum.split)
    with get AskScope show ?thesis by simp
  next
    case (AskWindow a b)
    have "query_path_allowed (insights @ ''history/queries'')" by (simp add: query_path_allowed_def insights_def)
    from query_get_bound [OF assms this, where s = "snd k"] AskWindow show ?thesis
      by (auto simp: query_history_window_def split: prod.split)
  qed
qed

lemma new_query_client_base:
  assumes "new_query_client tls q allow = Inr c"
  shows "ur_scheme (ql_base c) = ''https''" "ql_config c = q" "qc_base_url q = Some (ql_base c)"
    "qc_auth_url q = Some (ql_auth c)" "qc_insecure q \<Longrightarrow> allow"
  using assms by (auto simp: new_query_client_def split: option.splits)

text \<open>
  Claim C38. Where the query client sends what: starting from any session, every call of a client that \<open>New\<close>
  accepted sends https requests only; a request for data is a GET to the engine's host over the engine's
  transport with a path of the allow list and the role header; a login page is a GET to an allowed login
  address; the name and the password leave only in the form, in a POST over the identity transport to the
  login action of the configured realm on the identity host, never again on a redirect and at most once per
  call. A call sends at most twelve requests more than its retries.
\<close>

theorem password_stays_with_the_identity_provider:
  assumes "new_query_client tls q allow = Inr c"
    and "query_perform H (query_logged N) c call (g, (w, [])) = (g', (w', log))"
  shows "list_all (request_confined c) log \<and> length (filter submits log) \<le> 1 \<and>
         length log \<le> nat (qc_retry_max q + 1) + 11"
proof -
  have "grows (request_confined c) (nat (qc_retry_max q + 1) + 11) 1 [] log"
    using query_perform_bound [OF new_query_client_base(1) [OF assms(1)], of "(g, (w, []))" H N call] assms(2)
      new_query_client_base(2) [OF assms(1)] by simp
  then show ?thesis by (auto simp: grows_def)
qed

text \<open>
  A session that has expired: the engine answers 401, sends the login to the identity provider, which answers with
  its form; the form is submitted, the redirect leads back to the engine, and the request is repeated.
\<close>

definition example_url :: "bytes \<Rightarrow> bytes \<Rightarrow> url" where
  "example_url host path =
     \<lparr>ur_scheme = ''https'', ur_user = None, ur_host = host, ur_path = path, ur_raw_path = [], ur_raw_query = [],
      ur_fragment = []\<rparr>"

definition example_query :: query_config where
  "example_query =
     zero_query\<lparr>qc_base_url := Some (example_url ''engine'' []), qc_auth_url := Some (example_url ''idp'' []),
       qc_realm := ''r'', qc_role := ''reader'', qc_username := ''u'', qc_password := ''p'', qc_response_max := 1000\<rparr>"

definition example_query_client :: query_client where
  "example_query_client =
     \<lparr>ql_base = example_url ''engine'' [], ql_auth = example_url ''idp'' [], ql_config = example_query\<rparr>"

definition example_pages :: "bytes list" where
  "example_pages =
     [''/ui/api/insights/overview/queries'', ''/ui/insights/login'', ''/auth/realms/r/protocol/openid-connect/auth'',
      ''/auth/realms/r/login-actions/authenticate'', ''/ui/insights/'', ''/ui/api/insights/overview/queries'']"

definition quoted :: "bytes \<Rightarrow> bytes" where
  "quoted s = chr 34 # s @ [chr 34]"

definition example_form :: bytes where
  "example_form =
     ''<body><form id='' @ quoted ''kc-form-login'' @ '' METHOD='' @ quoted ''post'' @ '' action='' @ quoted ''go'' @ ''>'' @
     ''<input name='' @ quoted ''username'' @ ''><input name='' @ quoted ''password'' @ ''></form >''"

definition example_html :: html_ops where
  "example_html =
     \<lparr>ho_unescape = id, ho_resolve = (\<lambda>u r. if r = ''go'' then Some (example_url ''idp'' (example_pages ! 3)) else None)\<rparr>"

definition example_answers :: "query_answer list" where
  "example_answers =
     [QueryAnswer 401 (Some []) None,
      QueryAnswer 302 (Some []) (Some (example_url ''idp'' (example_pages ! 2))),
      QueryAnswer 200 (Some example_form) None,
      QueryAnswer 302 (Some []) (Some (example_url ''engine'' (example_pages ! 4))),
      QueryAnswer 200 (Some []) None,
      QueryAnswer 200 (Some ''[]'') None]"

definition example_query_network :: "nat query_network" where
  "example_query_network =
     \<lparr>qn_send = (\<lambda>rq n. (if n < 6 then example_answers ! n else NoAnswer, n + 1)), qn_wait = (\<lambda>d n. (True, n))\<rparr>"

definition example_requests :: "query_request list" where
  "example_requests =
     (let get = (\<lambda>t host i role. \<lparr>rq_method = ''GET'', rq_target = t, rq_url = example_url host (example_pages ! i),
                                   rq_body = [], rq_role = role\<rparr>)
      in [get EngineTransport ''engine'' 0 (Some ''system=ROLE{reader}''), get EngineTransport ''engine'' 1 None,
          get IdentityTransport ''idp'' 2 None,
          \<lparr>rq_method = ''POST'', rq_target = IdentityTransport, rq_url = example_url ''idp'' (example_pages ! 3),
           rq_body = login_form example_query_client, rq_role = None\<rparr>,
          get EngineTransport ''engine'' 4 None, get EngineTransport ''engine'' 5 (Some ''system=ROLE{reader}'')])"

lemma example_query_new: "new_query_client (\<lambda>f. None) example_query False = Inr example_query_client"
  by (simp add: new_query_client_def example_query_def example_query_client_def zero_query_def example_url_def)

lemmas form_steps =
  match_attribute_def letter_length_def name_length_def name_end.simps match_value_def match_tag_def match_form_def
  match_input_def match_close_def word_char_def is_lower_def is_upper_def is_digit_def byte_def chr_def char_of_def bit_0
  quoted_def ascii_space_def

lemma to_lower_map:
  assumes "\<forall>c \<in> set s. byte c < 128"
  shows "to_lower s = map (\<lambda>c. if is_upper c then chr (byte c + 32) else c) s"
proof -
  have "utf8_runes s = map (\<lambda>c. [c]) s" using assms by (intro utf8_runes_ascii) simp
  moreover have "concat (map lower_rune (map (\<lambda>c. [c]) s)) = map (\<lambda>c. if is_upper c then chr (byte c + 32) else c) s"
    by (induction s) (auto simp: lower_rune_def)
  ultimately show ?thesis by (simp add: to_lower_def)
qed

lemma ascii_lower:
  "to_lower ''id'' = ''id''" "to_lower ''METHOD'' = ''method''" "to_lower ''action'' = ''action''"
  "to_lower ''name'' = ''name''" "to_lower ''post'' = ''post''"
  by (simp_all add: to_lower_map is_upper_def byte_def chr_def char_of_def bit_0)

lemma example_form_found:
  "find_all match_form example_form =
     [('' id='' @ quoted ''kc-form-login'' @ '' METHOD='' @ quoted ''post'' @ '' action='' @ quoted ''go'',
       ''<input name='' @ quoted ''username'' @ ''><input name='' @ quoted ''password'' @ ''>'')]"
  by code_simp

lemma example_form_attributes:
  "attributes id ('' id='' @ quoted ''kc-form-login'' @ '' METHOD='' @ quoted ''post'' @ '' action='' @ quoted ''go'') =
     Inr [(''action'', ''go''), (''method'', ''post''), (''id'', ''kc-form-login'')]"
  by (simp add: attributes_def form_steps ascii_lower)

lemma example_form_inputs:
  "check_inputs id (find_all match_input
     (''<input name='' @ quoted ''username'' @ ''><input name='' @ quoted ''password'' @ ''>'')) [] =
   Inr [''password'', ''username'']"
  by (simp add: attributes_def attribute_def form_steps ascii_lower)

lemma example_form_action:
  "form_action id (ho_resolve example_html u) (find_all match_form example_form) None =
     Inr (Some (example_url ''idp'' (example_pages ! 3)))"
  by (simp add: example_form_found example_form_attributes example_form_inputs attribute_def example_html_def guardE_def
      ascii_lower del: append.simps)

lemma example_network_steps:
  "qn_send (query_logged example_query_network) rq (n, l) =
     (if n < 6 then example_answers ! n else NoAnswer, (n + 1, l @ [rq]))"
  by (simp add: query_logged_def example_query_network_def)

lemma example_client_facts:
  "ql_base example_query_client = example_url ''engine'' []" "ql_auth example_query_client = example_url ''idp'' []"
  "qc_retry_max (ql_config example_query_client) = 0" "qc_response_max (ql_config example_query_client) = 1000"
  "qc_role (ql_config example_query_client) = ''reader''" "qc_realm (ql_config example_query_client) = ''r''"
  "\<not> 1000 < length example_form"
  by (simp_all add: example_query_client_def example_query_def zero_query_def example_form_def quoted_def)

lemma example_request:
  "query_send_request (query_logged example_query_network) example_query_client verb u body login (n, l) =
     (case route_request example_query_client u of
        None \<Rightarrow> (Inl (Plain ''query transport failed''), (n, l))
      | Some t \<Rightarrow>
          (let rq = \<lparr>rq_method = verb, rq_target = t, rq_url = u, rq_body = body,
                     rq_role = (if login then None else Some (''system=ROLE{reader}''))\<rparr>
           in case (if n < 6 then example_answers ! n else NoAnswer) of
                NoAnswer \<Rightarrow> (Inl (Plain ''query transport failed''), (n + 1, l @ [rq]))
              | QueryAnswer status data location \<Rightarrow>
                  (case data of
                     None \<Rightarrow> (Inl (Plain ''query response exceeds bounds''), (n + 1, l @ [rq]))
                   | Some bs \<Rightarrow>
                       if int (length bs) > 1000 then (Inl (Plain ''query response exceeds bounds''), (n + 1, l @ [rq]))
                       else (Inr (bs, status, location), (n + 1, l @ [rq])))))"
  by (simp add: query_send_request_def example_network_steps example_client_facts Let_def split: option.split query_answer.split)

lemmas example_steps = example_request example_client_facts route_request_def example_url_def allowed_login_def
  realm_path_def login_action_def example_pages_def example_answers_def

lemma example_asks:
  "query_perform example_html (query_logged example_query_network) example_query_client
     (AskPath ''/ui/api/insights/overview/queries'') (0, (0, [])) = (1, (6, example_requests))"
proof -
  let ?N = "query_logged example_query_network" and ?c = example_query_client
  let ?rs = "\<lambda>n. take n example_requests"
  have page: "login_chain ?N ?c (example_url ''engine'' ''/ui/insights/login'') ''GET'' [] 0 (1, ?rs 1) =
      (Inr (example_form, example_url ''idp'' (example_pages ! 2)), 1, (3, ?rs 3))"
    by (simp add: login_chain.simps example_steps example_requests_def Let_def)
  have form: "form_action (ho_unescape example_html) (ho_resolve example_html u) (find_all match_form example_form) None =
      Inr (Some (example_url ''idp'' (example_pages ! 3)))" for u
    using example_form_action [of u] by (simp add: example_html_def)
  have submit: "submit_login ?N ?c (example_url ''idp'' (example_pages ! 3)) 1 0 (3, ?rs 3) = (1, None, (5, ?rs 5))"
    by (simp add: submit_login_def login_chain.simps example_steps example_requests_def Let_def at_page_def)
  have "authenticate example_html ?N ?c 0 0 (1, ?rs 1) = (1, None, (5, ?rs 5))"
  proof -
    have "(ql_base ?c)\<lparr>ur_path := ''/ui/insights/login''\<rparr> = example_url ''engine'' ''/ui/insights/login''"
      by (simp add: example_client_facts example_url_def)
    moreover have "\<not> at_page ?c (example_url ''idp'' (example_pages ! 2))"
      by (simp add: at_page_def example_client_facts example_url_def)
    moreover have "allowed_login ?c (example_url ''idp'' (example_pages ! 3))"
      "ur_host (example_url ''idp'' (example_pages ! 3)) = ur_host (ql_auth ?c)"
      "ur_path (example_url ''idp'' (example_pages ! 3)) = login_action ?c"
      by (simp_all add: example_steps)
    ultimately show ?thesis unfolding authenticate_def by (simp add: page form submit del: One_nat_def)
  qed
  then show ?thesis
    by (simp add: query_get_def query_path_allowed_def insights_def query_request_get_def query_attempts.simps
        example_steps example_requests_def Let_def)
qed

lemma password_stays_with_the_identity_provider_witness:
  "list_all (request_confined example_query_client) example_requests \<and> length (filter submits example_requests) = 1"
proof -
  have "length (filter submits example_requests) \<le> 1 \<and> list_all (request_confined example_query_client) example_requests"
    using password_stays_with_the_identity_provider [OF example_query_new example_asks] by simp
  moreover have "length (filter submits example_requests) \<ge> 1" by (simp add: example_requests_def submits_def Let_def)
  ultimately show ?thesis by simp
qed

end
