(* ===== verification/History_Sources.thy ===== *)
theory History_Sources
  imports History_Recording Log_Pipeline Query_Pipeline Ddae_Client Query_Client
begin

text \<open>
  The two sources of a backfill worker (internal/historyscan/adapters.go): serviceability logs from the
  management interface into the log state, and queries from the query engine into the query state. The
  interfaces \<open>logAPI\<close> and \<open>queryAPI\<close> are records of operations on a world with the clock; \<open>ddae_log_api\<close> and
  \<open>engine_query_api\<close> are the two clients behind them. A source is a \<open>source_ops\<close> of the worker.
\<close>

text \<open>\<open>Identity\<close>: what the progress belongs to.\<close>

definition history_identity :: "bytes \<Rightarrow> bytes \<Rightarrow> bytes \<Rightarrow> bytes" where
  "history_identity source origin path =
     sha256_hex (source @ [chr 0] @ origin @ [chr 0] @ path @ [chr 0] @ ''v1'')"

section \<open>Serviceability logs\<close>

record 'w log_api =
  lg_window :: "go_time \<Rightarrow> go_time \<Rightarrow> 'w \<Rightarrow> (go_error + log_list) \<times> 'w"
  lg_detail :: "bytes \<Rightarrow> 'w \<Rightarrow> (go_error + log_detail) \<times> 'w"
  lg_clock :: "'w \<Rightarrow> go_time \<times> 'w"

definition ddae_log_api :: "'w network \<Rightarrow> ddae_client \<Rightarrow> (token_manager \<times> 'w) log_api" where
  "ddae_log_api N c =
     \<lparr>lg_window = (\<lambda>a b (m, w). ddae_log_window N c a b m w),
      lg_detail = (\<lambda>i (m, w). ddae_log_detail N c i m w),
      lg_clock = (\<lambda>(m, w). case nw_now N w of (t, w1) \<Rightarrow> (t, (m, w1)))\<rparr>"

fun log_items :: "alert_list_item list \<Rightarrow> bytes set \<Rightarrow> go_error + item list" where
  "log_items [] seen = Inr []"
| "log_items (i # is) seen =
     (if validate_log_id (li_id i) \<noteq> Inr () \<or> li_id i \<in> seen then Inl (Plain ''history log identity invalid'')
      else case li_updated_on i of
        None \<Rightarrow> Inl (Plain ''history log identity invalid'')
      | Some s \<Rightarrow>
          (case parse_zoned s of
             None \<Rightarrow> Inl (Plain ''history log timestamp invalid'')
           | Some at \<Rightarrow>
               bindE (log_items is (insert (li_id i) seen)) (\<lambda>items.
               Inr (\<lparr>it_id = li_id i, it_marker = format_rfc3339 (zt_at at), it_when = at\<rparr> # items))))"

definition log_page :: "log_list \<Rightarrow> go_error + page" where
  "log_page l =
     (case (ll_total_records l, ll_threshold l) of
        (Some tr, Some threshold) \<Rightarrow>
          bindE (guardE (\<not> (ll_malformed l \<or> tr < 0 \<or> threshold \<le> 0 \<or> int (length (ll_results l)) > threshold \<or>
                            int (length (ll_results l)) > tr)) (Plain ''history log list metadata invalid'')) (\<lambda>_.
          bindE (log_items (ll_results l) {}) (\<lambda>items.
          Inr \<lparr>pg_items = items,
               pg_complete = (int (length items) = tr \<and> int (length items) < threshold)\<rparr>))
      | _ \<Rightarrow> Inl (Plain ''history log list metadata invalid''))"

definition log_source_list :: "'w log_api \<Rightarrow> window \<Rightarrow> 'w \<times> 'd \<Rightarrow> ('w \<times> 'd) \<times> (go_error + page)" where
  "log_source_list A win k =
     (case lg_window A (zt_at (w_start win)) (zt_at (w_end win)) (fst k) of
        (Inl e, w1) \<Rightarrow> ((w1, snd k), Inl e)
      | (Inr l, w1) \<Rightarrow> ((w1, snd k), log_page l))"

definition log_source_record ::
  "'w log_api \<Rightarrow> 'd bolt \<Rightarrow> store_options \<Rightarrow> bytes \<Rightarrow> item \<Rightarrow> 'w \<times> 'd \<Rightarrow> ('w \<times> 'd) \<times> go_error option" where
  "log_source_record A B opts source i k =
     (case lg_detail A (it_id i) (fst k) of
        (Inl e, w1) \<Rightarrow> ((w1, snd k), Some e)
      | (Inr d, w1) \<Rightarrow>
          (case ld_updated_on d of
             None \<Rightarrow> ((w1, snd k), Some (Plain ''history log detail timestamp missing''))
           | Some s \<Rightarrow>
               (case parse_rfc3339 s of
                  None \<Rightarrow> ((w1, snd k), Some (Plain ''history log detail predates list''))
                | Some at \<Rightarrow>
                    if at < zt_at (it_when i) then ((w1, snd k), Some (Plain ''history log detail predates list''))
                    else
                      (case lg_clock A w1 of
                         (now, w2) \<Rightarrow>
                           (case build_log_event source (it_id i) d now of
                              Inl e \<Rightarrow> ((w2, snd k), Some e)
                            | Inr event \<Rightarrow>
                                (case log_enqueue B opts event (format_rfc3339 at) now (snd k) of
                                   (s', _, err) \<Rightarrow>
                                     ((w2, s'),
                                      case err of
                                        None \<Rightarrow> None
                                      | Some e \<Rightarrow>
                                          Some (if errors_is e log_full_error then err_full
                                                else Joined [err_corrupt, e]))))))))"

definition log_source :: "'w log_api \<Rightarrow> 'd bolt \<Rightarrow> store_options \<Rightarrow> bytes \<Rightarrow> ('w \<times> 'd) source_ops" where
  "log_source A B opts source = \<lparr>src_list = log_source_list A, src_record = log_source_record A B opts source\<rparr>"

text \<open>\<open>NewLogSource\<close> on the configuration.\<close>

definition new_log_source ::
  "(bytes \<Rightarrow> go_error option) \<Rightarrow> 'w network \<Rightarrow> config \<Rightarrow> 'd bolt \<Rightarrow> store_options
   \<Rightarrow> go_error + ((token_manager \<times> 'w) \<times> 'd) source_ops" where
  "new_log_source tls N cfg B opts =
     bindE (new_client tls cfg) (\<lambda>c. Inr (log_source (ddae_log_api N c) B opts (tg_source (cf_target cfg))))"

section \<open>Queries\<close>

record 'w query_history_api =
  qh_scope :: "'w \<Rightarrow> 'w \<times> go_error option"
  qh_window :: "go_time \<Rightarrow> go_time \<Rightarrow> 'w \<Rightarrow> 'w \<times> (go_error + bytes)"
  qh_get :: "bytes \<Rightarrow> 'w \<Rightarrow> 'w \<times> (go_error + bytes)"
  qh_clock :: "'w \<Rightarrow> go_time"

definition engine_query_api ::
  "html_ops \<Rightarrow> 'w query_network \<Rightarrow> ('w \<Rightarrow> go_time) \<Rightarrow> query_client \<Rightarrow> (u64 \<times> 'w) query_history_api" where
  "engine_query_api H N clock c =
     \<lparr>qh_scope = query_scope H N c, qh_window = query_history_window H N c, qh_get = query_get H N c,
      qh_clock = clock \<circ> snd\<rparr>"

definition query_item :: "history_row \<Rightarrow> item" where
  "query_item r = \<lparr>it_id = hr_id r, it_marker = [], it_when = hr_created r\<rparr>"

definition query_page :: "bytes \<Rightarrow> int \<Rightarrow> go_error + page" where
  "query_page body limit =
     bindE (decode_history body limit) (\<lambda>rows.
     Inr \<lparr>pg_items = map query_item rows, pg_complete = (length rows < 1000)\<rparr>)"

definition query_source_list ::
  "'w query_history_api \<Rightarrow> int \<Rightarrow> window \<Rightarrow> 'w \<times> 'd \<Rightarrow> ('w \<times> 'd) \<times> (go_error + page)" where
  "query_source_list A limit win k =
     (case qh_scope A (fst k) of
        (w1, Some e) \<Rightarrow> ((w1, snd k), Inl e)
      | (w1, None) \<Rightarrow>
          (case qh_window A (zt_at (w_start win)) (zt_at (w_end win)) w1 of
             (w2, Inl e) \<Rightarrow> ((w2, snd k), Inl e)
           | (w2, Inr body) \<Rightarrow> ((w2, snd k), query_page body limit)))"

definition query_source_record ::
  "'f float_ops \<Rightarrow> 'w query_history_api \<Rightarrow> 'd bolt \<Rightarrow> query_options \<Rightarrow> bytes \<Rightarrow> item \<Rightarrow> 'w \<times> 'd
   \<Rightarrow> ('w \<times> 'd) \<times> go_error option" where
  "query_source_record F A B opts source i k =
     (let after = qh_clock A (fst (qh_get A (detail_path (it_id i)) (fst k))) in
      case fetch_detail F (qh_get A) (it_id i) source (qh_clock A (fst k)) after (fst k) of
        (w1, Inl e) \<Rightarrow> ((w1, snd k), Some e)
      | (w1, Inr event) \<Rightarrow>
          (case record_query F B opts event (snd k) of
             (s', err) \<Rightarrow>
               ((w1, s'),
                case err of
                  None \<Rightarrow> None
                | Some e \<Rightarrow>
                    Some (if errors_is e err_query_expired then err_expired
                          else if errors_is e err_query_full then err_full
                          else Joined [err_corrupt, e]))))"

definition query_source ::
  "'f float_ops \<Rightarrow> 'w query_history_api \<Rightarrow> 'd bolt \<Rightarrow> query_options \<Rightarrow> bytes \<Rightarrow> int \<Rightarrow> ('w \<times> 'd) source_ops" where
  "query_source F A B opts source limit =
     \<lparr>src_list = query_source_list A limit, src_record = query_source_record F A B opts source\<rparr>"

text \<open>\<open>NewQuerySource\<close> on the configuration.\<close>

definition new_query_source ::
  "(bytes \<Rightarrow> go_error option) \<Rightarrow> html_ops \<Rightarrow> 'w query_network \<Rightarrow> ('w \<Rightarrow> go_time) \<Rightarrow> 'f float_ops \<Rightarrow> config \<Rightarrow> 'd bolt
   \<Rightarrow> query_options \<Rightarrow> go_error + ((u64 \<times> 'w) \<times> 'd) source_ops" where
  "new_query_source tls H N clock F cfg B opts =
     bindE (new_query_client tls (cf_query cfg) (md_allow_insecure (cf_modes cfg))) (\<lambda>c.
     Inr (query_source F (engine_query_api H N clock c) B opts (tg_source (cf_target cfg)) (qc_max_history (cf_query cfg))))"

section \<open>What the sources list\<close>

text \<open>The items of a page are valid, distinct and typed, so that the progress can store them.\<close>

lemma log_items_wf:
  assumes "log_items is seen = Inr items"
  shows "map it_id items = map li_id is \<and> distinct (map it_id items) \<and> seen \<inter> it_id ` set items = {} \<and>
    (\<forall>i \<in> set items. validate_log_id (it_id i) = Inr () \<and> item_typed i) \<and>
    (\<forall>a \<in> set is. \<exists>s at. li_updated_on a = Some s \<and> parse_rfc3339 s = Some at \<and>
       (\<exists>i \<in> set items. it_id i = li_id a \<and> zt_at (it_when i) = at))"
  using assms
proof (induction "is" arbitrary: seen items)
  case (Cons a as)
  then obtain s at rest where u: "li_updated_on a = Some s" and c: "validate_log_id (li_id a) = Inr ()" "li_id a \<notin> seen" "parse_zoned s = Some at"
    "log_items as (insert (li_id a) seen) = Inr rest"
    "items = \<lparr>it_id = li_id a, it_marker = format_rfc3339 (zt_at at), it_when = at\<rparr> # rest"
    by (auto split: if_splits option.splits)
  have "utf8_valid (li_id a)" using c(1) by (auto simp: validate_log_id_Inr)
  moreover have "utf8_valid (format_rfc3339 (zt_at at))"
    using format_rfc3339_plain [of _ "zt_at at"] by (intro utf8_valid_ascii) fastforce
  ultimately have i: "item_typed \<lparr>it_id = li_id a, it_marker = format_rfc3339 (zt_at at), it_when = at\<rparr>"
    using parse_zoned_minutes [OF c(3)] by (simp add: item_typed_def)
  have ih: "map it_id rest = map li_id as" "distinct (map it_id rest)" "insert (li_id a) seen \<inter> it_id ` set rest = {}"
    "\<forall>i \<in> set rest. validate_log_id (it_id i) = Inr () \<and> item_typed i"
    "\<forall>a \<in> set as. \<exists>s at. li_updated_on a = Some s \<and> parse_rfc3339 s = Some at \<and>
       (\<exists>i \<in> set rest. it_id i = li_id a \<and> zt_at (it_when i) = at)"
    using Cons.IH [OF c(4)] by blast+
  have "\<exists>s at'. li_updated_on a = Some s \<and> parse_rfc3339 s = Some at' \<and>
      (\<exists>i \<in> set items. it_id i = li_id a \<and> zt_at (it_when i) = at')"
    using u c(3,5) by (simp add: parse_zoned_at)
  moreover have "\<forall>a \<in> set as. \<exists>s at. li_updated_on a = Some s \<and> parse_rfc3339 s = Some at \<and>
      (\<exists>i \<in> set items. it_id i = li_id a \<and> zt_at (it_when i) = at)"
    using ih(5) unfolding c(5) set_simps by blast
  moreover have "map it_id items = map li_id (a # as) \<and> distinct (map it_id items) \<and> seen \<inter> it_id ` set items = {} \<and>
      (\<forall>i \<in> set items. validate_log_id (it_id i) = Inr () \<and> item_typed i)"
    using ih(1-4) i c(1,2) by (auto simp: c(5) simp flip: set_map)
  ultimately show ?case unfolding list.set(2) by blast
qed simp

lemma log_page_wf:
  assumes "log_page l = Inr p"
  shows "map it_id (pg_items p) = map li_id (ll_results l)" "distinct (map it_id (pg_items p))"
    "\<forall>i \<in> set (pg_items p). validate_log_id (it_id i) = Inr () \<and> item_typed i"
    "\<forall>a \<in> set (ll_results l). \<exists>s at. li_updated_on a = Some s \<and> parse_rfc3339 s = Some at \<and>
       (\<exists>i \<in> set (pg_items p). it_id i = li_id a \<and> zt_at (it_when i) = at)"
    "pg_complete p \<Longrightarrow> ll_total_records l = Some (int (length (pg_items p)))"
proof -
  obtain items where r: "log_items (ll_results l) {} = Inr items" "pg_items p = items"
    and t: "pg_complete p \<Longrightarrow> ll_total_records l = Some (int (length (pg_items p)))"
    using assms by (auto simp: log_page_def split: option.splits)
  from log_items_wf [OF r(1)] t show "map it_id (pg_items p) = map li_id (ll_results l)" "distinct (map it_id (pg_items p))"
    "\<forall>i \<in> set (pg_items p). validate_log_id (it_id i) = Inr () \<and> item_typed i"
    "\<forall>a \<in> set (ll_results l). \<exists>s at. li_updated_on a = Some s \<and> parse_rfc3339 s = Some at \<and>
       (\<exists>i \<in> set (pg_items p). it_id i = li_id a \<and> zt_at (it_when i) = at)"
    "pg_complete p \<Longrightarrow> ll_total_records l = Some (int (length (pg_items p)))"
    unfolding r(2) by blast+
qed

lemma log_source_typed: "source_typed (log_source A B opts source)"
  by (auto simp: source_typed_def log_source_def log_source_list_def log_page_wf(3) split: prod.splits sum.splits)

lemma un_row_created: "un_row j = Some r \<Longrightarrow> zt_off (hr_created r) mod 60 = 0"
  by (auto simp: un_row_def zero_zoned_def bind_eq_Some_conv split: json.splits
      dest!: un_field_keeps [where P = "\<lambda>z. zt_off z mod 60 = 0"] intro: un_time_minutes)

lemma un_list_in: "un_list f xs = Some ys \<Longrightarrow> y \<in> set ys \<Longrightarrow> \<exists>x. f x = Some y"
  by (induction xs arbitrary: ys) (auto split: option.splits)

lemma rows_valid_in: "rows_valid rs seen \<Longrightarrow> r \<in> set rs \<Longrightarrow> valid_query_id (hr_id r)"
  by (induction rs seen rule: rows_valid.induct) auto

lemma valid_query_id_utf8: "valid_query_id i \<Longrightarrow> utf8_valid i"
  by (rule utf8_valid_ascii) (auto simp: valid_query_id_def query_id_char_def list_all_iff is_lower_def is_upper_def is_digit_def byte_def)

lemma decode_history_typed:
  assumes "decode_history body limit = Inr rows" "r \<in> set rows"
  shows "item_typed (query_item r)"
proof -
  obtain j where "un_gslice un_row j None = Some (Some rows)" "rows_valid rows {}"
    using assms(1) by (auto simp: decode_history_def decode_body_def bind_eq_Some_conv split: option.splits if_splits)
  then obtain x where "un_row x = Some r" "valid_query_id (hr_id r)"
    using un_list_in [of un_row _ rows r] rows_valid_in [of rows "{}" r] assms(2)
    by (auto simp: un_gslice_def split: json.splits)
  then show ?thesis using un_row_created valid_query_id_utf8 utf8_valid_Nil by (simp add: item_typed_def query_item_def)
qed

lemma query_source_typed: "source_typed (query_source F A B opts source limit)"
  by (auto simp: source_typed_def query_source_def query_source_list_def query_page_def
      split: prod.splits sum.splits option.splits dest: decode_history_typed)

lemma log_items_when:
  assumes "log_items is seen = Inr items" "a \<in> set is" "li_updated_on a = Some u" "parse_zoned u = Some z"
  shows "\<exists>i \<in> set items. it_when i = z"
  using assms by (induction "is" seen arbitrary: items rule: log_items.induct) (fastforce split: if_splits option.splits)+

lemma day_offset_parsed: "\<exists>z. parse_zoned ''2024-01-01T00:00:00+24:00'' = Some z \<and> zt_off z = 86400"
  by (simp add: parse_zoned_def take_digits_def take_char_def take_hour_def take_frac_def take_zone_def is_digit_def byte_def
      read_nat_def digit_val_def date_valid_def days_in_month_def Let_def leap_def)

text \<open>
  Claim C40. A timestamp with an offset of 24 hours blocks the backfill: the list's parser accepts it, the page
  keeps it with its offset, and the progress that takes this page has no JSON text, so that the update fails
  and leaves the progress as it was, in this cycle and in every later one.
\<close>

theorem day_offset_blocks_history:
  assumes "log_page l = Inr pg" "a \<in> set (ll_results l)" "li_updated_on a = Some u" "parse_zoned u = Some z"
    and "86400 \<le> abs (zt_off z)"
    and "update_progress B key source limit (\<lambda>p. Inr (take_page w pg p)) d = (d', err)"
  shows "d' = d \<and> err \<noteq> None"
proof -
  have "log_items (ll_results l) {} = Inr (pg_items pg)" using assms(1) by (auto simp: log_page_def split: option.splits)
  from log_items_when [OF this assms(2-4)] obtain i where i: "i \<in> set (pg_items pg)" "it_when i = z" by blast
  have "z \<in> set (progress_times (take_page w pg p))" for p
    using i by (auto simp: progress_times_def take_page_def)
  moreover have "\<not> zoned_json_ok z" using assms(5) by (simp add: zoned_json_ok_def)
  ultimately have "marshal_progress (take_page w pg p) = None" for p
    by (auto simp: marshal_progress_def list_all_iff)
  then have "\<exists>e. update_progress_tx B key source limit (\<lambda>p. Inr (take_page w pg p)) d = Inl e"
    by (cases "read_progress B key source d") (auto simp: update_progress_tx_def bindE_def split: sum.split)
  then show ?thesis using assms(6) by (auto simp: update_progress_def update_tx_def split: if_splits)
qed

definition day_offset_list :: log_list where
  "day_offset_list =
     \<lparr>ll_results = [\<lparr>li_id = ''l/1'', li_updated_on = Some ''2024-01-01T00:00:00+24:00''\<rparr>],
      ll_threshold = Some 10, ll_total_records = Some 1, ll_malformed = False\<rparr>"

lemma day_offset_blocks_history_witness:
  "\<exists>pg. log_page day_offset_list = Inr pg \<and>
     snd (update_progress ref_bolt ''queries'' ''id'' 1000 (\<lambda>p. Inr (take_page example_window pg p)) fresh_db) \<noteq> None"
proof -
  obtain z where z: "parse_zoned ''2024-01-01T00:00:00+24:00'' = Some z" "86400 \<le> abs (zt_off z)"
    using day_offset_parsed by auto
  obtain pg where pg: "log_page day_offset_list = Inr pg"
    using example_log_id by (simp add: log_page_def day_offset_list_def z(1) guardE_def)
  obtain d' err where u:
    "update_progress ref_bolt ''queries'' ''id'' 1000 (\<lambda>p. Inr (take_page example_window pg p)) fresh_db = (d', err)"
    by fastforce
  from day_offset_blocks_history [OF pg _ _ z u] u pg show ?thesis by (auto simp: day_offset_list_def)
qed

section \<open>What recording keeps\<close>

text \<open>The log state holds the log in a version at least as new as an instant.\<close>

definition log_holds :: "'d bolt \<Rightarrow> bytes \<Rightarrow> go_time \<Rightarrow> 'd \<Rightarrow> bool" where
  "log_holds B i t d \<longleftrightarrow>
     (\<exists>c m. get_log_checkpoint B i d = (c, True, None) \<and> parse_rfc3339 (lc_list_marker c) = Some m \<and> t \<le> m)"

lemma log_holds_view:
  assumes "bolt_ok B" and "log_represents B d a"
  shows "log_holds B i t d \<longleftrightarrow> (\<exists>c m. la_cps a i = Some c \<and> parse_rfc3339 (lc_list_marker c) = Some m \<and> t \<le> m)"
proof -
  from assms(2) obtain mm where w: "log_abs_wf a"
    and v: "tx_view B d (map log_out_entry (la_queue a)) (\<lambda>i. map_option marshal_log_checkpoint (la_cps a i)) mm (la_seq a)"
    by (rule log_represents_view)
  have "lc_log_id c \<noteq> []" if "la_cps a i = Some c" for c
    using log_abs_wf_cp [OF w that] by (auto simp: log_cp_wf_def validate_log_id_Inr)
  then show ?thesis
    using tx_viewD(3) [OF assms(1) v] log_read_checkpoint_view [OF w]
    by (auto simp: log_holds_def get_log_checkpoint_def zero_log_checkpoint_def split: option.split)
qed

text \<open>An enqueue of a version leaves the log at least that new, and takes no other log back.\<close>

lemma enqueue_holds:
  assumes wf: "log_wf B opts (Suc n) s" and e: "log_event_ok ev" "year_ok at" "clock_ok now"
    and r: "log_enqueue B opts ev (format_rfc3339 at) now s = (s', inserted, err)"
  shows "log_wf B opts (if err = None then n else Suc n) s' \<and>
    (err = None \<longrightarrow> log_holds B (lev_log_id (el_event ev)) at s') \<and>
    (\<forall>j t. log_holds B j t s \<longrightarrow> log_holds B j t s')"
proof -
  let ?m = "format_rfc3339 at" and ?i = "lev_log_id (el_event ev)"
  from wf obtain a where a: "bolt_ok B" "options_sane opts" "log_represents B s a" "0 < opt_max_bytes opts"
    "unat (la_seq a) + Suc n < 18446744073709551616" by (auto simp: log_wf_def)
  then have room: "unat (la_seq a) < 18446744073709551615" by simp
  have succ: "unat (la_seq a + 1) = unat (la_seq a) + 1" using room by (simp add: unat_word_ariths)
  have p: "parse_rfc3339 ?m = Some at" using e(2) by (simp add: year_ok_def parse_format_rfc3339)
  have m: "marker_ok ?m"
    using length_format_rfc3339 [OF e(2)] format_rfc3339_plain [of _ at] utf8_valid_ascii [of ?m] by (fastforce simp: marker_ok_def)
  have ref: "log_refined B s (log_spec_enqueue opts ev ?m now a) False (s', inserted, err)"
    using log_enqueue_refines [OF a(1,3) e(1) m e(3) a(2,4) room] r by simp
  show ?thesis
  proof (cases err)
    case (Some x)
    then have "s' = s" using ref by (auto simp: log_refined_def split: sum.splits)
    with wf Some show ?thesis by simp
  next
    case None
    then obtain a' where sp: "log_spec_enqueue opts ev ?m now a = Inr (a', inserted)" "log_represents B s' a'"
      using ref by (auto simp: log_refined_def split: sum.splits)
    have no_text: "parse_rfc3339 [] = None" by (simp add: parse_rfc3339_def take_digits_def)
    have older: "\<exists>c m. la_cps a ?i = Some c \<and> parse_rfc3339 (lc_list_marker c) = Some m \<and> at < m"
      if "older_marker ?m (lc_list_marker (log_cp_of a ?i))"
      using that p no_text
      by (auto simp: older_marker_def log_cp_of_def zero_log_checkpoint_def split: option.splits)
    have newer: "m \<le> at" if "\<not> older_marker ?m (lc_list_marker (log_cp_of a ?i))" "la_cps a ?i = Some c"
      "parse_rfc3339 (lc_list_marker c) = Some m" for c m
      using that p by (auto simp: older_marker_def log_cp_of_def)
    have cps: "la_cps a' = la_cps a \<and> older_marker ?m (lc_list_marker (log_cp_of a ?i)) \<or>
        (\<exists>c. la_cps a' = (la_cps a)(?i \<mapsto> c) \<and> lc_list_marker c = ?m \<and> \<not> older_marker ?m (lc_list_marker (log_cp_of a ?i)))"
      and sq: "unat (la_seq a') \<le> unat (la_seq a) + 1"
      using sp(1) succ by (auto simp: log_spec_enqueue_def Let_def log_seen_cp_def split: if_splits)
    have "log_wf B opts n s'" using a sp(2) sq by (auto simp: log_wf_def)
    moreover have "log_holds B ?i at s'"
      using cps older p by (auto simp: log_holds_view [OF a(1) sp(2)])
    moreover have "log_holds B j t s'" if "log_holds B j t s" for j t
      using cps newer that p unfolding log_holds_view [OF a(1) sp(2)] log_holds_view [OF a(1,3)]
      by (cases "j = ?i") (force intro: order_trans)+
    ultimately show ?thesis using None by simp
  qed
qed

text \<open>What the program relies on: answers with four-digit years, and a clock in the range of the stores.\<close>

definition log_api_ok :: "'w log_api \<Rightarrow> bool" where
  "log_api_ok A \<longleftrightarrow>
     (\<forall>i w d w'. lg_detail A i w = (Inr d, w') \<longrightarrow> log_times_in_range d \<and> log_detail_typed d) \<and>
     (\<forall>w t w'. lg_clock A w = (t, w') \<longrightarrow> clock_ok t \<and> year_ok t)"

lemma record_holds:
  assumes A: "log_api_ok A" and wf: "log_wf B opts (Suc n) s"
    and r: "log_source_record A B opts source i (w, s) = ((w', s'), err)"
  shows "log_wf B opts (if err = None then n else Suc n) s' \<and>
    (err = None \<longrightarrow> log_holds B (it_id i) (zt_at (it_when i)) s') \<and>
    (\<forall>j t. log_holds B j t s \<longrightarrow> log_holds B j t s')"
proof (cases "s' = s \<and> err \<noteq> None")
  case True
  then show ?thesis using wf by auto
next
  case False
  then obtain d w1 u at now w2 ev b er where g:
    "lg_detail A (it_id i) w = (Inr d, w1)" "ld_updated_on d = Some u" "parse_rfc3339 u = Some at"
    "zt_at (it_when i) \<le> at" "lg_clock A w1 = (now, w2)" "build_log_event source (it_id i) d now = Inr ev"
    "log_enqueue B opts ev (format_rfc3339 at) now s = (s', b, er)" "err = None \<longleftrightarrow> er = None"
    using r by (auto simp: log_source_record_def split: prod.splits sum.splits option.splits if_splits)
  have d: "log_times_in_range d" "log_detail_typed d" "clock_ok now" "year_ok now"
    using A g(1,5) unfolding log_api_ok_def by blast+
  have y: "year_ok at" using d(1) g(2,3) by (simp add: log_times_in_range_def time_text_ok_def)
  note ev = build_log_event_ok [OF g(6) d(1,2,4)]
  from enqueue_holds [OF wf ev(1) y d(3) g(7)] show ?thesis
    unfolding ev(2) using g(4,8) by (auto simp: log_holds_def intro: order_trans)
qed

lemma failed_record_keeps:
  assumes "log_source_record A B opts source i (w, s) = ((w', s'), err)" "err \<noteq> None"
  shows "s' = s"
  using assms update_tx_error_unchanged
  by (fastforce simp: log_source_record_def log_enqueue_def split: prod.splits sum.splits option.splits if_splits)

section \<open>The log history\<close>

definition log_page_real :: "'w log_api \<Rightarrow> window \<Rightarrow> page \<Rightarrow> bool" where
  "log_page_real A win pg \<longleftrightarrow>
     (\<exists>w lst w'. lg_window A (zt_at (w_start win)) (zt_at (w_end win)) w = (Inr lst, w') \<and> log_page lst = Inr pg)"

definition log_item_held :: "'d bolt \<Rightarrow> item \<Rightarrow> 'd \<Rightarrow> bool" where
  "log_item_held B i s \<longleftrightarrow> log_holds B (it_id i) (zt_at (it_when i)) s"

definition log_source_wf :: "'w log_api \<Rightarrow> 'd bolt \<Rightarrow> store_options \<Rightarrow> nat \<Rightarrow> 'd \<Rightarrow> bool" where
  "log_source_wf A B opts n s \<longleftrightarrow> log_api_ok A \<and> log_wf B opts n s"

interpretation log_history: recording_source "log_source A B opts source" "log_page_real A" "log_source_wf A B opts"
  "log_item_held B"
proof
  show "source_typed (log_source A B opts source)" by (rule log_source_typed)
next
  fix win w s w' s' r assume "src_list (log_source A B opts source) win (w, s) = ((w', s'), r)"
  then show "s' = s \<and> (\<forall>pg. r = Inr pg \<longrightarrow> log_page_real A win pg)"
    by (auto simp: log_source_def log_source_list_def log_page_real_def split: prod.splits sum.splits)
next
  fix n s i w w' s'
  assume wf: "log_source_wf A B opts (Suc n) s" and r: "src_record (log_source A B opts source) i (w, s) = ((w', s'), None)"
  from record_holds [of A B opts n s source i w w' s' None] wf r
  show "log_source_wf A B opts n s' \<and> log_item_held B i s' \<and> (\<forall>j. log_item_held B j s \<longrightarrow> log_item_held B j s')"
    by (simp add: log_source_wf_def log_source_def log_item_held_def)
next
  fix i w s w' s' e assume "src_record (log_source A B opts source) i (w, s) = ((w', s'), Some e)"
  then show "s' = s" using failed_record_keeps [of A B opts source i w s w' s' "Some e"] by (simp add: log_source_def)
qed

text \<open>An answer of the service that lists every record of its interval, all of them held at their version.\<close>

definition answer_held :: "'d bolt \<Rightarrow> log_list \<Rightarrow> 'd \<Rightarrow> bool" where
  "answer_held B lst s \<longleftrightarrow>
     ll_total_records lst = Some (int (length (ll_results lst))) \<and> distinct (map li_id (ll_results lst)) \<and>
     (\<forall>a \<in> set (ll_results lst). \<exists>u t. li_updated_on a = Some u \<and> parse_rfc3339 u = Some t \<and> log_holds B (li_id a) t s)"

lemma complete_page_held:
  assumes "log_page lst = Inr pg" "pg_complete pg" "\<forall>i \<in> set (pg_items pg). log_item_held B i s"
  shows "answer_held B lst s"
proof -
  note p = log_page_wf(1,2,4) [OF assms(1)] log_page_wf(5) [OF assms(1,2)]
  have "length (pg_items pg) = length (ll_results lst)" using arg_cong [OF p(1), of length] by simp
  moreover have "log_holds B (it_id i) (zt_at (it_when i)) s" if "i \<in> set (pg_items pg)" for i
    using assms(3) that by (simp add: log_item_held_def)
  ultimately show ?thesis using p by (fastforce simp: answer_held_def)
qed

text \<open>
  Claim C21. A complete log history is in the log state. After any polls of the backfill worker on the log
  source, from a fresh history store, with whatever failures and schedules: when the worker reports its
  history complete, every instant of the swept interval lies in a window for which the service gave an
  answer that lists all of its records, each once, and the log state holds a checkpoint of every one of them
  whose marker is not older than the version listed.
\<close>

theorem complete_log_history_is_stored:
  assumes "bolt_ok H" "bc_max_pending c \<le> 100000" "utf8_valid identity" "config_typed c"
    and "\<forall>e \<in> set es. env_ok (fst e)"
    and "load_progress H key identity d = Inr (zero_progress identity)"
    and "new_worker (history_ops H key identity c) c d = Inr w0"
    and "log_api_ok A" "log_wf B opts n s"
    and "run_history (history_ops H key identity c) (History_Coverage.logged (log_source A B opts source)) c retention es
           (w0, d, ((k, s), [])) = Some (w, d', ((k', s'), l))"
    and "length (filter recorded l) \<le> n" "\<not> history_incomplete w"
    and "zt_at (pr_start (wk_progress w)) \<le> t" "t < zt_at (pr_last_completed (wk_progress w))"
  shows "\<exists>(win :: window) q lst q'. zt_at (w_start win) \<le> t \<and> t < zt_at (w_end win) \<and>
           lg_window A (zt_at (w_start win)) (zt_at (w_end win)) q = (Inr lst, q') \<and> answer_held B lst s'"
proof -
  have "log_source_wf A B opts n s" using assms(8,9) by (simp add: log_source_wf_def)
  from log_history.complete_run [OF assms(1-7) this assms(10-14)] obtain win :: window and pg where
    t: "zt_at (w_start win) \<le> t" "t < zt_at (w_end win)" and pg: "log_page_real A win pg" "pg_complete pg"
      "\<forall>i \<in> set (pg_items pg). log_item_held B i s'" by blast
  from pg(1) obtain q lst q' where
    a: "lg_window A (zt_at (w_start win)) (zt_at (w_end win)) q = (Inr lst, q')" "log_page lst = Inr pg"
    unfolding log_page_real_def by blast
  from complete_page_held [OF a(2) pg(2,3)] t a(1) show ?thesis by blast
qed

definition example_log_api :: "unit log_api" where
  "example_log_api =
     \<lparr>lg_window = (\<lambda>a b w. (Inr \<lparr>ll_results = [], ll_threshold = Some 10, ll_total_records = Some 0,
                                ll_malformed = False\<rparr>, w)),
      lg_detail = (\<lambda>i w. (Inl (Plain ''none''), w)), lg_clock = (\<lambda>w. (1, w))\<rparr>"

lemma example_log_api_ok: "log_api_ok example_log_api"
  using year_ok_1 example_clock(1) by (simp add: log_api_ok_def example_log_api_def)

lemma complete_log_history_is_stored_witness:
  "\<exists>w d' s l (win :: window) q lst q'. run_history (history_ops ref_bolt ''queries'' ''id'' example_backfill)
       (History_Coverage.logged (log_source example_log_api ref_bolt example_options ''ddae-1'')) example_backfill 1000000000000
       [(History_Backfill.example_env, 3000000000)] (example_worker, fresh_db, (((), s), [])) = Some (w, d', (((), s), l)) \<and>
     zt_at (w_start win) \<le> 1500000000 \<and> 1500000000 < zt_at (w_end win) \<and>
     lg_window example_log_api (zt_at (w_start win)) (zt_at (w_end win)) q = (Inr lst, q') \<and>
     answer_held ref_bolt lst s"
proof -
  obtain s where s: "log_wf ref_bolt example_options 100 s" using example_log_known by blast
  let ?S = "log_source example_log_api ref_bolt example_options ''ddae-1''"
  have "src_list ?S example_window ((), s) = (((), s), Inr \<lparr>pg_items = [], pg_complete = True\<rparr>)"
    by (simp add: log_source_def log_source_list_def example_log_api_def log_page_def)
  from example_run_of [OF this] obtain w d' where
    r: "run_history (history_ops ref_bolt ''queries'' ''id'' example_backfill) (History_Coverage.logged ?S) example_backfill
       1000000000000 [(History_Backfill.example_env, 3000000000)] (example_worker, fresh_db, (((), s), [])) =
     Some (w, d', (((), s), [Listed example_window \<lparr>pg_items = [], pg_complete = True\<rparr>]))" and i: "\<not> history_incomplete w"
    and t: "zt_at (pr_start (wk_progress w)) = 1000000000" "zt_at (pr_last_completed (wk_progress w)) = 2000000000"
    by blast
  have e: "config_typed example_backfill" "\<forall>e \<in> set [(History_Backfill.example_env, 3000000000 :: go_time)]. env_ok (fst e)"
    using example_run_ok by (simp_all add: run_ok_def)
  have t': "zt_at (pr_start (wk_progress w)) \<le> 1500000000" "1500000000 < zt_at (pr_last_completed (wk_progress w))"
    using t by simp_all
  from complete_log_history_is_stored [OF ref_bolt_ok example_backfill_bounds e fresh_db_facts(2) example_new_worker
      example_log_api_ok s r _ i t'] r show ?thesis by fastforce
qed

section \<open>The query history\<close>

text \<open>The query state holds the query: there is a checkpoint of a fetch.\<close>

definition query_seen :: "'d bolt \<Rightarrow> bytes \<Rightarrow> 'd \<Rightarrow> bool" where
  "query_seen B i d \<longleftrightarrow> (\<exists>f t. fetch_final B i d = (f, t, None) \<and> \<not> zoned_is_zero t)"

lemma query_seen_view:
  assumes "bolt_ok B" "query_represents F B opts d a"
  shows "query_seen B i d \<longleftrightarrow> qa_cps a i \<noteq> None"
  using query_wfD(3) [OF query_representsD(2) [OF assms(2)], of i]
  by (auto simp: query_seen_def fetch_final_view [OF assms] query_cp_ok_def zoned_is_zero_def zero_zoned_def is_zero_def
      split: option.split)

text \<open>What the program relies on: no event hashes to the value it uses for none.\<close>

definition query_api_ok :: "'f float_ops \<Rightarrow> 'w query_history_api \<Rightarrow> bytes \<Rightarrow> bool" where
  "query_api_ok F A source \<longleftrightarrow>
     (\<forall>i before after w w' e.
        fetch_detail F (qh_get A) i source before after w = (w', Inr e) \<longrightarrow> event_hash F e \<noteq> Some zero_hash)"

definition query_source_wf ::
  "'f float_ops \<Rightarrow> 'w query_history_api \<Rightarrow> 'd bolt \<Rightarrow> query_options \<Rightarrow> nat \<Rightarrow> 'd \<Rightarrow> bool" where
  "query_source_wf F A B opts n s \<longleftrightarrow>
     float_ok F \<and> bolt_ok B \<and> capacity_ok opts \<and> query_api_ok F A (qo_source opts) \<and>
     (\<exists>a. query_represents F B opts s a \<and> unat (qa_seq a) + n < 2 ^ 64)"

lemma decode_detail_fields:
  "decode_detail F body i source now after = Inr e \<Longrightarrow> qe_query_id e = i \<and> qe_observed e = now"
  by (auto simp: decode_detail_def Let_def split: if_splits option.splits)

lemma spec_record_query_cps:
  assumes "spec_record_query F opts e a = Inr a'"
  shows "qa_cps a' (qe_query_id e) \<noteq> None" "qa_cps a j \<noteq> None \<Longrightarrow> qa_cps a' j \<noteq> None"
    "qa_seq a' = qa_seq a \<or> qa_seq a' = qa_seq a + 1"
  using assms
  by (auto simp: spec_record_query_def spec_record_def Let_def settled_event_def bindE_Inr_iff
      split: if_splits option.splits)

lemma unat_top: "unat (- 1 :: u64) = 2 ^ 64 - 1"
  by (simp add: unat_eq_nat_uint uint_word_ariths)

lemma record_seen:
  assumes wf: "query_source_wf F A B opts (Suc n) s"
    and f: "fetch_detail F (qh_get A) i (qo_source opts) before after w = (w', Inr e)"
    and r: "record_query F B opts e s = (s', None)"
  shows "query_source_wf F A B opts n s' \<and> query_seen B i s' \<and> (\<forall>j. query_seen B j s \<longrightarrow> query_seen B j s')"
proof -
  from wf obtain a where a: "float_ok F" "bolt_ok B" "query_represents F B opts s a" "capacity_ok opts"
    "query_api_ok F A (qo_source opts)" "unat (qa_seq a) + Suc n < 2 ^ 64" by (auto simp: query_source_wf_def)
  obtain body where d: "decode_detail F body i (qo_source opts) (utc_time before) after = Inr e"
    using fetch_detail_Inr [OF f] by blast
  note fields = decode_detail_fields [OF d]
  have v: "event_valid F e (qo_source opts)" using r by (auto simp: record_query_def split: if_splits)
  then have "\<not> is_zero before" "\<And>c. qe_completed e = Some c \<Longrightarrow> \<not> zoned_is_zero c"
    using fields by (auto simp: event_valid_def zoned_is_zero_def utc_time_def)
  from decode_detail_event(2) [OF a(1) d this] have m: "minute_times e" .
  have h: "event_hash F e \<noteq> Some zero_hash" using a(5) f unfolding query_api_ok_def by blast
  have top: "qa_seq a \<noteq> - 1" using a(6) unat_top by auto
  have succ: "unat (qa_seq a + 1) = unat (qa_seq a) + 1" using a(6) by (simp add: unat_word_ariths)
  from record_query_refines [OF a(1-4) m h top] r obtain a' where
    a': "spec_record_query F opts e a = Inr a'" "query_represents F B opts s' a'"
    by (auto simp: query_refined_def split: sum.splits)
  note c = spec_record_query_cps [OF a'(1)]
  have "unat (qa_seq a') + n < 2 ^ 64" using c(3) a(6) succ by auto
  then show ?thesis
    using a a'(2) c(1,2) fields
    by (auto simp: query_source_wf_def query_seen_view [OF a(2,3)] query_seen_view [OF a(2) a'(2)])
qed

definition query_page_real :: "'w query_history_api \<Rightarrow> int \<Rightarrow> window \<Rightarrow> page \<Rightarrow> bool" where
  "query_page_real A limit win pg \<longleftrightarrow>
     (\<exists>w w' body. qh_window A (zt_at (w_start win)) (zt_at (w_end win)) w = (w', Inr body) \<and> query_page body limit = Inr pg)"

interpretation query_history: recording_source
  "query_source F A B opts (qo_source opts) limit" "query_page_real A limit" "query_source_wf F A B opts"
  "\<lambda>i. query_seen B (it_id i)"
proof
  show "source_typed (query_source F A B opts (qo_source opts) limit)" by (rule query_source_typed)
next
  fix win w s w' s' r
  assume "src_list (query_source F A B opts (qo_source opts) limit) win (w, s) = ((w', s'), r)"
  then show "s' = s \<and> (\<forall>pg. r = Inr pg \<longrightarrow> query_page_real A limit win pg)"
    by (auto simp: query_source_def query_source_list_def query_page_real_def split: prod.splits sum.splits option.splits)
next
  fix n s i w w' s'
  assume "query_source_wf F A B opts (Suc n) s"
    "src_record (query_source F A B opts (qo_source opts) limit) i (w, s) = ((w', s'), None)"
  then show "query_source_wf F A B opts n s' \<and> query_seen B (it_id i) s' \<and>
      (\<forall>j. query_seen B (it_id j) s \<longrightarrow> query_seen B (it_id j) s')"
    using record_seen
    by (fastforce simp: query_source_def query_source_record_def Let_def split: prod.splits sum.splits option.splits)
next
  fix i w s w' s' e
  assume "src_record (query_source F A B opts (qo_source opts) limit) i (w, s) = ((w', s'), Some e)"
  then show "s' = s"
    using update_tx_error_unchanged
    by (fastforce simp: query_source_def query_source_record_def record_query_def Let_def
        split: prod.splits sum.splits option.splits if_splits)
qed

lemma query_page_rows:
  assumes "query_page body limit = Inr pg" "pg_complete pg"
  obtains rows where "decode_history body limit = Inr rows" "length rows < 1000" "pg_items pg = map query_item rows"
  using assms by (auto simp: query_page_def bindE_Inr_iff)

text \<open>
  Claim C22. When the backfill worker of the queries reports a complete history, every instant of the sweep lies
  in a window for which the query engine's history had fewer rows than a page, and the query state has a
  checkpoint of every query in them. This holds after any polls from a fresh progress store, over any engine
  answers, commit failures and schedules, as long as there are event numbers for the recorded details.
\<close>

theorem complete_query_history_is_stored:
  assumes "bolt_ok H" "bc_max_pending c \<le> 100000" "utf8_valid identity" "config_typed c"
    and "\<forall>e \<in> set es. env_ok (fst e)"
    and "load_progress H key identity d = Inr (zero_progress identity)"
    and "new_worker (history_ops H key identity c) c d = Inr w0"
    and "float_ok F" "bolt_ok B" "capacity_ok opts" "query_api_ok F A (qo_source opts)"
    and "query_represents F B opts s a" "unat (qa_seq a) + n < 2 ^ 64"
    and "run_history (history_ops H key identity c)
           (History_Coverage.logged (query_source F A B opts (qo_source opts) limit)) c retention es
           (w0, d, ((k, s), [])) = Some (w, d', ((k', s'), l))"
    and "length (filter recorded l) \<le> n" "\<not> history_incomplete w"
    and "zt_at (pr_start (wk_progress w)) \<le> t" "t < zt_at (pr_last_completed (wk_progress w))"
  shows "\<exists>(win :: window) q q' body rows. zt_at (w_start win) \<le> t \<and> t < zt_at (w_end win) \<and>
           qh_window A (zt_at (w_start win)) (zt_at (w_end win)) q = (q', Inr body) \<and>
           decode_history body limit = Inr rows \<and> length rows < 1000 \<and> (\<forall>r \<in> set rows. query_seen B (hr_id r) s')"
proof -
  have "query_source_wf F A B opts n s" using assms(8-13) by (auto simp: query_source_wf_def)
  from query_history.complete_run [OF assms(1-7) this assms(14-18)] obtain win :: window and pg where
    t: "zt_at (w_start win) \<le> t" "t < zt_at (w_end win)" and pg: "query_page_real A limit win pg" "pg_complete pg"
      "\<forall>i \<in> set (pg_items pg). query_seen B (it_id i) s'" by blast
  from pg(1) obtain q q' body where
    a: "qh_window A (zt_at (w_start win)) (zt_at (w_end win)) q = (q', Inr body)" "query_page body limit = Inr pg"
    unfolding query_page_real_def by blast
  obtain rows where "decode_history body limit = Inr rows" "length rows < 1000" "pg_items pg = map query_item rows"
    by (rule query_page_rows [OF a(2) pg(2)])
  with t a(1) pg(3) show ?thesis by (fastforce simp: query_item_def)
qed

definition example_history_api :: "unit query_history_api" where
  "example_history_api =
     \<lparr>qh_scope = (\<lambda>w. (w, None)), qh_window = (\<lambda>a b w. (w, Inr ''[]'')),
      qh_get = (\<lambda>p w. (w, Inl (Plain ''none''))), qh_clock = (\<lambda>w. 1)\<rparr>"

lemma example_history_api_ok: "query_api_ok F example_history_api source"
  by (auto simp: query_api_ok_def example_history_api_def fetch_detail_def split: if_splits)

lemma example_history_page: "query_page ''[]'' 1000 = Inr \<lparr>pg_items = [], pg_complete = True\<rparr>"
proof -
  have "json_parse (json_print (JArr [])) = Some (JArr [])" by (rule json_parse_print) (simp_all add: max_nesting_def)
  then have "decode_history (json_print (JArr [])) 1000 = Inr []"
    by (simp add: decode_history_def decode_body_def un_gslice_def del: json_print.simps)
  then show ?thesis by (simp add: query_page_def)
qed

lemma complete_query_history_is_stored_witness:
  "\<exists>w d' s l (win :: window) q q' body rows. run_history (history_ops ref_bolt ''queries'' ''id'' example_backfill)
       (History_Coverage.logged (query_source ref_float example_history_api ref_bolt example_query_options
          (qo_source example_query_options) 1000)) example_backfill 1000000000000
       [(History_Backfill.example_env, 3000000000)] (example_worker, fresh_db, (((), s), [])) = Some (w, d', (((), s), l)) \<and>
     zt_at (w_start win) \<le> 1500000000 \<and> 1500000000 < zt_at (w_end win) \<and>
     qh_window example_history_api (zt_at (w_start win)) (zt_at (w_end win)) q = (q', Inr body) \<and>
     decode_history body 1000 = Inr rows \<and> (\<forall>r \<in> set rows. query_seen ref_bolt (hr_id r) s)"
proof -
  obtain s where s: "query_created ref_float ref_bolt example_query_options [] s" using example_query_created by blast
  have o: "capacity_ok example_query_options" using example_query_ops_ok(4) by (simp add: query_options_ok_def)
  have r: "query_represents ref_float ref_bolt example_query_options s empty_query_abs"
    by (rule query_created_represents [OF ref_float_ok ref_bolt_ok o s])
  have n: "unat (qa_seq (empty_query_abs :: int query_abs)) + 100 < 2 ^ 64" by (simp add: empty_query_abs_def)
  let ?S = "query_source ref_float example_history_api ref_bolt example_query_options (qo_source example_query_options) 1000"
  have "src_list ?S example_window ((), s) = (((), s), Inr \<lparr>pg_items = [], pg_complete = True\<rparr>)"
    by (simp add: query_source_def query_source_list_def example_history_api_def example_history_page)
  from example_run_of [OF this] obtain w d' where
    run: "run_history (history_ops ref_bolt ''queries'' ''id'' example_backfill) (History_Coverage.logged ?S) example_backfill
       1000000000000 [(History_Backfill.example_env, 3000000000)] (example_worker, fresh_db, (((), s), [])) =
     Some (w, d', (((), s), [Listed example_window \<lparr>pg_items = [], pg_complete = True\<rparr>]))" and i: "\<not> history_incomplete w"
    and t: "zt_at (pr_start (wk_progress w)) = 1000000000" "zt_at (pr_last_completed (wk_progress w)) = 2000000000"
    by blast
  have e: "config_typed example_backfill" "\<forall>e \<in> set [(History_Backfill.example_env, 3000000000 :: go_time)]. env_ok (fst e)"
    using example_run_ok by (simp_all add: run_ok_def)
  have t': "zt_at (pr_start (wk_progress w)) \<le> 1500000000" "1500000000 < zt_at (pr_last_completed (wk_progress w))"
    using t by simp_all
  from complete_query_history_is_stored [OF ref_bolt_ok example_backfill_bounds e fresh_db_facts(2) example_new_worker
      ref_float_ok ref_bolt_ok o example_history_api_ok r n run _ i t'] run show ?thesis by fastforce
qed

end
