(* ===== verification/Http_Server.thy ===== *)
theory Http_Server
  imports Snapshot
begin

text \<open>
  Package \<open>internal/server\<close>: the three handlers. The multiplexer, the time limits of the listener and the
  handler of the metrics library belong to \<open>net/http\<close> and the Prometheus library; \<open>serve\<close> dispatches a clean
  path, with what that handler would answer as an argument. The callbacks of \<open>PipelineMode\<close> are what they
  answer at the time of the request, \<open>None\<close> for a nil one.
\<close>

record server_mode =
  sv_history_ready :: "bool option"
  sv_query_ready :: "bool option"
  sv_resources :: bool
  sv_alerts :: bool
  sv_logs :: bool

record http_reply =
  hr_status :: nat
  hr_body :: bytes

definition default_server_mode :: server_mode where
  "default_server_mode =
     \<lparr>sv_history_ready = None, sv_query_ready = None, sv_resources = True, sv_alerts = True, sv_logs = False\<rparr>"

definition new_server :: "server_mode list \<Rightarrow> server_mode" where
  "new_server modes = (case modes of [] \<Rightarrow> default_server_mode | m # _ \<Rightarrow> m)"

definition method_not_allowed :: http_reply where
  "method_not_allowed = \<lparr>hr_status = 405, hr_body = []\<rparr>"

definition get_only :: "http_reply \<Rightarrow> bytes \<Rightarrow> http_reply" where
  "get_only answer method = (if method \<noteq> ''GET'' then method_not_allowed else answer)"

definition healthz :: "bytes \<Rightarrow> http_reply" where
  "healthz method =
     (if method \<noteq> ''GET'' then method_not_allowed
      else \<lparr>hr_status = 200, hr_body = ''alive'' @ [CHR 0x0A]\<rparr>)"

definition readyz :: "server_mode \<Rightarrow> 'f view \<Rightarrow> go_time \<Rightarrow> go_duration \<Rightarrow> bytes \<Rightarrow> http_reply" where
  "readyz m v now stale_after method =
     (if method \<noteq> ''GET'' then method_not_allowed
      else
        let legacy_enabled = sv_resources m \<or> sv_alerts m \<or> sv_logs m;
            legacy_ready = \<not> legacy_enabled \<or>
              ready_for v now stale_after (sv_resources m) (sv_alerts m) [sv_logs m];
            queries_ready = (case sv_query_ready m of None \<Rightarrow> True | Some b \<Rightarrow> b)
        in if (\<not> legacy_enabled \<and> sv_query_ready m = None) \<or> \<not> legacy_ready \<or> \<not> queries_ready \<or>
              (case sv_history_ready m of None \<Rightarrow> False | Some b \<Rightarrow> \<not> b)
           then \<lparr>hr_status = 503, hr_body = ''not ready'' @ [CHR 0x0A]\<rparr>
           else \<lparr>hr_status = 200, hr_body = ''ready'' @ [CHR 0x0A]\<rparr>)"

definition serve ::
  "http_reply \<Rightarrow> server_mode \<Rightarrow> 'f view \<Rightarrow> go_time \<Rightarrow> go_duration \<Rightarrow> bytes \<Rightarrow> bytes \<Rightarrow> http_reply option" where
  "serve metrics m v now stale_after method path =
     (if path = ''/metrics'' then Some (get_only metrics method)
      else if path = ''/healthz'' then Some (healthz method)
      else if path = ''/readyz'' then Some (readyz m v now stale_after method)
      else None)"

text \<open>\<open>ListenAndServe\<close> of the package: a closed server is not an error.\<close>

definition server_closed :: go_error where
  "server_closed = Plain ''http: Server closed''"

definition listen_and_serve :: "go_error option \<Rightarrow> go_error option" where
  "listen_and_serve err = (case err of None \<Rightarrow> None | Some e \<Rightarrow> if errors_is e server_closed then None else Some e)"

lemma readyz_status:
  "hr_status (readyz m v now stale_after method) = 200 \<longleftrightarrow>
     method = ''GET'' \<and>
     (sv_resources m \<or> sv_alerts m \<or> sv_logs m \<or> sv_query_ready m \<noteq> None) \<and>
     (sv_resources m \<longrightarrow> required_current v now stale_after) \<and>
     (sv_alerts m \<longrightarrow> alert_pipeline_ready v) \<and> (sv_logs m \<longrightarrow> log_pipeline_ready v) \<and>
     sv_query_ready m \<noteq> Some False \<and> sv_history_ready m \<noteq> Some False"
  by (cases "sv_query_ready m"; cases "sv_history_ready m")
     (auto simp: readyz_def method_not_allowed_def ready_for_def Let_def split: if_splits)

lemma reads_only: "method \<noteq> ''GET'' \<Longrightarrow> serve metrics m v now s method path \<in> {None, Some method_not_allowed}"
  by (auto simp: serve_def get_only_def healthz_def readyz_def)

end
