(* ===== verification/Resource_Collector.thy ===== *)
theory Resource_Collector
  imports Ddae_Decode Snapshot
begin

text \<open>
  Package \<open>internal/collector\<close>: the normalization of the resource responses (\<open>collector.go\<close>) and the cycle
  that asks for all five at once (\<open>scheduler.go\<close>). The answers of the five requests, how long they took and
  the order in which they arrive are the input of a cycle; the clock is read when each arrives. Kubernetes
  quantities are parsed by a library: \<open>quantity_ops\<close> holds its parser with the conversion to \<open>float64\<close> and
  the tests of a value, whether it is negative and whether it is infinite or not a number.
\<close>

section \<open>Quantities and states\<close>

record 'f quantity_ops =
  qu_parse :: "bytes \<Rightarrow> 'f option"
  qu_negative :: "'f \<Rightarrow> bool"
  qu_special :: "'f \<Rightarrow> bool"
  qu_zero :: 'f

definition qu_bad :: "'f quantity_ops \<Rightarrow> 'f \<Rightarrow> bool" where
  "qu_bad Q x \<longleftrightarrow> qu_negative Q x \<or> qu_special Q x"

definition validation_error :: "bytes \<Rightarrow> go_error" where
  "validation_error what = Classified ClassValidation what"

definition no_quantity :: "'f quantity_ops \<Rightarrow> 'f optional_float" where
  "no_quantity Q = \<lparr>of_value = qu_zero Q, of_valid = False\<rparr>"

text \<open>The value and whether it was read without an error.\<close>

definition quantity :: "'f quantity_ops \<Rightarrow> bytes option \<Rightarrow> 'f optional_float \<times> bool" where
  "quantity Q v =
     (case v of None \<Rightarrow> (no_quantity Q, True)
      | Some s \<Rightarrow>
          (case qu_parse Q s of None \<Rightarrow> (no_quantity Q, False)
           | Some x \<Rightarrow> if qu_bad Q x then (no_quantity Q, False)
                       else (\<lparr>of_value = x, of_valid = True\<rparr>, True)))"

definition normalize_cluster_state :: "bytes \<Rightarrow> bytes" where
  "normalize_cluster_state v = (if equal_fold (trim_space v) ''available'' then ''available'' else ''unknown'')"

definition node_states :: "(bytes \<times> bytes) list" where
  "node_states =
     [(''maintenancemode'', ''maintenance_mode''), (''schedulingdisabled'', ''scheduling_disabled''),
      (''notready'', ''not_ready''), (''ready'', ''ready''), (''restarting'', ''restarting''),
      (''shuttingdown'', ''shutting_down''), (''poweredoff'', ''powered_off''), (''poweringon'', ''powering_on'')]"

definition normalize_node_state :: "bytes \<Rightarrow> bytes" where
  "normalize_node_state v =
     (let key = filter (\<lambda>c. c \<notin> set ''_- '') (to_lower (trim_space v))
      in case map_of node_states key of Some s \<Rightarrow> s | None \<Rightarrow> ''unknown'')"

definition normalize_condition_name :: "bytes \<Rightarrow> bytes" where
  "normalize_condition_name v =
     (let key = to_lower (filter (\<lambda>c. c \<noteq> CHR ''_'') (trim_space v))
      in if key = ''diskpressure'' then ''disk_pressure''
         else if key = ''memorypressure'' then ''memory_pressure''
         else [])"

definition condition_value :: "bytes \<Rightarrow> bool option" where
  "condition_value v =
     (if equal_fold v ''true'' then Some True else if equal_fold v ''false'' then Some False else None)"

section \<open>Normalization\<close>

definition normalize_cluster :: "'f quantity_ops \<Rightarrow> raw_cluster \<Rightarrow> 'f snap_cluster \<times> bool" where
  "normalize_cluster Q r =
     (let (ccpu, a) = quantity Q (rc_cpu (rw_coordinator r));
          (cmem, b) = quantity Q (rc_memory (rw_coordinator r));
          (wcpu, c) = quantity Q (rc_cpu (rw_worker r));
          (wmem, d) = quantity Q (rc_memory (rw_worker r))
      in (\<lparr>cl_id = rw_id r, cl_state = normalize_cluster_state (rw_status r), coordinator_cpu = ccpu,
           coordinator_memory = cmem, worker_cpu = wcpu, worker_memory = wmem\<rparr>, a \<and> b \<and> c \<and> d))"

text \<open>The items so far and whether every optional field of them was read.\<close>

fun clusters_loop ::
  "'f quantity_ops \<Rightarrow> raw_cluster list \<Rightarrow> bytes list \<Rightarrow> 'f snap_cluster list \<times> bool
   \<Rightarrow> go_error + 'f snap_cluster list \<times> bool" where
  "clusters_loop Q [] seen acc = Inr acc"
| "clusters_loop Q (r # rs) seen (out, ok) =
     (if trim_space (rw_id r) = [] then Inl (validation_error ''cluster identity'')
      else if rw_id r \<in> set seen then Inl (validation_error ''duplicate cluster identity'')
      else let (c, fine) = normalize_cluster Q r
           in clusters_loop Q rs (rw_id r # seen) (out @ [c], ok \<and> fine))"

text \<open>The value, whether it is usable, and the error.\<close>

definition normalize_clusters ::
  "'f quantity_ops \<Rightarrow> raw_cluster list \<Rightarrow> 'f snap_cluster list \<times> bool \<times> go_error option" where
  "normalize_clusters Q rs =
     (case clusters_loop Q rs [] ([], True) of
        Inl e \<Rightarrow> ([], False, Some e)
      | Inr (cs, ok) \<Rightarrow> (cs, True, if ok then None else Some (validation_error ''cluster optional field'')))"

definition apply_condition :: "node_condition \<Rightarrow> 'f snap_node \<times> bool \<Rightarrow> 'f snap_node \<times> bool" where
  "apply_condition c s =
     (let (n, ok) = s;
          name = normalize_condition_name (nc_type c);
          value = condition_value (nc_status c)
      in if name = ''disk_pressure'' then
           (case value of None \<Rightarrow> (n, False) | Some b \<Rightarrow> (n\<lparr>disk_pressure := Some b\<rparr>, ok))
         else if name = ''memory_pressure'' then
           (case value of None \<Rightarrow> (n, False) | Some b \<Rightarrow> (n\<lparr>memory_pressure := Some b\<rparr>, ok))
         else (n, ok))"

definition normalize_node :: "'f quantity_ops \<Rightarrow> raw_node \<Rightarrow> 'f snap_node \<times> bool" where
  "normalize_node Q r =
     (let (ccpu, a) = quantity Q (rq_cpu (rn_capacity r));
          (cmem, b) = quantity Q (rq_memory (rn_capacity r));
          (csto, c) = quantity Q (rq_storage (rn_capacity r));
          (acpu, d) = quantity Q (rq_cpu (rn_allocatable r));
          (amem, e) = quantity Q (rq_memory (rn_allocatable r));
          (asto, f) = quantity Q (rq_storage (rn_allocatable r));
          n = \<lparr>nd_id = rn_id r, nd_state = normalize_node_state (rn_state r), capacity_cpu = ccpu,
               capacity_memory = cmem, capacity_ephemeral_storage = csto, allocatable_cpu = acpu,
               allocatable_memory = amem, allocatable_ephemeral_storage = asto,
               disk_pressure = None, memory_pressure = None\<rparr>
      in fold apply_condition (rn_conditions r) (n, a \<and> b \<and> c \<and> d \<and> e \<and> f))"

fun nodes_loop ::
  "'f quantity_ops \<Rightarrow> raw_node list \<Rightarrow> bytes list \<Rightarrow> 'f snap_node list \<times> bool
   \<Rightarrow> go_error + 'f snap_node list \<times> bool" where
  "nodes_loop Q [] seen acc = Inr acc"
| "nodes_loop Q (r # rs) seen (out, ok) =
     (if trim_space (rn_id r) = [] then Inl (validation_error ''node identity'')
      else if rn_id r \<in> set seen then Inl (validation_error ''duplicate node identity'')
      else let (n, fine) = normalize_node Q r
           in nodes_loop Q rs (rn_id r # seen) (out @ [n], ok \<and> fine))"

definition normalize_nodes ::
  "'f quantity_ops \<Rightarrow> raw_node list \<Rightarrow> 'f snap_node list \<times> bool \<times> go_error option" where
  "normalize_nodes Q rs =
     (case nodes_loop Q rs [] ([], True) of
        Inl e \<Rightarrow> ([], False, Some e)
      | Inr (ns, ok) \<Rightarrow> (ns, True, if ok then None else Some (validation_error ''node optional field'')))"

definition zero_power :: snap_power where
  "zero_power = \<lparr>control_plane_ready = False, nodes_ready = 0, total_nodes = 0\<rparr>"

definition normalize_power :: "power_response \<Rightarrow> snap_power \<times> bool \<times> go_error option" where
  "normalize_power r =
     (case (pw_control_plane_ready r, pw_nodes_ready r, pw_total_nodes r) of
        (Some b, Some n, Some t) \<Rightarrow>
          if n < 0 \<or> t < 0 \<or> n > t then (zero_power, False, Some (validation_error ''power node count''))
          else (\<lparr>control_plane_ready = b, nodes_ready = n, total_nodes = t\<rparr>, True, None)
      | _ \<Rightarrow> (zero_power, False, Some (validation_error ''power required field'')))"

section \<open>The cycle\<close>

record cycle_input =
  ci_ping :: "go_error option"
  ci_clusters :: "go_error + raw_cluster list"
  ci_nodes :: "go_error + raw_node list"
  ci_lock :: "go_error + bool_status"
  ci_power :: "go_error + power_response"
  ci_duration :: "bytes \<Rightarrow> go_duration"
  ci_arrival :: "bytes \<Rightarrow> go_time"
  ci_order :: "bytes list"
  ci_started :: go_time

definition clusters_outcome ::
  "'f quantity_ops \<Rightarrow> cycle_input \<Rightarrow> 'f snap_cluster list \<times> bool \<times> go_error option" where
  "clusters_outcome Q i = (case ci_clusters i of Inl e \<Rightarrow> ([], False, Some e) | Inr rs \<Rightarrow> normalize_clusters Q rs)"

definition nodes_outcome ::
  "'f quantity_ops \<Rightarrow> cycle_input \<Rightarrow> 'f snap_node list \<times> bool \<times> go_error option" where
  "nodes_outcome Q i = (case ci_nodes i of Inl e \<Rightarrow> ([], False, Some e) | Inr rs \<Rightarrow> normalize_nodes Q rs)"

definition lock_outcome :: "cycle_input \<Rightarrow> bool \<times> bool \<times> go_error option" where
  "lock_outcome i =
     (case ci_lock i of Inl e \<Rightarrow> (False, False, Some e)
      | Inr s \<Rightarrow> (bs_value s, bs_valid s, if bs_valid s then None else Some (validation_error ''lock'')))"

definition power_outcome :: "cycle_input \<Rightarrow> snap_power \<times> bool \<times> go_error option" where
  "power_outcome i = (case ci_power i of Inl e \<Rightarrow> (zero_power, False, Some e) | Inr r \<Rightarrow> normalize_power r)"

text \<open>The error a collector reports, if any.\<close>

definition outcome_error :: "'f quantity_ops \<Rightarrow> cycle_input \<Rightarrow> bytes \<Rightarrow> go_error option" where
  "outcome_error Q i name =
     (if name = ''ping'' then ci_ping i
      else if name = ''clusters'' then snd (snd (clusters_outcome Q i))
      else if name = ''nodes'' then snd (snd (nodes_outcome Q i))
      else if name = ''lock'' then snd (snd (lock_outcome i))
      else snd (snd (power_outcome i)))"

definition outcome_ok :: "'f quantity_ops \<Rightarrow> cycle_input \<Rightarrow> bytes \<Rightarrow> bool" where
  "outcome_ok Q i name \<longleftrightarrow> outcome_error Q i name = None"

definition record_outcome :: "'f quantity_ops \<Rightarrow> cycle_input \<Rightarrow> bytes \<Rightarrow> 'f view \<Rightarrow> 'f view" where
  "record_outcome Q i name v =
     (let at = ci_arrival i name; took = ci_duration i name; ok = outcome_ok Q i name
      in if name = ''ping'' then record_ping True ok ok at took v
         else if name = ''clusters'' then
           (case clusters_outcome Q i of (cs, usable, _) \<Rightarrow> record_clusters cs usable ok at took v)
         else if name = ''nodes'' then
           (case nodes_outcome Q i of (ns, usable, _) \<Rightarrow> record_nodes ns usable ok at took v)
         else if name = ''lock'' then
           (case lock_outcome i of (b, usable, _) \<Rightarrow> record_lock b usable ok at took v)
         else (case power_outcome i of (p, usable, _) \<Rightarrow> record_power p usable ok at took v))"

text \<open>The loop over the outcomes: the view, whether all succeeded so far, and the time of the last.\<close>

definition deliver ::
  "'f quantity_ops \<Rightarrow> cycle_input \<Rightarrow> bytes \<Rightarrow> 'f view \<times> bool \<times> go_time \<Rightarrow> 'f view \<times> bool \<times> go_time" where
  "deliver Q i name s =
     (case s of (v, ok, _) \<Rightarrow>
        (record_outcome Q i name v, ok \<and> outcome_ok Q i name, ci_arrival i name))"

definition collect :: "'f quantity_ops \<Rightarrow> cycle_input \<Rightarrow> 'f view \<Rightarrow> 'f view" where
  "collect Q i v =
     (case fold (deliver Q i) (ci_order i) (v, True, ci_started i) of
        (w, ok, at) \<Rightarrow> complete_required_cycle at ok w)"

text \<open>\<open>Run\<close>: one cycle at the start and one per tick.\<close>

fun run_collector :: "'f quantity_ops \<Rightarrow> cycle_input list \<Rightarrow> 'f view \<Rightarrow> 'f view" where
  "run_collector Q [] v = v"
| "run_collector Q (i # is) v = run_collector Q is (collect Q i v)"

section \<open>What a normalized response satisfies\<close>

definition cluster_states :: "bytes list" where "cluster_states = [''available'', ''unknown'']"

definition node_state_values :: "bytes list" where
  "node_state_values =
     [''maintenance_mode'', ''scheduling_disabled'', ''not_ready'', ''ready'', ''restarting'', ''shutting_down'',
      ''powered_off'', ''powering_on'', ''unknown'']"

definition value_ok :: "'f quantity_ops \<Rightarrow> 'f optional_float \<Rightarrow> bool" where
  "value_ok Q x \<longleftrightarrow> (of_valid x \<longrightarrow> \<not> qu_bad Q (of_value x))"

definition clusters_wf :: "'f quantity_ops \<Rightarrow> 'f snap_cluster list \<Rightarrow> bool" where
  "clusters_wf Q cs \<longleftrightarrow>
     distinct (map cl_id cs) \<and>
     list_all (\<lambda>c. trim_space (cl_id c) \<noteq> [] \<and> cl_state c \<in> set cluster_states \<and>
       value_ok Q (coordinator_cpu c) \<and> value_ok Q (coordinator_memory c) \<and>
       value_ok Q (worker_cpu c) \<and> value_ok Q (worker_memory c)) cs"

definition node_ok :: "'f quantity_ops \<Rightarrow> 'f snap_node \<Rightarrow> bool" where
  "node_ok Q n \<longleftrightarrow>
     nd_state n \<in> set node_state_values \<and>
     value_ok Q (capacity_cpu n) \<and> value_ok Q (capacity_memory n) \<and> value_ok Q (capacity_ephemeral_storage n) \<and>
     value_ok Q (allocatable_cpu n) \<and> value_ok Q (allocatable_memory n) \<and>
     value_ok Q (allocatable_ephemeral_storage n)"

definition nodes_wf :: "'f quantity_ops \<Rightarrow> 'f snap_node list \<Rightarrow> bool" where
  "nodes_wf Q ns \<longleftrightarrow>
     distinct (map nd_id ns) \<and> list_all (\<lambda>n. trim_space (nd_id n) \<noteq> [] \<and> node_ok Q n) ns"

definition families_wf :: "'f quantity_ops \<Rightarrow> 'f view \<Rightarrow> bool" where
  "families_wf Q v \<longleftrightarrow> clusters_wf Q (fam_data (v_clusters v)) \<and> nodes_wf Q (fam_data (v_nodes v))"

lemma quantity_value: "value_ok Q (fst (quantity Q v))"
  by (simp add: quantity_def value_ok_def no_quantity_def split: option.split)

lemma normalize_cluster_facts:
  "cl_id (fst (normalize_cluster Q r)) = rw_id r \<and>
   cl_state (fst (normalize_cluster Q r)) \<in> set cluster_states \<and>
   value_ok Q (coordinator_cpu (fst (normalize_cluster Q r))) \<and> value_ok Q (coordinator_memory (fst (normalize_cluster Q r))) \<and>
   value_ok Q (worker_cpu (fst (normalize_cluster Q r))) \<and> value_ok Q (worker_memory (fst (normalize_cluster Q r)))"
  by (simp add: normalize_cluster_def split_beta quantity_value normalize_cluster_state_def cluster_states_def)

lemma clusters_loop_wf:
  assumes "clusters_loop Q rs seen (out, ok) = Inr (cs, ok')" "set seen = cl_id ` set out" "clusters_wf Q out"
  shows "clusters_wf Q cs"
  using assms
proof (induction rs arbitrary: seen out ok)
  case (Cons r rs)
  obtain c fine where c: "normalize_cluster Q r = (c, fine)" by fastforce
  note f = normalize_cluster_facts [of Q r, unfolded c, simplified]
  from Cons.prems(1) c have i: "trim_space (rw_id r) \<noteq> []" "rw_id r \<notin> set seen"
    and l: "clusters_loop Q rs (rw_id r # seen) (out @ [c], ok \<and> fine) = Inr (cs, ok')"
    by (simp_all split: if_split_asm)
  show ?case
  proof (rule Cons.IH [OF l])
    show "set (rw_id r # seen) = cl_id ` set (out @ [c])" using Cons.prems(2) f by auto
    show "clusters_wf Q (out @ [c])" using Cons.prems(2,3) f i by (simp add: clusters_wf_def)
  qed
qed simp

lemma normalize_clusters_wf:
  assumes "normalize_clusters Q rs = (cs, usable, e)"
  shows "clusters_wf Q cs \<and> (e = None \<longrightarrow> usable)"
proof (cases "clusters_loop Q rs [] ([], True)")
  case (Inl x)
  with assms show ?thesis by (auto simp: normalize_clusters_def clusters_wf_def)
next
  case (Inr x)
  obtain ds ok where x: "x = (ds, ok)" by (cases x)
  have "clusters_wf Q ds"
    using Inr x by (intro clusters_loop_wf [of Q rs "[]" "[]" True ds ok]) (simp_all add: clusters_wf_def)
  with assms Inr x show ?thesis by (auto simp: normalize_clusters_def)
qed

lemma apply_condition_keeps:
  "node_ok Q (fst (apply_condition c s)) = node_ok Q (fst s) \<and> nd_id (fst (apply_condition c s)) = nd_id (fst s)"
  by (cases s) (simp add: apply_condition_def Let_def node_ok_def split: option.split)

lemma conditions_keep:
  "node_ok Q (fst (fold apply_condition cs s)) = node_ok Q (fst s) \<and>
   nd_id (fst (fold apply_condition cs s)) = nd_id (fst s)"
  by (induction cs arbitrary: s) (simp_all add: apply_condition_keeps)

lemma node_state_listed: "(k, s) \<in> set node_states \<Longrightarrow> s \<in> set node_state_values"
proof -
  have "list_all (\<lambda>(k, s). s \<in> set node_state_values) node_states"
    by (simp add: node_states_def node_state_values_def)
  then show "(k, s) \<in> set node_states \<Longrightarrow> s \<in> set node_state_values" by (auto simp only: list_all_iff split: prod.splits)
qed

lemma normalize_node_state_value: "normalize_node_state v \<in> set node_state_values"
proof (cases "map_of node_states (filter (\<lambda>c. c \<notin> set ''_- '') (to_lower (trim_space v)))")
  case None
  then have "normalize_node_state v = ''unknown''" by (simp add: normalize_node_state_def Let_def)
  then show ?thesis by (simp add: node_state_values_def)
next
  case (Some s)
  then have "normalize_node_state v = s" by (simp add: normalize_node_state_def Let_def)
  with node_state_listed [OF map_of_SomeD [OF Some]] show ?thesis by simp
qed

lemma normalize_node_facts:
  "nd_id (fst (normalize_node Q r)) = rn_id r \<and> node_ok Q (fst (normalize_node Q r))"
  unfolding normalize_node_def Let_def split_beta
  by (simp add: conditions_keep) (simp add: node_ok_def quantity_value normalize_node_state_value)

lemma nodes_loop_wf:
  assumes "nodes_loop Q rs seen (out, ok) = Inr (ns, ok')" "set seen = nd_id ` set out" "nodes_wf Q out"
  shows "nodes_wf Q ns"
  using assms
proof (induction rs arbitrary: seen out ok)
  case (Cons r rs)
  obtain n fine where n: "normalize_node Q r = (n, fine)" by fastforce
  note f = normalize_node_facts [of Q r, unfolded n, simplified]
  from Cons.prems(1) n have i: "trim_space (rn_id r) \<noteq> []" "rn_id r \<notin> set seen"
    and l: "nodes_loop Q rs (rn_id r # seen) (out @ [n], ok \<and> fine) = Inr (ns, ok')"
    by (simp_all split: if_split_asm)
  show ?case
  proof (rule Cons.IH [OF l])
    show "set (rn_id r # seen) = nd_id ` set (out @ [n])" using Cons.prems(2) f by auto
    show "nodes_wf Q (out @ [n])" using Cons.prems(2,3) f i by (simp add: nodes_wf_def)
  qed
qed simp

lemma normalize_nodes_wf:
  assumes "normalize_nodes Q rs = (ns, usable, e)"
  shows "nodes_wf Q ns \<and> (e = None \<longrightarrow> usable)"
proof (cases "nodes_loop Q rs [] ([], True)")
  case (Inl x)
  with assms show ?thesis by (auto simp: normalize_nodes_def nodes_wf_def)
next
  case (Inr x)
  obtain ds ok where x: "x = (ds, ok)" by (cases x)
  have "nodes_wf Q ds"
    using Inr x by (intro nodes_loop_wf [of Q rs "[]" "[]" True ds ok]) (simp_all add: nodes_wf_def)
  with assms Inr x show ?thesis by (auto simp: normalize_nodes_def)
qed

lemma clusters_outcome_wf: "clusters_outcome Q i = (cs, u, e) \<Longrightarrow> clusters_wf Q cs \<and> (e = None \<longrightarrow> u)"
  by (auto simp: clusters_outcome_def clusters_wf_def dest: normalize_clusters_wf split: sum.splits)

lemma nodes_outcome_wf: "nodes_outcome Q i = (ns, u, e) \<Longrightarrow> nodes_wf Q ns \<and> (e = None \<longrightarrow> u)"
  by (auto simp: nodes_outcome_def nodes_wf_def dest: normalize_nodes_wf split: sum.splits)

lemma lock_outcome_usable: "lock_outcome i = (b, u, None) \<Longrightarrow> u"
  by (auto simp: lock_outcome_def split: sum.splits if_splits)

lemma power_outcome_usable: "power_outcome i = (p, u, None) \<Longrightarrow> u"
  by (auto simp: power_outcome_def normalize_power_def split: sum.splits option.splits if_splits)

section \<open>What a cycle does to the view\<close>

lemma new_store_families: "families_wf Q new_store"
  by (simp add: families_wf_def clusters_wf_def nodes_wf_def new_store_def no_family_def)

lemma set_status_families [simp]:
  "v_clusters (set_status n s d v) = v_clusters v" "v_nodes (set_status n s d v) = v_nodes v"
  by (simp_all add: set_status_def)

lemma record_outcome_families:
  assumes "families_wf Q v"
  shows "families_wf Q (record_outcome Q i name v)"
proof -
  obtain cs cu ce where c: "clusters_outcome Q i = (cs, cu, ce)" by (cases "clusters_outcome Q i") auto
  obtain ns nu ne where n: "nodes_outcome Q i = (ns, nu, ne)" by (cases "nodes_outcome Q i") auto
  obtain b lu le where l: "lock_outcome i = (b, lu, le)" by (cases "lock_outcome i") auto
  obtain p pu pe where p: "power_outcome i = (p, pu, pe)" by (cases "power_outcome i") auto
  note wf = clusters_outcome_wf [OF c] nodes_outcome_wf [OF n]
  show ?thesis using assms wf
    by (simp add: families_wf_def record_outcome_def Let_def c n l p record_ping_def record_clusters_def
        record_nodes_def record_lock_def record_power_def fresh_family_def)
qed

text \<open>When the data of a collector was taken, and whether there is any.\<close>

definition stamp_of :: "'f view \<Rightarrow> bytes \<Rightarrow> go_time \<times> bool" where
  "stamp_of v name =
     (if name = ''ping'' then (collected_at (v_ping v), present (v_ping v))
      else if name = ''clusters'' then (collected_at (v_clusters v), present (v_clusters v))
      else if name = ''nodes'' then (collected_at (v_nodes v), present (v_nodes v))
      else if name = ''lock'' then (collected_at (v_lock v), present (v_lock v))
      else (collected_at (v_power v), present (v_power v)))"

definition name_current :: "'f view \<Rightarrow> go_time \<Rightarrow> go_duration \<Rightarrow> bytes \<Rightarrow> bool" where
  "name_current v now s n \<longleftrightarrow>
     st_success (collector_status_of v n) \<and> family_current (fst (stamp_of v n)) (snd (stamp_of v n)) now s"

lemma required_current_names:
  "required_current v now s \<longleftrightarrow>
     \<not> is_zero (last_complete_at v) \<and> time_sub now (last_complete_at v) \<le> s \<and>
     (\<forall>n \<in> set required_names. name_current v now s n)"
  by (auto simp: required_current_def family_stamps_def required_names_def name_current_def stamp_of_def)

lemmas record_one_defs = record_ping_def record_clusters_def record_nodes_def record_lock_def record_power_def

lemma record_outcome_self:
  assumes "n \<in> set required_names"
  shows "st_success (collector_status_of (record_outcome Q i n v) n) = outcome_ok Q i n \<and>
    (outcome_ok Q i n \<longrightarrow> stamp_of (record_outcome Q i n v) n = (ci_arrival i n, True))"
proof -
  obtain cs cu ce where c: "clusters_outcome Q i = (cs, cu, ce)" by (cases "clusters_outcome Q i") auto
  obtain ns nu ne where d: "nodes_outcome Q i = (ns, nu, ne)" by (cases "nodes_outcome Q i") auto
  obtain b lu le where l: "lock_outcome i = (b, lu, le)" by (cases "lock_outcome i") auto
  obtain p pu pe where p: "power_outcome i = (p, pu, pe)" by (cases "power_outcome i") auto
  have u: "ce = None \<longrightarrow> cu" "ne = None \<longrightarrow> nu" "le = None \<longrightarrow> lu" "pe = None \<longrightarrow> pu"
    using clusters_outcome_wf [OF c] nodes_outcome_wf [OF d] lock_outcome_usable [of i b lu]
      power_outcome_usable [of i p pu] l p by auto
  consider "n = ''ping''" | "n = ''clusters''" | "n = ''nodes''" | "n = ''lock''" | "n = ''power''"
    using assms by (auto simp: required_names_def)
  then show ?thesis using u
    by cases (simp_all add: record_outcome_def Let_def c d l p record_one_defs collector_status_of_def set_status_def
        outcome_ok_def outcome_error_def stamp_of_def fresh_family_def)
qed

lemma record_outcome_other:
  assumes "n \<in> set required_names" "m \<in> set required_names" "n \<noteq> m"
  shows "collector_status_of (record_outcome Q i n v) m = collector_status_of v m \<and>
    stamp_of (record_outcome Q i n v) m = stamp_of v m"
proof -
  obtain cs cu ce where c: "clusters_outcome Q i = (cs, cu, ce)" by (cases "clusters_outcome Q i") auto
  obtain ns nu ne where d: "nodes_outcome Q i = (ns, nu, ne)" by (cases "nodes_outcome Q i") auto
  obtain b lu le where l: "lock_outcome i = (b, lu, le)" by (cases "lock_outcome i") auto
  obtain p pu pe where p: "power_outcome i = (p, pu, pe)" by (cases "power_outcome i") auto
  consider "n = ''ping''" | "n = ''clusters''" | "n = ''nodes''" | "n = ''lock''" | "n = ''power''"
    using assms(1) by (auto simp: required_names_def)
  then show ?thesis using assms(2,3) unfolding required_names_def
    by cases (auto simp: record_outcome_def Let_def c d l p record_one_defs collector_status_of_def stamp_of_def
        set_status_def)
qed

lemma record_outcome_last: "last_complete_at (record_outcome Q i n v) = last_complete_at v"
proof -
  obtain cs cu ce where c: "clusters_outcome Q i = (cs, cu, ce)" by (cases "clusters_outcome Q i") auto
  obtain ns nu ne where d: "nodes_outcome Q i = (ns, nu, ne)" by (cases "nodes_outcome Q i") auto
  obtain b lu le where l: "lock_outcome i = (b, lu, le)" by (cases "lock_outcome i") auto
  obtain p pu pe where p: "power_outcome i = (p, pu, pe)" by (cases "power_outcome i") auto
  show ?thesis by (simp add: record_outcome_def Let_def c d l p record_one_defs set_status_def)
qed

lemma deliver_simp [simp]:
  "deliver Q i n (v, ok, at) = (record_outcome Q i n v, ok \<and> outcome_ok Q i n, ci_arrival i n)"
  by (simp add: deliver_def)

lemma deliver_all:
  assumes "fold (deliver Q i) ns (v, ok, at) = (w, ok', at')" "distinct ns" "set ns \<subseteq> set required_names"
  shows "ok' = (ok \<and> (\<forall>n \<in> set ns. outcome_ok Q i n))"
    and "last_complete_at w = last_complete_at v"
    and "at' = (if ns = [] then at else ci_arrival i (last ns))"
    and "n \<in> set ns \<Longrightarrow> st_success (collector_status_of w n) = outcome_ok Q i n \<and>
           (outcome_ok Q i n \<longrightarrow> stamp_of w n = (ci_arrival i n, True))"
    and "n \<in> set required_names \<Longrightarrow> n \<notin> set ns \<Longrightarrow>
           collector_status_of w n = collector_status_of v n \<and> stamp_of w n = stamp_of v n"
  using assms
proof (induction ns arbitrary: v ok at)
  case (Cons m ms)
  {
    case 1
    then show ?case using Cons.IH(1) by auto
  next
    case 2
    then show ?case using Cons.IH(2) record_outcome_last by auto
  next
    case 3
    then show ?case using Cons.IH(3) by auto
  next
    case 4
    then show ?case
    proof (cases "n = m")
      case True
      with 4 have "collector_status_of w n = collector_status_of (record_outcome Q i m v) n \<and>
          stamp_of w n = stamp_of (record_outcome Q i m v) n"
        by (intro Cons.IH(5)) auto
      with True 4 record_outcome_self [of m Q i v] show ?thesis by simp
    next
      case False
      with 4 show ?thesis by (intro Cons.IH(4)) auto
    qed
  next
    case 5
    have "collector_status_of w n = collector_status_of (record_outcome Q i m v) n \<and>
        stamp_of w n = stamp_of (record_outcome Q i m v) n"
      using 5 by (intro Cons.IH(5)) auto
    with 5 record_outcome_other [of m n Q i v] show ?case by auto
  }
qed simp_all

lemma collect_parts:
  assumes "distinct (ci_order i)" "set (ci_order i) = set required_names"
  shows "\<exists>w at. collect Q i v = complete_required_cycle at (\<forall>n \<in> set required_names. outcome_ok Q i n) w \<and>
    last_complete_at w = last_complete_at v \<and> (\<exists>m \<in> set required_names. at = ci_arrival i m) \<and>
    (\<forall>n \<in> set required_names. st_success (collector_status_of w n) = outcome_ok Q i n \<and>
       (outcome_ok Q i n \<longrightarrow> stamp_of w n = (ci_arrival i n, True)))"
proof -
  obtain w ok at where f: "fold (deliver Q i) (ci_order i) (v, True, ci_started i) = (w, ok, at)"
    by (cases "fold (deliver Q i) (ci_order i) (v, True, ci_started i)") auto
  have sub: "set (ci_order i) \<subseteq> set required_names" using assms(2) by simp
  note d = deliver_all [OF f assms(1) sub]
  have "''ping'' \<in> set (ci_order i)" unfolding assms(2) by (simp add: required_names_def)
  then have ne: "ci_order i \<noteq> []" by force
  then have l: "last (ci_order i) \<in> set required_names" using last_in_set assms(2) by blast
  have "collect Q i v = complete_required_cycle at (\<forall>n \<in> set required_names. outcome_ok Q i n) w"
    using d(1) assms(2) by (simp add: collect_def f)
  moreover have "at = ci_arrival i (last (ci_order i))" using d(3) ne by simp
  moreover have "\<forall>n \<in> set required_names. st_success (collector_status_of w n) = outcome_ok Q i n \<and>
       (outcome_ok Q i n \<longrightarrow> stamp_of w n = (ci_arrival i n, True))"
    using d(4) assms(2) by blast
  ultimately show ?thesis using d(2) l by blast
qed

text \<open>
  Claim C32. What a collection cycle does for readiness: after a cycle, in whatever order its five answers
  arrive, the resource data counts as current exactly while all five collectors succeeded and the answer of
  each is young enough; a cycle with a failure leaves the time of the last complete cycle as it was.
\<close>

theorem cycle_decides_freshness:
  assumes "distinct (ci_order i)" "set (ci_order i) = set required_names"
  shows "(required_current (collect Q i v) now s \<longleftrightarrow>
            (\<forall>n \<in> set required_names. outcome_ok Q i n \<and> family_current (ci_arrival i n) True now s)) \<and>
         (\<not> (\<forall>n \<in> set required_names. outcome_ok Q i n) \<longrightarrow>
            last_complete_at (collect Q i v) = last_complete_at v)"
proof -
  obtain w at m where c: "collect Q i v = complete_required_cycle at (\<forall>n \<in> set required_names. outcome_ok Q i n) w"
    and l: "last_complete_at w = last_complete_at v" and m: "m \<in> set required_names" "at = ci_arrival i m"
    and n: "\<forall>n \<in> set required_names. st_success (collector_status_of w n) = outcome_ok Q i n \<and>
       (outcome_ok Q i n \<longrightarrow> stamp_of w n = (ci_arrival i n, True))"
    using collect_parts [OF assms, of Q v] by blast
  show ?thesis
  proof (cases "\<forall>n \<in> set required_names. outcome_ok Q i n")
    case False
    then have "collect Q i v = w" using c by (simp add: complete_required_cycle_def)
    with False n l show ?thesis by (auto simp: required_current_names name_current_def)
  next
    case True
    let ?u = "w\<lparr>last_complete_at := at\<rparr>"
    have u: "collect Q i v = ?u" using True c by (simp add: complete_required_cycle_def)
    have "name_current ?u now s k = family_current (ci_arrival i k) True now s" if "k \<in> set required_names" for k
    proof -
      have "collector_status_of ?u k = collector_status_of w k" "stamp_of ?u k = stamp_of w k"
        by (simp_all add: collector_status_of_def stamp_of_def)
      with True n that show ?thesis by (simp add: name_current_def)
    qed
    moreover have "family_current at True now s \<Longrightarrow> \<not> is_zero at \<and> time_sub now at \<le> s"
      by (simp add: family_current_def)
    ultimately show ?thesis using True m u by (auto simp: required_current_names)
  qed
qed

definition example_quantities :: "int quantity_ops" where
  "example_quantities = \<lparr>qu_parse = parse_int64, qu_negative = (\<lambda>n. n < 0), qu_special = (\<lambda>_. False), qu_zero = 0\<rparr>"

definition example_cycle :: cycle_input where
  "example_cycle =
     \<lparr>ci_ping = None, ci_clusters = Inr [], ci_nodes = Inr [], ci_lock = Inr \<lparr>bs_value = True, bs_valid = True\<rparr>,
      ci_power = Inr \<lparr>pw_control_plane_ready = Some True, pw_nodes_ready = Some 1, pw_total_nodes = Some 2\<rparr>,
      ci_duration = (\<lambda>_. 1), ci_arrival = (\<lambda>_. 1000), ci_order = [''lock'', ''ping'', ''power'', ''nodes'', ''clusters''],
      ci_started = 900\<rparr>"

lemma cycle_decides_freshness_witness:
  "required_current (collect example_quantities example_cycle new_store) 1500 600 \<and>
   \<not> required_current (collect example_quantities example_cycle new_store) 1601 600"
proof -
  have o: "distinct (ci_order example_cycle)" "set (ci_order example_cycle) = set required_names"
    by (auto simp: example_cycle_def required_names_def)
  have ok: "outcome_ok example_quantities example_cycle n" if "n \<in> set required_names" for n
    using that by (auto simp: required_names_def outcome_ok_def outcome_error_def example_cycle_def
        clusters_outcome_def nodes_outcome_def lock_outcome_def power_outcome_def normalize_clusters_def
        normalize_nodes_def normalize_power_def)
  have a: "ci_arrival example_cycle n = 1000" for n by (simp add: example_cycle_def)
  have n: "''ping'' \<in> set required_names" by (simp add: required_names_def)
  have t: "family_current 1000 True 1500 600" "\<not> family_current 1000 True 1601 600"
    by (simp_all add: family_current_def is_zero_def zero_time_def time_sub_def min_int64_def max_int64_def)
  from cycle_decides_freshness [OF o, of example_quantities new_store 1500 600]
    cycle_decides_freshness [OF o, of example_quantities new_store 1601 600] ok a t n
  show ?thesis by auto
qed

end
