(* ===== verification/Metrics.thy ===== *)
theory Metrics
  imports Resource_Collector
begin

text \<open>
  Package \<open>internal/metrics\<close>: the descriptors, which of them a mode announces (\<open>Describe\<close>), and the samples
  a scrape makes of the snapshot (\<open>Collect\<close>). A metric is its full name and a sample its name, label values,
  type and value; the help texts and the Prometheus library are left out. A value is kept as what the source
  converts to \<open>float64\<close>: a flag, an integer, a duration in seconds, or a quantity.

  The library refuses a whole scrape when two samples agree in name and labels, when a sample has another
  number of labels than its descriptor, or when a collector emits a metric it did not announce. The last
  theorem says that none of this can happen in a view the exporter can reach.
\<close>

section \<open>Descriptors\<close>

record build_info =
  bi_version :: bytes
  bi_go_version :: bytes

record pipeline_mode =
  pm_resources :: bool
  pm_alerts :: bool
  pm_logs :: bool

record metrics_collector =
  mc_stale_after :: go_duration
  mc_build :: build_info
  mc_mode :: pipeline_mode

definition default_mode :: pipeline_mode where
  "default_mode = \<lparr>pm_resources = True, pm_alerts = True, pm_logs = False\<rparr>"

definition new_collector :: "go_duration \<Rightarrow> build_info \<Rightarrow> pipeline_mode list \<Rightarrow> metrics_collector" where
  "new_collector stale build modes =
     \<lparr>mc_stale_after = stale, mc_build = build,
      mc_mode = (case modes of [] \<Rightarrow> default_mode | m # _ \<Rightarrow> m)\<rparr>"

text \<open>The names and labels \<open>NewCollector\<close> gives to the descriptors.\<close>

definition metric_table :: "(bytes \<times> bytes list) list" where
  "metric_table =
     [(''ddae_monitoring_enabled'', [''pipeline'']),
      (''ddae_up'', []),
      (''ddae_collector_success'', [''collector'']),
      (''ddae_collector_duration_seconds'', [''collector'']),
      (''ddae_snapshot_age_seconds'', []),
      (''ddae_build_info'', [''version'', ''go_version'']),
      (''ddae_management_api_up'', []),
      (''ddae_cluster_state_info'', [''cluster'', ''state'']),
      (''ddae_cluster_coordinator_configured_cpu_cores'', [''cluster'']),
      (''ddae_cluster_coordinator_configured_memory_bytes'', [''cluster'']),
      (''ddae_cluster_worker_configured_cpu_cores'', [''cluster'']),
      (''ddae_cluster_worker_configured_memory_bytes'', [''cluster'']),
      (''ddae_node_state_info'', [''node'', ''state'']),
      (''ddae_node_ready'', [''node'']),
      (''ddae_node_capacity_cpu_cores'', [''node'']),
      (''ddae_node_capacity_memory_bytes'', [''node'']),
      (''ddae_node_capacity_ephemeral_storage_bytes'', [''node'']),
      (''ddae_node_allocatable_cpu_cores'', [''node'']),
      (''ddae_node_allocatable_memory_bytes'', [''node'']),
      (''ddae_node_allocatable_ephemeral_storage_bytes'', [''node'']),
      (''ddae_node_condition'', [''node'', ''condition'']),
      (''ddae_system_locked'', []),
      (''ddae_control_plane_ready'', []),
      (''ddae_nodes_ready'', []),
      (''ddae_nodes_total'', []),
      (''ddae_alert_list_complete'', []),
      (''ddae_alert_detail_deferred'', []),
      (''ddae_alert_pipeline_ready'', []),
      (''ddae_kafka_publish_success'', []),
      (''ddae_kafka_publish_duration_seconds'', []),
      (''ddae_kafka_events_published_total'', []),
      (''ddae_kafka_events_failed_total'', [''reason'']),
      (''ddae_kafka_buffered_events'', []),
      (''ddae_serviceability_log_list_complete'', []),
      (''ddae_serviceability_log_detail_deferred'', []),
      (''ddae_serviceability_log_pipeline_ready'', []),
      (''ddae_serviceability_log_kafka_publish_success'', []),
      (''ddae_serviceability_log_kafka_publish_duration_seconds'', []),
      (''ddae_serviceability_log_records_published_total'', []),
      (''ddae_serviceability_log_records_failed_total'', [''reason'']),
      (''ddae_serviceability_log_buffered_records'', [])]"

definition resource_metrics :: "bytes list" where
  "resource_metrics =
     [''ddae_up'', ''ddae_snapshot_age_seconds'', ''ddae_management_api_up'', ''ddae_cluster_state_info'',
      ''ddae_cluster_coordinator_configured_cpu_cores'', ''ddae_cluster_coordinator_configured_memory_bytes'',
      ''ddae_cluster_worker_configured_cpu_cores'', ''ddae_cluster_worker_configured_memory_bytes'',
      ''ddae_node_state_info'', ''ddae_node_ready'', ''ddae_node_capacity_cpu_cores'',
      ''ddae_node_capacity_memory_bytes'', ''ddae_node_capacity_ephemeral_storage_bytes'',
      ''ddae_node_allocatable_cpu_cores'', ''ddae_node_allocatable_memory_bytes'',
      ''ddae_node_allocatable_ephemeral_storage_bytes'', ''ddae_node_condition'', ''ddae_system_locked'',
      ''ddae_control_plane_ready'', ''ddae_nodes_ready'', ''ddae_nodes_total'']"

definition alert_metrics :: "bytes list" where
  "alert_metrics =
     [''ddae_alert_list_complete'', ''ddae_alert_detail_deferred'', ''ddae_alert_pipeline_ready'',
      ''ddae_kafka_publish_success'', ''ddae_kafka_publish_duration_seconds'', ''ddae_kafka_events_published_total'',
      ''ddae_kafka_events_failed_total'', ''ddae_kafka_buffered_events'']"

definition log_metrics :: "bytes list" where
  "log_metrics =
     [''ddae_serviceability_log_list_complete'', ''ddae_serviceability_log_detail_deferred'',
      ''ddae_serviceability_log_pipeline_ready'', ''ddae_serviceability_log_kafka_publish_success'',
      ''ddae_serviceability_log_kafka_publish_duration_seconds'', ''ddae_serviceability_log_records_published_total'',
      ''ddae_serviceability_log_records_failed_total'', ''ddae_serviceability_log_buffered_records'']"

definition describe :: "metrics_collector \<Rightarrow> bytes list" where
  "describe c =
     [''ddae_monitoring_enabled'', ''ddae_build_info'', ''ddae_collector_success'', ''ddae_collector_duration_seconds''] @
     (if pm_resources (mc_mode c) then resource_metrics else []) @
     (if pm_alerts (mc_mode c) then alert_metrics else []) @
     (if pm_logs (mc_mode c) then log_metrics else [])"

section \<open>Samples\<close>

datatype 'f metric_value = Flag bool | Whole int | Seconds go_duration | Amount 'f

record 'f sample =
  sm_name :: bytes
  sm_labels :: "bytes list"
  sm_counter :: bool
  sm_value :: "'f metric_value"

definition gauge :: "'f quantity_ops \<Rightarrow> bytes \<Rightarrow> 'f metric_value \<Rightarrow> bytes list \<Rightarrow> 'f sample" where
  "gauge Q name value labels =
     \<lparr>sm_name = name, sm_labels = labels, sm_counter = False,
      sm_value = (case value of Amount x \<Rightarrow> if qu_special Q x then Whole 0 else value | _ \<Rightarrow> value)\<rparr>"

definition counter :: "bytes \<Rightarrow> u64 \<Rightarrow> bytes list \<Rightarrow> 'f sample" where
  "counter name n labels = \<lparr>sm_name = name, sm_labels = labels, sm_counter = True, sm_value = Whole (uint n)\<rparr>"

definition optional :: "'f quantity_ops \<Rightarrow> bytes \<Rightarrow> 'f optional_float \<Rightarrow> bytes list \<Rightarrow> 'f sample list" where
  "optional Q name x labels = (if of_valid x then [gauge Q name (Amount (of_value x)) labels] else [])"

definition optional_flag :: "'f quantity_ops \<Rightarrow> bytes \<Rightarrow> bool option \<Rightarrow> bytes list \<Rightarrow> 'f sample list" where
  "optional_flag Q name x labels = (case x of None \<Rightarrow> [] | Some b \<Rightarrow> [gauge Q name (Flag b) labels])"

definition class_text :: "fclass \<Rightarrow> bytes" where
  "class_text c =
     (case c of ClassAuth \<Rightarrow> ''auth'' | ClassTLS \<Rightarrow> ''tls'' | ClassTimeout \<Rightarrow> ''timeout''
      | ClassTransport \<Rightarrow> ''transport'' | ClassHTTP \<Rightarrow> ''http'' | ClassDecode \<Rightarrow> ''decode''
      | ClassValidation \<Rightarrow> ''validation'' | ClassKafkaAuth \<Rightarrow> ''kafka_auth''
      | ClassKafkaTimeout \<Rightarrow> ''kafka_timeout'' | ClassKafkaRejected \<Rightarrow> ''kafka_rejected''
      | ClassBufferFull \<Rightarrow> ''buffer_full'' | ClassInternal \<Rightarrow> ''internal'')"

definition failure_classes :: "fclass list" where
  "failure_classes =
     [ClassAuth, ClassTLS, ClassTimeout, ClassTransport, ClassHTTP, ClassDecode, ClassValidation,
      ClassKafkaAuth, ClassKafkaTimeout, ClassKafkaRejected, ClassBufferFull, ClassInternal]"

definition status_samples :: "'f quantity_ops \<Rightarrow> 'f view \<Rightarrow> bytes list \<Rightarrow> 'f sample list" where
  "status_samples Q v names =
     concat (map (\<lambda>n.
       [gauge Q ''ddae_collector_success'' (Flag (st_success (collector_status_of v n))) [n],
        gauge Q ''ddae_collector_duration_seconds'' (Seconds (st_duration (collector_status_of v n))) [n]]) names)"

definition cluster_samples :: "'f quantity_ops \<Rightarrow> 'f snap_cluster \<Rightarrow> 'f sample list" where
  "cluster_samples Q c =
     map (\<lambda>s. gauge Q ''ddae_cluster_state_info'' (Flag (cl_state c = s)) [cl_id c, s]) cluster_states @
     optional Q ''ddae_cluster_coordinator_configured_cpu_cores'' (coordinator_cpu c) [cl_id c] @
     optional Q ''ddae_cluster_coordinator_configured_memory_bytes'' (coordinator_memory c) [cl_id c] @
     optional Q ''ddae_cluster_worker_configured_cpu_cores'' (worker_cpu c) [cl_id c] @
     optional Q ''ddae_cluster_worker_configured_memory_bytes'' (worker_memory c) [cl_id c]"

definition node_samples :: "'f quantity_ops \<Rightarrow> 'f snap_node \<Rightarrow> 'f sample list" where
  "node_samples Q n =
     map (\<lambda>s. gauge Q ''ddae_node_state_info'' (Flag (nd_state n = s)) [nd_id n, s]) node_state_values @
     [gauge Q ''ddae_node_ready'' (Flag (nd_state n = ''ready'')) [nd_id n]] @
     optional Q ''ddae_node_capacity_cpu_cores'' (capacity_cpu n) [nd_id n] @
     optional Q ''ddae_node_capacity_memory_bytes'' (capacity_memory n) [nd_id n] @
     optional Q ''ddae_node_capacity_ephemeral_storage_bytes'' (capacity_ephemeral_storage n) [nd_id n] @
     optional Q ''ddae_node_allocatable_cpu_cores'' (allocatable_cpu n) [nd_id n] @
     optional Q ''ddae_node_allocatable_memory_bytes'' (allocatable_memory n) [nd_id n] @
     optional Q ''ddae_node_allocatable_ephemeral_storage_bytes'' (allocatable_ephemeral_storage n) [nd_id n] @
     optional_flag Q ''ddae_node_condition'' (disk_pressure n) [nd_id n, ''disk_pressure''] @
     optional_flag Q ''ddae_node_condition'' (memory_pressure n) [nd_id n, ''memory_pressure'']"

definition fam_current :: "metrics_collector \<Rightarrow> go_time \<Rightarrow> 'a family \<Rightarrow> bool" where
  "fam_current c now f = family_current (collected_at f) (present f) now (mc_stale_after c)"

definition head_samples :: "'f quantity_ops \<Rightarrow> metrics_collector \<Rightarrow> 'f sample list" where
  "head_samples Q c =
     [gauge Q ''ddae_monitoring_enabled'' (Flag (pm_resources (mc_mode c))) [''resources''],
      gauge Q ''ddae_monitoring_enabled'' (Flag (pm_alerts (mc_mode c))) [''alerts''],
      gauge Q ''ddae_monitoring_enabled'' (Flag (pm_logs (mc_mode c))) [''serviceability_logs''],
      gauge Q ''ddae_build_info'' (Flag True) [bi_version (mc_build c), bi_go_version (mc_build c)]]"

definition age_samples :: "'f quantity_ops \<Rightarrow> metrics_collector \<Rightarrow> go_time \<Rightarrow> 'f view \<Rightarrow> 'f sample list" where
  "age_samples Q c now v =
     [gauge Q ''ddae_snapshot_age_seconds''
        (Seconds (if is_zero (last_complete_at v) then 0 else max 0 (time_sub now (last_complete_at v)))) [],
      gauge Q ''ddae_management_api_up''
        (Flag (st_success (collector_status_of v ''ping'') \<and> fam_current c now (v_ping v) \<and> fam_data (v_ping v))) []]"

definition lock_power_samples :: "'f quantity_ops \<Rightarrow> metrics_collector \<Rightarrow> go_time \<Rightarrow> 'f view \<Rightarrow> 'f sample list" where
  "lock_power_samples Q c now v =
     (if fam_current c now (v_lock v) then [gauge Q ''ddae_system_locked'' (Flag (fam_data (v_lock v))) []] else []) @
     (if fam_current c now (v_power v) then
        [gauge Q ''ddae_control_plane_ready'' (Flag (control_plane_ready (fam_data (v_power v)))) [],
         gauge Q ''ddae_nodes_ready'' (Whole (nodes_ready (fam_data (v_power v)))) [],
         gauge Q ''ddae_nodes_total'' (Whole (total_nodes (fam_data (v_power v)))) []]
      else [])"

definition resource_samples :: "'f quantity_ops \<Rightarrow> metrics_collector \<Rightarrow> go_time \<Rightarrow> 'f view \<Rightarrow> 'f sample list list" where
  "resource_samples Q c now v =
     [[gauge Q ''ddae_up'' (Flag (required_current v now (mc_stale_after c))) []],
      status_samples Q v [''ping'', ''clusters'', ''nodes'', ''lock'', ''power''],
      age_samples Q c now v,
      (if fam_current c now (v_clusters v) then concat (map (cluster_samples Q) (fam_data (v_clusters v))) else []),
      (if fam_current c now (v_nodes v) then concat (map (node_samples Q) (fam_data (v_nodes v))) else []),
      lock_power_samples Q c now v]"

definition alert_samples :: "'f quantity_ops \<Rightarrow> 'f view \<Rightarrow> 'f sample list" where
  "alert_samples Q v =
     [gauge Q ''ddae_alert_list_complete'' (Flag (alert_list_complete v)) [],
      gauge Q ''ddae_alert_detail_deferred'' (Whole (alert_deferred v)) [],
      gauge Q ''ddae_alert_pipeline_ready'' (Flag (alert_pipeline_ready v)) [],
      gauge Q ''ddae_kafka_publish_success'' (Flag (kafka_publish_success v)) [],
      gauge Q ''ddae_kafka_publish_duration_seconds'' (Seconds (kafka_publish_duration v)) [],
      counter ''ddae_kafka_events_published_total'' (kafka_published_total v) []] @
     map (\<lambda>k. counter ''ddae_kafka_events_failed_total'' (failed_count (kafka_failed_total v) k) [class_text k]) failure_classes @
     [gauge Q ''ddae_kafka_buffered_events'' (Whole (kafka_buffered v)) []]"

definition log_samples :: "'f quantity_ops \<Rightarrow> 'f view \<Rightarrow> 'f sample list" where
  "log_samples Q v =
     [gauge Q ''ddae_serviceability_log_list_complete'' (Flag (log_list_complete v)) [],
      gauge Q ''ddae_serviceability_log_detail_deferred'' (Whole (log_deferred v)) [],
      gauge Q ''ddae_serviceability_log_pipeline_ready'' (Flag (log_pipeline_ready v)) [],
      gauge Q ''ddae_serviceability_log_kafka_publish_success'' (Flag (log_publish_success v)) [],
      gauge Q ''ddae_serviceability_log_kafka_publish_duration_seconds'' (Seconds (log_publish_duration v)) [],
      counter ''ddae_serviceability_log_records_published_total'' (log_published_total v) []] @
     map (\<lambda>k. counter ''ddae_serviceability_log_records_failed_total'' (failed_count (log_failed_total v) k) [class_text k]) failure_classes @
     [gauge Q ''ddae_serviceability_log_buffered_records'' (Whole (log_buffered v)) []]"

text \<open>The blocks of \<open>Collect\<close>, in its order.\<close>

definition scrape_blocks :: "'f quantity_ops \<Rightarrow> metrics_collector \<Rightarrow> go_time \<Rightarrow> 'f view \<Rightarrow> 'f sample list list" where
  "scrape_blocks Q c now v =
     [head_samples Q c] @
     (if pm_resources (mc_mode c) then resource_samples Q c now v else []) @
     (if pm_alerts (mc_mode c) then [status_samples Q v [''alert_list'', ''alert_detail''], alert_samples Q v] else []) @
     (if pm_logs (mc_mode c)
      then [status_samples Q v [''serviceability_log_list'', ''serviceability_log_detail''], log_samples Q v] else [])"

definition scrape :: "'f quantity_ops \<Rightarrow> metrics_collector \<Rightarrow> go_time \<Rightarrow> 'f view \<Rightarrow> 'f sample list" where
  "scrape Q c now v = concat (scrape_blocks Q c now v)"

section \<open>The views of a running exporter\<close>

text \<open>
  The collector goroutine records outcomes and completes cycles; every other transition of the store comes from
  the alert and log goroutines and leaves the clusters and nodes alone.
\<close>

inductive exporter_view :: "'f quantity_ops \<Rightarrow> 'f view \<Rightarrow> bool" for Q where
  start: "exporter_view Q new_store"
| outcome: "exporter_view Q v \<Longrightarrow> exporter_view Q (record_outcome Q i n v)"
| complete: "exporter_view Q v \<Longrightarrow> exporter_view Q (complete_required_cycle at s v)"
| other: "exporter_view Q v \<Longrightarrow> snap_step v w \<Longrightarrow> v_clusters w = v_clusters v \<Longrightarrow> v_nodes w = v_nodes v
    \<Longrightarrow> exporter_view Q w"

lemma exporter_view_families: "exporter_view Q v \<Longrightarrow> families_wf Q v"
proof (induction rule: exporter_view.induct)
  case (complete v at s)
  then show ?case by (simp add: families_wf_def complete_required_cycle_def)
next
  case (other v w)
  then show ?case by (simp add: families_wf_def)
qed (simp_all add: new_store_families record_outcome_families)

lemma exporter_view_collect:
  assumes "exporter_view Q v"
  shows "exporter_view Q (collect Q i v)"
proof -
  have "exporter_view Q (fst (fold (deliver Q i) ns (w, ok, at)))" if "exporter_view Q w" for ns w ok at
    using that by (induction ns arbitrary: w ok at) (simp_all add: exporter_view.outcome)
  from this [OF assms, of "ci_order i" True "ci_started i"] show ?thesis
    by (auto simp: collect_def exporter_view.complete split: prod.split)
qed

section \<open>Validity of a list of samples\<close>

definition arity :: "bytes \<Rightarrow> nat option" where
  "arity name = map_option length (map_of metric_table name)"

definition sample_key :: "'f sample \<Rightarrow> bytes \<times> bytes list" where
  "sample_key s = (sm_name s, sm_labels s)"

definition sane_value :: "'f quantity_ops \<Rightarrow> 'f metric_value \<Rightarrow> bool" where
  "sane_value Q v = (case v of Amount x \<Rightarrow> \<not> qu_bad Q x | _ \<Rightarrow> True)"

text \<open>The samples of a block: distinct keys, the right number of labels, sane values, and only the given tags.\<close>

definition block_ok ::
  "'f quantity_ops \<Rightarrow> ('f sample \<Rightarrow> 't) \<Rightarrow> 'f sample list \<Rightarrow> 't list \<Rightarrow> bool" where
  "block_ok Q tag b ts \<longleftrightarrow>
     distinct (map sample_key b) \<and> list_all (\<lambda>s. tag s \<in> set ts) b \<and>
     list_all (\<lambda>s. arity (sm_name s) = Some (length (sm_labels s)) \<and> sane_value Q (sm_value s)) b"

lemma disjoint_keys:
  assumes "\<And>x y. x \<in> A \<Longrightarrow> y \<in> B \<Longrightarrow> f x = f y \<Longrightarrow> False"
  shows "f ` A \<inter> f ` B = {}"
  using assms by blast

lemma block_ok_join:
  assumes "block_ok Q tag b ts" "block_ok Q tag b' ts'" "sample_key ` set b \<inter> sample_key ` set b' = {}"
  shows "block_ok Q tag (b @ b') (ts @ ts')"
proof -
  have "list_all (\<lambda>s. tag s \<in> set (ts @ ts')) b" "list_all (\<lambda>s. tag s \<in> set (ts @ ts')) b'"
    using assms(1,2) by (auto simp: block_ok_def elim!: list.pred_mono_strong)
  with assms show ?thesis by (simp add: block_ok_def)
qed

lemma block_ok_weaken: "block_ok Q tag b ts \<Longrightarrow> set ts \<subseteq> set us \<Longrightarrow> block_ok Q tag b us"
  by (auto simp: block_ok_def elim!: list.pred_mono_strong)

lemma block_ok_tag: "block_ok Q tag b ts \<Longrightarrow> s \<in> set b \<Longrightarrow> tag s \<in> set ts"
  by (auto simp: block_ok_def list_all_iff)

lemma block_ok_append:
  assumes "block_ok Q tag b ts" "block_ok Q tag b' ts'" "set ts \<inter> set ts' = {}"
    "\<And>s s'. sample_key s = sample_key s' \<Longrightarrow> tag s = tag s'"
  shows "block_ok Q tag (b @ b') (ts @ ts')"
proof (rule block_ok_join [OF assms(1,2)], rule disjoint_keys)
  fix x y assume s: "x \<in> set b" "y \<in> set b'" "sample_key x = sample_key y"
  have "tag x \<in> set ts" by (rule block_ok_tag [OF assms(1) s(1)])
  moreover have "tag y \<in> set ts'" by (rule block_ok_tag [OF assms(2) s(2)])
  moreover have "tag x = tag y" by (rule assms(4) [OF s(3)])
  ultimately show False using assms(3) by (simp add: disjoint_iff)
qed

lemma blocks_ok_concat:
  assumes "list_all2 (block_ok Q tag) bs tss" "distinct (concat tss)"
    "\<And>s s'. sample_key s = sample_key s' \<Longrightarrow> tag s = tag s'"
  shows "block_ok Q tag (concat bs) (concat tss)"
  using assms(1,2)
proof (induction rule: list_all2_induct)
  case Nil
  then show ?case by (simp add: block_ok_def)
next
  case (Cons b bs ts tss)
  have "block_ok Q tag (b @ concat bs) (ts @ concat tss)"
    by (rule block_ok_append [OF Cons.hyps(1) _ _ assms(3)]) (use Cons in simp_all)
  then show ?case by simp
qed

lemma block_ok_single [intro]:
  "tag s \<in> set ts \<Longrightarrow> arity (sm_name s) = Some (length (sm_labels s)) \<Longrightarrow> sane_value Q (sm_value s)
   \<Longrightarrow> block_ok Q tag [s] ts"
  by (simp add: block_ok_def)

lemma block_ok_empty [simp]: "block_ok Q tag [] ts"
  by (simp add: block_ok_def)

text \<open>Blocks made of one block per item of a list, each under the identifier of its item.\<close>

lemma items_ok_concat:
  assumes "distinct (map ident cs)" "\<And>c. c \<in> set cs \<Longrightarrow> block_ok Q tag (f c) ts"
    "\<And>c s. c \<in> set cs \<Longrightarrow> s \<in> set (f c) \<Longrightarrow> hd (sm_labels s) = ident c"
  shows "block_ok Q tag (concat (map f cs)) ts"
  using assms
proof (induction cs)
  case (Cons c cs)
  have h: "block_ok Q tag (f c) ts" "block_ok Q tag (concat (map f cs)) ts"
    using Cons by auto
  have "sample_key ` set (f c) \<inter> sample_key ` set (concat (map f cs)) = {}"
  proof (rule disjoint_keys)
    fix s s' assume s: "s \<in> set (f c)" "s' \<in> set (concat (map f cs))" "sample_key s = sample_key s'"
    then obtain d where d: "d \<in> set cs" "s' \<in> set (f d)" by auto
    with s have "hd (sm_labels s) = ident c" "hd (sm_labels s') = ident d" using Cons.prems(3) by auto
    with s(3) have "ident c = ident d" by (simp add: sample_key_def)
    with d Cons.prems(1) show False by auto
  qed
  from block_ok_join [OF h this] show ?case using block_ok_weaken [of Q tag _ "ts @ ts" ts] by simp
qed simp

section \<open>The blocks of a scrape\<close>

definition block_tag :: "'f sample \<Rightarrow> bytes \<times> bytes" where
  "block_tag s =
     (sm_name s, if sm_name s = ''ddae_collector_success'' \<or> sm_name s = ''ddae_collector_duration_seconds''
                 then hd (sm_labels s) else [])"

lemma block_tag_key: "sample_key s = sample_key s' \<Longrightarrow> block_tag s = block_tag s'"
  by (simp add: sample_key_def block_tag_def)

lemma sm_name_key: "sample_key s = sample_key s' \<Longrightarrow> sm_name s = sm_name s'"
  by (simp add: sample_key_def)

lemma gauge_simps [simp]:
  "sm_name (gauge Q n v ls) = n" "sm_labels (gauge Q n v ls) = ls" "sample_key (gauge Q n v ls) = (n, ls)"
  by (simp_all add: gauge_def sample_key_def)

lemma counter_simps [simp]:
  "sm_name (counter n k ls) = n" "sm_labels (counter n k ls) = ls" "sample_key (counter n k ls) = (n, ls)"
  "sane_value Q (sm_value (counter n k ls))"
  by (simp_all add: counter_def sample_key_def sane_value_def)

lemma gauge_sane [simp]:
  "sane_value Q (sm_value (gauge Q n (Flag b) ls))" "sane_value Q (sm_value (gauge Q n (Whole i) ls))"
  "sane_value Q (sm_value (gauge Q n (Seconds d) ls))"
  by (simp_all add: gauge_def sane_value_def)

lemma gauge_sane_amount: "\<not> qu_bad Q x \<Longrightarrow> sane_value Q (sm_value (gauge Q n (Amount x) ls))"
  by (simp add: gauge_def sane_value_def)

lemma optional_ok:
  assumes "value_ok Q x" "arity n = Some (length ls)"
  shows "block_ok Q sm_name (optional Q n x ls) [n]"
  using assms by (auto simp: optional_def value_ok_def gauge_sane_amount)

lemma metric_names: "distinct (map fst metric_table)"
  by code_simp

lemma arity_table: "(n, ls) \<in> set metric_table \<Longrightarrow> arity n = Some (length ls)"
  using metric_names by (simp add: arity_def map_of_eq_Some_iff)

lemma arities_table: "list_all (\<lambda>(n, ls). arity n = Some (length ls)) metric_table"
  using arity_table by (auto simp: list_all_iff)

lemmas arities = arities_table [unfolded metric_table_def list.pred_inject prod.case list.size, simplified]

definition cluster_metrics :: "bytes list" where
  "cluster_metrics =
     [''ddae_cluster_state_info'', ''ddae_cluster_coordinator_configured_cpu_cores'',
      ''ddae_cluster_coordinator_configured_memory_bytes'', ''ddae_cluster_worker_configured_cpu_cores'',
      ''ddae_cluster_worker_configured_memory_bytes'']"

definition node_metrics :: "bytes list" where
  "node_metrics =
     [''ddae_node_state_info'', ''ddae_node_ready'', ''ddae_node_capacity_cpu_cores'',
      ''ddae_node_capacity_memory_bytes'', ''ddae_node_capacity_ephemeral_storage_bytes'',
      ''ddae_node_allocatable_cpu_cores'', ''ddae_node_allocatable_memory_bytes'',
      ''ddae_node_allocatable_ephemeral_storage_bytes'', ''ddae_node_condition'']"

lemma states_ok:
  assumes "distinct ss" "arity n = Some (Suc (Suc 0))"
  shows "block_ok Q sm_name (map (\<lambda>s. gauge Q n (Flag (x = s)) [i, s]) ss) [n]"
  using assms by (auto simp: block_ok_def distinct_map inj_on_def list_all_iff o_def)

lemma flag_ok: "arity n = Some (length ls) \<Longrightarrow> block_ok Q sm_name [gauge Q n (Flag b) ls] [n]"
  by auto

lemma conditions_ok:
  assumes "arity n = Some (Suc (Suc 0))" "c \<noteq> d"
  shows "block_ok Q sm_name (optional_flag Q n x [i, c] @ optional_flag Q n y [i, d]) [n]"
  using assms by (simp add: optional_flag_def block_ok_def split: option.split)

lemma state_lists [simp]: "distinct cluster_states" "distinct node_state_values"
  by (simp_all add: cluster_states_def node_state_values_def)

lemma named_blocks:
  assumes "list_all2 (block_ok Q sm_name) bs (map (\<lambda>n. [n]) ns)" "distinct ns"
  shows "block_ok Q sm_name (concat bs) ns"
proof -
  have [simp]: "concat (map (\<lambda>n. [n]) ns) = ns" by (induction ns) simp_all
  from blocks_ok_concat [OF assms(1) _ sm_name_key] assms(2) show ?thesis by simp
qed

lemma cluster_block:
  assumes "value_ok Q (coordinator_cpu c)" "value_ok Q (coordinator_memory c)"
    "value_ok Q (worker_cpu c)" "value_ok Q (worker_memory c)"
  shows "block_ok Q sm_name (cluster_samples Q c) cluster_metrics"
proof -
  let ?bs = "[map (\<lambda>s. gauge Q ''ddae_cluster_state_info'' (Flag (cl_state c = s)) [cl_id c, s]) cluster_states,
     optional Q ''ddae_cluster_coordinator_configured_cpu_cores'' (coordinator_cpu c) [cl_id c],
     optional Q ''ddae_cluster_coordinator_configured_memory_bytes'' (coordinator_memory c) [cl_id c],
     optional Q ''ddae_cluster_worker_configured_cpu_cores'' (worker_cpu c) [cl_id c],
     optional Q ''ddae_cluster_worker_configured_memory_bytes'' (worker_memory c) [cl_id c]]"
  have "list_all2 (block_ok Q sm_name) ?bs (map (\<lambda>n. [n]) cluster_metrics)"
    using assms unfolding cluster_metrics_def list.map by (simp add: states_ok optional_ok arities)
  then have "block_ok Q sm_name (concat ?bs) cluster_metrics"
    by (rule named_blocks) (simp add: cluster_metrics_def)
  then show ?thesis by (simp add: cluster_samples_def)
qed

lemma node_block:
  assumes "node_ok Q n"
  shows "block_ok Q sm_name (node_samples Q n) node_metrics"
proof -
  let ?bs = "[map (\<lambda>s. gauge Q ''ddae_node_state_info'' (Flag (nd_state n = s)) [nd_id n, s]) node_state_values,
     [gauge Q ''ddae_node_ready'' (Flag (nd_state n = ''ready'')) [nd_id n]],
     optional Q ''ddae_node_capacity_cpu_cores'' (capacity_cpu n) [nd_id n],
     optional Q ''ddae_node_capacity_memory_bytes'' (capacity_memory n) [nd_id n],
     optional Q ''ddae_node_capacity_ephemeral_storage_bytes'' (capacity_ephemeral_storage n) [nd_id n],
     optional Q ''ddae_node_allocatable_cpu_cores'' (allocatable_cpu n) [nd_id n],
     optional Q ''ddae_node_allocatable_memory_bytes'' (allocatable_memory n) [nd_id n],
     optional Q ''ddae_node_allocatable_ephemeral_storage_bytes'' (allocatable_ephemeral_storage n) [nd_id n],
     optional_flag Q ''ddae_node_condition'' (disk_pressure n) [nd_id n, ''disk_pressure''] @
     optional_flag Q ''ddae_node_condition'' (memory_pressure n) [nd_id n, ''memory_pressure'']]"
  have "list_all2 (block_ok Q sm_name) ?bs (map (\<lambda>n. [n]) node_metrics)"
    using assms unfolding node_metrics_def list.map node_ok_def
    by (simp add: states_ok optional_ok flag_ok conditions_ok arities)
  then have "block_ok Q sm_name (concat ?bs) node_metrics"
    by (rule named_blocks) (simp add: node_metrics_def)
  then show ?thesis by (simp add: node_samples_def)
qed

lemma item_labels:
  "s \<in> set (cluster_samples Q c) \<Longrightarrow> hd (sm_labels s) = cl_id c"
  "s \<in> set (node_samples Q n) \<Longrightarrow> hd (sm_labels s) = nd_id n"
  by (auto simp: cluster_samples_def node_samples_def optional_def optional_flag_def split: if_splits option.splits)

lemma clusters_block:
  assumes "clusters_wf Q cs"
  shows "block_ok Q sm_name (concat (map (cluster_samples Q) cs)) cluster_metrics"
  using assms
  by (intro items_ok_concat [where ident = cl_id]) (auto simp: clusters_wf_def list_all_iff item_labels intro!: cluster_block)

lemma nodes_block:
  assumes "nodes_wf Q ns"
  shows "block_ok Q sm_name (concat (map (node_samples Q) ns)) node_metrics"
  using assms
  by (intro items_ok_concat [where ident = nd_id]) (auto simp: nodes_wf_def list_all_iff item_labels intro!: node_block)

text \<open>A block whose names are its tags, under the tags of the whole scrape.\<close>

abbreviation plain_tags :: "bytes list \<Rightarrow> (bytes \<times> bytes) list" where
  "plain_tags ns \<equiv> map (\<lambda>n. (n, [])) ns"

lemma named_block_tags:
  assumes "block_ok Q sm_name b ns"
    "''ddae_collector_success'' \<notin> set ns" "''ddae_collector_duration_seconds'' \<notin> set ns"
  shows "block_ok Q block_tag b (plain_tags ns)"
  using assms by (auto simp: block_ok_def block_tag_def list_all_iff)

abbreviation status_tags :: "bytes list \<Rightarrow> (bytes \<times> bytes) list" where
  "status_tags ns \<equiv> concat (map (\<lambda>n. [(''ddae_collector_success'', n), (''ddae_collector_duration_seconds'', n)]) ns)"

lemma status_block: "distinct ns \<Longrightarrow> block_ok Q block_tag (status_samples Q v ns) (status_tags ns)"
proof (induction ns)
  case (Cons n ns)
  have "block_ok Q block_tag (status_samples Q v [n]) (status_tags [n])"
    by (simp add: status_samples_def block_ok_def block_tag_def arities)
  then have "block_ok Q block_tag (status_samples Q v [n] @ status_samples Q v ns) (status_tags [n] @ status_tags ns)"
    by (rule block_ok_append [OF _ _ _ block_tag_key]) (use Cons in auto)
  then show ?case by (simp add: status_samples_def)
qed (simp add: status_samples_def)

section \<open>A whole scrape\<close>

definition head_tags :: "(bytes \<times> bytes) list list" where
  "head_tags = [plain_tags [''ddae_monitoring_enabled'', ''ddae_build_info'']]"

definition resource_tags :: "(bytes \<times> bytes) list list" where
  "resource_tags =
     [plain_tags [''ddae_up''],
      status_tags [''ping'', ''clusters'', ''nodes'', ''lock'', ''power''],
      plain_tags [''ddae_snapshot_age_seconds'', ''ddae_management_api_up''],
      plain_tags cluster_metrics,
      plain_tags node_metrics,
      plain_tags [''ddae_system_locked'', ''ddae_control_plane_ready'', ''ddae_nodes_ready'', ''ddae_nodes_total'']]"

definition alert_tags :: "(bytes \<times> bytes) list list" where
  "alert_tags = [status_tags [''alert_list'', ''alert_detail''], plain_tags alert_metrics]"

definition log_tags :: "(bytes \<times> bytes) list list" where
  "log_tags = [status_tags [''serviceability_log_list'', ''serviceability_log_detail''], plain_tags log_metrics]"

definition scrape_tags :: "pipeline_mode \<Rightarrow> (bytes \<times> bytes) list list" where
  "scrape_tags m =
     head_tags @ (if pm_resources m then resource_tags else []) @ (if pm_alerts m then alert_tags else []) @
     (if pm_logs m then log_tags else [])"

lemma tags_distinct: "distinct (concat (head_tags @ resource_tags @ alert_tags @ log_tags))"
  by code_simp

lemma scrape_tags_distinct: "distinct (concat (scrape_tags m))"
  using tags_distinct unfolding scrape_tags_def concat_append distinct_append by auto

definition tags_in :: "(bytes \<times> bytes) list list \<Rightarrow> bytes list \<Rightarrow> bool" where
  "tags_in tss ns \<longleftrightarrow> list_all (list_all (\<lambda>t. list_ex (\<lambda>n. n = fst t) ns)) tss"

lemma tags_named:
  "tags_in head_tags
     [''ddae_monitoring_enabled'', ''ddae_build_info'', ''ddae_collector_success'', ''ddae_collector_duration_seconds'']"
  "tags_in resource_tags
     ([''ddae_monitoring_enabled'', ''ddae_build_info'', ''ddae_collector_success'', ''ddae_collector_duration_seconds''] @
      resource_metrics)"
  "tags_in alert_tags
     ([''ddae_monitoring_enabled'', ''ddae_build_info'', ''ddae_collector_success'', ''ddae_collector_duration_seconds''] @
      alert_metrics)"
  "tags_in log_tags
     ([''ddae_monitoring_enabled'', ''ddae_build_info'', ''ddae_collector_success'', ''ddae_collector_duration_seconds''] @
      log_metrics)"
  by code_simp+

lemma tags_in_mono: "tags_in tss ns \<Longrightarrow> set ns \<subseteq> set ms \<Longrightarrow> tags_in tss ms"
  by (auto simp: tags_in_def list_ex_iff elim!: list.pred_mono_strong)

lemma tags_in_append: "tags_in (a @ b) ns \<longleftrightarrow> tags_in a ns \<and> tags_in b ns"
  by (simp add: tags_in_def)

lemma scrape_tags_described: "tags_in (scrape_tags (mc_mode c)) (describe c)"
proof -
  have e: "tags_in [] ns" for ns by (simp add: tags_in_def)
  show ?thesis unfolding scrape_tags_def tags_in_append
    by (intro conjI) (auto simp: e describe_def intro!: tags_named [THEN tags_in_mono])
qed

lemma head_block: "block_ok Q block_tag (head_samples Q c) (plain_tags [''ddae_monitoring_enabled'', ''ddae_build_info''])"
  by (simp add: head_samples_def block_ok_def block_tag_def arities)

lemma resource_blocks:
  assumes "families_wf Q v"
  shows "list_all2 (block_ok Q block_tag) (resource_samples Q c now v) resource_tags"
proof -
  have s: "block_ok Q block_tag (status_samples Q v [''ping'', ''clusters'', ''nodes'', ''lock'', ''power''])
      (status_tags [''ping'', ''clusters'', ''nodes'', ''lock'', ''power''])"
    by (rule status_block) simp
  have c: "block_ok Q block_tag (concat (map (cluster_samples Q) (fam_data (v_clusters v)))) (plain_tags cluster_metrics)"
    by (rule named_block_tags [OF clusters_block]) (use assms in \<open>simp_all add: families_wf_def cluster_metrics_def\<close>)
  have n: "block_ok Q block_tag (concat (map (node_samples Q) (fam_data (v_nodes v)))) (plain_tags node_metrics)"
    by (rule named_block_tags [OF nodes_block]) (use assms in \<open>simp_all add: families_wf_def node_metrics_def\<close>)
  have u: "block_ok Q block_tag [gauge Q ''ddae_up'' (Flag b) []] (plain_tags [''ddae_up''])" for b
    by (simp add: block_ok_def block_tag_def arities)
  have a: "block_ok Q block_tag (age_samples Q c now v) (plain_tags [''ddae_snapshot_age_seconds'', ''ddae_management_api_up''])"
    by (simp add: age_samples_def block_ok_def block_tag_def arities)
  have l: "block_ok Q block_tag (lock_power_samples Q c now v)
      (plain_tags [''ddae_system_locked'', ''ddae_control_plane_ready'', ''ddae_nodes_ready'', ''ddae_nodes_total''])"
    by (auto simp: lock_power_samples_def block_ok_def block_tag_def arities)
  show ?thesis unfolding resource_samples_def resource_tags_def
    by (intro list.rel_intros) (simp_all only: s c n u a l block_ok_empty split: if_split, simp_all)
qed

lemma failed_block:
  assumes "arity n = Some (Suc 0)"
  shows "block_ok Q sm_name (map (\<lambda>k. counter n (f k) [class_text k]) failure_classes) [n]"
proof -
  have "distinct (map class_text failure_classes)" by (simp add: failure_classes_def class_text_def)
  then have "distinct (map (\<lambda>k. (n, [class_text k])) failure_classes)" by (simp add: distinct_map inj_on_def)
  with assms show ?thesis by (simp add: block_ok_def list_all_iff o_def)
qed

lemma alert_block: "block_ok Q sm_name (alert_samples Q v) alert_metrics"
proof -
  let ?bs = "[[gauge Q ''ddae_alert_list_complete'' (Flag (alert_list_complete v)) []],
      [gauge Q ''ddae_alert_detail_deferred'' (Whole (alert_deferred v)) []],
      [gauge Q ''ddae_alert_pipeline_ready'' (Flag (alert_pipeline_ready v)) []],
      [gauge Q ''ddae_kafka_publish_success'' (Flag (kafka_publish_success v)) []],
      [gauge Q ''ddae_kafka_publish_duration_seconds'' (Seconds (kafka_publish_duration v)) []],
      [counter ''ddae_kafka_events_published_total'' (kafka_published_total v) []],
      map (\<lambda>k. counter ''ddae_kafka_events_failed_total'' (failed_count (kafka_failed_total v) k) [class_text k]) failure_classes,
      [gauge Q ''ddae_kafka_buffered_events'' (Whole (kafka_buffered v)) []]]"
  have "list_all2 (block_ok Q sm_name) ?bs (map (\<lambda>n. [n]) alert_metrics)"
    unfolding alert_metrics_def list.map by (simp add: block_ok_single failed_block arities)
  then have "block_ok Q sm_name (concat ?bs) alert_metrics"
    by (rule named_blocks) (simp add: alert_metrics_def)
  then show ?thesis by (simp add: alert_samples_def)
qed

lemma log_block: "block_ok Q sm_name (log_samples Q v) log_metrics"
proof -
  let ?bs = "[[gauge Q ''ddae_serviceability_log_list_complete'' (Flag (log_list_complete v)) []],
      [gauge Q ''ddae_serviceability_log_detail_deferred'' (Whole (log_deferred v)) []],
      [gauge Q ''ddae_serviceability_log_pipeline_ready'' (Flag (log_pipeline_ready v)) []],
      [gauge Q ''ddae_serviceability_log_kafka_publish_success'' (Flag (log_publish_success v)) []],
      [gauge Q ''ddae_serviceability_log_kafka_publish_duration_seconds'' (Seconds (log_publish_duration v)) []],
      [counter ''ddae_serviceability_log_records_published_total'' (log_published_total v) []],
      map (\<lambda>k. counter ''ddae_serviceability_log_records_failed_total'' (failed_count (log_failed_total v) k) [class_text k]) failure_classes,
      [gauge Q ''ddae_serviceability_log_buffered_records'' (Whole (log_buffered v)) []]]"
  have "list_all2 (block_ok Q sm_name) ?bs (map (\<lambda>n. [n]) log_metrics)"
    unfolding log_metrics_def list.map by (simp add: block_ok_single failed_block arities)
  then have "block_ok Q sm_name (concat ?bs) log_metrics"
    by (rule named_blocks) (simp add: log_metrics_def)
  then show ?thesis by (simp add: log_samples_def)
qed

lemma scrape_blocks_ok:
  assumes "families_wf Q v"
  shows "list_all2 (block_ok Q block_tag) (scrape_blocks Q c now v) (scrape_tags (mc_mode c))"
proof -
  have a: "list_all2 (block_ok Q block_tag) [status_samples Q v [''alert_list'', ''alert_detail''], alert_samples Q v] alert_tags"
    unfolding alert_tags_def
    by (intro list.rel_intros status_block named_block_tags [OF alert_block]) (simp_all add: alert_metrics_def)
  have l: "list_all2 (block_ok Q block_tag)
      [status_samples Q v [''serviceability_log_list'', ''serviceability_log_detail''], log_samples Q v] log_tags"
    unfolding log_tags_def
    by (intro list.rel_intros status_block named_block_tags [OF log_block]) (simp_all add: log_metrics_def)
  have h: "list_all2 (block_ok Q block_tag) [head_samples Q c] head_tags"
    by (simp add: head_tags_def head_block [simplified])
  show ?thesis unfolding scrape_blocks_def scrape_tags_def
    by (intro list_all2_appendI) (use h a l resource_blocks [OF assms] in simp_all)
qed

text \<open>
  Claim C33. In every view the exporter can reach, whatever mode it runs in, the Prometheus library accepts a
  scrape: no two samples agree in name and label values, every sample belongs to a metric that \<open>Describe\<close>
  announced for the mode and has as many label values as its descriptor has labels, and every resource quantity
  shown is a finite number that is not negative.
\<close>

theorem scrape_is_valid:
  assumes "exporter_view Q v"
  shows "distinct (map (\<lambda>s. (sm_name s, sm_labels s)) (scrape Q c now v)) \<and>
    list_all (\<lambda>s. sm_name s \<in> set (describe c) \<and>
       map_option length (map_of metric_table (sm_name s)) = Some (length (sm_labels s)) \<and>
       (case sm_value s of Amount x \<Rightarrow> \<not> qu_bad Q x | _ \<Rightarrow> True)) (scrape Q c now v)"
proof -
  have b: "block_ok Q block_tag (scrape Q c now v) (concat (scrape_tags (mc_mode c)))"
    unfolding scrape_def
    by (rule blocks_ok_concat [OF scrape_blocks_ok [OF exporter_view_families [OF assms]] scrape_tags_distinct block_tag_key])
  have d: "sm_name s \<in> set (describe c)" if "s \<in> set (scrape Q c now v)" for s
  proof -
    have "block_tag s \<in> set (concat (scrape_tags (mc_mode c)))" by (rule block_ok_tag [OF b that])
    then show ?thesis using scrape_tags_described [of c]
      by (fastforce simp: tags_in_def list_all_iff list_ex_iff block_tag_def)
  qed
  have k: "sample_key = (\<lambda>s. (sm_name s, sm_labels s))" by (simp add: fun_eq_iff sample_key_def)
  from b d show ?thesis by (simp add: block_ok_def k list_all_iff arity_def sane_value_def)
qed

definition busy_cluster :: raw_cluster where
  "busy_cluster =
     \<lparr>rw_id = ''c1'', rw_status = ''Available'',
      rw_coordinator = \<lparr>rc_cpu = Some ''4'', rc_memory = None\<rparr>, rw_worker = zero_resources\<rparr>"

definition busy_cycle :: cycle_input where
  "busy_cycle = example_cycle\<lparr>ci_clusters := Inr [busy_cluster]\<rparr>"

definition example_collector :: metrics_collector where
  "example_collector =
     new_collector 600 \<lparr>bi_version = ''1.0'', bi_go_version = ''go1.22''\<rparr>
       [\<lparr>pm_resources = True, pm_alerts = True, pm_logs = True\<rparr>]"

lemma collect_clusters:
  assumes "ci_order i = ns @ [''clusters'']" "fst (snd (clusters_outcome Q i))"
  shows "v_clusters (collect Q i v) = fresh_family (fst (clusters_outcome Q i)) (ci_arrival i ''clusters'')"
proof -
  obtain cs e where c: "clusters_outcome Q i = (cs, True, e)"
    using assms(2) by (cases "clusters_outcome Q i") auto
  obtain w ok at where "fold (deliver Q i) ns (v, True, ci_started i) = (w, ok, at)"
    by (cases "fold (deliver Q i) ns (v, True, ci_started i)") auto
  with assms(1) c show ?thesis
    by (simp add: collect_def record_outcome_def Let_def record_clusters_def complete_required_cycle_def)
qed

lemma scrape_is_valid_witness:
  "distinct (map (\<lambda>s. (sm_name s, sm_labels s))
     (scrape example_quantities example_collector 1500 (collect example_quantities busy_cycle new_store))) \<and>
   fam_current example_collector 1500 (v_clusters (collect example_quantities busy_cycle new_store)) \<and>
   map cl_id (fam_data (v_clusters (collect example_quantities busy_cycle new_store))) = [''c1'']"
proof -
  have r: "exporter_view example_quantities (collect example_quantities busy_cycle new_store)"
    by (intro exporter_view_collect exporter_view.start)
  obtain d ok where d: "normalize_cluster example_quantities busy_cluster = (d, ok)"
    by (cases "normalize_cluster example_quantities busy_cluster")
  have i: "rw_id busy_cluster = ''c1''" by (simp add: busy_cluster_def)
  have t: "trim_space ''c1'' = ''c1''" by code_simp
  have "cl_id d = ''c1''" using normalize_cluster_facts [of example_quantities busy_cluster] d i by simp
  then have c: "fst (snd (clusters_outcome example_quantities busy_cycle))"
    "map cl_id (fst (clusters_outcome example_quantities busy_cycle)) = [''c1'']"
    by (simp_all add: clusters_outcome_def busy_cycle_def normalize_clusters_def d i t)
  have "v_clusters (collect example_quantities busy_cycle new_store) =
      fresh_family (fst (clusters_outcome example_quantities busy_cycle)) 1000"
    using collect_clusters [of busy_cycle "[''lock'', ''ping'', ''power'', ''nodes'']" example_quantities new_store] c(1)
    by (simp add: busy_cycle_def example_cycle_def)
  moreover have "fam_current example_collector 1500 (fresh_family cs 1000)" for cs :: "int snap_cluster list"
    by (simp add: fam_current_def fresh_family_def family_current_def example_collector_def new_collector_def
        is_zero_def zero_time_def time_sub_def min_int64_def max_int64_def)
  ultimately show ?thesis using scrape_is_valid [OF r, of example_collector 1500] c(2)
    by (simp add: fresh_family_def)
qed

end
