(* ===== verification/Application.thy ===== *)
theory Application
  imports Http_Server Config_Example Alert_Pipeline Log_Pipeline Query_Pipeline Metrics
begin

text \<open>
  Package \<open>internal/app\<close> (\<open>New\<close>, \<open>Run\<close>) with \<open>queries.New\<close> and \<open>Close\<close>: what a configuration gives to each
  component, the order in which a start opens the clients, stores and producers, what a failed start closes
  again, and the shutdown. Whether a constructor succeeds is an input, a start and a run are the list of the
  events they cause, and the resources are those that some call has to close.
\<close>

section \<open>What the configuration gives to the components\<close>

definition resource_interval :: "config \<Rightarrow> go_duration" where
  "resource_interval c =
     (if tm_resource_interval (cf_timing c) = 0 then tm_collection_interval (cf_timing c)
      else tm_resource_interval (cf_timing c))"

definition alert_interval :: "config \<Rightarrow> go_duration" where
  "alert_interval c =
     (if tm_alert_interval (cf_timing c) = 0 then tm_collection_interval (cf_timing c)
      else tm_alert_interval (cf_timing c))"

definition limits_to_options :: "store_limits \<Rightarrow> store_options" where
  "limits_to_options l =
     \<lparr>opt_max_bytes = sl_max_bytes l, opt_max_events = sl_max_events l, opt_max_checkpoints = sl_max_records l,
      opt_retention = sl_retention l\<rparr>"

definition alert_store_options :: "config \<Rightarrow> store_options" where
  "alert_store_options c = limits_to_options (sc_outbox (cf_state c))"

definition log_store_options :: "config \<Rightarrow> store_options" where
  "log_store_options c = limits_to_options (sc_log_outbox (cf_state c))"

definition alert_options :: "config \<Rightarrow> pipe_options" where
  "alert_options c =
     \<lparr>po_source = tg_source (cf_target c), po_refresh = dl_refresh (cf_alert_details c),
      po_max = dl_per_cycle (cf_alert_details c), po_concurrency = dl_concurrency (cf_alert_details c)\<rparr>"

definition log_options :: "config \<Rightarrow> log_pipe_options" where
  "log_options c =
     \<lparr>po_source = tg_source (cf_target c), po_refresh = dl_refresh (cf_log_details c),
      po_max = dl_per_cycle (cf_log_details c), po_concurrency = dl_concurrency (cf_log_details c),
      lo_backfill = bc_enabled (cf_log_backfill c)\<rparr>"

definition query_store_options :: "config \<Rightarrow> query_options" where
  "query_store_options c =
     \<lparr>qo_source = tg_source (cf_target c), qo_max_events = qc_max_events (cf_query c),
      qo_max_checkpoints = qc_max_checkpoints (cf_query c), qo_max_bytes = qc_max_bytes (cf_query c),
      qo_retention = qc_retention (cf_query c), qo_events = qc_events (cf_query c)\<rparr>"

definition query_settings_of :: "config \<Rightarrow> query_poll_config" where
  "query_settings_of c =
     \<lparr>qy_events = qc_events (cf_query c), qy_stale_after = qc_stale_after (cf_query c),
      qy_max_history = qc_max_history (cf_query c), qy_max_per_cycle = nat (qc_max_per_cycle (cf_query c))\<rparr>"

definition metrics_mode :: "config \<Rightarrow> pipeline_mode" where
  "metrics_mode c =
     \<lparr>pm_resources = md_resources (cf_modes c), pm_alerts = md_alerts (cf_modes c), pm_logs = md_logs (cf_modes c)\<rparr>"

text \<open>\<open>historyReady\<close>: all workers, and true when there is none.\<close>

definition history_ready :: "bool list \<Rightarrow> bool" where
  "history_ready workers = list_all (\<lambda>b. b) workers"

definition app_server_mode :: "config \<Rightarrow> bool \<Rightarrow> bool list \<Rightarrow> server_mode" where
  "app_server_mode c query workers =
     \<lparr>sv_history_ready = Some (history_ready workers),
      sv_query_ready = (if qc_enabled (cf_query c) then Some query else None),
      sv_resources = md_resources (cf_modes c), sv_alerts = md_alerts (cf_modes c), sv_logs = md_logs (cf_modes c)\<rparr>"

section \<open>Events of a start\<close>

datatype resource =
  DdaeClient | AlertStore | AlertProducer | LogStore | LogProducer | QueryClient | QueryStore | QueryProducer
| HistoryState | LogSource | QuerySource

datatype app_event =
  Opened resource | Closed resource | WorkersStarted "bytes list" | ServerShutdown | WorkersCancelled | WorkersDone

text \<open>Which constructors succeed, which registrations with the metrics registry, and the check of the history worker.\<close>

record starts =
  so_open :: "resource \<Rightarrow> bool"
  so_stats :: bool
  so_register :: "bytes \<Rightarrow> bool"
  so_worker :: "bytes \<Rightarrow> bool"

record app =
  ap_ddae :: bool
  ap_alerts :: bool
  ap_logs :: bool
  ap_query :: "bool option"
  ap_history :: bool
  ap_backfills :: "resource list"
  ap_manager :: bool

definition close_if :: "bool \<Rightarrow> resource \<Rightarrow> app_event list" where
  "close_if b r = (if b then [Closed r] else [])"

text \<open>A stage of \<open>New\<close>: what it does, and its result unless it failed.\<close>

type_synonym 'a stage = "app_event list \<times> 'a option"

definition and_then :: "'a stage \<Rightarrow> ('a \<Rightarrow> 'b stage) \<Rightarrow> 'b stage" where
  "and_then s f = (case s of (es, None) \<Rightarrow> (es, None) | (es, Some x) \<Rightarrow> (case f x of (es', r) \<Rightarrow> (es @ es', r)))"

section \<open>New\<close>

definition open_ddae :: "starts \<Rightarrow> bool \<Rightarrow> unit stage" where
  "open_ddae S ddae =
     (if \<not> ddae then ([], Some ())
      else if so_open S DdaeClient then ([Opened DdaeClient], Some ()) else ([], None))"

definition open_alerts :: "starts \<Rightarrow> bool \<Rightarrow> bool \<Rightarrow> unit stage" where
  "open_alerts S alerts ddae =
     (if \<not> alerts then ([], Some ())
      else if \<not> so_open S AlertStore then (close_if ddae DdaeClient, None)
      else if \<not> so_open S AlertProducer
        then ([Opened AlertStore, Closed AlertStore] @ close_if ddae DdaeClient, None)
      else ([Opened AlertStore, Opened AlertProducer], Some ()))"

definition open_logs :: "starts \<Rightarrow> bool \<Rightarrow> bool \<Rightarrow> bool \<Rightarrow> unit stage" where
  "open_logs S logs alerts ddae =
     (if \<not> logs then ([], Some ())
      else if \<not> so_open S LogStore
        then (close_if alerts AlertProducer @ close_if alerts AlertStore @ close_if ddae DdaeClient, None)
      else if \<not> so_open S LogProducer
        then ([Opened LogStore, Closed LogStore] @
              close_if alerts AlertProducer @ close_if alerts AlertStore @ close_if ddae DdaeClient, None)
      else ([Opened LogStore, Opened LogProducer], Some ()))"

definition register_exporter :: "starts \<Rightarrow> bool \<Rightarrow> bool \<Rightarrow> bool \<Rightarrow> unit stage" where
  "register_exporter S logs alerts ddae =
     (if so_register S ''exporter'' then ([], Some ())
      else (close_if alerts AlertProducer @ close_if alerts AlertStore @ close_if logs LogProducer @
            close_if logs LogStore @ close_if ddae DdaeClient, None))"

text \<open>\<open>Close\<close> and \<open>New\<close> of the query pipeline; \<open>events\<close> is whether it has a producer.\<close>

definition queries_close :: "bool \<Rightarrow> app_event list" where
  "queries_close events = close_if events QueryProducer @ [Closed QueryClient, Closed QueryStore]"

definition queries_new :: "starts \<Rightarrow> bool \<Rightarrow> unit stage" where
  "queries_new S events =
     (if \<not> so_open S QueryClient then ([], None)
      else if \<not> so_open S QueryStore then ([Opened QueryClient, Closed QueryClient], None)
      else if events \<and> \<not> so_open S QueryProducer
        then ([Opened QueryClient, Opened QueryStore, Closed QueryStore, Closed QueryClient], None)
      else
        let opened = [Opened QueryClient, Opened QueryStore] @ (if events then [Opened QueryProducer] else [])
        in if so_stats S then (opened, Some ()) else (opened @ queries_close events, None))"

definition open_query :: "starts \<Rightarrow> bool option \<Rightarrow> bool \<Rightarrow> bool \<Rightarrow> bool \<Rightarrow> unit stage" where
  "open_query S query logs alerts ddae =
     (case query of None \<Rightarrow> ([], Some ())
      | Some events \<Rightarrow>
          let release = close_if alerts AlertProducer @ close_if logs LogProducer @ close_if alerts AlertStore @
                close_if logs LogStore @ close_if ddae DdaeClient
          in case queries_new S events of
               (es, None) \<Rightarrow> (es @ release, None)
             | (es, Some _) \<Rightarrow>
                 if so_register S ''queries'' then (es, Some ())
                 else (es @ queries_close events @ release, None))"

text \<open>The closure \<open>add\<close>: the events, the workers so far and whether it went well.\<close>

definition add_backfill ::
  "starts \<Rightarrow> bytes \<Rightarrow> resource \<Rightarrow> resource list \<Rightarrow> app_event list \<times> resource list \<times> bool" where
  "add_backfill S key r ws =
     (if \<not> so_open S r then ([], ws, False)
      else if \<not> so_worker S key then ([Opened r, Closed r], ws, False)
      else ([Opened r], ws @ [r], so_register S key))"

definition close_query :: "bool option \<Rightarrow> app_event list" where
  "close_query query = (case query of None \<Rightarrow> [] | Some events \<Rightarrow> queries_close events)"

definition open_history :: "starts \<Rightarrow> bool \<Rightarrow> bool \<Rightarrow> app \<Rightarrow> app stage" where
  "open_history S log_backfill query_backfill a =
     (if \<not> log_backfill \<and> \<not> query_backfill then ([], Some a)
      else
        let opened = so_open S HistoryState;
            (es1, ws1, ok1) =
              (if opened \<and> log_backfill then add_backfill S ''serviceability_logs'' LogSource [] else ([], [], opened));
            (es2, ws2, ok2) =
              (if ok1 \<and> query_backfill then add_backfill S ''queries'' QuerySource ws1 else ([], ws1, ok1));
            es = (if opened then [Opened HistoryState] else []) @ es1 @ es2
        in if ok2 then (es, Some (a\<lparr>ap_history := True, ap_backfills := ws2\<rparr>))
           else (es @ map Closed ws2 @ close_if opened HistoryState @ close_query (ap_query a) @
                 close_if (ap_logs a) LogProducer @ close_if (ap_alerts a) AlertProducer @
                 close_if (ap_logs a) LogStore @ close_if (ap_alerts a) AlertStore @
                 close_if (ap_ddae a) DdaeClient, None))"

definition new_app :: "starts \<Rightarrow> config \<Rightarrow> app stage" where
  "new_app S c =
     (let m = cf_modes c; resources = md_resources m; alerts = md_alerts m; logs = md_logs m;
          query = (if qc_enabled (cf_query c) then Some (qc_events (cf_query c)) else None);
          ddae = (resources \<or> alerts \<or> logs)
      in if \<not> resources \<and> \<not> alerts \<and> \<not> logs \<and> query = None then ([], None)
         else
           and_then (open_ddae S ddae) (\<lambda>_.
           and_then (open_alerts S alerts ddae) (\<lambda>_.
           and_then (open_logs S logs alerts ddae) (\<lambda>_.
           and_then (register_exporter S logs alerts ddae) (\<lambda>_.
           and_then (open_query S query logs alerts ddae) (\<lambda>_.
             open_history S (bc_enabled (cf_log_backfill c)) (bc_enabled (cf_query_backfill c))
               \<lparr>ap_ddae = ddae, ap_alerts = alerts, ap_logs = logs, ap_query = query, ap_history = False,
                ap_backfills = [], ap_manager = resources\<rparr>))))))"

section \<open>Run\<close>

record run_input =
  ri_server :: "go_error option option"
  ri_shutdown :: "go_error option"
  ri_in_time :: bool
  ri_close :: "resource \<Rightarrow> go_error option"

definition backfill_name :: "resource \<Rightarrow> bytes" where
  "backfill_name r = (if r = LogSource then ''serviceability_logs backfill'' else ''queries backfill'')"

definition active_workers :: "app \<Rightarrow> bytes list" where
  "active_workers a =
     (if ap_manager a then [''manager''] else []) @
     (if ap_alerts a then [''alerts'', ''publisher''] else []) @
     (if ap_logs a then [''logs'', ''log publisher''] else []) @
     (if ap_query a \<noteq> None then [''queries''] else []) @ map backfill_name (ap_backfills a)"

definition first_error :: "go_error option \<Rightarrow> go_error option \<Rightarrow> go_error option" where
  "first_error e e' = (if e = None then e' else e)"

definition canceled :: go_error where "canceled = Plain ''context canceled''"

definition run_app :: "app \<Rightarrow> run_input \<Rightarrow> app_event list \<times> go_error option" where
  "run_app a i =
     (let served = (case ri_server i of None \<Rightarrow> None | Some e \<Rightarrow> e);
          stopped = first_error served (ri_shutdown i);
          begun = [WorkersStarted (active_workers a)] @ (if served \<noteq> None then [WorkersCancelled] else []) @
            [ServerShutdown, WorkersCancelled]
      in if \<not> ri_in_time i then
           (begun, first_error stopped (Some (Plain ''workers did not stop within SHUTDOWN_GRACE_PERIOD'')))
         else
           let close = (\<lambda>b r e. if b then first_error e (ri_close i r) else e);
               err = close (ap_logs a) LogStore (close (ap_alerts a) AlertStore
                       (close (ap_query a \<noteq> None) QueryStore (close (ap_history a) HistoryState stopped)))
           in (begun @ [WorkersDone] @ map Closed (ap_backfills a) @ close_if (ap_history a) HistoryState @
               close_if (ap_alerts a) AlertProducer @ close_if (ap_logs a) LogProducer @
               close_if (ap_ddae a) DdaeClient @ close_query (ap_query a) @
               close_if (ap_alerts a) AlertStore @ close_if (ap_logs a) LogStore,
               case err of None \<Rightarrow> None | Some e \<Rightarrow> if errors_is e canceled then None else Some e))"

section \<open>Every resource is released\<close>

text \<open>The resources that are open after some events; \<open>None\<close> if one was closed twice or opened while open.\<close>

fun held_after :: "app_event list \<Rightarrow> resource set \<Rightarrow> resource set option" where
  "held_after [] H = Some H"
| "held_after (Opened r # es) H = (if r \<in> H then None else held_after es (insert r H))"
| "held_after (Closed r # es) H = (if r \<in> H then held_after es (H - {r}) else None)"
| "held_after (_ # es) H = held_after es H"

definition is_closed :: "app_event \<Rightarrow> bool" where
  "is_closed e = (case e of Closed _ \<Rightarrow> True | _ \<Rightarrow> False)"

lemma held_after_append:
  "held_after (xs @ ys) H = (case held_after xs H of None \<Rightarrow> None | Some H' \<Rightarrow> held_after ys H')"
  by (induction xs H rule: held_after.induct) auto

definition stage_ok :: "'a stage \<Rightarrow> resource set \<Rightarrow> ('a \<Rightarrow> resource set) \<Rightarrow> bool" where
  "stage_ok s H f =
     (case s of (es, None) \<Rightarrow> held_after es H = Some {}
      | (es, Some x) \<Rightarrow> held_after es H = Some (f x) \<and> list_all (\<lambda>e. \<not> is_closed e) es)"

lemma stage_ok_then:
  assumes "stage_ok s H f" "\<And>x. stage_ok (g x) (f x) h"
  shows "stage_ok (and_then s g) H h"
proof -
  obtain es r where s: "s = (es, r)" by (cases s)
  show ?thesis
  proof (cases r)
    case None
    with assms(1) s show ?thesis by (simp add: stage_ok_def and_then_def)
  next
    case (Some x)
    obtain es' r' where g: "g x = (es', r')" by (cases "g x")
    with assms s Some assms(2) [of x] show ?thesis
      by (cases r') (simp_all add: stage_ok_def and_then_def held_after_append)
  qed
qed

definition base_held :: "bool \<Rightarrow> bool \<Rightarrow> bool \<Rightarrow> resource set" where
  "base_held logs alerts ddae =
     (if ddae then {DdaeClient} else {}) \<union> (if alerts then {AlertStore, AlertProducer} else {}) \<union>
     (if logs then {LogStore, LogProducer} else {})"

definition query_held :: "bool option \<Rightarrow> resource set" where
  "query_held query =
     (case query of None \<Rightarrow> {} | Some events \<Rightarrow> {QueryClient, QueryStore} \<union> (if events then {QueryProducer} else {}))"

definition app_held :: "app \<Rightarrow> resource set" where
  "app_held a = base_held (ap_logs a) (ap_alerts a) (ap_ddae a) \<union> query_held (ap_query a) \<union>
     (if ap_history a then {HistoryState} else {}) \<union> set (ap_backfills a)"

definition app_wf :: "app \<Rightarrow> bool" where
  "app_wf a \<longleftrightarrow> distinct (ap_backfills a) \<and> set (ap_backfills a) \<subseteq> {LogSource, QuerySource}"

lemmas held_defs = base_held_def query_held_def close_if_def is_closed_def

lemma open_ddae_ok: "stage_ok (open_ddae S d) {} (\<lambda>_. base_held False False d)"
  by (simp add: stage_ok_def open_ddae_def held_defs)

lemma open_alerts_ok: "stage_ok (open_alerts S a d) (base_held False False d) (\<lambda>_. base_held False a d)"
  by (cases a; cases d) (auto simp: stage_ok_def open_alerts_def held_defs)

lemma open_logs_ok: "stage_ok (open_logs S l a d) (base_held False a d) (\<lambda>_. base_held l a d)"
  by (cases l; cases a; cases d) (auto simp: stage_ok_def open_logs_def held_defs)

lemma register_exporter_ok: "stage_ok (register_exporter S l a d) (base_held l a d) (\<lambda>_. base_held l a d)"
  by (cases l; cases a; cases d) (auto simp: stage_ok_def register_exporter_def held_defs)

lemma queries_close_held:
  "H \<inter> query_held (Some e) = {} \<Longrightarrow> held_after (queries_close e) (H \<union> query_held (Some e)) = Some H"
  by (auto simp: queries_close_def held_defs)

lemma queries_new_held:
  assumes "H \<inter> query_held (Some True) = {}"
  shows "case queries_new S e of (es, None) \<Rightarrow> held_after es H = Some H
    | (es, Some _) \<Rightarrow> held_after es H = Some (H \<union> query_held (Some e)) \<and> list_all (\<lambda>e. \<not> is_closed e) es"
  using assms by (auto simp: queries_new_def queries_close_def held_defs Let_def)

lemma base_query: "base_held l a d \<inter> query_held q = {}"
  by (auto simp: held_defs split: option.split)

lemma release_base:
  "held_after (close_if a AlertProducer @ close_if l LogProducer @ close_if a AlertStore @ close_if l LogStore @
      close_if d DdaeClient) (base_held l a d) = Some {}"
  by (cases l; cases a; cases d) (auto simp: held_defs)

lemma open_query_ok:
  "stage_ok (open_query S q l a d) (base_held l a d) (\<lambda>_. base_held l a d \<union> query_held q)"
proof (cases q)
  case None
  then show ?thesis by (simp add: stage_ok_def open_query_def query_held_def)
next
  case (Some e)
  obtain es r where n: "queries_new S e = (es, r)" by (cases "queries_new S e")
  note h = queries_new_held [where H = "base_held l a d" and e = e and S = S, OF base_query]
    queries_close_held [where H = "base_held l a d" and e = e, OF base_query]
  show ?thesis
    using h n Some release_base [of a l d]
    by (cases r) (simp_all add: stage_ok_def open_query_def Let_def held_after_append)
qed

text \<open>Closing everything but the history, in the order of \<open>New\<close> after a failed backfill and in that of \<open>Run\<close>.\<close>

lemma release_all:
  "held_after (close_query q @ close_if l LogProducer @ close_if a AlertProducer @ close_if l LogStore @
      close_if a AlertStore @ close_if d DdaeClient) (base_held l a d \<union> query_held q) = Some {}"
  "held_after (close_if a AlertProducer @ close_if l LogProducer @ close_if d DdaeClient @ close_query q @
      close_if a AlertStore @ close_if l LogStore) (base_held l a d \<union> query_held q) = Some {}"
  by (cases l; cases a; cases d; cases q rule: option.exhaust [case_product bool.exhaust];
      auto simp: held_defs close_query_def queries_close_def)+

lemma held_close_all:
  "distinct rs \<Longrightarrow> set rs \<inter> H = {} \<Longrightarrow> held_after (map Closed rs) (H \<union> set rs) = Some H"
proof (induction rs arbitrary: H)
  case (Cons r rs)
  have "insert r (H \<union> set rs) - {r} = H \<union> set rs" using Cons.prems by auto
  then show ?case using Cons by simp
qed simp

lemma base_history:
  "HistoryState \<notin> base_held l a d \<union> query_held q" "LogSource \<notin> base_held l a d \<union> query_held q"
  "QuerySource \<notin> base_held l a d \<union> query_held q"
  by (auto simp: held_defs split: option.split)

lemma release_history:
  assumes "distinct ws" "set ws \<subseteq> {LogSource, QuerySource}"
  shows "held_after (map Closed ws @ close_if h HistoryState @ es)
      (base_held l a d \<union> query_held q \<union> (if h then {HistoryState} else {}) \<union> set ws) =
    held_after es (base_held l a d \<union> query_held q)"
proof -
  let ?H = "base_held l a d \<union> query_held q"
  have "set ws \<inter> (?H \<union> (if h then {HistoryState} else {})) = {}"
    using assms(2) base_history [of l a d q] by (auto split: if_splits)
  from held_close_all [OF assms(1) this] base_history(1) [of l a d q] show ?thesis
    by (simp add: held_after_append close_if_def)
qed

lemma add_backfill_held:
  assumes "add_backfill S key r ws = (es, ws', ok)" "r \<notin> H"
  shows "(ws' = ws \<and> held_after es H = Some H \<and> \<not> ok) \<or>
    (ws' = ws @ [r] \<and> held_after es H = Some (insert r H) \<and> list_all (\<lambda>e. \<not> is_closed e) es)"
  using assms by (auto simp: add_backfill_def is_closed_def split: if_splits)

lemma backfills_held:
  assumes f: "(if opened \<and> lb then add_backfill S k LogSource [] else ([], [], opened)) = (es1, ws1, ok1)"
    and g: "(if ok1 \<and> qb then add_backfill S k' QuerySource ws1 else ([], ws1, ok1)) = (es2, ws2, ok2)"
    and H: "LogSource \<notin> H" "QuerySource \<notin> H"
  shows "held_after (es1 @ es2) H = Some (H \<union> set ws2) \<and> distinct ws2 \<and> set ws2 \<subseteq> {LogSource, QuerySource} \<and>
    (ok2 \<longrightarrow> opened \<and> list_all (\<lambda>e. \<not> is_closed e) (es1 @ es2))"
proof -
  have 1: "(ws1 = [] \<and> held_after es1 H = Some H \<and> (ok1 \<longrightarrow> es1 = [] \<and> opened)) \<or>
      (ws1 = [LogSource] \<and> opened \<and> held_after es1 H = Some (insert LogSource H) \<and> list_all (\<lambda>e. \<not> is_closed e) es1)"
    using f H(1) by (auto split: if_splits dest!: add_backfill_held [where H = H])
  have q: "QuerySource \<notin> insert LogSource H" using H(2) by simp
  from 1 g H(2) q show ?thesis
    by (auto simp: held_after_append insert_commute split: if_splits
        dest: add_backfill_held [where H = H] add_backfill_held [where H = "insert LogSource H"])
qed

lemma open_history_ok:
  assumes a: "\<not> ap_history a" "ap_backfills a = []"
  shows "stage_ok (open_history S lb qb a) (base_held (ap_logs a) (ap_alerts a) (ap_ddae a) \<union> query_held (ap_query a))
      app_held \<and> (\<forall>es a'. open_history S lb qb a = (es, Some a') \<longrightarrow> app_wf a')"
proof (cases "lb \<or> qb")
  case False
  with a show ?thesis by (simp add: stage_ok_def open_history_def app_held_def app_wf_def)
next
  case True
  let ?H = "base_held (ap_logs a) (ap_alerts a) (ap_ddae a) \<union> query_held (ap_query a)"
  define h where "h = so_open S HistoryState"
  let ?K = "?H \<union> (if h then {HistoryState} else {})"
  obtain es1 ws1 ok1 where f: "(if h \<and> lb then add_backfill S ''serviceability_logs'' LogSource [] else ([], [], h)) = (es1, ws1, ok1)"
    by (metis prod_cases3)
  obtain es2 ws2 ok2 where g: "(if ok1 \<and> qb then add_backfill S ''queries'' QuerySource ws1 else ([], ws1, ok1)) = (es2, ws2, ok2)"
    by (metis prod_cases3)
  have n: "LogSource \<notin> ?K" "QuerySource \<notin> ?K" using base_history by auto
  note b = backfills_held [OF f g n]
  have o: "held_after (if h then [Opened HistoryState] else []) ?H = Some ?K"
    using base_history(1) by auto
  have e: "held_after ((if h then [Opened HistoryState] else []) @ es1 @ es2) ?H = Some (?K \<union> set ws2)"
    using o b by (simp add: held_after_append)
  have c: "list_all (\<lambda>e. \<not> is_closed e) (if h then [Opened HistoryState] else [])" by (simp add: is_closed_def)
  have nn: "(\<not> lb \<and> \<not> qb) = False" using True by simp
  have r: "open_history S lb qb a =
      (if ok2 then ((if h then [Opened HistoryState] else []) @ es1 @ es2, Some (a\<lparr>ap_history := True, ap_backfills := ws2\<rparr>))
       else (((if h then [Opened HistoryState] else []) @ es1 @ es2) @ map Closed ws2 @ close_if h HistoryState @ close_query (ap_query a) @
             close_if (ap_logs a) LogProducer @ close_if (ap_alerts a) AlertProducer @ close_if (ap_logs a) LogStore @
             close_if (ap_alerts a) AlertStore @ close_if (ap_ddae a) DdaeClient, None))"
    unfolding open_history_def nn if_False Let_def h_def [symmetric] f g prod.case append_assoc by simp
  show ?thesis
  proof (cases ok2)
    case True
    with b c e r show ?thesis by (auto simp: stage_ok_def app_held_def app_wf_def)
  next
    case False
    let ?rest = "close_query (ap_query a) @ close_if (ap_logs a) LogProducer @ close_if (ap_alerts a) AlertProducer @
      close_if (ap_logs a) LogStore @ close_if (ap_alerts a) AlertStore @ close_if (ap_ddae a) DdaeClient"
    have "held_after (((if h then [Opened HistoryState] else []) @ es1 @ es2) @ map Closed ws2 @ close_if h HistoryState @ ?rest) ?H =
        held_after (map Closed ws2 @ close_if h HistoryState @ ?rest) (?K \<union> set ws2)"
      unfolding held_after_append [of "(if h then [Opened HistoryState] else []) @ es1 @ es2"] e by simp
    also have "\<dots> = held_after ?rest ?H" using b by (intro release_history) simp_all
    also have "\<dots> = Some {}" by (rule release_all(1))
    finally have "held_after (fst (open_history S lb qb a)) ?H = Some {}" using False by (simp only: r if_False fst_conv)
    with False r show ?thesis by (simp add: stage_ok_def)
  qed
qed

lemma new_app_ok:
  "stage_ok (new_app S c) {} app_held \<and> (\<forall>es a. new_app S c = (es, Some a) \<longrightarrow> app_wf a)"
proof -
  define d where "d = management (cf_modes c)"
  define q where "q = (if qc_enabled (cf_query c) then Some (qc_events (cf_query c)) else None)"
  define a where "a = \<lparr>ap_ddae = d, ap_alerts = md_alerts (cf_modes c), ap_logs = md_logs (cf_modes c), ap_query = q,
    ap_history = False, ap_backfills = [], ap_manager = md_resources (cf_modes c)\<rparr>"
  let ?hist = "open_history S (bc_enabled (cf_log_backfill c)) (bc_enabled (cf_query_backfill c)) a"
  let ?al = "md_alerts (cf_modes c)" and ?lo = "md_logs (cf_modes c)"
  define stages where "stages =
    and_then (open_ddae S d) (\<lambda>_. and_then (open_alerts S ?al d) (\<lambda>_. and_then (open_logs S ?lo ?al d) (\<lambda>_.
    and_then (register_exporter S ?lo ?al d) (\<lambda>_. and_then (open_query S q ?lo ?al d) (\<lambda>_. ?hist)))))"
  have n: "new_app S c = (if \<not> d \<and> q = None then ([], None) else stages)"
    by (auto simp: new_app_def Let_def d_def q_def a_def stages_def management_def)
  have h: "stage_ok ?hist (base_held ?lo ?al d \<union> query_held q) app_held \<and> (\<forall>es a'. ?hist = (es, Some a') \<longrightarrow> app_wf a')"
    using open_history_ok [of a S] by (simp add: a_def)
  have s: "stage_ok stages {} app_held"
    unfolding stages_def
    by (intro stage_ok_then [OF open_ddae_ok] stage_ok_then [OF open_alerts_ok] stage_ok_then [OF open_logs_ok]
        stage_ok_then [OF register_exporter_ok] stage_ok_then [OF open_query_ok] conjunct1 [OF h])
  have w: "app_wf a'" if "stages = (es, Some a')" for es a'
    using that h unfolding stages_def by (auto simp: and_then_def split: prod.splits option.splits)
  show ?thesis
  proof (cases "\<not> d \<and> q = None")
    case True
    then show ?thesis by (simp add: n stage_ok_def)
  next
    case False
    then have "new_app S c = stages" by (simp only: n if_False)
    with s w show ?thesis by simp
  qed
qed

lemma run_app_released:
  assumes "app_wf a" "ri_in_time i"
  shows "held_after (fst (run_app a i)) (app_held a) = Some {}"
  using assms release_history [of "ap_backfills a" "ap_history a"] release_all(2)
  by (simp add: run_app_def Let_def app_wf_def app_held_def Un_ac)

text \<open>
  Claim C34. Nothing that a start opens is lost or closed twice: a failed start has closed everything it opened;
  a successful one has closed nothing and hands exactly what is open to the application; and a run whose workers
  stop within the grace period closes all of it, each resource once and none before the workers are done. A run
  whose workers do not stop in time closes nothing and reports an error.
\<close>

theorem everything_opened_is_released:
  "case new_app S c of
     (es, None) \<Rightarrow> held_after es {} = Some {}
   | (es, Some a) \<Rightarrow>
       held_after es {} = Some (app_held a) \<and> list_all (\<lambda>e. \<not> is_closed e) es \<and>
       (case run_app a i of (rs, err) \<Rightarrow>
          if ri_in_time i
          then held_after (es @ rs) {} = Some {} \<and> list_all (\<lambda>e. \<not> is_closed e) (takeWhile (\<lambda>e. e \<noteq> WorkersDone) rs)
          else err \<noteq> None \<and> list_all (\<lambda>e. \<not> is_closed e) rs)"
proof -
  obtain es r where n: "new_app S c = (es, r)" by (cases "new_app S c")
  show ?thesis
  proof (cases r)
    case None
    with n new_app_ok [of S c] show ?thesis by (simp add: stage_ok_def)
  next
    case (Some a)
    with n new_app_ok [of S c] have a: "held_after es {} = Some (app_held a)" "list_all (\<lambda>e. \<not> is_closed e) es" "app_wf a"
      by (simp_all add: stage_ok_def)
    obtain rs err where r: "run_app a i = (rs, err)" by (cases "run_app a i")
    have "if ri_in_time i
        then held_after (es @ rs) {} = Some {} \<and> list_all (\<lambda>e. \<not> is_closed e) (takeWhile (\<lambda>e. e \<noteq> WorkersDone) rs)
        else err \<noteq> None \<and> list_all (\<lambda>e. \<not> is_closed e) rs"
    proof (cases "ri_in_time i")
      case True
      have "list_all (\<lambda>e. \<not> is_closed e) (takeWhile (\<lambda>e. e \<noteq> WorkersDone) rs)"
        using r True by (auto simp: run_app_def Let_def is_closed_def)
      with True run_app_released [OF a(3) True] r a(1) show ?thesis by (simp add: held_after_append)
    next
      case False
      with r show ?thesis by (auto simp: run_app_def Let_def is_closed_def first_error_def)
    qed
    with a r n Some show ?thesis by simp
  qed
qed

text \<open>
  Claim C35. What a readiness probe means: with a configuration the loader accepts, \<open>/readyz\<close> answers 200 exactly
  to a GET while every enabled pipeline is ready: the resource data is current, the alert and log pipelines are
  ready, the query pipeline is, and so is every backfill worker.
\<close>

theorem readyz_covers_enabled_pipelines:
  assumes "load E = Inr c"
  shows "hr_status (readyz (app_server_mode c (query_ready (query_settings_of c) qnow p)
             (map (\<lambda>(b, w). worker_ready b wnow w) workers)) v now (tm_stale_after (cf_timing c)) method) = 200 \<longleftrightarrow>
     method = ''GET'' \<and>
     (md_resources (cf_modes c) \<longrightarrow> required_current v now (tm_stale_after (cf_timing c))) \<and>
     (md_alerts (cf_modes c) \<longrightarrow> alert_pipeline_ready v) \<and> (md_logs (cf_modes c) \<longrightarrow> log_pipeline_ready v) \<and>
     (qc_enabled (cf_query c) \<longrightarrow> query_ready (query_settings_of c) qnow p) \<and>
     (\<forall>(b, w) \<in> set workers. worker_ready b wnow w)"
proof -
  have "management (cf_modes c) \<or> qc_enabled (cf_query c)"
    using load_ok [OF assms] by (simp add: config_ok_def modes_ok_def)
  then show ?thesis
    unfolding readyz_status by (auto simp: app_server_mode_def management_def history_ready_def list_all_iff)
qed

lemma readyz_covers_enabled_pipelines_witness:
  "\<forall>p :: (unit, unit, unit, int) query_pipe.
     hr_status (readyz (app_server_mode example_config (query_ready (query_settings_of example_config) 0 p)
       (map (\<lambda>(b, w). worker_ready b 0 w) [])) (new_store :: int view) 0 (tm_stale_after (cf_timing example_config)) ''GET'')
     \<noteq> 200"
proof
  fix p :: "(unit, unit, unit, int) query_pipe"
  have "md_alerts (cf_modes example_config)" by (simp add: example_config_def example_modes_def)
  moreover have "\<not> alert_pipeline_ready (new_store :: int view)" by (simp add: new_store_def)
  ultimately show "hr_status (readyz (app_server_mode example_config (query_ready (query_settings_of example_config) 0 p)
       (map (\<lambda>(b, w). worker_ready b 0 w) [])) (new_store :: int view) 0 (tm_stale_after (cf_timing example_config)) ''GET'')
     \<noteq> 200"
    using readyz_covers_enabled_pipelines [OF example_loaded, of 0 p 0 "[]" "new_store :: int view" 0 "''GET''"] by blast
qed

end
