(* ===== verification/Token_Flight.thy ===== *)
theory Token_Flight
  imports Ddae_Client
begin

text \<open>
  The token manager under concurrent callers (\<open>tokenManager.get\<close> of \<open>internal/ddae/auth.go\<close>). The steps are the
  sections between its lock and its unlock: a caller finds a usable token, joins a refresh that is under way or
  begins one; the caller that began it ends it with a result; those who joined take the result or give up when
  their context ends. A refresh is known by its number in the order of allocation. \<open>fl_issued\<close> (the leases that
  calls returned) and \<open>fl_success\<close> (the refreshes that succeeded) are ghosts; a caller rejects nothing or the
  generation of a lease that was issued, as \<open>getJSONRawPath\<close> does.
\<close>

datatype caller =
  Idle
| Waiting u64 nat
| Requesting u64 nat u64
| Returned u64 "go_error + token_lease"

record flight =
  fl_manager :: token_manager
  fl_inflight :: "nat option"
  fl_next :: nat
  fl_results :: "nat \<rightharpoonup> go_error + token_lease"
  fl_callers :: "nat \<Rightarrow> caller"
  fl_issued :: "token_lease set"
  fl_success :: nat

definition new_flight :: flight where
  "new_flight =
     \<lparr>fl_manager = new_tokens, fl_inflight = None, fl_next = 0, fl_results = Map.empty, fl_callers = (\<lambda>_. Idle),
      fl_issued = {}, fl_success = 0\<rparr>"

definition manager_lease :: "token_manager \<Rightarrow> token_lease" where
  "manager_lease m = \<lparr>le_token = tk_token m, le_generation = tk_generation m\<rparr>"

definition may_reject :: "flight \<Rightarrow> u64 \<Rightarrow> bool" where
  "may_reject s rejected \<longleftrightarrow> rejected = 0 \<or> (\<exists>l \<in> fl_issued s. le_generation l = rejected)"

definition issue :: "go_error + token_lease \<Rightarrow> token_lease set \<Rightarrow> token_lease set" where
  "issue x ls = (case x of Inl _ \<Rightarrow> ls | Inr l \<Rightarrow> insert l ls)"

definition return :: "nat \<Rightarrow> u64 \<Rightarrow> go_error + token_lease \<Rightarrow> flight \<Rightarrow> flight" where
  "return c rejected x s =
     s\<lparr>fl_callers := (fl_callers s)(c := Returned rejected x), fl_issued := issue x (fl_issued s)\<rparr>"

definition end_refresh :: "nat \<Rightarrow> go_error + token_lease \<Rightarrow> flight \<Rightarrow> flight" where
  "end_refresh r x s =
     s\<lparr>fl_results := (fl_results s)(r \<mapsto> x),
       fl_inflight := (if fl_inflight s = Some r then None else fl_inflight s)\<rparr>"

inductive flight_step :: "flight \<Rightarrow> flight \<Rightarrow> bool" where
  cached: "fl_callers s c = Idle \<Longrightarrow> may_reject s rejected \<Longrightarrow> token_usable now rejected (fl_manager s) \<Longrightarrow>
    flight_step s (return c rejected (Inr (manager_lease (fl_manager s))) s)"
| join: "fl_callers s c = Idle \<Longrightarrow> may_reject s rejected \<Longrightarrow> \<not> token_usable now rejected (fl_manager s) \<Longrightarrow>
    fl_inflight s = Some r \<Longrightarrow> flight_step s (s\<lparr>fl_callers := (fl_callers s)(c := Waiting rejected r)\<rparr>)"
| start: "fl_callers s c = Idle \<Longrightarrow> may_reject s rejected \<Longrightarrow> \<not> token_usable now rejected (fl_manager s) \<Longrightarrow>
    fl_inflight s = None \<Longrightarrow>
    flight_step s (s\<lparr>fl_inflight := Some (fl_next s), fl_next := Suc (fl_next s),
      fl_callers := (fl_callers s)(c := Requesting rejected (fl_next s) (tk_generation (fl_manager s) + 1))\<rparr>)"
| success: "fl_callers s c = Requesting rejected r g \<Longrightarrow> token \<noteq> [] \<Longrightarrow> x = Inr \<lparr>le_token = token, le_generation = g\<rparr> \<Longrightarrow>
    flight_step s (return c rejected x (end_refresh r x
      (s\<lparr>fl_manager := \<lparr>tk_token = token, tk_refresh_at = at, tk_generation = g\<rparr>, fl_success := Suc (fl_success s)\<rparr>)))"
| failure: "fl_callers s c = Requesting rejected r g \<Longrightarrow>
    flight_step s (return c rejected (Inl e) (end_refresh r (Inl e) s))"
| woken: "fl_callers s c = Waiting rejected r \<Longrightarrow> fl_results s r = Some x \<Longrightarrow> flight_step s (return c rejected x s)"
| timeout: "fl_callers s c = Waiting rejected r \<Longrightarrow>
    flight_step s (return c rejected (Inl (status_error ClassTimeout ''token'' 0)) s)"
| again: "fl_callers s c = Returned rejected x \<Longrightarrow> flight_step s (s\<lparr>fl_callers := (fl_callers s)(c := Idle)\<rparr>)"

inductive flight_reach :: "flight \<Rightarrow> bool" where
  init: "flight_reach new_flight"
| step: "flight_reach s \<Longrightarrow> flight_step s s' \<Longrightarrow> flight_reach s'"

section \<open>The invariant\<close>

definition requesting :: "flight \<Rightarrow> nat \<Rightarrow> bool" where
  "requesting s c \<longleftrightarrow> (\<exists>rejected r g. fl_callers s c = Requesting rejected r g)"

definition result_leases :: "flight \<Rightarrow> token_lease set" where
  "result_leases s = {l. \<exists>r. fl_results s r = Some (Inr l)}"

definition known_leases :: "flight \<Rightarrow> token_lease set" where
  "known_leases s = insert (manager_lease (fl_manager s)) (fl_issued s \<union> result_leases s)"

definition caller_ok :: "flight \<Rightarrow> caller \<Rightarrow> bool" where
  "caller_ok s k =
     (case k of
        Idle \<Rightarrow> True
      | Requesting rejected r g \<Rightarrow>
          fl_inflight s = Some r \<and> g = tk_generation (fl_manager s) + 1 \<and> rejected \<le> tk_generation (fl_manager s)
      | Waiting rejected r \<Rightarrow>
          (case fl_results s r of
             None \<Rightarrow> fl_inflight s = Some r \<and> rejected \<le> tk_generation (fl_manager s)
           | Some (Inl _) \<Rightarrow> True
           | Some (Inr l) \<Rightarrow> rejected < le_generation l)
      | Returned rejected x \<Rightarrow> (case x of Inl _ \<Rightarrow> True | Inr l \<Rightarrow> rejected < le_generation l))"

definition leases_ok :: "nat \<Rightarrow> token_lease set \<Rightarrow> bool" where
  "leases_ok n K \<longleftrightarrow>
     (\<forall>l \<in> K. unat (le_generation l) \<le> n) \<and>
     (\<forall>l \<in> K. \<forall>l' \<in> K. le_generation l = le_generation l' \<longrightarrow> le_token l = le_token l')"

definition lone_requester :: "flight \<Rightarrow> bool" where
  "lone_requester s \<longleftrightarrow> (\<forall>c d. requesting s c \<longrightarrow> requesting s d \<longrightarrow> c = d)"

definition table_ok :: "nat option \<Rightarrow> nat \<Rightarrow> (nat \<rightharpoonup> go_error + token_lease) \<Rightarrow> bool" where
  "table_ok inflight n results \<longleftrightarrow>
     (case inflight of None \<Rightarrow> True | Some r \<Rightarrow> r < n \<and> results r = None) \<and> (\<forall>r \<ge> n. results r = None)"

definition flight_ok :: "flight \<Rightarrow> bool" where
  "flight_ok s \<longleftrightarrow>
     unat (tk_generation (fl_manager s)) = fl_success s \<and>
     (tk_token (fl_manager s) \<noteq> [] \<longrightarrow> 0 < fl_success s) \<and>
     (\<forall>c. caller_ok s (fl_callers s c)) \<and> lone_requester s \<and>
     table_ok (fl_inflight s) (fl_next s) (fl_results s) \<and> leases_ok (fl_success s) (known_leases s)"

lemma flight_okD:
  assumes "flight_ok s"
  shows "unat (tk_generation (fl_manager s)) = fl_success s" "tk_token (fl_manager s) \<noteq> [] \<Longrightarrow> 0 < fl_success s"
    "caller_ok s (fl_callers s c)" "lone_requester s" "table_ok (fl_inflight s) (fl_next s) (fl_results s)"
    "leases_ok (fl_success s) (known_leases s)"
  using assms by (simp_all add: flight_ok_def)

lemma leases_ok_mono: "leases_ok n K \<Longrightarrow> K' \<subseteq> K \<Longrightarrow> leases_ok n K'"
  unfolding leases_ok_def by blast

lemma leases_ok_insert:
  assumes "leases_ok n K" "unat (le_generation l) = Suc n"
  shows "leases_ok (Suc n) (insert l K)"
proof -
  have b: "unat (le_generation k) \<le> n" if "k \<in> K" for k using assms(1) that by (simp add: leases_ok_def)
  have "le_generation k \<noteq> le_generation l" if "k \<in> K" for k using b [OF that] assms(2) by auto
  moreover have "unat (le_generation k) \<le> Suc n" if "k \<in> K" for k using b [OF that] by simp
  moreover have "le_token k = le_token k'" if "k \<in> K" "k' \<in> K" "le_generation k = le_generation k'" for k k'
    using assms(1) that unfolding leases_ok_def by blast
  ultimately show ?thesis using assms(2) unfolding leases_ok_def by (metis insert_iff order_refl)
qed

lemma new_flight_ok: "flight_ok new_flight"
  by (simp add: flight_ok_def new_flight_def new_tokens_def caller_ok_def lone_requester_def requesting_def known_leases_def
      result_leases_def manager_lease_def table_ok_def leases_ok_def)

lemma may_reject_le:
  assumes "flight_ok s" "may_reject s rejected"
  shows "rejected \<le> tk_generation (fl_manager s)"
proof (cases "rejected = 0")
  case False
  then obtain l where l: "l \<in> fl_issued s" "le_generation l = rejected" using assms(2) by (auto simp: may_reject_def)
  then have "l \<in> known_leases s" by (simp add: known_leases_def)
  then have "unat (le_generation l) \<le> fl_success s" using flight_okD(6) [OF assms(1)] by (simp add: leases_ok_def)
  with l flight_okD(1) [OF assms(1)] show ?thesis by (simp add: word_le_nat_alt)
qed simp

definition is_requesting :: "caller \<Rightarrow> bool" where
  "is_requesting k \<longleftrightarrow> (case k of Requesting _ _ _ \<Rightarrow> True | _ \<Rightarrow> False)"

lemma requesting_iff: "requesting s c \<longleftrightarrow> is_requesting (fl_callers s c)"
  by (auto simp: requesting_def is_requesting_def split: caller.splits)

text \<open>A caller moves without touching the refresh: the rest of the state keeps its invariant.\<close>

lemma set_caller_ok:
  assumes s: "flight_ok s" and k: "caller_ok s k" "\<not> is_requesting k"
    and L: "fl_issued s \<subseteq> L" "L \<subseteq> known_leases s"
  shows "flight_ok (s\<lparr>fl_callers := (fl_callers s)(c := k), fl_issued := L\<rparr>)"
proof -
  let ?s = "s\<lparr>fl_callers := (fl_callers s)(c := k), fl_issued := L\<rparr>"
  have K: "known_leases ?s = known_leases s"
    using L by (auto simp: known_leases_def result_leases_def)
  have C: "caller_ok ?s x = caller_ok s x" for x by (simp add: caller_ok_def split: caller.split option.split sum.split)
  have R: "requesting ?s d \<Longrightarrow> requesting s d" for d
    using k(2) by (auto simp: requesting_iff split: if_splits)
  have "lone_requester ?s" using flight_okD(4) [OF s] R unfolding lone_requester_def by blast
  with flight_okD [OF s] k(1) show ?thesis by (simp add: flight_ok_def K C)
qed

lemma return_ok:
  assumes "flight_ok s" "case x of Inl _ \<Rightarrow> True | Inr l \<Rightarrow> rejected < le_generation l \<and> l \<in> known_leases s"
  shows "flight_ok (return c rejected x s)"
  unfolding return_def using assms
  by (intro set_caller_ok) (auto simp: caller_ok_def is_requesting_def issue_def known_leases_def split: sum.splits)

lemma usable_lease:
  assumes "flight_ok s" "token_usable now rejected (fl_manager s)"
  shows "rejected < tk_generation (fl_manager s)"
proof (cases "rejected = 0")
  case True
  then have "0 < unat (tk_generation (fl_manager s))" using flight_okD(1,2) [OF assms(1)] assms(2) by (simp add: token_usable_def)
  with True show ?thesis by (simp add: word_less_nat_alt)
next
  case False
  with assms show ?thesis by (simp add: token_usable_def)
qed

lemma idle_refresh:
  assumes "flight_ok s" "fl_inflight s = None"
  shows "\<not> is_requesting (fl_callers s d)"
  using flight_okD(3) [OF assms(1), of d] assms(2) by (auto simp: caller_ok_def is_requesting_def split: caller.splits)

lemma start_ok:
  assumes s: "flight_ok s" and r: "may_reject s rejected" and i: "fl_inflight s = None"
  shows "flight_ok (s\<lparr>fl_inflight := Some (fl_next s), fl_next := Suc (fl_next s),
      fl_callers := (fl_callers s)(c := Requesting rejected (fl_next s) (tk_generation (fl_manager s) + 1))\<rparr>)"
    (is "flight_ok ?s")
proof -
  note none = idle_refresh [OF s i]
  have K: "known_leases ?s = known_leases s" by (simp add: known_leases_def result_leases_def)
  have C: "caller_ok ?s (fl_callers s d)" for d
    using flight_okD(3) [OF s, of d] i none [of d]
    by (auto simp: caller_ok_def is_requesting_def split: caller.splits option.splits sum.splits)
  have N: "caller_ok ?s (Requesting rejected (fl_next s) (tk_generation (fl_manager s) + 1))"
    using may_reject_le [OF s r] by (simp add: caller_ok_def)
  have R: "requesting ?s d \<Longrightarrow> d = c" for d
    using none [of d] by (auto simp: requesting_iff split: if_splits)
  have "lone_requester ?s" using R unfolding lone_requester_def by blast
  moreover have "table_ok (Some (fl_next s)) (Suc (fl_next s)) (fl_results s)"
    using flight_okD(5) [OF s] by (simp add: table_ok_def)
  ultimately show ?thesis using flight_okD [OF s] C N by (simp add: flight_ok_def K)
qed

lemma end_refresh_simps [simp]:
  "fl_callers (end_refresh r x s) = fl_callers s" "fl_manager (end_refresh r x s) = fl_manager s"
  "fl_results (end_refresh r x s) = (fl_results s)(r \<mapsto> x)" "fl_issued (end_refresh r x s) = fl_issued s"
  "fl_success (end_refresh r x s) = fl_success s" "fl_next (end_refresh r x s) = fl_next s"
  "fl_inflight s = Some r \<Longrightarrow> fl_inflight (end_refresh r x s) = None"
  by (simp_all add: end_refresh_def)

text \<open>The end of a refresh, without the caller that ran it: that one is idle for the moment.\<close>

lemma others_wait:
  assumes s: "flight_ok s" and c: "fl_callers s c = Requesting rejected r g" and d: "d \<noteq> c"
  shows "\<not> is_requesting (fl_callers s d)"
proof -
  have "requesting s c" using c by (simp add: requesting_def)
  with flight_okD(4) [OF s] d show ?thesis unfolding lone_requester_def requesting_iff by blast
qed

lemma refresh_facts:
  assumes s: "flight_ok s" and c: "fl_callers s c = Requesting rejected r g"
  shows "fl_inflight s = Some r" "g = tk_generation (fl_manager s) + 1" "rejected \<le> tk_generation (fl_manager s)"
    "fl_results s r = None" "r < fl_next s"
proof -
  show 1: "fl_inflight s = Some r" "g = tk_generation (fl_manager s) + 1" "rejected \<le> tk_generation (fl_manager s)"
    using flight_okD(3) [OF s, of c] c by (simp_all add: caller_ok_def)
  show "fl_results s r = None" "r < fl_next s" using flight_okD(5) [OF s] 1(1) by (simp_all add: table_ok_def)
qed

lemma ended_table:
  assumes "flight_ok s" "fl_callers s c = Requesting rejected r g"
  shows "table_ok None (fl_next s) ((fl_results s)(r \<mapsto> x))"
  using flight_okD(5) [OF assms(1)] refresh_facts(5) [OF assms] by (auto simp: table_ok_def)

lemma ended_lone:
  assumes "flight_ok s" "fl_callers s c = Requesting rejected r g" "fl_callers s' = (fl_callers s)(c := Returned u x)"
  shows "lone_requester s'"
proof -
  have "\<not> requesting s' d" for d
    using others_wait [OF assms(1,2), of d] assms(3) by (simp add: requesting_iff is_requesting_def)
  then show ?thesis by (simp add: lone_requester_def)
qed

lemma failure_ok:
  assumes s: "flight_ok s" and c: "fl_callers s c = Requesting rejected r g"
  shows "flight_ok (return c rejected (Inl e) (end_refresh r (Inl e) s))" (is "flight_ok ?s")
proof -
  note f = refresh_facts [OF s c]
  have K: "known_leases ?s \<subseteq> known_leases s"
    by (auto simp: known_leases_def result_leases_def return_def issue_def split: if_splits)
  have m: "fl_manager ?s = fl_manager s" "fl_success ?s = fl_success s" "fl_inflight ?s = None"
    "fl_next ?s = fl_next s" "fl_results ?s = (fl_results s)(r \<mapsto> Inl e)"
    "fl_callers ?s = (fl_callers s)(c := Returned rejected (Inl e))"
    using f(1) by (simp_all add: return_def)
  have C: "caller_ok ?s (fl_callers ?s d)" for d
  proof (cases "d = c")
    case True
    then show ?thesis by (simp add: m caller_ok_def)
  next
    case False
    with flight_okD(3) [OF s, of d] others_wait [OF s c False] f show ?thesis
      by (auto simp: m caller_ok_def is_requesting_def split: caller.splits option.splits sum.splits)
  qed
  show ?thesis
    using flight_okD(1,2) [OF s] C ended_lone [OF s c m(6)] ended_table [OF s c] leases_ok_mono [OF flight_okD(6) [OF s] K]
    by (simp add: flight_ok_def m)
qed

lemma success_ok:
  assumes s: "flight_ok s" and c: "fl_callers s c = Requesting rejected r g"
    and b: "Suc (fl_success s) < 2 ^ 64" and t: "token \<noteq> []" and x: "x = Inr \<lparr>le_token = token, le_generation = g\<rparr>"
  shows "flight_ok (return c rejected x (end_refresh r x
      (s\<lparr>fl_manager := \<lparr>tk_token = token, tk_refresh_at = at, tk_generation = g\<rparr>, fl_success := Suc (fl_success s)\<rparr>)))"
proof -
  define z where "z = return c rejected x (end_refresh r x
      (s\<lparr>fl_manager := \<lparr>tk_token = token, tk_refresh_at = at, tk_generation = g\<rparr>, fl_success := Suc (fl_success s)\<rparr>))"
  note f = refresh_facts [OF s c]
  let ?l = "\<lparr>le_token = token, le_generation = g\<rparr>"
  have u: "unat (tk_generation (fl_manager s)) = fl_success s" by (rule flight_okD(1) [OF s])
  have g: "unat g = Suc (fl_success s)" using b u f(2) by (simp add: unat_word_ariths(1))
  have K: "known_leases z \<subseteq> insert ?l (known_leases s)"
    using x by (auto simp: z_def known_leases_def result_leases_def return_def issue_def manager_lease_def split: if_splits)
  have m: "fl_manager z = \<lparr>tk_token = token, tk_refresh_at = at, tk_generation = g\<rparr>" "fl_success z = Suc (fl_success s)"
    "fl_inflight z = None" "fl_next z = fl_next s" "fl_results z = (fl_results s)(r \<mapsto> x)"
    "fl_callers z = (fl_callers s)(c := Returned rejected x)"
    using f(1) by (simp_all add: z_def return_def)
  have lt: "rejected' \<le> tk_generation (fl_manager s) \<Longrightarrow> rejected' < g" for rejected'
    using u g by (simp add: word_less_nat_alt word_le_nat_alt)
  have C: "caller_ok z (fl_callers z d)" for d
  proof (cases "d = c")
    case True
    with lt [OF f(3)] x show ?thesis by (simp add: m caller_ok_def)
  next
    case False
    with flight_okD(3) [OF s, of d] others_wait [OF s c False] f x lt show ?thesis
      by (auto simp: m caller_ok_def is_requesting_def split: caller.splits option.splits sum.splits)
  qed
  have G: "leases_ok (Suc (fl_success s)) (known_leases z)"
    by (rule leases_ok_mono [OF leases_ok_insert [OF flight_okD(6) [OF s]] K]) (simp add: g)
  have "flight_ok z" using C ended_lone [OF s c m(6)] ended_table [OF s c] G g by (simp add: flight_ok_def m)
  then show ?thesis by (simp only: z_def)
qed

lemma flight_step_ok:
  assumes "flight_step s s'" "flight_ok s" "fl_success s' < 2 ^ 64"
  shows "flight_ok s'"
  using assms
proof (induction rule: flight_step.induct)
  case (cached s c rejected now)
  then show ?case
    using usable_lease [of s now rejected]
    by (intro return_ok) (simp_all add: manager_lease_def known_leases_def)
next
  case (join s c rejected now r)
  have "flight_ok (s\<lparr>fl_callers := (fl_callers s)(c := Waiting rejected r), fl_issued := fl_issued s\<rparr>)"
    using join may_reject_le [of s rejected] flight_okD(5) [of s]
    by (intro set_caller_ok) (auto simp: caller_ok_def is_requesting_def known_leases_def table_ok_def)
  then show ?case by simp
next
  case (start s c rejected now)
  then show ?case by (intro start_ok)
next
  case (success s c rejected r g token x at)
  then show ?case by (intro success_ok) (simp_all add: return_def)
next
  case (failure s c rejected r g e)
  then show ?case by (intro failure_ok)
next
  case (woken s c rejected r x)
  have "caller_ok s (Waiting rejected r)" using flight_okD(3) [of s c] woken by simp
  with woken show ?case
    by (intro return_ok) (auto simp: caller_ok_def known_leases_def result_leases_def split: sum.splits)
next
  case (timeout s c rejected r)
  then show ?case by (intro return_ok) simp_all
next
  case (again s c rejected x)
  have "flight_ok (s\<lparr>fl_callers := (fl_callers s)(c := Idle), fl_issued := fl_issued s\<rparr>)"
    using again by (intro set_caller_ok) (auto simp: caller_ok_def is_requesting_def known_leases_def)
  then show ?case by simp
qed

lemma flight_step_success: "flight_step s s' \<Longrightarrow> fl_success s \<le> fl_success s'"
  by (induction rule: flight_step.induct) (simp_all add: return_def)

lemma flight_reach_ok: "flight_reach s \<Longrightarrow> fl_success s < 2 ^ 64 \<Longrightarrow> flight_ok s"
proof (induction rule: flight_reach.induct)
  case (step s s')
  with flight_step_success [OF step.hyps(2)] show ?case by (intro flight_step_ok [OF step.hyps(2)]) simp_all
qed (rule new_flight_ok)

text \<open>
  Claim C37. Token refreshes under concurrency: however the callers interleave, at most one of them is asking for
  a token; leases of the same generation carry the same token; and a caller whose token was rejected is never
  given a token of that generation or an older one again.
\<close>

theorem token_refresh_is_single_flight:
  assumes "flight_reach s" "fl_success s < 2 ^ 64"
  shows "(\<forall>c d. requesting s c \<longrightarrow> requesting s d \<longrightarrow> c = d) \<and>
    (\<forall>l \<in> fl_issued s. \<forall>l' \<in> fl_issued s. le_generation l = le_generation l' \<longrightarrow> le_token l = le_token l') \<and>
    (\<forall>c rejected l. fl_callers s c = Returned rejected (Inr l) \<longrightarrow> rejected < le_generation l)"
proof -
  note s = flight_reach_ok [OF assms]
  have "rejected < le_generation l" if "fl_callers s c = Returned rejected (Inr l)" for c rejected l
  proof -
    have "caller_ok s (Returned rejected (Inr l))" using flight_okD(3) [OF s, of c] that by simp
    then show ?thesis by (simp add: caller_ok_def)
  qed
  moreover have "leases_ok (fl_success s) (fl_issued s)"
    by (rule leases_ok_mono [OF flight_okD(6) [OF s]]) (auto simp: known_leases_def)
  ultimately show ?thesis using flight_okD(4) [OF s] unfolding leases_ok_def lone_requester_def by blast
qed

text \<open>Two callers share one refresh.\<close>

lemma token_refresh_is_single_flight_witness:
  "\<exists>s l. flight_reach s \<and> fl_success s = 1 \<and> fl_callers s 0 = Returned 0 (Inr l) \<and>
     fl_callers s 1 = Returned 0 (Inr l) \<and> 0 < le_generation l \<and> \<not> (requesting s 0 \<and> requesting s 1)"
proof -
  let ?s0 = new_flight
  let ?l = "\<lparr>le_token = ''t'', le_generation = 1\<rparr>"
  define s1 where "s1 = ?s0\<lparr>fl_inflight := Some (fl_next ?s0), fl_next := Suc (fl_next ?s0),
      fl_callers := (fl_callers ?s0)(0 := Requesting 0 (fl_next ?s0) (tk_generation (fl_manager ?s0) + 1))\<rparr>"
  define s2 where "s2 = s1\<lparr>fl_callers := (fl_callers s1)(1 := Waiting 0 0)\<rparr>"
  define s3 where "s3 = return 0 0 (Inr ?l) (end_refresh 0 (Inr ?l)
      (s2\<lparr>fl_manager := \<lparr>tk_token = ''t'', tk_refresh_at = 9, tk_generation = 1\<rparr>, fl_success := Suc (fl_success s2)\<rparr>))"
  define s4 where "s4 = return 1 0 (Inr ?l) s3"
  note defs = new_flight_def new_tokens_def may_reject_def token_usable_def
  have c0: "fl_callers ?s0 0 = Idle" "fl_inflight ?s0 = None" "may_reject ?s0 0" "\<not> token_usable 0 0 (fl_manager ?s0)"
    by (simp_all add: defs)
  have c1: "fl_callers s1 = (\<lambda>_. Idle)(0 := Requesting 0 0 1)" "fl_inflight s1 = Some 0" "may_reject s1 0"
      "fl_manager s1 = new_tokens" "fl_success s1 = 0"
    by (simp_all add: s1_def defs)
  have c2: "fl_callers s2 = (\<lambda>_. Idle)(0 := Requesting 0 0 1, 1 := Waiting 0 0)" "fl_inflight s2 = Some 0" "fl_success s2 = 0"
    using c1 by (simp_all add: s2_def)
  have c3: "fl_callers s3 = (\<lambda>_. Idle)(0 := Returned 0 (Inr ?l), 1 := Waiting 0 0)" "fl_results s3 0 = Some (Inr ?l)"
      "fl_success s3 = 1"
    using c2 by (simp_all add: s3_def return_def fun_upd_twist)
  have c4: "fl_callers s4 0 = Returned 0 (Inr ?l)" "fl_callers s4 1 = Returned 0 (Inr ?l)" "fl_success s4 = 1"
    using c3 by (simp_all add: s4_def return_def)
  have 1: "flight_step ?s0 s1" unfolding s1_def by (rule flight_step.start [OF c0(1,3,4,2)])
  have 2: "flight_step s1 s2" unfolding s2_def
    by (rule flight_step.join [where now = 0]) (simp_all add: c1 token_usable_def new_tokens_def)
  have 3: "flight_step s2 s3" unfolding s3_def by (rule flight_step.success) (simp_all add: c2)
  have 4: "flight_step s3 s4" unfolding s4_def by (rule flight_step.woken [where r = 0]) (simp_all add: c3)
  have r: "flight_reach s4"
    by (rule flight_reach.step [OF flight_reach.step [OF flight_reach.step [OF flight_reach.step [OF flight_reach.init 1] 2] 3] 4])
  have b: "fl_success s4 < 2 ^ 64" using c4 by simp
  note t = token_refresh_is_single_flight [OF r b]
  have "0 < le_generation ?l" using t c4(1) by blast
  moreover have "\<not> (requesting s4 0 \<and> requesting s4 1)" using t zero_neq_one by blast
  ultimately show ?thesis using r c4 by blast
qed

end
