(* ===== verification/Start_Up.thy ===== *)
theory Start_Up
  imports History_Sources Application Token_Flight
begin

text \<open>
  What a loaded configuration means for the components it reaches: the constructors accept it, and the
  bounds that the properties of the stores and the backfill workers ask for hold.
\<close>

lemma loaded_limits:
  "limits_ok l \<Longrightarrow> options_ok (limits_to_options l)"
  by (auto simp: limits_ok_def options_ok_def limits_to_options_def)

lemma loaded_ddae_client:
  assumes "modes_ok (cf_modes c) q" "target_ok (cf_modes c) q (cf_target c)" "management (cf_modes c)"
  shows "(\<exists>d. new_client tls c = Inr d) \<longleftrightarrow> tls (tg_ca_file (cf_target c)) = None"
proof -
  let ?m = "cf_modes c" and ?t = "cf_target c"
  have t: "\<exists>u. tg_base_url ?t = Some u" "validate_path_prefix (tg_ping_prefix ?t) = Inr ()"
    "validate_path_prefix (tg_api_prefix ?t) = Inr ()" "md_ddae_insecure ?m \<Longrightarrow> tg_ca_file ?t = []"
    using assms(2,3) by (auto simp: target_ok_def)
  then show ?thesis using assms(1)
    by (auto simp: new_client_def Let_def guardE_def route_set_for_prefixes_def wrapE_def modes_ok_def split: option.splits)
qed

lemma loaded_query_client:
  assumes "query_config_ok allow q"
  shows "(\<exists>k. new_query_client tls q allow = Inr k) \<longleftrightarrow> tls (qc_ca_file q) = None \<and> tls (qc_auth_ca_file q) = None"
  using assms
  by (auto simp: query_config_ok_def query_target_ok_def query_limits_ok_def https_origin_def new_query_client_def guardE_def
      split: option.splits)

lemma loaded_backfill:
  assumes "backfill_ok request retention b"
  shows "config_typed b \<and> bc_max_pending b \<le> 100000 \<and> bc_lookback b \<le> retention \<and> bc_cycle_timeout b < bc_interval b"
  using assms by (auto simp: backfill_ok_def config_typed_def is_int64_def min_int64_def max_int64_def hour_def second_def)

text \<open>
  Claim C39. What Load accepts fits the components it is handed to: the options of both outboxes pass the check
  of Open, and so do those of the query state when queries are enabled; when the management interface is used
  its client is built exactly if its file of authorities is good, and when queries are enabled the query client
  is built exactly if both of its files are, so that these files, which Load does not read, are all that is left
  to refuse; and an enabled backfill has the bounds that the coverage and termination of its worker need, looks
  back no further than its state retains, and ends a cycle before the next one is due.
\<close>

theorem loaded_config_is_accepted:
  assumes "load E = Inr c"
  shows "options_ok (alert_store_options c) \<and> options_ok (log_store_options c) \<and>
    (management (cf_modes c) \<longrightarrow>
       ((\<exists>d. new_client tls c = Inr d) \<longleftrightarrow> tls (tg_ca_file (cf_target c)) = None)) \<and>
    (qc_enabled (cf_query c) \<longrightarrow> \<not> query_options_bad (query_store_options c) \<and>
       ((\<exists>k. new_query_client tls (cf_query c) (md_allow_insecure (cf_modes c)) = Inr k) \<longleftrightarrow>
          tls (qc_ca_file (cf_query c)) = None \<and> tls (qc_auth_ca_file (cf_query c)) = None)) \<and>
    (\<forall>(b, retention) \<in> {(cf_log_backfill c, sl_retention (sc_log_outbox (cf_state c))),
                         (cf_query_backfill c, qc_retention (cf_query c))}.
       bc_enabled b \<longrightarrow> config_typed b \<and> bc_max_pending b \<le> 100000 \<and> bc_lookback b \<le> retention \<and>
                       bc_cycle_timeout b < bc_interval b)"
proof -
  have ok: "config_ok c" using assms by (rule load_ok)
  have m: "modes_ok (cf_modes c) (cf_query c)" "target_ok (cf_modes c) (cf_query c) (cf_target c)"
    "state_ok (cf_state c)" "backfills_ok c"
    using ok by (simp_all add: config_ok_def)
  have q: "query_config_ok (md_allow_insecure (cf_modes c)) (cf_query c)" if "qc_enabled (cf_query c)"
    using m(1) that by (simp add: modes_ok_def)
  have s: "\<not> query_options_bad (query_store_options c)" if "qc_enabled (cf_query c)"
    using q [OF that] m(2) that
    by (auto simp: query_options_bad_def query_store_options_def query_config_ok_def query_limits_ok_def query_timing_ok_def
        target_ok_def source_ok_def)
  have b: "\<forall>(b, retention) \<in> {(cf_log_backfill c, sl_retention (sc_log_outbox (cf_state c))),
                         (cf_query_backfill c, qc_retention (cf_query c))}.
       bc_enabled b \<longrightarrow> config_typed b \<and> bc_max_pending b \<le> 100000 \<and> bc_lookback b \<le> retention \<and>
                       bc_cycle_timeout b < bc_interval b"
    using m(4) loaded_backfill by (auto simp: backfills_ok_def)
  have o: "options_ok (alert_store_options c)" "options_ok (log_store_options c)"
    using m(3) loaded_limits by (simp_all add: alert_store_options_def log_store_options_def state_ok_def)
  show ?thesis
    by (intro conjI impI; (rule o b s loaded_ddae_client [OF m(1,2)] loaded_query_client [OF q] | assumption)+)
qed

lemma loaded_config_is_accepted_witness:
  "options_ok (alert_store_options example_config) \<and> (\<exists>d. new_client (\<lambda>f. None) example_config = Inr d) \<and>
   (\<exists>k. new_query_client (\<lambda>f. None) (cf_query example_config) (md_allow_insecure (cf_modes example_config)) = Inr k) \<and>
   \<not> (\<exists>d. new_client (\<lambda>f. Some (Plain ''CA invalid'')) example_config = Inr d)"
proof -
  have h: "management (cf_modes example_config)" "qc_enabled (cf_query example_config)"
    by (simp_all add: example_config_def management_def example_modes_def Config_Example.example_query_def)
  show ?thesis
    using loaded_config_is_accepted [OF example_loaded, of "\<lambda>f. None"] h
      loaded_config_is_accepted [OF example_loaded, of "\<lambda>f. Some (Plain ''CA invalid'')"]
    by (simp only: simp_thms option.distinct)
qed

end
