(* ===== verification/Spec2Isabelle.thy ===== *)
theory Spec2Isabelle
  imports Outbox_Events Delivery Alert_Pipeline Log_Pipeline History_Backfill Query_Pipeline Config_Claims Start_Up
begin

text \<open>
  Verification library for the Dell DDAE metrics exporter.

  The program polls the management interface of a DDAE appliance. Resource collectors fill an in-memory
  snapshot that is rendered as metrics and decides readiness. Two pipelines, alerts and serviceability
  logs, list the current objects, fetch the details that are new or due, turn each into an event with a
  canonical JSON form and a content hash, and queue it in a bbolt database; a publisher per pipeline sends
  the queue to Kafka in order and acknowledges what the broker accepted. A third pipeline follows the
  queries of the engine and keeps statistics and events of the finished ones. Backfill workers walk a past
  interval window by window and record what the live polls missed. One configuration opens all of this at
  start-up and a shutdown closes it.

  \<^bold>\<open>Foundations.\<close> \<open>Go_Prelude\<close> (errors as sums, 64-bit integers, instants and durations as integers of
  nanoseconds), \<open>Go_Strings\<close> (bytes, UTF-8, decimal and hexadecimal text), \<open>Go_Parse\<close> (splitting, host and
  port, durations), \<open>Go_Url\<close> (escaping), \<open>Go_Json\<close>, \<open>Go_Json_Text\<close>, \<open>Go_Json_Roundtrip\<close>, \<open>Go_Json_Raw\<close>
  (encoding/json: printing, parsing, decoding into fields, raw members; a repeated member with an array
  replaces the earlier array), \<open>Go_Base64\<close>, \<open>Go_Time\<close>, \<open>Go_Zoned\<close> (RFC 3339 text, instants with an offset),
  \<open>Go_Float\<close> (what the program needs of float64, as a record of operations with laws) and \<open>Go_Sha256\<close> model
  the standard library functions that the sources call. \<open>Bolt\<close> states what the stores rely on in bbolt: the
  record \<open>bolt\<close> holds its operations, \<open>bolt_ok\<close> its documented laws, \<open>update_tx\<close> is \<open>db.Update\<close> with a commit
  that may fail, and \<open>ref_bolt\<close> is an implementation that satisfies the laws, which the witnesses run on.

  \<^bold>\<open>Snapshot\<close> (internal/snapshot, internal/observability): \<open>Snapshot\<close> and \<open>Observability\<close> hold the view, the
  recording operations and readiness; the invariant says that the aggregated flags are the conjunction of
  their parts in every reachable view.

  \<^bold>\<open>Resources and metrics\<close> (internal/ddae/types.go, internal/collector, internal/metrics): \<open>Ddae_Decode\<close> has the
  decoders of the raw responses, \<open>Resource_Collector\<close> their normalization and a cycle over five concurrent
  requests, \<open>Metrics\<close> the descriptors and what a scrape sends. Lemmas: a cycle decides the freshness of each
  family; a scrape has no duplicate metric and only described ones.

  \<^bold>\<open>Alerts\<close> (internal/alerts, internal/outbox, internal/kafka): \<open>Ddae_Types\<close> and \<open>Alert_Event\<close> are the raw
  detail and the event; \<open>Outbox\<close> is the store on its buckets, \<open>Outbox_Spec\<close> the abstract outbox (a map of
  checkpoints and a list of records), \<open>Outbox_Codec\<close>, \<open>Outbox_Inv\<close>, \<open>Outbox_Refine\<close> and \<open>Outbox_Open\<close> the
  representation and the simulation, \<open>Outbox_Props\<close> the properties; \<open>Outbox_Events\<close> shows which built events
  the outbox can store (those with timestamps in the years 0 to 9999 of UTC) and what one of the others does to
  it. \<open>Fair_Select\<close> is \<open>selectFair\<close>,
  \<open>Pipeline_Core\<close> the parts of a poll over any store (locale), \<open>Alert_Pipeline\<close> the poll on the outbox.
  \<open>Kafka_Producer\<close> and \<open>Publisher\<close> are the publisher over any queue (locale) and on the outbox;
  \<open>Delivery\<close> composes the store, failed commits, restarts and the publisher as a step relation, once with any
  valid event and once with what BuildEvent makes of the details.

  \<^bold>\<open>Serviceability logs\<close> (internal/serviceability, internal/logstate, internal/logpublisher): \<open>Log_Event\<close>,
  \<open>Log_Store\<close>, \<open>Log_Spec\<close>, \<open>Log_Refine\<close>, \<open>Log_Props\<close>, \<open>Log_Publisher\<close> and \<open>Log_Pipeline\<close>, in the same order.

  \<^bold>\<open>Queries\<close> (internal/queryclient, internal/querystate, internal/queries): \<open>Query_Types\<close> decodes the engine's
  responses, \<open>Query_Client\<close> logs in and asks; \<open>Query_State\<close> and \<open>Query_Store\<close> are the statistics, checkpoints
  and events with their strict decoders, \<open>Query_Codec\<close>, \<open>Query_Spec\<close>, \<open>Query_Refine\<close> and \<open>Query_Props\<close> the
  representation, the abstract state and the simulation, \<open>Query_Pipeline\<close> polls, flushes and metrics.
  Observed durations are of a type of their own with \<open>float_ops\<close>; clocks have offsets of whole minutes; the
  hash of an event is assumed not to be 32 zero bytes, the value the program uses for none.

  \<^bold>\<open>History\<close> (internal/historystate, internal/historyscan): \<open>History_State\<close> is the progress store with its
  envelope, \<open>History_Props\<close> its round trips; \<open>History_Scan\<close> is the worker over any progress store and any
  source; \<open>History_Coverage\<close> logs what the source listed and recorded and proves the invariant of the scan in
  a locale; \<open>History_Backfill\<close> interprets it on the store and states what a complete history means;
  \<open>History_Recording\<close> is the interface of a source that records into a store of its own;
  \<open>History_Sources\<close> has the two sources, interprets it on both, and follows a log and a query from the
  service's answer into their states.

  \<^bold>\<open>Clients\<close> (internal/ddae): \<open>Ddae_Client\<close> has the allow list, the tokens and the requests with retries over a
  record of network operations, \<open>Token_Flight\<close> the token manager shared by goroutines as a step relation. The
  lemmas on both clients bound what a call may send and where: \<open>logged\<close> networks record the requests.

  \<^bold>\<open>Configuration and start-up\<close> (internal/config, internal/server, internal/app): \<open>Config_Values\<close>,
  \<open>Config_Query\<close>, \<open>Config_Load\<close> (the loader, its settings grouped into records), \<open>Config_File\<close> (the file and the
  layered look-up), \<open>Config_Props\<close>, \<open>Config_Example\<close> and \<open>Config_Claims\<close>; \<open>Http_Server\<close> the handlers,
  \<open>Application\<close> the start as stages with the resources they open and close, the run and the shutdown;
  \<open>Start_Up\<close> what a loaded configuration means for all constructors.

  \<^bold>\<open>Conventions.\<close> Errors and early returns are values. A loop over a Go map takes its order as an argument,
  a worker pool takes the order in which its jobs finish, the clock is an input of each operation, and the
  answers of the network are functions or inputs. \<open>scan_loop\<close> takes fuel: \<open>cycle_fuel\<close> allows two passes
  per page, one per detail and two more, and every cycle is proved to end within it. All other loops are
  total functions with a measure.

  \<^bold>\<open>Not modelled.\<close> HTTP and TLS themselves, cookies, the Kafka client library, the file system calls that open
  a database, logging and the text format of the Prometheus library; the command line, the YAML decoder,
  \<open>url.Parse\<close> and URL references, the table of HTML entities and the quantity parser of Kubernetes are
  arguments of the definitions that use them or left out.
\<close>

end
